(* ===== verification/Prelude.thy ===== *)
theory Prelude
  imports Complex_Main "HOL-Library.Word" "HOL-Library.Char_ord" "HOL-Library.List_Lexorder"
    "HOL-Library.Multiset"
begin

text \<open>
  Shared layer of the development: the C types the sources use, C strings and the
  libc calls on them, binary search and sorting as \<open>bsearch\<close> and \<open>qsort\<close> do them, and the
  named collections the component proofs draw on.

  A \<^verbatim>\<open>char\<close> array that holds text is the list of its characters up to the terminating
  NUL; a raw buffer is the list of all its bytes (\<open>bytes\<close>). A \<^verbatim>\<open>uint32_t\<close> is a
  \<open>32 word\<close>, a \<^verbatim>\<open>time_t\<close> an \<open>int\<close>. A \<^verbatim>\<open>double\<close> that comes out of a
  decimal field of at most fifteen characters is its exact rational value: such decimals
  have at most fifteen significant digits, so two of them are equal or ordered as
  \<^verbatim>\<open>double\<close>s exactly when they are equal or ordered as rationals.
  Undefined behaviour of C (a buffer overrun, a wild pointer) is the value \<open>None\<close>.
\<close>

unbundle bit_operations_syntax

type_synonym bytes = "char list"
type_synonym u32 = "32 word"
type_synonym u64 = "64 word"
type_synonym time_t = int
type_synonym double = rat

named_theorems frame "what an operation leaves unchanged"
named_theorems inv_pres "operations that keep a component's invariant"

lemma map_eqI: "(\<And>k v. m k = Some v \<longleftrightarrow> m' k = Some v) \<Longrightarrow> m = m'"
  by (rule ext) (metis option.exhaust)

subsection \<open>C strings\<close>

abbreviation NUL :: char where
  "NUL \<equiv> CHR 0x00"

text \<open>The C string that starts at the head of a buffer.\<close>

definition cstr :: "bytes \<Rightarrow> string" where
  "cstr b = takeWhile (\<lambda>c. c \<noteq> NUL) b"

lemma cstr_Nil [simp]: "cstr [] = []"
  by (simp add: cstr_def)

lemma cstr_Cons [simp]: "cstr (c # b) = (if c = NUL then [] else c # cstr b)"
  by (simp add: cstr_def)

lemma cstr_no_NUL: "NUL \<notin> set (cstr b)"
  by (induction b) auto

lemma cstr_id: "NUL \<notin> set b \<Longrightarrow> cstr b = b"
  by (induction b) auto

lemma cstr_append: "NUL \<notin> set s \<Longrightarrow> cstr (s @ b) = s @ cstr b"
  by (induction s) auto

lemma cstr_replicate_NUL [simp]: "cstr (replicate n NUL) = []"
  by (cases n) auto

lemma cstr_append_NULs [simp]: "cstr (s @ replicate n NUL) = cstr s"
  by (induction s) auto

lemma length_cstr_le: "length (cstr b) \<le> length b"
  by (simp add: cstr_def length_takeWhile_le)

text \<open>
  \<^verbatim>\<open>strcmp\<close>: the standard fixes the sign of the result only, by the first pair of
  bytes that differ, read as \<^verbatim>\<open>unsigned char\<close>; a proper prefix is smaller.
\<close>

fun strcmp :: "string \<Rightarrow> string \<Rightarrow> int" where
  "strcmp [] [] = 0"
| "strcmp [] (d # t) = -1"
| "strcmp (c # s) [] = 1"
| "strcmp (c # s) (d # t) =
     (if c = d then strcmp s t
      else if (of_char c :: nat) < of_char d then -1 else 1)"

lemma strcmp_sign: "(strcmp s t < 0 \<longleftrightarrow> s < t) \<and> (strcmp s t = 0 \<longleftrightarrow> s = t)"
  by (induction s t rule: strcmp.induct) (auto simp: less_char_def)

lemma strcmp_less_0 [simp]: "strcmp s t < 0 \<longleftrightarrow> s < t"
  and strcmp_eq_0 [simp]: "strcmp s t = 0 \<longleftrightarrow> s = t"
  using strcmp_sign by blast+

subsection \<open>Contract of a comparison function, \<open>bsearch\<close> and \<open>qsort\<close>\<close>

text \<open>
  \<^verbatim>\<open>bsearch\<close> on the first \<open>hi - lo\<close> records from \<open>lo\<close>: the index of a record the
  comparison calls equal to the key, \<open>None\<close> for the null pointer. The loop is the usual one of
  libc: halve the interval, go left on a negative result and right on a positive one.
\<close>

function bsearch_from :: "('a \<Rightarrow> 'a \<Rightarrow> int) \<Rightarrow> 'a \<Rightarrow> 'a list \<Rightarrow> nat \<Rightarrow> nat \<Rightarrow> nat option" where
  "bsearch_from cmp k xs lo hi =
     (if lo < hi then
        let mid = (lo + hi) div 2; c = cmp k (xs ! mid) in
        if c < 0 then bsearch_from cmp k xs lo mid
        else if c > 0 then bsearch_from cmp k xs (Suc mid) hi
        else Some mid
      else None)"
  by pat_completeness auto
termination
  by (relation "measure (\<lambda>(cmp, k, xs, lo, hi). hi - lo)") auto

declare bsearch_from.simps [simp del]

definition bsearch :: "('a \<Rightarrow> 'a \<Rightarrow> int) \<Rightarrow> 'a \<Rightarrow> 'a list \<Rightarrow> nat option" where
  "bsearch cmp k xs = bsearch_from cmp k xs 0 (length xs)"

text \<open>
  \<^verbatim>\<open>qsort\<close>: the records rearranged so that the comparison is ascending. Records that
  compare equal keep their order here, as in the merge sort of glibc; the tables below hold no
  two such records.
\<close>

fun ins_by :: "('a \<Rightarrow> 'a \<Rightarrow> int) \<Rightarrow> 'a \<Rightarrow> 'a list \<Rightarrow> 'a list" where
  "ins_by cmp x [] = [x]"
| "ins_by cmp x (y # ys) = (if cmp x y \<le> 0 then x # y # ys else y # ins_by cmp x ys)"

fun qsort :: "('a \<Rightarrow> 'a \<Rightarrow> int) \<Rightarrow> 'a list \<Rightarrow> 'a list" where
  "qsort cmp [] = []"
| "qsort cmp (x # xs) = ins_by cmp x (qsort cmp xs)"

lemma mset_ins_by: "mset (ins_by cmp x xs) = add_mset x (mset xs)"
  by (induction xs) auto

lemma mset_qsort [simp]: "mset (qsort cmp xs) = mset xs"
  by (induction xs) (auto simp: mset_ins_by)

lemma set_qsort [simp]: "set (qsort cmp xs) = set xs"
  by (metis mset_qsort set_mset_mset)

lemma length_qsort [simp]: "length (qsort cmp xs) = length xs"
  by (metis mset_qsort size_mset)

text \<open>
  A sorted table stands for a map from its keys to its records; inserting a record and sorting, and
  taking a record out, are the updates of that map.
\<close>

definition table_of :: "('a \<Rightarrow> 'k) \<Rightarrow> 'a list \<Rightarrow> 'k \<rightharpoonup> 'a" where
  "table_of key xs = map_of (map (\<lambda>x. (key x, x)) xs)"

lemma table_of_Some_iff:
  assumes "distinct (map key xs)"
  shows "table_of key xs k = Some x \<longleftrightarrow> x \<in> set xs \<and> key x = k"
proof -
  have "distinct (map fst (map (\<lambda>x. (key x, x)) xs))" using assms by (simp add: comp_def)
  from map_of_eq_Some_iff [OF this] show ?thesis by (auto simp: table_of_def)
qed

lemma table_of_None_iff: "table_of key xs k = None \<longleftrightarrow> k \<notin> key ` set xs"
  by (auto simp: table_of_def map_of_eq_None_iff image_iff)

lemma sorted_remove_nth:
  assumes "sorted (map f xs)" "i < length xs"
  shows "sorted (map f (take i xs @ drop (Suc i) xs))"
proof -
  have "sorted (map f (take i xs @ xs ! i # drop (Suc i) xs))"
    using assms by (simp add: id_take_nth_drop [symmetric] del: map_append)
  then show ?thesis by (simp add: sorted_append)
qed

lemma distinct_remove_nth:
  assumes "distinct (map f xs)" "i < length xs"
  shows "distinct (map f (take i xs @ drop (Suc i) xs))"
proof -
  have "distinct (map f (take i xs @ xs ! i # drop (Suc i) xs))"
    using assms by (simp add: id_take_nth_drop [symmetric] del: map_append)
  then show ?thesis by auto
qed

lemma table_of_remove_nth:
  assumes "distinct (map key xs)" "i < length xs"
  shows "table_of key (take i xs @ drop (Suc i) xs) = (table_of key xs)(key (xs ! i) := None)"
proof (rule map_eqI)
  fix k v
  have d: "distinct (map key (take i xs @ drop (Suc i) xs))" by (rule distinct_remove_nth [OF assms])
  have split: "distinct (map key (take i xs @ xs ! i # drop (Suc i) xs))"
    "set xs = insert (xs ! i) (set (take i xs @ drop (Suc i) xs))"
    using assms by (simp_all add: id_take_nth_drop [symmetric] del: map_append set_append)
      (metis Un_insert_right id_take_nth_drop list.simps(15) set_append)
  then have "\<forall>y\<in>set (take i xs @ drop (Suc i) xs). key y \<noteq> key (xs ! i)"
    by (simp add: image_iff) (metis Un_iff)
  with split(2) show "table_of key (take i xs @ drop (Suc i) xs) k = Some v \<longleftrightarrow>
      ((table_of key xs)(key (xs ! i) := None)) k = Some v"
    unfolding table_of_Some_iff [OF d] fun_upd_apply
    using table_of_Some_iff [OF assms(1)] by (auto simp del: set_append)
qed

lemma table_of_update:
  assumes "distinct (map key xs)" "i < length xs" "key x = key (xs ! i)"
  shows "map key (xs[i := x]) = map key xs" "table_of key (xs[i := x]) = (table_of key xs)(key x \<mapsto> x)"
proof -
  show m: "map key (xs[i := x]) = map key xs"
    using assms(2,3) by (simp add: map_update list_update_same_conv)
  have d: "distinct (map key (xs[i := x]))" using assms(1) m by simp
  show "table_of key (xs[i := x]) = (table_of key xs)(key x \<mapsto> x)"
  proof (rule map_eqI)
    fix k v
    have "v \<in> set (xs[i := x]) \<and> key v = k \<longleftrightarrow>
        (if k = key x then v = x else v \<in> set xs \<and> key v = k)"
    proof (cases "k = key x")
      case True
      have x: "x \<in> set (xs[i := x])" using assms(2) by (simp add: set_update_memI)
      show ?thesis using True x d by (auto simp: distinct_map dest: inj_onD)
    next
      case False
      have "v \<in> set (xs[i := x]) \<longleftrightarrow> v \<in> set xs" if "v \<noteq> x" "v \<noteq> xs ! i"
        using that assms(2)
        by (metis in_set_conv_nth length_list_update nth_list_update_eq nth_list_update_neq)
      with False assms(3) show ?thesis by auto
    qed
    then show "table_of key (xs[i := x]) k = Some v \<longleftrightarrow> ((table_of key xs)(key x \<mapsto> x)) k = Some v"
      unfolding table_of_Some_iff [OF d] fun_upd_apply
      using table_of_Some_iff [OF assms(1)] by (simp split: if_split) blast
  qed
qed

lemma card_dom_table_of: "distinct (map key xs) \<Longrightarrow> card (dom (table_of key xs)) = length xs"
proof -
  assume d: "distinct (map key xs)"
  have "dom (table_of key xs) = set (map key xs)"
    by (simp add: table_of_def dom_map_of_conv_image_fst image_image)
  with d show ?thesis by (metis distinct_card length_map)
qed

text \<open>
  The contract both rely on: the comparison orders the records by a key of some linear order.
\<close>

locale c_compare =
  fixes cmp :: "'a \<Rightarrow> 'a \<Rightarrow> int" and key :: "'a \<Rightarrow> 'k::linorder"
  assumes cmp_less: "cmp x y < 0 \<longleftrightarrow> key x < key y"
    and cmp_eq: "cmp x y = 0 \<longleftrightarrow> key x = key y"
begin

lemma cmp_le: "cmp x y \<le> 0 \<longleftrightarrow> key x \<le> key y"
  using cmp_less cmp_eq by (metis order_le_less)

lemma cmp_greater: "0 < cmp x y \<longleftrightarrow> key y < key x"
  using cmp_le by (metis linorder_not_le)

lemma sorted_ins_by: "sorted (map key xs) \<Longrightarrow> sorted (map key (ins_by cmp x xs))"
proof (induction xs)
  case (Cons y ys)
  have "set (ins_by cmp x ys) = insert x (set ys)"
    by (metis mset_ins_by set_mset_add_mset_insert set_mset_mset)
  with Cons show ?case by (auto simp: cmp_le)
qed simp

lemma sorted_qsort: "sorted (map key (qsort cmp xs))"
  by (induction xs) (auto intro: sorted_ins_by)

lemma distinct_qsort: "distinct (map key (qsort cmp xs)) \<longleftrightarrow> distinct (map key xs)"
proof -
  have "mset (map key (qsort cmp xs)) = mset (map key xs)" by simp
  then show ?thesis by (rule mset_eq_imp_distinct_iff)
qed

text \<open>One turn of the loop.\<close>

lemma bsearch_step:
  assumes "lo < hi"
  defines "mid \<equiv> (lo + hi) div 2"
  shows "bsearch_from cmp k xs lo hi =
    (if key k < key (xs ! mid) then bsearch_from cmp k xs lo mid
     else if key (xs ! mid) < key k then bsearch_from cmp k xs (Suc mid) hi
     else Some mid)"
  by (subst bsearch_from.simps) (simp add: assms Let_def cmp_less cmp_greater)

lemma bsearch_from_Some:
  "bsearch_from cmp k xs lo hi = Some i \<Longrightarrow> lo \<le> i \<and> i < hi \<and> key (xs ! i) = key k"
proof (induction "hi - lo" arbitrary: lo hi rule: less_induct)
  case less
  let ?mid = "(lo + hi) div 2"
  have lt: "lo < hi"
    using less.prems by (subst (asm) bsearch_from.simps) (auto split: if_splits)
  then consider "key k < key (xs ! ?mid)" | "key (xs ! ?mid) < key k" | "key (xs ! ?mid) = key k"
    by fastforce
  then show ?case
  proof cases
    case 1
    with less.prems lt have "bsearch_from cmp k xs lo ?mid = Some i" by (simp add: bsearch_step)
    with less.hyps [of ?mid lo] lt show ?thesis by force
  next
    case 2
    with less.prems lt have "bsearch_from cmp k xs (Suc ?mid) hi = Some i"
      by (auto simp: bsearch_step split: if_splits)
    with less.hyps [of hi "Suc ?mid"] lt show ?thesis by force
  next
    case 3
    with less.prems lt show ?thesis by (auto simp: bsearch_step)
  qed
qed

lemma bsearch_from_None:
  "bsearch_from cmp k xs lo hi = None \<Longrightarrow> sorted (map key xs) \<Longrightarrow> hi \<le> length xs \<Longrightarrow>
   lo \<le> i \<Longrightarrow> i < hi \<Longrightarrow> key (xs ! i) \<noteq> key k"
proof (induction "hi - lo" arbitrary: lo hi rule: less_induct)
  case less
  let ?mid = "(lo + hi) div 2"
  have lt: "lo < hi" and mid: "?mid < length xs" using less.prems by auto
  have mono: "key (xs ! a) \<le> key (xs ! b)" if "a \<le> b" "b < length xs" for a b
    using sorted_nth_mono [OF less.prems(2)] that by simp
  consider "key k < key (xs ! ?mid)" | "key (xs ! ?mid) < key k"
    using less.prems(1) lt by (fastforce simp: bsearch_step split: if_splits)
  then show ?case
  proof cases
    case 1
    show ?thesis
    proof (cases "i < ?mid")
      case True
      from 1 less.prems(1) lt have "bsearch_from cmp k xs lo ?mid = None"
        by (simp add: bsearch_step)
      with True less.prems lt show ?thesis by (intro less.hyps [of ?mid lo]) auto
    next
      case False
      with 1 mono [of ?mid i] less.prems show ?thesis by fastforce
    qed
  next
    case 2
    show ?thesis
    proof (cases "i \<le> ?mid")
      case True
      with 2 mono [of i ?mid] mid show ?thesis by fastforce
    next
      case False
      from 2 less.prems(1) lt have "bsearch_from cmp k xs (Suc ?mid) hi = None"
        by (auto simp: bsearch_step split: if_splits)
      with False less.prems lt show ?thesis by (intro less.hyps [of hi "Suc ?mid"]) auto
    qed
  qed
qed

lemma bsearch_Some: "bsearch cmp k xs = Some i \<Longrightarrow> i < length xs \<and> key (xs ! i) = key k"
  using bsearch_from_Some by (fastforce simp: bsearch_def)

lemma bsearch_None:
  "sorted (map key xs) \<Longrightarrow> bsearch cmp k xs = None \<Longrightarrow> x \<in> set xs \<Longrightarrow> key x \<noteq> key k"
  using bsearch_from_None [of k xs 0 "length xs"] by (auto simp: bsearch_def in_set_conv_nth)

text \<open>On a table without duplicate keys the search is a map lookup.\<close>

lemma bsearch_index:
  assumes "sorted (map key xs)" "distinct (map key xs)" "i < length xs" "key (xs ! i) = key k"
  shows "bsearch cmp k xs = Some i"
proof (cases "bsearch cmp k xs")
  case None
  with bsearch_None [OF assms(1) None, of "xs ! i"] assms show ?thesis by simp
next
  case (Some j)
  with bsearch_Some [OF Some] assms show ?thesis
    by (metis length_map nth_eq_iff_index_eq nth_map)
qed

lemma bsearch_iff:
  assumes "sorted (map key xs)" "distinct (map key xs)"
  shows "bsearch cmp k xs = Some i \<longleftrightarrow> i < length xs \<and> key (xs ! i) = key k"
  using assms bsearch_Some bsearch_index by blast

lemma bsearch_None_iff:
  assumes "sorted (map key xs)"
  shows "bsearch cmp k xs = None \<longleftrightarrow> key k \<notin> key ` set xs"
proof
  assume "bsearch cmp k xs = None"
  with assms show "key k \<notin> key ` set xs" by (metis bsearch_None imageE)
next
  assume notin: "key k \<notin> key ` set xs"
  show "bsearch cmp k xs = None"
  proof (cases "bsearch cmp k xs")
    case (Some i)
    from bsearch_Some [OF this] have "key k \<in> key ` set xs" by (metis imageI nth_mem)
    with notin show ?thesis by simp
  qed
qed

lemma table_of_qsort_snoc:
  assumes "distinct (map key xs)" "key x \<notin> key ` set xs"
  shows "table_of key (qsort cmp (xs @ [x])) = (table_of key xs)(key x \<mapsto> x)"
proof (rule map_eqI)
  fix k v
  have d: "distinct (map key (qsort cmp (xs @ [x])))"
    using assms by (simp add: distinct_qsort)
  have new: "\<forall>y\<in>set xs. key y \<noteq> key x" using assms(2) by (metis imageI)
  show "table_of key (qsort cmp (xs @ [x])) k = Some v \<longleftrightarrow>
      ((table_of key xs)(key x \<mapsto> x)) k = Some v"
    using new by (auto simp: table_of_Some_iff [OF d] table_of_Some_iff [OF assms(1)])
qed

lemma table_of_bsearch:
  assumes "sorted (map key xs)" "distinct (map key xs)"
  shows "table_of key xs (key k) = map_option ((!) xs) (bsearch cmp k xs)"
proof (cases "bsearch cmp k xs")
  case None
  then have "key k \<notin> key ` set xs" using bsearch_None_iff [OF assms(1)] by simp
  then show ?thesis using None by (simp add: table_of_None_iff)
next
  case (Some i)
  then show ?thesis using bsearch_Some [OF Some] table_of_Some_iff [OF assms(2)] by simp
qed

end

end
