(* ===== verification/Schema.thy ===== *)
theory Schema
  imports Prelude
begin

text \<open>
  The data of the monitor: \<^verbatim>\<open>src/inc/schema.h\<close> (the record kept per symbol in shared
  memory), \<^verbatim>\<open>src/inc/config.h\<close> and \<^verbatim>\<open>src/inc/context.h\<close> (configuration, port and
  archive header) and the flag words of \<^verbatim>\<open>src/inc/main.h\<close>. Every member keeps its C name
  behind a one-letter prefix of its struct (\<^verbatim>\<open>m_\<close> MDMSTR, \<^verbatim>\<open>q_\<close> MDQUOT, \<^verbatim>\<open>d_\<close> MDDEPT,
  \<^verbatim>\<open>s_\<close> MDSTAT, \<^verbatim>\<open>f_\<close> FOLDER, \<^verbatim>\<open>p_\<close> PORT, \<^verbatim>\<open>c_\<close> CONFIG, \<^verbatim>\<open>a_\<close> MDARCH), since several
  structs share member names. The zero records are what \<^verbatim>\<open>memset\<close> to 0 leaves.
  Of PORT the socket members and the traffic statistics, which no source file reads or writes
  outside the socket calls, are left out.
\<close>

subsection \<open>Flag words (\<^verbatim>\<open>main.h\<close>)\<close>

definition OLD_FORMAT :: u32 where "OLD_FORMAT = 0x0000001"
definition EXT_FORMAT :: u32 where "EXT_FORMAT = 0x0000002"
definition HANA_FORMAT :: u32 where "HANA_FORMAT = 0x0000004"
definition NEW_FORMAT :: u32 where "NEW_FORMAT = 0x0000008"
definition MASTER :: u32 where "MASTER = 0x0000010"
definition TRADE :: u32 where "TRADE = 0x0000020"
definition STOCK :: u32 where "STOCK = 0x0000040"
definition FUTURE :: u32 where "FUTURE = 0x0000080"
definition OPTION :: u32 where "OPTION = 0x0000100"
definition SPREAD :: u32 where "SPREAD = 0x0000200"
definition WAREHOUSE :: u32 where "WAREHOUSE = 0x0000400"
definition STATUS :: u32 where "STATUS = 0x0000800"
definition QUOTE :: u32 where "QUOTE = 0x0001000"
definition CANCEL :: u32 where "CANCEL = 0x0002000"
definition SETTLE :: u32 where "SETTLE = 0x0004000"
definition CLOSE :: u32 where "CLOSE = 0x0008000"
definition OINT :: u32 where "OINT = 0x0010000"
definition DEPTH :: u32 where "DEPTH = 0x0020000"
definition FND :: u32 where "FND = 0x0040000"
definition MAVG :: u32 where "MAVG = 0x0080000"
definition OFFI :: u32 where "OFFI = 0x0100000"
definition WARE :: u32 where "WARE = 0x0200000"
definition VOLM :: u32 where "VOLM = 0x0400000"
definition LME :: u32 where "LME = 0x0800000"
definition NONE :: u32 where "NONE = 0x1000000"

lemmas class_flags =
  OLD_FORMAT_def EXT_FORMAT_def HANA_FORMAT_def NEW_FORMAT_def MASTER_def TRADE_def STOCK_def FUTURE_def OPTION_def SPREAD_def WAREHOUSE_def STATUS_def
  QUOTE_def CANCEL_def SETTLE_def CLOSE_def OINT_def DEPTH_def FND_def MAVG_def OFFI_def WARE_def VOLM_def LME_def NONE_def

text \<open>C's \<open>tag & flag\<close> as a truth value.\<close>

definition has :: "u32 \<Rightarrow> u32 \<Rightarrow> bool" where
  "has tag flag \<longleftrightarrow> tag AND flag \<noteq> 0"

definition FL_MUST :: int where "FL_MUST = 0"
definition FL_ERROR :: int where "FL_ERROR = 1"
definition FL_WARNING :: int where "FL_WARNING = 2"
definition FL_PROGRESS :: int where "FL_PROGRESS = 3"
definition FL_DEBUG :: int where "FL_DEBUG = 4"

definition NOT_RECEIVED :: string where
  "NOT_RECEIVED = ''DAKLWalds1231ADLKNND455LADNL''"

subsection \<open>Market data records (\<^verbatim>\<open>schema.h\<close>)\<close>

record MDMSTR =
  m_symb       :: string
  m_root       :: string
  m_symb_desc  :: string
  m_exch_code  :: string
  m_curr       :: string
  m_prod       :: string
  m_otyp       :: string
  m_stcu       :: string
  m_flsm       :: string
  m_slsm       :: string
  m_legs       :: string
  m_isin       :: string
  m_sedo       :: string
  m_ucod       :: string
  m_pinc       :: double
  m_pmul       :: double
  m_setp       :: double
  m_last       :: double
  m_tick       :: double
  m_strp       :: double
  m_flmy       :: u32
  m_slmy       :: u32
  m_ftdt       :: u32
  m_ltdt       :: u32
  m_fddt       :: u32
  m_lddt       :: u32
  m_fndt       :: u32
  m_bsdt       :: u32
  m_ptdt       :: u32
  m_stdt       :: u32
  m_cvol       :: u32
  m_oint       :: u32
  m_styp       :: u32
  m_main_f     :: int
  m_sub_f      :: int
  m_zdiv       :: int
  m_seqn       :: int
  m_updated_at :: time_t
  m_created_at :: time_t

record MDQUOT =
  q_symb       :: string
  q_stat       :: string
  q_tqty       :: u32
  q_tvol       :: u32
  q_opin       :: u32
  q_trdt       :: u32
  q_trtm       :: u32
  q_date       :: u32
  q_open       :: double
  q_high       :: double
  q_low        :: double
  q_last       :: double
  q_diff       :: double
  q_pask       :: double
  q_pbid       :: double
  q_uoffi_b    :: double
  q_uoffi_s    :: double
  q_offi_b     :: double
  q_offi_s     :: double
  q_wclose     :: int
  q_wopen      :: int
  q_wincday    :: int
  q_woutcday   :: int
  q_wchg       :: int
  q_wwclos     :: int
  q_wwcanl     :: int
  q_ytvol      :: int
  q_culmvol    :: int
  q_prevvol    :: int
  q_updated_at :: time_t
  q_open_time  :: time_t
  q_high_time  :: time_t
  q_low_time   :: time_t

record BBOOK =
  b_price :: double
  b_total :: u32
  b_qtqy  :: u32

record MDDEPT =
  d_symb       :: string
  d_dpdt       :: u32
  d_dptm       :: u32
  d_ask        :: "BBOOK list"
  d_bid        :: "BBOOK list"
  d_cross_cnt  :: u32
  d_updated_at :: time_t

record MDSTAT =
  s_symb       :: string
  s_bsdt       :: u32
  s_status     :: int
  s_updated_at :: time_t

record FOLDER =
  f_symb       :: string
  f_hostname   :: string
  f_created_at :: time_t
  f_mstr       :: MDMSTR
  f_quote      :: MDQUOT
  f_settle     :: "MDQUOT list"
  f_close      :: MDQUOT
  f_cancel     :: MDQUOT
  f_oint       :: MDQUOT
  f_mavg       :: MDQUOT
  f_offi       :: MDQUOT
  f_ware       :: MDQUOT
  f_volm       :: MDQUOT
  f_depth      :: MDDEPT
  f_status     :: MDSTAT

definition DEPTH_LEVEL :: nat where "DEPTH_LEVEL = 10"

definition mstr0 :: MDMSTR where
  "mstr0 = \<lparr>
    m_symb = [], m_root = [], m_symb_desc = [], m_exch_code = [], m_curr = [], m_prod = [],
    m_otyp = [], m_stcu = [], m_flsm = [], m_slsm = [], m_legs = [], m_isin = [], m_sedo = [],
    m_ucod = [], m_pinc = 0, m_pmul = 0, m_setp = 0, m_last = 0, m_tick = 0, m_strp = 0,
    m_flmy = 0, m_slmy = 0, m_ftdt = 0, m_ltdt = 0, m_fddt = 0, m_lddt = 0, m_fndt = 0,
    m_bsdt = 0, m_ptdt = 0, m_stdt = 0, m_cvol = 0, m_oint = 0, m_styp = 0, m_main_f = 0,
    m_sub_f = 0, m_zdiv = 0, m_seqn = 0, m_updated_at = 0, m_created_at = 0 \<rparr>"

definition quot0 :: MDQUOT where
  "quot0 = \<lparr>
    q_symb = [], q_stat = [], q_tqty = 0, q_tvol = 0, q_opin = 0, q_trdt = 0, q_trtm = 0,
    q_date = 0, q_open = 0, q_high = 0, q_low = 0, q_last = 0, q_diff = 0, q_pask = 0,
    q_pbid = 0, q_uoffi_b = 0, q_uoffi_s = 0, q_offi_b = 0, q_offi_s = 0, q_wclose = 0,
    q_wopen = 0, q_wincday = 0, q_woutcday = 0, q_wchg = 0, q_wwclos = 0, q_wwcanl = 0,
    q_ytvol = 0, q_culmvol = 0, q_prevvol = 0, q_updated_at = 0, q_open_time = 0,
    q_high_time = 0, q_low_time = 0 \<rparr>"

definition book0 :: BBOOK where
  "book0 = \<lparr> b_price = 0, b_total = 0, b_qtqy = 0 \<rparr>"

definition dept0 :: MDDEPT where
  "dept0 = \<lparr>
    d_symb = [], d_dpdt = 0, d_dptm = 0, d_ask = replicate DEPTH_LEVEL book0,
    d_bid = replicate DEPTH_LEVEL book0, d_cross_cnt = 0, d_updated_at = 0 \<rparr>"

definition stat0 :: MDSTAT where
  "stat0 = \<lparr>
    s_symb = [], s_bsdt = 0, s_status = 0, s_updated_at = 0 \<rparr>"

definition fold0 :: FOLDER where
  "fold0 = \<lparr>
    f_symb = [], f_hostname = [], f_created_at = 0, f_mstr = mstr0, f_quote = quot0,
    f_settle = replicate 4 quot0, f_close = quot0, f_cancel = quot0, f_oint = quot0,
    f_mavg = quot0, f_offi = quot0, f_ware = quot0, f_volm = quot0, f_depth = dept0,
    f_status = stat0 \<rparr>"

subsection \<open>Configuration, port and archive (\<^verbatim>\<open>config.h\<close>, \<^verbatim>\<open>context.h\<close>)\<close>

definition MAX_PORT :: nat where "MAX_PORT = 64"
definition MAX_TIME :: nat where "MAX_TIME = 10"

record SETTINGS =
  st_name     :: string
  st_type     :: string
  st_desc     :: string
  st_timezone :: string
  st_room     :: int
  st_logLevel :: int

record RAW_DATA =
  r_max_date    :: int
  r_depth_log   :: int
  r_cross_check :: int

text \<open>One reception period: a range of weekdays and a daily time window.\<close>

record TIME =
  wday_start   :: string
  wday_end     :: string
  window_start :: string
  window_end   :: string

text \<open>
  \<^verbatim>\<open>recv_switch[7][24][60]\<close> is one block of 10080 \<^verbatim>\<open>int\<close>s; the model keeps it as the
  function from the position in that block, \<open>1440 * wday + 60 * hour + min\<close>.
\<close>

record PORT =
  p_seqn          :: nat
  p_running       :: bool
  p_alert         :: bool
  p_name          :: string
  p_host          :: string
  p_nic_name      :: string
  p_nic_address   :: string
  p_type          :: string
  p_format        :: string
  p_ipad          :: string
  p_port          :: int
  p_intv          :: int
  p_times         :: "TIME list"
  p_ntime         :: nat
  p_ipc_name      :: string
  p_recv_switch   :: "nat \<Rightarrow> int"
  p_last_received :: time_t
  p_alert_count   :: int
  p_trade_status  :: int
  p_master_status :: int

record CONFIG =
  c_settings :: SETTINGS
  c_raw_data :: RAW_DATA
  c_ports    :: "PORT list"
  c_nport    :: nat

record HOLIDAY =
  h_name       :: string
  h_date       :: string
  h_is_holiday :: int
  h_is_alert   :: int

record MDARCH =
  a_config      :: CONFIG
  a_holiday     :: HOLIDAY
  a_flag        :: int
  a_mrec        :: nat
  a_vrec        :: nat
  a_mstr_update :: "int list"
  a_mstr_flag   :: int

subsection \<open>Messages sent out and the process descriptor (\<^verbatim>\<open>main.h\<close>)\<close>

text \<open>
  Text of an alert or a log line. \<open>Text\<close> is a message built with \<^verbatim>\<open>%s\<close> only, spelled out.
  The others stand for the fixed messages of \<^verbatim>\<open>cross_check\<close>, of the reception check and of a full
  table, with the values they print through \<^verbatim>\<open>%f\<close> and \<^verbatim>\<open>%d\<close>.
\<close>

datatype alert_text =
    Text string
  | AskCross string nat double double
  | BidCross string nat double double
  | TopCross string double double
  | TooManyCross string
  | NoDataFor int
  | DataRecovered int
  | MasterMissing
  | TableFull nat nat

text \<open>
  What a process does to the outside world, in order: a line for the log file (\<^verbatim>\<open>fep_log\<close>), a line
  for the quote log (\<^verbatim>\<open>quote_log\<close>), an alert handed to the alert server, a quote or depth
  snapshot handed to the push broker (\<^verbatim>\<open>fep_push\<close>); a directory made, a line written to a dump
  file (\<open>True\<close> when the file is emptied first) and a file removed (\<^verbatim>\<open>monlog.c\<close>).
\<close>

datatype event =
    EvLog int string alert_text
  | EvQuoteLog string u32 string
  | EvAlert alert_text
  | EvPush FOLDER nat
  | EvMkdir string
  | EvDump string bool string
  | EvUnlink string

record FEP =
  fep_exnm     :: string
  fep_procname :: string
  fep_config   :: CONFIG
  fep_whoami   :: int
  fep_attached :: bool \<comment> \<open>\<^verbatim>\<open>arch\<close> is not the null pointer\<close>
  fep_arch     :: MDARCH
  fep_fold     :: "FOLDER list" \<comment> \<open>the \<^verbatim>\<open>room\<close> records after the header in shared memory\<close>
  fep_out      :: "event list" \<comment> \<open>the effects so far, oldest first\<close>

text \<open>Shorthands for the two parts of the archive the operations work on.\<close>

abbreviation vrec :: "FEP \<Rightarrow> nat" where "vrec fep \<equiv> a_vrec (fep_arch fep)"
abbreviation mrec :: "FEP \<Rightarrow> nat" where "mrec fep \<equiv> a_mrec (fep_arch fep)"

subsection \<open>A cleared segment\<close>

text \<open>
  What a process holds right after it has created the segment for \<open>room\<close> folders: everything
  cleared, \<open>mrec\<close> set. Witnesses start here.
\<close>

definition config0 :: CONFIG where
  "config0 = \<lparr>
    c_settings = \<lparr> st_name = ''FCME'', st_type = [], st_desc = [], st_timezone = [],
                   st_room = 0, st_logLevel = FL_ERROR \<rparr>,
    c_raw_data = \<lparr> r_max_date = 0, r_depth_log = 0, r_cross_check = 0 \<rparr>,
    c_ports = [], c_nport = 0 \<rparr>"

definition arch0 :: "nat \<Rightarrow> MDARCH" where
  "arch0 room = \<lparr> a_config = config0,
    a_holiday = \<lparr> h_name = [], h_date = [], h_is_holiday = 0, h_is_alert = 0 \<rparr>,
    a_flag = 0, a_mrec = room, a_vrec = 0, a_mstr_update = replicate MAX_PORT 0,
    a_mstr_flag = 0 \<rparr>"

definition fep0 :: "nat \<Rightarrow> FEP" where
  "fep0 room = \<lparr> fep_exnm = ''FCME'', fep_procname = ''monfep'', fep_config = config0,
    fep_whoami = 2, fep_attached = True, fep_arch = arch0 room,
    fep_fold = replicate room fold0, fep_out = [] \<rparr>"

definition port0 :: PORT where
  "port0 = \<lparr> p_seqn = 1, p_running = True, p_alert = True, p_name = ''P1'', p_host = ''H1'',
    p_nic_name = [], p_nic_address = [], p_type = ''T'', p_format = ''OLD'', p_ipad = [],
    p_port = 0, p_intv = 10, p_times = [], p_ntime = 0, p_ipc_name = [],
    p_recv_switch = (\<lambda>_. 0), p_last_received = 0, p_alert_count = 0, p_trade_status = 0,
    p_master_status = 0 \<rparr>"

lemmas cleared_defs = config0_def arch0_def fep0_def port0_def

end
