(* ===== verification/TextFields.thy ===== *)
theory TextFields
  imports Schema
begin

text \<open>
  Fixed-width text fields: the conversions \<^verbatim>\<open>STR2STR\<close>, \<^verbatim>\<open>STR2INT\<close>, \<^verbatim>\<open>STR2UINT\<close> and
  \<^verbatim>\<open>STR2FLOAT\<close> of \<^verbatim>\<open>src/mon/monmap.c\<close>, \<^verbatim>\<open>null_to_space\<close> of \<^verbatim>\<open>src/lib/main/log.c\<close>, and the libc
  calls \<^verbatim>\<open>atoi\<close> and \<^verbatim>\<open>atof\<close> they use. The conversions are given a field (its bytes) and
  the \<^verbatim>\<open>size\<close> argument; every caller passes the address of a member of a live object for both
  pointers, so the tests for the null pointer never fire and only the test on \<open>size\<close> is kept.

  \<^verbatim>\<open>atoi\<close> is glibc's: \<^verbatim>\<open>strtol\<close> with base 10, saturating at the 64-bit limits, cut down to
  an \<^verbatim>\<open>int\<close>. \<^verbatim>\<open>atof\<close> reads an optional sign, digits with an optional point and an
  optional decimal exponent; the spellings for hexadecimal, infinity and NaN, which the feeds do
  not use, are read as far as they are decimal.
\<close>

subsection \<open>libc\<close>

definition isspace :: "char \<Rightarrow> bool" where
  "isspace c \<longleftrightarrow> (let n = of_char c :: nat in n = 32 \<or> (9 \<le> n \<and> n \<le> 13))"

definition isdigit :: "char \<Rightarrow> bool" where
  "isdigit c \<longleftrightarrow> (let n = of_char c :: nat in 48 \<le> n \<and> n \<le> 57)"

definition digit_val :: "char \<Rightarrow> nat" where
  "digit_val c = of_char c - 48"

fun digits_val :: "nat \<Rightarrow> string \<Rightarrow> nat" where
  "digits_val acc [] = acc"
| "digits_val acc (c # s) = (if isdigit c then digits_val (10 * acc + digit_val c) s else acc)"

text \<open>The sign, if any, and the rest.\<close>

fun sign_of :: "string \<Rightarrow> bool \<times> string" where
  "sign_of [] = (False, [])"
| "sign_of (c # s) =
     (if c = CHR ''-'' then (True, s) else if c = CHR ''+'' then (False, s) else (False, c # s))"

definition strtol :: "string \<Rightarrow> int" where
  "strtol s =
     (let (neg, t) = sign_of (dropWhile isspace s);
          v = int (digits_val 0 t)
      in max (- (2 ^ 63)) (min (2 ^ 63 - 1) (if neg then - v else v)))"

definition atoi :: "string \<Rightarrow> int" where
  "atoi s = sint (word_of_int (strtol s) :: 32 word)"

definition frac_val :: "string \<Rightarrow> rat" where
  "frac_val ds = rat_of_nat (digits_val 0 ds) / 10 ^ length ds"

definition exponent_of :: "string \<Rightarrow> int" where
  "exponent_of s =
     (case s of
        [] \<Rightarrow> 0
      | c # t \<Rightarrow>
          if c = CHR ''e'' \<or> c = CHR ''E'' then
            (let (neg, u) = sign_of t; e = int (digits_val 0 u) in if neg then - e else e)
          else 0)"

definition scale10 :: "int \<Rightarrow> rat \<Rightarrow> rat" where
  "scale10 e x = (if 0 \<le> e then x * 10 ^ nat e else x / 10 ^ nat (- e))"

definition atof :: "string \<Rightarrow> double" where
  "atof s =
     (let (neg, t) = sign_of (dropWhile isspace s);
          ip = takeWhile isdigit t;
          r1 = dropWhile isdigit t;
          (fp, r2) = (case r1 of
              [] \<Rightarrow> ([], [])
            | c # u \<Rightarrow> if c = CHR ''.'' then (takeWhile isdigit u, dropWhile isdigit u)
                     else ([], r1));
          v = rat_of_nat (digits_val 0 ip) + frac_val fp;
          x = (if ip = [] \<and> fp = [] then 0 else scale10 (exponent_of r2) v)
      in if neg then - x else x)"

subsection \<open>\<^verbatim>\<open>STR2STR\<close> and its kin\<close>

text \<open>The bytes left of the trailing blanks.\<close>

definition rstrip :: "bytes \<Rightarrow> bytes" where
  "rstrip b = rev (dropWhile (\<lambda>c. c = CHR '' '') (rev b))"

text \<open>
  What \<^verbatim>\<open>STR2STR\<close> leaves in the destination array: the bytes of the field, its trailing
  blanks overwritten by NULs, and one NUL after them.
\<close>

definition str2buf :: "bytes \<Rightarrow> bytes" where
  "str2buf b = rstrip b @ replicate (length b + 1 - length (rstrip b)) NUL"

definition STR2STR :: "string \<Rightarrow> bytes \<Rightarrow> int \<Rightarrow> int \<times> string" where
  "STR2STR to from sz =
     (if sz \<le> 0 then (-1, to) else (0, cstr (str2buf (take (nat sz) from))))"

definition STR2INT :: "int \<Rightarrow> bytes \<Rightarrow> int \<Rightarrow> int \<times> int" where
  "STR2INT to from sz =
     (if sz \<le> 0 then (-1, to) else (0, atoi (snd (STR2STR [] from sz))))"

definition STR2UINT :: "u32 \<Rightarrow> bytes \<Rightarrow> int \<Rightarrow> int \<times> u32" where
  "STR2UINT to from sz =
     (if sz \<le> 0 then (-1, to) else (0, word_of_int (atoi (snd (STR2STR [] from sz)))))"

definition STR2FLOAT :: "double \<Rightarrow> bytes \<Rightarrow> int \<Rightarrow> int \<times> double" where
  "STR2FLOAT to from sz =
     (if sz \<le> 0 then (-1, to) else (0, atof (snd (STR2STR [] from sz))))"

text \<open>\<^verbatim>\<open>null_to_space\<close>: the first \<open>msgl\<close> bytes with every NUL made a blank.\<close>

definition null_to_space :: "bytes \<Rightarrow> int \<Rightarrow> bytes" where
  "null_to_space msgb msgl =
     map (\<lambda>c. if c = NUL then CHR '' '' else c) (take (nat msgl) msgb) @ drop (nat msgl) msgb"

subsection \<open>Facts on the conversions\<close>

lemma rstrip_append_blank [simp]: "rstrip (b @ [CHR '' '']) = rstrip b"
  by (simp add: rstrip_def)

lemma rstrip_snoc: "c \<noteq> CHR '' '' \<Longrightarrow> rstrip (b @ [c]) = b @ [c]"
  by (simp add: rstrip_def)

lemma rstrip_blanks [simp]: "rstrip (b @ replicate n CHR '' '') = rstrip b"
proof (induction n)
  case (Suc n)
  have "b @ replicate (Suc n) CHR '' '' = (b @ replicate n CHR '' '') @ [CHR '' '']"
    by (simp add: replicate_append_same)
  with Suc show ?case by (metis rstrip_append_blank)
qed simp

lemma rstrip_prefix: "\<exists>n. b = rstrip b @ replicate n CHR '' ''"
proof (induction b rule: rev_induct)
  case (snoc c b)
  show ?case
  proof (cases "c = CHR '' ''")
    case True
    from snoc obtain n where "b = rstrip b @ replicate n CHR '' ''" ..
    with True have "b @ [c] = rstrip (b @ [c]) @ replicate (Suc n) CHR '' ''"
      by (metis append_assoc replicate_append_same replicate_Suc rstrip_append_blank)
    then show ?thesis ..
  next
    case False
    then show ?thesis by (intro exI [of _ 0]) (simp add: rstrip_snoc)
  qed
qed (simp add: rstrip_def)

lemma length_rstrip_le: "length (rstrip b) \<le> length b"
  by (metis rstrip_prefix length_append le_add1)

lemma rstrip_idem [simp]: "rstrip (rstrip b) = rstrip b"
  by (metis rstrip_prefix rstrip_blanks)

lemma rstrip_last: "rstrip b \<noteq> [] \<Longrightarrow> last (rstrip b) \<noteq> CHR '' ''"
proof (induction b rule: rev_induct)
  case (snoc c b)
  then show ?case by (cases "c = CHR '' ''") (auto simp: rstrip_snoc)
qed (simp add: rstrip_def)

lemma STR2STR_eq: "0 < sz \<Longrightarrow> snd (STR2STR to from sz) = cstr (rstrip (take (nat sz) from))"
  by (simp add: STR2STR_def str2buf_def)

text \<open>A text without a NUL and without a blank at its end comes back from a padded field.\<close>

lemma rstrip_id: "s = [] \<or> last s \<noteq> CHR '' '' \<Longrightarrow> rstrip s = s"
  by (cases s rule: rev_cases) (auto simp: rstrip_def)

lemma STR2STR_padded:
  assumes "NUL \<notin> set s" and "s = [] \<or> last s \<noteq> CHR '' ''" and "0 < length s + n"
  shows "STR2STR to (s @ replicate n CHR '' '') (int (length s + n)) = (0, s)"
proof -
  have "\<not> int (length s + n) \<le> 0" using assms(3) by linarith
  with assms show ?thesis by (simp add: STR2STR_def str2buf_def cstr_append rstrip_id del: of_nat_add)
qed

subsection \<open>Printing\<close>

text \<open>Decimal digits as \<^verbatim>\<open>printf\<close> writes them.\<close>

definition digit :: "nat \<Rightarrow> char" where
  "digit n = char_of (48 + n mod 10)"

definition two_digits :: "nat \<Rightarrow> string" where
  "two_digits n = [digit (n div 10), digit n]"

fun decimal :: "nat \<Rightarrow> string" where
  "decimal n = (if n < 10 then [digit n] else decimal (n div 10) @ [digit (n mod 10)])"

declare decimal.simps [simp del]

definition show_int :: "int \<Rightarrow> string" where
  "show_int n = (if n < 0 then ''-'' @ decimal (nat (- n)) else decimal (nat n))"

text \<open>\<open>%0nd\<close>.\<close>

definition pad0 :: "nat \<Rightarrow> int \<Rightarrow> string" where
  "pad0 n v = (let d = decimal (nat \<bar>v\<bar>); sign = (if v < 0 then ''-'' else [])
     in sign @ replicate (n - length sign - length d) (CHR ''0'') @ d)"

lemma decimal_digit: "n < 10 \<Longrightarrow> decimal n = [digit n]"
  by (subst decimal.simps) simp

lemma length_decimal: "n < 100 \<Longrightarrow> length (decimal n) \<le> 2"
proof -
  assume "n < 100"
  then have "n div 10 < 10" by linarith
  then show ?thesis by (simp add: decimal.simps [of n] decimal.simps [of "n div 10"])
qed

end
