(* ===== verification/Terminal.thy ===== *)
theory Terminal
  imports TextFields "HOL-Library.Signed_Division" "HOL-Library.Monad_Syntax"
begin

unbundle bit_operations_syntax

text \<open>
  The terminal library of the viewer, \<^verbatim>\<open>src/lib/pen/term.c\<close> with \<^verbatim>\<open>src/inc/pen.h\<close>: a copy of
  the screen in memory, the named fields on it, and the escape sequences that bring the terminal to
  the state of the copy.

  \<open>PEN\<close> holds the library's variables; the arrays of the screen are functions of the address,
  and an access behind their end is undefined (\<open>None\<close>). \<open>TTY\<close> is the terminal itself, as the
  standard describes it for the sequences used: a cell is a character with the rendition codes it was
  written with, and an erased cell is a blank with the codes of attribute 0, since neither underline
  nor reverse show on it. Text beyond the right margin would wrap and is undefined. The column of
  the cursor is the number of columns plus one when the last column has been written. \<^verbatim>\<open>cursaddr\<close> and
  \<^verbatim>\<open>focused\<close> are \<open>None\<close> for -1. The static \<^verbatim>\<open>escbuf\<close> is the sequence being sent; a
  character takes one cell. The mutex, the terminal modes of \<^verbatim>\<open>openterm\<close> and \<^verbatim>\<open>closeterm\<close>, the
  mouse mode and the saved cursor positions are left out.
\<close>

subsection \<open>The terminal\<close>

record TTY =
  t_cell :: "nat \<Rightarrow> nat \<Rightarrow> char \<times> nat list"
  t_cur  :: "nat \<times> nat"
  t_rend :: "nat list"
  t_cols :: nat

definition blank :: "char \<times> nat list" where
  "blank = (CHR '' '', [37])"

definition tty_goto :: "nat \<Rightarrow> nat \<Rightarrow> TTY \<Rightarrow> TTY" where
  "tty_goto r c tty = tty\<lparr>t_cur := (r, c)\<rparr>"

definition tty_put :: "string \<Rightarrow> TTY \<Rightarrow> TTY option" where
  "tty_put s tty =
     (case t_cur tty of (r, c) \<Rightarrow>
        if s = [] then Some tty
        else if c + length s > t_cols tty + 1 then None
        else Some (tty\<lparr>
          t_cell := (\<lambda>r' c'. if r' = r \<and> c \<le> c' \<and> c' < c + length s then (s ! (c' - c), t_rend tty)
                            else t_cell tty r' c'),
          t_cur := (r, c + length s)\<rparr>))"

text \<open>\<open>\033[J\<close>, \<open>\033[K\<close> and \<open>\033[L\<close>.\<close>

definition tty_erase_below :: "TTY \<Rightarrow> TTY" where
  "tty_erase_below tty =
     (case t_cur tty of (r, c) \<Rightarrow>
        tty\<lparr>t_cell := (\<lambda>r' c'. if r' > r \<or> r' = r \<and> c \<le> c' then blank else t_cell tty r' c')\<rparr>)"

definition tty_erase_line :: "TTY \<Rightarrow> TTY" where
  "tty_erase_line tty =
     (case t_cur tty of (r, c) \<Rightarrow>
        tty\<lparr>t_cell := (\<lambda>r' c'. if r' = r \<and> c \<le> c' then blank else t_cell tty r' c')\<rparr>)"

definition tty_insert_line :: "TTY \<Rightarrow> TTY" where
  "tty_insert_line tty =
     (case t_cur tty of (r, c) \<Rightarrow>
        tty\<lparr>t_cell := (\<lambda>r' c'. if r' < r then t_cell tty r' c' else if r' = r then blank
                              else t_cell tty (r' - 1) c')\<rparr>)"

subsection \<open>State\<close>

definition DEF_ROW :: nat where "DEF_ROW = 80"
definition DEF_COL :: nat where "DEF_COL = 250"
definition DEF_SIZ :: nat where "DEF_SIZ = DEF_ROW * DEF_COL"
definition FT_INPUT :: int where "FT_INPUT = 1"
definition FT_OUTPUT :: int where "FT_OUTPUT = 2"
definition FT_INOUT :: int where "FT_INOUT = 3"
definition FLD_IS_SYMB :: u32 where "FLD_IS_SYMB = 1"
definition FLD_IS_LEFT :: u32 where "FLD_IS_LEFT = 2"
definition FA_UNDERLINE :: u32 where "FA_UNDERLINE = 1"
definition FA_BOLD :: u32 where "FA_BOLD = 2"
definition FA_REVERSE :: u32 where "FA_REVERSE = 4"
definition FA_BLINK :: u32 where "FA_BLINK = 8"
definition FC_COLOR :: u32 where "FC_COLOR = 0x0f00"
definition F_COLOR :: "u32 \<Rightarrow> u32" where "F_COLOR x = push_bit 8 x"
definition COLOR_F :: "u32 \<Rightarrow> u32" where "COLOR_F x = drop_bit 8 x AND 0x0f"

definition POS :: "nat \<Rightarrow> nat \<Rightarrow> nat" where "POS r c = (r - 1) * DEF_COL + c - 1"
definition ROW :: "nat \<Rightarrow> nat" where "ROW x = x div DEF_COL + 1"
definition COL :: "nat \<Rightarrow> nat" where "COL x = x mod DEF_COL + 1"

text \<open>\<^verbatim>\<open>struct field\<close>, the description of a field or a text of a form.\<close>

record field =
  fd_type :: int
  fd_name :: string
  fd_row  :: int
  fd_col  :: int
  fd_len  :: int
  fd_msg  :: string
  fd_att  :: u32
  fd_seq  :: int
  fd_chk  :: u32

text \<open>\<^verbatim>\<open>struct fldmap\<close>; the type, row, column and length have one byte.\<close>

record fldmap =
  fm_name :: string
  fm_type :: nat
  fm_row  :: nat
  fm_col  :: nat
  fm_len  :: nat
  fm_seq  :: nat
  fm_att  :: u32
  fm_chk  :: u32
  fm_when :: time_t

record PEN =
  max_row     :: nat
  max_col     :: nat
  scrn_char   :: "nat \<Rightarrow> char"
  scrn_xref   :: "nat \<Rightarrow> u32"
  scrn_xpos   :: "nat \<Rightarrow> nat"
  scrn_type   :: "nat \<Rightarrow> nat"
  cursaddr    :: "nat option"
  attribute   :: u32
  field_seq   :: nat
  s_fldmap    :: "fldmap list"
  m_fldmap    :: nat
  no_of_input :: nat
  focused     :: "nat option"
  visible     :: bool
  p_tty       :: TTY

abbreviation max_siz :: "PEN \<Rightarrow> nat" where "max_siz t \<equiv> max_row t * max_col t"

text \<open>\<^verbatim>\<open>memset\<close> and \<^verbatim>\<open>memcpy\<close> on an array of the screen.\<close>

definition fill :: "nat \<Rightarrow> nat \<Rightarrow> 'a \<Rightarrow> (nat \<Rightarrow> 'a) \<Rightarrow> (nat \<Rightarrow> 'a)" where
  "fill a n x m = (\<lambda>i. if a \<le> i \<and> i < a + n then x else m i)"

definition write_at :: "nat \<Rightarrow> 'a list \<Rightarrow> (nat \<Rightarrow> 'a) \<Rightarrow> (nat \<Rightarrow> 'a)" where
  "write_at a xs m = (\<lambda>i. if a \<le> i \<and> i < a + length xs then xs ! (i - a) else m i)"

definition move_down :: "nat \<Rightarrow> nat \<Rightarrow> nat \<Rightarrow> (nat \<Rightarrow> 'a) \<Rightarrow> (nat \<Rightarrow> 'a)" where
  "move_down to from n m = (\<lambda>i. if to \<le> i \<and> i < to + n then m (i - to + from) else m i)"

subsection \<open>Attribute and cursor\<close>

text \<open>The codes of an attribute.\<close>

definition sgr :: "u32 \<Rightarrow> nat list" where
  "sgr attr =
     (if attr AND FA_BOLD \<noteq> 0 then [1] else []) @ (if attr AND FA_UNDERLINE \<noteq> 0 then [4] else [])
     @ (if attr AND FA_REVERSE \<noteq> 0 then [7] else []) @ (if attr AND FA_BLINK \<noteq> 0 then [5] else [])
     @ [if 1 \<le> COLOR_F attr \<and> COLOR_F attr \<le> 8 then 29 + unat (COLOR_F attr) else 37]"

definition setattr :: "u32 \<Rightarrow> PEN \<Rightarrow> PEN" where
  "setattr attr0 t =
     (let attr = attr0 AND 0x0fff
      in if attr = attribute t then t
         else t\<lparr>attribute := attr, p_tty := (p_tty t)\<lparr>t_rend := sgr attr\<rparr>\<rparr>)"

definition setpos :: "nat \<Rightarrow> nat \<Rightarrow> PEN \<Rightarrow> PEN" where
  "setpos row col t =
     (if cursaddr t = Some (POS row col) \<and> COL (POS row col) \<noteq> 1 then t
      else t\<lparr>p_tty := (if row \<le> max_row t \<and> col \<le> max_col t then tty_goto row col (p_tty t) else p_tty t),
             cursaddr := Some (POS row col)\<rparr>)"

definition cursor :: "bool \<Rightarrow> PEN \<Rightarrow> PEN" where
  "cursor onoff t = t\<lparr>visible := onoff\<rparr>"

subsection \<open>Text\<close>

text \<open>The cells are unsigned and the text is signed, so that a byte above 127 never equals its cell.\<close>

definition same_text :: "nat \<Rightarrow> string \<Rightarrow> PEN \<Rightarrow> bool" where
  "same_text a str t \<longleftrightarrow>
     list_all (\<lambda>ii. scrn_char t (a + ii) = str ! ii \<and> (of_char (str ! ii) :: nat) < 128) [0..<length str]"

definition str2scr :: "nat \<Rightarrow> nat \<Rightarrow> string \<Rightarrow> PEN \<Rightarrow> PEN option" where
  "str2scr row col str t =
     (if str = [] then Some t
      else if row = 0 \<or> col = 0 \<or> length str \<ge> 512 \<or> POS row col + length str > DEF_SIZ then None
      else
        let cpos = POS row col
        in if same_text cpos str t \<and> list_all (\<lambda>ii. scrn_xref t (cpos + ii) = attribute t) [0..<length str] then Some t
           else
             let t1 = t\<lparr>scrn_char := write_at cpos str (scrn_char t),
                        scrn_xref := fill cpos (length str) (attribute t) (scrn_xref t)\<rparr>
             in if col > max_col t \<or> row > max_row t then Some t1
                else do {
                  let msgb = (if col + length str > max_col t then take (max_col t - col + 1) str else str);
                  let t2 = setpos row col t1;
                  tty \<leftarrow> tty_put msgb (p_tty t2);
                  let ca = cpos + length msgb;
                  Some (t2\<lparr>p_tty := tty,
                    cursaddr := (if ca \<ge> max_siz t \<or> COL ca = 1 \<or> COL ca \<ge> max_col t then None else Some ca)\<rparr>) })"

definition cha2scr :: "nat \<Rightarrow> nat \<Rightarrow> char \<Rightarrow> PEN \<Rightarrow> PEN option" where
  "cha2scr row col cha t =
     (if col > max_col t then Some t
      else if row = 0 \<or> col = 0 \<or> POS row col \<ge> DEF_SIZ then None
      else do {
        let t1 = setpos row col t;
        let ca = POS row col;
        t2 \<leftarrow> (if scrn_char t1 ca = cha \<and> scrn_xref t1 ca = attribute t1 then Some t1
              else
                let t2 = t1\<lparr>scrn_char := (scrn_char t1)(ca := cha), scrn_xref := (scrn_xref t1)(ca := attribute t1)\<rparr>
                in if row \<le> max_row t then do {
                     tty \<leftarrow> tty_put (cstr [cha]) (p_tty t2);
                     Some (t2\<lparr>p_tty := tty, cursaddr := Some (ca + 1)\<rparr>) }
                   else Some t2);
        Some (t2\<lparr>cursaddr := (case cursaddr t2 of None \<Rightarrow> None
                             | Some a \<Rightarrow> if a \<ge> max_siz t \<or> COL a = 1 then None else Some a)\<rparr>) })"

subsection \<open>Erasing and inserting\<close>

definition clrscrn :: "nat \<Rightarrow> PEN \<Rightarrow> PEN option" where
  "clrscrn line t =
     (if line = 0 then
        Some (t\<lparr>p_tty := tty_erase_below (tty_goto 1 1 (p_tty t)),
               scrn_char := fill 0 DEF_SIZ (CHR '' '') (scrn_char t), scrn_xref := fill 0 DEF_SIZ 0 (scrn_xref t),
               scrn_xpos := fill 0 DEF_SIZ 0 (scrn_xpos t), scrn_type := fill 0 DEF_SIZ 0 (scrn_type t),
               cursaddr := Some 0\<rparr>)
      else
        let ca = POS line 1; n = DEF_SIZ - ca
        in if ca + DEF_SIZ > DEF_SIZ then None
           else Some (t\<lparr>p_tty := tty_erase_below (tty_goto line 1 (p_tty t)),
               scrn_char := fill ca n (CHR '' '') (scrn_char t), scrn_xref := fill ca n 0 (scrn_xref t),
               scrn_xpos := fill ca n 0 (scrn_xpos t), scrn_type := fill ca DEF_SIZ 0 (scrn_type t),
               cursaddr := Some ca\<rparr>))"

text \<open>The length to the end of the line is two short.\<close>

definition clreol :: "nat \<Rightarrow> nat \<Rightarrow> PEN \<Rightarrow> PEN option" where
  "clreol row col t =
     (let t1 = setpos row col t; n = DEF_COL - col - 1; ca = POS row col
      in if row = 0 \<or> col = 0 \<or> col + 1 > DEF_COL \<or> ca + n > DEF_SIZ then None
         else Some (t1\<lparr>p_tty := tty_erase_line (p_tty t1), scrn_char := fill ca n (CHR '' '') (scrn_char t1),
                scrn_xref := fill ca n 0 (scrn_xref t1)\<rparr>))"

fun each :: "('a \<Rightarrow> 's \<Rightarrow> 's option) \<Rightarrow> 'a list \<Rightarrow> 's \<Rightarrow> 's option" where
  "each f [] s = Some s"
| "each f (x # xs) s = do { s' \<leftarrow> f x s; each f xs s' }"

definition clreos :: "nat \<Rightarrow> PEN \<Rightarrow> PEN option" where
  "clreos row t = map_option (\<lambda>t1. t1\<lparr>cursaddr := None\<rparr>) (each (\<lambda>ii. clreol ii 1) [row..<max_row t + 1] t)"

text \<open>
  \<^verbatim>\<open>insline\<close>: the copy is moved by as many cells as there are lines below, not by as many lines.
\<close>

definition insline1 :: "nat \<Rightarrow> PEN \<Rightarrow> PEN" where
  "insline1 r t =
     (let fpos = POS r 1; tpos = POS (r + 1) 1; n = DEF_ROW - r - 1
      in t\<lparr>p_tty := tty_insert_line (p_tty t),
           scrn_char := fill fpos DEF_COL NUL (move_down tpos fpos n (scrn_char t)),
           scrn_xref := fill fpos DEF_COL 0 (move_down tpos fpos n (scrn_xref t)),
           scrn_xpos := fill fpos DEF_COL 0 (move_down tpos fpos n (scrn_xpos t))\<rparr>)"

definition insline :: "nat \<Rightarrow> nat \<Rightarrow> PEN \<Rightarrow> PEN option" where
  "insline r n t =
     (if r = 0 \<or> r + 1 > DEF_ROW then None else Some ((insline1 r ^^ n) (setpos r 1 t)))"

text \<open>\<^verbatim>\<open>redraw\<close>, with the new size of the terminal and what is on it.\<close>

definition redraw_cell :: "nat \<Rightarrow> nat \<Rightarrow> PEN \<Rightarrow> PEN option" where
  "redraw_cell row col t = do {
     let t1 = setpos row col (setattr (scrn_xref t (POS row col)) t);
     tty \<leftarrow> tty_put (cstr [scrn_char t (POS row col)]) (p_tty t1);
     Some (t1\<lparr>p_tty := tty\<rparr>) }"

definition redraw :: "nat \<Rightarrow> nat \<Rightarrow> TTY \<Rightarrow> PEN \<Rightarrow> PEN option" where
  "redraw ws_row ws_col tty t =
     (let rows = min ws_row DEF_ROW; cols = min ws_col DEF_COL;
          t1 = t\<lparr>max_row := rows, max_col := cols,
                p_tty := tty_erase_below (tty_goto 1 1 (tty\<lparr>t_rend := t_rend (p_tty t), t_cols := ws_col\<rparr>))\<rparr>
      in each (\<lambda>row. each (redraw_cell row) [1..<cols + 1]) [1..<rows + 1] t1)"

text \<open>\<^verbatim>\<open>setfocus\<close>: the reverse cell that marks the place of the input.\<close>

definition unfocus :: "PEN \<Rightarrow> PEN option" where
  "unfocus t =
     (case focused t of
        Some a \<Rightarrow>
          if a < max_siz t then do {
            t1 \<leftarrow> cha2scr (ROW a) (COL a) (scrn_char t a) (setattr (scrn_xref t a AND NOT FA_REVERSE) t);
            Some (t1\<lparr>focused := None\<rparr>) }
          else Some t
      | None \<Rightarrow> Some t)"

definition setfocus :: "nat \<Rightarrow> nat \<Rightarrow> PEN \<Rightarrow> PEN option" where
  "setfocus row col t =
     (if row > 0 \<and> col > 0 \<and> focused t = Some (POS row col) \<and> POS row col < max_siz t \<and> scrn_xref t (POS row col) AND FA_REVERSE \<noteq> 0
      then Some t
      else do {
        t1 \<leftarrow> unfocus t;
        if no_of_input t1 = 0 then Some t1
        else if row = 0 \<or> col = 0 \<or> POS row col \<ge> DEF_SIZ then None
        else
          let a = POS row col;
              t2 = setattr (scrn_xref t1 a OR FA_REVERSE) (t1\<lparr>focused := Some a\<rparr>)
          in cha2scr (ROW a) (COL a) (scrn_char t2 a) t2 })"


text \<open>The state after \<^verbatim>\<open>openterm\<close> on a terminal of this size; the arrays were allocated.\<close>

definition openterm :: "nat \<Rightarrow> nat \<Rightarrow> PEN \<Rightarrow> PEN option" where
  "openterm rows cols t0 =
     map_option (cursor False) (clrscrn 1 (setattr 0
       (t0\<lparr>max_row := rows, max_col := cols, m_fldmap := DEF_ROW * 16, s_fldmap := [], p_tty := (p_tty t0)\<lparr>t_cols := cols\<rparr>,
           cursaddr := Some 0, attribute := 0, field_seq := 1, no_of_input := 0, focused := None, visible := True\<rparr>)))"

subsection \<open>The copy and the terminal\<close>

text \<open>
  The terminal shows the copy: every visible cell has the character and the rendition of its cell in the
  memory, the terminal writes with the current attribute, and its cursor is where \<^verbatim>\<open>cursaddr\<close> says.
\<close>

definition glyph :: "char \<Rightarrow> char" where
  "glyph c = (if c = NUL then CHR '' '' else c)"

definition shown_ok :: "PEN \<Rightarrow> bool" where
  "shown_ok t \<longleftrightarrow> (\<forall>r c. 1 \<le> r \<and> r \<le> max_row t \<and> 1 \<le> c \<and> c \<le> max_col t \<longrightarrow>
     t_cell (p_tty t) r c = (glyph (scrn_char t (POS r c)), sgr (scrn_xref t (POS r c))))"

definition cursor_ok :: "PEN \<Rightarrow> bool" where
  "cursor_ok t \<longleftrightarrow> (\<forall>a. cursaddr t = Some a \<and> ROW a \<le> max_row t \<and> COL a \<le> max_col t \<and> COL a \<noteq> 1 \<longrightarrow>
     t_cur (p_tty t) = (ROW a, COL a))"

definition in_sync :: "PEN \<Rightarrow> bool" where
  "in_sync t \<longleftrightarrow> shown_ok t \<and> cursor_ok t \<and> t_rend (p_tty t) = sgr (attribute t) \<and>
     max_row t \<le> DEF_ROW \<and> max_col t \<le> DEF_COL \<and> max_col t \<le> t_cols (p_tty t)"

lemma POS_inv [simp]:
  assumes "1 \<le> r" "1 \<le> c" "c \<le> DEF_COL"
  shows "ROW (POS r c) = r" "COL (POS r c) = c"
proof -
  obtain r' c' where rc: "r = Suc r'" "c = Suc c'" using assms(1,2) by (metis Suc_le_D One_nat_def)
  then have "POS r c = r' * DEF_COL + c'" "c' < DEF_COL" using assms(3) by (simp_all add: POS_def)
  then show "ROW (POS r c) = r" "COL (POS r c) = c" by (simp_all add: ROW_def COL_def rc)
qed

lemma POS_ROW_COL [simp]: "POS (ROW a) (COL a) = a"
  by (simp add: POS_def ROW_def COL_def)

lemma ROW_ge_1 [simp]: "1 \<le> ROW a" "0 < ROW a" and COL_bounds [simp]: "1 \<le> COL a" "0 < COL a" "COL a \<le> DEF_COL"
  by (simp_all add: ROW_def COL_def DEF_COL_def Suc_le_eq)

lemma POS_add: "1 \<le> c \<Longrightarrow> POS r c + k = POS r (c + k)"
  by (simp add: POS_def)

lemma POS_eq_iff:
  assumes "1 \<le> r" "1 \<le> c" "c \<le> DEF_COL" "1 \<le> r'" "1 \<le> c'" "c' \<le> DEF_COL"
  shows "POS r c = POS r' c' \<longleftrightarrow> r = r' \<and> c = c'"
  using POS_inv [OF assms(1-3)] POS_inv [OF assms(4-6)] by metis

text \<open>A text within its line.\<close>

definition text_ok :: "nat \<Rightarrow> nat \<Rightarrow> string \<Rightarrow> bool" where
  "text_ok row col str \<longleftrightarrow> 1 \<le> row \<and> row \<le> DEF_ROW \<and> 1 \<le> col \<and> col + length str \<le> DEF_COL + 1 \<and> NUL \<notin> set str"

lemma POS_in_text:
  assumes "1 \<le> row" "1 \<le> col" "col + n \<le> DEF_COL + 1" "1 \<le> r" "1 \<le> c" "c \<le> DEF_COL"
  shows "POS row col \<le> POS r c \<and> POS r c < POS row col + n \<longleftrightarrow> r = row \<and> col \<le> c \<and> c < col + n"
proof
  assume in_range: "POS row col \<le> POS r c \<and> POS r c < POS row col + n"
  then obtain k where k: "POS r c = POS row (col + k)" "k < n"
    using POS_add [OF assms(2)] by (metis le_Suc_ex nat_add_left_cancel_less)
  then have "r = row" "c = col + k"
    using POS_eq_iff [of r c row "col + k"] assms by auto
  with k show "r = row \<and> col \<le> c \<and> c < col + n" by simp
next
  assume "r = row \<and> col \<le> c \<and> c < col + n"
  then show "POS row col \<le> POS r c \<and> POS r c < POS row col + n"
    using assms(2) by (auto simp: POS_def)
qed

lemma POS_text_bound:
  assumes "1 \<le> row" "row \<le> DEF_ROW" "1 \<le> col" "col + n \<le> DEF_COL + 1"
  shows "POS row col + n \<le> DEF_SIZ"
proof -
  have "POS row col + n \<le> (row - 1) * DEF_COL + DEF_COL" using assms by (simp add: POS_def)
  also have "\<dots> = row * DEF_COL" using assms(1) by (metis add.commute le_add_diff_inverse mult_Suc plus_1_eq_Suc)
  also have "\<dots> \<le> DEF_SIZ" using assms(2) by (simp add: DEF_SIZ_def)
  finally show ?thesis .
qed

named_theorems sync "operations that keep the terminal and its copy together"

lemma setattr_sync [sync]: "in_sync t \<Longrightarrow> in_sync (setattr a t)"
  by (auto simp: in_sync_def shown_ok_def cursor_ok_def setattr_def Let_def)

lemma setpos_sync [sync]:
  assumes "in_sync t" "1 \<le> row" "1 \<le> col" "col \<le> DEF_COL"
  shows "in_sync (setpos row col t)"
  using assms by (auto simp: in_sync_def shown_ok_def cursor_ok_def setpos_def tty_goto_def)

lemma setpos_cur:
  assumes "in_sync t" "1 \<le> row" "1 \<le> col" "row \<le> max_row t" "col \<le> max_col t"
  shows "t_cur (p_tty (setpos row col t)) = (row, col)"
  using assms by (auto simp: in_sync_def cursor_ok_def setpos_def tty_goto_def)

lemma setpos_eq: "\<exists>tty. setpos row col t = t\<lparr>cursaddr := Some (POS row col), p_tty := tty\<rparr>"
proof (cases "cursaddr t = Some (POS row col) \<and> COL (POS row col) \<noteq> 1")
  case True
  then have "setpos row col t = t\<lparr>cursaddr := Some (POS row col), p_tty := p_tty t\<rparr>"
    by (simp add: setpos_def)
  then show ?thesis ..
next
  case False
  have "setpos row col t = t\<lparr>cursaddr := Some (POS row col),
      p_tty := (if row \<le> max_row t \<and> col \<le> max_col t then tty_goto row col (p_tty t) else p_tty t)\<rparr>"
    unfolding setpos_def if_not_P [OF False] by simp
  then show ?thesis ..
qed

text \<open>The state after a text, up to the cursor and the terminal.\<close>

definition texted :: "nat \<Rightarrow> nat \<Rightarrow> string \<Rightarrow> PEN \<Rightarrow> PEN" where
  "texted row col str t = t\<lparr>
     scrn_char := write_at (POS row col) str (scrn_char t),
     scrn_xref := fill (POS row col) (length str) (attribute t) (scrn_xref t)\<rparr>"

text \<open>Writing a visible text: the part up to the margin is sent.\<close>

lemma put_sync:
  assumes sync: "in_sync t" and ok: "text_ok row col str" and vis: "row \<le> max_row t" "col \<le> max_col t" and ne: "str \<noteq> []"
  defines "msgb \<equiv> take (max_col t - col + 1) str"
  shows "\<exists>tty. tty_put msgb (p_tty (setpos row col (texted row col str t))) = Some tty \<and>
    t_cur tty = (row, col + length msgb) \<and>
    shown_ok ((texted row col str t)\<lparr>p_tty := tty\<rparr>) \<and> t_rend tty = t_rend (p_tty t) \<and> t_cols tty = t_cols (p_tty t)"
proof -
  let ?t1 = "texted row col str t" and ?t2 = "setpos row col (texted row col str t)"
  have ok': "1 \<le> row" "1 \<le> col" "col + length str \<le> DEF_COL + 1" "NUL \<notin> set str" using ok by (auto simp: text_ok_def)
  have mc: "max_col t \<le> DEF_COL" "max_col t \<le> t_cols (p_tty t)" using sync by (auto simp: in_sync_def)
  have cells: "t_cell (p_tty ?t2) = t_cell (p_tty t)" "t_rend (p_tty ?t2) = t_rend (p_tty t)"
    "t_cols (p_tty ?t2) = t_cols (p_tty t)"
    by (simp_all add: setpos_def texted_def tty_goto_def)
  have cur: "t_cur (p_tty ?t2) = (row, col)"
    using sync ok' vis by (auto simp: in_sync_def cursor_ok_def setpos_def tty_goto_def texted_def)
  have len: "msgb \<noteq> []" "col + length msgb \<le> t_cols (p_tty t) + 1"
    using ne vis mc by (auto simp: msgb_def)
  let ?tty = "(p_tty ?t2)\<lparr>
          t_cell := (\<lambda>r' c'. if r' = row \<and> col \<le> c' \<and> c' < col + length msgb then (msgb ! (c' - col), t_rend (p_tty ?t2))
                            else t_cell (p_tty ?t2) r' c'),
          t_cur := (row, col + length msgb)\<rparr>"
  have put: "tty_put msgb (p_tty ?t2) = Some ?tty"
    using len by (simp add: tty_put_def cur cells(3))
  have "shown_ok (?t1\<lparr>p_tty := ?tty\<rparr>)"
    unfolding shown_ok_def
  proof (intro allI impI)
    fix r c assume "1 \<le> r \<and> r \<le> max_row (?t1\<lparr>p_tty := ?tty\<rparr>) \<and> 1 \<le> c \<and> c \<le> max_col (?t1\<lparr>p_tty := ?tty\<rparr>)"
    then have rc: "1 \<le> r" "r \<le> max_row t" "1 \<le> c" "c \<le> max_col t" by (simp_all add: texted_def)
    have "c \<le> DEF_COL" using rc mc by simp
    note in_text = POS_in_text [OF ok'(1,2,3) rc(1,3) this]
    have vis_iff: "c < col + length msgb \<longleftrightarrow> c < col + length str" if "col \<le> c"
      using that rc vis by (auto simp: msgb_def)
    have look: "t_cell (p_tty (?t1\<lparr>p_tty := ?tty\<rparr>)) r c =
        (if r = row \<and> col \<le> c \<and> c < col + length msgb then (msgb ! (c - col), sgr (attribute t)) else t_cell (p_tty t) r c)"
      using sync by (simp add: cells in_sync_def)
    have mem: "scrn_char (?t1\<lparr>p_tty := ?tty\<rparr>) = write_at (POS row col) str (scrn_char t)"
      "scrn_xref (?t1\<lparr>p_tty := ?tty\<rparr>) = fill (POS row col) (length str) (attribute t) (scrn_xref t)"
      by (simp_all add: texted_def)
    show "t_cell (p_tty (?t1\<lparr>p_tty := ?tty\<rparr>)) r c =
        (glyph (scrn_char (?t1\<lparr>p_tty := ?tty\<rparr>) (POS r c)), sgr (scrn_xref (?t1\<lparr>p_tty := ?tty\<rparr>) (POS r c)))"
    proof (cases "r = row \<and> col \<le> c \<and> c < col + length str")
      case True
      have "POS r c - POS row col = c - col" using True ok' by (auto simp: POS_def)
      moreover have "c - col < length str" using True by auto
      then have "str ! (c - col) \<noteq> NUL" using ok'(4) nth_mem by metis
      moreover have "msgb ! (c - col) = str ! (c - col)" using True rc by (simp add: msgb_def)
      ultimately show ?thesis
        unfolding look mem using True in_text vis_iff by (simp add: write_at_def fill_def glyph_def)
    next
      case False
      then have "\<not> (POS row col \<le> POS r c \<and> POS r c < POS row col + length str)" using in_text by blast
      moreover have "\<not> (r = row \<and> col \<le> c \<and> c < col + length msgb)" using False vis_iff by blast
      ultimately show ?thesis
        unfolding look mem using sync rc by (auto simp: write_at_def fill_def in_sync_def shown_ok_def)
    qed
  qed
  with put show ?thesis by (intro exI [of _ ?tty]) (simp add: cells)
qed


lemma same_text_cell:
  assumes "same_text a str t" "a \<le> i" "i < a + length str"
  shows "scrn_char t i = str ! (i - a)"
proof -
  have "i - a < length str" using assms(2,3) by simp
  then have "scrn_char t (a + (i - a)) = str ! (i - a)"
    using assms(1) by (simp add: same_text_def list_all_iff)
  then show ?thesis using assms(2) by simp
qed

text \<open>
  Writing a text keeps the two together; what it changes is the text, its attributes and the cursor.
\<close>

lemma str2scr_sync:
  assumes sync: "in_sync t" and ok: "text_ok row col str" and len: "length str < 512"
  shows "\<exists>ca tty. str2scr row col str t = Some ((texted row col str t)\<lparr>cursaddr := ca, p_tty := tty\<rparr>) \<and>
    in_sync ((texted row col str t)\<lparr>cursaddr := ca, p_tty := tty\<rparr>)"
proof -
  let ?t1 = "texted row col str t"
  have ok': "1 \<le> row" "row \<le> DEF_ROW" "1 \<le> col" "col + length str \<le> DEF_COL + 1" using ok by (auto simp: text_ok_def)
  have bound: "POS row col + length str \<le> DEF_SIZ" by (rule POS_text_bound [OF ok'])
  have dims: "max_row t \<le> DEF_ROW" "max_col t \<le> DEF_COL" "max_col t \<le> t_cols (p_tty t)" "t_rend (p_tty t) = sgr (attribute t)"
    using sync by (auto simp: in_sync_def)
  show ?thesis
  proof (cases "str = [] \<or> same_text (POS row col) str t \<and>
      list_all (\<lambda>ii. scrn_xref t (POS row col + ii) = attribute t) [0..<length str]")
    case True
    have "scrn_xref t i = attribute t" if "str \<noteq> []" "POS row col \<le> i" "i < POS row col + length str" for i
    proof -
      have "i - POS row col < length str" using that by simp
      then have "scrn_xref t (POS row col + (i - POS row col)) = attribute t"
        using True that(1) by (simp add: list_all_iff)
      then show ?thesis using that(2) by simp
    qed
    then have "?t1 = t"
      using True same_text_cell [of "POS row col" str t]
      by (cases "str = []") (auto simp: texted_def write_at_def fill_def fun_eq_iff intro!: PEN.equality)
    then have "?t1\<lparr>cursaddr := cursaddr t, p_tty := p_tty t\<rparr> = t" by simp
    moreover have "str2scr row col str t = Some t" using True ok' len bound by (auto simp: str2scr_def Let_def)
    ultimately show ?thesis using sync by metis
  next
    case changed: False
    show ?thesis
    proof (cases "col > max_col t \<or> row > max_row t")
      case True
      have str: "str2scr row col str t = Some ?t1"
        using changed True ok' len bound by (auto simp: str2scr_def Let_def texted_def)
      have "shown_ok ?t1"
        unfolding shown_ok_def
      proof (intro allI impI)
        fix r c assume rc: "1 \<le> r \<and> r \<le> max_row ?t1 \<and> 1 \<le> c \<and> c \<le> max_col ?t1"
        then have "r \<le> max_row t" "c \<le> max_col t" "c \<le> DEF_COL" using dims by (auto simp: texted_def)
        then have "\<not> (POS row col \<le> POS r c \<and> POS r c < POS row col + length str)"
          using POS_in_text [OF ok'(1,3,4)] True rc by auto
        then show "t_cell (p_tty ?t1) r c = (glyph (scrn_char ?t1 (POS r c)), sgr (scrn_xref ?t1 (POS r c)))"
          using sync rc by (auto simp: texted_def write_at_def fill_def in_sync_def shown_ok_def)
      qed
      then have "in_sync (?t1\<lparr>cursaddr := cursaddr t, p_tty := p_tty t\<rparr>)"
        using sync by (simp add: in_sync_def cursor_ok_def shown_ok_def texted_def)
      moreover have "?t1\<lparr>cursaddr := cursaddr t, p_tty := p_tty t\<rparr> = ?t1" by (simp add: texted_def)
      ultimately show ?thesis using str by metis
    next
      case vis: False
      let ?msgb = "take (max_col t - col + 1) str"
      let ?ca = "POS row col + length ?msgb"
      let ?c = "if ?ca \<ge> max_siz t \<or> COL ?ca = 1 \<or> COL ?ca \<ge> max_col t then None else Some ?ca"
      have "row \<le> max_row t" "col \<le> max_col t" "str \<noteq> []" using changed vis by auto
      from put_sync [OF sync ok this] obtain tty where
        tty: "tty_put ?msgb (p_tty (setpos row col ?t1)) = Some tty" "t_cur tty = (row, col + length ?msgb)"
          "shown_ok (?t1\<lparr>p_tty := tty\<rparr>)" "t_rend tty = t_rend (p_tty t)" "t_cols tty = t_cols (p_tty t)"
        by blast
      have msgb: "(if col + length str > max_col t then take (max_col t - col + 1) str else str) = ?msgb" by simp
      obtain tty2 where "setpos row col ?t1 = ?t1\<lparr>cursaddr := Some (POS row col), p_tty := tty2\<rparr>"
        using setpos_eq by blast
      then have fin: "(setpos row col ?t1)\<lparr>p_tty := tty, cursaddr := ?c\<rparr> = ?t1\<lparr>cursaddr := ?c, p_tty := tty\<rparr>" by simp
      have guards: "\<not> str = []" "\<not> (row = 0 \<or> col = 0 \<or> length str \<ge> 512 \<or> POS row col + length str > DEF_SIZ)"
        "\<not> (same_text (POS row col) str t \<and> list_all (\<lambda>ii. scrn_xref t (POS row col + ii) = attribute t) [0..<length str])"
        using changed ok' len bound by auto
      have str: "str2scr row col str t = Some (?t1\<lparr>cursaddr := ?c, p_tty := tty\<rparr>)"
        unfolding str2scr_def Let_def if_not_P [OF guards(1)] if_not_P [OF guards(2)] if_not_P [OF guards(3)] if_not_P [OF vis]
          msgb texted_def [symmetric] tty(1) bind.bind_lunit fin ..
      have "cursor_ok (?t1\<lparr>cursaddr := ?c, p_tty := tty\<rparr>)"
      proof (cases "?c")
        case (Some a)
        then have a: "a = POS row (col + length ?msgb)" "COL a \<noteq> 1" "COL a < max_col t"
          using POS_add [OF ok'(3)] by (auto split: if_splits)
        have "col + length ?msgb \<le> DEF_COL"
        proof (rule ccontr)
          assume "\<not> col + length ?msgb \<le> DEF_COL"
          then have "col + length ?msgb = DEF_COL + 1" using ok'(4) by auto
          moreover obtain r' where "row = Suc r'" using ok'(1) by (metis Suc_le_D One_nat_def)
          ultimately have "a = r' * DEF_COL + DEF_COL" using a(1) by (simp add: POS_def)
          then show False using a(2) by (simp add: COL_def)
        qed
        then have "ROW a = row" "COL a = col + length ?msgb" using ok' a(1) by simp_all
        then show ?thesis using Some tty(2) by (simp add: cursor_ok_def)
      qed (simp add: cursor_ok_def)
      then have "in_sync (?t1\<lparr>cursaddr := ?c, p_tty := tty\<rparr>)"
        using tty dims by (simp add: in_sync_def texted_def shown_ok_def)
      with str show ?thesis by blast
    qed
  qed
qed

text \<open>A single character.\<close>

lemma texted_char:
  "texted row col [cha] t = t\<lparr>scrn_char := (scrn_char t)(POS row col := cha),
     scrn_xref := (scrn_xref t)(POS row col := attribute t)\<rparr>"
  by (auto simp: texted_def write_at_def fill_def fun_eq_iff intro!: PEN.equality)

lemma shown_ok_text_hidden:
  assumes "in_sync t" "text_ok row col str" "row > max_row t"
  shows "shown_ok (texted row col str t)"
  unfolding shown_ok_def
proof (intro allI impI)
  fix r c assume rc: "1 \<le> r \<and> r \<le> max_row (texted row col str t) \<and> 1 \<le> c \<and> c \<le> max_col (texted row col str t)"
  then have "r \<le> max_row t" "c \<le> DEF_COL" using assms(1) by (auto simp: texted_def in_sync_def)
  then have "\<not> (POS row col \<le> POS r c \<and> POS r c < POS row col + length str)"
    using POS_in_text [of row col "length str" r c] assms(2,3) rc by (auto simp: text_ok_def)
  then show "t_cell (p_tty (texted row col str t)) r c =
      (glyph (scrn_char (texted row col str t) (POS r c)), sgr (scrn_xref (texted row col str t) (POS r c)))"
    using assms(1) rc by (auto simp: texted_def write_at_def fill_def in_sync_def shown_ok_def)
qed

definition same_but_screen :: "PEN \<Rightarrow> PEN \<Rightarrow> bool" where
  "same_but_screen t t' \<longleftrightarrow>
     (\<exists>ch xr ca tty att. t' = t\<lparr>scrn_char := ch, scrn_xref := xr, cursaddr := ca, attribute := att, p_tty := tty\<rparr>)"

lemma cha2scr_sync:
  assumes sync: "in_sync t" and rc: "1 \<le> row" "row \<le> DEF_ROW" "1 \<le> col" "col \<le> DEF_COL" and cha: "cha \<noteq> NUL"
  shows "\<exists>ca tty t0. t0 \<in> {t, texted row col [cha] t} \<and> cha2scr row col cha t = Some (t0\<lparr>cursaddr := ca, p_tty := tty\<rparr>) \<and>
    in_sync (t0\<lparr>cursaddr := ca, p_tty := tty\<rparr>) \<and> (col \<le> max_col t \<longrightarrow> scrn_char t0 = (scrn_char t)(POS row col := cha))"
proof -
  let ?p = "POS row col"
  have pos: "?p < DEF_SIZ" using POS_text_bound [of row col 1] rc by simp
  obtain tty1 where sp: "setpos row col t = t\<lparr>cursaddr := Some ?p, p_tty := tty1\<rparr>" using setpos_eq by blast
  have s1: "in_sync (t\<lparr>cursaddr := Some ?p, p_tty := tty1\<rparr>)" using setpos_sync [OF sync rc(1,3,4)] sp by simp
  let ?final = "\<lambda>a. if a \<ge> max_siz t \<or> COL a = 1 then None else Some a"
  consider "col > max_col t" | "col \<le> max_col t" "scrn_char t ?p = cha \<and> scrn_xref t ?p = attribute t"
    | "col \<le> max_col t" "\<not> (scrn_char t ?p = cha \<and> scrn_xref t ?p = attribute t)" "row > max_row t"
    | "col \<le> max_col t" "\<not> (scrn_char t ?p = cha \<and> scrn_xref t ?p = attribute t)" "row \<le> max_row t"
    by fastforce
  then show ?thesis
  proof cases
    case 1
    then have "cha2scr row col cha t = Some (t\<lparr>cursaddr := cursaddr t, p_tty := p_tty t\<rparr>)" by (simp add: cha2scr_def)
    moreover have "in_sync (t\<lparr>cursaddr := cursaddr t, p_tty := p_tty t\<rparr>)" using sync by simp
    ultimately show ?thesis using 1 by (metis insertI1 not_le)
  next
    case 2
    have "cha2scr row col cha t = Some (t\<lparr>cursaddr := ?final ?p, p_tty := tty1\<rparr>)"
      using 2 rc pos by (simp add: cha2scr_def sp Let_def)
    moreover have "in_sync (t\<lparr>cursaddr := ?final ?p, p_tty := tty1\<rparr>)"
      using s1 by (auto simp: in_sync_def cursor_ok_def shown_ok_def)
    ultimately show ?thesis using 2 by (metis fun_upd_triv insertI1)
  next
    case 3
    have "cha2scr row col cha t = Some ((texted row col [cha] t)\<lparr>cursaddr := ?final ?p, p_tty := tty1\<rparr>)"
      using 3 rc pos by (auto simp: cha2scr_def sp texted_char Let_def)
    moreover have "shown_ok (texted row col [cha] (t\<lparr>cursaddr := Some ?p, p_tty := tty1\<rparr>))"
      by (rule shown_ok_text_hidden [OF s1]) (use rc cha 3 in \<open>auto simp: text_ok_def\<close>)
    then have "in_sync ((texted row col [cha] t)\<lparr>cursaddr := ?final ?p, p_tty := tty1\<rparr>)"
      using s1 3 rc by (auto simp: in_sync_def cursor_ok_def shown_ok_def texted_def)
    moreover have "scrn_char (texted row col [cha] t) = (scrn_char t)(?p := cha)" by (simp add: texted_char)
    ultimately show ?thesis by blast
  next
    case 4
    obtain tty where tty: "tty_put [cha] (p_tty (setpos row col (texted row col [cha] t))) = Some tty"
      "t_cur tty = (row, col + 1)" "shown_ok ((texted row col [cha] t)\<lparr>p_tty := tty\<rparr>)"
      "t_rend tty = t_rend (p_tty t)" "t_cols tty = t_cols (p_tty t)"
      using put_sync [OF sync, of row col "[cha]"] 4 rc cha by (auto simp: text_ok_def)
    have "p_tty (setpos row col (texted row col [cha] t)) = tty1"
    proof -
      have "p_tty (setpos row col (texted row col [cha] t)) = p_tty (setpos row col t)"
        by (simp add: setpos_def texted_def)
      then show ?thesis using sp by simp
    qed
    then have "cha2scr row col cha t = Some ((texted row col [cha] t)\<lparr>cursaddr := ?final (?p + 1), p_tty := tty\<rparr>)"
      using 4 rc pos cha tty(1) by (auto simp: cha2scr_def sp texted_char Let_def)
    moreover have "in_sync ((texted row col [cha] t)\<lparr>cursaddr := ?final (?p + 1), p_tty := tty\<rparr>)"
    proof -
      have "ROW (?p + 1) = row \<and> COL (?p + 1) = col + 1" if "COL (?p + 1) \<noteq> 1"
      proof -
        have "col + 1 \<le> DEF_COL"
        proof (rule ccontr)
          assume "\<not> col + 1 \<le> DEF_COL"
          then have "col = DEF_COL" using rc by simp
          moreover obtain r' where "row = Suc r'" using rc(1) by (metis Suc_le_D One_nat_def)
          ultimately have "?p + 1 = r' * DEF_COL + DEF_COL" using rc by (simp add: POS_def)
          then show False using that by (simp add: COL_def)
        qed
        then show ?thesis using POS_add [OF rc(3), of row 1] rc POS_inv [of row "col + 1"] by simp
      qed
      then have "cursor_ok ((texted row col [cha] t)\<lparr>cursaddr := ?final (?p + 1), p_tty := tty\<rparr>)"
        using tty(2) by (simp add: cursor_ok_def)
      then show ?thesis using tty sync by (simp add: in_sync_def shown_ok_def texted_def)
    qed
    moreover have "scrn_char (texted row col [cha] t) = (scrn_char t)(?p := cha)" by (simp add: texted_char)
    ultimately show ?thesis by blast
  qed
qed

lemma sgr_0 [simp]: "sgr 0 = [37]"
  by (simp add: sgr_def COLOR_F_def)

end
