(* ===== verification/ScreenFields.thy ===== *)
theory ScreenFields
  imports Terminal
begin

unbundle bit_operations_syntax

text \<open>
  The named fields of the screen: their map, the operations that write, read and highlight them, and the
  layout of a form (the second half of \<^verbatim>\<open>src/lib/pen/term.c\<close>).
\<close>

subsection \<open>Fields\<close>

definition cmpmap :: "fldmap \<Rightarrow> fldmap \<Rightarrow> int" where
  "cmpmap m1 m2 = strcmp (fm_name m1) (fm_name m2)"

definition map0 :: "string \<Rightarrow> fldmap" where
  "map0 nm = \<lparr>fm_name = nm, fm_type = 0, fm_row = 0, fm_col = 0, fm_len = 0, fm_seq = 0, fm_att = 0, fm_chk = 0, fm_when = 0\<rparr>"

text \<open>The search for a name; a name of 32 characters runs over the key.\<close>

definition find_fld :: "string \<Rightarrow> PEN \<Rightarrow> nat option option" where
  "find_fld nm t = (if length nm \<ge> 32 then None else Some (bsearch cmpmap (map0 nm) (s_fldmap t)))"

definition upd_fld :: "nat \<Rightarrow> (fldmap \<Rightarrow> fldmap) \<Rightarrow> PEN \<Rightarrow> PEN" where
  "upd_fld i f t = t\<lparr>s_fldmap := (s_fldmap t)[i := f (s_fldmap t ! i)]\<rparr>"

text \<open>The formats \<open>%-n.ns\<close> and \<open>%+n.ns\<close>.\<close>

definition fit :: "bool \<Rightarrow> nat \<Rightarrow> string \<Rightarrow> string" where
  "fit left n str = (let d = take n str; pad = replicate (n - length d) (CHR '' '')
     in if left then d @ pad else pad @ d)"

definition pushfld :: "string \<Rightarrow> string \<Rightarrow> u32 \<Rightarrow> bool \<Rightarrow> time_t \<Rightarrow> PEN \<Rightarrow> PEN option" where
  "pushfld nm data color rt now t = do {
     found \<leftarrow> find_fld nm t;
     (case found of
        None \<Rightarrow> Some t
      | Some i \<Rightarrow>
          let m = s_fldmap t ! i;
              attr = (fm_att m AND NOT (FC_COLOR OR FA_BLINK)) OR color;
              msgb = fit (fm_chk m AND FLD_IS_LEFT \<noteq> 0) (fm_len m) data;
              t1 = upd_fld i (\<lambda>m. m\<lparr>fm_att := attr, fm_when := 0\<rparr>) t
          in if rt then
               if same_text (POS (fm_row m) (fm_col m)) msgb t1 then Some t1
               else
                 let attr1 = attr OR FA_REVERSE
                 in str2scr (fm_row m) (fm_col m) msgb
                      (setattr attr1 (upd_fld i (\<lambda>m. m\<lparr>fm_att := attr1, fm_when := now\<rparr>) t1))
             else str2scr (fm_row m) (fm_col m) msgb (setattr attr t1)) }"

definition str2fld :: "string \<Rightarrow> string \<Rightarrow> PEN \<Rightarrow> PEN option" where
  "str2fld nm str t = do {
     found \<leftarrow> find_fld nm t;
     (case found of
        None \<Rightarrow> Some t
      | Some i \<Rightarrow>
          let m = s_fldmap t ! i
          in str2scr (fm_row m) (fm_col m) (fit True (fm_len m) str)
               (setattr (fm_att m) (upd_fld i (\<lambda>m. m\<lparr>fm_when := 0\<rparr>) t))) }"

text \<open>A number takes at least the width of the field and is cut behind it.\<close>

definition num2fld :: "string \<Rightarrow> string \<Rightarrow> PEN \<Rightarrow> PEN option" where
  "num2fld nm digits t = do {
     found \<leftarrow> find_fld nm t;
     (case found of
        None \<Rightarrow> Some t
      | Some i \<Rightarrow>
          let m = s_fldmap t ! i; n = fm_len m
          in str2scr (fm_row m) (fm_col m) (take n (replicate (n - length digits) (CHR '' '') @ digits))
               (setattr (fm_att m) (upd_fld i (\<lambda>m. m\<lparr>fm_when := 0\<rparr>) t))) }"

definition int2fld :: "string \<Rightarrow> int \<Rightarrow> PEN \<Rightarrow> PEN option" where
  "int2fld nm val t = num2fld nm (show_int val) t"

definition uint2fld :: "string \<Rightarrow> u32 \<Rightarrow> PEN \<Rightarrow> PEN option" where
  "uint2fld nm val t = num2fld nm (decimal (unat val)) t"

definition ymd2fld :: "string \<Rightarrow> int \<Rightarrow> PEN \<Rightarrow> PEN option" where
  "ymd2fld nm ymd t = str2fld nm
     (pad0 2 ((ymd sdiv 10000) smod 100) @ ''/'' @ pad0 2 ((ymd smod 10000) sdiv 100) @ ''/'' @ pad0 2 (ymd smod 100)) t"

definition hms2fld :: "string \<Rightarrow> int \<Rightarrow> PEN \<Rightarrow> PEN option" where
  "hms2fld nm hms t = str2fld nm
     (pad0 2 (hms sdiv 10000) @ '':'' @ pad0 2 ((hms smod 10000) sdiv 100) @ '':'' @ pad0 2 (hms smod 100)) t"

definition attr2fld :: "string \<Rightarrow> u32 \<Rightarrow> PEN \<Rightarrow> PEN option" where
  "attr2fld nm att t = do {
     found \<leftarrow> find_fld nm t;
     (case found of None \<Rightarrow> Some t | Some i \<Rightarrow> Some (upd_fld i (\<lambda>m. m\<lparr>fm_att := att\<rparr>) t)) }"

definition fldattr :: "string \<Rightarrow> PEN \<Rightarrow> u32 option" where
  "fldattr nm t = map_option (\<lambda>found. case found of None \<Rightarrow> 0 | Some i \<Rightarrow> fm_att (s_fldmap t ! i)) (find_fld nm t)"

text \<open>
  The cells of a field from an address on. The test for the end of the line is always true, because
  \<^verbatim>\<open>COL(addr) <= DEF_COL\<close> holds for every address.
\<close>

function fld_run :: "(nat \<Rightarrow> nat) \<Rightarrow> nat \<Rightarrow> nat \<Rightarrow> nat list" where
  "fld_run xpos seq addr = (if addr < DEF_SIZ \<and> xpos addr = seq then addr # fld_run xpos seq (addr + 1) else [])"
  by pat_completeness auto
termination
  by (relation "measure (\<lambda>(xpos, seq, addr). DEF_SIZ - addr)") auto

declare fld_run.simps [simp del]

definition fld_cells :: "fldmap \<Rightarrow> PEN \<Rightarrow> nat list" where
  "fld_cells m t = fld_run (scrn_xpos t) (fm_seq m) (POS (fm_row m) (fm_col m))"

definition getfld :: "string \<Rightarrow> bool \<Rightarrow> PEN \<Rightarrow> string option" where
  "getfld nm trim t = map_option (\<lambda>found.
     case found of
       None \<Rightarrow> []
     | Some i \<Rightarrow>
         let buff = map (scrn_char t) (fld_cells (s_fldmap t ! i) t)
         in cstr (if trim then rstrip (dropWhile (\<lambda>c. c = CHR '' '') buff) else buff)) (find_fld nm t)"

definition clrfld :: "string \<Rightarrow> PEN \<Rightarrow> PEN option" where
  "clrfld nm t = do {
     found \<leftarrow> find_fld nm t;
     (case found of
        None \<Rightarrow> Some t
      | Some i \<Rightarrow>
          let m = s_fldmap t ! i; addr = POS (fm_row m) (fm_col m); n = length (fld_cells m t)
          in if n \<ge> 256 \<or> addr + n \<ge> DEF_SIZ then None
             else map_option (setpos (ROW addr) (COL addr))
               (str2scr (ROW addr) (COL addr) (replicate n (CHR '' ''))
                 (setattr (scrn_xref t addr) t))) }"

text \<open>The number and name of the field at a place; \<open>None\<close> is -1.\<close>

definition curfld :: "nat option \<Rightarrow> PEN \<Rightarrow> (nat \<times> string) option" where
  "curfld addr t =
     (case addr of
        None \<Rightarrow> None
      | Some a \<Rightarrow>
          if a \<ge> DEF_SIZ \<or> scrn_xpos t a = 0 then None
          else map_option (\<lambda>m. (scrn_xpos t a, fm_name m)) (List.find (\<lambda>m. fm_seq m = scrn_xpos t a) (s_fldmap t)))"

definition cur2fld :: "string \<Rightarrow> PEN \<Rightarrow> PEN option" where
  "cur2fld nm t = do {
     found \<leftarrow> find_fld nm t;
     (case found of
        None \<Rightarrow> Some t
      | Some i \<Rightarrow> setfocus (fm_row (s_fldmap t ! i)) (fm_col (s_fldmap t ! i)) t) }"

text \<open>One turn of \<^verbatim>\<open>cleaner\<close>: a field that was pushed a second ago loses its reverse.\<close>

definition clean_fld :: "time_t \<Rightarrow> nat \<Rightarrow> PEN \<Rightarrow> PEN option" where
  "clean_fld clock ii t =
     (let m = s_fldmap t ! ii
      in if fm_att m AND FA_REVERSE = 0 \<or> clock - fm_when m < 1 then Some t
         else do {
           let t1 = upd_fld ii (\<lambda>m. m\<lparr>fm_att := fm_att m AND NOT FA_REVERSE, fm_when := 0\<rparr>) t;
           fldb \<leftarrow> getfld (fm_name m) False t1;
           str2scr (fm_row m) (fm_col m) fldb (setattr (fm_att (s_fldmap t1 ! ii)) t1) })"

definition cleaner :: "time_t \<Rightarrow> PEN \<Rightarrow> PEN option" where
  "cleaner clock t = each (clean_fld clock) [0..<length (s_fldmap t)] t"

subsection \<open>Forms\<close>

definition setfld :: "nat \<Rightarrow> nat \<Rightarrow> nat \<Rightarrow> nat \<Rightarrow> u32 \<Rightarrow> nat \<Rightarrow> PEN \<Rightarrow> PEN option" where
  "setfld row col n seqn attr typ t = do {
     t1 \<leftarrow> str2scr row col (replicate n (CHR '' '')) (setattr attr t);
     let cells = min n (DEF_COL + 1 - col);
     if POS row col + cells > DEF_SIZ then None
     else Some (t1\<lparr>scrn_xpos := fill (POS row col) cells (seqn mod 2 ^ 16) (scrn_xpos t1),
                   scrn_type := fill (POS row col) cells (typ mod 2 ^ 8) (scrn_type t1)\<rparr>) }"

definition byte :: "int \<Rightarrow> nat" where "byte x = nat (x mod 256)"

definition is_input :: "nat \<Rightarrow> bool" where
  "is_input typ \<longleftrightarrow> typ = 1 \<or> typ = 3"

text \<open>The entry of a field in the map; its place does not count the message in front.\<close>

definition fld_entry :: "field \<Rightarrow> nat \<Rightarrow> fldmap" where
  "fld_entry f seqn =
     \<lparr>fm_name = (if fd_seq f \<ge> 0 then fd_name f @ pad0 3 (fd_seq f) else fd_name f),
      fm_type = byte (fd_type f), fm_row = byte (fd_row f), fm_col = byte (fd_col f), fm_len = byte (fd_len f),
      fm_seq = seqn,
      fm_att = (if is_input (byte (fd_type f)) then fd_att f OR FA_UNDERLINE else fd_att f),
      fm_chk = fd_chk f, fm_when = 0\<rparr>"

definition put_msg :: "field \<Rightarrow> PEN \<Rightarrow> PEN option" where
  "put_msg f t =
     (let msgl = int (length (fd_msg f));
          n = (if fd_col f + msgl > int DEF_COL then int DEF_COL - fd_col f + 1 else msgl)
      in if fd_msg f = [] then Some t
         else if n < 0 then None
         else str2scr (nat (fd_row f)) (nat (fd_col f)) (take (nat n) (fd_msg f)) (setattr (fd_att f) t))"

definition putfld1 :: "field \<Rightarrow> PEN \<Rightarrow> PEN option" where
  "putfld1 f t =
     (if fd_row f \<le> 0 \<or> fd_col f \<le> 0 then Some t
      else do {
        t1 \<leftarrow> put_msg f t;
        if fd_name f = [] \<or> fd_len f \<le> 0 \<or> length (s_fldmap t1) \<ge> m_fldmap t1 then Some t1
        else
          let m = fld_entry f (field_seq t1)
          in if length (fm_name m) \<ge> 32 then None
             else setfld (nat (fd_row f)) (nat (fd_col f) + length (fd_msg f)) (fm_len m) (fm_seq m) (fm_att m) (fm_type m)
                    (t1\<lparr>field_seq := field_seq t1 + 1, s_fldmap := s_fldmap t1 @ [m]\<rparr>) })"

definition putfld :: "field list \<Rightarrow> bool \<Rightarrow> PEN \<Rightarrow> PEN option" where
  "putfld form force t = do {
     t1 \<leftarrow> (if force then clrscrn 1 (setattr 0 (t\<lparr>s_fldmap := [], field_seq := 1, focused := None\<rparr>)) else Some t);
     each putfld1 (takeWhile (\<lambda>f. fd_type f \<ge> 0) form) t1 }"

definition endfld :: "PEN \<Rightarrow> nat \<times> PEN" where
  "endfld t = (let fs = qsort cmpmap (s_fldmap t)
     in (length fs, t\<lparr>s_fldmap := fs, no_of_input := length (filter (\<lambda>m. is_input (fm_type m)) fs)\<rparr>))"

interpretation field_names: c_compare cmpmap fm_name
  by unfold_locales (simp_all add: cmpmap_def)

lemma upd_fld_sync [sync]: "in_sync (upd_fld i f t) = in_sync t"
  by (simp add: in_sync_def shown_ok_def cursor_ok_def upd_fld_def)

subsection \<open>Fields on the screen\<close>

text \<open>
  The layout of a form: the names are sorted, no two fields have the same name or number, every field
  lies within a line and its cells are exactly those that carry its number.
\<close>

definition layout :: "fldmap \<Rightarrow> string \<times> nat \<times> nat \<times> nat \<times> nat" where
  "layout m = (fm_name m, fm_row m, fm_col m, fm_len m, fm_seq m)"

definition placed :: "(nat \<Rightarrow> nat) \<Rightarrow> string \<times> nat \<times> nat \<times> nat \<times> nat \<Rightarrow> bool" where
  "placed xpos = (\<lambda>(nm, row, col, n, seq).
     length nm < 32 \<and> 1 \<le> row \<and> row \<le> DEF_ROW \<and> 1 \<le> col \<and> 1 \<le> n \<and> col + n \<le> DEF_COL + 1 \<and>
     (\<forall>a<DEF_SIZ. xpos a = seq \<longleftrightarrow> POS row col \<le> a \<and> a < POS row col + n))"

definition layout_ok :: "(string \<times> nat \<times> nat \<times> nat \<times> nat) list \<Rightarrow> (nat \<Rightarrow> nat) \<Rightarrow> bool" where
  "layout_ok ls xpos \<longleftrightarrow> sorted (map fst ls) \<and> distinct (map fst ls) \<and>
     distinct (map (\<lambda>(nm, row, col, n, seq). seq) ls) \<and> (\<forall>l\<in>set ls. placed xpos l)"

definition fields_ok :: "PEN \<Rightarrow> bool" where
  "fields_ok t \<longleftrightarrow> layout_ok (map layout (s_fldmap t)) (scrn_xpos t)"

definition no_nul :: "PEN \<Rightarrow> bool" where
  "no_nul t \<longleftrightarrow> (\<forall>a<DEF_SIZ. scrn_char t a \<noteq> NUL)"

definition pen_ok :: "PEN \<Rightarrow> bool" where
  "pen_ok t \<longleftrightarrow> in_sync t \<and> fields_ok t \<and> no_nul t"

lemma fields_okD:
  assumes "fields_ok t"
  shows "sorted (map fm_name (s_fldmap t))" "distinct (map fm_name (s_fldmap t))" "distinct (map fm_seq (s_fldmap t))"
    and "m \<in> set (s_fldmap t) \<Longrightarrow> length (fm_name m) < 32"
    and "m \<in> set (s_fldmap t) \<Longrightarrow> 1 \<le> fm_row m \<and> fm_row m \<le> DEF_ROW \<and> 1 \<le> fm_col m \<and> 1 \<le> fm_len m \<and> fm_col m + fm_len m \<le> DEF_COL + 1"
    and "m \<in> set (s_fldmap t) \<Longrightarrow> a < DEF_SIZ \<Longrightarrow>
      scrn_xpos t a = fm_seq m \<longleftrightarrow> POS (fm_row m) (fm_col m) \<le> a \<and> a < POS (fm_row m) (fm_col m) + fm_len m"
  using assms by (fastforce simp: fields_ok_def layout_ok_def layout_def placed_def comp_def)+

lemma fields_ok_cong:
  "map layout (s_fldmap t') = map layout (s_fldmap t) \<Longrightarrow> scrn_xpos t' = scrn_xpos t \<Longrightarrow> fields_ok t' = fields_ok t"
  by (simp add: fields_ok_def)

lemma map_layout_upd:
  assumes "\<And>m. layout (f m) = layout m"
  shows "map layout (s_fldmap (upd_fld i f t)) = map layout (s_fldmap t)"
proof (cases "i < length (s_fldmap t)")
  case True
  then show ?thesis using assms by (simp add: upd_fld_def map_update list_update_same_conv)
qed (simp add: upd_fld_def list_update_beyond)

text \<open>The search finds exactly the fields of the form.\<close>

lemma find_fld_ok:
  assumes "fields_ok t" "i < length (s_fldmap t)"
  shows "find_fld (fm_name (s_fldmap t ! i)) t = Some (Some i)"
  using assms fields_okD(4) [OF assms(1) nth_mem [OF assms(2)]]
    field_names.bsearch_index [OF fields_okD(1,2) [OF assms(1)] assms(2), of "map0 (fm_name (s_fldmap t ! i))"]
  by (simp add: find_fld_def map0_def)

lemma find_fld_cases:
  assumes "fields_ok t" "length nm < 32"
  obtains "find_fld nm t = Some None" "nm \<notin> fm_name ` set (s_fldmap t)"
  | i where "find_fld nm t = Some (Some i)" "i < length (s_fldmap t)" "fm_name (s_fldmap t ! i) = nm"
proof (cases "bsearch cmpmap (map0 nm) (s_fldmap t)")
  case None
  then have "nm \<notin> fm_name ` set (s_fldmap t)"
    using field_names.bsearch_None_iff [OF fields_okD(1) [OF assms(1)], of "map0 nm"] by (simp add: map0_def)
  with None show ?thesis using assms(2) by (intro that(1)) (simp_all add: find_fld_def)
next
  case (Some i)
  with field_names.bsearch_Some [OF Some] assms(2) show ?thesis
    by (intro that(2) [of i]) (simp_all add: find_fld_def map0_def)
qed

lemma fit_length [simp]: "length (fit left n str) = n"
  by (simp add: fit_def Let_def)

lemma fit_no_NUL: "NUL \<notin> set str \<Longrightarrow> NUL \<notin> set (fit left n str)"
  using set_take_subset [of n str] by (auto simp: fit_def Let_def)

lemma fld_text_ok:
  assumes "fields_ok t" "m \<in> set (s_fldmap t)" "NUL \<notin> set s" "length s = fm_len m"
  shows "text_ok (fm_row m) (fm_col m) s" "length s < 512"
  using fields_okD(5) [OF assms(1,2)] assms(3,4) by (auto simp: text_ok_def DEF_COL_def)

text \<open>A text in a field: what changes, and that nothing goes wrong.\<close>

lemma texted_no_nul: "no_nul t \<Longrightarrow> NUL \<notin> set s \<Longrightarrow> no_nul (texted row col s t)"
  by (auto simp: no_nul_def texted_def write_at_def in_set_conv_nth)

lemma fld_write:
  assumes ok: "pen_ok t" and m: "m \<in> set (s_fldmap t)" and s: "NUL \<notin> set s" "length s = fm_len m"
  shows "\<exists>t'. str2scr (fm_row m) (fm_col m) s t = Some t' \<and> pen_ok t' \<and>
    scrn_char t' = write_at (POS (fm_row m) (fm_col m)) s (scrn_char t) \<and> s_fldmap t' = s_fldmap t \<and> scrn_xpos t' = scrn_xpos t"
proof -
  have f: "in_sync t" "fields_ok t" "no_nul t" using ok by (simp_all add: pen_ok_def)
  note tx = fld_text_ok [OF f(2) m s]
  from str2scr_sync [OF f(1) tx] obtain ca tty where
    w: "str2scr (fm_row m) (fm_col m) s t = Some ((texted (fm_row m) (fm_col m) s t)\<lparr>cursaddr := ca, p_tty := tty\<rparr>)"
      "in_sync ((texted (fm_row m) (fm_col m) s t)\<lparr>cursaddr := ca, p_tty := tty\<rparr>)" by blast
  have "fields_ok ((texted (fm_row m) (fm_col m) s t)\<lparr>cursaddr := ca, p_tty := tty\<rparr>)"
    using f(2) by (simp add: fields_ok_def texted_def)
  moreover have "no_nul ((texted (fm_row m) (fm_col m) s t)\<lparr>cursaddr := ca, p_tty := tty\<rparr>)"
    using texted_no_nul [OF f(3) s(1)] by (simp add: no_nul_def)
  ultimately show ?thesis using w
    by (intro exI [of _ "(texted (fm_row m) (fm_col m) s t)\<lparr>cursaddr := ca, p_tty := tty\<rparr>"]) (simp add: pen_ok_def texted_def)
qed

lemma setattr_same [simp]:
  "s_fldmap (setattr a t) = s_fldmap t" "scrn_xpos (setattr a t) = scrn_xpos t" "scrn_char (setattr a t) = scrn_char t"
  "scrn_xref (setattr a t) = scrn_xref t" "max_row (setattr a t) = max_row t" "max_col (setattr a t) = max_col t"
  "focused (setattr a t) = focused t" "no_of_input (setattr a t) = no_of_input t" "scrn_type (setattr a t) = scrn_type t"
  by (simp_all add: setattr_def Let_def)

lemma setattr_ok [sync]: "pen_ok t \<Longrightarrow> pen_ok (setattr a t)"
  by (simp add: pen_ok_def setattr_sync fields_ok_def no_nul_def)

lemma upd_fld_same [simp]:
  "scrn_xpos (upd_fld i f t) = scrn_xpos t" "scrn_char (upd_fld i f t) = scrn_char t"
  by (simp_all add: upd_fld_def)

lemma upd_fld_ok [sync]: "pen_ok t \<Longrightarrow> (\<And>m. layout (f m) = layout m) \<Longrightarrow> pen_ok (upd_fld i f t)"
  using map_layout_upd [of f i t] by (simp add: pen_ok_def upd_fld_sync fields_ok_def no_nul_def)

lemma nth_upd_fld: "i < length (s_fldmap t) \<Longrightarrow> s_fldmap (upd_fld i f t) ! i = f (s_fldmap t ! i)"
  "length (s_fldmap (upd_fld i f t)) = length (s_fldmap t)"
  by (simp_all add: upd_fld_def)

text \<open>What a field holds.\<close>

definition fld_text :: "PEN \<Rightarrow> fldmap \<Rightarrow> string" where
  "fld_text t m = map (scrn_char t) [POS (fm_row m) (fm_col m)..<POS (fm_row m) (fm_col m) + fm_len m]"

lemma fld_run_interval:
  assumes "\<forall>a<DEF_SIZ. xpos a = seq \<longleftrightarrow> p \<le> a \<and> a < p + n" "p + n \<le> DEF_SIZ" "p \<le> a" "a \<le> p + n"
  shows "fld_run xpos seq a = [a..<p + n]"
  using assms(3,4)
proof (induction "p + n - a" arbitrary: a)
  case 0
  then have "a = p + n" by simp
  then have "\<not> (a < DEF_SIZ \<and> xpos a = seq)" using assms(1) by auto
  with \<open>a = p + n\<close> show ?case by (subst fld_run.simps) (simp only: if_False upt_rec [of "p + n"], simp)
next
  case (Suc k)
  then have a: "a < p + n" "a < DEF_SIZ" "xpos a = seq" using assms(1,2) by auto
  moreover have "fld_run xpos seq (a + 1) = [a + 1..<p + n]" using Suc by simp
  ultimately show ?case by (subst fld_run.simps) (simp add: upt_conv_Cons)
qed

lemma fld_cells_ok:
  assumes "fields_ok t" "m \<in> set (s_fldmap t)"
  shows "fld_cells m t = [POS (fm_row m) (fm_col m)..<POS (fm_row m) (fm_col m) + fm_len m]"
    "POS (fm_row m) (fm_col m) + fm_len m \<le> DEF_SIZ"
proof -
  note b = fields_okD(5) [OF assms]
  show p: "POS (fm_row m) (fm_col m) + fm_len m \<le> DEF_SIZ" by (rule POS_text_bound) (use b in auto)
  show "fld_cells m t = [POS (fm_row m) (fm_col m)..<POS (fm_row m) (fm_col m) + fm_len m]"
    unfolding fld_cells_def using fields_okD(6) [OF assms] p by (intro fld_run_interval) auto
qed

lemma getfld_field:
  assumes "fields_ok t" "i < length (s_fldmap t)"
  shows "getfld (fm_name (s_fldmap t ! i)) trim t =
    Some (cstr (if trim then rstrip (dropWhile (\<lambda>c. c = CHR '' '') (fld_text t (s_fldmap t ! i))) else fld_text t (s_fldmap t ! i)))"
  using find_fld_ok [OF assms] fld_cells_ok(1) [OF assms(1) nth_mem [OF assms(2)]]
  by (simp add: getfld_def fld_text_def)

lemma fld_text_no_nul:
  assumes "pen_ok t" "m \<in> set (s_fldmap t)"
  shows "NUL \<notin> set (fld_text t m)"
proof -
  have "POS (fm_row m) (fm_col m) + fm_len m \<le> DEF_SIZ" "no_nul t"
    using assms fld_cells_ok(2) [of t m] by (simp_all add: pen_ok_def)
  then show ?thesis by (auto simp: no_nul_def fld_text_def) (metis order.strict_trans2)
qed

text \<open>The place of a field decides what its text is; writing one field leaves the others.\<close>

lemma fld_text_layout: "layout m' = layout m \<Longrightarrow> fld_text t m' = fld_text t m"
  by (simp add: layout_def fld_text_def)

lemma fld_text_written:
  assumes "scrn_char t' = write_at (POS (fm_row m) (fm_col m)) s (scrn_char t)" "length s = fm_len m"
  shows "fld_text t' m = s"
  using assms by (auto simp: fld_text_def write_at_def list_eq_iff_nth_eq)

lemma fld_text_other:
  assumes ok: "fields_ok t" and ij: "i < length (s_fldmap t)" "j < length (s_fldmap t)" "i \<noteq> j"
    and w: "scrn_char t' = write_at (POS (fm_row (s_fldmap t ! i)) (fm_col (s_fldmap t ! i))) s (scrn_char t)"
      "length s = fm_len (s_fldmap t ! i)"
  shows "fld_text t' (s_fldmap t ! j) = fld_text t (s_fldmap t ! j)"
proof -
  let ?m = "s_fldmap t ! i" and ?n = "s_fldmap t ! j"
  have m: "?m \<in> set (s_fldmap t)" "?n \<in> set (s_fldmap t)" using ij by simp_all
  have seq: "fm_seq ?m \<noteq> fm_seq ?n"
    using fields_okD(3) [OF ok] ij nth_eq_iff_index_eq [of "map fm_seq (s_fldmap t)" i j] by simp
  have "write_at (POS (fm_row ?m) (fm_col ?m)) s (scrn_char t) a = scrn_char t a"
    if "POS (fm_row ?n) (fm_col ?n) \<le> a" "a < POS (fm_row ?n) (fm_col ?n) + fm_len ?n" for a
  proof -
    have "a < DEF_SIZ" using that fld_cells_ok(2) [OF ok m(2)] by simp
    then have "scrn_xpos t a = fm_seq ?n" using fields_okD(6) [OF ok m(2)] that by simp
    then have "\<not> (POS (fm_row ?m) (fm_col ?m) \<le> a \<and> a < POS (fm_row ?m) (fm_col ?m) + fm_len ?m)"
      using fields_okD(6) [OF ok m(1) \<open>a < DEF_SIZ\<close>] seq by auto
    then show ?thesis unfolding write_at_def w(2) by (rule if_not_P)
  qed
  then show ?thesis using w(1) by (simp add: fld_text_def)
qed

text \<open>An operation that writes the text \<open>s\<close> into the field number \<open>i\<close>.\<close>

definition writes :: "nat \<Rightarrow> string \<Rightarrow> PEN \<Rightarrow> PEN \<Rightarrow> bool" where
  "writes i s t t' \<longleftrightarrow> pen_ok t' \<and> map layout (s_fldmap t') = map layout (s_fldmap t) \<and>
     (let m = s_fldmap t ! i in scrn_char t' = write_at (POS (fm_row m) (fm_col m)) s (scrn_char t))"

lemma nth_layout:
  assumes "map layout fs' = map layout fs" "i < length fs"
  shows "i < length fs'" "layout (fs' ! i) = layout (fs ! i)"
proof -
  show "i < length fs'" using assms by (metis length_map)
  then show "layout (fs' ! i) = layout (fs ! i)" using assms by (metis nth_map)
qed

lemma writes_read:
  assumes ok: "pen_ok t" and i: "i < length (s_fldmap t)" and s: "length s = fm_len (s_fldmap t ! i)"
    and w: "writes i s t t'"
  shows "getfld (fm_name (s_fldmap t ! i)) False t' = Some (cstr s)"
    and "length nm < 32 \<Longrightarrow> nm \<noteq> fm_name (s_fldmap t ! i) \<Longrightarrow> getfld nm trim t' = getfld nm trim t"
proof -
  have f: "fields_ok t" "fields_ok t'" and l: "map layout (s_fldmap t') = map layout (s_fldmap t)"
    and ch: "scrn_char t' = write_at (POS (fm_row (s_fldmap t ! i)) (fm_col (s_fldmap t ! i))) s (scrn_char t)"
    using ok w by (auto simp: writes_def pen_ok_def Let_def)
  have same: "j < length (s_fldmap t')" "fm_name (s_fldmap t' ! j) = fm_name (s_fldmap t ! j)"
    "fld_text t'' (s_fldmap t' ! j) = fld_text t'' (s_fldmap t ! j)" if "j < length (s_fldmap t)" for j t''
    using nth_layout [OF l that] fld_text_layout [OF nth_layout(2) [OF l that]] by (simp_all add: layout_def)
  show "getfld (fm_name (s_fldmap t ! i)) False t' = Some (cstr s)"
    using getfld_field [OF f(2) same(1) [OF i], of False] same(2,3) [OF i] fld_text_written [OF ch s] by simp
  assume nm: "length nm < 32" "nm \<noteq> fm_name (s_fldmap t ! i)"
  from f(1) nm(1) show "getfld nm trim t' = getfld nm trim t"
  proof (cases rule: find_fld_cases)
    case 1
    have "fm_name ` set (s_fldmap t') = fm_name ` set (s_fldmap t)"
      using arg_cong [OF l, of "\<lambda>ls. fst ` set ls"] by (simp add: layout_def image_image)
    then have none: "nm \<notin> fm_name ` set (s_fldmap t')" using 1(2) by simp
    have "find_fld nm t' = Some None"
      by (rule find_fld_cases [OF f(2) nm(1)]) (use none in auto)
    with 1 show ?thesis by (simp add: getfld_def)
  next
    case (2 j)
    then have "i \<noteq> j" using nm(2) by auto
    with fld_text_other [OF f(1) i 2(2) _ ch s] have "fld_text t' (s_fldmap t ! j) = fld_text t (s_fldmap t ! j)" by simp
    then show ?thesis
      using getfld_field [OF f(2) same(1) [OF 2(2)], of trim] getfld_field [OF f(1) 2(2), of trim] same(2,3) [OF 2(2)] 2(3)
      by simp
  qed
qed

lemma pen_okD: "pen_ok t \<Longrightarrow> in_sync t" "pen_ok t \<Longrightarrow> fields_ok t" "pen_ok t \<Longrightarrow> no_nul t"
  by (simp_all add: pen_ok_def)

text \<open>The library's operations on a screen in order.\<close>

definition keeps :: "PEN \<Rightarrow> PEN \<Rightarrow> bool" where
  "keeps t t' \<longleftrightarrow> pen_ok t' \<and> max_row t' = max_row t \<and> max_col t' = max_col t \<and>
     map layout (s_fldmap t') = map layout (s_fldmap t)"

lemma keeps_trans: "keeps t t' \<Longrightarrow> keeps t' t'' \<Longrightarrow> keeps t t''"
  by (simp add: keeps_def)

lemma keeps_refl: "pen_ok t \<Longrightarrow> keeps t t"
  by (simp add: keeps_def)

lemma str2scr_dims:
  "str2scr row col s t = Some t' \<Longrightarrow> max_row t' = max_row t \<and> max_col t' = max_col t \<and> s_fldmap t' = s_fldmap t"
  by (auto simp: str2scr_def setpos_def Let_def split: if_splits bind_splits)

text \<open>Writing the text of a field after its entry has been changed.\<close>

lemma fld_write_after:
  assumes t0: "pen_ok t0" "map layout (s_fldmap t0) = map layout (s_fldmap t)" "scrn_char t0 = scrn_char t"
    and i: "i < length (s_fldmap t)" and s: "NUL \<notin> set s" "length s = fm_len (s_fldmap t ! i)"
  shows "\<exists>t'. str2scr (fm_row (s_fldmap t ! i)) (fm_col (s_fldmap t ! i)) s t0 = Some t' \<and> writes i s t t' \<and>
    max_row t' = max_row t0 \<and> max_col t' = max_col t0"
proof -
  let ?m = "s_fldmap t ! i" and ?k = "s_fldmap t0 ! i"
  note l = nth_layout [OF t0(2) i]
  then have same: "fm_row ?k = fm_row ?m" "fm_col ?k = fm_col ?m" "fm_len ?k = fm_len ?m"
    by (simp_all add: layout_def)
  have "length s = fm_len ?k" using s(2) same(3) by simp
  from fld_write [OF t0(1) nth_mem [OF l(1)] s(1) this] obtain t' where
    t': "str2scr (fm_row ?m) (fm_col ?m) s t0 = Some t'" "pen_ok t'"
      "scrn_char t' = write_at (POS (fm_row ?m) (fm_col ?m)) s (scrn_char t0)" "s_fldmap t' = s_fldmap t0"
    unfolding same by blast
  then show ?thesis
    using t0 str2scr_dims [OF t'(1)] by (intro exI [of _ t']) (simp add: writes_def Let_def)
qed

lemma upd_fld_dims [simp]: "max_row (upd_fld i f t) = max_row t" "max_col (upd_fld i f t) = max_col t"
  by (simp_all add: upd_fld_def)

lemma upd_write:
  assumes "pen_ok t" "i < length (s_fldmap t)" "\<And>m. layout (f m) = layout m"
    and "NUL \<notin> set s" "length s = fm_len (s_fldmap t ! i)"
  shows "\<exists>t'. str2scr (fm_row (s_fldmap t ! i)) (fm_col (s_fldmap t ! i)) s (setattr a (upd_fld i f t)) = Some t' \<and>
    writes i s t t' \<and> max_row t' = max_row t \<and> max_col t' = max_col t"
proof -
  have "pen_ok (setattr a (upd_fld i f t))" using assms(1,3) by (intro setattr_ok upd_fld_ok)
  moreover have "map layout (s_fldmap (setattr a (upd_fld i f t))) = map layout (s_fldmap t)"
    using map_layout_upd [of f i t] assms(3) by simp
  ultimately show ?thesis using fld_write_after [of "setattr a (upd_fld i f t)" t i s] assms(2,4,5) by simp
qed

lemma writes_keeps: "writes i s t t' \<Longrightarrow> max_row t' = max_row t \<Longrightarrow> max_col t' = max_col t \<Longrightarrow> keeps t t'"
  by (simp add: writes_def keeps_def)

lemma str2fld_writes:
  assumes ok: "pen_ok t" and i: "i < length (s_fldmap t)" and s: "NUL \<notin> set str"
  shows "\<exists>t'. str2fld (fm_name (s_fldmap t ! i)) str t = Some t' \<and> writes i (fit True (fm_len (s_fldmap t ! i)) str) t t' \<and> keeps t t'"
  using upd_write [OF ok i, of "\<lambda>m. m\<lparr>fm_when := 0\<rparr>" "fit True (fm_len (s_fldmap t ! i)) str" "fm_att (s_fldmap t ! i)"]
    find_fld_ok [OF pen_okD(2) [OF ok] i] fit_no_NUL [OF s]
  by (auto simp: str2fld_def layout_def Let_def intro: writes_keeps)

lemma upd_fld_twice: "upd_fld i g (upd_fld i f t) = upd_fld i (g \<circ> f) t"
  by (cases "i < length (s_fldmap t)") (simp_all add: upd_fld_def list_update_beyond)

lemma same_text_writes:
  assumes "pen_ok t'" "map layout (s_fldmap t') = map layout (s_fldmap t)" "scrn_char t' = scrn_char t"
    and "same_text (POS (fm_row (s_fldmap t ! i)) (fm_col (s_fldmap t ! i))) s t'"
  shows "writes i s t t'"
proof -
  have "write_at (POS (fm_row (s_fldmap t ! i)) (fm_col (s_fldmap t ! i))) s (scrn_char t) = scrn_char t"
    using same_text_cell [OF assms(4)] assms(3) by (auto simp: write_at_def fun_eq_iff)
  with assms(1-3) show ?thesis by (simp add: writes_def Let_def)
qed

lemma pushfld_writes:
  assumes ok: "pen_ok t" and i: "i < length (s_fldmap t)" and s: "NUL \<notin> set data"
  shows "\<exists>t'. pushfld (fm_name (s_fldmap t ! i)) data color rt now t = Some t' \<and>
    writes i (fit (fm_chk (s_fldmap t ! i) AND FLD_IS_LEFT \<noteq> 0) (fm_len (s_fldmap t ! i)) data) t t' \<and> keeps t t'"
proof -
  let ?m = "s_fldmap t ! i"
  let ?msgb = "fit (fm_chk ?m AND FLD_IS_LEFT \<noteq> 0) (fm_len ?m) data"
  let ?attr = "(fm_att ?m AND NOT (FC_COLOR OR FA_BLINK)) OR color"
  let ?f = "\<lambda>m. m\<lparr>fm_att := ?attr, fm_when := 0\<rparr>" and ?g = "\<lambda>m. m\<lparr>fm_att := ?attr OR FA_REVERSE, fm_when := now\<rparr>"
  have lay: "layout (?f m) = layout m" "layout ((?g \<circ> ?f) m) = layout m" for m by (simp_all add: layout_def)
  note find = find_fld_ok [OF pen_okD(2) [OF ok] i] and nn = fit_no_NUL [OF s]
  show ?thesis
  proof (cases "rt \<and> same_text (POS (fm_row ?m) (fm_col ?m)) ?msgb (upd_fld i ?f t)")
    case True
    then have "pushfld (fm_name ?m) data color rt now t = Some (upd_fld i ?f t)"
      using find by (simp add: pushfld_def Let_def)
    moreover have "writes i ?msgb t (upd_fld i ?f t)"
      using True ok lay(1) map_layout_upd [of ?f i t] by (intro same_text_writes upd_fld_ok) auto
    ultimately show ?thesis by (auto intro: writes_keeps)
  next
    case False
    let ?g = "if rt then ?g \<circ> ?f else ?f" and ?a = "if rt then ?attr OR FA_REVERSE else ?attr"
    have "layout (?g m) = layout m" for m using lay [of m] by simp
    from upd_write [OF ok i this nn fit_length, where a = ?a] obtain t' where
      t': "str2scr (fm_row ?m) (fm_col ?m) ?msgb (setattr ?a (upd_fld i ?g t)) = Some t'"
        "writes i ?msgb t t'" "max_row t' = max_row t" "max_col t' = max_col t" by blast
    moreover have "pushfld (fm_name ?m) data color rt now t =
        str2scr (fm_row ?m) (fm_col ?m) ?msgb (setattr ?a (upd_fld i ?g t))"
      using False find unfolding pushfld_def Let_def by (cases rt) (simp_all only: upd_fld_twice bind.bind_lunit option.case if_True if_False simp_thms)
    ultimately show ?thesis by (auto intro: writes_keeps)
  qed
qed

lemma clreol_ok:
  assumes ok: "pen_ok t" and row: "1 \<le> row" "row \<le> max_row t" and width: "max_col t \<le> DEF_COL - 2"
  shows "\<exists>t'. clreol row 1 t = Some t' \<and> keeps t t'"
proof -
  have sync: "in_sync t" and dims: "max_row t \<le> DEF_ROW" using ok by (auto simp: pen_ok_def in_sync_def)
  let ?n = "DEF_COL - 1 - 1"
  obtain tty where sp: "setpos row 1 t = t\<lparr>cursaddr := Some (POS row 1), p_tty := tty\<rparr>" using setpos_eq by blast
  have s1: "in_sync (t\<lparr>cursaddr := Some (POS row 1), p_tty := tty\<rparr>)"
    using setpos_sync [OF sync row(1), of 1] sp by (simp add: DEF_COL_def)
  let ?t' = "t\<lparr>cursaddr := Some (POS row 1), p_tty := tty_erase_line tty,
    scrn_char := fill (POS row 1) ?n (CHR '' '') (scrn_char t), scrn_xref := fill (POS row 1) ?n 0 (scrn_xref t)\<rparr>"
  have "POS row 1 + ?n \<le> DEF_SIZ" using POS_text_bound [of row 1 ?n] row dims by (simp add: DEF_COL_def)
  then have "clreol row 1 t = Some ?t'" using row by (simp add: clreol_def sp [unfolded One_nat_def] Let_def DEF_COL_def)
  moreover have "shown_ok ?t'"
    unfolding shown_ok_def
  proof (intro allI impI)
    fix r c assume "1 \<le> r \<and> r \<le> max_row ?t' \<and> 1 \<le> c \<and> c \<le> max_col ?t'"
    then have rc: "1 \<le> r" "r \<le> max_row t" "1 \<le> c" "c \<le> max_col t" by simp_all
    have cur: "t_cur tty = (row, 1)" using setpos_cur [OF sync row(1), of 1] row rc sp by simp
    have "c \<le> DEF_COL" using rc width by simp
    then have in_line: "POS row 1 \<le> POS r c \<and> POS r c < POS row 1 + ?n \<longleftrightarrow> r = row"
      using POS_in_text [OF row(1), of 1 ?n r c] rc width by (auto simp: DEF_COL_def)
    have "t_cell tty r c = (glyph (scrn_char t (POS r c)), sgr (scrn_xref t (POS r c)))"
      using s1 rc by (simp add: in_sync_def shown_ok_def)
    then show "t_cell (p_tty ?t') r c = (glyph (scrn_char ?t' (POS r c)), sgr (scrn_xref ?t' (POS r c)))"
      using in_line rc cur by (simp add: tty_erase_line_def fill_def glyph_def blank_def)
  qed
  then have "in_sync ?t'" using s1 by (simp add: in_sync_def cursor_ok_def tty_erase_line_def split: prod.split)
  then have "keeps t ?t'" using ok by (auto simp: keeps_def pen_ok_def fields_ok_def no_nul_def fill_def)
  ultimately show ?thesis by blast
qed

lemma each_keeps:
  assumes "pen_ok t" "\<And>x s. x \<in> set xs \<Longrightarrow> keeps t s \<Longrightarrow> \<exists>s'. f x s = Some s' \<and> keeps s s'"
  shows "\<exists>t'. each f xs t = Some t' \<and> keeps t t'"
  using assms
proof (induction xs arbitrary: t)
  case (Cons x xs)
  obtain s where s: "f x t = Some s" "keeps t s" using Cons.prems(2) [of x t] keeps_refl [OF Cons.prems(1)] by auto
  have "\<exists>t'. each f xs s = Some t' \<and> keeps s t'"
  proof (rule Cons.IH)
    show "pen_ok s" using s(2) by (simp add: keeps_def)
  qed (use Cons.prems(2) s(2) keeps_trans in \<open>auto\<close>)
  with s show ?case using keeps_trans by auto
qed (simp add: keeps_refl)

lemma clreos_ok:
  assumes ok: "pen_ok t" and row: "1 \<le> row" and width: "max_col t \<le> DEF_COL - 2"
  shows "\<exists>t'. clreos row t = Some t' \<and> keeps t t'"
proof -
  have "\<exists>t'. each (\<lambda>ii. clreol ii 1) [row..<max_row t + 1] t = Some t' \<and> keeps t t'"
  proof (rule each_keeps [OF ok])
    fix x s assume "x \<in> set [row..<max_row t + 1]" "keeps t s"
    then show "\<exists>s'. clreol x 1 s = Some s' \<and> keeps s s'"
      using row width by (intro clreol_ok) (auto simp: keeps_def)
  qed
  then obtain t' where t': "each (\<lambda>ii. clreol ii 1) [row..<max_row t + 1] t = Some t'" "keeps t t'" by blast
  then have "keeps t (t'\<lparr>cursaddr := None\<rparr>)"
    by (auto simp: keeps_def pen_ok_def in_sync_def shown_ok_def cursor_ok_def fields_ok_def no_nul_def)
  with t'(1) show ?thesis by (simp add: clreos_def)
qed

lemma cha2scr_keeps:
  assumes ok: "pen_ok t" and a: "a < DEF_SIZ"
  shows "\<exists>t'. cha2scr (ROW a) (COL a) (scrn_char t a) t = Some t' \<and> keeps t t' \<and> no_of_input t' = no_of_input t \<and>
    scrn_char t' = scrn_char t \<and> focused t' = focused t \<and> scrn_type t' = scrn_type t"
proof -
  have f: "in_sync t" "fields_ok t" "no_nul t" using pen_okD ok by auto
  have row: "ROW a \<le> DEF_ROW" using a by (simp add: ROW_def DEF_SIZ_def DEF_ROW_def DEF_COL_def)
  have nn: "scrn_char t a \<noteq> NUL" using f(3) a by (simp add: no_nul_def)
  from cha2scr_sync [OF f(1) ROW_ge_1(1) row COL_bounds(1,3) nn] obtain ca tty t0 where
    c: "t0 \<in> {t, texted (ROW a) (COL a) [scrn_char t a] t}"
      "cha2scr (ROW a) (COL a) (scrn_char t a) t = Some (t0\<lparr>cursaddr := ca, p_tty := tty\<rparr>)"
      "in_sync (t0\<lparr>cursaddr := ca, p_tty := tty\<rparr>)" unfolding POS_ROW_COL by blast
  have "s_fldmap t0 = s_fldmap t" "scrn_xpos t0 = scrn_xpos t" "scrn_char t0 = scrn_char t" "scrn_type t0 = scrn_type t"
    "max_row t0 = max_row t" "max_col t0 = max_col t" "no_of_input t0 = no_of_input t" "focused t0 = focused t"
    using c(1) by (auto simp: texted_char)
  then have "keeps t (t0\<lparr>cursaddr := ca, p_tty := tty\<rparr>)"
    "no_of_input (t0\<lparr>cursaddr := ca, p_tty := tty\<rparr>) = no_of_input t \<and> scrn_char (t0\<lparr>cursaddr := ca, p_tty := tty\<rparr>) = scrn_char t \<and>
     focused (t0\<lparr>cursaddr := ca, p_tty := tty\<rparr>) = focused t \<and> scrn_type (t0\<lparr>cursaddr := ca, p_tty := tty\<rparr>) = scrn_type t"
    using c(3) f by (auto simp: keeps_def pen_ok_def fields_ok_def no_nul_def)
  with c(2) show ?thesis by blast
qed

lemma max_siz_le: "pen_ok t \<Longrightarrow> max_siz t \<le> DEF_SIZ"
  by (auto simp: pen_ok_def in_sync_def DEF_SIZ_def intro: mult_le_mono)

lemma keeps_focus: "pen_ok t \<Longrightarrow> keeps t (t\<lparr>focused := x\<rparr>)"
  by (simp add: keeps_def pen_ok_def in_sync_def shown_ok_def cursor_ok_def fields_ok_def no_nul_def)

lemma keeps_attr: "pen_ok t \<Longrightarrow> keeps t (setattr a t)"
  using setattr_ok [of t a] by (simp add: keeps_def)

lemma keeps_ok: "keeps t t' \<Longrightarrow> pen_ok t'"
  by (simp add: keeps_def)

lemma unfocus_ok:
  assumes ok: "pen_ok t"
  shows "\<exists>t'. unfocus t = Some t' \<and> keeps t t'"
proof (cases "\<exists>a. focused t = Some a \<and> a < max_siz t")
  case True
  then obtain a where a: "focused t = Some a" "a < max_siz t" by blast
  let ?s = "setattr (scrn_xref t a AND NOT FA_REVERSE) t"
  have s: "keeps t ?s" by (rule keeps_attr [OF ok])
  obtain t1 where t1: "cha2scr (ROW a) (COL a) (scrn_char t a) ?s = Some t1" "keeps ?s t1"
    using cha2scr_keeps [OF keeps_ok [OF s], of a] a(2) max_siz_le [OF ok] by auto
  then have "keeps t (t1\<lparr>focused := None\<rparr>)"
    using s keeps_focus [OF keeps_ok [OF t1(2)]] by (blast intro: keeps_trans)
  with t1(1) a show ?thesis by (simp add: unfocus_def)
next
  case False
  then show ?thesis using keeps_refl [OF ok] by (auto simp: unfocus_def split: option.split)
qed

text \<open>The new place of the input.\<close>

lemma new_focus:
  assumes ok: "pen_ok t" and rc: "1 \<le> row" "row \<le> DEF_ROW" "1 \<le> col" "col \<le> DEF_COL"
  defines "a \<equiv> POS row col"
  defines "t2 \<equiv> setattr (scrn_xref t a OR FA_REVERSE) (t\<lparr>focused := Some a\<rparr>)"
  shows "\<exists>t'. cha2scr (ROW a) (COL a) (scrn_char t2 a) t2 = Some t' \<and> keeps t t' \<and> scrn_char t' = scrn_char t \<and>
    focused t' = Some a \<and> scrn_type t' = scrn_type t"
proof -
  have "a < DEF_SIZ" using POS_text_bound [of row col 1] rc by (simp add: a_def)
  have k: "keeps t t2"
    using keeps_focus [OF ok, of "Some a"] keeps_attr [OF keeps_ok [OF keeps_focus [OF ok]]]
    unfolding t2_def by (blast intro: keeps_trans)
  have same: "scrn_char t2 = scrn_char t" "focused t2 = Some a" "scrn_type t2 = scrn_type t" by (simp_all add: t2_def)
  obtain t3 where "cha2scr (ROW a) (COL a) (scrn_char t2 a) t2 = Some t3" "keeps t2 t3" "scrn_char t3 = scrn_char t2"
    "focused t3 = focused t2" "scrn_type t3 = scrn_type t2"
    using cha2scr_keeps [OF keeps_ok [OF k] \<open>a < DEF_SIZ\<close>] by blast
  then show ?thesis using k same by (auto intro: keeps_trans)
qed

lemma setfocus_ok:
  assumes ok: "pen_ok t" and rc: "1 \<le> row" "row \<le> DEF_ROW" "1 \<le> col" "col \<le> DEF_COL"
  shows "\<exists>t'. setfocus row col t = Some t' \<and> keeps t t'"
proof -
  obtain t1 where t1: "unfocus t = Some t1" "keeps t t1" using unfocus_ok [OF ok] by blast
  obtain t3 where t3: "keeps t1 t3"
    "cha2scr (ROW (POS row col)) (COL (POS row col))
       (scrn_char (setattr (scrn_xref t1 (POS row col) OR FA_REVERSE) (t1\<lparr>focused := Some (POS row col)\<rparr>)) (POS row col))
       (setattr (scrn_xref t1 (POS row col) OR FA_REVERSE) (t1\<lparr>focused := Some (POS row col)\<rparr>)) = Some t3"
    using new_focus [OF keeps_ok [OF t1(2)] rc] by blast
  have "POS row col < DEF_SIZ" using POS_text_bound [of row col 1] rc by simp
  then have "\<not> (row = 0 \<or> col = 0 \<or> DEF_SIZ \<le> POS row col)" using rc by auto
  then show ?thesis
    using t1 t3 keeps_trans [OF t1(2) t3(1)] keeps_refl [OF ok] unfolding setfocus_def Let_def by auto
qed

subsection \<open>Laying out a form\<close>

definition entry_name :: "field \<Rightarrow> string" where
  "entry_name f = fm_name (fld_entry f 0)"

text \<open>A field or text within its line; the named fields have no text of their own.\<close>

definition field_ok :: "field \<Rightarrow> bool" where
  "field_ok f \<longleftrightarrow> 1 \<le> fd_row f \<and> fd_row f \<le> int DEF_ROW \<and> 1 \<le> fd_col f \<and> NUL \<notin> set (fd_msg f) \<and>
     fd_col f + int (length (fd_msg f)) \<le> int DEF_COL + 1 \<and>
     (fd_name f \<noteq> [] \<longrightarrow> fd_msg f = [] \<and> 1 \<le> fd_len f \<and> fd_col f + fd_len f \<le> int DEF_COL + 1 \<and> length (entry_name f) < 32)"

text \<open>A field away from another, and with another name.\<close>

definition clear_of :: "field \<Rightarrow> fldmap \<Rightarrow> bool" where
  "clear_of f m \<longleftrightarrow> entry_name f \<noteq> fm_name m \<and>
     (fd_row f \<noteq> int (fm_row m) \<or> fd_col f + fd_len f \<le> int (fm_col m) \<or> int (fm_col m + fm_len m) \<le> fd_col f)"

definition form_inv :: "PEN \<Rightarrow> bool" where
  "form_inv t \<longleftrightarrow> in_sync t \<and> no_nul t \<and> distinct (map fm_name (s_fldmap t)) \<and> distinct (map fm_seq (s_fldmap t)) \<and>
     0 < field_seq t \<and> (\<forall>a<DEF_SIZ. scrn_xpos t a < field_seq t) \<and>
     (\<forall>m\<in>set (s_fldmap t). fm_seq m < field_seq t \<and> placed (scrn_xpos t) (layout m))"

lemma entry_place:
  assumes "field_ok f" "fd_name f \<noteq> []"
  shows "fm_row (fld_entry f k) = nat (fd_row f)" "fm_col (fld_entry f k) = nat (fd_col f)"
    "fm_len (fld_entry f k) = nat (fd_len f)" "fm_name (fld_entry f k) = entry_name f" "fm_seq (fld_entry f k) = k"
  using assms by (auto simp: field_ok_def fld_entry_def byte_def entry_name_def DEF_ROW_def DEF_COL_def)

lemma apart_cells:
  assumes m: "placed xpos (layout m)" and c: "clear_of f m" and f: "field_ok f" "fd_name f \<noteq> []"
    and a: "POS (nat (fd_row f)) (nat (fd_col f)) \<le> a" "a < POS (nat (fd_row f)) (nat (fd_col f)) + nat (fd_len f)"
  shows "\<not> (POS (fm_row m) (fm_col m) \<le> a \<and> a < POS (fm_row m) (fm_col m) + fm_len m)"
proof -
  let ?r = "nat (fd_row f)" and ?c = "nat (fd_col f)" and ?n = "nat (fd_len f)"
  have fb: "1 \<le> ?r" "1 \<le> ?c" "?c + ?n \<le> DEF_COL + 1" using f by (auto simp: field_ok_def)
  have mb: "1 \<le> fm_row m" "1 \<le> fm_col m" "fm_col m + fm_len m \<le> DEF_COL + 1"
    using m by (auto simp: placed_def layout_def)
  obtain k where k: "a = POS ?r (?c + k)" "k < ?n" using a POS_add [OF fb(2)] by (metis le_Suc_ex nat_add_left_cancel_less)
  have ck: "1 \<le> ?c + k" "?c + k \<le> DEF_COL" using fb k(2) by auto
  have "?r \<noteq> fm_row m \<or> \<not> (fm_col m \<le> ?c + k \<and> ?c + k < fm_col m + fm_len m)"
    using c k(2) f by (auto simp: clear_of_def field_ok_def)
  then show ?thesis using POS_in_text [OF mb fb(1) ck] k(1) by auto
qed

lemma str2scr_form:
  assumes inv: "form_inv t" and ok: "text_ok row col s" "length s < 512"
  shows "\<exists>t'. str2scr row col s (setattr a t) = Some t' \<and> form_inv t' \<and> s_fldmap t' = s_fldmap t \<and>
    scrn_xpos t' = scrn_xpos t \<and> field_seq t' = field_seq t \<and> m_fldmap t' = m_fldmap t"
proof -
  have sync: "in_sync (setattr a t)" and nn: "no_nul (setattr a t)"
    using inv by (auto simp: form_inv_def no_nul_def intro: setattr_sync)
  from str2scr_sync [OF sync ok] obtain ca tty where
    w: "str2scr row col s (setattr a t) = Some ((texted row col s (setattr a t))\<lparr>cursaddr := ca, p_tty := tty\<rparr>)"
      "in_sync ((texted row col s (setattr a t))\<lparr>cursaddr := ca, p_tty := tty\<rparr>)" by blast
  have "no_nul ((texted row col s (setattr a t))\<lparr>cursaddr := ca, p_tty := tty\<rparr>)"
    using texted_no_nul [OF nn, of s] ok(1) by (simp add: no_nul_def text_ok_def)
  with w inv show ?thesis
    by (intro exI [of _ "(texted row col s (setattr a t))\<lparr>cursaddr := ca, p_tty := tty\<rparr>"])
      (simp add: form_inv_def texted_def setattr_def Let_def)
qed

lemma add_field_inv:
  assumes inv: "form_inv t" and f: "field_ok f" "fd_name f \<noteq> []" and clear: "\<forall>m\<in>set (s_fldmap t). clear_of f m"
  defines "p \<equiv> POS (nat (fd_row f)) (nat (fd_col f))" and "n \<equiv> nat (fd_len f)"
  shows "form_inv (t\<lparr>scrn_xpos := fill p n (field_seq t) (scrn_xpos t), scrn_type := ty,
    field_seq := field_seq t + 1, s_fldmap := s_fldmap t @ [fld_entry f (field_seq t)]\<rparr>)"
proof -
  let ?x = "fill p n (field_seq t) (scrn_xpos t)" and ?k = "field_seq t"
  have i: "distinct (map fm_name (s_fldmap t))" "distinct (map fm_seq (s_fldmap t))"
    "\<forall>a<DEF_SIZ. scrn_xpos t a < ?k" "\<forall>m\<in>set (s_fldmap t). fm_seq m < ?k \<and> placed (scrn_xpos t) (layout m)"
    using inv by (auto simp: form_inv_def)
  note e = entry_place [OF f, of ?k]
  have new: "placed ?x (layout (fld_entry f ?k))"
    using f i(3) by (auto simp: placed_def layout_def e fill_def field_ok_def p_def n_def)
  have old: "placed ?x (layout m)" if m: "m \<in> set (s_fldmap t)" for m
  proof -
    have "fm_seq m < ?k" "placed (scrn_xpos t) (layout m)" using m i(4) by auto
    moreover have "\<not> (p \<le> a \<and> a < p + n)" if "POS (fm_row m) (fm_col m) \<le> a" "a < POS (fm_row m) (fm_col m) + fm_len m" for a
      using apart_cells [OF calculation(2) _ f, of a] clear m that unfolding p_def n_def by blast
    ultimately show ?thesis by (auto simp: placed_def layout_def fill_def)
  qed
  have "entry_name f \<notin> fm_name ` set (s_fldmap t)" "?k \<notin> fm_seq ` set (s_fldmap t)"
    using clear i(4) by (auto simp: clear_of_def)
  then show ?thesis
    using inv i new old e
    by (auto simp: form_inv_def in_sync_def shown_ok_def cursor_ok_def no_nul_def fill_def less_Suc_eq)
qed

lemma putfld1_named:
  assumes inv: "form_inv t" and f: "field_ok f" "fd_name f \<noteq> []" and clear: "\<forall>m\<in>set (s_fldmap t). clear_of f m"
    and room: "length (s_fldmap t) < m_fldmap t" "field_seq t < 2 ^ 16"
  shows "\<exists>t'. putfld1 f t = Some t' \<and> form_inv t' \<and> s_fldmap t' = s_fldmap t @ [fld_entry f (field_seq t)] \<and>
    field_seq t' = field_seq t + 1 \<and> m_fldmap t' = m_fldmap t"
proof -
  let ?r = "nat (fd_row f)" and ?c = "nat (fd_col f)" and ?n = "nat (fd_len f)" and ?k = "field_seq t"
  let ?s = "replicate ?n (CHR '' '')"
  let ?m = "fld_entry f ?k"
  have f': "fd_msg f = []" "0 < fd_row f" "0 < fd_col f" "0 < fd_len f" "length (fm_name ?m) < 32" "?c + ?n \<le> DEF_COL + 1"
    "?r \<le> DEF_ROW"
    using f entry_place [OF f] by (auto simp: field_ok_def)
  have tx: "text_ok ?r ?c ?s" "length ?s < 512"
    using f' by (auto simp: text_ok_def DEF_COL_def)
  let ?u = "t\<lparr>field_seq := ?k + 1, s_fldmap := s_fldmap t @ [?m]\<rparr>" and ?a = "setattr (fm_att ?m)"
  have "in_sync (?a ?u)"
    using inv by (intro setattr_sync) (simp add: form_inv_def in_sync_def shown_ok_def cursor_ok_def)
  from str2scr_sync [OF this tx] obtain ca tty where
    w: "str2scr ?r ?c ?s (?a ?u) = Some ((texted ?r ?c ?s (?a ?u))\<lparr>cursaddr := ca, p_tty := tty\<rparr>)"
      "in_sync ((texted ?r ?c ?s (?a ?u))\<lparr>cursaddr := ca, p_tty := tty\<rparr>)" by blast
  define t1 where "t1 = (texted ?r ?c ?s (?a t))\<lparr>cursaddr := ca, p_tty := tty\<rparr>"
  have u1: "(texted ?r ?c ?s (?a ?u))\<lparr>cursaddr := ca, p_tty := tty\<rparr> = t1\<lparr>field_seq := ?k + 1, s_fldmap := s_fldmap t @ [?m]\<rparr>"
    by (simp add: t1_def texted_def setattr_def Let_def)
  have same: "s_fldmap t1 = s_fldmap t" "scrn_xpos t1 = scrn_xpos t" "field_seq t1 = ?k" "m_fldmap t1 = m_fldmap t"
    by (simp_all add: t1_def texted_def setattr_def Let_def)
  have "in_sync t1" using w(2) unfolding u1 by (simp add: in_sync_def shown_ok_def cursor_ok_def)
  moreover have "no_nul t1"
    using texted_no_nul [of "?a t" ?s ?r ?c] inv tx(1) by (simp add: t1_def no_nul_def form_inv_def)
  ultimately have t1: "form_inv t1" using inv same by (simp add: form_inv_def)
  have cells: "min ?n (DEF_COL + 1 - ?c) = ?n" "POS ?r ?c + ?n \<le> DEF_SIZ"
    using POS_text_bound [of ?r ?c ?n] f' by auto
  let ?t' = "t1\<lparr>scrn_xpos := fill (POS ?r ?c) ?n ?k (scrn_xpos t1),
     scrn_type := fill (POS ?r ?c) ?n (fm_type ?m mod 2 ^ 8) (scrn_type t1),
     field_seq := field_seq t1 + 1, s_fldmap := s_fldmap t1 @ [fld_entry f (field_seq t1)]\<rparr>"
  have "form_inv ?t'"
    using add_field_inv [OF t1 f, of "fill (POS ?r ?c) ?n (fm_type ?m mod 2 ^ 8) (scrn_type t1)"] clear same by simp
  moreover have "putfld1 f t = Some ?t'"
  proof -
    have "putfld1 f t = setfld ?r ?c ?n ?k (fm_att ?m) (fm_type ?m) ?u"
      using f f' room entry_place [OF f, of ?k] by (simp add: putfld1_def put_msg_def Let_def)
    also have "\<dots> = Some ?t'" using w(1) u1 cells room(2) same by (simp add: setfld_def Let_def)
    finally show ?thesis .
  qed
  ultimately show ?thesis using same by (intro exI [of _ ?t']) simp
qed

lemma putfld1_text:
  assumes inv: "form_inv t" and f: "field_ok f" "fd_name f = []"
  shows "\<exists>t'. putfld1 f t = Some t' \<and> form_inv t' \<and> s_fldmap t' = s_fldmap t \<and> field_seq t' = field_seq t \<and> m_fldmap t' = m_fldmap t"
proof (cases "fd_msg f = []")
  case True
  then show ?thesis using inv f(2) by (simp add: putfld1_def put_msg_def)
next
  case False
  let ?n = "if fd_col f + int (length (fd_msg f)) > int DEF_COL then int DEF_COL - fd_col f + 1 else int (length (fd_msg f))"
  have f': "0 < fd_row f" "0 < fd_col f" "fd_col f + int (length (fd_msg f)) \<le> int DEF_COL + 1" "NUL \<notin> set (fd_msg f)"
    "fd_row f \<le> int DEF_ROW"
    using f by (auto simp: field_ok_def)
  have n: "?n = int (length (fd_msg f))" using f'(3) by auto
  have tx: "text_ok (nat (fd_row f)) (nat (fd_col f)) (fd_msg f)" "length (fd_msg f) < 512"
    using f' by (auto simp: text_ok_def DEF_COL_def)
  from str2scr_form [OF inv tx, of "fd_att f"] show ?thesis
    using False f' f(2) n by (auto simp: putfld1_def put_msg_def Let_def)
qed

text \<open>A form whose fields are pairwise clear of each other and of those that are there.\<close>

fun form_ok :: "field list \<Rightarrow> fldmap list \<Rightarrow> nat \<Rightarrow> bool" where
  "form_ok [] ms k = True"
| "form_ok (f # fs) ms k \<longleftrightarrow> 0 \<le> fd_type f \<and> field_ok f \<and>
     (if fd_name f = [] then form_ok fs ms k
      else list_all (clear_of f) ms \<and> form_ok fs (ms @ [fld_entry f k]) (k + 1))"

lemma form_ok_types: "form_ok fs ms k \<Longrightarrow> takeWhile (\<lambda>f. fd_type f \<ge> 0) fs = fs"
  by (induction fs ms k rule: form_ok.induct) (auto split: if_splits)

definition named :: "field list \<Rightarrow> field list" where
  "named = filter (\<lambda>f. fd_name f \<noteq> [])"

lemma form_ok_field: "form_ok fs ms k \<Longrightarrow> f \<in> set fs \<Longrightarrow> field_ok f"
  by (induction fs ms k rule: form_ok.induct) (auto split: if_splits)

lemma each_putfld1:
  assumes "form_inv t" "form_ok fs (s_fldmap t) (field_seq t)"
    and "length (s_fldmap t) + length (named fs) \<le> m_fldmap t" "field_seq t + length (named fs) < 2 ^ 16"
  shows "\<exists>t'. each putfld1 fs t = Some t' \<and> form_inv t' \<and> m_fldmap t' = m_fldmap t \<and>
    map fm_name (s_fldmap t') = map fm_name (s_fldmap t) @ map entry_name (named fs) \<and>
    set (s_fldmap t) \<subseteq> set (s_fldmap t') \<and> (\<forall>f\<in>set (named fs). \<exists>k. fld_entry f k \<in> set (s_fldmap t'))"
  using assms
proof (induction fs arbitrary: t)
  case (Cons f fs)
  show ?case
  proof (cases "fd_name f = []")
    case True
    with Cons.prems putfld1_text [of t f] obtain t1 where t1: "putfld1 f t = Some t1" "form_inv t1" "s_fldmap t1 = s_fldmap t"
      "field_seq t1 = field_seq t" "m_fldmap t1 = m_fldmap t" by auto
    have "\<exists>t'. each putfld1 fs t1 = Some t' \<and> form_inv t' \<and> m_fldmap t' = m_fldmap t1 \<and>
        map fm_name (s_fldmap t') = map fm_name (s_fldmap t1) @ map entry_name (named fs) \<and>
        set (s_fldmap t1) \<subseteq> set (s_fldmap t') \<and> (\<forall>f\<in>set (named fs). \<exists>k. fld_entry f k \<in> set (s_fldmap t'))"
      by (rule Cons.IH) (use t1 Cons.prems True in \<open>auto simp: named_def\<close>)
    with t1 True show ?thesis by (auto simp: named_def)
  next
    case False
    with Cons.prems putfld1_named [of t f] obtain t1 where t1: "putfld1 f t = Some t1" "form_inv t1"
      "s_fldmap t1 = s_fldmap t @ [fld_entry f (field_seq t)]" "field_seq t1 = field_seq t + 1" "m_fldmap t1 = m_fldmap t"
      by (auto simp: named_def list_all_iff)
    have "\<exists>t'. each putfld1 fs t1 = Some t' \<and> form_inv t' \<and> m_fldmap t' = m_fldmap t1 \<and>
        map fm_name (s_fldmap t') = map fm_name (s_fldmap t1) @ map entry_name (named fs) \<and>
        set (s_fldmap t1) \<subseteq> set (s_fldmap t') \<and> (\<forall>f\<in>set (named fs). \<exists>k. fld_entry f k \<in> set (s_fldmap t'))"
      by (rule Cons.IH) (use t1 Cons.prems False in \<open>auto simp: named_def\<close>)
    then obtain t' where t': "each putfld1 fs t1 = Some t'" "form_inv t'" "m_fldmap t' = m_fldmap t1"
      "map fm_name (s_fldmap t') = map fm_name (s_fldmap t1) @ map entry_name (named fs)"
      "set (s_fldmap t1) \<subseteq> set (s_fldmap t')" "\<forall>f\<in>set (named fs). \<exists>k. fld_entry f k \<in> set (s_fldmap t')" by blast
    have "fm_name (fld_entry f (field_seq t)) = entry_name f" by (simp add: entry_name_def fld_entry_def)
    moreover have "fld_entry f (field_seq t) \<in> set (s_fldmap t')" using t1(3) t'(5) by auto
    ultimately show ?thesis using t1 t' False by (intro exI [of _ t']) (auto simp: named_def)
  qed
qed (simp add: named_def)

text \<open>Sorting the map makes a screen of it.\<close>

lemma endfld_ok:
  assumes "form_inv t"
  shows "pen_ok (snd (endfld t))" "fm_name ` set (s_fldmap (snd (endfld t))) = fm_name ` set (s_fldmap t)"
    "set (s_fldmap (snd (endfld t))) = set (s_fldmap t)"
proof -
  have "distinct (map fm_seq (qsort cmpmap (s_fldmap t)))"
  proof -
    have "mset (map fm_seq (qsort cmpmap (s_fldmap t))) = mset (map fm_seq (s_fldmap t))" by simp
    then show ?thesis using assms by (metis mset_eq_imp_distinct_iff form_inv_def)
  qed
  then have "layout_ok (map layout (qsort cmpmap (s_fldmap t))) (scrn_xpos t)"
    using assms field_names.sorted_qsort [of "s_fldmap t"] field_names.distinct_qsort [of "s_fldmap t"]
    by (auto simp: layout_ok_def layout_def comp_def form_inv_def)
  then show "pen_ok (snd (endfld t))"
    using assms by (simp add: endfld_def pen_ok_def fields_ok_def form_inv_def in_sync_def shown_ok_def cursor_ok_def no_nul_def Let_def)
  show "fm_name ` set (s_fldmap (snd (endfld t))) = fm_name ` set (s_fldmap t)"
    "set (s_fldmap (snd (endfld t))) = set (s_fldmap t)"
    by (simp_all add: endfld_def Let_def)
qed

text \<open>Clearing the screen is a fresh start.\<close>

lemma clrscrn_inv:
  assumes "max_row t \<le> DEF_ROW" "max_col t \<le> DEF_COL" "max_col t \<le> t_cols (p_tty t)" "t_rend (p_tty t) = sgr (attribute t)"
    and "s_fldmap t = []" "field_seq t = 1"
  shows "\<exists>t'. clrscrn 1 t = Some t' \<and> form_inv t' \<and> s_fldmap t' = [] \<and> field_seq t' = 1 \<and> m_fldmap t' = m_fldmap t"
proof -
  have pos: "POS 1 1 = 0" by (simp add: POS_def)
  let ?t' = "t\<lparr>p_tty := tty_erase_below (tty_goto 1 1 (p_tty t)), scrn_char := fill 0 DEF_SIZ (CHR '' '') (scrn_char t),
    scrn_xref := fill 0 DEF_SIZ 0 (scrn_xref t), scrn_xpos := fill 0 DEF_SIZ 0 (scrn_xpos t),
    scrn_type := fill 0 DEF_SIZ 0 (scrn_type t), cursaddr := Some 0\<rparr>"
  have "clrscrn 1 t = Some ?t'" by (simp add: clrscrn_def pos [unfolded One_nat_def] Let_def)
  moreover have "POS r c < DEF_SIZ" if "1 \<le> r" "r \<le> max_row t" "1 \<le> c" "c \<le> max_col t" for r c
    using POS_text_bound [of r c 1] that assms(1,2) by simp
  then have "form_inv ?t'"
    using assms by (auto simp: form_inv_def in_sync_def shown_ok_def cursor_ok_def no_nul_def fill_def tty_erase_below_def
        tty_goto_def blank_def glyph_def COL_def split: prod.split)
  ultimately show ?thesis using assms(5,6) by auto
qed

lemma force_inv:
  assumes "max_row t \<le> DEF_ROW" "max_col t \<le> DEF_COL" "max_col t \<le> t_cols (p_tty t)" "t_rend (p_tty t) = sgr (attribute t)"
  shows "\<exists>t'. clrscrn 1 (setattr 0 (t\<lparr>s_fldmap := [], field_seq := 1, focused := None\<rparr>)) = Some t' \<and> form_inv t' \<and>
    s_fldmap t' = [] \<and> field_seq t' = 1 \<and> m_fldmap t' = m_fldmap t"
proof -
  let ?t0 = "setattr 0 (t\<lparr>s_fldmap := [], field_seq := 1, focused := None\<rparr>)"
  have "max_row ?t0 = max_row t" "max_col ?t0 = max_col t" "t_cols (p_tty ?t0) = t_cols (p_tty t)"
    "t_rend (p_tty ?t0) = sgr (attribute ?t0)" "s_fldmap ?t0 = []" "field_seq ?t0 = 1" "m_fldmap ?t0 = m_fldmap t"
    using assms(4) by (simp_all add: setattr_def)
  with clrscrn_inv [of ?t0] assms(1-3) show ?thesis by simp
qed

lemma form_screen:
  assumes dims: "max_row t \<le> DEF_ROW" "max_col t \<le> DEF_COL" "max_col t \<le> t_cols (p_tty t)" "t_rend (p_tty t) = sgr (attribute t)"
    and form: "form_ok fs [] 1" "length (named fs) \<le> m_fldmap t" "m_fldmap t < 2 ^ 16 - 1"
  shows "\<exists>t1. putfld fs True t = Some t1 \<and> form_inv t1 \<and> pen_ok (snd (endfld t1)) \<and>
    fm_name ` set (s_fldmap (snd (endfld t1))) = entry_name ` set (named fs)"
proof -
  note tw = form_ok_types [OF form(1)]
  obtain t0 where t0: "clrscrn 1 (setattr 0 (t\<lparr>s_fldmap := [], field_seq := 1, focused := None\<rparr>)) = Some t0" "form_inv t0"
    "s_fldmap t0 = []" "field_seq t0 = 1" "m_fldmap t0 = m_fldmap t"
    using force_inv [OF dims] by blast
  obtain t1 where t1: "each putfld1 fs t0 = Some t1" "form_inv t1"
    "map fm_name (s_fldmap t1) = map entry_name (named fs)"
    using each_putfld1 [OF t0(2), of fs] t0 form by auto
  from arg_cong [OF t1(3), of set] have "fm_name ` set (s_fldmap t1) = entry_name ` set (named fs)" by simp
  with t0(1) t1(1,2) endfld_ok [OF t1(2)] show ?thesis unfolding putfld_def tw by simp
qed

subsection \<open>The library at work\<close>

text \<open>One turn of the cleaner.\<close>

definition calm :: "fldmap \<Rightarrow> bool" where
  "calm m \<longleftrightarrow> fm_att m AND FA_REVERSE = 0"

lemma write_back: "write_at p (map f [p..<p + n]) f = f"
  by (auto simp: write_at_def fun_eq_iff)

lemma clean_fld_ok:
  assumes ok: "pen_ok t" and i: "i < length (s_fldmap t)" and old: "fm_when (s_fldmap t ! i) < clock"
  shows "\<exists>t'. clean_fld clock i t = Some t' \<and> keeps t t' \<and> scrn_char t' = scrn_char t \<and> calm (s_fldmap t' ! i) \<and>
    (\<forall>j. j \<noteq> i \<longrightarrow> s_fldmap t' ! j = s_fldmap t ! j)"
proof (cases "calm (s_fldmap t ! i)")
  case True
  then show ?thesis using keeps_refl [OF ok] by (simp add: clean_fld_def calm_def Let_def)
next
  case False
  let ?m = "s_fldmap t ! i" and ?f = "\<lambda>m. m\<lparr>fm_att := fm_att m AND NOT FA_REVERSE, fm_when := 0\<rparr>"
  let ?t1 = "upd_fld i ?f t"
  have lay: "layout (?f m) = layout m" for m by (simp add: layout_def)
  have ok1: "pen_ok ?t1" by (rule upd_fld_ok [OF ok lay])
  have l1: "map layout (s_fldmap ?t1) = map layout (s_fldmap t)" by (rule map_layout_upd [OF lay])
  note i1 = nth_layout [OF l1 i]
  have held: "getfld (fm_name ?m) False ?t1 = Some (fld_text t ?m)"
    using getfld_field [OF pen_okD(2) [OF ok1] i1(1), of False] fld_text_layout [OF i1(2), of ?t1]
      fld_text_no_nul [OF ok nth_mem [OF i]] i1(2)
    by (simp add: layout_def fld_text_def cstr_id)
  have "length (fld_text t ?m) = fm_len ?m" by (simp add: fld_text_def)
  from upd_write [OF ok i lay fld_text_no_nul [OF ok nth_mem [OF i]] this, of "fm_att (s_fldmap ?t1 ! i)"]
  obtain t' where t': "str2scr (fm_row ?m) (fm_col ?m) (fld_text t ?m) (setattr (fm_att (s_fldmap ?t1 ! i)) ?t1) = Some t'"
    "writes i (fld_text t ?m) t t'" "max_row t' = max_row t" "max_col t' = max_col t" by blast
  have "s_fldmap t' = s_fldmap ?t1" using str2scr_dims [OF t'(1)] by simp
  then have "calm (s_fldmap t' ! i)" "\<forall>j. j \<noteq> i \<longrightarrow> s_fldmap t' ! j = s_fldmap t ! j"
    using i by (simp_all add: upd_fld_def calm_def word_bw_assocs)
  moreover have "scrn_char t' = scrn_char t" using t'(2) by (simp add: writes_def Let_def fld_text_def write_back)
  moreover have "clean_fld clock i t = Some t'"
    using False old held t'(1) by (simp add: clean_fld_def calm_def Let_def)
  ultimately show ?thesis using t'(2,3,4) by (blast intro: writes_keeps)
qed

lemma each_snoc: "each f (xs @ [x]) t = (case each f xs t of None \<Rightarrow> None | Some t1 \<Rightarrow> f x t1)"
  by (induction xs arbitrary: t) (auto split: option.splits bind_splits)

lemma cleaner_prefix:
  assumes ok: "pen_ok t" and old: "\<forall>m\<in>set (s_fldmap t). fm_when m < clock" and k: "k \<le> length (s_fldmap t)"
  shows "\<exists>t'. each (clean_fld clock) [0..<k] t = Some t' \<and> keeps t t' \<and> scrn_char t' = scrn_char t \<and>
    (\<forall>j<k. calm (s_fldmap t' ! j)) \<and> (\<forall>j\<ge>k. s_fldmap t' ! j = s_fldmap t ! j)"
  using k
proof (induction k)
  case (Suc k)
  then obtain t1 where t1: "each (clean_fld clock) [0..<k] t = Some t1" "keeps t t1" "scrn_char t1 = scrn_char t"
    "\<forall>j<k. calm (s_fldmap t1 ! j)" "\<forall>j\<ge>k. s_fldmap t1 ! j = s_fldmap t ! j" by auto
  have len: "length (s_fldmap t1) = length (s_fldmap t)" using t1(2) by (metis keeps_def length_map)
  have "fm_when (s_fldmap t1 ! k) < clock" using t1(5) old Suc.prems by simp
  then obtain t2 where t2: "clean_fld clock k t1 = Some t2" "keeps t1 t2" "scrn_char t2 = scrn_char t1"
    "calm (s_fldmap t2 ! k)" "\<forall>j. j \<noteq> k \<longrightarrow> s_fldmap t2 ! j = s_fldmap t1 ! j"
    using clean_fld_ok [OF keeps_ok [OF t1(2)], of k clock] len Suc.prems by auto
  have "each (clean_fld clock) [0..<Suc k] t = Some t2" using t1(1) t2(1) by (simp add: each_snoc)
  moreover have "\<forall>j<Suc k. calm (s_fldmap t2 ! j)" using t1(4) t2(4,5) by (auto simp: less_Suc_eq)
  moreover have "\<forall>j\<ge>Suc k. s_fldmap t2 ! j = s_fldmap t ! j" using t1(5) t2(5) by auto
  ultimately show ?case using keeps_trans [OF t1(2) t2(2)] t1(3) t2(3) by auto
qed (simp add: keeps_refl [OF ok])

lemma cleaner_calms:
  assumes ok: "pen_ok t" and old: "\<forall>m\<in>set (s_fldmap t). fm_when m < clock"
  shows "\<exists>t'. cleaner clock t = Some t' \<and> keeps t t' \<and> scrn_char t' = scrn_char t \<and> (\<forall>m\<in>set (s_fldmap t'). calm m)"
proof -
  obtain t' where t': "cleaner clock t = Some t'" "keeps t t'" "scrn_char t' = scrn_char t"
    "\<forall>j<length (s_fldmap t). calm (s_fldmap t' ! j)"
    using cleaner_prefix [OF ok old order_refl] by (auto simp: cleaner_def)
  moreover have "length (s_fldmap t') = length (s_fldmap t)" using t'(2) by (metis keeps_def length_map)
  ultimately show ?thesis by (auto simp: in_set_conv_nth)
qed

lemma clean_fld_keeps:
  assumes "pen_ok t" "i < length (s_fldmap t)"
  shows "\<exists>t'. clean_fld clock i t = Some t' \<and> keeps t t'"
proof (cases "fm_when (s_fldmap t ! i) < clock")
  case True
  then show ?thesis using clean_fld_ok [OF assms] by blast
next
  case False
  then show ?thesis using keeps_refl [OF assms(1)] by (simp add: clean_fld_def)
qed

lemma keeps_length: "keeps t t' \<Longrightarrow> length (s_fldmap t') = length (s_fldmap t)"
  by (metis keeps_def length_map)

text \<open>The calls the viewer makes on a screen, but for \<open>insline\<close>.\<close>

datatype call =
    Push string string u32 bool time_t
  | Str string string
  | Focus string
  | Erase nat
  | Clean time_t

fun run_call :: "call \<Rightarrow> PEN \<Rightarrow> PEN option" where
  "run_call (Push nm data color rt now) t = pushfld nm data color rt now t"
| "run_call (Str nm s) t = str2fld nm s t"
| "run_call (Focus nm) t = cur2fld nm t"
| "run_call (Erase row) t = clreos row t"
| "run_call (Clean clock) t = cleaner clock t"

fun call_ok :: "call \<Rightarrow> bool" where
  "call_ok (Push nm data color rt now) \<longleftrightarrow> length nm < 32 \<and> NUL \<notin> set data"
| "call_ok (Str nm s) \<longleftrightarrow> length nm < 32 \<and> NUL \<notin> set s"
| "call_ok (Focus nm) \<longleftrightarrow> length nm < 32"
| "call_ok (Erase row) \<longleftrightarrow> 1 \<le> row"
| "call_ok (Clean clock) \<longleftrightarrow> True"

lemma call_keeps:
  assumes ok: "pen_ok t" and width: "max_col t \<le> DEF_COL - 2" and c: "call_ok c"
  shows "\<exists>t'. run_call c t = Some t' \<and> keeps t t'"
proof (cases c)
  case (Push nm data color rt now)
  show ?thesis
    by (rule find_fld_cases [OF pen_okD(2) [OF ok], of nm])
      (use c Push pushfld_writes [OF ok] keeps_refl [OF ok] in \<open>fastforce simp: pushfld_def\<close>)+
next
  case (Str nm s)
  show ?thesis
    by (rule find_fld_cases [OF pen_okD(2) [OF ok], of nm])
      (use c Str str2fld_writes [OF ok] keeps_refl [OF ok] in \<open>fastforce simp: str2fld_def\<close>)+
next
  case (Focus nm)
  show ?thesis
  proof (rule find_fld_cases [OF pen_okD(2) [OF ok], of nm])
    fix i assume i: "find_fld nm t = Some (Some i)" "i < length (s_fldmap t)"
    have b: "1 \<le> fm_row (s_fldmap t ! i)" "fm_row (s_fldmap t ! i) \<le> DEF_ROW" "1 \<le> fm_col (s_fldmap t ! i)"
      "fm_col (s_fldmap t ! i) \<le> DEF_COL"
      using fields_okD(5) [OF pen_okD(2) [OF ok] nth_mem [OF i(2)]] by auto
    show ?thesis using setfocus_ok [OF ok b] i Focus by (simp add: cur2fld_def)
  qed (use c Focus keeps_refl [OF ok] in \<open>simp_all add: cur2fld_def\<close>)
next
  case (Erase row)
  then show ?thesis using clreos_ok [OF ok _ width] c by simp
next
  case (Clean clock)
  have "\<exists>t'. each (clean_fld clock) [0..<length (s_fldmap t)] t = Some t' \<and> keeps t t'"
  proof (rule each_keeps [OF ok])
    fix i s assume "i \<in> set [0..<length (s_fldmap t)]" "keeps t s"
    then show "\<exists>s'. clean_fld clock i s = Some s' \<and> keeps s s'"
      using keeps_length [of t s] by (intro clean_fld_keeps) (auto dest: keeps_ok)
  qed
  then show ?thesis using Clean by (simp add: cleaner_def)
qed

lemma calls_keep:
  assumes "pen_ok t" "max_col t \<le> DEF_COL - 2" "\<forall>c\<in>set cs. call_ok c"
  shows "\<exists>t'. each run_call cs t = Some t' \<and> keeps t t'"
proof (rule each_keeps [OF assms(1)])
  fix c s assume "c \<in> set cs" "keeps t s"
  then show "\<exists>s'. run_call c s = Some s' \<and> keeps s s'" using assms by (intro call_keeps) (auto simp: keeps_def)
qed

subsection \<open>Resizing\<close>

lemma sgr_mask [simp]: "sgr (x AND 0xfff) = sgr x"
proof -
  have "drop_bit 8 (0xfff :: u32) = 0xf" by simp
  then have "COLOR_F (x AND 0xfff) = COLOR_F x"
    unfolding COLOR_F_def drop_bit_and by (simp add: word_bw_assocs)
  then show ?thesis by (simp add: sgr_def FA_BOLD_def FA_UNDERLINE_def FA_REVERSE_def FA_BLINK_def word_bw_assocs)
qed

text \<open>The cells shown so far; what the loops of \<open>redraw\<close> leave as it is.\<close>

definition repainted :: "PEN \<Rightarrow> PEN \<Rightarrow> (nat \<Rightarrow> nat \<Rightarrow> bool) \<Rightarrow> bool" where
  "repainted t0 t done \<longleftrightarrow> scrn_char t = scrn_char t0 \<and> scrn_xref t = scrn_xref t0 \<and> max_row t = max_row t0 \<and>
     max_col t = max_col t0 \<and> t_rend (p_tty t) = sgr (attribute t) \<and> t_cols (p_tty t) = t_cols (p_tty t0) \<and>
     (\<forall>r c. done r c \<longrightarrow> t_cell (p_tty t) r c = (scrn_char t0 (POS r c), sgr (scrn_xref t0 (POS r c))))"

lemma redraw_cell_ok:
  assumes p: "repainted t0 t done"
    and rc: "1 \<le> row" "row \<le> max_row t0" "1 \<le> col" "col \<le> max_col t0" "max_col t0 \<le> DEF_COL" "max_col t0 \<le> t_cols (p_tty t0)"
    and nul: "scrn_char t0 (POS row col) \<noteq> NUL" and cur: "1 < col \<Longrightarrow> cursaddr t = Some (POS row (col - 1))"
  shows "\<exists>t'. redraw_cell row col t = Some t' \<and> repainted t0 t' (\<lambda>r c. done r c \<or> r = row \<and> c = col) \<and>
    cursaddr t' = Some (POS row col)"
proof -
  let ?x = "scrn_xref t0 (POS row col)" and ?ch = "scrn_char t0 (POS row col)"
  let ?s = "setattr ?x t"
  have t: "scrn_char t = scrn_char t0" "scrn_xref t = scrn_xref t0" "max_row t = max_row t0" "max_col t = max_col t0"
    using p by (simp_all add: repainted_def)
  have attr: "attribute ?s = ?x AND 0xfff" "t_rend (p_tty ?s) = sgr (attribute ?s)"
    "cursaddr ?s = cursaddr t" "t_cell (p_tty ?s) = t_cell (p_tty t)" "t_cols (p_tty ?s) = t_cols (p_tty t0)"
    using p by (simp_all add: setattr_def Let_def repainted_def)
  have moves: "\<not> (cursaddr ?s = Some (POS row col) \<and> COL (POS row col) \<noteq> 1)"
  proof
    assume a: "cursaddr ?s = Some (POS row col) \<and> COL (POS row col) \<noteq> 1"
    then have "1 < col" using POS_inv(2) [of row col] rc by auto
    with cur a attr(3) have "POS row (col - 1) = POS row col" by simp
    then show False using \<open>1 < col\<close> by (simp add: POS_def)
  qed
  have sp: "setpos row col ?s = ?s\<lparr>p_tty := tty_goto row col (p_tty ?s), cursaddr := Some (POS row col)\<rparr>"
    unfolding setpos_def if_not_P [OF moves] using rc t by simp
  let ?tty = "(p_tty ?s)\<lparr>t_cell := (\<lambda>r' c'. if r' = row \<and> col \<le> c' \<and> c' < col + 1 then ([?ch] ! (c' - col), t_rend (p_tty ?s))
      else t_cell (p_tty ?s) r' c'), t_cur := (row, col + 1)\<rparr>"
  have "tty_put [?ch] (tty_goto row col (p_tty ?s)) = Some ?tty"
    using rc attr(5) by (simp add: tty_put_def tty_goto_def cong: if_cong)
  then have "redraw_cell row col t = Some (?s\<lparr>p_tty := ?tty, cursaddr := Some (POS row col)\<rparr>)"
    using nul by (simp add: redraw_cell_def sp t)
  moreover have "repainted t0 (?s\<lparr>p_tty := ?tty, cursaddr := Some (POS row col)\<rparr>) (\<lambda>r c. done r c \<or> r = row \<and> c = col)"
    using p attr by (auto simp: repainted_def less_Suc_eq)
  ultimately show ?thesis by auto
qed

lemma redraw_row_ok:
  assumes p: "repainted t0 t (\<lambda>r c. 1 \<le> r \<and> r < row \<and> 1 \<le> c \<and> c \<le> max_col t0)"
    and r: "1 \<le> row" "row \<le> max_row t0" "max_row t0 \<le> DEF_ROW" "max_col t0 \<le> DEF_COL" "max_col t0 \<le> t_cols (p_tty t0)"
    and nul: "no_nul t0" and k: "k \<le> max_col t0"
  shows "\<exists>t'. each (redraw_cell row) [1..<k + 1] t = Some t' \<and>
    repainted t0 t' (\<lambda>r c. 1 \<le> r \<and> r < row \<and> 1 \<le> c \<and> c \<le> max_col t0 \<or> r = row \<and> 1 \<le> c \<and> c \<le> k) \<and>
    (0 < k \<longrightarrow> cursaddr t' = Some (POS row k))"
  using k
proof (induction k)
  case 0
  then show ?case using p by (auto simp: repainted_def)
next
  case (Suc k)
  let ?done = "\<lambda>r c. 1 \<le> r \<and> r < row \<and> 1 \<le> c \<and> c \<le> max_col t0 \<or> r = row \<and> 1 \<le> c \<and> c \<le> k"
  obtain t1 where t1: "each (redraw_cell row) [1..<k + 1] t = Some t1"
    "repainted t0 t1 ?done" "0 < k \<longrightarrow> cursaddr t1 = Some (POS row k)" using Suc by auto
  have "POS row (Suc k) < DEF_SIZ" using POS_text_bound [of row "Suc k" 1] Suc.prems r by simp
  then have nn: "scrn_char t0 (POS row (Suc k)) \<noteq> NUL" using nul by (simp add: no_nul_def)
  obtain t2 where t2: "redraw_cell row (Suc k) t1 = Some t2"
    "repainted t0 t2 (\<lambda>r c. ?done r c \<or> r = row \<and> c = Suc k)" "cursaddr t2 = Some (POS row (Suc k))"
    using redraw_cell_ok [OF t1(2) r(1,2) _ Suc.prems r(4,5) nn] t1(3) by auto
  have "(\<lambda>r c. ?done r c \<or> r = row \<and> c = Suc k) =
      (\<lambda>r c. 1 \<le> r \<and> r < row \<and> 1 \<le> c \<and> c \<le> max_col t0 \<or> r = row \<and> 1 \<le> c \<and> c \<le> Suc k)"
    by (auto simp: fun_eq_iff)
  moreover have "[1..<Suc k + 1] = [1..<k + 1] @ [Suc k]" by simp
  ultimately show ?case using t1(1) t2 by (simp only: each_snoc) simp
qed

lemma redraw_rows_ok:
  assumes p: "repainted t0 t0 (\<lambda>r c. False)"
    and r: "max_row t0 \<le> DEF_ROW" "max_col t0 \<le> DEF_COL" "max_col t0 \<le> t_cols (p_tty t0)" and nul: "no_nul t0"
    and k: "k \<le> max_row t0"
  shows "\<exists>t'. each (\<lambda>row. each (redraw_cell row) [1..<max_col t0 + 1]) [1..<k + 1] t0 = Some t' \<and>
    repainted t0 t' (\<lambda>r c. 1 \<le> r \<and> r < k + 1 \<and> 1 \<le> c \<and> c \<le> max_col t0)"
  using k
proof (induction k)
  case 0
  then show ?case using p by (simp add: repainted_def)
next
  case (Suc k)
  then obtain t1 where t1: "each (\<lambda>row. each (redraw_cell row) [1..<max_col t0 + 1]) [1..<k + 1] t0 = Some t1"
    "repainted t0 t1 (\<lambda>r c. 1 \<le> r \<and> r < Suc k \<and> 1 \<le> c \<and> c \<le> max_col t0)" by auto
  obtain t2 where t2: "each (redraw_cell (Suc k)) [1..<max_col t0 + 1] t1 = Some t2"
    "repainted t0 t2 (\<lambda>r c. 1 \<le> r \<and> r < Suc k \<and> 1 \<le> c \<and> c \<le> max_col t0 \<or> r = Suc k \<and> 1 \<le> c \<and> c \<le> max_col t0)"
    using redraw_row_ok [OF t1(2) _ Suc.prems r nul order_refl] by auto
  have "(\<lambda>r c. 1 \<le> r \<and> r < Suc k \<and> 1 \<le> c \<and> c \<le> max_col t0 \<or> r = Suc k \<and> 1 \<le> c \<and> c \<le> max_col t0) =
      (\<lambda>r c. 1 \<le> r \<and> r < Suc k + 1 \<and> 1 \<le> c \<and> c \<le> max_col t0)"
    by (auto simp: fun_eq_iff)
  moreover have "[1..<Suc k + 1] = [1..<k + 1] @ [Suc k]" by simp
  ultimately show ?case using t1(1) t2 by (simp only: each_snoc) simp
qed

lemma redraw_shows:
  assumes "no_nul t" "t_rend (p_tty t) = sgr (attribute t)"
  shows "\<exists>t'. redraw ws_row ws_col tty t = Some t' \<and> scrn_char t' = scrn_char t \<and> scrn_xref t' = scrn_xref t \<and>
    max_row t' = min ws_row DEF_ROW \<and> max_col t' = min ws_col DEF_COL \<and> shown_ok t'"
proof -
  let ?t0 = "t\<lparr>max_row := min ws_row DEF_ROW, max_col := min ws_col DEF_COL,
    p_tty := tty_erase_below (tty_goto 1 1 (tty\<lparr>t_rend := t_rend (p_tty t), t_cols := ws_col\<rparr>))\<rparr>"
  have tty: "t_rend (p_tty ?t0) = sgr (attribute ?t0)" "t_cols (p_tty ?t0) = ws_col"
    using assms(2) by (simp_all add: tty_erase_below_def tty_goto_def)
  have nn: "no_nul ?t0" using assms(1) by (simp add: no_nul_def)
  have "repainted ?t0 ?t0 (\<lambda>r c. False)" using tty by (simp add: repainted_def)
  from redraw_rows_ok [OF this _ _ _ nn order_refl] tty obtain t' where
    t': "each (\<lambda>row. each (redraw_cell row) [1..<max_col ?t0 + 1]) [1..<max_row ?t0 + 1] ?t0 = Some t'"
      "repainted ?t0 t' (\<lambda>r c. 1 \<le> r \<and> r < max_row ?t0 + 1 \<and> 1 \<le> c \<and> c \<le> max_col ?t0)" by auto
  have "shown_ok t'"
    unfolding shown_ok_def
  proof (intro allI impI)
    fix r c assume rc: "1 \<le> r \<and> r \<le> max_row t' \<and> 1 \<le> c \<and> c \<le> max_col t'"
    then have rc': "1 \<le> r" "r \<le> min ws_row DEF_ROW" "1 \<le> c" "c \<le> min ws_col DEF_COL" using t'(2) by (simp_all add: repainted_def)
    then have "POS r c < DEF_SIZ" using POS_text_bound [of r c 1] by simp
    then have "glyph (scrn_char t (POS r c)) = scrn_char t (POS r c)" using assms(1) by (simp add: glyph_def no_nul_def)
    then show "t_cell (p_tty t') r c = (glyph (scrn_char t' (POS r c)), sgr (scrn_xref t' (POS r c)))"
      using t'(2) rc' by (simp add: repainted_def less_Suc_eq_le)
  qed
  with t' show ?thesis by (auto simp: redraw_def Let_def repainted_def)
qed

subsection \<open>Properties\<close>

text \<open>An example: a terminal of 24 lines with two fields.\<close>

definition demo_fields :: "field list" where
  "demo_fields = [
     \<lparr>fd_type = 2, fd_name = [], fd_row = 2, fd_col = 1, fd_len = 0, fd_msg = ''Choice '', fd_att = 0, fd_seq = -1, fd_chk = 0\<rparr>,
     \<lparr>fd_type = 1, fd_name = ''iSCRN'', fd_row = 2, fd_col = 9, fd_len = 3, fd_msg = [], fd_att = 0, fd_seq = -1, fd_chk = 0\<rparr>,
     \<lparr>fd_type = 1, fd_name = ''iHOST'', fd_row = 2, fd_col = 13, fd_len = 6, fd_msg = [], fd_att = 0, fd_seq = -1, fd_chk = 0\<rparr>]"

definition demo_pen0 :: PEN where
  "demo_pen0 = \<lparr>max_row = 24, max_col = 80, scrn_char = (\<lambda>_. CHR '' ''), scrn_xref = (\<lambda>_. 0), scrn_xpos = (\<lambda>_. 0),
     scrn_type = (\<lambda>_. 0), cursaddr = Some 0, attribute = 0, field_seq = 1, s_fldmap = [], m_fldmap = 1280,
     no_of_input = 0, focused = None, visible = False,
     p_tty = \<lparr>t_cell = (\<lambda>_ _. blank), t_cur = (1, 1), t_rend = [37], t_cols = 80\<rparr>\<rparr>"

definition demo_pen :: PEN where
  "demo_pen = snd (endfld (the (putfld demo_fields True demo_pen0)))"

lemma each_dims:
  assumes "\<And>x s s'. f x s = Some s' \<Longrightarrow> max_row s' = max_row s \<and> max_col s' = max_col s"
  shows "each f xs t = Some t' \<Longrightarrow> max_row t' = max_row t \<and> max_col t' = max_col t"
proof (induction xs arbitrary: t)
  case (Cons x xs)
  then obtain s where "f x t = Some s" "each f xs s = Some t'" by (auto split: bind_splits)
  with Cons.IH assms show ?case by metis
qed simp

lemma putfld_dims:
  assumes "putfld fs force t = Some t'"
  shows "max_row t' = max_row t \<and> max_col t' = max_col t"
proof -
  have "max_row s' = max_row s \<and> max_col s' = max_col s" if "put_msg f s = Some s'" for f s s'
    using that by (auto simp: put_msg_def Let_def dest: str2scr_dims split: if_splits)
  moreover have "max_row s' = max_row s \<and> max_col s' = max_col s" if "setfld r c n q a ty s = Some s'" for r c n q a ty s s'
    using that by (auto simp: setfld_def Let_def dest: str2scr_dims split: if_splits bind_splits)
  ultimately have one: "max_row s' = max_row s \<and> max_col s' = max_col s" if "putfld1 f s = Some s'" for f s s'
    using that by (fastforce simp: putfld1_def Let_def split: if_splits bind_splits)
  have "max_row s' = max_row s \<and> max_col s' = max_col s" if "clrscrn 1 s = Some s'" for s s'
    using that by (auto simp: clrscrn_def Let_def split: if_splits)
  then show ?thesis using assms each_dims [OF one] by (fastforce simp: putfld_def split: if_splits bind_splits)
qed

lemma demo_pen_ok:
  "pen_ok demo_pen" "fm_name ` set (s_fldmap demo_pen) = {''iSCRN'', ''iHOST''}" "max_row demo_pen = 24" "max_col demo_pen = 80"
proof -
  have form: "form_ok demo_fields [] 1" "named demo_fields = tl demo_fields" "entry_name ` set (tl demo_fields) = {''iSCRN'', ''iHOST''}"
    "length (tl demo_fields) = 2"
    by (simp_all add: demo_fields_def field_ok_def entry_name_def fld_entry_def byte_def clear_of_def named_def
        DEF_ROW_def DEF_COL_def is_input_def)
  obtain t1 where t1: "putfld demo_fields True demo_pen0 = Some t1" "pen_ok (snd (endfld t1))"
      "fm_name ` set (s_fldmap (snd (endfld t1))) = entry_name ` set (named demo_fields)"
    using form_screen [of demo_pen0, OF _ _ _ _ form(1)] form(2,4) by (auto simp: demo_pen0_def DEF_ROW_def DEF_COL_def)
  have d: "demo_pen = snd (endfld t1)" using t1(1) by (simp add: demo_pen_def)
  show "pen_ok demo_pen" "fm_name ` set (s_fldmap demo_pen) = {''iSCRN'', ''iHOST''}"
    using t1(2,3) form(2,3) unfolding d by simp_all
  show "max_row demo_pen = 24" "max_col demo_pen = 80"
    using putfld_dims [OF t1(1)] unfolding d by (simp_all add: endfld_def Let_def demo_pen0_def)
qed

text \<open>
  A form is laid out as it says. When the fields of a form lie within their lines and apart from
  each other and have different names, \<open>putfld\<close> and \<open>endfld\<close> put them on the screen: no access
  goes behind the copy, the terminal shows the copy, and every name can be found and has exactly its own
  cells.
\<close>

theorem form_laid_out:
  assumes "max_row t \<le> DEF_ROW" "max_col t \<le> DEF_COL" "max_col t \<le> t_cols (p_tty t)" "t_rend (p_tty t) = sgr (attribute t)"
    and "form_ok fs [] 1" "length (named fs) \<le> m_fldmap t" "m_fldmap t < 2 ^ 16 - 1"
  shows "\<exists>t1. putfld fs True t = Some t1 \<and> pen_ok (snd (endfld t1)) \<and>
    fm_name ` set (s_fldmap (snd (endfld t1))) = entry_name ` set (named fs)"
  using form_screen [OF assms] by blast

theorem form_laid_out_witness:
  "\<exists>t1. putfld demo_fields True demo_pen0 = Some t1 \<and> pen_ok (snd (endfld t1)) \<and>
     fm_name ` set (s_fldmap (snd (endfld t1))) = entry_name ` set (named demo_fields)"
  by (rule form_laid_out) (simp_all add: demo_pen0_def demo_fields_def field_ok_def entry_name_def fld_entry_def byte_def
      clear_of_def named_def DEF_ROW_def DEF_COL_def is_input_def)

text \<open>
  C27. The terminal always shows the copy. Whatever fields are written, pushed, focused or cleaned
  and lines erased, in any order, every call succeeds and afterwards the terminal shows in every visible
  cell the character and the rendition that the copy has there, on a terminal of at most 80 lines and 248
  columns.
\<close>

theorem terminal_shows_copy:
  assumes "pen_ok t" "max_col t \<le> DEF_COL - 2" "\<forall>c\<in>set cs. call_ok c"
  shows "\<exists>t'. each run_call cs t = Some t' \<and> pen_ok t' \<and>
    (\<forall>r c. 1 \<le> r \<and> r \<le> max_row t \<and> 1 \<le> c \<and> c \<le> max_col t \<longrightarrow>
       t_cell (p_tty t') r c = (scrn_char t' (POS r c), sgr (scrn_xref t' (POS r c))))"
proof -
  obtain t' where t': "each run_call cs t = Some t'" "keeps t t'" using calls_keep [OF assms] by blast
  have "in_sync t'" "no_nul t'" "max_row t' = max_row t" "max_col t' = max_col t"
    using t'(2) by (simp_all add: keeps_def pen_ok_def)
  moreover from this have "POS r c < DEF_SIZ" if "1 \<le> r" "r \<le> max_row t" "1 \<le> c" "c \<le> max_col t" for r c
    using POS_text_bound [of r c 1] that by (simp add: in_sync_def)
  ultimately show ?thesis
    using t' by (auto simp: keeps_def in_sync_def shown_ok_def no_nul_def glyph_def)
qed

theorem terminal_shows_copy_witness:
  "\<exists>t'. each run_call [Str ''iHOST'' ''CMEDEV'', Focus ''iSCRN'', Push ''iSCRN'' ''200'' 0 True 7, Clean 9, Erase 5] demo_pen = Some t' \<and>
     pen_ok t'"
  using terminal_shows_copy [of demo_pen "[Str ''iHOST'' ''CMEDEV'', Focus ''iSCRN'', Push ''iSCRN'' ''200'' 0 True 7, Clean 9, Erase 5]"]
    demo_pen_ok by (auto simp: DEF_COL_def)

text \<open>
  What is written into a field is read from it. After \<open>str2fld\<close> the field holds the text, cut to its
  length or filled up with blanks, and every other field holds what it held.
\<close>

theorem field_roundtrip:
  assumes "pen_ok t" "i < length (s_fldmap t)" "NUL \<notin> set str"
  shows "\<exists>t'. str2fld (fm_name (s_fldmap t ! i)) str t = Some t' \<and>
    getfld (fm_name (s_fldmap t ! i)) False t' = Some (fit True (fm_len (s_fldmap t ! i)) str) \<and>
    (\<forall>nm trim. length nm < 32 \<and> nm \<noteq> fm_name (s_fldmap t ! i) \<longrightarrow> getfld nm trim t' = getfld nm trim t)"
proof -
  obtain t' where t': "str2fld (fm_name (s_fldmap t ! i)) str t = Some t'"
    "writes i (fit True (fm_len (s_fldmap t ! i)) str) t t'" using str2fld_writes [OF assms] by blast
  note r = writes_read [OF assms(1,2) fit_length t'(2)]
  from r(1) have "getfld (fm_name (s_fldmap t ! i)) False t' = Some (fit True (fm_len (s_fldmap t ! i)) str)"
    unfolding cstr_id [OF fit_no_NUL [OF assms(3)]] .
  with t'(1) show ?thesis by (intro exI [of _ t'] conjI allI impI r(2)) auto
qed

theorem field_roundtrip_witness:
  "\<exists>n t'. str2fld ''iHOST'' ''CME'' demo_pen = Some t' \<and> getfld ''iHOST'' False t' = Some (fit True n ''CME'') \<and>
     getfld ''iSCRN'' True t' = getfld ''iSCRN'' True demo_pen"
proof -
  have "''iHOST'' \<in> fm_name ` set (s_fldmap demo_pen)" using demo_pen_ok(2) by simp
  then obtain m where "m \<in> set (s_fldmap demo_pen)" "fm_name m = ''iHOST''" by auto
  then obtain i where i: "i < length (s_fldmap demo_pen)" "fm_name (s_fldmap demo_pen ! i) = ''iHOST''"
    by (auto simp: in_set_conv_nth)
  have "NUL \<notin> set ''CME''" by simp
  from field_roundtrip [OF demo_pen_ok(1) i(1) this] i(2) show ?thesis by auto
qed

text \<open>
  C28. Highlights end. A second after the last push the cleaner has taken the reverse off every
  field, without changing a character on the screen.
\<close>

theorem highlights_end:
  assumes "pen_ok t" "\<forall>m\<in>set (s_fldmap t). fm_when m < clock"
  shows "\<exists>t'. cleaner clock t = Some t' \<and> pen_ok t' \<and> scrn_char t' = scrn_char t \<and>
    (\<forall>m\<in>set (s_fldmap t'). fm_att m AND FA_REVERSE = 0)"
  using cleaner_calms [OF assms] by (auto simp: keeps_def calm_def)

theorem highlights_end_witness:
  "\<exists>clock t'. cleaner clock demo_pen = Some t' \<and> (\<forall>m\<in>set (s_fldmap t'). fm_att m AND FA_REVERSE = 0)"
proof -
  have "\<forall>m\<in>set (s_fldmap demo_pen). fm_when m < Max (fm_when ` set (s_fldmap demo_pen)) + 1"
    by (simp add: less_add_one order.strict_trans1)
  from highlights_end [OF demo_pen_ok(1) this] show ?thesis by blast
qed

text \<open>
  A new size is drawn anew. After the size of the terminal has changed, whatever was on it,
  \<open>redraw\<close> makes it show the copy within the new size.
\<close>

theorem resize_repaints:
  assumes "no_nul t" "t_rend (p_tty t) = sgr (attribute t)"
  shows "\<exists>t'. redraw ws_row ws_col tty t = Some t' \<and> scrn_char t' = scrn_char t \<and> scrn_xref t' = scrn_xref t \<and> shown_ok t' \<and>
    max_row t' = min ws_row DEF_ROW \<and> max_col t' = min ws_col DEF_COL"
  using redraw_shows [OF assms] by blast

theorem resize_repaints_witness:
  "\<exists>t'. redraw 40 300 (p_tty demo_pen) demo_pen = Some t' \<and> shown_ok t' \<and> max_row t' = 40 \<and> max_col t' = 250"
  using resize_repaints [of demo_pen 40 300 "p_tty demo_pen"] pen_okD [OF demo_pen_ok(1)]
  by (auto simp: in_sync_def DEF_ROW_def DEF_COL_def)

lemma insline_cells:
  assumes sync: "in_sync t" and r: "1 \<le> r" "r < max_row t"
  shows "insline r 1 t = Some (insline1 r (setpos r 1 t))"
    and "80 - r \<le> c \<Longrightarrow> c \<le> max_col t \<Longrightarrow> 1 \<le> c \<Longrightarrow>
      t_cell (p_tty (insline1 r (setpos r 1 t))) (r + 1) c = t_cell (p_tty t) r c \<and>
      scrn_char (insline1 r (setpos r 1 t)) (POS (r + 1) c) = scrn_char t (POS (r + 1) c)"
proof -
  have dims: "max_row t \<le> 80" "max_col t \<le> DEF_COL" using sync by (simp_all add: in_sync_def DEF_ROW_def)
  obtain tty where sp: "setpos r 1 t = t\<lparr>cursaddr := Some (POS r 1), p_tty := tty\<rparr>" using setpos_eq by blast
  show "insline r 1 t = Some (insline1 r (setpos r 1 t))"
    using r dims by (simp add: insline_def DEF_ROW_def)
  assume c: "80 - r \<le> c" "c \<le> max_col t" "1 \<le> c"
  have cur: "t_cur tty = (r, 1)" using setpos_cur [OF sync r(1), of 1] c r sp by simp
  have cells: "t_cell tty = t_cell (p_tty t)"
    using arg_cong [OF sp, of "\<lambda>t. t_cell (p_tty t)"] by (auto simp: setpos_def tty_goto_def split: if_splits)
  have "DEF_COL \<le> POS (r + 1) c - POS r 1" "POS (r + 1) 1 + (DEF_ROW - r - 1) \<le> POS (r + 1) c"
    using c r by (auto simp: POS_def DEF_ROW_def algebra_simps)
  then show "t_cell (p_tty (insline1 r (setpos r 1 t))) (r + 1) c = t_cell (p_tty t) r c \<and>
      scrn_char (insline1 r (setpos r 1 t)) (POS (r + 1) c) = scrn_char t (POS (r + 1) c)"
    unfolding sp by (auto simp: insline1_def tty_insert_line_def cur cells fill_def move_down_def Let_def)
qed

text \<open>
  Inserting a line tears the copy from the terminal. The composite screen inserts a line at row \<open>r\<close>
  for every quote that is pushed. The terminal moves all of its lines down; in the copy the line below keeps what it had from
  column \<open>80 - r\<close> on, and the fields in row \<open>r\<close> lose their cells, so that reading them gives nothing.
\<close>

theorem insline_tears:
  assumes "in_sync t" "1 \<le> r" "r < max_row t"
  shows "\<exists>t'. insline r 1 t = Some t' \<and>
    (\<forall>c. 1 \<le> c \<and> 80 - r \<le> c \<and> c \<le> max_col t \<longrightarrow>
       t_cell (p_tty t') (r + 1) c = t_cell (p_tty t) r c \<and> scrn_char t' (POS (r + 1) c) = scrn_char t (POS (r + 1) c)) \<and>
    (\<forall>m. fm_row m = r \<and> 1 \<le> fm_col m \<and> fm_col m \<le> DEF_COL \<and> fm_seq m \<noteq> 0 \<longrightarrow> fld_cells m t' = [])"
proof (intro exI [of _ "insline1 r (setpos r 1 t)"] conjI allI impI)
  show "insline r 1 t = Some (insline1 r (setpos r 1 t))" by (rule insline_cells(1) [OF assms])
  fix m :: fldmap assume m: "fm_row m = r \<and> 1 \<le> fm_col m \<and> fm_col m \<le> DEF_COL \<and> fm_seq m \<noteq> 0"
  then have "scrn_xpos (insline1 r (setpos r 1 t)) (POS r (fm_col m)) = 0"
    using POS_in_text [of r 1 DEF_COL r "fm_col m"] assms(2) by (simp add: insline1_def fill_def Let_def)
  then show "fld_cells m (insline1 r (setpos r 1 t)) = []"
    using m by (subst fld_cells_def, subst fld_run.simps) simp
qed (use insline_cells(2) [OF assms] in \<open>auto\<close>)

theorem insline_tears_witness:
  "\<exists>t'. insline 2 1 demo_pen = Some t' \<and> (\<forall>m. fm_row m = 2 \<and> 1 \<le> fm_col m \<and> fm_col m \<le> DEF_COL \<and> fm_seq m \<noteq> 0 \<longrightarrow> fld_cells m t' = [])"
  using insline_tears [of demo_pen 2] demo_pen_ok by (auto simp: pen_ok_def)

text \<open>On a terminal with fewer lines the sequence goes to the line where the cursor happens to be.\<close>

lemma insline_short_terminal:
  assumes "max_row t < r" "r + 1 \<le> DEF_ROW"
  shows "\<exists>t'. insline r 1 t = Some t' \<and> p_tty t' = tty_insert_line (p_tty t)"
  using assms by (simp add: insline_def insline1_def setpos_def Let_def)

lemma each_None: "x \<in> set xs \<Longrightarrow> (\<And>s. f x s = None) \<Longrightarrow> each f xs s = None"
  by (induction xs arbitrary: s) (auto split: bind_splits)

text \<open>
  A terminal of more than 80 lines overruns the copy. \<open>openterm\<close> takes the size of the terminal
  as it is, and the board clears the screen from line 5 on with every query: with more than 80 lines it
  writes behind the copy.
\<close>

theorem tall_terminal_overruns:
  assumes "DEF_ROW < max_row t" "1 \<le> row" "row \<le> max_row t"
  shows "clreos row t = None"
proof -
  have "POS (max_row t) 1 + (DEF_COL - 1 - 1) > DEF_SIZ"
  proof -
    have "DEF_ROW \<le> max_row t - 1" using assms(1) by simp
    then have "DEF_SIZ \<le> (max_row t - 1) * DEF_COL" unfolding DEF_SIZ_def by (rule mult_right_mono) simp
    then show ?thesis by (simp add: POS_def DEF_COL_def)
  qed
  then have "clreol (max_row t) 1 s = None" for s by (simp add: clreol_def Let_def)
  then have "each (\<lambda>ii. clreol ii 1) [row..<max_row t + 1] t = None"
    using assms by (intro each_None [of "max_row t"]) auto
  then show ?thesis by (simp add: clreos_def)
qed

theorem tall_terminal_overruns_witness: "clreos 5 (demo_pen\<lparr>max_row := 90\<rparr>) = None"
  by (rule tall_terminal_overruns) (simp_all add: DEF_ROW_def)

end
