(* ===== verification/Packets.thy ===== *)
theory Packets
  imports TextFields
begin

text \<open>
  The packets of the feeds: \<^verbatim>\<open>src/inc/oldpkt.h\<close> (the OLD format) and
  \<^verbatim>\<open>src/inc/extpkt.h\<close> (its extension). Every struct is made of \<^verbatim>\<open>char\<close> arrays, so it has
  no padding: a struct is the list of its members with their sizes (\<open>layout\<close>), the offset of a
  member is the sum of the sizes before it, and \<^verbatim>\<open>sizeof\<close> is the sum of all of them.

  The receive buffer of 16384 bytes is cleared before every \<^verbatim>\<open>recvfrom\<close>, so a byte after the
  received payload is NUL (\<open>byte_at\<close>).
\<close>

type_synonym layout = "(string \<times> nat) list"

definition sizeof :: "layout \<Rightarrow> nat" where
  "sizeof L = sum_list (map snd L)"

fun offset_of :: "layout \<Rightarrow> string \<Rightarrow> nat" where
  "offset_of [] nm = 0"
| "offset_of ((m, n) # L) nm = (if m = nm then 0 else n + offset_of L nm)"

fun msize :: "layout \<Rightarrow> string \<Rightarrow> nat" where
  "msize [] nm = 0"
| "msize ((m, n) # L) nm = (if m = nm then n else msize L nm)"

definition byte_at :: "bytes \<Rightarrow> nat \<Rightarrow> char" where
  "byte_at msgb i = (if i < length msgb then msgb ! i else NUL)"

definition slice :: "bytes \<Rightarrow> nat \<Rightarrow> nat \<Rightarrow> bytes" where
  "slice msgb off n = map (\<lambda>i. byte_at msgb (off + i)) [0..<n]"

text \<open>The member \<open>nm\<close> of a struct laid over the buffer at \<open>base\<close>.\<close>

definition member :: "layout \<Rightarrow> nat \<Rightarrow> bytes \<Rightarrow> string \<Rightarrow> bytes" where
  "member L base msgb nm = slice msgb (base + offset_of L nm) (msize L nm)"

text \<open>The C string that starts at a position of the buffer: it runs over member boundaries.\<close>

definition cstr_at :: "bytes \<Rightarrow> nat \<Rightarrow> string" where
  "cstr_at msgb off = cstr (drop off msgb)"

subsection \<open>OLD format\<close>

definition MD_MAX_DEPTH :: nat where "MD_MAX_DEPTH = 5"

definition MD_MSTT :: layout where
  "MD_MSTT =
    [(''code'', 16), (''ticd'', 8), (''enam'', 40), (''exch'', 3), (''curr'', 3),
     (''prod'', 3), (''pind'', 1), (''ftdt'', 8), (''ltdt'', 8), (''fddt'', 8),
     (''lddt'', 8), (''bsdt'', 8), (''stdt'', 8), (''setp'', 15), (''matm'', 6),
     (''zdiv'', 2), (''fil2'', 2), (''ndig'', 1), (''pinc'', 20), (''pmul'', 12),
     (''fil4'', 70)]"

definition MD_OSTR :: layout where
  "MD_OSTR =
    [(''code'', 16), (''ticd'', 8), (''enam'', 60), (''type'', 1), (''exch'', 3),
     (''curr'', 3), (''prod'', 3), (''pind'', 1), (''ftdt'', 8), (''ltdt'', 8),
     (''fddt'', 8), (''lddt'', 8), (''bsdt'', 8), (''stdt'', 8), (''setp'', 15),
     (''matm'', 6), (''strp'', 20), (''strc'', 3), (''pinc'', 20), (''disf'', 20),
     (''cvol'', 12), (''oint'', 12), (''ucod'', 16), (''zdiv'', 2), (''fill'', 23)]"

definition MD_MSTR_SPREAD :: layout where
  "MD_MSTR_SPREAD =
    [(''code'', 16), (''ticd'', 8), (''enam'', 40), (''exch'', 3), (''curr'', 3),
     (''prod'', 3), (''pind'', 1), (''ftdt'', 8), (''ltdt'', 8), (''bsdt'', 8),
     (''bctk'', 8), (''flsm'', 16), (''flmy'', 6), (''slsm'', 16), (''slmy'', 6),
     (''zdiv'', 2), (''fil2'', 3), (''pinc'', 20), (''pmul'', 12), (''ndig'', 1),
     (''fil3'', 69)]"

definition MD_ESTR :: layout where
  "MD_ESTR =
    [(''code'', 16), (''enam'', 80), (''exch'', 3), (''curr'', 3), (''prod'', 3),
     (''pind'', 1), (''isin'', 16), (''sedo'', 16), (''styp'', 6), (''bsdt'', 8),
     (''pymd'', 8), (''clos'', 15), (''base'', 15), (''pinc'', 20), (''pmul'', 12),
     (''fil3'', 78)]"

definition MD_HEAD :: layout where
  "MD_HEAD =
    [(''trxc'', 3), (''exch'', 3), (''dven'', 1), (''fill'', 1), (''date'', 8),
     (''time'', 12), (''code'', 16), (''mseq'', 10)]"

definition MD_TRADE :: layout where
  "MD_TRADE =
    [(''trdt'', 8), (''trtm'', 12), (''last'', 15), (''tqty'', 9), (''tvol'', 9),
     (''open'', 15), (''high'', 15), (''lowp'', 15), (''stat'', 2), (''date'', 8)]"

definition LME_TRADE :: layout where
  "LME_TRADE =
    [(''trdt'', 8), (''trtm'', 12), (''last'', 15), (''tqty'', 9), (''tvol'', 9),
     (''open'', 15), (''high'', 15), (''lowp'', 15), (''diff'', 15), (''pbid'', 15),
     (''pask'', 15), (''stat'', 2), (''date'', 8)]"

definition WARE_TRADE :: layout where
  "WARE_TRADE =
    [(''trdt'', 8), (''trtm'', 12), (''wincday'', 10), (''woutcday'', 10),
     (''wopen'', 10), (''wclose'', 10), (''wchg'', 10), (''wwclos'', 10),
     (''wwcanl'', 10), (''stat'', 2), (''date'', 8)]"

definition book :: layout where
  "book =
    [(''bidn'', 8), (''bidq'', 8), (''bidp'', 15), (''askn'', 8), (''askq'', 8),
     (''askp'', 15)]"

definition MD_DEPTH :: layout where
  "MD_DEPTH =
    [(''dpdt'', 8), (''dptm'', 12), (''book'', MD_MAX_DEPTH * sizeof book)]"

definition MD_TRADE_STATUS :: layout where
  "MD_TRADE_STATUS =
    [(''bsdt'', 8), (''stat'', 2), (''fill'', 100)]"

subsection \<open>EXT format\<close>

definition EXT_MAX_DEPTH :: nat where "EXT_MAX_DEPTH = 5"

definition EXT_FMST :: layout where
  "EXT_FMST =
    [(''code'', 32), (''ticd'', 24), (''enam'', 128), (''exch'', 3), (''curr'', 3),
     (''prod'', 3), (''pind'', 1), (''ftdt'', 8), (''ltdt'', 8), (''fddt'', 8),
     (''lddt'', 8), (''bsdt'', 8), (''stdt'', 8), (''setp'', 15), (''matm'', 6),
     (''pinc'', 20), (''pmul'', 12), (''fill'', 128)]"

definition EXT_OMST :: layout where
  "EXT_OMST =
    [(''code'', 32), (''ticd'', 24), (''enam'', 128), (''type'', 1), (''exch'', 3),
     (''curr'', 3), (''prod'', 3), (''pind'', 1), (''ftdt'', 8), (''ltdt'', 8),
     (''fddt'', 8), (''lddt'', 8), (''bsdt'', 8), (''stdt'', 8), (''setp'', 15),
     (''matm'', 6), (''strp'', 20), (''strc'', 3), (''pinc'', 20), (''disf'', 20),
     (''cvol'', 12), (''oint'', 12), (''ucod'', 32), (''fill'', 128)]"

definition EXT_SMST :: layout where
  "EXT_SMST =
    [(''code'', 32), (''ticd'', 24), (''enam'', 128), (''exch'', 3), (''curr'', 3),
     (''prod'', 3), (''pind'', 1), (''ftdt'', 8), (''ltdt'', 8), (''bsdt'', 8),
     (''bctk'', 8), (''flsm'', 32), (''flmy'', 6), (''slsm'', 32), (''slmy'', 6),
     (''pinc'', 20), (''pmul'', 12), (''legs'', 3), (''fill'', 128)]"

definition EXT_HEAD :: layout where
  "EXT_HEAD =
    [(''trxc'', 3), (''exch'', 3), (''dven'', 1), (''date'', 8), (''time'', 12),
     (''code'', 32), (''mseq'', 10), (''fill'', 64)]"

definition EXT_TRADE :: layout where
  "EXT_TRADE =
    [(''trdt'', 8), (''trtm'', 12), (''last'', 15), (''tqty'', 9), (''tvol'', 9),
     (''open'', 15), (''high'', 15), (''lowp'', 15), (''stat'', 2), (''date'', 8),
     (''fill'', 64)]"

definition ext_book :: layout where
  "ext_book =
    [(''bidn'', 8), (''bidq'', 8), (''bidp'', 15), (''askn'', 8), (''askq'', 8),
     (''askp'', 15)]"

definition EXT_DEPTH :: layout where
  "EXT_DEPTH =
    [(''dpdt'', 8), (''dptm'', 12), (''book'', EXT_MAX_DEPTH * sizeof ext_book),
     (''fill'', 64)]"

definition EXT_TRADE_STATUS :: layout where
  "EXT_TRADE_STATUS =
    [(''bsdt'', 8), (''stat'', 2), (''fill'', 100)]"

definition MD_HEAD_SZ :: nat where "MD_HEAD_SZ = sizeof MD_HEAD"
definition EXT_HEAD_SZ :: nat where "EXT_HEAD_SZ = sizeof EXT_HEAD"

lemmas layout_defs =
  MD_MSTT_def MD_OSTR_def MD_MSTR_SPREAD_def MD_ESTR_def MD_HEAD_def MD_TRADE_def
  LME_TRADE_def WARE_TRADE_def book_def MD_DEPTH_def MD_TRADE_STATUS_def EXT_FMST_def
  EXT_OMST_def EXT_SMST_def EXT_HEAD_def EXT_TRADE_def ext_book_def EXT_DEPTH_def
  EXT_TRADE_STATUS_def
  MD_MAX_DEPTH_def EXT_MAX_DEPTH_def MD_HEAD_SZ_def EXT_HEAD_SZ_def

definition packet_layouts :: "layout list" where
  "packet_layouts =
    [MD_MSTT, MD_OSTR, MD_MSTR_SPREAD, MD_ESTR, MD_HEAD, MD_TRADE,
     LME_TRADE, WARE_TRADE, book, MD_DEPTH, MD_TRADE_STATUS, EXT_FMST,
     EXT_OMST, EXT_SMST, EXT_HEAD, EXT_TRADE, ext_book, EXT_DEPTH, EXT_TRADE_STATUS]"

subsection \<open>Members and their bytes\<close>

lemma length_slice [simp]: "length (slice msgb off n) = n"
  by (simp add: slice_def)

lemma length_member [simp]: "length (member L base msgb nm) = msize L nm"
  by (simp add: member_def)

lemma slice_eq: "off + n \<le> length msgb \<Longrightarrow> slice msgb off n = take n (drop off msgb)"
  by (rule nth_equalityI) (simp_all add: slice_def byte_at_def)

lemma slice_slice_append: "slice msgb off (a + b) = slice msgb off a @ slice msgb (off + a) b"
proof -
  have "map f [a..<a + b] = map (\<lambda>i. f (a + i)) [0..<b]" for f :: "nat \<Rightarrow> char"
    by (rule nth_equalityI) simp_all
  then show ?thesis by (simp add: slice_def upt_add_eq_append [of 0 a] add.assoc)
qed

lemma sizeof_simps [simp]: "sizeof [] = 0" "sizeof ((m, n) # L) = n + sizeof L"
  by (simp_all add: sizeof_def)

lemma offset_msize_le: "nm \<in> fst ` set L \<Longrightarrow> offset_of L nm + msize L nm \<le> sizeof L"
  by (induction L nm rule: offset_of.induct) auto

text \<open>The members, in order, are the bytes of the struct: no gap, no overlap.\<close>

lemma members_partition:
  "distinct (map fst L) \<Longrightarrow>
   concat (map (member L base msgb) (map fst L)) = slice msgb base (sizeof L)"
proof (induction L arbitrary: base)
  case Nil
  show ?case by (simp add: slice_def)
next
  case (Cons p L)
  obtain m n where p: "p = (m, n)" by (cases p)
  have "member ((m, n) # L) base msgb nm = member L (base + n) msgb nm" if "nm \<in> fst ` set L" for nm
    using that Cons.prems p by (auto simp: member_def add.assoc)
  then have "map (member ((m, n) # L) base msgb) (map fst L) = map (member L (base + n) msgb) (map fst L)"
    by (intro map_cong) auto
  moreover have "concat (map (member L (base + n) msgb) (map fst L)) = slice msgb (base + n) (sizeof L)"
    using Cons.prems by (intro Cons.IH) (simp add: p)
  ultimately have "concat (map (member ((m, n) # L) base msgb) (map fst L)) =
      slice msgb (base + n) (sizeof L)" by metis
  then show ?case by (simp add: p slice_slice_append del: map_map) (simp add: member_def)
qed

text \<open>A field padded with blanks to its width, and a packet put together from such fields.\<close>

definition pad :: "nat \<Rightarrow> string \<Rightarrow> bytes" where
  "pad n s = take n (s @ replicate n CHR '' '')"

definition pack :: "layout \<Rightarrow> (string \<Rightarrow> string) \<Rightarrow> bytes" where
  "pack L fs = concat (map (\<lambda>(nm, n). pad n (fs nm)) L)"

lemma length_pad [simp]: "length (pad n s) = n"
  by (simp add: pad_def)

lemma pad_eq: "length s \<le> n \<Longrightarrow> pad n s = s @ replicate (n - length s) CHR '' ''"
  by (simp add: pad_def take_append)

lemma length_pack [simp]: "length (pack L fs) = sizeof L"
  by (induction L) (auto simp: pack_def)

lemma pack_slice:
  "nm \<in> fst ` set L \<Longrightarrow>
   take (msize L nm) (drop (offset_of L nm) (pack L fs @ post)) = pad (msize L nm) (fs nm)"
proof (induction L)
  case (Cons p L)
  obtain m n where p: "p = (m, n)" by (cases p)
  show ?case
  proof (cases "m = nm")
    case True
    then show ?thesis by (simp add: p pack_def)
  next
    case False
    have "drop (n + k) (pad n x @ y) = drop k y" for k x y by simp
    with False Cons p show ?thesis by (simp add: pack_def)
  qed
qed simp

lemma member_pack:
  assumes "nm \<in> fst ` set L"
  shows "member L (length pre) (pre @ pack L fs @ post) nm = pad (msize L nm) (fs nm)"
proof -
  have "length pre + offset_of L nm + msize L nm \<le> length (pre @ pack L fs @ post)"
    using offset_msize_le [OF assms] by simp
  then have "member L (length pre) (pre @ pack L fs @ post) nm =
      take (msize L nm) (drop (length pre + offset_of L nm) (pre @ pack L fs @ post))"
    unfolding member_def by (rule slice_eq)
  also have "drop (length pre + offset_of L nm) (pre @ pack L fs @ post) =
      drop (offset_of L nm) (pack L fs @ post)" by simp
  finally show ?thesis using pack_slice [OF assms] by simp
qed

lemmas member_pack0 = member_pack [where pre = "[]", simplified]

end
