(* ===== verification/FolderTable.thy ===== *)
theory FolderTable
  imports Packets
begin

text \<open>
  The table of folders in shared memory (\<^verbatim>\<open>src/lib/main/folder.c\<close>) and its clean-up at the
  end of a master cycle (\<^verbatim>\<open>remove_old_folder\<close> of \<^verbatim>\<open>src/mon/monfep.c\<close>), with the log function they call.
  A \<^verbatim>\<open>FOLDER *\<close> is the index of the record in \<open>fep_fold\<close>, the null pointer is \<open>None\<close>.

  The first \<open>vrec\<close> of the \<open>mrec\<close> records are in use, sorted by host name and then symbol; that
  no two have the same key and that \<^verbatim>\<open>getfolder\<close> is a map lookup are consequences of the invariant
  \<open>table_ok\<close>, which every operation keeps.

  \<^verbatim>\<open>newfolder\<close> and \<^verbatim>\<open>getfolder\<close> copy the names with \<^verbatim>\<open>strcpy\<close> into members of 128 bytes. A name
  of 128 or more characters, which no caller passes (the symbols of the packets have at most 32
  characters, a port's host 15), would overrun them and is outside the model.
\<close>

subsection \<open>Log\<close>

text \<open>\<^verbatim>\<open>fep_log\<close>: a line is written unless its level is above the configured one.\<close>

definition fep_log :: "FEP \<Rightarrow> int \<Rightarrow> string \<Rightarrow> alert_text \<Rightarrow> FEP" where
  "fep_log fep level caller msg =
     (if level > st_logLevel (c_settings (fep_config fep)) then fep
      else fep\<lparr>fep_out := fep_out fep @ [EvLog level caller msg]\<rparr>)"

lemma fep_log_frame [simp, frame]:
  "fep_fold (fep_log fep l c m) = fep_fold fep" "fep_arch (fep_log fep l c m) = fep_arch fep"
  "fep_attached (fep_log fep l c m) = fep_attached fep" "fep_exnm (fep_log fep l c m) = fep_exnm fep"
  "fep_config (fep_log fep l c m) = fep_config fep"
  by (simp_all add: fep_log_def)

subsection \<open>The key of a folder\<close>

datatype folder_key = FolderKey (key_host: string) (key_symb: string)

instantiation folder_key :: linorder
begin

definition less_folder_key :: "folder_key \<Rightarrow> folder_key \<Rightarrow> bool" where
  "less_folder_key a b \<longleftrightarrow>
     key_host a < key_host b \<or> key_host a = key_host b \<and> key_symb a < key_symb b"

definition less_eq_folder_key :: "folder_key \<Rightarrow> folder_key \<Rightarrow> bool" where
  "less_eq_folder_key a b \<longleftrightarrow>
     key_host a < key_host b \<or> key_host a = key_host b \<and> key_symb a \<le> key_symb b"

instance
  by standard (auto simp: less_folder_key_def less_eq_folder_key_def folder_key.expand)

end

definition folder_key :: "FOLDER \<Rightarrow> folder_key" where
  "folder_key f = FolderKey (f_hostname f) (f_symb f)"

lemma folder_key_eq:
  "folder_key f = FolderKey h s \<longleftrightarrow> f_hostname f = h \<and> f_symb f = s"
  by (auto simp: folder_key_def)

subsection \<open>Operations (\<^verbatim>\<open>folder.c\<close>)\<close>

definition cmpfold :: "FOLDER \<Rightarrow> FOLDER \<Rightarrow> int" where
  "cmpfold a b =
     (let symb_cmp = strcmp (f_hostname a) (f_hostname b)
      in if symb_cmp \<noteq> 0 then symb_cmp else strcmp (f_symb a) (f_symb b))"

interpretation folders: c_compare cmpfold folder_key
  by unfold_locales
    (auto simp: cmpfold_def folder_key_def less_folder_key_def Let_def)

definition getfolder :: "FEP \<Rightarrow> string \<Rightarrow> string \<Rightarrow> nat option" where
  "getfolder fep symb hostname =
     (if \<not> fep_attached fep then None
      else bsearch cmpfold (fold0\<lparr>f_symb := symb, f_hostname := hostname\<rparr>)
             (take (vrec fep) (fep_fold fep)))"

text \<open>The record \<^verbatim>\<open>newfolder\<close> fills in; \<^verbatim>\<open>ware\<close> and \<^verbatim>\<open>volm\<close> get no symbol.\<close>

definition fresh_folder :: "time_t \<Rightarrow> string \<Rightarrow> string \<Rightarrow> FOLDER" where
  "fresh_folder now symb hostname = fold0\<lparr>
     f_symb := symb, f_hostname := hostname,
     f_mstr := mstr0\<lparr>m_symb := symb, m_created_at := now\<rparr>,
     f_quote := quot0\<lparr>q_symb := symb\<rparr>,
     f_settle := replicate 4 (quot0\<lparr>q_symb := symb\<rparr>),
     f_close := quot0\<lparr>q_symb := symb\<rparr>,
     f_cancel := quot0\<lparr>q_symb := symb\<rparr>,
     f_oint := quot0\<lparr>q_symb := symb\<rparr>,
     f_mavg := quot0\<lparr>q_symb := symb\<rparr>,
     f_offi := quot0\<lparr>q_symb := symb\<rparr>,
     f_depth := dept0\<lparr>d_symb := symb\<rparr>,
     f_status := stat0\<lparr>s_symb := symb\<rparr>,
     f_created_at := now\<rparr>"

definition newfolder :: "time_t \<Rightarrow> FEP \<Rightarrow> string \<Rightarrow> string \<Rightarrow> nat option \<times> FEP" where
  "newfolder now fep symb hostname =
     (if \<not> fep_attached fep then (None, fep)
      else case getfolder fep symb hostname of
        Some i \<Rightarrow> (Some i, fep)
      | None \<Rightarrow>
          if vrec fep + 1 \<ge> mrec fep then
            (None, fep_log fep FL_ERROR ''newfolder'' (TableFull (vrec fep) (mrec fep)))
          else
            let n = vrec fep + 1;
                fold1 = (fep_fold fep)[vrec fep := fresh_folder now symb hostname];
                fep' = fep\<lparr>fep_fold := qsort cmpfold (take n fold1) @ drop n fold1,
                           fep_arch := (fep_arch fep)\<lparr>a_vrec := n\<rparr>\<rparr>
            in (getfolder fep' symb hostname, fep'))"

text \<open>
  \<^verbatim>\<open>delfolder\<close> keeps the index of the record in a \<^verbatim>\<open>char\<close>, so it is cut down to eight bits
  with a sign, and moves \<^verbatim>\<open>vrec - seqn - 1\<close> records of 7304 bytes down by one. \<open>None\<close> when
  the moved block leaves the segment or its size leaves the range of \<^verbatim>\<open>int\<close>.
\<close>

definition sizeof_FOLDER :: int where
  "sizeof_FOLDER = 7304"

definition schar :: "nat \<Rightarrow> int" where
  "schar i = sint (of_nat i :: 8 word)"

definition delfolder :: "FEP \<Rightarrow> nat \<Rightarrow> FEP option" where
  "delfolder fep i =
     (let seqn = schar i;
          count = int (vrec fep) - seqn - 1;
          n = nat count;
          fold = fep_fold fep
      in if count < 0 \<or> count * sizeof_FOLDER \<ge> 2 ^ 31 \<or> i + 1 + n > length fold then None
         else Some (fep\<lparr>fep_fold := take i fold @ take n (drop (i + 1) fold) @ drop (i + n) fold,
                        fep_arch := (fep_arch fep)\<lparr>a_vrec := vrec fep - 1\<rparr>\<rparr>))"

text \<open>\<^verbatim>\<open>remove_old_folder\<close>: a folder whose master is older than seven days goes.\<close>

definition is_old :: "time_t \<Rightarrow> FOLDER \<Rightarrow> bool" where
  "is_old now f \<longleftrightarrow> now - m_updated_at (f_mstr f) > 60 * 60 * 24 * 7"

function remove_old_from :: "time_t \<Rightarrow> nat \<Rightarrow> FEP \<Rightarrow> FEP option" where
  "remove_old_from now ii fep =
     (if ii < vrec fep then
        if is_old now (fep_fold fep ! ii) then
          (case delfolder fep ii of
             None \<Rightarrow> None
           | Some fep' \<Rightarrow> remove_old_from now (Suc ii) fep')
        else remove_old_from now (Suc ii) fep
      else Some fep)"
  by pat_completeness auto
termination
  by (relation "measure (\<lambda>(now, ii, fep). vrec fep - ii)")
    (auto simp: delfolder_def Let_def split: if_splits)

declare remove_old_from.simps [simp del]

definition remove_old_folder :: "time_t \<Rightarrow> FEP \<Rightarrow> FEP option" where
  "remove_old_folder now fep = remove_old_from now 0 fep"

subsection \<open>The invariant and lookup\<close>

definition live :: "FEP \<Rightarrow> FOLDER list" where
  "live fep = take (vrec fep) (fep_fold fep)"

text \<open>The arrays inside a record have their declared lengths.\<close>

definition arrays_ok :: "FOLDER \<Rightarrow> bool" where
  "arrays_ok f \<longleftrightarrow>
     length (f_settle f) = 4 \<and> length (d_ask (f_depth f)) = DEPTH_LEVEL \<and>
     length (d_bid (f_depth f)) = DEPTH_LEVEL"

definition table_ok :: "FEP \<Rightarrow> bool" where
  "table_ok fep \<longleftrightarrow>
     fep_attached fep \<and> length (fep_fold fep) = mrec fep \<and> vrec fep \<le> mrec fep \<and>
     sorted (map folder_key (live fep)) \<and> distinct (map folder_key (live fep)) \<and>
     (\<forall>f\<in>set (fep_fold fep). arrays_ok f)"

lemma arrays_ok_fold0: "arrays_ok fold0"
  by (simp add: arrays_ok_def fold0_def dept0_def)

lemma arrays_ok_fresh: "arrays_ok (fresh_folder now symb host)"
  by (simp add: arrays_ok_def fresh_folder_def dept0_def)

text \<open>What the table stands for: a map from host name and symbol to the folder.\<close>

definition folder_map :: "FEP \<Rightarrow> folder_key \<rightharpoonup> FOLDER" where
  "folder_map fep = map_of (map (\<lambda>f. (folder_key f, f)) (live fep))"

lemma table_okD:
  assumes "table_ok fep"
  shows "fep_attached fep" "length (fep_fold fep) = mrec fep" "vrec fep \<le> mrec fep"
    "sorted (map folder_key (live fep))" "distinct (map folder_key (live fep))"
    "length (live fep) = vrec fep" "\<forall>f\<in>set (fep_fold fep). arrays_ok f"
  using assms by (auto simp: table_ok_def live_def)

lemma live_nth: "i < vrec fep \<Longrightarrow> live fep ! i = fep_fold fep ! i"
  by (simp add: live_def)

lemma table_ok_frame:
  "fep_fold fep' = fep_fold fep \<Longrightarrow> fep_arch fep' = fep_arch fep \<Longrightarrow>
   fep_attached fep' = fep_attached fep \<Longrightarrow> table_ok fep' = table_ok fep"
  by (simp add: table_ok_def live_def)

lemma folder_map_frame:
  "fep_fold fep' = fep_fold fep \<Longrightarrow> fep_arch fep' = fep_arch fep \<Longrightarrow>
   folder_map fep' = folder_map fep"
  by (simp add: folder_map_def live_def)

lemma table_ok_log [simp]: "table_ok (fep_log fep l c m) = table_ok fep"
  by (rule table_ok_frame) simp_all

lemma folder_map_log [simp]: "folder_map (fep_log fep l c m) = folder_map fep"
  by (rule folder_map_frame) simp_all

lemma getfolder_eq:
  "fep_attached fep \<Longrightarrow>
   getfolder fep symb host = bsearch cmpfold (fold0\<lparr>f_symb := symb, f_hostname := host\<rparr>) (live fep)"
  by (simp add: getfolder_def live_def)

lemma folder_key_probe:
  "folder_key (fold0\<lparr>f_symb := symb, f_hostname := host\<rparr>) = FolderKey host symb"
  by (simp add: folder_key_def)

lemma getfolder_Some_iff:
  assumes "table_ok fep"
  shows "getfolder fep symb host = Some i \<longleftrightarrow>
    i < vrec fep \<and> folder_key (fep_fold fep ! i) = FolderKey host symb"
  using table_okD [OF assms]
  by (auto simp: getfolder_eq folders.bsearch_iff folder_key_probe live_nth)

lemma getfolder_None_iff:
  assumes "table_ok fep"
  shows "getfolder fep symb host = None \<longleftrightarrow> FolderKey host symb \<notin> folder_key ` set (live fep)"
  using table_okD [OF assms]
  by (simp add: getfolder_eq folders.bsearch_None_iff folder_key_probe)

lemma folder_map_Some_iff:
  assumes "table_ok fep"
  shows "folder_map fep k = Some f \<longleftrightarrow> f \<in> set (live fep) \<and> folder_key f = k"
proof -
  have "distinct (map fst (map (\<lambda>f. (folder_key f, f)) (live fep)))"
    using table_okD(5) [OF assms] by (simp add: comp_def)
  from map_of_eq_Some_iff [OF this] show ?thesis by (auto simp: folder_map_def)
qed

lemma folder_map_get:
  assumes "table_ok fep"
  shows "folder_map fep (FolderKey host symb) =
    map_option (\<lambda>i. fep_fold fep ! i) (getfolder fep symb host)"
proof (cases "getfolder fep symb host")
  case None
  then have "FolderKey host symb \<notin> folder_key ` set (live fep)"
    using getfolder_None_iff [OF assms] by simp
  then have "folder_map fep (FolderKey host symb) = None"
    by (auto simp: folder_map_def map_of_eq_None_iff image_iff)
  with None show ?thesis by simp
next
  case (Some i)
  then have i: "i < vrec fep" "folder_key (fep_fold fep ! i) = FolderKey host symb"
    using getfolder_Some_iff [OF assms] by auto
  then have "fep_fold fep ! i \<in> set (live fep)"
    using table_okD [OF assms] by (metis live_nth nth_mem)
  with i Some show ?thesis using folder_map_Some_iff [OF assms] by simp
qed

subsection \<open>\<^verbatim>\<open>newfolder\<close>\<close>

text \<open>The table after a new record has been appended and sorted in.\<close>

lemma newfolder_live:
  fixes now :: time_t
  assumes ok: "table_ok fep" and none: "getfolder fep symb host = None"
    and room: "vrec fep + 1 < mrec fep"
  defines "fep' \<equiv> snd (newfolder now fep symb host)"
  shows "live fep' = qsort cmpfold (live fep @ [fresh_folder now symb host])"
    and "length (fep_fold fep') = mrec fep'" and "vrec fep' = Suc (vrec fep)"
    and "mrec fep' = mrec fep" and "fep_attached fep'"
    and "fst (newfolder now fep symb host) = getfolder fep' symb host"
proof -
  note t = table_okD [OF ok]
  have "take (Suc (vrec fep)) ((fep_fold fep)[vrec fep := x]) = live fep @ [x]" for x
    using t room by (simp add: live_def take_Suc_conv_app_nth take_update_cancel)
  then show "live fep' = qsort cmpfold (live fep @ [fresh_folder now symb host])"
    using t none room by (simp add: fep'_def newfolder_def Let_def live_def)
  show "length (fep_fold fep') = mrec fep'" "vrec fep' = Suc (vrec fep)"
    "mrec fep' = mrec fep" "fep_attached fep'"
    "fst (newfolder now fep symb host) = getfolder fep' symb host"
    using t none room by (auto simp: fep'_def newfolder_def Let_def)
qed

lemma folder_key_fresh [simp]: "folder_key (fresh_folder now symb host) = FolderKey host symb"
  by (simp add: folder_key_def fresh_folder_def)

lemma newfolder_records:
  "set (fep_fold (snd (newfolder now fep symb host))) \<subseteq>
   insert (fresh_folder now symb host) (set (fep_fold fep))"
proof -
  have "set (take n xs @ drop n xs) \<subseteq> set xs" for n and xs :: "FOLDER list" by simp
  then show ?thesis
    using set_update_subset_insert [of "fep_fold fep" "vrec fep" "fresh_folder now symb host"]
    by (auto simp: newfolder_def Let_def dest!: in_set_takeD in_set_dropD split: option.splits)
qed

lemma newfolder_ok [inv_pres]:
  assumes ok: "table_ok fep"
  shows "table_ok (snd (newfolder now fep symb host))"
proof (cases "getfolder fep symb host")
  case (Some i)
  with ok show ?thesis by (simp add: newfolder_def)
next
  case None
  show ?thesis
  proof (cases "vrec fep + 1 < mrec fep")
    case False
    with None ok show ?thesis by (simp add: newfolder_def)
  next
    case True
    note new = newfolder_live [OF ok None True, of now]
    have "FolderKey host symb \<notin> folder_key ` set (live fep)"
      using None getfolder_None_iff [OF ok] by simp
    with table_okD [OF ok]
    have "distinct (map folder_key (live fep @ [fresh_folder now symb host]))" by simp
    moreover have "\<forall>f\<in>set (fep_fold (snd (newfolder now fep symb host))). arrays_ok f"
      using newfolder_records table_okD(7) [OF ok] arrays_ok_fresh by blast
    ultimately show ?thesis using new True
      by (simp add: table_ok_def folders.sorted_qsort folders.distinct_qsort)
  qed
qed

text \<open>The three outcomes: found, no room left, entered.\<close>

lemma newfolder_map:
  assumes ok: "table_ok fep"
  shows "folder_map (snd (newfolder now fep symb host)) =
    (if getfolder fep symb host \<noteq> None \<or> vrec fep + 1 \<ge> mrec fep then folder_map fep
     else (folder_map fep)(FolderKey host symb \<mapsto> fresh_folder now symb host))"
proof (cases "getfolder fep symb host \<noteq> None \<or> vrec fep + 1 \<ge> mrec fep")
  case True
  then show ?thesis by (auto simp: newfolder_def split: option.splits)
next
  case False
  then have none: "getfolder fep symb host = None" and room: "vrec fep + 1 < mrec fep" by auto
  let ?fep' = "snd (newfolder now fep symb host)"
  note new = newfolder_live [OF ok none room, of now]
  have ok': "table_ok ?fep'" by (rule newfolder_ok [OF ok])
  have notin: "FolderKey host symb \<notin> folder_key ` set (live fep)"
    using none getfolder_None_iff [OF ok] by simp
  have "folder_map ?fep' = (folder_map fep)(FolderKey host symb \<mapsto> fresh_folder now symb host)"
  proof (rule map_eqI)
    fix k f
    show "folder_map ?fep' k = Some f \<longleftrightarrow>
        ((folder_map fep)(FolderKey host symb \<mapsto> fresh_folder now symb host)) k = Some f"
      using folder_map_Some_iff [OF ok'] folder_map_Some_iff [OF ok] new(1) notin
      by (auto simp: image_iff)
  qed
  with False show ?thesis by auto
qed

lemma newfolder_None_iff:
  assumes ok: "table_ok fep"
  shows "fst (newfolder now fep symb host) = None \<longleftrightarrow>
    getfolder fep symb host = None \<and> vrec fep + 1 \<ge> mrec fep"
proof (cases "getfolder fep symb host = None \<and> vrec fep + 1 < mrec fep")
  case True
  then have none: "getfolder fep symb host = None" and room: "vrec fep + 1 < mrec fep" by auto
  let ?fep' = "snd (newfolder now fep symb host)"
  have "folder_map ?fep' (FolderKey host symb) = Some (fresh_folder now symb host)"
    using newfolder_map [OF ok, of now symb host] none room by simp
  then have "getfolder ?fep' symb host \<noteq> None"
    using folder_map_get [OF newfolder_ok [OF ok]] by auto
  with newfolder_live(6) [OF ok none room] room none show ?thesis by auto
next
  case False
  then show ?thesis using table_okD(1) [OF ok]
    by (auto simp: newfolder_def split: option.splits)
qed

text \<open>A pointer that \<^verbatim>\<open>newfolder\<close> returns is the record of that key.\<close>

lemma newfolder_Some:
  assumes ok: "table_ok fep" and res: "newfolder now fep symb host = (Some i, fep')"
  shows "getfolder fep' symb host = Some i"
proof (cases "getfolder fep symb host")
  case None
  have room: "vrec fep + 1 < mrec fep"
    using newfolder_None_iff [OF ok, of now symb host] None res by auto
  from newfolder_live(6) [OF ok None room, of now] res show ?thesis by simp
next
  case (Some j)
  with res table_okD(1) [OF ok] show ?thesis by (auto simp: newfolder_def)
qed

subsection \<open>\<^verbatim>\<open>delfolder\<close>\<close>

lemma schar_eq: "schar i = (int i + 128) mod 256 - 128"
  by (simp add: schar_def sint_uint signed_take_bit_eq_take_bit_shift take_bit_eq_mod
      unsigned_of_nat of_nat_mod mod_simps)

lemma schar_le: "schar i \<le> int i"
proof -
  have "(int i + 128) mod 256 \<le> int i + 128" by (rule zmod_le_nonneg_dividend) simp
  then show ?thesis by (simp add: schar_eq)
qed

lemma schar_small [simp]: "i < 128 \<Longrightarrow> schar i = int i"
  by (simp add: schar_eq)

text \<open>When the moved block stays inside the segment, exactly the one record goes.\<close>

lemma delfolder_live:
  assumes i: "i < vrec fep" and len: "vrec fep \<le> length (fep_fold fep)"
    and del: "delfolder fep i = Some fep'"
  shows "live fep' = take i (live fep) @ drop (Suc i) (live fep)"
    and "vrec fep' = vrec fep - 1" and "mrec fep' = mrec fep"
    and "length (fep_fold fep') = length (fep_fold fep)"
    and "fep_attached fep' = fep_attached fep"
proof -
  define n where "n = nat (int (vrec fep) - schar i - 1)"
  have n: "vrec fep - i - 1 \<le> n" using schar_le [of i] i by (simp add: n_def)
  from del have fits: "i + 1 + n \<le> length (fep_fold fep)"
    and fep': "fep' = fep\<lparr>fep_fold := take i (fep_fold fep) @ take n (drop (i + 1) (fep_fold fep))
        @ drop (i + n) (fep_fold fep), fep_arch := (fep_arch fep)\<lparr>a_vrec := vrec fep - 1\<rparr>\<rparr>"
    by (auto simp: delfolder_def Let_def n_def split: if_splits)
  show "vrec fep' = vrec fep - 1" "mrec fep' = mrec fep" "fep_attached fep' = fep_attached fep"
    by (simp_all add: fep')
  show "length (fep_fold fep') = length (fep_fold fep)" using fits by (simp add: fep')
  have "take (vrec fep - 1) (take i (fep_fold fep) @ take n (drop (i + 1) (fep_fold fep))
      @ drop (i + n) (fep_fold fep)) =
      take i (fep_fold fep) @ take (vrec fep - 1 - i) (drop (i + 1) (fep_fold fep))"
    using i n fits len by simp
  also have "\<dots> = take i (live fep) @ drop (Suc i) (live fep)"
    using i len by (simp add: live_def drop_take)
  finally show "live fep' = take i (live fep) @ drop (Suc i) (live fep)"
    by (simp add: live_def fep')
qed

text \<open>The condition under which it does, in terms of the index.\<close>

lemma delfolder_defined_iff:
  assumes "table_ok fep" and "i < vrec fep"
  shows "delfolder fep i \<noteq> None \<longleftrightarrow>
    (int (vrec fep) - schar i - 1) * sizeof_FOLDER < 2 ^ 31 \<and>
    int i - schar i + int (vrec fep) \<le> int (mrec fep)"
proof -
  have "i + 1 + nat (int (vrec fep) - schar i - 1) \<le> mrec fep \<longleftrightarrow>
      int i - schar i + int (vrec fep) \<le> int (mrec fep)"
    using schar_le [of i] assms(2) by linarith
  with table_okD [OF assms(1)] schar_le [of i] assms(2) show ?thesis
    by (auto simp: delfolder_def Let_def not_less)
qed

lemma delfolder_records: "delfolder fep i = Some fep' \<Longrightarrow> set (fep_fold fep') \<subseteq> set (fep_fold fep)"
  by (auto simp: delfolder_def Let_def dest!: in_set_takeD in_set_dropD split: if_splits)

lemma delfolder_ok [inv_pres]:
  assumes ok: "table_ok fep" and i: "i < vrec fep" and del: "delfolder fep i = Some fep'"
  shows "table_ok fep'"
proof -
  note t = table_okD [OF ok]
  have len: "vrec fep \<le> length (fep_fold fep)" using t by simp
  have "\<forall>f\<in>set (fep_fold fep'). arrays_ok f"
    using delfolder_records [OF del] t(7) by blast
  with delfolder_live [OF i len del] t show ?thesis
    using sorted_remove_nth [of folder_key "live fep" i]
      distinct_remove_nth [of folder_key "live fep" i] i
    by (simp add: table_ok_def)
qed

subsection \<open>\<^verbatim>\<open>remove_old_folder\<close> as a pass over the table\<close>

text \<open>
  The loop moves on after a deletion although the next record has just come down to the freed
  place: that record is kept without being looked at.
\<close>

fun sweep :: "('a \<Rightarrow> bool) \<Rightarrow> 'a list \<Rightarrow> 'a list" where
  "sweep old [] = []"
| "sweep old [x] = (if old x then [] else [x])"
| "sweep old (x # y # ys) = (if old x then y # sweep old ys else x # sweep old (y # ys))"

lemma sweep_Cons_old: "old x \<Longrightarrow> sweep old (x # xs) = take 1 xs @ sweep old (drop 1 xs)"
  by (cases xs) auto

lemma sweep_Cons_keep: "\<not> old x \<Longrightarrow> sweep old (x # xs) = x # sweep old xs"
  by (cases xs) auto

lemma set_sweep_le: "set (sweep old xs) \<subseteq> set xs"
  by (induction old xs rule: sweep.induct) auto

lemma sweep_keeps_fresh: "x \<in> set xs \<Longrightarrow> \<not> old x \<Longrightarrow> x \<in> set (sweep old xs)"
  by (induction old xs rule: sweep.induct) auto

lemma filter_sweep: "filter (\<lambda>x. \<not> old x) (sweep old xs) = filter (\<lambda>x. \<not> old x) xs"
  by (induction old xs rule: sweep.induct) auto

text \<open>Where no two old records are neighbours the pass removes all of them.\<close>

fun no_adjacent :: "('a \<Rightarrow> bool) \<Rightarrow> 'a list \<Rightarrow> bool" where
  "no_adjacent old (x # y # ys) \<longleftrightarrow> \<not> (old x \<and> old y) \<and> no_adjacent old (y # ys)"
| "no_adjacent old _ \<longleftrightarrow> True"

lemma no_adjacent_tl: "no_adjacent old (x # xs) \<Longrightarrow> no_adjacent old xs"
  by (cases xs) auto

lemma sweep_exact: "no_adjacent old xs \<Longrightarrow> sweep old xs = filter (\<lambda>x. \<not> old x) xs"
  by (induction old xs rule: sweep.induct) (auto dest: no_adjacent_tl)

text \<open>An old record that survives stands directly behind one that was removed.\<close>

lemma sweep_run: "old x \<Longrightarrow> old y \<Longrightarrow> sweep old (x # y # ys) = y # sweep old ys"
  by simp

lemma remove_old_step:
  "ii < vrec fep \<Longrightarrow> is_old now (fep_fold fep ! ii) \<Longrightarrow>
   remove_old_from now ii fep = Option.bind (delfolder fep ii) (remove_old_from now (Suc ii))"
  "ii < vrec fep \<Longrightarrow> \<not> is_old now (fep_fold fep ! ii) \<Longrightarrow>
   remove_old_from now ii fep = remove_old_from now (Suc ii) fep"
  "\<not> ii < vrec fep \<Longrightarrow> remove_old_from now ii fep = Some fep"
  by (subst remove_old_from.simps; simp split: option.splits)+

lemma remove_old_from_sweep:
  "table_ok fep \<Longrightarrow> remove_old_from now ii fep = Some fep' \<Longrightarrow>
   table_ok fep' \<and> mrec fep' = mrec fep \<and>
   live fep' = take ii (live fep) @ sweep (is_old now) (drop ii (live fep))"
proof (induction now ii fep rule: remove_old_from.induct)
  case (1 now ii fep)
  note t = table_okD [OF "1.prems"(1)]
  show ?case
  proof (cases "ii < vrec fep")
    case False
    with "1.prems" t show ?thesis by (auto simp: remove_old_step)
  next
    case ii: True
    have split: "drop ii (live fep) = fep_fold fep ! ii # drop (Suc ii) (live fep)"
      using ii t by (metis Cons_nth_drop_Suc live_nth)
    show ?thesis
    proof (cases "is_old now (fep_fold fep ! ii)")
      case False
      with "1.IH"(2) [OF ii False "1.prems"(1)] "1.prems" ii t
      have "table_ok fep'" "mrec fep' = mrec fep"
        "live fep' = take (Suc ii) (live fep) @ sweep (is_old now) (drop (Suc ii) (live fep))"
        by (auto simp: remove_old_step)
      with False ii t show ?thesis
        by (simp add: split sweep_Cons_keep take_Suc_conv_app_nth live_nth)
    next
      case old: True
      with "1.prems" ii obtain fep1 where del: "delfolder fep ii = Some fep1"
        and rest: "remove_old_from now (Suc ii) fep1 = Some fep'"
        by (auto simp: remove_old_step split: Option.bind_splits)
      have len: "vrec fep \<le> length (fep_fold fep)" using t by simp
      note l1 = delfolder_live [OF ii len del]
      have ok1: "table_ok fep1" by (rule delfolder_ok [OF "1.prems"(1) ii del])
      from "1.IH"(1) [OF ii old del ok1 rest]
      have "table_ok fep'" "mrec fep' = mrec fep"
        "live fep' = take (Suc ii) (live fep1) @ sweep (is_old now) (drop (Suc ii) (live fep1))"
        using l1 by auto
      moreover have "take (Suc ii) (live fep1) = take ii (live fep) @ take 1 (drop (Suc ii) (live fep))"
        "drop (Suc ii) (live fep1) = drop 1 (drop (Suc ii) (live fep))"
        using l1(1) ii t by (simp_all add: min_def)
      ultimately show ?thesis using old by (simp add: split sweep_Cons_old)
    qed
  qed
qed

lemma remove_old_folder_sweep:
  "table_ok fep \<Longrightarrow> remove_old_folder now fep = Some fep' \<Longrightarrow>
   table_ok fep' \<and> mrec fep' = mrec fep \<and> live fep' = sweep (is_old now) (live fep)"
  using remove_old_from_sweep [of fep now 0 fep'] by (simp add: remove_old_folder_def)

text \<open>With at most 128 folders in use the pass is always defined.\<close>

lemma remove_old_from_defined:
  "table_ok fep \<Longrightarrow> vrec fep \<le> 128 \<Longrightarrow> remove_old_from now ii fep \<noteq> None"
proof (induction now ii fep rule: remove_old_from.induct)
  case (1 now ii fep)
  note t = table_okD [OF "1.prems"(1)]
  show ?case
  proof (cases "ii < vrec fep \<and> is_old now (fep_fold fep ! ii)")
    case True
    then have "delfolder fep ii \<noteq> None"
      using delfolder_defined_iff [OF "1.prems"(1)] "1.prems"(2) t
      by (simp add: sizeof_FOLDER_def)
    then obtain fep1 where del: "delfolder fep ii = Some fep1" by auto
    have "vrec fep1 \<le> 128"
      using delfolder_live(2) [OF _ _ del] True t "1.prems"(2) by simp
    with "1.IH"(1) [OF _ _ del] delfolder_ok [OF "1.prems"(1) _ del] True del show ?thesis
      by (simp add: remove_old_step)
  next
    case False
    with "1.IH"(2) [OF _ _ "1.prems"] show ?thesis
      by (cases "ii < vrec fep") (auto simp: remove_old_step)
  qed
qed

lemma remove_old_folder_defined:
  "table_ok fep \<Longrightarrow> vrec fep \<le> 128 \<Longrightarrow> remove_old_folder now fep \<noteq> None"
  unfolding remove_old_folder_def by (rule remove_old_from_defined)

subsection \<open>Properties\<close>

lemma table_ok_cleared: "0 < room \<Longrightarrow> table_ok (fep0 room)"
  by (simp add: table_ok_def live_def fep0_def arch0_def arrays_ok_fold0)

text \<open>Tables for the witnesses: a segment with the given symbols of host \<open>H1\<close> entered.\<close>

definition entered :: "time_t \<Rightarrow> nat \<Rightarrow> string list \<Rightarrow> FEP" where
  "entered now room symbs = foldl (\<lambda>fep s. snd (newfolder now fep s ''H1'')) (fep0 room) symbs"

lemma table_ok_entered: "0 < room \<Longrightarrow> table_ok (entered now room symbs)"
proof -
  have "table_ok fep \<Longrightarrow> table_ok (foldl (\<lambda>fep s. snd (newfolder now fep s ''H1'')) fep symbs)" for fep
    by (induction symbs arbitrary: fep) (simp_all add: newfolder_ok)
  then show "0 < room \<Longrightarrow> table_ok (entered now room symbs)"
    by (simp add: entered_def table_ok_cleared)
qed

lemma entered_counts:
  "distinct symbs \<Longrightarrow> length symbs < room \<Longrightarrow>
   vrec (entered now room symbs) = length symbs \<and> mrec (entered now room symbs) = room \<and>
   folder_key ` set (live (entered now room symbs)) = FolderKey ''H1'' ` set symbs"
proof (induction symbs rule: rev_induct)
  case Nil
  show ?case by (simp add: entered_def fep0_def arch0_def live_def)
next
  case (snoc s symbs)
  let ?fep = "entered now room symbs"
  have ok: "table_ok ?fep" using snoc.prems by (intro table_ok_entered) simp
  from snoc have IH: "vrec ?fep = length symbs" "mrec ?fep = room"
    "folder_key ` set (live ?fep) = FolderKey ''H1'' ` set symbs" by auto
  with snoc.prems have none: "getfolder ?fep s ''H1'' = None"
    by (auto simp: getfolder_None_iff [OF ok])
  have room: "vrec ?fep + 1 < mrec ?fep" using IH snoc.prems by simp
  from newfolder_live [OF ok none room, of now] IH show ?case by (simp add: entered_def)
qed

lemma entered_map:
  "distinct symbs \<Longrightarrow> length symbs < room \<Longrightarrow> s \<in> set symbs \<Longrightarrow>
   folder_map (entered now room symbs) (FolderKey ''H1'' s) = Some (fresh_folder now s ''H1'')"
proof (induction symbs rule: rev_induct)
  case (snoc x symbs)
  let ?fep = "entered now room symbs"
  have ok: "table_ok ?fep" using snoc.prems by (intro table_ok_entered) simp
  have counts: "vrec ?fep = length symbs" "mrec ?fep = room"
    "folder_key ` set (live ?fep) = FolderKey ''H1'' ` set symbs"
    using entered_counts [of symbs room now] snoc.prems by simp_all
  then have "getfolder ?fep x ''H1'' = None"
    using snoc.prems by (auto simp: getfolder_None_iff [OF ok])
  with newfolder_map [OF ok, of now x "''H1''"] counts snoc
  show ?case by (auto simp: entered_def)
qed simp

text \<open>
  C1. Lookup. On a well-formed table the binary search of \<^verbatim>\<open>getfolder\<close> is the lookup in the map
  from host name and symbol to folder: it finds exactly the folder with that key, and the null
  pointer means there is none.
\<close>

theorem getfolder_is_lookup:
  assumes "table_ok fep"
  shows "map_option (\<lambda>i. fep_fold fep ! i) (getfolder fep symb host) =
    folder_map fep (FolderKey host symb)"
  by (rule folder_map_get [OF assms, symmetric])

theorem getfolder_is_lookup_witness:
  "map_option f_symb (folder_map (entered 0 4 [''B'', ''A'']) (FolderKey ''H1'' ''A'')) = Some ''A''"
proof -
  let ?fep = "entered 0 4 [''B'', ''A'']"
  have ok: "table_ok ?fep" by (rule table_ok_entered) simp
  have "getfolder ?fep ''A'' ''H1'' = Some 0" "f_symb (fep_fold ?fep ! 0) = ''A''" by code_simp+
  with getfolder_is_lookup [OF ok, of "''A''" "''H1''"] show ?thesis
    by (metis option.simps(9))
qed

text \<open>
  C2. Entering a symbol. On a well-formed table \<^verbatim>\<open>newfolder\<close> keeps the table well-formed; a known
  key leaves the map as it is; an unknown key is added with the cleared record of that symbol when
  fewer than \<open>mrec - 1\<close> records are in use, and nothing else changes; the pointer returned is the
  one \<^verbatim>\<open>getfolder\<close> then finds.
\<close>

theorem newfolder_refines:
  assumes ok: "table_ok fep" and res: "newfolder now fep symb host = (r, fep')"
  shows "table_ok fep' \<and> mrec fep' = mrec fep \<and>
    folder_map fep' =
      (if folder_map fep (FolderKey host symb) = None \<and> vrec fep + 1 < mrec fep
       then (folder_map fep)(FolderKey host symb \<mapsto> fresh_folder now symb host)
       else folder_map fep) \<and>
    r = getfolder fep' symb host"
proof (intro conjI)
  show "table_ok fep'" using newfolder_ok [OF ok] res by (metis snd_conv)
  show "mrec fep' = mrec fep"
    using newfolder_live(4) [OF ok, of symb host now] res
    by (cases "getfolder fep symb host = None \<and> vrec fep + 1 < mrec fep")
      (auto simp: newfolder_def split: option.splits if_splits)
  show "folder_map fep' =
      (if folder_map fep (FolderKey host symb) = None \<and> vrec fep + 1 < mrec fep
       then (folder_map fep)(FolderKey host symb \<mapsto> fresh_folder now symb host)
       else folder_map fep)"
    using newfolder_map [OF ok, of now symb host] res folder_map_get [OF ok, of host symb]
    by (auto simp: not_le)
  show "r = getfolder fep' symb host"
  proof (cases r)
    case None
    with newfolder_None_iff [OF ok, of now symb host] res
    have "getfolder fep symb host = None" "vrec fep + 1 \<ge> mrec fep" by auto
    with res None have "fep' = fep_log fep FL_ERROR ''newfolder'' (TableFull (vrec fep) (mrec fep))"
      using table_okD(1) [OF ok] by (simp add: newfolder_def)
    moreover have "getfolder (fep_log fep l c m) symb host = getfolder fep symb host" for l c m
      by (simp add: getfolder_def)
    ultimately show ?thesis using \<open>getfolder fep symb host = None\<close> None by simp
  next
    case (Some i)
    with newfolder_Some [OF ok, of now symb host] res show ?thesis by simp
  qed
qed

theorem newfolder_refines_witness:
  "folder_map (snd (newfolder 7 (fep0 3) ''ESZ4'' ''H1'')) (FolderKey ''H1'' ''ESZ4'') =
   Some (fresh_folder 7 ''ESZ4'' ''H1'')"
proof -
  have ok: "table_ok (fep0 3)" by (rule table_ok_cleared) simp
  have "folder_map (fep0 3) = Map.empty" "vrec (fep0 3) + 1 < mrec (fep0 3)"
    by (simp_all add: folder_map_def live_def fep0_def arch0_def)
  with newfolder_refines [OF ok, of 7 "''ESZ4''" "''H1''"] show ?thesis
    by (metis fun_upd_same prod.collapse)
qed

text \<open>
  A full table. \<^verbatim>\<open>newfolder\<close> returns the null pointer exactly when the key is unknown and
  \<open>mrec - 1\<close> records are in use (so one of the configured rooms is never used), and then changes
  nothing but the log.
\<close>

theorem newfolder_full:
  assumes "table_ok fep"
  shows "(fst (newfolder now fep symb host) = None \<longleftrightarrow>
      folder_map fep (FolderKey host symb) = None \<and> vrec fep + 1 \<ge> mrec fep) \<and>
    (fst (newfolder now fep symb host) = None \<longrightarrow>
      snd (newfolder now fep symb host) =
        fep_log fep FL_ERROR ''newfolder'' (TableFull (vrec fep) (mrec fep)))"
proof (intro conjI impI)
  show "fst (newfolder now fep symb host) = None \<longleftrightarrow>
      folder_map fep (FolderKey host symb) = None \<and> vrec fep + 1 \<ge> mrec fep"
    using newfolder_None_iff [OF assms] folder_map_get [OF assms] by simp
  assume "fst (newfolder now fep symb host) = None"
  then show "snd (newfolder now fep symb host) =
        fep_log fep FL_ERROR ''newfolder'' (TableFull (vrec fep) (mrec fep))"
    using newfolder_None_iff [OF assms] table_okD(1) [OF assms] by (simp add: newfolder_def)
qed

theorem newfolder_full_witness:
  "vrec (entered 0 2 [''A'']) = 1 \<and> fst (newfolder 5 (entered 0 2 [''A'']) ''B'' ''H1'') = None"
proof -
  let ?fep = "entered 0 2 [''A'']"
  have ok: "table_ok ?fep" by (rule table_ok_entered) simp
  have v: "vrec ?fep = 1" "mrec ?fep = 2" "getfolder ?fep ''B'' ''H1'' = None" by code_simp+
  then have "folder_map ?fep (FolderKey ''H1'' ''B'') = None"
    using folder_map_get [OF ok] by simp
  with newfolder_full [OF ok, of 5 "''B''" "''H1''"] v show ?thesis by simp
qed

text \<open>
  C3. Deleting a folder. Whenever the move of \<^verbatim>\<open>delfolder\<close> stays inside the segment, the table
  stays well-formed and the map loses exactly the key of the deleted record, whatever the 8-bit
  index has become.
\<close>

theorem delfolder_refines:
  assumes ok: "table_ok fep" and i: "i < vrec fep" and del: "delfolder fep i = Some fep'"
  shows "table_ok fep' \<and> vrec fep' = vrec fep - 1 \<and>
    folder_map fep' = (folder_map fep)(folder_key (fep_fold fep ! i) := None)"
proof (intro conjI)
  note t = table_okD [OF ok]
  have len: "vrec fep \<le> length (fep_fold fep)" using t by simp
  show ok': "table_ok fep'" by (rule delfolder_ok [OF ok i del])
  show "vrec fep' = vrec fep - 1" by (rule delfolder_live(2) [OF i len del])
  have split: "live fep = take i (live fep) @ fep_fold fep ! i # drop (Suc i) (live fep)"
    using i t by (metis id_take_nth_drop live_nth)
  have "set (live fep') = set (live fep) - {fep_fold fep ! i}"
    and inj: "f \<in> set (live fep) \<Longrightarrow> folder_key f = folder_key (fep_fold fep ! i) \<Longrightarrow>
      f = fep_fold fep ! i" for f
  proof -
    have "distinct (map folder_key (take i (live fep) @ fep_fold fep ! i # drop (Suc i) (live fep)))"
      using t split by simp
    then show "set (live fep') = set (live fep) - {fep_fold fep ! i}"
      by (subst split) (auto simp: delfolder_live(1) [OF i len del])
    have "inj_on folder_key (set (live fep))" using t(5) by (simp add: distinct_map)
    moreover have "fep_fold fep ! i \<in> set (live fep)" using i t by (metis live_nth nth_mem)
    ultimately show "f \<in> set (live fep) \<Longrightarrow> folder_key f = folder_key (fep_fold fep ! i) \<Longrightarrow>
      f = fep_fold fep ! i" by (auto dest: inj_onD)
  qed
  then show "folder_map fep' = (folder_map fep)(folder_key (fep_fold fep ! i) := None)"
    using folder_map_Some_iff [OF ok'] folder_map_Some_iff [OF ok] by (intro map_eqI) auto
qed

theorem delfolder_refines_witness:
  "folder_map (the (delfolder (entered 0 4 [''B'', ''A'']) 0)) (FolderKey ''H1'' ''A'') = None"
proof -
  let ?fep = "entered 0 4 [''B'', ''A'']"
  have ok: "table_ok ?fep" by (rule table_ok_entered) simp
  have i: "0 < vrec ?fep" "folder_key (fep_fold ?fep ! 0) = FolderKey ''H1'' ''A''"
    and room: "vrec ?fep = 2" "mrec ?fep = 4" by code_simp+
  from room have "delfolder ?fep 0 \<noteq> None"
    using delfolder_defined_iff [OF ok i(1)] by (simp add: sizeof_FOLDER_def)
  then obtain fep' where "delfolder ?fep 0 = Some fep'" by auto
  with delfolder_refines [OF ok i(1)] i(2) show ?thesis by simp
qed

text \<open>
  The 8-bit index. From the record 128 on the index held in a \<^verbatim>\<open>char\<close> is at least 256 too
  small, so the move is 256 records or more too long: with fewer than 256 unused records behind the
  table it runs over the end of the segment.
\<close>

theorem delfolder_overrun:
  assumes "table_ok fep" and "i < vrec fep" and "128 \<le> i" and "mrec fep < vrec fep + 256"
  shows "delfolder fep i = None"
proof -
  have "schar i \<le> int i - 256"
  proof -
    have "(int i + 128) mod 256 = (int i - 128) mod 256"
      using mod_add_self2 [of "int i - 128" 256] by (simp add: algebra_simps)
    also have "\<dots> \<le> int i - 128" using assms(3) by (intro zmod_le_nonneg_dividend) simp
    finally show ?thesis by (simp add: schar_eq)
  qed
  then have "\<not> int i - schar i + int (vrec fep) \<le> int (mrec fep)" using assms(4) by linarith
  with delfolder_defined_iff [OF assms(1,2)] show ?thesis by blast
qed

theorem delfolder_overrun_witness:
  "delfolder (entered 0 200 (map (\<lambda>n. replicate n CHR ''A'') [1..<150])) 130 = None"
proof -
  have d: "distinct (map (\<lambda>n. replicate n CHR ''A'') [a..<b])" for a b
    by (simp add: distinct_map inj_on_def)
  have l: "length (map (\<lambda>n. replicate n CHR ''A'') [1..<150]) = 149"
    by (simp only: length_map length_upt)
  note v = entered_counts [OF d [of 1 150], of 200 0, unfolded l]
  have "table_ok (entered 0 200 (map (\<lambda>n. replicate n CHR ''A'') [1..<150]))"
    by (rule table_ok_entered) (simp only: zero_less_numeral)
  then show ?thesis
    by (rule delfolder_overrun) (insert v, linarith+)
qed

text \<open>
  C4. The clean-up pass. On a table of at most 128 records (the indices a \<^verbatim>\<open>char\<close> can hold, so
  that no move of \<^verbatim>\<open>delfolder\<close> leaves the segment) \<^verbatim>\<open>remove_old_folder\<close> is defined, keeps the
  table well-formed and leaves the folders that \<open>sweep\<close> leaves: in the old order, all folders whose
  master is at most seven days old, and of the others only some. With no two old folders side by side
  it leaves exactly the recent ones.
\<close>

theorem remove_old_folder_refines:
  assumes ok: "table_ok fep" and small: "vrec fep \<le> 128"
  shows "\<exists>fep'. remove_old_folder now fep = Some fep' \<and>
    table_ok fep' \<and> live fep' = sweep (is_old now) (live fep) \<and>
    filter (\<lambda>f. \<not> is_old now f) (live fep') = filter (\<lambda>f. \<not> is_old now f) (live fep) \<and>
    set (live fep') \<subseteq> set (live fep) \<and>
    (no_adjacent (is_old now) (live fep) \<longrightarrow>
      live fep' = filter (\<lambda>f. \<not> is_old now f) (live fep))"
proof -
  from remove_old_folder_defined [OF ok small, of now] obtain fep' where
    res: "remove_old_folder now fep = Some fep'" by auto
  with remove_old_folder_sweep [OF ok res] set_sweep_le [of "is_old now" "live fep"] show ?thesis
    by (simp add: filter_sweep sweep_exact)
qed

definition half_old :: FEP where
  "half_old = (let fep = entered 0 4 [''A'', ''B'', ''C'']; f = fep_fold fep ! 1
     in fep\<lparr>fep_fold := (fep_fold fep)[1 := f\<lparr>f_mstr := (f_mstr f)\<lparr>m_updated_at := 690000\<rparr>\<rparr>]\<rparr>)"

theorem remove_old_folder_refines_witness:
  "map f_symb (live (the (remove_old_folder 700000 half_old))) = [''B'']"
proof -
  have ok: "table_ok half_old" by code_simp
  have v: "vrec half_old = 3" "map f_symb (live half_old) = [''A'', ''B'', ''C'']"
    "map (is_old 700000) (live half_old) = [True, False, True]" by code_simp+
  then have small: "vrec half_old \<le> 128" by simp
  from v obtain a b c where "live half_old = [a, b, c]" "is_old 700000 a" "\<not> is_old 700000 b"
    "is_old 700000 c" "f_symb b = ''B''"
    by (auto simp: map_eq_Cons_conv)
  with remove_old_folder_refines [OF ok small, of 700000] show ?thesis by auto
qed

text \<open>
  What the pass misses. Of two old folders side by side at the head of the table the second one
  is still there afterwards: the pass stepped over it after removing the first.
\<close>

theorem remove_old_folder_skips:
  assumes "table_ok fep" and "remove_old_folder now fep = Some fep'"
    and "live fep = a # b # rest" and "is_old now a" and "is_old now b"
  shows "live fep' = b # sweep (is_old now) rest \<and> is_old now (hd (live fep'))"
  using remove_old_folder_sweep [OF assms(1,2)] assms(3-5) by simp

theorem remove_old_folder_skips_witness:
  "map f_symb (live (the (remove_old_folder 700000 (entered 0 4 [''A'', ''B''])))) = [''B'']"
proof -
  let ?fep = "entered 0 4 [''A'', ''B'']"
  have ok: "table_ok ?fep" by (rule table_ok_entered) simp
  have v: "vrec ?fep = 2" "map f_symb (live ?fep) = [''A'', ''B'']"
    "map (is_old 700000) (live ?fep) = [True, True]" by code_simp+
  then obtain fep' where res: "remove_old_folder 700000 ?fep = Some fep'"
    using remove_old_folder_defined [OF ok, of 700000] by auto
  from v obtain a b where "live ?fep = [a, b]" "is_old 700000 a" "is_old 700000 b" "f_symb b = ''B''"
    by (auto simp: map_eq_Cons_conv)
  with remove_old_folder_skips [OF ok res] res show ?thesis by simp
qed

end
