(* ===== verification/MapChecks.thy ===== *)
theory MapChecks
  imports FolderTable
begin

text \<open>
  What the packet handlers share: alerts (\<^verbatim>\<open>src/mon/monsend.c\<close>), the field and exchange checks, the
  order-book check and the price indicator of \<^verbatim>\<open>src/mon/monmap.c\<close>, and the outputs
  \<^verbatim>\<open>quote_log\<close> and \<^verbatim>\<open>fep_push\<close>.

  The alert buffers hold 1024 bytes and are filled with \<^verbatim>\<open>sprintf\<close>; a text that does not fit is
  undefined behaviour, hence \<open>None\<close>. The texts with numbers in them (a symbol of at most 32
  characters, two prices printed by \<^verbatim>\<open>%f\<close>) always fit. The TCP connection to the alert server is the
  environment: an alert that is handed to it is an \<open>EvAlert\<close>, and the loop that writes it out is
  modelled on its own over the results of \<^verbatim>\<open>write\<close>.
\<close>

subsection \<open>Alerts (\<^verbatim>\<open>monsend.c\<close>)\<close>

definition alert_line :: "FEP \<Rightarrow> PORT \<Rightarrow> alert_text \<Rightarrow> alert_text" where
  "alert_line fep port msg =
     (case msg of
        Text s \<Rightarrow> Text (''['' @ p_host port @ ''] ['' @ fep_exnm fep @ ''-'' @ p_name port @ ''] '' @ s)
      | _ \<Rightarrow> msg)"

definition ALERT_BUF :: nat where
  "ALERT_BUF = 1024"

text \<open>The line and its encoded form, four bytes longer, both fit with their NUL.\<close>

definition alert_fits :: "FEP \<Rightarrow> PORT \<Rightarrow> alert_text \<Rightarrow> bool" where
  "alert_fits fep port msg \<longleftrightarrow>
     (case alert_line fep port msg of Text s \<Rightarrow> length s + 4 < ALERT_BUF | _ \<Rightarrow> True)"

definition send_alert :: "PORT \<Rightarrow> int \<Rightarrow> alert_text \<Rightarrow> FEP \<Rightarrow> FEP" where
  "send_alert port send_flag msg fep =
     (let line = alert_line fep port msg;
          fep1 = fep_log fep FL_PROGRESS ''mon_send_cmefnd'' line
      in if send_flag = 0 \<or> \<not> p_alert port then fep1
         else fep1\<lparr>fep_out := fep_out fep1 @ [EvAlert line]\<rparr>)"

definition mon_send_cmefnd :: "FEP \<Rightarrow> PORT \<Rightarrow> alert_text \<Rightarrow> int \<Rightarrow> FEP option" where
  "mon_send_cmefnd fep port msg send_flag =
     (if alert_fits fep port msg then Some (send_alert port send_flag msg fep) else None)"

text \<open>
  The loop that writes the encoded line: what \<^verbatim>\<open>write\<close> answers at each call is the argument, the
  bytes the peer has got is the result. Every call passes the start of the buffer.
\<close>

datatype write_result = Wrote nat | Retry | WriteError

datatype delivery = Delivered bytes | Failed bytes | Blocked bytes

fun send_loop :: "bytes \<Rightarrow> nat \<Rightarrow> write_result list \<Rightarrow> bytes \<Rightarrow> delivery" where
  "send_loop data sln [] out = (if sln < length data then Blocked out else Delivered out)"
| "send_loop data sln (r # rs) out =
     (if sln < length data then
        (case r of
           Wrote n \<Rightarrow> send_loop data (sln + n) rs (out @ take n data)
         | Retry \<Rightarrow> send_loop data sln rs out
         | WriteError \<Rightarrow> Failed out)
      else Delivered out)"

subsection \<open>Field checks (\<^verbatim>\<open>monmap.c\<close>)\<close>

abbreviation quote_mark :: char where
  "quote_mark \<equiv> CHR 0x27"

definition MESSAGE_BUF :: nat where
  "MESSAGE_BUF = 1024"

definition alert_text :: "FEP \<Rightarrow> PORT \<Rightarrow> string \<Rightarrow> int \<Rightarrow> FEP option" where
  "alert_text fep port s send_flag =
     (if length s < MESSAGE_BUF then mon_send_cmefnd fep port (Text s) send_flag else None)"

definition empty_alert ::
  "PORT \<Rightarrow> bytes \<Rightarrow> bytes \<Rightarrow> string \<Rightarrow> int \<Rightarrow> FEP \<Rightarrow> (int \<times> FEP) option" where
  "empty_alert port msgb field_buffer field_name send_flag fep =
     (let variable = snd (STR2STR [] field_buffer (int (length field_buffer)))
      in if length variable \<le> 0 then
           map_option (\<lambda>fep'. (-1, fep'))
             (alert_text fep port
               ([quote_mark] @ field_name @ [quote_mark] @ '' field empty..! | ['' @ cstr msgb @ '']'')
               send_flag)
         else Some (0, fep))"

text \<open>The exchange names that go with a numeric exchange code, \<open>None\<close> for an unknown code.\<close>

definition exch_names :: "int \<Rightarrow> string list option" where
  "exch_names exch_id =
     (if exch_id = 1 then Some [''CME'']
      else if exch_id = 2 then Some [''SGX'', ''SG2'', ''SGC'']
      else if exch_id = 3 then Some [''HKF'', ''HK2'', ''HKW'']
      else if exch_id = 4 then Some [''ERX'', ''ER2'']
      else if exch_id = 6 then Some [''CBO'']
      else if exch_id = 7 then Some [''ASX'']
      else if exch_id = 8 then Some [''BMF'']
      else if exch_id = 9 then Some [''TFU'']
      else if exch_id = 10 then Some [''LME'']
      else if exch_id = 11 then Some [''ICE'']
      else if exch_id = 12 then Some [''OSE'']
      else if exch_id = 13 then Some [''ICR'']
      else if exch_id = 14 then Some [''ENT'']
      else if exch_id = 15 then Some [''ICX'']
      else if exch_id = 16 then Some [''PRA'', ''PRT'', ''PR2'']
      else if exch_id = 17 then Some [''NYS'']
      else if exch_id = 20 then Some [''NSE'']
      else None)"

text \<open>
  \<^verbatim>\<open>memcmp(&fep->exnm[1], name, 3)\<close>: three bytes behind the first. The code is read from the
  second byte of the converted field, that is \<^verbatim>\<open>&variable[1]\<close>.
\<close>

definition exch_error :: "FEP \<Rightarrow> bytes \<Rightarrow> int" where
  "exch_error fep field_buffer =
     (case exch_names (atoi (cstr (drop 1 (str2buf field_buffer)))) of
        None \<Rightarrow> -2
      | Some names \<Rightarrow> if take 3 (drop 1 (fep_exnm fep)) \<in> set names then 0 else -1)"

definition exch_alert ::
  "PORT \<Rightarrow> bytes \<Rightarrow> bytes \<Rightarrow> int \<Rightarrow> FEP \<Rightarrow> (int \<times> FEP) option" where
  "exch_alert port msgb field_buffer send_flag fep =
     (let variable = snd (STR2STR [] field_buffer (int (length field_buffer)));
          error = exch_error fep field_buffer;
          exch = [quote_mark] @ ''exch'' @ [quote_mark] @ '' field('' @ variable
      in if error = -1 then
           map_option (\<lambda>fep'. (error, fep'))
             (alert_text fep port (exch @ '') mismatch..! | ['' @ cstr msgb @ '']'') send_flag)
         else if error = -2 then
           map_option (\<lambda>fep'. (error, fep'))
             (alert_text fep port (exch @ '') unknwon..! | ['' @ cstr msgb @ '']'') send_flag)
         else Some (error, fep))"

subsection \<open>Order book check (\<^verbatim>\<open>monmap.c\<close>)\<close>

text \<open>
  \<^verbatim>\<open>fabsf(price - 1.) != 1.\<close>: the argument is rounded to \<^verbatim>\<open>float\<close>, so it counts as 1 from
  half a step below to half a step above. This holds for prices near 0 and for prices near 2.
\<close>

definition float_one :: "rat \<Rightarrow> bool" where
  "float_one y \<longleftrightarrow> 1 - 1 / 2 ^ 25 \<le> \<bar>y\<bar> \<and> \<bar>y\<bar> \<le> 1 + 1 / 2 ^ 24"

definition priced :: "double \<Rightarrow> bool" where
  "priced p \<longleftrightarrow> \<not> float_one (p - 1)"

text \<open>\<^verbatim>\<open>fabsf(price - 0.) != 0.\<close>: a \<^verbatim>\<open>float\<close> is 0 up to half the smallest denormal.\<close>

definition nonzero :: "double \<Rightarrow> bool" where
  "nonzero p \<longleftrightarrow> \<bar>p\<bar> > 1 / 2 ^ 150"

text \<open>
  The loop reads one record past each array: past \<^verbatim>\<open>ask\<close> lies the first bid, past \<^verbatim>\<open>bid\<close> the
  counter \<^verbatim>\<open>cross_cnt\<close> with its padding, whose bits as a \<^verbatim>\<open>double\<close> are a denormal number.
\<close>

definition ask_price :: "MDDEPT \<Rightarrow> nat \<Rightarrow> double" where
  "ask_price d ii = (if ii < DEPTH_LEVEL then b_price (d_ask d ! ii) else b_price (d_bid d ! 0))"

definition bid_price :: "MDDEPT \<Rightarrow> nat \<Rightarrow> double" where
  "bid_price d ii =
     (if ii < DEPTH_LEVEL then b_price (d_bid d ! ii)
      else rat_of_nat (unat (d_cross_cnt d)) / 2 ^ 1074)"

definition cross_level :: "MDDEPT \<Rightarrow> nat \<Rightarrow> alert_text list" where
  "cross_level d ii =
     (if ask_price d ii - ask_price d (ii + 1) \<ge> 0 \<and> priced (ask_price d ii)
         \<and> priced (ask_price d (ii + 1))
      then [AskCross (d_symb d) ii (ask_price d ii) (ask_price d (ii + 1))] else []) @
     (if bid_price d (ii + 1) - bid_price d ii \<ge> 0 \<and> priced (bid_price d ii)
         \<and> priced (bid_price d (ii + 1))
      then [BidCross (d_symb d) ii (bid_price d ii) (bid_price d (ii + 1))] else [])"

definition cross_top :: "MDDEPT \<Rightarrow> alert_text list" where
  "cross_top d =
     (if bid_price d 0 - ask_price d 0 \<ge> 0 \<and> nonzero (bid_price d 0) \<and> nonzero (ask_price d 0)
      then [TopCross (d_symb d) (bid_price d 0) (ask_price d 0)] else [])"

definition crossings :: "MDDEPT \<Rightarrow> alert_text list" where
  "crossings d = concat (map (cross_level d) [0..<DEPTH_LEVEL]) @ cross_top d"

definition MAX_CROSS_ERROR :: nat where
  "MAX_CROSS_ERROR = 1000"

definition cross_check :: "FEP \<Rightarrow> PORT \<Rightarrow> MDDEPT \<Rightarrow> int \<Rightarrow> MDDEPT \<times> FEP" where
  "cross_check fep port d send_flag =
     (let fep1 = fold (send_alert port 0) (crossings d) fep
      in if crossings d = [] then (d, fep1)
         else
           let cnt = d_cross_cnt d + 1
           in if unat cnt > MAX_CROSS_ERROR
              then (d\<lparr>d_cross_cnt := 0\<rparr>, send_alert port send_flag (TooManyCross (d_symb d)) fep1)
              else (d\<lparr>d_cross_cnt := cnt\<rparr>, fep1))"

subsection \<open>Price indicator (\<^verbatim>\<open>parse_pind\<close>)\<close>

text \<open>Main fraction, sub fraction and decimal places of a letter.\<close>

fun pind_fractions :: "(char \<times> int \<times> int \<times> int) list \<Rightarrow> char \<Rightarrow> (int \<times> int \<times> int) option" where
  "pind_fractions [] c = None"
| "pind_fractions ((k, v) # t) c = (if k = c then Some v else pind_fractions t c)"

definition pind_letters :: "(char \<times> int \<times> int \<times> int) list" where
  "pind_letters =
    [(CHR ''A'', 2, 1, 1), (CHR ''B'', 4, 1, 2), (CHR ''C'', 8, 1, 3), (CHR ''D'', 16, 1, 4),
     (CHR ''E'', 32, 1, 5), (CHR ''F'', 64, 1, 6), (CHR ''G'', 128, 1, 7), (CHR ''H'', 256, 1, 8),
     (CHR ''I'', 32, 2, 6), (CHR ''J'', 64, 2, 7), (CHR ''K'', 32, 4, 7), (CHR ''L'', 32, 8, 8)]"

definition parse_pind :: "MDMSTR \<Rightarrow> bytes \<Rightarrow> MDMSTR" where
  "parse_pind mstr buffer =
     (let pind = str2buf buffer
      in case pind_fractions pind_letters (hd pind) of
           Some (mf, sf, z) \<Rightarrow> mstr\<lparr>m_main_f := mf, m_sub_f := sf, m_zdiv := z\<rparr>
         | None \<Rightarrow>
             (let number = atoi (cstr pind)
              in if 0 \<le> number \<and> number \<le> 9
                 then mstr\<lparr>m_main_f := 10 ^ nat number, m_sub_f := 1, m_zdiv := number\<rparr>
                 else mstr))"

subsection \<open>Outputs\<close>

definition quote_log :: "FEP \<Rightarrow> string \<Rightarrow> u32 \<Rightarrow> string \<Rightarrow> FEP" where
  "quote_log fep hostname class_tag code =
     fep\<lparr>fep_out := fep_out fep @ [EvQuoteLog hostname class_tag code]\<rparr>"

text \<open>\<^verbatim>\<open>fep_push\<close>: type 0 pushes the quote, 1 the cancelled trade, 2 the depth; others nothing.\<close>

definition fep_push :: "FEP \<Rightarrow> FOLDER \<Rightarrow> nat \<Rightarrow> FEP" where
  "fep_push fep folder ty =
     (if ty \<le> 2 then fep\<lparr>fep_out := fep_out fep @ [EvPush folder ty]\<rparr> else fep)"

end
