(* ===== verification/Handlers.thy ===== *)
theory Handlers
  imports MapChecks
begin

text \<open>
  The frame every packet handler of \<^verbatim>\<open>src/mon/oldmap.c\<close> and \<^verbatim>\<open>src/mon/extmap.c\<close> has, and
  the contract they keep. A handler runs its checks in order and returns \<open>-1\<close> at the first that
  answers \<open>-1\<close> (\<open>checked\<close>); a trade handler then looks the folder up and rewrites it
  (\<open>on_folder\<close>), a master handler enters it (\<open>enter_master\<close>). A handler answers \<open>None\<close> where the
  C code has undefined behaviour. The clock is read once per message.

  The locale \<open>handler\<close> is the contract between the handlers and the receive loop: on a well-formed
  table a handler leaves a well-formed table, drops no folder and leaves the folders of other hosts
  alone. \<open>trade_handler\<close> adds that no folder is created.
\<close>

subsection \<open>Field conversions with \<open>sizeof\<close>\<close>

text \<open>\<^verbatim>\<open>STR2xxx(&to, field, sizeof(field))\<close>: the size is never 0, so the old value is lost.\<close>

definition as_str :: "bytes \<Rightarrow> string" where
  "as_str b = snd (STR2STR [] b (int (length b)))"

definition as_int :: "bytes \<Rightarrow> int" where
  "as_int b = snd (STR2INT 0 b (int (length b)))"

definition as_uint :: "bytes \<Rightarrow> u32" where
  "as_uint b = snd (STR2UINT 0 b (int (length b)))"

definition as_float :: "bytes \<Rightarrow> double" where
  "as_float b = snd (STR2FLOAT 0 b (int (length b)))"

subsection \<open>Shape of a handler\<close>

type_synonym reply = "(int \<times> FEP) option"

type_synonym handler = "time_t \<Rightarrow> FEP \<Rightarrow> PORT \<Rightarrow> bytes \<Rightarrow> u32 \<Rightarrow> reply"

fun checked :: "(FEP \<Rightarrow> reply) list \<Rightarrow> (FEP \<Rightarrow> reply) \<Rightarrow> FEP \<Rightarrow> reply" where
  "checked [] k fep = k fep"
| "checked (c # cs) k fep =
     (case c fep of
        None \<Rightarrow> None
      | Some (r, fep') \<Rightarrow> if r = -1 then Some (-1, fep') else checked cs k fep')"

definition put_folder :: "nat \<Rightarrow> FOLDER \<Rightarrow> FEP \<Rightarrow> FEP" where
  "put_folder i f fep = fep\<lparr>fep_fold := (fep_fold fep)[i := f]\<rparr>"

definition on_folder ::
  "PORT \<Rightarrow> string \<Rightarrow> (FOLDER \<Rightarrow> FEP \<Rightarrow> (FOLDER \<times> FEP) option) \<Rightarrow> FEP \<Rightarrow> reply" where
  "on_folder port code body fep =
     (case getfolder fep code (p_host port) of
        None \<Rightarrow> Some (-1, fep)
      | Some i \<Rightarrow>
          (case body (fep_fold fep ! i) fep of
             None \<Rightarrow> None
           | Some (folder, fep') \<Rightarrow> Some (0, put_folder i folder fep')))"

definition enter_master ::
  "time_t \<Rightarrow> PORT \<Rightarrow> string \<Rightarrow> string \<Rightarrow> (MDMSTR \<Rightarrow> MDMSTR) \<Rightarrow> FEP \<Rightarrow> reply" where
  "enter_master now port code caller fill fep =
     (case newfolder now fep code (p_host port) of
        (None, fep') \<Rightarrow>
          Some (-1, fep_log fep' FL_ERROR caller
                      (Text (''Cannot create a new folder for '' @ [quote_mark] @ code @ [quote_mark])))
      | (Some i, fep') \<Rightarrow>
          let folder = fep_fold fep' ! i;
              mstr = (fill (f_mstr folder))\<lparr>m_updated_at := now\<rparr>
          in Some (0, put_folder i (folder\<lparr>f_mstr := mstr\<rparr>) fep'))"

text \<open>Opening, high and low price: the time is stamped only when the price changes.\<close>

definition stamp_open :: "time_t \<Rightarrow> double \<Rightarrow> MDQUOT \<Rightarrow> MDQUOT" where
  "stamp_open current v q =
     (if q_open q \<noteq> v then q\<lparr>q_open := v, q_open_time := current\<rparr> else q)"

definition stamp_high :: "time_t \<Rightarrow> double \<Rightarrow> MDQUOT \<Rightarrow> MDQUOT" where
  "stamp_high current v q =
     (if q_high q \<noteq> v then q\<lparr>q_high := v, q_high_time := current\<rparr> else q)"

definition stamp_low :: "time_t \<Rightarrow> double \<Rightarrow> MDQUOT \<Rightarrow> MDQUOT" where
  "stamp_low current v q =
     (if q_low q \<noteq> v then q\<lparr>q_low := v, q_low_time := current\<rparr> else q)"

lemmas stamp_defs = stamp_open_def stamp_high_def stamp_low_def

text \<open>
  One side of the loop over the levels of a depth packet: which member of a level goes into the
  price, the total and the quantity. \<open>level ii nm\<close> is the member \<open>nm\<close> of the packet's level \<open>ii\<close>.
\<close>

definition fill_side ::
  "(nat \<Rightarrow> string \<Rightarrow> bytes) \<Rightarrow> string \<Rightarrow> string \<Rightarrow> string \<Rightarrow> BBOOK list \<Rightarrow> BBOOK list" where
  "fill_side level p_nm t_nm q_nm books =
     map (\<lambda>(ii, b). if ii < MD_MAX_DEPTH
            then b\<lparr>b_price := as_float (level ii p_nm), b_total := as_uint (level ii t_nm),
                   b_qtqy := as_uint (level ii q_nm)\<rparr>
            else b) (enumerate 0 books)"

lemma fill_side_nth [simp]:
  "length (fill_side level p t q books) = length books"
  "ii < length books \<Longrightarrow> fill_side level p t q books ! ii =
     (if ii < MD_MAX_DEPTH then
        \<lparr>b_price = as_float (level ii p), b_total = as_uint (level ii t), b_qtqy = as_uint (level ii q)\<rparr>
      else books ! ii)"
  by (simp_all add: fill_side_def nth_enumerate_eq)

text \<open>
  What a trade record says of a quote: the plain statement, all fields at once, of what the
  assignments of the quote and cancel handlers amount to.
\<close>

definition quoted :: "time_t \<Rightarrow> (string \<Rightarrow> bytes) \<Rightarrow> MDQUOT \<Rightarrow> MDQUOT" where
  "quoted now trade q =
     (let open = as_float (trade ''open''); high = as_float (trade ''high'');
          low = as_float (trade ''lowp'')
      in q\<lparr>q_trdt := as_uint (trade ''trdt''), q_trtm := as_uint (trade ''trtm''),
           q_last := as_float (trade ''last''), q_tqty := as_uint (trade ''tqty''),
           q_tvol := as_uint (trade ''tvol''), q_open := open, q_high := high, q_low := low,
           q_date := as_uint (trade ''date''), q_updated_at := now,
           q_open_time := (if q_open q = open then q_open_time q else now),
           q_high_time := (if q_high q = high then q_high_time q else now),
           q_low_time := (if q_low q = low then q_low_time q else now)\<rparr>)"

lemma stamps_quoted:
  "(stamp_low now (as_float (trade ''lowp'')) (stamp_high now (as_float (trade ''high''))
     (stamp_open now (as_float (trade ''open'')) (q\<lparr>q_trdt := as_uint (trade ''trdt''),
        q_trtm := as_uint (trade ''trtm''), q_last := as_float (trade ''last''),
        q_tqty := as_uint (trade ''tqty''), q_tvol := as_uint (trade ''tvol'')\<rparr>))))
     \<lparr>q_date := as_uint (trade ''date''), q_updated_at := now\<rparr> = quoted now trade q"
  by (rule MDQUOT.equality) (simp_all add: stamp_defs quoted_def Let_def)

text \<open>
  Which settlement a status byte pair names. The C code compares the C string that starts at
  \<^verbatim>\<open>stat\<close>, which has no terminator of its own; for any other string it goes on with an
  uninitialised pointer.
\<close>

definition settle_index :: "string \<Rightarrow> nat option" where
  "settle_index stat =
     (if strcmp stat ''A1'' = 0 \<or> length stat = 0 then Some 0
      else if strcmp stat ''A2'' = 0 then Some 1
      else if strcmp stat ''B1'' = 0 then Some 2
      else if strcmp stat ''B2'' = 0 then Some 3
      else None)"

text \<open>A call whose result is dropped; the caller goes on and returns 0.\<close>

definition void :: "reply \<Rightarrow> reply" where
  "void res = map_option (\<lambda>(r, fep). (0, fep)) res"

lemma void_Some_iff: "void res = Some (r, fep') \<longleftrightarrow> r = 0 \<and> (\<exists>r'. res = Some (r', fep'))"
  by (auto simp: void_def)

subsection \<open>Operations that only put something out\<close>

definition quiet :: "FEP \<Rightarrow> FEP \<Rightarrow> bool" where
  "quiet fep fep' \<longleftrightarrow> (\<exists>out. fep' = fep\<lparr>fep_out := fep_out fep @ out\<rparr>)"

lemma quiet_refl [simp]: "quiet fep fep"
  unfolding quiet_def by (intro exI [of _ "[]"]) simp

lemma quiet_trans [trans]: "quiet a b \<Longrightarrow> quiet b c \<Longrightarrow> quiet a c"
  unfolding quiet_def by fastforce

lemma quietD:
  assumes "quiet fep fep'"
  shows "fep_fold fep' = fep_fold fep" "fep_arch fep' = fep_arch fep"
    "fep_attached fep' = fep_attached fep" "fep_exnm fep' = fep_exnm fep"
    "fep_config fep' = fep_config fep"
  using assms by (auto simp: quiet_def)

lemma quiet_out [intro]: "quiet fep (fep\<lparr>fep_out := fep_out fep @ out\<rparr>)"
  unfolding quiet_def by blast

lemma quiet_fep_log [simp]: "quiet fep (fep_log fep l c m)"
  by (simp add: fep_log_def quiet_out)

lemma quiet_send_alert [simp]: "quiet fep (send_alert port flag msg fep)"
proof -
  have "quiet (fep_log fep l c m) ((fep_log fep l c m)
          \<lparr>fep_out := fep_out (fep_log fep l c m) @ [e]\<rparr>)" for l c m e
    by (rule quiet_out)
  then show ?thesis
    by (auto simp: send_alert_def Let_def intro: quiet_trans [OF quiet_fep_log])
qed

lemma quiet_empty_alert:
  "empty_alert port msgb b nm flag fep = Some (r, fep') \<Longrightarrow> quiet fep fep'"
  by (auto simp: empty_alert_def alert_text_def mon_send_cmefnd_def Let_def split: if_splits)

lemma quiet_exch_alert:
  "exch_alert port msgb b flag fep = Some (r, fep') \<Longrightarrow> quiet fep fep'"
  by (auto simp: exch_alert_def alert_text_def mon_send_cmefnd_def Let_def split: if_splits)

lemma quiet_quote_log [simp]: "quiet fep (quote_log fep h t c)"
  by (simp add: quote_log_def quiet_out)

lemma quiet_fep_push [simp]: "quiet fep (fep_push fep f ty)"
  by (simp add: fep_push_def quiet_out)

text \<open>One output after another.\<close>

lemma quiet_then_log [simp]: "quiet fep fep1 \<Longrightarrow> quiet fep (quote_log fep1 h t c)"
  by (rule quiet_trans [OF _ quiet_quote_log])

lemma quiet_then_push [simp]: "quiet fep fep1 \<Longrightarrow> quiet fep (fep_push fep1 f ty)"
  by (rule quiet_trans [OF _ quiet_fep_push])

lemma quiet_fold_alerts: "quiet fep (fold (send_alert port flag) ms fep)"
  by (induction ms arbitrary: fep) (auto intro: quiet_trans [OF quiet_send_alert])

lemma quiet_cross_check [simp]: "quiet fep (snd (cross_check fep port d flag))"
proof -
  have "quiet fep (fold (send_alert port 0) (crossings d) fep)"
    and "quiet fep (send_alert port flag m (fold (send_alert port 0) (crossings d) fep))" for m
    by (rule quiet_fold_alerts quiet_trans [OF quiet_fold_alerts quiet_send_alert])+
  then show ?thesis by (simp add: cross_check_def Let_def)
qed

lemma cross_check_frame [simp]:
  "d_symb (fst (cross_check fep port d flag)) = d_symb d"
  "d_ask (fst (cross_check fep port d flag)) = d_ask d"
  "d_bid (fst (cross_check fep port d flag)) = d_bid d"
  "d_dpdt (fst (cross_check fep port d flag)) = d_dpdt d"
  "d_dptm (fst (cross_check fep port d flag)) = d_dptm d"
  by (simp_all add: cross_check_def Let_def)

lemma checked_cases:
  assumes "checked cs k fep = Some (r, fep')"
    and "\<And>c fep r fep'. c \<in> set cs \<Longrightarrow> c fep = Some (r, fep') \<Longrightarrow> quiet fep fep'"
  shows "(r = -1 \<and> quiet fep fep') \<or> (\<exists>fep1. quiet fep fep1 \<and> k fep1 = Some (r, fep'))"
  using assms
proof (induction cs arbitrary: fep)
  case Nil
  then show ?case by auto
next
  case (Cons c cs)
  from Cons.prems(1) obtain r1 fep1 where c: "c fep = Some (r1, fep1)"
    by (auto split: option.splits)
  then have q: "quiet fep fep1" by (rule Cons.prems(2) [rotated]) simp
  show ?case
  proof (cases "r1 = -1")
    case True
    with c Cons.prems(1) q show ?thesis by simp
  next
    case False
    with c Cons.prems(1) have "checked cs k fep1 = Some (r, fep')" by simp
    then have "r = -1 \<and> quiet fep1 fep' \<or> (\<exists>fep2. quiet fep1 fep2 \<and> k fep2 = Some (r, fep'))"
      by (rule Cons.IH) (rule Cons.prems(2), rule list.set_intros(2))
    with q show ?thesis by (auto dest: quiet_trans)
  qed
qed

subsection \<open>Effect on the table\<close>

text \<open>Everything but the record at one key, and everything but one host, stays.\<close>

definition same_but :: "FEP \<Rightarrow> FEP \<Rightarrow> bool" where
  "same_but fep fep' \<longleftrightarrow>
     fep_config fep' = fep_config fep \<and> fep_exnm fep' = fep_exnm fep \<and>
     (\<exists>v. fep_arch fep' = (fep_arch fep)\<lparr>a_vrec := v\<rparr>)"

definition trade_step :: "folder_key \<Rightarrow> FEP \<Rightarrow> FEP \<Rightarrow> bool" where
  "trade_step key fep fep' \<longleftrightarrow>
     table_ok fep' \<and> same_but fep fep' \<and> vrec fep' = vrec fep \<and>
     dom (folder_map fep') = dom (folder_map fep) \<and>
     (\<forall>k. k \<noteq> key \<longrightarrow> folder_map fep' k = folder_map fep k)"

definition table_step :: "string \<Rightarrow> FEP \<Rightarrow> FEP \<Rightarrow> bool" where
  "table_step host fep fep' \<longleftrightarrow>
     table_ok fep' \<and> same_but fep fep' \<and> vrec fep \<le> vrec fep' \<and>
     dom (folder_map fep) \<subseteq> dom (folder_map fep') \<and>
     (\<forall>k. key_host k \<noteq> host \<longrightarrow> folder_map fep' k = folder_map fep k)"

lemma same_but_refl [simp]: "same_but fep fep"
  unfolding same_but_def by (intro conjI exI [of _ "vrec fep"]) simp_all

lemma same_but_trans: "same_but a b \<Longrightarrow> same_but b c \<Longrightarrow> same_but a c"
  unfolding same_but_def by auto

lemma quiet_table:
  assumes "quiet fep fep'"
  shows "table_ok fep' = table_ok fep" "folder_map fep' = folder_map fep" "same_but fep fep'"
    "vrec fep' = vrec fep"
  using quietD [OF assms]
  by (simp_all add: table_ok_frame [of fep' fep] folder_map_frame [of fep' fep] same_but_def
      exI [of _ "vrec fep"])

lemma quiet_trade_step: "table_ok fep \<Longrightarrow> quiet fep fep' \<Longrightarrow> trade_step key fep fep'"
  using quiet_table [of fep fep'] by (simp add: trade_step_def)

lemma quiet_getfolder: "quiet fep fep' \<Longrightarrow> getfolder fep' s h = getfolder fep s h"
  using quietD [of fep fep'] by (simp add: getfolder_def)

lemma trade_step_trans:
  "trade_step key a b \<Longrightarrow> trade_step key b c \<Longrightarrow> trade_step key a c"
  unfolding trade_step_def by (auto intro: same_but_trans)

lemma table_step_refl: "table_ok fep \<Longrightarrow> table_step host fep fep"
  by (simp add: table_step_def)

lemma table_step_trans:
  "table_step host a b \<Longrightarrow> table_step host b c \<Longrightarrow> table_step host a c"
  unfolding table_step_def by (simp add: same_but_trans [of a b c] subset_trans [of "dom (folder_map a)" "dom (folder_map b)"])

lemma trade_step_table_step:
  "trade_step (FolderKey host symb) fep fep' \<Longrightarrow> table_step host fep fep'"
  unfolding trade_step_def table_step_def by (metis folder_key.sel(1) order_refl)

subsection \<open>Rewriting one record\<close>

lemma put_folder_frame [simp, frame]:
  "fep_arch (put_folder i f fep) = fep_arch fep" "fep_config (put_folder i f fep) = fep_config fep"
  "fep_exnm (put_folder i f fep) = fep_exnm fep" "fep_attached (put_folder i f fep) = fep_attached fep"
  "fep_out (put_folder i f fep) = fep_out fep"
  "fep_fold (put_folder i f fep) = (fep_fold fep)[i := f]"
  by (simp_all add: put_folder_def)

lemma live_put_folder:
  "live (put_folder i f fep) = (live fep)[i := f]"
  by (simp add: live_def take_update_swap)

lemma put_folder_ok [inv_pres]:
  assumes ok: "table_ok fep" and i: "i < vrec fep"
    and key: "folder_key f = folder_key (fep_fold fep ! i)" and arr: "arrays_ok f"
  shows "table_ok (put_folder i f fep)"
    and "folder_map (put_folder i f fep) = (folder_map fep)(folder_key f \<mapsto> f)"
proof -
  note t = table_okD [OF ok]
  have il: "i < length (live fep)" and li: "live fep ! i = fep_fold fep ! i"
    using t i by (simp_all add: live_nth)
  have "map folder_key ((live fep)[i := f]) = (map folder_key (live fep))[i := map folder_key (live fep) ! i]"
    using il li key by (simp add: map_update)
  then have "map folder_key (live (put_folder i f fep)) = map folder_key (live fep)"
    by (simp add: live_put_folder)
  moreover have "\<forall>g\<in>set (fep_fold (put_folder i f fep)). arrays_ok g"
    using t(7) arr set_update_subset_insert [of "fep_fold fep" i f] by auto
  ultimately show ok': "table_ok (put_folder i f fep)"
    using t by (simp add: table_ok_def)
  have dist: "distinct (live fep)" using t(5) by (simp add: distinct_map)
  have set: "set (live (put_folder i f fep)) = insert f (set (live fep) - {live fep ! i})"
    using set_update_distinct [OF dist il] by (simp add: live_put_folder)
  have "folder_key h = folder_key f \<longleftrightarrow> h = live fep ! i" if "h \<in> set (live fep)" for h
    using that t(5) key li il nth_mem [OF il] by (auto simp: distinct_map inj_on_def)
  with set have el: "h \<in> set (live (put_folder i f fep)) \<longleftrightarrow>
      h = f \<or> (h \<in> set (live fep) \<and> folder_key h \<noteq> folder_key f)" for h
    by auto
  show "folder_map (put_folder i f fep) = (folder_map fep)(folder_key f \<mapsto> f)"
  proof (rule map_eqI)
    fix k g
    show "folder_map (put_folder i f fep) k = Some g \<longleftrightarrow>
        ((folder_map fep)(folder_key f \<mapsto> f)) k = Some g"
      using folder_map_Some_iff [OF ok', of k g] folder_map_Some_iff [OF ok, of k g]
      by (auto simp: el)
  qed
qed

subsection \<open>Trade handlers\<close>

text \<open>What a trade handler may do to its record: the key stays and nothing else is written.\<close>

definition body_ok :: "(FOLDER \<Rightarrow> FEP \<Rightarrow> (FOLDER \<times> FEP) option) \<Rightarrow> bool" where
  "body_ok body \<longleftrightarrow>
     (\<forall>f fep f' fep'. body f fep = Some (f', fep') \<longrightarrow>
        folder_key f' = folder_key f \<and> (arrays_ok f \<longrightarrow> arrays_ok f') \<and> quiet fep fep')"

lemma table_record_arrays: "table_ok fep \<Longrightarrow> i < vrec fep \<Longrightarrow> arrays_ok (fep_fold fep ! i)"
  using table_okD [of fep] by simp

lemma on_folder_step:
  assumes ok: "table_ok fep" and body: "body_ok body"
    and run: "on_folder port code body fep = Some (r, fep')"
  shows "trade_step (FolderKey (p_host port) code) fep fep'"
proof (cases "getfolder fep code (p_host port)")
  case None
  with run ok show ?thesis by (auto simp: on_folder_def intro: quiet_trade_step)
next
  case (Some i)
  then obtain f' fep1 where b: "body (fep_fold fep ! i) fep = Some (f', fep1)"
    and fep': "fep' = put_folder i f' fep1"
    using run by (auto simp: on_folder_def split: option.splits prod.splits)
  from Some have i: "i < vrec fep" "folder_key (fep_fold fep ! i) = FolderKey (p_host port) code"
    using getfolder_Some_iff [OF ok] by auto
  from b body table_record_arrays [OF ok i(1)]
  have key: "folder_key f' = folder_key (fep_fold fep ! i)" "arrays_ok f'" and q: "quiet fep fep1"
    by (auto simp: body_ok_def)
  note q1 = quietD [OF q] quiet_table [OF q]
  have "table_ok fep1" "i < vrec fep1" "folder_key f' = folder_key (fep_fold fep1 ! i)" "arrays_ok f'"
    using ok i key q1 by simp_all
  note put = put_folder_ok [OF this, folded fep']
  have "folder_map fep (FolderKey (p_host port) code) \<noteq> None"
    using folder_map_get [OF ok] Some by simp
  with put key i q1 show ?thesis
    by (auto simp: trade_step_def fep' same_but_def)
qed

lemma on_folder_missing:
  assumes "table_ok fep" and "folder_map fep (FolderKey (p_host port) code) = None"
  shows "on_folder port code body fep = Some (-1, fep)"
  using assms folder_map_get [OF assms(1)] by (simp add: on_folder_def)

lemma on_folder_known:
  assumes ok: "table_ok fep" and f: "folder_map fep (FolderKey (p_host port) code) = Some f"
    and b: "body f fep = Some (f', fep1)" and body: "body_ok body"
  shows "\<exists>fep'. on_folder port code body fep = Some (0, fep') \<and>
    folder_map fep' = (folder_map fep)(FolderKey (p_host port) code \<mapsto> f') \<and>
    table_ok fep' \<and> fep_out fep' = fep_out fep1"
proof -
  from f obtain i where get: "getfolder fep code (p_host port) = Some i"
    and fi: "fep_fold fep ! i = f"
    using folder_map_get [OF ok] by auto
  then have i: "i < vrec fep" "folder_key f = FolderKey (p_host port) code"
    using getfolder_Some_iff [OF ok] by auto
  from b body table_record_arrays [OF ok i(1)] fi
  have key: "folder_key f' = folder_key f" "arrays_ok f'" and q: "quiet fep fep1"
    by (auto simp: body_ok_def)
  note q1 = quietD [OF q] quiet_table [OF q]
  have "table_ok fep1" "i < vrec fep1" "folder_key f' = folder_key (fep_fold fep1 ! i)" "arrays_ok f'"
    using ok i key q1 fi by simp_all
  note put = put_folder_ok [OF this]
  with get fi b q1 i key show ?thesis
    by (simp add: on_folder_def)
qed

subsection \<open>Master handlers\<close>

lemma newfolder_same_but: "same_but fep (snd (newfolder now fep symb host))"
  unfolding newfolder_def same_but_def Let_def
  by (auto split: option.splits intro: exI [of _ "vrec fep"] exI [of _ "Suc (vrec fep)"])

lemma newfolder_vrec: "vrec fep \<le> vrec (snd (newfolder now fep symb host))"
  by (auto simp: newfolder_def Let_def split: option.splits)

lemma newfolder_step:
  assumes "table_ok fep"
  shows "table_step host fep (snd (newfolder now fep symb host))"
  using newfolder_ok [OF assms, of now symb host] newfolder_same_but newfolder_vrec
  by (auto simp: table_step_def newfolder_map [OF assms])

lemma put_folder_step:
  assumes "table_ok fep" and "getfolder fep code host = Some i"
    and "folder_key f = folder_key (fep_fold fep ! i)" and "arrays_ok f"
  shows "trade_step (FolderKey host code) fep (put_folder i f fep)"
proof -
  have i: "i < vrec fep" "folder_key f = FolderKey host code"
    using getfolder_Some_iff [OF assms(1)] assms by auto
  have "folder_map fep (FolderKey host code) \<noteq> None"
    using folder_map_get [OF assms(1)] assms(2) by simp
  with put_folder_ok [OF assms(1) i(1) assms(3,4)] i show ?thesis
    by (auto simp: trade_step_def same_but_def intro: exI [of _ "vrec fep"])
qed

lemma enter_master_step:
  assumes ok: "table_ok fep" and run: "enter_master now port code caller fill fep = Some (r, fep')"
  shows "table_step (p_host port) fep fep'"
proof -
  obtain p fep1 where new: "newfolder now fep code (p_host port) = (p, fep1)" by fastforce
  have ok1: "table_ok fep1" and step1: "table_step (p_host port) fep fep1"
    using newfolder_ok [OF ok, of now code "p_host port"]
      newfolder_step [OF ok, of "p_host port" now code] new by simp_all
  have "trade_step (FolderKey (p_host port) code) fep1 fep'"
  proof (cases p)
    case None
    with new run have "quiet fep1 fep'" by (auto simp: enter_master_def)
    with ok1 show ?thesis by (rule quiet_trade_step)
  next
    case (Some i)
    with newfolder_Some [OF ok] new have "getfolder fep1 code (p_host port) = Some i" by simp
    note put = put_folder_step [OF ok1 this]
    from new run Some obtain m where
      "fep' = put_folder i ((fep_fold fep1 ! i)\<lparr>f_mstr := m\<rparr>) fep1"
      by (auto simp: enter_master_def Let_def)
    moreover have "i < vrec fep1"
      using getfolder_Some_iff [OF ok1] \<open>getfolder fep1 code (p_host port) = Some i\<close> by blast
    then have "arrays_ok (fep_fold fep1 ! i)" by (rule table_record_arrays [OF ok1])
    ultimately show ?thesis by (simp add: put folder_key_def arrays_ok_def)
  qed
  with step1 show ?thesis by (blast intro: table_step_trans trade_step_table_step)
qed

text \<open>A master with room for its symbol: the record is there, filled in and dated.\<close>

lemma enter_master_entered:
  fixes now :: time_t
  assumes ok: "table_ok fep"
    and room: "folder_map fep (FolderKey host code) \<noteq> None \<or> vrec fep + 1 < mrec fep"
    and host: "host = p_host port"
  defines "f \<equiv> (case folder_map fep (FolderKey host code) of
                 Some f \<Rightarrow> f | None \<Rightarrow> fresh_folder now code host)"
  shows "\<exists>fep'. enter_master now port code caller fill fep = Some (0, fep') \<and> table_ok fep' \<and>
    folder_map fep' = (folder_map fep)
      (FolderKey host code \<mapsto> f\<lparr>f_mstr := (fill (f_mstr f))\<lparr>m_updated_at := now\<rparr>\<rparr>)"
proof -
  obtain p fep1 where new: "newfolder now fep code host = (p, fep1)" by fastforce
  have ok1: "table_ok fep1"
    using newfolder_ok [OF ok, of now code host] new by simp
  have "p \<noteq> None"
    using newfolder_None_iff [OF ok, of now code host] new room folder_map_get [OF ok, of host code]
    by auto
  then obtain i where p: "p = Some i" by blast
  with newfolder_Some [OF ok] new have get: "getfolder fep1 code host = Some i" by simp
  then have i: "i < vrec fep1" "folder_key (fep_fold fep1 ! i) = FolderKey host code"
    using getfolder_Some_iff [OF ok1] by auto
  have map1: "folder_map fep1 = (folder_map fep)(FolderKey host code \<mapsto> f)"
    using newfolder_map [OF ok, of now code host] new room folder_map_get [OF ok, of host code]
    by (auto simp: f_def split: if_splits option.splits)
  have fi: "fep_fold fep1 ! i = f"
    using folder_map_get [OF ok1, of host code] map1 get by simp
  let ?g = "f\<lparr>f_mstr := (fill (f_mstr f))\<lparr>m_updated_at := now\<rparr>\<rparr>"
  have key: "folder_key ?g = folder_key (fep_fold fep1 ! i)" "arrays_ok ?g"
    using table_record_arrays [OF ok1 i(1)] by (simp_all add: fi folder_key_def arrays_ok_def)
  from put_folder_ok [OF ok1 i(1) key] key(1) i(2) map1
  show ?thesis by (simp add: enter_master_def new p fi host [symmetric])
qed

subsection \<open>From the shape to the effect\<close>

definition check_ok :: "(FEP \<Rightarrow> reply) \<Rightarrow> bool" where
  "check_ok c \<longleftrightarrow> (\<forall>fep r fep'. c fep = Some (r, fep') \<longrightarrow> quiet fep fep')"

lemma check_ok_alerts [simp]:
  "check_ok (empty_alert port msgb b nm flag)" "check_ok (exch_alert port msgb b flag)"
  by (auto simp: check_ok_def quiet_empty_alert quiet_exch_alert)

lemma checked_on_folder:
  assumes ok: "table_ok fep" and cs: "\<forall>c\<in>set cs. check_ok c" and body: "body_ok body"
    and run: "checked cs (on_folder port code body) fep = Some (r, fep')"
  shows "trade_step (FolderKey (p_host port) code) fep fep'"
proof -
  from checked_cases [OF run] cs
  consider "quiet fep fep'"
    | fep1 where "quiet fep fep1" "on_folder port code body fep1 = Some (r, fep')"
    by (auto simp: check_ok_def)
  then show ?thesis
  proof cases
    case 1
    with ok show ?thesis by (rule quiet_trade_step)
  next
    case 2
    then have "table_ok fep1" using ok quiet_table by blast
    from quiet_trade_step [OF ok 2(1)] on_folder_step [OF this body 2(2)]
    show ?thesis by (rule trade_step_trans)
  qed
qed

lemma checked_enter_master:
  assumes ok: "table_ok fep" and cs: "\<forall>c\<in>set cs. check_ok c"
    and run: "checked cs (enter_master now port code caller fill) fep = Some (r, fep')"
  shows "table_step (p_host port) fep fep'"
proof -
  from checked_cases [OF run] cs
  consider "quiet fep fep'"
    | fep1 where "quiet fep fep1" "enter_master now port code caller fill fep1 = Some (r, fep')"
    by (auto simp: check_ok_def)
  then show ?thesis
  proof cases
    case 1
    with ok show ?thesis
      using trade_step_table_step [OF quiet_trade_step, of fep fep' "p_host port"] by blast
  next
    case 2
    then have "table_ok fep1" using ok quiet_table by blast
    with 2 ok show ?thesis
      using trade_step_table_step [OF quiet_trade_step, of fep fep1 "p_host port"]
      by (blast intro: table_step_trans enter_master_step)
  qed
qed

text \<open>Checks that pass leave no trace.\<close>

lemma empty_alert_pass: "as_str b \<noteq> [] \<Longrightarrow> empty_alert port msgb b nm flag fep = Some (0, fep)"
  by (simp add: empty_alert_def as_str_def Let_def)

lemma exch_alert_pass: "exch_error fep b = 0 \<Longrightarrow> exch_alert port msgb b flag fep = Some (0, fep)"
  by (simp add: exch_alert_def Let_def)

lemmas alerts_pass = empty_alert_pass exch_alert_pass

text \<open>A packet the checks of a trade handler let through without a word.\<close>

definition accepts :: "FEP \<Rightarrow> layout \<Rightarrow> bytes \<Rightarrow> bool" where
  "accepts fep head msgb \<longleftrightarrow>
     as_str (member head 0 msgb ''code'') \<noteq> [] \<and> as_str (member head 0 msgb ''exch'') \<noteq> [] \<and>
     exch_error fep (member head 0 msgb ''exch'') = 0"

lemma checked_known:
  assumes ok: "table_ok fep" and acc: "accepts fep head msgb"
    and f: "folder_map fep (FolderKey (p_host port) (as_str (member head 0 msgb ''code''))) = Some f"
    and body: "body_ok body" and b: "body f fep = Some (f', fep1)" and out: "fep_out fep1 = out"
  shows "\<exists>fep'. checked
      [empty_alert port msgb (member head 0 msgb ''code'') ''code'' 0,
       empty_alert port msgb (member head 0 msgb ''exch'') ''exch'' 0,
       exch_alert port msgb (member head 0 msgb ''exch'') 0]
      (on_folder port (as_str (member head 0 msgb ''code'')) body) fep = Some (0, fep') \<and>
    table_ok fep' \<and>
    folder_map fep' = (folder_map fep)
      (FolderKey (p_host port) (as_str (member head 0 msgb ''code'')) \<mapsto> f') \<and>
    fep_out fep' = out"
  using on_folder_known [OF ok f b body] acc out
  by (auto simp: accepts_def alerts_pass)

lemma checked_runs:
  assumes ok: "table_ok fep" and acc: "accepts fep head msgb"
    and f: "folder_map fep (FolderKey (p_host port) (as_str (member head 0 msgb ''code''))) = Some f"
    and body: "body_ok body" and b: "body f fep \<noteq> None"
  shows "\<exists>fep'. checked
      [empty_alert port msgb (member head 0 msgb ''code'') ''code'' 0,
       empty_alert port msgb (member head 0 msgb ''exch'') ''exch'' 0,
       exch_alert port msgb (member head 0 msgb ''exch'') 0]
      (on_folder port (as_str (member head 0 msgb ''code'')) body) fep = Some (0, fep')"
proof -
  from b obtain f' fep1 where "body f fep = Some (f', fep1)" by auto
  from checked_known [OF ok acc f body this refl] show ?thesis by blast
qed

text \<open>The record a master for this key goes into: the one in the table or a cleared one.\<close>

definition found_or_fresh :: "time_t \<Rightarrow> FEP \<Rightarrow> string \<Rightarrow> string \<Rightarrow> FOLDER" where
  "found_or_fresh now fep host code =
     (case folder_map fep (FolderKey host code) of
        Some f \<Rightarrow> f | None \<Rightarrow> fresh_folder now code host)"

lemma checked_entered:
  assumes ok: "table_ok fep"
    and room: "folder_map fep (FolderKey (p_host port) code) \<noteq> None \<or> vrec fep + 1 < mrec fep"
    and cs: "\<forall>c\<in>set cs. c fep = Some (0, fep)"
    and P: "P ((fill (f_mstr (found_or_fresh now fep (p_host port) code)))\<lparr>m_updated_at := now\<rparr>)"
  shows "\<exists>fep' m. checked cs (enter_master now port code caller fill) fep = Some (0, fep') \<and>
    table_ok fep' \<and> P m \<and>
    folder_map fep' = (folder_map fep) (FolderKey (p_host port) code \<mapsto>
      (found_or_fresh now fep (p_host port) code)\<lparr>f_mstr := m\<rparr>)"
proof -
  have "checked cs k fep = k fep" for k
    using cs by (induction cs) simp_all
  with enter_master_entered [OF ok room refl, of now caller fill] P show ?thesis
    by (auto simp: found_or_fresh_def)
qed

lemma parse_pind_frame [simp]:
  "m_symb (parse_pind m buf) = m_symb m" "m_root (parse_pind m buf) = m_root m"
  "m_symb_desc (parse_pind m buf) = m_symb_desc m" "m_otyp (parse_pind m buf) = m_otyp m"
  "m_exch_code (parse_pind m buf) = m_exch_code m" "m_curr (parse_pind m buf) = m_curr m"
  "m_prod (parse_pind m buf) = m_prod m"
  by (simp_all add: parse_pind_def Let_def split: option.split prod.split)

lemma as_str_pad [simp]:
  assumes "NUL \<notin> set s" and "s = [] \<or> last s \<noteq> CHR '' ''" and "length s \<le> n" and "0 < n"
  shows "as_str (pad n s) = s"
proof -
  have "n = length s + (n - length s)" using assms(3) by simp
  with STR2STR_padded [OF assms(1,2), of "n - length s" "[]"] assms(3,4) show ?thesis
    by (simp add: as_str_def pad_eq)
qed

subsection \<open>The contract of the handlers\<close>

text \<open>A sequence of messages, each with its time, port and class.\<close>

fun handle_all :: "handler \<Rightarrow> (time_t \<times> PORT \<times> bytes \<times> u32) list \<Rightarrow> FEP \<Rightarrow> FEP option" where
  "handle_all h [] fep = Some fep"
| "handle_all h ((now, port, msgb, tag) # ms) fep =
     (case h now fep port msgb tag of
        None \<Rightarrow> None
      | Some (r, fep') \<Rightarrow> handle_all h ms fep')"

text \<open>A trade handler rewrites the record of the code in its packet head, and nothing else.\<close>

definition trade_ok :: "layout \<Rightarrow> handler \<Rightarrow> bool" where
  "trade_ok head h \<longleftrightarrow>
     (\<forall>now fep port msgb tag r fep'. table_ok fep \<longrightarrow> h now fep port msgb tag = Some (r, fep') \<longrightarrow>
        trade_step (FolderKey (p_host port) (as_str (member head 0 msgb ''code''))) fep fep')"

definition master_ok :: "handler \<Rightarrow> bool" where
  "master_ok h \<longleftrightarrow>
     (\<forall>now fep port msgb tag r fep'. table_ok fep \<longrightarrow> h now fep port msgb tag = Some (r, fep') \<longrightarrow>
        table_step (p_host port) fep fep')"

locale handler =
  fixes h :: handler
  assumes step: "table_ok fep \<Longrightarrow> h now fep port msgb tag = Some (r, fep') \<Longrightarrow>
    table_step (p_host port) fep fep'"
begin

lemma run_ok: "table_ok fep \<Longrightarrow> handle_all h ms fep = Some fep' \<Longrightarrow> table_ok fep'"
proof (induction ms arbitrary: fep)
  case (Cons m ms)
  obtain now port msgb tag where m: "m = (now, port, msgb, tag)" by (cases m)
  with Cons.prems(2) obtain r fep1 where h: "h now fep port msgb tag = Some (r, fep1)"
    and rest: "handle_all h ms fep1 = Some fep'"
    by (auto split: option.splits)
  from step [OF Cons.prems(1) h] have "table_ok fep1" by (simp add: table_step_def)
  from Cons.IH [OF this rest] show ?case .
qed simp

lemma run_keeps:
  "table_ok fep \<Longrightarrow> handle_all h ms fep = Some fep' \<Longrightarrow>
   dom (folder_map fep) \<subseteq> dom (folder_map fep') \<and>
   (\<forall>k. key_host k \<notin> (\<lambda>(now, port, msgb, tag). p_host port) ` set ms \<longrightarrow>
      folder_map fep' k = folder_map fep k)"
proof (induction ms arbitrary: fep)
  case (Cons m ms)
  obtain now port msgb tag where m: "m = (now, port, msgb, tag)" by (cases m)
  with Cons.prems(2) obtain r fep1 where h: "h now fep port msgb tag = Some (r, fep1)"
    and rest: "handle_all h ms fep1 = Some fep'"
    by (auto split: option.splits)
  from step [OF Cons.prems(1) h] have st: "table_step (p_host port) fep fep1" .
  then have "table_ok fep1" by (simp add: table_step_def)
  note IH = Cons.IH [OF this rest]
  from IH st have "dom (folder_map fep) \<subseteq> dom (folder_map fep')"
    by (meson subset_trans table_step_def)
  with IH st show ?case by (simp add: table_step_def m)
qed simp

end

locale trade_handler = handler +
  assumes no_new: "table_ok fep \<Longrightarrow> h now fep port msgb tag = Some (r, fep') \<Longrightarrow>
    dom (folder_map fep') = dom (folder_map fep)"
begin

lemma run_no_new:
  "table_ok fep \<Longrightarrow> handle_all h ms fep = Some fep' \<Longrightarrow>
   dom (folder_map fep') = dom (folder_map fep)"
proof (induction ms arbitrary: fep)
  case (Cons m ms)
  obtain now port msgb tag where m: "m = (now, port, msgb, tag)" by (cases m)
  with Cons.prems(2) obtain r fep1 where h: "h now fep port msgb tag = Some (r, fep1)"
    and rest: "handle_all h ms fep1 = Some fep'"
    by (auto split: option.splits)
  from step [OF Cons.prems(1) h] have "table_ok fep1" by (simp add: table_step_def)
  from Cons.IH [OF this rest] no_new [OF Cons.prems(1) h] show ?case by simp
qed simp

end

text \<open>Handlers that keep the contract, and the dispatch over them.\<close>

lemma trade_okD:
  "trade_ok head h \<Longrightarrow> table_ok fep \<Longrightarrow> h now fep port msgb tag = Some (r, fep') \<Longrightarrow>
   trade_step (FolderKey (p_host port) (as_str (member head 0 msgb ''code''))) fep fep'"
  by (simp add: trade_ok_def)

lemma trade_ok_void: "trade_ok head h \<Longrightarrow> trade_ok head (\<lambda>n f p m t. void (h n f p m t))"
  by (auto simp: trade_ok_def void_Some_iff)

lemma trade_ok_if:
  "trade_ok head h \<Longrightarrow> trade_ok head g \<Longrightarrow>
   trade_ok head (\<lambda>n f p m t. if P f t then h n f p m t else g n f p m t)"
  by (simp add: trade_ok_def)

lemma trade_ok_skip: "trade_ok head (\<lambda>n f p m t. Some (0, f))"
  by (simp add: trade_ok_def quiet_trade_step)

lemmas trade_ok_intros = trade_ok_void trade_ok_if trade_ok_skip

lemma master_ok_void: "master_ok h \<Longrightarrow> master_ok (\<lambda>n f p m t. void (h n f p m t))"
  by (auto simp: master_ok_def void_Some_iff)

lemma master_ok_if:
  "master_ok h \<Longrightarrow> master_ok g \<Longrightarrow>
   master_ok (\<lambda>n f p m t. if P f t then h n f p m t else g n f p m t)"
  by (simp add: master_ok_def)

lemma master_ok_skip: "master_ok (\<lambda>n f p m t. Some (0, f))"
  by (simp add: master_ok_def table_step_refl)

lemma master_ok_trade: "trade_ok head h \<Longrightarrow> master_ok h"
  unfolding trade_ok_def master_ok_def by (blast intro: trade_step_table_step)

lemmas master_ok_intros = master_ok_void master_ok_if master_ok_skip master_ok_trade

lemma master_ok_handler: "master_ok h \<Longrightarrow> handler h"
  by unfold_locales (auto simp: master_ok_def)

lemma trade_ok_handler:
  assumes "trade_ok head h"
  shows "trade_handler h"
proof (intro trade_handler.intro trade_handler_axioms.intro)
  show "handler h" by (rule master_ok_handler, rule master_ok_trade) (rule assms)
  show "dom (folder_map fep') = dom (folder_map fep)"
    if "table_ok fep" "h now fep port msgb tag = Some (r, fep')" for now fep port msgb tag r fep'
    using trade_okD [OF assms that] by (simp add: trade_step_def)
qed

subsection \<open>Where the handlers are defined\<close>

definition alert_room :: "FEP \<Rightarrow> PORT \<Rightarrow> bytes \<Rightarrow> bool" where
  "alert_room fep port msgb \<longleftrightarrow>
     length (p_host port) + length (fep_exnm fep) + length (p_name port) + length msgb \<le> 900"

lemma length_as_str: "length (as_str b) \<le> length b"
proof (cases "b = []")
  case False
  then have "as_str b = cstr (rstrip b)" by (simp add: as_str_def STR2STR_eq)
  moreover have "length (rstrip b) \<le> length b"
    using length_dropWhile_le [of "\<lambda>c. c = CHR '' ''" "rev b"] by (simp add: rstrip_def)
  ultimately show ?thesis using length_cstr_le [of "rstrip b"] by simp
qed (simp add: as_str_def STR2STR_def)

lemma alert_text_total:
  assumes "alert_room fep port msgb" and "quiet fep f" and "length s \<le> length msgb + 80"
  shows "\<exists>f'. alert_text f port s flag = Some f' \<and> quiet f f'"
  using assms quietD(4) [OF assms(2)]
  by (simp add: alert_text_def mon_send_cmefnd_def alert_fits_def alert_line_def alert_room_def
      MESSAGE_BUF_def ALERT_BUF_def)

lemma empty_alert_total:
  assumes room: "alert_room fep port msgb" and q: "quiet fep f" and nm: "length nm \<le> 8"
  shows "\<exists>r f'. empty_alert port msgb b nm flag f = Some (r, f') \<and> quiet f f'"
proof -
  have "length ([quote_mark] @ nm @ [quote_mark] @ '' field empty..! | ['' @ cstr msgb @ '']'') \<le> length msgb + 80"
    using nm length_cstr_le [of msgb] by simp
  from alert_text_total [OF room q this] show ?thesis
    by (fastforce simp: empty_alert_def Let_def)
qed

lemma exch_alert_total:
  assumes room: "alert_room fep port msgb" and q: "quiet fep f" and b: "length b \<le> 16"
  shows "\<exists>r f'. exch_alert port msgb b flag f = Some (r, f') \<and> quiet f f'"
proof -
  let ?exch = "[quote_mark] @ ''exch'' @ [quote_mark] @ '' field('' @ as_str b"
  have "length (?exch @ '') mismatch..! | ['' @ cstr msgb @ '']'') \<le> length msgb + 80"
    and "length (?exch @ '') unknwon..! | ['' @ cstr msgb @ '']'') \<le> length msgb + 80"
    using b length_as_str [of b] length_cstr_le [of msgb] by simp_all
  note this [THEN alert_text_total [OF room q, of _ flag]]
  then show ?thesis by (auto simp: exch_alert_def Let_def as_str_def [symmetric])
qed

lemma checked_total:
  assumes "\<forall>c\<in>set cs. \<forall>f. quiet fep f \<longrightarrow> (\<exists>r f'. c f = Some (r, f') \<and> quiet f f')"
    and "\<And>f. quiet fep f \<Longrightarrow> k f \<noteq> None"
  shows "checked cs k fep \<noteq> None"
proof -
  have "checked cs k f \<noteq> None" if "quiet fep f" for f
    using that assms(1)
  proof (induction cs arbitrary: f)
    case Nil
    then show ?case using assms(2) by simp
  next
    case (Cons c cs)
    then obtain r f' where c: "c f = Some (r, f')" and "quiet f f'" by auto
    with Cons.prems have "quiet fep f'" by (blast intro: quiet_trans)
    with Cons.IH Cons.prems(2) have "checked cs k f' \<noteq> None" by simp
    with c show ?case by simp
  qed
  then show ?thesis by simp
qed

text \<open>
  When a handler is defined at all: its alerts fit their buffers when the names in them and the
  message do not exceed 900 bytes together (\<open>alert_room\<close>); \<open>handler_total P h\<close> says that then
  \<open>h\<close> answers for every message in \<open>P\<close>.
\<close>

definition handler_total :: "(bytes \<Rightarrow> u32 \<Rightarrow> bool) \<Rightarrow> handler \<Rightarrow> bool" where
  "handler_total P h \<longleftrightarrow> (\<forall>now fep port msgb tag. P msgb tag \<longrightarrow> alert_room fep port msgb \<longrightarrow>
     h now fep port msgb tag \<noteq> None)"

lemma handler_total_void: "handler_total P h \<Longrightarrow> handler_total P (\<lambda>n f p m t. void (h n f p m t))"
  by (simp add: handler_total_def void_def)

lemma handler_total_if:
  "handler_total (\<lambda>m t. P m t \<and> c t) h \<Longrightarrow> handler_total (\<lambda>m t. P m t \<and> \<not> c t) g \<Longrightarrow>
   handler_total P (\<lambda>n f p m t. if c t then h n f p m t else g n f p m t)"
  by (simp add: handler_total_def)

lemma handler_total_weaken: "handler_total Q h \<Longrightarrow> (\<And>m t. P m t \<Longrightarrow> Q m t) \<Longrightarrow> handler_total P h"
  by (simp add: handler_total_def)

lemma on_folder_total:
  assumes "\<And>f. body f fep \<noteq> None"
  shows "on_folder port code body fep \<noteq> None"
proof (cases "getfolder fep code (p_host port)")
  case (Some i)
  with assms [of "fep_fold fep ! i"] show ?thesis by (auto simp: on_folder_def)
qed (simp add: on_folder_def)

lemma enter_master_total: "enter_master now port code caller fill fep \<noteq> None"
  by (auto simp: enter_master_def Let_def split: prod.splits option.splits)

lemmas checks_total = empty_alert_total exch_alert_total

end
