(* ===== verification/Environment.thy ===== *)
theory Environment
  imports Handlers
begin

text \<open>
  What the operating system answers while one message is processed: the time, the broken down local
  time (\<open>None\<close> when \<^verbatim>\<open>localtime_r\<close> fails), the holiday file of an exchange, and the answers of the
  file system calls for a path. \<open>LOG_DIR\<close> is set by the build. A call that changes the file system
  is an event in \<open>fep_out\<close>; the answers are those given when the call is made.
\<close>

record TM =
  tm_wday :: nat
  tm_hour :: nat
  tm_min  :: nat
  tm_date :: string \<comment> \<open>as \<^verbatim>\<open>strftime\<close> prints it with \<open>%Y%m%d\<close>\<close>

text \<open>
  A holiday file: missing, not to be opened, without a byte (then \<^verbatim>\<open>fgets\<close> stores nothing and the
  buffer is read uninitialised), or with a first line.
\<close>

datatype holiday_file = NoFile | Unreadable | EmptyFile | FirstLine string

datatype mkdir_result = Made | Exists | MkdirError

record ENV =
  e_now     :: time_t
  e_tm      :: "TM option"
  e_holiday :: "string \<Rightarrow> nat \<Rightarrow> holiday_file" \<comment> \<open>by exchange and weekday\<close>
  e_log_dir :: string \<comment> \<open>\<^verbatim>\<open>LOG_DIR\<close>\<close>
  e_access  :: "string \<Rightarrow> bool"
  e_mkdir   :: "string \<Rightarrow> mkdir_result"
  e_mtime   :: "string \<Rightarrow> time_t option" \<comment> \<open>\<^verbatim>\<open>stat\<close>: the modification time\<close>
  e_fopen   :: "string \<Rightarrow> bool"
  e_readdir :: "string \<Rightarrow> string list option" \<comment> \<open>\<^verbatim>\<open>opendir\<close> and all of \<^verbatim>\<open>readdir\<close>\<close>
  e_remove  :: "string \<Rightarrow> bool"

end
