(* ===== verification/MonClass.thy ===== *)
theory MonClass
  imports Packets
begin

text \<open>
  The class of a message, \<^verbatim>\<open>src/mon/monclass.c\<close>: a word of flags for format, kind of data and
  exchange, built from the exchange name of the configuration, the format and type of the port and
  the transaction code at the start of the message. A message that cannot be classed gives \<open>-1\<close>.
\<close>

unbundle bit_operations_syntax

subsection \<open>Operations\<close>

definition OLD_TRXC_SIZE :: nat where
  "OLD_TRXC_SIZE = 3"

text \<open>\<^verbatim>\<open>exchange_name[0]\<close>, the terminator for an empty name.\<close>

definition first_char :: "string \<Rightarrow> char" where
  "first_char s = (case s of [] \<Rightarrow> NUL | c # _ \<Rightarrow> c)"

definition old_master_class :: "FEP \<Rightarrow> u32 \<Rightarrow> int \<times> u32" where
  "old_master_class fep class_tag =
     (let c = first_char (st_name (c_settings (fep_config fep)))
      in if c = CHR ''F'' then (0, class_tag OR FUTURE)
         else if c = CHR ''O'' then (0, class_tag OR OPTION)
         else if c = CHR ''S'' then (0, class_tag OR SPREAD)
         else if c = CHR ''E'' then (0, class_tag OR STOCK)
         else if c = CHR ''N'' then (0, class_tag OR WAREHOUSE)
         else (-1, class_tag))"

definition old_trade_class :: "bytes \<Rightarrow> u32 \<Rightarrow> int \<times> u32" where
  "old_trade_class msgb class_tag =
     (let trxc = cstr (slice msgb 0 OLD_TRXC_SIZE)
      in if strcmp trxc ''T60'' = 0 then
           (if has class_tag LME then (0, class_tag OR OFFI) else (0, class_tag OR STATUS))
         else if strcmp trxc ''T21'' = 0 then (0, class_tag OR QUOTE)
         else if strcmp trxc ''T24'' = 0 then (0, class_tag OR CANCEL)
         else if strcmp trxc ''T40'' = 0 then (0, class_tag OR SETTLE)
         else if strcmp trxc ''T41'' = 0 then (0, class_tag OR CLOSE)
         else if strcmp trxc ''T50'' = 0 then (0, class_tag OR OINT)
         else if strcmp trxc ''T31'' = 0 then (0, class_tag OR DEPTH)
         else if strcmp trxc ''T80'' = 0 then (0, class_tag OR FND)
         else if strcmp trxc ''T52'' = 0 then (0, class_tag OR MAVG)
         else if strcmp trxc ''T62'' = 0 then (0, class_tag OR WARE)
         else if strcmp trxc ''T63'' = 0 then (0, class_tag OR VOLM)
         else (-1, class_tag))"

text \<open>\<^verbatim>\<open>mon_classify\<close>: starts from the tag it is given and adds flags, also when it fails.\<close>

definition mon_classify :: "FEP \<Rightarrow> PORT \<Rightarrow> bytes \<Rightarrow> u32 \<Rightarrow> int \<times> u32" where
  "mon_classify fep port msgb class_tag =
     (let exchange_name = st_name (c_settings (fep_config fep));
          tag = (if strcmp (cstr msgb) NOT_RECEIVED = 0 then class_tag OR NONE else class_tag);
          tag = (if strcmp exchange_name ''FLME'' = 0 \<or> strcmp exchange_name ''NLME'' = 0 \<or>
                    strcmp exchange_name ''SLME'' = 0 then tag OR LME else tag)
      in if strcmp (p_format port) ''OLD'' = 0 then
           (if strcmp (p_type port) ''M'' = 0 then old_master_class fep (tag OR OLD_FORMAT OR MASTER)
            else if strcmp (p_type port) ''T'' = 0 then
              old_trade_class msgb (tag OR OLD_FORMAT OR TRADE)
            else (-1, tag OR OLD_FORMAT))
         else if strcmp (p_format port) ''EXT'' = 0 then (0, tag OR EXT_FORMAT)
         else (-1, tag))"

subsection \<open>Flags\<close>

lemma has_0 [simp]: "\<not> has 0 flag"
  by (simp add: has_def)

lemma has_or [simp]: "has (a OR b) flag \<longleftrightarrow> has a flag \<or> has b flag"
  by (auto simp: has_def bit.conj_disj_distrib2 or_eq_0_iff)

lemmas has_flag = has_def class_flags

subsection \<open>What the classes mean\<close>

text \<open>The transaction codes of the OLD feed, with the flag each of them stands for.\<close>

definition trxc_class :: "bool \<Rightarrow> string \<Rightarrow> u32 option" where
  "trxc_class lme trxc = map_of
     [(''T60'', if lme then OFFI else STATUS), (''T21'', QUOTE), (''T24'', CANCEL),
      (''T40'', SETTLE), (''T41'', CLOSE), (''T50'', OINT), (''T31'', DEPTH), (''T80'', FND),
      (''T52'', MAVG), (''T62'', WARE), (''T63'', VOLM)] trxc"

lemma old_trade_class_eq:
  "old_trade_class msgb tag =
     (case trxc_class (has tag LME) (cstr (slice msgb 0 OLD_TRXC_SIZE)) of
        Some flag \<Rightarrow> (0, tag OR flag) | None \<Rightarrow> (-1, tag))"
  by (simp add: old_trade_class_def trxc_class_def Let_def)

definition is_lme :: "FEP \<Rightarrow> bool" where
  "is_lme fep \<longleftrightarrow> st_name (c_settings (fep_config fep)) \<in> {''FLME'', ''NLME'', ''SLME''}"

text \<open>The flags a message gets before its kind of data is looked at.\<close>

definition base_tag :: "FEP \<Rightarrow> bytes \<Rightarrow> u32" where
  "base_tag fep msgb =
     (if cstr msgb = NOT_RECEIVED then NONE else 0) OR (if is_lme fep then LME else 0)"

lemma mon_classify_eq:
  "mon_classify fep port msgb 0 =
     (if p_format port = ''OLD'' then
        (if p_type port = ''M'' then old_master_class fep (base_tag fep msgb OR OLD_FORMAT OR MASTER)
         else if p_type port = ''T'' then
           old_trade_class msgb (base_tag fep msgb OR OLD_FORMAT OR TRADE)
         else (-1, base_tag fep msgb OR OLD_FORMAT))
      else if p_format port = ''EXT'' then (0, base_tag fep msgb OR EXT_FORMAT)
      else (-1, base_tag fep msgb))"
proof -
  have "(let tag = (if strcmp (cstr msgb) NOT_RECEIVED = 0 then 0 OR NONE else 0);
             tag = (if strcmp name ''FLME'' = 0 \<or> strcmp name ''NLME'' = 0 \<or> strcmp name ''SLME'' = 0
                    then tag OR LME else tag) in tag) = base_tag fep msgb"
    if "name = st_name (c_settings (fep_config fep))" for name
    using that by (simp add: base_tag_def is_lme_def Let_def or.assoc)
  then show ?thesis unfolding mon_classify_def Let_def by (simp add: or.assoc)
qed

lemma base_tag_has [simp]:
  "has (base_tag fep msgb) NONE \<longleftrightarrow> cstr msgb = NOT_RECEIVED"
  "has (base_tag fep msgb) LME \<longleftrightarrow> is_lme fep"
  "\<not> has (base_tag fep msgb) MASTER" "\<not> has (base_tag fep msgb) TRADE"
  "\<not> has (base_tag fep msgb) OLD_FORMAT" "\<not> has (base_tag fep msgb) EXT_FORMAT"
  by (auto simp: base_tag_def) (simp_all add: has_flag)

text \<open>The kinds of trade data: one bit each, none of them shared with another flag.\<close>

definition trade_kinds :: "u32 list" where
  "trade_kinds = [STATUS, QUOTE, CANCEL, SETTLE, CLOSE, OINT, DEPTH, FND, MAVG, OFFI, WARE, VOLM]"

lemma trade_kinds_bits:
  "\<forall>a\<in>set trade_kinds. \<forall>b\<in>set trade_kinds. has a b \<longleftrightarrow> b = a"
  "\<forall>a\<in>set trade_kinds. \<forall>b\<in>{NONE, LME, OLD_FORMAT, EXT_FORMAT, MASTER, TRADE}. \<not> has a b \<and> \<not> has b a"
  by (simp_all add: trade_kinds_def) (simp_all add: has_flag)

lemma trxc_class_kind: "trxc_class lme trxc = Some flag \<Longrightarrow> flag \<in> set trade_kinds"
  by (auto simp: trxc_class_def trade_kinds_def split: if_splits)

lemma classify_trade_port:
  assumes "p_format port = ''OLD''" "p_type port = ''T''"
  shows "mon_classify fep port msgb 0 =
    (case trxc_class (is_lme fep) (cstr (slice msgb 0 OLD_TRXC_SIZE)) of
       Some flag \<Rightarrow> (0, base_tag fep msgb OR OLD_FORMAT OR TRADE OR flag)
     | None \<Rightarrow> (-1, base_tag fep msgb OR OLD_FORMAT OR TRADE))"
proof -
  have "\<not> has OLD_FORMAT LME" "\<not> has TRADE LME" by (simp_all add: has_flag)
  with assms show ?thesis
    by (simp add: mon_classify_eq old_trade_class_eq or.assoc split: option.split)
qed

lemma trade_tag_has:
  assumes "flag \<in> set trade_kinds" and "kind \<in> set trade_kinds"
  shows "has (base_tag fep msgb OR OLD_FORMAT OR TRADE OR flag) kind \<longleftrightarrow> kind = flag"
    and "\<not> has (base_tag fep msgb OR OLD_FORMAT OR TRADE OR flag) MASTER"
    and "has (base_tag fep msgb OR OLD_FORMAT OR TRADE OR flag) TRADE"
    and "has (base_tag fep msgb OR OLD_FORMAT OR TRADE OR flag) OLD_FORMAT"
    and "has (base_tag fep msgb OR OLD_FORMAT OR TRADE OR flag) LME \<longleftrightarrow> is_lme fep"
    and "has (base_tag fep msgb OR OLD_FORMAT OR TRADE OR flag) NONE \<longleftrightarrow> cstr msgb = NOT_RECEIVED"
proof -
  have "\<not> has (base_tag fep msgb) kind"
    using assms(2) trade_kinds_bits(2) by (simp add: base_tag_def)
  then show "has (base_tag fep msgb OR OLD_FORMAT OR TRADE OR flag) kind \<longleftrightarrow> kind = flag"
    using assms trade_kinds_bits by simp
  have "\<not> has OLD_FORMAT LME" "\<not> has TRADE LME" "\<not> has OLD_FORMAT MASTER" "\<not> has TRADE MASTER"
    "\<not> has OLD_FORMAT NONE" "\<not> has TRADE NONE" "has OLD_FORMAT OLD_FORMAT" "has TRADE TRADE"
    by (simp_all add: has_flag)
  with assms trade_kinds_bits(2)
  show "\<not> has (base_tag fep msgb OR OLD_FORMAT OR TRADE OR flag) MASTER"
    "has (base_tag fep msgb OR OLD_FORMAT OR TRADE OR flag) TRADE"
    "has (base_tag fep msgb OR OLD_FORMAT OR TRADE OR flag) OLD_FORMAT"
    "has (base_tag fep msgb OR OLD_FORMAT OR TRADE OR flag) LME \<longleftrightarrow> is_lme fep"
    "has (base_tag fep msgb OR OLD_FORMAT OR TRADE OR flag) NONE \<longleftrightarrow> cstr msgb = NOT_RECEIVED"
    by simp_all
qed

text \<open>
  The silence message on a trade port. When a port has been silent for its interval the
  receiver hands on the fixed string \<open>NOT_RECEIVED\<close>. On a trade port of the OLD feed that text is put
  to the table of transaction codes like any message, and its first three letters are none of them:
  it is refused, so nothing behind the classification ever learns of the silence.
\<close>

theorem silence_refused_on_trade_port:
  assumes "p_format port = ''OLD''" "p_type port = ''T''"
  shows "fst (mon_classify fep port (NOT_RECEIVED @ replicate n NUL) 0) = -1"
proof -
  have "slice (NOT_RECEIVED @ replicate n NUL) 0 OLD_TRXC_SIZE = ''DAK''"
    by (simp add: slice_eq NOT_RECEIVED_def OLD_TRXC_SIZE_def)
  then show ?thesis by (simp add: classify_trade_port [OF assms] trxc_class_def)
qed

theorem silence_refused_on_trade_port_witness:
  "fst (mon_classify (fep0 4) port0 (NOT_RECEIVED @ replicate 3 NUL) 0) = -1"
  by (rule silence_refused_on_trade_port) (simp_all add: port0_def)

text \<open>
  What a class says. A message from a trade port of the OLD feed is classed exactly when it
  starts with one of the eleven transaction codes; the flags are then the format, \<open>TRADE\<close>, the kind
  of that code (\<open>T60\<close> means official prices on the three LME processes and a market status on all
  others), \<open>LME\<close> on those processes, and no \<open>MASTER\<close>.
\<close>

theorem trade_port_class:
  assumes "p_format port = ''OLD''" "p_type port = ''T''"
  shows "case trxc_class (is_lme fep) (cstr (slice msgb 0 OLD_TRXC_SIZE)) of
      None \<Rightarrow> fst (mon_classify fep port msgb 0) = -1
    | Some flag \<Rightarrow> (let tag = snd (mon_classify fep port msgb 0)
        in fst (mon_classify fep port msgb 0) = 0 \<and> has tag OLD_FORMAT \<and> has tag TRADE \<and>
           (has tag LME \<longleftrightarrow> is_lme fep) \<and> \<not> has tag MASTER \<and>
           (\<forall>kind\<in>set trade_kinds. has tag kind \<longleftrightarrow> kind = flag))"
proof (cases "trxc_class (is_lme fep) (cstr (slice msgb 0 OLD_TRXC_SIZE))")
  case None
  then show ?thesis by (simp add: classify_trade_port [OF assms])
next
  case (Some flag)
  then have flag: "flag \<in> set trade_kinds" by (rule trxc_class_kind)
  with Some show ?thesis
    using trade_tag_has [OF flag] by (simp add: classify_trade_port [OF assms] Let_def)
qed

theorem trade_port_class_witness:
  "has (snd (mon_classify (fep0 4) port0 (''T60'' @ replicate 5 CHR '' '') 0)) STATUS \<and>
   \<not> has (snd (mon_classify (fep0 4) port0 (''T60'' @ replicate 5 CHR '' '') 0)) OFFI"
proof -
  have "cstr (slice (''T60'' @ replicate 5 CHR '' '') 0 OLD_TRXC_SIZE) = ''T60''"
    by (simp add: slice_eq OLD_TRXC_SIZE_def)
  moreover have "\<not> is_lme (fep0 4)" by (simp add: is_lme_def cleared_defs)
  moreover have "STATUS \<noteq> OFFI" "STATUS \<in> set trade_kinds" "OFFI \<in> set trade_kinds"
    by (simp_all add: class_flags trade_kinds_def)
  ultimately show ?thesis
    using trade_port_class [of port0 "fep0 4" "''T60'' @ replicate 5 CHR '' ''"]
    by (simp add: trxc_class_def Let_def port0_def)
qed

end
