(* ===== verification/RecvCheck.thy ===== *)
theory RecvCheck
  imports Environment MonClass
begin

unbundle bit_operations_syntax

text \<open>
  Watching for silence: \<^verbatim>\<open>src/mon/moncheck.c\<close> with the holiday test of
  \<^verbatim>\<open>src/lib/main/time.c\<close>. Every message, the silence message included, is checked against
  the reception windows of its port: in a window three alerts at most are sent for a silent trade
  port, and a master port that stays silent is reported when its window ends.

  The three
  states of \<^verbatim>\<open>trade_status\<close> and \<^verbatim>\<open>master_status\<close> are the numbers of the source. The text of
  the recovery alert prints a \<^verbatim>\<open>double\<close> through \<^verbatim>\<open>%ld\<close>, so the number in it is arbitrary; the model
  keeps the difference that is meant.
\<close>

subsection \<open>Holidays (\<^verbatim>\<open>time.c\<close>)\<close>

definition false_holiday :: "HOLIDAY \<Rightarrow> HOLIDAY" where
  "false_holiday h = h\<lparr>h_is_holiday := 0, h_name := []\<rparr>"

definition true_holiday :: "HOLIDAY \<Rightarrow> string \<Rightarrow> HOLIDAY" where
  "true_holiday h name = h\<lparr>h_is_holiday := 1, h_name := name\<rparr>"

definition set_holiday :: "(HOLIDAY \<Rightarrow> HOLIDAY) \<Rightarrow> FEP \<Rightarrow> FEP" where
  "set_holiday g fep = fep\<lparr>fep_arch := (fep_arch fep)\<lparr>a_holiday := g (a_holiday (fep_arch fep))\<rparr>\<rparr>"

definition HOLIDAY_LINE :: nat where
  "HOLIDAY_LINE = 127"

definition fep_holiday :: "ENV \<Rightarrow> TM \<Rightarrow> FEP \<Rightarrow> (int \<times> FEP) option" where
  "fep_holiday env tm fep =
     (if strcmp (h_date (a_holiday (fep_arch fep))) (tm_date tm) = 0 then Some (0, fep)
      else
        let fep1 = set_holiday (\<lambda>h. h\<lparr>h_is_alert := 0, h_date := tm_date tm\<rparr>) fep
        in case e_holiday env (drop 1 (fep_exnm fep)) (tm_wday tm) of
             NoFile \<Rightarrow> Some (-1, set_holiday false_holiday
               (fep_log fep1 FL_ERROR ''fep_holiday'' (Text ''There is no file'')))
           | Unreadable \<Rightarrow> Some (-1, set_holiday false_holiday
               (fep_log fep1 FL_ERROR ''fep_holiday'' (Text ''Cannot open file'')))
           | EmptyFile \<Rightarrow> None
           | FirstLine line \<Rightarrow>
               let holiday_name = cstr (take HOLIDAY_LINE line)
               in Some (0, if length holiday_name > 0
                           then set_holiday (\<lambda>h. true_holiday h holiday_name) fep1
                           else set_holiday false_holiday fep1))"

subsection \<open>Reception check (\<^verbatim>\<open>moncheck.c\<close>)\<close>

definition MAX_ALERT :: int where "MAX_ALERT = 3"
definition DEFAULT_RECEIVE_FLAG :: int where "DEFAULT_RECEIVE_FLAG = 0"
definition NOT_RECEIVE_FLAG :: int where "NOT_RECEIVE_FLAG = 1"
definition RECEIVE_FLAG :: int where "RECEIVE_FLAG = 2"

lemmas recv_flags = DEFAULT_RECEIVE_FLAG_def NOT_RECEIVE_FLAG_def RECEIVE_FLAG_def

definition is_check_time :: "PORT \<Rightarrow> TM \<Rightarrow> int" where
  "is_check_time port tm =
     (if p_recv_switch port (1440 * tm_wday tm + 60 * tm_hour tm + tm_min tm) \<noteq> 0 then 1 else 0)"

text \<open>The member values at the end of the branch outside a window.\<close>

definition reset_port :: "time_t \<Rightarrow> PORT \<Rightarrow> PORT" where
  "reset_port current port = port\<lparr>p_last_received := current,
     p_trade_status := DEFAULT_RECEIVE_FLAG, p_master_status := DEFAULT_RECEIVE_FLAG,
     p_alert_count := 0\<rparr>"

definition not_received :: "FEP \<Rightarrow> PORT \<Rightarrow> u32 \<Rightarrow> time_t \<Rightarrow> TM \<Rightarrow> (int \<times> PORT \<times> FEP) option" where
  "not_received fep port class_tag current tm =
     (if is_check_time port tm = 1 then
        if has class_tag MASTER then
          if p_master_status port = RECEIVE_FLAG then Some (0, port, fep)
          else Some (0, port\<lparr>p_master_status := NOT_RECEIVE_FLAG\<rparr>, fep)
        else
          let port1 = port\<lparr>p_trade_status := NOT_RECEIVE_FLAG\<rparr>;
              diff = current - p_last_received port1
          in if p_alert_count port1 < MAX_ALERT then
               map_option (\<lambda>fep1. (0, port1\<lparr>p_alert_count := p_alert_count port1 + 1\<rparr>, fep1))
                 (mon_send_cmefnd fep port1 (NoDataFor diff) 1)
             else Some (0, port1, fep)
      else
        map_option (\<lambda>fep1. (0, reset_port current port, fep1))
          (if has class_tag MASTER \<and> p_master_status port = NOT_RECEIVE_FLAG
           then mon_send_cmefnd fep port MasterMissing 1 else Some fep))"

definition received :: "FEP \<Rightarrow> PORT \<Rightarrow> u32 \<Rightarrow> time_t \<Rightarrow> TM \<Rightarrow> (int \<times> PORT \<times> FEP) option" where
  "received fep port class_tag current tm =
     (if is_check_time port tm = 1 then
        if has class_tag MASTER then
          Some (0, port\<lparr>p_master_status := RECEIVE_FLAG, p_alert_count := 0,
                        p_last_received := current\<rparr>, fep)
        else
          map_option
            (\<lambda>fep1. (0, port\<lparr>p_trade_status := RECEIVE_FLAG, p_alert_count := 0,
                             p_last_received := current\<rparr>, fep1))
            (if p_trade_status port = NOT_RECEIVE_FLAG
             then mon_send_cmefnd fep port (DataRecovered (current - p_last_received port)) 1
             else Some fep)
      else Some (0, reset_port current port, fep))"

definition mon_recv_check :: "ENV \<Rightarrow> FEP \<Rightarrow> PORT \<Rightarrow> u32 \<Rightarrow> (int \<times> PORT \<times> FEP) option" where
  "mon_recv_check env fep port class_tag =
     (case e_tm env of
        None \<Rightarrow> Some (-1, port, fep_log fep FL_ERROR ''mon_recv_check'' (Text ''Cannot get the current time''))
      | Some tm \<Rightarrow>
          (case fep_holiday env tm fep of
             None \<Rightarrow> None
           | Some (r, fep1) \<Rightarrow>
               let holiday = a_holiday (fep_arch fep1)
               in if h_is_holiday holiday \<noteq> 0 then
                    Some (0, port,
                      if h_is_alert holiday = 0 then
                        fep_log (set_holiday (\<lambda>h. h\<lparr>h_is_alert := 1\<rparr>) fep1) FL_MUST
                          ''mon_recv_check'' (Text (h_name holiday))
                      else fep1)
                  else
                    map_option (\<lambda>(r, port1, fep2). (0, port1, fep2))
                      (if has class_tag NONE then not_received fep1 port class_tag (e_now env) tm
                       else received fep1 port class_tag (e_now env) tm)))"

subsection \<open>Facts on a single check\<close>

lemma send_fixed_alert [simp]:
  "mon_send_cmefnd fep port (NoDataFor d) flag = Some (send_alert port flag (NoDataFor d) fep)"
  "mon_send_cmefnd fep port (DataRecovered d) flag = Some (send_alert port flag (DataRecovered d) fep)"
  "mon_send_cmefnd fep port MasterMissing flag = Some (send_alert port flag MasterMissing fep)"
  by (simp_all add: mon_send_cmefnd_def alert_fits_def alert_line_def)

text \<open>The port keeps its configuration, the process everything but its holiday and its output.\<close>

definition port_config :: "PORT \<Rightarrow> PORT" where
  "port_config p = p\<lparr>p_last_received := 0, p_trade_status := 0, p_master_status := 0,
     p_alert_count := 0\<rparr>"

definition fep_static :: "FEP \<Rightarrow> FEP" where
  "fep_static fep = set_holiday (\<lambda>_. a_holiday (arch0 0)) (fep\<lparr>fep_out := []\<rparr>)"

lemma quiet_static: "quiet fep fep' \<Longrightarrow> fep_static fep' = fep_static fep"
  by (auto simp: quiet_def fep_static_def set_holiday_def)

lemma static_send_alert [simp]: "fep_static (send_alert port flag m fep) = fep_static fep"
  by (rule quiet_static) simp

lemma static_fep_log [simp]: "fep_static (fep_log fep l c m) = fep_static fep"
  by (rule quiet_static) simp

lemma static_set_holiday [simp]: "fep_static (set_holiday g fep) = fep_static fep"
  by (simp add: fep_static_def set_holiday_def)

lemma fep_holiday_static: "fep_holiday env tm fep = Some (r, fep') \<Longrightarrow> fep_static fep' = fep_static fep"
  by (auto simp: fep_holiday_def Let_def split: if_splits holiday_file.splits)

lemma port_config_simps [simp]:
  "port_config (reset_port t p) = port_config p"
  "port_config (p\<lparr>p_master_status := m\<rparr>) = port_config p"
  "port_config (p\<lparr>p_trade_status := m\<rparr>) = port_config p"
  "port_config (p\<lparr>p_alert_count := c\<rparr>) = port_config p"
  "port_config (p\<lparr>p_last_received := t\<rparr>) = port_config p"
  by (simp_all add: port_config_def reset_port_def)

lemma not_received_static:
  "not_received fep port tag t tm = Some (r, port', fep') \<Longrightarrow>
   fep_static fep' = fep_static fep \<and> port_config port' = port_config port \<and>
   fep_arch fep' = fep_arch fep"
  by (auto simp: not_received_def Let_def quietD [OF quiet_send_alert] split: if_splits)

lemma received_static:
  "received fep port tag t tm = Some (r, port', fep') \<Longrightarrow>
   fep_static fep' = fep_static fep \<and> port_config port' = port_config port \<and>
   fep_arch fep' = fep_arch fep"
  by (auto simp: received_def Let_def quietD [OF quiet_send_alert] split: if_splits)

lemma mon_recv_check_static:
  assumes "mon_recv_check env fep port tag = Some (r, port', fep')"
  shows "fep_static fep' = fep_static fep \<and> port_config port' = port_config port"
  using assms fep_holiday_static [of env _ fep]
  by (auto simp: mon_recv_check_def Let_def dest!: not_received_static received_static
      split: option.splits if_splits)

lemma static_table:
  assumes "fep_static fep' = fep_static fep"
  shows "table_ok fep' = table_ok fep" "folder_map fep' = folder_map fep"
    "vrec fep' = vrec fep" "mrec fep' = mrec fep" "fep_config fep' = fep_config fep"
    "a_mstr_flag (fep_arch fep') = a_mstr_flag (fep_arch fep)"
    "a_mstr_update (fep_arch fep') = a_mstr_update (fep_arch fep)" "live fep' = live fep"
proof -
  from assms have eq: "fep_fold fep' = fep_fold fep" "fep_attached fep' = fep_attached fep"
    "fep_config fep' = fep_config fep"
    "(fep_arch fep')\<lparr>a_holiday := a_holiday (arch0 0)\<rparr> = (fep_arch fep)\<lparr>a_holiday := a_holiday (arch0 0)\<rparr>"
    by (auto simp: fep_static_def set_holiday_def dest: arg_cong [where f = fep_fold]
        arg_cong [where f = fep_attached] arg_cong [where f = fep_arch] arg_cong [where f = fep_config])
  from arg_cong [OF eq(4), of a_vrec] arg_cong [OF eq(4), of a_mrec]
    arg_cong [OF eq(4), of a_mstr_flag] arg_cong [OF eq(4), of a_mstr_update]
  have "vrec fep' = vrec fep" "mrec fep' = mrec fep"
    "a_mstr_flag (fep_arch fep') = a_mstr_flag (fep_arch fep)"
    "a_mstr_update (fep_arch fep') = a_mstr_update (fep_arch fep)" by simp_all
  with eq show "table_ok fep' = table_ok fep" "folder_map fep' = folder_map fep"
    "vrec fep' = vrec fep" "mrec fep' = mrec fep" "fep_config fep' = fep_config fep"
    "a_mstr_flag (fep_arch fep') = a_mstr_flag (fep_arch fep)"
    "a_mstr_update (fep_arch fep') = a_mstr_update (fep_arch fep)" "live fep' = live fep"
    by (simp_all add: table_ok_def folder_map_def live_def)
qed

lemma recv_check_defined:
  assumes "\<And>wday. e_holiday env (drop 1 (fep_exnm fep)) wday \<noteq> EmptyFile"
  shows "mon_recv_check env fep port tag \<noteq> None"
proof -
  have "fep_holiday env tm fep \<noteq> None" for tm
    using assms [of "tm_wday tm"]
    by (auto simp: fep_holiday_def Let_def split: holiday_file.split)
  then show ?thesis
    by (cases "e_tm env")
      (fastforce simp: mon_recv_check_def not_received_def received_def Let_def split: option.split)+
qed

lemma check_without_time: "e_tm env = None \<Longrightarrow> mon_recv_check env fep port tag = Some (r, p, f) \<Longrightarrow> r = -1"
  by (simp add: mon_recv_check_def)

lemma check_answer: "mon_recv_check env fep port tag = Some (r, p, f) \<Longrightarrow> e_tm env \<noteq> None \<Longrightarrow> r = 0"
  by (auto simp: mon_recv_check_def Let_def split: option.splits if_splits)

lemma static_exnm: "fep_static fep' = fep_static fep \<Longrightarrow> fep_exnm fep' = fep_exnm fep"
  by (auto simp: fep_static_def set_holiday_def dest: arg_cong [where f = fep_exnm])

subsection \<open>Runs of checks\<close>

text \<open>What has been handed to the alert server so far.\<close>

definition alerts :: "FEP \<Rightarrow> alert_text list" where
  "alerts fep = concat (map (\<lambda>e. case e of EvAlert m \<Rightarrow> [m] | _ \<Rightarrow> []) (fep_out fep))"

lemma alerts_log [simp]: "alerts (fep_log fep l c m) = alerts fep"
  by (simp add: alerts_def fep_log_def)

lemma alerts_set_holiday [simp]: "alerts (set_holiday g fep) = alerts fep"
  by (simp add: alerts_def set_holiday_def)

lemma alerts_send:
  "alerts (send_alert port flag m fep) =
   alerts fep @ (if flag = 0 \<or> \<not> p_alert port then [] else [alert_line fep port m])"
  by (auto simp: send_alert_def Let_def fep_log_def alerts_def)

lemma fep_holiday_alerts: "fep_holiday env tm fep = Some (r, fep') \<Longrightarrow> alerts fep' = alerts fep"
  by (auto simp: fep_holiday_def Let_def split: if_splits holiday_file.splits)

text \<open>One port, checked for one message after another.\<close>

inductive checks :: "PORT \<times> FEP \<Rightarrow> PORT \<times> FEP \<Rightarrow> bool" where
  start: "checks s s"
| check: "checks s (port, fep) \<Longrightarrow> mon_recv_check env fep port tag = Some (r, port', fep') \<Longrightarrow>
    checks s (port', fep')"

inductive_cases checksE: "checks s (port, fep)"

definition port_ok :: "PORT \<Rightarrow> bool" where
  "port_ok p \<longleftrightarrow> 0 \<le> p_alert_count p \<and> p_alert_count p \<le> MAX_ALERT \<and>
     p_trade_status p \<in> {DEFAULT_RECEIVE_FLAG, NOT_RECEIVE_FLAG, RECEIVE_FLAG} \<and>
     p_master_status p \<in> {DEFAULT_RECEIVE_FLAG, NOT_RECEIVE_FLAG, RECEIVE_FLAG} \<and>
     (0 < p_alert_count p \<longrightarrow> p_trade_status p = NOT_RECEIVE_FLAG)"

lemma not_received_ok:
  "port_ok port \<Longrightarrow> not_received fep port tag t tm = Some (r, port', fep') \<Longrightarrow> port_ok port'"
  unfolding not_received_def Let_def
  by (simp split: if_splits; clarsimp simp: port_ok_def reset_port_def recv_flags MAX_ALERT_def)

lemma received_ok:
  "port_ok port \<Longrightarrow> received fep port tag t tm = Some (r, port', fep') \<Longrightarrow> port_ok port'"
  by (auto simp: received_def Let_def port_ok_def reset_port_def recv_flags MAX_ALERT_def
      split: if_splits)

lemma mon_recv_check_ok [inv_pres]:
  "port_ok port \<Longrightarrow> mon_recv_check env fep port tag = Some (r, port', fep') \<Longrightarrow> port_ok port'"
  by (auto simp: mon_recv_check_def Let_def dest: not_received_ok received_ok
      split: option.splits if_splits)

text \<open>
  The states of a port. Through any run of reception checks a port stays in one of its states:
  both status members hold one of the three flags, the number of alerts lies between 0 and 3, and it
  is above 0 only while the port counts as silent. The configuration of the port and the folder table
  are not touched.
\<close>

theorem checks_keep_port:
  assumes "checks (port, fep) (port', fep')" and "port_ok port"
  shows "port_ok port' \<and> port_config port' = port_config port \<and> folder_map fep' = folder_map fep \<and>
    table_ok fep' = table_ok fep"
proof -
  have "port_ok (fst s') \<and> port_config (fst s') = port_config (fst s) \<and>
      fep_static (snd s') = fep_static (snd s)" if "checks s s'" "port_ok (fst s)" for s s'
    using that
  proof (induction rule: checks.induct)
    case (check s port fep env tag r port' fep')
    then show ?case
      using mon_recv_check_ok [OF _ check.hyps(2)] mon_recv_check_static [OF check.hyps(2)] by simp
  qed simp
  note all = this [OF assms(1)]
  with assms(2) have st: "fep_static fep' = fep_static fep" by simp
  from all assms(2) static_table(1,2) [OF st] show ?thesis by simp
qed

definition demo_env :: ENV where
  "demo_env = \<lparr> e_now = 100,
     e_tm = Some \<lparr> tm_wday = 1, tm_hour = 9, tm_min = 30, tm_date = ''20240304'' \<rparr>,
     e_holiday = (\<lambda>_ _. NoFile), e_log_dir = ''/log'', e_access = (\<lambda>_. False),
     e_mkdir = (\<lambda>_. Made), e_mtime = (\<lambda>_. None), e_fopen = (\<lambda>_. True),
     e_readdir = (\<lambda>_. Some []), e_remove = (\<lambda>_. True) \<rparr>"

definition watched :: PORT where
  "watched = port0\<lparr>p_recv_switch := (\<lambda>_. 1)\<rparr>"

theorem checks_keep_port_witness:
  "\<exists>port' fep'. checks (watched, fep0 4) (port', fep') \<and> p_alert_count port' = 1 \<and> port_ok port'"
proof -
  have flags: "has NONE NONE" "\<not> has NONE MASTER" by (simp_all add: has_flag)
  obtain port' fep' r where
    run: "mon_recv_check demo_env (fep0 4) watched NONE = Some (r, port', fep')"
    and "p_alert_count port' = 1"
    by (simp add: mon_recv_check_def demo_env_def fep_holiday_def not_received_def is_check_time_def
        watched_def cleared_defs set_holiday_def false_holiday_def fep_log_def flags MAX_ALERT_def)
  have step: "checks (watched, fep0 4) (port', fep')"
    by (rule checks.check [OF checks.start run])
  have "port_ok watched" by (simp add: port_ok_def watched_def port0_def recv_flags MAX_ALERT_def)
  from checks_keep_port [OF step this] step \<open>p_alert_count port' = 1\<close> show ?thesis by blast
qed

text \<open>A port watched for a list of messages, each with its environment and class.\<close>

fun watch :: "(ENV \<times> u32) list \<Rightarrow> PORT \<times> FEP \<Rightarrow> (PORT \<times> FEP) option" where
  "watch [] s = Some s"
| "watch ((env, tag) # ms) (port, fep) =
     (case mon_recv_check env fep port tag of
        None \<Rightarrow> None
      | Some (r, s') \<Rightarrow> watch ms s')"

definition on_trading_day :: "FEP \<Rightarrow> TM \<Rightarrow> bool" where
  "on_trading_day fep tm \<longleftrightarrow> h_date (a_holiday (fep_arch fep)) = tm_date tm \<and>
     h_is_holiday (a_holiday (fep_arch fep)) = 0"

lemma check_on_trading_day:
  assumes "e_tm env = Some tm" and "on_trading_day fep tm"
  shows "mon_recv_check env fep port tag =
    map_option (\<lambda>(r, port1, fep2). (0, port1, fep2))
      (if has tag NONE then not_received fep port tag (e_now env) tm
       else received fep port tag (e_now env) tm)"
  using assms by (simp add: mon_recv_check_def fep_holiday_def on_trading_day_def)

text \<open>A silence message of a trade port inside a window, on a day already known to be open.\<close>

definition silent_in_window :: "PORT \<Rightarrow> FEP \<Rightarrow> ENV \<times> u32 \<Rightarrow> bool" where
  "silent_in_window port fep m \<longleftrightarrow>
     (case e_tm (fst m) of
        None \<Rightarrow> False
      | Some tm \<Rightarrow> has (snd m) NONE \<and> \<not> has (snd m) MASTER \<and> on_trading_day fep tm \<and>
          is_check_time port tm = 1)"

lemma silent_check:
  assumes sil: "silent_in_window port fep (env, tag)" and al: "p_alert port"
  shows "\<exists>port' fep'. mon_recv_check env fep port tag = Some (0, port', fep') \<and>
    p_recv_switch port' = p_recv_switch port \<and> p_alert port' \<and> fep_arch fep' = fep_arch fep \<and>
    (if p_alert_count port < MAX_ALERT
     then p_alert_count port' = p_alert_count port + 1 \<and> length (alerts fep') = length (alerts fep) + 1
     else p_alert_count port' = p_alert_count port \<and> alerts fep' = alerts fep)"
proof -
  from sil obtain tm where tm: "e_tm env = Some tm" "has tag NONE" "\<not> has tag MASTER"
    "on_trading_day fep tm" "is_check_time port tm = 1"
    by (auto simp: silent_in_window_def split: option.splits)
  with al show ?thesis
    by (simp add: check_on_trading_day not_received_def Let_def alerts_send
        quietD [OF quiet_send_alert])
qed

text \<open>
  Three alerts, no more. On an open day a silent trade port inside its window causes, for any
  number of silence messages in a row, as many alerts as there are messages, but at most three counted
  from its last reset; the run is always defined.
\<close>

theorem at_most_three_alerts:
  assumes "0 \<le> p_alert_count port" and "p_alert port"
    and "\<forall>m\<in>set ms. silent_in_window port fep m"
  shows "\<exists>port' fep'. watch ms (port, fep) = Some (port', fep') \<and>
    length (alerts fep') =
      length (alerts fep) + min (length ms) (nat (MAX_ALERT - p_alert_count port))"
  using assms
proof (induction ms arbitrary: port fep)
  case (Cons m ms)
  obtain env tag where m: "m = (env, tag)" by (cases m)
  from Cons.prems m obtain port1 fep1 where
    run: "mon_recv_check env fep port tag = Some (0, port1, fep1)" "p_recv_switch port1 = p_recv_switch port"
      "p_alert port1" "fep_arch fep1 = fep_arch fep" and
    count: "if p_alert_count port < MAX_ALERT
     then p_alert_count port1 = p_alert_count port + 1 \<and> length (alerts fep1) = length (alerts fep) + 1
     else p_alert_count port1 = p_alert_count port \<and> alerts fep1 = alerts fep"
    using silent_check [of port fep env tag] by auto
  have "is_check_time port1 = is_check_time port" "on_trading_day fep1 = on_trading_day fep"
    using run by (auto simp: is_check_time_def on_trading_day_def)
  then have "silent_in_window port1 fep1 x = silent_in_window port fep x" for x
    by (simp add: silent_in_window_def split: option.split)
  with Cons.prems count have "0 \<le> p_alert_count port1" "\<forall>x\<in>set ms. silent_in_window port1 fep1 x"
    by (auto split: if_splits)
  from Cons.IH [OF this(1) run(3) this(2)] run(1) count show ?case
    by (auto simp: m split: if_splits)
qed simp

definition trading_day :: FEP where
  "trading_day = set_holiday (\<lambda>h. h\<lparr>h_date := ''20240304''\<rparr>) (fep0 4)"

definition demo_tm :: "nat \<Rightarrow> nat \<Rightarrow> TM" where
  "demo_tm h m = \<lparr> tm_wday = 1, tm_hour = h, tm_min = m, tm_date = ''20240304'' \<rparr>"

definition demo_at :: "nat \<Rightarrow> nat \<Rightarrow> ENV" where
  "demo_at h m = demo_env\<lparr>e_tm := Some (demo_tm h m)\<rparr>"

text \<open>A port with a window that ends at 16:00 on Monday.\<close>

definition day_port :: PORT where
  "day_port = port0\<lparr>p_recv_switch := (\<lambda>i. if i < 2400 then 1 else 0)\<rparr>"

theorem at_most_three_alerts_witness:
  "\<exists>port' fep'. watch (replicate 5 (demo_env, NONE)) (watched, trading_day) = Some (port', fep') \<and>
     length (alerts fep') = 3"
proof -
  have flags: "has NONE NONE" "\<not> has NONE MASTER" by (simp_all add: has_flag)
  then have "\<forall>m\<in>set (replicate 5 (demo_env, NONE)). silent_in_window watched trading_day m"
    by (simp add: silent_in_window_def demo_env_def trading_day_def set_holiday_def on_trading_day_def
        is_check_time_def watched_def cleared_defs)
  moreover have "0 \<le> p_alert_count watched" "p_alert watched" "p_alert_count watched = 0"
    "alerts trading_day = []"
    by (simp_all add: watched_def port0_def trading_day_def alerts_def set_holiday_def cleared_defs)
  ultimately show ?thesis
    using at_most_three_alerts [of watched "replicate 5 (demo_env, NONE)" trading_day]
    by (simp add: MAX_ALERT_def)
qed

text \<open>
  A master that never came. On an open day, let a master port be silent inside its window
  without having received anything since its last reset, and let the next check fall outside the
  window: that check reports the missing master once and resets the port, so that further silence
  outside the window reports nothing.
\<close>

theorem missing_master_reported_once:
  assumes tags: "has tag NONE" "has tag MASTER" and al: "p_alert port"
    and tm: "e_tm env1 = Some tm1" "e_tm env2 = Some tm2" "e_tm env3 = Some tm3"
    and day: "on_trading_day fep tm1" "on_trading_day fep tm2" "on_trading_day fep tm3"
    and window: "is_check_time port tm1 = 1" "is_check_time port tm2 = 0" "is_check_time port tm3 = 0"
    and never: "p_master_status port \<noteq> RECEIVE_FLAG"
  shows "\<exists>port' fep'. watch [(env1, tag), (env2, tag), (env3, tag)] (port, fep) = Some (port', fep') \<and>
    alerts fep' = alerts fep @ [MasterMissing] \<and> p_master_status port' = DEFAULT_RECEIVE_FLAG \<and>
    p_last_received port' = e_now env3"
proof -
  have line: "alert_line f p MasterMissing = MasterMissing" for f p by (simp add: alert_line_def)
  have time: "is_check_time (p\<lparr>p_master_status := s\<rparr>) tm = is_check_time p tm"
    "is_check_time (reset_port t p) tm = is_check_time p tm" for p s tm t
    by (simp_all add: is_check_time_def reset_port_def)
  have open_day: "on_trading_day (send_alert p 1 m f) t = on_trading_day f t" for p m f t
    by (simp add: on_trading_day_def quietD [OF quiet_send_alert])
  have reset: "p_master_status (reset_port t p) = DEFAULT_RECEIVE_FLAG"
    "p_last_received (reset_port t p) = t" for t p by (simp_all add: reset_port_def)
  from assms show ?thesis
    by (simp add: check_on_trading_day not_received_def time open_day reset alerts_send line)
      (simp add: recv_flags)
qed

theorem missing_master_reported_once_witness:
  "\<exists>port' fep'. watch [(demo_at 9 30, NONE OR MASTER), (demo_at 20 0, NONE OR MASTER),
      (demo_at 20 5, NONE OR MASTER)] (day_port, trading_day) = Some (port', fep') \<and>
    alerts fep' = [MasterMissing]"
proof -
  have tags: "has (NONE OR MASTER) NONE" "has (NONE OR MASTER) MASTER" by (simp_all add: has_flag)
  have port: "p_alert day_port" "p_master_status day_port \<noteq> RECEIVE_FLAG"
    "is_check_time day_port (demo_tm 9 30) = 1" "is_check_time day_port (demo_tm 20 0) = 0"
    "is_check_time day_port (demo_tm 20 5) = 0"
    by (simp_all add: day_port_def demo_tm_def is_check_time_def port0_def recv_flags)
  have env: "e_tm (demo_at h m) = Some (demo_tm h m)" "on_trading_day trading_day (demo_tm h m)" for h m
    by (simp_all add: demo_at_def demo_tm_def on_trading_day_def trading_day_def set_holiday_def cleared_defs)
  have none: "alerts trading_day = []"
    by (simp add: trading_day_def alerts_def set_holiday_def cleared_defs)
  from missing_master_reported_once [OF tags port(1) env(1) env(1) env(1) env(2) env(2) env(2) port(3-5) port(2)]
  show ?thesis unfolding none append_Nil by blast
qed

end
