(* ===== verification/ConfigSwitch.thy ===== *)
theory ConfigSwitch
  imports RecvCheck
begin

text \<open>
  The reception windows of the configuration, \<^verbatim>\<open>_recv_switch_check\<close> of
  \<^verbatim>\<open>src/lib/main/config.c\<close>, and the log level names. Every port has a table of switches
  by weekday, hour and minute, which the reception check reads; here it is filled from the ranges of
  weekdays and the time windows.

  The table is one block of \<open>7 * 24 * 60\<close> numbers and an element is written at its position in the
  block, so an hour of 24 or more lands in a later day's row, as it does in memory; a position
  outside the block is undefined behaviour (\<open>None\<close>).
\<close>

subsection \<open>Log levels\<close>

definition to_lower :: "char \<Rightarrow> char" where
  "to_lower c = (let n = of_char c :: nat in if 65 \<le> n \<and> n \<le> 90 then char_of (n + 32) else c)"

definition strcasecmp_eq :: "string \<Rightarrow> string \<Rightarrow> bool" where
  "strcasecmp_eq a b \<longleftrightarrow> map to_lower a = map to_lower b"

definition convert_logLevel :: "string \<Rightarrow> int" where
  "convert_logLevel logLevel =
     (if strcasecmp_eq logLevel ''MUST'' then FL_MUST
      else if strcasecmp_eq logLevel ''ERROR'' then FL_ERROR
      else if strcasecmp_eq logLevel ''WARNING'' then FL_WARNING
      else if strcasecmp_eq logLevel ''PROGRESS'' then FL_PROGRESS
      else if strcasecmp_eq logLevel ''DEBUG'' then FL_DEBUG
      else -1)"

subsection \<open>Switches\<close>

definition START_MIN :: int where "START_MIN = 0"
definition END_MIN :: int where "END_MIN = 59"

text \<open>C's division and remainder by 100 of an \<^verbatim>\<open>int\<close>: towards zero.\<close>

definition div100 :: "int \<Rightarrow> int" where
  "div100 x = (if x < 0 then - ((- x) div 100) else x div 100)"

definition mod100 :: "int \<Rightarrow> int" where
  "mod100 x = x - 100 * div100 x"

definition wdaystr :: "string list" where
  "wdaystr = [''Sun'', ''Mon'', ''Tue'', ''Wed'', ''Thu'', ''Fri'', ''Sat'']"

text \<open>The search loop over the names; the last match wins, none leaves -1.\<close>

definition wday_index :: "string \<Rightarrow> int" where
  "wday_index name = foldl (\<lambda>found wday. if strcmp (wdaystr ! wday) name = 0 then int wday else found)
     (-1) [0..<7]"

text \<open>
  The positions one weekday of a time entry writes, in the order of the loops over hours and minutes.
  The row is that of the next weekday.
\<close>

definition minute_slots :: "int \<Rightarrow> TIME \<Rightarrow> int \<Rightarrow> int \<Rightarrow> int \<Rightarrow> int list" where
  "minute_slots wday time start_hour end_hour hour =
     (let start_min = (if hour = start_hour then mod100 (atoi (window_start time)) else START_MIN);
          end_min = (if hour = end_hour then mod100 (atoi (window_end time)) else END_MIN)
      in map (\<lambda>min. 1440 * ((wday + 1) mod 7) + 60 * (if hour > 24 then hour - 24 else hour) + min)
           [start_min..min end_min 59])"

definition wday_slots :: "TIME \<Rightarrow> int \<Rightarrow> int list" where
  "wday_slots time wday =
     (let start_hour = div100 (atoi (window_start time));
          end_hour = div100 (atoi (window_end time));
          end_hour = (if start_hour > end_hour then end_hour + 24 else end_hour)
      in concat (map (minute_slots wday time start_hour end_hour) [start_hour..end_hour]))"

text \<open>All positions of an entry, \<open>None\<close> for a range of weekdays that is refused.\<close>

definition time_slots :: "TIME \<Rightarrow> int list option" where
  "time_slots time =
     (let start_wday = wday_index (wday_start time); end_wday = wday_index (wday_end time)
      in if start_wday = -1 \<or> end_wday = -1 \<or> end_wday < start_wday then None
         else Some (concat (map (wday_slots time) [start_wday..end_wday])))"

definition RECV_SLOTS :: int where
  "RECV_SLOTS = 7 * 24 * 60"

fun switch_on :: "int list \<Rightarrow> (nat \<Rightarrow> int) \<Rightarrow> (nat \<Rightarrow> int) option" where
  "switch_on [] sw = Some sw"
| "switch_on (slot # slots) sw =
     (if 0 \<le> slot \<and> slot < RECV_SLOTS then switch_on slots (sw(nat slot := 1)) else None)"

text \<open>The entries of one port: the result and the table so far.\<close>

fun port_switch :: "TIME list \<Rightarrow> (nat \<Rightarrow> int) \<Rightarrow> (int \<times> (nat \<Rightarrow> int)) option" where
  "port_switch [] sw = Some (0, sw)"
| "port_switch (time # periods) sw =
     (case time_slots time of
        None \<Rightarrow> Some (-1, sw)
      | Some slots \<Rightarrow>
          (case switch_on slots sw of
             None \<Rightarrow> None
           | Some sw' \<Rightarrow> port_switch periods sw'))"

fun ports_switch :: "PORT list \<Rightarrow> (int \<times> PORT list) option" where
  "ports_switch [] = Some (0, [])"
| "ports_switch (port # ports) =
     (case port_switch (take (p_ntime port) (p_times port)) (\<lambda>_. 0) of
        None \<Rightarrow> None
      | Some (r, sw) \<Rightarrow>
          if r = -1 then Some (-1, port\<lparr>p_recv_switch := sw\<rparr> # ports)
          else map_option (\<lambda>(r, ports'). (r, port\<lparr>p_recv_switch := sw\<rparr> # ports')) (ports_switch ports))"

definition recv_switch_check :: "CONFIG \<Rightarrow> (int \<times> CONFIG) option" where
  "recv_switch_check config =
     map_option (\<lambda>(r, ports). (r, config\<lparr>c_ports := ports @ drop (c_nport config) (c_ports config)\<rparr>))
       (ports_switch (take (c_nport config) (c_ports config)))"

subsection \<open>Which minutes a window switches on\<close>

lemma switch_on_Some:
  "switch_on slots sw = Some sw' \<Longrightarrow>
   (\<forall>s\<in>set slots. 0 \<le> s \<and> s < RECV_SLOTS) \<and> sw' = (\<lambda>i. if int i \<in> set slots then 1 else sw i)"
proof (induction slots arbitrary: sw)
  case (Cons s slots)
  then have s: "0 \<le> s" "s < RECV_SLOTS" and "switch_on slots (sw(nat s := 1)) = Some sw'"
    by (auto split: if_splits)
  from Cons.IH [OF this(3)] s show ?case by (auto simp: fun_eq_iff)
qed simp

lemma switch_on_defined:
  "(\<forall>s\<in>set slots. 0 \<le> s \<and> s < RECV_SLOTS) \<Longrightarrow> switch_on slots sw \<noteq> None"
  by (induction slots arbitrary: sw) auto

text \<open>A window within one day, from \<open>sh:sm\<close> to \<open>eh:em\<close>.\<close>

definition day_window :: "TIME \<Rightarrow> int \<Rightarrow> int \<Rightarrow> int \<Rightarrow> int \<Rightarrow> bool" where
  "day_window time sh sm eh em \<longleftrightarrow>
     atoi (window_start time) = 100 * sh + sm \<and> atoi (window_end time) = 100 * eh + em \<and>
     0 \<le> sh \<and> sh \<le> 23 \<and> 0 \<le> eh \<and> eh \<le> 23 \<and> 0 \<le> sm \<and> sm \<le> 59 \<and> 0 \<le> em \<and> em \<le> 59"

lemma day_window_parts:
  assumes "day_window time sh sm eh em"
  shows "div100 (atoi (window_start time)) = sh" "mod100 (atoi (window_start time)) = sm"
    "div100 (atoi (window_end time)) = eh" "mod100 (atoi (window_end time)) = em"
  using assms by (auto simp: day_window_def div100_def mod100_def)

lemma shifted_range: "(\<exists>m\<in>{a..b}. s = K + (m::int)) \<longleftrightarrow> a + K \<le> s \<and> s \<le> b + K"
  by (auto intro: bexI [of _ "s - K"])

lemma wday_slots_day:
  assumes "day_window time sh sm eh em" and "sh \<le> eh"
  shows "s \<in> set (wday_slots time wday) \<longleftrightarrow>
    (\<exists>h m. 0 \<le> h \<and> h < 24 \<and> 0 \<le> m \<and> m < 60 \<and> s = 1440 * ((wday + 1) mod 7) + 60 * h + m \<and>
       60 * sh + sm \<le> 60 * h + m \<and> 60 * h + m \<le> 60 * eh + em)"
proof -
  have w: "0 \<le> sh" "eh \<le> 23" "0 \<le> sm" "sm \<le> 59" "0 \<le> em" "em \<le> 59"
    using assms by (auto simp: day_window_def)
  have "s \<in> set (wday_slots time wday) \<longleftrightarrow>
      (\<exists>h\<in>{sh..eh}. \<exists>m\<in>{(if h = sh then sm else 0)..min (if h = eh then em else 59) 59}.
         s = 1440 * ((wday + 1) mod 7) + 60 * h + m)"
  proof -
    have "s \<in> set (wday_slots time wday) \<longleftrightarrow> (\<exists>h\<in>{sh..eh}. s \<in> set (minute_slots wday time sh eh h))"
      using assms(2) by (simp add: wday_slots_def Let_def day_window_parts [OF assms(1)])
    moreover have "s \<in> set (minute_slots wday time sh eh h) \<longleftrightarrow>
        (\<exists>m\<in>{(if h = sh then sm else 0)..min (if h = eh then em else 59) 59}.
           s = 1440 * ((wday + 1) mod 7) + 60 * h + m)" if "h \<in> {sh..eh}" for h
      using that w(2)
      by (simp add: minute_slots_def Let_def day_window_parts [OF assms(1)] START_MIN_def END_MIN_def
          image_iff shifted_range)
    ultimately show ?thesis by simp
  qed
  also have "\<dots> \<longleftrightarrow> (\<exists>h m. 0 \<le> h \<and> h < 24 \<and> 0 \<le> m \<and> m < 60 \<and> s = 1440 * ((wday + 1) mod 7) + 60 * h + m \<and>
       60 * sh + sm \<le> 60 * h + m \<and> 60 * h + m \<le> 60 * eh + em)" (is "?L \<longleftrightarrow> ?R")
  proof
    assume ?L
    then obtain h m where "h \<in> {sh..eh}" "m \<in> {(if h = sh then sm else 0)..min (if h = eh then em else 59) 59}"
      and s: "s = 1440 * ((wday + 1) mod 7) + 60 * h + m" by blast
    moreover from this have "0 \<le> m" "m < 60" "60 * sh + sm \<le> 60 * h + m" "60 * h + m \<le> 60 * eh + em"
      using w by (auto split: if_splits)
    ultimately show ?R using w by (intro exI [of _ h] exI [of _ m]) simp
  next
    assume ?R
    then obtain h m where hm: "0 \<le> m" "m < 60" "60 * sh + sm \<le> 60 * h + m" "60 * h + m \<le> 60 * eh + em"
      and s: "s = 1440 * ((wday + 1) mod 7) + 60 * h + m" by blast
    have "sh \<le> h" "h \<le> eh" using hm w(3,5,6) by linarith+
    moreover have "(if h = sh then sm else 0) \<le> m" using hm by auto
    moreover have "m \<le> min (if h = eh then em else 59) 59" using hm w by auto
    ultimately show ?L using s by (intro bexI [of _ h] bexI [of _ m]) simp_all
  qed
  finally show ?thesis .
qed

lemma slot_inj:
  assumes "0 \<le> h" "h < 24" "0 \<le> m" "m < 60" "0 \<le> h'" "h' < (24::int)" "0 \<le> m'" "m' < (60::int)"
    and "1440 * d + 60 * h + m = 1440 * d' + 60 * h' + m'"
  shows "d = d' \<and> h = h' \<and> m = m'"
proof -
  have less: "60 * h + m < 1440" "60 * h' + m' < 1440" "0 \<le> 60 * h + m" "0 \<le> 60 * h' + m'"
    using assms by linarith+
  have d: "d = d'"
  proof (cases d d' rule: linorder_cases)
    case less
    then have "1440 * d + 1440 \<le> 1440 * d'" by simp
    with \<open>60 * h + m < 1440\<close> \<open>0 \<le> 60 * h' + m'\<close> assms(9) show ?thesis by linarith
  next
    case greater
    then have "1440 * d' + 1440 \<le> 1440 * d" by simp
    with \<open>60 * h' + m' < 1440\<close> \<open>0 \<le> 60 * h + m\<close> assms(9) show ?thesis by linarith
  qed
  with assms(9) have eq: "60 * h + m = 60 * h' + m'" by simp
  have "h = h'"
  proof (cases h h' rule: linorder_cases)
    case less
    then have "60 * h + 60 \<le> 60 * h'" by simp
    with eq assms show ?thesis by linarith
  next
    case greater
    then have "60 * h' + 60 \<le> 60 * h" by simp
    with eq assms show ?thesis by linarith
  qed
  with d eq show ?thesis by simp
qed

definition wday_range :: "TIME \<Rightarrow> int set" where
  "wday_range time = {wday_index (wday_start time)..wday_index (wday_end time)}"

definition range_ok :: "TIME \<Rightarrow> bool" where
  "range_ok time \<longleftrightarrow> wday_index (wday_start time) \<noteq> -1 \<and> wday_index (wday_end time) \<noteq> -1 \<and>
     wday_index (wday_start time) \<le> wday_index (wday_end time)"

lemma time_slots_ok:
  "range_ok time \<Longrightarrow> \<exists>slots. time_slots time = Some slots \<and>
    set slots = (\<Union>wday\<in>wday_range time. set (wday_slots time wday))"
  by (auto simp: time_slots_def range_ok_def wday_range_def Let_def)

text \<open>
  C12. Windows within a day. When every entry of a port names a range of weekdays that does not run
  backwards and a window that ends on the day it starts, the switches are set without error, and a
  minute of a weekday is on exactly when it lies in the window of some entry, both ends included,
  whose range has the weekday before it: the rows are filled one day late.
\<close>

theorem day_windows_switches:
  assumes "\<forall>time\<in>set periods. range_ok time \<and> (\<exists>sh sm eh em. day_window time sh sm eh em \<and> sh \<le> eh)"
  shows "\<exists>sw. port_switch periods (\<lambda>_. 0) = Some (0, sw) \<and>
    (\<forall>d<7. \<forall>h<24. \<forall>m<60. sw (1440 * d + 60 * h + m) =
       (if \<exists>time\<in>set periods. \<exists>wday\<in>wday_range time. \<exists>sh sm eh em. day_window time sh sm eh em \<and>
             int d = (wday + 1) mod 7 \<and> 60 * sh + sm \<le> int (60 * h + m) \<and> int (60 * h + m) \<le> 60 * eh + em
        then 1 else 0))"
proof -
  define on where "on ps s \<longleftrightarrow> (\<exists>time\<in>set ps. \<exists>wday\<in>wday_range time. s \<in> set (wday_slots time wday))" for ps s
  have run: "\<exists>sw'. port_switch ps sw = Some (0, sw') \<and>
      (\<forall>i. sw' i = (if on ps (int i) then 1 else sw i))" if "set ps \<subseteq> set periods" for ps sw
    using that
  proof (induction ps arbitrary: sw)
    case (Cons time ps)
    then have ok: "range_ok time" and "\<exists>sh sm eh em. day_window time sh sm eh em \<and> sh \<le> eh"
      using assms by auto
    then obtain sh sm eh em where w: "day_window time sh sm eh em" "sh \<le> eh" by blast
    from time_slots_ok [OF ok] obtain slots where slots: "time_slots time = Some slots"
      "set slots = (\<Union>wday\<in>wday_range time. set (wday_slots time wday))" by blast
    have "\<forall>s\<in>set slots. 0 \<le> s \<and> s < RECV_SLOTS"
      unfolding slots(2) RECV_SLOTS_def by (auto simp: wday_slots_day [OF w])
    then obtain sw1 where sw1: "switch_on slots sw = Some sw1" using switch_on_defined by blast
    from Cons.IH [of sw1] Cons.prems obtain sw' where "port_switch ps sw1 = Some (0, sw')"
      "\<forall>i. sw' i = (if on ps (int i) then 1 else sw1 i)" by auto
    with slots sw1 switch_on_Some [OF sw1] show ?case by (auto simp: on_def)
  qed (simp add: on_def)
  from run [of periods] obtain sw where sw: "port_switch periods (\<lambda>_. 0) = Some (0, sw)"
    "\<forall>i. sw i = (if on periods (int i) then 1 else 0)" by auto
  have "on periods (int (1440 * d + 60 * h + m)) \<longleftrightarrow>
      (\<exists>time\<in>set periods. \<exists>wday\<in>wday_range time. \<exists>sh sm eh em. day_window time sh sm eh em \<and>
         int d = (wday + 1) mod 7 \<and> 60 * sh + sm \<le> int (60 * h + m) \<and> int (60 * h + m) \<le> 60 * eh + em)"
    if "h < 24" "m < 60" for d h m
  proof -
    have "int (1440 * d + 60 * h + m) \<in> set (wday_slots time wday) \<longleftrightarrow>
        (\<exists>sh sm eh em. day_window time sh sm eh em \<and> int d = (wday + 1) mod 7 \<and>
          60 * sh + sm \<le> int (60 * h + m) \<and> int (60 * h + m) \<le> 60 * eh + em)"
      if time: "time \<in> set periods" for time wday
    proof -
      from assms time obtain sh sm eh em where w: "day_window time sh sm eh em" "sh \<le> eh" by blast
      have uniq: "sh' = sh \<and> sm' = sm \<and> eh' = eh \<and> em' = em" if "day_window time sh' sm' eh' em'" for sh' sm' eh' em'
        using day_window_parts [OF that] day_window_parts [OF w(1)] by simp
      have "int (1440 * d + 60 * h + m) \<in> set (wday_slots time wday) \<longleftrightarrow>
          int d = (wday + 1) mod 7 \<and> 60 * sh + sm \<le> int (60 * h + m) \<and> int (60 * h + m) \<le> 60 * eh + em"
        (is "?L \<longleftrightarrow> ?R")
      proof
        assume ?L
        then obtain h' m' where "0 \<le> h'" "h' < 24" "0 \<le> m'" "m' < 60"
          "1440 * int d + 60 * int h + int m = 1440 * ((wday + 1) mod 7) + 60 * h' + m'"
          "60 * sh + sm \<le> 60 * h' + m'" "60 * h' + m' \<le> 60 * eh + em"
          unfolding wday_slots_day [OF w] by auto
        with slot_inj [of "int h" "int m" h' m' "int d" "(wday + 1) mod 7"] \<open>h < 24\<close> \<open>m < 60\<close>
        show ?R by simp
      next
        assume ?R
        with \<open>h < 24\<close> \<open>m < 60\<close> show ?L
          unfolding wday_slots_day [OF w] by (intro exI [of _ "int h"] exI [of _ "int m"]) simp
      qed
      with w uniq show ?thesis by blast
    qed
    then show ?thesis unfolding on_def by blast
  qed
  with sw show ?thesis by (intro exI [of _ sw]) auto
qed

definition demo_monday :: TIME where
  "demo_monday = \<lparr> wday_start = ''Mon'', wday_end = ''Mon'', window_start = ''0930'', window_end = ''1600'' \<rparr>"

lemma wday_index_Mon: "wday_index ''Mon'' = 1" and wday_index_Fri: "wday_index ''Fri'' = 5"
  by code_simp+

theorem day_windows_switches_witness:
  "\<exists>sw. port_switch [demo_monday] (\<lambda>_. 0) = Some (0, sw) \<and>
     sw (1440 * 2 + 60 * 10 + 15) = 1 \<and> sw (1440 * 1 + 60 * 10 + 15) = 0"
proof -
  have "atoi ''0930'' = 930" "atoi ''1600'' = 1600" by code_simp+
  then have win: "day_window demo_monday 9 30 16 0" by (simp add: day_window_def demo_monday_def)
  have range: "wday_range demo_monday = {1}" "range_ok demo_monday"
    by (simp_all add: wday_range_def range_ok_def demo_monday_def wday_index_Mon)
  have uniq: "sh = 9 \<and> sm = 30 \<and> eh = 16 \<and> em = 0" if "day_window demo_monday sh sm eh em" for sh sm eh em
    using day_window_parts [OF that] day_window_parts [OF win] by simp
  have "\<exists>sh sm eh em. day_window demo_monday sh sm eh em \<and> sh \<le> eh"
    by (intro exI conjI, rule win) simp
  with range have "\<forall>time\<in>set [demo_monday]. range_ok time \<and>
      (\<exists>sh sm eh em. day_window time sh sm eh em \<and> sh \<le> eh)"
    by simp
  from day_windows_switches [OF this] obtain sw where "port_switch [demo_monday] (\<lambda>_. 0) = Some (0, sw)"
    and on: "\<forall>d<7. \<forall>h<24. \<forall>m<60. sw (1440 * d + 60 * h + m) =
       (if \<exists>time\<in>set [demo_monday]. \<exists>wday\<in>wday_range time. \<exists>sh sm eh em. day_window time sh sm eh em \<and>
             int d = (wday + 1) mod 7 \<and> 60 * sh + sm \<le> int (60 * h + m) \<and> int (60 * h + m) \<le> 60 * eh + em
        then 1 else 0)" by blast
  moreover have "sw (1440 * 2 + 60 * 10 + 15) = 1"
  proof -
    have "\<exists>sh sm eh em. day_window demo_monday sh sm eh em \<and> int 2 = (1 + 1) mod 7 \<and>
        60 * sh + sm \<le> int (60 * 10 + 15) \<and> int (60 * 10 + 15) \<le> 60 * eh + em"
      by (intro exI conjI, rule win) simp_all
    with on [rule_format, of 2 10 15] range show ?thesis by simp
  qed
  moreover have "sw (1440 * 1 + 60 * 10 + 15) = 0"
    using on [rule_format, of 1 10 15] range by simp
  ultimately show ?thesis by blast
qed

text \<open>
  A window over midnight. Its hours after midnight are counted on from 24. Hour 24 itself is
  written behind the row of its day, and on a Friday, whose row is the last one, that is behind the
  table: setting up any port with such an entry is undefined behaviour.
\<close>

theorem friday_night_undefined:
  assumes win: "day_window time sh sm eh em" and night: "eh < sh"
    and fri: "5 \<in> wday_range time" and range: "range_ok time"
  shows "port_switch (time # periods) sw = None"
proof -
  have w: "0 \<le> eh" "sh \<le> 23" "0 \<le> em" using win by (auto simp: day_window_def)
  have "1440 * 6 + 60 * 24 \<in> set (minute_slots 5 time sh (eh + 24) 24)"
    using w night
    by (auto simp: minute_slots_def Let_def day_window_parts [OF win] START_MIN_def END_MIN_def image_iff)
  moreover have "24 \<in> {sh..eh + 24}" using w by simp
  ultimately have "RECV_SLOTS \<in> set (wday_slots time 5)"
    using night by (auto simp: wday_slots_def Let_def day_window_parts [OF win] RECV_SLOTS_def)
  moreover obtain slots where slots: "time_slots time = Some slots"
    "set slots = (\<Union>wday\<in>wday_range time. set (wday_slots time wday))"
    using time_slots_ok [OF range] by blast
  ultimately have "RECV_SLOTS \<in> set slots" using fri by auto
  then have "switch_on slots sw = None"
    using switch_on_Some [of slots sw] by (cases "switch_on slots sw") auto
  with slots show ?thesis by simp
qed

theorem friday_night_undefined_witness:
  "port_switch [\<lparr> wday_start = ''Mon'', wday_end = ''Fri'', window_start = ''2200'', window_end = ''0600'' \<rparr>]
     (\<lambda>_. 0) = None"
proof (rule friday_night_undefined [of _ 22 0 6 0])
  have "atoi ''2200'' = 2200" "atoi ''0600'' = 600" by code_simp+
  then show "day_window \<lparr> wday_start = ''Mon'', wday_end = ''Fri'', window_start = ''2200'',
      window_end = ''0600'' \<rparr> 22 0 6 0" by (simp add: day_window_def)
qed (simp_all add: wday_range_def range_ok_def wday_index_Mon wday_index_Fri)

end
