(* ===== verification/XmlConfig.thy ===== *)
theory XmlConfig
  imports ConfigSwitch "HOL-Library.Monad_Syntax"
begin

text \<open>
  The tags of the broker's configuration file: \<^verbatim>\<open>src/lib/main/xmlcfg.c\<close>. \<^verbatim>\<open>getxmlcfg\<close> runs over
  the characters of the file with the state number \<^verbatim>\<open>where\<close>, collects the words of a tag and turns
  them into a tag record (\<^verbatim>\<open>words2xmltag\<close>).

  The word buffers are 32 of 512 characters and a terminator. \<open>words\<close> are the complete words,
  \<open>cur\<close> the characters of the current one. Writing behind one of the arrays is \<open>None\<close>.
\<close>

definition MAX_DEFINITION :: nat where "MAX_DEFINITION = 16"

text \<open>A tag: the name, the count of definitions, the names and values, and how it ended.\<close>

record xmltag =
  x_tags :: string
  x_many :: nat
  x_defs :: "(string \<times> string) list"
  x_eotf :: nat

definition xmltag0 :: xmltag where
  "xmltag0 = \<lparr>x_tags = [], x_many = 0, x_defs = replicate MAX_DEFINITION ([], []), x_eotf = 0\<rparr>"

subsection \<open>Words to a tag\<close>

definition strip :: "string \<Rightarrow> string" where
  "strip s = filter (\<lambda>c. c \<noteq> CHR 0x22 \<and> c \<noteq> CHR 0x27) s"

text \<open>
  The loop over the words behind the first, with its \<^verbatim>\<open>flag\<close>: 0 a name is due, 1 an equals sign,
  2 a value.
\<close>

fun tag_words :: "string list \<Rightarrow> nat \<Rightarrow> nat \<Rightarrow> (string \<times> string) list \<Rightarrow>
    (int \<times> nat \<times> (string \<times> string) list) option" where
  "tag_words [] flag ndef defs = Some (0, ndef, defs)"
| "tag_words (w # ws) flag ndef defs =
     (let s = strip w
      in if ndef \<ge> MAX_DEFINITION then Some (0, ndef, defs)
         else if length s \<ge> 512 then None
         else if flag = 0 then
           (if strcmp s ''='' = 0 then Some (-1, ndef, defs)
            else if length s \<ge> 32 then None
            else tag_words ws 1 ndef (defs[ndef := (s, snd (defs ! ndef))]))
         else if flag = 1 then
           (if strcmp s ''='' = 0 then tag_words ws 2 ndef defs
            else if Suc ndef \<ge> MAX_DEFINITION \<or> length s \<ge> 32 then None
            else tag_words ws 0 (Suc ndef) (defs[Suc ndef := (s, snd (defs ! Suc ndef))]))
         else
           (if strcmp s ''='' = 0 then Some (-1, ndef, defs)
            else tag_words ws 0 (Suc ndef) (defs[ndef := (fst (defs ! ndef), s)])))"

definition words2xmltag :: "string list \<Rightarrow> (int \<times> xmltag) option" where
  "words2xmltag args_b =
     (case args_b of
        [] \<Rightarrow> Some (-1, xmltag0)
      | w # ws \<Rightarrow>
          if length w \<ge> 32 then None
          else
            let tag = xmltag0\<lparr>x_tags := w, x_eotf := (if take 1 w = ''/'' then 2 else 0)\<rparr>
            in map_option (\<lambda>(r, ndef, defs). (r, tag\<lparr>x_many := ndef, x_defs := defs\<rparr>))
                 (tag_words ws 0 0 (x_defs tag)))"

subsection \<open>The characters of the file\<close>

record lexer =
  lx_where :: nat
  dodo     :: bool
  words    :: "string list"
  cur      :: string
  minus    :: nat
  out_tags :: "xmltag list"

definition lexer0 :: lexer where
  "lexer0 = \<lparr>lx_where = 0, dodo = False, words = [], cur = [], minus = 0, out_tags = []\<rparr>"

text \<open>The next character of the current word, up to 512; and the end of a word that is not empty.\<close>

definition put_char :: "char \<Rightarrow> lexer \<Rightarrow> lexer option" where
  "put_char c lx =
     (if length (cur lx) \<ge> 512 then Some lx
      else if length (words lx) \<ge> 32 then None
      else Some (lx\<lparr>cur := cur lx @ [c]\<rparr>))"

definition end_word :: "lexer \<Rightarrow> lexer" where
  "end_word lx = (if cur lx = [] then lx else lx\<lparr>words := words lx @ [cur lx], cur := []\<rparr>)"

text \<open>The words make a tag, unless \<^verbatim>\<open>words2xmltag\<close> refuses them; \<open>n\<close> is the caller's room.\<close>

definition emit :: "nat \<Rightarrow> bool \<Rightarrow> lexer \<Rightarrow> lexer option" where
  "emit n shut lx =
     (case words2xmltag (words lx) of
        None \<Rightarrow> None
      | Some (r, tag) \<Rightarrow>
          if r \<noteq> 0 then Some lx
          else if length (out_tags lx) \<ge> n then None
          else Some (lx\<lparr>out_tags := out_tags lx @ [if shut then tag\<lparr>x_eotf := 1\<rparr> else tag]\<rparr>))"

definition end_tag :: "nat \<Rightarrow> lexer \<Rightarrow> lexer option" where
  "end_tag n lx =
     (let lx1 = end_word (lx\<lparr>lx_where := 0\<rparr>)
      in case words lx1 of
           [] \<Rightarrow> Some lx1
         | w # _ \<Rightarrow>
             if \<not> dodo lx1 then Some (if strcasecmp_eq w ''config'' then lx1\<lparr>dodo := True\<rparr> else lx1)
             else if strcasecmp_eq w ''/config'' then Some (lx1\<lparr>dodo := False\<rparr>)
             else emit n False lx1)"

definition blank_control :: "char \<Rightarrow> char" where
  "blank_control c = (if (of_char c :: nat) < 32 then CHR '' '' else c)"

definition lex_char :: "nat \<Rightarrow> char \<Rightarrow> lexer \<Rightarrow> lexer option" where
  "lex_char n ch lx =
     (let c = blank_control ch; st = lx_where lx
      in if st = 0 then
           Some (lx\<lparr>lx_where := (if c = CHR ''<'' then 1 else 0), words := [], cur := []\<rparr>)
         else if st = 1 then
           (if c = CHR '' '' then Some lx
            else if c = CHR ''!'' then Some (lx\<lparr>lx_where := 20\<rparr>)
            else map_option (\<lambda>l. l\<lparr>lx_where := 2\<rparr>) (put_char c lx))
         else if st = 2 then
           (if c = CHR '' '' then Some (end_word lx)
            else if c = CHR 0x27 then map_option (\<lambda>l. l\<lparr>lx_where := 4\<rparr>) (put_char c lx)
            else if c = CHR ''='' then map_option end_word (put_char c (end_word lx))
            else if c = CHR ''/'' then Some ((end_word lx)\<lparr>lx_where := 3\<rparr>)
            else if c = CHR ''>'' then end_tag n lx
            else put_char c lx)
         else if st = 3 then
           (if \<not> dodo lx \<or> c \<noteq> CHR ''>'' then Some (lx\<lparr>lx_where := 0\<rparr>)
            else emit n True (lx\<lparr>lx_where := 0\<rparr>))
         else if st = 4 then put_char c (if c = CHR 0x27 then lx\<lparr>lx_where := 2\<rparr> else lx)
         else if st = 20 then Some (lx\<lparr>lx_where := (if c = CHR ''-'' then 21 else 90)\<rparr>)
         else if st = 21 then
           Some (if c = CHR ''-'' then lx\<lparr>lx_where := 30, minus := 0\<rparr> else lx\<lparr>lx_where := 90\<rparr>)
         else if st = 30 then
           Some (if c = CHR ''-'' then lx\<lparr>minus := minus lx + 1\<rparr>
                 else if c = CHR ''>'' \<and> minus lx \<ge> 2 then lx\<lparr>lx_where := 0, minus := 0\<rparr>
                 else lx\<lparr>minus := 0\<rparr>)
         else Some (if c = CHR ''>'' then lx\<lparr>lx_where := 0\<rparr> else lx))"

fun lex_run :: "nat \<Rightarrow> string \<Rightarrow> lexer \<Rightarrow> lexer option" where
  "lex_run n [] lx = Some lx"
| "lex_run n (c # cs) lx = (case lex_char n c lx of None \<Rightarrow> None | Some lx' \<Rightarrow> lex_run n cs lx')"

text \<open>
  The file is the list of what \<^verbatim>\<open>fgets\<close> reads, of each of which the characters up to a zero byte
  count; \<open>None\<close> inside when it cannot be opened (then 0 is returned). The result is the tags.
\<close>

definition getxmlcfg :: "nat \<Rightarrow> string list option \<Rightarrow> xmltag list option" where
  "getxmlcfg n cFile =
     (case cFile of
        None \<Rightarrow> Some []
      | Some ls \<Rightarrow> map_option out_tags (lex_run n (concat (map cstr ls)) lexer0))"

subsection \<open>Access to the definitions\<close>

text \<open>The definition that is found loses its name, so that it is not found again.\<close>

definition def_index :: "xmltag \<Rightarrow> string \<Rightarrow> nat option" where
  "def_index xml name = List.find (\<lambda>i. strcasecmp_eq (fst (x_defs xml ! i)) name) [0..<x_many xml]"

definition take_name :: "nat \<Rightarrow> xmltag \<Rightarrow> xmltag" where
  "take_name i xml = xml\<lparr>x_defs := (x_defs xml)[i := ([], snd (x_defs xml ! i))]\<rparr>"

definition getargv :: "xmltag \<Rightarrow> string \<Rightarrow> xmltag \<times> int" where
  "getargv xml name =
     (case def_index xml name of None \<Rightarrow> (xml, 0) | Some i \<Rightarrow> (take_name i xml, atoi (snd (x_defs xml ! i))))"

definition getargs :: "xmltag \<Rightarrow> string \<Rightarrow> xmltag \<times> string" where
  "getargs xml name =
     (case def_index xml name of None \<Rightarrow> (xml, []) | Some i \<Rightarrow> (take_name i xml, snd (x_defs xml ! i)))"

definition getargx_text :: "string \<Rightarrow> string" where
  "getargx_text vals = map (\<lambda>c. if c = CHR '';'' \<or> c = CHR '','' then CHR '' '' else c) vals"

text \<open>The words of a line as \<^verbatim>\<open>%s\<close> reads them.\<close>

function split_words :: "string \<Rightarrow> string list" where
  "split_words s =
     (case dropWhile isspace s of
        [] \<Rightarrow> []
      | c # cs \<Rightarrow> (c # takeWhile (\<lambda>d. \<not> isspace d) cs) # split_words (dropWhile (\<lambda>d. \<not> isspace d) cs))"
  by pat_completeness auto
termination
proof (relation "measure length", goal_cases)
  case (2 s c cs)
  have "length (dropWhile isspace s) \<le> length s" by (rule length_dropWhile_le)
  moreover have "length (dropWhile (\<lambda>d. \<not> isspace d) cs) \<le> length cs" by (rule length_dropWhile_le)
  ultimately show ?case using 2 by simp
qed simp

declare split_words.simps [simp del]

text \<open>
  \<^verbatim>\<open>getargx\<close>: up to \<open>max\<close> of the first fifteen words as numbers; the words go to buffers of sixteen
  characters and the text to one of 128.
\<close>

definition getargx :: "xmltag \<Rightarrow> string \<Rightarrow> nat \<Rightarrow> (xmltag \<times> int list) option" where
  "getargx xml name n =
     (case def_index xml name of
        None \<Rightarrow> Some (xml, [])
      | Some i \<Rightarrow>
          let vals = snd (x_defs xml ! i); ws = take 15 (split_words (getargx_text vals))
          in if length vals \<ge> 128 \<or> (\<exists>w\<in>set ws. length w \<ge> 16) then None
             else Some (take_name i xml, map atoi (take n ws)))"

subsection \<open>Reading a text piece by piece\<close>

lemma lex_run_append:
  "lex_run n (a @ b) lx = (case lex_run n a lx of None \<Rightarrow> None | Some l \<Rightarrow> lex_run n b l)"
  by (induction a arbitrary: lx) (auto split: option.splits)

text \<open>Characters that are nothing but text, outside and inside of quotes.\<close>

definition plain :: "char \<Rightarrow> bool" where
  "plain c \<longleftrightarrow> (of_char c :: nat) > 32 \<and> c \<notin> {CHR 0x27, CHR 0x22, CHR ''='', CHR ''/'', CHR ''>''}"

definition quotable :: "char \<Rightarrow> bool" where
  "quotable c \<longleftrightarrow> (of_char c :: nat) \<ge> 32 \<and> c \<noteq> CHR 0x27 \<and> c \<noteq> CHR 0x22"

lemma plain_char:
  assumes "plain c"
  shows "blank_control c = c" "c \<noteq> CHR '' ''" "c \<noteq> CHR 0x27" "c \<noteq> CHR ''=''" "c \<noteq> CHR ''/''" "c \<noteq> CHR ''>''" "c \<noteq> CHR 0x22"
  using assms by (auto simp: plain_def blank_control_def)

lemma quotable_char: "quotable c \<Longrightarrow> blank_control c = c \<and> c \<noteq> CHR 0x27"
  by (auto simp: quotable_def blank_control_def)

lemma run_plain:
  "\<forall>c\<in>set w. plain c \<Longrightarrow> lx_where lx = 2 \<Longrightarrow> length (words lx) < 32 \<Longrightarrow> length (cur lx) + length w \<le> 512 \<Longrightarrow>
   lex_run n w lx = Some (lx\<lparr>cur := cur lx @ w\<rparr>)"
proof (induction w arbitrary: lx)
  case (Cons c w)
  have "lex_char n c lx = Some (lx\<lparr>cur := cur lx @ [c]\<rparr>)"
    using Cons.prems plain_char [of c] by (simp add: lex_char_def put_char_def)
  with Cons show ?case by simp
qed simp

lemma run_quotable:
  "\<forall>c\<in>set w. quotable c \<Longrightarrow> lx_where lx = 4 \<Longrightarrow> length (words lx) < 32 \<Longrightarrow> length (cur lx) + length w \<le> 512 \<Longrightarrow>
   lex_run n w lx = Some (lx\<lparr>cur := cur lx @ w\<rparr>)"
proof (induction w arbitrary: lx)
  case (Cons c w)
  have "lex_char n c lx = Some (lx\<lparr>cur := cur lx @ [c]\<rparr>)"
    using Cons.prems quotable_char [of c] by (simp add: lex_char_def put_char_def)
  with Cons show ?case by simp
qed simp

subsection \<open>Writing tags\<close>

definition in_quotes :: "string \<Rightarrow> string" where
  "in_quotes v = [CHR 0x27] @ v @ [CHR 0x27]"

definition render_def :: "string \<times> string \<Rightarrow> string" where
  "render_def d = '' '' @ fst d @ ''='' @ in_quotes (snd d)"

definition render_tag :: "string \<times> (string \<times> string) list \<Rightarrow> string" where
  "render_tag t = ''<'' @ fst t @ concat (map render_def (snd t)) @ ''>''"

definition render :: "(string \<times> (string \<times> string) list) list \<Rightarrow> string" where
  "render ts = ''<config>'' @ concat (map render_tag ts) @ ''</config>''"

text \<open>What can be written: names of plain characters, a tag's possibly behind a slash, and at most ten definitions.\<close>

definition def_fits :: "string \<times> string \<Rightarrow> bool" where
  "def_fits d \<longleftrightarrow> fst d \<noteq> [] \<and> length (fst d) < 32 \<and> (\<forall>c\<in>set (fst d). plain c) \<and>
     length (snd d) \<le> 510 \<and> (\<forall>c\<in>set (snd d). quotable c) \<and> snd d \<noteq> ''=''"

definition tag_fits :: "string \<times> (string \<times> string) list \<Rightarrow> bool" where
  "tag_fits t \<longleftrightarrow> (case fst t of [] \<Rightarrow> False
     | c # cs \<Rightarrow> (plain c \<and> c \<noteq> CHR ''!'' \<or> c = CHR ''/'') \<and> (\<forall>c\<in>set cs. plain c)) \<and>
     length (fst t) < 32 \<and> \<not> strcasecmp_eq (fst t) ''/config'' \<and> length (snd t) \<le> 10 \<and>
     (\<forall>d\<in>set (snd t). def_fits d)"

definition tag_of :: "string \<times> (string \<times> string) list \<Rightarrow> xmltag" where
  "tag_of t = \<lparr>x_tags = fst t, x_many = length (snd t),
     x_defs = snd t @ replicate (MAX_DEFINITION - length (snd t)) ([], []),
     x_eotf = (if take 1 (fst t) = ''/'' then 2 else 0)\<rparr>"

definition def_words :: "string \<times> string \<Rightarrow> string list" where
  "def_words d = [fst d, ''='', in_quotes (snd d)]"

lemma strip_plain: "\<forall>c\<in>set s. plain c \<Longrightarrow> strip s = s"
  by (auto simp: strip_def plain_def intro: filter_True)

lemma strip_quoted: "\<forall>c\<in>set v. quotable c \<Longrightarrow> strip (in_quotes v) = v"
  by (auto simp: strip_def in_quotes_def quotable_def intro: filter_True)

lemma tag_words_one:
  assumes "def_fits d" "i < MAX_DEFINITION" "length defs = MAX_DEFINITION"
  shows "tag_words (def_words d @ ws) 0 i defs = tag_words ws 0 (Suc i) (defs[i := d])"
proof -
  obtain a b where ab: "d = (a, b)" by fastforce
  have f: "\<forall>c\<in>set a. plain c" "\<forall>c\<in>set b. quotable c" "length a < 32" "b \<noteq> ''=''" "length b \<le> 510"
    using assms(1) by (simp_all add: ab def_fits_def)
  have "a \<noteq> ''=''" using f(1) plain_char(4) [of "CHR ''=''"] by auto
  with f have d: "strip a = a" "strip (in_quotes b) = b" "a \<noteq> ''=''" "length a < 32" "b \<noteq> ''=''" "length b < 512"
    by (simp_all add: strip_plain strip_quoted)
  have e: "strip ''='' = ''=''" by (simp add: strip_def)
  have "tag_words (def_words d @ ws) 0 i defs = tag_words (''='' # in_quotes b # ws) 1 i (defs[i := (a, snd (defs ! i))])"
    using d(1,3,4) assms(2) by (simp add: def_words_def ab Let_def)
  also have "\<dots> = tag_words (in_quotes b # ws) 2 i (defs[i := (a, snd (defs ! i))])"
    using assms(2) by (simp add: e Let_def)
  also have "\<dots> = tag_words ws 0 (Suc i) (defs[i := d])"
    using d(2,5,6) assms(2,3) by (simp add: Let_def ab)
  finally show ?thesis .
qed

lemma tag_words_defs:
  "\<forall>d\<in>set ds. def_fits d \<Longrightarrow> i + length ds \<le> MAX_DEFINITION \<Longrightarrow> length xs = i \<Longrightarrow>
   tag_words (concat (map def_words ds)) 0 i (xs @ replicate (MAX_DEFINITION - i) ([], [])) =
   Some (0, i + length ds, xs @ ds @ replicate (MAX_DEFINITION - i - length ds) ([], []))"
proof (induction ds arbitrary: i xs)
  case (Cons d ds)
  obtain m where m: "MAX_DEFINITION - i = Suc m" using Cons.prems(2) by (cases "MAX_DEFINITION - i") auto
  then have m': "MAX_DEFINITION - Suc i = m" by simp
  have "tag_words (concat (map def_words (d # ds))) 0 i (xs @ replicate (MAX_DEFINITION - i) ([], [])) =
      tag_words (concat (map def_words ds)) 0 (Suc i) ((xs @ replicate (MAX_DEFINITION - i) ([], []))[i := d])"
    using Cons.prems by (simp only: list.map concat.simps) (intro tag_words_one, auto)
  also have "(xs @ replicate (MAX_DEFINITION - i) ([], []))[i := d] = (xs @ [d]) @ replicate (MAX_DEFINITION - Suc i) ([], [])"
    using Cons.prems(3) by (simp add: m m' list_update_append)
  also have "tag_words (concat (map def_words ds)) 0 (Suc i) \<dots> =
      Some (0, Suc i + length ds, (xs @ [d]) @ ds @ replicate (MAX_DEFINITION - Suc i - length ds) ([], []))"
    using Cons.prems by (intro Cons.IH) auto
  finally show ?case by simp
qed simp

lemma words2xmltag_fits:
  assumes "tag_fits t"
  shows "words2xmltag (fst t # concat (map def_words (snd t))) = Some (0, tag_of t)"
proof -
  have t: "length (fst t) < 32" "\<forall>d\<in>set (snd t). def_fits d" "0 + length (snd t) \<le> MAX_DEFINITION"
    using assms by (auto simp: tag_fits_def MAX_DEFINITION_def)
  from tag_words_defs [OF t(2,3), of "[]"] t(1) show ?thesis
    by (simp add: words2xmltag_def xmltag0_def tag_of_def Let_def)
qed

subsection \<open>Reading what has been written\<close>

lemma run_def:
  assumes "def_fits d" "lx_where lx = 2" "cur lx \<noteq> []" "length (words lx) < 29"
  shows "lex_run n (render_def d) lx =
    Some (lx\<lparr>words := words lx @ [cur lx, fst d, ''=''], cur := in_quotes (snd d)\<rparr>)"
proof -
  obtain a b where ab: "d = (a, b)" by fastforce
  have d: "\<forall>c\<in>set a. plain c" "length a < 32" "a \<noteq> []" "\<forall>c\<in>set b. quotable c" "length b \<le> 510"
    using assms(1) by (simp_all add: def_fits_def ab)
  let ?l1 = "lx\<lparr>words := words lx @ [cur lx], cur := []\<rparr>"
  let ?l2 = "lx\<lparr>words := words lx @ [cur lx], cur := a\<rparr>"
  let ?l3 = "lx\<lparr>words := words lx @ [cur lx, a, ''=''], cur := []\<rparr>"
  let ?l4 = "lx\<lparr>lx_where := 4, words := words lx @ [cur lx, a, ''=''], cur := [CHR 0x27]\<rparr>"
  have 1: "lex_run n '' '' lx = Some ?l1"
    using assms(2,3) by (simp add: lex_char_def blank_control_def end_word_def)
  have 2: "lex_run n a ?l1 = Some ?l2"
    using run_plain [of a ?l1 n] d(1,2) assms(2,4) by simp
  have 3: "lex_run n ''='' ?l2 = Some ?l3"
    using d(3) assms(2,4) by (simp add: lex_char_def blank_control_def end_word_def put_char_def)
  have 4: "lex_run n [CHR 0x27] ?l3 = Some ?l4"
    using assms(2,4) by (simp add: lex_char_def blank_control_def put_char_def)
  have 5: "lex_run n b ?l4 = Some (?l4\<lparr>cur := CHR 0x27 # b\<rparr>)"
    using run_quotable [of b ?l4 n] d(4,5) assms(4) by simp
  have 6: "lex_run n [CHR 0x27] (?l4\<lparr>cur := CHR 0x27 # b\<rparr>) =
      Some (lx\<lparr>words := words lx @ [cur lx, a, ''=''], cur := in_quotes b\<rparr>)"
    using assms(2,4) d(5) by (simp add: lex_char_def blank_control_def put_char_def in_quotes_def Let_def)
  have "render_def d = '' '' @ a @ ''='' @ [CHR 0x27] @ b @ [CHR 0x27]"
    by (simp add: render_def_def in_quotes_def ab)
  then show ?thesis by (simp only: lex_run_append 1 2 3 4 5 6 option.case) (simp add: ab)
qed

lemma run_defs:
  "\<forall>d\<in>set ds. def_fits d \<Longrightarrow> lx_where lx = 2 \<Longrightarrow> cur lx \<noteq> [] \<Longrightarrow> length (words lx) + 3 * length ds < 32 \<Longrightarrow>
   lex_run n (concat (map render_def ds)) lx = Some (lx\<lparr>
     words := butlast (words lx @ cur lx # concat (map def_words ds)),
     cur := last (words lx @ cur lx # concat (map def_words ds))\<rparr>)"
proof (induction ds arbitrary: lx)
  case (Cons d ds)
  let ?l = "lx\<lparr>words := words lx @ [cur lx, fst d, ''=''], cur := in_quotes (snd d)\<rparr>"
  have "lex_run n (render_def d) lx = Some ?l" using Cons.prems by (intro run_def) auto
  moreover have "lex_run n (concat (map render_def ds)) ?l = Some (?l\<lparr>
     words := butlast (words ?l @ cur ?l # concat (map def_words ds)),
     cur := last (words ?l @ cur ?l # concat (map def_words ds))\<rparr>)"
    using Cons.prems by (intro Cons.IH) (auto simp: in_quotes_def)
  moreover have "def_words d = [fst d, ''='', in_quotes (snd d)]" by (simp add: def_words_def)
  ultimately show ?case by (simp add: lex_run_append)
qed simp

lemma run_tag:
  assumes "tag_fits t" "lx_where lx = 0" "dodo lx" "length (out_tags lx) < n"
  shows "\<exists>ws. lex_run n (render_tag t) lx =
    Some (lx\<lparr>words := ws, cur := [], out_tags := out_tags lx @ [tag_of t]\<rparr>)"
proof -
  obtain c cs where c: "fst t = c # cs" "plain c \<and> c \<noteq> CHR ''!'' \<or> c = CHR ''/''" "\<forall>c\<in>set cs. plain c"
    using assms(1) by (auto simp: tag_fits_def split: list.splits)
  have t: "length (fst t) < 32" "\<not> strcasecmp_eq (fst t) ''/config''" "length (snd t) \<le> 10" "\<forall>d\<in>set (snd t). def_fits d"
    using assms(1) by (simp_all add: tag_fits_def)
  let ?l1 = "lx\<lparr>lx_where := 1, words := [], cur := []\<rparr>"
  let ?l2 = "lx\<lparr>lx_where := 2, words := [], cur := [c]\<rparr>"
  let ?l3 = "lx\<lparr>lx_where := 2, words := [], cur := fst t\<rparr>"
  let ?w = "concat (map def_words (snd t))"
  let ?l4 = "lx\<lparr>lx_where := 2, words := butlast (fst t # ?w), cur := last (fst t # ?w)\<rparr>"
  let ?l5 = "lx\<lparr>words := fst t # ?w, cur := []\<rparr>"
  have 1: "lex_run n ''<'' lx = Some ?l1"
    using assms(2) by (simp add: lex_char_def blank_control_def)
  have "blank_control c = c" "c \<noteq> CHR '' ''" "c \<noteq> CHR ''!''"
    using c(2) plain_char [of c] by (auto simp: blank_control_def)
  then have 2: "lex_run n [c] ?l1 = Some ?l2"
    by (simp add: lex_char_def put_char_def)
  have 3: "lex_run n cs ?l2 = Some ?l3"
    using run_plain [of cs ?l2 n] c(1,3) t(1) by simp
  have 4: "lex_run n (concat (map render_def (snd t))) ?l3 = Some ?l4"
    using run_defs [of "snd t" ?l3 n] t(3,4) c(1) by simp
  have "last (fst t # ?w) \<noteq> []"
    using c(1) by (cases "snd t" rule: rev_cases) (simp_all add: def_words_def in_quotes_def)
  then have e: "end_word (?l4\<lparr>lx_where := 0\<rparr>) = ?l5"
    using assms(2) append_butlast_last_id [of "fst t # ?w"] by (simp add: end_word_def)
  have "lex_run n ''>'' ?l4 = map_option id (emit n False ?l5)"
    using e assms(3) t(2) by (simp add: lex_char_def blank_control_def end_tag_def Let_def split: option.splits)
  also have "\<dots> = Some (?l5\<lparr>out_tags := out_tags lx @ [tag_of t]\<rparr>)"
    using words2xmltag_fits [OF assms(1)] assms(4) by (simp add: emit_def)
  finally have 5: "lex_run n ''>'' ?l4 = Some (?l5\<lparr>out_tags := out_tags lx @ [tag_of t]\<rparr>)" .
  have "render_tag t = ''<'' @ [c] @ cs @ concat (map render_def (snd t)) @ ''>''"
    by (simp add: render_tag_def c(1))
  then have "lex_run n (render_tag t) lx = Some (?l5\<lparr>out_tags := out_tags lx @ [tag_of t]\<rparr>)"
    by (simp only: lex_run_append 1 2 3 4 5 option.case)
  then show ?thesis by auto
qed

lemma run_tags:
  "\<forall>t\<in>set ts. tag_fits t \<Longrightarrow> lx_where lx = 0 \<Longrightarrow> dodo lx \<Longrightarrow> length (out_tags lx) + length ts \<le> n \<Longrightarrow>
   \<exists>ws c. lex_run n (concat (map render_tag ts)) lx =
     Some (lx\<lparr>words := ws, cur := c, out_tags := out_tags lx @ map tag_of ts\<rparr>)"
proof (induction ts arbitrary: lx)
  case Nil
  show ?case by (rule exI [of _ "words lx"], rule exI [of _ "cur lx"]) simp
next
  case (Cons t ts)
  obtain ws where 1: "lex_run n (render_tag t) lx = Some (lx\<lparr>words := ws, cur := [], out_tags := out_tags lx @ [tag_of t]\<rparr>)"
    using run_tag [of t lx n] Cons.prems by auto
  obtain ws' c where "lex_run n (concat (map render_tag ts)) (lx\<lparr>words := ws, cur := [], out_tags := out_tags lx @ [tag_of t]\<rparr>) =
      Some (lx\<lparr>words := ws', cur := c, out_tags := out_tags lx @ tag_of t # map tag_of ts\<rparr>)"
    using Cons.IH [of "lx\<lparr>words := ws, cur := [], out_tags := out_tags lx @ [tag_of t]\<rparr>"] Cons.prems by auto
  with 1 show ?case by (auto simp: lex_run_append)
qed

text \<open>The tags that switch the reading on and off.\<close>

lemma run_config:
  "\<exists>ws. lex_run n ''<config>'' lexer0 = Some (lexer0\<lparr>dodo := True, words := ws\<rparr>)"
  by (simp add: lex_char_def blank_control_def put_char_def end_word_def end_tag_def lexer0_def
      strcasecmp_eq_def to_lower_def Let_def)

lemma run_end_config:
  assumes "lx_where lx = 0" "dodo lx"
  shows "\<exists>ws. lex_run n ''</config>'' lx = Some (lx\<lparr>dodo := False, words := ws, cur := []\<rparr>)"
  using assms
  by (intro exI [of _ "[''/config'']"], cases lx) (simp add: lex_char_def blank_control_def put_char_def end_word_def
      end_tag_def strcasecmp_eq_def to_lower_def Let_def)

text \<open>
  C24. A configuration file that writes out tags with their definitions, values in single quotes, is
  read as exactly those tags, in order.
\<close>

theorem xml_roundtrip:
  assumes "\<forall>t\<in>set ts. tag_fits t" "length ts \<le> n" "concat (map cstr ls) = render ts"
  shows "getxmlcfg n (Some ls) = Some (map tag_of ts)"
proof -
  obtain ws where 1: "lex_run n ''<config>'' lexer0 = Some (lexer0\<lparr>dodo := True, words := ws\<rparr>)"
    using run_config by blast
  obtain ws' c where 2: "lex_run n (concat (map render_tag ts)) (lexer0\<lparr>dodo := True, words := ws\<rparr>) =
      Some (lexer0\<lparr>dodo := True, words := ws', cur := c, out_tags := map tag_of ts\<rparr>)"
    using run_tags [OF assms(1), of "lexer0\<lparr>dodo := True, words := ws\<rparr>" n] assms(2)
    by (auto simp: lexer0_def)
  obtain ws'' where 3: "lex_run n ''</config>'' (lexer0\<lparr>dodo := True, words := ws', cur := c, out_tags := map tag_of ts\<rparr>) =
      Some (lexer0\<lparr>dodo := False, words := ws'', cur := [], out_tags := map tag_of ts\<rparr>)"
    using run_end_config [of "lexer0\<lparr>dodo := True, words := ws', cur := c, out_tags := map tag_of ts\<rparr>" n]
    by (auto simp: lexer0_def)
  show ?thesis
    unfolding getxmlcfg_def option.case assms(3) render_def
    by (simp only: lex_run_append 1 2 3 option.case option.map) simp
qed

theorem xml_roundtrip_witness:
  "getxmlcfg 128 (Some [''<config><tuning no_of_symbols='' @ in_quotes ''5000'' @ ''></tuning>'', ''</config>'']) =
     Some [tag_of (''tuning'', [(''no_of_symbols'', ''5000'')]), tag_of (''/tuning'', [])]"
  by (rule xml_roundtrip [of "[(''tuning'', [(''no_of_symbols'', ''5000'')]), (''/tuning'', [])]", simplified])
    (simp_all add: tag_fits_def def_fits_def plain_def quotable_def strcasecmp_eq_def to_lower_def render_def
      render_tag_def render_def_def in_quotes_def)

text \<open>In double quotes a slash ends the tag: it is dropped, and with it all up to the next one.\<close>

lemma slash_in_double_quotes:
  "getxmlcfg 128 (Some [''<config><def file='' @ [CHR 0x22] @ ''/tmp/symb'' @ [CHR 0x22] @ ''></config>'']) = Some []"
  by code_simp

end
