(* ===== verification/ScreenMap.thy ===== *)
theory ScreenMap
  imports ScreenFields XmlConfig
begin

unbundle bit_operations_syntax

text \<open>
  The screens of the viewer: \<^verbatim>\<open>src/quot/map.c\<close> reads the fields of a screen from its tag file and
  \<^verbatim>\<open>header4scrn\<close> of \<^verbatim>\<open>src/quot/monquot.c\<close> draws the heading with the input fields.

  The files are an argument: for a screen number the lines of its file, if there is one. \<^verbatim>\<open>vargv\<close> keeps
  its numbers from tag to tag and is uninitialised at first (\<open>None\<close> in a place). \<^verbatim>\<open>onhelp\<close>, which
  nothing sets, is 0.
\<close>

subsection \<open>The heading\<close>

definition MAX_FLDS :: nat where "MAX_FLDS = 60 * 20"
definition FC_YELLOW :: u32 where "FC_YELLOW = F_COLOR 4"
definition FC_CYAN :: u32 where "FC_CYAN = F_COLOR 7"

abbreviation input_at :: "string \<Rightarrow> int \<Rightarrow> int \<Rightarrow> field" where
  "input_at nm col n \<equiv> \<lparr>fd_type = FT_INPUT, fd_name = nm, fd_row = 2, fd_col = col, fd_len = n, fd_msg = [],
     fd_att = FA_BOLD OR FC_YELLOW, fd_seq = -1, fd_chk = 0\<rparr>"

definition form4hd :: "int \<Rightarrow> string \<Rightarrow> field list" where
  "form4hd col title = [
     \<lparr>fd_type = FT_OUTPUT, fd_name = [], fd_row = 1, fd_col = col, fd_len = 0, fd_msg = title,
      fd_att = FA_BOLD OR FC_YELLOW, fd_seq = -1, fd_chk = 0\<rparr>,
     \<lparr>fd_type = FT_OUTPUT, fd_name = [], fd_row = 2, fd_col = 1, fd_len = 0, fd_msg = ''Choice '',
      fd_att = FA_BOLD OR FC_YELLOW, fd_seq = -1, fd_chk = 0\<rparr>,
     input_at ''iSCRN'' 9 3, input_at ''iHOST'' 13 6, input_at ''iEXCH'' 20 4, input_at ''iSYMB'' 25 32,
     \<lparr>fd_type = FT_OUTPUT, fd_name = ''oNAME'', fd_row = 2, fd_col = 60, fd_len = 128, fd_msg = [],
      fd_att = FA_BOLD OR FC_YELLOW, fd_seq = -1, fd_chk = FLD_IS_LEFT\<rparr>]"

record INPUT =
  i_scrn :: string
  i_exch :: string
  i_host :: string
  i_symb :: string

text \<open>\<^verbatim>\<open>title\<close> has 128 bytes and the message of a field 80.\<close>

definition header4scrn :: "string \<Rightarrow> string \<Rightarrow> INPUT \<Rightarrow> PEN \<Rightarrow> PEN option" where
  "header4scrn scrn name inp t =
     (let title = '' ['' @ scrn @ ''] '' @ name @ '' '';
          col = int (max_col t div 2) - int (length title div 2)
      in if length title \<ge> 80 then None
         else do {
           t1 \<leftarrow> putfld (form4hd col title) True t;
           t2 \<leftarrow> str2fld ''iSCRN'' (i_scrn inp) (snd (endfld t1));
           t3 \<leftarrow> str2fld ''iEXCH'' (i_exch inp) t2;
           t4 \<leftarrow> str2fld ''iHOST'' (i_host inp) t3;
           str2fld ''iSYMB'' (i_symb inp) t4 })"

text \<open>The guide line, 128 bytes.\<close>

definition setguide :: "string \<Rightarrow> time_t \<Rightarrow> PEN \<Rightarrow> PEN option" where
  "setguide msg now t =
     (let errmsg = ''@@@ '' @ msg
      in if length errmsg \<ge> 128 then None
         else pushfld ''oNAME'' errmsg (F_COLOR 2 OR FA_BOLD OR FA_BLINK) False now t)"

definition clrguide :: "time_t \<Rightarrow> PEN \<Rightarrow> PEN option" where
  "clrguide now t = pushfld ''oNAME'' '' '' (FC_YELLOW OR FA_BOLD) False now t"

subsection \<open>The map of a screen\<close>

record MAP =
  mp_pen     :: PEN
  mp_fields  :: "field list"
  mp_flow    :: bool \<comment> \<open>\<^verbatim>\<open>c_flow\<close>: the tag of the screen has been read\<close>
  mp_loop    :: bool
  mp_indx    :: nat
  mp_nrow    :: int
  mp_v       :: "int option list"
  forwarding :: int
  insert_mode :: bool

text \<open>\<^verbatim>\<open>strstr\<close> and the numbers of an \<open>at\<close>: the first place is cleared, then as many as there are are set.\<close>

fun strstr :: "string \<Rightarrow> string \<Rightarrow> bool" where
  "strstr [] w = (w = [])"
| "strstr (c # s) w = (take (length w) (c # s) = w \<or> strstr s w)"

definition put_vals :: "int list \<Rightarrow> int option list \<Rightarrow> int option list" where
  "put_vals ns v = map Some ns @ drop (length ns) (v[0 := Some 0])"

definition txtfld :: "int \<Rightarrow> int \<Rightarrow> string \<Rightarrow> u32 \<Rightarrow> int \<Rightarrow> field" where
  "txtfld row col msg att seq =
     \<lparr>fd_type = FT_OUTPUT, fd_name = [], fd_row = row, fd_col = col, fd_len = 0, fd_msg = msg, fd_att = att,
      fd_seq = seq, fd_chk = 0\<rparr>"

definition add_field :: "field \<Rightarrow> MAP \<Rightarrow> MAP option" where
  "add_field f st = (if length (fd_name f) \<ge> 16 \<or> length (mp_fields st) \<ge> MAX_FLDS then None
     else Some (st\<lparr>mp_fields := mp_fields st @ [f]\<rparr>))"

definition text_tag :: "xmltag \<Rightarrow> MAP \<Rightarrow> MAP option" where
  "text_tag xml st = do {
     (xml1, ns) \<leftarrow> getargx xml ''at'' 2;
     let v = put_vals ns (mp_v st);
     row \<leftarrow> v ! 0;
     col \<leftarrow> v ! 1;
     let (xml2, attr) = getargs xml1 ''attr'';
     let (xml3, fc) = getargs xml2 ''fc'';
     let (xml4, msg) = getargs xml3 ''msg'';
     let att = FC_CYAN OR (if strstr attr ''reverse'' then FA_REVERSE else 0) OR (if strstr attr ''bold'' then FA_BOLD else 0)
       OR (if strstr fc ''green'' then F_COLOR 3 else if strstr fc ''red'' then F_COLOR 2 else 0);
     if length msg \<ge> 80 then None
     else do {
       pen \<leftarrow> putfld [txtfld row col msg att 0] False (mp_pen st);
       Some (st\<lparr>mp_pen := pen, mp_v := v\<rparr>) } }"

definition tfield_tag :: "xmltag \<Rightarrow> MAP \<Rightarrow> MAP option" where
  "tfield_tag xml st = do {
     (xml1, ns) \<leftarrow> getargx xml ''at'' 2;
     let v = put_vals ns (mp_v st);
     row \<leftarrow> v ! 0;
     col \<leftarrow> v ! 1;
     let (xml2, attr) = getargs xml1 ''attr'';
     let (xml3, fc) = getargs xml2 ''fc'';
     let (xml4, msg) = getargs xml3 ''msg'';
     if length msg \<ge> 80 then None
     else do {
       pen \<leftarrow> putfld [txtfld row col msg FC_CYAN (-1)] False (mp_pen st);
       let (xml5, name) = getargs xml4 ''name'';
       let (xml6, n) = getargv xml5 ''len'';
       let (xml7, alignment) = getargs xml6 ''alignment'';
       let st1 = st\<lparr>mp_pen := pen, mp_v := v[0 := Some n]\<rparr>;
       if name = [] \<or> n \<le> 0 then Some st1
       else add_field \<lparr>fd_type = FT_OUTPUT, fd_name = name, fd_row = row, fd_col = col + int (length msg), fd_len = n,
         fd_msg = [], fd_att = F_COLOR 8, fd_seq = -1,
         fd_chk = (if strcasecmp_eq name ''symb'' then FLD_IS_SYMB else 0) OR (if strcasecmp_eq alignment ''left'' then FLD_IS_LEFT else 0)\<rparr> st1 } }"

definition while_tag :: "xmltag \<Rightarrow> MAP \<Rightarrow> MAP" where
  "while_tag xml st =
     (let (xml1, mode) = getargs xml ''mode''; (xml2, n) = getargv xml1 ''howmany''
      in st\<lparr>insert_mode := insert_mode st \<or> strcasecmp_eq mode ''insert'', mp_v := (mp_v st)[0 := Some n],
            mp_indx := length (mp_fields st), mp_nrow := n, mp_loop := True\<rparr>)"

definition field_tag :: "xmltag \<Rightarrow> MAP \<Rightarrow> MAP option" where
  "field_tag xml st = do {
     let (xml1, name) = getargs xml ''name'';
     (xml2, ns) \<leftarrow> getargx xml1 ''at'' 2;
     let v = put_vals ns (mp_v st);
     let (xml3, n) = getargv xml2 ''len'';
     let (xml4, typ) = getargs xml3 ''type'';
     let (xml5, alignment) = getargs xml4 ''alignment'';
     let st1 = st\<lparr>mp_v := v[2 := Some n]\<rparr>;
     row \<leftarrow> v ! 0;
     if name = [] \<or> row \<le> 0 then Some st1
     else do {
       col \<leftarrow> v ! 1;
       if col \<le> 0 \<or> n \<le> 0 then Some st1
       else add_field \<lparr>
         fd_type = (if strcasecmp_eq typ ''input'' then FT_INPUT else if strcasecmp_eq typ ''inout'' then FT_INOUT else FT_OUTPUT),
         fd_name = name, fd_row = row, fd_col = col, fd_len = n, fd_msg = [], fd_att = 0,
         fd_seq = (if mp_loop st then 0 else -1),
         fd_chk = (if strcasecmp_eq name ''symb'' then FLD_IS_SYMB else 0) OR (if strcasecmp_eq alignment ''left'' then FLD_IS_LEFT else 0)\<rparr> st1 } }"

text \<open>The copies of a block, row by row.\<close>

definition copy_row :: "int \<Rightarrow> field \<Rightarrow> field" where
  "copy_row k f = f\<lparr>fd_row := fd_row f + k, fd_seq := k\<rparr>"

definition end_while :: "MAP \<Rightarrow> MAP option" where
  "end_while st =
     (let block = drop (mp_indx st) (mp_fields st);
          fs = mp_fields st @ concat (map (\<lambda>k. map (copy_row k) block) [1..mp_nrow st - 1])
      in if length fs > MAX_FLDS then None else Some (st\<lparr>mp_fields := fs, mp_loop := False\<rparr>))"

text \<open>
  A tag of the screen; the result says whether the screen is complete. The end mark needs one more field.
\<close>

definition map_tag :: "string \<Rightarrow> INPUT \<Rightarrow> xmltag \<Rightarrow> MAP \<Rightarrow> (bool \<times> MAP) option" where
  "map_tag scrn inp xml st =
     (let is = strcasecmp_eq (x_tags xml); more = map_option (Pair False)
      in if \<not> mp_flow st then
           (if \<not> is ''scrn'' then Some (False, st)
            else
              let (xml1, no) = getargs xml ''no''; (xml2, title) = getargs xml1 ''title''
              in if strcmp no scrn \<noteq> 0 then Some (False, st)
                 else more (map_option
                   (\<lambda>pen. st\<lparr>mp_pen := pen, forwarding := snd (getargv xml2 ''forwarding''), mp_flow := True\<rparr>)
                   (header4scrn scrn title inp (mp_pen st))))
         else if is ''/scrn'' then
           (if length (mp_fields st) \<ge> MAX_FLDS then None
            else map_option (\<lambda>pen. (True, st\<lparr>mp_pen := snd (endfld pen)\<rparr>)) (putfld (mp_fields st) False (mp_pen st)))
         else if is ''text'' then more (text_tag xml st)
         else if is ''tfield'' then more (tfield_tag xml st)
         else if is ''while'' then Some (False, while_tag xml st)
         else if is ''field'' then more (field_tag xml st)
         else if is ''/while'' \<and> mp_loop st then more (end_while st)
         else Some (False, st))"

fun map_tags :: "string \<Rightarrow> INPUT \<Rightarrow> xmltag list \<Rightarrow> MAP \<Rightarrow> (bool \<times> MAP) option" where
  "map_tags scrn inp [] st = Some (False, st)"
| "map_tags scrn inp (xml # xs) st = do {
     (fin, st1) \<leftarrow> map_tag scrn inp xml st;
     if fin then Some (True, st1) else map_tags scrn inp xs st1 }"

text \<open>
  \<^verbatim>\<open>mapopen\<close>: -1 without a file, and 0 also when the screen is not in it.
\<close>

definition mapopen :: "(string \<Rightarrow> string list option) \<Rightarrow> string \<Rightarrow> INPUT \<Rightarrow> time_t \<Rightarrow> MAP \<Rightarrow> (int \<times> MAP) option" where
  "mapopen cfg scrn inp now st = do {
     tags \<leftarrow> getxmlcfg 500 (cfg scrn);
     if tags = [] then Some (-1, st)
     else do {
       (fin, st1) \<leftarrow> map_tags scrn inp tags
         (st\<lparr>mp_fields := [], mp_flow := False, mp_loop := False, mp_indx := 0, mp_nrow := 0, mp_v := replicate 16 None\<rparr>);
       if fin then Some (0, st1)
       else do {
         t1 \<leftarrow> setguide (''No such screen number '' @ [CHR 0x27] @ scrn @ [CHR 0x27] @ '' !!!'') now (mp_pen st1);
         t2 \<leftarrow> cur2fld ''iSCRN'' t1;
         Some (0, st1\<lparr>mp_pen := t2\<rparr>) } } }"

definition clearall :: "field list \<Rightarrow> time_t \<Rightarrow> PEN \<Rightarrow> PEN option" where
  "clearall fs now t =
     each (\<lambda>f. pushfld (fd_name f) '' '' (F_COLOR 8) False now) (filter (\<lambda>f. fd_type f = FT_OUTPUT) fs) t"

text \<open>The colour of a text is or-ed to the default: neither green nor red changes it.\<close>

lemma fc_no_effect: "FC_CYAN OR F_COLOR 3 = FC_CYAN" "FC_CYAN OR F_COLOR 2 = FC_CYAN"
  by (simp_all add: FC_CYAN_def F_COLOR_def)

end
