(* ===== verification/PushData.thy ===== *)
theory PushData
  imports MapChecks
begin

text \<open>
  The data of the push system, \<^verbatim>\<open>src/inc/push.h\<close> and \<^verbatim>\<open>src/push/rqsvr.h\<close>: the message that is
  pushed, the board in shared memory (hooks, symbol table, ring of messages), the alarm that tells a
  client of a message, the command of a client, and the broker's view of a client.

  Members keep their C names behind a prefix of their struct. The symbol of a message or a hook is the
  C string it holds; \<^verbatim>\<open>mask_t\<close> is a 32-bit word. Left out are what
  the operations do not use: mutexes, thread identifiers, the offsets of the parts of the segment and
  the copies of the tuning parameters in \<^verbatim>\<open>rt_board\<close>, \<^verbatim>\<open>maxr\<close> of the ring, the polling times, and the
  members for foreign brokers. \<^verbatim>\<open>client->chck\<close> points to the working masks of a batch, which the
  operations take as an argument.
\<close>

subsection \<open>Constants\<close>

definition RT_SET_PID :: int where "RT_SET_PID = 0"
definition RT_RST_SYMB :: int where "RT_RST_SYMB = 1"
definition RT_INS_SYMB :: int where "RT_INS_SYMB = 2"
definition RT_SET_MASK :: int where "RT_SET_MASK = 3"
definition RT_DEL_MASK :: int where "RT_DEL_MASK = 4"
definition RT_DEL_SYMB :: int where "RT_DEL_SYMB = 5"
definition RT_PUSH_MSG :: int where "RT_PUSH_MSG = 6"
definition RT_INI_SYMB :: int where "RT_INI_SYMB = 9"

lemmas RT_defs = RT_SET_PID_def RT_RST_SYMB_def RT_INS_SYMB_def RT_SET_MASK_def RT_DEL_MASK_def
  RT_DEL_SYMB_def RT_PUSH_MSG_def RT_INI_SYMB_def

definition MAX_PUSH_LEN :: nat where "MAX_PUSH_LEN = 800"
definition L_SYMB :: nat where "L_SYMB = 20"
definition ALARM_ID :: "16 word" where "ALARM_ID = 0x7890"

subsection \<open>Integers in memory\<close>

text \<open>The bytes of an integer, lowest first, and the integer of some bytes.\<close>

definition le_bytes :: "nat \<Rightarrow> nat \<Rightarrow> bytes" where
  "le_bytes n v = map (\<lambda>i. char_of (v div 256 ^ i mod 256)) [0..<n]"

definition le_nat :: "bytes \<Rightarrow> nat" where
  "le_nat b = foldr (\<lambda>c v. of_char c + 256 * v) b 0"

lemma length_le_bytes [simp]: "length (le_bytes n v) = n"
  by (simp add: le_bytes_def)

lemma le_bytes_Suc: "le_bytes (Suc n) v = char_of (v mod 256) # le_bytes n (v div 256)"
  by (simp add: le_bytes_def upt_conv_Cons map_Suc_upt [symmetric] div_mult2_eq del: upt_Suc)

lemma le_nat_bytes: "v < 256 ^ n \<Longrightarrow> le_nat (le_bytes n v) = v"
proof (induction n arbitrary: v)
  case 0
  then show ?case by (simp add: le_bytes_def le_nat_def)
next
  case (Suc n)
  then have "v div 256 < 256 ^ n" by (simp add: less_mult_imp_div_less mult.commute)
  with Suc.IH [of "v div 256"] show ?case by (simp add: le_bytes_Suc) (simp add: le_nat_def)
qed

subsection \<open>Messages and alarms\<close>

type_synonym mask_t = u32

record pushmsg =
  g_seqn :: u32
  g_symb :: string
  g_mask :: mask_t
  g_type :: "8 word"
  g_flag :: "8 word"
  g_msgl :: "16 word"
  g_msgb :: bytes

record pushdata =
  mkid    :: int
  pushmsg :: pushmsg

record rt_alarm =
  al_sidx :: "16 word"
  al_indx :: "16 word"
  al_seqn :: u32

record rt_cmd =
  cmd_func :: int
  cmd_mask :: mask_t
  cmd_symb :: bytes \<comment> \<open>all 20 bytes: \<^verbatim>\<open>RT_SET_PID\<close> puts binary data there\<close>

subsection \<open>The board\<close>

record rt_hooked =
  h_symb :: string
  h_many :: "16 word"
  h_mark :: int

record symb =
  y_symb :: string
  y_seqn :: int
  y_mark :: int

record rt_board =
  b_mqid          :: "int list"
  b_alive         :: int
  b_no_of_symbols :: nat
  b_hook          :: "rt_hooked list"

text \<open>All \<open>maxr\<close> records of the table, the first \<open>valr\<close> of them in use.\<close>

record rt_symbol =
  maxr :: nat
  valr :: nat
  symb :: "symb list"

record rt_fifo =
  widx :: int
  push :: "pushmsg list"

text \<open>
  A client of the broker: its socket (\<open>-1\<close> when the room is free), its masks by symbol number, its
  process and network address. \<^verbatim>\<open>RQ_LOCAL\<close> is the only kind that is ever set.
\<close>

definition RQ_LOCAL :: int where "RQ_LOCAL = 1"

record rq_client =
  cl_sock :: int
  cl_flag :: int
  cl_mask :: "mask_t list"
  cl_pid  :: u32
  cl_addr :: u32

definition hook0 :: rt_hooked where
  "hook0 = \<lparr> h_symb = [], h_many = 0, h_mark = 0 \<rparr>"

definition symb0 :: symb where
  "symb0 = \<lparr> y_symb = [], y_seqn = 0, y_mark = 0 \<rparr>"

definition msg0 :: pushmsg where
  "msg0 = \<lparr> g_seqn = 0, g_symb = [], g_mask = 0, g_type = 0, g_flag = 0, g_msgl = 0, g_msgb = [] \<rparr>"

end
