(* ===== verification/Board.thy ===== *)
theory Board
  imports PushData
begin

text \<open>
  The board of the push broker, \<^verbatim>\<open>src/push/board.c\<close>: the table of symbols, sorted by name, and for
  each of its symbol numbers a hook with the count of clients that listen. A symbol number indexes
  the hooks and the masks of every client. The functions run under the board's mutex.

  The broker's shared state is one record, \<open>RQ\<close>. An index out of its array is undefined behaviour
  and makes the result \<open>None\<close>, and so does a name that does not fit its 20 bytes. Symbol numbers are
  kept in a \<^verbatim>\<open>short\<close>.
\<close>

record RQ =
  rt_board      :: rt_board
  rt_symbol     :: rt_symbol
  rt_fifo       :: rt_fifo
  rq_client     :: "rq_client list" \<comment> \<open>\<^verbatim>\<open>no_of_clients\<close> rooms\<close>
  no_of_linked  :: nat
  no_of_symbols :: nat
  dynamic_mode  :: bool
  modified      :: int
  pushseqn      :: u32
  no_of_buffers :: nat

abbreviation hooks :: "RQ \<Rightarrow> rt_hooked list" where
  "hooks rq \<equiv> b_hook (rt_board rq)"

definition upd_hook :: "nat \<Rightarrow> (rt_hooked \<Rightarrow> rt_hooked) \<Rightarrow> RQ \<Rightarrow> RQ" where
  "upd_hook i f rq = rq\<lparr>rt_board := (rt_board rq)\<lparr>b_hook := (hooks rq)[i := f (hooks rq ! i)]\<rparr>\<rparr>"

definition upd_symb :: "nat \<Rightarrow> (symb \<Rightarrow> symb) \<Rightarrow> RQ \<Rightarrow> RQ" where
  "upd_symb i f rq = rq\<lparr>rt_symbol := (rt_symbol rq)\<lparr>symb :=
     (symb (rt_symbol rq))[i := f (symb (rt_symbol rq) ! i)]\<rparr>\<rparr>"

definition upd_client :: "nat \<Rightarrow> (rq_client \<Rightarrow> rq_client) \<Rightarrow> RQ \<Rightarrow> RQ" where
  "upd_client i f rq = rq\<lparr>rq_client := (rq_client rq)[i := f (rq_client rq ! i)]\<rparr>"

subsection \<open>Search\<close>

definition cmp_symb :: "symb \<Rightarrow> symb \<Rightarrow> int" where
  "cmp_symb symb1 symb2 = strcmp (y_symb symb1) (y_symb symb2)"

interpretation symbols: c_compare cmp_symb y_symb
  by unfold_locales (simp_all add: cmp_symb_def)

definition live_symbs :: "RQ \<Rightarrow> symb list" where
  "live_symbs rq = take (valr (rt_symbol rq)) (symb (rt_symbol rq))"

definition find_symb :: "RQ \<Rightarrow> string \<Rightarrow> nat option" where
  "find_symb rq symbcode = bsearch cmp_symb (symb0\<lparr>y_symb := symbcode\<rparr>) (live_symbs rq)"

definition search_symbol_on_board :: "RQ \<Rightarrow> string \<Rightarrow> int option" where
  "search_symbol_on_board rq symbcode =
     (if length symbcode \<ge> L_SYMB then None
      else case find_symb rq symbcode of
             None \<Rightarrow> Some (-1)
           | Some i \<Rightarrow> let y = symb (rt_symbol rq) ! i
                     in if y_mark y = 0 then Some (-1) else Some (y_seqn y))"

subsection \<open>Insertion\<close>

text \<open>The mask of a client and the count of its hook; \<open>chck\<close> is the buffer \<^verbatim>\<open>client->chck\<close>.\<close>

definition subscribe ::
  "nat option \<Rightarrow> int \<Rightarrow> mask_t \<Rightarrow> mask_t list \<Rightarrow> RQ \<Rightarrow> (mask_t list \<times> RQ) option" where
  "subscribe client room mk chck rq =
     (case client of
        None \<Rightarrow> Some (chck, rq)
      | Some c \<Rightarrow>
          if room < 0 \<or> nat room \<ge> length (cl_mask (rq_client rq ! c)) \<or> nat room \<ge> length chck
             \<or> nat room \<ge> length (hooks rq) then None
          else
            let r = nat room;
                m = cl_mask (rq_client rq ! c) ! r;
                rq1 = upd_client c (\<lambda>cl. cl\<lparr>cl_mask := (cl_mask cl)[r := m OR mk]\<rparr>) rq;
                rq2 = (if m = 0 then upd_hook r (\<lambda>h. h\<lparr>h_many := h_many h + 1\<rparr>) rq1 else rq1)
            in Some (chck[r := chck ! r OR mk], rq2))"

definition to_short :: "int \<Rightarrow> int" where
  "to_short n = sint (word_of_int n :: 16 word)"

text \<open>One turn of the loop of \<^verbatim>\<open>cleaning_board\<close>: the state is \<open>(indx, seqn)\<close> and the board.\<close>

definition clean_step :: "nat \<Rightarrow> (int \<times> int) \<times> RQ \<Rightarrow> (int \<times> int) \<times> RQ" where
  "clean_step ii st =
     (let ((indx, seqn), rq) = st;
          jj = y_seqn (symb (rt_symbol rq) ! ii)
      in if jj < 0 \<or> jj \<ge> int (maxr (rt_symbol rq)) then st
         else if h_many (hooks rq ! nat jj) = 0 then
           let rq1 = upd_symb ii (\<lambda>y. y\<lparr>y_mark := 0\<rparr>) (upd_hook ii (\<lambda>h. h\<lparr>h_mark := 0\<rparr>) rq)
           in (if indx = -1 then (int ii, jj) else (indx, seqn), rq1)
         else st)"

definition cleaning_board :: "RQ \<Rightarrow> (int \<times> int) \<times> RQ" where
  "cleaning_board rq =
     (if \<not> dynamic_mode rq then ((-1, -1), rq)
      else fold clean_step [0..<maxr (rt_symbol rq)] ((-1, -1), rq))"

text \<open>A symbol entered in the table at \<open>indx\<close> with the number \<open>room\<close>.\<close>

definition enter_symb :: "string \<Rightarrow> nat \<Rightarrow> int \<Rightarrow> RQ \<Rightarrow> RQ option" where
  "enter_symb symbcode indx room rq =
     (if indx \<ge> length (symb (rt_symbol rq)) then None
      else
        let tab = rt_symbol rq;
            v = max (valr tab) (indx + 1);
            tab1 = (symb tab)[indx := \<lparr> y_symb = symbcode, y_seqn = to_short room, y_mark = 0 \<rparr>];
            rq1 = rq\<lparr>rt_symbol := tab\<lparr>valr := v, symb := qsort cmp_symb (take v tab1) @ drop v tab1\<rparr>\<rparr>
        in case find_symb rq1 symbcode of
             None \<Rightarrow> Some rq1
           | Some i \<Rightarrow>
               let seqn = y_seqn (symb (rt_symbol rq1) ! i)
               in if seqn < 0 \<or> nat seqn \<ge> length (hooks rq1) then None
                  else Some (upd_hook (nat seqn) (\<lambda>h. h\<lparr>h_many := 0, h_symb := symbcode, h_mark := 1\<rparr>)
                              (upd_symb i (\<lambda>y. y\<lparr>y_mark := 1\<rparr>) rq1)))"

definition insert_symbol_to_board ::
  "string \<Rightarrow> nat option \<Rightarrow> mask_t \<Rightarrow> mask_t list \<Rightarrow> RQ \<Rightarrow> (int \<times> mask_t list \<times> RQ) option" where
  "insert_symbol_to_board symbcode client mk chck rq =
     (if length symbcode \<ge> L_SYMB then None
      else case find_symb rq symbcode of
        Some i \<Rightarrow>
          let y = symb (rt_symbol rq) ! i; room = y_seqn y
          in if room < 0 \<or> nat room \<ge> length (hooks rq) then None
             else
               let rq1 = (if y_mark y = 0
                     then (upd_symb i (\<lambda>y. y\<lparr>y_mark := 1\<rparr>)
                            (upd_hook (nat room) (\<lambda>h. h\<lparr>h_many := 0, h_mark := 1\<rparr>) rq))
                            \<lparr>modified := modified rq + 1\<rparr>
                     else rq)
               in map_option (\<lambda>(chck', rq'). (room, chck', rq')) (subscribe client room mk chck rq1)
      | None \<Rightarrow>
          let ((indx, room), rq1) =
                (if valr (rt_symbol rq) \<ge> maxr (rt_symbol rq) then cleaning_board rq
                 else ((int (valr (rt_symbol rq)), int (valr (rt_symbol rq))), rq))
          in if room < 0 \<or> room \<ge> int (no_of_symbols rq) then Some (-1, chck, rq1)
             else case enter_symb symbcode (nat indx) room rq1 of
               None \<Rightarrow> None
             | Some rq2 \<Rightarrow>
                 map_option (\<lambda>(chck', rq'). (room, chck', rq')) (subscribe client room mk chck rq2))"

subsection \<open>Deletion and reset\<close>

definition delete_symbol_from_board :: "string \<Rightarrow> RQ \<Rightarrow> RQ option" where
  "delete_symbol_from_board symbcode rq =
     (if length symbcode \<ge> L_SYMB then None
      else case find_symb rq symbcode of
        None \<Rightarrow> Some rq
      | Some i \<Rightarrow>
          let y = symb (rt_symbol rq) ! i; seqn = y_seqn y
          in if y_mark y = 0 then Some rq
             else
               let rq1 = (upd_symb i (\<lambda>y. y\<lparr>y_mark := 0\<rparr>) rq)\<lparr>modified := modified rq + 1\<rparr>
               in if 0 \<le> seqn \<and> seqn < int (no_of_symbols rq) then
                    if nat seqn < length (hooks rq) then Some (upd_hook (nat seqn) (\<lambda>h. h\<lparr>h_mark := 0\<rparr>) rq1)
                    else None
                  else Some rq1)"

definition reset_symbol_on_board :: "RQ \<Rightarrow> RQ" where
  "reset_symbol_on_board rq = rq\<lparr>
     rt_board := (rt_board rq)\<lparr>b_hook :=
       replicate (no_of_symbols rq) hook0 @ drop (no_of_symbols rq) (hooks rq)\<rparr>,
     rt_symbol := (rt_symbol rq)\<lparr>valr := 0\<rparr>, modified := modified rq + 1\<rparr>"

subsection \<open>Symbol files\<close>

text \<open>
  The file is the list of the lines \<^verbatim>\<open>fgets\<close> reads; \<^verbatim>\<open>%s\<close> takes the first word, for which there are 128
  bytes. Names of more than 19 characters and blank lines are skipped.
\<close>

definition first_word :: "string \<Rightarrow> string" where
  "first_word line = takeWhile (\<lambda>c. \<not> isspace c) (dropWhile isspace (cstr line))"

text \<open>The names of a file, as far as there are rooms; \<open>None\<close> when a word overruns its buffer.\<close>

fun file_names :: "nat \<Rightarrow> string list \<Rightarrow> string list option" where
  "file_names n [] = Some []"
| "file_names n (line # ls) =
     (let w = first_word line
      in if length w \<ge> 128 then None
         else if \<not> (0 < length w \<and> length w \<le> 19) then file_names n ls
         else if n \<le> 1 then Some [w]
         else map_option ((#) w) (file_names (n - 1) ls))"

definition number_symbs :: "symb list \<Rightarrow> symb list" where
  "number_symbs ys = map (\<lambda>(ii, y). y\<lparr>y_seqn := to_short (int ii)\<rparr>) (enumerate 0 ys)"

definition load_names :: "string list \<Rightarrow> RQ \<Rightarrow> RQ option" where
  "load_names names rq =
     (let n = length names; tab = rt_symbol rq
      in if n > length (symb tab) \<or> n > length (hooks rq) then None
         else
           let filled = map (\<lambda>(w, y). y\<lparr>y_symb := w, y_mark := 1\<rparr>) (zip names (symb tab));
               sorted = number_symbs (qsort cmp_symb filled)
           in Some (rq\<lparr>
                rt_symbol := tab\<lparr>valr := n, symb := sorted @ drop n (symb tab)\<rparr>,
                rt_board := (rt_board rq)\<lparr>b_hook :=
                  map (\<lambda>(y, h). h\<lparr>h_symb := y_symb y, h_mark := 1\<rparr>) (zip sorted (hooks rq)) @
                  drop n (hooks rq)\<rparr>\<rparr>))"

text \<open>Both take the file, \<open>None\<close> when it cannot be opened or no path is configured.\<close>

definition symbol_file_to_board :: "string list option \<Rightarrow> RQ \<Rightarrow> RQ option" where
  "symbol_file_to_board symbF rq =
     (if dynamic_mode rq then Some rq
      else case symbF of
        None \<Rightarrow> Some rq
      | Some ls \<Rightarrow>
          (case file_names (no_of_symbols rq) ls of
             None \<Rightarrow> None | Some names \<Rightarrow> load_names names rq))"

definition symbol_pre_load :: "string list option \<Rightarrow> RQ \<Rightarrow> RQ option" where
  "symbol_pre_load symbF rq =
     (case symbF of
        None \<Rightarrow> Some rq
      | Some ls \<Rightarrow>
          (case file_names (no_of_symbols rq) ls of
             None \<Rightarrow> None | Some names \<Rightarrow> load_names names rq))"

text \<open>The lines written, \<open>None\<close> when no file is written.\<close>

definition board_symbol_to_file :: "bool \<Rightarrow> RQ \<Rightarrow> string list option \<times> RQ" where
  "board_symbol_to_file writable rq =
     (if dynamic_mode rq \<or> modified rq = 0 \<or> \<not> writable then (None, rq)
      else (Some (map y_symb (filter (\<lambda>y. y_mark y \<noteq> 0) (live_symbs rq))), rq\<lparr>modified := 0\<rparr>))"

subsection \<open>The invariant\<close>

abbreviation names :: "RQ \<Rightarrow> string list" where "names rq \<equiv> map y_symb (live_symbs rq)"
abbreviation seqns :: "RQ \<Rightarrow> int list" where "seqns rq \<equiv> map y_seqn (live_symbs rq)"

text \<open>
  The table is sorted by name without duplicates and its symbol numbers are those from 0 up to the
  count of symbols, each once; a symbol's hook bears its name. The arrays have room for every
  symbol number, and the numbers stay positive as \<^verbatim>\<open>short\<close>s.
\<close>

definition board_ok :: "RQ \<Rightarrow> bool" where
  "board_ok rq \<longleftrightarrow>
     maxr (rt_symbol rq) = no_of_symbols rq \<and> valr (rt_symbol rq) \<le> maxr (rt_symbol rq) \<and>
     no_of_symbols rq \<le> 32768 \<and> no_of_symbols rq \<le> length (symb (rt_symbol rq)) \<and>
     no_of_symbols rq \<le> length (hooks rq) \<and>
     sorted (names rq) \<and> distinct (names rq) \<and>
     mset (seqns rq) = mset (map int [0..<valr (rt_symbol rq)]) \<and>
     (\<forall>y\<in>set (live_symbs rq). h_symb (hooks rq ! nat (y_seqn y)) = y_symb y) \<and>
     (\<forall>cl\<in>set (rq_client rq). length (cl_mask cl) = no_of_symbols rq)"

lemma board_okD:
  assumes "board_ok rq"
  shows "maxr (rt_symbol rq) = no_of_symbols rq" "valr (rt_symbol rq) \<le> no_of_symbols rq"
    "no_of_symbols rq \<le> 32768" "no_of_symbols rq \<le> length (symb (rt_symbol rq))"
    "no_of_symbols rq \<le> length (hooks rq)" "sorted (names rq)" "distinct (names rq)"
    "mset (seqns rq) = mset (map int [0..<valr (rt_symbol rq)])"
    "y \<in> set (live_symbs rq) \<Longrightarrow> h_symb (hooks rq ! nat (y_seqn y)) = y_symb y"
    "cl \<in> set (rq_client rq) \<Longrightarrow> length (cl_mask cl) = no_of_symbols rq"
    "length (live_symbs rq) = valr (rt_symbol rq)"
  using assms by (auto simp: board_ok_def live_symbs_def)

lemma board_seqn:
  assumes "board_ok rq" "y \<in> set (live_symbs rq)"
  shows "0 \<le> y_seqn y" "nat (y_seqn y) < valr (rt_symbol rq)" "nat (y_seqn y) < no_of_symbols rq"
    "nat (y_seqn y) < length (hooks rq)"
proof -
  have "y_seqn y \<in> set (seqns rq)" using assms(2) by auto
  also have "set (seqns rq) = int ` {0..<valr (rt_symbol rq)}"
    using board_okD(8) [OF assms(1)] by (metis mset_eq_setD set_map set_upt)
  finally show "0 \<le> y_seqn y" "nat (y_seqn y) < valr (rt_symbol rq)" by auto
  then show "nat (y_seqn y) < no_of_symbols rq" "nat (y_seqn y) < length (hooks rq)"
    using board_okD [OF assms(1)] by linarith+
qed

lemma board_seqns_distinct: "board_ok rq \<Longrightarrow> distinct (seqns rq)"
proof -
  have "distinct (map int [0..<n])" for n by (simp add: distinct_map)
  then show "board_ok rq \<Longrightarrow> distinct (seqns rq)" by (metis board_okD(8) mset_eq_imp_distinct_iff)
qed

lemma board_seqn_inj:
  assumes "board_ok rq" "y \<in> set (live_symbs rq)" "z \<in> set (live_symbs rq)" "y_seqn y = y_seqn z"
  shows "y = z"
  using board_seqns_distinct [OF assms(1)] assms by (auto simp: distinct_map dest: inj_onD)

lemma board_name_inj:
  assumes "board_ok rq" "y \<in> set (live_symbs rq)" "z \<in> set (live_symbs rq)" "y_symb y = y_symb z"
  shows "y = z"
  using board_okD(7) [OF assms(1)] assms by (auto simp: distinct_map dest: inj_onD)

text \<open>The table as a map from a name to its symbol number.\<close>

definition rooms :: "RQ \<Rightarrow> string \<rightharpoonup> nat" where
  "rooms rq = map_of (map (\<lambda>y. (y_symb y, nat (y_seqn y))) (live_symbs rq))"

lemma rooms_Some_iff:
  assumes "board_ok rq"
  shows "rooms rq s = Some r \<longleftrightarrow> (\<exists>y\<in>set (live_symbs rq). y_symb y = s \<and> nat (y_seqn y) = r)"
proof -
  have "distinct (map fst (map (\<lambda>y. (y_symb y, nat (y_seqn y))) (live_symbs rq)))"
    using board_okD(7) [OF assms] by (simp add: comp_def)
  from map_of_eq_Some_iff [OF this] show ?thesis by (auto simp: rooms_def)
qed

lemma rooms_None_iff: "rooms rq s = None \<longleftrightarrow> s \<notin> set (names rq)"
  by (force simp: rooms_def map_of_eq_None_iff)

lemma rooms_inj:
  assumes "board_ok rq" "rooms rq s = Some r" "rooms rq t = Some r"
  shows "s = t"
proof -
  obtain y z where "y \<in> set (live_symbs rq)" "y_symb y = s" "nat (y_seqn y) = r"
    "z \<in> set (live_symbs rq)" "y_symb z = t" "nat (y_seqn z) = r"
    using assms by (auto simp: rooms_Some_iff)
  then show ?thesis using board_seqn_inj [OF assms(1), of y z] board_seqn(1) [OF assms(1)]
    by (metis int_nat_eq)
qed

lemma rooms_bound: "board_ok rq \<Longrightarrow> rooms rq s = Some r \<Longrightarrow> r < valr (rt_symbol rq) \<and> r < no_of_symbols rq"
  by (auto simp: rooms_Some_iff board_seqn)

lemma find_symb_Some_iff:
  assumes "board_ok rq"
  shows "find_symb rq s = Some i \<longleftrightarrow> i < valr (rt_symbol rq) \<and> y_symb (symb (rt_symbol rq) ! i) = s"
proof -
  have "valr (rt_symbol rq) \<le> length (symb (rt_symbol rq))" using board_okD [OF assms] by linarith
  then show ?thesis using board_okD(6,7) [OF assms]
    by (auto simp: find_symb_def symbols.bsearch_iff live_symbs_def)
qed

lemma live_symbs_nth: "i < valr (rt_symbol rq) \<Longrightarrow> live_symbs rq ! i = symb (rt_symbol rq) ! i"
  by (simp add: live_symbs_def)

lemma find_symb_rooms:
  assumes "board_ok rq"
  shows "find_symb rq s = None \<longleftrightarrow> rooms rq s = None"
    and "find_symb rq s = Some i \<Longrightarrow> rooms rq s = Some (nat (y_seqn (symb (rt_symbol rq) ! i))) \<and>
      symb (rt_symbol rq) ! i \<in> set (live_symbs rq) \<and> y_symb (symb (rt_symbol rq) ! i) = s"
proof -
  show "find_symb rq s = None \<longleftrightarrow> rooms rq s = None"
    using board_okD(6) [OF assms]
    by (simp add: find_symb_def symbols.bsearch_None_iff rooms_None_iff)
  assume "find_symb rq s = Some i"
  then have i: "i < valr (rt_symbol rq)" "y_symb (symb (rt_symbol rq) ! i) = s"
    using find_symb_Some_iff [OF assms] by auto
  then have "symb (rt_symbol rq) ! i \<in> set (live_symbs rq)"
    using board_okD(11) [OF assms] by (metis live_symbs_nth nth_mem)
  with i show "rooms rq s = Some (nat (y_seqn (symb (rt_symbol rq) ! i))) \<and>
      symb (rt_symbol rq) ! i \<in> set (live_symbs rq) \<and> y_symb (symb (rt_symbol rq) ! i) = s"
    using rooms_Some_iff [OF assms] by auto
qed

lemma search_rooms:
  assumes "board_ok rq" "length s < L_SYMB"
  shows "\<exists>v. search_symbol_on_board rq s = Some v \<and>
    (v = -1 \<or> 0 \<le> v \<and> rooms rq s = Some (nat v) \<and> nat v < no_of_symbols rq)"
  using find_symb_rooms(2) [OF assms(1)] board_seqn [OF assms(1)] assms(2)
  by (cases "find_symb rq s") (auto simp: search_symbol_on_board_def Let_def)

subsection \<open>Updates that the invariant does not see\<close>

text \<open>All but marks, counts and masks of the same length.\<close>

definition same_table :: "RQ \<Rightarrow> RQ \<Rightarrow> bool" where
  "same_table rq rq' \<longleftrightarrow>
     maxr (rt_symbol rq') = maxr (rt_symbol rq) \<and> valr (rt_symbol rq') = valr (rt_symbol rq) \<and>
     no_of_symbols rq' = no_of_symbols rq \<and>
     map (\<lambda>y. (y_symb y, y_seqn y)) (symb (rt_symbol rq')) = map (\<lambda>y. (y_symb y, y_seqn y)) (symb (rt_symbol rq)) \<and>
     map h_symb (hooks rq') = map h_symb (hooks rq) \<and>
     map (\<lambda>cl. length (cl_mask cl)) (rq_client rq') = map (\<lambda>cl. length (cl_mask cl)) (rq_client rq)"

lemma same_table_refl [simp]: "same_table rq rq"
  by (simp add: same_table_def)

lemma same_table_trans: "same_table a b \<Longrightarrow> same_table b c \<Longrightarrow> same_table a c"
  by (simp add: same_table_def)

lemma same_table_lengths:
  assumes "same_table rq rq'"
  shows "length (symb (rt_symbol rq')) = length (symb (rt_symbol rq))" "length (hooks rq') = length (hooks rq)"
    "length (rq_client rq') = length (rq_client rq)"
  using assms by (auto simp: same_table_def dest: map_eq_imp_length_eq)

lemma same_table_live:
  assumes "same_table rq rq'"
  shows "map (\<lambda>y. (y_symb y, y_seqn y)) (live_symbs rq') = map (\<lambda>y. (y_symb y, y_seqn y)) (live_symbs rq)"
  using assms by (simp add: same_table_def live_symbs_def take_map [symmetric])

lemma same_table_names:
  assumes "same_table rq rq'"
  shows "names rq' = names rq" "seqns rq' = seqns rq"
proof -
  have "map fst (map (\<lambda>y. (y_symb y, y_seqn y)) (live_symbs rq')) = map fst (map (\<lambda>y. (y_symb y, y_seqn y)) (live_symbs rq))"
    "map snd (map (\<lambda>y. (y_symb y, y_seqn y)) (live_symbs rq')) = map snd (map (\<lambda>y. (y_symb y, y_seqn y)) (live_symbs rq))"
    using same_table_live [OF assms] by simp_all
  then show "names rq' = names rq" "seqns rq' = seqns rq" by (simp_all add: comp_def)
qed

lemma same_table_rooms:
  assumes "same_table rq rq'"
  shows "rooms rq' = rooms rq"
proof -
  have *: "map (\<lambda>y. (y_symb y, nat (y_seqn y))) ys = map (\<lambda>(a, b). (a, nat b)) (map (\<lambda>y. (y_symb y, y_seqn y)) ys)" for ys :: "symb list"
    by simp
  show ?thesis unfolding rooms_def using same_table_live [OF assms] by (simp only: *)
qed

lemma ball_map: "(\<forall>y\<in>set xs. P (f y)) \<longleftrightarrow> (\<forall>z\<in>set (map f xs). P z)"
  by simp

lemma same_table_ok [inv_pres]:
  assumes "same_table rq rq'" "board_ok rq"
  shows "board_ok rq'"
proof -
  note l = same_table_lengths [OF assms(1)] and b = board_okD [OF assms(2)]
  have s: "maxr (rt_symbol rq') = maxr (rt_symbol rq)" "valr (rt_symbol rq') = valr (rt_symbol rq)"
    "no_of_symbols rq' = no_of_symbols rq" "map h_symb (hooks rq') = map h_symb (hooks rq)"
    "map (\<lambda>cl. length (cl_mask cl)) (rq_client rq') = map (\<lambda>cl. length (cl_mask cl)) (rq_client rq)"
    using assms(1) by (simp_all add: same_table_def)
  have hs: "h_symb (hooks rq' ! i) = h_symb (hooks rq ! i)" if "i < length (hooks rq)" for i
    using s(4) that l(2) by (metis nth_map)
  have "h_symb (hooks rq' ! nat (y_seqn y)) = y_symb y" if y: "y \<in> set (live_symbs rq')" for y
  proof -
    have "(y_symb y, y_seqn y) \<in> set (map (\<lambda>y. (y_symb y, y_seqn y)) (live_symbs rq))"
      using y same_table_live [OF assms(1)] by (metis (mono_tags, lifting) image_eqI list.set_map)
    then obtain z where z: "z \<in> set (live_symbs rq)" "y_symb z = y_symb y" "y_seqn z = y_seqn y" by auto
    then show ?thesis using hs [OF board_seqn(4) [OF assms(2) z(1)]] b(9) [OF z(1)] by simp
  qed
  moreover have "length (cl_mask cl) = no_of_symbols rq'" if "cl \<in> set (rq_client rq')" for cl
  proof -
    have "length (cl_mask cl) \<in> set (map (\<lambda>cl. length (cl_mask cl)) (rq_client rq))"
      using that s(5) by (metis (mono_tags, lifting) image_eqI list.set_map)
    then show ?thesis using b(10) s(3) by auto
  qed
  ultimately show ?thesis using b l s same_table_names [OF assms(1)] by (simp add: board_ok_def)
qed

lemma list_update_map_same: "f x = f (xs ! i) \<Longrightarrow> map f (xs[i := x]) = map f xs"
  using list_update_id [of "map f xs" i]
  by (cases "i < length xs") (simp_all add: map_update list_update_beyond)

lemma upd_hook_same [simp]:
  assumes "\<And>h. h_symb (f h) = h_symb h"
  shows "same_table rq (upd_hook i f rq)"
  using assms by (simp add: same_table_def upd_hook_def list_update_map_same)

lemma upd_symb_same [simp]:
  assumes "\<And>y. y_symb (f y) = y_symb y" "\<And>y. y_seqn (f y) = y_seqn y"
  shows "same_table rq (upd_symb i f rq)"
  using assms by (simp add: same_table_def upd_symb_def list_update_map_same)

lemma upd_client_same [simp]:
  assumes "\<And>cl. length (cl_mask (f cl)) = length (cl_mask cl)"
  shows "same_table rq (upd_client i f rq)"
  using assms by (simp add: same_table_def upd_client_def list_update_map_same)

subsection \<open>Entering a symbol\<close>

lemma qsort_map:
  assumes "\<And>x y. cmp (f x) (f y) = cmp x y"
  shows "qsort cmp (map f xs) = map f (qsort cmp xs)"
proof -
  have "ins_by cmp (f x) (map f ys) = map f (ins_by cmp x ys)" for x ys
    by (induction ys) (simp_all add: assms)
  then show ?thesis by (induction xs) simp_all
qed

lemma list_update_map_if:
  assumes "distinct (map g xs)" "i < length xs"
  shows "xs[i := f (xs ! i)] = map (\<lambda>x. if g x = g (xs ! i) then f x else x) xs"
proof (rule nth_equalityI)
  fix j assume "j < length (xs[i := f (xs ! i)])"
  then show "xs[i := f (xs ! i)] ! j = map (\<lambda>x. if g x = g (xs ! i) then f x else x) xs ! j"
    using assms by (auto simp: nth_list_update nth_eq_iff_index_eq dest: nth_eq_iff_index_eq [of "map g xs" i j])
qed simp

lemma upd_symb_live:
  assumes "i < valr (rt_symbol rq)"
  shows "live_symbs (upd_symb i f rq) = (live_symbs rq)[i := f (live_symbs rq ! i)]"
  using assms by (simp add: live_symbs_def upd_symb_def take_update_swap)

lemma upd_frames [simp, frame]:
  "rt_symbol (upd_hook i f rq) = rt_symbol rq" "rq_client (upd_hook i f rq) = rq_client rq"
  "no_of_symbols (upd_hook i f rq) = no_of_symbols rq"
  "rt_board (upd_symb i g rq) = rt_board rq" "rq_client (upd_symb i g rq) = rq_client rq"
  "no_of_symbols (upd_symb i g rq) = no_of_symbols rq"
  "maxr (rt_symbol (upd_symb i g rq)) = maxr (rt_symbol rq)" "valr (rt_symbol (upd_symb i g rq)) = valr (rt_symbol rq)"
  "rt_board (upd_client i k rq) = rt_board rq" "rt_symbol (upd_client i k rq) = rt_symbol rq"
  "no_of_symbols (upd_client i k rq) = no_of_symbols rq"
  "live_symbs (upd_hook i f rq) = live_symbs rq" "live_symbs (upd_client i k rq) = live_symbs rq"
  "dynamic_mode (upd_hook i f rq) = dynamic_mode rq" "dynamic_mode (upd_symb i g rq) = dynamic_mode rq"
  "dynamic_mode (upd_client i k rq) = dynamic_mode rq"
  "rt_fifo (upd_hook i f rq) = rt_fifo rq" "rt_fifo (upd_symb i g rq) = rt_fifo rq" "rt_fifo (upd_client i k rq) = rt_fifo rq"
  by (simp_all add: upd_hook_def upd_symb_def upd_client_def live_symbs_def)

lemma hooks_upd_hook: "hooks (upd_hook i f rq) = (hooks rq)[i := f (hooks rq ! i)]"
  by (simp add: upd_hook_def)

lemma hooks_frames [simp, frame]:
  "hooks (upd_symb i g rq) = hooks rq" "hooks (upd_client i k rq) = hooks rq"
  by simp_all

text \<open>
  A new name put at the end of the table with the next number, or over a record whose number it
  takes. The rest of the table stays.
\<close>

definition entry_place :: "RQ \<Rightarrow> nat \<Rightarrow> nat \<Rightarrow> bool" where
  "entry_place rq indx room \<longleftrightarrow>
     indx = valr (rt_symbol rq) \<and> room = indx \<and> indx < no_of_symbols rq \<or>
     indx < valr (rt_symbol rq) \<and> y_seqn (live_symbs rq ! indx) = int room"

definition others :: "RQ \<Rightarrow> nat \<Rightarrow> symb set" where
  "others rq indx = {live_symbs rq ! j | j. j < valr (rt_symbol rq) \<and> j \<noteq> indx}"

lemma to_short_id: "0 \<le> n \<Longrightarrow> n < 32768 \<Longrightarrow> to_short n = n"
  by (simp add: to_short_def int_word_sint)

lemma entry_place_bound:
  assumes "board_ok rq" "entry_place rq indx room"
  shows "indx < no_of_symbols rq" "room < no_of_symbols rq" "to_short (int room) = int room"
proof -
  note b = board_okD [OF assms(1)]
  show r: "indx < no_of_symbols rq" "room < no_of_symbols rq"
    using assms b board_seqn(3) [OF assms(1), of "live_symbs rq ! indx"]
    by (auto simp: entry_place_def)
  from r(2) b(3) show "to_short (int room) = int room" by (intro to_short_id) auto
qed

text \<open>The records in use with the new one among them, before they are sorted.\<close>

definition with_entry :: "string \<Rightarrow> nat \<Rightarrow> nat \<Rightarrow> RQ \<Rightarrow> symb list" where
  "with_entry s indx room rq = take (max (valr (rt_symbol rq)) (indx + 1))
     ((symb (rt_symbol rq))[indx := \<lparr>y_symb = s, y_seqn = int room, y_mark = 0\<rparr>])"

lemma with_entry_end:
  assumes "board_ok rq" "entry_place rq indx room" "indx = valr (rt_symbol rq)"
  shows "with_entry s indx room rq = live_symbs rq @ [\<lparr>y_symb = s, y_seqn = int room, y_mark = 0\<rparr>]"
proof -
  have "indx < length (symb (rt_symbol rq))"
    using entry_place_bound(1) [OF assms(1,2)] board_okD(4) [OF assms(1)] by simp
  then have "take (Suc indx) ((symb (rt_symbol rq))[indx := x]) = take indx (symb (rt_symbol rq)) @ [x]" for x
    by (simp add: take_Suc_conv_app_nth)
  with assms(3) show ?thesis by (simp add: with_entry_def live_symbs_def)
qed

lemma with_entry_over:
  assumes "entry_place rq indx room" "indx \<noteq> valr (rt_symbol rq)"
  shows "with_entry s indx room rq = (live_symbs rq)[indx := \<lparr>y_symb = s, y_seqn = int room, y_mark = 0\<rparr>]"
    and "max (valr (rt_symbol rq)) (indx + 1) = valr (rt_symbol rq)" "indx < valr (rt_symbol rq)"
    "y_seqn (live_symbs rq ! indx) = int room"
proof -
  show "max (valr (rt_symbol rq)) (indx + 1) = valr (rt_symbol rq)" "indx < valr (rt_symbol rq)"
    "y_seqn (live_symbs rq ! indx) = int room"
    using assms by (auto simp: entry_place_def)
  then show "with_entry s indx room rq = (live_symbs rq)[indx := \<lparr>y_symb = s, y_seqn = int room, y_mark = 0\<rparr>]"
    by (simp add: with_entry_def live_symbs_def take_update_swap)
qed

lemma set_update_others:
  "i < length xs \<Longrightarrow> set (xs[i := x]) = insert x {xs ! j | j. j < length xs \<and> j \<noteq> i}"
  by (auto simp: set_conv_nth nth_list_update)

lemma with_entry_table:
  assumes ok: "board_ok rq" and new: "rooms rq s = None" and place: "entry_place rq indx room"
  shows "set (with_entry s indx room rq) = insert \<lparr>y_symb = s, y_seqn = int room, y_mark = 0\<rparr> (others rq indx)"
    and "distinct (map y_symb (with_entry s indx room rq))"
    and "mset (map y_seqn (with_entry s indx room rq)) = mset (map int [0..<max (valr (rt_symbol rq)) (indx + 1)])"
proof -
  let ?new = "\<lparr>y_symb = s, y_seqn = int room, y_mark = 0\<rparr>"
  note b = board_okD [OF ok]
  have s: "s \<notin> set (names rq)" using new rooms_None_iff by simp
  have "set (with_entry s indx room rq) = insert ?new (others rq indx) \<and>
    distinct (map y_symb (with_entry s indx room rq)) \<and>
    mset (map y_seqn (with_entry s indx room rq)) = mset (map int [0..<max (valr (rt_symbol rq)) (indx + 1)])"
  proof (cases "indx = valr (rt_symbol rq)")
    case True
    with place have "room = indx" by (auto simp: entry_place_def)
    moreover have "set (live_symbs rq) = others rq indx"
      using b(11) True by (auto simp: others_def set_conv_nth)
    ultimately show ?thesis
      using with_entry_end [OF ok place True, of s] s b(7,8) True by simp
  next
    case False
    note o = with_entry_over [OF place False]
    have i: "indx < length (live_symbs rq)" using o(3) b(11) by simp
    have "map y_seqn (with_entry s indx room rq) = seqns rq"
      using o i by (simp add: list_update_map_same)
    moreover have "distinct (map y_symb (with_entry s indx room rq))"
      using o(1) s b(7) distinct_list_update [of "names rq" s indx] by (simp add: map_update)
    ultimately show ?thesis
      using o b(8) set_update_others [OF i, of ?new] b(11) by (simp add: others_def)
  qed
  then show "set (with_entry s indx room rq) = insert ?new (others rq indx)"
    "distinct (map y_symb (with_entry s indx room rq))"
    "mset (map y_seqn (with_entry s indx room rq)) = mset (map int [0..<max (valr (rt_symbol rq)) (indx + 1)])"
    by blast+
qed

lemma others_props:
  assumes ok: "board_ok rq" and place: "entry_place rq indx room" and y: "y \<in> others rq indx"
  shows "y \<in> set (live_symbs rq)" "nat (y_seqn y) \<noteq> room"
proof -
  from y obtain j where j: "y = live_symbs rq ! j" "j < length (live_symbs rq)" "j \<noteq> indx"
    using board_okD(11) [OF ok] by (auto simp: others_def)
  then show live: "y \<in> set (live_symbs rq)" by simp
  show "nat (y_seqn y) \<noteq> room"
  proof (cases "indx = valr (rt_symbol rq)")
    case True
    with place board_seqn [OF ok live] show ?thesis by (auto simp: entry_place_def)
  next
    case False
    note o = with_entry_over(3,4) [OF place False]
    have "seqns rq ! indx \<noteq> seqns rq ! j"
      using board_seqns_distinct [OF ok] j o board_okD(11) [OF ok]
        nth_eq_iff_index_eq [of "seqns rq" indx j] by (simp del: nth_map)
    then show ?thesis using o j board_seqn(1) [OF ok live] board_okD(11) [OF ok] by auto
  qed
qed

lemma enter_symb_eq:
  assumes ok: "board_ok rq" and new: "rooms rq s = None" and place: "entry_place rq indx room"
  defines "v \<equiv> max (valr (rt_symbol rq)) (indx + 1)"
  obtains rq' where "enter_symb s indx (int room) rq = Some rq'"
    "live_symbs rq' = map (\<lambda>y. if y_symb y = s then y\<lparr>y_mark := 1\<rparr> else y) (qsort cmp_symb (with_entry s indx room rq))"
    "length (symb (rt_symbol rq')) = length (symb (rt_symbol rq))"
    "hooks rq' = (hooks rq)[room := (hooks rq ! room)\<lparr>h_many := 0, h_symb := s, h_mark := 1\<rparr>]"
    "rq_client rq' = rq_client rq" "no_of_symbols rq' = no_of_symbols rq"
    "valr (rt_symbol rq') = v" "maxr (rt_symbol rq') = maxr (rt_symbol rq)"
    "dynamic_mode rq' = dynamic_mode rq" "rt_fifo rq' = rt_fifo rq"
proof -
  note b = board_okD [OF ok] and bd = entry_place_bound [OF ok place]
  note e = with_entry_table [OF ok new place]
  define T where "T = with_entry s indx room rq"
  define tab1 where "tab1 = (symb (rt_symbol rq))[indx := \<lparr>y_symb = s, y_seqn = int room, y_mark = 0\<rparr>]"
  define rq1 where "rq1 = rq\<lparr>rt_symbol := (rt_symbol rq)\<lparr>valr := v, symb := qsort cmp_symb T @ drop v tab1\<rparr>\<rparr>"
  have v: "v \<le> length (symb (rt_symbol rq))" using bd b by (auto simp: v_def)
  have len: "length T = v" using v by (simp add: T_def with_entry_def v_def)
  have live1: "live_symbs rq1 = qsort cmp_symb T" using len by (simp add: live_symbs_def rq1_def)
  have "\<exists>y\<in>set (live_symbs rq1). y_symb y = s" using e(1) live1 by (auto simp: T_def)
  then obtain i where i: "find_symb rq1 s = Some i"
    using symbols.sorted_qsort [of T] live1
    by (cases "find_symb rq1 s") (auto simp: find_symb_def symbols.bsearch_None_iff)
  then have i': "i < v" "y_symb (qsort cmp_symb T ! i) = s"
    using symbols.bsearch_Some live1 len by (fastforce simp: find_symb_def)+
  have iT: "symb (rt_symbol rq1) ! i = \<lparr>y_symb = s, y_seqn = int room, y_mark = 0\<rparr>"
  proof -
    have "qsort cmp_symb T ! i \<in> set T" using i'(1) len by (metis length_qsort nth_mem set_qsort)
    moreover have "y_symb y \<noteq> s" if "y \<in> others rq indx" for y
      using others_props(1) [OF ok place that] new rooms_None_iff by force
    ultimately have "qsort cmp_symb T ! i = \<lparr>y_symb = s, y_seqn = int room, y_mark = 0\<rparr>"
      using i'(2) e(1) by (auto simp: T_def)
    with i'(1) len show ?thesis by (simp add: rq1_def nth_append)
  qed
  let ?rq' = "upd_hook room (\<lambda>h. h\<lparr>h_many := 0, h_symb := s, h_mark := 1\<rparr>) (upd_symb i (\<lambda>y. y\<lparr>y_mark := 1\<rparr>) rq1)"
  have enter: "enter_symb s indx (int room) rq = Some ?rq'"
    using i iT bd b(4,5) by (simp add: enter_symb_def Let_def rq1_def T_def tab1_def with_entry_def v_def)
  have dist: "distinct (map y_symb (qsort cmp_symb T))"
    using e(2) symbols.distinct_qsort [of T] by (simp add: T_def)
  have "live_symbs ?rq' = (qsort cmp_symb T)[i := (qsort cmp_symb T ! i)\<lparr>y_mark := 1\<rparr>]"
    using i'(1) live1 by (simp add: upd_symb_live rq1_def)
  also have "\<dots> = map (\<lambda>y. if y_symb y = s then y\<lparr>y_mark := 1\<rparr> else y) (qsort cmp_symb T)"
    using list_update_map_if [OF dist, of i "\<lambda>y. y\<lparr>y_mark := 1\<rparr>"] i' len by simp
  finally show thesis using enter v len
    by (intro that [of ?rq']) (simp_all add: T_def hooks_upd_hook upd_symb_def rq1_def tab1_def v_def)
qed

lemma enter_symb_ok:
  assumes ok: "board_ok rq" and new: "rooms rq s = None" and place: "entry_place rq indx room"
  obtains rq' where "enter_symb s indx (int room) rq = Some rq'" "board_ok rq'"
    "set (live_symbs rq') = insert \<lparr>y_symb = s, y_seqn = int room, y_mark = 1\<rparr> (others rq indx)"
    "hooks rq' = (hooks rq)[room := (hooks rq ! room)\<lparr>h_many := 0, h_symb := s, h_mark := 1\<rparr>]"
    "rq_client rq' = rq_client rq" "no_of_symbols rq' = no_of_symbols rq"
    "valr (rt_symbol rq') = max (valr (rt_symbol rq)) (indx + 1)" "maxr (rt_symbol rq') = maxr (rt_symbol rq)"
    "dynamic_mode rq' = dynamic_mode rq" "rt_fifo rq' = rt_fifo rq"
proof -
  note b = board_okD [OF ok] and bd = entry_place_bound [OF ok place]
  note e = with_entry_table [OF ok new place]
  define T where "T = with_entry s indx room rq"
  define f :: "symb \<Rightarrow> symb" where "f = (\<lambda>y. if y_symb y = s then y\<lparr>y_mark := 1\<rparr> else y)"
  obtain rq' where r: "enter_symb s indx (int room) rq = Some rq'"
    "live_symbs rq' = map f (qsort cmp_symb T)"
    "length (symb (rt_symbol rq')) = length (symb (rt_symbol rq))"
    "hooks rq' = (hooks rq)[room := (hooks rq ! room)\<lparr>h_many := 0, h_symb := s, h_mark := 1\<rparr>]"
    "rq_client rq' = rq_client rq" "no_of_symbols rq' = no_of_symbols rq"
    "valr (rt_symbol rq') = max (valr (rt_symbol rq)) (indx + 1)" "maxr (rt_symbol rq') = maxr (rt_symbol rq)"
    "dynamic_mode rq' = dynamic_mode rq" "rt_fifo rq' = rt_fifo rq"
    unfolding T_def f_def by (rule enter_symb_eq [OF ok new place])
  have old: "y_symb y \<noteq> s" if "y \<in> others rq indx" for y
    using others_props(1) [OF ok place that] new rooms_None_iff by force
  have fs: "y_symb (f y) = y_symb y" "y_seqn (f y) = y_seqn y" for y by (simp_all add: f_def)
  have live: "set (live_symbs rq') = insert \<lparr>y_symb = s, y_seqn = int room, y_mark = 1\<rparr> (others rq indx)"
    using r(2) e(1) old by (auto simp: T_def f_def image_iff)
  have nm: "names rq' = map y_symb (qsort cmp_symb T)" "seqns rq' = map y_seqn (qsort cmp_symb T)"
    using r(2) fs by (simp_all add: comp_def)
  have hook: "h_symb (hooks rq' ! nat (y_seqn y)) = y_symb y" if "y \<in> set (live_symbs rq')" for y
  proof (cases "y \<in> others rq indx")
    case True
    with others_props [OF ok place True] b(9) r(4) show ?thesis by simp
  next
    case False
    with that live have "y = \<lparr>y_symb = s, y_seqn = int room, y_mark = 1\<rparr>" by blast
    with r(4) bd(2) b(5) show ?thesis by simp
  qed
  have "mset (seqns rq') = mset (map y_seqn T)" using nm(2) by (metis mset_map mset_qsort)
  then have "mset (seqns rq') = mset (map int [0..<valr (rt_symbol rq')])"
    using e(3) r(7) by (simp add: T_def)
  moreover have "sorted (names rq')" "distinct (names rq')"
    using nm(1) symbols.sorted_qsort [of T] symbols.distinct_qsort [of T] e(2) by (simp_all add: T_def)
  ultimately have "board_ok rq'"
    using hook r(3-10) b(1-5,10) bd(1) by (simp add: board_ok_def)
  with r live show thesis by (intro that)
qed

subsection \<open>The rooms after an entry and after a cleaning\<close>

lemma rooms_enter_end:
  assumes "board_ok rq" "board_ok rq'" "rooms rq s = None"
    and "set (live_symbs rq') = insert \<lparr>y_symb = s, y_seqn = int room, y_mark = 1\<rparr> (set (live_symbs rq))"
  shows "rooms rq' = (rooms rq)(s \<mapsto> room)"
proof (rule map_eqI)
  fix t r
  have "y_symb y \<noteq> s" if "y \<in> set (live_symbs rq)" for y
    using assms(3) that rooms_None_iff by force
  then show "rooms rq' t = Some r \<longleftrightarrow> ((rooms rq)(s \<mapsto> room)) t = Some r"
    using assms(4) by (auto simp: rooms_Some_iff [OF assms(1)] rooms_Some_iff [OF assms(2)])
qed

text \<open>What a cleaning leaves as it was, and what it finds.\<close>

definition cleaned :: "RQ \<Rightarrow> nat \<Rightarrow> (int \<times> int) \<times> RQ \<Rightarrow> bool" where
  "cleaned rq n st \<longleftrightarrow>
     (let ((indx, seqn), rq') = st
      in same_table rq rq' \<and> map h_many (hooks rq') = map h_many (hooks rq) \<and>
         rq_client rq' = rq_client rq \<and> dynamic_mode rq' = dynamic_mode rq \<and> rt_fifo rq' = rt_fifo rq \<and>
         (\<forall>j<valr (rt_symbol rq). y_mark (symb (rt_symbol rq') ! j) = y_mark (symb (rt_symbol rq) ! j) \<or>
            h_many (hooks rq ! nat (y_seqn (symb (rt_symbol rq) ! j))) = 0) \<and>
         (indx = -1 \<and> seqn = -1 \<or>
          (\<exists>i<n. indx = int i \<and> seqn = y_seqn (symb (rt_symbol rq) ! i) \<and> h_many (hooks rq ! nat seqn) = 0)))"

lemma same_table_nth:
  assumes "same_table rq rq'" "j < length (symb (rt_symbol rq))"
  shows "y_seqn (symb (rt_symbol rq') ! j) = y_seqn (symb (rt_symbol rq) ! j)"
    "y_symb (symb (rt_symbol rq') ! j) = y_symb (symb (rt_symbol rq) ! j)"
proof -
  have "map (\<lambda>y. (y_symb y, y_seqn y)) (symb (rt_symbol rq')) ! j = map (\<lambda>y. (y_symb y, y_seqn y)) (symb (rt_symbol rq)) ! j"
    using assms(1) by (simp add: same_table_def)
  then show "y_seqn (symb (rt_symbol rq') ! j) = y_seqn (symb (rt_symbol rq) ! j)"
    "y_symb (symb (rt_symbol rq') ! j) = y_symb (symb (rt_symbol rq) ! j)"
    using assms(2) same_table_lengths(1) [OF assms(1)] by simp_all
qed

lemma many_nth:
  "map h_many (hooks rq') = map h_many (hooks rq) \<Longrightarrow> r < length (hooks rq) \<Longrightarrow>
   h_many (hooks rq' ! r) = h_many (hooks rq ! r)"
  by (metis length_map nth_map)

lemma clean_step_cleaned:
  assumes ok: "board_ok rq" and full: "valr (rt_symbol rq) = maxr (rt_symbol rq)"
    and n: "n < maxr (rt_symbol rq)" and st: "cleaned rq n st"
  shows "cleaned rq (Suc n) (clean_step n st)"
proof -
  obtain indx seqn rq1 where s: "st = ((indx, seqn), rq1)" by (metis surj_pair)
  note b = board_okD [OF ok]
  have c: "same_table rq rq1" "map h_many (hooks rq1) = map h_many (hooks rq)"
    using st s by (auto simp: cleaned_def)
  let ?y = "symb (rt_symbol rq) ! n"
  have len: "n < length (symb (rt_symbol rq))" using n b by linarith
  have "?y \<in> set (live_symbs rq)" using n full b(11) by (metis live_symbs_nth nth_mem)
  note y = board_seqn [OF ok this]
  have jj: "y_seqn (symb (rt_symbol rq1) ! n) = y_seqn ?y" by (rule same_table_nth(1) [OF c(1) len])
  have m: "h_many (hooks rq1 ! nat (y_seqn ?y)) = h_many (hooks rq ! nat (y_seqn ?y))"
    by (rule many_nth [OF c(2) y(4)])
  have mx: "maxr (rt_symbol rq1) = maxr (rt_symbol rq)" using c(1) by (simp add: same_table_def)
  have small: "y_seqn ?y < int (maxr (rt_symbol rq))" using y(1,3) b(1) by linarith
  show ?thesis
  proof (cases "h_many (hooks rq ! nat (y_seqn ?y)) = 0")
    case False
    then have "clean_step n st = st" using y jj m mx small by (simp add: clean_step_def s Let_def)
    with st s show ?thesis by (auto simp: cleaned_def less_Suc_eq)
  next
    case True
    let ?rq2 = "upd_symb n (\<lambda>y. y\<lparr>y_mark := 0\<rparr>) (upd_hook n (\<lambda>h. h\<lparr>h_mark := 0\<rparr>) rq1)"
    have "clean_step n st = (if indx = -1 then (int n, y_seqn ?y) else (indx, seqn), ?rq2)"
      using True y jj m mx small by (simp add: clean_step_def s Let_def)
    moreover have "same_table rq ?rq2"
      using c(1) by (intro same_table_trans [OF c(1)] same_table_trans [OF upd_hook_same upd_symb_same]) simp_all
    moreover have "map h_many (hooks ?rq2) = map h_many (hooks rq)"
      using c(2) by (simp add: hooks_upd_hook list_update_map_same)
    moreover have "symb (rt_symbol ?rq2) ! j = (if j = n then (symb (rt_symbol rq1) ! n)\<lparr>y_mark := 0\<rparr>
        else symb (rt_symbol rq1) ! j)" for j
      using len same_table_lengths(1) [OF c(1)] by (auto simp: upd_symb_def)
    ultimately show ?thesis using st True s by (auto simp: cleaned_def less_Suc_eq)
  qed
qed

lemma cleaning_board_cleaned:
  assumes ok: "board_ok rq" and full: "valr (rt_symbol rq) = maxr (rt_symbol rq)"
  shows "cleaned rq (maxr (rt_symbol rq)) (cleaning_board rq)"
proof -
  have "n \<le> maxr (rt_symbol rq) \<Longrightarrow> cleaned rq n (fold clean_step [0..<n] ((-1, -1), rq))" for n
  proof (induction n)
    case 0
    show ?case by (simp add: cleaned_def)
  next
    case (Suc n)
    then show ?case using clean_step_cleaned [OF ok full] by simp
  qed
  moreover have "cleaned rq (maxr (rt_symbol rq)) ((-1, -1), rq)" by (simp add: cleaned_def)
  ultimately show ?thesis by (simp add: cleaning_board_def)
qed

end
