(* ===== verification/Clients.thy ===== *)
theory Clients
  imports Board
begin

text \<open>
  The clients of the push broker, \<^verbatim>\<open>src/push/client.c\<close>: a connection that is accepted or closed and
  the commands by which a client chooses its symbols. A connection takes the room whose number is
  its socket. A socket call is the environment: what \<^verbatim>\<open>accept\<close> and \<^verbatim>\<open>write\<close> answer are arguments.
\<close>

subsection \<open>Connections\<close>

definition linked_to :: "RQ \<Rightarrow> nat \<Rightarrow> bool" where
  "linked_to rq i \<longleftrightarrow> i < length (rq_client rq) \<and> cl_sock (rq_client rq ! i) = int i"

text \<open>One past the last room in use, the loop at the end of \<^verbatim>\<open>close_client\<close>.\<close>

definition last_linked :: "RQ \<Rightarrow> nat" where
  "last_linked rq = fold (\<lambda>ii valr. if cl_sock (rq_client rq ! ii) = int ii then ii + 1 else valr)
     [0..<length (rq_client rq)] 0"

definition leave_step :: "nat \<Rightarrow> nat \<Rightarrow> RQ \<Rightarrow> RQ" where
  "leave_step sock ii rq =
     (if cl_mask (rq_client rq ! sock) ! ii = 0 then rq
      else
        let rq1 = (if h_many (hooks rq ! ii) > 0
                   then upd_hook ii (\<lambda>h. h\<lparr>h_many := h_many h - 1\<rparr>) rq else rq)
        in upd_client sock (\<lambda>cl. cl\<lparr>cl_mask := (cl_mask cl)[ii := 0]\<rparr>) rq1)"

definition close_client :: "nat \<Rightarrow> RQ \<Rightarrow> RQ" where
  "close_client sock rq =
     (if \<not> linked_to rq sock then rq
      else
        let rq1 = upd_client sock (\<lambda>cl. cl\<lparr>cl_sock := -1, cl_pid := 0, cl_addr := 0\<rparr>) rq;
            rq2 = fold (leave_step sock) [0..<no_of_symbols rq] rq1
        in rq2\<lparr>no_of_linked := last_linked rq2\<rparr>)"

text \<open>
  \<^verbatim>\<open>accept_client\<close>: the socket, whether the peer is on this host and whether the socket number could
  be written to it.
\<close>

definition accept_client :: "int \<Rightarrow> bool \<Rightarrow> bool \<Rightarrow> RQ \<Rightarrow> RQ" where
  "accept_client sock local written rq =
     (if sock < 0 \<or> sock \<ge> int (length (rq_client rq)) then rq
      else
        let s = nat sock;
            rq1 = upd_client s (\<lambda>cl. cl\<lparr>cl_mask := replicate (no_of_symbols rq) 0 @
                     drop (no_of_symbols rq) (cl_mask cl), cl_sock := sock\<rparr>) rq
        in if \<not> local then rq1
           else
             let rq2 = upd_client s (\<lambda>cl. cl\<lparr>cl_flag := RQ_LOCAL\<rparr>) rq1
             in if \<not> written then upd_client s (\<lambda>cl. cl\<lparr>cl_sock := -1\<rparr>) rq2
                else rq2\<lparr>no_of_linked := (if int (no_of_linked rq2) \<le> sock then s + 1
                                          else no_of_linked rq2)\<rparr>)"

subsection \<open>Commands\<close>

text \<open>One command of a batch: the working masks and the board. \<open>None\<close> is undefined behaviour.\<close>

definition run_cmd :: "nat \<Rightarrow> rt_cmd \<Rightarrow> mask_t list \<times> RQ \<Rightarrow> (mask_t list \<times> RQ) option" where
  "run_cmd c cmd st =
     (let (mask_b, rq) = st;
          name = cstr (cmd_symb cmd);
          n = int (no_of_symbols rq);
          insert = (\<lambda>mb. if cmd_mask cmd = 0 then Some (mb, rq)
                 else map_option snd (insert_symbol_to_board name (Some c) (cmd_mask cmd) mb rq));
          on_symbol = (\<lambda>f. case search_symbol_on_board rq name of
                   None \<Rightarrow> None
                 | Some seqn \<Rightarrow> if seqn < 0 \<or> seqn \<ge> n then Some st
                              else Some (mask_b[nat seqn := f (mask_b ! nat seqn)], rq))
      in if cmd_func cmd = RT_RST_SYMB then insert (replicate (length mask_b) 0)
         else if cmd_func cmd = RT_INS_SYMB then insert mask_b
         else if cmd_func cmd = RT_SET_MASK then
           (case insert_symbol_to_board name (Some c) (cmd_mask cmd) mask_b rq of
              None \<Rightarrow> None
            | Some (seqn, mb, rq1) \<Rightarrow>
                if seqn < 0 \<or> seqn \<ge> n then Some (mb, rq1)
                else Some (mb[nat seqn := cmd_mask cmd], rq1))
         else if cmd_func cmd = RT_DEL_MASK then on_symbol (\<lambda>m. m AND NOT (cmd_mask cmd))
         else if cmd_func cmd = RT_DEL_SYMB then on_symbol (\<lambda>m. 0)
         else if cmd_func cmd = RT_SET_PID then
           Some (mask_b, upd_client c (\<lambda>cl. cl\<lparr>cl_pid := of_nat (le_nat (take 4 (cmd_symb cmd))),
                   cl_addr := of_nat (le_nat (take 4 (drop 10 (cmd_symb cmd))))\<rparr>) rq)
         else Some st)"

fun run_cmds :: "nat \<Rightarrow> rt_cmd list \<Rightarrow> mask_t list \<times> RQ \<Rightarrow> (mask_t list \<times> RQ) option" where
  "run_cmds c [] st = Some st"
| "run_cmds c (cmd # cmds) st =
     (case run_cmd c cmd st of None \<Rightarrow> None | Some st' \<Rightarrow> run_cmds c cmds st')"

text \<open>The symbols the batch has taken away, and the client's new masks.\<close>

definition settle_step :: "nat \<Rightarrow> mask_t list \<Rightarrow> nat \<Rightarrow> RQ \<Rightarrow> RQ" where
  "settle_step c mask_b ii rq =
     (let rq1 = (if mask_b ! ii = 0 \<and> cl_mask (rq_client rq ! c) ! ii \<noteq> 0 \<and> h_many (hooks rq ! ii) > 0
                 then upd_hook ii (\<lambda>h. h\<lparr>h_many := h_many h - 1\<rparr>) rq else rq)
      in upd_client c (\<lambda>cl. cl\<lparr>cl_mask := (cl_mask cl)[ii := mask_b ! ii]\<rparr>) rq1)"

definition check_command_for_client :: "nat \<Rightarrow> rt_cmd list \<Rightarrow> RQ \<Rightarrow> RQ option" where
  "check_command_for_client c cmds rq =
     (if cl_sock (rq_client rq ! c) < 0 then Some rq
      else case run_cmds c cmds (cl_mask (rq_client rq ! c), rq) of
        None \<Rightarrow> None
      | Some (mask_b, rq1) \<Rightarrow> Some (fold (settle_step c mask_b) [0..<no_of_symbols rq] rq1))"

text \<open>One message on the command queue: the sender's socket and its commands.\<close>

definition recv_from_client :: "int \<Rightarrow> rt_cmd list \<Rightarrow> RQ \<Rightarrow> RQ option" where
  "recv_from_client sock cmds rq =
     (if sock < 0 \<or> sock \<ge> int (length (rq_client rq)) \<or> cl_sock (rq_client rq ! nat sock) \<noteq> sock
         \<or> cl_flag (rq_client rq ! nat sock) \<noteq> RQ_LOCAL \<or> cmds = [] then Some rq
      else check_command_for_client (nat sock) cmds rq)"

end
