(* ===== verification/Subscriptions.thy ===== *)
theory Subscriptions
  imports Clients
begin

text \<open>
  What the broker promises its clients: the count of a hook is the number of clients that listen to
  its symbol, which is what a pusher looks at before it sends a message, and a batch of commands
  leaves a client with exactly the subscriptions it asked for.
\<close>

subsection \<open>The counts\<close>

definition listeners :: "RQ \<Rightarrow> nat \<Rightarrow> nat set" where
  "listeners rq r = {c. linked_to rq c \<and> cl_mask (rq_client rq ! c) ! r \<noteq> 0}"

text \<open>
  A hook's count is the number of its listeners; a deleted symbol and a number not in use have none.
\<close>

definition counts_ok :: "RQ \<Rightarrow> bool" where
  "counts_ok rq \<longleftrightarrow>
     length (rq_client rq) < 65536 \<and>
     (\<forall>r<no_of_symbols rq. unat (h_many (hooks rq ! r)) = card (listeners rq r)) \<and>
     (\<forall>y\<in>set (live_symbs rq). y_mark y = 0 \<longrightarrow> listeners rq (nat (y_seqn y)) = {}) \<and>
     (\<forall>r. valr (rt_symbol rq) \<le> r \<longrightarrow> r < no_of_symbols rq \<longrightarrow> listeners rq r = {})"

definition broker_ok :: "RQ \<Rightarrow> bool" where
  "broker_ok rq \<longleftrightarrow> board_ok rq \<and> counts_ok rq"

lemma counts_okD:
  assumes "counts_ok rq"
  shows "length (rq_client rq) < 65536"
    "r < no_of_symbols rq \<Longrightarrow> unat (h_many (hooks rq ! r)) = card (listeners rq r)"
    "y \<in> set (live_symbs rq) \<Longrightarrow> y_mark y = 0 \<Longrightarrow> listeners rq (nat (y_seqn y)) = {}"
    "valr (rt_symbol rq) \<le> r \<Longrightarrow> r < no_of_symbols rq \<Longrightarrow> listeners rq r = {}"
  using assms by (auto simp: counts_ok_def)

lemma listeners_cong:
  "rq_client rq' = rq_client rq \<Longrightarrow> listeners rq' r = listeners rq r"
  by (simp add: listeners_def linked_to_def)

lemma listeners_sub: "listeners rq r \<subseteq> {0..<length (rq_client rq)}"
  by (auto simp: listeners_def linked_to_def)

lemma listeners_finite [simp]: "finite (listeners rq r)"
  using listeners_sub finite_subset by blast

lemma listeners_card: "card (listeners rq r) \<le> length (rq_client rq)"
  using card_mono [OF _ listeners_sub] by simp

lemma no_listeners: "counts_ok rq \<Longrightarrow> r < no_of_symbols rq \<Longrightarrow>
    listeners rq r = {} \<longleftrightarrow> h_many (hooks rq ! r) = 0"
  by (metis card_0_eq counts_okD(2) listeners_finite unat_eq_zero)

text \<open>Marks may change as long as a deleted symbol has no listener.\<close>

lemma counts_marks:
  assumes "board_ok rq" "counts_ok rq" "same_table rq rq'" "rq_client rq' = rq_client rq"
    and many: "\<And>r. r < no_of_symbols rq \<Longrightarrow> h_many (hooks rq' ! r) = h_many (hooks rq ! r)"
    and marks: "\<And>y. y \<in> set (live_symbs rq') \<Longrightarrow> y_mark y = 0 \<Longrightarrow> listeners rq (nat (y_seqn y)) = {}"
  shows "counts_ok rq'"
proof -
  have "listeners rq' r = listeners rq r" for r by (rule listeners_cong [OF assms(4)])
  moreover have "no_of_symbols rq' = no_of_symbols rq" "valr (rt_symbol rq') = valr (rt_symbol rq)"
    using assms(3) by (simp_all add: same_table_def)
  ultimately show ?thesis using counts_okD [OF assms(2)] assms(4) many marks
    by (simp add: counts_ok_def)
qed

subsection \<open>The client's masks\<close>

definition set_mask :: "nat \<Rightarrow> nat \<Rightarrow> mask_t \<Rightarrow> RQ \<Rightarrow> rq_client list" where
  "set_mask c r m rq = (rq_client rq)[c := (rq_client rq ! c)\<lparr>cl_mask := (cl_mask (rq_client rq ! c))[r := m]\<rparr>]"

lemma listeners_set_mask:
  assumes "linked_to rq c" "r < length (cl_mask (rq_client rq ! c))" "rq_client rq' = set_mask c r m rq"
  shows "listeners rq' r = (if m = 0 then listeners rq r - {c} else insert c (listeners rq r))"
    and "r' \<noteq> r \<Longrightarrow> listeners rq' r' = listeners rq r'"
  using assms by (auto simp: listeners_def linked_to_def set_mask_def nth_list_update)

lemma or_nonzero: "(m :: 'a::len word) \<noteq> 0 \<Longrightarrow> x OR m \<noteq> 0"
  by (metis or_eq_0_iff)

lemma subscribe_ok:
  assumes ok: "board_ok rq" "counts_ok rq" and c: "linked_to rq c" and r: "r < no_of_symbols rq"
    and len: "length chck = no_of_symbols rq" and mk: "mk \<noteq> 0"
    and live: "y \<in> set (live_symbs rq)" "nat (y_seqn y) = r" "y_mark y \<noteq> 0"
  obtains rq' where "subscribe (Some c) (int r) mk chck rq = Some (chck[r := chck ! r OR mk], rq')"
    "board_ok rq'" "counts_ok rq'" "rooms rq' = rooms rq" "live_symbs rq' = live_symbs rq"
    "rq_client rq' = set_mask c r (cl_mask (rq_client rq ! c) ! r OR mk) rq"
    "no_of_symbols rq' = no_of_symbols rq" "rt_symbol rq' = rt_symbol rq"
    "dynamic_mode rq' = dynamic_mode rq" "rt_fifo rq' = rt_fifo rq"
proof -
  note b = board_okD [OF ok(1)] and n = counts_okD [OF ok(2)]
  let ?m = "cl_mask (rq_client rq ! c) ! r"
  have cl: "c < length (rq_client rq)" using c by (simp add: linked_to_def)
  have ml: "length (cl_mask (rq_client rq ! c)) = no_of_symbols rq" using b(10) cl by simp
  have nz: "?m OR mk \<noteq> 0" using mk or_nonzero by blast
  define rq1 where "rq1 = upd_client c (\<lambda>cl. cl\<lparr>cl_mask := (cl_mask cl)[r := ?m OR mk]\<rparr>) rq"
  define rq' where "rq' = (if ?m = 0 then upd_hook r (\<lambda>h. h\<lparr>h_many := h_many h + 1\<rparr>) rq1 else rq1)"
  have same: "same_table rq rq'" unfolding rq'_def rq1_def
    by (simp add: same_table_trans [OF upd_client_same upd_hook_same])
  have cls: "rq_client rq' = set_mask c r (?m OR mk) rq"
    by (simp add: rq'_def rq1_def upd_client_def upd_hook_def set_mask_def)
  note l = listeners_set_mask [OF c _ cls, unfolded ml, OF r]
  have frame: "live_symbs rq' = live_symbs rq" "rt_symbol rq' = rt_symbol rq"
    "no_of_symbols rq' = no_of_symbols rq" "dynamic_mode rq' = dynamic_mode rq" "rt_fifo rq' = rt_fifo rq"
    by (simp_all add: rq'_def rq1_def)
  have cnt: "unat (h_many (hooks rq' ! r)) = card (listeners rq' r)"
  proof (cases "?m = 0")
    case True
    then have "c \<notin> listeners rq r" by (simp add: listeners_def)
    then have "card (listeners rq' r) = Suc (card (listeners rq r))" using l(1) nz by simp
    moreover have "h_many (hooks rq' ! r) = h_many (hooks rq ! r) + 1"
      using True r b(5) by (simp add: rq'_def rq1_def hooks_upd_hook)
    moreover have "card (listeners rq r) < 65535"
      using card_mono [OF finite_atLeastLessThan, of "listeners rq r" 0 "length (rq_client rq)"]
        \<open>c \<notin> listeners rq r\<close> listeners_sub [of rq r] n(1) cl
        card_Diff_singleton [of c "{0..<length (rq_client rq)}"]
        card_mono [of "{0..<length (rq_client rq)} - {c}" "listeners rq r"] by fastforce
    ultimately show ?thesis using n(2) [OF r] by (simp add: unat_word_ariths)
  next
    case False
    then have "c \<in> listeners rq r" using c by (simp add: listeners_def)
    then show ?thesis using False l(1) nz n(2) [OF r] by (simp add: rq'_def rq1_def insert_absorb)
  qed
  have "unat (h_many (hooks rq' ! r')) = card (listeners rq' r')" if "r' < no_of_symbols rq" for r'
    using that cnt l(2) n(2) [OF that] by (cases "r' = r") (auto simp: rq'_def rq1_def hooks_upd_hook)
  moreover have "listeners rq' (nat (y_seqn z)) = {}" if z: "z \<in> set (live_symbs rq)" "y_mark z = 0" for z
  proof -
    have "nat (y_seqn z) \<noteq> r"
      using board_seqn_inj [OF ok(1) z(1) live(1)] board_seqn(1) [OF ok(1)] z live by (metis int_nat_eq)
    with n(3) [OF z] l(2) show ?thesis by simp
  qed
  moreover have "listeners rq' r' = {}" if "valr (rt_symbol rq) \<le> r'" "r' < no_of_symbols rq" for r'
    using n(4) [OF that] l(2) [of r'] that live board_seqn(2) [OF ok(1) live(1)] by auto
  ultimately have "counts_ok rq'" using frame n(1) cls by (simp add: counts_ok_def set_mask_def)
  moreover have "subscribe (Some c) (int r) mk chck rq = Some (chck[r := chck ! r OR mk], rq')"
    using ml len r b(5) by (simp add: subscribe_def Let_def rq'_def rq1_def)
  ultimately show thesis
    using same_table_ok [OF same ok(1)] same_table_rooms [OF same] frame cls by (intro that)
qed

subsection \<open>Insertion for a client\<close>

text \<open>
  The two halves of an insertion: the symbol is in the table, undeleted, under the room \<open>r\<close>; then
  the client has the mask there.
\<close>

definition placed :: "RQ \<Rightarrow> string \<Rightarrow> nat \<Rightarrow> RQ \<Rightarrow> bool" where
  "placed rq s r rq1 \<longleftrightarrow>
     board_ok rq1 \<and> counts_ok rq1 \<and> rooms rq1 s = Some r \<and>
     (\<exists>y\<in>set (live_symbs rq1). nat (y_seqn y) = r \<and> y_mark y \<noteq> 0) \<and>
     rq_client rq1 = rq_client rq \<and> no_of_symbols rq1 = no_of_symbols rq \<and>
     dynamic_mode rq1 = dynamic_mode rq \<and> rt_fifo rq1 = rt_fifo rq"

definition subscribed ::
  "RQ \<Rightarrow> nat \<Rightarrow> string \<Rightarrow> mask_t \<Rightarrow> mask_t list \<Rightarrow> nat \<Rightarrow> RQ \<Rightarrow> bool" where
  "subscribed rq c s mk chck r rq' \<longleftrightarrow>
     insert_symbol_to_board s (Some c) mk chck rq = Some (int r, chck[r := chck ! r OR mk], rq') \<and>
     r < no_of_symbols rq \<and> board_ok rq' \<and> counts_ok rq' \<and> rooms rq' s = Some r \<and>
     rq_client rq' = set_mask c r (cl_mask (rq_client rq ! c) ! r OR mk) rq \<and>
     no_of_symbols rq' = no_of_symbols rq \<and> dynamic_mode rq' = dynamic_mode rq \<and> rt_fifo rq' = rt_fifo rq"

lemma placed_subscribed:
  assumes p: "placed rq s r rq1" and c: "linked_to rq c"
    and len: "length chck = no_of_symbols rq" and mk: "mk \<noteq> 0"
    and ins: "insert_symbol_to_board s (Some c) mk chck rq =
      map_option (\<lambda>(chck', rq'). (int r, chck', rq')) (subscribe (Some c) (int r) mk chck rq1)"
  obtains rq' where "subscribed rq c s mk chck r rq'" "rooms rq' = rooms rq1"
    "valr (rt_symbol rq') = valr (rt_symbol rq1)"
proof -
  obtain y where y: "y \<in> set (live_symbs rq1)" "nat (y_seqn y) = r" "y_mark y \<noteq> 0"
    and p1: "board_ok rq1" "counts_ok rq1" "rooms rq1 s = Some r" "rq_client rq1 = rq_client rq"
      "no_of_symbols rq1 = no_of_symbols rq" "dynamic_mode rq1 = dynamic_mode rq" "rt_fifo rq1 = rt_fifo rq"
    using p by (auto simp: placed_def)
  have c1: "linked_to rq1 c" using c p1(4) by (simp add: linked_to_def)
  have r: "r < no_of_symbols rq1" using board_seqn(3) [OF p1(1) y(1)] y(2) by simp
  have len1: "length chck = no_of_symbols rq1" using len p1(5) by simp
  obtain rq' where "subscribe (Some c) (int r) mk chck rq1 = Some (chck[r := chck ! r OR mk], rq')"
    "board_ok rq'" "counts_ok rq'" "rooms rq' = rooms rq1" "live_symbs rq' = live_symbs rq1"
    "rq_client rq' = set_mask c r (cl_mask (rq_client rq1 ! c) ! r OR mk) rq1"
    "no_of_symbols rq' = no_of_symbols rq1" "rt_symbol rq' = rt_symbol rq1"
    "dynamic_mode rq' = dynamic_mode rq1" "rt_fifo rq' = rt_fifo rq1"
    by (rule subscribe_ok [OF p1(1,2) c1 r len1 mk y])
  then show thesis using ins p1 r by (intro that [of rq']) (simp_all add: subscribed_def set_mask_def)
qed

lemma known_placed:
  assumes ok: "board_ok rq" "counts_ok rq" and s: "length s < L_SYMB" and known: "rooms rq s = Some r"
  obtains rq1 where "placed rq s r rq1" "rooms rq1 = rooms rq" "valr (rt_symbol rq1) = valr (rt_symbol rq)"
    "\<And>client mk chck. insert_symbol_to_board s client mk chck rq =
      map_option (\<lambda>(chck', rq'). (int r, chck', rq')) (subscribe client (int r) mk chck rq1)"
proof -
  obtain i where i: "find_symb rq s = Some i"
    using find_symb_rooms(1) [OF ok(1), of s] known by (cases "find_symb rq s") auto
  define y where "y = symb (rt_symbol rq) ! i"
  have y: "y \<in> set (live_symbs rq)" "nat (y_seqn y) = r"
    using find_symb_rooms(2) [OF ok(1) i] known by (auto simp: y_def)
  note bs = board_seqn [OF ok(1) y(1)]
  have iv: "i < valr (rt_symbol rq)" using i find_symb_Some_iff [OF ok(1)] by blast
  show thesis
  proof (cases "y_mark y = 0")
    case False
    then show thesis using ok y bs s i known
      by (intro that [of rq]) (auto simp: placed_def insert_symbol_to_board_def Let_def y_def)
  next
    case True
    let ?h = "upd_hook r (\<lambda>h. h\<lparr>h_many := 0, h_mark := 1\<rparr>) rq"
    define rq1 where "rq1 = (upd_symb i (\<lambda>y. y\<lparr>y_mark := 1\<rparr>) ?h)\<lparr>modified := modified rq + 1\<rparr>"
    have "same_table rq (upd_symb i (\<lambda>y. y\<lparr>y_mark := 1\<rparr>) ?h)"
      by (rule same_table_trans [OF upd_hook_same upd_symb_same]) simp_all
    then have same: "same_table rq rq1" by (simp add: rq1_def same_table_def)
    have live1: "live_symbs rq1 = (live_symbs rq)[i := y\<lparr>y_mark := 1\<rparr>]"
      using iv upd_symb_live [of i ?h] by (simp add: rq1_def live_symbs_def y_def)
    have none: "h_many (hooks rq ! r) = 0" "listeners rq r = {}"
      using counts_okD(3) [OF ok(2) y(1) True] no_listeners [OF ok(2) bs(3)] y(2) by simp_all
    have "counts_ok rq1"
    proof (rule counts_marks [OF ok same])
      show "h_many (hooks rq1 ! r') = h_many (hooks rq ! r')" for r'
        using none(1) bs(4) y(2) by (cases "r' = r") (simp_all add: rq1_def hooks_upd_hook)
      show "listeners rq (nat (y_seqn z)) = {}" if "z \<in> set (live_symbs rq1)" "y_mark z = 0" for z
        using that live1 set_update_subset_insert [of "live_symbs rq" i "y\<lparr>y_mark := 1\<rparr>"]
          counts_okD(3) [OF ok(2), of z] by auto
    qed (simp add: rq1_def)
    moreover have "y\<lparr>y_mark := 1\<rparr> \<in> set (live_symbs rq1)"
      using live1 iv board_okD(11) [OF ok(1)] by (simp add: set_update_memI)
    then have "\<exists>z\<in>set (live_symbs rq1). nat (y_seqn z) = r \<and> y_mark z \<noteq> 0"
      using y(2) by (intro bexI [of _ "y\<lparr>y_mark := 1\<rparr>"]) simp_all
    moreover have "rq_client rq1 = rq_client rq" "no_of_symbols rq1 = no_of_symbols rq"
      "dynamic_mode rq1 = dynamic_mode rq" "rt_fifo rq1 = rt_fifo rq" by (simp_all add: rq1_def)
    ultimately have "placed rq s r rq1"
      using same_table_ok [OF same ok(1)] same_table_rooms [OF same] known by (simp add: placed_def)
    moreover have "insert_symbol_to_board s client mk chck rq =
        map_option (\<lambda>(chck', rq'). (int r, chck', rq')) (subscribe client (int r) mk chck rq1)" for client mk chck
      using s i y bs True by (auto simp: insert_symbol_to_board_def Let_def rq1_def y_def)
    ultimately show thesis using same_table_rooms [OF same] by (intro that [of rq1]) (simp_all add: rq1_def)
  qed
qed

text \<open>A new symbol, behind the last one or over one that nobody listens to.\<close>

lemma entered_placed:
  assumes ok: "board_ok rq" "counts_ok rq" and new: "rooms rq s = None"
    and place: "entry_place rq indx room" and free: "listeners rq room = {}"
  obtains rq1 where "enter_symb s indx (int room) rq = Some rq1" "placed rq s room rq1"
    "valr (rt_symbol rq1) = max (valr (rt_symbol rq)) (indx + 1)"
    "set (live_symbs rq1) = insert \<lparr>y_symb = s, y_seqn = int room, y_mark = 1\<rparr> (others rq indx)"
proof -
  let ?new = "\<lparr>y_symb = s, y_seqn = int room, y_mark = 1\<rparr>"
  obtain rq1 where r: "enter_symb s indx (int room) rq = Some rq1" "board_ok rq1"
    "set (live_symbs rq1) = insert ?new (others rq indx)"
    "hooks rq1 = (hooks rq)[room := (hooks rq ! room)\<lparr>h_many := 0, h_symb := s, h_mark := 1\<rparr>]"
    "rq_client rq1 = rq_client rq" "no_of_symbols rq1 = no_of_symbols rq"
    "valr (rt_symbol rq1) = max (valr (rt_symbol rq)) (indx + 1)" "maxr (rt_symbol rq1) = maxr (rt_symbol rq)"
    "dynamic_mode rq1 = dynamic_mode rq" "rt_fifo rq1 = rt_fifo rq"
    by (rule enter_symb_ok [OF ok(1) new place])
  have l: "listeners rq1 r' = listeners rq r'" for r' by (rule listeners_cong [OF r(5)])
  have mem: "?new \<in> set (live_symbs rq1)" using r(3) by simp
  have "unat (h_many (hooks rq1 ! r')) = card (listeners rq1 r')" if r': "r' < no_of_symbols rq" for r'
  proof (cases "r' = room")
    case True
    then show ?thesis using l free r(4) r' board_okD(5) [OF ok(1)] by simp
  next
    case False
    then show ?thesis using l r(4) counts_okD(2) [OF ok(2) r'] by simp
  qed
  moreover have "listeners rq1 (nat (y_seqn y)) = {}" if "y \<in> set (live_symbs rq1)" "y_mark y = 0" for y
    using that r(3) l others_props(1) [OF ok(1) place, of y] counts_okD(3) [OF ok(2), of y] by auto
  moreover have "listeners rq1 r' = {}" if "valr (rt_symbol rq1) \<le> r'" "r' < no_of_symbols rq" for r'
    using that r(7) l counts_okD(4) [OF ok(2)] by simp
  ultimately have "counts_ok rq1"
    using counts_okD(1) [OF ok(2)] r(5,6) by (simp add: counts_ok_def)
  moreover have "rooms rq1 s = Some room"
    by (intro iffD2 [OF rooms_Some_iff [OF r(2)]] bexI [OF _ mem]) simp
  moreover have "\<exists>z\<in>set (live_symbs rq1). nat (y_seqn z) = room \<and> y_mark z \<noteq> 0"
    using mem by (rule rev_bexI) simp
  ultimately have "placed rq s room rq1" using r by (simp add: placed_def)
  with r show thesis by (intro that)
qed

lemma new_placed:
  assumes ok: "board_ok rq" "counts_ok rq" and s: "length s < L_SYMB" and new: "rooms rq s = None"
    and room: "valr (rt_symbol rq) < no_of_symbols rq"
  obtains rq1 where "placed rq s (valr (rt_symbol rq)) rq1"
    "rooms rq1 = (rooms rq)(s \<mapsto> valr (rt_symbol rq))" "valr (rt_symbol rq1) = Suc (valr (rt_symbol rq))"
    "\<And>client mk chck. insert_symbol_to_board s client mk chck rq =
      map_option (\<lambda>(chck', rq'). (int (valr (rt_symbol rq)), chck', rq'))
        (subscribe client (int (valr (rt_symbol rq))) mk chck rq1)"
proof -
  let ?v = "valr (rt_symbol rq)"
  have place: "entry_place rq ?v ?v" using room by (simp add: entry_place_def)
  obtain rq1 where r: "enter_symb s ?v (int ?v) rq = Some rq1" "placed rq s ?v rq1"
    "valr (rt_symbol rq1) = max ?v (?v + 1)"
    "set (live_symbs rq1) = insert \<lparr>y_symb = s, y_seqn = int ?v, y_mark = 1\<rparr> (others rq ?v)"
    by (rule entered_placed [OF ok new place counts_okD(4) [OF ok(2) order_refl room]])
  have "others rq ?v = set (live_symbs rq)"
    using board_okD(11) [OF ok(1)] by (auto simp: others_def set_conv_nth)
  then have "rooms rq1 = (rooms rq)(s \<mapsto> ?v)"
    using r(2,4) new by (intro rooms_enter_end [OF ok(1)]) (simp_all add: placed_def)
  moreover have "find_symb rq s = None" using find_symb_rooms(1) [OF ok(1)] new by blast
  then have "insert_symbol_to_board s client mk chck rq =
      map_option (\<lambda>(chck', rq'). (int ?v, chck', rq')) (subscribe client (int ?v) mk chck rq1)" for client mk chck
    using s room r(1) board_okD(1) [OF ok(1)] by (simp add: insert_symbol_to_board_def)
  ultimately show thesis using r by (intro that [of rq1]) simp_all
qed

lemma cleaned_ok:
  assumes ok: "board_ok rq" "counts_ok rq" and cl: "cleaned rq n ((indx, seqn), rq1)"
  shows "board_ok rq1" "counts_ok rq1" "rooms rq1 = rooms rq" "rq_client rq1 = rq_client rq"
    "dynamic_mode rq1 = dynamic_mode rq" "rt_fifo rq1 = rt_fifo rq" "no_of_symbols rq1 = no_of_symbols rq"
    "valr (rt_symbol rq1) = valr (rt_symbol rq)"
proof -
  have same: "same_table rq rq1" and many: "map h_many (hooks rq1) = map h_many (hooks rq)"
    and marks: "\<forall>j<valr (rt_symbol rq). y_mark (symb (rt_symbol rq1) ! j) = y_mark (symb (rt_symbol rq) ! j) \<or>
            h_many (hooks rq ! nat (y_seqn (symb (rt_symbol rq) ! j))) = 0"
    and fr: "rq_client rq1 = rq_client rq" "dynamic_mode rq1 = dynamic_mode rq" "rt_fifo rq1 = rt_fifo rq"
    using cl by (auto simp: cleaned_def)
  show "rq_client rq1 = rq_client rq" "dynamic_mode rq1 = dynamic_mode rq" "rt_fifo rq1 = rt_fifo rq"
    by (fact fr)+
  show b1: "board_ok rq1" by (rule same_table_ok [OF same ok(1)])
  show "rooms rq1 = rooms rq" by (rule same_table_rooms [OF same])
  show v: "no_of_symbols rq1 = no_of_symbols rq" "valr (rt_symbol rq1) = valr (rt_symbol rq)"
    using same by (simp_all add: same_table_def)
  show "counts_ok rq1"
  proof (rule counts_marks [OF ok same fr(1)])
    show "h_many (hooks rq1 ! r) = h_many (hooks rq ! r)" if "r < no_of_symbols rq" for r
      using many_nth [OF many] board_okD(5) [OF ok(1)] that by simp
    fix y assume y: "y \<in> set (live_symbs rq1)" "y_mark y = 0"
    then obtain j where j: "j < valr (rt_symbol rq)" "y = symb (rt_symbol rq1) ! j"
      using board_okD(11) [OF b1] v by (metis in_set_conv_nth live_symbs_nth)
    let ?z = "symb (rt_symbol rq) ! j"
    have z: "?z \<in> set (live_symbs rq)" using j(1) board_okD(11) [OF ok(1)] by (metis live_symbs_nth nth_mem)
    have "y_seqn y = y_seqn ?z"
      using same_table_nth(1) [OF same, of j] j board_okD(2,4) [OF ok(1)] by simp
    moreover have "listeners rq (nat (y_seqn ?z)) = {}"
      using marks j y(2) counts_okD(3) [OF ok(2) z] no_listeners [OF ok(2) board_seqn(3) [OF ok(1) z]]
      by metis
    ultimately show "listeners rq (nat (y_seqn y)) = {}" by simp
  qed
qed

text \<open>A new symbol on a full table: refused, or in the place of a symbol without listeners.\<close>

lemma full_placed:
  assumes ok: "board_ok rq" "counts_ok rq" and s: "length s < L_SYMB" and new: "rooms rq s = None"
    and full: "valr (rt_symbol rq) = no_of_symbols rq"
  obtains (refused) rq1 where "board_ok rq1" "counts_ok rq1" "rooms rq1 = rooms rq" "rq_client rq1 = rq_client rq"
      "no_of_symbols rq1 = no_of_symbols rq" "dynamic_mode rq1 = dynamic_mode rq" "rt_fifo rq1 = rt_fifo rq"
      "\<And>client mk chck. insert_symbol_to_board s client mk chck rq = Some (-1, chck, rq1)"
    | (replaced) r rq1 where "placed rq s r rq1"
      "\<And>client mk chck. insert_symbol_to_board s client mk chck rq =
        map_option (\<lambda>(chck', rq'). (int r, chck', rq')) (subscribe client (int r) mk chck rq1)"
proof -
  obtain indx seqn rq1 where c: "cleaning_board rq = ((indx, seqn), rq1)" by (metis surj_pair)
  have full': "valr (rt_symbol rq) = maxr (rt_symbol rq)" using full board_okD(1) [OF ok(1)] by simp
  have cl: "cleaned rq (maxr (rt_symbol rq)) ((indx, seqn), rq1)"
    using cleaning_board_cleaned [OF ok(1) full'] c by simp
  note k = cleaned_ok [OF ok cl]
  have none: "find_symb rq s = None" using find_symb_rooms(1) [OF ok(1)] new by blast
  show thesis
  proof (cases "seqn = -1")
    case True
    then have "insert_symbol_to_board s client mk chck rq = Some (-1, chck, rq1)" for client mk chck
      using s none full' c by (simp add: insert_symbol_to_board_def)
    with k show thesis by (intro refused)
  next
    case False
    with cl obtain i where i: "i < maxr (rt_symbol rq)" "indx = int i" "seqn = y_seqn (symb (rt_symbol rq) ! i)"
      "h_many (hooks rq ! nat seqn) = 0" by (auto simp: cleaned_def)
    have iv: "i < valr (rt_symbol rq)" using i(1) full' by simp
    have z: "symb (rt_symbol rq) ! i \<in> set (live_symbs rq)"
      using iv board_okD(11) [OF ok(1)] by (metis live_symbs_nth nth_mem)
    have sq: "0 \<le> seqn" "nat seqn < no_of_symbols rq" using board_seqn [OF ok(1) z] i(3) by auto
    then have sq': "seqn < int (no_of_symbols rq)" by linarith
    have same: "same_table rq rq1" using cl by (simp add: cleaned_def)
    have "y_seqn (live_symbs rq1 ! i) = int (nat seqn)"
      using same_table_nth(1) [OF same, of i] iv i(3) k(8) sq board_okD(2,4) [OF ok(1)]
      by (simp add: live_symbs_nth)
    then have place: "entry_place rq1 i (nat seqn)" using iv k(8) by (simp add: entry_place_def)
    have new1: "rooms rq1 s = None" using k(3) new by simp
    have free: "listeners rq1 (nat seqn) = {}"
      using no_listeners [OF ok(2) sq(2)] i(4) listeners_cong [OF k(4)] by simp
    obtain rq2 where r: "enter_symb s i (int (nat seqn)) rq1 = Some rq2" "placed rq1 s (nat seqn) rq2"
      by (rule entered_placed [OF k(1,2) new1 place free])
    then have "placed rq s (nat seqn) rq2" using k by (simp add: placed_def)
    moreover have "insert_symbol_to_board s client mk chck rq =
        map_option (\<lambda>(chck', rq'). (int (nat seqn), chck', rq')) (subscribe client (int (nat seqn)) mk chck rq2)"
      for client mk chck
      using s none full' c sq sq' i(2) r(1) k(7) by (simp add: insert_symbol_to_board_def)
    ultimately show thesis by (rule replaced)
  qed
qed

subsection \<open>A batch of commands\<close>

text \<open>
  While a batch runs, the working masks stay within the client's: what is set in \<^verbatim>\<open>mask_b\<close> is counted.
\<close>

definition batch_ok :: "nat \<Rightarrow> mask_t list \<times> RQ \<Rightarrow> bool" where
  "batch_ok c st \<longleftrightarrow>
     (let (mb, rq) = st
      in board_ok rq \<and> counts_ok rq \<and> linked_to rq c \<and> length mb = no_of_symbols rq \<and>
         (\<forall>r<no_of_symbols rq. mb ! r \<noteq> 0 \<longrightarrow> cl_mask (rq_client rq ! c) ! r \<noteq> 0))"

text \<open>What a step of client \<open>c\<close> leaves alone.\<close>

definition only_client :: "nat \<Rightarrow> RQ \<Rightarrow> RQ \<Rightarrow> bool" where
  "only_client c rq rq' \<longleftrightarrow>
     length (rq_client rq') = length (rq_client rq) \<and>
     (\<forall>d. d \<noteq> c \<longrightarrow> rq_client rq' ! d = rq_client rq ! d) \<and>
     cl_sock (rq_client rq' ! c) = cl_sock (rq_client rq ! c) \<and>
     cl_flag (rq_client rq' ! c) = cl_flag (rq_client rq ! c) \<and>
     no_of_symbols rq' = no_of_symbols rq \<and> dynamic_mode rq' = dynamic_mode rq \<and> rt_fifo rq' = rt_fifo rq"

lemma only_client_refl [simp]: "only_client c rq rq"
  by (simp add: only_client_def)

lemma only_client_trans: "only_client c a b \<Longrightarrow> only_client c b d \<Longrightarrow> only_client c a d"
  by (simp add: only_client_def)

lemma only_client_linked: "only_client c rq rq' \<Longrightarrow> linked_to rq' c = linked_to rq c"
  by (simp add: only_client_def linked_to_def)

text \<open>A command a client library sends: the name fits, and a mask that is set is not empty.\<close>

definition cmd_ok :: "rt_cmd \<Rightarrow> bool" where
  "cmd_ok cmd \<longleftrightarrow> length (cstr (cmd_symb cmd)) < L_SYMB \<and>
     (cmd_func cmd = RT_SET_MASK \<longrightarrow> cmd_mask cmd \<noteq> 0)"

lemma subscribed_batch:
  assumes b: "batch_ok c (mb, rq)" and s: "subscribed rq c nm mk chck r rq'" and mk: "mk \<noteq> 0"
    and chck: "chck = mb \<or> chck = replicate (length mb) 0"
  shows "batch_ok c (chck[r := chck ! r OR mk], rq')" "only_client c rq rq'"
    "cl_mask (rq_client rq' ! c) ! r \<noteq> 0"
proof -
  have c: "c < length (rq_client rq)" using b by (simp add: batch_ok_def linked_to_def)
  have ml: "length (cl_mask (rq_client rq ! c)) = no_of_symbols rq"
    using b board_okD(10) [of rq "rq_client rq ! c"] c by (simp add: batch_ok_def)
  have nz: "cl_mask (rq_client rq ! c) ! r OR mk \<noteq> 0" using mk or_nonzero by blast
  have cl: "rq_client rq' ! c = (rq_client rq ! c)\<lparr>cl_mask :=
      (cl_mask (rq_client rq ! c))[r := cl_mask (rq_client rq ! c) ! r OR mk]\<rparr>"
    using s c by (simp add: subscribed_def set_mask_def)
  show "cl_mask (rq_client rq' ! c) ! r \<noteq> 0" using cl nz s ml by (simp add: subscribed_def)
  show o: "only_client c rq rq'"
    using s cl by (auto simp: only_client_def subscribed_def set_mask_def)
  show "batch_ok c (chck[r := chck ! r OR mk], rq')"
    using b s chck cl nz ml only_client_linked [OF o]
    by (auto simp: batch_ok_def subscribed_def nth_list_update)
qed

text \<open>An insertion within a batch: refused, or subscribed.\<close>

lemma insert_batch:
  assumes b: "batch_ok c (mb, rq)" and s: "length s < L_SYMB" and mk: "mk \<noteq> 0"
    and chck: "chck = mb \<or> chck = replicate (length mb) 0"
  obtains (refused) rq' where "insert_symbol_to_board s (Some c) mk chck rq = Some (-1, chck, rq')"
      "batch_ok c (chck, rq')" "only_client c rq rq'"
    | (inserted) r rq' where "subscribed rq c s mk chck r rq'"
proof -
  have ok: "board_ok rq" "counts_ok rq" and c: "linked_to rq c" and len: "length chck = no_of_symbols rq"
    using b chck by (auto simp: batch_ok_def)
  have *: thesis if "placed rq s r rq1" "\<And>client mk chck. insert_symbol_to_board s client mk chck rq =
      map_option (\<lambda>(chck', rq'). (int r, chck', rq')) (subscribe client (int r) mk chck rq1)" for r rq1
    by (rule placed_subscribed [OF that(1) c len mk that(2)]) (erule inserted)
  show thesis
  proof (cases "rooms rq s")
    case (Some r)
    from known_placed [OF ok s Some] * show thesis by metis
  next
    case None
    show thesis
    proof (cases "valr (rt_symbol rq) < no_of_symbols rq")
      case True
      from new_placed [OF ok s None True] * show thesis by metis
    next
      case False
      then have full: "valr (rt_symbol rq) = no_of_symbols rq" using board_okD(2) [OF ok(1)] by simp
      show thesis
      proof (cases rule: full_placed [OF ok s None full])
        case (1 rq1)
        then have "batch_ok c (chck, rq1)" using b chck c by (auto simp: batch_ok_def linked_to_def)
        with 1 show thesis by (intro refused [of rq1]) (simp_all add: only_client_def)
      next
        case (2 r rq1)
        with * show thesis by metis
      qed
    qed
  qed
qed

lemma batch_update:
  assumes "batch_ok c (mb, rq)" "m \<noteq> 0 \<longrightarrow> v < no_of_symbols rq \<longrightarrow> cl_mask (rq_client rq ! c) ! v \<noteq> 0"
  shows "batch_ok c (mb[v := m], rq)"
  using assms by (cases "v < length mb") (auto simp: batch_ok_def nth_list_update list_update_beyond)

lemma run_insert_ok:
  assumes b: "batch_ok c (mb, rq)" and cmd: "cmd_ok cmd"
    and func: "cmd_func cmd = RT_RST_SYMB \<and> chck = replicate (length mb) 0 \<or>
      cmd_func cmd = RT_INS_SYMB \<and> chck = mb"
  obtains st' where "run_cmd c cmd (mb, rq) = Some st'" "batch_ok c st'" "only_client c rq (snd st')"
proof (cases "cmd_mask cmd = 0")
  case True
  have "batch_ok c (chck, rq)" using b func by (auto simp: batch_ok_def)
  with func True show thesis by (intro that [of "(chck, rq)"]) (auto simp: run_cmd_def RT_defs)
next
  case False
  have chck: "chck = mb \<or> chck = replicate (length mb) 0" using func by blast
  have s: "length (cstr (cmd_symb cmd)) < L_SYMB" using cmd by (simp add: cmd_ok_def)
  show thesis
  proof (cases rule: insert_batch [OF b s False chck])
    case (1 rq')
    with func False show thesis by (intro that [of "(chck, rq')"]) (auto simp: run_cmd_def RT_defs)
  next
    case (2 r rq')
    with func False subscribed_batch [OF b 2 False chck] show thesis
      by (intro that [of "(chck[r := chck ! r OR cmd_mask cmd], rq')"])
        (auto simp: run_cmd_def RT_defs subscribed_def)
  qed
qed

lemma run_set_mask_ok:
  assumes b: "batch_ok c (mb, rq)" and cmd: "cmd_ok cmd" and func: "cmd_func cmd = RT_SET_MASK"
  obtains st' where "run_cmd c cmd (mb, rq) = Some st'" "batch_ok c st'" "only_client c rq (snd st')"
proof -
  have s: "length (cstr (cmd_symb cmd)) < L_SYMB" and mk: "cmd_mask cmd \<noteq> 0"
    using cmd func by (auto simp: cmd_ok_def)
  show thesis
  proof (cases rule: insert_batch [OF b s mk disjI1 [OF refl]])
    case (1 rq')
    with func show thesis by (intro that [of "(mb, rq')"]) (auto simp: run_cmd_def RT_defs)
  next
    case (2 r rq')
    note sb = subscribed_batch [OF b 2 mk disjI1 [OF refl]]
    have "batch_ok c ((mb[r := mb ! r OR cmd_mask cmd])[r := cmd_mask cmd], rq')"
      by (rule batch_update [OF sb(1)]) (use sb(3) in blast)
    with func 2 sb(2) show thesis
      by (intro that [of "((mb[r := mb ! r OR cmd_mask cmd])[r := cmd_mask cmd], rq')"])
        (auto simp: run_cmd_def RT_defs subscribed_def)
  qed
qed

lemma run_drop_ok:
  assumes b: "batch_ok c (mb, rq)" and cmd: "cmd_ok cmd"
    and func: "cmd_func cmd = RT_DEL_MASK \<or> cmd_func cmd = RT_DEL_SYMB"
  obtains st' where "run_cmd c cmd (mb, rq) = Some st'" "batch_ok c st'" "only_client c rq (snd st')"
proof -
  have s: "length (cstr (cmd_symb cmd)) < L_SYMB" and ok: "board_ok rq"
    using cmd b by (auto simp: cmd_ok_def batch_ok_def)
  obtain v where v: "search_symbol_on_board rq (cstr (cmd_symb cmd)) = Some v"
    using search_rooms [OF ok s] by blast
  define m where "m = (if cmd_func cmd = RT_DEL_MASK then mb ! nat v AND NOT (cmd_mask cmd) else 0)"
  have "cl_mask (rq_client rq ! c) ! nat v \<noteq> 0" if "m \<noteq> 0" "nat v < no_of_symbols rq"
    using that b by (auto simp: m_def batch_ok_def split: if_splits)
  then have "batch_ok c (mb[nat v := m], rq)" by (intro batch_update [OF b]) blast
  moreover have "run_cmd c cmd (mb, rq) = Some (if v < 0 \<or> v \<ge> int (no_of_symbols rq) then (mb, rq)
      else (mb[nat v := m], rq))"
    using func v by (auto simp: run_cmd_def RT_defs m_def)
  ultimately show thesis using b
    by (intro that [of "if v < 0 \<or> v \<ge> int (no_of_symbols rq) then (mb, rq) else (mb[nat v := m], rq)"])
      (simp_all split: if_split)
qed

lemma run_pid_ok:
  assumes b: "batch_ok c (mb, rq)"
  shows "batch_ok c (mb, upd_client c (\<lambda>cl. cl\<lparr>cl_pid := p, cl_addr := a\<rparr>) rq)"
    "only_client c rq (upd_client c (\<lambda>cl. cl\<lparr>cl_pid := p, cl_addr := a\<rparr>) rq)"
proof -
  let ?rq = "upd_client c (\<lambda>cl. cl\<lparr>cl_pid := p, cl_addr := a\<rparr>) rq"
  have c: "c < length (rq_client rq)" using b by (simp add: batch_ok_def linked_to_def)
  have cl: "cl_mask (rq_client ?rq ! d) = cl_mask (rq_client rq ! d)" "linked_to ?rq d = linked_to rq d" for d
    using c by (simp_all add: upd_client_def linked_to_def nth_list_update)
  have l: "listeners ?rq r = listeners rq r" for r unfolding listeners_def cl ..
  have n: "length (rq_client ?rq) = length (rq_client rq)" by (simp add: upd_client_def)
  have "counts_ok rq" using b by (simp add: batch_ok_def)
  then have "counts_ok ?rq" unfolding counts_ok_def l n by simp
  moreover have "board_ok ?rq"
    by (rule same_table_ok [of rq]) (use b in \<open>simp_all add: batch_ok_def\<close>)
  ultimately show "batch_ok c (mb, ?rq)" using b cl by (simp add: batch_ok_def)
  show "only_client c rq ?rq" using c by (simp add: only_client_def upd_client_def)
qed

lemma run_cmd_ok:
  assumes b: "batch_ok c (mb, rq)" and cmd: "cmd_ok cmd"
  obtains st' where "run_cmd c cmd (mb, rq) = Some st'" "batch_ok c st'" "only_client c rq (snd st')"
proof -
  consider "cmd_func cmd = RT_RST_SYMB" | "cmd_func cmd = RT_INS_SYMB" | "cmd_func cmd = RT_SET_MASK"
    | "cmd_func cmd = RT_DEL_MASK \<or> cmd_func cmd = RT_DEL_SYMB" | "cmd_func cmd = RT_SET_PID"
    | "cmd_func cmd \<notin> {RT_RST_SYMB, RT_INS_SYMB, RT_SET_MASK, RT_DEL_MASK, RT_DEL_SYMB, RT_SET_PID}"
    by blast
  then show thesis
  proof cases
    case 1 then show thesis by (blast intro: run_insert_ok [OF b cmd] that)
  next
    case 2 then show thesis by (blast intro: run_insert_ok [OF b cmd] that)
  next
    case 3 then show thesis by (blast intro: run_set_mask_ok [OF b cmd] that)
  next
    case 4 then show thesis by (blast intro: run_drop_ok [OF b cmd] that)
  next
    case 5
    with that [of "(mb, _)"] run_pid_ok [OF b] show thesis by (simp add: run_cmd_def RT_defs)
  next
    case 6
    with that [of "(mb, rq)"] b show thesis by (simp add: run_cmd_def)
  qed
qed

subsection \<open>The end of a batch\<close>

lemma settle_step_ok:
  assumes b: "batch_ok c (mb, rq)" and ii: "ii < no_of_symbols rq"
  defines "rq' \<equiv> settle_step c mb ii rq"
  shows "batch_ok c (mb, rq')" "only_client c rq rq'" "rooms rq' = rooms rq"
    "cl_mask (rq_client rq' ! c) = (cl_mask (rq_client rq ! c))[ii := mb ! ii]"
    "cl_pid (rq_client rq' ! c) = cl_pid (rq_client rq ! c)"
proof -
  let ?m = "cl_mask (rq_client rq ! c)"
  have ok: "board_ok rq" "counts_ok rq" "linked_to rq c" and cov: "mb ! ii \<noteq> 0 \<Longrightarrow> ?m ! ii \<noteq> 0"
    using b ii by (auto simp: batch_ok_def)
  have c: "c < length (rq_client rq)" using ok(3) by (simp add: linked_to_def)
  have ml: "length ?m = no_of_symbols rq" using board_okD(10) [OF ok(1)] c by simp
  define dec where "dec \<longleftrightarrow> mb ! ii = 0 \<and> ?m ! ii \<noteq> 0 \<and> h_many (hooks rq ! ii) > 0"
  have rq': "rq' = upd_client c (\<lambda>cl. cl\<lparr>cl_mask := (cl_mask cl)[ii := mb ! ii]\<rparr>)
      (if dec then upd_hook ii (\<lambda>h. h\<lparr>h_many := h_many h - 1\<rparr>) rq else rq)"
    by (simp add: rq'_def settle_step_def dec_def Let_def)
  have same: "same_table rq rq'" unfolding rq'
    by (simp add: same_table_trans [OF upd_hook_same upd_client_same])
  have cls: "rq_client rq' = set_mask c ii (mb ! ii) rq"
    by (simp add: rq' set_mask_def upd_client_def upd_hook_def)
  then have cl: "rq_client rq' ! c = (rq_client rq ! c)\<lparr>cl_mask := ?m[ii := mb ! ii]\<rparr>"
    "length (rq_client rq') = length (rq_client rq)" using c by (simp_all add: set_mask_def)
  then show "cl_mask (rq_client rq' ! c) = ?m[ii := mb ! ii]"
    "cl_pid (rq_client rq' ! c) = cl_pid (rq_client rq ! c)" by simp_all
  show rooms: "rooms rq' = rooms rq" by (rule same_table_rooms [OF same])
  have frame: "no_of_symbols rq' = no_of_symbols rq" "live_symbs rq' = live_symbs rq"
    "rt_symbol rq' = rt_symbol rq" "dynamic_mode rq' = dynamic_mode rq" "rt_fifo rq' = rt_fifo rq"
    by (simp_all add: rq')
  show o: "only_client c rq rq'"
    using cls cl frame by (auto simp: only_client_def set_mask_def)
  have im: "ii < length ?m" using ii ml by simp
  note l = listeners_set_mask [OF ok(3) im cls]
  have sub: "listeners rq' r \<subseteq> listeners rq r" for r
    using l cov ok(3) by (cases "r = ii") (auto simp: listeners_def)
  have "unat (h_many (hooks rq' ! r)) = card (listeners rq' r)" if r: "r < no_of_symbols rq" for r
  proof (cases "r = ii")
    case False
    then show ?thesis using l(2) counts_okD(2) [OF ok(2) r] by (simp add: rq' hooks_upd_hook)
  next
    case True
    have hl: "ii < length (hooks rq)" using ii board_okD(5) [OF ok(1)] by simp
    show ?thesis
    proof (cases "mb ! ii = 0 \<and> ?m ! ii \<noteq> 0")
      case T: True
      then have mem: "c \<in> listeners rq ii" using ok(3) by (simp add: listeners_def)
      then have nz: "h_many (hooks rq ! ii) \<noteq> 0" using no_listeners [OF ok(2) ii] by auto
      then have "h_many (hooks rq' ! ii) = h_many (hooks rq ! ii) - 1"
        using T hl by (simp add: rq' dec_def hooks_upd_hook word_neq_0_conv)
      moreover have "card (listeners rq' ii) = card (listeners rq ii) - 1" using T l(1) mem by simp
      ultimately show ?thesis using nz counts_okD(2) [OF ok(2) ii] True by (simp add: unat_minus_one)
    next
      case F: False
      then have "listeners rq' ii = listeners rq ii"
        using l(1) cov ok(3) by (auto simp: listeners_def)
      then show ?thesis using F counts_okD(2) [OF ok(2) ii] True by (auto simp: rq' dec_def)
    qed
  qed
  then have "counts_ok rq'"
    using sub frame cl(2) counts_okD [OF ok(2)] unfolding counts_ok_def by (metis subset_empty)
  then show "batch_ok c (mb, rq')"
    using b o same_table_ok [OF same ok(1)] frame cl ml only_client_linked [OF o]
    by (simp add: batch_ok_def nth_list_update [OF im])
qed

text \<open>After the loop the client's masks are the working masks.\<close>

lemma settle_ok:
  assumes "batch_ok c (mb, rq)"
  defines "rq' \<equiv> fold (settle_step c mb) [0..<no_of_symbols rq] rq"
  shows "batch_ok c (mb, rq')" "only_client c rq rq'" "rooms rq' = rooms rq"
    "cl_mask (rq_client rq' ! c) = mb" "cl_pid (rq_client rq' ! c) = cl_pid (rq_client rq ! c)"
proof -
  let ?f = "\<lambda>n. fold (settle_step c mb) [0..<n] rq"
  have ml: "length (cl_mask (rq_client rq ! c)) = no_of_symbols rq" "length mb = no_of_symbols rq"
    using assms(1) board_okD(10) [of rq "rq_client rq ! c"] by (auto simp: batch_ok_def linked_to_def)
  have "n \<le> no_of_symbols rq \<Longrightarrow> batch_ok c (mb, ?f n) \<and> only_client c rq (?f n) \<and> rooms (?f n) = rooms rq \<and>
      cl_mask (rq_client (?f n) ! c) = take n mb @ drop n (cl_mask (rq_client rq ! c)) \<and>
      cl_pid (rq_client (?f n) ! c) = cl_pid (rq_client rq ! c)" for n
  proof (induction n)
    case 0
    with assms(1) show ?case by simp
  next
    case (Suc n)
    then have n: "n < no_of_symbols (?f n)" by (simp add: only_client_def)
    have "(take n mb @ drop n (cl_mask (rq_client rq ! c)))[n := mb ! n] =
        take (Suc n) mb @ drop (Suc n) (cl_mask (rq_client rq ! c))"
      using Suc.prems ml by (simp add: list_update_append Cons_nth_drop_Suc [symmetric] take_Suc_conv_app_nth)
    with Suc settle_step_ok [OF _ n, of c mb] show ?case
      by (auto intro: only_client_trans)
  qed
  from this [of "no_of_symbols rq"] show "batch_ok c (mb, rq')" "only_client c rq rq'" "rooms rq' = rooms rq"
    "cl_mask (rq_client rq' ! c) = mb" "cl_pid (rq_client rq' ! c) = cl_pid (rq_client rq ! c)"
    using ml by (auto simp: rq'_def)
qed

lemma run_cmds_ok:
  "batch_ok c (mb, rq) \<Longrightarrow> \<forall>cmd\<in>set cmds. cmd_ok cmd \<Longrightarrow>
   \<exists>mb' rq'. run_cmds c cmds (mb, rq) = Some (mb', rq') \<and> batch_ok c (mb', rq') \<and> only_client c rq rq'"
proof (induction cmds arbitrary: mb rq)
  case (Cons cmd cmds)
  obtain mb1 rq1 where 1: "run_cmd c cmd (mb, rq) = Some (mb1, rq1)" "batch_ok c (mb1, rq1)" "only_client c rq rq1"
    using run_cmd_ok [OF Cons.prems(1), of cmd] Cons.prems(2) by (metis list.set_intros(1) prod.collapse)
  from Cons.IH [OF 1(2)] Cons.prems(2) 1 show ?case by (auto intro: only_client_trans)
qed simp

lemma batch_start:
  assumes "board_ok rq" "counts_ok rq" "linked_to rq c"
  shows "batch_ok c (cl_mask (rq_client rq ! c), rq)"
  using assms board_okD(10) [OF assms(1), of "rq_client rq ! c"] by (simp add: batch_ok_def linked_to_def)

lemma check_command_ok:
  assumes ok: "board_ok rq" "counts_ok rq" "linked_to rq c" and cmds: "\<forall>cmd\<in>set cmds. cmd_ok cmd"
  obtains mb rq1 rq' where "run_cmds c cmds (cl_mask (rq_client rq ! c), rq) = Some (mb, rq1)"
    "check_command_for_client c cmds rq = Some rq'" "board_ok rq'" "counts_ok rq'" "only_client c rq rq'"
    "rooms rq' = rooms rq1" "cl_mask (rq_client rq' ! c) = mb"
proof -
  obtain mb rq1 where r: "run_cmds c cmds (cl_mask (rq_client rq ! c), rq) = Some (mb, rq1)"
    "batch_ok c (mb, rq1)" "only_client c rq rq1"
    using run_cmds_ok [OF batch_start [OF ok] cmds] by blast
  have n: "no_of_symbols rq1 = no_of_symbols rq" using r(3) by (simp add: only_client_def)
  note s = settle_ok [OF r(2), unfolded n]
  have "check_command_for_client c cmds rq = Some (fold (settle_step c mb) [0..<no_of_symbols rq] rq1)"
    using r(1) ok(3) by (simp add: check_command_for_client_def linked_to_def)
  then show thesis
    by (rule that [OF r(1)]) (use r s in \<open>auto simp: batch_ok_def intro: only_client_trans\<close>)
qed

subsection \<open>Connections come and go\<close>

lemma linked_clients_cong:
  assumes "length (rq_client rq') = length (rq_client rq)"
    and "\<And>d. d \<noteq> c \<Longrightarrow> rq_client rq' ! d = rq_client rq ! d"
  shows "d \<noteq> c \<Longrightarrow> linked_to rq' d = linked_to rq d" "listeners rq' r - {c} = listeners rq r - {c}"
  using assms by (auto simp: linked_to_def listeners_def)

text \<open>A new connection listens to nothing and leaves the others alone.\<close>

lemma accept_listeners:
  assumes ok: "board_ok rq" and free: "\<And>r. r < no_of_symbols rq \<Longrightarrow> nat sock \<notin> listeners rq r"
    and r: "r < no_of_symbols rq"
  shows "listeners (accept_client sock local written rq) r = listeners rq r"
proof (cases "sock < 0 \<or> sock \<ge> int (length (rq_client rq))")
  case True
  then show ?thesis by (simp add: accept_client_def)
next
  case False
  let ?s = "nat sock" and ?rq' = "accept_client sock local written rq"
  have s: "0 \<le> sock" "?s < length (rq_client rq)" using False by linarith+
  have ml: "length (cl_mask (rq_client rq ! ?s)) = no_of_symbols rq" using board_okD(10) [OF ok] s by simp
  have cl: "length (rq_client ?rq') = length (rq_client rq)" "d \<noteq> ?s \<Longrightarrow> rq_client ?rq' ! d = rq_client rq ! d"
    "cl_mask (rq_client ?rq' ! ?s) = replicate (no_of_symbols rq) 0" for d
    using s ml by (auto simp: accept_client_def upd_client_def Let_def nth_list_update)
  have "?s \<notin> listeners ?rq' r" "?s \<notin> listeners rq r" using cl(3) free r by (auto simp: listeners_def)
  with linked_clients_cong(2) [of ?rq' rq ?s r, OF cl(1,2)] show ?thesis by blast
qed

lemma accept_client_ok:
  assumes ok: "board_ok rq" "counts_ok rq"
    and free: "\<And>r. r < no_of_symbols rq \<Longrightarrow> nat sock \<notin> listeners rq r"
  shows "board_ok (accept_client sock local written rq)" "counts_ok (accept_client sock local written rq)"
proof -
  let ?s = "nat sock" and ?rq' = "accept_client sock local written rq"
  have *: "board_ok ?rq' \<and> counts_ok ?rq'" if s: "0 \<le> sock" "?s < length (rq_client rq)"
  proof -
    have ml: "length (cl_mask (rq_client rq ! ?s)) = no_of_symbols rq" using board_okD(10) [OF ok(1)] s by simp
    have cl: "length (rq_client ?rq') = length (rq_client rq)" "d \<noteq> ?s \<Longrightarrow> rq_client ?rq' ! d = rq_client rq ! d"
      "cl_mask (rq_client ?rq' ! ?s) = replicate (no_of_symbols rq) 0" for d
      using s ml by (auto simp: accept_client_def upd_client_def Let_def nth_list_update)
    have frame: "rt_symbol ?rq' = rt_symbol rq" "hooks ?rq' = hooks rq" "no_of_symbols ?rq' = no_of_symbols rq"
      by (auto simp: accept_client_def upd_client_def Let_def)
    have same: "same_table rq ?rq'"
    proof -
      have "map (\<lambda>cl. length (cl_mask cl)) (rq_client ?rq') = map (\<lambda>cl. length (cl_mask cl)) (rq_client rq)"
      proof (rule nth_equalityI)
        show "map (\<lambda>cl. length (cl_mask cl)) (rq_client ?rq') ! d = map (\<lambda>cl. length (cl_mask cl)) (rq_client rq) ! d"
          if "d < length (map (\<lambda>cl. length (cl_mask cl)) (rq_client ?rq'))" for d
          using that cl ml by (cases "d = ?s") simp_all
      qed (simp add: cl(1))
      with frame show ?thesis by (simp add: same_table_def)
    qed
    have l: "listeners ?rq' r = listeners rq r" if "r < no_of_symbols rq" for r
      using accept_listeners [OF ok(1) free that] by simp
    have "counts_ok ?rq'"
      using counts_okD [OF ok(2)] frame cl(1) l board_seqn(3) [OF ok(1)]
      by (simp add: counts_ok_def live_symbs_def)
    with same_table_ok [OF same ok(1)] show ?thesis by simp
  qed
  have "board_ok ?rq' \<and> counts_ok ?rq'"
  proof (cases "sock < 0 \<or> sock \<ge> int (length (rq_client rq))")
    case True
    with ok show ?thesis by (simp add: accept_client_def)
  next
    case False
    then show ?thesis by (intro *) linarith+
  qed
  then show "board_ok ?rq'" "counts_ok ?rq'" by blast+
qed

text \<open>The loop of \<^verbatim>\<open>close_client\<close> over the symbols: the first \<open>n\<close> of them are done.\<close>

definition leaving :: "RQ \<Rightarrow> nat \<Rightarrow> nat \<Rightarrow> RQ \<Rightarrow> bool" where
  "leaving rq c n rq' \<longleftrightarrow>
     same_table rq rq' \<and> rt_symbol rq' = rt_symbol rq \<and>
     (\<forall>d. d \<noteq> c \<longrightarrow> rq_client rq' ! d = rq_client rq ! d) \<and> cl_sock (rq_client rq' ! c) = -1 \<and>
     (\<forall>r<no_of_symbols rq. n \<le> r \<longrightarrow> cl_mask (rq_client rq' ! c) ! r = cl_mask (rq_client rq ! c) ! r) \<and>
     (\<forall>r<no_of_symbols rq. unat (h_many (hooks rq' ! r)) =
        (if r < n then card (listeners rq r - {c}) else card (listeners rq r)))"

lemma leave_step_leaving:
  assumes ok: "board_ok rq" "counts_ok rq" and c: "linked_to rq c" and n: "n < no_of_symbols rq"
    and l: "leaving rq c n rq1"
  shows "leaving rq c (Suc n) (leave_step c n rq1)"
proof -
  let ?m = "cl_mask (rq_client rq ! c)"
  have same: "same_table rq rq1" and m: "cl_mask (rq_client rq1 ! c) ! n = ?m ! n"
    and cnt: "unat (h_many (hooks rq1 ! n)) = card (listeners rq n)"
    using l n by (auto simp: leaving_def)
  have cl: "c < length (rq_client rq1)" using c same_table_lengths(3) [OF same] by (simp add: linked_to_def)
  have hl: "n < length (hooks rq1)" using n board_okD(5) [OF ok(1)] same_table_lengths(2) [OF same] by simp
  show ?thesis
  proof (cases "?m ! n = 0")
    case True
    then have "c \<notin> listeners rq n" by (simp add: listeners_def)
    then have "card (listeners rq n - {c}) = card (listeners rq n)" by simp
    with True m l show ?thesis by (auto simp: leave_step_def leaving_def less_Suc_eq)
  next
    case False
    then have mem: "c \<in> listeners rq n" using c by (simp add: listeners_def)
    then have pos: "0 < card (listeners rq n)" by (auto simp: card_gt_0_iff)
    then have nz: "h_many (hooks rq1 ! n) \<noteq> 0" using cnt by auto
    define rq2 where "rq2 = upd_hook n (\<lambda>h. h\<lparr>h_many := h_many h - 1\<rparr>) rq1"
    have step: "leave_step c n rq1 = upd_client c (\<lambda>cl. cl\<lparr>cl_mask := (cl_mask cl)[n := 0]\<rparr>) rq2"
      using False m nz by (simp add: leave_step_def rq2_def word_neq_0_conv)
    have "same_table rq (leave_step c n rq1)"
      unfolding step rq2_def by (rule same_table_trans [OF same same_table_trans [OF upd_hook_same upd_client_same]]) simp_all
    moreover have "unat (h_many (hooks rq2 ! n)) = card (listeners rq n - {c})"
      using hl nz cnt mem by (simp add: rq2_def hooks_upd_hook unat_minus_one)
    moreover have "hooks rq2 ! r = hooks rq1 ! r" if "r \<noteq> n" for r
      using that by (simp add: rq2_def hooks_upd_hook)
    ultimately show ?thesis
      using l cl step by (auto simp: leaving_def rq2_def upd_client_def less_Suc_eq)
  qed
qed

lemma close_client_ok:
  assumes ok: "board_ok rq" "counts_ok rq"
  shows "board_ok (close_client c rq)" "counts_ok (close_client c rq)"
proof -
  have "board_ok (close_client c rq) \<and> counts_ok (close_client c rq)" if c: "linked_to rq c"
  proof -
    let ?rq1 = "upd_client c (\<lambda>cl. cl\<lparr>cl_sock := -1, cl_pid := 0, cl_addr := 0\<rparr>) rq"
    define rq2 where "rq2 = fold (leave_step c) [0..<no_of_symbols rq] ?rq1"
    have "n \<le> no_of_symbols rq \<Longrightarrow> leaving rq c n (fold (leave_step c) [0..<n] ?rq1)" for n
    proof (induction n)
      case 0
      have "same_table rq ?rq1" by simp
      moreover have "rq_client ?rq1 ! c = (rq_client rq ! c)\<lparr>cl_sock := -1, cl_pid := 0, cl_addr := 0\<rparr>"
        "\<And>d. d \<noteq> c \<Longrightarrow> rq_client ?rq1 ! d = rq_client rq ! d"
        using c by (simp_all add: linked_to_def upd_client_def)
      ultimately show ?case using counts_okD(2) [OF ok(2)] by (simp add: leaving_def)
    next
      case (Suc n)
      then show ?case using leave_step_leaving [OF ok c] by simp
    qed
    then have l: "leaving rq c (no_of_symbols rq) rq2" by (simp add: rq2_def)
    then have same: "same_table rq rq2" by (simp add: leaving_def)
    have lis: "listeners rq2 r = listeners rq r - {c}" for r
    proof -
      have "c \<notin> listeners rq2 r" using l by (simp add: leaving_def listeners_def linked_to_def)
      moreover have "listeners rq2 r - {c} = listeners rq r - {c}"
        by (rule linked_clients_cong(2)) (use l same_table_lengths(3) [OF same] in \<open>simp_all add: leaving_def\<close>)
      ultimately show ?thesis by simp
    qed
    have "counts_ok rq2"
      using l lis counts_okD [OF ok(2)] same_table_lengths(3) [OF same]
      by (simp add: counts_ok_def leaving_def same_table_def live_symbs_def)
    moreover have "board_ok rq2" by (rule same_table_ok [OF same ok(1)])
    moreover have "close_client c rq = rq2\<lparr>no_of_linked := last_linked rq2\<rparr>"
      using c by (simp add: close_client_def Let_def rq2_def)
    ultimately show ?thesis
      by (simp add: counts_ok_def board_ok_def live_symbs_def listeners_def linked_to_def)
  qed
  then show "board_ok (close_client c rq)" "counts_ok (close_client c rq)"
    using ok by (auto simp: close_client_def)
qed

end
