(* ===== verification/Broker.thy ===== *)
theory Broker
  imports Subscriptions
begin

text \<open>
  The push broker as a whole: its start (\<^verbatim>\<open>init_shm\<close> of \<^verbatim>\<open>src/push/init.c\<close>), its runs, and the
  properties of subscriptions. A step is a connection accepted or closed, or a batch of commands;
  these are what the threads of the broker do to the board between the pushes, each under its mutex.
  The room of a socket that is accepted listens to nothing: it is free, or a refused connection has
  left it marked.
\<close>

subsection \<open>Start\<close>

text \<open>
  The segment is cleared; the masks are allocated and not cleared, so their first content is the
  argument \<open>maskb\<close>. The other arguments are the tuning parameters.
\<close>

definition init_shm :: "nat \<Rightarrow> nat \<Rightarrow> nat \<Rightarrow> bool \<Rightarrow> (nat \<Rightarrow> mask_t list) \<Rightarrow> RQ" where
  "init_shm clients symbols buffers dynamic maskb = \<lparr>
     rt_board = \<lparr> b_mqid = [0, 0, 0], b_alive = 1, b_no_of_symbols = symbols,
                  b_hook = replicate (symbols + 129) hook0 \<rparr>,
     rt_symbol = \<lparr> maxr = symbols, valr = 0, symb = replicate (symbols + 1) symb0 \<rparr>,
     rt_fifo = \<lparr> widx = 0, push = replicate (buffers + 1) msg0 \<rparr>,
     rq_client = map (\<lambda>ii. \<lparr> cl_sock = -1, cl_flag = 0, cl_mask = maskb ii, cl_pid = 0, cl_addr = 0 \<rparr>)
       [0..<clients + 80],
     no_of_linked = 0, no_of_symbols = symbols, dynamic_mode = dynamic, modified = 0, pushseqn = 0,
     no_of_buffers = buffers \<rparr>"

lemma init_shm_ok:
  assumes "symbols \<le> 32768" "clients + 80 < 65536" "\<And>ii. length (maskb ii) = symbols"
  shows "board_ok (init_shm clients symbols buffers dynamic maskb)"
    "counts_ok (init_shm clients symbols buffers dynamic maskb)"
  using assms
  by (auto simp: board_ok_def counts_ok_def init_shm_def live_symbs_def listeners_def linked_to_def hook0_def)

subsection \<open>Runs\<close>

inductive broker_step :: "RQ \<Rightarrow> RQ \<Rightarrow> bool" where
  Accept: "\<forall>r<no_of_symbols rq. nat sock \<notin> listeners rq r \<Longrightarrow> broker_step rq (accept_client sock local written rq)"
| Close: "broker_step rq (close_client sock rq)"
| Commands: "\<forall>cmd\<in>set cmds. cmd_ok cmd \<Longrightarrow> recv_from_client sock cmds rq = Some rq' \<Longrightarrow> broker_step rq rq'"

inductive_cases broker_stepE: "broker_step rq rq'"

text \<open>A message of commands: either ignored, or a batch of a linked client.\<close>

lemma recv_from_client_cases:
  assumes ok: "board_ok rq" "counts_ok rq" and cmds: "\<forall>cmd\<in>set cmds. cmd_ok cmd"
  obtains rq' where "recv_from_client sock cmds rq = Some rq'" "board_ok rq'" "counts_ok rq'"
    "only_client (nat sock) rq rq'"
proof (cases "recv_from_client sock cmds rq = check_command_for_client (nat sock) cmds rq \<and> linked_to rq (nat sock)")
  case True
  then obtain mb rq1 rq' where "check_command_for_client (nat sock) cmds rq = Some rq'"
    "board_ok rq'" "counts_ok rq'" "only_client (nat sock) rq rq'"
    using check_command_ok [OF ok _ cmds] by metis
  with True that show thesis by metis
next
  case False
  then have "recv_from_client sock cmds rq = Some rq"
    by (auto simp: recv_from_client_def linked_to_def split: if_splits)
  with ok that show thesis by simp
qed

lemma broker_step_ok [inv_pres]:
  "broker_step rq rq' \<Longrightarrow> board_ok rq \<Longrightarrow> counts_ok rq \<Longrightarrow> board_ok rq' \<and> counts_ok rq'"
proof (erule broker_stepE)
  fix cmds sock
  assume "\<forall>cmd\<in>set cmds. cmd_ok cmd" "recv_from_client sock cmds rq = Some rq'" "board_ok rq" "counts_ok rq"
  then show "board_ok rq' \<and> counts_ok rq'"
    by (metis option.inject recv_from_client_cases)
qed (simp_all add: accept_client_ok close_client_ok)

lemma broker_steps_ok:
  "broker_step\<^sup>*\<^sup>* rq rq' \<Longrightarrow> board_ok rq \<Longrightarrow> counts_ok rq \<Longrightarrow> board_ok rq' \<and> counts_ok rq'"
  by (induction rule: rtranclp_induct) (auto dest: broker_step_ok)

text \<open>
  The counts are right. In every state that the broker reaches from its start, whatever connections
  come and go and whatever batches of commands the clients send, the symbol table is sorted without
  duplicates, its numbers are those below the count of symbols, and the count in every hook is the
  number of connected clients whose mask for that symbol is not empty. No batch there runs into
  undefined behaviour. (Names are shorter than 20 bytes, and \<^verbatim>\<open>RT_SET_MASK\<close> comes with a mask.)
\<close>

theorem counts_are_listeners:
  assumes "symbols \<le> 32768" "clients + 80 < 65536" "\<And>ii. length (maskb ii) = symbols"
    and "broker_step\<^sup>*\<^sup>* (init_shm clients symbols buffers dynamic maskb) rq"
  shows "board_ok rq \<and>
    (\<forall>r<no_of_symbols rq. unat (h_many (hooks rq ! r)) = card (listeners rq r)) \<and>
    (\<forall>sock cmds. (\<forall>cmd\<in>set cmds. cmd_ok cmd) \<longrightarrow> recv_from_client sock cmds rq \<noteq> None)"
proof -
  have ok: "board_ok rq" "counts_ok rq"
    using broker_steps_ok [OF assms(4) init_shm_ok [OF assms(1-3)]] by blast+
  then show ?thesis using counts_okD(2) [OF ok(2)] recv_from_client_cases [OF ok] by (metis option.distinct(1))
qed

definition cmd_of :: "int \<Rightarrow> string \<Rightarrow> mask_t \<Rightarrow> rt_cmd" where
  "cmd_of func s m = \<lparr> cmd_func = func, cmd_mask = m, cmd_symb = s @ replicate (20 - length s) NUL \<rparr>"

definition broker1 :: RQ where
  "broker1 = accept_client 3 True True (init_shm 10 4 8 True (\<lambda>ii. replicate 4 5))"

theorem counts_are_listeners_witness:
  "unat (h_many (hooks broker1 ! 2)) = card (listeners broker1 2) \<and>
   recv_from_client 3 [cmd_of RT_INS_SYMB ''F@A@H'' 1] broker1 \<noteq> None"
proof -
  let ?rq = "init_shm 10 4 8 True (\<lambda>ii. replicate 4 5)"
  have "broker_step ?rq broker1"
    unfolding broker1_def by (rule Accept) (simp add: listeners_def linked_to_def init_shm_def)
  then have step: "broker_step\<^sup>*\<^sup>* ?rq broker1" by simp
  have n: "no_of_symbols broker1 = 4" by (simp add: broker1_def accept_client_def init_shm_def Let_def upd_client_def)
  have "cmd_ok (cmd_of RT_INS_SYMB ''F@A@H'' 1)" by (simp add: cmd_ok_def cmd_of_def L_SYMB_def RT_defs)
  with counts_are_listeners [of 4 10 "\<lambda>ii. replicate 4 5" 8 True broker1] step n show ?thesis by simp
qed

subsection \<open>Subscriptions\<close>

definition mask_of :: "(string \<rightharpoonup> nat) \<Rightarrow> mask_t list \<Rightarrow> string \<Rightarrow> mask_t" where
  "mask_of R mb s = (case R s of None \<Rightarrow> 0 | Some r \<Rightarrow> mb ! r)"

text \<open>The events of a symbol that a client listens to.\<close>

definition subscription :: "RQ \<Rightarrow> nat \<Rightarrow> string \<Rightarrow> mask_t" where
  "subscription rq c = mask_of (rooms rq) (cl_mask (rq_client rq ! c))"

text \<open>What a list of commands asks for, symbol by symbol.\<close>

fun wanted :: "rt_cmd list \<Rightarrow> string \<Rightarrow> mask_t" where
  "wanted [] s = 0"
| "wanted (cmd # cmds) s = (if cstr (cmd_symb cmd) = s then cmd_mask cmd OR wanted cmds s else wanted cmds s)"

text \<open>An insertion for which there is room adds the mask to the symbol's and touches no other.\<close>

lemma insert_exact:
  assumes b: "batch_ok c (mb, rq)" and s: "length s < L_SYMB" and mk: "mk \<noteq> 0"
    and chck: "chck = mb \<or> chck = replicate (length mb) 0" and room: "valr (rt_symbol rq) < no_of_symbols rq"
  obtains r rq' where "subscribed rq c s mk chck r rq'" "valr (rt_symbol rq') \<le> Suc (valr (rt_symbol rq))"
    "\<And>t. mask_of (rooms rq') (chck[r := chck ! r OR mk]) t = mask_of (rooms rq) chck t OR (if t = s then mk else 0)"
proof -
  have ok: "board_ok rq" "counts_ok rq" and c: "linked_to rq c" and len: "length chck = no_of_symbols rq"
    using b chck by (auto simp: batch_ok_def)
  show thesis
  proof (cases "rooms rq s")
    case (Some r)
    obtain rq1 where p: "placed rq s r rq1" "rooms rq1 = rooms rq" "valr (rt_symbol rq1) = valr (rt_symbol rq)"
      "\<And>client mk chck. insert_symbol_to_board s client mk chck rq =
        map_option (\<lambda>(chck', rq'). (int r, chck', rq')) (subscribe client (int r) mk chck rq1)"
      using known_placed [OF ok s Some] by metis
    obtain rq' where q: "subscribed rq c s mk chck r rq'" "rooms rq' = rooms rq1"
      "valr (rt_symbol rq') = valr (rt_symbol rq1)"
      by (rule placed_subscribed [OF p(1) c len mk p(4)])
    have r: "r < length chck" using rooms_bound [OF ok(1) Some] len by simp
    have other: "rt \<noteq> r" if "rooms rq t = Some rt" "t \<noteq> s" for t rt
      using that Some rooms_inj [OF ok(1), of t rt s] by blast
    have "mask_of (rooms rq') (chck[r := chck ! r OR mk]) t = mask_of (rooms rq) chck t OR (if t = s then mk else 0)" for t
      using p(2) q(2) Some r other [of t] by (cases "t = s") (auto simp: mask_of_def split: option.split)
    with p q show thesis by (intro that [of r rq']) simp_all
  next
    case None
    let ?v = "valr (rt_symbol rq)"
    obtain rq1 where p: "placed rq s ?v rq1" "rooms rq1 = (rooms rq)(s \<mapsto> ?v)" "valr (rt_symbol rq1) = Suc ?v"
      "\<And>client mk chck. insert_symbol_to_board s client mk chck rq =
        map_option (\<lambda>(chck', rq'). (int ?v, chck', rq')) (subscribe client (int ?v) mk chck rq1)"
      using new_placed [OF ok s None room] by metis
    obtain rq' where q: "subscribed rq c s mk chck ?v rq'" "rooms rq' = rooms rq1"
      "valr (rt_symbol rq') = valr (rt_symbol rq1)"
      by (rule placed_subscribed [OF p(1) c len mk p(4)])
    have "cl_mask (rq_client rq ! c) ! ?v = 0"
      using counts_okD(4) [OF ok(2) order_refl room] c by (auto simp: listeners_def)
    then have "chck ! ?v = 0" using b chck room by (auto simp: batch_ok_def)
    moreover have "?v \<noteq> rt" if "rooms rq t = Some rt" for t rt using rooms_bound [OF ok(1) that] by simp
    ultimately have "mask_of (rooms rq') (chck[?v := chck ! ?v OR mk]) t =
        mask_of (rooms rq) chck t OR (if t = s then mk else 0)" for t
      using p(2) q(2) None room len by (auto simp: mask_of_def split: option.split)
    with p q show thesis by (intro that [of ?v rq']) simp_all
  qed
qed

lemma or_swap: "(x OR (if a = b then y else 0)) OR z = x OR (if b = a then y OR z else (z :: 'w::len word))"
  by (simp add: or.assoc)

lemma run_inserts:
  "batch_ok c (mb, rq) \<Longrightarrow>
   \<forall>cmd\<in>set cmds. cmd_func cmd = RT_INS_SYMB \<and> cmd_mask cmd \<noteq> 0 \<and> length (cstr (cmd_symb cmd)) < L_SYMB \<Longrightarrow>
   valr (rt_symbol rq) + length cmds \<le> no_of_symbols rq \<Longrightarrow>
   \<exists>mb' rq'. run_cmds c cmds (mb, rq) = Some (mb', rq') \<and>
     (\<forall>t. mask_of (rooms rq') mb' t = mask_of (rooms rq) mb t OR wanted cmds t)"
proof (induction cmds arbitrary: mb rq)
  case (Cons cmd cmds)
  have cmd: "cmd_func cmd = RT_INS_SYMB" "cmd_mask cmd \<noteq> 0" "length (cstr (cmd_symb cmd)) < L_SYMB"
    and room: "valr (rt_symbol rq) < no_of_symbols rq" using Cons.prems by auto
  obtain r rq1 where s: "subscribed rq c (cstr (cmd_symb cmd)) (cmd_mask cmd) mb r rq1"
    "valr (rt_symbol rq1) \<le> Suc (valr (rt_symbol rq))"
    "\<And>t. mask_of (rooms rq1) (mb[r := mb ! r OR cmd_mask cmd]) t =
       mask_of (rooms rq) mb t OR (if t = cstr (cmd_symb cmd) then cmd_mask cmd else 0)"
    using insert_exact [OF Cons.prems(1) cmd(3,2) disjI1 [OF refl] room] by metis
  let ?mb = "mb[r := mb ! r OR cmd_mask cmd]"
  note b = subscribed_batch [OF Cons.prems(1) s(1) cmd(2) disjI1 [OF refl]]
  have step: "run_cmd c cmd (mb, rq) = Some (?mb, rq1)"
    using cmd s(1) by (simp add: run_cmd_def RT_defs subscribed_def)
  have "valr (rt_symbol rq1) + length cmds \<le> no_of_symbols rq1"
    using Cons.prems(3) s(1,2) by (simp add: subscribed_def)
  from Cons.IH [OF b(1) _ this] Cons.prems(2) obtain mb' rq' where
    "run_cmds c cmds (?mb, rq1) = Some (mb', rq')"
    "\<forall>t. mask_of (rooms rq') mb' t = mask_of (rooms rq1) ?mb t OR wanted cmds t" by auto
  then show ?case using step s(3) by (simp add: or_swap)
qed simp

lemma batch_subscribed:
  assumes ok: "board_ok rq" "counts_ok rq" "linked_to rq c"
    and first: "cmd_func cmd = RT_RST_SYMB"
    and rest: "\<forall>x\<in>set cmds. cmd_func x = RT_INS_SYMB"
    and cmds: "\<forall>x\<in>set (cmd # cmds). cmd_mask x \<noteq> 0 \<and> length (cstr (cmd_symb x)) < L_SYMB"
    and room: "valr (rt_symbol rq) + length (cmd # cmds) \<le> no_of_symbols rq"
  shows "\<exists>rq'. check_command_for_client c (cmd # cmds) rq = Some rq' \<and>
    subscription rq' c = wanted (cmd # cmds) \<and> only_client c rq rq'"
proof -
  let ?mb = "cl_mask (rq_client rq ! c)"
  let ?zero = "replicate (length ?mb) (0 :: mask_t)"
  note b = batch_start [OF ok]
  have cmd: "cmd_mask cmd \<noteq> 0" "length (cstr (cmd_symb cmd)) < L_SYMB"
    and v: "valr (rt_symbol rq) < no_of_symbols rq" using cmds room by auto
  obtain r rq1 where s: "subscribed rq c (cstr (cmd_symb cmd)) (cmd_mask cmd) ?zero r rq1"
    "valr (rt_symbol rq1) \<le> Suc (valr (rt_symbol rq))"
    "\<And>t. mask_of (rooms rq1) (?zero[r := ?zero ! r OR cmd_mask cmd]) t =
       mask_of (rooms rq) ?zero t OR (if t = cstr (cmd_symb cmd) then cmd_mask cmd else 0)"
    using insert_exact [OF b cmd(2,1) disjI2 [OF refl] v] by metis
  note b1 = subscribed_batch(1) [OF b s(1) cmd(1) disjI2 [OF refl]]
  have step: "run_cmd c cmd (?mb, rq) = Some (?zero[r := ?zero ! r OR cmd_mask cmd], rq1)"
    using first cmd s(1) by (simp add: run_cmd_def RT_defs subscribed_def)
  have n1: "valr (rt_symbol rq1) + length cmds \<le> no_of_symbols rq1"
    using room s(1,2) by (simp add: subscribed_def)
  obtain mb' rq2 where r: "run_cmds c (cmd # cmds) (?mb, rq) = Some (mb', rq2)"
    "\<And>t. mask_of (rooms rq2) mb' t = mask_of (rooms rq) ?zero t OR wanted (cmd # cmds) t"
    using run_inserts [OF b1 _ n1] rest cmds step s(3) by (auto simp: or_swap)
  have "mask_of (rooms rq) ?zero t = 0" for t
    using rooms_bound [OF ok(1), of t] b by (auto simp: mask_of_def batch_ok_def split: option.split)
  moreover have "\<forall>x\<in>set (cmd # cmds). cmd_ok x" using first rest cmds by (auto simp: cmd_ok_def RT_defs)
  then obtain rq' where c': "check_command_for_client c (cmd # cmds) rq = Some rq'" "only_client c rq rq'"
    and "rooms rq' = rooms rq2" "cl_mask (rq_client rq' ! c) = mb'"
    using check_command_ok [OF ok, of "cmd # cmds"] r(1) by (metis option.inject prod.inject)
  ultimately have "subscription rq' c t = wanted (cmd # cmds) t" for t
    using r(2) unfolding subscription_def by simp
  then have "subscription rq' c = wanted (cmd # cmds)" by (rule ext)
  with c' show ?thesis by blast
qed

text \<open>
  C14. A batch sets the subscriptions. A client library sends its symbols as one batch: a reset with
  the first symbol, then insertions. When the table has room for them, the batch runs, and afterwards
  the client listens to exactly the symbols it named, each with the union of the masks given for it,
  and to nothing it listened to before; the other clients keep their masks.
\<close>

theorem batch_sets_subscriptions:
  assumes ok: "board_ok rq" "counts_ok rq" "linked_to rq c"
    and first: "cmd_func cmd = RT_RST_SYMB"
    and rest: "\<forall>x\<in>set cmds. cmd_func x = RT_INS_SYMB"
    and cmds: "\<forall>x\<in>set (cmd # cmds). cmd_mask x \<noteq> 0 \<and> length (cstr (cmd_symb x)) < L_SYMB"
    and room: "valr (rt_symbol rq) + length (cmd # cmds) \<le> no_of_symbols rq"
  shows "\<exists>rq'. check_command_for_client c (cmd # cmds) rq = Some rq' \<and>
    subscription rq' c = wanted (cmd # cmds) \<and> only_client c rq rq'"
  using assms by (rule batch_subscribed)

lemma broker1_ok: "board_ok broker1" "counts_ok broker1" "linked_to broker1 3"
proof -
  have "board_ok (init_shm 10 4 8 True (\<lambda>ii. replicate 4 5))" "counts_ok (init_shm 10 4 8 True (\<lambda>ii. replicate 4 5))"
    by (rule init_shm_ok; simp)+
  moreover have "nat 3 \<notin> listeners (init_shm 10 4 8 True (\<lambda>ii. replicate 4 5)) r" for r
    by (simp add: listeners_def linked_to_def init_shm_def)
  ultimately show "board_ok broker1" "counts_ok broker1" unfolding broker1_def by (rule accept_client_ok)+
  show "linked_to broker1 3" by (simp add: linked_to_def broker1_def accept_client_def init_shm_def Let_def upd_client_def)
qed

theorem batch_sets_subscriptions_witness:
  "\<exists>rq'. check_command_for_client 3 [cmd_of RT_RST_SYMB ''F@A@H'' 1, cmd_of RT_INS_SYMB ''F@B@H'' 3] broker1 = Some rq' \<and>
     subscription rq' 3 ''F@A@H'' = 1 \<and> subscription rq' 3 ''F@B@H'' = 3 \<and> subscription rq' 3 ''F@C@H'' = 0"
proof -
  have v: "valr (rt_symbol broker1) + 2 \<le> no_of_symbols broker1"
    by (simp add: broker1_def accept_client_def init_shm_def Let_def upd_client_def)
  have "\<exists>rq'. check_command_for_client 3 [cmd_of RT_RST_SYMB ''F@A@H'' 1, cmd_of RT_INS_SYMB ''F@B@H'' 3] broker1 = Some rq' \<and>
     subscription rq' 3 = wanted [cmd_of RT_RST_SYMB ''F@A@H'' 1, cmd_of RT_INS_SYMB ''F@B@H'' 3] \<and> only_client 3 broker1 rq'"
    by (rule batch_sets_subscriptions [OF broker1_ok]) (use v in \<open>simp_all add: cmd_of_def L_SYMB_def\<close>)
  then show ?thesis by (auto simp: cmd_of_def)
qed

text \<open>
  A symbol that is deleted and entered again loses its listeners. In the static mode a pusher may
  delete a symbol and enter it again while clients listen to it. The second entry clears the count of
  the hook and leaves the masks of the clients: they still listen, but the count that pushers look
  at before they send is 0.
\<close>

theorem reinserted_symbol_deaf:
  assumes ok: "board_ok rq" and s: "length s < L_SYMB" and known: "rooms rq s = Some r"
    and live: "\<forall>y\<in>set (live_symbs rq). y_mark y \<noteq> 0"
  shows "\<exists>rq1 chck rq2. delete_symbol_from_board s rq = Some rq1 \<and>
    insert_symbol_to_board s None 0 chck rq1 = Some (int r, chck, rq2) \<and>
    h_many (hooks rq2 ! r) = 0 \<and> listeners rq2 r = listeners rq r"
proof -
  obtain i where i: "find_symb rq s = Some i"
    using find_symb_rooms(1) [OF ok, of s] known by (cases "find_symb rq s") auto
  define y where "y = symb (rt_symbol rq) ! i"
  have y: "y \<in> set (live_symbs rq)" "nat (y_seqn y) = r"
    using find_symb_rooms(2) [OF ok i] known by (auto simp: y_def)
  note bs = board_seqn [OF ok y(1)]
  have iv: "i < valr (rt_symbol rq)" "y_symb y = s" using i find_symb_Some_iff [OF ok] by (auto simp: y_def)
  have il: "i < length (symb (rt_symbol rq))" using iv(1) board_okD(2,4) [OF ok] by simp
  define rq1 where "rq1 = upd_hook r (\<lambda>h. h\<lparr>h_mark := 0\<rparr>)
    ((upd_symb i (\<lambda>y. y\<lparr>y_mark := 0\<rparr>) rq)\<lparr>modified := modified rq + 1\<rparr>)"
  have del: "delete_symbol_from_board s rq = Some rq1"
  proof -
    have "y_seqn y < int (no_of_symbols rq)" using bs by linarith
    then show ?thesis using i s live y bs
      by (simp add: delete_symbol_from_board_def Let_def y_def rq1_def)
  qed
  have "same_table rq ((upd_symb i (\<lambda>y. y\<lparr>y_mark := 0\<rparr>) rq)\<lparr>modified := modified rq + 1\<rparr>)"
    using upd_symb_same [of "\<lambda>y. y\<lparr>y_mark := 0\<rparr>" rq i] by (simp add: same_table_def)
  then have same: "same_table rq rq1" unfolding rq1_def
    by (rule same_table_trans) simp
  have "symb (rt_symbol rq1) ! i = y\<lparr>y_mark := 0\<rparr>"
    using il by (simp add: rq1_def upd_symb_def y_def)
  moreover have "find_symb rq1 s = Some i"
    using find_symb_Some_iff [OF same_table_ok [OF same ok]] iv calculation by (simp add: rq1_def)
  moreover have "r < length (hooks rq1)" using bs(4) y(2) same_table_lengths(2) [OF same] by simp
  ultimately have "insert_symbol_to_board s None 0 [] rq1 = Some (int r, [],
      (upd_symb i (\<lambda>y. y\<lparr>y_mark := 1\<rparr>) (upd_hook r (\<lambda>h. h\<lparr>h_many := 0, h_mark := 1\<rparr>) rq1))
        \<lparr>modified := modified rq1 + 1\<rparr>)"
    using s bs y(2) by (auto simp: insert_symbol_to_board_def subscribe_def)
  moreover have "listeners ((upd_symb i (\<lambda>y. y\<lparr>y_mark := 1\<rparr>) (upd_hook r (\<lambda>h. h\<lparr>h_many := 0, h_mark := 1\<rparr>) rq1))
        \<lparr>modified := modified rq1 + 1\<rparr>) r = listeners rq r"
    by (rule listeners_cong) (simp add: rq1_def)
  ultimately show ?thesis using del \<open>r < length (hooks rq1)\<close> by (force simp: hooks_upd_hook)
qed

definition broker2 :: RQ where
  "broker2 = \<lparr>
     rt_board = \<lparr> b_mqid = [0, 0, 0], b_alive = 1, b_no_of_symbols = 2,
                  b_hook = [\<lparr> h_symb = ''F@A@H'', h_many = 1, h_mark = 1 \<rparr>, hook0] \<rparr>,
     rt_symbol = \<lparr> maxr = 2, valr = 1, symb = [\<lparr> y_symb = ''F@A@H'', y_seqn = 0, y_mark = 1 \<rparr>, symb0] \<rparr>,
     rt_fifo = \<lparr> widx = 0, push = [msg0] \<rparr>,
     rq_client = [\<lparr> cl_sock = 0, cl_flag = RQ_LOCAL, cl_mask = [1, 0], cl_pid = 0, cl_addr = 0 \<rparr>],
     no_of_linked = 1, no_of_symbols = 2, dynamic_mode = False, modified = 0, pushseqn = 0,
     no_of_buffers = 0 \<rparr>"

theorem reinserted_symbol_deaf_witness:
  "\<exists>rq1 chck rq2. delete_symbol_from_board ''F@A@H'' broker2 = Some rq1 \<and>
    insert_symbol_to_board ''F@A@H'' None 0 chck rq1 = Some (0, chck, rq2) \<and>
    h_many (hooks rq2 ! 0) = 0 \<and> listeners rq2 0 = {0}"
proof -
  have "board_ok broker2" by (simp add: board_ok_def broker2_def live_symbs_def)
  moreover have "rooms broker2 ''F@A@H'' = Some 0" by (simp add: rooms_def broker2_def live_symbs_def)
  moreover have "\<forall>y\<in>set (live_symbs broker2). y_mark y \<noteq> 0" by (simp add: broker2_def live_symbs_def)
  ultimately have "\<exists>rq1 chck rq2. delete_symbol_from_board ''F@A@H'' broker2 = Some rq1 \<and>
    insert_symbol_to_board ''F@A@H'' None 0 chck rq1 = Some (int 0, chck, rq2) \<and>
    h_many (hooks rq2 ! 0) = 0 \<and> listeners rq2 0 = listeners broker2 0"
    by (intro reinserted_symbol_deaf) (simp_all add: L_SYMB_def)
  moreover have "listeners broker2 0 = {0}" by (auto simp: listeners_def linked_to_def broker2_def)
  ultimately show ?thesis by simp
qed

end
