(* ===== verification/PacketQueue.thy ===== *)
theory PacketQueue
  imports PushData "HOL-Library.Sublist"
begin

text \<open>
  The packet queue of a client, \<^verbatim>\<open>src/lib/main/rtp.c\<close>: a pool of 200 packet buffers that are linked
  through their \<^verbatim>\<open>next\<close> pointers into a free list and a queue of received messages. The receiver
  thread puts messages in, the application takes them out.

  A pointer to a buffer is its index in the pool, the null pointer is \<open>None\<close>. Each operation runs
  under the mutexes of the header; a condition variable's wait releases them, so a wait ends in the
  state other threads have left, and the operations here start from the state at the end of the wait.
  \<open>Blocks\<close> is a wait without a time limit whose condition does not hold.
\<close>

definition MAX_PKTN :: nat where "MAX_PKTN = 200"

record rt_pktb =
  k_pushmsg :: pushmsg
  k_next    :: "nat option"

record rt_pkth =
  pktn_alloc :: int \<comment> \<open>\<^verbatim>\<open>pktn[0]\<close>\<close>
  pktn_free  :: int \<comment> \<open>\<^verbatim>\<open>pktn[1]\<close>\<close>
  chck       :: int
  pool       :: "rt_pktb list" \<comment> \<open>\<^verbatim>\<open>pktb\<close>, the allocated buffers\<close>
  alloc_pktb :: "nat option"
  alloc_wait :: int
  queue_pktb :: "nat option"

datatype 'a wait = Returns 'a | Blocks

subsection \<open>Operations\<close>

definition pktbuff :: "rt_pktb list" where
  "pktbuff = map (\<lambda>ii. \<lparr> k_pushmsg = msg0, k_next = (if ii < MAX_PKTN - 1 then Some (ii + 1) else None) \<rparr>)
     [0..<MAX_PKTN]"

text \<open>\<^verbatim>\<open>malloc\<close> is the argument: \<open>False\<close> when there is no memory.\<close>

definition rt_packet_init :: "bool \<Rightarrow> rt_pkth \<Rightarrow> int \<times> rt_pkth" where
  "rt_packet_init memory pkth =
     (if \<not> memory then (-1, pkth)
      else (0, \<lparr> pktn_alloc = int MAX_PKTN, pktn_free = int MAX_PKTN, chck = 0, pool = pktbuff,
                 alloc_pktb = Some 0, alloc_wait = 0, queue_pktb = None \<rparr>))"

abbreviation set_next :: "nat \<Rightarrow> nat option \<Rightarrow> rt_pktb list \<Rightarrow> rt_pktb list" where
  "set_next i q p \<equiv> p[i := (p ! i)\<lparr>k_next := q\<rparr>]"

definition rt_packet_get :: "rt_pkth \<Rightarrow> int \<Rightarrow> (nat option \<times> rt_pkth) wait" where
  "rt_packet_get pkth timeout =
     (case alloc_pktb pkth of
        None \<Rightarrow> if timeout > 0 then Returns (None, pkth\<lparr>alloc_wait := 1\<rparr>) else Blocks
      | Some pktb \<Rightarrow>
          Returns (Some pktb, pkth\<lparr>
            alloc_wait := 0, alloc_pktb := k_next (pool pkth ! pktb),
            pktn_free := pktn_free pkth - 1, pool := set_next pktb None (pool pkth)\<rparr>))"

definition rt_packet_free :: "rt_pkth \<Rightarrow> nat \<Rightarrow> rt_pkth" where
  "rt_packet_free pkth pktb = pkth\<lparr>
     pool := set_next pktb (alloc_pktb pkth) (pool pkth), alloc_pktb := Some pktb,
     pktn_free := pktn_free pkth + 1\<rparr>"

text \<open>The walk to the last buffer of the queue; it would not end on a cycle.\<close>

partial_function (option) last_of :: "rt_pktb list \<Rightarrow> nat \<Rightarrow> nat option" where
  "last_of p b = (case k_next (p ! b) of None \<Rightarrow> Some b | Some b' \<Rightarrow> last_of p b')"

declare last_of.simps [code]

text \<open>
  The part of \<^verbatim>\<open>rt_packet_push\<close> for one message. \<open>None\<close> when the walk does not end; the
  Boolean says whether a buffer was got.
\<close>

definition push_one :: "rt_pkth \<Rightarrow> pushmsg \<Rightarrow> (bool \<times> rt_pkth) option" where
  "push_one pkth m =
     (case rt_packet_get pkth 2 of
        Blocks \<Rightarrow> None
      | Returns (None, pkth1) \<Rightarrow> Some (False, pkth1)
      | Returns (Some pktb, pkth1) \<Rightarrow>
          let p = (pool pkth1)[pktb := (pool pkth1 ! pktb)\<lparr>k_pushmsg := m\<rparr>] in
          (case queue_pktb pkth1 of
             None \<Rightarrow> Some (True, pkth1\<lparr>pool := p, queue_pktb := Some pktb\<rparr>)
           | Some b_pktb \<Rightarrow>
               (case last_of p b_pktb of
                  None \<Rightarrow> None
                | Some l \<Rightarrow> Some (True, pkth1\<lparr>pool := set_next l (Some pktb) p\<rparr>))))"

fun rt_packet_push :: "rt_pkth \<Rightarrow> pushmsg list \<Rightarrow> rt_pkth option" where
  "rt_packet_push pkth [] = Some pkth"
| "rt_packet_push pkth (m # ms) =
     (case push_one pkth m of
        None \<Rightarrow> None
      | Some (got, pkth1) \<Rightarrow> if got then rt_packet_push pkth1 ms else Some pkth1)"

text \<open>The messages taken off the queue, at most \<open>howmany\<close>, and their buffers given back.\<close>

fun take_off :: "rt_pkth \<Rightarrow> nat \<Rightarrow> pushmsg list \<times> rt_pkth" where
  "take_off pkth 0 = ([], pkth)"
| "take_off pkth (Suc n) =
     (case queue_pktb pkth of
        None \<Rightarrow> ([], pkth)
      | Some b \<Rightarrow>
          let m = k_pushmsg (pool pkth ! b);
              pkth1 = pkth\<lparr>queue_pktb := k_next (pool pkth ! b), pool := set_next b None (pool pkth)\<rparr>;
              (ms, pkth2) = take_off (rt_packet_free pkth1 b) n
          in (m # ms, pkth2))"

definition rt_packet_full :: "rt_pkth \<Rightarrow> nat \<Rightarrow> int \<Rightarrow> (pushmsg list \<times> rt_pkth) wait" where
  "rt_packet_full pkth howmany timeout =
     (if queue_pktb pkth = None \<and> chck pkth = 0 \<and> timeout \<le> 0 then Blocks
      else Returns (take_off pkth howmany))"

text \<open>The header as \<^verbatim>\<open>rtd_open\<close> clears it.\<close>

definition pkth0 :: rt_pkth where
  "pkth0 = \<lparr> pktn_alloc = 0, pktn_free = 0, chck = 0, pool = [], alloc_pktb = None, alloc_wait = 0,
     queue_pktb = None \<rparr>"

definition rt_packet_sig :: "rt_pkth \<Rightarrow> rt_pkth" where
  "rt_packet_sig pkth = pkth\<lparr>chck := 1\<rparr>"

definition rt_packet_reset :: "rt_pkth \<Rightarrow> rt_pkth" where
  "rt_packet_reset pkth = pkth\<lparr>alloc_pktb := None, pool := []\<rparr>"

subsection \<open>Chains of buffers\<close>

text \<open>The buffers reached from a pointer, in order.\<close>

fun chain :: "rt_pktb list \<Rightarrow> nat option \<Rightarrow> nat list \<Rightarrow> bool" where
  "chain p h [] \<longleftrightarrow> h = None"
| "chain p h (b # bs) \<longleftrightarrow> h = Some b \<and> b < length p \<and> chain p (k_next (p ! b)) bs"

lemma chain_None [simp]: "chain p None bs \<longleftrightarrow> bs = []"
  by (cases bs) auto

lemma chain_Some: "chain p (Some b) bs \<longleftrightarrow>
    (\<exists>bs'. bs = b # bs' \<and> b < length p \<and> chain p (k_next (p ! b)) bs')"
  by (cases bs) auto

lemma chain_frame [simp]: "b \<notin> set bs \<Longrightarrow> chain (p[b := x]) h bs = chain p h bs"
  by (induction bs arbitrary: h) auto

lemma chain_bound: "chain p h bs \<Longrightarrow> b \<in> set bs \<Longrightarrow> b < length p"
  by (induction bs arbitrary: h) auto

lemma chain_last_of: "chain p (Some b) bs \<Longrightarrow> last_of p b = Some (last bs)"
proof (induction bs arbitrary: b)
  case (Cons a bs)
  then show ?case
    by (subst last_of.simps) (cases "k_next (p ! b)"; auto)
qed simp

lemma chain_append_last:
  "chain p h (bs @ [l]) \<Longrightarrow> distinct (bs @ [l]) \<Longrightarrow> b \<notin> set (bs @ [l]) \<Longrightarrow> b < length p \<Longrightarrow>
   k_next (p ! b) = None \<Longrightarrow> chain (set_next l (Some b) p) h (bs @ [l, b])"
proof (induction bs arbitrary: h)
  case Nil
  then show ?case by auto
next
  case (Cons a bs)
  then show ?case by auto
qed

subsection \<open>The invariant\<close>

text \<open>
  Free list and queue are disjoint chains that together hold every buffer of the pool, and the count
  of free buffers is right.
\<close>

definition linked :: "rt_pkth \<Rightarrow> nat list \<Rightarrow> nat list \<Rightarrow> bool" where
  "linked pkth fs qs \<longleftrightarrow>
     length (pool pkth) = MAX_PKTN \<and> chain (pool pkth) (alloc_pktb pkth) fs \<and>
     chain (pool pkth) (queue_pktb pkth) qs \<and> distinct (fs @ qs) \<and>
     set (fs @ qs) = {0..<MAX_PKTN} \<and> pktn_free pkth = int (length fs)"

definition packets_ok :: "rt_pkth \<Rightarrow> bool" where
  "packets_ok pkth \<longleftrightarrow> (\<exists>fs qs. linked pkth fs qs)"

text \<open>What the queue holds: its buffers, walked with the size of the pool as fuel, and their messages.\<close>

fun walk :: "rt_pktb list \<Rightarrow> nat \<Rightarrow> nat option \<Rightarrow> nat list" where
  "walk p (Suc n) (Some b) = b # walk p n (k_next (p ! b))"
| "walk p n h = []"

definition messages :: "rt_pkth \<Rightarrow> nat list \<Rightarrow> pushmsg list" where
  "messages pkth bs = map (\<lambda>b. k_pushmsg (pool pkth ! b)) bs"

definition queued :: "rt_pkth \<Rightarrow> pushmsg list" where
  "queued pkth = messages pkth (walk (pool pkth) MAX_PKTN (queue_pktb pkth))"

lemma walk_chain: "chain p h bs \<Longrightarrow> length bs \<le> n \<Longrightarrow> walk p n h = bs"
proof (induction bs arbitrary: h n)
  case (Cons b bs)
  then show ?case by (cases n) auto
qed (cases n, auto)

lemma linked_count: "linked pkth fs qs \<Longrightarrow> length fs + length qs = MAX_PKTN"
  by (metis card_atLeastLessThan diff_zero distinct_card length_append linked_def)

lemma queued_linked: "linked pkth fs qs \<Longrightarrow> queued pkth = messages pkth qs"
  using linked_count [of pkth fs qs] walk_chain [of "pool pkth" "queue_pktb pkth" qs MAX_PKTN]
  by (simp add: queued_def linked_def)

lemma linked_frame [simp]:
  "linked (pkth\<lparr>alloc_wait := w\<rparr>) fs qs = linked pkth fs qs"
  "linked (pkth\<lparr>chck := c\<rparr>) fs qs = linked pkth fs qs"
  by (simp_all add: linked_def)

subsection \<open>Each operation on the chains\<close>

lemma chain_pktbuff: "n \<le> MAX_PKTN \<Longrightarrow> chain pktbuff (if n < MAX_PKTN then Some n else None) [n..<MAX_PKTN]"
proof (induction "MAX_PKTN - n" arbitrary: n)
  case (Suc k)
  then have n: "n < MAX_PKTN" by simp
  with Suc have "chain pktbuff (if Suc n < MAX_PKTN then Some (Suc n) else None) [Suc n..<MAX_PKTN]"
    by simp
  moreover have "k_next (pktbuff ! n) = (if Suc n < MAX_PKTN then Some (Suc n) else None)"
    using n by (auto simp: pktbuff_def)
  ultimately show ?case using n by (simp add: upt_conv_Cons pktbuff_def)
qed simp

lemma init_linked: "linked (snd (rt_packet_init True pkth)) [0..<MAX_PKTN] []"
  using chain_pktbuff [of 0] by (simp add: linked_def rt_packet_init_def MAX_PKTN_def pktbuff_def)

lemma push_one_full:
  "linked pkth [] qs \<Longrightarrow> push_one pkth m = Some (False, pkth\<lparr>alloc_wait := 1\<rparr>)"
  by (simp add: push_one_def rt_packet_get_def linked_def)

lemma push_one_linked:
  assumes "linked pkth (a # fs) qs"
  shows "\<exists>pkth'. push_one pkth m = Some (True, pkth') \<and> linked pkth' fs (qs @ [a]) \<and>
    messages pkth' (qs @ [a]) = messages pkth qs @ [m]"
proof -
  let ?p = "(set_next a None (pool pkth))[a := ((set_next a None (pool pkth)) ! a)\<lparr>k_pushmsg := m\<rparr>]"
  have a: "a < length (pool pkth)" "a \<notin> set fs" "a \<notin> set qs" "alloc_pktb pkth = Some a"
    and fs: "chain (pool pkth) (k_next (pool pkth ! a)) fs"
    and qs: "chain (pool pkth) (queue_pktb pkth) qs" "distinct qs" "set fs \<inter> set qs = {}"
    and len: "length (pool pkth) = MAX_PKTN" and rest: "distinct fs" "pktn_free pkth = 1 + int (length fs)"
      "insert a (set fs \<union> set qs) = {0..<MAX_PKTN}"
    using assms by (auto simp: linked_def)
  have p: "chain ?p h bs = chain (pool pkth) h bs" if "a \<notin> set bs" for h bs using that by simp
  have pa: "k_next (?p ! a) = None" "k_pushmsg (?p ! a) = m" "length ?p = MAX_PKTN" using a len by simp_all
  show ?thesis
  proof (cases qs rule: rev_cases)
    case Nil
    with assms a pa p fs rest len show ?thesis
      by (auto simp: push_one_def rt_packet_get_def linked_def messages_def Let_def)
  next
    case (snoc bs l)
    obtain q where q: "queue_pktb pkth = Some q" using qs snoc by (cases "queue_pktb pkth") auto
    have "chain ?p (Some q) qs" using p qs q a by simp
    then have last: "last_of ?p q = Some l" using chain_last_of snoc by fastforce
    have "chain (set_next l (Some a) ?p) (Some q) (bs @ [l, a])"
      using \<open>chain ?p (Some q) qs\<close> snoc qs a pa len by (intro chain_append_last) auto
    moreover have "chain (set_next l (Some a) ?p) h fs = chain (pool pkth) h fs" for h
      using a qs snoc by (subst chain_frame) auto
    moreover have "messages (pkth\<lparr>pool := set_next l (Some a) ?p\<rparr>) (qs @ [a]) = messages pkth qs @ [m]"
      using a pa snoc chain_bound [OF qs(1)] by (auto simp: messages_def nth_list_update)
    ultimately show ?thesis using last q a fs rest qs snoc len
      by (auto simp: push_one_def rt_packet_get_def linked_def messages_def Let_def)
  qed
qed

lemma push_linked:
  "linked pkth fs qs \<Longrightarrow>
   \<exists>pkth'. rt_packet_push pkth ms = Some pkth' \<and>
     linked pkth' (drop (length ms) fs) (qs @ take (length ms) fs) \<and>
     messages pkth' (qs @ take (length ms) fs) = messages pkth qs @ take (length fs) ms"
proof (induction ms arbitrary: pkth fs qs)
  case (Cons m ms)
  show ?case
  proof (cases fs)
    case Nil
    with Cons.prems show ?thesis by (simp add: push_one_full messages_def)
  next
    case (Cons a fs')
    with Cons.prems push_one_linked [of pkth a fs' qs m] obtain pkth1 where
      1: "push_one pkth m = Some (True, pkth1)" "linked pkth1 fs' (qs @ [a])"
        "messages pkth1 (qs @ [a]) = messages pkth qs @ [m]" by blast
    from Cons.IH [OF 1(2)] 1 Cons show ?thesis by auto
  qed
qed simp

lemma take_off_linked:
  "linked pkth fs qs \<Longrightarrow>
   fst (take_off pkth n) = take n (messages pkth qs) \<and>
   linked (snd (take_off pkth n)) (rev (take n qs) @ fs) (drop n qs) \<and>
   messages (snd (take_off pkth n)) (drop n qs) = drop n (messages pkth qs)"
proof (induction n arbitrary: pkth fs qs)
  case (Suc n)
  show ?case
  proof (cases qs)
    case Nil
    with Suc.prems show ?thesis by (simp add: linked_def messages_def)
  next
    case (Cons b qs')
    let ?pkth = "rt_packet_free (pkth\<lparr>queue_pktb := k_next (pool pkth ! b),
      pool := set_next b None (pool pkth)\<rparr>) b"
    have b: "queue_pktb pkth = Some b" "b < length (pool pkth)" "b \<notin> set fs" "b \<notin> set qs'"
      using Suc.prems Cons by (auto simp: linked_def)
    then have l: "linked ?pkth (b # fs) qs'"
      using Suc.prems Cons by (auto simp: linked_def rt_packet_free_def)
    have m: "messages ?pkth qs' = messages pkth qs'"
      using b by (auto simp: messages_def rt_packet_free_def nth_list_update)
    have "take_off pkth (Suc n) =
        (k_pushmsg (pool pkth ! b) # fst (take_off ?pkth n), snd (take_off ?pkth n))"
      using b by (simp add: Let_def split: prod.split)
    moreover have "messages pkth qs = k_pushmsg (pool pkth ! b) # messages ?pkth qs'"
      using m Cons by (simp add: messages_def)
    ultimately show ?thesis using Suc.IH [OF l] Cons by simp
  qed
qed (simp add: linked_def messages_def)

subsection \<open>The interface: a bounded first-in first-out queue\<close>

datatype 'm queue_op = Put "'m list" | Get nat

text \<open>The messages that come out of a series of operations.\<close>

fun queue_run ::
  "('s \<Rightarrow> 'm list \<Rightarrow> 's option) \<Rightarrow> ('s \<Rightarrow> nat \<Rightarrow> 'm list \<times> 's) \<Rightarrow> 'm queue_op list \<Rightarrow> 's \<Rightarrow>
   ('m list \<times> 's) option" where
  "queue_run put get [] s = Some ([], s)"
| "queue_run put get (Put ms # ops) s =
     (case put s ms of None \<Rightarrow> None | Some s1 \<Rightarrow> queue_run put get ops s1)"
| "queue_run put get (Get n # ops) s =
     (case queue_run put get ops (snd (get s n)) of
        None \<Rightarrow> None
      | Some (out, s2) \<Rightarrow> Some (fst (get s n) @ out, s2))"

fun all_put :: "'m queue_op list \<Rightarrow> 'm list" where
  "all_put [] = []"
| "all_put (Put ms # ops) = ms @ all_put ops"
| "all_put (Get n # ops) = all_put ops"

locale bounded_fifo =
  fixes inv :: "'s \<Rightarrow> bool" and content :: "'s \<Rightarrow> 'm list" and cap :: nat
    and put :: "'s \<Rightarrow> 'm list \<Rightarrow> 's option" and get :: "'s \<Rightarrow> nat \<Rightarrow> 'm list \<times> 's"
  assumes put_law: "inv s \<Longrightarrow> \<exists>s'. put s ms = Some s' \<and> inv s' \<and>
      content s' = content s @ take (cap - length (content s)) ms"
    and get_law: "inv s \<Longrightarrow> fst (get s n) = take n (content s) \<and> inv (snd (get s n)) \<and>
      content (snd (get s n)) = drop n (content s)"
begin

text \<open>
  What has come out and what is still inside is, in order, what was inside and the accepted part of
  what was put in; everything is accepted as long as the capacity is not reached.
\<close>

lemma run_fifo:
  "inv s \<Longrightarrow> \<exists>out s' acc. queue_run put get ops s = Some (out, s') \<and> inv s' \<and>
     out @ content s' = content s @ acc \<and> subseq acc (all_put ops) \<and>
     (length (content s) + length (all_put ops) \<le> cap \<longrightarrow> acc = all_put ops)"
proof (induction ops arbitrary: s)
  case (Cons op ops)
  show ?case
  proof (cases op)
    case (Put ms)
    from put_law [OF Cons.prems, of ms] obtain s1 where
      s1: "put s ms = Some s1" "inv s1" "content s1 = content s @ take (cap - length (content s)) ms"
      by blast
    from Cons.IH [OF s1(2)] obtain out s' acc where
      r: "queue_run put get ops s1 = Some (out, s')" "inv s'" "out @ content s' = content s1 @ acc"
        "subseq acc (all_put ops)"
        "length (content s1) + length (all_put ops) \<le> cap \<longrightarrow> acc = all_put ops" by blast
    let ?acc = "take (cap - length (content s)) ms @ acc"
    have "subseq ?acc (all_put (op # ops))"
      using r(4) Put by (simp add: list_emb_append_mono prefix_imp_subseq take_is_prefix)
    then show ?thesis using s1 r Put by (intro exI [of _ out] exI [of _ s'] exI [of _ ?acc]) auto
  next
    case (Get n)
    from get_law [OF Cons.prems, of n] have
      g: "fst (get s n) = take n (content s)" "inv (snd (get s n))"
        "content (snd (get s n)) = drop n (content s)" by auto
    from Cons.IH [OF g(2)] obtain out s' acc where
      r: "queue_run put get ops (snd (get s n)) = Some (out, s')" "inv s'"
        "out @ content s' = drop n (content s) @ acc" "subseq acc (all_put ops)"
        "length (drop n (content s)) + length (all_put ops) \<le> cap \<longrightarrow> acc = all_put ops"
      unfolding g(3) by blast
    have "(take n (content s) @ out) @ content s' = content s @ acc"
      using r(3) by (metis append_assoc append_take_drop_id)
    then show ?thesis using g r Get
      by (intro exI [of _ "take n (content s) @ out"] exI [of _ s'] exI [of _ acc]) auto
  qed
qed simp

end

interpretation packets: bounded_fifo packets_ok queued MAX_PKTN rt_packet_push take_off
proof unfold_locales
  fix pkth ms
  assume "packets_ok pkth"
  then obtain fs qs where l: "linked pkth fs qs" by (auto simp: packets_ok_def)
  have n: "MAX_PKTN - length (queued pkth) = length fs"
    using queued_linked [OF l] linked_count [OF l] by (simp add: messages_def)
  from push_linked [OF l, of ms] n queued_linked [OF l] show
    "\<exists>pkth'. rt_packet_push pkth ms = Some pkth' \<and> packets_ok pkth' \<and>
      queued pkth' = queued pkth @ take (MAX_PKTN - length (queued pkth)) ms"
    by (metis packets_ok_def queued_linked)
next
  fix pkth n
  assume "packets_ok pkth"
  then obtain fs qs where l: "linked pkth fs qs" by (auto simp: packets_ok_def)
  from take_off_linked [OF l, of n] show "fst (take_off pkth n) = take n (queued pkth) \<and>
      packets_ok (snd (take_off pkth n)) \<and> queued (snd (take_off pkth n)) = drop n (queued pkth)"
    by (metis l packets_ok_def queued_linked)
qed

lemma packets_init:
  "packets_ok (snd (rt_packet_init True pkth))" "queued (snd (rt_packet_init True pkth)) = []"
  using init_linked [of pkth] queued_linked [OF init_linked [of pkth]]
  by (auto simp: packets_ok_def messages_def)

subsection \<open>Properties\<close>

text \<open>
  C13. Refinement of a bounded queue. On a well-formed header every push ends, keeps it well-formed
  and appends the messages to the queue as far as buffers are free; the rest are dropped. Taking
  blocks only when the queue is empty, the session is up and no time limit is set; otherwise it
  hands over the oldest messages, at most as many as asked for, and leaves the others in order.
\<close>

theorem packet_queue_refines:
  assumes "packets_ok pkth"
  shows "(\<exists>pkth'. rt_packet_push pkth ms = Some pkth' \<and> packets_ok pkth' \<and>
      queued pkth' = queued pkth @ take (MAX_PKTN - length (queued pkth)) ms) \<and>
    (if queued pkth = [] \<and> chck pkth = 0 \<and> timeout \<le> 0 then rt_packet_full pkth howmany timeout = Blocks
      else \<exists>pkth'. rt_packet_full pkth howmany timeout = Returns (take howmany (queued pkth), pkth') \<and>
        packets_ok pkth' \<and> queued pkth' = drop howmany (queued pkth))"
proof (rule conjI)
  show "\<exists>pkth'. rt_packet_push pkth ms = Some pkth' \<and> packets_ok pkth' \<and>
      queued pkth' = queued pkth @ take (MAX_PKTN - length (queued pkth)) ms"
    by (rule packets.put_law [OF assms])
next
  obtain fs qs where l: "linked pkth fs qs" using assms by (auto simp: packets_ok_def)
  then have "queued pkth = [] \<longleftrightarrow> queue_pktb pkth = None"
    using queued_linked [OF l] by (cases qs) (auto simp: linked_def messages_def)
  with packets.get_law [OF assms, of howmany]
  show "if queued pkth = [] \<and> chck pkth = 0 \<and> timeout \<le> 0 then rt_packet_full pkth howmany timeout = Blocks
      else \<exists>pkth'. rt_packet_full pkth howmany timeout = Returns (take howmany (queued pkth), pkth') \<and>
        packets_ok pkth' \<and> queued pkth' = drop howmany (queued pkth)"
    by (auto simp: rt_packet_full_def prod_eq_iff)
qed

theorem packet_queue_refines_witness:
  "\<exists>pkth'. rt_packet_push (snd (rt_packet_init True pkth0)) [msg0, msg0\<lparr>g_seqn := 1\<rparr>] = Some pkth' \<and>
     packets_ok pkth' \<and> length (queued pkth') = 2"
  using packet_queue_refines [OF packets_init(1), of pkth0 "[msg0, msg0\<lparr>g_seqn := 1\<rparr>]" 0 0]
  by (auto simp: packets_init(2) MAX_PKTN_def)

text \<open>
  Nothing is reordered, duplicated or made up. Whatever series of pushes and takes follows the
  initialisation, every operation returns, and the messages taken, followed by those still queued,
  are a subsequence of the messages pushed; they are all of them as long as no more than 200 were
  pushed altogether.
\<close>

theorem packet_queue_in_order:
  "\<exists>out pkth'. queue_run rt_packet_push take_off ops (snd (rt_packet_init True pkth)) = Some (out, pkth') \<and>
     packets_ok pkth' \<and> subseq (out @ queued pkth') (all_put ops) \<and>
     (length (all_put ops) \<le> MAX_PKTN \<longrightarrow> out @ queued pkth' = all_put ops)"
  using packets.run_fifo [OF packets_init(1), of ops pkth] by (auto simp: packets_init(2))

theorem packet_queue_in_order_witness:
  "\<exists>out pkth'. queue_run rt_packet_push take_off [Put [msg0], Get 1, Put [msg0\<lparr>g_seqn := 1\<rparr>]]
       (snd (rt_packet_init True pkth0)) = Some (out, pkth') \<and>
     out @ queued pkth' = [msg0, msg0\<lparr>g_seqn := 1\<rparr>]"
proof -
  have "length (all_put [Put [msg0], Get 1, Put [msg0\<lparr>g_seqn := 1\<rparr>]]) \<le> MAX_PKTN"
    by (simp add: MAX_PKTN_def)
  with packet_queue_in_order [of "[Put [msg0], Get 1, Put [msg0\<lparr>g_seqn := 1\<rparr>]]" pkth0]
  show ?thesis by auto
qed

end
