(* ===== verification/RealTime.thy ===== *)
theory RealTime
  imports Broker PacketQueue
begin

text \<open>
  The way of a real-time message: \<^verbatim>\<open>fep_push\<close> of \<^verbatim>\<open>src/lib/main/push.c\<close> makes it,
  \<^verbatim>\<open>rtd_push\<close> of \<^verbatim>\<open>src/lib/main/rtd.c\<close> sends it when somebody listens, \<^verbatim>\<open>recv_from_pusher\<close> and
  \<^verbatim>\<open>push2sender\<close> of \<^verbatim>\<open>src/push/recv.c\<close> put it into the ring and raise an alarm,
  \<^verbatim>\<open>send_to_client\<close> of \<^verbatim>\<open>src/push/send.c\<close> writes the alarm to the clients that listen, and
  \<^verbatim>\<open>rt_recver\<close> of \<^verbatim>\<open>rtd.c\<close> reads the alarms from the socket, fetches the messages from the ring and
  puts them into the packet queue.

  Message queues and sockets are the environment: a function that sends returns what it sends, and the
  answer of \<^verbatim>\<open>write\<close> is an argument. Ring and board are in shared memory, so all of them see one \<open>RQ\<close>.
\<close>

subsection \<open>The pusher\<close>

definition PUSH_QUOT :: mask_t where "PUSH_QUOT = 1"
definition PUSH_DEPT :: mask_t where "PUSH_DEPT = 2"

definition push_symbol :: "string \<Rightarrow> string \<Rightarrow> string \<Rightarrow> string" where
  "push_symbol exnm symbol hostname = exnm @ ''@'' @ take 15 symbol @ ''@'' @ hostname"

text \<open>
  What the C string in \<^verbatim>\<open>symb\<close> is after \<^verbatim>\<open>sprintf\<close> and the assignment to \<^verbatim>\<open>mask\<close>, the member
  behind it: a text of 20 bytes or more runs over its end, and the mask then replaces what lies there.
\<close>

definition symb_member :: "string \<Rightarrow> mask_t \<Rightarrow> string" where
  "symb_member text mk =
     (if length text < L_SYMB then text else take L_SYMB text @ cstr (le_bytes 4 (unat mk)))"

text \<open>
  The message for a type, \<open>None\<close> for a type that pushes nothing. \<open>img\<close> is the record's memory, the
  members \<^verbatim>\<open>type\<close> and \<^verbatim>\<open>flag\<close>, which nothing reads, are 0.
\<close>

definition fep_pushdata :: "FEP \<Rightarrow> FOLDER \<Rightarrow> nat \<Rightarrow> bytes \<Rightarrow> pushmsg option" where
  "fep_pushdata fep folder ty img =
     (if ty > 2 \<or> img = [] then None
      else
        let mk = (if ty = 2 then PUSH_DEPT else PUSH_QUOT); msgb = take MAX_PUSH_LEN img
        in Some \<lparr> g_seqn = 0,
                  g_symb = symb_member (push_symbol (fep_exnm fep) (f_symb folder) (f_hostname folder)) mk,
                  g_mask = mk, g_type = 0, g_flag = 0, g_msgl = of_nat (length msgb), g_msgb = msgb \<rparr>)"

text \<open>\<^verbatim>\<open>rtd_push\<close> with the board attached: the return value and what goes to the broker's queue.\<close>

definition rtd_push :: "RQ \<Rightarrow> pushmsg \<Rightarrow> int \<times> pushdata option" where
  "rtd_push rq m =
     (if unat (g_msgl m) > MAX_PUSH_LEN then (-1, None)
      else case find_symb rq (g_symb m) of
        None \<Rightarrow> (0, None)
      | Some i \<Rightarrow>
          let y = symb (rt_symbol rq) ! i; seqn = y_seqn y
          in if seqn < 0 \<or> seqn \<ge> int (b_no_of_symbols (rt_board rq)) then (-1, None)
             else if y_mark y = 0 \<or> h_many (hooks rq ! nat seqn) = 0 then (0, None)
             else (0, Some \<lparr> mkid = seqn + 1, pushmsg = m\<lparr>g_seqn := of_int RT_PUSH_MSG\<rparr> \<rparr>))"

definition fep_push_rt :: "RQ \<Rightarrow> FEP \<Rightarrow> FOLDER \<Rightarrow> nat \<Rightarrow> bytes \<Rightarrow> pushdata option" where
  "fep_push_rt rq fep folder ty img =
     (case fep_pushdata fep folder ty img of None \<Rightarrow> None | Some m \<Rightarrow> snd (rtd_push rq m))"

subsection \<open>The ring\<close>

text \<open>
  \<^verbatim>\<open>push2sender\<close> in two steps, since other processes look at the ring between them: it takes a number
  and a place, which moves \<^verbatim>\<open>widx\<close> on, and then copies the message there. The steps are those of
  one receiver thread, as \<^verbatim>\<open>no_of_threads[1]\<close> is set by default.
\<close>

definition push_claim :: "int \<Rightarrow> pushmsg \<Rightarrow> RQ \<Rightarrow> (rt_alarm \<times> pushmsg \<times> RQ) option" where
  "push_claim pos m rq =
     (let m' = m\<lparr>g_seqn := pushseqn rq\<rparr>;
          indx = word_of_int (widx (rt_fifo rq)) :: 16 word
      in if no_of_buffers rq = 0 \<or> unat indx \<ge> length (push (rt_fifo rq)) then None
         else Some (\<lparr> al_sidx = word_of_int pos, al_indx = indx, al_seqn = g_seqn m' \<rparr>, m',
           rq\<lparr>pushseqn := pushseqn rq + 1,
              rt_fifo := (rt_fifo rq)\<lparr>widx := (widx (rt_fifo rq) + 1) mod int (no_of_buffers rq)\<rparr>\<rparr>))"

definition push_copy :: "rt_alarm \<Rightarrow> pushmsg \<Rightarrow> RQ \<Rightarrow> RQ" where
  "push_copy al m rq = rq\<lparr>rt_fifo := (rt_fifo rq)\<lparr>push := (push (rt_fifo rq))[unat (al_indx al) := m]\<rparr>\<rparr>"

definition push2sender :: "int \<Rightarrow> pushmsg \<Rightarrow> RQ \<Rightarrow> (rt_alarm \<times> RQ) option" where
  "push2sender pos m rq =
     (case push_claim pos m rq of
        None \<Rightarrow> None
      | Some (al, m', rq') \<Rightarrow> Some (al, push_copy al m' rq'))"

lemma push2sender_at_once:
  "push2sender pos m rq =
     (let m' = m\<lparr>g_seqn := pushseqn rq\<rparr>;
          indx = word_of_int (widx (rt_fifo rq)) :: 16 word
      in if no_of_buffers rq = 0 \<or> unat indx \<ge> length (push (rt_fifo rq)) then None
         else Some (\<lparr> al_sidx = word_of_int pos, al_indx = indx, al_seqn = g_seqn m' \<rparr>,
           rq\<lparr>pushseqn := pushseqn rq + 1,
              rt_fifo := \<lparr> widx = (widx (rt_fifo rq) + 1) mod int (no_of_buffers rq),
                          push = (push (rt_fifo rq))[unat indx := m'] \<rparr>\<rparr>))"
  by (cases "rt_fifo rq") (simp add: push2sender_def push_claim_def push_copy_def Let_def)

datatype pusher_msg = PushMsg pushdata | SymbolCmd rt_cmd

datatype pusher_result = Alarm rt_alarm RQ | Continue RQ | ExitProcess RQ

text \<open>One message from a pusher; \<open>None\<close> is undefined behaviour.\<close>

definition recv_from_pusher :: "pusher_msg \<Rightarrow> RQ \<Rightarrow> pusher_result option" where
  "recv_from_pusher msg rq =
     (case msg of
        PushMsg pd \<Rightarrow> map_option (\<lambda>(al, rq'). Alarm al rq') (push2sender (mkid pd - 1) (pushmsg pd) rq)
      | SymbolCmd cmd \<Rightarrow>
          (let name = cstr (cmd_symb cmd) in
           if dynamic_mode rq then Some (Continue rq)
           else if cmd_func cmd = RT_INS_SYMB then
             map_option (\<lambda>(_, _, rq'). Continue rq') (insert_symbol_to_board name None 0 [] rq)
           else if cmd_func cmd = RT_DEL_SYMB then map_option Continue (delete_symbol_from_board name rq)
           else if cmd_func cmd = RT_RST_SYMB then
             Some (ExitProcess (snd (board_symbol_to_file True (reset_symbol_on_board rq))))
           else if cmd_func cmd = RT_INI_SYMB then Some (ExitProcess rq)
           else Some (Continue rq)))"

subsection \<open>The sender threads\<close>

datatype write_out = Sent | WouldBlock | Broken

lemma length_close_client [simp]: "length (rq_client (close_client c rq)) = length (rq_client rq)"
proof -
  have "length (rq_client (fold (leave_step c) ns rq)) = length (rq_client rq)" for ns rq
    by (induction ns arbitrary: rq) (simp_all add: leave_step_def upd_client_def upd_hook_def)
  then show ?thesis by (simp add: close_client_def upd_client_def Let_def)
qed

definition hears :: "RQ \<Rightarrow> nat \<Rightarrow> mask_t \<Rightarrow> nat \<Rightarrow> bool" where
  "hears rq s_seqn e_mask c \<longleftrightarrow> linked_to rq c \<and> cl_mask (rq_client rq ! c) ! s_seqn AND e_mask \<noteq> 0"

text \<open>
  The loop of thread \<open>ii\<close> of \<open>n\<close>: the clients written to, in order, and the board. A client whose
  socket is broken is closed.
\<close>

function alarm_loop ::
  "nat \<Rightarrow> (nat \<Rightarrow> write_out) \<Rightarrow> nat \<Rightarrow> mask_t \<Rightarrow> nat \<Rightarrow> RQ \<Rightarrow> nat list \<times> RQ" where
  "alarm_loop n out s_seqn e_mask ii rq =
     (if n = 0 \<or> ii \<ge> no_of_linked rq \<or> ii \<ge> length (rq_client rq) then ([], rq)
      else if \<not> hears rq s_seqn e_mask ii \<or> cl_flag (rq_client rq ! ii) \<noteq> RQ_LOCAL then
        alarm_loop n out s_seqn e_mask (ii + n) rq
      else
        (case out ii of
           Sent \<Rightarrow> (let (ws, rq') = alarm_loop n out s_seqn e_mask (ii + n) rq in (ii # ws, rq'))
         | WouldBlock \<Rightarrow> alarm_loop n out s_seqn e_mask (ii + n) rq
         | Broken \<Rightarrow> alarm_loop n out s_seqn e_mask (ii + n) (close_client ii rq)))"
  by pat_completeness auto
termination
  by (relation "measure (\<lambda>(n, out, s, e, ii, rq). length (rq_client rq) - ii)") auto

declare alarm_loop.simps [simp del]

text \<open>What thread \<open>mythrd\<close> of \<open>n\<close> does with an alarm: the clients it writes the alarm to.\<close>

definition send_to_client ::
  "nat \<Rightarrow> (nat \<Rightarrow> write_out) \<Rightarrow> nat \<Rightarrow> rt_alarm \<Rightarrow> RQ \<Rightarrow> (nat list \<times> rt_alarm \<times> RQ) option" where
  "send_to_client n out mythrd al rq =
     (if unat (al_indx al) \<ge> length (push (rt_fifo rq)) then None
      else
        let e_mask = g_mask (push (rt_fifo rq) ! unat (al_indx al)); s_seqn = unat (al_sidx al)
        in if s_seqn \<ge> no_of_symbols rq then Some ([], al, rq)
           else
             let (ws, rq') = alarm_loop n out s_seqn e_mask mythrd rq
             in Some (ws, al\<lparr>al_sidx := ALARM_ID\<rparr>, rq'))"

subsection \<open>The client's receiver thread\<close>

definition alarm_bytes :: "rt_alarm \<Rightarrow> bytes" where
  "alarm_bytes al = le_bytes 2 (unat (al_sidx al)) @ le_bytes 2 (unat (al_indx al)) @ le_bytes 4 (unat (al_seqn al))"

definition alarm_of :: "bytes \<Rightarrow> rt_alarm" where
  "alarm_of b = \<lparr> al_sidx = of_nat (le_nat (take 2 b)), al_indx = of_nat (le_nat (take 2 (drop 2 b))),
     al_seqn = of_nat (le_nat (take 4 (drop 4 b))) \<rparr>"

definition FLUSH :: nat where "FLUSH = 40"

text \<open>
  The bytes of one \<^verbatim>\<open>read\<close>: \<open>alarm_b\<close> is the alarm that is being put together, \<open>many\<close> the messages
  collected. The Boolean is \<open>False\<close> when the connection turns out to be broken; \<open>None\<close> is a read
  outside the ring.
\<close>

fun recv_bytes ::
  "pushmsg list \<Rightarrow> bytes \<Rightarrow> bytes \<Rightarrow> pushmsg list \<Rightarrow> rt_pkth \<Rightarrow> (bool \<times> bytes \<times> rt_pkth) option" where
  "recv_bytes fifo alarm_b [] many pkth =
     map_option (\<lambda>pkth'. (True, alarm_b, pkth')) (if many = [] then Some pkth else rt_packet_push pkth many)"
| "recv_bytes fifo alarm_b (c # cs) many pkth =
     (let ab = alarm_b @ [c]; al = alarm_of ab
      in if length ab < 8 then recv_bytes fifo ab cs many pkth
         else if al_sidx al \<noteq> ALARM_ID then Some (False, [], pkth)
         else if unat (al_indx al) \<ge> length fifo then None
         else if al_seqn al \<noteq> g_seqn (fifo ! unat (al_indx al)) then recv_bytes fifo [] cs many pkth
         else
           let many' = many @ [fifo ! unat (al_indx al)]
           in if length many' \<ge> FLUSH then
                (case rt_packet_push pkth many' of
                   None \<Rightarrow> None | Some pkth' \<Rightarrow> recv_bytes fifo [] cs [] pkth')
              else recv_bytes fifo [] cs many' pkth)"

text \<open>
  All reads of a connection, each with the ring as it is then; the end of the list is the end of the
  connection, upon which waiting readers are woken. The Boolean is the final \<^verbatim>\<open>alive\<close>.
\<close>

fun rt_recver :: "(bytes \<times> pushmsg list) list \<Rightarrow> bytes \<Rightarrow> rt_pkth \<Rightarrow> (bytes \<times> rt_pkth) option" where
  "rt_recver [] alarm_b pkth = Some (alarm_b, rt_packet_sig pkth)"
| "rt_recver ((recv_b, fifo) # reads) alarm_b pkth =
     (case recv_bytes fifo alarm_b recv_b [] pkth of
        None \<Rightarrow> None
      | Some (ok, ab, pkth') \<Rightarrow> if ok then rt_recver reads ab pkth' else Some (ab, rt_packet_sig pkth'))"

definition rtd_recv :: "bool \<Rightarrow> rt_pkth \<Rightarrow> nat \<Rightarrow> int \<Rightarrow> (int \<times> pushmsg list \<times> rt_pkth) wait" where
  "rtd_recv alive pkth howmany timeout =
     (if \<not> alive then Returns (-1, [], pkth)
      else case rt_packet_full pkth howmany timeout of
        Blocks \<Rightarrow> Blocks
      | Returns (ms, pkth') \<Rightarrow> Returns (int (length ms), ms, pkth'))"

subsection \<open>Reading the stream of alarms\<close>

lemma alarm_bytes_of [simp]: "alarm_of (alarm_bytes al) = al"
proof -
  have "unat (w :: 16 word) < 256 ^ 2" "unat (v :: u32) < 256 ^ 4" for w v
    using unsigned_less [of w] unsigned_less [of v] by simp_all
  then show ?thesis by (simp add: alarm_of_def alarm_bytes_def le_nat_bytes)
qed

lemma length_alarm_bytes [simp]: "length (alarm_bytes al) = 8"
  by (simp add: alarm_bytes_def)

text \<open>The alarms of a stream and the bytes of an incomplete one at its end.\<close>

function split_alarms :: "bytes \<Rightarrow> rt_alarm list \<times> bytes" where
  "split_alarms b =
     (if length b < 8 then ([], b)
      else (alarm_of (take 8 b) # fst (split_alarms (drop 8 b)), snd (split_alarms (drop 8 b))))"
  by pat_completeness auto
termination by (relation "measure length") auto

declare split_alarms.simps [simp del]

lemma split_short [simp]: "length b < 8 \<Longrightarrow> split_alarms b = ([], b)"
  by (simp add: split_alarms.simps)

lemma split_step: "length b = 8 \<Longrightarrow>
    split_alarms (b @ bs) = (alarm_of b # fst (split_alarms bs), snd (split_alarms bs))"
  by (subst split_alarms.simps) simp

lemma split_append:
  "split_alarms (a @ b) = (fst (split_alarms a) @ fst (split_alarms (snd (split_alarms a) @ b)),
     snd (split_alarms (snd (split_alarms a) @ b)))"
proof (induction a rule: split_alarms.induct)
  case (1 a)
  show ?case
  proof (cases "length a < 8")
    case False
    then have a: "a = take 8 a @ drop 8 a" "length (take 8 a) = 8" by simp_all
    have "split_alarms (a @ b) = split_alarms (take 8 a @ (drop 8 a @ b))"
      using a(1) by (metis append.assoc)
    also have "\<dots> = (alarm_of (take 8 a) # fst (split_alarms (drop 8 a @ b)), snd (split_alarms (drop 8 a @ b)))"
      by (rule split_step [OF a(2)])
    finally show ?thesis
      using 1 [OF False] split_step [OF a(2), of "drop 8 a"] a(1) by simp
  qed simp
qed

lemma split_alarm_bytes: "split_alarms (concat (map alarm_bytes als)) = (als, [])"
  by (induction als) (simp_all add: split_step)

text \<open>The messages the alarms stand for: those whose place in the ring still holds their number.\<close>

definition fetched :: "pushmsg list \<Rightarrow> rt_alarm list \<Rightarrow> pushmsg list" where
  "fetched fifo als = map (\<lambda>al. fifo ! unat (al_indx al))
     (filter (\<lambda>al. g_seqn (fifo ! unat (al_indx al)) = al_seqn al) als)"

lemma fetched_simps [simp]:
  "fetched fifo [] = []"
  "fetched fifo (al # als) =
     (if g_seqn (fifo ! unat (al_indx al)) = al_seqn al then [fifo ! unat (al_indx al)] else []) @ fetched fifo als"
  by (simp_all add: fetched_def)

lemma fetched_append [simp]: "fetched fifo (a @ b) = fetched fifo a @ fetched fifo b"
  by (simp add: fetched_def)

definition alarm_ok :: "nat \<Rightarrow> rt_alarm \<Rightarrow> bool" where
  "alarm_ok n al \<longleftrightarrow> al_sidx al = ALARM_ID \<and> unat (al_indx al) < n"

text \<open>What the queue takes of two batches is what it takes of both together.\<close>

definition enqueued :: "rt_pkth \<Rightarrow> pushmsg list \<Rightarrow> rt_pkth \<Rightarrow> bool" where
  "enqueued pkth ms pkth' \<longleftrightarrow> packets_ok pkth' \<and> queued pkth' = queued pkth @ take (MAX_PKTN - length (queued pkth)) ms"

lemma enqueued_push:
  assumes "packets_ok pkth"
  obtains pkth' where "rt_packet_push pkth ms = Some pkth'" "enqueued pkth ms pkth'"
  using packets.put_law [OF assms, of ms] by (auto simp: enqueued_def)

lemma enqueued_trans:
  "enqueued a ms b \<Longrightarrow> enqueued b ms' c \<Longrightarrow> enqueued a (ms @ ms') c"
  by (auto simp: enqueued_def min_def)

lemma enqueued_Nil: "packets_ok pkth \<Longrightarrow> enqueued pkth [] pkth"
  by (simp add: enqueued_def)

lemma recv_bytes_enqueues:
  "packets_ok pkth \<Longrightarrow> length ab < 8 \<Longrightarrow>
   \<forall>al\<in>set (fst (split_alarms (ab @ bs))). alarm_ok (length fifo) al \<Longrightarrow>
   \<exists>pkth'. recv_bytes fifo ab bs many pkth = Some (True, snd (split_alarms (ab @ bs)), pkth') \<and>
     enqueued pkth (many @ fetched fifo (fst (split_alarms (ab @ bs)))) pkth'"
proof (induction bs arbitrary: ab many pkth)
  case Nil
  then obtain pkth' where "rt_packet_push pkth many = Some pkth'" "enqueued pkth many pkth'"
    using enqueued_push by blast
  with Nil show ?case using enqueued_Nil [of pkth] by (cases "many = []") auto
next
  case (Cons b bs)
  have app: "ab @ b # bs = (ab @ [b]) @ bs" by simp
  show ?case
  proof (cases "length (ab @ [b]) < 8")
    case True
    with Cons.IH [OF Cons.prems(1) True, of many] Cons.prems(3) show ?thesis
      by (simp add: app del: append_assoc append.simps)
  next
    case False
    then have l: "length (ab @ [b]) = 8" using Cons.prems(2) by simp
    let ?al = "alarm_of (ab @ [b])"
    have sp: "split_alarms (ab @ b # bs) = (?al # fst (split_alarms bs), snd (split_alarms bs))"
      unfolding app by (rule split_step [OF l])
    have al: "al_sidx ?al = ALARM_ID" "unat (al_indx ?al) < length fifo"
      and rest: "\<forall>al\<in>set (fst (split_alarms ([] @ bs))). alarm_ok (length fifo) al"
      using Cons.prems(3) sp by (auto simp: alarm_ok_def)
    let ?m = "fifo ! unat (al_indx ?al)"
    note IH = Cons.IH [of _ "[]", OF _ _ rest, simplified]
    show ?thesis
    proof (cases "al_seqn ?al = g_seqn ?m")
      case False
      with IH [OF Cons.prems(1), of many] sp al l show ?thesis by (simp add: Let_def)
    next
      case same: True
      show ?thesis
      proof (cases "length (many @ [?m]) \<ge> FLUSH")
        case False
        with IH [OF Cons.prems(1), of "many @ [?m]"] sp al l same show ?thesis by (simp add: Let_def)
      next
        case True
        obtain p1 where p1: "rt_packet_push pkth (many @ [?m]) = Some p1" "enqueued pkth (many @ [?m]) p1"
          using enqueued_push [OF Cons.prems(1)] by blast
        then have "packets_ok p1" by (simp add: enqueued_def)
        from IH [OF this, of "[]"] obtain p2 where
          "recv_bytes fifo [] bs [] p1 = Some (True, snd (split_alarms bs), p2)"
          "enqueued p1 (fetched fifo (fst (split_alarms bs))) p2" by auto
        with p1 enqueued_trans [OF p1(2)] sp al l same True show ?thesis by (fastforce simp: Let_def)
      qed
    qed
  qed
qed

lemma snd_split_short: "length (snd (split_alarms b)) < 8"
proof (induction b rule: split_alarms.induct)
  case (1 b)
  show ?case
  proof (cases "length b < 8")
    case False
    with 1 [OF False] show ?thesis by (subst split_alarms.simps) simp
  qed simp
qed

lemma rt_recver_enqueues:
  "packets_ok pkth \<Longrightarrow> length ab < 8 \<Longrightarrow>
   \<forall>al\<in>set (fst (split_alarms (ab @ concat reads))). alarm_ok (length fifo) al \<Longrightarrow>
   \<exists>pkth'. rt_recver (map (\<lambda>b. (b, fifo)) reads) ab pkth =
       Some (snd (split_alarms (ab @ concat reads)), rt_packet_sig pkth') \<and>
     enqueued pkth (fetched fifo (fst (split_alarms (ab @ concat reads)))) pkth'"
proof (induction reads arbitrary: ab pkth)
  case Nil
  then show ?case using enqueued_Nil [of pkth] by auto
next
  case (Cons b reads)
  note sp = split_append [of "ab @ b" "concat reads"]
  let ?ab = "snd (split_alarms (ab @ b))"
  have 1: "\<forall>al\<in>set (fst (split_alarms (ab @ b))). alarm_ok (length fifo) al"
    "\<forall>al\<in>set (fst (split_alarms (?ab @ concat reads))). alarm_ok (length fifo) al"
    using Cons.prems(3) sp by auto
  obtain p1 where p1: "recv_bytes fifo ab b [] pkth = Some (True, ?ab, p1)"
    "enqueued pkth (fetched fifo (fst (split_alarms (ab @ b)))) p1"
    using recv_bytes_enqueues [OF Cons.prems(1,2) 1(1), of "[]"] by auto
  then have "packets_ok p1" by (simp add: enqueued_def)
  from Cons.IH [OF this snd_split_short 1(2)] obtain p2 where
    "rt_recver (map (\<lambda>b. (b, fifo)) reads) ?ab p1 = Some (snd (split_alarms (?ab @ concat reads)), rt_packet_sig p2)"
    "enqueued p1 (fetched fifo (fst (split_alarms (?ab @ concat reads)))) p2" by blast
  with p1 sp enqueued_trans [OF p1(2)] show ?case by (intro exI [of _ p2]) simp
qed

lemma rt_recver_stream:
  assumes ok: "packets_ok pkth" and als: "\<forall>al\<in>set als. alarm_ok (length fifo) al"
    and cut: "concat reads = concat (map alarm_bytes als)"
  shows "\<exists>pkth'. rt_recver (map (\<lambda>b. (b, fifo)) reads) [] pkth = Some ([], pkth') \<and> chck pkth' = 1 \<and>
    queued pkth' = queued pkth @ take (MAX_PKTN - length (queued pkth)) (fetched fifo als)"
proof -
  have sp: "split_alarms ([] @ concat reads) = (als, [])" using cut split_alarm_bytes by simp
  obtain p' where p: "rt_recver (map (\<lambda>b. (b, fifo)) reads) [] pkth = Some ([], rt_packet_sig p')"
    "enqueued pkth (fetched fifo als) p'"
    using rt_recver_enqueues [OF ok, of "[]" reads fifo] als unfolding sp by auto
  then have "queued (rt_packet_sig p') = queued p'" by (simp add: rt_packet_sig_def queued_def messages_def)
  with p show ?thesis by (simp add: enqueued_def rt_packet_sig_def)
qed

text \<open>
  C15. The receiver does not depend on how the stream is cut. However the alarms of a connection are cut
  into reads, alarms torn apart included, the receiver puts into the packet queue, in order and as far
  as there is room, the ring's messages of exactly those alarms whose number the ring still holds,
  and wakes the readers at the end. (The ring stays as it is in the meantime.)
\<close>

theorem receiver_ignores_cuts:
  assumes ok: "packets_ok pkth" and als: "\<forall>al\<in>set als. alarm_ok (length fifo) al"
    and cut: "concat reads = concat (map alarm_bytes als)"
  shows "\<exists>pkth'. rt_recver (map (\<lambda>b. (b, fifo)) reads) [] pkth = Some ([], pkth') \<and> chck pkth' = 1 \<and>
    queued pkth' = queued pkth @ take (MAX_PKTN - length (queued pkth)) (fetched fifo als)"
  using assms by (rule rt_recver_stream)

theorem receiver_ignores_cuts_witness:
  "let al = \<lparr> al_sidx = ALARM_ID, al_indx = 1, al_seqn = 7 \<rparr>; b = alarm_bytes al;
       fifo = [msg0, msg0\<lparr>g_seqn := 7\<rparr>]
   in \<exists>pkth'. rt_recver [(take 3 b, fifo), (drop 3 b @ take 5 b, fifo), (drop 5 b, fifo)] []
        (snd (rt_packet_init True pkth0)) = Some ([], pkth') \<and>
      queued pkth' = [msg0\<lparr>g_seqn := 7\<rparr>, msg0\<lparr>g_seqn := 7\<rparr>]"
proof -
  let ?al = "\<lparr> al_sidx = ALARM_ID, al_indx = 1, al_seqn = 7 \<rparr>"
  let ?b = "alarm_bytes ?al" and ?fifo = "[msg0, msg0\<lparr>g_seqn := 7\<rparr>]"
  have "concat [take 3 ?b, drop 3 ?b @ take 5 ?b, drop 5 ?b] = concat (map alarm_bytes [?al, ?al])" by simp
  moreover have "\<forall>al\<in>set [?al, ?al]. alarm_ok (length ?fifo) al" by (simp add: alarm_ok_def)
  ultimately obtain p' where
    "rt_recver (map (\<lambda>b. (b, ?fifo)) [take 3 ?b, drop 3 ?b @ take 5 ?b, drop 5 ?b]) []
       (snd (rt_packet_init True pkth0)) = Some ([], p')"
    "queued p' = queued (snd (rt_packet_init True pkth0)) @
       take (MAX_PKTN - length (queued (snd (rt_packet_init True pkth0)))) (fetched ?fifo [?al, ?al])"
    using receiver_ignores_cuts [OF packets_init(1)] by meson
  then show ?thesis by (simp add: packets_init(2) Let_def MAX_PKTN_def)
qed

subsection \<open>The ring keeps the last messages\<close>

definition ring_ok :: "RQ \<Rightarrow> bool" where
  "ring_ok rq \<longleftrightarrow> 0 < no_of_buffers rq \<and> no_of_buffers rq \<le> 65536 \<and>
     no_of_buffers rq \<le> length (push (rt_fifo rq)) \<and>
     0 \<le> widx (rt_fifo rq) \<and> widx (rt_fifo rq) < int (no_of_buffers rq)"

lemma push2sender_ok:
  assumes "ring_ok rq"
  defines "w \<equiv> nat (widx (rt_fifo rq))"
  obtains rq' where "push2sender pos m rq = Some
      (\<lparr> al_sidx = word_of_int pos, al_indx = of_nat w, al_seqn = pushseqn rq \<rparr>, rq')"
    "ring_ok rq'" "unat (of_nat w :: 16 word) = w" "w < no_of_buffers rq"
    "push (rt_fifo rq') = (push (rt_fifo rq))[w := m\<lparr>g_seqn := pushseqn rq\<rparr>]"
    "nat (widx (rt_fifo rq')) = (if w + 1 = no_of_buffers rq then 0 else w + 1)"
    "pushseqn rq' = pushseqn rq + 1" "no_of_buffers rq' = no_of_buffers rq" "rt_board rq' = rt_board rq"
    "rt_symbol rq' = rt_symbol rq" "rq_client rq' = rq_client rq" "no_of_linked rq' = no_of_linked rq"
    "no_of_symbols rq' = no_of_symbols rq"
proof -
  have w: "widx (rt_fifo rq) = int w" "w < no_of_buffers rq" "no_of_buffers rq \<le> 65536"
    "no_of_buffers rq \<le> length (push (rt_fifo rq))"
    using assms by (auto simp: ring_ok_def)
  have u: "unat (of_nat w :: 16 word) = w" using w by (simp add: unat_of_nat)
  have next_w: "nat ((int w + 1) mod int (no_of_buffers rq)) = (if w + 1 = no_of_buffers rq then 0 else w + 1)"
    using w(2) by (auto simp: nat_mod_distrib nat_add_distrib)
  let ?rq' = "rq\<lparr>pushseqn := pushseqn rq + 1,
      rt_fifo := \<lparr> widx = (int w + 1) mod int (no_of_buffers rq),
                  push = (push (rt_fifo rq))[w := m\<lparr>g_seqn := pushseqn rq\<rparr>] \<rparr>\<rparr>"
  show thesis
  proof (rule that [of ?rq'])
    show "push2sender pos m rq = Some
        (\<lparr> al_sidx = word_of_int pos, al_indx = of_nat w, al_seqn = pushseqn rq \<rparr>, ?rq')"
      using w u by (simp add: push2sender_at_once Let_def)
    show "ring_ok ?rq'" using w by (simp add: ring_ok_def)
  qed (use u w next_w in simp_all)
qed

fun push_all :: "(int \<times> pushmsg) list \<Rightarrow> RQ \<Rightarrow> RQ option" where
  "push_all [] rq = Some rq"
| "push_all ((pos, m) # ms) rq =
     (case push2sender pos m rq of None \<Rightarrow> None | Some (al, rq') \<Rightarrow> push_all ms rq')"

text \<open>The number of messages that can be pushed before the place \<open>i\<close> is written.\<close>

definition ahead :: "RQ \<Rightarrow> nat \<Rightarrow> nat" where
  "ahead rq i = (let w = nat (widx (rt_fifo rq)) in if w \<le> i then i - w else i + no_of_buffers rq - w)"

lemma push_all_place:
  "ring_ok rq \<Longrightarrow> push_all ms rq = Some rq' \<Longrightarrow> i < no_of_buffers rq \<Longrightarrow>
   (length ms \<le> ahead rq i \<longrightarrow> push (rt_fifo rq') ! i = push (rt_fifo rq) ! i) \<and>
   (ahead rq i < length ms \<longrightarrow>
      (\<exists>k<length ms. g_seqn (push (rt_fifo rq') ! i) = pushseqn rq + of_nat k))"
proof (induction ms arbitrary: rq)
  case (Cons x ms)
  obtain pos m where x: "x = (pos, m)" by (cases x)
  let ?w = "nat (widx (rt_fifo rq))"
  obtain rq1 where s: "push2sender pos m rq = Some
      (\<lparr> al_sidx = word_of_int pos, al_indx = of_nat ?w, al_seqn = pushseqn rq \<rparr>, rq1)"
    "ring_ok rq1" "?w < no_of_buffers rq"
    "push (rt_fifo rq1) = (push (rt_fifo rq))[?w := m\<lparr>g_seqn := pushseqn rq\<rparr>]"
    "nat (widx (rt_fifo rq1)) = (if ?w + 1 = no_of_buffers rq then 0 else ?w + 1)"
    "pushseqn rq1 = pushseqn rq + 1" "no_of_buffers rq1 = no_of_buffers rq"
    by (rule push2sender_ok [OF Cons.prems(1)])
  have IH: "(length ms \<le> ahead rq1 i \<longrightarrow> push (rt_fifo rq') ! i = push (rt_fifo rq1) ! i) \<and>
   (ahead rq1 i < length ms \<longrightarrow>
      (\<exists>k<length ms. g_seqn (push (rt_fifo rq') ! i) = pushseqn rq1 + of_nat k))"
    using Cons.IH [OF s(2)] Cons.prems s(1,7) x by simp
  have len: "?w < length (push (rt_fifo rq))" using s(3) Cons.prems(1) by (simp add: ring_ok_def)
  have later: "\<exists>k<length (x # ms). g_seqn (push (rt_fifo rq') ! i) = pushseqn rq + of_nat k"
    if "ahead rq1 i < length ms"
  proof -
    from IH that obtain k where "k < length ms" "g_seqn (push (rt_fifo rq') ! i) = pushseqn rq1 + of_nat k" by blast
    with s(6) show ?thesis by (intro exI [of _ "Suc k"]) (simp add: algebra_simps)
  qed
  show ?case
  proof (cases "i = ?w")
    case True
    then have a: "ahead rq i = 0" "ahead rq1 i = no_of_buffers rq - 1"
      using s(3,5,7) by (auto simp: ahead_def)
    have "g_seqn (push (rt_fifo rq1) ! i) = pushseqn rq + of_nat 0" using s(4) True len by simp
    with IH later a show ?thesis by (metis length_greater_0_conv linorder_not_le list.discI le_0_eq list.size(3))
  next
    case False
    then have a: "ahead rq i = Suc (ahead rq1 i)" using s(3,5,7) Cons.prems(3) by (auto simp: ahead_def Suc_diff_Suc)
    have "push (rt_fifo rq1) ! i = push (rt_fifo rq) ! i" using s(4) False by simp
    with IH later a show ?thesis by simp
  qed
qed simp

text \<open>
  C16. A reader of the ring gets the right message or none. As long as fewer messages than the ring has
  places were pushed after an alarm was raised, its place in the ring holds the message it was
  raised for; from then on, up to \<open>2 ^ 32\<close> messages later, the number at that place is another one, and
  the receiver drops the alarm.
\<close>

theorem ring_right_or_dropped:
  assumes ring: "ring_ok rq" and p: "push2sender pos m rq = Some (al, rq1)" and later: "push_all ms rq1 = Some rq2"
  shows "if length ms < no_of_buffers rq
    then push (rt_fifo rq2) ! unat (al_indx al) = m\<lparr>g_seqn := al_seqn al\<rparr>
    else length ms < 2 ^ 32 \<longrightarrow> g_seqn (push (rt_fifo rq2) ! unat (al_indx al)) \<noteq> al_seqn al"
proof -
  let ?w = "nat (widx (rt_fifo rq))"
  obtain rq' where s: "push2sender pos m rq = Some
      (\<lparr> al_sidx = word_of_int pos, al_indx = of_nat ?w, al_seqn = pushseqn rq \<rparr>, rq')"
    "ring_ok rq'" "unat (of_nat ?w :: 16 word) = ?w" "?w < no_of_buffers rq"
    "push (rt_fifo rq') = (push (rt_fifo rq))[?w := m\<lparr>g_seqn := pushseqn rq\<rparr>]"
    "nat (widx (rt_fifo rq')) = (if ?w + 1 = no_of_buffers rq then 0 else ?w + 1)"
    "pushseqn rq' = pushseqn rq + 1" "no_of_buffers rq' = no_of_buffers rq"
    by (rule push2sender_ok [OF ring])
  have rq1: "rq1 = rq'" and al: "al = \<lparr> al_sidx = word_of_int pos, al_indx = of_nat ?w, al_seqn = pushseqn rq \<rparr>"
    using s(1) p by simp_all
  have i: "unat (al_indx al) = ?w" "al_seqn al = pushseqn rq" using al s(3) by simp_all
  have a: "ahead rq1 ?w = no_of_buffers rq - 1" using s(4,6,8) rq1 by (auto simp: ahead_def)
  have "?w < length (push (rt_fifo rq))" using s(4) ring by (simp add: ring_ok_def)
  then have here: "push (rt_fifo rq1) ! ?w = m\<lparr>g_seqn := pushseqn rq\<rparr>" using s(5) rq1 by simp
  have pl: "(length ms \<le> ahead rq1 ?w \<longrightarrow> push (rt_fifo rq2) ! ?w = push (rt_fifo rq1) ! ?w) \<and>
   (ahead rq1 ?w < length ms \<longrightarrow>
      (\<exists>k<length ms. g_seqn (push (rt_fifo rq2) ! ?w) = pushseqn rq1 + of_nat k))"
    using push_all_place [OF _ later, of ?w] s(2,4,8) rq1 by simp
  show ?thesis
  proof (cases "length ms < no_of_buffers rq")
    case True
    with pl a here i show ?thesis by simp
  next
    case False
    then obtain k where k: "k < length ms" "g_seqn (push (rt_fifo rq2) ! ?w) = pushseqn rq + 1 + of_nat k"
      using pl a s(4,7) rq1 by auto
    have "pushseqn rq + 1 + of_nat k \<noteq> pushseqn rq" if "length ms < 2 ^ 32"
    proof
      assume "pushseqn rq + 1 + of_nat k = pushseqn rq"
      then have "of_nat (Suc k) = (0 :: u32)" by (simp add: add.assoc)
      then have "2 ^ 32 dvd Suc k" by (simp add: word_of_nat_eq_0_iff del: of_nat_Suc)
      then have "2 ^ 32 \<le> Suc k" by (rule dvd_imp_le) simp
      with k(1) that show False by simp
    qed
    with False k i show ?thesis by auto
  qed
qed

definition broker3 :: RQ where
  "broker3 = broker2\<lparr>rt_fifo := \<lparr> widx = 1, push = replicate 3 msg0 \<rparr>, no_of_buffers := 2\<rparr>"

lemma broker3_ring: "ring_ok broker3"
  by (simp add: ring_ok_def broker3_def)

theorem ring_right_or_dropped_witness:
  "\<exists>al rq1 rq2 rq3. push2sender 0 msg0 broker3 = Some (al, rq1) \<and>
     push_all [(1, msg0)] rq1 = Some rq2 \<and> g_seqn (push (rt_fifo rq2) ! unat (al_indx al)) = al_seqn al \<and>
     push_all [(1, msg0), (0, msg0)] rq1 = Some rq3 \<and>
     g_seqn (push (rt_fifo rq3) ! unat (al_indx al)) \<noteq> al_seqn al"
proof -
  have n: "no_of_buffers broker3 = 2" by (simp add: broker3_def)
  obtain al rq1 where p: "push2sender 0 msg0 broker3 = Some (al, rq1)" "ring_ok rq1"
    using push2sender_ok [OF broker3_ring, of 0 msg0] by metis
  obtain al2 rq2 where p2: "push2sender 1 msg0 rq1 = Some (al2, rq2)" "ring_ok rq2"
    using push2sender_ok [OF p(2), of 1 msg0] by metis
  obtain al3 rq3 where p3: "push2sender 0 msg0 rq2 = Some (al3, rq3)"
    using push2sender_ok [OF p2(2), of 0 msg0] by metis
  have 2: "push_all [(1, msg0)] rq1 = Some rq2" and 3: "push_all [(1, msg0), (0, msg0)] rq1 = Some rq3"
    using p2 p3 by simp_all
  from ring_right_or_dropped [OF broker3_ring p(1) 2] ring_right_or_dropped [OF broker3_ring p(1) 3] n p(1) 2 3
  show ?thesis by auto
qed

subsection \<open>Who is told\<close>

lemma filter_stride:
  assumes "ii < L" "n > 0"
  shows "filter (\<lambda>c. ii \<le> c \<and> (c - ii) mod n = 0) [0..<L] =
    ii # filter (\<lambda>c. ii + n \<le> c \<and> (c - (ii + n)) mod n = 0) [0..<L]"
proof -
  have "[0..<L] = [0..<ii] @ ii # [Suc ii..<L]"
    using assms(1) by (metis less_imp_le_nat upt_add_eq_append upt_conv_Cons le_add_diff_inverse zero_le)
  moreover have "(ii \<le> c \<and> (c - ii) mod n = 0) \<longleftrightarrow> (ii + n \<le> c \<and> (c - (ii + n)) mod n = 0)" if "Suc ii \<le> c" for c
  proof (cases "ii + n \<le> c")
    case True
    then have "c - ii = (c - (ii + n)) + n" by simp
    then have "(c - ii) mod n = (c - (ii + n)) mod n" by (metis mod_add_self2)
    with True show ?thesis by simp
  next
    case False
    with that have "0 < c - ii" "c - ii < n" by simp_all
    with False show ?thesis by simp
  qed
  then have "filter (\<lambda>c. ii \<le> c \<and> (c - ii) mod n = 0) [Suc ii..<L] =
      filter (\<lambda>c. ii + n \<le> c \<and> (c - (ii + n)) mod n = 0) [Suc ii..<L]" by (intro filter_cong) simp_all
  ultimately show ?thesis using assms(2) by (auto simp: filter_empty_conv)
qed

lemma alarm_loop_sent:
  "n > 0 \<Longrightarrow> no_of_linked rq \<le> length (rq_client rq) \<Longrightarrow>
   \<forall>c. linked_to rq c \<longrightarrow> cl_flag (rq_client rq ! c) = RQ_LOCAL \<Longrightarrow>
   alarm_loop n (\<lambda>_. Sent) s e ii rq =
     (filter (hears rq s e) (filter (\<lambda>c. ii \<le> c \<and> (c - ii) mod n = 0) [0..<no_of_linked rq]), rq)"
proof (induction "length (rq_client rq) - ii" arbitrary: ii rule: less_induct)
  case less
  show ?case
  proof (cases "ii < no_of_linked rq")
    case False
    then have "filter (\<lambda>c. ii \<le> c \<and> (c - ii) mod n = 0) [0..<no_of_linked rq] = []"
      by (auto simp: filter_empty_conv)
    with False show ?thesis by (subst alarm_loop.simps) simp
  next
    case True
    then have "alarm_loop n (\<lambda>_. Sent) s e (ii + n) rq =
     (filter (hears rq s e) (filter (\<lambda>c. ii + n \<le> c \<and> (c - (ii + n)) mod n = 0) [0..<no_of_linked rq]), rq)"
      using less.prems by (intro less.hyps) auto
    moreover have "hears rq s e ii \<Longrightarrow> cl_flag (rq_client rq ! ii) = RQ_LOCAL"
      using less.prems(3) by (simp add: hears_def)
    ultimately show ?thesis using True less.prems filter_stride [OF True less.prems(1)]
      by (subst alarm_loop.simps) auto
  qed
qed

lemma stride_mod:
  "t < n \<Longrightarrow> t \<le> c \<and> (c - t) mod n = 0 \<longleftrightarrow> c mod n = (t :: nat)"
  by (metis diff_is_0_eq' le_add_diff_inverse mod_add_right_eq mod_eq_dvd_iff_nat mod_if mod_less_eq_dividend
      mod_self nat_le_linear add.right_neutral dvd_imp_mod_0)

lemma send_to_client_sent:
  assumes "t < n" and "no_of_linked rq \<le> length (rq_client rq)"
    and "\<forall>c. linked_to rq c \<longrightarrow> cl_flag (rq_client rq ! c) = RQ_LOCAL"
    and "unat (al_indx al) < length (push (rt_fifo rq))" and "unat (al_sidx al) < no_of_symbols rq"
  shows "send_to_client n (\<lambda>_. Sent) t al rq =
    Some (filter (\<lambda>c. c mod n = t \<and>
        hears rq (unat (al_sidx al)) (g_mask (push (rt_fifo rq) ! unat (al_indx al))) c) [0..<no_of_linked rq],
      al\<lparr>al_sidx := ALARM_ID\<rparr>, rq)"
proof -
  have "n > 0" using assms(1) by simp
  then show ?thesis
    using assms(4,5) alarm_loop_sent [OF _ assms(2,3)] stride_mod [OF assms(1)]
    by (simp add: send_to_client_def Let_def conj_commute)
qed

text \<open>
  Every listener is told once. With \<open>n\<close> sender threads and sockets that take the alarm, thread \<open>t\<close>
  writes the alarm to exactly the clients with a number \<open>t\<close> modulo \<open>n\<close> whose mask for the symbol meets
  the message's mask, in ascending order and once each; so each such client is written to by exactly one
  thread. The alarm carries the identification the clients look for.
\<close>

theorem each_listener_told_once:
  assumes "t < n" and "no_of_linked rq \<le> length (rq_client rq)"
    and "\<forall>c. linked_to rq c \<longrightarrow> cl_flag (rq_client rq ! c) = RQ_LOCAL"
    and "unat (al_indx al) < length (push (rt_fifo rq))" and "unat (al_sidx al) < no_of_symbols rq"
  shows "send_to_client n (\<lambda>_. Sent) t al rq =
    Some (filter (\<lambda>c. c mod n = t \<and>
        hears rq (unat (al_sidx al)) (g_mask (push (rt_fifo rq) ! unat (al_indx al))) c) [0..<no_of_linked rq],
      al\<lparr>al_sidx := ALARM_ID\<rparr>, rq)"
  using assms by (rule send_to_client_sent)

theorem each_listener_told_once_witness:
  "send_to_client 2 (\<lambda>_. Sent) 0 \<lparr> al_sidx = 0, al_indx = 1, al_seqn = 0 \<rparr>
      (broker3\<lparr>rt_fifo := \<lparr> widx = 1, push = [msg0, msg0\<lparr>g_mask := 3\<rparr>, msg0] \<rparr>\<rparr>) =
    Some ([0], \<lparr> al_sidx = ALARM_ID, al_indx = 1, al_seqn = 0 \<rparr>,
      broker3\<lparr>rt_fifo := \<lparr> widx = 1, push = [msg0, msg0\<lparr>g_mask := 3\<rparr>, msg0] \<rparr>\<rparr>)"
proof -
  let ?rq = "broker3\<lparr>rt_fifo := \<lparr> widx = 1, push = [msg0, msg0\<lparr>g_mask := 3\<rparr>, msg0] \<rparr>\<rparr>"
  have h: "hears ?rq 0 3 0" by (simp add: hears_def linked_to_def broker3_def broker2_def)
  have l: "no_of_linked ?rq = 1" "rq_client ?rq = rq_client broker2" "no_of_symbols ?rq = 2"
    by (simp_all add: broker3_def broker2_def)
  have "no_of_linked ?rq \<le> length (rq_client ?rq)"
    "\<forall>c. linked_to ?rq c \<longrightarrow> cl_flag (rq_client ?rq ! c) = RQ_LOCAL"
    by (auto simp: linked_to_def broker3_def broker2_def)
  with each_listener_told_once [of 0 2 ?rq "\<lparr> al_sidx = 0, al_indx = 1, al_seqn = 0 \<rparr>"] h l
  show ?thesis by simp
qed

subsection \<open>From the pusher to the listener\<close>

lemma symb_member_short: "length t < L_SYMB \<Longrightarrow> symb_member t mk = t"
  by (simp add: symb_member_def)

text \<open>A symbol somebody listens to is found with its mark and its count.\<close>

lemma heard_symbol:
  assumes ok: "board_ok rq" "counts_ok rq" and known: "rooms rq s = Some r"
    and h: "hears rq r e c"
  obtains i where "find_symb rq s = Some i" "y_seqn (symb (rt_symbol rq) ! i) = int r"
    "y_mark (symb (rt_symbol rq) ! i) \<noteq> 0" "h_many (hooks rq ! r) \<noteq> 0" "r < no_of_symbols rq"
proof -
  obtain i where i: "find_symb rq s = Some i"
    using find_symb_rooms(1) [OF ok(1), of s] known by (cases "find_symb rq s") auto
  let ?y = "symb (rt_symbol rq) ! i"
  have y: "?y \<in> set (live_symbs rq)" "nat (y_seqn ?y) = r"
    using find_symb_rooms(2) [OF ok(1) i] known by auto
  note bs = board_seqn [OF ok(1) y(1)]
  have mem: "c \<in> listeners rq r" using h by (auto simp: hears_def listeners_def)
  then have "y_mark ?y \<noteq> 0" using counts_okD(3) [OF ok(2) y(1)] y(2) by auto
  moreover have "h_many (hooks rq ! r) \<noteq> 0" using no_listeners [OF ok(2), of r] mem bs(3) y(2) by auto
  ultimately show thesis using i y bs by (intro that) auto
qed

text \<open>
  C17. A quote reaches its listeners. Let a client listen to the quotes of a folder's symbol, whose name
  for the broker has fewer than 20 characters. Then a push of the folder's quote is sent to the broker;
  the broker puts it into the ring and raises an alarm; the sender thread of the client writes that
  alarm to it; and, however the alarm's bytes arrive, the client's receiver puts the very message
  behind its queue, provided the queue is not full and the ring has not turned around by then.
\<close>

theorem quote_reaches_listener:
  assumes ok: "board_ok rq" "counts_ok rq" "ring_ok rq" "b_no_of_symbols (rt_board rq) = no_of_symbols rq"
    and key: "push_symbol (fep_exnm fep) (f_symb folder) (f_hostname folder) = s" "length s < L_SYMB"
    and client: "rooms rq s = Some r" "hears rq r PUSH_QUOT c" "c < no_of_linked rq"
      "no_of_linked rq \<le> length (rq_client rq)"
      "\<forall>c. linked_to rq c \<longrightarrow> cl_flag (rq_client rq ! c) = RQ_LOCAL" "0 < n"
    and img: "img \<noteq> []" "length img \<le> MAX_PUSH_LEN"
    and queue: "packets_ok pkth" "length (queued pkth) < MAX_PKTN"
  shows "\<exists>pd al rq' ws al'. fep_push_rt rq fep folder 0 img = Some pd \<and> g_msgb (pushmsg pd) = img \<and>
    recv_from_pusher (PushMsg pd) rq = Some (Alarm al rq') \<and>
    send_to_client n (\<lambda>_. Sent) (c mod n) al rq' = Some (ws, al', rq') \<and> c \<in> set ws \<and>
    (\<forall>reads. concat reads = alarm_bytes al' \<longrightarrow>
       (\<exists>pkth'. rt_recver (map (\<lambda>b. (b, push (rt_fifo rq'))) reads) [] pkth = Some ([], pkth') \<and>
          queued pkth' = queued pkth @ [pushmsg pd\<lparr>g_seqn := pushseqn rq\<rparr>]))"
proof -
  obtain i where i: "find_symb rq s = Some i" "y_seqn (symb (rt_symbol rq) ! i) = int r"
    "y_mark (symb (rt_symbol rq) ! i) \<noteq> 0" "h_many (hooks rq ! r) \<noteq> 0" "r < no_of_symbols rq"
    by (rule heard_symbol [OF ok(1,2) client(1,2)])
  define m where "m = \<lparr> g_seqn = of_int RT_PUSH_MSG, g_symb = s, g_mask = PUSH_QUOT, g_type = 0, g_flag = 0,
    g_msgl = of_nat (length img), g_msgb = img \<rparr>"
  have small: "unat (of_nat (length img) :: 16 word) \<le> MAX_PUSH_LEN"
    using img(2) by (simp add: unat_of_nat MAX_PUSH_LEN_def)
  have push: "fep_push_rt rq fep folder 0 img = Some \<lparr> mkid = int r + 1, pushmsg = m \<rparr>"
    using i img small key symb_member_short [OF key(2)] ok(4)
    by (simp add: fep_push_rt_def fep_pushdata_def rtd_push_def Let_def m_def)
  let ?w = "nat (widx (rt_fifo rq))"
  let ?al = "\<lparr> al_sidx = of_nat r, al_indx = of_nat ?w, al_seqn = pushseqn rq \<rparr> :: rt_alarm"
  obtain rq' where p: "push2sender (int r) m rq = Some (?al, rq')" "unat (of_nat ?w :: 16 word) = ?w"
    "?w < no_of_buffers rq" "push (rt_fifo rq') = (push (rt_fifo rq))[?w := m\<lparr>g_seqn := pushseqn rq\<rparr>]"
    "rq_client rq' = rq_client rq" "no_of_linked rq' = no_of_linked rq" "no_of_symbols rq' = no_of_symbols rq"
    using push2sender_ok [OF ok(3), of "int r" m] by (metis of_int_of_nat_eq)
  have w: "?w < length (push (rt_fifo rq))" using p(3) ok(3) by (simp add: ring_ok_def)
  have r16: "unat (of_nat r :: 16 word) = r"
    using i(5) board_okD(3) [OF ok(1)] by (simp add: unat_of_nat)
  have here: "push (rt_fifo rq') ! ?w = m\<lparr>g_seqn := pushseqn rq\<rparr>" using p(4) w by simp
  have hears': "hears rq' r PUSH_QUOT d = hears rq r PUSH_QUOT d" for d
    using p(5) by (simp add: hears_def linked_to_def)
  have sent: "send_to_client n (\<lambda>_. Sent) (c mod n) ?al rq' =
      Some (filter (\<lambda>d. d mod n = c mod n \<and> hears rq' r PUSH_QUOT d) [0..<no_of_linked rq],
        ?al\<lparr>al_sidx := ALARM_ID\<rparr>, rq')"
  proof -
    have l: "linked_to rq' d = linked_to rq d" for d using p(5) by (simp add: linked_to_def)
    have "m\<lparr>g_seqn := pushseqn rq\<rparr> = m\<lparr>g_seqn := pushseqn rq\<rparr> \<and> g_mask (m\<lparr>g_seqn := pushseqn rq\<rparr>) = PUSH_QUOT"
      by (simp add: m_def)
    then show ?thesis
      using send_to_client_sent [of "c mod n" n rq' ?al] client(4-6) p r16 i(5) w here l by simp
  qed
  have recv: "\<exists>pkth'. rt_recver (map (\<lambda>b. (b, push (rt_fifo rq'))) reads) [] pkth = Some ([], pkth') \<and>
      queued pkth' = queued pkth @ [m\<lparr>g_seqn := pushseqn rq\<rparr>]"
    if cut: "concat reads = alarm_bytes (?al\<lparr>al_sidx := ALARM_ID\<rparr>)" for reads
  proof -
    have "alarm_ok (length (push (rt_fifo rq'))) (?al\<lparr>al_sidx := ALARM_ID\<rparr>)"
      using p(2,4) w by (simp add: alarm_ok_def)
    moreover have "fetched (push (rt_fifo rq')) [?al\<lparr>al_sidx := ALARM_ID\<rparr>] = [m\<lparr>g_seqn := pushseqn rq\<rparr>]"
      using p(2) here by simp
    ultimately show ?thesis
      using rt_recver_stream [OF queue(1), of "[?al\<lparr>al_sidx := ALARM_ID\<rparr>]" "push (rt_fifo rq')" reads]
        cut queue(2) by auto
  qed
  have "recv_from_pusher (PushMsg \<lparr> mkid = int r + 1, pushmsg = m \<rparr>) rq = Some (Alarm ?al rq')"
    using p(1) by (simp add: recv_from_pusher_def)
  with push sent recv hears' client(2,3) show ?thesis
    by (intro exI [of _ "\<lparr> mkid = int r + 1, pushmsg = m \<rparr>"] exI [of _ ?al] exI [of _ rq'] exI conjI)
      (auto simp: m_def)
qed

text \<open>
  A long symbol is never pushed. When exchange, symbol and host name together need 20 characters or
  more, the text runs over its member and the mask is written behind its first 20 bytes. No symbol in
  the broker's table has such a name, so the quote is silently dropped, whoever listens.
\<close>

theorem long_symbol_never_pushed:
  assumes "board_ok rq" and "\<forall>y\<in>set (live_symbs rq). length (y_symb y) < L_SYMB"
    and "L_SYMB \<le> length (push_symbol (fep_exnm fep) (f_symb folder) (f_hostname folder))"
  shows "fep_push_rt rq fep folder ty img = None"
proof -
  have none: "find_symb rq (symb_member (push_symbol (fep_exnm fep) (f_symb folder) (f_hostname folder)) mk) = None" for mk
  proof -
    let ?k = "symb_member (push_symbol (fep_exnm fep) (f_symb folder) (f_hostname folder)) mk"
    have "L_SYMB \<le> length ?k" using assms(3) by (simp add: symb_member_def)
    then have "?k \<notin> set (names rq)" using assms(2) by auto
    then show ?thesis using find_symb_rooms(1) [OF assms(1)] rooms_None_iff by blast
  qed
  show ?thesis
    by (auto simp: fep_push_rt_def fep_pushdata_def rtd_push_def none Let_def split: option.splits)
qed

lemma broker3_ok: "board_ok broker3" "counts_ok broker3"
proof -
  show "board_ok broker3" by (simp add: board_ok_def broker3_def broker2_def live_symbs_def)
  have mem: "c \<in> listeners broker3 r \<longleftrightarrow> c = 0 \<and> [1, 0 :: mask_t] ! r \<noteq> 0" for c r
    by (cases c) (simp_all add: listeners_def linked_to_def broker3_def broker2_def)
  have l0: "listeners broker3 0 = {0}" and l1: "listeners broker3 1 = {}"
    using mem by auto
  have "unat (h_many (hooks broker3 ! r)) = card (listeners broker3 r)" if "r < 2" for r
    using that l0 l1 by (cases r) (auto simp: broker3_def broker2_def hook0_def)
  moreover have "listeners broker3 r = {}" if "Suc 0 \<le> r" "r < 2" for r
    using that l1 by (metis One_nat_def less_2_cases not_less_eq_eq order_le_less)
  ultimately show "counts_ok broker3"
    by (simp add: counts_ok_def live_symbs_def broker3_def broker2_def)
qed

theorem quote_reaches_listener_witness:
  "\<exists>pd al rq' ws al'. fep_push_rt broker3 ((fep0 4)\<lparr>fep_exnm := ''F''\<rparr>)
       (fold0\<lparr>f_symb := ''A'', f_hostname := ''H''\<rparr>) 0 ''image'' = Some pd \<and>
     recv_from_pusher (PushMsg pd) broker3 = Some (Alarm al rq') \<and>
     send_to_client 32 (\<lambda>_. Sent) 0 al rq' = Some (ws, al', rq') \<and> 0 \<in> set ws"
proof -
  let ?fep = "(fep0 4)\<lparr>fep_exnm := ''F''\<rparr>" and ?f = "fold0\<lparr>f_symb := ''A'', f_hostname := ''H''\<rparr>"
  have "push_symbol (fep_exnm ?fep) (f_symb ?f) (f_hostname ?f) = ''F@A@H''" by (simp add: push_symbol_def)
  moreover have "rooms broker3 ''F@A@H'' = Some 0"
    by (simp add: rooms_def live_symbs_def broker3_def broker2_def)
  moreover have "hears broker3 0 PUSH_QUOT 0"
    by (simp add: hears_def linked_to_def broker3_def broker2_def PUSH_QUOT_def)
  moreover have "\<forall>c. linked_to broker3 c \<longrightarrow> cl_flag (rq_client broker3 ! c) = RQ_LOCAL"
    by (auto simp: linked_to_def broker3_def broker2_def)
  moreover have "0 < no_of_linked broker3" "no_of_linked broker3 \<le> length (rq_client broker3)"
    "b_no_of_symbols (rt_board broker3) = no_of_symbols broker3" by (simp_all add: broker3_def broker2_def)
  moreover have "length (queued (snd (rt_packet_init True pkth0))) < MAX_PKTN"
    by (simp add: packets_init MAX_PKTN_def)
  ultimately have "\<exists>pd al rq' ws al'. fep_push_rt broker3 ?fep ?f 0 ''image'' = Some pd \<and>
      g_msgb (pushmsg pd) = ''image'' \<and>
      recv_from_pusher (PushMsg pd) broker3 = Some (Alarm al rq') \<and>
      send_to_client 32 (\<lambda>_. Sent) (0 mod 32) al rq' = Some (ws, al', rq') \<and> 0 \<in> set ws \<and>
      (\<forall>reads. concat reads = alarm_bytes al' \<longrightarrow>
       (\<exists>pkth'. rt_recver (map (\<lambda>b. (b, push (rt_fifo rq'))) reads) [] (snd (rt_packet_init True pkth0)) = Some ([], pkth') \<and>
          queued pkth' = queued (snd (rt_packet_init True pkth0)) @ [pushmsg pd\<lparr>g_seqn := pushseqn broker3\<rparr>]))"
    by (intro quote_reaches_listener [OF broker3_ok broker3_ring])
      (simp_all add: L_SYMB_def MAX_PUSH_LEN_def packets_init)
  then show ?thesis by auto
qed

theorem long_symbol_never_pushed_witness:
  "fep_push_rt broker3 ((fep0 4)\<lparr>fep_exnm := ''FCME''\<rparr>)
     (fold0\<lparr>f_symb := ''OESZ24 C5000'', f_hostname := ''HOST1''\<rparr>) 0 ''image'' = None"
  by (rule long_symbol_never_pushed [OF broker3_ok(1)])
    (simp_all add: live_symbs_def broker3_def broker2_def push_symbol_def L_SYMB_def)

end
