(* ===== verification/Display.thy ===== *)
theory Display
  imports RealTime "HOL-Library.Signed_Division" "HOL-Library.Monad_Syntax"
begin

unbundle bit_operations_syntax

text \<open>
  What the viewer shows of a folder: \<^verbatim>\<open>src/quot/update.c\<close>, and the registration of the symbols on
  the screen (\<^verbatim>\<open>rqsymb\<close> of \<^verbatim>\<open>src/quot/realtime.c\<close>). The terminal is the list of the calls that draw
  on it, each with the name of the field and the text.

  A text is kept as what is formatted where the C library's locale decides on its characters: a number
  with grouped digits, a decimal with a fixed number of places, a local time. A result \<open>None\<close> is
  undefined behaviour, such as a price beyond \<^verbatim>\<open>int\<close>. The static variables \<^verbatim>\<open>main_f\<close>, \<^verbatim>\<open>sub_f\<close>,
  \<^verbatim>\<open>zdiv\<close>, \<^verbatim>\<open>form\<close> and \<^verbatim>\<open>base\<close> are set from the folder before each use and are \<open>STYLE\<close> here.
  \<open>v_bits\<close> is the memory of a double read as an integer. The helpers nobody calls (\<^verbatim>\<open>pushchr\<close>,
  \<^verbatim>\<open>pushany\<close>, \<^verbatim>\<open>pushdif\<close>, \<^verbatim>\<open>pushrat\<close>, \<^verbatim>\<open>pushflt\<close>) are left out.
\<close>

subsection \<open>Settings, texts and colours\<close>

record VIEW =
  display10 :: bool
  kst4time  :: bool
  delayed   :: bool
  view_exnm :: string \<comment> \<open>\<^verbatim>\<open>fep->exnm\<close> of the exchange on the screen\<close>
  v_bits    :: "double \<Rightarrow> int"

record STYLE =
  main_f :: int
  sub_f  :: int
  zdiv   :: int
  base   :: double

definition style_of :: "MDMSTR \<Rightarrow> STYLE" where
  "style_of mstr = \<lparr>main_f = m_main_f mstr, sub_f = m_sub_f mstr, zdiv = m_zdiv mstr, base = m_setp mstr\<rparr>"

datatype shown =
    Txt string
  | Grouped int \<comment> \<open>\<open>%'d\<close>\<close>
  | Fixed int double \<comment> \<open>\<open>%'.nf\<close>\<close>
  | KstTime time_t \<comment> \<open>date and time in UTC of the number, followed by \<open>(KST)\<close>\<close>
  | LocalTime time_t

definition FC_WHITE :: int where "FC_WHITE = 8 * 256"
definition FC_RED :: int where "FC_RED = 2 * 256"
definition FC_GREEN :: int where "FC_GREEN = 3 * 256"

definition ymd_text :: "int \<Rightarrow> string" where
  "ymd_text ymd = pad0 4 (ymd sdiv 10000) @ ''-'' @ pad0 2 ((ymd smod 10000) sdiv 100) @ ''-'' @ pad0 2 (ymd smod 100)"

definition hms_text :: "int \<Rightarrow> string" where
  "hms_text hms = pad0 2 (hms sdiv 10000) @ '':'' @ pad0 2 ((hms smod 10000) sdiv 100) @ '':'' @ pad0 2 (hms smod 100)"

text \<open>A \<^verbatim>\<open>uint32_t\<close> passed as an \<^verbatim>\<open>int\<close>.\<close>

abbreviation as_int :: "u32 \<Rightarrow> int" where "as_int w \<equiv> sint w"

subsection \<open>Prices\<close>

text \<open>
  \<^verbatim>\<open>sprintf\<close> with the format \<open>%'.nf\<close> into 256 bytes. A text that is certain to fit has at most 100
  digits on either side of the point; the others count as undefined.
\<close>

definition fixed :: "int \<Rightarrow> double \<Rightarrow> shown option" where
  "fixed n val = (if n < 0 \<or> n > 100 \<or> \<bar>val\<bar> \<ge> 10 ^ 100 then None else Some (Fixed n val))"

text \<open>The integer part, a quote and some digits, with a minus in front when the price is not positive.\<close>

definition fraction :: "double \<Rightarrow> int \<Rightarrow> string \<Rightarrow> shown option" where
  "fraction val integerPart ds =
     Some (Txt ((if val > 0 then [] else ''-'') @ decimal (nat integerPart) @ [CHR 0x27] @ ds))"

definition editprc :: "VIEW \<Rightarrow> STYLE \<Rightarrow> double \<Rightarrow> bool \<Rightarrow> shown option" where
  "editprc v st val flag =
     (if val = 0 \<and> \<not> flag then Some (Txt '' '')
      else if display10 v then fixed (zdiv st) val
      else
        let integerPart = \<lfloor>\<bar>val\<bar>\<rfloor>; decimalPart = \<bar>val\<bar> - of_int integerPart;
            fractionalPart = decimalPart * of_int (main_f st)
        in if integerPart \<ge> 2 ^ 31 then None
           else if main_f st = 2 then
             fraction val integerPart (if decimalPart = 1 / 2 then ''5'' else ''0'')
           else if main_f st = 4 then
             (if decimalPart = 0 then fraction val integerPart ''0''
              else if decimalPart = 1 / 4 then fraction val integerPart ''2''
              else if decimalPart = 1 / 2 then fraction val integerPart ''5''
              else if decimalPart = 3 / 4 then fraction val integerPart ''7''
              else None)
           else if \<bar>fractionalPart * 10\<bar> \<ge> 2 ^ 31 then None
           else
             let A = \<lfloor>fractionalPart\<rfloor> div 10; B = \<lfloor>fractionalPart\<rfloor> mod 10; C = \<lfloor>fractionalPart * 10\<rfloor> mod 10
             in if main_f st = 8 then fraction val integerPart (decimal (nat B))
                else if main_f st = 16 \<or> main_f st = 32 \<or> main_f st = 64 then
                  (if sub_f st = 1 then fraction val integerPart (decimal (nat A) @ decimal (nat B))
                   else fraction val integerPart (decimal (nat A) @ decimal (nat B) @ decimal (nat C)))
                else fixed (zdiv st) val)"

subsection \<open>Fields\<close>

text \<open>A field: name, text and colour.\<close>

type_synonym field_write = "string \<times> shown option \<times> int"

definition pushstr :: "string \<Rightarrow> string \<Rightarrow> field_write" where
  "pushstr name str = (name, Some (Txt str), FC_WHITE)"

definition pushymd :: "string \<Rightarrow> int \<Rightarrow> field_write" where
  "pushymd name ymd = pushstr name (ymd_text ymd)"

definition pushhms :: "string \<Rightarrow> int \<Rightarrow> field_write" where
  "pushhms name hms = pushstr name (hms_text hms)"

definition pushint :: "string \<Rightarrow> int \<Rightarrow> field_write" where
  "pushint name val = (name, Some (Grouped val), FC_WHITE)"

definition pushlng :: "string \<Rightarrow> u32 \<Rightarrow> field_write" where
  "pushlng name val = (name, Some (Grouped (uint val)), FC_WHITE)"

definition pushksttime :: "string \<Rightarrow> time_t \<Rightarrow> field_write" where
  "pushksttime name time_info = (name, Some (KstTime (time_info + 60 * 60 * 9)), FC_WHITE)"

definition pushlocaltime :: "string \<Rightarrow> time_t \<Rightarrow> field_write" where
  "pushlocaltime name time_info = (name, Some (LocalTime time_info), FC_WHITE)"

definition pushprc :: "VIEW \<Rightarrow> STYLE \<Rightarrow> string \<Rightarrow> double \<Rightarrow> field_write" where
  "pushprc v st name val = (name, editprc v st val False, FC_WHITE)"

definition pushchk :: "VIEW \<Rightarrow> STYLE \<Rightarrow> string \<Rightarrow> double \<Rightarrow> field_write" where
  "pushchk v st name val = (name, editprc v st val False,
     if val > base st \<and> base st \<noteq> 0 then FC_RED else if val < base st \<and> base st \<noteq> 0 then FC_GREEN else FC_WHITE)"

definition pushdept :: "VIEW \<Rightarrow> STYLE \<Rightarrow> string \<Rightarrow> double \<Rightarrow> field_write" where
  "pushdept v st name val = (name, editprc v st val True,
     if val > base st then FC_RED else if val < base st then FC_GREEN else FC_WHITE)"

text \<open>The choice between the two clocks.\<close>

definition pushtime :: "VIEW \<Rightarrow> string \<Rightarrow> time_t \<Rightarrow> field_write" where
  "pushtime v name t = (if kst4time v then pushksttime name t else pushlocaltime name t)"

text \<open>The name of a field in row \<open>seqn\<close>.\<close>

definition field_name :: "string \<Rightarrow> int \<Rightarrow> string" where
  "field_name name seqn = (if seqn < 0 then name else name @ pad0 3 seqn)"

text \<open>What is drawn: a field (with its colour and whether the change is real-time), a heading, a line
  inserted, the screen cleared from a line on.\<close>

datatype draw =
    PushFld string shown int nat
  | Str2Fld string string
  | InsLine nat nat
  | ClrEos nat

definition push_fields :: "nat \<Rightarrow> int \<Rightarrow> field_write list \<Rightarrow> draw list option" where
  "push_fields kind seqn ws =
     those (map (\<lambda>(name, txt, color). map_option (\<lambda>t. PushFld (field_name name seqn) t color kind) txt) ws)"

subsection \<open>Names of codes\<close>

definition status_names :: "(int \<times> string) list" where
  "status_names = [
    (0, ''Resume''), (1, ''Trading halt''), (2, ''Opening Delay''), (3, ''No open / No resume''),
    (5, ''Early''), (6, ''Late''), (10, ''Short Sale Restriction Activated (Day 1)''),
    (11, ''Short Sale Restriction Continued (Day 2)''), (12, ''Short Sale Restriction Deactivated''),
    (13, ''Opened''), (14, ''Pre-opening''), (15, ''Closed''), (17, ''Price Indication''),
    (18, ''Pre-Opening Price Indication'')]"

definition styp_names :: "(int \<times> string) list" where
  "styp_names = [
    (0, ''UNDEFINED''), (256, ''EQUITY''), (257, ''COMMON_STOCK''), (258, ''PREFERRED_STOCK''),
    (260, ''WARRANT''), (264, ''PREMIUM''), (268, ''TRUST''), (270, ''RIGHT''), (271, ''WARRANT_RIGHT''),
    (512, ''INDEX''), (768, ''UNIT''), (1024, ''COMMODITY''), (1025, ''FUTURE_SPREAD''),
    (1280, ''FUTURE''), (1290, ''FORWARD''), (1306, ''SPOT''), (1536, ''DEPOSITORY_RECEIPT''),
    (2048, ''OPTION''), (2049, ''OPTION SPREAD''), (2304, ''EQUITY_OPTION''), (2560, ''INDEX_OPTION''),
    (2816, ''BINARY_OPTION''), (3328, ''COMMERCIAL_PAPER''), (3072, ''FUTURE_OPTION''),
    (3584, ''LIMITED_PARTNERSHIP''), (3840, ''NOTE''), (4096, ''FIXED_INCOME''), (4097, ''BOND''),
    (4098, ''CONVERTIBLE_BOND''), (4099, ''MORTGAGE_BACKED_SECURITY''), (4100, ''GOV_BOND''),
    (4104, ''CORP_BOND''), (4112, ''US_AGENCY_BOND''), (4128, ''TREASURY_BILL''),
    (4160, ''US_TREASURY_COUPON''), (4224, ''MONEY_MARKET''), (4352, ''CD''),
    (5000, ''STRUCTURED_PRODUCT''), (8192, ''MUTUAL_FUND''), (5102, ''INTEREST_RATE_SWAP''),
    (5104, ''FX_SWAP''), (5106, ''CREDIT_DEFAULT_SWAP''), (5108, ''ASSET_SWAP''),
    (5110, ''FUTURES_SWAP''), (5112, ''TOTAL_RETURN_SWAP''), (5194, ''SEC_144A''),
    (8193, ''EXCHANGE_TRADED_FUND''), (8194, ''EXCHANGE_TRADED_NOTE''), (8196, ''CLOSED_END_FUND''),
    (8200, ''REIT''), (16384, ''FOREX''), (16385, ''FOREX_FRA''), (16386, ''FOREX_DEPOSIT''),
    (17408, ''FOREX_FORWARD''), (18432, ''FOREX_OPTION''), (20480, ''STATISTICS''), (65520, ''ADMIN''),
    (65534, ''TEST''), (65535, ''MISCELLANEOUS'')]"

definition code_text :: "VIEW \<Rightarrow> (int \<times> string) list \<Rightarrow> int \<Rightarrow> string" where
  "code_text v tbl code =
     (if strcmp (view_exnm v) ''ENYS'' \<noteq> 0 then ''N/A''
      else case map_of tbl code of None \<Rightarrow> ''N/A'' | Some t \<Rightarrow> t @ ''('' @ show_int code @ '')'')"

definition get_status :: "VIEW \<Rightarrow> int \<Rightarrow> string" where
  "get_status v status_code = code_text v status_names status_code"

definition get_styp :: "VIEW \<Rightarrow> u32 \<Rightarrow> string" where
  "get_styp v styp = code_text v styp_names (uint styp)"

subsection \<open>The screens\<close>

definition board_fields :: "VIEW \<Rightarrow> FOLDER \<Rightarrow> field_write list" where
  "board_fields v folder =
     (let st = style_of (f_mstr folder); quot = f_quote folder
      in [pushstr ''SYMB'' (q_symb quot), pushstr ''HOST'' (f_hostname folder),
          pushchk v st ''OPEN'' (q_open quot), pushchk v st ''HIGH'' (q_high quot),
          pushchk v st ''LOW'' (q_low quot), pushchk v st ''LAST'' (q_last quot),
          pushlng ''TVOL'' (q_tvol quot), pushksttime ''QUOT_UTIM'' (q_updated_at quot)])"

text \<open>The composite screen: a trade (\<open>QUOT\<close>) or cancellation (\<open>CANC\<close>), a settlement, and the rest.\<close>

definition trade_fields :: "VIEW \<Rightarrow> STYLE \<Rightarrow> string \<Rightarrow> MDQUOT \<Rightarrow> field_write list" where
  "trade_fields v st p q =
     [pushchk v st (p @ ''_LAST'') (q_last q), pushint (p @ ''_TQTY'') (as_int (q_tqty q)),
      pushlng (p @ ''_TVOL'') (q_tvol q), pushchk v st (p @ ''_OPEN'') (q_open q),
      pushchk v st (p @ ''_HIGH'') (q_high q), pushchk v st (p @ ''_LOW'') (q_low q),
      pushtime v (p @ ''_OTIM'') (q_open_time q), pushtime v (p @ ''_HTIM'') (q_high_time q),
      pushtime v (p @ ''_LTIM'') (q_low_time q), pushtime v (p @ ''_UTIM'') (q_updated_at q)]"

definition settle_fields :: "VIEW \<Rightarrow> STYLE \<Rightarrow> string \<Rightarrow> MDQUOT \<Rightarrow> field_write list" where
  "settle_fields v st x q =
     [pushprc v st (''SETT_PRIC_'' @ x) (q_last q), pushlng (''SETT_TVOL_'' @ x) (q_tvol q),
      pushprc v st (''SETT_OPEN_'' @ x) (q_open q), pushprc v st (''SETT_HIGH_'' @ x) (q_high q),
      pushprc v st (''SETT_LOW_'' @ x) (q_low q), pushtime v (''SETT_UTIM_'' @ x) (q_updated_at q)]"

text \<open>
  \<^verbatim>\<open>volm\<close> is a pointer to a quote record but points to the depth record. What the members of a
  quote are in the memory of a depth record: \<^verbatim>\<open>culmvol\<close> and \<^verbatim>\<open>prevvol\<close> are the two quantities of the
  seventh bid, \<^verbatim>\<open>date\<close> the second quantity of the ninth ask, and \<^verbatim>\<open>updated_at\<close> the price of the eighth bid.
\<close>

definition volm_fields :: "VIEW \<Rightarrow> MDDEPT \<Rightarrow> field_write list" where
  "volm_fields v dept =
     [pushint ''VOLM_CULM'' (as_int (b_total (d_bid dept ! 6))),
      pushint ''VOLM_PREV'' (as_int (b_qtqy (d_bid dept ! 6))),
      pushymd ''VOLM_DATE'' (as_int (b_qtqy (d_ask dept ! 8))),
      pushtime v ''VOLM_UTIM'' (v_bits v (b_price (d_bid dept ! 7)))]"

definition quote_fields :: "VIEW \<Rightarrow> FOLDER \<Rightarrow> field_write list" where
  "quote_fields v folder =
     (let mstr = f_mstr folder; st = style_of mstr; settle = f_settle folder; close = f_close folder;
          oint = f_oint folder; mavg = f_mavg folder; offi = f_offi folder; ware = f_ware folder; status = f_status folder
      in [pushstr ''MAST_SYMB'' (m_symb mstr), pushint ''MAST_MAIN_F'' (m_main_f mstr),
          pushint ''MAST_SUB_F'' (m_sub_f mstr), pushint ''MAST_ZDIV'' (m_zdiv mstr),
          pushtime v ''MAST_UTIM'' (m_updated_at mstr), pushtime v ''MAST_CTIM'' (m_created_at mstr)]
       @ trade_fields v st ''QUOT'' (f_quote folder) @ trade_fields v st ''CANC'' (f_cancel folder)
       @ settle_fields v st ''A1'' (settle ! 0) @ settle_fields v st ''B1'' (settle ! 1)
       @ settle_fields v st ''A2'' (settle ! 2) @ settle_fields v st ''B2'' (settle ! 3)
       @ [pushprc v st ''CLOS_PRIC'' (q_last close), pushlng ''CLOS_TVOL'' (q_tvol close),
          pushprc v st ''CLOS_OPEN'' (q_open close), pushprc v st ''CLOS_HIGH'' (q_high close),
          pushprc v st ''CLOS_LOW'' (q_low close), pushtime v ''CLOS_UTIM'' (q_updated_at close),
          pushint ''OINT_OPIN'' (as_int (q_tvol oint)), pushtime v ''OINT_UTIM'' (q_updated_at oint),
          pushprc v st ''MAVG_PBID'' (q_pbid mavg), pushprc v st ''MAVG_PASK'' (q_pask mavg),
          pushymd ''MAVG_DATE'' (as_int (q_date mavg)), pushtime v ''MAVG_UTIM'' (q_updated_at mavg),
          pushprc v st ''OFFI_UOFFIB'' (q_uoffi_b offi), pushprc v st ''OFFI_UOFFIS'' (q_uoffi_s offi),
          pushprc v st ''OFFI_OFFIB'' (q_offi_b offi), pushprc v st ''OFFI_OFFIS'' (q_offi_s offi),
          pushtime v ''OFFI_UTIM'' (q_updated_at offi),
          pushint ''WARE_WINCDAY'' (q_wincday ware), pushint ''WARE_WOUTCDAY'' (q_woutcday ware),
          pushint ''WARE_WOPEN'' (q_wopen ware), pushint ''WARE_WCLOSE'' (q_wclose ware),
          pushint ''WARE_WCHG'' (q_wchg ware), pushint ''WARE_WWCLOS'' (q_wwclos ware),
          pushint ''WARE_WWCANL'' (q_wwcanl ware), pushtime v ''WARE_UTIM'' (q_updated_at offi)]
       @ volm_fields v (f_depth folder)
       @ [pushymd ''STAT_BSDT'' (as_int (s_bsdt status)), pushstr ''STAT_STATUS'' (get_status v (s_status status)),
          pushtime v ''STAT_UTIM'' (s_updated_at status)])"

text \<open>One side of one line of the book; the asks are shown from the tenth level down.\<close>

definition book_fields :: "VIEW \<Rightarrow> STYLE \<Rightarrow> string \<Rightarrow> BBOOK \<Rightarrow> field_write list" where
  "book_fields v st side b =
     (if b_total b \<noteq> 0 then
        [pushdept v st (side @ ''_PRICE'') (b_price b), pushint (side @ ''_TOTAL'') (as_int (b_total b)),
         if b_qtqy b \<noteq> 0 then pushint (side @ ''_QTQY'') (as_int (b_qtqy b)) else pushstr (side @ ''_QTQY'') '' '']
      else [pushstr (side @ ''_PRICE'') '' '', pushstr (side @ ''_TOTAL'') '' '', pushstr (side @ ''_QTQY'') '' ''])"

definition book_line :: "VIEW \<Rightarrow> STYLE \<Rightarrow> MDDEPT \<Rightarrow> nat \<Rightarrow> field_write list" where
  "book_line v st dept ii =
     book_fields v st ''ASK'' (d_ask dept ! (9 - ii)) @ book_fields v st ''BID'' (d_bid dept ! ii)"

text \<open>The line of the tick list.\<close>

definition tick_fields :: "VIEW \<Rightarrow> STYLE \<Rightarrow> string \<Rightarrow> MDQUOT \<Rightarrow> field_write list" where
  "tick_fields v st p q =
     [pushhms (p @ ''.XHMS'') (uint (q_trtm q div 1000000)), pushchk v st (p @ ''.LAST'') (q_last q),
      pushint (p @ ''.TQTY'') (as_int (q_tqty q)), pushlng (p @ ''.TVOL'') (q_tvol q),
      pushchk v st (p @ ''.OPEN'') (q_open q), pushchk v st (p @ ''.HIGH'') (q_high q),
      pushchk v st (p @ ''.LOW'') (q_low q)]"

definition master_fields :: "VIEW \<Rightarrow> FOLDER \<Rightarrow> field_write list" where
  "master_fields v folder =
     (let mstr = f_mstr folder; st = style_of mstr
      in [pushstr ''MSTR_SYMB'' (m_symb mstr), pushstr ''MSTR_DESC'' (m_symb_desc mstr),
          pushstr ''MSTR_ROOT'' (m_root mstr), pushstr ''MSTR_EXCH'' (m_exch_code mstr),
          pushstr ''MSTR_ISIN'' (m_isin mstr), pushstr ''MSTR_SEDO'' (m_sedo mstr),
          pushstr ''MSTR_CURR'' (m_curr mstr), pushstr ''MSTR_PROD'' (m_prod mstr),
          pushstr ''MSTR_OTYP'' (m_otyp mstr), pushprc v st ''MSTR_STRP'' (m_strp mstr),
          pushstr ''MSTR_STCU'' (m_stcu mstr), pushstr ''MSTR_UCOD'' (m_ucod mstr),
          pushint ''MSTR_OINT'' (as_int (m_oint mstr)), pushint ''MSTR_CVOL'' (as_int (m_cvol mstr)),
          pushstr ''MSTR_FLSM'' (m_flsm mstr), pushstr ''MSTR_SLSM'' (m_slsm mstr),
          pushymd ''MSTR_FLMY'' (as_int (m_flmy mstr * 100)), pushymd ''MSTR_SLMY'' (as_int (m_slmy mstr * 100)),
          pushstr ''MSTR_LEGS'' (m_legs mstr), pushstr ''MSTR_STYP'' (get_styp v (m_styp mstr)),
          pushymd ''MSTR_FTDT'' (as_int (m_ftdt mstr)), pushymd ''MSTR_LTDT'' (as_int (m_ltdt mstr)),
          pushymd ''MSTR_FDDT'' (as_int (m_fddt mstr)), pushymd ''MSTR_LDDT'' (as_int (m_fddt mstr)),
          pushymd ''MSTR_BSDT'' (as_int (m_bsdt mstr)), pushymd ''MSTR_PTDT'' (as_int (m_ptdt mstr)),
          pushymd ''MSTR_STDT'' (as_int (m_stdt mstr)), pushprc v st ''MSTR_LAST'' (m_last mstr),
          pushprc v st ''MSTR_SETP'' (m_setp mstr), pushprc v st ''MSTR_PINC'' (m_pinc mstr),
          pushprc v st ''MSTR_PMUL'' (m_pmul mstr), pushtime v ''MSTR_UTIM'' (m_updated_at mstr)])"

subsection \<open>The symbols on the screen\<close>

definition MAX_SYMB :: nat where "MAX_SYMB = 100"

record realq =
  rl_exnm     :: string
  rl_code     :: string
  rl_symb     :: string
  rl_hostname :: string
  rl_mask     :: mask_t
  rl_seqn     :: int

text \<open>\<^verbatim>\<open>rqsymb\<close>; \<open>None\<close> when a text does not fit its member.\<close>

definition rqsymb :: "VIEW \<Rightarrow> string \<Rightarrow> string \<Rightarrow> mask_t \<Rightarrow> int \<Rightarrow> realq list \<Rightarrow> realq list option" where
  "rqsymb v sy hostname mk seqn realque =
     (if length realque \<ge> MAX_SYMB \<or> mk = 0 \<or> sy = [] \<or> hostname = [] then Some realque
      else
        let code = push_symbol (view_exnm v) sy hostname
        in if length code \<ge> 40 \<or> length sy \<ge> 32 \<or> length hostname \<ge> 32 then None
           else Some (realque @ [\<lparr>rl_exnm = view_exnm v, rl_code = code, rl_symb = sy, rl_hostname = hostname,
                  rl_mask = (if delayed v then push_bit 16 mk else mk), rl_seqn = seqn\<rparr>]))"

subsection \<open>The update of a screen\<close>

text \<open>
  \<^verbatim>\<open>update\<close>: \<open>kind\<close> (the argument \<^verbatim>\<open>push\<close>) is 0 for a query, 1 for a quote and 2 for a depth that was pushed. The result is
  what is drawn and the symbols registered.
\<close>

text \<open>The book, in lines of its own.\<close>

definition book_draws :: "VIEW \<Rightarrow> FOLDER \<Rightarrow> nat \<Rightarrow> int \<Rightarrow> draw list option" where
  "book_draws v folder kind seqn = do {
     utim \<leftarrow> push_fields kind seqn [pushtime v ''DEPT_UTIM'' (d_updated_at (f_depth folder))];
     lines \<leftarrow> those (map (\<lambda>ii. push_fields kind (int ii)
                 (book_line v (style_of (f_mstr folder)) (f_depth folder) ii)) [0..<10]);
     Some (utim @ concat lines) }"

definition composite :: "VIEW \<Rightarrow> FOLDER \<Rightarrow> nat \<Rightarrow> int \<Rightarrow> draw list option" where
  "composite v folder kind seqn = do {
     let st = style_of (f_mstr folder);
     quotes \<leftarrow> (if kind = 0 \<or> kind = 1 then push_fields kind seqn (quote_fields v folder) else Some []);
     books \<leftarrow> (if kind = 0 \<or> kind = 2 then book_draws v folder kind seqn else Some []);
     tick \<leftarrow> (if kind = 1 then do {
         ds \<leftarrow> push_fields 0 0 (tick_fields v st ''T'' (f_quote folder) @ tick_fields v st ''C'' (f_cancel folder));
         Some (InsLine 40 1 # ds) } else Some []);
     Some (quotes @ books @ tick) }"

definition is_board :: "nat \<Rightarrow> bool" where
  "is_board what \<longleftrightarrow> what \<in> {100, 101, 102, 105, 106, 107, 109}"

definition update ::
    "VIEW \<Rightarrow> FOLDER \<Rightarrow> nat \<Rightarrow> nat \<Rightarrow> int \<Rightarrow> realq list \<Rightarrow> (draw list \<times> realq list) option" where
  "update v folder what kind seqn realque =
     (if is_board what then do {
        ds \<leftarrow> push_fields kind seqn (board_fields v folder);
        realque' \<leftarrow> (if kind = 0 then rqsymb v (q_symb (f_quote folder)) (f_hostname folder) PUSH_QUOT seqn realque
                    else Some realque);
        Some (ds, realque') }
      else if what = 200 then do {
        ds \<leftarrow> composite v folder kind seqn;
        if kind \<noteq> 0 then Some (ds, realque)
        else do {
          realque' \<leftarrow> rqsymb v (m_symb (f_mstr folder)) (f_hostname folder) (PUSH_QUOT OR PUSH_DEPT) seqn realque;
          Some (Str2Fld ''oNAME'' (m_symb_desc (f_mstr folder)) # ds @ [ClrEos 40], realque') } }
      else if what = 201 then do {
        ds \<leftarrow> push_fields kind seqn (master_fields v folder);
        Some ((if kind = 0 then [Str2Fld ''oNAME'' (m_symb_desc (f_mstr folder))] else []) @ ds, realque) }
      else Some ([], realque))"

subsection \<open>Prices in fractions\<close>

lemma two_digits_decimal: "k < 100 \<Longrightarrow> decimal (k div 10) @ decimal (k mod 10) = two_digits k"
  by (simp add: decimal.simps [of "k div 10"] decimal.simps [of "k mod 10"] two_digits_def digit_def)

lemma floor_parts:
  fixes f :: rat
  assumes "0 \<le> f" "f < 1" "k < n"
  shows "\<lfloor>of_nat i + (of_nat k + f) / of_nat n\<rfloor> = int i"
    and "(of_nat i + (of_nat k + f) / of_nat n - of_nat i) * of_nat n = of_nat k + f"
    and "\<lfloor>of_nat k + f\<rfloor> = int k"
    and "\<lfloor>(of_nat k + f) * 10\<rfloor> mod 10 = \<lfloor>10 * f\<rfloor>"
proof -
  have "of_nat k + f < (of_nat n :: rat)"
  proof -
    have "of_nat k + 1 \<le> (of_nat n :: rat)" using assms(3) by (metis Suc_leI of_nat_Suc of_nat_le_iff add.commute)
    with assms(2) show ?thesis by linarith
  qed
  then have "0 \<le> (of_nat k + f) / of_nat n" "(of_nat k + f) / of_nat n < 1" using assms by simp_all
  then show "\<lfloor>of_nat i + (of_nat k + f) / of_nat n\<rfloor> = int i" by linarith
  show "(of_nat i + (of_nat k + f) / of_nat n - of_nat i) * of_nat n = of_nat k + f" using assms(3) by simp
  show "\<lfloor>of_nat k + f\<rfloor> = int k" using assms by linarith
  have "\<lfloor>(of_nat k + f) * 10\<rfloor> = 10 * int k + \<lfloor>10 * f\<rfloor>"
    by (metis (no_types, opaque_lifting) add.commute distrib_right floor_add_int mult.commute of_int_mult of_int_numeral of_int_of_nat_eq)
  moreover have "0 \<le> \<lfloor>10 * f\<rfloor>" "\<lfloor>10 * f\<rfloor> < 10" using assms by (simp_all add: floor_less_iff)
  ultimately show "\<lfloor>(of_nat k + f) * 10\<rfloor> mod 10 = \<lfloor>10 * f\<rfloor>" by simp
qed

lemma fraction_text:
  assumes "\<not> display10 v" and n: "main_f st = int n" "n \<in> {16, 32, 64}"
    and parts: "i < 2 ^ 31" "k < n" "0 \<le> f" "f < 1" and s: "s = 1 \<or> s = - 1"
    and val: "val = s * (of_nat i + (of_nat k + f) / of_nat n)" "val \<noteq> 0"
  shows "editprc v st val flag = Some (Txt ((if s = 1 then [] else ''-'') @ decimal i @ [CHR 0x27] @ two_digits k @
    (if sub_f st = 1 then [] else [digit (nat \<lfloor>10 * f\<rfloor>)])))"
proof -
  note p = floor_parts [OF parts(3,4,2)]
  have abs: "\<bar>val\<bar> = of_nat i + (of_nat k + f) / of_nat n"
  proof -
    have "0 \<le> (of_nat k + f) / of_nat n" using parts(3) by simp
    with s val(1) show ?thesis by auto
  qed
  have "val = s * \<bar>val\<bar>" using abs val(1) by simp
  then have sign: "val > 0 \<longleftrightarrow> s = 1" using s val(2) by auto
  have whole: "\<lfloor>\<bar>val\<bar>\<rfloor> = int i" using p(1) abs by simp
  have part: "(\<bar>val\<bar> - of_int (int i)) * of_int (main_f st) = of_nat k + f"
    using p(2) abs n(1) by simp
  have bound: "\<not> 2 ^ 31 \<le> \<bar>(of_nat k + f) * 10\<bar>"
  proof -
    have "k < 64" using parts(2) n(2) by auto
    then have "of_nat k < (64 :: rat)" by (metis of_nat_less_iff of_nat_numeral)
    then show ?thesis using parts(3,4) by simp
  qed
  have "0 \<le> \<lfloor>10 * f\<rfloor>" "\<lfloor>10 * f\<rfloor> < 10" using parts by (simp_all add: floor_less_iff)
  then have C: "decimal (nat \<lfloor>10 * f\<rfloor>) = [digit (nat \<lfloor>10 * f\<rfloor>)]" by (intro decimal_digit) linarith
  have AB: "decimal (nat (int k div 10)) @ decimal (nat (int k mod 10)) = two_digits k"
    using two_digits_decimal [of k] parts(2) n(2) by (auto simp: nat_div_distrib nat_mod_distrib)
  have "main_f st \<noteq> 2" "main_f st \<noteq> 4" "main_f st \<noteq> 8" "main_f st = 16 \<or> main_f st = 32 \<or> main_f st = 64"
    using n by auto
  moreover have "\<not> 2 ^ 31 \<le> int i" using parts(1) by simp
  ultimately show ?thesis
    using assms(1) val(2) AB [symmetric] C bound
    unfolding editprc_def Let_def whole part p(3,4) fraction_def sign
    by simp
qed

text \<open>
  A price in fractions is shown exactly. For a future quoted in 16ths, 32nds or 64ths, the price
  of \<open>i\<close> and \<open>k\<close> of these and a part \<open>f\<close> of one is shown as \<open>i\<close>, a quote, \<open>k\<close> with two digits and, unless
  the sub-fraction is 1, the first decimal of \<open>f\<close>; a negative price has a minus in front.
\<close>

theorem fraction_shown:
  assumes "\<not> display10 v" and n: "main_f st = int n" "n \<in> {16, 32, 64}"
    and parts: "i < 2 ^ 31" "k < n" "0 \<le> f" "f < 1" and s: "s = 1 \<or> s = - 1"
    and val: "val = s * (of_nat i + (of_nat k + f) / of_nat n)" "val \<noteq> 0"
  shows "editprc v st val flag = Some (Txt ((if s = 1 then [] else ''-'') @ decimal i @ [CHR 0x27] @ two_digits k @
    (if sub_f st = 1 then [] else [digit (nat \<lfloor>10 * f\<rfloor>)])))"
  using assms by (rule fraction_text)

theorem fraction_shown_witness:
  "editprc \<lparr>display10 = False, kst4time = False, delayed = False, view_exnm = ''FCME'', v_bits = (\<lambda>_. 0)\<rparr>
     \<lparr>main_f = 32, sub_f = 2, zdiv = 0, base = 0\<rparr> (110 + (16 + 1 / 2) / 32) False =
     Some (Txt (''110'' @ [CHR 0x27] @ ''165''))"
proof -
  have "decimal 110 = ''110''" "two_digits 16 = ''16''" "digit 5 = CHR ''5''" by code_simp+
  then show ?thesis
    using fraction_shown [of "\<lparr>display10 = False, kst4time = False, delayed = False, view_exnm = ''FCME'', v_bits = (\<lambda>_. 0)\<rparr>"
        "\<lparr>main_f = 32, sub_f = 2, zdiv = 0, base = 0\<rparr>" 32 110 16 "1 / 2" 1 "110 + (16 + 1 / 2) / 32" False]
    by simp
qed

subsection \<open>What a query and a refresh show\<close>

text \<open>
  The text and colour that were last given to each named field by a list of drawing operations. This
  is not the terminal: \<^verbatim>\<open>insline\<close> and \<^verbatim>\<open>clreos\<close> give no field a text, and what they do to the rows of
  the terminal and its copy is the subject of the theories of the screen library.
\<close>

type_synonym given = "string \<rightharpoonup> shown \<times> int"

fun last_given1 :: "draw \<Rightarrow> given \<Rightarrow> given" where
  "last_given1 (PushFld name t color kind) scr = scr(name \<mapsto> (t, color))"
| "last_given1 (Str2Fld name t) scr = scr(name \<mapsto> (Txt t, 0))"
| "last_given1 (InsLine row n) scr = scr"
| "last_given1 (ClrEos row) scr = scr"

definition last_given :: "draw list \<Rightarrow> given \<Rightarrow> given" where
  "last_given ds scr = List.fold last_given1 ds scr"

lemma last_given_simps [simp]:
  "last_given [] scr = scr" "last_given (d # ds) scr = last_given ds (last_given1 d scr)" "last_given (as @ bs) scr = last_given bs (last_given as scr)"
  by (simp_all add: last_given_def)

text \<open>The fields of a drawing.\<close>

fun drawn :: "draw \<Rightarrow> string set" where
  "drawn (PushFld name t color kind) = {name}"
| "drawn (Str2Fld name t) = {name}"
| "drawn d = {}"

lemma last_given1_cong: "scr n = scr' n \<Longrightarrow> last_given1 d scr n = last_given1 d scr' n"
  by (cases d) simp_all

lemma last_given_cong: "scr n = scr' n \<Longrightarrow> last_given ds scr n = last_given ds scr' n"
proof (induction ds arbitrary: scr scr')
  case (Cons d ds)
  have "last_given1 d scr n = last_given1 d scr' n" by (rule last_given1_cong) (rule Cons.prems)
  then have "last_given ds (last_given1 d scr) n = last_given ds (last_given1 d scr') n" by (rule Cons.IH)
  then show ?case by simp
qed simp

lemma last_given_other: "\<forall>d\<in>set ds. n \<notin> drawn d \<Longrightarrow> last_given ds scr n = scr n"
proof (induction ds arbitrary: scr)
  case (Cons d ds)
  moreover have "last_given1 d scr n = scr n" using Cons.prems by (cases d) auto
  ultimately show ?case by simp
qed simp

text \<open>The fields written do not depend on the kind of update, but for the mark on each.\<close>

definition mark :: "nat \<Rightarrow> draw \<Rightarrow> draw" where
  "mark kind d = (case d of PushFld name t color _ \<Rightarrow> PushFld name t color kind | _ \<Rightarrow> d)"

lemma last_given1_mark [simp]: "last_given1 (mark kind d) = last_given1 d"
  by (cases d) (simp_all add: mark_def fun_eq_iff)

lemma last_given_mark [simp]: "last_given (map (mark kind) ds) scr = last_given ds scr"
  by (induction ds arbitrary: scr) simp_all

lemma those_map_eq: "those (map (\<lambda>x. map_option (g x) (f x)) xs) =
    (if \<forall>x\<in>set xs. f x \<noteq> None then Some (map (\<lambda>x. g x (the (f x))) xs) else None)"
  by (induction xs) (auto split: option.splits)

lemma push_fields_eq: "push_fields kind seqn ws =
    (if \<forall>(name, t, color)\<in>set ws. t \<noteq> None
     then Some (map (\<lambda>(name, t, color). PushFld (field_name name seqn) (the t) color kind) ws) else None)"
proof -
  have "push_fields kind seqn ws =
      those (map (\<lambda>x. map_option (\<lambda>t. PushFld (field_name (fst x) seqn) t (snd (snd x)) kind) (fst (snd x))) ws)"
    unfolding push_fields_def by (rule arg_cong [where f = those]) auto
  then show ?thesis by (simp add: those_map_eq case_prod_beta cong: if_cong)
qed

lemma push_fields_mark: "push_fields kind seqn ws = map_option (map (mark kind)) (push_fields 0 seqn ws)"
  by (auto simp: push_fields_eq mark_def)

lemma push_fields_names:
  "push_fields kind seqn ws = Some ds \<Longrightarrow> d \<in> set ds \<Longrightarrow> drawn d \<subseteq> (\<lambda>w. field_name (fst w) seqn) ` set ws"
  by (force simp: push_fields_eq split: if_splits)

lemma those_map_option: "those (map (\<lambda>x. map_option g (h x)) xs) = map_option (map g) (those (map h xs))"
  by (induction xs) (auto simp: option.map_comp comp_def split: option.splits)

lemma book_draws_mark: "book_draws v folder kind seqn = map_option (map (mark kind)) (book_draws v folder 0 seqn)"
proof -
  have "book_draws v folder kind seqn =
      (case push_fields 0 seqn [pushtime v ''DEPT_UTIM'' (d_updated_at (f_depth folder))] of None \<Rightarrow> None
       | Some utim \<Rightarrow> (case those (map (\<lambda>ii. push_fields 0 (int ii)
             (book_line v (style_of (f_mstr folder)) (f_depth folder) ii)) [0..<10]) of None \<Rightarrow> None
           | Some lines \<Rightarrow> Some (map (mark kind) (utim @ concat lines))))"
    unfolding book_draws_def
    by (subst (1 2) push_fields_mark) (simp add: those_map_option map_concat bind_map_option comp_def
        split: option.split bind_splits del: upt_Suc)
  then show ?thesis by (simp add: book_draws_def split: option.split bind_splits del: upt_Suc)
qed

lemma composite_parts:
  "composite v folder 0 seqn = do {
     quotes \<leftarrow> push_fields 0 seqn (quote_fields v folder);
     books \<leftarrow> book_draws v folder 0 seqn;
     Some (quotes @ books) }"
  "composite v folder 1 seqn = do {
     quotes \<leftarrow> push_fields 1 seqn (quote_fields v folder);
     ds \<leftarrow> push_fields 0 0 (tick_fields v (style_of (f_mstr folder)) ''T'' (f_quote folder) @
            tick_fields v (style_of (f_mstr folder)) ''C'' (f_cancel folder));
     Some (quotes @ InsLine 40 1 # ds) }"
  "composite v folder 2 seqn = book_draws v folder 2 seqn"
  by (simp_all add: composite_def Let_def)

text \<open>Lists of field writes and the book write fields only.\<close>

lemma drawn_mark [simp]: "drawn (mark kind d) = drawn d"
  by (cases d) (simp_all add: mark_def)

lemma fields_only: "push_fields kind seqn ws = Some ds \<Longrightarrow> filter (\<lambda>d. drawn d = {}) ds = []"
  by (auto simp: push_fields_eq filter_empty_conv split: if_splits)

lemma those_Some_iff: "those xs = Some ys \<longleftrightarrow> xs = map Some ys"
  by (induction xs arbitrary: ys) (auto split: option.splits)

lemma book_fields_only:
  assumes "book_draws v folder kind seqn = Some ds"
  shows "filter (\<lambda>d. drawn d = {}) ds = []"
proof -
  obtain utim lines where u: "push_fields kind seqn [pushtime v ''DEPT_UTIM'' (d_updated_at (f_depth folder))] = Some utim"
    and l: "those (map (\<lambda>ii. push_fields kind (int ii)
      (book_line v (style_of (f_mstr folder)) (f_depth folder) ii)) [0..<10]) = Some lines"
    and ds: "ds = utim @ concat lines"
    using assms unfolding book_draws_def by (auto split: bind_splits)
  have "filter (\<lambda>d. drawn d = {}) x = []" if "x \<in> set lines" for x
  proof -
    have "Some x \<in> set (map Some lines)" using that by simp
    then show ?thesis
      unfolding l [unfolded those_Some_iff, symmetric] by (auto dest!: sym [of "Some x"] fields_only)
  qed
  then have "filter (\<lambda>d. drawn d = {}) (concat lines) = []" by (simp add: filter_concat)
  with fields_only [OF u] show ?thesis by (simp add: ds)
qed

text \<open>The tick list shows prices that the screen shows anyway.\<close>

lemma tick_defined:
  assumes "push_fields 0 seqn (quote_fields v folder) = Some q"
  obtains t where "push_fields 0 0 (tick_fields v (style_of (f_mstr folder)) ''T'' (f_quote folder) @
      tick_fields v (style_of (f_mstr folder)) ''C'' (f_cancel folder)) = Some t"
    and "\<forall>d\<in>set t. \<forall>n\<in>drawn d. take 2 n = ''T.'' \<or> take 2 n = ''C.''"
proof -
  have d: "\<forall>(name, t, color)\<in>set (quote_fields v folder). t \<noteq> None"
    using assms by (auto simp: push_fields_eq split: if_splits)
  have "\<forall>(name, t, color)\<in>set (trade_fields v (style_of (f_mstr folder)) ''QUOT'' (f_quote folder)). t \<noteq> None"
    "\<forall>(name, t, color)\<in>set (trade_fields v (style_of (f_mstr folder)) ''CANC'' (f_cancel folder)). t \<noteq> None"
    using d by (auto simp: quote_fields_def Let_def)
  then have "\<forall>(name, t, color)\<in>set (tick_fields v (style_of (f_mstr folder)) ''T'' (f_quote folder) @
      tick_fields v (style_of (f_mstr folder)) ''C'' (f_cancel folder)). t \<noteq> None"
    by (simp add: trade_fields_def tick_fields_def pushchk_def pushint_def pushlng_def pushhms_def pushstr_def)
  then obtain t where t: "push_fields 0 0 (tick_fields v (style_of (f_mstr folder)) ''T'' (f_quote folder) @
      tick_fields v (style_of (f_mstr folder)) ''C'' (f_cancel folder)) = Some t"
    by (auto simp: push_fields_eq)
  have "take 2 n = ''T.'' \<or> take 2 n = ''C.''" if "d \<in> set t" "n \<in> drawn d" for d n
    using push_fields_names [OF t that(1)] that(2)
    by (auto simp: tick_fields_def pushchk_def pushint_def pushlng_def pushhms_def pushstr_def field_name_def)
  with t show thesis by (intro that) auto
qed

text \<open>
  C25. A refresh writes what a query writes. Take a composite screen whose symbol has been queried, and
  let later a pushed quote and a pushed depth of the same folder come in. Whatever the fields were given
  before, afterwards the text and colour last given to every field but the name \<open>oNAME\<close> (which only a
  query writes) and the fields of the tick list (which only a refresh writes) are those a new query
  gives it. Neither registers a symbol again, and beside fields the refreshes only insert the one line
  of the tick list; what that insertion does to the rows of the terminal is not part of this.
\<close>

theorem refresh_is_query:
  assumes "update v folder 200 0 seqn realque = Some (ds, realque')"
  shows "\<exists>ds1 ds2. update v folder 200 1 seqn realque = Some (ds1, realque) \<and>
    update v folder 200 2 seqn realque = Some (ds2, realque) \<and>
    (\<forall>scr n. n \<noteq> ''oNAME'' \<and> take 2 n \<noteq> ''T.'' \<and> take 2 n \<noteq> ''C.'' \<longrightarrow>
       last_given (ds1 @ ds2) scr n = last_given ds scr n) \<and>
    filter (\<lambda>d. drawn d = {}) (ds1 @ ds2) = [InsLine 40 1]"
proof -
  obtain q b where q: "push_fields 0 seqn (quote_fields v folder) = Some q"
    and b: "book_draws v folder 0 seqn = Some b"
    and ds: "ds = Str2Fld ''oNAME'' (m_symb_desc (f_mstr folder)) # (q @ b) @ [ClrEos 40]"
    using assms by (auto simp: update_def is_board_def composite_parts split: bind_splits if_splits)
  obtain t where t: "push_fields 0 0 (tick_fields v (style_of (f_mstr folder)) ''T'' (f_quote folder) @
      tick_fields v (style_of (f_mstr folder)) ''C'' (f_cancel folder)) = Some t"
    and names: "\<forall>d\<in>set t. \<forall>n\<in>drawn d. take 2 n = ''T.'' \<or> take 2 n = ''C.''"
    by (rule tick_defined [OF q])
  have "push_fields 1 seqn (quote_fields v folder) = Some (map (mark 1) q)"
    using q by (subst push_fields_mark) simp
  then have u1: "update v folder 200 1 seqn realque = Some (map (mark 1) q @ InsLine 40 1 # t, realque)"
    using t by (simp add: update_def is_board_def composite_parts [unfolded One_nat_def])
  have u2: "update v folder 200 2 seqn realque = Some (map (mark 2) b, realque)"
    using b by (simp add: update_def is_board_def composite_parts) (subst book_draws_mark, simp)
  have "last_given ((map (mark 1) q @ InsLine 40 1 # t) @ map (mark 2) b) scr n = last_given ds scr n"
    if "n \<noteq> ''oNAME''" "take 2 n \<noteq> ''T.''" "take 2 n \<noteq> ''C.''" for scr n
  proof -
    have "last_given t (last_given q scr) n = last_given q scr n" by (rule last_given_other) (use names that in blast)
    also have "\<dots> = last_given q (last_given1 (Str2Fld ''oNAME'' (m_symb_desc (f_mstr folder))) scr) n"
      by (rule last_given_cong) (use that in simp)
    finally have "last_given b (last_given t (last_given q scr)) n = last_given b (last_given q (last_given1 (Str2Fld ''oNAME'' (m_symb_desc (f_mstr folder))) scr)) n"
      by (rule last_given_cong)
    then show ?thesis by (simp add: ds)
  qed
  moreover have "filter (\<lambda>d. drawn d = {}) ((map (mark 1) q @ InsLine 40 1 # t) @ map (mark 2) b) = [InsLine 40 1]"
    using fields_only [OF q] fields_only [OF t] book_fields_only [OF b] by (simp add: filter_map comp_def)
  ultimately show ?thesis using u1 u2 by blast
qed

definition view0 :: VIEW where
  "view0 = \<lparr>display10 = False, kst4time = True, delayed = False, view_exnm = ''FCME'', v_bits = (\<lambda>_. 0)\<rparr>"

definition folder1 :: FOLDER where
  "folder1 = fold0\<lparr>f_symb := ''A'', f_hostname := ''H'',
     f_mstr := mstr0\<lparr>m_symb := ''A'', m_main_f := 32, m_sub_f := 2\<rparr>,
     f_quote := quot0\<lparr>q_symb := ''A'', q_last := 1 / 2\<rparr>\<rparr>"

lemma zero_price [simp]: "editprc v st 0 False = Some (Txt '' '')"
  by (simp add: editprc_def)

lemma folder1_shown: "\<exists>ds realque'. update view0 folder1 200 0 (-1) [] = Some (ds, realque')"
proof -
  have "editprc view0 (style_of (f_mstr folder1)) (1 / 2) False = Some (Txt (decimal 0 @ [CHR 0x27] @ two_digits 16 @ [digit 0]))"
  proof -
    have "\<not> display10 view0" by (simp add: view0_def)
    moreover have "main_f (style_of (f_mstr folder1)) = int 32" "sub_f (style_of (f_mstr folder1)) = 2"
      by (simp_all add: style_of_def folder1_def mstr0_def)
    ultimately show ?thesis
      using fraction_text [of view0 "style_of (f_mstr folder1)" 32 0 16 0 1 "1 / 2" False] by simp
  qed
  moreover have "q_open quot = 0 \<and> q_high quot = 0 \<and> q_low quot = 0 \<and> q_last quot = (if quot = f_quote folder1 then 1 / 2 else 0)"
    if "quot \<in> {f_quote folder1, f_cancel folder1, f_settle folder1 ! 0, f_settle folder1 ! 1, f_settle folder1 ! 2,
      f_settle folder1 ! 3, f_close folder1}" for quot
    using that by (auto simp: folder1_def fold0_def quot0_def)
  moreover have "q_pbid (f_mavg folder1) = 0" "q_pask (f_mavg folder1) = 0" "q_uoffi_b (f_offi folder1) = 0"
    "q_uoffi_s (f_offi folder1) = 0" "q_offi_b (f_offi folder1) = 0" "q_offi_s (f_offi folder1) = 0"
    by (simp_all add: folder1_def fold0_def quot0_def)
  ultimately have "push_fields 0 (-1) (quote_fields view0 folder1) \<noteq> None"
    by (simp add: push_fields_eq quote_fields_def trade_fields_def settle_fields_def volm_fields_def Let_def
        pushchk_def pushint_def pushlng_def pushprc_def pushstr_def pushymd_def pushtime_def pushksttime_def view0_def)
  moreover have "book_draws view0 folder1 0 (-1) \<noteq> None"
    by (simp add: book_draws_def push_fields_eq book_line_def book_fields_def pushstr_def pushtime_def
        pushksttime_def view0_def folder1_def fold0_def dept0_def book0_def DEPTH_LEVEL_def upt_rec)
  moreover have "rqsymb view0 ''A'' ''H'' (PUSH_QUOT OR PUSH_DEPT) (-1) [] \<noteq> None"
    by (simp add: rqsymb_def push_symbol_def view0_def MAX_SYMB_def Let_def)
  ultimately show ?thesis
    by (auto simp: update_def is_board_def composite_parts) (simp add: folder1_def)
qed

theorem refresh_is_query_witness:
  "\<exists>ds ds1 ds2 realque'. update view0 folder1 200 0 (-1) [] = Some (ds, realque') \<and>
    update view0 folder1 200 1 (-1) [] = Some (ds1, []) \<and> update view0 folder1 200 2 (-1) [] = Some (ds2, []) \<and>
    last_given (ds1 @ ds2) Map.empty ''QUOT_LAST'' = last_given ds Map.empty ''QUOT_LAST''"
proof -
  obtain ds realque' where u: "update view0 folder1 200 0 (-1) [] = Some (ds, realque')"
    using folder1_shown by blast
  from refresh_is_query [OF u] show ?thesis using u by force
qed

subsection \<open>What is never shown\<close>

text \<open>
  Three members that no screen shows. The volume summary (\<^verbatim>\<open>T63\<close>) is looked for in the depth
  record, the last delivery date is replaced by the first, and the time of the warehouse report by
  that of the official prices: whatever these members hold, the same is drawn and registered.
\<close>

theorem never_shown:
  "update v (folder\<lparr>f_volm := x\<rparr>) what kind seqn realque = update v folder what kind seqn realque \<and>
   update v (folder\<lparr>f_mstr := (f_mstr folder)\<lparr>m_lddt := d\<rparr>\<rparr>) what kind seqn realque = update v folder what kind seqn realque \<and>
   update v (folder\<lparr>f_ware := (f_ware folder)\<lparr>q_updated_at := t\<rparr>\<rparr>) what kind seqn realque =
     update v folder what kind seqn realque"
  by (simp add: update_def composite_def book_draws_def board_fields_def quote_fields_def master_fields_def
      style_of_def Let_def)

text \<open>The hour of the tick list is always 0: the time in microseconds is kept in 32 bits.\<close>

lemma tick_hour: "\<exists>rest. hms_text (uint (trtm div 1000000 :: u32)) = ''00:'' @ rest"
proof -
  have "uint (trtm div 1000000) = uint trtm div 1000000" by (simp add: uint_div_distrib)
  moreover have "uint trtm div 1000000 < 10000" using uint_lt2p [of trtm] by simp
  moreover have "0 \<le> uint (trtm div 1000000)" by simp
  ultimately have "0 \<le> uint (trtm div 1000000)" "uint (trtm div 1000000) < 10000" by linarith+
  then have "uint (trtm div 1000000) sdiv 10000 = 0" by (simp add: signed_divide_int_def)
  moreover have "pad0 2 0 = ''00''" by code_simp
  ultimately show ?thesis by (simp add: hms_text_def)
qed

text \<open>A row of the board whose folder has not had a quote yet is not registered for refreshes.\<close>

lemma unquoted_row_deaf:
  assumes "update v folder what 0 seqn realque = Some (ds, realque')" "is_board what" "q_symb (f_quote folder) = []"
  shows "realque' = realque"
  using assms by (auto simp: update_def rqsymb_def split: bind_splits if_splits)

end
