(* ===== verification/Viewer.thy ===== *)
theory Viewer
  imports Display ConfigSwitch
begin

unbundle bit_operations_syntax

text \<open>
  The viewer's queries and its real-time refresh: \<^verbatim>\<open>src/quot/query.c\<close> and \<^verbatim>\<open>src/quot/realtime.c\<close>.
  A query opens the exchange, shows a symbol or a page of the board and sends the symbols on the
  screen to the push broker; a message that comes back updates the rows of its symbol.

  \<open>VIEWER\<close> holds the static and global variables. What \<^verbatim>\<open>fep_open\<close> answers for an exchange is an
  argument (\<open>opn\<close>); the effects on the terminal and the commands for the broker are a list. \<^verbatim>\<open>p_symb\<close>
  and \<^verbatim>\<open>n_symb\<close>, which nothing reads, and the tables for a ranking, which nothing uses, are left out.
\<close>

subsection \<open>State\<close>

record VIEWER =
  w_view      :: VIEW
  w_fep       :: "FEP option"
  w_rtd       :: bool \<comment> \<open>connected to the broker\<close>
  realque     :: "realq list"
  stopped     :: bool
  marks       :: "int list" \<comment> \<open>the marks of \<^verbatim>\<open>svctbl\<close>, before its end\<close>
  s_scrn      :: string
  s_exch      :: string
  s_host      :: string
  s_symb      :: string
  p_scrn      :: string
  p_exch      :: string
  enable_pgup :: bool
  enable_pgdn :: bool
  enable_next :: bool
  enable_prev :: bool

datatype act =
    Draw draw
  | Guide string
  | Cursor string
  | ClearAll
  | SendSymbs "rt_cmd list"

datatype key = K_UP | K_DN | K_PGUP | K_PGDN | K_ENTER | OtherKey

definition svc_scrns :: "string list" where
  "svc_scrns = [''100'', ''200'', ''201'']"

definition svc_marks :: "int list" where
  "svc_marks = [100, 200, 201]"

definition quoted :: "string \<Rightarrow> string" where
  "quoted s = [CHR 0x27] @ s @ [CHR 0x27]"

text \<open>What an \<open>update\<close> by this viewer needs to know.\<close>

definition view_of :: "FEP \<Rightarrow> VIEWER \<Rightarrow> VIEW" where
  "view_of fep w = (w_view w)\<lparr>view_exnm := fep_exnm fep\<rparr>"

subsection \<open>The table of screens\<close>

text \<open>\<^verbatim>\<open>issvc\<close> subtracts from the marks it looks at.\<close>

fun issvc_marks :: "int \<Rightarrow> int list \<Rightarrow> bool \<times> int list" where
  "issvc_marks scrn [] = (False, [])"
| "issvc_marks scrn (m # ms) =
     (if m < 0 then (False, m # ms)
      else if m - scrn \<noteq> 0 then (True, (m - scrn) # ms)
      else (case issvc_marks scrn ms of (r, ms') \<Rightarrow> (r, (m - scrn) # ms')))"

definition issvc :: "int \<Rightarrow> VIEWER \<Rightarrow> bool \<times> VIEWER" where
  "issvc scrn w = (case issvc_marks scrn (marks w) of (r, ms) \<Rightarrow> (r, w\<lparr>marks := ms\<rparr>))"

text \<open>The row of a screen and its mark; the search ends at the first negative mark.\<close>

fun find_svc :: "string \<Rightarrow> int list \<Rightarrow> string list \<Rightarrow> (string \<times> int) option" where
  "find_svc scrn (m # ms) (s # ss) =
     (if m < 0 then None else if strcmp s scrn = 0 then Some (s, m) else find_svc scrn ms ss)"
| "find_svc scrn _ _ = None"

subsection \<open>The real-time symbols\<close>

definition rqreset :: "VIEWER \<Rightarrow> VIEWER" where
  "rqreset w = w\<lparr>realque := [], stopped := True\<rparr>"

text \<open>
  The commands for the broker: the first sets the list anew. A text of 20 bytes or more runs over its
  member, into what is written next, and is cut.
\<close>

definition symb_cmd :: "int \<Rightarrow> realq \<Rightarrow> rt_cmd" where
  "symb_cmd func r = \<lparr>cmd_func = func, cmd_mask = rl_mask r,
     cmd_symb = take L_SYMB (rl_code r @ replicate L_SYMB NUL)\<rparr>"

definition rqsend_cmds :: "realq list \<Rightarrow> rt_cmd list" where
  "rqsend_cmds rs =
     (case rs of
        [] \<Rightarrow> [\<lparr>cmd_func = RT_RST_SYMB, cmd_mask = 0, cmd_symb = replicate L_SYMB NUL\<rparr>]
      | r # rs' \<Rightarrow> symb_cmd RT_RST_SYMB r # map (symb_cmd RT_INS_SYMB) rs')"

definition rqsend :: "VIEWER \<Rightarrow> act list \<times> VIEWER" where
  "rqsend w =
     (if \<not> w_rtd w then ([], w)
      else ([SendSymbs (rqsend_cmds (realque w))], if realque w = [] then w else w\<lparr>stopped := False\<rparr>))"

subsection \<open>Queries\<close>

definition getfep :: "(string \<Rightarrow> FEP option) \<Rightarrow> VIEWER \<Rightarrow> act list \<times> FEP option \<times> VIEWER" where
  "getfep opn w =
     (case opn (s_exch w) of
        None \<Rightarrow> ([Guide (''Cannot open a exchange for '' @ quoted (s_exch w))], None, w\<lparr>w_fep := None\<rparr>)
      | Some fep \<Rightarrow> ([], Some fep, w\<lparr>w_fep := Some fep\<rparr>))"

definition query4symb :: "(string \<Rightarrow> FEP option) \<Rightarrow> key \<Rightarrow> nat \<Rightarrow> VIEWER \<Rightarrow> (int \<times> act list \<times> VIEWER) option" where
  "query4symb opn key qform w =
     (if s_exch w = [] then Some (-1, [Guide ''Enter exchange code !!!'', Cursor ''iEXCH''], w)
      else if s_symb w = [] then Some (-1, [Guide ''Enter symbol code !!!'', Cursor ''iSYMB''], w)
      else if s_host w = [] then Some (-1, [Guide ''Enter hostname !!!'', Cursor ''iHOST''], w)
      else
        case getfep opn w of
          (acts, None, w1) \<Rightarrow> Some (-1, acts @ [Cursor ''iEXCH''], w1)
        | (acts, Some fep, w1) \<Rightarrow>
            (case getfolder fep (s_symb w1) (s_host w1) of
               None \<Rightarrow> Some (-1, [Cursor ''iSYMB'',
                 Guide (''Cannot find symbol '' @ quoted (s_symb w1) @ '' in '' @ quoted (s_host w1) @ '' !!!'')], w1)
             | Some i \<Rightarrow>
                 let indx = (if key = K_UP \<and> i > 0 then i - 1
                             else if key = K_DN \<and> i + 1 < vrec fep then i + 1 else i);
                     folder = fep_fold fep ! indx
                 in (case update (view_of fep w1) folder qform 0 (-1) (realque w1) of
                       None \<Rightarrow> None
                     | Some (ds, rs) \<Rightarrow>
                         Some (0, [Cursor ''iSYMB'', Draw (Str2Fld ''iSYMB'' (f_symb folder)),
                             Draw (Str2Fld ''iHOST'' (f_hostname folder))] @ map Draw ds @ [Cursor ''iSYMB''],
                           w1\<lparr>realque := rs,
                              enable_pgdn := (enable_pgdn w1 \<and> key = K_PGDN),
                              enable_prev := (enable_prev w1 \<or> indx > 0),
                              enable_next := (enable_next w1 \<or> indx + 1 < vrec fep)\<rparr>))))"

text \<open>
  The folders of the host that was asked for, from \<^verbatim>\<open>min_indx\<close> to \<^verbatim>\<open>max_indx\<close>. For the first and the
  last folder the code compares where it means to assign, so that these two steps do nothing.
\<close>

definition range_step :: "string \<Rightarrow> FOLDER list \<Rightarrow> nat \<Rightarrow> nat \<Rightarrow> int \<times> int \<Rightarrow> int \<times> int" where
  "range_step host fs n ii rng =
     (let (min_indx, max_indx) = rng
      in if ii = 0 \<or> ii = n - 1 then rng
         else if strcmp (f_hostname (fs ! ii)) (f_hostname (fs ! (ii + 1))) \<noteq> 0 then
           (if strcmp (f_hostname (fs ! (ii + 1))) host = 0 then (int ii + 1, max_indx)
            else if strcmp (f_hostname (fs ! ii)) host = 0 then (min_indx, int ii)
            else rng)
         else rng)"

definition host_range :: "string \<Rightarrow> FOLDER list \<Rightarrow> nat \<Rightarrow> int \<times> int" where
  "host_range host fs n = List.fold (range_step host fs n) [0..<n] (0, int n - 1)"

text \<open>Where the page begins: at the first symbol of the host that is not before the one asked for.\<close>

definition start_indx :: "string \<Rightarrow> string \<Rightarrow> FOLDER list \<Rightarrow> nat \<Rightarrow> int \<Rightarrow> int" where
  "start_indx sy host fs n min_indx =
     (if sy \<noteq> [] then
        (case List.find (\<lambda>ii. strcmp (f_symb (fs ! ii)) sy \<ge> 0 \<and> strcmp (f_hostname (fs ! ii)) host = 0) [0..<n] of
           None \<Rightarrow> int n | Some ii \<Rightarrow> int ii)
      else min_indx)"

definition page_indx :: "key \<Rightarrow> int \<Rightarrow> int \<Rightarrow> int" where
  "page_indx key min_indx indx =
     max min_indx (case key of K_UP \<Rightarrow> indx - 45 | K_PGUP \<Rightarrow> indx - 45
                   | K_DN \<Rightarrow> indx + 45 | K_PGDN \<Rightarrow> indx + 45 | _ \<Rightarrow> indx)"

text \<open>The rows of a page: the folders and the number of each row.\<close>

fun list_rows :: "VIEW \<Rightarrow> nat \<Rightarrow> nat \<Rightarrow> FOLDER list \<Rightarrow> realq list \<Rightarrow> (draw list \<times> realq list) option" where
  "list_rows v qform ii [] rs = Some ([], rs)"
| "list_rows v qform ii (folder # fs) rs =
     (case update v folder qform 0 (int ii) rs of
        None \<Rightarrow> None
      | Some (ds, rs1) \<Rightarrow> map_option (\<lambda>(ds', rs'). (ds @ ds', rs')) (list_rows v qform (Suc ii) fs rs1))"

definition page_rows :: "FOLDER list \<Rightarrow> int \<Rightarrow> int \<Rightarrow> FOLDER list" where
  "page_rows fs indx max_indx = map (\<lambda>i. fs ! nat i) [indx..min (indx + 45) max_indx - 1]"

definition query4list :: "(string \<Rightarrow> FEP option) \<Rightarrow> key \<Rightarrow> nat \<Rightarrow> VIEWER \<Rightarrow> (int \<times> act list \<times> VIEWER) option" where
  "query4list opn key qform w0 =
     (let w = w0\<lparr>enable_pgup := False, enable_pgdn := False, enable_prev := False, enable_next := False\<rparr>;
          clear = [Draw (ClrEos 5), Draw (PushFld ''MANY'' (Txt '' '') FC_WHITE 0)]
      in if s_exch w = [] then Some (-1, clear @ [Guide ''Enter exchange code !!!'', Cursor ''iEXCH''], w)
         else if s_host w = [] then Some (-1, clear @ [Guide ''Enter hostname !!!'', Cursor ''iHOST''], w)
         else
           case getfep opn w of
             (acts, None, w1) \<Rightarrow> Some (-1, clear @ acts @ [Cursor ''iEXCH''], w1)
           | (acts, Some fep, w1) \<Rightarrow>
               let fs = fep_fold fep; n = vrec fep;
                   (min_indx, max_indx) = host_range (s_host w1) fs n;
                   indx = page_indx key min_indx (start_indx (s_symb w1) (s_host w1) fs n min_indx)
               in if indx > max_indx then Some (0, clear @ [Cursor ''iSYMB''], w1)
                  else
                    let rows = page_rows fs indx max_indx; next = indx + int (length rows);
                        many = show_int (indx + 1 - min_indx) @ '' of '' @ show_int (max_indx - min_indx + 1);
                        heads = (case rows of [] \<Rightarrow> []
                          | folder # _ \<Rightarrow> [Draw (Str2Fld ''iSYMB'' (f_symb folder)), Draw (Str2Fld ''iHOST'' (f_hostname folder))]);
                        symb1 = (case rows of [] \<Rightarrow> s_symb w1 | folder # _ \<Rightarrow> f_symb folder)
                    in if length symb1 \<ge> 64 then None
                       else (case list_rows (view_of fep w1) qform 0 rows (realque w1) of
                         None \<Rightarrow> None
                       | Some (ds, rs) \<Rightarrow>
                           Some (0, clear @ [Cursor ''iSYMB'', Draw (PushFld ''MANY'' (Txt many) FC_WHITE 0)] @ heads
                               @ map Draw ds @ [Cursor ''iSYMB''],
                             w1\<lparr>realque := rs, s_symb := symb1,
                                enable_pgup := next > min_indx, enable_prev := next > min_indx,
                                enable_pgdn := next < max_indx, enable_next := next < max_indx\<rparr>)))"

text \<open>\<^verbatim>\<open>query\<close>: the result, what happens on the terminal and the queue to the broker.\<close>

definition query :: "(string \<Rightarrow> FEP option) \<Rightarrow> key \<Rightarrow> VIEWER \<Rightarrow> (int \<times> act list \<times> VIEWER) option" where
  "query opn key w =
     (let w1 = (rqreset w)\<lparr>enable_next := False, enable_prev := False\<rparr>;
          w2 = (if strcmp (s_scrn w1) (p_scrn w1) \<noteq> 0 then w1\<lparr>p_exch := []\<rparr> else w1)
      in case find_svc (s_scrn w2) (marks w2) svc_scrns of
           None \<Rightarrow> (case rqsend (w2\<lparr>p_scrn := [], p_exch := []\<rparr>) of (acts, w3) \<Rightarrow> Some (0, acts, w3))
         | Some (scrn, mk) \<Rightarrow>
             let key' = (if strcmp (p_scrn w2) (s_scrn w2) \<noteq> 0 \<or> \<not> strcasecmp_eq (p_exch w2) (s_exch w2)
                         then K_ENTER else key);
                 proc = (if scrn = ''100'' then query4list else query4symb)
             in (case proc opn key' (nat mk) w2 of
                   None \<Rightarrow> None
                 | Some (retv, acts, w3) \<Rightarrow>
                     let w4 = (if retv = 0 then w3\<lparr>p_scrn := s_scrn w3, p_exch := s_exch w3\<rparr>
                               else w3\<lparr>p_scrn := [], p_exch := []\<rparr>);
                         clear = (if retv = 0 then [] else [ClearAll])
                     in (case rqsend w4 of (send, w5) \<Rightarrow> Some (retv, acts @ clear @ send, w5))))"

subsection \<open>Messages\<close>

text \<open>The updates of one row for a message, on a copy of its folder.\<close>

definition refresh_row :: "VIEWER \<Rightarrow> nat \<Rightarrow> pushmsg \<Rightarrow> realq \<Rightarrow> draw list option" where
  "refresh_row w scrn m r =
     (if strcmp (g_symb m) (rl_code r) \<noteq> 0 \<or> g_mask m AND rl_mask r = 0 then Some []
      else case w_fep w of
        None \<Rightarrow> Some []
      | Some fep \<Rightarrow>
          (case getfolder fep (rl_symb r) (rl_hostname r) of
             None \<Rightarrow> Some []
           | Some i \<Rightarrow>
               do {
                 quote \<leftarrow> (if g_mask m AND PUSH_QUOT \<noteq> 0 \<or> g_mask m AND push_bit 16 PUSH_QUOT \<noteq> 0
                   then map_option fst (update (view_of fep w) (fep_fold fep ! i) scrn 1 (rl_seqn r) (realque w))
                   else Some []);
                 depth \<leftarrow> (if g_mask m AND PUSH_DEPT \<noteq> 0 \<or> g_mask m AND push_bit 16 PUSH_DEPT \<noteq> 0
                   then map_option fst (update (view_of fep w) (fep_fold fep ! i) scrn 2 (rl_seqn r) (realque w))
                   else Some []);
                 Some (quote @ depth) }))"

definition realpush :: "VIEWER \<Rightarrow> nat \<Rightarrow> pushmsg \<Rightarrow> draw list option" where
  "realpush w scrn m = map_option concat (those (map (refresh_row w scrn m) (realque w)))"

text \<open>One turn of \<^verbatim>\<open>poper\<close> with what it has received.\<close>

definition poper_turn :: "VIEWER \<Rightarrow> pushmsg list \<Rightarrow> draw list option" where
  "poper_turn w ms =
     (if ms = [] \<or> stopped w then Some []
      else map_option concat (those (map (realpush w (nat (atoi (s_scrn w)))) ms)))"

subsection \<open>The arrow keys\<close>

lemma query_dead:
  assumes "m < 0" "marks w = m # ms"
  shows "\<exists>w2. query opn key w = Some (0, if w_rtd w then [SendSymbs (rqsend_cmds [])] else [], w2) \<and>
    realque w2 = [] \<and> marks w2 = marks w"
proof -
  have "find_svc s (marks w) svc_scrns = None" for s
    using assms by (simp add: svc_scrns_def)
  then show ?thesis by (simp add: query_def rqreset_def rqsend_def Let_def)
qed

text \<open>
  An arrow key disables the viewer. Moving from the board to the right asks \<^verbatim>\<open>issvc\<close> for a screen
  number above 100; it answers yes, but has subtracted the number from the first mark of the table of
  screens, which is negative from then on. Every later query, for whatever screen, exchange and
  symbol, ends there: it shows nothing and takes all symbols of the viewer off the broker's list.
\<close>

theorem arrow_disables_queries:
  assumes "marks w = svc_marks" "100 < scrn"
  shows "\<exists>w1. issvc scrn w = (True, w1) \<and>
    (\<forall>opn key w'. marks w' = marks w1 \<longrightarrow>
       (\<exists>w2. query opn key w' = Some (0, if w_rtd w' then [SendSymbs (rqsend_cmds [])] else [], w2) \<and>
          realque w2 = [] \<and> marks w2 = marks w1))"
proof (rule exI [of _ "w\<lparr>marks := [100 - scrn, 200, 201]\<rparr>"], intro conjI allI impI)
  show "issvc scrn w = (True, w\<lparr>marks := [100 - scrn, 200, 201]\<rparr>)"
    using assms by (simp add: issvc_def svc_marks_def)
  fix opn :: "string \<Rightarrow> FEP option" and key and w' :: VIEWER
  assume m: "marks w' = marks (w\<lparr>marks := [100 - scrn, 200, 201]\<rparr>)"
  then show "\<exists>w2. query opn key w' =
      Some (0, if w_rtd w' then [SendSymbs (rqsend_cmds [])] else [], w2) \<and>
      realque w2 = [] \<and> marks w2 = marks (w\<lparr>marks := [100 - scrn, 200, 201]\<rparr>)"
    using query_dead [of "100 - scrn" w' "[200, 201]" opn key] assms(2) by simp
qed

definition viewer0 :: VIEWER where
  "viewer0 = \<lparr>w_view = view0, w_fep = None, w_rtd = True, realque = [], stopped = True, marks = svc_marks,
     s_scrn = ''100'', s_exch = ''FCME'', s_host = ''H'', s_symb = [], p_scrn = [], p_exch = [],
     enable_pgup = False, enable_pgdn = False, enable_next = False, enable_prev = False\<rparr>"

theorem arrow_disables_queries_witness:
  "\<exists>w1 w2. issvc 101 viewer0 = (True, w1) \<and>
     query (\<lambda>_. Some (fep0 4)) K_ENTER w1 = Some (0, [SendSymbs (rqsend_cmds [])], w2)"
proof -
  obtain w1 where w1: "issvc 101 viewer0 = (True, w1)" and dead: "\<forall>opn key w'. marks w' = marks w1 \<longrightarrow>
      (\<exists>w2. query opn key w' = Some (0, if w_rtd w' then [SendSymbs (rqsend_cmds [])] else [], w2) \<and>
         realque w2 = [] \<and> marks w2 = marks w1)"
    using arrow_disables_queries [of viewer0 101] by (auto simp: viewer0_def)
  moreover have "w_rtd w1" using w1 by (auto simp: issvc_def viewer0_def svc_marks_def)
  ultimately show ?thesis by (metis (full_types))
qed

subsection \<open>The range of a host\<close>

text \<open>The range after the first \<open>k\<close> folders, for a host whose folders lie from \<open>a\<close> to \<open>b\<close>.\<close>

lemma host_range_prefix:
  assumes host: "\<And>i. i < n \<Longrightarrow> f_hostname (fs ! i) = host \<longleftrightarrow> a \<le> i \<and> i \<le> b"
    and ab: "a \<le> b" "b < n" and k: "k \<le> n"
  shows "List.fold (range_step host fs n) [0..<k] (0, int n - 1) =
    (if 2 \<le> a \<and> a \<le> k then int a else 0, if 1 \<le> b \<and> b + 1 < n \<and> b < k then int b else int n - 1)"
  using k
proof (induction k)
  case (Suc k)
  let ?rng = "(if 2 \<le> a \<and> a \<le> k then int a else 0, if 1 \<le> b \<and> b + 1 < n \<and> b < k then int b else int n - 1)"
  have "List.fold (range_step host fs n) [0..<Suc k] (0, int n - 1) = range_step host fs n k ?rng"
    using Suc by simp
  also have "\<dots> = (if 2 \<le> a \<and> a \<le> Suc k then int a else 0,
      if 1 \<le> b \<and> b + 1 < n \<and> b < Suc k then int b else int n - 1)"
  proof (cases "k = 0 \<or> k = n - 1")
    case True
    then show ?thesis using ab by (auto simp: range_step_def)
  next
    case False
    then have kn: "k < n" "Suc k < n" "1 \<le> k" using Suc.prems by auto
    have next_host: "f_hostname (fs ! Suc k) = host \<longleftrightarrow> a \<le> Suc k \<and> Suc k \<le> b"
      and this_host: "f_hostname (fs ! k) = host \<longleftrightarrow> a \<le> k \<and> k \<le> b"
      using host kn by auto
    show ?thesis
    proof (cases "f_hostname (fs ! k) = f_hostname (fs ! Suc k)")
      case True
      then have "(a \<le> Suc k \<and> Suc k \<le> b) \<longleftrightarrow> (a \<le> k \<and> k \<le> b)" using next_host this_host by metis
      then have "a \<noteq> Suc k" "b \<noteq> k" using ab by auto
      then show ?thesis using True kn False by (auto simp: range_step_def le_Suc_eq less_Suc_eq)
    next
      case differ: False
      then have "\<not> (f_hostname (fs ! k) = host \<and> f_hostname (fs ! Suc k) = host)" by auto
      then show ?thesis using differ next_host this_host kn False ab
        by (auto simp: range_step_def)
    qed
  qed
  finally show ?case .
qed simp

definition host_at :: "FEP \<Rightarrow> string \<Rightarrow> nat \<Rightarrow> nat \<Rightarrow> bool" where
  "host_at fep host a b \<longleftrightarrow> a \<le> b \<and> b < vrec fep \<and>
     (\<forall>i<vrec fep. f_hostname (fep_fold fep ! i) = host \<longleftrightarrow> a \<le> i \<and> i \<le> b)"

lemma host_range_exact:
  assumes "host_at fep host a b"
  shows "host_range host (fep_fold fep) (vrec fep) =
    (if a = 1 then 0 else int a, if b = 0 then int (vrec fep) - 1 else int b)"
proof -
  have ab: "a \<le> b" "b < vrec fep" using assms by (auto simp: host_at_def)
  have "host_range host (fep_fold fep) (vrec fep) = (if 2 \<le> a \<and> a \<le> vrec fep then int a else 0,
      if 1 \<le> b \<and> b + 1 < vrec fep \<and> b < vrec fep then int b else int (vrec fep) - 1)"
    unfolding host_range_def using assms by (intro host_range_prefix) (auto simp: host_at_def)
  then show ?thesis using ab by auto
qed

text \<open>
  The range of a host. When the folders of a host lie in the table from place \<open>a\<close> to place \<open>b\<close>, the
  loop of the board finds exactly this range, except in two cases: with one folder of another host in
  front of them it begins with that folder, and if the host has only the first folder of the table it
  ends with the last folder of the table.
\<close>

theorem host_range_right:
  assumes "host_at fep host a b"
  shows "host_range host (fep_fold fep) (vrec fep) =
    (if a = 1 then 0 else int a, if b = 0 then int (vrec fep) - 1 else int b)"
  using assms by (rule host_range_exact)

definition board_fep :: FEP where
  "board_fep = (fep0 4)\<lparr>
     fep_fold := [fold0\<lparr>f_symb := ''A'', f_hostname := ''G''\<rparr>, fold0\<lparr>f_symb := ''A'', f_hostname := ''H''\<rparr>,
       fold0\<lparr>f_symb := ''B'', f_hostname := ''H''\<rparr>, fold0],
     fep_arch := (arch0 4)\<lparr>a_vrec := 3\<rparr>\<rparr>"

theorem host_range_right_witness:
  "host_range ''H'' (fep_fold board_fep) (vrec board_fep) = (0, 2)"
proof -
  have "\<forall>i<3. f_hostname (fep_fold board_fep ! i) = ''H'' \<longleftrightarrow> 1 \<le> i \<and> i \<le> (2 :: nat)"
    by (auto simp: board_fep_def less_Suc_eq numeral_3_eq_3)
  then have "host_at board_fep ''H'' 1 2" by (simp add: host_at_def board_fep_def)
  from host_range_right [OF this] show ?thesis by (simp add: board_fep_def)
qed

subsection \<open>The rows of the board\<close>

text \<open>A row without a quote is not registered, the others with the symbol of their quote.\<close>

lemma update_board_realque:
  assumes "update v folder 100 0 seqn rs = Some (ds, rs')"
  shows "\<exists>new. rs' = rs @ new \<and> (\<forall>r\<in>set new. rl_symb r = q_symb (f_quote folder) \<and> rl_hostname r = f_hostname folder)"
  using assms by (auto simp: update_def is_board_def rqsymb_def Let_def split: bind_splits if_splits)

lemma list_rows_realque:
  "list_rows v 100 ii fs rs = Some (ds, rs') \<Longrightarrow>
   \<exists>new. rs' = rs @ new \<and> (\<forall>r\<in>set new. \<exists>f\<in>set fs. rl_symb r = q_symb (f_quote f) \<and> rl_hostname r = f_hostname f)"
proof (induction fs arbitrary: ii rs ds rs')
  case (Cons f fs)
  then obtain ds1 rs1 ds2 where u: "update v f 100 0 (int ii) rs = Some (ds1, rs1)"
    and l: "list_rows v 100 (Suc ii) fs rs1 = Some (ds2, rs')"
    by (auto split: option.splits)
  from update_board_realque [OF u] Cons.IH [OF l] show ?case by fastforce
qed simp

lemma page_rows_indices:
  assumes "0 \<le> indx"
  shows "set (page_rows fs indx max_indx) \<subseteq> (\<lambda>i. fs ! i) ` {nat indx..<nat max_indx}"
  using assms by (auto simp: page_rows_def)

lemma page_indx_ge: "min_indx \<le> page_indx key min_indx indx"
  by (simp add: page_indx_def)

text \<open>What a query of the board registers comes from folders of the range before its last one.\<close>

lemma query4list_realque:
  assumes opn: "opn (s_exch w) = Some fep" and rng: "host_range (s_host w) (fep_fold fep) (vrec fep) = (mn, mx)"
    and mn: "0 \<le> mn" and w: "realque w = []" and q: "query4list opn key 100 w = Some (retv, acts, w')"
  shows "\<forall>r\<in>set (realque w'). \<exists>i. nat mn \<le> i \<and> int i < mx \<and>
    rl_symb r = q_symb (f_quote (fep_fold fep ! i)) \<and> rl_hostname r = f_hostname (fep_fold fep ! i)"
proof -
  let ?indx = "page_indx key mn (start_indx (s_symb w) (s_host w) (fep_fold fep) (vrec fep) mn)"
  have rs: "realque w' = [] \<or> (\<exists>v ds. list_rows v 100 0 (page_rows (fep_fold fep) ?indx mx) [] = Some (ds, realque w'))"
    using q w opn rng
    by (auto simp: query4list_def getfep_def Let_def case_prod_beta split: if_splits option.splits)
  show ?thesis
  proof (cases "realque w' = []")
    case False
    then obtain v ds where "list_rows v 100 0 (page_rows (fep_fold fep) ?indx mx) [] = Some (ds, realque w')"
      using rs by blast
    from list_rows_realque [OF this] have r: "\<forall>r\<in>set (realque w'). \<exists>f\<in>set (page_rows (fep_fold fep) ?indx mx).
        rl_symb r = q_symb (f_quote f) \<and> rl_hostname r = f_hostname f" by simp
    have ge: "mn \<le> ?indx" by (rule page_indx_ge)
    then have "0 \<le> ?indx" using mn by simp
    from page_rows_indices [OF this] r have "\<forall>r\<in>set (realque w'). \<exists>i\<in>{nat ?indx..<nat mx}.
        rl_symb r = q_symb (f_quote (fep_fold fep ! i)) \<and> rl_hostname r = f_hostname (fep_fold fep ! i)"
      by fastforce
    moreover have "nat mn \<le> i \<and> int i < mx" if "i \<in> {nat ?indx..<nat mx}" for i
      using that ge mn by auto
    ultimately show ?thesis by blast
  qed simp
qed

text \<open>
  The last folder of a host is never listed. Whatever key is pressed and symbol asked for, the
  board of a host never registers the host's last folder for real-time refreshes, as the loop over the
  rows ends before it; the quotes in the folders are those of their symbols, and the host's range is
  found.
\<close>

theorem last_folder_never_listed:
  assumes ok: "table_ok fep" and host: "host_at fep (s_host w) a b" "a \<noteq> 1" "b \<noteq> 0"
    and quotes: "\<forall>f\<in>set (live fep). q_symb (f_quote f) = [] \<or> q_symb (f_quote f) = f_symb f"
    and named: "f_symb (fep_fold fep ! b) \<noteq> []"
    and opn: "opn (s_exch w) = Some fep" and w: "realque w = []"
    and q: "query4list opn key 100 w = Some (retv, acts, w')"
  shows "\<forall>r\<in>set (realque w'). (rl_symb r, rl_hostname r) \<noteq> (f_symb (fep_fold fep ! b), f_hostname (fep_fold fep ! b))"
proof
  fix r assume r: "r \<in> set (realque w')"
  have "host_range (s_host w) (fep_fold fep) (vrec fep) = (int a, int b)"
    using host_range_exact [OF host(1)] host(2,3) by simp
  from query4list_realque [OF opn this _ w q] r obtain i where i: "a \<le> i" "i < b"
    "rl_symb r = q_symb (f_quote (fep_fold fep ! i))" "rl_hostname r = f_hostname (fep_fold fep ! i)"
    by auto
  have b: "b < vrec fep" using host(1) by (simp add: host_at_def)
  have "fep_fold fep ! i \<in> set (live fep)"
    using table_okD(6) [OF ok] live_nth [of i fep] i b by (metis nth_mem order.strict_trans)
  then have qs: "q_symb (f_quote (fep_fold fep ! i)) \<in> {[], f_symb (fep_fold fep ! i)}"
    using quotes by auto
  have "folder_key (fep_fold fep ! i) \<noteq> folder_key (fep_fold fep ! b)"
    using table_okD(5,6) [OF ok] i b nth_eq_iff_index_eq [of "map folder_key (live fep)" i b]
    by (auto simp: live_nth)
  then show "(rl_symb r, rl_hostname r) \<noteq> (f_symb (fep_fold fep ! b), f_hostname (fep_fold fep ! b))"
    using i qs named by (auto simp: folder_key_def)
qed

definition pair_fep :: FEP where
  "pair_fep = (fep0 2)\<lparr>
     fep_fold := [fold0\<lparr>f_symb := ''A'', f_hostname := ''H'', f_quote := quot0\<lparr>q_symb := ''A''\<rparr>\<rparr>,
       fold0\<lparr>f_symb := ''B'', f_hostname := ''H'', f_quote := quot0\<lparr>q_symb := ''B''\<rparr>\<rparr>],
     fep_arch := (arch0 2)\<lparr>a_vrec := 2\<rparr>\<rparr>"

lemma pair_fep_ok: "table_ok pair_fep" "host_at pair_fep ''H'' 0 1"
proof -
  show "table_ok pair_fep"
    by (simp add: table_ok_def live_def pair_fep_def folder_key_def arch0_def fep0_def less_eq_folder_key_def
        arrays_ok_def fold0_def dept0_def)
  show "host_at pair_fep ''H'' 0 1"
    by (auto simp: host_at_def pair_fep_def less_Suc_eq numeral_2_eq_2)
qed

lemma pair_board:
  "\<exists>acts w'. query4list (\<lambda>_. Some pair_fep) K_ENTER 100 viewer0 = Some (0, acts, w')"
proof -
  have "host_range ''H'' (fep_fold pair_fep) (vrec pair_fep) = (0, 1)"
    using host_range_exact [OF pair_fep_ok(2)] by simp
  moreover have "page_rows (fep_fold pair_fep) 0 1 = [fep_fold pair_fep ! 0]"
    by (simp add: page_rows_def)
  moreover have "update (view_of pair_fep viewer0) (fep_fold pair_fep ! 0) 100 0 0 [] \<noteq> None"
    by (simp add: update_def is_board_def push_fields_eq board_fields_def Let_def pushchk_def pushstr_def pushlng_def
        pushksttime_def rqsymb_def MAX_SYMB_def push_symbol_def view_of_def viewer0_def view0_def pair_fep_def
        fep0_def fold0_def quot0_def)
  moreover have "f_symb (fep_fold pair_fep ! 0) = ''A''" by (simp add: pair_fep_def)
  ultimately show ?thesis
    by (auto simp: query4list_def getfep_def viewer0_def start_indx_def page_indx_def Let_def view_of_def)
qed

theorem last_folder_never_listed_witness:
  "\<exists>acts w'. query4list (\<lambda>_. Some pair_fep) K_ENTER 100 viewer0 = Some (0, acts, w') \<and>
     (\<forall>r\<in>set (realque w'). (rl_symb r, rl_hostname r) \<noteq> (''B'', ''H''))"
proof -
  obtain acts w' where q: "query4list (\<lambda>_. Some pair_fep) K_ENTER 100 viewer0 = Some (0, acts, w')"
    using pair_board by blast
  have "\<forall>r\<in>set (realque w'). (rl_symb r, rl_hostname r) \<noteq>
      (f_symb (fep_fold pair_fep ! 1), f_hostname (fep_fold pair_fep ! 1))"
    by (rule last_folder_never_listed [OF pair_fep_ok(1) _ _ _ _ _ _ _ q, of 0])
      (use pair_fep_ok(2) in \<open>auto simp: viewer0_def live_def pair_fep_def quot0_def\<close>)
  with q show ?thesis by (auto simp: pair_fep_def)
qed

subsection \<open>The symbols at the broker\<close>

text \<open>A batch of this viewer on a queue of messages to the broker.\<close>

definition row_masks :: "realq list \<Rightarrow> string \<Rightarrow> mask_t" where
  "row_masks rs s = foldr (\<lambda>r m. if rl_code r = s then rl_mask r OR m else m) rs 0"

lemma cmd_symb_short:
  assumes "length (rl_code r) < L_SYMB" "NUL \<notin> set (rl_code r)"
  shows "cstr (cmd_symb (symb_cmd f r)) = rl_code r"
  using assms by (simp add: symb_cmd_def cstr_append cstr_id)

lemma wanted_rows:
  "\<forall>r\<in>set rs. length (rl_code r) < L_SYMB \<and> NUL \<notin> set (rl_code r) \<Longrightarrow>
   wanted (map (symb_cmd f) rs) = row_masks rs"
proof (induction rs)
  case (Cons r rs)
  have "cmd_mask (symb_cmd f r) = rl_mask r" by (simp add: symb_cmd_def)
  with Cons cmd_symb_short [of r f] show ?case by (auto simp: row_masks_def fun_eq_iff)
qed (simp add: row_masks_def fun_eq_iff)

text \<open>
  C26. The broker knows what is on the screen. When the viewer's list of symbols is not empty and their
  names are short and there is room for them on the board, the commands it sends are carried out; afterwards the viewer is
  listed for exactly these symbols, each with the events of its rows together, and the other clients
  as before.
\<close>

theorem viewer_subscribes:
  assumes ok: "board_ok rq" "counts_ok rq" "linked_to rq c"
    and rs: "rs \<noteq> []" "\<forall>r\<in>set rs. length (rl_code r) < L_SYMB \<and> NUL \<notin> set (rl_code r) \<and> rl_mask r \<noteq> 0"
    and room: "valr (rt_symbol rq) + length rs \<le> no_of_symbols rq"
  shows "\<exists>rq'. check_command_for_client c (rqsend_cmds rs) rq = Some rq' \<and>
    subscription rq' c = row_masks rs \<and> only_client c rq rq'"
proof -
  obtain r rs' where r: "rs = r # rs'" using rs(1) by (cases rs) auto
  have cmds: "rqsend_cmds rs = symb_cmd RT_RST_SYMB r # map (symb_cmd RT_INS_SYMB) rs'"
    by (simp add: rqsend_cmds_def r)
  have "wanted (symb_cmd RT_RST_SYMB r # map (symb_cmd RT_INS_SYMB) rs') = wanted (map (symb_cmd RT_INS_SYMB) rs)"
    by (simp add: r symb_cmd_def fun_eq_iff)
  also have "\<dots> = row_masks rs" using rs(2) by (intro wanted_rows) auto
  finally have "wanted (symb_cmd RT_RST_SYMB r # map (symb_cmd RT_INS_SYMB) rs') = row_masks rs" .
  moreover have "\<exists>rq'. check_command_for_client c (symb_cmd RT_RST_SYMB r # map (symb_cmd RT_INS_SYMB) rs') rq = Some rq' \<and>
    subscription rq' c = wanted (symb_cmd RT_RST_SYMB r # map (symb_cmd RT_INS_SYMB) rs') \<and> only_client c rq rq'"
    by (rule batch_subscribed [OF ok]) (use rs room r cmd_symb_short in \<open>auto simp: symb_cmd_def\<close>)
  ultimately show ?thesis by (simp add: cmds)
qed

definition realq1 :: "string \<Rightarrow> mask_t \<Rightarrow> realq" where
  "realq1 s m = \<lparr>rl_exnm = ''F'', rl_code = push_symbol ''F'' s ''H'', rl_symb = s, rl_hostname = ''H'', rl_mask = m, rl_seqn = 0\<rparr>"

theorem viewer_subscribes_witness:
  "\<exists>rq'. check_command_for_client 3 (rqsend_cmds [realq1 ''A'' 1, realq1 ''B'' 1, realq1 ''A'' 2]) broker1 = Some rq' \<and>
     subscription rq' 3 ''F@A@H'' = 3 \<and> subscription rq' 3 ''F@B@H'' = 1 \<and> subscription rq' 3 ''F@C@H'' = 0"
proof -
  have v: "valr (rt_symbol broker1) + 3 \<le> no_of_symbols broker1"
    by (simp add: broker1_def accept_client_def init_shm_def Let_def upd_client_def)
  have "\<exists>rq'. check_command_for_client 3 (rqsend_cmds [realq1 ''A'' 1, realq1 ''B'' 1, realq1 ''A'' 2]) broker1 = Some rq' \<and>
     subscription rq' 3 = row_masks [realq1 ''A'' 1, realq1 ''B'' 1, realq1 ''A'' 2] \<and> only_client 3 broker1 rq'"
    by (rule viewer_subscribes [OF broker1_ok]) (use v in \<open>auto simp: realq1_def push_symbol_def L_SYMB_def\<close>)
  then show ?thesis by (auto simp: row_masks_def realq1_def push_symbol_def)
qed

end
