(* ===== verification/Session.thy ===== *)
theory Session
  imports ScreenMap Viewer
begin

unbundle bit_operations_syntax

text \<open>
  The viewer as a whole: \<^verbatim>\<open>main\<close> and \<^verbatim>\<open>doaction\<close> of \<^verbatim>\<open>src/quot/monquot.c\<close>. A key or a click of
  the mouse changes the input fields and starts a query; what the query does to the terminal
  (\<open>act\<close>) is carried out on the screen.

  \<open>fmt\<close> is the text of a number or a time in the C library's locale, \<open>opn\<close> what \<^verbatim>\<open>fep_open\<close>
  answers, \<open>cfg\<close> the files of the screens and \<open>now\<close> the clock. The lock is left out, since no
  handler waits for another; a local time or name is not checked against the length of the buffers
  which \<open>Display\<close> has checked.
\<close>

record SESSION =
  view        :: VIEWER
  scrmap      :: MAP
  inputs      :: INPUT
  g_scrn      :: string
  g_symb      :: string
  g_host      :: string
  backwarding :: bool

type_synonym world = "(shown \<Rightarrow> string) \<times> (string \<Rightarrow> FEP option) \<times> (string \<Rightarrow> string list option)"

definition on_pen :: "(PEN \<Rightarrow> PEN option) \<Rightarrow> SESSION \<Rightarrow> SESSION option" where
  "on_pen f s = map_option (\<lambda>p. s\<lparr>scrmap := (scrmap s)\<lparr>mp_pen := p\<rparr>\<rparr>) (f (mp_pen (scrmap s)))"

subsection \<open>Carrying out a query\<close>

fun run_draw :: "(shown \<Rightarrow> string) \<Rightarrow> time_t \<Rightarrow> draw \<Rightarrow> PEN \<Rightarrow> PEN option" where
  "run_draw fmt now (PushFld name t color kind) p = pushfld name (fmt t) (word_of_int color) (kind \<noteq> 0) now p"
| "run_draw fmt now (Str2Fld name str) p = str2fld name str p"
| "run_draw fmt now (InsLine row n) p = insline row n p"
| "run_draw fmt now (ClrEos row) p = clreos row p"

fun run_act :: "(shown \<Rightarrow> string) \<Rightarrow> time_t \<Rightarrow> act \<Rightarrow> SESSION \<Rightarrow> SESSION option" where
  "run_act fmt now (Draw d) s = on_pen (run_draw fmt now d) s"
| "run_act fmt now (Guide msg) s = on_pen (setguide msg now) s"
| "run_act fmt now (Cursor name) s = on_pen (cur2fld name) s"
| "run_act fmt now ClearAll s = on_pen (clearall (mp_fields (scrmap s)) now) s"
| "run_act fmt now (SendSymbs cmds) s = Some s"

text \<open>The result is the session and the messages to the broker.\<close>

definition sent :: "act list \<Rightarrow> rt_cmd list list" where
  "sent acts = concat (map (\<lambda>a. case a of SendSymbs cmds \<Rightarrow> [cmds] | _ \<Rightarrow> []) acts)"

definition run_query :: "world \<Rightarrow> key \<Rightarrow> time_t \<Rightarrow> SESSION \<Rightarrow> (rt_cmd list list \<times> SESSION) option" where
  "run_query = (\<lambda>(fmt, opn, cfg) k now s. do {
     (retv, acts, w) \<leftarrow> query opn k (view s);
     s1 \<leftarrow> each (run_act fmt now) acts (s\<lparr>view := w\<rparr>);
     Some (sent acts, s1) })"

subsection \<open>\<^verbatim>\<open>doaction\<close>\<close>

text \<open>The input fields; they go to buffers of 8, 8, 8 and 64 bytes.\<close>

definition read_inputs :: "PEN \<Rightarrow> INPUT option" where
  "read_inputs p = do {
     sc \<leftarrow> getfld ''iSCRN'' True p;
     ex \<leftarrow> getfld ''iEXCH'' True p;
     ho \<leftarrow> getfld ''iHOST'' True p;
     sy \<leftarrow> getfld ''iSYMB'' True p;
     if length sc \<ge> 8 \<or> length ex \<ge> 8 \<or> length ho \<ge> 8 \<or> length sy \<ge> 64 then None
     else Some \<lparr>i_scrn = sc, i_exch = ex, i_host = ho, i_symb = sy\<rparr> }"

text \<open>A new screen number: the flags are cleared and its map is opened. The result tells whether there is one.\<close>

definition change_screen :: "world \<Rightarrow> time_t \<Rightarrow> SESSION \<Rightarrow> (bool \<times> SESSION) option" where
  "change_screen = (\<lambda>(fmt, opn, cfg) now s.
     if strcmp (i_scrn (inputs s)) (s_scrn (view s)) = 0 then Some (True, s)
     else
       let w = (view s)\<lparr>enable_next := False, enable_prev := False, enable_pgup := False, enable_pgdn := False,
                        s_scrn := i_scrn (inputs s)\<rparr>
       in do {
         (retv, m) \<leftarrow> mapopen cfg (i_scrn (inputs s)) (inputs s) now (scrmap s);
         if retv \<noteq> 0 then
           map_option (Pair False) (on_pen (setguide ''No such screen numner !!!!!'' now) (s\<lparr>view := w, scrmap := m\<rparr>))
         else Some (True, s\<lparr>view := w, scrmap := m\<rparr>) })"

definition doaction :: "world \<Rightarrow> key \<Rightarrow> time_t \<Rightarrow> SESSION \<Rightarrow> (rt_cmd list list \<times> SESSION) option" where
  "doaction world k now s = do {
     s1 \<leftarrow> on_pen (clrguide now) s;
     inp \<leftarrow> read_inputs (mp_pen (scrmap s1));
     (known, s2) \<leftarrow> change_screen world now (s1\<lparr>inputs := inp\<rparr>);
     if \<not> known then Some ([], s2)
     else
       let w = (view s2)\<lparr>s_exch := i_exch inp, s_host := i_host inp, s_symb := i_symb inp, s_scrn := i_scrn inp\<rparr>;
           s3 = s2\<lparr>view := w\<rparr>; opn = fst (snd world)
       in if opn (s_exch w) = None then
            map_option (Pair []) (on_pen (setguide (quoted (s_exch w) @ '' is invalid exchange !!!'') now) s3)
          else
            run_query world k now
              (if atoi (s_scrn w) < 200 then s3\<lparr>g_scrn := s_scrn w, g_host := s_host w, g_symb := s_symb w\<rparr> else s3) }"

subsection \<open>Keys and clicks\<close>

datatype event = Pressed key | Home | Left | Right | Click int | ClickR int | ClickC int | CtrlX | CtrlT

definition quiet :: "SESSION option \<Rightarrow> (rt_cmd list list \<times> SESSION) option" where
  "quiet = map_option (Pair [])"

text \<open>An arrow: the screen beside the one in the input field, if \<^verbatim>\<open>issvc\<close> knows it.\<close>

definition arrow :: "world \<Rightarrow> int \<Rightarrow> time_t \<Rightarrow> SESSION \<Rightarrow> (rt_cmd list list \<times> SESSION) option" where
  "arrow world dirf now s = do {
     sc \<leftarrow> getfld ''iSCRN'' True (mp_pen (scrmap s));
     if length sc \<ge> 8 then None
     else do {
       s1 \<leftarrow> on_pen (clrguide now) (s\<lparr>inputs := (inputs s)\<lparr>i_scrn := sc\<rparr>\<rparr>);
       let scrn = atoi sc + dirf;
       let (known, w) = issvc scrn (view s1);
       let s2 = s1\<lparr>view := w\<rparr>;
       if \<not> known then Some ([], s2)
       else do {
         s3 \<leftarrow> on_pen (str2fld ''iSCRN'' (pad0 3 scrn)) s2;
         doaction world K_ENTER now s3 } } }"

text \<open>
  A click: back from a composite screen with the right button, or on from a row of the board. A row above
  the fifth is a place in front of the list of symbols.
\<close>

definition click :: "world \<Rightarrow> bool \<Rightarrow> int \<Rightarrow> time_t \<Rightarrow> SESSION \<Rightarrow> (rt_cmd list list \<times> SESSION) option" where
  "click world right row now s =
     (if atoi (s_scrn (view s)) \<ge> 200 then
        (if \<not> right then Some ([], s)
         else do {
           s1 \<leftarrow> on_pen (str2fld ''iSCRN'' (g_scrn s)) s;
           s2 \<leftarrow> on_pen (str2fld ''iHOST'' (g_host s)) s1;
           s3 \<leftarrow> on_pen (str2fld ''iSYMB'' (g_symb s)) s2;
           doaction world K_ENTER now s3 })
      else if row = 1 then Some ([], s)
      else
        let ii = row - 5; rs = realque (view s)
        in if int (length rs) \<le> ii then Some ([], s)
           else if ii < 0 then None
           else
             let q = rs ! nat ii
             in case fst (snd world) (rl_exnm q) of
                  None \<Rightarrow> Some ([], s)
                | Some fep \<Rightarrow> do {
                    s1 \<leftarrow> on_pen (str2fld ''iEXCH'' (fep_exnm fep)) s;
                    s2 \<leftarrow> on_pen (str2fld ''iHOST'' (rl_hostname q)) s1;
                    s3 \<leftarrow> on_pen (str2fld ''iSYMB'' (rl_symb q)) s2;
                    s4 \<leftarrow> on_pen (str2fld ''iSCRN'' (if right then ''201'' else ''200'')) (s3\<lparr>g_symb := rl_symb q\<rparr>);
                    doaction world K_ENTER now s4 })"

definition toggle :: "(VIEW \<Rightarrow> VIEW) \<Rightarrow> SESSION \<Rightarrow> SESSION" where
  "toggle f s = s\<lparr>view := (view s)\<lparr>w_view := f (w_view (view s))\<rparr>\<rparr>"

text \<open>One turn of the loop of \<^verbatim>\<open>main\<close>.\<close>

fun handle :: "world \<Rightarrow> event \<Rightarrow> time_t \<Rightarrow> SESSION \<Rightarrow> (rt_cmd list list \<times> SESSION) option" where
  "handle world Home now s = quiet (on_pen (cur2fld ''iSCRN'') s)"
| "handle world (Pressed K_PGUP) now s =
     (if \<not> backwarding s \<or> \<not> enable_pgup (view s) then Some ([], s) else doaction world K_PGUP now s)"
| "handle world (Pressed K_PGDN) now s =
     (if forwarding (scrmap s) = 0 \<or> \<not> enable_pgdn (view s) then Some ([], s) else doaction world K_PGDN now s)"
| "handle world (Pressed K_DN) now s = (if enable_next (view s) then doaction world K_DN now s else Some ([], s))"
| "handle world (Pressed K_UP) now s = (if enable_prev (view s) then doaction world K_UP now s else Some ([], s))"
| "handle world (Pressed K_ENTER) now s = doaction world K_ENTER now s"
| "handle world (Pressed OtherKey) now s = Some ([], s)"
| "handle world Left now s = arrow world (-1) now s"
| "handle world Right now s = arrow world 1 now s"
| "handle world (Click row) now s = click world False row now s"
| "handle world (ClickC row) now s = click world False row now s"
| "handle world (ClickR row) now s = click world True row now s"
| "handle world CtrlX now s = doaction world K_ENTER now (toggle (\<lambda>v. v\<lparr>display10 := \<not> display10 v\<rparr>) s)"
| "handle world CtrlT now s = doaction world K_ENTER now (toggle (\<lambda>v. v\<lparr>kst4time := \<not> kst4time v\<rparr>) s)"

text \<open>A step of the viewer at some time, in a world that may have changed.\<close>

inductive session_step :: "SESSION \<Rightarrow> SESSION \<Rightarrow> bool" where
  Handled: "handle world e now s = Some (out, s') \<Longrightarrow> session_step s s'"
| Pushed: "on_pen (\<lambda>p. each (run_draw fmt now) ds p) s = Some s' \<Longrightarrow> session_step s s'"
| Cleaned: "on_pen (cleaner now) s = Some s' \<Longrightarrow> session_step s s'"

subsection \<open>Keys that do nothing\<close>

lemma on_pen_keeps: "on_pen f s = Some s' \<Longrightarrow> backwarding s' = backwarding s"
  by (auto simp: on_pen_def)

lemma run_act_keeps: "run_act fmt now a s = Some s' \<Longrightarrow> backwarding s' = backwarding s"
  by (cases a) (auto dest: on_pen_keeps)

lemma run_acts_keep: "each (run_act fmt now) acts s = Some s' \<Longrightarrow> backwarding s' = backwarding s"
  by (induction acts arbitrary: s) (auto dest: run_act_keeps split: bind_splits)

lemma run_query_keeps: "run_query world k now s = Some (out, s') \<Longrightarrow> backwarding s' = backwarding s"
  by (auto simp: run_query_def dest!: run_acts_keep split: prod.splits bind_splits)

lemma change_screen_keeps: "change_screen world now s = Some (known, s') \<Longrightarrow> backwarding s' = backwarding s"
  by (auto simp: change_screen_def Let_def dest!: on_pen_keeps split: prod.splits bind_splits if_splits)

lemma doaction_keeps:
  assumes "doaction world k now s = Some (out, s')"
  shows "backwarding s' = backwarding s"
proof -
  from assms obtain s1 inp known s2 where d: "on_pen (clrguide now) s = Some s1"
    "change_screen world now (s1\<lparr>inputs := inp\<rparr>) = Some (known, s2)"
    and r: "\<not> known \<and> s' = s2 \<or> (\<exists>w f. on_pen f (s2\<lparr>view := w\<rparr>) = Some s') \<or>
      (\<exists>w a b c. run_query world k now (s2\<lparr>view := w\<rparr>) = Some (out, s')) \<or>
      (\<exists>w a b c. run_query world k now (s2\<lparr>view := w, g_scrn := a, g_host := b, g_symb := c\<rparr>) = Some (out, s'))"
    by (fastforce simp: doaction_def Let_def split: bind_splits if_splits prod.splits)
  have "backwarding s2 = backwarding s" using on_pen_keeps [OF d(1)] change_screen_keeps [OF d(2)] by simp
  with r show ?thesis by (auto dest!: on_pen_keeps run_query_keeps)
qed

lemma arrow_keeps: "arrow world dirf now s = Some (out, s') \<Longrightarrow> backwarding s' = backwarding s"
  by (auto simp: arrow_def Let_def dest!: on_pen_keeps doaction_keeps split: bind_splits if_splits prod.splits)

lemma click_keeps: "click world right row now s = Some (out, s') \<Longrightarrow> backwarding s' = backwarding s"
  by (auto simp: click_def Let_def dest!: on_pen_keeps doaction_keeps split: bind_splits if_splits option.splits)

lemma handle_keeps: "handle world e now s = Some (out, s') \<Longrightarrow> backwarding s' = backwarding s"
  by (induction world e now s rule: handle.induct)
    (auto simp: quiet_def toggle_def dest!: on_pen_keeps doaction_keeps arrow_keeps click_keeps split: if_splits)

lemma session_step_keeps: "session_step s s' \<Longrightarrow> backwarding s' = backwarding s"
  by (induction rule: session_step.induct) (auto dest: handle_keeps on_pen_keeps)

text \<open>
  The page-up key never does anything. Nothing sets \<^verbatim>\<open>backwarding\<close>, so in every state the
  viewer can come to, the key is taken and dropped.
\<close>

theorem page_up_dead:
  assumes "session_step\<^sup>*\<^sup>* s s'" "\<not> backwarding s"
  shows "handle world (Pressed K_PGUP) now s' = Some ([], s')"
proof -
  from assms(1) have "backwarding s' = backwarding s"
    by induction (auto dest: session_step_keeps)
  then show ?thesis using assms(2) by simp
qed

definition session0 :: SESSION where
  "session0 = \<lparr>view = viewer0,
     scrmap = \<lparr>mp_pen = demo_pen, mp_fields = [], mp_flow = False, mp_loop = False, mp_indx = 0, mp_nrow = 0,
       mp_v = [], forwarding = 0, insert_mode = False\<rparr>,
     inputs = \<lparr>i_scrn = [], i_exch = [], i_host = [], i_symb = []\<rparr>,
     g_scrn = ''000'', g_symb = [], g_host = ''CMEDEV'', backwarding = False\<rparr>"

theorem page_up_dead_witness:
  "\<forall>world now. \<exists>s'. session_step session0 s' \<and> handle world (Pressed K_PGUP) now s' = Some ([], s')"
proof (intro allI)
  fix world now
  have "handle world (ClickC 1) now session0 = Some ([], session0)"
    by (simp add: click_def session0_def viewer0_def atoi_def strtol_def isspace_def digit_val_def isdigit_def)
  then have step: "session_step session0 session0" by (rule session_step.Handled)
  then have "handle world (Pressed K_PGUP) now session0 = Some ([], session0)"
    by (intro page_up_dead) (auto simp: session0_def)
  with step show "\<exists>s'. session_step session0 s' \<and> handle world (Pressed K_PGUP) now s' = Some ([], s')" by blast
qed

text \<open>
  A click above the rows reads before the list. On the board a click with any button on the lines 2
  to 4, where the input fields are, takes a place before the first of the symbols.
\<close>

theorem click_above_rows:
  assumes "atoi (s_scrn (view s)) < 200" "2 \<le> row" "row \<le> 4"
  shows "handle world (Click row) now s = None" "handle world (ClickC row) now s = None" "handle world (ClickR row) now s = None"
  using assms by (auto simp: click_def Let_def)

theorem click_above_rows_witness: "\<forall>world now. handle world (Click 2) now session0 = None"
  by (intro allI click_above_rows(1))
    (simp_all add: session0_def viewer0_def atoi_def strtol_def isspace_def digit_val_def isdigit_def)

subsection \<open>The rows of a block\<close>

lemma push_other:
  assumes ok: "pen_ok t" and n: "length nm < 32" "length nm' < 32" "nm' \<noteq> nm" and s: "NUL \<notin> set data"
  shows "\<exists>t'. pushfld nm data color rt now t = Some t' \<and> pen_ok t' \<and> getfld nm' trim t' = getfld nm' trim t"
proof (rule find_fld_cases [OF pen_okD(2) [OF ok] n(1)])
  assume "find_fld nm t = Some None"
  then show ?thesis using ok by (simp add: pushfld_def)
next
  fix i assume i: "find_fld nm t = Some (Some i)" "i < length (s_fldmap t)" "fm_name (s_fldmap t ! i) = nm"
  obtain t' where t': "pushfld nm data color rt now t = Some t'"
    "writes i (fit (fm_chk (s_fldmap t ! i) AND FLD_IS_LEFT \<noteq> 0) (fm_len (s_fldmap t ! i)) data) t t'"
    using pushfld_writes [OF ok i(2) s, of color rt now] i(3) by auto
  with writes_read(2) [OF ok i(2) fit_length t'(2) n(2)] n(3) i(3) show ?thesis
    by (auto simp: writes_def)
qed

lemma clearall_other:
  assumes "pen_ok t" "length nm < 32" "nm \<notin> fd_name ` set fs" "\<forall>f\<in>set fs. length (fd_name f) < 32"
  shows "\<exists>t'. clearall fs now t = Some t' \<and> pen_ok t' \<and> getfld nm trim t' = getfld nm trim t"
  using assms
proof (induction fs arbitrary: t)
  case (Cons f fs)
  show ?case
  proof (cases "fd_type f = FT_OUTPUT")
    case True
    have "NUL \<notin> set '' ''" "nm \<noteq> fd_name f" using Cons.prems by auto
    then obtain t1 where t1: "pushfld (fd_name f) '' '' (F_COLOR 8) False now t = Some t1" "pen_ok t1"
      "getfld nm trim t1 = getfld nm trim t"
      using push_other [OF Cons.prems(1), of "fd_name f" nm "'' ''"] Cons.prems by fastforce
    with Cons.IH [of t1] Cons.prems True show ?thesis by (auto simp: clearall_def)
  next
    case False
    with Cons show ?thesis by (simp add: clearall_def)
  qed
qed (simp add: clearall_def)

text \<open>
  A failed query leaves the rows standing. After a query that fails, \<^verbatim>\<open>clearall\<close> is to blank the
  output fields; but it pushes the blank to the name without the number of the row, so that no field of a
  block of rows, on the board or in the book, changes.
\<close>

theorem rows_not_cleared:
  assumes "pen_ok t" "f \<in> set fs" "0 \<le> fd_seq f" "entry_name f \<notin> fd_name ` set fs" "\<forall>f\<in>set fs. length (entry_name f) < 32"
  shows "\<exists>t'. clearall fs now t = Some t' \<and> getfld (entry_name f) False t' = getfld (entry_name f) False t"
proof -
  have "length (fd_name g) \<le> length (entry_name g)" for g by (simp add: entry_name_def fld_entry_def)
  then have "\<forall>g\<in>set fs. length (fd_name g) < 32" using assms(5) by (meson le_less_trans)
  with clearall_other [OF assms(1) _ assms(4)] assms(2,5) show ?thesis by blast
qed

lemma copied_row:
  assumes "end_while st = Some st'" and f: "f \<in> set (drop (mp_indx st) (mp_fields st))" "fd_seq f = 0"
    and k: "0 \<le> k" "k < mp_nrow st"
  shows "copy_row k f \<in> set (mp_fields st')"
proof (cases "k = 0")
  case True
  have "copy_row 0 f = f" using f(2) by (simp add: copy_row_def)
  moreover have "f \<in> set (mp_fields st)" using f(1) by (rule in_set_dropD)
  ultimately show ?thesis using True assms(1) by (auto simp: end_while_def Let_def split: if_splits)
next
  case False
  then have "k \<in> set [1..mp_nrow st - 1]" using k by simp
  then show ?thesis using f(1) assms(1) by (fastforce simp: end_while_def Let_def split: if_splits)
qed

lemma entry_name_copy: "0 \<le> k \<Longrightarrow> entry_name (copy_row k f) = field_name (fd_name f) k"
  by (simp add: entry_name_def fld_entry_def copy_row_def field_name_def)

lemma form_ok_name:
  "form_ok fs ms k \<Longrightarrow> f \<in> set fs \<Longrightarrow> fd_name f \<noteq> [] \<Longrightarrow> length (entry_name f) < 32"
  by (induction fs ms k rule: form_ok.induct) (auto simp: field_ok_def split: if_splits)

text \<open>
  C29. Row by row, the board shows what is pushed to it. A block of fields of the map is copied for
  every row; when the map is put on the screen, the name of every number and price \<open>update\<close> pushes for
  the row \<open>k\<close> is in the sorted map, as a field \<open>k\<close> lines below the first and of the length the map
  gives, which is at least 1. What is pushed, cut or padded to that length, then stands in the cells of
  exactly that line and column and is read back from the field, for every row of the block.
\<close>

theorem board_rows_shown:
  assumes m: "end_while st = Some st'" "f \<in> set (drop (mp_indx st) (mp_fields st))" "fd_seq f = 0" "fd_name f \<noteq> []"
    and k: "0 \<le> k" "k < mp_nrow st"
    and pen: "form_inv p" "form_ok (mp_fields st') (s_fldmap p) (field_seq p)"
      "length (s_fldmap p) + length (named (mp_fields st')) \<le> m_fldmap p" "field_seq p + length (named (mp_fields st')) < 2 ^ 16"
    and data: "NUL \<notin> set data"
  defines "row \<equiv> nat (fd_row f + k)" and "col \<equiv> nat (fd_col f)"
    and "shown \<equiv> fit (fd_chk f AND FLD_IS_LEFT \<noteq> 0) (nat (fd_len f)) data"
  shows "\<exists>p1 m p2. putfld (mp_fields st') False p = Some p1 \<and> 1 \<le> fd_len f \<and> length shown = nat (fd_len f) \<and>
    m \<in> set (s_fldmap (snd (endfld p1))) \<and> fm_name m = field_name (fd_name f) k \<and>
    fm_row m = row \<and> fm_col m = col \<and> fm_len m = nat (fd_len f) \<and>
    pushfld (field_name (fd_name f) k) data color rt now (snd (endfld p1)) = Some p2 \<and>
    (\<forall>j<nat (fd_len f). scrn_char p2 (POS row col + j) = shown ! j) \<and>
    getfld (field_name (fd_name f) k) False p2 = Some shown"
proof -
  let ?g = "copy_row k f"
  have g: "?g \<in> set (mp_fields st')" "entry_name ?g = field_name (fd_name f) k" "fd_name ?g \<noteq> []"
    using copied_row [OF m(1,2,3) k] entry_name_copy [OF k(1)] m(4) by (simp_all add: copy_row_def)
  have gok: "field_ok ?g" by (rule form_ok_field [OF pen(2) g(1)])
  note tw = form_ok_types [OF pen(2)]
  obtain p1 where p1: "each putfld1 (mp_fields st') p = Some p1" "form_inv p1"
    "\<forall>f\<in>set (named (mp_fields st')). \<exists>k. fld_entry f k \<in> set (s_fldmap p1)"
    using each_putfld1 [OF pen] by blast
  have put: "putfld (mp_fields st') False p = Some p1" unfolding putfld_def tw using p1(1) by simp
  have "?g \<in> set (named (mp_fields st'))" using g(1,3) by (simp add: named_def)
  with p1(3) obtain s where s: "fld_entry ?g s \<in> set (s_fldmap p1)" by blast
  let ?m = "fld_entry ?g s"
  have place: "fm_row ?m = row" "fm_col ?m = col" "fm_len ?m = nat (fd_len f)" "fm_name ?m = field_name (fd_name f) k"
    using entry_place [OF gok g(3), of s] g(2) by (simp_all add: row_def col_def copy_row_def)
  have chk: "fm_chk ?m = fd_chk f" by (simp add: fld_entry_def copy_row_def)
  have len: "1 \<le> fd_len f" using gok g(3) by (simp add: field_ok_def copy_row_def)
  note ok = endfld_ok(1) [OF p1(2)]
  have mem: "?m \<in> set (s_fldmap (snd (endfld p1)))" using s endfld_ok(3) [OF p1(2)] by simp
  then obtain i where i: "i < length (s_fldmap (snd (endfld p1)))" "s_fldmap (snd (endfld p1)) ! i = ?m"
    by (auto simp: in_set_conv_nth)
  have sh: "fit (fm_chk ?m AND FLD_IS_LEFT \<noteq> 0) (fm_len ?m) data = shown" by (simp add: shown_def place(3) chk)
  obtain p2 where p2: "pushfld (fm_name ?m) data color rt now (snd (endfld p1)) = Some p2"
    "writes i shown (snd (endfld p1)) p2"
    using pushfld_writes [OF ok i(1) data] unfolding i(2) sh by blast
  have l: "length shown = nat (fd_len f)" by (simp add: shown_def fit_length)
  have "getfld (fm_name ?m) False p2 = Some shown"
    using writes_read(1) [OF ok i(1) _ p2(2)] cstr_id [OF fit_no_NUL [OF data]] by (simp add: i(2) l place(3)) (simp add: shown_def)
  moreover have "\<forall>j<nat (fd_len f). scrn_char p2 (POS row col + j) = shown ! j"
    using p2(2) l by (simp add: writes_def i(2) place write_at_def Let_def)
  ultimately show ?thesis using put p2(1) mem place l len by auto
qed

text \<open>A block of two fields and three rows.\<close>

definition block_field :: "string \<Rightarrow> int \<Rightarrow> field" where
  "block_field nm col = \<lparr>fd_type = FT_OUTPUT, fd_name = nm, fd_row = 5, fd_col = col, fd_len = 8, fd_msg = [],
     fd_att = 0, fd_seq = 0, fd_chk = 0\<rparr>"

definition block_map :: MAP where
  "block_map = \<lparr>mp_pen = demo_pen, mp_fields = [block_field ''SYMB'' 1, block_field ''LAST'' 20], mp_flow = True, mp_loop = True,
     mp_indx = 0, mp_nrow = 3, mp_v = [], forwarding = 0, insert_mode = False\<rparr>"

definition fresh_pen :: PEN where
  "fresh_pen = the (putfld [] True demo_pen0)"

lemma fresh_pen_inv: "form_inv fresh_pen" "s_fldmap fresh_pen = []" "field_seq fresh_pen = 1" "m_fldmap fresh_pen = 1280"
proof -
  obtain t' where "clrscrn 1 (setattr 0 (demo_pen0\<lparr>s_fldmap := [], field_seq := 1, focused := None\<rparr>)) = Some t'"
    "form_inv t'" "s_fldmap t' = []" "field_seq t' = 1" "m_fldmap t' = m_fldmap demo_pen0"
    using force_inv [of demo_pen0] by (auto simp: demo_pen0_def DEF_ROW_def DEF_COL_def)
  then show "form_inv fresh_pen" "s_fldmap fresh_pen = []" "field_seq fresh_pen = 1" "m_fldmap fresh_pen = 1280"
    by (simp_all add: fresh_pen_def putfld_def demo_pen0_def)
qed

lemma block_map_rows:
  "end_while block_map = Some (block_map\<lparr>mp_fields := [block_field ''SYMB'' 1, block_field ''LAST'' 20] @
     concat (map (\<lambda>k. [copy_row k (block_field ''SYMB'' 1), copy_row k (block_field ''LAST'' 20)]) [1, 2]), mp_loop := False\<rparr>)"
proof -
  have "[1..2 :: int] = [1, 2]" by (simp add: upto.simps)
  then show ?thesis by (simp add: end_while_def block_map_def MAX_FLDS_def)
qed

theorem board_rows_shown_witness:
  "\<exists>st' p1 p2. end_while block_map = Some st' \<and> putfld (mp_fields st') False fresh_pen = Some p1 \<and>
     pushfld (field_name ''LAST'' 2) ''1234'' 0 True 9 (snd (endfld p1)) = Some p2 \<and>
     getfld (field_name ''LAST'' 2) False p2 = Some ''    1234'' \<and> scrn_char p2 (POS 7 20 + 4) = CHR ''1''"
proof -
  obtain st' where st': "end_while block_map = Some st'" "mp_fields st' =
    [block_field ''SYMB'' 1, block_field ''LAST'' 20, copy_row 1 (block_field ''SYMB'' 1), copy_row 1 (block_field ''LAST'' 20),
     copy_row 2 (block_field ''SYMB'' 1), copy_row 2 (block_field ''LAST'' 20)]"
    using block_map_rows by simp
  have pads: "pad0 3 0 = ''000''" "pad0 3 1 = ''001''" "pad0 3 2 = ''002''" by code_simp+
  have form: "form_ok (mp_fields st') [] 1"
    unfolding st'(2) by (simp add: block_field_def copy_row_def field_ok_def entry_name_def fld_entry_def byte_def clear_of_def
        DEF_ROW_def DEF_COL_def is_input_def pads FT_OUTPUT_def)
  have len: "length (named (mp_fields st')) \<le> 6" unfolding st'(2) by (simp add: named_def)
  let ?f = "block_field ''LAST'' 20"
  have shown: "fit (fd_chk ?f AND FLD_IS_LEFT \<noteq> 0) 8 ''1234'' = ''    1234''"
    by (simp add: fit_def block_field_def numeral_eq_Suc)
  have f: "nat (fd_len ?f) = 8" "nat (fd_row ?f + 2) = 7" "nat (fd_col ?f) = 20" "fd_name ?f = ''LAST''"
    by (simp_all add: block_field_def)
  have "\<exists>p1 m p2. putfld (mp_fields st') False fresh_pen = Some p1 \<and> 1 \<le> fd_len ?f \<and>
    length (fit (fd_chk ?f AND FLD_IS_LEFT \<noteq> 0) (nat (fd_len ?f)) ''1234'') = nat (fd_len ?f) \<and>
    m \<in> set (s_fldmap (snd (endfld p1))) \<and> fm_name m = field_name (fd_name ?f) 2 \<and>
    fm_row m = nat (fd_row ?f + 2) \<and> fm_col m = nat (fd_col ?f) \<and> fm_len m = nat (fd_len ?f) \<and>
    pushfld (field_name (fd_name ?f) 2) ''1234'' 0 True 9 (snd (endfld p1)) = Some p2 \<and>
    (\<forall>j<nat (fd_len ?f). scrn_char p2 (POS (nat (fd_row ?f + 2)) (nat (fd_col ?f)) + j) =
        fit (fd_chk ?f AND FLD_IS_LEFT \<noteq> 0) (nat (fd_len ?f)) ''1234'' ! j) \<and>
    getfld (field_name (fd_name ?f) 2) False p2 = Some (fit (fd_chk ?f AND FLD_IS_LEFT \<noteq> 0) (nat (fd_len ?f)) ''1234'')"
    by (rule board_rows_shown [OF st'(1)])
      (use form len in \<open>simp_all add: block_map_def fresh_pen_inv, simp_all add: block_field_def\<close>)
  then obtain p1 p2 where r: "putfld (mp_fields st') False fresh_pen = Some p1"
    "pushfld (field_name ''LAST'' 2) ''1234'' 0 True 9 (snd (endfld p1)) = Some p2"
    "\<forall>j<8. scrn_char p2 (POS 7 20 + j) = ''    1234'' ! j"
    "getfld (field_name ''LAST'' 2) False p2 = Some ''    1234''"
    unfolding f shown by blast
  from r(3) have "scrn_char p2 (POS 7 20 + 4) = ''    1234'' ! 4" by simp
  with st'(1) r show ?thesis by auto
qed

theorem rows_not_cleared_witness:
  "\<exists>t'. clearall (mp_fields block_map) 9 demo_pen = Some t' \<and> getfld ''SYMB000'' False t' = getfld ''SYMB000'' False demo_pen"
proof -
  have pad: "pad0 3 0 = ''000''" by code_simp
  have names: "entry_name (block_field ''SYMB'' 1) = ''SYMB000''" "entry_name (block_field ''LAST'' 20) = ''LAST000''"
    by (simp_all add: entry_name_def fld_entry_def block_field_def pad)
  have "\<exists>t'. clearall (mp_fields block_map) 9 demo_pen = Some t' \<and>
      getfld (entry_name (block_field ''SYMB'' 1)) False t' = getfld (entry_name (block_field ''SYMB'' 1)) False demo_pen"
    by (rule rows_not_cleared [OF demo_pen_ok(1)]) (simp_all add: block_map_def names, simp_all add: block_field_def)
  then show ?thesis by (simp add: names)
qed

end
