(* ===== verification/Keys.thy ===== *)
theory Keys
  imports Session
begin

unbundle bit_operations_syntax

text \<open>
  The keyboard and the mouse: \<^verbatim>\<open>getkey\<close> of \<^verbatim>\<open>src/lib/pen/getkey.c\<close>, byte by byte. Bytes are
  read until a key is complete; most keys change an input field and the place of the input, and are not
  returned. The terminal is at most as large as the copy.
\<close>

definition KC_ENTER :: int where "KC_ENTER = 0x10001"
definition KC_INS :: int where "KC_INS = 0x10002"
definition KC_DEL :: int where "KC_DEL = 0x10003"
definition KC_HOME :: int where "KC_HOME = 0x10010"
definition KC_END :: int where "KC_END = 0x10011"
definition KC_PGUP :: int where "KC_PGUP = 0x10012"
definition KC_PGDN :: int where "KC_PGDN = 0x10013"
definition KC_UP :: int where "KC_UP = 0x10014"
definition KC_DN :: int where "KC_DN = 0x10015"
definition KC_LEFT :: int where "KC_LEFT = 0x00016"
definition KC_RIGHT :: int where "KC_RIGHT = 0x00017"
definition KC_FOCUS :: int where "KC_FOCUS = 0x10018"
definition KC_MOUSE_C :: int where "KC_MOUSE_C = KC_FOCUS + 1"
definition KC_MOUSE_R :: int where "KC_MOUSE_R = KC_FOCUS + 2"
definition KC_F9 :: int where "KC_F9 = 0x10029"

definition funckey :: "(string \<times> int) list" where
  "funckey = [(''[A'', KC_UP), (''[B'', KC_DN), (''[C'', KC_RIGHT), (''[D'', KC_LEFT), (''[1~'', KC_HOME), (''[1~'', KC_INS),
     (''[2~'', KC_DEL), (''OF'', KC_END), (''[5~'', KC_PGUP), (''[6~'', KC_PGDN), (''[M'', KC_FOCUS), (''[20~'', KC_F9)]"

text \<open>The local variables of \<^verbatim>\<open>getkey\<close>; \<^verbatim>\<open>escl\<close> is the length of \<^verbatim>\<open>escb\<close>.\<close>

record KEYST =
  escchk :: nat
  escb   :: string
  button :: int
  k_col  :: int

definition keyst0 :: KEYST where
  "keyst0 = \<lparr>escchk = 0, escb = [], button = 0, k_col = 0\<rparr>"

datatype result =
    More KEYST PEN
  | Got int int int PEN \<comment> \<open>the key, and the row and column of a click\<close>

text \<open>A signed \<^verbatim>\<open>char\<close>.\<close>

definition schar :: "char \<Rightarrow> int" where
  "schar c = (let n = of_char c :: int in if n < 128 then n else n - 256)"

definition input_cell :: "PEN \<Rightarrow> nat \<Rightarrow> bool" where
  "input_cell t a \<longleftrightarrow> is_input (scrn_type t a)"

text \<open>The cells in order from the one behind \<open>a\<close>, around the screen.\<close>

definition ring :: "nat \<Rightarrow> nat \<Rightarrow> nat list" where
  "ring n a = (if a + 1 \<ge> n then [0..<n] else [a + 1..<n] @ [0..<a + 1])"

definition focus_at :: "nat option \<Rightarrow> PEN \<Rightarrow> PEN option" where
  "focus_at b t = (case b of None \<Rightarrow> Some t | Some b \<Rightarrow> setfocus (ROW b) (COL b) t)"

text \<open>Backspace, tab and a character.\<close>

definition backspace :: "PEN \<Rightarrow> PEN option" where
  "backspace t =
     (case focused t of
        None \<Rightarrow> Some t
      | Some a \<Rightarrow>
          if no_of_input t = 0 then Some t
          else focus_at (List.find (\<lambda>ii. scrn_xpos t a = scrn_xpos t ii) (rev [0..<a])) t)"

definition tab :: "PEN \<Rightarrow> PEN option" where
  "tab t =
     (if no_of_input t = 0 then Some t
      else case focused t of
        None \<Rightarrow> None
      | Some a \<Rightarrow>
          focus_at (List.find (input_cell t) (dropWhile (\<lambda>jj. scrn_xpos t jj = scrn_xpos t a) (ring (max_siz t) a))) t)"

definition upper :: "char \<Rightarrow> char" where
  "upper c = (if CHR ''a'' \<le> c \<and> c \<le> CHR ''z'' then char_of ((of_char c :: nat) - 32) else c)"

definition typed :: "char \<Rightarrow> PEN \<Rightarrow> PEN option" where
  "typed c t =
     (case focused t of
        None \<Rightarrow> Some t
      | Some a \<Rightarrow>
          if no_of_input t = 0 then Some t
          else focus_at (List.find (input_cell t) (ring (max_siz t) a)) (t\<lparr>scrn_char := (scrn_char t)(a := upper c)\<rparr>))"

text \<open>A byte outside a sequence.\<close>

definition plain_byte :: "char \<Rightarrow> KEYST \<Rightarrow> PEN \<Rightarrow> result option" where
  "plain_byte c st t =
     (if c = CHR 0x1b then Some (More (st\<lparr>escchk := 1, escb := []\<rparr>) t)
      else if c = CHR 0x08 \<or> c = CHR 0x7f then map_option (More st) (backspace t)
      else if c = CHR 0x09 then map_option (More st) (tab t)
      else if c = CHR 0x0a \<or> c = CHR 0x0d then Some (Got KC_ENTER 0 0 t)
      else if c = CHR 0x14 \<or> c = CHR 0x18 then Some (Got (schar c) 0 0 t)
      else map_option (More st) (typed c t))"

text \<open>A byte of an escape sequence.\<close>

definition home :: "PEN \<Rightarrow> PEN option" where
  "home t =
     (if no_of_input t = 0 then Some t
      else focus_at (List.find (\<lambda>ii. scrn_xpos t ii \<noteq> 0 \<and> input_cell t ii) [0..<max_siz t]) t)"

definition escape_byte :: "char \<Rightarrow> KEYST \<Rightarrow> PEN \<Rightarrow> result option" where
  "escape_byte c st t =
     (let e = escb st @ [c]; k = map_of funckey e;
          st1 = st\<lparr>escb := e, escchk := (if length e \<ge> 4 \<or> k \<noteq> None then 0 else 1)\<rparr>
      in case k of
           None \<Rightarrow> Some (More st1 t)
         | Some key \<Rightarrow>
             if key = KC_FOCUS then Some (More (st1\<lparr>escchk := 2\<rparr>) t)
             else if key = KC_HOME then map_option (More st1) (home t)
             else Some (Got key 0 0 t))"

definition key_byte :: "char \<Rightarrow> KEYST \<Rightarrow> PEN \<Rightarrow> result option" where
  "key_byte c st t =
     (if escchk st = 0 then plain_byte c st t
      else if escchk st = 1 then escape_byte c st t
      else if escchk st = 2 then Some (More (st\<lparr>button := schar c, escchk := 3\<rparr>) t)
      else if escchk st = 3 then Some (More (st\<lparr>k_col := schar c - 32, escchk := 4\<rparr>) t)
      else
        let row = schar c - 32; st1 = st\<lparr>escchk := 0\<rparr>
        in if button st = 0x20 then Some (Got KC_FOCUS row (k_col st) t)
           else if button st = 0x21 then Some (Got KC_MOUSE_C row (k_col st) t)
           else if button st = 0x22 then Some (Got KC_MOUSE_R row (k_col st) t)
           else Some (More st1 t))"

fun key_bytes :: "string \<Rightarrow> KEYST \<Rightarrow> PEN \<Rightarrow> (result \<times> string) option" where
  "key_bytes [] st t = Some (More st t, [])"
| "key_bytes (c # cs) st t =
     (case key_byte c st t of
        None \<Rightarrow> None
      | Some (More st1 t1) \<Rightarrow> key_bytes cs st1 t1
      | Some (Got k r cl t1) \<Rightarrow> Some (Got k r cl t1, cs))"

text \<open>
  \<^verbatim>\<open>getkey\<close> on the bytes that come: the input goes to the place it was at, or to the first input cell.
  The result is the key with the bytes not yet read, or the state when all are used up.
\<close>

definition getkey :: "string \<Rightarrow> PEN \<Rightarrow> (result \<times> string) option" where
  "getkey bs t = do {
     let place = (case focused t of
         Some a \<Rightarrow> if a < max_siz t \<and> input_cell t a then Some a else List.find (input_cell t) [0..<max_siz t]
       | None \<Rightarrow> List.find (input_cell t) [0..<max_siz t]);
     t1 \<leftarrow> (case place of Some a \<Rightarrow> setfocus (ROW a) (COL a) t | None \<Rightarrow> setfocus 0 0 t);
     key_bytes bs keyst0 t1 }"

text \<open>What \<^verbatim>\<open>main\<close> makes of a key.\<close>

definition event_of :: "int \<Rightarrow> int \<Rightarrow> event" where
  "event_of k row =
     (if k = KC_HOME then Home else if k = KC_PGUP then Pressed K_PGUP else if k = KC_PGDN then Pressed K_PGDN
      else if k = KC_DN then Pressed K_DN else if k = KC_UP then Pressed K_UP else if k = KC_ENTER then Pressed K_ENTER
      else if k = KC_LEFT then Left else if k = KC_RIGHT then Right else if k = KC_FOCUS then Click row
      else if k = KC_MOUSE_R then ClickR row else if k = KC_MOUSE_C then ClickC row
      else if k = 0x18 then CtrlX else if k = 0x14 then CtrlT else Pressed OtherKey)"

subsection \<open>The keys that are returned\<close>

lemma key_byte_not_home: "key_byte c st t = Some (Got k r cl t1) \<Longrightarrow> k \<noteq> KC_HOME \<and> k \<noteq> KC_INS"
proof -
  assume g: "key_byte c st t = Some (Got k r cl t1)"
  have names: "map_of funckey e = Some key \<Longrightarrow> key \<noteq> KC_INS" for e key
    by (auto simp: funckey_def KC_INS_def KC_UP_def KC_DN_def KC_RIGHT_def KC_LEFT_def KC_HOME_def KC_DEL_def KC_END_def
        KC_PGUP_def KC_PGDN_def KC_FOCUS_def KC_F9_def split: if_splits)
  have "schar c = k \<Longrightarrow> c = CHR 0x14 \<or> c = CHR 0x18 \<Longrightarrow> k \<noteq> KC_HOME \<and> k \<noteq> KC_INS"
    by (auto simp: schar_def KC_HOME_def KC_INS_def)
  then show ?thesis
    using g names
    by (auto simp: key_byte_def plain_byte_def escape_byte_def Let_def KC_ENTER_def KC_FOCUS_def KC_MOUSE_C_def KC_MOUSE_R_def
        KC_HOME_def KC_INS_def split: if_splits option.splits)
qed

lemma key_bytes_not_home: "key_bytes bs st t = Some (Got k r cl t1, rest) \<Longrightarrow> k \<noteq> KC_HOME \<and> k \<noteq> KC_INS"
  by (induction bs st t rule: key_bytes.induct) (auto split: option.splits result.splits dest: key_byte_not_home)

text \<open>The keys home and insert are never reported, so the case of \<^verbatim>\<open>main\<close> for the former is dead.\<close>

lemma home_not_reported: "getkey bs t = Some (Got k r cl t1, rest) \<Longrightarrow> k \<noteq> KC_HOME \<and> k \<noteq> KC_INS"
  by (auto simp: getkey_def dest: key_bytes_not_home split: bind_splits)

subsection \<open>Typing\<close>

text \<open>A character that is drawn because its attribute changes may as well be in the copy already.\<close>

lemma cha2scr_forced:
  assumes "scrn_xref t (POS row col) \<noteq> attribute t" "col \<le> max_col t"
  shows "cha2scr row col cha (t\<lparr>scrn_char := (scrn_char t)(POS row col := cha)\<rparr>) = cha2scr row col cha t"
proof -
  let ?u = "t\<lparr>scrn_char := (scrn_char t)(POS row col := cha)\<rparr>"
  obtain tty where sp: "setpos row col t = t\<lparr>cursaddr := Some (POS row col), p_tty := tty\<rparr>" using setpos_eq by blast
  have "setpos row col ?u = (setpos row col t)\<lparr>scrn_char := (scrn_char t)(POS row col := cha)\<rparr>"
    by (simp add: setpos_def)
  then have su: "setpos row col ?u = t\<lparr>scrn_char := (scrn_char t)(POS row col := cha), cursaddr := Some (POS row col), p_tty := tty\<rparr>"
    by (simp add: sp)
  show ?thesis using assms by (simp add: cha2scr_def sp su Let_def)
qed

lemma reverse_differs: "x AND FA_REVERSE \<noteq> 0 \<Longrightarrow> x \<noteq> (x AND NOT FA_REVERSE) AND 0xfff"
proof
  assume r: "x AND FA_REVERSE \<noteq> 0" and eq: "x = (x AND NOT FA_REVERSE) AND 0xfff"
  have "((x AND NOT FA_REVERSE) AND 0xfff) AND FA_REVERSE = 0" by (rule bit_eqI) (auto simp: bit_simps)
  with r eq show False by metis
qed

lemma setattr_upd_char: "setattr x (t\<lparr>scrn_char := f\<rparr>) = (setattr x t)\<lparr>scrn_char := f\<rparr>"
  by (simp add: setattr_def Let_def)

lemma typed_focus:
  assumes ok: "pen_ok t" and f: "focused t = Some a" "a < max_siz t" "COL a \<le> max_col t" "scrn_xref t a AND FA_REVERSE \<noteq> 0"
    and c: "c \<noteq> NUL" and n: "no_of_input t \<noteq> 0" and b: "b < DEF_SIZ" "b \<noteq> a"
  shows "\<exists>t'. setfocus (ROW b) (COL b) (t\<lparr>scrn_char := (scrn_char t)(a := c)\<rparr>) = Some t' \<and> keeps t t' \<and>
    scrn_char t' = (scrn_char t)(a := c) \<and> focused t' = Some b"
proof -
  let ?t = "t\<lparr>scrn_char := (scrn_char t)(a := c)\<rparr>" and ?x = "scrn_xref t a AND NOT FA_REVERSE"
  let ?s = "setattr ?x t"
  have a: "a < DEF_SIZ" using f(2) max_siz_le [OF ok] by simp
  have rows: "ROW a \<le> DEF_ROW" "ROW b \<le> DEF_ROW" using a b by (auto simp: ROW_def DEF_SIZ_def DEF_ROW_def DEF_COL_def)
  have s: "pen_ok ?s" by (rule setattr_ok [OF ok])
  have "attribute ?s = ?x AND 0xfff" by (simp add: setattr_def Let_def)
  then have "scrn_xref ?s (POS (ROW a) (COL a)) \<noteq> attribute ?s" using reverse_differs [OF f(4)] by simp
  then have forced: "cha2scr (ROW a) (COL a) c (?s\<lparr>scrn_char := (scrn_char t)(a := c)\<rparr>) = cha2scr (ROW a) (COL a) c ?s"
    using cha2scr_forced [of ?s "ROW a" "COL a" c] f(3) by simp
  obtain ca tty t0 where w: "t0 \<in> {?s, texted (ROW a) (COL a) [c] ?s}"
    "cha2scr (ROW a) (COL a) c ?s = Some (t0\<lparr>cursaddr := ca, p_tty := tty\<rparr>)"
    "in_sync (t0\<lparr>cursaddr := ca, p_tty := tty\<rparr>)" "scrn_char t0 = (scrn_char t)(a := c)"
    using cha2scr_sync [OF pen_okD(1) [OF s] ROW_ge_1(1) [of a] rows(1) COL_bounds(1) [of a] COL_bounds(3) [of a] c] f(3) by auto
  let ?t1 = "t0\<lparr>cursaddr := ca, p_tty := tty, focused := None\<rparr>"
  have same: "s_fldmap t0 = s_fldmap t" "scrn_xpos t0 = scrn_xpos t" "max_row t0 = max_row t" "max_col t0 = max_col t"
    "no_of_input t0 = no_of_input t"
    using w(1) by (auto simp: texted_char)
  have k1: "keeps t ?t1"
    using w(3,4) ok same c by (auto simp: keeps_def pen_ok_def in_sync_def shown_ok_def cursor_ok_def fields_ok_def no_nul_def)
  have un: "unfocus ?t = Some ?t1"
    using f forced w(2) by (simp add: unfocus_def setattr_upd_char)
  obtain t' where t': "cha2scr (ROW b) (COL b) (scrn_char (setattr (scrn_xref ?t1 b OR FA_REVERSE) (?t1\<lparr>focused := Some b\<rparr>)) b)
      (setattr (scrn_xref ?t1 b OR FA_REVERSE) (?t1\<lparr>focused := Some b\<rparr>)) = Some t'"
    "keeps ?t1 t'" "scrn_char t' = scrn_char ?t1" "focused t' = Some b"
    using new_focus [OF keeps_ok [OF k1] ROW_ge_1(1) [of b] rows(2) COL_bounds(1) [of b] COL_bounds(3) [of b]] by auto
  have "setfocus (ROW b) (COL b) ?t = Some t'"
    unfolding setfocus_def un using f(1) b n same(5) t'(1) by (simp add: Let_def)
  then show ?thesis using t' keeps_trans [OF k1 t'(2)] w(4) by auto
qed

definition printable :: "char \<Rightarrow> bool" where
  "printable c \<longleftrightarrow> c \<notin> {CHR 0x1b, CHR 0x08, CHR 0x7f, CHR 0x09, CHR 0x0a, CHR 0x0d, CHR 0x14, CHR 0x18, NUL}"

lemma upper_not_NUL: "c \<noteq> NUL \<Longrightarrow> upper c \<noteq> NUL"
proof
  assume c: "c \<noteq> NUL" "upper c = NUL"
  then have r: "CHR ''a'' \<le> c" "c \<le> CHR ''z''" "char_of ((of_char c :: nat) - 32) = NUL" by (auto simp: upper_def split: if_splits)
  have "(of_char (CHR ''a'') :: nat) \<le> of_char c" "(of_char c :: nat) \<le> of_char (CHR ''z'')" using r(1,2) by (simp_all only: less_eq_char_def)
  then have b: "97 \<le> (of_char c :: nat)" "(of_char c :: nat) \<le> 122" by simp_all
  have "of_char (char_of ((of_char c :: nat) - 32) :: char) = ((of_char c :: nat) - 32) mod 256" by simp
  then show False using r(3) b by simp
qed

text \<open>
  C30. Typing. A character that is typed goes as a capital into the cell where the input is, and
  nowhere else; the input moves to the next input cell; the terminal shows all this, and no key is
  returned.
\<close>

theorem typing:
  assumes "pen_ok t" "focused t = Some a" "a < max_siz t" "COL a \<le> max_col t" "scrn_xref t a AND FA_REVERSE \<noteq> 0"
    and "printable c" "no_of_input t \<noteq> 0"
    and "List.find (input_cell t) (ring (max_siz t) a) = Some b" "b \<noteq> a" "escchk st = 0"
  shows "\<exists>t'. key_byte c st t = Some (More st t') \<and> pen_ok t' \<and> scrn_char t' = (scrn_char t)(a := upper c) \<and> focused t' = Some b"
proof -
  have "b \<in> set (ring (max_siz t) a)" using assms(8) by (metis find_Some_iff nth_mem)
  then have "b < DEF_SIZ" using max_siz_le [OF assms(1)] assms(3) by (auto simp: ring_def split: if_splits)
  moreover have "upper c \<noteq> NUL" using assms(6) by (intro upper_not_NUL) (simp add: printable_def)
  ultimately obtain t' where t': "setfocus (ROW b) (COL b) (t\<lparr>scrn_char := (scrn_char t)(a := upper c)\<rparr>) = Some t'" "keeps t t'"
    "scrn_char t' = (scrn_char t)(a := upper c)" "focused t' = Some b"
    using typed_focus [OF assms(1-5) _ assms(7) _ assms(9)] by blast
  have "input_cell (t\<lparr>scrn_char := f\<rparr>) = input_cell t" for f by (simp add: input_cell_def fun_eq_iff)
  then have "typed c t = Some t'" using assms(2,7,8) t'(1) by (simp add: typed_def focus_at_def)
  then have "key_byte c st t = Some (More st t')"
    using assms(6,10) by (simp add: key_byte_def plain_byte_def printable_def)
  with t' show ?thesis by (auto dest: keeps_ok)
qed

definition typing_pen :: PEN where
  "typing_pen = demo_pen0\<lparr>scrn_xref := (\<lambda>_. 0)(258 := 4), scrn_type := (\<lambda>a. if a = 258 \<or> a = 259 then 1 else 0),
     no_of_input := 2, focused := Some 258,
     p_tty := \<lparr>t_cell = (\<lambda>r c. if r = 2 \<and> c = 9 then (CHR '' '', [7, 37]) else blank), t_cur = (1, 1), t_rend = [37], t_cols = 80\<rparr>\<rparr>"

theorem typing_witness:
  "\<exists>t'. key_byte (CHR ''c'') keyst0 typing_pen = Some (More keyst0 t') \<and> scrn_char t' 258 = CHR ''C'' \<and> focused t' = Some 259"
proof -
  have cell: "POS r c = 258 \<longleftrightarrow> r = 2 \<and> c = 9" if "1 \<le> r" "1 \<le> c" "c \<le> 80" for r c
    using POS_eq_iff [of r c 2 9] that by (simp add: DEF_COL_def POS_def)
  have "sgr 4 = [7, 37]" by (simp add: sgr_def FA_BOLD_def FA_UNDERLINE_def FA_REVERSE_def FA_BLINK_def COLOR_F_def)
  then have ok: "pen_ok typing_pen"
    using cell by (auto simp: typing_pen_def demo_pen0_def pen_ok_def in_sync_def shown_ok_def cursor_ok_def fields_ok_def layout_ok_def
        no_nul_def blank_def glyph_def COL_def DEF_ROW_def DEF_COL_def)
  have ring: "ring (max_siz typing_pen) 258 = 259 # [260..<1920] @ [0..<259]"
    by (simp add: ring_def typing_pen_def demo_pen0_def upt_conv_Cons)
  have "List.find (input_cell typing_pen) (ring (max_siz typing_pen) 258) = Some 259"
    unfolding ring by (simp add: input_cell_def typing_pen_def is_input_def)
  then have "\<exists>t'. key_byte (CHR ''c'') keyst0 typing_pen = Some (More keyst0 t') \<and> pen_ok t' \<and>
      scrn_char t' = (scrn_char typing_pen)(258 := upper (CHR ''c'')) \<and> focused t' = Some 259"
    by (intro typing [OF ok]) (simp_all add: typing_pen_def demo_pen0_def COL_def DEF_COL_def FA_REVERSE_def printable_def keyst0_def)
  moreover have "upper (CHR ''c'') = CHR ''C''" by code_simp
  ultimately show ?thesis by auto
qed

end
