(* ===== verification/Json.thy ===== *)
theory Json
  imports Prelude
begin

text \<open>
  The configuration files as the sources see them: the tree \<^verbatim>\<open>json_parse_file\<close> returns and the
  access functions of \<^verbatim>\<open>src/lib/main/parson.c\<close> that the programs call on it. A null pointer is
  \<open>None\<close>, and every access function takes one. A number is the rational it denotes.

  The members of an object are kept in the order of the file; parson refuses a text that names a
  member twice, so the search through its hash table finds the member \<open>map_of\<close> finds. The table itself
  is in \<open>JsonTable\<close>, the parser and the serialiser are in \<open>JsonParse\<close>.
\<close>

datatype JSON_Value =
    JSONNull
  | JSONString string
  | JSONNumber rat
  | JSONObject "(string \<times> JSON_Value) list"
  | JSONArray "JSON_Value list"
  | JSONBoolean bool

type_synonym JSON_Object = "(string \<times> JSON_Value) list"
type_synonym JSON_Array = "JSON_Value list"

definition json_value_get_object :: "JSON_Value option \<Rightarrow> JSON_Object option" where
  "json_value_get_object v = (case v of Some (JSONObject ms) \<Rightarrow> Some ms | _ \<Rightarrow> None)"

definition json_value_get_array :: "JSON_Value option \<Rightarrow> JSON_Array option" where
  "json_value_get_array v = (case v of Some (JSONArray xs) \<Rightarrow> Some xs | _ \<Rightarrow> None)"

definition json_value_get_string :: "JSON_Value option \<Rightarrow> string option" where
  "json_value_get_string v = (case v of Some (JSONString s) \<Rightarrow> Some s | _ \<Rightarrow> None)"

definition json_value_get_number :: "JSON_Value option \<Rightarrow> rat" where
  "json_value_get_number v = (case v of Some (JSONNumber q) \<Rightarrow> q | _ \<Rightarrow> 0)"

definition json_object_get_value :: "JSON_Object option \<Rightarrow> string \<Rightarrow> JSON_Value option" where
  "json_object_get_value ob name = (case ob of None \<Rightarrow> None | Some ms \<Rightarrow> map_of ms name)"

definition json_object_get_string :: "JSON_Object option \<Rightarrow> string \<Rightarrow> string option" where
  "json_object_get_string ob name = json_value_get_string (json_object_get_value ob name)"

definition json_object_get_number :: "JSON_Object option \<Rightarrow> string \<Rightarrow> rat" where
  "json_object_get_number ob name = json_value_get_number (json_object_get_value ob name)"

definition json_object_get_object :: "JSON_Object option \<Rightarrow> string \<Rightarrow> JSON_Object option" where
  "json_object_get_object ob name = json_value_get_object (json_object_get_value ob name)"

definition json_object_get_array :: "JSON_Object option \<Rightarrow> string \<Rightarrow> JSON_Array option" where
  "json_object_get_array ob name = json_value_get_array (json_object_get_value ob name)"

definition json_array_get_count :: "JSON_Array option \<Rightarrow> nat" where
  "json_array_get_count arr = (case arr of None \<Rightarrow> 0 | Some xs \<Rightarrow> length xs)"

definition json_array_get_value :: "JSON_Array option \<Rightarrow> nat \<Rightarrow> JSON_Value option" where
  "json_array_get_value arr index =
     (case arr of None \<Rightarrow> None
      | Some xs \<Rightarrow> if index \<ge> json_array_get_count arr then None else Some (xs ! index))"

definition json_array_get_object :: "JSON_Array option \<Rightarrow> nat \<Rightarrow> JSON_Object option" where
  "json_array_get_object arr index = json_value_get_object (json_array_get_value arr index)"

lemmas json_defs = json_value_get_object_def json_value_get_array_def json_value_get_string_def
  json_value_get_number_def json_object_get_value_def json_object_get_string_def
  json_object_get_number_def json_object_get_object_def json_object_get_array_def
  json_array_get_count_def json_array_get_value_def json_array_get_object_def

text \<open>\<^verbatim>\<open>(int)\<close> of a \<^verbatim>\<open>double\<close>: towards zero; undefined outside the range of \<^verbatim>\<open>int\<close>.\<close>

definition int_of_double :: "double \<Rightarrow> int option" where
  "int_of_double q =
     (let n = (if q < 0 then - \<lfloor>- q\<rfloor> else \<lfloor>q\<rfloor>)
      in if - (2 ^ 31) \<le> n \<and> n < 2 ^ 31 then Some n else None)"

lemma int_of_double_of_int: "- (2 ^ 31) \<le> n \<Longrightarrow> n < 2 ^ 31 \<Longrightarrow> int_of_double (of_int n) = Some n"
  by (simp add: int_of_double_def Let_def flip: of_int_minus)

end
