(* ===== verification/MonServer.thy ===== *)
theory MonServer
  imports FolderTable Json "HOL-Library.Product_Lexorder"
begin

text \<open>
  The process server (\<^verbatim>\<open>src/mon/monserver.c\<close>): it starts a \<^verbatim>\<open>monrecv\<close> and a \<^verbatim>\<open>monfep\<close> for every
  exchange that \<^verbatim>\<open>MONMAIN.json\<close> switches on, starts them again when they die, and takes the
  messages \<^verbatim>\<open>moninit\<close> writes to its pipe.

  \<open>TABLES\<close> are the server's variables: a forked child has a copy of them. \<open>KERNEL\<close> is what the
  system keeps of the children: a child runs, has been sent SIGTERM, is one whose \<^verbatim>\<open>execv\<close> fails and
  who therefore still runs the server's code on its copy, or waits to be reaped. The results of the
  coming \<^verbatim>\<open>fork\<close>s are a list, so that a property holds for any outcome of them. A child that can be
  executed is taken to have left the server's code when \<^verbatim>\<open>fork\<close> returns.

  The signal handler runs between two turns in \<open>server_step\<close>, and between any two operations of the
  main thread, the gap between \<^verbatim>\<open>fork\<close> and the entry of the row included, in \<open>handled_step\<close>. It does
  not run in the middle of \<^verbatim>\<open>qsort\<close> or \<^verbatim>\<open>memmove\<close>, where it would see a table half moved.

  A row of the running table is its index, the null pointer \<open>None\<close>; a result \<open>None\<close> is a write
  behind an array or a read through a null pointer.
\<close>

subsection \<open>Data\<close>

definition MAX_EXCHANGE :: nat where "MAX_EXCHANGE = 64"
definition COMMAND1 :: string where "COMMAND1 = ''monrecv''"
definition COMMAND2 :: string where "COMMAND2 = ''monfep''"
definition CONFIG_UPDATE_MSG :: string where "CONFIG_UPDATE_MSG = ''AAADADAWLDMNALKSNDAKLNWDLKQANL''"
definition KILL_ALL_MSG :: string where "KILL_ALL_MSG = ''ADASD123KLNDA00VKLKNK3ADC''"
definition RUN_ALL_MSG :: string where "RUN_ALL_MSG = ''GSLGEKNGLSKDNSLBBBLAD1123''"

text \<open>The values of \<^verbatim>\<open>CONFIG_UPDATE_FLAG\<close>: 0 or one of the three commands.\<close>

definition KILL_ALL :: int where "KILL_ALL = 1"
definition CONFIG_UPDATE :: int where "CONFIG_UPDATE = 2"
definition RUN_ALL :: int where "RUN_ALL = 3"

record PROCESS_CONFIG =
  pc_exchange :: string
  pc_running  :: int

record RUNNING_TABLE =
  rn_exchange :: string
  rn_procname :: string
  rn_command  :: string
  rn_pid      :: int
  rn_uptime   :: time_t

record TABLES =
  running_table  :: "RUNNING_TABLE list"
  running_vrec   :: nat
  process_config :: "PROCESS_CONFIG list"
  exchange_vrec  :: nat
  at_exit        :: bool

datatype kid_state = Runs | Told | Fails TABLES | Zombie

record kid =
  k_pid      :: int
  k_exchange :: string
  k_procname :: string
  k_state    :: kid_state

datatype srv_line =
    Started string
  | Killed string
  | Aborted string
  | ForkFailed string
  | CannotRun string string

record KERNEL =
  kids     :: "kid list"
  forks    :: "int list"
  programs :: "string list"
  bin_dir  :: string
  now_s    :: time_t
  init_log :: "srv_line list"

type_synonym world = "TABLES \<times> KERNEL"

definition row0 :: RUNNING_TABLE where
  "row0 = \<lparr>rn_exchange = [], rn_procname = [], rn_command = [], rn_pid = 0, rn_uptime = 0\<rparr>"

definition process0 :: PROCESS_CONFIG where
  "process0 = \<lparr>pc_exchange = [], pc_running = 0\<rparr>"

definition tables0 :: TABLES where
  "tables0 = \<lparr>running_table = replicate MAX_EXCHANGE row0, running_vrec = 0,
     process_config = replicate MAX_EXCHANGE process0, exchange_vrec = 0, at_exit = False\<rparr>"

definition configs :: "TABLES \<Rightarrow> PROCESS_CONFIG list" where
  "configs t = take (exchange_vrec t) (process_config t)"

subsection \<open>System calls\<close>

text \<open>\<^verbatim>\<open>fork\<close> as the parent sees it, \<^verbatim>\<open>kill(pid, SIGTERM)\<close> and \<^verbatim>\<open>waitpid(-1, .., WNOHANG)\<close>.\<close>

definition fork :: "KERNEL \<Rightarrow> int \<times> KERNEL" where
  "fork k = (case forks k of [] \<Rightarrow> (-1, k) | p # ps \<Rightarrow> (p, k\<lparr>forks := ps\<rparr>))"

definition told :: "int \<Rightarrow> kid \<Rightarrow> kid" where
  "told pid c = (if k_pid c = pid \<and> k_state c = Runs then c\<lparr>k_state := Told\<rparr> else c)"

definition sys_kill :: "int \<Rightarrow> KERNEL \<Rightarrow> int \<times> KERNEL" where
  "sys_kill pid k =
     (if pid \<in> set (map k_pid (kids k)) then (0, k\<lparr>kids := map (told pid) (kids k)\<rparr>) else (-1, k))"

definition waitpid :: "KERNEL \<Rightarrow> (int \<times> KERNEL) option" where
  "waitpid k =
     (case dropWhile (\<lambda>c. k_state c \<noteq> Zombie) (kids k) of
        [] \<Rightarrow> None
      | z # rest \<Rightarrow>
          Some (k_pid z, k\<lparr>kids := takeWhile (\<lambda>c. k_state c \<noteq> Zombie) (kids k) @ rest\<rparr>))"

definition writelog :: "srv_line \<Rightarrow> KERNEL \<Rightarrow> KERNEL" where
  "writelog l k = k\<lparr>init_log := init_log k @ [l]\<rparr>"

subsection \<open>The running table\<close>

definition cmp_run_table :: "RUNNING_TABLE \<Rightarrow> RUNNING_TABLE \<Rightarrow> int" where
  "cmp_run_table a b =
     (let exch_cmp = strcmp (rn_exchange a) (rn_exchange b)
      in if exch_cmp \<noteq> 0 then exch_cmp else strcmp (rn_procname a) (rn_procname b))"

definition run_key :: "RUNNING_TABLE \<Rightarrow> string \<times> string" where
  "run_key r = (rn_exchange r, rn_procname r)"

interpretation run_rows: c_compare cmp_run_table run_key
  by unfold_locales (auto simp: cmp_run_table_def run_key_def less_prod_def Let_def)

definition run_live :: "TABLES \<Rightarrow> RUNNING_TABLE list" where
  "run_live t = take (running_vrec t) (running_table t)"

definition get_running_table :: "TABLES \<Rightarrow> string \<Rightarrow> string \<Rightarrow> nat option" where
  "get_running_table t exnm procname =
     bsearch cmp_run_table (row0\<lparr>rn_exchange := exnm, rn_procname := procname\<rparr>) (run_live t)"

definition new_running_table :: "time_t \<Rightarrow> TABLES \<Rightarrow> string \<Rightarrow> string \<Rightarrow> (nat option \<times> TABLES) option" where
  "new_running_table now t exnm procname =
     (let temp = row0\<lparr>rn_exchange := exnm, rn_procname := procname, rn_uptime := now\<rparr>;
          n = Suc (running_vrec t);
          tab = (running_table t)[running_vrec t := temp];
          t' = t\<lparr>running_table := qsort cmp_run_table (take n tab) @ drop n tab, running_vrec := n\<rparr>
      in if running_vrec t \<ge> length (running_table t) then None
         else Some (get_running_table t' exnm procname, t'))"

definition del_running_table :: "TABLES \<Rightarrow> string \<Rightarrow> string \<Rightarrow> TABLES option" where
  "del_running_table t exnm procname =
     (case get_running_table t exnm procname of
        None \<Rightarrow> Some t
      | Some i \<Rightarrow>
          let count = int (running_vrec t) - schar i - 1; n = nat count; tab = running_table t
          in if count < 0 \<or> Suc i + n > length tab then None
             else Some (t\<lparr>running_table := take i tab @ take n (drop (Suc i) tab) @ drop (i + n) tab,
                          running_vrec := running_vrec t - 1\<rparr>))"

subsection \<open>Starting and stopping processes\<close>

definition command_line :: "KERNEL \<Rightarrow> string \<Rightarrow> string" where
  "command_line k procname = bin_dir k @ ''/'' @ procname"

text \<open>The child that \<^verbatim>\<open>fork\<close> makes, with its copy of the tables when it cannot leave the code.\<close>

definition spawn :: "TABLES \<Rightarrow> string \<Rightarrow> string \<Rightarrow> int \<Rightarrow> KERNEL \<Rightarrow> KERNEL" where
  "spawn t exnm procname pid k =
     k\<lparr>kids := kids k @ [\<lparr>k_pid = pid, k_exchange = exnm, k_procname = procname,
         k_state = (if procname \<in> set (programs k) then Runs else Fails t)\<rparr>]\<rparr>"

text \<open>The parent's branch after a successful \<^verbatim>\<open>fork\<close>.\<close>

definition register :: "string \<Rightarrow> string \<Rightarrow> int \<Rightarrow> world \<Rightarrow> world option" where
  "register exnm procname pid w = (case w of (t, k) \<Rightarrow>
     (case new_running_table (now_s k) t exnm procname of
        Some (Some i, t') \<Rightarrow>
          let command = command_line k procname @ '' '' @ exnm;
              row = (running_table t' ! i)\<lparr>rn_pid := pid, rn_command := command\<rparr>
          in Some (t'\<lparr>running_table := (running_table t')[i := row]\<rparr>, writelog (Started command) k)
      | _ \<Rightarrow> None))"

definition run_process :: "string \<Rightarrow> string \<Rightarrow> world \<Rightarrow> (int \<times> world) option" where
  "run_process exnm procname w = (case w of (t, k) \<Rightarrow>
     (case get_running_table t exnm procname of
        Some _ \<Rightarrow> Some (0, t, k)
      | None \<Rightarrow>
          (case fork k of (pid, k1) \<Rightarrow>
             if pid < 0 then Some (-1, t, writelog (ForkFailed exnm) k1)
             else map_option (Pair 0) (register exnm procname pid (t, spawn t exnm procname pid k1)))))"

definition kill_process :: "string \<Rightarrow> string \<Rightarrow> world \<Rightarrow> world option" where
  "kill_process exnm procname w = (case w of (t, k) \<Rightarrow>
     (case get_running_table t exnm procname of
        None \<Rightarrow> Some (t, k)
      | Some i \<Rightarrow>
          (case sys_kill (rn_pid (running_table t ! i)) k of (r, k1) \<Rightarrow>
             if r = 0 then
               map_option (\<lambda>t'. (t', writelog (Killed (rn_command (running_table t ! i))) k1))
                 (del_running_table t exnm procname)
             else Some (t, k1))))"

fun kill_each :: "PROCESS_CONFIG list \<Rightarrow> world \<Rightarrow> world option" where
  "kill_each [] w = Some w"
| "kill_each (c # cs) w =
     (case kill_process (pc_exchange c) COMMAND1 w of None \<Rightarrow> None
      | Some w1 \<Rightarrow>
          (case kill_process (pc_exchange c) COMMAND2 w1 of None \<Rightarrow> None
           | Some w2 \<Rightarrow> kill_each cs w2))"

definition kill_all_process :: "world \<Rightarrow> world option" where
  "kill_all_process w = kill_each (configs (fst w)) w"

definition cannot_run :: "string \<Rightarrow> string \<Rightarrow> world \<Rightarrow> world" where
  "cannot_run procname exnm w = (fst w, writelog (CannotRun procname exnm) (snd w))"

fun run_each :: "PROCESS_CONFIG list \<Rightarrow> world \<Rightarrow> (int \<times> world) option" where
  "run_each [] w = Some (0, w)"
| "run_each (c # cs) w =
     (if pc_running c = 0 then run_each cs w
      else case run_process (pc_exchange c) COMMAND1 w of None \<Rightarrow> None
      | Some (r1, w1) \<Rightarrow>
          if r1 = -1 then Some (-1, cannot_run COMMAND1 (pc_exchange c) w1)
          else (case run_process (pc_exchange c) COMMAND2 w1 of None \<Rightarrow> None
          | Some (r2, w2) \<Rightarrow>
              if r2 = -1 then Some (-1, cannot_run COMMAND2 (pc_exchange c) w2)
              else run_each cs w2))"

definition run_all_process :: "world \<Rightarrow> (int \<times> world) option" where
  "run_all_process w = run_each (configs (fst w)) w"

text \<open>One program of one exchange in \<^verbatim>\<open>check_all_process\<close>, whose result nobody reads.\<close>

definition check_one :: "int \<Rightarrow> string \<Rightarrow> string \<Rightarrow> world \<Rightarrow> world option" where
  "check_one running exnm procname w =
     (if running = 1 then
        (if get_running_table (fst w) exnm procname = None
         then map_option snd (run_process exnm procname w) else Some w)
      else
        (if get_running_table (fst w) exnm procname \<noteq> None
         then kill_process exnm procname w else Some w))"

fun check_each :: "PROCESS_CONFIG list \<Rightarrow> world \<Rightarrow> world option" where
  "check_each [] w = Some w"
| "check_each (c # cs) w =
     (case check_one (pc_running c) (pc_exchange c) COMMAND1 w of None \<Rightarrow> None
      | Some w1 \<Rightarrow>
          (case check_one (pc_running c) (pc_exchange c) COMMAND2 w1 of None \<Rightarrow> None
           | Some w2 \<Rightarrow> check_each cs w2))"

definition check_all_process :: "world \<Rightarrow> world option" where
  "check_all_process w = check_each (configs (fst w)) w"

text \<open>
  A child whose \<^verbatim>\<open>execv\<close> failed: it deletes its row from its copy and calls \<^verbatim>\<open>exit\<close>, which runs what
  the server registered with \<^verbatim>\<open>atexit\<close>.
\<close>

definition zombie :: "int \<Rightarrow> KERNEL \<Rightarrow> KERNEL" where
  "zombie pid k = k\<lparr>kids := map (\<lambda>c. if k_pid c = pid then c\<lparr>k_state := Zombie\<rparr> else c) (kids k)\<rparr>"

definition failed_child :: "kid \<Rightarrow> TABLES \<Rightarrow> KERNEL \<Rightarrow> KERNEL option" where
  "failed_child c t k =
     (case del_running_table t (k_exchange c) (k_procname c) of None \<Rightarrow> None
      | Some t1 \<Rightarrow>
          let k1 = writelog (Aborted (command_line k (k_procname c))) k
          in map_option (\<lambda>w. zombie (k_pid c) (snd w))
               (if at_exit t1 then kill_all_process (t1, k1) else Some (t1, k1)))"

subsection \<open>Reaping children\<close>

text \<open>
  The row of a dead child goes; the line logged is the command that stands at its place afterwards.
\<close>

fun row_of_pid :: "int \<Rightarrow> RUNNING_TABLE list \<Rightarrow> nat option" where
  "row_of_pid pid [] = None"
| "row_of_pid pid (r # rs) = (if rn_pid r = pid then Some 0 else map_option Suc (row_of_pid pid rs))"

definition reap :: "int \<Rightarrow> world \<Rightarrow> world option" where
  "reap xpid w = (case w of (t, k) \<Rightarrow>
     (case row_of_pid xpid (run_live t) of
        None \<Rightarrow> Some (t, k)
      | Some ii \<Rightarrow>
          let r = running_table t ! ii
          in map_option (\<lambda>t'. (t', writelog (Aborted (rn_command (running_table t' ! ii))) k))
               (del_running_table t (rn_exchange r) (rn_procname r))))"

lemma waitpid_less: "waitpid k = Some (p, k') \<Longrightarrow> length (kids k') < length (kids k)"
proof -
  assume "waitpid k = Some (p, k')"
  then obtain z rest where d: "dropWhile (\<lambda>c. k_state c \<noteq> Zombie) (kids k) = z # rest"
    and k': "kids k' = takeWhile (\<lambda>c. k_state c \<noteq> Zombie) (kids k) @ rest"
    by (auto simp: waitpid_def split: list.splits)
  have "kids k = takeWhile (\<lambda>c. k_state c \<noteq> Zombie) (kids k) @ z # rest"
    using takeWhile_dropWhile_id [of "\<lambda>c. k_state c \<noteq> Zombie" "kids k"] d by simp
  then have "length (kids k) = Suc (length (kids k'))"
    unfolding k' by (metis add_Suc_right length_Cons length_append)
  then show ?thesis by simp
qed

lemma reap_kids: "reap p (t, k) = Some (t', k') \<Longrightarrow> kids k' = kids k"
  by (auto simp: reap_def writelog_def Let_def split: option.splits)

function clean_zombies :: "TABLES \<Rightarrow> KERNEL \<Rightarrow> world option" where
  "clean_zombies t k =
     (case waitpid k of
        None \<Rightarrow> Some (t, k)
      | Some (xpid, k1) \<Rightarrow>
          (case reap xpid (t, k1) of None \<Rightarrow> None | Some (t', k') \<Rightarrow> clean_zombies t' k'))"
  by pat_completeness auto
termination
  by (relation "measure (\<lambda>(t, k). length (kids k))") (auto simp: waitpid_less reap_kids)

declare clean_zombies.simps [simp del]

definition clean_zombie_process :: "world \<Rightarrow> world option" where
  "clean_zombie_process w = clean_zombies (fst w) (snd w)"

subsection \<open>Configuration, messages and the main loop\<close>

text \<open>
  The rows of \<^verbatim>\<open>MONMAIN.json\<close>. An exchange name that fills its 128 bytes is left without a
  terminator and every later use of it reads on behind it: \<open>None\<close>, like a missing name.
\<close>

definition config_row :: "JSON_Object option \<Rightarrow> PROCESS_CONFIG option" where
  "config_row object =
     (case json_object_get_string object ''exchange'' of
        None \<Rightarrow> None
      | Some exchange \<Rightarrow>
          (case int_of_double (json_object_get_number object ''running'') of
             None \<Rightarrow> None
           | Some running \<Rightarrow>
               if length (cstr exchange) \<ge> 128 then None
               else Some \<lparr>pc_exchange = cstr exchange, pc_running = running\<rparr>))"

definition get_process_config :: "JSON_Value option \<Rightarrow> TABLES \<Rightarrow> (int \<times> TABLES) option" where
  "get_process_config rootValue t =
     (case rootValue of
        None \<Rightarrow> Some (-1, t)
      | Some _ \<Rightarrow>
          let rootArray = json_value_get_array rootValue;
              n = min MAX_EXCHANGE (json_array_get_count rootArray);
              rows = map (\<lambda>i. config_row (json_array_get_object rootArray i)) [0..<n]
          in if None \<in> set rows then None
             else Some (0, t\<lparr>exchange_vrec := n,
                             process_config := map the rows @ drop n (process_config t)\<rparr>))"

record SERVER =
  sv_world   :: world
  RUNNING    :: bool
  update_flag :: int

text \<open>What \<^verbatim>\<open>read_named_pipe\<close> does with the bytes of one \<^verbatim>\<open>read\<close>.\<close>

definition read_msg :: "string \<Rightarrow> SERVER \<Rightarrow> SERVER" where
  "read_msg msgb s =
     (if msgb = [] then s
      else if strcmp (cstr msgb) CONFIG_UPDATE_MSG = 0 then s\<lparr>update_flag := CONFIG_UPDATE\<rparr>
      else if strcmp (cstr msgb) KILL_ALL_MSG = 0 then s\<lparr>update_flag := KILL_ALL\<rparr>
      else if strcmp (cstr msgb) RUN_ALL_MSG = 0 then s\<lparr>update_flag := RUN_ALL\<rparr>
      else s)"

text \<open>
  The switch of the main loop on the flag and a whole turn, with the configuration file as it is at
  the time. \<open>Left\<close> is the \<^verbatim>\<open>return (-1)\<close> of \<^verbatim>\<open>main\<close>, after which \<^verbatim>\<open>atexit\<close> kills the processes.
\<close>

datatype turn = Goes SERVER | Left world

definition main_switch :: "JSON_Value option \<Rightarrow> SERVER \<Rightarrow> turn option" where
  "main_switch file s =
     (if update_flag s = KILL_ALL then
        map_option (\<lambda>w. Goes (s\<lparr>sv_world := w, RUNNING := False, update_flag := 0\<rparr>))
          (kill_all_process (sv_world s))
      else if update_flag s = CONFIG_UPDATE then
        (case get_process_config file (fst (sv_world s)) of
           None \<Rightarrow> None
         | Some (r, t) \<Rightarrow>
             if r = -1 then map_option Left (kill_all_process (sv_world s))
             else Some (Goes (s\<lparr>sv_world := (t, snd (sv_world s)), update_flag := 0\<rparr>)))
      else if update_flag s = RUN_ALL then
        map_option (\<lambda>(r, w). Goes (s\<lparr>sv_world := w, RUNNING := True, update_flag := 0\<rparr>))
          (run_all_process (sv_world s))
      else Some (Goes s))"

definition main_turn :: "JSON_Value option \<Rightarrow> SERVER \<Rightarrow> turn option" where
  "main_turn file s =
     (case main_switch file s of
        None \<Rightarrow> None
      | Some (Left w) \<Rightarrow> Some (Left w)
      | Some (Goes s1) \<Rightarrow>
          if RUNNING s1 then
            map_option (\<lambda>w. Goes (s1\<lparr>sv_world := w\<rparr>)) (check_all_process (sv_world s1))
          else Some (Goes s1))"

text \<open>The start: the file, then the processes, then \<^verbatim>\<open>atexit\<close>; \<open>None\<close> inside for \<^verbatim>\<open>return (-1)\<close>.\<close>

definition server_start :: "JSON_Value option \<Rightarrow> KERNEL \<Rightarrow> SERVER option option" where
  "server_start file k =
     (case get_process_config file tables0 of
        None \<Rightarrow> None
      | Some (r, t) \<Rightarrow>
          if r = -1 then Some None
          else (case run_all_process (t, k) of
                  None \<Rightarrow> None
                | Some (r', t', k') \<Rightarrow>
                    if r' = -1 then Some None
                    else Some (Some \<lparr>sv_world = (t'\<lparr>at_exit := True\<rparr>, k'),
                                     RUNNING = True, update_flag = 0\<rparr>)))"

subsection \<open>The table as a map\<close>

definition run_map :: "TABLES \<Rightarrow> string \<times> string \<rightharpoonup> RUNNING_TABLE" where
  "run_map t = table_of run_key (run_live t)"

definition tables_ok :: "TABLES \<Rightarrow> bool" where
  "tables_ok t \<longleftrightarrow>
     length (running_table t) = MAX_EXCHANGE \<and> running_vrec t \<le> MAX_EXCHANGE \<and>
     length (process_config t) = MAX_EXCHANGE \<and> exchange_vrec t \<le> MAX_EXCHANGE \<and>
     sorted (map run_key (run_live t)) \<and> distinct (map run_key (run_live t))"

lemma tables_okD:
  assumes "tables_ok t"
  shows "length (running_table t) = MAX_EXCHANGE" "running_vrec t \<le> MAX_EXCHANGE"
    "length (process_config t) = MAX_EXCHANGE" "exchange_vrec t \<le> MAX_EXCHANGE"
    "sorted (map run_key (run_live t))" "distinct (map run_key (run_live t))"
    "length (run_live t) = running_vrec t"
  using assms by (auto simp: tables_ok_def run_live_def)

lemma run_live_nth: "i < running_vrec t \<Longrightarrow> run_live t ! i = running_table t ! i"
  by (simp add: run_live_def)

lemma run_map_get:
  assumes "tables_ok t"
  shows "run_map t (e, p) = map_option ((!) (running_table t)) (get_running_table t e p)"
    and "get_running_table t e p = Some i \<Longrightarrow>
      i < running_vrec t \<and> run_key (running_table t ! i) = (e, p)"
proof -
  note b = tables_okD [OF assms]
  let ?k = "row0\<lparr>rn_exchange := e, rn_procname := p\<rparr>"
  have k: "run_key ?k = (e, p)" by (simp add: run_key_def)
  have i: "i < running_vrec t \<and> run_key (running_table t ! i) = (e, p)"
    if "get_running_table t e p = Some i" for i
    using run_rows.bsearch_Some [of ?k "run_live t" i] that b k
    by (auto simp: get_running_table_def run_live_nth)
  then show "get_running_table t e p = Some i \<Longrightarrow>
      i < running_vrec t \<and> run_key (running_table t ! i) = (e, p)" .
  show "run_map t (e, p) = map_option ((!) (running_table t)) (get_running_table t e p)"
    using run_rows.table_of_bsearch [OF b(5,6), of ?k] k i
    by (cases "get_running_table t e p") (auto simp: run_map_def get_running_table_def run_live_nth)
qed

lemma run_map_iff:
  "tables_ok t \<Longrightarrow> run_map t k = Some r \<longleftrightarrow> r \<in> set (run_live t) \<and> run_key r = k"
  by (simp add: run_map_def table_of_Some_iff tables_okD)

lemma run_count: "tables_ok t \<Longrightarrow> running_vrec t = card (dom (run_map t))"
  by (simp add: run_map_def card_dom_table_of tables_okD)

text \<open>What the operations on the table leave alone.\<close>

definition same_rest :: "TABLES \<Rightarrow> TABLES \<Rightarrow> bool" where
  "same_rest t t' \<longleftrightarrow> process_config t' = process_config t \<and> exchange_vrec t' = exchange_vrec t \<and>
     at_exit t' = at_exit t"

lemma same_rest_refl [simp]: "same_rest t t"
  by (simp add: same_rest_def)

lemma same_rest_trans: "same_rest t u \<Longrightarrow> same_rest u v \<Longrightarrow> same_rest t v"
  by (simp add: same_rest_def)

lemma same_rest_configs: "same_rest t t' \<Longrightarrow> configs t' = configs t"
  by (simp add: same_rest_def configs_def)

lemma new_running_table_ok:
  fixes now :: time_t
  assumes "tables_ok t" "run_map t (e, p) = None" "running_vrec t < MAX_EXCHANGE"
  defines "temp \<equiv> row0\<lparr>rn_exchange := e, rn_procname := p, rn_uptime := now\<rparr>"
  shows "\<exists>i t'. new_running_table now t e p = Some (Some i, t') \<and> tables_ok t' \<and>
    run_map t' = (run_map t)((e, p) \<mapsto> temp) \<and> i < running_vrec t' \<and> running_table t' ! i = temp \<and>
    same_rest t t'"
proof -
  note b = tables_okD [OF assms(1)]
  let ?n = "Suc (running_vrec t)" and ?tab = "(running_table t)[running_vrec t := temp]"
  let ?t = "t\<lparr>running_table := qsort cmp_run_table (take ?n ?tab) @ drop ?n ?tab, running_vrec := ?n\<rparr>"
  have k: "run_key temp = (e, p)" by (simp add: run_key_def temp_def)
  have snoc: "take ?n ?tab = run_live t @ [temp]"
    using b assms(3) by (simp add: run_live_def take_Suc_conv_app_nth)
  have live: "run_live ?t = qsort cmp_run_table (run_live t @ [temp])"
    using b by (simp add: run_live_def snoc [unfolded run_live_def])
  have fresh: "run_key temp \<notin> run_key ` set (run_live t)"
    using assms(2) by (simp add: run_map_def table_of_None_iff k)
  have ok: "tables_ok ?t"
    unfolding tables_ok_def live using b assms(3) fresh
    by (simp add: run_rows.sorted_qsort run_rows.distinct_qsort)
  have m: "run_map ?t = (run_map t)((e, p) \<mapsto> temp)"
    unfolding run_map_def live using run_rows.table_of_qsort_snoc [OF b(6) fresh] by (simp add: k)
  have "map_option ((!) (running_table ?t)) (get_running_table ?t e p) = Some temp"
    unfolding run_map_get(1) [OF ok, symmetric] m by simp
  then obtain i where i: "get_running_table ?t e p = Some i" "running_table ?t ! i = temp"
    unfolding map_option_eq_Some by blast
  have "new_running_table now t e p = Some (Some i, ?t)"
    using i(1) b assms(3) by (simp add: new_running_table_def Let_def temp_def)
  with ok m i run_map_get(2) [OF ok i(1)] show ?thesis by (auto simp: same_rest_def)
qed

text \<open>The row \<^verbatim>\<open>run_process\<close> leaves for a new child.\<close>

definition row_for :: "KERNEL \<Rightarrow> string \<Rightarrow> string \<Rightarrow> int \<Rightarrow> RUNNING_TABLE" where
  "row_for k e p pid = \<lparr>rn_exchange = e, rn_procname = p, rn_command = command_line k p @ '' '' @ e,
     rn_pid = pid, rn_uptime = now_s k\<rparr>"

lemma register_ok:
  assumes "tables_ok t" "run_map t (e, p) = None" "running_vrec t < MAX_EXCHANGE"
  shows "\<exists>t'. register e p pid (t, k) = Some (t', writelog (Started (command_line k p @ '' '' @ e)) k) \<and>
    tables_ok t' \<and> run_map t' = (run_map t)((e, p) \<mapsto> row_for k e p pid) \<and> same_rest t t'"
proof -
  let ?temp = "row0\<lparr>rn_exchange := e, rn_procname := p, rn_uptime := now_s k\<rparr>"
  obtain i t1 where n: "new_running_table (now_s k) t e p = Some (Some i, t1)" "tables_ok t1"
    "run_map t1 = (run_map t)((e, p) \<mapsto> ?temp)" "i < running_vrec t1" "running_table t1 ! i = ?temp"
    "same_rest t t1"
    using new_running_table_ok [OF assms] by blast
  note b = tables_okD [OF n(2)]
  let ?t = "t1\<lparr>running_table := (running_table t1)[i := row_for k e p pid]\<rparr>"
  have row: "?temp\<lparr>rn_pid := pid, rn_command := command_line k p @ '' '' @ e\<rparr> = row_for k e p pid"
    by (simp add: row0_def row_for_def)
  have live: "run_live ?t = (run_live t1)[i := row_for k e p pid]"
    using n(4) by (simp add: run_live_def take_update_swap)
  have key: "run_key (row_for k e p pid) = run_key (run_live t1 ! i)" "i < length (run_live t1)"
    using n(4,5) b by (simp_all add: run_live_nth run_key_def row_for_def)
  note u = table_of_update [OF b(6) key(2,1)]
  have "tables_ok ?t" using n(2) u(1) by (simp add: tables_ok_def live)
  moreover have "run_map ?t = (run_map t)((e, p) \<mapsto> row_for k e p pid)"
    using u(2) n(3) by (simp add: run_map_def live) (simp add: run_key_def row_for_def)
  moreover have "same_rest t ?t" using n(6) by (simp add: same_rest_def)
  moreover have "register e p pid (t, k) = Some (?t, writelog (Started (command_line k p @ '' '' @ e)) k)"
    using n(1,5) row by (simp add: register_def Let_def)
  ultimately show ?thesis by blast
qed

lemma del_running_table_absent: "tables_ok t \<Longrightarrow> run_map t (e, p) = None \<Longrightarrow> del_running_table t e p = Some t"
  using run_map_get(1) [of t e p] by (simp add: del_running_table_def)

lemma del_running_table_ok:
  assumes "tables_ok t" "run_map t (e, p) = Some r"
  shows "\<exists>t'. del_running_table t e p = Some t' \<and> tables_ok t' \<and> run_map t' = (run_map t)((e, p) := None) \<and>
    same_rest t t'"
proof -
  note b = tables_okD [OF assms(1)]
  obtain i where i: "get_running_table t e p = Some i"
    using run_map_get(1) [OF assms(1), of e p] assms(2) by (cases "get_running_table t e p") auto
  note g = run_map_get(2) [OF assms(1) i]
  have s: "schar i = int i" using g b by (intro schar_small) (simp add: MAX_EXCHANGE_def)
  let ?n = "running_vrec t - Suc i" and ?tab = "running_table t"
  let ?t = "t\<lparr>running_table := take i ?tab @ take ?n (drop (Suc i) ?tab) @ drop (i + ?n) ?tab,
    running_vrec := running_vrec t - 1\<rparr>"
  have n: "nat (int (running_vrec t) - schar i - 1) = ?n" using g s by simp
  have mn: "min (running_vrec t - Suc 0) i = i" using g by linarith
  have live: "run_live ?t = take i (run_live t) @ drop (Suc i) (run_live t)"
    using g b mn by (simp add: run_live_def take_drop)
  have del: "del_running_table t e p = Some ?t"
    using i g b s n by (simp add: del_running_table_def Let_def)
  have len: "length (running_table ?t) = MAX_EXCHANGE" using g b by simp
  have "tables_ok ?t"
    unfolding tables_ok_def live using b g len sorted_remove_nth [OF b(5), of i] distinct_remove_nth [OF b(6), of i]
    by simp
  moreover have "run_map ?t = (run_map t)((e, p) := None)"
    unfolding run_map_def live using table_of_remove_nth [OF b(6), of i] g b by (simp add: run_live_nth)
  ultimately show ?thesis using del by (auto simp: same_rest_def)
qed

abbreviation pids :: "KERNEL \<Rightarrow> int set" where
  "pids k \<equiv> set (map k_pid (kids k))"

lemma told_pid [simp]: "k_pid (told p c) = k_pid c"
  by (simp add: told_def)

lemma sys_kill_pids: "map k_pid (kids (snd (sys_kill p k))) = map k_pid (kids k)"
  by (simp add: sys_kill_def)

lemma writelog_frame [simp, frame]:
  "kids (writelog l k) = kids k" "forks (writelog l k) = forks k" "programs (writelog l k) = programs k"
  "bin_dir (writelog l k) = bin_dir k" "now_s (writelog l k) = now_s k"
  by (simp_all add: writelog_def)

text \<open>A registered process whose child is still there is told to end and loses its row.\<close>

lemma kill_process_ok:
  assumes "tables_ok t"
  shows "\<exists>t' k'. kill_process e p (t, k) = Some (t', k') \<and> tables_ok t' \<and> same_rest t t' \<and>
    run_map t' = (case run_map t (e, p) of
      Some r \<Rightarrow> if rn_pid r \<in> pids k then (run_map t)((e, p) := None) else run_map t | None \<Rightarrow> run_map t) \<and>
    kids k' = (case run_map t (e, p) of
      Some r \<Rightarrow> map (told (rn_pid r)) (kids k) | None \<Rightarrow> kids k) \<and>
    forks k' = forks k \<and> programs k' = programs k"
proof (cases "get_running_table t e p")
  case None
  then show ?thesis using run_map_get(1) [OF assms, of e p] assms by (simp add: kill_process_def)
next
  case (Some i)
  let ?r = "running_table t ! i"
  have r: "run_map t (e, p) = Some ?r" using run_map_get(1) [OF assms, of e p] Some by simp
  show ?thesis
  proof (cases "rn_pid ?r \<in> pids k")
    case True
    obtain t' where "del_running_table t e p = Some t'" "tables_ok t'"
      "run_map t' = (run_map t)((e, p) := None)" "same_rest t t'"
      using del_running_table_ok [OF assms r] by blast
    with True Some r show ?thesis by (simp add: kill_process_def sys_kill_def)
  next
    case False
    then have "\<forall>c\<in>set (kids k). k_pid c \<noteq> rn_pid ?r" by (metis imageI set_map)
    then have "map (told (rn_pid ?r)) (kids k) = kids k" by (intro map_idI) (simp add: told_def)
    with False Some r assms show ?thesis by (simp add: kill_process_def sys_kill_def)
  qed
qed

lemma run_process_registered: "tables_ok t \<Longrightarrow> (e, p) \<in> dom (run_map t) \<Longrightarrow> run_process e p (t, k) = Some (0, t, k)"
  using run_map_get(1) [of t e p] by (cases "get_running_table t e p") (auto simp: run_process_def)

lemma run_process_ok:
  assumes "tables_ok t" "run_map t (e, p) = None" "running_vrec t < MAX_EXCHANGE"
    "forks k = pid # ps" "0 \<le> pid"
  shows "\<exists>t' k'. run_process e p (t, k) = Some (0, t', k') \<and> tables_ok t' \<and> same_rest t t' \<and>
    run_map t' = (run_map t)((e, p) \<mapsto> row_for k e p pid) \<and>
    kids k' = kids (spawn t e p pid k) \<and> forks k' = ps \<and> programs k' = programs k"
proof -
  let ?k = "spawn t e p pid (k\<lparr>forks := ps\<rparr>)"
  obtain t' where t': "register e p pid (t, ?k) = Some (t', writelog (Started (command_line ?k p @ '' '' @ e)) ?k)"
    "tables_ok t'" "run_map t' = (run_map t)((e, p) \<mapsto> row_for ?k e p pid)" "same_rest t t'"
    using register_ok [OF assms(1-3)] by blast
  have "row_for ?k e p pid = row_for k e p pid"
    by (simp add: row_for_def spawn_def command_line_def)
  with t' assms(2,4,5) run_map_get(1) [OF assms(1), of e p] show ?thesis
    by (simp add: run_process_def fork_def spawn_def)
qed

subsection \<open>Bringing the processes in line with the configuration\<close>

text \<open>Every registered process is a child that has not been reaped.\<close>

definition rows_have_kids :: "world \<Rightarrow> bool" where
  "rows_have_kids w \<longleftrightarrow> (\<forall>r\<in>set (run_live (fst w)). rn_pid r \<in> pids (snd w))"

lemma rows_have_kids_map:
  "tables_ok t \<Longrightarrow> rows_have_kids (t, k) \<longleftrightarrow> (\<forall>x r. run_map t x = Some r \<longrightarrow> rn_pid r \<in> pids k)"
  unfolding rows_have_kids_def by (simp add: run_map_iff) (metis surj_pair)

lemma rows_have_kids_removed:
  assumes "tables_ok t" "tables_ok t'" "rows_have_kids (t, k)" "pids k \<subseteq> pids k'"
    "run_map t' = run_map t \<or> run_map t' = (run_map t)(x := None)"
  shows "rows_have_kids (t', k')"
  using assms unfolding rows_have_kids_map [OF assms(1)] rows_have_kids_map [OF assms(2)]
  by (auto split: if_splits)

definition progs :: "PROCESS_CONFIG list \<Rightarrow> (string \<times> string) set" where
  "progs cs = set (map pc_exchange cs) \<times> {COMMAND1, COMMAND2}"

definition switched_on :: "PROCESS_CONFIG list \<Rightarrow> PROCESS_CONFIG list" where
  "switched_on cs = filter (\<lambda>c. pc_running c = 1) cs"

lemma progs_simps [simp]:
  "progs [] = {}" "progs (c # cs) = {(pc_exchange c, COMMAND1), (pc_exchange c, COMMAND2)} \<union> progs cs"
  "switched_on [] = []"
  "switched_on (c # cs) = (if pc_running c = 1 then c # switched_on cs else switched_on cs)"
  by (auto simp: progs_def switched_on_def)

lemma progs_exchange: "(e, p) \<in> progs cs \<Longrightarrow> e \<in> set (map pc_exchange cs)"
  by (auto simp: progs_def)

lemma progs_on_subset: "progs (switched_on cs) \<subseteq> progs cs"
  by (induction cs) auto

lemma finite_progs [simp]: "finite (progs cs)"
  by (simp add: progs_def)

lemma finite_run_map [simp]: "finite (dom (run_map t))"
  by (simp add: run_map_def table_of_def finite_dom_map_of)

text \<open>What one look at a program needs: kernel and table ready for a start.\<close>

definition ready :: "nat \<Rightarrow> (string \<times> string) set \<Rightarrow> world \<Rightarrow> bool" where
  "ready n W w \<longleftrightarrow> finite W \<and> tables_ok (fst w) \<and> rows_have_kids w \<and> (\<forall>p\<in>set (forks (snd w)). 0 \<le> p) \<and>
     n \<le> length (forks (snd w)) \<and> card (dom (run_map (fst w)) \<union> W) \<le> MAX_EXCHANGE"

lemma spawn_pids: "pids (spawn t e p pid k) = insert pid (pids k)"
  by (simp add: spawn_def)

lemma run_process_ready:
  assumes "ready (Suc n) (insert (e, p) W) (t, k)" "run_map t (e, p) = None"
  shows "\<exists>w'. run_process e p (t, k) = Some (0, w') \<and> ready n W w' \<and> same_rest t (fst w') \<and>
    dom (run_map (fst w')) = insert (e, p) (dom (run_map t))"
proof -
  have ok: "tables_ok t" "rows_have_kids (t, k)" "finite W"
    and f: "\<forall>p\<in>set (forks k). 0 \<le> p" "Suc n \<le> length (forks k)"
    and room: "card (dom (run_map t) \<union> insert (e, p) W) \<le> MAX_EXCHANGE"
    using assms(1) by (auto simp: ready_def)
  obtain pid ps where ps: "forks k = pid # ps" "0 \<le> pid" "n \<le> length ps" "\<forall>p\<in>set ps. 0 \<le> p"
    using f by (cases "forks k") auto
  have "card (insert (e, p) (dom (run_map t))) \<le> card (dom (run_map t) \<union> insert (e, p) W)"
    using ok(3) by (intro card_mono) auto
  then have "running_vrec t < MAX_EXCHANGE"
    using room assms(2) by (simp add: run_count [OF ok(1)] card_insert_if domIff)
  from run_process_ok [OF ok(1) assms(2) this ps(1,2)] obtain t' k' where
    r: "run_process e p (t, k) = Some (0, t', k')" "tables_ok t'" "same_rest t t'"
    "run_map t' = (run_map t)((e, p) \<mapsto> row_for k e p pid)" "kids k' = kids (spawn t e p pid k)"
    "forks k' = ps" by blast
  have "rows_have_kids (t', k')"
    using ok(2) unfolding rows_have_kids_map [OF ok(1)] rows_have_kids_map [OF r(2)] r(4,5) spawn_pids
    by (auto simp: row_for_def)
  moreover have "dom (run_map t') \<union> W = dom (run_map t) \<union> insert (e, p) W"
    unfolding r(4) by auto
  ultimately show ?thesis using r ps ok(3) room by (auto simp: ready_def)
qed

lemma kill_process_ready:
  assumes "ready n W (t, k)"
  shows "\<exists>w'. kill_process e p (t, k) = Some w' \<and> ready n W w' \<and> same_rest t (fst w') \<and>
    dom (run_map (fst w')) = dom (run_map t) - {(e, p)}"
proof -
  have ok: "tables_ok t" "rows_have_kids (t, k)" "finite W"
    and room: "card (dom (run_map t) \<union> W) \<le> MAX_EXCHANGE"
    using assms by (auto simp: ready_def)
  obtain t' k' where r: "kill_process e p (t, k) = Some (t', k')" "tables_ok t'" "same_rest t t'"
    "run_map t' = (case run_map t (e, p) of
      Some r \<Rightarrow> if rn_pid r \<in> pids k then (run_map t)((e, p) := None) else run_map t | None \<Rightarrow> run_map t)"
    "kids k' = (case run_map t (e, p) of Some r \<Rightarrow> map (told (rn_pid r)) (kids k) | None \<Rightarrow> kids k)"
    "forks k' = forks k"
    using kill_process_ok [OF ok(1), of e p k] by blast
  have m: "run_map t' = (run_map t)((e, p) := None)"
    using r(4) ok(2) unfolding rows_have_kids_map [OF ok(1)]
    by (cases "run_map t (e, p)") (auto simp: fun_upd_idem)
  have "pids k' = pids k" by (auto simp: r(5) image_image split: option.splits)
  then have "rows_have_kids (t', k')" using rows_have_kids_removed [OF ok(1) r(2) ok(2)] m by blast
  moreover have "card (dom (run_map t') \<union> W) \<le> card (dom (run_map t) \<union> W)"
    unfolding m using ok(3) by (intro card_mono) auto
  ultimately show ?thesis using r assms room m by (auto simp: ready_def)
qed

lemma ready_weaken: "ready n W w \<Longrightarrow> m \<le> n \<Longrightarrow> V \<subseteq> dom (run_map (fst w)) \<union> W \<Longrightarrow> finite V \<Longrightarrow> ready m V w"
  unfolding ready_def using card_mono [of "dom (run_map (fst w)) \<union> W" "dom (run_map (fst w)) \<union> V"]
  by fastforce

lemma check_one_ok:
  assumes "ready (Suc n) (if running = 1 then insert (e, p) W else W) w"
  shows "\<exists>w'. check_one running e p w = Some w' \<and> ready n W w' \<and> same_rest (fst w) (fst w') \<and>
    dom (run_map (fst w')) =
      (if running = 1 then insert (e, p) (dom (run_map (fst w))) else dom (run_map (fst w)) - {(e, p)})"
proof -
  obtain t k where w: "w = (t, k)" by fastforce
  have ok: "tables_ok t" and fin: "finite W" using assms by (auto simp: ready_def w split: if_splits)
  have get: "get_running_table t e p = None \<longleftrightarrow> (e, p) \<notin> dom (run_map t)"
    using run_map_get(1) [OF ok, of e p] by (auto simp: domIff)
  have weak: "ready n W w" if "running \<noteq> 1 \<or> (e, p) \<in> dom (run_map t)"
    using that fin by (intro ready_weaken [OF assms]) (auto simp: w)
  consider "running = 1" "(e, p) \<notin> dom (run_map t)" | "running \<noteq> 1" "(e, p) \<in> dom (run_map t)"
    | "running = 1 \<longleftrightarrow> (e, p) \<in> dom (run_map t)" by blast
  then show ?thesis
  proof cases
    case 1
    then show ?thesis
      using run_process_ready [of n e p W t k] assms get by (auto simp: check_one_def w domIff)
  next
    case 2
    then show ?thesis
      using kill_process_ready [of n W t k e p] weak get by (auto simp: check_one_def w)
  next
    case 3
    then show ?thesis using weak get by (auto simp: check_one_def w insert_absorb)
  qed
qed

lemma check_each_ok:
  "ready (2 * length cs) (progs (switched_on cs)) w \<Longrightarrow> distinct (map pc_exchange cs) \<Longrightarrow>
   \<exists>w'. check_each cs w = Some w' \<and> ready 0 {} w' \<and> same_rest (fst w) (fst w') \<and>
     dom (run_map (fst w')) = (dom (run_map (fst w)) - progs cs) \<union> progs (switched_on cs)"
proof (induction cs arbitrary: w)
  case Nil
  then show ?case by simp
next
  case (Cons c cs)
  let ?e = "pc_exchange c" and ?on = "pc_running c = 1" and ?W = "progs (switched_on cs)"
  have "ready (Suc (Suc (2 * length cs)))
      (if ?on then insert (?e, COMMAND1) (if ?on then insert (?e, COMMAND2) ?W else ?W)
       else (if ?on then insert (?e, COMMAND2) ?W else ?W)) w"
    using Cons.prems(1) by (simp split: if_splits)
  from check_one_ok [OF this] obtain w1 where
    1: "check_one (pc_running c) ?e COMMAND1 w = Some w1" "same_rest (fst w) (fst w1)"
    "ready (Suc (2 * length cs)) (if ?on then insert (?e, COMMAND2) ?W else ?W) w1"
    "dom (run_map (fst w1)) = (if ?on then insert (?e, COMMAND1) (dom (run_map (fst w)))
       else dom (run_map (fst w)) - {(?e, COMMAND1)})" by blast
  from check_one_ok [OF 1(3)] obtain w2 where
    2: "check_one (pc_running c) ?e COMMAND2 w1 = Some w2" "same_rest (fst w1) (fst w2)"
    "ready (2 * length cs) ?W w2"
    "dom (run_map (fst w2)) = (if ?on then insert (?e, COMMAND2) (dom (run_map (fst w1)))
       else dom (run_map (fst w1)) - {(?e, COMMAND2)})" by blast
  from Cons.IH [OF 2(3)] Cons.prems(2) obtain w' where
    3: "check_each cs w2 = Some w'" "ready 0 {} w'" "same_rest (fst w2) (fst w')"
    "dom (run_map (fst w')) = (dom (run_map (fst w2)) - progs cs) \<union> ?W" by auto
  have "(?e, q) \<notin> progs cs" for q using Cons.prems(2) progs_exchange by fastforce
  then have "dom (run_map (fst w')) = (dom (run_map (fst w)) - progs (c # cs)) \<union> progs (switched_on (c # cs))"
    unfolding 3(4) 2(4) 1(4) by auto
  with 1 2 3 show ?case by (auto intro: same_rest_trans)
qed

subsection \<open>Invariant of the server\<close>

text \<open>
  No two rows have the same process id, no two children have, and none has one that a coming
  \<^verbatim>\<open>fork\<close> will return.
\<close>

definition world_inv :: "world \<Rightarrow> bool" where
  "world_inv w \<longleftrightarrow> tables_ok (fst w) \<and> rows_have_kids w \<and> distinct (map rn_pid (run_live (fst w))) \<and>
     distinct (map k_pid (kids (snd w)) @ filter (\<lambda>p. 0 \<le> p) (forks (snd w)))"

lemma pids_distinct_map:
  assumes "tables_ok t"
  shows "distinct (map rn_pid (run_live t)) \<longleftrightarrow>
    (\<forall>x y r s. run_map t x = Some r \<and> run_map t y = Some s \<and> rn_pid r = rn_pid s \<longrightarrow> x = y)"
proof -
  have inj: "inj_on run_key (set (run_live t))" and d: "distinct (run_live t)"
    using tables_okD(6) [OF assms] by (simp_all add: distinct_map)
  have "inj_on rn_pid (set (run_live t)) \<longleftrightarrow>
      (\<forall>r\<in>set (run_live t). \<forall>s\<in>set (run_live t). rn_pid r = rn_pid s \<longrightarrow> run_key r = run_key s)"
    unfolding inj_on_def using inj_onD [OF inj] by metis
  moreover have "\<dots> \<longleftrightarrow> (\<forall>x y r s. (r \<in> set (run_live t) \<and> run_key r = x) \<and>
      (s \<in> set (run_live t) \<and> run_key s = y) \<and> rn_pid r = rn_pid s \<longrightarrow> x = y)" by blast
  ultimately show ?thesis using d unfolding run_map_iff [OF assms] distinct_map by blast
qed

text \<open>A program whose row bears the process id of a child that is gone, and that has no child.\<close>

definition stuck :: "string \<times> string \<Rightarrow> RUNNING_TABLE \<Rightarrow> world \<Rightarrow> bool" where
  "stuck x r w \<longleftrightarrow> run_map (fst w) x = Some r \<and>
     rn_pid r \<notin> pids (snd w) \<union> set (forks (snd w)) \<and>
     (\<forall>c\<in>set (kids (snd w)). (k_exchange c, k_procname c) \<noteq> x)"

definition safe :: "world \<Rightarrow> world \<Rightarrow> bool" where
  "safe w w' \<longleftrightarrow> (tables_ok (fst w) \<longrightarrow> tables_ok (fst w') \<and> (world_inv w \<longrightarrow> world_inv w') \<and>
     (\<forall>x r. stuck x r w \<longrightarrow> stuck x r w'))"

lemma safe_refl [simp]: "safe w w"
  by (simp add: safe_def)

lemma safe_trans: "safe u v \<Longrightarrow> safe v w \<Longrightarrow> safe u w"
  by (auto simp: safe_def)

abbreviation kid_ids :: "KERNEL \<Rightarrow> (int \<times> string \<times> string) list" where
  "kid_ids k \<equiv> map (\<lambda>c. (k_pid c, k_exchange c, k_procname c)) (kids k)"

text \<open>Neither the tables nor which children there are changes.\<close>

lemma safe_same:
  assumes "run_live t' = run_live t" "tables_ok t \<Longrightarrow> tables_ok t'"
    "kid_ids k' = kid_ids k"
    "forks k' = forks k \<or> forks k' = tl (forks k)"
  shows "safe (t, k) (t', k')"
proof -
  have "map fst (kid_ids k') = map fst (kid_ids k)" "map snd (kid_ids k') = map snd (kid_ids k)"
    by (simp_all only: assms(3))
  then have p: "map k_pid (kids k') = map k_pid (kids k)"
    and m: "map (\<lambda>c. (k_exchange c, k_procname c)) (kids k') = map (\<lambda>c. (k_exchange c, k_procname c)) (kids k)"
    by (simp_all add: comp_def)
  have n: "(\<lambda>c. (k_exchange c, k_procname c)) ` set (kids k') = (\<lambda>c. (k_exchange c, k_procname c)) ` set (kids k)"
    using arg_cong [OF m, of set] by simp
  have d: "distinct (map k_pid (kids k) @ filter ((\<le>) 0) (forks k'))"
    if "distinct (map k_pid (kids k) @ filter ((\<le>) 0) (forks k))"
    by (rule disjE [OF assms(4)]; use that in \<open>cases "forks k"\<close>) (simp_all split: if_splits)
  have f: "set (forks k') \<subseteq> set (forks k)" using assms(4) by (cases "forks k") auto
  have r: "run_map t' = run_map t" using assms(1) by (simp add: run_map_def)
  have s: "(\<forall>c\<in>set (kids k'). (k_exchange c, k_procname c) \<noteq> x) \<longleftrightarrow> (\<forall>c\<in>set (kids k). (k_exchange c, k_procname c) \<noteq> x)" for x
    using n by (metis (no_types, lifting) imageE imageI)
  have "world_inv (t, k) \<Longrightarrow> tables_ok t' \<Longrightarrow> world_inv (t', k')"
    unfolding world_inv_def rows_have_kids_def fst_conv snd_conv p assms(1) using d by simp
  moreover have "stuck x u (t', k')" if "stuck x u (t, k)" for x u
  proof -
    have "run_map t x = Some u" "rn_pid u \<notin> pids k" "rn_pid u \<notin> set (forks k)"
      "\<forall>c\<in>set (kids k). (k_exchange c, k_procname c) \<noteq> x"
      using that unfolding stuck_def fst_conv snd_conv by blast+
    then show ?thesis unfolding stuck_def fst_conv snd_conv p r s using f by blast
  qed
  ultimately show ?thesis using assms(2) by (auto simp: safe_def)
qed

lemma kill_process_kids:
  assumes "kill_process e p (t, k) = Some (t', k')"
  shows "kid_ids k' = kid_ids k"
    "forks k' = forks k"
  using assms by (auto simp: kill_process_def sys_kill_def told_def split: option.splits if_splits)

lemma kill_process_safe: "kill_process e p w = Some w' \<Longrightarrow> safe w w'"
proof -
  assume a: "kill_process e p w = Some w'"
  obtain t k t' k' where w: "w = (t, k)" "w' = (t', k')" by fastforce
  note ids = kill_process_kids [OF a [unfolded w]]
  show ?thesis
  proof (cases "tables_ok t")
    case ok: True
    have r: "tables_ok t'" "run_map t' = (case run_map t (e, p) of
      Some r \<Rightarrow> if rn_pid r \<in> pids k then (run_map t)((e, p) := None) else run_map t | None \<Rightarrow> run_map t)"
      using kill_process_ok [OF ok, of e p k] a w by auto
    have sub: "run_map t' x = Some u \<Longrightarrow> run_map t x = Some u" for x u
      using r(2) by (auto split: option.splits if_splits)
    have keep: "run_map t x = Some u \<Longrightarrow> rn_pid u \<notin> pids k \<Longrightarrow> run_map t' x = Some u" for x u
      using r(2) by (auto split: option.splits if_splits)
    have "safe (t, k) (t, k')" using ids by (intro safe_same) auto
    moreover have "world_inv (t, k') \<Longrightarrow> world_inv (t', k')"
      unfolding world_inv_def fst_conv snd_conv pids_distinct_map [OF ok] pids_distinct_map [OF r(1)]
        rows_have_kids_map [OF ok] rows_have_kids_map [OF r(1)]
      using r(1) sub by blast
    moreover have "pids k' = pids k"
      using arg_cong [OF ids(1), of "\<lambda>l. fst ` set l"] by (simp add: image_image)
    then have "stuck x u (t, k') \<Longrightarrow> stuck x u (t', k')" for x u
      using keep by (auto simp: stuck_def)
    ultimately show ?thesis using r(1) ok by (auto simp: safe_def w)
  next
    case False
    then show ?thesis by (simp add: safe_def w)
  qed
qed

lemma run_process_safe: "run_process e p w = Some (r, w') \<Longrightarrow> safe w w'"
proof -
  assume a: "run_process e p w = Some (r, w')"
  obtain t k where w: "w = (t, k)" by fastforce
  show ?thesis
  proof (cases "tables_ok t")
    case False
    then show ?thesis by (simp add: safe_def w)
  next
    case ok: True
    note get = run_map_get(1) [OF ok, of e p]
    consider "w' = w" | "\<exists>l. w' = (t, writelog l (snd (fork k)))"
      | pid ps where "run_map t (e, p) = None" "forks k = pid # ps" "0 \<le> pid" "running_vrec t < MAX_EXCHANGE"
      using a get tables_okD(1) [OF ok]
      by (auto simp: run_process_def w fork_def register_def new_running_table_def Let_def not_less
          split: option.splits list.splits if_splits)
    then show ?thesis
    proof cases
      case 2
      then show ?thesis unfolding w
        by (auto intro!: safe_same simp: fork_def split: list.splits)
    next
      case 3
      from run_process_ok [OF ok 3(1,4,2,3)] a w obtain t' k' where
        n: "w' = (t', k')" "tables_ok t'" "run_map t' = (run_map t)((e, p) \<mapsto> row_for k e p pid)"
        "kids k' = kids (spawn t e p pid k)" "forks k' = ps" by auto
      have pk: "pids k' = insert pid (pids k)" using n(4) spawn_pids by simp
      have "world_inv (t', k')" if "world_inv (t, k)"
      proof -
        have d: "distinct (map k_pid (kids k) @ filter ((\<le>) 0) (pid # ps))"
          "rows_have_kids (t, k)" "distinct (map rn_pid (run_live t))"
          using that 3(2) by (simp_all add: world_inv_def)
        have "pid \<notin> pids k" using d(1) 3(3) by simp
        then have new: "rn_pid u \<noteq> pid" if "run_map t x = Some u" for x u
          using d(2) that unfolding rows_have_kids_map [OF ok] by metis
        have "rows_have_kids (t', k')"
          using d(2) unfolding rows_have_kids_map [OF ok] rows_have_kids_map [OF n(2)] pk n(3)
          by (auto simp: row_for_def)
        moreover have old: "run_map t z = Some u \<and> rn_pid u \<noteq> pid"
          if "z \<noteq> (e, p)" "run_map t' z = Some u" for z u
          using that new by (simp add: n(3))
        have own: "rn_pid u = pid" if "run_map t' (e, p) = Some u" for u
          using that by (auto simp: n(3) row_for_def)
        have "x = y" if "run_map t' x = Some u" "run_map t' y = Some v" "rn_pid u = rn_pid v" for x y u v
          using that old [of x u] old [of y v] own d(3) unfolding pids_distinct_map [OF ok] by metis
        then have "distinct (map rn_pid (run_live t'))" unfolding pids_distinct_map [OF n(2)] by blast
        moreover have "distinct (map k_pid (kids k') @ filter ((\<le>) 0) (forks k'))"
          using d(1) 3(3) by (simp add: n(4,5) spawn_def)
        ultimately show ?thesis using n(2) by (simp add: world_inv_def)
      qed
      moreover have "stuck x u (t', k')" if "stuck x u (t, k)" for x u
        using that 3(1,2) pk n(5) by (auto simp: stuck_def n(3,4)) (auto simp: spawn_def)
      ultimately show ?thesis using n(1,2) by (simp add: safe_def w)
    qed simp
  qed
qed

lemma waitpid_Some:
  assumes "waitpid k = Some (p, k')"
  obtains xs z ys where "kids k = xs @ z # ys" "k_pid z = p" "k_state z = Zombie" "k' = k\<lparr>kids := xs @ ys\<rparr>"
proof -
  obtain z ys where d: "dropWhile (\<lambda>c. k_state c \<noteq> Zombie) (kids k) = z # ys"
    and k': "k_pid z = p" "k' = k\<lparr>kids := takeWhile (\<lambda>c. k_state c \<noteq> Zombie) (kids k) @ ys\<rparr>"
    using assms by (auto simp: waitpid_def split: list.splits)
  have "kids k = takeWhile (\<lambda>c. k_state c \<noteq> Zombie) (kids k) @ z # ys"
    using takeWhile_dropWhile_id [of "\<lambda>c. k_state c \<noteq> Zombie" "kids k"] d by simp
  moreover have "k_state z = Zombie"
    using hd_dropWhile [of "\<lambda>c. k_state c \<noteq> Zombie" "kids k"] d by auto
  ultimately show ?thesis using that k' by blast
qed

lemma row_of_pid_Some: "row_of_pid p rs = Some i \<Longrightarrow> i < length rs \<and> rn_pid (rs ! i) = p"
  by (induction rs arbitrary: i) (auto split: if_splits)

lemma row_of_pid_None: "row_of_pid p rs = None \<Longrightarrow> r \<in> set rs \<Longrightarrow> rn_pid r \<noteq> p"
  by (induction rs) (auto split: if_splits)

text \<open>The first row with the process id goes, if there is one.\<close>

lemma reap_ok:
  assumes "tables_ok t"
  shows "\<exists>t' k'. reap p (t, k) = Some (t', k') \<and> tables_ok t' \<and> same_rest t t' \<and>
    ((\<exists>x u. run_map t x = Some u \<and> rn_pid u = p \<and> run_map t' = (run_map t)(x := None)) \<or>
     (\<forall>x u. run_map t x = Some u \<longrightarrow> rn_pid u \<noteq> p) \<and> run_map t' = run_map t) \<and>
    kids k' = kids k \<and> forks k' = forks k"
proof (cases "row_of_pid p (run_live t)")
  case None
  then show ?thesis using assms row_of_pid_None by (auto simp: reap_def run_map_iff)
next
  case (Some i)
  let ?r = "running_table t ! i"
  have i: "i < running_vrec t" "rn_pid ?r = p"
    using row_of_pid_Some [OF Some] tables_okD(7) [OF assms] by (auto simp: run_live_nth)
  have r: "run_map t (rn_exchange ?r, rn_procname ?r) = Some ?r"
    using i tables_okD(7) [OF assms] nth_mem [of i "run_live t"]
    by (simp add: run_map_iff [OF assms] run_key_def run_live_nth)
  obtain t' where "del_running_table t (rn_exchange ?r) (rn_procname ?r) = Some t'" "tables_ok t'"
    "run_map t' = (run_map t)((rn_exchange ?r, rn_procname ?r) := None)" "same_rest t t'"
    using del_running_table_ok [OF assms r] by blast
  with Some i r show ?thesis by (auto simp: reap_def Let_def)
qed

lemma reap_safe:
  assumes "waitpid k = Some (p, k1)" "reap p (t, k1) = Some (t', k')"
  shows "safe (t, k) (t', k')"
proof (cases "tables_ok t")
  case ok: True
  obtain xs z ys where k: "kids k = xs @ z # ys" "k_pid z = p" "k1 = k\<lparr>kids := xs @ ys\<rparr>"
    using waitpid_Some [OF assms(1)] by metis
  have r: "tables_ok t'" "kids k' = xs @ ys" "forks k' = forks k"
    "(\<exists>x u. run_map t x = Some u \<and> rn_pid u = p \<and> run_map t' = (run_map t)(x := None)) \<or>
     (\<forall>x u. run_map t x = Some u \<longrightarrow> rn_pid u \<noteq> p) \<and> run_map t' = run_map t"
    using reap_ok [OF ok, of p k1] assms(2) k(3) by auto
  have sub: "run_map t' x = Some u \<Longrightarrow> run_map t x = Some u" for x u
    using r(4) by (auto split: if_splits)
  have pk: "p \<in> pids k" "pids k' \<subseteq> pids k" "pids k \<subseteq> insert p (pids k')" using k r(2) by auto
  have "world_inv (t', k')" if inv: "world_inv (t, k)"
  proof -
    have d: "rows_have_kids (t, k)" "distinct (map rn_pid (run_live t))"
      "distinct (map k_pid (kids k) @ filter ((\<le>) 0) (forks k))"
      using inv by (simp_all add: world_inv_def)
    have other: "rn_pid v \<noteq> p" if v: "run_map t' y = Some v" for y v
      using r(4) sub [OF v] v d(2) unfolding pids_distinct_map [OF ok] by (metis fun_upd_same option.distinct(1))
    have "rows_have_kids (t', k')"
      using d(1) sub other pk(3) unfolding rows_have_kids_map [OF ok] rows_have_kids_map [OF r(1)] by blast
    moreover have "distinct (map rn_pid (run_live t'))"
      using d(2) sub unfolding pids_distinct_map [OF ok] pids_distinct_map [OF r(1)] by blast
    moreover have "distinct (map k_pid (kids k') @ filter ((\<le>) 0) (forks k'))"
      using d(3) by (simp add: k(1) r(2,3))
    ultimately show ?thesis using r(1) by (simp add: world_inv_def)
  qed
  moreover have "stuck y v (t', k')" if "stuck y v (t, k)" for y v
  proof -
    have v: "run_map t y = Some v" "rn_pid v \<notin> pids k" "rn_pid v \<notin> set (forks k)"
      "\<forall>c\<in>set (kids k). (k_exchange c, k_procname c) \<noteq> y"
      using that by (simp_all add: stuck_def)
    then have "run_map t' y = Some v" using r(4) pk(1) by auto
    then show ?thesis using v pk(2) r(2,3) k(1) by (auto simp: stuck_def)
  qed
  ultimately show ?thesis using r(1) by (simp add: safe_def)
qed (simp add: safe_def)

lemma clean_zombies_safe: "clean_zombies t k = Some w' \<Longrightarrow> safe (t, k) w'"
proof (induction t k rule: clean_zombies.induct)
  case (1 t k)
  show ?case
  proof (cases "waitpid k")
    case None
    with 1 show ?thesis by (subst (asm) clean_zombies.simps) simp
  next
    case (Some pk)
    obtain p k1 where p: "waitpid k = Some (p, k1)" using Some by (cases pk) auto
    then obtain t2 k2 where r: "reap p (t, k1) = Some (t2, k2)" "clean_zombies t2 k2 = Some w'"
      using "1.prems" by (subst (asm) clean_zombies.simps) (auto split: option.splits)
    have "safe (t2, k2) w'" using "1.IH" [OF p _ r(1)] r(2) by simp
    with reap_safe [OF p r(1)] show ?thesis by (rule safe_trans)
  qed
qed

lemma kill_each_safe: "kill_each cs w = Some w' \<Longrightarrow> safe w w'"
  by (induction cs arbitrary: w)
    (auto split: option.splits dest!: kill_process_safe, metis safe_trans)

lemma cannot_run_safe: "safe w (cannot_run p e w)"
  by (cases w) (auto simp: cannot_run_def intro!: safe_same)

lemma run_each_safe: "run_each cs w = Some (r, w') \<Longrightarrow> safe w w'"
  by (induction cs arbitrary: w)
    (auto split: option.splits if_splits dest!: run_process_safe, (metis safe_trans cannot_run_safe)+)

lemma check_one_safe: "check_one running e p w = Some w' \<Longrightarrow> safe w w'"
  by (auto simp: check_one_def split: if_splits dest: run_process_safe kill_process_safe)

lemma check_each_safe: "check_each cs w = Some w' \<Longrightarrow> safe w w'"
  by (induction cs arbitrary: w)
    (auto split: option.splits dest!: check_one_safe, metis safe_trans)

lemma kill_each_kids:
  "kill_each cs w = Some w' \<Longrightarrow> kid_ids (snd w') = kid_ids (snd w) \<and> forks (snd w') = forks (snd w)"
proof (induction cs arbitrary: w)
  case (Cons c cs)
  obtain w1 w2 where s: "kill_process (pc_exchange c) COMMAND1 w = Some w1"
    "kill_process (pc_exchange c) COMMAND2 w1 = Some w2" "kill_each cs w2 = Some w'"
    using Cons.prems by (auto split: option.splits)
  show ?case
    using Cons.IH [OF s(3)] kill_process_kids [of _ _ "fst w" "snd w" "fst w1" "snd w1"]
      kill_process_kids [of _ _ "fst w1" "snd w1" "fst w2" "snd w2"] s by simp
qed simp

lemma zombie_kids: "kid_ids (zombie p k) = kid_ids k" "forks (zombie p k) = forks k"
  by (simp_all add: zombie_def)

lemma failed_child_safe: "failed_child c tc k = Some k' \<Longrightarrow> safe (t, k) (t, k')"
  by (auto intro!: safe_same simp: failed_child_def Let_def kill_all_process_def zombie_kids
      split: option.splits if_splits dest!: kill_each_kids)

lemma get_process_config_live:
  "get_process_config file t = Some (r, t') \<Longrightarrow>
   run_live t' = run_live t \<and> at_exit t' = at_exit t \<and> (tables_ok t \<longrightarrow> tables_ok t')"
  by (auto simp: get_process_config_def Let_def run_live_def tables_ok_def split: option.splits if_splits)

subsection \<open>Steps of the server and its environment\<close>

text \<open>
  A turn of the main loop, a message read from the pipe, a child that ends, a child whose \<^verbatim>\<open>execv\<close>
  failed, the signal handler between two turns, and a change of the programs in \<^verbatim>\<open>BIN_DIR\<close>.
\<close>

inductive server_step :: "SERVER \<Rightarrow> SERVER \<Rightarrow> bool" where
  turns: "main_turn file s = Some (Goes s') \<Longrightarrow> server_step s s'"
| message: "server_step s (read_msg msgb s)"
| ends: "c \<in> set (kids (snd (sv_world s))) \<Longrightarrow> k_state c \<in> {Runs, Told} \<Longrightarrow>
    server_step s (s\<lparr>sv_world := (fst (sv_world s), zombie (k_pid c) (snd (sv_world s)))\<rparr>)"
| fails: "c \<in> set (kids (snd (sv_world s))) \<Longrightarrow> k_state c = Fails tc \<Longrightarrow>
    failed_child c tc (snd (sv_world s)) = Some k' \<Longrightarrow>
    server_step s (s\<lparr>sv_world := (fst (sv_world s), k')\<rparr>)"
| reaps: "clean_zombie_process (sv_world s) = Some w \<Longrightarrow> server_step s (s\<lparr>sv_world := w\<rparr>)"
| installs: "server_step s (s\<lparr>sv_world := (fst (sv_world s), (snd (sv_world s))\<lparr>programs := ps\<rparr>)\<rparr>)"

lemma main_switch_safe: "main_switch file s = Some (Goes s') \<Longrightarrow> safe (sv_world s) (sv_world s')"
proof -
  assume a: "main_switch file s = Some (Goes s')"
  obtain t k where w: "sv_world s = (t, k)" by fastforce
  have "safe (t, k) (t', k)" if "get_process_config file t = Some (r, t')" for r t'
    using get_process_config_live [OF that] by (intro safe_same) auto
  with a w show ?thesis
    by (auto simp: main_switch_def kill_all_process_def run_all_process_def
        split: if_splits option.splits dest!: kill_each_safe run_each_safe)
qed

lemma main_turn_safe: "main_turn file s = Some (Goes s') \<Longrightarrow> safe (sv_world s) (sv_world s')"
  by (auto simp: main_turn_def check_all_process_def split: option.splits turn.splits if_splits
      dest!: main_switch_safe check_each_safe intro: safe_trans)

lemma read_msg_world [simp]: "sv_world (read_msg m s) = sv_world s"
  by (simp add: read_msg_def)

lemma server_step_safe: "server_step s s' \<Longrightarrow> safe (sv_world s) (sv_world s')"
proof (induction rule: server_step.induct)
  case (ends c s)
  then show ?case by (cases "sv_world s") (auto intro!: safe_same simp: zombie_kids)
next
  case (fails c s tc k')
  then show ?case using failed_child_safe [OF fails(3), of "fst (sv_world s)"] by simp
next
  case (reaps s w)
  then show ?case using clean_zombies_safe by (fastforce simp: clean_zombie_process_def)
next
  case (installs s ps)
  show ?case by (cases "sv_world s") (auto intro!: safe_same)
qed (auto simp: main_turn_safe)

lemma server_steps_safe: "server_step\<^sup>*\<^sup>* s s' \<Longrightarrow> safe (sv_world s) (sv_world s')"
  by (induction rule: rtranclp_induct) (auto intro: safe_trans server_step_safe)

lemma tables0_ok: "tables_ok tables0"
  by (simp add: tables_ok_def tables0_def run_live_def)

lemma server_start_inv:
  assumes "server_start file k = Some (Some s)" "kids k = []" "distinct (filter ((\<le>) 0) (forks k))"
  shows "world_inv (sv_world s)"
proof -
  obtain r t r' t' k' where g: "get_process_config file tables0 = Some (r, t)"
    "run_all_process (t, k) = Some (r', t', k')" "sv_world s = (t'\<lparr>at_exit := True\<rparr>, k')"
    using assms(1) by (auto simp: server_start_def split: option.splits if_splits)
  have "run_live t = []" "tables_ok t"
    using get_process_config_live [OF g(1)] tables0_ok by (simp_all add: run_live_def tables0_def)
  then have "world_inv (t, k)" using assms(2,3) by (simp add: world_inv_def rows_have_kids_def)
  moreover have "safe (t, k) (t', k')" using g(2) by (simp add: run_all_process_def run_each_safe)
  moreover have "safe (t', k') (sv_world s)"
    unfolding g(3) by (intro safe_same) (auto simp: run_live_def tables_ok_def)
  ultimately show ?thesis by (auto simp: safe_def world_inv_def)
qed

subsection \<open>Who is told to end\<close>

definition told_all :: "int set \<Rightarrow> kid \<Rightarrow> kid" where
  "told_all P c = (if k_pid c \<in> P \<and> k_state c = Runs then c\<lparr>k_state := Told\<rparr> else c)"

lemma told_all_Un: "told_all Q (told_all P c) = told_all (P \<union> Q) c"
  by (simp add: told_all_def)

lemma told_all_empty [simp]: "told_all {} = id"
  by (rule ext) (simp add: told_all_def)

definition pids_of :: "TABLES \<Rightarrow> (string \<times> string) set \<Rightarrow> int set" where
  "pids_of t X = {rn_pid r | r. \<exists>x\<in>X. run_map t x = Some r}"

lemma kill_process_tells:
  assumes "tables_ok t" "kill_process e p (t, k) = Some (t', k')"
  shows "tables_ok t'" "kids k' = map (told_all (pids_of t {(e, p)})) (kids k)"
    "pids_of t {(e, p)} \<union> pids_of t' X = pids_of t (insert (e, p) X)"
    "x \<noteq> (e, p) \<Longrightarrow> run_map t' x = run_map t x"
proof -
  have r: "tables_ok t'" "run_map t' = (case run_map t (e, p) of
      Some r \<Rightarrow> if rn_pid r \<in> pids k then (run_map t)((e, p) := None) else run_map t | None \<Rightarrow> run_map t)"
    "kids k' = (case run_map t (e, p) of Some r \<Rightarrow> map (told (rn_pid r)) (kids k) | None \<Rightarrow> kids k)"
    using kill_process_ok [OF assms(1), of e p k] assms(2) by auto
  show "tables_ok t'" by (fact r(1))
  have "told q = told_all {q}" for q by (auto simp: told_def told_all_def)
  then show "kids k' = map (told_all (pids_of t {(e, p)})) (kids k)"
    by (auto simp: r(3) pids_of_def split: option.splits)
  show m: "run_map t' x = run_map t x" if "x \<noteq> (e, p)" for x
    using that by (auto simp: r(2) split: option.splits)
  have "run_map t x = Some u" if "run_map t' x = Some u" for x u
    using that by (auto simp: r(2) split: option.splits if_splits)
  moreover have "run_map t' x = Some u" if "run_map t x = Some u" "x \<noteq> (e, p)" for x u
    using that m by simp
  ultimately show "pids_of t {(e, p)} \<union> pids_of t' X = pids_of t (insert (e, p) X)"
    unfolding pids_of_def by blast
qed

lemma kill_each_tells:
  assumes "tables_ok t"
  shows "\<exists>t' k'. kill_each cs (t, k) = Some (t', k') \<and> tables_ok t' \<and>
    kids k' = map (told_all (pids_of t (progs cs))) (kids k) \<and>
    (\<forall>x. x \<notin> progs cs \<longrightarrow> run_map t' x = run_map t x)"
  using assms
proof (induction cs arbitrary: t k)
  case Nil
  then show ?case by (simp add: pids_of_def)
next
  case (Cons c cs)
  let ?e = "pc_exchange c"
  obtain t1 k1 where 1: "kill_process ?e COMMAND1 (t, k) = Some (t1, k1)"
    using kill_process_ok [OF Cons.prems] by blast
  note a = kill_process_tells [OF Cons.prems 1]
  obtain t2 k2 where 2: "kill_process ?e COMMAND2 (t1, k1) = Some (t2, k2)"
    using kill_process_ok [OF a(1)] by blast
  note b = kill_process_tells [OF a(1) 2]
  obtain t' k' where 3: "kill_each cs (t2, k2) = Some (t', k')" "tables_ok t'"
    "kids k' = map (told_all (pids_of t2 (progs cs))) (kids k2)"
    "\<forall>x. x \<notin> progs cs \<longrightarrow> run_map t' x = run_map t2 x"
    using Cons.IH [OF b(1)] by blast
  have "pids_of t {(?e, COMMAND1)} \<union> (pids_of t1 {(?e, COMMAND2)} \<union> pids_of t2 (progs cs)) = pids_of t (progs (c # cs))"
    unfolding b(3) a(3) by (simp add: insert_commute)
  then have "kids k' = map (told_all (pids_of t (progs (c # cs)))) (kids k)"
    unfolding 3(3) b(2) a(2) by (simp add: told_all_Un Un_assoc)
  with 1 2 3 a(4) b(4) show ?case by simp
qed

subsection \<open>A child that dies before its parent has entered it\<close>

lemma waitpid_None: "\<forall>c\<in>set (kids k). k_state c \<noteq> Zombie \<Longrightarrow> waitpid k = None"
  by (simp add: waitpid_def iffD2 [OF dropWhile_eq_Nil_conv])

lemma clean_last_zombie:
  assumes "tables_ok t" "kids k = cs @ [z]" "k_state z = Zombie" "\<forall>c\<in>set cs. k_state c \<noteq> Zombie"
    "\<forall>r\<in>set (run_live t). rn_pid r \<noteq> k_pid z"
  shows "clean_zombie_process (t, k) = Some (t, k\<lparr>kids := cs\<rparr>)"
proof -
  have "waitpid k = Some (k_pid z, k\<lparr>kids := cs\<rparr>)"
    using assms(2-4) by (simp add: waitpid_def)
  moreover have "row_of_pid (k_pid z) rs = None" if "\<forall>r\<in>set rs. rn_pid r \<noteq> k_pid z" for rs
    using that by (induction rs) auto
  then have "reap (k_pid z) (t, k\<lparr>kids := cs\<rparr>) = Some (t, k\<lparr>kids := cs\<rparr>)"
    using assms(5) by (simp add: reap_def)
  moreover have "clean_zombies t (k\<lparr>kids := cs\<rparr>) = Some (t, k\<lparr>kids := cs\<rparr>)"
    using assms(4) by (subst clean_zombies.simps) (simp add: waitpid_None)
  ultimately show ?thesis
    by (simp add: clean_zombie_process_def clean_zombies.simps [of t k])
qed

lemma zombie_spawn:
  "pid \<notin> pids k \<Longrightarrow> kids (zombie pid (spawn t e p pid k)) =
     kids k @ [\<lparr>k_pid = pid, k_exchange = e, k_procname = p, k_state = Zombie\<rparr>]"
proof -
  assume "pid \<notin> pids k"
  then have "\<forall>c\<in>set (kids k). k_pid c \<noteq> pid" by (metis imageI set_map)
  then have "map (\<lambda>c. if k_pid c = pid then c\<lparr>k_state := Zombie\<rparr> else c) (kids k) = kids k"
    by (intro map_idI) simp
  then show ?thesis by (simp add: zombie_def spawn_def)
qed

subsection \<open>The signal handler between \<^verbatim>\<open>fork\<close> and the entry of the row\<close>

text \<open>The half of \<^verbatim>\<open>run_process\<close> before the parent's branch: \<open>None\<close> when the row is there.\<close>

definition fork_child :: "string \<Rightarrow> string \<Rightarrow> world \<Rightarrow> (int \<times> world) option" where
  "fork_child exnm procname w = (case w of (t, k) \<Rightarrow>
     (case get_running_table t exnm procname of
        Some _ \<Rightarrow> None
      | None \<Rightarrow>
          (case fork k of (pid, k1) \<Rightarrow>
             if pid < 0 then Some (-1, t, writelog (ForkFailed exnm) k1)
             else Some (pid, t, spawn t exnm procname pid k1))))"

lemma run_process_halves:
  "run_process e p w =
     (case fork_child e p w of
        None \<Rightarrow> Some (0, w)
      | Some (pid, w1) \<Rightarrow> if pid < 0 then Some (-1, w1) else map_option (Pair 0) (register e p pid w1))"
  by (cases w) (auto simp: run_process_def fork_child_def split: option.split prod.split)

text \<open>
  Steps with the signal handler in the gap between \<^verbatim>\<open>fork\<close> and the entry of the row. The state
  is the world, the child that is forked but not yet entered, and the process ids of those that have
  been reaped in that gap (\<open>orphaned\<close>). The main thread forks, enters, kills and reads the
  configuration in any order; children end, fail and are reaped at any time, also in the gap. A turn of
  the main loop is a run of these steps (\<open>main_turn_unbroken\<close>).
\<close>

type_synonym gap = "(string \<times> string \<times> int) option"

definition orphaned :: "gap \<Rightarrow> KERNEL \<Rightarrow> int set \<Rightarrow> int set" where
  "orphaned g k G = (case g of None \<Rightarrow> G | Some (e, p, pid) \<Rightarrow> if pid \<in> pids k then G else insert pid G)"

inductive handled_step :: "world \<times> gap \<times> int set \<Rightarrow> world \<times> gap \<times> int set \<Rightarrow> bool" where
  forked: "fork_child e p w = Some (pid, w') \<Longrightarrow> 0 \<le> pid \<Longrightarrow>
    handled_step (w, None, G) (w', Some (e, p, pid), G)"
| not_forked: "fork_child e p w = Some (pid, w') \<Longrightarrow> pid < 0 \<Longrightarrow>
    handled_step (w, None, G) (w', None, G)"
| entered: "register e p pid w = Some w' \<Longrightarrow> handled_step (w, Some (e, p, pid), G) (w', None, G)"
| killed: "kill_process e p w = Some w' \<Longrightarrow> handled_step (w, None, G) (w', None, G)"
| complains: "handled_step (w, None, G) (cannot_run p e w, None, G)"
| configured: "get_process_config f (fst w) = Some (r, t') \<Longrightarrow>
    handled_step (w, None, G) ((t', snd w), None, G)"
| ended: "c \<in> set (kids (snd w)) \<Longrightarrow> k_state c \<in> {Runs, Told} \<Longrightarrow>
    handled_step (w, g, G) ((fst w, zombie (k_pid c) (snd w)), g, G)"
| failed: "c \<in> set (kids (snd w)) \<Longrightarrow> k_state c = Fails tc \<Longrightarrow> failed_child c tc (snd w) = Some k' \<Longrightarrow>
    handled_step (w, g, G) ((fst w, k'), g, G)"
| handled: "clean_zombie_process w = Some w' \<Longrightarrow> handled_step (w, g, G) (w', g, orphaned g (snd w') G)"
| installed: "handled_step (w, g, G) ((fst w, (snd w)\<lparr>programs := ps\<rparr>), g, G)"

inductive_cases handled_stepE: "handled_step s s'"

subsection \<open>The turns of the main loop are made of these steps\<close>

definition unbroken :: "world \<Rightarrow> world \<Rightarrow> bool" where
  "unbroken w w' \<longleftrightarrow> (\<forall>G. handled_step\<^sup>*\<^sup>* (w, None, G) (w', None, G))"

lemma unbroken_refl [simp]: "unbroken w w"
  by (simp add: unbroken_def)

lemma unbroken_trans: "unbroken u v \<Longrightarrow> unbroken v w \<Longrightarrow> unbroken u w"
  unfolding unbroken_def by (meson rtranclp_trans)

lemma unbroken_step: "(\<And>G. handled_step (w, None, G) (w', None, G)) \<Longrightarrow> unbroken w w'"
  by (simp add: unbroken_def r_into_rtranclp)

lemma run_process_unbroken:
  assumes a: "run_process e p w = Some (r, w')"
  shows "unbroken w w'"
proof (cases "fork_child e p w")
  case None
  with a show ?thesis by (simp add: run_process_halves)
next
  case (Some pw)
  obtain pid w1 where f: "fork_child e p w = Some (pid, w1)" using Some by (cases pw) auto
  show ?thesis
  proof (cases "pid < 0")
    case True
    with a f have "w' = w1" by (simp add: run_process_halves)
    with handled_step.not_forked [OF f True] show ?thesis by (auto intro: unbroken_step)
  next
    case False
    with a f have "register e p pid w1 = Some w'" by (auto simp: run_process_halves)
    then have "handled_step (w1, Some (e, p, pid), G) (w', None, G)" for G
      by (rule handled_step.entered)
    moreover have "handled_step (w, None, G) (w1, Some (e, p, pid), G)" for G
      using f False by (intro handled_step.forked) simp_all
    ultimately show ?thesis
      unfolding unbroken_def by (blast intro: rtranclp_trans [OF r_into_rtranclp r_into_rtranclp])
  qed
qed

lemma kill_process_unbroken: "kill_process e p w = Some w' \<Longrightarrow> unbroken w w'"
  by (blast intro: unbroken_step handled_step.killed)

lemma kill_each_unbroken: "kill_each cs w = Some w' \<Longrightarrow> unbroken w w'"
proof (induction cs arbitrary: w)
  case (Cons c cs)
  then obtain w1 w2 where 1: "kill_process (pc_exchange c) COMMAND1 w = Some w1" and 2: "kill_process (pc_exchange c) COMMAND2 w1 = Some w2" and 3: "kill_each cs w2 = Some w'"
    by (auto split: option.splits)
  from unbroken_trans [OF kill_process_unbroken [OF 1] unbroken_trans [OF kill_process_unbroken [OF 2] Cons.IH [OF 3]]]
  show ?case .
qed simp

lemma run_each_unbroken: "run_each cs w = Some (r, w') \<Longrightarrow> unbroken w w'"
proof (induction cs arbitrary: w)
  case (Cons c cs)
  note run = run_process_unbroken [of "pc_exchange c"]
  have says: "unbroken v (cannot_run p e v)" for p e v by (blast intro: unbroken_step handled_step.complains)
  show ?case
  proof (cases "pc_running c = 0")
    case False
    with Cons.prems obtain r1 w1 where 1: "run_process (pc_exchange c) COMMAND1 w = Some (r1, w1)"
      by (auto split: option.splits)
    show ?thesis
    proof (cases "r1 = -1")
      case True
      with 1 False Cons.prems show ?thesis using unbroken_trans [OF run [OF 1] says] by auto
    next
      case ok: False
      with 1 False Cons.prems obtain r2 w2 where 2: "run_process (pc_exchange c) COMMAND2 w1 = Some (r2, w2)"
        by (auto split: option.splits)
      note two = unbroken_trans [OF run [OF 1] run [OF 2]]
      show ?thesis
      proof (cases "r2 = -1")
        case True
        with 1 2 ok False Cons.prems show ?thesis using unbroken_trans [OF two says] by auto
      next
        case False
        with 1 2 ok \<open>pc_running c \<noteq> 0\<close> Cons.prems have "run_each cs w2 = Some (r, w')" by simp
        from unbroken_trans [OF two Cons.IH [OF this]] show ?thesis .
      qed
    qed
  next
    case True
    with Cons show ?thesis by simp
  qed
qed simp

lemma check_one_unbroken: "check_one running e p w = Some w' \<Longrightarrow> unbroken w w'"
  by (auto simp: check_one_def split: if_splits dest: run_process_unbroken kill_process_unbroken)

lemma check_each_unbroken: "check_each cs w = Some w' \<Longrightarrow> unbroken w w'"
proof (induction cs arbitrary: w)
  case (Cons c cs)
  then obtain w1 w2 where 1: "check_one (pc_running c) (pc_exchange c) COMMAND1 w = Some w1" and 2: "check_one (pc_running c) (pc_exchange c) COMMAND2 w1 = Some w2" and 3: "check_each cs w2 = Some w'"
    by (auto split: option.splits)
  from unbroken_trans [OF check_one_unbroken [OF 1] unbroken_trans [OF check_one_unbroken [OF 2] Cons.IH [OF 3]]]
  show ?case .
qed simp

lemma main_switch_unbroken: "main_switch file s = Some (Goes s') \<Longrightarrow> unbroken (sv_world s) (sv_world s')"
proof -
  assume a: "main_switch file s = Some (Goes s')"
  have "unbroken (sv_world s) (t', snd (sv_world s))"
    if "get_process_config file (fst (sv_world s)) = Some (r, t')" for r t'
    using handled_step.configured [OF that] by (blast intro: unbroken_step)
  with a show ?thesis
    by (auto simp: main_switch_def kill_all_process_def run_all_process_def
        split: if_splits option.splits dest!: kill_each_unbroken run_each_unbroken)
qed

lemma main_turn_unbroken: "main_turn file s = Some (Goes s') \<Longrightarrow> unbroken (sv_world s) (sv_world s')"
  by (auto simp: main_turn_def check_all_process_def split: option.splits turn.splits if_splits
      dest!: main_switch_unbroken check_each_unbroken intro: unbroken_trans)


subsection \<open>Invariant with the handler in the gap\<close>

definition handled_inv :: "world \<times> gap \<times> int set \<Rightarrow> bool" where
  "handled_inv s = (case s of ((t, k), g, G) \<Rightarrow>
     tables_ok t \<and> (\<forall>x u. run_map t x = Some u \<longrightarrow> rn_pid u \<in> pids k \<union> G) \<and>
     distinct (map rn_pid (run_live t)) \<and>
     distinct (map k_pid (kids k) @ filter (\<lambda>p. 0 \<le> p) (forks k)) \<and>
     G \<inter> (pids k \<union> set (forks k)) = {} \<and>
     (case g of None \<Rightarrow> True
      | Some (e, p, pid) \<Rightarrow> 0 \<le> pid \<and> pid \<in> pids k \<union> G \<and> run_map t (e, p) = None \<and>
          (\<forall>x u. run_map t x = Some u \<longrightarrow> rn_pid u \<noteq> pid)))"

text \<open>Rows of the reaped stay.\<close>

definition orphans_stay :: "world \<times> gap \<times> int set \<Rightarrow> world \<times> gap \<times> int set \<Rightarrow> bool" where
  "orphans_stay s s' = (case (s, s') of (((t, k), g, G), ((t', k'), g', G')) \<Rightarrow>
     G \<subseteq> G' \<and> (\<forall>x u. run_map t x = Some u \<longrightarrow> rn_pid u \<in> G \<longrightarrow> run_map t' x = Some u))"

definition goes_on :: "world \<times> gap \<times> int set \<Rightarrow> world \<times> gap \<times> int set \<Rightarrow> bool" where
  "goes_on s s' \<longleftrightarrow> (handled_inv s \<longrightarrow> handled_inv s' \<and> orphans_stay s s')"

lemma goes_on_refl: "goes_on s s"
  by (auto simp: goes_on_def orphans_stay_def split: prod.split)

lemma orphans_stay_trans: "orphans_stay s1 s2 \<Longrightarrow> orphans_stay s2 s3 \<Longrightarrow> orphans_stay s1 s3"
  unfolding orphans_stay_def by (auto split: prod.splits)

lemma goes_on_trans: "goes_on s1 s2 \<Longrightarrow> goes_on s2 s3 \<Longrightarrow> goes_on s1 s3"
  unfolding goes_on_def using orphans_stay_trans by blast

lemma goes_on_same:
  assumes "run_live t' = run_live t" "tables_ok t \<Longrightarrow> tables_ok t'" "map k_pid (kids k') = map k_pid (kids k)"
    "forks k' = forks k \<or> forks k' = tl (forks k)"
  shows "goes_on ((t, k), g, G) ((t', k'), g, G)"
proof -
  have d: "distinct (map k_pid (kids k) @ filter ((\<le>) 0) (forks k'))"
    if "distinct (map k_pid (kids k) @ filter ((\<le>) 0) (forks k))"
    by (rule disjE [OF assms(4)]; use that in \<open>cases "forks k"\<close>) (simp_all split: if_splits)
  have f: "set (forks k') \<subseteq> set (forks k)" using assms(4) by (cases "forks k") auto
  have r: "run_map t' = run_map t" using assms(1) by (simp add: run_map_def)
  have p: "pids k' = pids k" using arg_cong [OF assms(3), of set] by simp
  have "handled_inv ((t, k), g, G) \<Longrightarrow> handled_inv ((t', k'), g, G)"
    unfolding handled_inv_def prod.case r p assms(1,3) using assms(2) d f by auto
  then show ?thesis by (simp add: goes_on_def orphans_stay_def r)
qed

lemma entered_goes_on:
  assumes "register e p pid (t, k) = Some (t', k')"
  shows "goes_on ((t, k), Some (e, p, pid), G) ((t', k'), None, G)"
  unfolding goes_on_def
proof
  assume inv: "handled_inv ((t, k), Some (e, p, pid), G)"
  then have ok: "tables_ok t" and new: "run_map t (e, p) = None" and pid: "pid \<in> pids k \<union> G"
    and own: "\<And>x u. run_map t x = Some u \<Longrightarrow> rn_pid u \<noteq> pid"
    and rows: "\<And>x u. run_map t x = Some u \<Longrightarrow> rn_pid u \<in> pids k \<union> G"
    and d: "distinct (map rn_pid (run_live t))"
    using inv [unfolded handled_inv_def prod.case option.case] by blast+
  have "running_vrec t < MAX_EXCHANGE"
    using assms tables_okD(1) [OF ok]
    by (auto simp: register_def new_running_table_def Let_def not_less split: option.splits if_splits)
  from register_ok [OF ok new this, of pid k] assms have r: "tables_ok t'"
    "run_map t' = (run_map t)((e, p) \<mapsto> row_for k e p pid)"
    "k' = writelog (Started (command_line k p @ '' '' @ e)) k" by auto
  have row: "rn_pid (row_for k e p pid) = pid" by (simp add: row_for_def)
  have old: "rn_pid v \<noteq> pid" if "run_map t' z = Some v" "z \<noteq> (e, p)" for z v
    using that own [of z v] by (simp add: r(2))
  have self: "rn_pid v = pid" if "run_map t' (e, p) = Some v" for v
    using that row by (simp add: r(2))
  have "distinct (map rn_pid (run_live t'))"
    unfolding pids_distinct_map [OF r(1)]
  proof (intro allI impI)
    fix x y u v
    assume a: "run_map t' x = Some u \<and> run_map t' y = Some v \<and> rn_pid u = rn_pid v"
    show "x = y"
    proof (cases "x = (e, p) \<or> y = (e, p)")
      case True
      with a old self show ?thesis by metis
    next
      case False
      with a have "run_map t x = Some u" "run_map t y = Some v" "rn_pid u = rn_pid v" by (simp_all add: r(2))
      with d [unfolded pids_distinct_map [OF ok]] show ?thesis by blast
    qed
  qed
  moreover have "rn_pid u \<in> pids k \<union> G" if "run_map t' x = Some u" for x u
    using that rows pid row by (auto simp: r(2) split: if_splits)
  ultimately have "handled_inv ((t', k'), None, G)"
    using inv r(1,3) by (simp add: handled_inv_def)
  moreover have "orphans_stay ((t, k), Some (e, p, pid), G) ((t', k'), None, G)"
    using new by (auto simp: orphans_stay_def r(2))
  ultimately show "handled_inv ((t', k'), None, G) \<and> orphans_stay ((t, k), Some (e, p, pid), G) ((t', k'), None, G)" ..
qed

lemma forked_goes_on:
  assumes "fork_child e p (t, k) = Some (pid, t', k')" "0 \<le> pid"
  shows "goes_on ((t, k), None, G) ((t', k'), Some (e, p, pid), G)"
  unfolding goes_on_def
proof
  assume inv: "handled_inv ((t, k), None, G)"
  then have ok: "tables_ok t" by (simp add: handled_inv_def)
  from assms obtain ps where f: "get_running_table t e p = None" "forks k = pid # ps" "t' = t"
    "k' = spawn t e p pid (k\<lparr>forks := ps\<rparr>)"
    by (auto simp: fork_child_def fork_def split: option.splits list.splits if_splits)
  have new: "run_map t (e, p) = None" using run_map_get(1) [OF ok, of e p] f(1) by simp
  have k': "map k_pid (kids k') = map k_pid (kids k) @ [pid]" "forks k' = ps"
    by (simp_all add: f(4) spawn_def)
  have rows: "\<And>x u. run_map t x = Some u \<Longrightarrow> rn_pid u \<in> pids k \<union> G" and "pid \<notin> pids k" "pid \<notin> G"
    using inv f(2) assms(2) by (auto simp: handled_inv_def)
  then have "run_map t x = Some u \<Longrightarrow> rn_pid u \<noteq> pid" for x u by blast
  moreover have p: "pids k' = insert pid (pids k)" using arg_cong [OF k'(1), of set] by simp
  ultimately have "handled_inv ((t', k'), Some (e, p, pid), G)"
    using inv f(2,3) assms(2) new rows \<open>pid \<notin> G\<close>
    unfolding handled_inv_def prod.case option.case p k' by auto
  moreover have "orphans_stay ((t, k), None, G) ((t', k'), Some (e, p, pid), G)"
    by (simp add: orphans_stay_def f(3))
  ultimately show "handled_inv ((t', k'), Some (e, p, pid), G) \<and>
    orphans_stay ((t, k), None, G) ((t', k'), Some (e, p, pid), G)" ..
qed

lemma killed_goes_on:
  assumes "kill_process e p (t, k) = Some (t', k')"
  shows "goes_on ((t, k), None, G) ((t', k'), None, G)"
  unfolding goes_on_def
proof
  assume inv: "handled_inv ((t, k), None, G)"
  then have ok: "tables_ok t" by (simp add: handled_inv_def)
  have r: "tables_ok t'" "run_map t' = (case run_map t (e, p) of
      Some r \<Rightarrow> if rn_pid r \<in> pids k then (run_map t)((e, p) := None) else run_map t | None \<Rightarrow> run_map t)"
    using kill_process_ok [OF ok, of e p k] assms by auto
  note ids = kill_process_kids [OF assms]
  have pk: "map k_pid (kids k') = map k_pid (kids k)"
    using arg_cong [OF ids(1), of "map fst"] by (simp add: comp_def)
  have p: "pids k' = pids k" using arg_cong [OF pk, of set] by simp
  have sub: "run_map t' x = Some u \<Longrightarrow> run_map t x = Some u" for x u
    using r(2) by (auto split: option.splits if_splits)
  have keep: "run_map t x = Some u \<Longrightarrow> rn_pid u \<notin> pids k \<Longrightarrow> run_map t' x = Some u" for x u
    using r(2) by (auto split: option.splits if_splits)
  have "distinct (map rn_pid (run_live t'))"
    using inv sub unfolding handled_inv_def prod.case pids_distinct_map [OF ok] pids_distinct_map [OF r(1)]
    by blast
  moreover have "rn_pid u \<in> pids k \<union> G" if "run_map t' x = Some u" for x u
    using sub [OF that] inv [unfolded handled_inv_def prod.case] by blast
  ultimately have "handled_inv ((t', k'), None, G)"
    using inv r(1) unfolding handled_inv_def prod.case option.case pk p ids(2) by simp
  moreover have "orphans_stay ((t, k), None, G) ((t', k'), None, G)"
    using keep inv [unfolded handled_inv_def prod.case] unfolding orphans_stay_def prod.case by blast
  ultimately show "handled_inv ((t', k'), None, G) \<and> orphans_stay ((t, k), None, G) ((t', k'), None, G)" ..
qed


lemma orphaned_twice:
  "pids k2 \<subseteq> pids k1 \<Longrightarrow> orphaned g k2 (orphaned g k1 G) = orphaned g k2 G"
  by (auto simp: orphaned_def split: option.split)

lemma reaped_goes_on:
  assumes "waitpid k = Some (p, k1)" "reap p (t, k1) = Some (t', k')"
  shows "goes_on ((t, k), g, G) ((t', k'), g, orphaned g k' G)" and "pids k' \<subseteq> pids k"
proof -
  obtain xs z ys where k: "kids k = xs @ z # ys" "k_pid z = p" "k1 = k\<lparr>kids := xs @ ys\<rparr>"
    using waitpid_Some [OF assms(1)] by metis
  have kk: "kids k' = xs @ ys" using reap_kids [OF assms(2)] k(3) by simp
  then show "pids k' \<subseteq> pids k" using k(1) by auto
  show "goes_on ((t, k), g, G) ((t', k'), g, orphaned g k' G)"
    unfolding goes_on_def
  proof
    assume inv: "handled_inv ((t, k), g, G)"
    note i = inv [unfolded handled_inv_def prod.case]
    from i have ok: "tables_ok t" by blast
    have r: "tables_ok t'" "forks k' = forks k"
      "(\<exists>x u. run_map t x = Some u \<and> rn_pid u = p \<and> run_map t' = (run_map t)(x := None)) \<or>
       (\<forall>x u. run_map t x = Some u \<longrightarrow> rn_pid u \<noteq> p) \<and> run_map t' = run_map t"
      using reap_ok [OF ok, of p k1] assms(2) k(3) by auto
    have sub: "run_map t' x = Some u \<Longrightarrow> run_map t x = Some u" for x u
      using r(3) by (auto split: if_splits)
    have pk: "p \<in> pids k" "pids k' \<subseteq> pids k" "pids k \<subseteq> insert p (pids k')" using k kk by auto
    have d: "distinct (map k_pid (kids k) @ filter ((\<le>) 0) (forks k))" using i by blast
    have gone: "p \<notin> pids k'" using d by (auto simp: k(1,2) kk)
    have inj: "x = y" if "run_map t x = Some u" "run_map t y = Some v" "rn_pid u = rn_pid v" for x y u v
      using i that unfolding pids_distinct_map [OF ok] by blast
    have other: "rn_pid v \<noteq> p" if v: "run_map t' y = Some v" for y v
    proof
      assume "rn_pid v = p"
      with sub [OF v] r(3) obtain x u where "run_map t x = Some u" "rn_pid u = p"
        "run_map t' = (run_map t)(x := None)" by blast
      with inj [OF sub [OF v]] \<open>rn_pid v = p\<close> v show False by auto
    qed
    have G: "G \<inter> (pids k \<union> set (forks k)) = {}" using i by blast
    have sub_G: "G \<subseteq> orphaned g k' G" by (auto simp: orphaned_def split: option.split)
    have row: "rn_pid u \<in> pids k' \<union> orphaned g k' G" if "run_map t' x = Some u" for x u
      using i sub [OF that] other [OF that] pk(3) sub_G by blast
    have new_G: "orphaned g k' G \<inter> (pids k' \<union> set (forks k')) = {}"
    proof (cases g)
      case None
      then have "orphaned g k' G = G" by (simp add: orphaned_def)
      moreover have "G \<inter> (pids k' \<union> set (forks k)) = {}" using G pk(2) by blast
      ultimately show ?thesis by (simp only: r(2))
    next
      case (Some a)
      obtain e q pid where a: "a = (e, q, pid)" by (cases a)
      have g: "0 \<le> pid" "pid \<in> pids k \<union> G" using i Some a by auto
      have f: "pid \<notin> set (forks k)"
      proof (cases "pid \<in> pids k")
        case True
        with d g(1) show ?thesis by auto
      next
        case False
        with g(2) G show ?thesis by blast
      qed
      have old: "G \<inter> (pids k' \<union> set (forks k')) = {}"
        unfolding r(2) using G pk(2) by blast
      show ?thesis
      proof (cases "pid \<in> pids k'")
        case True
        then have "orphaned g k' G = G" by (simp add: orphaned_def Some a)
        with old show ?thesis by simp
      next
        case False
        then have "orphaned g k' G = insert pid G" by (simp add: orphaned_def Some a)
        with old False f show ?thesis by (simp add: r(2))
      qed
    qed
    have gap: "case g of None \<Rightarrow> True | Some (e, q, pid) \<Rightarrow> 0 \<le> pid \<and> pid \<in> pids k' \<union> orphaned g k' G \<and>
        run_map t' (e, q) = None \<and> (\<forall>x u. run_map t' x = Some u \<longrightarrow> rn_pid u \<noteq> pid)"
    proof (cases g)
      case (Some a)
      obtain e q pid where a: "a = (e, q, pid)" by (cases a)
      have g: "0 \<le> pid" "run_map t (e, q) = None" and own: "\<And>x u. run_map t x = Some u \<Longrightarrow> rn_pid u \<noteq> pid"
        using i unfolding Some a option.case prod.case by blast+
      have "run_map t' (e, q) = None" using sub [of "(e, q)"] g(2) by (cases "run_map t' (e, q)") auto
      moreover have "rn_pid u \<noteq> pid" if "run_map t' x = Some u" for x u using own [OF sub [OF that]] .
      moreover have "pid \<in> pids k' \<union> orphaned g k' G" by (simp add: Some a orphaned_def)
      ultimately show ?thesis using g(1) unfolding Some a option.case prod.case by blast
    qed simp
    have "distinct (map rn_pid (run_live t'))"
      unfolding pids_distinct_map [OF r(1)] using inj sub by blast
    moreover have "distinct (map k_pid (kids k') @ filter ((\<le>) 0) (forks k'))"
      using d by (simp add: k(1) kk r(2))
    ultimately have "handled_inv ((t', k'), g, orphaned g k' G)"
      unfolding handled_inv_def prod.case using r(1) row new_G gap by blast
    moreover have "run_map t' x = Some u" if "run_map t x = Some u" "rn_pid u \<in> G" for x u
    proof -
      have "rn_pid u \<noteq> p" using that(2) G pk(1) by blast
      with r(3) that(1) show ?thesis by (auto split: if_splits)
    qed
    then have "orphans_stay ((t, k), g, G) ((t', k'), g, orphaned g k' G)"
      using sub_G by (simp add: orphans_stay_def)
    ultimately show "handled_inv ((t', k'), g, orphaned g k' G) \<and>
      orphans_stay ((t, k), g, G) ((t', k'), g, orphaned g k' G)" ..
  qed
qed

lemma handled_goes_on:
  "clean_zombies t k = Some w' \<Longrightarrow>
   goes_on ((t, k), g, G) (w', g, orphaned g (snd w') G) \<and> pids (snd w') \<subseteq> pids k"
proof (induction t k arbitrary: G rule: clean_zombies.induct)
  case (1 t k)
  show ?case
  proof (cases "waitpid k")
    case None
    with 1 have w': "w' = (t, k)" by (subst (asm) clean_zombies.simps) simp
    have "orphaned g k G = G" if "handled_inv ((t, k), g, G)"
      using that by (auto simp: handled_inv_def orphaned_def split: option.splits)
    then show ?thesis using goes_on_refl [of "((t, k), g, G)"] by (simp add: w' goes_on_def)
  next
    case (Some pk)
    obtain p k1 where p: "waitpid k = Some (p, k1)" using Some by (cases pk) auto
    then obtain t2 k2 where r: "reap p (t, k1) = Some (t2, k2)" "clean_zombies t2 k2 = Some w'"
      using "1.prems" by (subst (asm) clean_zombies.simps) (auto split: option.splits)
    note step = reaped_goes_on(1) [OF p r(1), of g G] reaped_goes_on(2) [OF p r(1)]
    from "1.IH" [OF p _ r(1)] r(2) have
      rest: "goes_on ((t2, k2), g, orphaned g k2 G) (w', g, orphaned g (snd w') (orphaned g k2 G))"
      "pids (snd w') \<subseteq> pids k2" by auto
    from goes_on_trans [OF step(1) rest(1)] orphaned_twice [OF rest(2)] rest(2) step(2)
    show ?thesis by auto
  qed
qed


lemma handled_step_goes_on: "handled_step s s' \<Longrightarrow> goes_on s s'"
proof (induction rule: handled_step.induct)
  case (forked e p w pid w' G)
  then show ?case by (cases w; cases w') (auto intro: forked_goes_on)
next
  case (not_forked e p w pid w' G)
  then show ?case
    by (cases w) (auto intro!: goes_on_same simp: fork_child_def fork_def spawn_def
        split: option.splits list.splits if_splits)
next
  case (entered e p pid w w' G)
  then show ?case by (cases w; cases w') (auto intro: entered_goes_on)
next
  case (killed e p w w' G)
  then show ?case by (cases w; cases w') (auto intro: killed_goes_on)
next
  case (complains w G p e)
  show ?case by (cases w) (auto intro!: goes_on_same simp: cannot_run_def)
next
  case (configured f w r t' G)
  then show ?case
    using get_process_config_live [OF configured] by (cases w) (auto intro!: goes_on_same)
next
  case (ended c w g G)
  then show ?case by (cases w) (auto intro!: goes_on_same simp: zombie_def)
next
  case (failed c w tc k' g G)
  have "kid_ids k' = kid_ids (snd w)" "forks k' = forks (snd w)"
    using failed(3) by (auto simp: failed_child_def Let_def kill_all_process_def zombie_kids
      split: option.splits if_splits dest!: kill_each_kids)
  moreover from arg_cong [OF this(1), of "map fst"] have "map k_pid (kids k') = map k_pid (kids (snd w))"
    by (simp only: map_map comp_def fst_conv)
  ultimately show ?case by (cases w) (auto intro!: goes_on_same)
next
  case (handled w w' g G)
  then show ?case using handled_goes_on [of "fst w" "snd w" w' g G] by (simp add: clean_zombie_process_def)
next
  case (installed w g G ps)
  show ?case by (cases w) (auto intro!: goes_on_same)
qed

lemma handled_steps_go_on: "handled_step\<^sup>*\<^sup>* s s' \<Longrightarrow> goes_on s s'"
  by (induction rule: rtranclp_induct) (blast intro: goes_on_refl goes_on_trans handled_step_goes_on)+

lemma world_inv_handled:
  assumes "world_inv w"
  shows "handled_inv (w, None, {})"
proof -
  obtain t k where w: "w = (t, k)" by fastforce
  have "tables_ok t" "rows_have_kids (t, k)" using assms by (simp_all add: world_inv_def w)
  then have "\<forall>x u. run_map t x = Some u \<longrightarrow> rn_pid u \<in> pids k \<union> {}"
    using rows_have_kids_map by blast
  with assms show ?thesis unfolding handled_inv_def w prod.case by (simp add: world_inv_def)
qed

subsection \<open>An example\<close>

definition entry :: "string \<Rightarrow> int \<Rightarrow> JSON_Value" where
  "entry e n = JSONObject [(''exchange'', JSONString e), (''running'', JSONNumber (of_int n))]"

definition kernel1 :: KERNEL where
  "kernel1 = \<lparr>kids = [], forks = [101, 102, 103, 104, 105, 106], programs = [COMMAND1, COMMAND2],
     bin_dir = ''/home/mon/bin'', now_s = 0, init_log = []\<rparr>"

definition server1 :: SERVER where
  "server1 = the (the (server_start (Some (JSONArray [entry ''LME'' 1, entry ''ICE'' 0])) kernel1))"

definition tables1 :: TABLES where
  "tables1 = (fst (sv_world server1))\<lparr>process_config :=
     [\<lparr>pc_exchange = ''LME'', pc_running = 0\<rparr>, \<lparr>pc_exchange = ''ICE'', pc_running = 1\<rparr>] @ replicate 62 process0\<rparr>"

definition kernel2 :: KERNEL where
  "kernel2 = snd (sv_world server1)"

lemma server1_start: "server_start (Some (JSONArray [entry ''LME'' 1, entry ''ICE'' 0])) kernel1 = Some (Some server1)"
  by code_simp

subsection \<open>Properties\<close>

text \<open>
  C18. \<^verbatim>\<open>check_all_process\<close> brings the processes in line with the configuration: when every row
  has its child, the forks succeed and the table has room for the programs switched on, then after
  it a program of a configured exchange has a row exactly when the exchange is switched on with 1;
  the rows of exchanges that are no longer configured are left as they are.
\<close>

theorem check_all_converges:
  assumes "tables_ok t" "rows_have_kids (t, k)" "\<forall>p\<in>set (forks k). 0 \<le> p"
    "2 * length (configs t) \<le> length (forks k)" "distinct (map pc_exchange (configs t))"
    "card (dom (run_map t) \<union> progs (switched_on (configs t))) \<le> MAX_EXCHANGE"
  shows "\<exists>t' k'. check_all_process (t, k) = Some (t', k') \<and> tables_ok t' \<and> rows_have_kids (t', k') \<and>
    configs t' = configs t \<and>
    (\<forall>e p. run_map t' (e, p) \<noteq> None \<longleftrightarrow>
       (if e \<in> set (map pc_exchange (configs t)) \<and> p \<in> {COMMAND1, COMMAND2}
        then \<exists>c\<in>set (configs t). pc_exchange c = e \<and> pc_running c = 1
        else run_map t (e, p) \<noteq> None))"
proof -
  have "ready (2 * length (configs t)) (progs (switched_on (configs t))) (t, k)"
    using assms by (simp add: ready_def)
  from check_each_ok [OF this assms(5)] obtain t' k' where
    r: "check_each (configs t) (t, k) = Some (t', k')" "ready 0 {} (t', k')" "same_rest t t'"
    "dom (run_map t') = (dom (run_map t) - progs (configs t)) \<union> progs (switched_on (configs t))" by auto
  have "(e, p) \<in> progs (configs t) \<longleftrightarrow> e \<in> set (map pc_exchange (configs t)) \<and> p \<in> {COMMAND1, COMMAND2}"
    "(e, p) \<in> progs (switched_on (configs t)) \<longleftrightarrow>
      (\<exists>c\<in>set (configs t). pc_exchange c = e \<and> pc_running c = 1) \<and> p \<in> {COMMAND1, COMMAND2}" for e p
    by (auto simp: progs_def switched_on_def)
  moreover have "run_map t' x \<noteq> None \<longleftrightarrow> x \<in> (dom (run_map t) - progs (configs t)) \<union> progs (switched_on (configs t))" for x
    unfolding r(4) [symmetric] by (simp add: domIff)
  ultimately have dom: "run_map t' (e, p) \<noteq> None \<longleftrightarrow>
       (if e \<in> set (map pc_exchange (configs t)) \<and> p \<in> {COMMAND1, COMMAND2}
        then \<exists>c\<in>set (configs t). pc_exchange c = e \<and> pc_running c = 1
        else run_map t (e, p) \<noteq> None)" for e p
    by (simp add: domIff) blast
  have "check_all_process (t, k) = Some (t', k')" "tables_ok t'" "rows_have_kids (t', k')" "configs t' = configs t"
    using r(1,2) same_rest_configs [OF r(3)] by (simp_all add: check_all_process_def ready_def)
  with dom show ?thesis by blast
qed

theorem check_all_converges_witness:
  "\<exists>t' k'. check_all_process (tables1, kernel2) = Some (t', k') \<and>
     run_map t' (''LME'', COMMAND1) = None \<and> run_map t' (''ICE'', COMMAND2) \<noteq> None"
proof -
  have a: "tables_ok tables1" "rows_have_kids (tables1, kernel2)" "\<forall>p\<in>set (forks kernel2). 0 \<le> p"
    "2 * length (configs tables1) \<le> length (forks kernel2)" "distinct (map pc_exchange (configs tables1))"
    by code_simp+
  have c: "map pc_exchange (configs tables1) = [''LME'', ''ICE'']"
    "map (\<lambda>c. (pc_exchange c, pc_running c)) (configs tables1) = [(''LME'', 0), (''ICE'', 1)]"
    by code_simp+
  have "dom (run_map tables1) \<subseteq> {''LME'', ''ICE''} \<times> {COMMAND1, COMMAND2}"
  proof -
    have "set (map run_key (run_live tables1)) \<subseteq> {''LME'', ''ICE''} \<times> {COMMAND1, COMMAND2}" by code_simp
    then show ?thesis by (auto simp: run_map_def table_of_def dom_map_of_conv_image_fst)
  qed
  moreover have "progs (switched_on (configs tables1)) \<subseteq> {''LME'', ''ICE''} \<times> {COMMAND1, COMMAND2}"
    using progs_on_subset [of "configs tables1"] c(1) by (auto simp: progs_def)
  ultimately have "card (dom (run_map tables1) \<union> progs (switched_on (configs tables1))) \<le>
      card ({''LME'', ''ICE''} \<times> {COMMAND1, COMMAND2})" by (intro card_mono) auto
  also have "\<dots> \<le> MAX_EXCHANGE" by (simp add: COMMAND1_def COMMAND2_def MAX_EXCHANGE_def)
  finally obtain t' k' where t': "check_all_process (tables1, kernel2) = Some (t', k')"
    "\<forall>e p. run_map t' (e, p) \<noteq> None \<longleftrightarrow>
       (if e \<in> set (map pc_exchange (configs tables1)) \<and> p \<in> {COMMAND1, COMMAND2}
        then \<exists>c\<in>set (configs tables1). pc_exchange c = e \<and> pc_running c = 1
        else run_map tables1 (e, p) \<noteq> None)"
    using check_all_converges [OF a] by blast
  obtain x y where "configs tables1 = [x, y]" "pc_exchange x = ''LME''" "pc_running x = 0"
    "pc_exchange y = ''ICE''" "pc_running y = 1"
    using c(2) by auto
  then show ?thesis
    using t'(1) t'(2) [rule_format, of "''LME''" COMMAND1] t'(2) [rule_format, of "''ICE''" COMMAND2] by auto
qed


text \<open>
  The configuration switches ICE on, its \<^verbatim>\<open>monrecv\<close> is forked, ends and is reaped, and only
  then entered.
\<close>

definition forked1 :: KERNEL where
  "forked1 = spawn tables1 ''ICE'' COMMAND1 103 (kernel2\<lparr>forks := [104, 105, 106]\<rparr>)"

lemma server1_hands:
  "\<exists>t k. handled_step\<^sup>*\<^sup>* (sv_world server1, None, {}) ((t, k), None, {103}) \<and>
     (\<exists>r\<in>set (run_live t). rn_pid r = 103)"
proof -
  let ?file = "Some (JSONArray [entry ''LME'' 0, entry ''ICE'' 1])"
  let ?k = "kernel2\<lparr>forks := [104, 105, 106]\<rparr>" and ?s = "sv_world server1"
  have "get_process_config ?file (fst (sv_world server1)) = Some (0, tables1)" by code_simp
  then have 1: "handled_step (?s, None, {}) ((tables1, kernel2), None, {})"
    using handled_step.configured [of ?file ?s 0 tables1 "{}"] by (simp add: kernel2_def)
  have "fork_child ''ICE'' COMMAND1 (tables1, kernel2) = Some (103, tables1, forked1)" by code_simp
  then have 2: "handled_step ((tables1, kernel2), None, {}) ((tables1, forked1), Some (''ICE'', COMMAND1, 103), {})"
    by (rule handled_step.forked) simp
  have "\<exists>c\<in>set (kids forked1). k_pid c = 103 \<and> k_state c = Runs" by code_simp
  then obtain c where c: "c \<in> set (kids forked1)" "k_pid c = 103" "k_state c = Runs" by blast
  have 3: "handled_step ((tables1, forked1), Some (''ICE'', COMMAND1, 103), {})
      ((tables1, zombie 103 forked1), Some (''ICE'', COMMAND1, 103), {})"
    using handled_step.ended [of c "(tables1, forked1)"] c by simp
  have a: "tables_ok tables1" "103 \<notin> pids ?k" "\<forall>c\<in>set (kids ?k). k_state c \<noteq> Zombie"
    "\<forall>r\<in>set (run_live tables1). rn_pid r \<noteq> 103" by code_simp+
  have clean: "clean_zombie_process (tables1, zombie 103 forked1) =
      Some (tables1, (zombie 103 forked1)\<lparr>kids := kids ?k\<rparr>)"
    unfolding forked1_def using a by (intro clean_last_zombie [OF a(1) zombie_spawn [OF a(2)]]) auto
  let ?k2 = "(zombie 103 forked1)\<lparr>kids := kids ?k\<rparr>"
  have "orphaned (Some (''ICE'', COMMAND1, 103)) ?k2 {} = {103}" using a(2) by (simp add: orphaned_def)
  then have 4: "handled_step ((tables1, zombie 103 forked1), Some (''ICE'', COMMAND1, 103), {})
      ((tables1, ?k2), Some (''ICE'', COMMAND1, 103), {103})"
    using handled_step.handled [OF clean, of "Some (''ICE'', COMMAND1, 103)" "{}"] by simp
  have "get_running_table tables1 ''ICE'' COMMAND1 = None" "running_vrec tables1 < MAX_EXCHANGE" by code_simp+
  then have new: "run_map tables1 (''ICE'', COMMAND1) = None" and room: "running_vrec tables1 < MAX_EXCHANGE"
    using run_map_get(1) [OF a(1)] by simp_all
  obtain t' k' where r: "register ''ICE'' COMMAND1 103 (tables1, ?k2) = Some (t', k')" "tables_ok t'"
    "run_map t' (''ICE'', COMMAND1) = Some (row_for ?k2 ''ICE'' COMMAND1 103)"
    using register_ok [OF a(1) new room, of 103 ?k2] by auto
  have 5: "handled_step ((tables1, ?k2), Some (''ICE'', COMMAND1, 103), {103}) ((t', k'), None, {103})"
    by (rule handled_step.entered) (rule r(1))
  have "row_for ?k2 ''ICE'' COMMAND1 103 \<in> set (run_live t')" using r(3) by (simp add: run_map_iff [OF r(2)])
  moreover have "rn_pid (row_for ?k2 ''ICE'' COMMAND1 103) = 103" by (simp add: row_for_def)
  ultimately show ?thesis using 1 2 3 4 5 by (meson converse_rtranclp_into_rtranclp rtranclp.rtrancl_refl)
qed


text \<open>
  C20. A child whose \<^verbatim>\<open>execv\<close> fails after the server has called \<^verbatim>\<open>atexit\<close> leaves through \<^verbatim>\<open>exit\<close> and so
  runs \<^verbatim>\<open>kill_all_process\<close> on its copy of the tables: every running process registered there for a
  configured exchange is told to end, not only the one that could not be started.
\<close>

theorem failed_exec_kills_all:
  assumes "k_state c = Fails tc" "tables_ok tc" "at_exit tc" "run_map tc (k_exchange c, k_procname c) = None"
  shows "\<exists>k'. failed_child c tc k = Some k' \<and>
    kids k' = map (\<lambda>d. if k_pid d = k_pid c then d\<lparr>k_state := Zombie\<rparr>
      else if k_state d = Runs \<and> (\<exists>r\<in>set (run_live tc). rn_pid r = k_pid d \<and>
          rn_exchange r \<in> set (map pc_exchange (configs tc)) \<and> rn_procname r \<in> {COMMAND1, COMMAND2})
        then d\<lparr>k_state := Told\<rparr>
      else d) (kids k)"
proof -
  let ?k = "writelog (Aborted (command_line k (k_procname c))) k"
  obtain t' k' where k': "kill_each (configs tc) (tc, ?k) = Some (t', k')"
    "kids k' = map (told_all (pids_of tc (progs (configs tc)))) (kids ?k)"
    using kill_each_tells [OF assms(2)] by blast
  have P: "q \<in> pids_of tc (progs (configs tc)) \<longleftrightarrow> (\<exists>r\<in>set (run_live tc). rn_pid r = q \<and>
      rn_exchange r \<in> set (map pc_exchange (configs tc)) \<and> rn_procname r \<in> {COMMAND1, COMMAND2})" for q
    by (auto simp: pids_of_def run_map_iff [OF assms(2)] run_key_def progs_def)
  have "failed_child c tc k = Some (zombie (k_pid c) k')"
    using del_running_table_absent [OF assms(2,4)] assms(3) k'(1)
    by (simp add: failed_child_def kill_all_process_def Let_def)
  then show ?thesis
    by (auto simp: zombie_def k'(2) told_all_def P)
qed

text \<open>With \<^verbatim>\<open>monfep\<close> missing from \<^verbatim>\<open>BIN_DIR\<close>, the attempt to start it for one exchange ends the other's.\<close>

definition tables3 :: TABLES where
  "tables3 = (fst (sv_world server1))\<lparr>process_config :=
     [\<lparr>pc_exchange = ''LME'', pc_running = 1\<rparr>, \<lparr>pc_exchange = ''ICE'', pc_running = 1\<rparr>] @ replicate 62 process0\<rparr>"

definition lost_child :: kid where
  "lost_child = \<lparr>k_pid = 103, k_exchange = ''ICE'', k_procname = COMMAND2, k_state = Fails tables3\<rparr>"

theorem failed_exec_kills_all_witness:
  "\<exists>k'. failed_child lost_child tables3 kernel2 = Some k' \<and> map k_state (kids k') = [Told, Told]"
proof -
  have a: "tables_ok tables3" "at_exit tables3"
    "get_running_table tables3 (k_exchange lost_child) (k_procname lost_child) = None" by code_simp+
  have n: "run_map tables3 (k_exchange lost_child, k_procname lost_child) = None"
    using run_map_get(1) [OF a(1)] a(3) by simp
  have "map k_state (map (\<lambda>d. if k_pid d = k_pid lost_child then d\<lparr>k_state := Zombie\<rparr>
      else if k_state d = Runs \<and> (\<exists>r\<in>set (run_live tables3). rn_pid r = k_pid d \<and>
          rn_exchange r \<in> set (map pc_exchange (configs tables3)) \<and> rn_procname r \<in> {COMMAND1, COMMAND2})
        then d\<lparr>k_state := Told\<rparr>
      else d) (kids kernel2)) = [Told, Told]" by code_simp
  with failed_exec_kills_all [OF _ a(1,2) n, of kernel2] show ?thesis by (auto simp: lost_child_def)
qed

text \<open>
  When a child ends before its parent has entered it in the running table, the handler of the
  signal finds no row for it; the row entered afterwards bears the process id of a child that is
  gone. Whatever the server does from then on, the row stays and the program is never started again.
\<close>

theorem early_death_never_restarted:
  assumes "world_inv (t, k)" "\<forall>c\<in>set (kids k). k_state c \<noteq> Zombie \<and> (k_exchange c, k_procname c) \<noteq> (e, p)"
    "run_map t (e, p) = None" "running_vrec t < MAX_EXCHANGE"
    "0 \<le> pid" "pid \<notin> pids k" "pid \<notin> set (forks k)"
  shows "clean_zombie_process (t, zombie pid (spawn t e p pid k)) = Some (t, k) \<and>
    (\<exists>t' k'. register e p pid (t, k) = Some (t', k') \<and>
       (\<forall>s s'. sv_world s = (t', k') \<and> server_step\<^sup>*\<^sup>* s s' \<longrightarrow>
          run_map (fst (sv_world s')) (e, p) \<noteq> None \<and>
          (\<forall>c\<in>set (kids (snd (sv_world s'))). (k_exchange c, k_procname c) \<noteq> (e, p))))"
proof -
  have ok: "tables_ok t" "rows_have_kids (t, k)" using assms(1) by (simp_all add: world_inv_def)
  have "\<forall>r\<in>set (run_live t). rn_pid r \<noteq> pid" using ok(2) assms(6) by (auto simp: rows_have_kids_def)
  then have "clean_zombie_process (t, zombie pid (spawn t e p pid k)) =
      Some (t, (zombie pid (spawn t e p pid k))\<lparr>kids := kids k\<rparr>)"
    using assms(2) by (intro clean_last_zombie [OF ok(1) zombie_spawn [OF assms(6)]]) auto
  also have "(zombie pid (spawn t e p pid k))\<lparr>kids := kids k\<rparr> = k" by (simp add: zombie_def spawn_def)
  finally have clean: "clean_zombie_process (t, zombie pid (spawn t e p pid k)) = Some (t, k)" .
  obtain t' k' where r: "register e p pid (t, k) = Some (t', k')" "tables_ok t'"
    "run_map t' = (run_map t)((e, p) \<mapsto> row_for k e p pid)" "kids k' = kids k" "forks k' = forks k"
    using register_ok [OF ok(1) assms(3,4), where k = k and pid = pid] by auto
  have "stuck (e, p) (row_for k e p pid) (t', k')"
    using assms(2,6,7) r by (auto simp: stuck_def row_for_def)
  then have "stuck (e, p) (row_for k e p pid) (sv_world s')" if "sv_world s = (t', k')" "server_step\<^sup>*\<^sup>* s s'" for s s'
    using server_steps_safe [OF that(2)] that(1) r(2) by (simp add: safe_def)
  then show ?thesis using clean r(1) by (fastforce simp: stuck_def)
qed

theorem early_death_never_restarted_witness:
  "\<exists>t' k'. register ''ICE'' COMMAND1 999 (tables1, kernel2) = Some (t', k') \<and>
     (\<forall>s s'. sv_world s = (t', k') \<and> server_step\<^sup>*\<^sup>* s s' \<longrightarrow> run_map (fst (sv_world s')) (''ICE'', COMMAND1) \<noteq> None)"
proof -
  have a: "world_inv (tables1, kernel2)"
    "\<forall>c\<in>set (kids kernel2). k_state c \<noteq> Zombie \<and> (k_exchange c, k_procname c) \<noteq> (''ICE'', COMMAND1)"
    "get_running_table tables1 ''ICE'' COMMAND1 = None" "running_vrec tables1 < MAX_EXCHANGE"
    "999 \<notin> pids kernel2" "999 \<notin> set (forks kernel2)" by code_simp+
  have n: "run_map tables1 (''ICE'', COMMAND1) = None"
    using a(1,3) run_map_get(1) [of tables1 "''ICE''" COMMAND1] by (simp add: world_inv_def)
  show ?thesis using early_death_never_restarted [OF a(1,2) n a(4) _ a(5,6)] by fastforce
qed

text \<open>Two smaller facts: what happens when the table is full, and to messages read in one piece.\<close>

lemma table_full_overrun:
  assumes "tables_ok t" "running_vrec t = MAX_EXCHANGE" "run_map t (e, p) = None" "forks k = pid # ps" "0 \<le> pid"
  shows "run_process e p (t, k) = None"
  using assms run_map_get(1) [OF assms(1), of e p] tables_okD(1) [OF assms(1)]
  by (simp add: run_process_def fork_def register_def new_running_table_def Let_def)

lemma messages_run_together: "read_msg (KILL_ALL_MSG @ RUN_ALL_MSG) s = s"
  by (simp add: read_msg_def KILL_ALL_MSG_def RUN_ALL_MSG_def CONFIG_UPDATE_MSG_def)

end
