(* ===== verification/MonLog.thy ===== *)
theory MonLog
  imports Environment MonClass
begin

unbundle bit_operations_syntax

text \<open>
  The dump files of the received messages, \<^verbatim>\<open>src/mon/monlog.c\<close>, with
  \<^verbatim>\<open>create_directory\<close> of \<^verbatim>\<open>src/lib/main/file.c\<close>. A message goes to a file per host, exchange,
  port, format and kind of data, named by date and hour; a master message goes to \<^verbatim>\<open>MASTER.dump\<close>
  as well, which is started anew after 30 seconds without one; dump files older than the configured
  number of days are removed.

  The local array for the kind of data stays uninitialised for a class without an entry in the chain
  of tests; then the path is garbage (\<open>None\<close>). The path buffers of 256 bytes are taken to be long
  enough, which depends on the \<open>LOG_DIR\<close> of the build; the cut of \<^verbatim>\<open>snprintf\<close> is kept.
\<close>

subsection \<open>Directories (\<^verbatim>\<open>file.c\<close>)\<close>

text \<open>\<^verbatim>\<open>strtok_r\<close> over a path: its parts, empty ones skipped. The argument holds the part read so far.\<close>

fun path_tokens :: "string \<Rightarrow> string \<Rightarrow> string list" where
  "path_tokens part [] = (if part = [] then [] else [part])"
| "path_tokens part (c # s) =
     (if c = CHR ''/'' then (if part = [] then [] else [part]) @ path_tokens [] s
      else path_tokens (part @ [c]) s)"

text \<open>The result and the directories that were made.\<close>

fun make_path :: "ENV \<Rightarrow> string \<Rightarrow> string list \<Rightarrow> int \<times> string list" where
  "make_path env full_path [] = (0, [])"
| "make_path env full_path (token # tokens) =
     (let full_path = full_path @ ''/'' @ token
      in if length full_path > length (e_log_dir env) then
           (case e_mkdir env full_path of
              Made \<Rightarrow> (let (r, made) = make_path env full_path tokens in (r, full_path # made))
            | Exists \<Rightarrow> make_path env full_path tokens
            | MkdirError \<Rightarrow> (-1, []))
         else make_path env full_path tokens)"

definition create_directory :: "ENV \<Rightarrow> string \<Rightarrow> int \<times> string list" where
  "create_directory env dirname =
     (if e_access env dirname then (0, []) else make_path env [] (path_tokens [] dirname))"

subsection \<open>Paths\<close>

definition put_events :: "event list \<Rightarrow> FEP \<Rightarrow> FEP" where
  "put_events es fep = fep\<lparr>fep_out := fep_out fep @ es\<rparr>"

text \<open>The directory name for a class, \<open>None\<close> where the array is never written.\<close>

definition data_type :: "u32 \<Rightarrow> string option" where
  "data_type class_tag =
     (if has class_tag MASTER then Some ''master''
      else if has class_tag STATUS then Some ''status''
      else if has class_tag QUOTE then Some ''quote''
      else if has class_tag CANCEL then Some ''cancel''
      else if has class_tag SETTLE then Some ''settle''
      else if has class_tag OINT then Some ''oint''
      else if has class_tag DEPTH then Some ''depth''
      else if has class_tag FND then Some ''fnd''
      else if has class_tag MAVG then Some ''mavg''
      else if has class_tag OFFI then Some ''offi''
      else if has class_tag WARE then Some ''ware''
      else if has class_tag VOLM then Some ''volm''
      else None)"

text \<open>Result, directory and file name. The C code ignores a failing \<^verbatim>\<open>localtime_r\<close>: undefined.\<close>

definition mon_log_path ::
  "ENV \<Rightarrow> FEP \<Rightarrow> PORT \<Rightarrow> u32 \<Rightarrow> (int \<times> string \<times> string \<times> FEP) option" where
  "mon_log_path env fep port class_tag =
     (case (data_type class_tag, e_tm env) of
        (Some ty, Some tm) \<Rightarrow>
          let logdir = e_log_dir env @ ''/'' @ p_host port @ ''/'' @ st_name (c_settings (fep_config fep))
                @ ''/'' @ p_name port @ ''/'' @ p_format port @ ''/'' @ ty;
              filename = tm_date tm @ ''_'' @ [CHR ''0''] @ two_digits (tm_hour tm) @ ''.dump'';
              (r, made) = create_directory env logdir;
              fep1 = put_events (map EvMkdir made) fep
          in if r = -1 then
               Some (-1, logdir, filename,
                 fep_log fep1 FL_ERROR ''mon_log_path'' (Text (''Cannot create direcotry '' @ logdir)))
             else Some (0, logdir, filename, fep1)
      | _ \<Rightarrow> None)"

subsection \<open>Writing and removing\<close>

definition MASTER_NEW_INTERVAL :: int where
  "MASTER_NEW_INTERVAL = 30"

definition LOGMSG_SZ :: nat where
  "LOGMSG_SZ = 1024 * 8"

text \<open>\<^verbatim>\<open>strstr\<close>: whether a text occurs in another one.\<close>

fun occurs_in :: "string \<Rightarrow> string \<Rightarrow> bool" where
  "occurs_in t [] = (t = [])"
| "occurs_in t (c # s) = (take (length t) (c # s) = t \<or> occurs_in t s)"

text \<open>The time of day in Korea, nine hours ahead of UTC, as it stands in front of a line.\<close>

definition time_stamp :: "time_t \<Rightarrow> string" where
  "time_stamp t =
     (let s = nat ((t + 60 * 60 * 9) mod 86400)
      in ''['' @ two_digits (s div 3600) @ '':'' @ two_digits (s div 60 mod 60) @ '':''
         @ two_digits (s mod 60) @ ''] '')"

definition mon_log_write :: "ENV \<Rightarrow> string \<Rightarrow> bytes \<Rightarrow> FEP \<Rightarrow> FEP" where
  "mon_log_write env logpath msgb fep =
     (let anew = (case e_mtime env logpath of
            None \<Rightarrow> False
          | Some modified \<Rightarrow> occurs_in ''MASTER.dump'' logpath \<and> e_now env - modified > MASTER_NEW_INTERVAL);
          logmsg = take (LOGMSG_SZ - 1) (time_stamp (e_now env) @ cstr msgb)
      in if e_fopen env logpath then put_events [EvDump logpath anew logmsg] fep else fep)"

text \<open>One entry of the directory; \<^verbatim>\<open>difftime\<close> over the seconds of a day is compared as a fraction.\<close>

definition remove_entry :: "ENV \<Rightarrow> string \<Rightarrow> int \<Rightarrow> string \<Rightarrow> FEP \<Rightarrow> FEP" where
  "remove_entry env logdir date_limit name fep =
     (if name = ''.'' \<or> name = ''..'' \<or> \<not> occurs_in ''.dump'' name then fep
      else
        let logpath = take 255 (logdir @ ''/'' @ name)
        in case e_mtime env logpath of
             None \<Rightarrow> fep_log fep FL_ERROR ''mon_log_remove'' (Text (''Cannot get the status of '' @ logpath))
           | Some modified \<Rightarrow>
               if e_now env - modified > date_limit * (60 * 60 * 24) then
                 if e_remove env logpath then put_events [EvUnlink logpath] fep
                 else fep_log fep FL_ERROR ''mon_log_remove'' (Text (''Cannot remove '' @ logpath))
               else fep)"

definition mon_log_remove :: "ENV \<Rightarrow> FEP \<Rightarrow> string \<Rightarrow> int \<Rightarrow> int \<times> FEP" where
  "mon_log_remove env fep logdir date_limit =
     (case e_readdir env logdir of
        None \<Rightarrow> (-1, fep)
      | Some names \<Rightarrow> (0, fold (remove_entry env logdir date_limit) names fep))"

definition mon_log :: "ENV \<Rightarrow> FEP \<Rightarrow> PORT \<Rightarrow> bytes \<Rightarrow> u32 \<Rightarrow> (int \<times> FEP) option" where
  "mon_log env fep port msgb class_tag =
     (let raw_data = c_raw_data (fep_config fep)
      in if has class_tag DEPTH \<and> r_depth_log raw_data = 0 then Some (0, fep)
         else
           (case mon_log_path env fep port class_tag of
              None \<Rightarrow> None
            | Some (r, logdir, filename, fep1) \<Rightarrow>
                if r = -1 then
                  Some (-1, fep_log fep1 FL_ERROR ''mon_log'' (Text ''Failed to get log path''))
                else
                  let fep2 = mon_log_write env (logdir @ ''/'' @ filename) msgb fep1;
                      fep3 = (if has class_tag MASTER
                              then mon_log_write env (logdir @ ''/MASTER.dump'') msgb fep2 else fep2);
                      max_date = (if has class_tag DEPTH then 1 else r_max_date raw_data);
                      (r, fep4) = mon_log_remove env fep3 logdir max_date
                  in if r = -1 then
                       Some (-1, fep_log fep4 FL_ERROR ''mon_log''
                                   (Text (''Failed to remove the old log in '' @ logdir)))
                     else Some (0, fep4)))"

subsection \<open>Logging only puts something out\<close>

lemma quiet_put_events [simp]: "quiet fep (put_events es fep)"
  by (simp add: put_events_def quiet_out)

lemma quiet_log_after [simp]: "quiet fep fep1 \<Longrightarrow> quiet fep (fep_log fep1 l c m)"
  by (rule quiet_trans [OF _ quiet_fep_log])

lemma quiet_write [simp]: "quiet fep fep1 \<Longrightarrow> quiet fep (mon_log_write env path msgb fep1)"
  unfolding mon_log_write_def Let_def by (auto intro: quiet_trans [OF _ quiet_put_events])

lemma quiet_remove_entry [simp]: "quiet fep (remove_entry env dir limit name fep)"
  by (simp add: remove_entry_def Let_def split: option.split)

lemma quiet_remove_entries [simp]: "quiet fep (fold (remove_entry env dir limit) names fep)"
  by (induction names arbitrary: fep) (auto intro: quiet_trans [OF quiet_remove_entry])

lemma mon_log_path_quiet:
  "mon_log_path env fep port tag = Some (r, dir, fname, fep') \<Longrightarrow> quiet fep fep'"
  by (auto simp: mon_log_path_def Let_def split: option.splits prod.splits if_splits)

lemma mon_log_remove_quiet: "quiet fep (snd (mon_log_remove env fep dir limit))"
  by (simp add: mon_log_remove_def split: option.split)

lemma mon_log_quiet:
  assumes "mon_log env fep port msgb tag = Some (r, fep')"
  shows "quiet fep fep'"
proof (cases "has tag DEPTH \<and> r_depth_log (c_raw_data (fep_config fep)) = 0")
  case True
  with assms show ?thesis by (simp add: mon_log_def)
next
  case False
  with assms obtain r1 dir fname fep1 where path: "mon_log_path env fep port tag = Some (r1, dir, fname, fep1)"
    by (auto simp: mon_log_def split: option.splits)
  note q = mon_log_path_quiet [OF path]
  define fep3 where "fep3 = (if has tag MASTER
      then mon_log_write env (dir @ ''/MASTER.dump'') msgb (mon_log_write env (dir @ ''/'' @ fname) msgb fep1)
      else mon_log_write env (dir @ ''/'' @ fname) msgb fep1)"
  obtain x fep4 where rem: "mon_log_remove env fep3 dir
      (if has tag DEPTH then 1 else r_max_date (c_raw_data (fep_config fep))) = (x, fep4)"
    by fastforce
  have "quiet fep fep3" using q by (simp add: fep3_def)
  moreover have "quiet fep3 fep4" using rem by (metis mon_log_remove_quiet snd_conv)
  ultimately have "quiet fep fep4" by (rule quiet_trans)
  moreover have "mon_log env fep port msgb tag =
      (if r1 = -1 then Some (-1, fep_log fep1 FL_ERROR ''mon_log'' (Text ''Failed to get log path''))
       else if x = -1 then Some (-1, fep_log fep4 FL_ERROR ''mon_log''
              (Text (''Failed to remove the old log in '' @ dir)))
       else Some (0, fep4))"
    using False rem
    by (cases "has tag MASTER"; cases "has tag DEPTH") (simp_all add: mon_log_def Let_def path fep3_def)
  ultimately show ?thesis using assms q by (auto split: if_splits)
qed

lemma mon_log_defined:
  "data_type tag \<noteq> None \<Longrightarrow> e_tm env \<noteq> None \<Longrightarrow> mon_log env fep port msgb tag \<noteq> None"
  by (auto simp: mon_log_def mon_log_path_def Let_def split: prod.split)

subsection \<open>Properties\<close>

definition unlinked :: "FEP \<Rightarrow> string list" where
  "unlinked fep = concat (map (\<lambda>e. case e of EvUnlink p \<Rightarrow> [p] | _ \<Rightarrow> []) (fep_out fep))"

definition expired :: "ENV \<Rightarrow> string \<Rightarrow> int \<Rightarrow> string \<Rightarrow> bool" where
  "expired env dir limit name \<longleftrightarrow> name \<noteq> ''.'' \<and> name \<noteq> ''..'' \<and> occurs_in ''.dump'' name \<and>
     (case e_mtime env (take 255 (dir @ ''/'' @ name)) of
        None \<Rightarrow> False | Some t \<Rightarrow> e_now env - t > limit * 86400)"

text \<open>
  C8. Retention. The clean-up of a dump directory tries to remove, in the order of the listing,
  exactly the entries with \<open>.dump\<close> in their name whose modification time is more than the limit of
  days ago. The removed files are those of them the system lets it remove; an expired file whose
  \<^verbatim>\<open>remove\<close> fails stays, and nothing else in the directory is removed. The clean-up fails only when
  the directory cannot be read, and then removes nothing.
\<close>

theorem retention:
  "mon_log_remove env fep dir limit =
     (case e_readdir env dir of None \<Rightarrow> (-1, fep)
      | Some names \<Rightarrow> (0, snd (mon_log_remove env fep dir limit))) \<and>
   unlinked (snd (mon_log_remove env fep dir limit)) = unlinked fep @
     (case e_readdir env dir of None \<Rightarrow> []
      | Some names \<Rightarrow> filter (e_remove env) (map (\<lambda>name. take 255 (dir @ ''/'' @ name))
          (filter (expired env dir limit) names)))"
proof -
  have log: "unlinked (fep_log f l c m) = unlinked f" for f l c m
    by (simp add: unlinked_def fep_log_def)
  have put: "unlinked (put_events [EvUnlink p] f) = unlinked f @ [p]" for f p
    by (simp add: unlinked_def put_events_def)
  have entry: "unlinked (remove_entry env dir limit name f) = unlinked f @
      filter (e_remove env) (map (\<lambda>name. take 255 (dir @ ''/'' @ name)) (filter (expired env dir limit) [name]))"
    for name f
    by (auto simp: remove_entry_def expired_def Let_def log put split: option.split)
  have "unlinked (fold (remove_entry env dir limit) names f) = unlinked f @
      filter (e_remove env) (map (\<lambda>name. take 255 (dir @ ''/'' @ name)) (filter (expired env dir limit) names))"
    for names f
    by (induction names arbitrary: f) (auto simp: entry)
  then show ?thesis by (simp add: mon_log_remove_def split: option.split)
qed

definition full_directory :: ENV where
  "full_directory = \<lparr> e_now = 1000000,
     e_tm = Some \<lparr> tm_wday = 1, tm_hour = 9, tm_min = 30, tm_date = ''20240304'' \<rparr>,
     e_holiday = (\<lambda>_ _. NoFile), e_log_dir = ''/log'', e_access = (\<lambda>_. True),
     e_mkdir = (\<lambda>_. Exists),
     e_mtime = (\<lambda>p. if p = ''/d/new.dump'' then Some 900000 else Some 1000),
     e_fopen = (\<lambda>_. True),
     e_readdir = (\<lambda>_. Some [''.'', ''..'', ''a.dump'', ''new.dump'', ''notes'', ''b.dump'', ''c.dump'']),
     e_remove = (\<lambda>p. p \<noteq> ''/d/b.dump'') \<rparr>"

theorem retention_witness:
  "unlinked (snd (mon_log_remove full_directory (fep0 1) ''/d'' 5)) = [''/d/a.dump'', ''/d/c.dump'']"
proof -
  have "unlinked (fep0 1) = []" by (simp add: unlinked_def fep0_def)
  moreover have "e_readdir full_directory ''/d'' =
      Some [''.'', ''..'', ''a.dump'', ''new.dump'', ''notes'', ''b.dump'', ''c.dump'']"
    by (simp add: full_directory_def)
  moreover have "filter (e_remove full_directory) (map (\<lambda>name. take 255 (''/d'' @ ''/'' @ name))
      (filter (expired full_directory ''/d'' 5)
        [''.'', ''..'', ''a.dump'', ''new.dump'', ''notes'', ''b.dump'', ''c.dump''])) =
      [''/d/a.dump'', ''/d/c.dump'']" by code_simp
  ultimately show ?thesis
    using retention [of full_directory "fep0 1" "''/d''" 5] by simp
qed

text \<open>
  Two classes without a directory. For a closing price (\<open>T41\<close>) of the OLD feed, and for every
  message of the EXT feed, the chain of tests that fills in the name of the kind of data has no entry:
  the path is built from an array that was never written. Every other message of a trade port gets
  a directory.
\<close>

theorem unlogged_classes:
  assumes "mon_classify fep port msgb 0 = (0, tag)"
  shows "data_type tag = None \<longleftrightarrow>
    p_format port = ''EXT'' \<or> p_type port = ''T'' \<and> cstr (slice msgb 0 OLD_TRXC_SIZE) = ''T41''"
proof (cases "p_format port = ''EXT''")
  case True
  then have "mon_classify fep port msgb 0 = (0, base_tag fep msgb OR EXT_FORMAT)"
    by (simp add: mon_classify_eq)
  with assms have tag: "tag = base_tag fep msgb OR EXT_FORMAT" by simp
  have "\<not> has tag kind" if "kind \<in> set trade_kinds" for kind
    using that trade_kinds_bits(2) by (simp add: tag base_tag_def)
  moreover have "\<not> has EXT_FORMAT MASTER" by (simp add: has_flag)
  ultimately show ?thesis using True by (simp add: data_type_def trade_kinds_def tag)
next
  case False
  with assms have old: "p_format port = ''OLD''" by (auto simp: mon_classify_eq split: if_splits)
  show ?thesis
  proof (cases "p_type port = ''M''")
    case True
    with old assms have "old_master_class fep (base_tag fep msgb OR OLD_FORMAT OR MASTER) = (0, tag)"
      by (simp add: mon_classify_eq)
    moreover have "has MASTER MASTER" by (simp add: has_flag)
    ultimately have "has tag MASTER" by (auto simp: old_master_class_def Let_def split: if_splits)
    with True False show ?thesis by (simp add: data_type_def)
  next
    case other: False
    with old assms have ty: "p_type port = ''T''" by (auto simp: mon_classify_eq split: if_splits)
    from assms classify_trade_port [OF old ty] obtain flag where
      flag: "trxc_class (is_lme fep) (cstr (slice msgb 0 OLD_TRXC_SIZE)) = Some flag"
      and tag: "tag = base_tag fep msgb OR OLD_FORMAT OR TRADE OR flag"
      by (auto split: option.splits)
    have kind: "flag \<in> set trade_kinds" by (rule trxc_class_kind [OF flag])
    note has = trade_tag_has(1,2) [OF kind, of _ fep msgb, folded tag]
    have "data_type tag = None \<longleftrightarrow> flag \<notin> set trade_kinds - {CLOSE}"
      using has by (auto simp: data_type_def trade_kinds_def class_flags)
    then have "data_type tag = None \<longleftrightarrow> flag = CLOSE" using kind by auto
    moreover have "flag = CLOSE \<longleftrightarrow> cstr (slice msgb 0 OLD_TRXC_SIZE) = ''T41''"
      using flag by (auto simp: trxc_class_def class_flags split: if_splits)
    ultimately show ?thesis using False ty by simp
  qed
qed

definition demo_close :: bytes where
  "demo_close = ''T41'' @ replicate 9 CHR '' ''"

theorem unlogged_classes_witness:
  "data_type (snd (mon_classify (fep0 4) port0 demo_close 0)) = None"
proof -
  have trxc: "cstr (slice demo_close 0 OLD_TRXC_SIZE) = ''T41''"
    by (simp add: demo_close_def slice_eq OLD_TRXC_SIZE_def)
  have "fst (mon_classify (fep0 4) port0 demo_close 0) = 0"
    by (simp add: classify_trade_port trxc trxc_class_def port0_def)
  then have "mon_classify (fep0 4) port0 demo_close 0 = (0, snd (mon_classify (fep0 4) port0 demo_close 0))"
    by (simp add: prod_eq_iff)
  from unlogged_classes [OF this] trxc show ?thesis by (simp add: port0_def)
qed

end
