(* ===== verification/ConfigParse.thy ===== *)
theory ConfigParse
  imports ConfigSwitch MonLog Json "HOL-Library.Monad_Syntax"
begin

text \<open>
  The configuration file of an exchange: \<^verbatim>\<open>parse_config_json\<close>, \<^verbatim>\<open>get_nic_address\<close> and
  \<^verbatim>\<open>fep_config\<close> (\<open>fep_config_load\<close>) of \<^verbatim>\<open>src/lib/main/config.c\<close>. The network interfaces are a list of names and
  addresses in the order of \<^verbatim>\<open>getifaddrs\<close>; \<^verbatim>\<open>TMP_DIR\<close> is set by the build. The configuration is
  parsed into whatever the record held before.

  A missing text member is a null pointer, which \<^verbatim>\<open>strcmp\<close> and \<^verbatim>\<open>snprintf\<close> must not get: \<open>None\<close>.
\<close>

definition DEFAULT_INTV :: int where "DEFAULT_INTV = 10"

text \<open>\<^verbatim>\<open>snprintf(buf, size, "%s", s)\<close>.\<close>

definition put_text :: "nat \<Rightarrow> string option \<Rightarrow> string option" where
  "put_text n s = map_option (\<lambda>s. take (n - 1) (cstr s)) s"

definition get_nic_address :: "(string \<times> string) list \<Rightarrow> string \<Rightarrow> string \<Rightarrow> string" where
  "get_nic_address addrs nic_address nic_name =
     (case map_of addrs nic_name of None \<Rightarrow> nic_address | Some addr \<Rightarrow> addr)"

definition is_on :: "JSON_Object option \<Rightarrow> string \<Rightarrow> bool option" where
  "is_on ob name = map_option (\<lambda>s. strcmp (cstr s) ''ON'' = 0) (json_object_get_string ob name)"

definition parse_settings :: "JSON_Object option \<Rightarrow> SETTINGS option" where
  "parse_settings ob = do {
     name \<leftarrow> put_text 16 (json_object_get_string ob ''name'');
     typ \<leftarrow> put_text 16 (json_object_get_string ob ''type'');
     desc \<leftarrow> put_text 128 (json_object_get_string ob ''description'');
     timezone \<leftarrow> put_text 16 (json_object_get_string ob ''timezone'');
     room \<leftarrow> int_of_double (json_object_get_number ob ''room'');
     logLevel \<leftarrow> put_text 32 (json_object_get_string ob ''logLevel'');
     Some \<lparr>st_name = name, st_type = typ, st_desc = desc, st_timezone = timezone, st_room = room,
       st_logLevel = convert_logLevel logLevel\<rparr> }"

definition parse_raw_data :: "JSON_Object option \<Rightarrow> RAW_DATA option" where
  "parse_raw_data ob = do {
     max_date \<leftarrow> int_of_double (json_object_get_number ob ''max_date'');
     depth_log \<leftarrow> int_of_double (json_object_get_number ob ''depth_log'');
     cross_check \<leftarrow> int_of_double (json_object_get_number ob ''cross_check'');
     Some \<lparr>r_max_date = max_date, r_depth_log = depth_log, r_cross_check = cross_check\<rparr> }"

definition parse_time :: "JSON_Object option \<Rightarrow> TIME option" where
  "parse_time ob = do {
     let wday = json_object_get_object ob ''wday'';
     let window = json_object_get_object ob ''window'';
     ws \<leftarrow> put_text 16 (json_object_get_string wday ''start'');
     we \<leftarrow> put_text 16 (json_object_get_string wday ''end'');
     ts \<leftarrow> put_text 16 (json_object_get_string window ''start'');
     te \<leftarrow> put_text 16 (json_object_get_string window ''end'');
     Some \<lparr>wday_start = ws, wday_end = we, window_start = ts, window_end = te\<rparr> }"

text \<open>The name of the port's pipe, for which there are 64 bytes.\<close>

definition ipc_name :: "string \<Rightarrow> string \<Rightarrow> string \<Rightarrow> string \<Rightarrow> nat \<Rightarrow> string option" where
  "ipc_name tmp_dir exnm name host seqn =
     (let s = tmp_dir @ ''/'' @ exnm @ ''_'' @ name @ ''_'' @ host @ ''_'' @ decimal seqn
      in if length s \<ge> 64 then None else Some s)"

definition parse_port ::
    "string \<Rightarrow> (string \<times> string) list \<Rightarrow> string \<Rightarrow> nat \<Rightarrow> JSON_Object option \<Rightarrow> PORT \<Rightarrow> PORT option" where
  "parse_port tmp_dir addrs exnm i ob port = do {
     running \<leftarrow> is_on ob ''running'';
     alert \<leftarrow> is_on ob ''alert'';
     name \<leftarrow> put_text 16 (json_object_get_string ob ''name'');
     host \<leftarrow> put_text 16 (json_object_get_string ob ''host'');
     typ \<leftarrow> put_text 16 (json_object_get_string ob ''type'');
     format \<leftarrow> put_text 16 (json_object_get_string ob ''format'');
     ipad \<leftarrow> put_text 32 (json_object_get_string ob ''ipad'');
     no \<leftarrow> int_of_double (json_object_get_number ob ''port'');
     nic \<leftarrow> put_text 32 (json_object_get_string ob ''nic'');
     intv \<leftarrow> int_of_double (json_object_get_number ob ''intv'');
     ipc \<leftarrow> ipc_name tmp_dir exnm name host (i + 1);
     let times_array = json_object_get_array ob ''times'';
     let max_times = min MAX_TIME (json_array_get_count times_array);
     periods \<leftarrow> those (map (\<lambda>j. parse_time (json_array_get_object times_array j)) [0..<max_times]);
     Some (port\<lparr>
       p_seqn := i + 1, p_running := running, p_alert := alert, p_name := name, p_host := host,
       p_type := typ, p_format := format, p_ipad := ipad, p_port := no, p_nic_name := nic,
       p_nic_address := get_nic_address addrs (p_nic_address port) nic,
       p_intv := (if intv = 0 then DEFAULT_INTV else intv), p_ipc_name := ipc,
       p_ntime := max_times, p_times := periods @ drop max_times (p_times port)\<rparr>) }"

text \<open>
  The loop over the ports runs to the count of the array; behind the 64th it writes past \<^verbatim>\<open>ports\<close>.
\<close>

definition parse_config_json ::
    "string \<Rightarrow> (string \<times> string) list \<Rightarrow> CONFIG \<Rightarrow> JSON_Value \<Rightarrow> (int \<times> CONFIG) option" where
  "parse_config_json tmp_dir addrs config root_value = do {
     let root_object = json_value_get_object (Some root_value);
     settings \<leftarrow> parse_settings (json_object_get_object root_object ''settings'');
     raw_data \<leftarrow> parse_raw_data (json_object_get_object root_object ''raw_data'');
     let ports_array = json_object_get_array root_object ''ports'';
     let ports_count = json_array_get_count ports_array;
     if ports_count > length (c_ports config) then None
     else do {
       ports \<leftarrow> those (map (\<lambda>i. parse_port tmp_dir addrs (st_name settings) i
                   (json_array_get_object ports_array i) (c_ports config ! i)) [0..<ports_count]);
       Some (0, config\<lparr>c_settings := settings, c_raw_data := raw_data,
         c_nport := min MAX_PORT ports_count,
         c_ports := ports @ drop ports_count (c_ports config)\<rparr>) } }"

definition fep_config_load ::
    "string \<Rightarrow> (string \<times> string) list \<Rightarrow> JSON_Value option \<Rightarrow> CONFIG \<Rightarrow> (int \<times> CONFIG) option" where
  "fep_config_load tmp_dir addrs rootValue config =
     (case rootValue of
        None \<Rightarrow> Some (-1, config)
      | Some v \<Rightarrow>
          (case parse_config_json tmp_dir addrs config v of
             None \<Rightarrow> None
           | Some (_, config1) \<Rightarrow>
               map_option (\<lambda>(r, c). (if r = -1 then -1 else 0, c)) (recv_switch_check config1)))"

subsection \<open>The file that describes a configuration\<close>

text \<open>
  The format as the README gives it: what a file for a configuration looks like. \<open>level\<close> is the name
  of the log level.
\<close>

definition onoff :: "bool \<Rightarrow> JSON_Value" where
  "onoff b = JSONString (if b then ''ON'' else ''OFF'')"

definition json_int :: "int \<Rightarrow> JSON_Value" where
  "json_int n = JSONNumber (of_int n)"

definition time_json :: "TIME \<Rightarrow> JSON_Value" where
  "time_json t = JSONObject [
     (''wday'', JSONObject [(''start'', JSONString (wday_start t)), (''end'', JSONString (wday_end t))]),
     (''window'', JSONObject [(''start'', JSONString (window_start t)), (''end'', JSONString (window_end t))])]"

definition port_json :: "PORT \<Rightarrow> JSON_Value" where
  "port_json p = JSONObject [
     (''running'', onoff (p_running p)), (''alert'', onoff (p_alert p)), (''name'', JSONString (p_name p)),
     (''host'', JSONString (p_host p)), (''type'', JSONString (p_type p)),
     (''format'', JSONString (p_format p)), (''ipad'', JSONString (p_ipad p)),
     (''port'', json_int (p_port p)), (''nic'', JSONString (p_nic_name p)), (''intv'', json_int (p_intv p)),
     (''times'', JSONArray (map time_json (take (p_ntime p) (p_times p))))]"

definition config_json :: "string \<Rightarrow> CONFIG \<Rightarrow> JSON_Value" where
  "config_json level c = JSONObject [
     (''settings'', JSONObject [
       (''name'', JSONString (st_name (c_settings c))), (''type'', JSONString (st_type (c_settings c))),
       (''description'', JSONString (st_desc (c_settings c))),
       (''timezone'', JSONString (st_timezone (c_settings c))),
       (''room'', json_int (st_room (c_settings c))), (''logLevel'', JSONString level)]),
     (''raw_data'', JSONObject [
       (''max_date'', json_int (r_max_date (c_raw_data c))),
       (''depth_log'', json_int (r_depth_log (c_raw_data c))),
       (''cross_check'', json_int (r_cross_check (c_raw_data c)))]),
     (''ports'', JSONArray (map port_json (take (c_nport c) (c_ports c))))]"

text \<open>
  A port after reading: what the file says of it, its place, the address of its interface and the
  name of its pipe; everything else (the switches, the times behind the last one in the file, what the
  receive loop keeps) is as it was in the old record.
\<close>

definition port_from_file ::
    "string \<Rightarrow> (string \<times> string) list \<Rightarrow> string \<Rightarrow> nat \<Rightarrow> PORT \<Rightarrow> PORT \<Rightarrow> PORT" where
  "port_from_file tmp_dir addrs exnm i p old = old\<lparr>
     p_running := p_running p, p_alert := p_alert p, p_name := p_name p, p_host := p_host p,
     p_type := p_type p, p_format := p_format p, p_ipad := p_ipad p, p_port := p_port p,
     p_nic_name := p_nic_name p, p_intv := p_intv p, p_ntime := p_ntime p,
     p_times := take (p_ntime p) (p_times p) @ drop (p_ntime p) (p_times old),
     p_seqn := i + 1,
     p_nic_address := (case map_of addrs (p_nic_name p) of Some a \<Rightarrow> a | None \<Rightarrow> p_nic_address old),
     p_ipc_name := tmp_dir @ ''/'' @ exnm @ ''_'' @ p_name p @ ''_'' @ p_host p @ ''_'' @ decimal (i + 1)\<rparr>"

text \<open>Texts and numbers that fit their members.\<close>

definition fits :: "nat \<Rightarrow> string \<Rightarrow> bool" where
  "fits n s \<longleftrightarrow> length s < n \<and> NUL \<notin> set s"

definition is_int :: "int \<Rightarrow> bool" where
  "is_int n \<longleftrightarrow> - (2 ^ 31) \<le> n \<and> n < 2 ^ 31"

definition time_fits :: "TIME \<Rightarrow> bool" where
  "time_fits t \<longleftrightarrow> fits 16 (wday_start t) \<and> fits 16 (wday_end t) \<and> fits 16 (window_start t) \<and>
     fits 16 (window_end t)"

definition port_fits :: "string \<Rightarrow> string \<Rightarrow> PORT \<Rightarrow> bool" where
  "port_fits tmp_dir exnm p \<longleftrightarrow>
     fits 16 (p_name p) \<and> fits 16 (p_host p) \<and> fits 16 (p_type p) \<and> fits 16 (p_format p) \<and>
     fits 32 (p_ipad p) \<and> fits 32 (p_nic_name p) \<and> is_int (p_port p) \<and> is_int (p_intv p) \<and>
     p_intv p \<noteq> 0 \<and> p_ntime p \<le> MAX_TIME \<and> p_ntime p \<le> length (p_times p) \<and>
     (\<forall>t\<in>set (take (p_ntime p) (p_times p)). time_fits t) \<and>
     length tmp_dir + length exnm + length (p_name p) + length (p_host p) < 58"

definition config_fits :: "string \<Rightarrow> string \<Rightarrow> CONFIG \<Rightarrow> bool" where
  "config_fits tmp_dir level c \<longleftrightarrow>
     fits 16 (st_name (c_settings c)) \<and> fits 16 (st_type (c_settings c)) \<and>
     fits 128 (st_desc (c_settings c)) \<and> fits 16 (st_timezone (c_settings c)) \<and>
     is_int (st_room (c_settings c)) \<and> fits 32 level \<and>
     st_logLevel (c_settings c) = convert_logLevel level \<and>
     is_int (r_max_date (c_raw_data c)) \<and> is_int (r_depth_log (c_raw_data c)) \<and>
     is_int (r_cross_check (c_raw_data c)) \<and> c_nport c \<le> MAX_PORT \<and> c_nport c \<le> length (c_ports c) \<and>
     (\<forall>p\<in>set (take (c_nport c) (c_ports c)). port_fits tmp_dir (st_name (c_settings c)) p)"

lemma put_text_fits: "fits n s \<Longrightarrow> put_text n (Some s) = Some s"
  by (auto simp: put_text_def fits_def cstr_id)

lemma int_of_double_json: "is_int n \<Longrightarrow> int_of_double (of_int n) = Some n"
  by (simp add: is_int_def int_of_double_of_int)

lemma is_on_onoff [simp]: "map_option (\<lambda>s. strcmp (cstr s) ''ON'' = 0) (Some (if b then ''ON'' else ''OFF'')) = Some b"
  by simp

lemma those_map_Some: "(\<And>x. x \<in> set xs \<Longrightarrow> f x = Some (g x)) \<Longrightarrow> those (map f xs) = Some (map g xs)"
  by (induction xs) simp_all

lemma parse_time_json:
  assumes "time_fits t"
  shows "parse_time (json_value_get_object (Some (time_json t))) = Some t"
  using assms by (simp add: parse_time_def time_json_def time_fits_def json_defs put_text_fits Let_def)


lemma json_array_object: "i < length xs \<Longrightarrow> json_array_get_object (Some xs) i = json_value_get_object (Some (xs ! i))"
  by (simp add: json_array_get_object_def json_array_get_value_def json_array_get_count_def)

lemma map_nth_take: "n \<le> length xs \<Longrightarrow> map ((!) xs) [0..<n] = take n xs"
  by (rule nth_equalityI) simp_all

lemma parse_times_json:
  assumes "n \<le> MAX_TIME" "n \<le> length ts" "\<forall>t\<in>set (take n ts). time_fits t"
  shows "those (map (\<lambda>j. parse_time (json_array_get_object (Some (map time_json (take n ts))) j))
    [0..<min MAX_TIME (length (take n ts))]) = Some (take n ts)"
proof -
  have "time_fits (ts ! j)" if "j < n" for j
    using assms(2,3) nth_mem [of j "take n ts"] that by simp
  then have "those (map (\<lambda>j. parse_time (json_array_get_object (Some (map time_json (take n ts))) j)) [0..<n]) =
      Some (map ((!) ts) [0..<n])"
    using assms by (intro those_map_Some) (simp add: json_array_object parse_time_json)
  then show ?thesis using assms by (simp add: map_nth_take min_absorb2)
qed

lemma parse_port_json:
  assumes "port_fits tmp_dir exnm p" "i < 64"
  shows "parse_port tmp_dir addrs exnm i (json_value_get_object (Some (port_json p))) p0 =
    Some (port_from_file tmp_dir addrs exnm i p p0)"
proof -
  have f: "fits 16 (p_name p)" "fits 16 (p_host p)" "fits 16 (p_type p)" "fits 16 (p_format p)"
    "fits 32 (p_ipad p)" "fits 32 (p_nic_name p)" "is_int (p_port p)" "is_int (p_intv p)" "p_intv p \<noteq> 0"
    "p_ntime p \<le> MAX_TIME" "p_ntime p \<le> length (p_times p)"
    "\<forall>t\<in>set (take (p_ntime p) (p_times p)). time_fits t"
    "length tmp_dir + length exnm + length (p_name p) + length (p_host p) < 58"
    using assms(1) by (simp_all add: port_fits_def)
  note times = parse_times_json [OF f(10-12)]
  have ipc: "ipc_name tmp_dir exnm (p_name p) (p_host p) (i + 1) =
      Some (tmp_dir @ ''/'' @ exnm @ ''_'' @ p_name p @ ''_'' @ p_host p @ ''_'' @ decimal (i + 1))"
    using f(13) length_decimal [of "i + 1"] assms(2) by (simp add: ipc_name_def Let_def)
  have n: "json_array_get_count (Some (map time_json (take (p_ntime p) (p_times p)))) = length (take (p_ntime p) (p_times p))"
    by (simp add: json_array_get_count_def)
  have "json_object_get_array (json_value_get_object (Some (port_json p))) ''times'' =
      Some (map time_json (take (p_ntime p) (p_times p)))"
    by (simp add: port_json_def json_defs)
  then have "parse_port tmp_dir addrs exnm i (json_value_get_object (Some (port_json p))) p0 = Some (p0\<lparr>
       p_seqn := i + 1, p_running := p_running p, p_alert := p_alert p, p_name := p_name p, p_host := p_host p,
       p_type := p_type p, p_format := p_format p, p_ipad := p_ipad p, p_port := p_port p,
       p_nic_name := p_nic_name p, p_nic_address := get_nic_address addrs (p_nic_address p0) (p_nic_name p),
       p_intv := p_intv p, 
       p_ipc_name := tmp_dir @ ''/'' @ exnm @ ''_'' @ p_name p @ ''_'' @ p_host p @ ''_'' @ decimal (i + 1),
       p_ntime := p_ntime p,
       p_times := take (p_ntime p) (p_times p) @ drop (p_ntime p) (p_times p0)\<rparr>)"
    using f ipc times
    by (simp add: parse_port_def n Let_def is_on_def port_json_def onoff_def json_int_def put_text_fits
        int_of_double_json json_object_get_string_def json_object_get_number_def json_object_get_value_def
        json_value_get_object_def json_value_get_string_def json_value_get_number_def min_absorb2)
  then show ?thesis by (simp add: port_from_file_def get_nic_address_def)
qed

subsection \<open>Properties\<close>

text \<open>
  C21. Parsing the file that describes a configuration gives that configuration back, whatever the
  record held before: settings, limits, the number of ports and all that the file says of each port.
  The place, the address of the interface and the name of the pipe of each port are derived from it,
  and every other member of the record is as it was. The texts fit their members, there are at most
  64 ports and no name of a pipe exceeds its 64 bytes.
\<close>

theorem parse_config_roundtrip:
  assumes "config_fits tmp_dir level c" "length (c_ports c0) = MAX_PORT"
  shows "parse_config_json tmp_dir addrs c0 (config_json level c) = Some (0, c0\<lparr>
    c_settings := c_settings c, c_raw_data := c_raw_data c, c_nport := c_nport c,
    c_ports := map (\<lambda>i. port_from_file tmp_dir addrs (st_name (c_settings c)) i (c_ports c ! i) (c_ports c0 ! i))
        [0..<c_nport c] @ drop (c_nport c) (c_ports c0)\<rparr>)"
proof -
  let ?n = "c_nport c" and ?st = "c_settings c" and ?root = "json_value_get_object (Some (config_json level c))"
    and ?arr = "Some (map port_json (take (c_nport c) (c_ports c)))"
  have n: "?n \<le> MAX_PORT" "?n \<le> length (c_ports c)"
    and ports: "\<forall>p\<in>set (take ?n (c_ports c)). port_fits tmp_dir (st_name ?st) p"
    using assms(1) by (simp_all add: config_fits_def)
  have settings: "parse_settings (json_object_get_object ?root ''settings'') = Some ?st"
    using assms(1)
    by (simp add: config_fits_def parse_settings_def config_json_def json_int_def json_defs put_text_fits int_of_double_json)
  have raw: "parse_raw_data (json_object_get_object ?root ''raw_data'') = Some (c_raw_data c)"
    using assms(1)
    by (simp add: config_fits_def parse_raw_data_def config_json_def json_int_def json_defs int_of_double_json)
  have arr: "json_object_get_array ?root ''ports'' = ?arr"
    by (simp add: config_json_def json_defs)
  have count: "json_array_get_count ?arr = ?n"
    using n by (simp add: json_array_get_count_def min_absorb2)
  let ?f = "\<lambda>i. parse_port tmp_dir addrs (st_name ?st) i (json_array_get_object ?arr i) (c_ports c0 ! i)"
    and ?g = "\<lambda>i. port_from_file tmp_dir addrs (st_name ?st) i (c_ports c ! i) (c_ports c0 ! i)"
  have "?f i = Some (?g i)" if "i \<in> set [0..<?n]" for i
  proof -
    have i: "i < ?n" "i < 64" using that n by (simp_all add: MAX_PORT_def)
    then have "port_fits tmp_dir (st_name ?st) (c_ports c ! i)"
      using ports nth_mem [of i "take ?n (c_ports c)"] n by simp
    from parse_port_json [OF this i(2)] show ?thesis using i n by (simp add: json_array_object)
  qed
  then have "those (map ?f [0..<?n]) = Some (map ?g [0..<?n])" by (rule those_map_Some)
  then show ?thesis
    using n assms(2) by (simp add: parse_config_json_def settings raw arr count Let_def min_absorb2)
qed

definition file_config :: CONFIG where
  "file_config = \<lparr>
     c_settings = \<lparr>st_name = ''LME'', st_type = ''Future'', st_desc = ''metals'', st_timezone = ''Europe/London'',
       st_room = 2000, st_logLevel = FL_ERROR\<rparr>,
     c_raw_data = \<lparr>r_max_date = 7, r_depth_log = 1, r_cross_check = 1\<rparr>,
     c_ports = [port0\<lparr>p_port := 5001, p_ntime := 1,
       p_times := [\<lparr>wday_start = ''Mon'', wday_end = ''Fri'', window_start = ''0800'', window_end = ''1700''\<rparr>]\<rparr>],
     c_nport = 1\<rparr>"

theorem parse_config_roundtrip_witness:
  "\<exists>c'. parse_config_json ''/mon/tmp'' [(''lo'', ''127.0.0.1''), (p_nic_name port0, ''10.0.0.9'')]
     (config0\<lparr>c_ports := replicate 64 port0\<rparr>) (config_json ''Error'' file_config) = Some (0, c') \<and>
     c_nport c' = 1 \<and> p_port (c_ports c' ! 0) = 5001 \<and> p_nic_address (c_ports c' ! 0) = ''10.0.0.9'' \<and>
     p_ipc_name (c_ports c' ! 0) = ''/mon/tmp/LME_P1_H1_1'' \<and> c_ports c' ! 1 = port0"
proof -
  have "config_fits ''/mon/tmp'' ''Error'' file_config"
    by code_simp
  note fits = this
  have one: "decimal (Suc 0) = ''1''"
    by code_simp
  from parse_config_roundtrip [OF fits, of "config0\<lparr>c_ports := replicate 64 port0\<rparr>"
      "[(''lo'', ''127.0.0.1''), (p_nic_name port0, ''10.0.0.9'')]"]
  show ?thesis
    by (simp add: MAX_PORT_def file_config_def port_from_file_def port0_def one)
qed

text \<open>A file with more than 64 ports is written past the end of the table of ports.\<close>

lemma too_many_ports:
  assumes "length (c_ports c0) = MAX_PORT"
    "MAX_PORT < json_array_get_count (json_object_get_array (json_value_get_object (Some v)) ''ports'')"
  shows "parse_config_json tmp_dir addrs c0 v = None"
  using assms by (simp add: parse_config_json_def Let_def bind_eq_None_conv)

end
