(* ===== verification/SharedMemory.thy ===== *)
theory SharedMemory
  imports FolderTable ConfigParse
begin

text \<open>
  The shared memory segment of an exchange: \<^verbatim>\<open>src/lib/main/shm.c\<close> (the key, creating, attaching
  and resizing the segment), \<^verbatim>\<open>src/lib/main/open.c\<close>, and the removal by \<^verbatim>\<open>src/mon/monipcx.c\<close>.

  The system's segments are a list; a segment holds the archive header and the folders behind it, and
  its size is that of the header and of as many folders as it holds. What a process writes through
  its pointers is written to the segment it has attached (\<open>flush\<close>). A wild pointer (\<^verbatim>\<open>shmat\<close> has
  failed) and reading behind a segment are \<open>None\<close>. For a new segment \<^verbatim>\<open>fep_shminit\<close> logs the
  members of a \<^verbatim>\<open>shmid_ds\<close> that nobody has filled; the line is kept without its numbers, and this read
  of uninitialised memory is not made undefined.
\<close>

subsection \<open>The key\<close>

definition MAX_KEY :: u64 where "MAX_KEY = 1000000"
definition MAGIC_NUMBER :: u64 where "MAGIC_NUMBER = 5381"

text \<open>A \<^verbatim>\<open>char\<close> has a sign.\<close>

definition char_val :: "char \<Rightarrow> int" where
  "char_val c = sint (of_char c :: 8 word)"

fun djb2_from :: "u64 \<Rightarrow> string \<Rightarrow> u64" where
  "djb2_from hash [] = hash mod MAX_KEY"
| "djb2_from hash (c # str) =
     (if c = NUL then hash mod MAX_KEY
      else djb2_from (((push_bit 5 hash + hash) + word_of_int (char_val c)) mod MAX_KEY) str)"

definition djb2 :: "string \<Rightarrow> u64" where
  "djb2 str = djb2_from MAGIC_NUMBER str"

lemma djb2_from_bound: "djb2_from hash str < MAX_KEY"
proof (induction hash str rule: djb2_from.induct)
  have b: "h mod MAX_KEY < MAX_KEY" for h
    by (simp add: word_less_nat_alt unat_mod_distrib MAX_KEY_def)
  case (1 hash)
  show ?case by (simp add: b)
next
  have b: "h mod MAX_KEY < MAX_KEY" for h
    by (simp add: word_less_nat_alt unat_mod_distrib MAX_KEY_def)
  case (2 hash c str)
  then show ?case by (simp add: b)
qed

subsection \<open>Segments\<close>

definition MD_RDONLY :: int where "MD_RDONLY = 1"
definition MD_RDWR :: int where "MD_RDWR = 2"

text \<open>The size of \<^verbatim>\<open>MDARCH\<close> on the 64-bit platform.\<close>

definition sizeof_MDARCH :: int where "sizeof_MDARCH = 2865952"

record SEG =
  sg_id   :: int
  sg_key  :: int
  sg_arch :: MDARCH
  sg_fold :: "FOLDER list"

text \<open>The segments, and the ids new segments will get; none left is a failing \<^verbatim>\<open>shmget\<close>.\<close>

record SHM =
  segs    :: "SEG list"
  new_ids :: "int list"

definition segsz :: "SEG \<Rightarrow> int" where
  "segsz s = sizeof_MDARCH + sizeof_FOLDER * int (length (sg_fold s))"

definition seg_of_key :: "int \<Rightarrow> SHM \<Rightarrow> SEG option" where
  "seg_of_key key shm = (if key = 0 then None else List.find (\<lambda>s. sg_key s = key) (segs shm))"

definition seg_of_id :: "int \<Rightarrow> SHM \<Rightarrow> SEG option" where
  "seg_of_id i shm = List.find (\<lambda>s. sg_id s = i) (segs shm)"

definition zero_port :: PORT where
  "zero_port = port0\<lparr>p_seqn := 0, p_running := False, p_alert := False, p_name := [], p_host := [],
     p_type := [], p_format := [], p_intv := 0\<rparr>"

definition zero_config :: CONFIG where
  "zero_config = \<lparr>c_settings = \<lparr>st_name = [], st_type = [], st_desc = [], st_timezone = [], st_room = 0,
     st_logLevel = 0\<rparr>, c_raw_data = \<lparr>r_max_date = 0, r_depth_log = 0, r_cross_check = 0\<rparr>,
     c_ports = replicate MAX_PORT zero_port, c_nport = 0\<rparr>"

definition zero_seg :: "int \<Rightarrow> int \<Rightarrow> nat \<Rightarrow> SEG" where
  "zero_seg i key n = \<lparr>sg_id = i, sg_key = key, sg_arch = (arch0 0)\<lparr>a_config := zero_config\<rparr>,
     sg_fold = replicate n fold0\<rparr>"

text \<open>
  \<^verbatim>\<open>shmget(key, size, 0666 | IPC_CREAT)\<close> for a size with room for \<open>n\<close> folders: the segment that has the
  key, if it is not smaller, or a new one.
\<close>

definition createSharedMemory :: "int \<Rightarrow> nat \<Rightarrow> SHM \<Rightarrow> int \<times> SHM" where
  "createSharedMemory shmkey n shm =
     (case seg_of_key shmkey shm of
        Some s \<Rightarrow> (if n \<le> length (sg_fold s) then sg_id s else -1, shm)
      | None \<Rightarrow>
          (case new_ids shm of
             [] \<Rightarrow> (-1, shm)
           | i # ids \<Rightarrow> (i, shm\<lparr>segs := segs shm @ [zero_seg i shmkey n], new_ids := ids\<rparr>)))"

definition removeSharedMemory :: "int \<Rightarrow> SHM \<Rightarrow> SHM" where
  "removeSharedMemory shmid shm = shm\<lparr>segs := filter (\<lambda>s. sg_id s \<noteq> shmid) (segs shm)\<rparr>"

definition update_seg :: "int \<Rightarrow> (SEG \<Rightarrow> SEG) \<Rightarrow> SHM \<Rightarrow> SHM" where
  "update_seg i f shm = shm\<lparr>segs := map (\<lambda>s. if sg_id s = i then f s else s) (segs shm)\<rparr>"

definition flush :: "int \<Rightarrow> FEP \<Rightarrow> SHM \<Rightarrow> SHM" where
  "flush i fep = update_seg i (\<lambda>s. s\<lparr>sg_arch := fep_arch fep, sg_fold := fep_fold fep\<rparr>)"

text \<open>
  The resizing: the content is saved with the new length, the old segment removed, and a new one
  created whose key is the id of the old one. \<open>None\<close> when more is saved than the old segment holds.
\<close>

definition resizeSharedMemory :: "int \<Rightarrow> nat \<Rightarrow> SEG \<Rightarrow> bool \<Rightarrow> SHM \<Rightarrow> (int \<times> SHM) option" where
  "resizeSharedMemory shmid n oldShmad copy shm =
     (if n > length (sg_fold oldShmad) then None
      else
        let shm1 = removeSharedMemory shmid shm;
            (newShmid, shm2) = createSharedMemory shmid n shm1
        in if newShmid < 0 then Some (-1, shm2)
           else Some (newShmid,
             if copy then update_seg newShmid (\<lambda>s. s\<lparr>sg_arch := sg_arch oldShmad,
                 sg_fold := take n (sg_fold oldShmad) @ drop n (sg_fold s)\<rparr>) shm2
             else shm2))"

text \<open>\<^verbatim>\<open>abs\<close> of the difference of the sizes, divided as \<^verbatim>\<open>size_t\<close> and cut back to \<^verbatim>\<open>int\<close>.\<close>

definition rooms_apart :: "int \<Rightarrow> int \<Rightarrow> int" where
  "rooms_apart old_sz new_sz =
     \<bar>sint (word_of_int (((old_sz - new_sz) mod 2 ^ 64) div sizeof_FOLDER) :: 32 word)\<bar>"

definition only_room_changed :: "int \<Rightarrow> SEG \<Rightarrow> int \<Rightarrow> bool" where
  "only_room_changed room s shmsz \<longleftrightarrow>
     \<bar>room - int (a_mrec (sg_arch s))\<bar> \<noteq> rooms_apart (segsz s) shmsz"

definition shm_info :: alert_text where
  "shm_info = Text ''--- Shared Memory Info ---''"

text \<open>The id of the segment that is attached, the process and the segments afterwards.\<close>

definition fep_shminit :: "FEP \<Rightarrow> SHM \<Rightarrow> (int \<times> int \<times> FEP \<times> SHM) option" where
  "fep_shminit fep shm =
     (let shmkey = uint (djb2 (fep_exnm fep)); room = st_room (c_settings (fep_config fep));
          shmsz = sizeof_MDARCH + sizeof_FOLDER * room
      in if fep_whoami fep = MD_RDONLY then
           (case seg_of_key shmkey shm of
              None \<Rightarrow> Some (-1, -1, fep, shm)
            | Some s \<Rightarrow> Some (0, sg_id s,
                fep\<lparr>fep_attached := True, fep_arch := sg_arch s, fep_fold := sg_fold s\<rparr>, shm))
         else if fep_whoami fep = MD_RDWR then
           if room < 0 \<or> shmsz \<ge> 2 ^ 31 then None
           else
             (case (case seg_of_key shmkey shm of
                      None \<Rightarrow> Some (createSharedMemory shmkey (nat room) shm)
                    | Some s \<Rightarrow>
                        if segsz s \<noteq> shmsz
                        then resizeSharedMemory (sg_id s) (nat room) s (only_room_changed room s shmsz) shm
                        else Some (sg_id s, shm)) of
                None \<Rightarrow> None
              | Some (shmid, shm1) \<Rightarrow>
                  (case seg_of_id shmid shm1 of
                     None \<Rightarrow> None
                   | Some s \<Rightarrow>
                       let arch = (sg_arch s)\<lparr>a_mrec := nat room, a_config := fep_config fep\<rparr>;
                           fep1 = fep\<lparr>fep_attached := True, fep_arch := arch, fep_fold := sg_fold s\<rparr>
                       in Some (0, shmid, fep_log fep1 FL_MUST ''fep_shminit'' shm_info,
                                update_seg shmid (\<lambda>s. s\<lparr>sg_arch := arch\<rparr>) shm1)))
         else Some (-1, -1, fep, shm))"

text \<open>
  \<^verbatim>\<open>fep_open\<close>: the new process, \<open>None\<close> inside for the null pointer. \<open>fep\<close> is what \<^verbatim>\<open>malloc\<close> returned.
\<close>

definition fep_open ::
    "string \<Rightarrow> (string \<times> string) list \<Rightarrow> JSON_Value option \<Rightarrow> string \<Rightarrow> FEP \<Rightarrow> string \<Rightarrow> int \<Rightarrow> SHM \<Rightarrow>
     (FEP option \<times> SHM) option" where
  "fep_open tmp_dir addrs file procname fep exnm flag shm =
     (if flag \<noteq> MD_RDONLY \<and> flag \<noteq> MD_RDWR then Some (None, shm)
      else if length exnm \<ge> 16 then None
      else
        (case fep_config_load tmp_dir addrs file (fep_config fep) of
           None \<Rightarrow> None
         | Some (r, config) \<Rightarrow>
             if r = -1 then Some (None, shm)
             else
               (case fep_shminit (fep\<lparr>fep_exnm := exnm, fep_whoami := flag, fep_config := config,
                        fep_procname := procname\<rparr>) shm of
                  None \<Rightarrow> None
                | Some (r, _, fep1, shm1) \<Rightarrow> Some (if r \<noteq> 0 then None else Some fep1, shm1))))"

text \<open>\<^verbatim>\<open>monipcx\<close> after the question has been answered with yes: the result of \<^verbatim>\<open>main\<close> is 0 in any case.\<close>

definition monipcx :: "string \<Rightarrow> SHM \<Rightarrow> SHM" where
  "monipcx exnm shm =
     (case seg_of_key (uint (djb2 exnm)) shm of None \<Rightarrow> shm | Some s \<Rightarrow> removeSharedMemory (sg_id s) shm)"

subsection \<open>Lookups\<close>

text \<open>Ids are not used twice; no two segments have the same key unless it is the private key 0.\<close>

definition shm_ok :: "SHM \<Rightarrow> bool" where
  "shm_ok shm \<longleftrightarrow> distinct (map sg_id (segs shm) @ new_ids shm) \<and>
     (\<forall>i\<in>set (map sg_id (segs shm) @ new_ids shm). 0 \<le> i)"

lemma find_map:
  "(\<And>x. P (f x) = P x) \<Longrightarrow> List.find P (map f xs) = map_option f (List.find P xs)"
  by (induction xs) simp_all

lemma seg_of_key_Some: "seg_of_key key shm = Some s \<Longrightarrow> s \<in> set (segs shm) \<and> sg_key s = key"
  by (auto simp: seg_of_key_def find_Some_iff split: if_splits)

lemma seg_of_id_member:
  assumes "shm_ok shm" "s \<in> set (segs shm)"
  shows "seg_of_id (sg_id s) shm = Some s"
proof (cases "seg_of_id (sg_id s) shm")
  case None
  with assms(2) show ?thesis by (auto simp: seg_of_id_def find_None_iff)
next
  case (Some u)
  then have "u \<in> set (segs shm)" "sg_id u = sg_id s" by (auto simp: seg_of_id_def find_Some_iff)
  with assms Some show ?thesis by (auto simp: shm_ok_def distinct_map dest: inj_onD)
qed

lemma seg_of_key_update:
  "(\<And>s. sg_key (f s) = sg_key s) \<Longrightarrow>
   seg_of_key key (update_seg i f shm) = map_option (\<lambda>s. if sg_id s = i then f s else s) (seg_of_key key shm)"
  by (simp add: seg_of_key_def update_seg_def find_map)

lemma shm_ok_update [inv_pres]: "(\<And>s. sg_id (f s) = sg_id s) \<Longrightarrow> shm_ok shm \<Longrightarrow> shm_ok (update_seg i f shm)"
proof -
  assume f: "\<And>s. sg_id (f s) = sg_id s" and ok: "shm_ok shm"
  have m: "map sg_id (segs (update_seg i f shm)) = map sg_id (segs shm)" "new_ids (update_seg i f shm) = new_ids shm"
    by (simp_all add: update_seg_def f)
  show ?thesis unfolding shm_ok_def m using ok unfolding shm_ok_def .
qed

lemma create_new:
  assumes "shm_ok shm" "seg_of_key key shm = None" "new_ids shm = i # ids"
  shows "createSharedMemory key n shm = (i, shm\<lparr>segs := segs shm @ [zero_seg i key n], new_ids := ids\<rparr>)"
    "shm_ok (shm\<lparr>segs := segs shm @ [zero_seg i key n], new_ids := ids\<rparr>)"
    "seg_of_id i (shm\<lparr>segs := segs shm @ [zero_seg i key n], new_ids := ids\<rparr>) = Some (zero_seg i key n)"
proof -
  show ok: "shm_ok (shm\<lparr>segs := segs shm @ [zero_seg i key n], new_ids := ids\<rparr>)"
    using assms(1,3) by (auto simp: shm_ok_def zero_seg_def)
  show "seg_of_id i (shm\<lparr>segs := segs shm @ [zero_seg i key n], new_ids := ids\<rparr>) = Some (zero_seg i key n)"
    using seg_of_id_member [OF ok, of "zero_seg i key n"] by (simp add: zero_seg_def)
qed (simp add: createSharedMemory_def assms(2,3))

lemma find_append: "List.find P (xs @ [u]) = (case List.find P xs of None \<Rightarrow> if P u then Some u else None | Some x \<Rightarrow> Some x)"
  by (induction xs) simp_all

lemma seg_of_key_append:
  "seg_of_key key shm = None \<Longrightarrow> key \<noteq> 0 \<Longrightarrow>
   seg_of_key key (shm\<lparr>segs := segs shm @ [u], new_ids := ids\<rparr>) = (if sg_key u = key then Some u else None)"
  by (simp add: seg_of_key_def find_append)

subsection \<open>Opening the segment\<close>

abbreviation shmkey :: "FEP \<Rightarrow> int" where
  "shmkey fep \<equiv> uint (djb2 (fep_exnm fep))"

abbreviation room_of :: "FEP \<Rightarrow> int" where
  "room_of fep \<equiv> st_room (c_settings (fep_config fep))"

definition fep_shm_size :: "FEP \<Rightarrow> int" where
  "fep_shm_size fep = sizeof_MDARCH + sizeof_FOLDER * room_of fep"

text \<open>A writer that finds the segment with its number of rooms, and a reader that finds one.\<close>

lemma writer_attaches:
  assumes "shm_ok shm" "fep_whoami fep = MD_RDWR" "seg_of_key (shmkey fep) shm = Some s"
    "int (length (sg_fold s)) = room_of fep" "fep_shm_size fep < 2 ^ 31"
  shows "\<exists>fep1. fep_shminit fep shm = Some (0, sg_id s, fep1,
      update_seg (sg_id s) (\<lambda>s'. s'\<lparr>sg_arch := (sg_arch s)\<lparr>a_mrec := length (sg_fold s), a_config := fep_config fep\<rparr>\<rparr>) shm) \<and>
    fep_fold fep1 = sg_fold s \<and> fep_attached fep1 \<and> vrec fep1 = a_vrec (sg_arch s) \<and>
    mrec fep1 = length (sg_fold s) \<and> fep_exnm fep1 = fep_exnm fep"
proof -
  have "seg_of_id (sg_id s) shm = Some s"
    using seg_of_key_Some [OF assms(3)] by (intro seg_of_id_member [OF assms(1)]) simp
  moreover have "nat (room_of fep) = length (sg_fold s)" using assms(4) by simp
  ultimately show ?thesis using assms
    by (simp add: fep_shminit_def MD_RDONLY_def MD_RDWR_def segsz_def fep_shm_size_def Let_def)
qed

lemma reader_attaches:
  "fep_whoami fep = MD_RDONLY \<Longrightarrow> fep_shminit fep shm =
     (case seg_of_key (shmkey fep) shm of
        None \<Rightarrow> Some (-1, -1, fep, shm)
      | Some s \<Rightarrow> Some (0, sg_id s, fep\<lparr>fep_attached := True, fep_arch := sg_arch s, fep_fold := sg_fold s\<rparr>, shm))"
  by (simp add: fep_shminit_def)

text \<open>The first writer gets a cleared table.\<close>

lemma writer_creates:
  assumes "shm_ok shm" "fep_whoami fep = MD_RDWR" "seg_of_key (shmkey fep) shm = None"
    "0 \<le> room_of fep" "fep_shm_size fep < 2 ^ 31" "new_ids shm = i # ids" "djb2 (fep_exnm fep) \<noteq> 0"
  shows "\<exists>fep1 shm1 s. fep_shminit fep shm = Some (0, i, fep1, shm1) \<and> shm_ok shm1 \<and>
    seg_of_key (shmkey fep) shm1 = Some s \<and> sg_id s = i \<and>
    fep_fold fep1 = replicate (nat (room_of fep)) fold0 \<and> vrec fep1 = 0 \<and>
    mrec fep1 = nat (room_of fep) \<and> fep_attached fep1"
proof -
  let ?n = "nat (room_of fep)"
  let ?shm = "shm\<lparr>segs := segs shm @ [zero_seg i (shmkey fep) ?n], new_ids := ids\<rparr>"
  note c = create_new [OF assms(1,3,6), of ?n]
  have k: "seg_of_key (shmkey fep) ?shm = Some (zero_seg i (shmkey fep) ?n)"
    using seg_of_key_append [OF assms(3)] assms(7) by (simp add: zero_seg_def uint_0_iff)
  have f: "shm_ok (update_seg i (\<lambda>s. s\<lparr>sg_arch := a\<rparr>) ?shm)"
    "seg_of_key (shmkey fep) (update_seg i (\<lambda>s. s\<lparr>sg_arch := a\<rparr>) ?shm) =
      Some ((zero_seg i (shmkey fep) ?n)\<lparr>sg_arch := a\<rparr>)" for a
    using k shm_ok_update [OF _ c(2)] by (simp_all add: seg_of_key_update) (simp add: zero_seg_def)
  show ?thesis using assms c k f
    by (simp add: fep_shminit_def MD_RDONLY_def MD_RDWR_def fep_shm_size_def Let_def)
      (simp add: zero_seg_def arch0_def)
qed

text \<open>Either way the segment is found under the key afterwards.\<close>

lemma writer_keyed:
  assumes "shm_ok shm" "fep_whoami w = MD_RDWR" "fep_shminit w shm = Some (0, i, w1, shm1)"
    "\<forall>s. seg_of_key (shmkey w) shm = Some s \<longrightarrow> int (length (sg_fold s)) = room_of w" "djb2 (fep_exnm w) \<noteq> 0"
  shows "0 \<le> room_of w \<and> fep_shm_size w < 2 ^ 31 \<and> shm_ok shm1 \<and>
    (\<exists>s. seg_of_key (shmkey w) shm1 = Some s \<and> sg_id s = i \<and> int (length (fep_fold w1)) = room_of w)"
proof -
  have r: "0 \<le> room_of w" "fep_shm_size w < 2 ^ 31"
    using assms(2,3) by (auto simp: fep_shminit_def MD_RDONLY_def MD_RDWR_def fep_shm_size_def Let_def split: if_splits)
  show ?thesis
  proof (cases "seg_of_key (shmkey w) shm")
    case None
    have "new_ids shm \<noteq> []"
    proof
      assume "new_ids shm = []"
      then have "createSharedMemory (shmkey w) n shm = (-1, shm)" for n
        by (simp add: createSharedMemory_def None)
      moreover have "seg_of_id (-1) shm = None"
        using assms(1) by (force simp: seg_of_id_def find_None_iff shm_ok_def)
      ultimately show False
        using assms(2,3) None by (simp add: fep_shminit_def MD_RDONLY_def MD_RDWR_def Let_def split: if_splits)
    qed
    then obtain j ids where "new_ids shm = j # ids" by (cases "new_ids shm") auto
    from writer_creates [OF assms(1,2) None r this assms(5)] assms(3) r show ?thesis by auto
  next
    case (Some s)
    have "int (length (sg_fold s)) = room_of w" using assms(4) Some by blast
    from writer_attaches [OF assms(1,2) Some this r(2)] assms(3) this r Some show ?thesis
      by (auto simp: seg_of_key_update shm_ok_update assms(1))
  qed
qed

definition reader1 :: "string \<Rightarrow> FEP" where
  "reader1 exnm = (fep0 0)\<lparr>fep_exnm := exnm, fep_whoami := MD_RDONLY, fep_attached := False, fep_fold := []\<rparr>"

definition writer1 :: "string \<Rightarrow> int \<Rightarrow> FEP" where
  "writer1 exnm room = (reader1 exnm)\<lparr>fep_whoami := MD_RDWR,
     fep_config := config0\<lparr>c_settings := (c_settings config0)\<lparr>st_room := room\<rparr>\<rparr>\<rparr>"

definition shm0 :: SHM where
  "shm0 = \<lparr>segs = [], new_ids = [5, 6, 7]\<rparr>"

subsection \<open>Properties\<close>

text \<open>
  C22. What a writer leaves in the table is what the next process of the exchange finds, a reader as
  well as a writer with the same number of rooms: the same folders, in the same order, as many in use.
\<close>

theorem table_survives:
  assumes "shm_ok shm" "fep_whoami w = MD_RDWR" "fep_shminit w shm = Some (0, i, w1, shm1)"
    "\<forall>s. seg_of_key (shmkey w) shm = Some s \<longrightarrow> int (length (sg_fold s)) = room_of w" "djb2 (fep_exnm w) \<noteq> 0"
    "length (fep_fold w2) = length (fep_fold w1)"
    "fep_exnm r = fep_exnm w" "fep_whoami r = MD_RDONLY \<or> fep_whoami r = MD_RDWR \<and> room_of r = room_of w"
  shows "\<exists>r1 shm2. fep_shminit r (flush i w2 shm1) = Some (0, i, r1, shm2) \<and>
    fep_fold r1 = fep_fold w2 \<and> vrec r1 = vrec w2"
proof -
  obtain s where s: "0 \<le> room_of w" "fep_shm_size w < 2 ^ 31" "shm_ok shm1"
    "seg_of_key (shmkey w) shm1 = Some s" "sg_id s = i" "int (length (fep_fold w1)) = room_of w"
    using writer_keyed [OF assms(1-5)] by blast
  let ?s = "s\<lparr>sg_arch := fep_arch w2, sg_fold := fep_fold w2\<rparr>"
  have f: "seg_of_key (shmkey r) (flush i w2 shm1) = Some ?s" "shm_ok (flush i w2 shm1)"
    using s(3-5) assms(7) shm_ok_update by (simp_all add: flush_def seg_of_key_update)
  show ?thesis
  proof (cases "fep_whoami r = MD_RDONLY")
    case True
    then show ?thesis using f(1) s(5) by (simp add: reader_attaches)
  next
    case False
    then have "fep_whoami r = MD_RDWR" "int (length (sg_fold ?s)) = room_of r" "fep_shm_size r < 2 ^ 31"
      using assms(6,8) s(2,6) by (auto simp: fep_shm_size_def)
    from writer_attaches [OF f(2) this(1) f(1) this(2,3)] s(5) show ?thesis by auto
  qed
qed

lemma djb2_LME: "djb2 ''LME'' = 462371"
  by code_simp

theorem table_survives_witness:
  "\<exists>i w1 shm1. fep_shminit (writer1 ''LME'' 3) shm0 = Some (0, i, w1, shm1) \<and>
     (\<exists>r1 shm2. fep_shminit (reader1 ''LME'')
         (flush i (w1\<lparr>fep_fold := [fold0\<lparr>f_symb := ''CA''\<rparr>, fold0, fold0]\<rparr>) shm1) = Some (0, i, r1, shm2) \<and>
       map f_symb (fep_fold r1) = [''CA'', [], []])"
proof -
  let ?w = "writer1 ''LME'' 3" and ?r = "reader1 ''LME''"
  have e: "fep_whoami ?w = MD_RDWR" "fep_exnm ?w = ''LME''" "room_of ?w = 3" "fep_exnm ?r = ''LME''"
    "fep_whoami ?r = MD_RDONLY" "fep_shm_size ?w < 2 ^ 31"
    by (simp_all add: writer1_def reader1_def fep_shm_size_def sizeof_MDARCH_def sizeof_FOLDER_def)
  have ok: "shm_ok shm0" "seg_of_key (shmkey ?w) shm0 = None" "new_ids shm0 = 5 # [6, 7]"
    by (simp_all add: shm_ok_def shm0_def seg_of_key_def)
  have k: "djb2 (fep_exnm ?w) \<noteq> 0" by (simp add: e(2) djb2_LME)
  obtain w1 shm1 where w: "fep_shminit ?w shm0 = Some (0, 5, w1, shm1)" "fep_fold w1 = replicate (nat (room_of ?w)) fold0"
    using writer_creates [OF ok(1) e(1) ok(2) _ e(6) ok(3) k] e(3) by auto
  have no: "\<forall>s. seg_of_key (shmkey ?w) shm0 = Some s \<longrightarrow> int (length (sg_fold s)) = room_of ?w"
    using ok(2) by simp
  have l: "length (fep_fold (w1\<lparr>fep_fold := [fold0\<lparr>f_symb := ''CA''\<rparr>, fold0, fold0]\<rparr>)) = length (fep_fold w1)"
    by (simp add: w(2) e(3))
  from table_survives [OF ok(1) e(1) w(1) no k l, of ?r] e w(1) show ?thesis
    by (auto simp: fold0_def)
qed

lemma rooms_apart_shrink:
  assumes "n \<le> m" "m - n < 2 ^ 31"
  shows "rooms_apart (sizeof_MDARCH + sizeof_FOLDER * m) (sizeof_MDARCH + sizeof_FOLDER * n) = m - n"
proof -
  have "sizeof_MDARCH + sizeof_FOLDER * m - (sizeof_MDARCH + sizeof_FOLDER * n) = sizeof_FOLDER * (m - n)"
    by (simp add: algebra_simps)
  moreover have "sizeof_FOLDER * (m - n) mod 2 ^ 64 = sizeof_FOLDER * (m - n)"
    using assms by (intro mod_pos_pos_trivial) (simp_all add: sizeof_FOLDER_def)
  moreover have "sizeof_FOLDER * (m - n) div sizeof_FOLDER = m - n" by (simp add: sizeof_FOLDER_def)
  moreover have "sint (word_of_int d :: 32 word) = d" if "0 \<le> d" "d < 2 ^ 31" for d
    using that by (simp add: sint_sbintrunc' signed_take_bit_int_eq_self_iff)
  from this [of "m - n"] have "sint (word_of_int (m - n) :: 32 word) = m - n" using assms by linarith
  ultimately show ?thesis using assms(1) by (simp only: rooms_apart_def abs_of_nonneg diff_ge_0_iff_ge)
qed

lemma resize_fresh:
  assumes "shm_ok shm" "s \<in> set (segs shm)" "n \<le> length (sg_fold s)" "\<forall>u\<in>set (segs shm). sg_key u \<noteq> sg_id s"
    "new_ids shm = j # ids"
  shows "resizeSharedMemory (sg_id s) n s False shm =
      Some (j, shm\<lparr>segs := filter (\<lambda>u. sg_id u \<noteq> sg_id s) (segs shm) @ [zero_seg j (sg_id s) n], new_ids := ids\<rparr>)"
    "shm_ok (shm\<lparr>segs := filter (\<lambda>u. sg_id u \<noteq> sg_id s) (segs shm) @ [zero_seg j (sg_id s) n], new_ids := ids\<rparr>)"
    "seg_of_id j (shm\<lparr>segs := filter (\<lambda>u. sg_id u \<noteq> sg_id s) (segs shm) @ [zero_seg j (sg_id s) n], new_ids := ids\<rparr>) =
      Some (zero_seg j (sg_id s) n)"
proof -
  let ?shm = "removeSharedMemory (sg_id s) shm"
  have r: "?shm = shm\<lparr>segs := filter (\<lambda>u. sg_id u \<noteq> sg_id s) (segs shm)\<rparr>" by (simp add: removeSharedMemory_def)
  have ok: "shm_ok ?shm"
    using assms(1) distinct_map_filter [of sg_id "segs shm"] by (auto simp: shm_ok_def r)
  have "seg_of_key (sg_id s) ?shm = None"
    using assms(4) by (simp add: seg_of_key_def r find_None_iff)
  note c = create_new [OF ok this, of j ids n]
  have "0 \<le> j" using assms(1,5) by (simp add: shm_ok_def)
  then show "resizeSharedMemory (sg_id s) n s False shm =
      Some (j, shm\<lparr>segs := filter (\<lambda>u. sg_id u \<noteq> sg_id s) (segs shm) @ [zero_seg j (sg_id s) n], new_ids := ids\<rparr>)"
    "shm_ok (shm\<lparr>segs := filter (\<lambda>u. sg_id u \<noteq> sg_id s) (segs shm) @ [zero_seg j (sg_id s) n], new_ids := ids\<rparr>)"
    "seg_of_id j (shm\<lparr>segs := filter (\<lambda>u. sg_id u \<noteq> sg_id s) (segs shm) @ [zero_seg j (sg_id s) n], new_ids := ids\<rparr>) =
      Some (zero_seg j (sg_id s) n)"
    using c assms(3,5) by (simp_all add: r resizeSharedMemory_def)
qed

text \<open>A start with more rooms than the segment has reads behind it.\<close>

lemma grow_reads_behind:
  assumes "fep_whoami w = MD_RDWR" "seg_of_key (shmkey w) shm = Some s" "int (length (sg_fold s)) < room_of w"
  shows "fep_shminit w shm = None"
proof -
  have "segsz s \<noteq> sizeof_MDARCH + sizeof_FOLDER * room_of w" "length (sg_fold s) < nat (room_of w)"
    using assms(3) by (auto simp: segsz_def sizeof_FOLDER_def)
  then show ?thesis using assms(1,2)
    by (simp add: fep_shminit_def MD_RDONLY_def MD_RDWR_def resizeSharedMemory_def Let_def)
qed

text \<open>
  A writer that starts with fewer rooms than the segment has starts with an empty table, whatever
  the table held, and its segment is not found under the key of the exchange: a reader fails, and
  the next writer makes a third segment.
\<close>

theorem shrink_loses_table:
  assumes "shm_ok shm" "fep_whoami w = MD_RDWR" "seg_of_key (shmkey w) shm = Some s"
    "a_mrec (sg_arch s) = length (sg_fold s)" "0 \<le> room_of w" "room_of w < int (length (sg_fold s))"
    "segsz s < 2 ^ 31" "sg_id s \<noteq> shmkey w" "\<forall>u\<in>set (segs shm). sg_key u \<noteq> sg_id s"
    "\<forall>u\<in>set (segs shm). sg_key u = shmkey w \<longrightarrow> u = s" "new_ids shm = j # ids"
  shows "\<exists>w1 shm1. fep_shminit w shm = Some (0, j, w1, shm1) \<and> vrec w1 = 0 \<and>
    fep_fold w1 = replicate (nat (room_of w)) fold0 \<and> seg_of_key (shmkey w) shm1 = None \<and>
    (\<forall>r. fep_whoami r = MD_RDONLY \<and> fep_exnm r = fep_exnm w \<longrightarrow> fep_shminit r shm1 = Some (-1, -1, r, shm1))"
proof -
  let ?n = "nat (room_of w)" and ?sz = "sizeof_MDARCH + sizeof_FOLDER * room_of w"
  let ?segs = "filter (\<lambda>u. sg_id u \<noteq> sg_id s) (segs shm) @ [zero_seg j (sg_id s) ?n]"
  have s: "s \<in> set (segs shm)" using seg_of_key_Some [OF assms(3)] by simp
  have sz: "segsz s \<noteq> ?sz" "?sz < 2 ^ 31" "?n \<le> length (sg_fold s)" "int (length (sg_fold s)) < 2 ^ 31"
    using assms(5-7) by (auto simp: segsz_def sizeof_FOLDER_def sizeof_MDARCH_def)
  have "\<not> only_room_changed (room_of w) s ?sz"
    using rooms_apart_shrink [of "room_of w" "int (length (sg_fold s))"] assms(4-6) sz(4)
    by (simp add: only_room_changed_def segsz_def)
  note r = resize_fresh [OF assms(1) s sz(3) assms(9,11)] and keep = this
  define a where "a = (sg_arch (zero_seg j (sg_id s) ?n))\<lparr>a_mrec := ?n, a_config := fep_config w\<rparr>"
  let ?shm1 = "update_seg j (\<lambda>s. s\<lparr>sg_arch := a\<rparr>) (shm\<lparr>segs := ?segs, new_ids := ids\<rparr>)"
  have "\<exists>w1. fep_shminit w shm = Some (0, j, w1, ?shm1) \<and> vrec w1 = 0 \<and> fep_fold w1 = replicate ?n fold0"
    using assms(2,3,5) sz r keep
    by (simp add: fep_shminit_def MD_RDONLY_def MD_RDWR_def Let_def a_def [symmetric])
      (simp add: a_def zero_seg_def arch0_def)
  moreover have none: "seg_of_key (shmkey w) ?shm1 = None"
  proof -
    have "seg_of_key (shmkey w) (shm\<lparr>segs := ?segs, new_ids := ids\<rparr>) = None"
      using assms(8,10) by (auto simp: seg_of_key_def find_None_iff zero_seg_def)
    then show ?thesis by (simp add: seg_of_key_update)
  qed
  moreover have "fep_shminit r ?shm1 = Some (-1, -1, r, ?shm1)" if "fep_whoami r = MD_RDONLY" "fep_exnm r = fep_exnm w" for r
    using that none by (simp add: reader_attaches)
  ultimately show ?thesis by blast
qed

definition shm3 :: SHM where
  "shm3 = \<lparr>segs = [(zero_seg 5 462371 3)\<lparr>sg_arch := (arch0 3)\<lparr>a_vrec := 2\<rparr>\<rparr>], new_ids = [6, 7]\<rparr>"

theorem shrink_loses_table_witness:
  "\<exists>w1 shm1. fep_shminit (writer1 ''LME'' 2) shm3 = Some (0, 6, w1, shm1) \<and> vrec w1 = 0 \<and>
     fep_shminit (reader1 ''LME'') shm1 = Some (-1, -1, reader1 ''LME'', shm1)"
proof -
  let ?w = "writer1 ''LME'' 2"
  define u where "u = (zero_seg 5 462371 3)\<lparr>sg_arch := (arch0 3)\<lparr>a_vrec := 2\<rparr>\<rparr>"
  have e: "fep_whoami ?w = MD_RDWR" "shmkey ?w = 462371" "room_of ?w = 2" "fep_exnm ?w = ''LME''"
    by (simp_all add: writer1_def reader1_def djb2_LME)
  have u: "length (sg_fold u) = 3" "a_mrec (sg_arch u) = 3" "sg_id u = 5" "sg_key u = 462371"
    by (simp_all add: u_def zero_seg_def arch0_def)
  have shm3: "segs shm3 = [u]" "new_ids shm3 = 6 # [7]" by (simp_all add: shm3_def u_def)
  have a: "shm_ok shm3" "seg_of_key (shmkey ?w) shm3 = Some u" "segsz u < 2 ^ 31"
    "a_mrec (sg_arch u) = length (sg_fold u)" "0 \<le> room_of ?w" "room_of ?w < int (length (sg_fold u))"
    "sg_id u \<noteq> shmkey ?w" "\<forall>v\<in>set (segs shm3). sg_key v \<noteq> sg_id u"
    "\<forall>v\<in>set (segs shm3). sg_key v = shmkey ?w \<longrightarrow> v = u"
    using u e(2,3) by (simp_all add: shm_ok_def shm3 seg_of_key_def segsz_def sizeof_MDARCH_def sizeof_FOLDER_def)
  from shrink_loses_table [OF a(1) e(1) a(2,4-6,3,7-9) shm3(2)] e(4)
  show ?thesis by (auto simp: reader1_def)
qed

text \<open>Two names can have the same key, so that two exchanges share a segment.\<close>

lemma keys_collide: "djb2 ''SGX'' = djb2 ''RILK''"
  by code_simp

end
