(* ===== verification/MasterList.thy ===== *)
theory MasterList
  imports SharedMemory
begin

text \<open>
  The list of master records, \<^verbatim>\<open>src/mon/monmstr.c\<close>: it opens an exchange for reading and prints a line
  for each folder, of one host or of all. How \<^verbatim>\<open>printf\<close> writes a \<^verbatim>\<open>double\<close> and how \<^verbatim>\<open>ctime\<close> writes
  a time are arguments. Without a host on the command line the program reads an array nobody has set:
  \<open>None\<close>; so is a name too long for its array. \<^verbatim>\<open>fep_close\<close> of \<^verbatim>\<open>src/lib/main/close.c\<close>, which no
  program calls, only frees the handle and sets the time zone.
\<close>

record prints =
  pr_double :: "double \<Rightarrow> string"
  pr_ctime  :: "time_t \<Rightarrow> string"

definition shown_for :: "string \<Rightarrow> FOLDER \<Rightarrow> bool" where
  "shown_for hostname folder \<longleftrightarrow> \<not> (hostname \<noteq> [] \<and> strcmp hostname (f_hostname folder) \<noteq> 0)"

definition right6 :: "nat \<Rightarrow> string" where
  "right6 n = replicate (6 - length (decimal n)) (CHR '' '') @ decimal n"

text \<open>A member in brackets behind its label.\<close>

definition labelled :: "string \<Rightarrow> string \<Rightarrow> string" where
  "labelled label v = label @ ''['' @ v @ ''] ''"

definition signed_text :: "u32 \<Rightarrow> string" where
  "signed_text v = show_int (sint v)"

definition mstr_line :: "prints \<Rightarrow> nat \<Rightarrow> FOLDER \<Rightarrow> string" where
  "mstr_line pr jj folder =
     (let mstr = f_mstr folder
      in labelled [] (right6 jj) @ labelled ''host'' (f_hostname folder) @ labelled ''symb'' (m_symb mstr) @
         labelled ''root'' (m_root mstr) @ labelled ''desc'' (m_symb_desc mstr) @ labelled ''exch'' (m_exch_code mstr) @
         labelled ''curr'' (m_curr mstr) @ labelled ''ftdt'' (signed_text (m_ftdt mstr)) @
         labelled ''ltdt'' (signed_text (m_ltdt mstr)) @ labelled ''lddt'' (signed_text (m_lddt mstr)) @
         labelled ''bsdt'' (signed_text (m_bsdt mstr)) @ labelled ''stdt'' (signed_text (m_stdt mstr)) @
         labelled ''setp'' (pr_double pr (m_setp mstr)) @ labelled ''pinc'' (pr_double pr (m_pinc mstr)) @
         labelled ''pmul'' (pr_double pr (m_pmul mstr)) @ labelled ''update'' (pr_ctime pr (m_updated_at mstr)) @
         [CHR 0x0A])"

fun mstr_lines :: "prints \<Rightarrow> string \<Rightarrow> FOLDER list \<Rightarrow> nat \<Rightarrow> string list" where
  "mstr_lines pr hostname [] jj = []"
| "mstr_lines pr hostname (folder # fs) jj =
     (if \<not> shown_for hostname folder then mstr_lines pr hostname fs jj
      else mstr_line pr jj folder # mstr_lines pr hostname fs (jj + 1))"

definition mstr_head :: "FEP \<Rightarrow> string list" where
  "mstr_head fep =
     [''############## '' @ fep_exnm fep @ '' ##############'' @ [CHR 0x0A],
      ''MAX['' @ show_int (int (mrec fep)) @ ''] COUNT['' @ show_int (int (vrec fep)) @ '']'' @ [CHR 0x0A]]"

text \<open>
  \<^verbatim>\<open>main\<close> with its arguments and what \<open>fep_open\<close> makes of the exchange; \<open>Some []\<close> when it only
  prints its usage. When the exchange cannot be opened, \<^verbatim>\<open>fep_log\<close> is called with a null pointer.
\<close>

definition monmstr_main :: "prints \<Rightarrow> string list \<Rightarrow> (string \<Rightarrow> FEP option) \<Rightarrow> string list option" where
  "monmstr_main pr argv opened =
     (case argv of
        [] \<Rightarrow> Some []
      | exnm # rest \<Rightarrow>
          if length exnm \<ge> 32 then None
          else
            (case rest of
               [hostname] \<Rightarrow>
                 if length hostname \<ge> 32 then None
                 else map_option (\<lambda>fep. mstr_head fep @ mstr_lines pr hostname (take (vrec fep) (fep_fold fep)) 0)
                        (opened exnm)
             | _ \<Rightarrow> None))"

lemma mstr_lines_filter:
  "mstr_lines pr hostname fs jj =
     map (\<lambda>(j, folder). mstr_line pr j folder) (enumerate jj (filter (shown_for hostname) fs))"
  by (induction fs arbitrary: jj) simp_all

text \<open>
  With a host the program prints a line for each folder of that host in the table, in the table's
  order and numbered from 0.
\<close>

theorem master_list_complete:
  assumes "length exnm < 32" "length hostname < 32" "hostname \<noteq> []" "opened exnm = Some fep"
  shows "monmstr_main pr [exnm, hostname] opened = Some (mstr_head fep @
    map (\<lambda>(j, folder). mstr_line pr j folder)
      (enumerate 0 (filter (\<lambda>folder. f_hostname folder = hostname) (take (vrec fep) (fep_fold fep)))))"
proof -
  have "shown_for hostname = (\<lambda>folder. f_hostname folder = hostname)"
    using assms(3) by (auto simp: shown_for_def fun_eq_iff)
  with assms show ?thesis by (simp add: monmstr_main_def mstr_lines_filter)
qed

end
