(* ===== verification/OldMap.thy ===== *)
theory OldMap
  imports Handlers
begin

text \<open>
  The handlers of the OLD packet format, \<^verbatim>\<open>src/mon/oldmap.c\<close>: five for masters, thirteen for trade
  data, and the dispatch on the class of the message. Each definition lists the checks, the lookup
  and the assignments of its C function in their order; the text of the quote log is reduced to the
  code it starts with, the values in it being those of the record.

  All of them keep the table well-formed; a trade handler writes the one record its packet
  names.
\<close>

subsection \<open>Masters\<close>

definition old_stock_master_map :: handler where
  "old_stock_master_map now fep port msgb class_tag =
     (let master = member MD_ESTR 0 msgb in
      checked
        [empty_alert port msgb (master ''code'') ''code'' 0,
         empty_alert port msgb (master ''exch'') ''exch'' 0,
         exch_alert port msgb (master ''exch'') 0]
        (enter_master now port (as_str (master ''code'')) ''old_stock_master_map'' (\<lambda>mstr.
           (parse_pind (mstr\<lparr>
            m_symb_desc := as_str (master ''enam''),
            m_exch_code := as_str (master ''exch''), m_curr := as_str (master ''curr''),
            m_prod := as_str (master ''prod'')\<rparr>)
             (master ''pind''))\<lparr>
            m_isin := as_str (master ''isin''), m_sedo := as_str (master ''sedo''),
            m_styp := as_uint (master ''styp''), m_bsdt := as_uint (master ''bsdt''),
            m_ptdt := as_uint (master ''pymd''), m_last := as_float (master ''clos''),
            m_setp := as_float (master ''base''), m_pinc := as_float (master ''pinc''),
            m_pmul := as_float (master ''pmul'')\<rparr>))
        fep)"

definition old_future_master_map :: handler where
  "old_future_master_map now fep port msgb class_tag =
     (let master = member MD_MSTT 0 msgb in
      checked
        [empty_alert port msgb (master ''code'') ''code'' 0,
         empty_alert port msgb (master ''ticd'') ''ticd'' 0,
         empty_alert port msgb (master ''exch'') ''exch'' 0,
         exch_alert port msgb (master ''exch'') 0]
        (enter_master now port (as_str (master ''code'')) ''old_future_master_map'' (\<lambda>mstr.
           (parse_pind (mstr\<lparr>
            m_root := as_str (master ''ticd''), m_symb_desc := as_str (master ''enam''),
            m_exch_code := as_str (master ''exch''), m_curr := as_str (master ''curr''),
            m_prod := as_str (master ''prod'')\<rparr>)
             (master ''pind''))\<lparr>
            m_ftdt := as_uint (master ''ftdt''), m_ltdt := as_uint (master ''ltdt''),
            m_fddt := as_uint (master ''fddt''), m_lddt := as_uint (master ''lddt''),
            m_bsdt := as_uint (master ''bsdt''), m_stdt := as_uint (master ''stdt''),
            m_setp := as_float (master ''setp''), m_pinc := as_float (master ''pinc''),
            m_pmul := as_float (master ''pmul'')\<rparr>))
        fep)"

definition old_option_master_map :: handler where
  "old_option_master_map now fep port msgb class_tag =
     (let master = member MD_OSTR 0 msgb in
      checked
        [empty_alert port msgb (master ''code'') ''code'' 0,
         empty_alert port msgb (master ''ticd'') ''ticd'' 0,
         empty_alert port msgb (master ''exch'') ''exch'' 0,
         exch_alert port msgb (master ''exch'') 0]
        (enter_master now port (as_str (master ''code'')) ''old_option_master_map'' (\<lambda>mstr.
           (parse_pind (mstr\<lparr>
            m_root := as_str (master ''ticd''), m_symb_desc := as_str (master ''enam''),
            m_otyp := as_str (master ''type''), m_exch_code := as_str (master ''exch''),
            m_curr := as_str (master ''curr''), m_prod := as_str (master ''prod'')\<rparr>)
             (master ''pind''))\<lparr>
            m_ftdt := as_uint (master ''ftdt''), m_ltdt := as_uint (master ''ltdt''),
            m_fddt := as_uint (master ''fddt''), m_lddt := as_uint (master ''lddt''),
            m_bsdt := as_uint (master ''bsdt''), m_stdt := as_uint (master ''stdt''),
            m_setp := as_float (master ''setp''), m_strp := as_float (master ''strp''),
            m_stcu := as_str (master ''strc''), m_pinc := as_float (master ''pinc''),
            m_pmul := as_float (master ''disf''), m_cvol := as_uint (master ''cvol''),
            m_oint := as_uint (master ''oint''), m_ucod := as_str (master ''ucod'')\<rparr>))
        fep)"

definition old_spread_master_map :: handler where
  "old_spread_master_map now fep port msgb class_tag =
     (let master = member MD_MSTR_SPREAD 0 msgb in
      checked
        [empty_alert port msgb (master ''code'') ''code'' 0,
         empty_alert port msgb (master ''ticd'') ''ticd'' 0,
         empty_alert port msgb (master ''exch'') ''exch'' 0,
         exch_alert port msgb (master ''exch'') 0]
        (enter_master now port (as_str (master ''code'')) ''old_spread_master_map'' (\<lambda>mstr.
           (parse_pind (mstr\<lparr>
            m_root := as_str (master ''ticd''), m_symb_desc := as_str (master ''enam''),
            m_exch_code := as_str (master ''exch''), m_curr := as_str (master ''curr''),
            m_prod := as_str (master ''prod'')\<rparr>)
             (master ''pind''))\<lparr>
            m_ftdt := as_uint (master ''ftdt''), m_ltdt := as_uint (master ''ltdt''),
            m_bsdt := as_uint (master ''bsdt''), m_flsm := as_str (master ''flsm''),
            m_flmy := as_uint (master ''flmy''), m_slsm := as_str (master ''slsm''),
            m_slmy := as_uint (master ''slmy''), m_pinc := as_float (master ''pinc''),
            m_pmul := as_float (master ''pmul''),
            m_legs := as_str (take 3 (drop 1 (master ''fil3'')))\<rparr>))
        fep)"

definition old_lme_master_map :: handler where
  "old_lme_master_map now fep port msgb class_tag =
     (let master = member MD_MSTT 0 msgb in
      checked
        [empty_alert port msgb (master ''code'') ''code'' 0,
         empty_alert port msgb (master ''ticd'') ''ticd'' 0,
         empty_alert port msgb (master ''exch'') ''exch'' 0,
         exch_alert port msgb (master ''exch'') 0]
        (enter_master now port (as_str (master ''code'')) ''old_lme_master_map'' (\<lambda>mstr.
           (parse_pind (mstr\<lparr>
            m_root := as_str (master ''ticd''), m_symb_desc := as_str (master ''enam''),
            m_exch_code := as_str (master ''exch''), m_curr := as_str (master ''curr''),
            m_prod := as_str (master ''prod'')\<rparr>)
             (master ''pind''))\<lparr>
            m_ftdt := as_uint (master ''ftdt''), m_ltdt := as_uint (master ''ltdt''),
            m_fddt := as_uint (master ''fddt''), m_lddt := as_uint (master ''lddt''),
            m_bsdt := as_uint (master ''bsdt''), m_stdt := as_uint (master ''stdt''),
            m_setp := as_float (master ''setp''), m_pinc := as_float (master ''pinc''),
            m_pmul := as_float (master ''pmul'')\<rparr>))
        fep)"

subsection \<open>Trade data\<close>

definition old_status_trade_map :: handler where
  "old_status_trade_map now fep port msgb class_tag =
     (let head = member MD_HEAD 0 msgb; trade = member MD_TRADE_STATUS MD_HEAD_SZ msgb in
      checked
        [empty_alert port msgb (head ''code'') ''code'' 0,
         empty_alert port msgb (head ''exch'') ''exch'' 0,
         empty_alert port msgb (trade ''bsdt'') ''bsdt'' 0,
         empty_alert port msgb (trade ''stat'') ''stat'' 0,
         exch_alert port msgb (head ''exch'') 0]
        (\<lambda>fep. let code = as_str (head ''code'') in on_folder port code (\<lambda>folder fep.
           let status = f_status folder;
               status = status\<lparr>
                 s_bsdt := as_uint (trade ''bsdt''), s_status := as_int (trade ''stat''),
                 s_updated_at := now\<rparr>;
               folder' = folder\<lparr>f_status := status\<rparr>;
               fep = quote_log fep (f_hostname folder) class_tag code
           in Some (folder', fep)) fep)
        fep)"

definition old_quote_trade_map :: handler where
  "old_quote_trade_map now fep port msgb class_tag =
     (let head = member MD_HEAD 0 msgb; trade = member MD_TRADE MD_HEAD_SZ msgb in
      checked
        [empty_alert port msgb (head ''code'') ''code'' 0,
         empty_alert port msgb (head ''exch'') ''exch'' 0,
         exch_alert port msgb (head ''exch'') 0]
        (\<lambda>fep. let code = as_str (head ''code'') in on_folder port code (\<lambda>folder fep.
           let open = as_float (trade ''open'');
               high = as_float (trade ''high'');
               low = as_float (trade ''lowp'');
               quote = f_quote folder;
               quote = quote\<lparr>
                 q_trdt := as_uint (trade ''trdt''), q_trtm := as_uint (trade ''trtm''),
                 q_last := as_float (trade ''last''), q_tqty := as_uint (trade ''tqty''),
                 q_tvol := as_uint (trade ''tvol'')\<rparr>;
               quote = stamp_low now low (stamp_high now high (stamp_open now open quote));
               quote = quote\<lparr>
                 q_date := as_uint (trade ''date''), q_updated_at := now\<rparr>;
               folder' = folder\<lparr>f_quote := quote\<rparr>;
               fep = quote_log fep (f_hostname folder) class_tag code
           in Some (folder', fep_push fep folder' 0)) fep)
        fep)"

definition old_cancel_trade_map :: handler where
  "old_cancel_trade_map now fep port msgb class_tag =
     (let head = member MD_HEAD 0 msgb; trade = member MD_TRADE MD_HEAD_SZ msgb in
      checked
        [empty_alert port msgb (head ''code'') ''code'' 0,
         empty_alert port msgb (head ''exch'') ''exch'' 0,
         exch_alert port msgb (head ''exch'') 0]
        (\<lambda>fep. let code = as_str (head ''code'') in on_folder port code (\<lambda>folder fep.
           let open = as_float (trade ''open'');
               high = as_float (trade ''high'');
               low = as_float (trade ''lowp'');
               quote = f_quote folder;
               quote = quote\<lparr>
                 q_trdt := as_uint (trade ''trdt''), q_trtm := as_uint (trade ''trtm''),
                 q_last := as_float (trade ''last''), q_tqty := as_uint (trade ''tqty''),
                 q_tvol := as_uint (trade ''tvol'')\<rparr>;
               quote = stamp_low now low (stamp_high now high (stamp_open now open quote));
               quote = quote\<lparr>
                 q_date := as_uint (trade ''date''), q_updated_at := now\<rparr>;
               cancel = f_cancel folder;
               cancel = cancel\<lparr>
                 q_trdt := as_uint (trade ''trdt''), q_trtm := as_uint (trade ''trtm''),
                 q_last := as_float (trade ''last''), q_tqty := as_uint (trade ''tqty''),
                 q_tvol := as_uint (trade ''tvol'')\<rparr>;
               cancel = stamp_low now low (stamp_high now high (stamp_open now open cancel));
               cancel = cancel\<lparr>
                 q_date := as_uint (trade ''date''), q_updated_at := now\<rparr>;
               folder' = folder\<lparr>f_quote := quote, f_cancel := cancel\<rparr>;
               fep = quote_log fep (f_hostname folder) class_tag code
           in Some (folder', fep_push fep folder' 1)) fep)
        fep)"

definition old_settle_trade_map :: handler where
  "old_settle_trade_map now fep port msgb class_tag =
     (let head = member MD_HEAD 0 msgb; trade = member MD_TRADE MD_HEAD_SZ msgb in
      checked
        [empty_alert port msgb (head ''code'') ''code'' 0,
         empty_alert port msgb (head ''exch'') ''exch'' 0,
         exch_alert port msgb (head ''exch'') 0]
        (\<lambda>fep. let code = as_str (head ''code'') in on_folder port code (\<lambda>folder fep.
           case settle_index (cstr_at msgb (MD_HEAD_SZ + offset_of MD_TRADE ''stat'')) of None \<Rightarrow> None | Some ii \<Rightarrow>
           let settle = f_settle folder ! ii;
               settle = settle\<lparr>
                 q_trdt := as_uint (trade ''trdt''), q_trtm := as_uint (trade ''trtm''),
                 q_last := as_float (trade ''last''), q_tvol := as_uint (trade ''tvol''),
                 q_open := as_float (trade ''open''), q_high := as_float (trade ''high''),
                 q_low := as_float (trade ''lowp''), q_date := as_uint (trade ''date''),
                 q_updated_at := now\<rparr>;
               folder' = folder\<lparr>f_settle := (f_settle folder)[ii := settle]\<rparr>;
               fep = quote_log fep (f_hostname folder) class_tag code
           in Some (folder', fep)) fep)
        fep)"

definition old_close_trade_map :: handler where
  "old_close_trade_map now fep port msgb class_tag =
     (let head = member MD_HEAD 0 msgb; trade = member MD_TRADE MD_HEAD_SZ msgb in
      checked
        [empty_alert port msgb (head ''code'') ''code'' 0,
         empty_alert port msgb (head ''exch'') ''exch'' 0,
         exch_alert port msgb (head ''exch'') 0]
        (\<lambda>fep. let code = as_str (head ''code'') in on_folder port code (\<lambda>folder fep.
           let close = f_close folder;
               close = close\<lparr>
                 q_trdt := as_uint (trade ''trdt''), q_trtm := as_uint (trade ''trtm''),
                 q_last := as_float (trade ''last''), q_tvol := as_uint (trade ''tvol''),
                 q_open := as_float (trade ''open''), q_high := as_float (trade ''high''),
                 q_low := as_float (trade ''lowp''), q_date := as_uint (trade ''date''),
                 q_updated_at := now\<rparr>;
               folder' = folder\<lparr>f_close := close\<rparr>;
               fep = quote_log fep (f_hostname folder) class_tag code
           in Some (folder', fep)) fep)
        fep)"

definition old_oint_trade_map :: handler where
  "old_oint_trade_map now fep port msgb class_tag =
     (let head = member MD_HEAD 0 msgb; trade = member MD_TRADE MD_HEAD_SZ msgb in
      checked
        [empty_alert port msgb (head ''code'') ''code'' 0,
         empty_alert port msgb (head ''exch'') ''exch'' 0,
         exch_alert port msgb (head ''exch'') 0]
        (\<lambda>fep. let code = as_str (head ''code'') in on_folder port code (\<lambda>folder fep.
           let oint = f_oint folder;
               oint = oint\<lparr>
                 q_trdt := as_uint (trade ''trdt''), q_trtm := as_uint (trade ''trtm''),
                 q_last := as_float (trade ''last''), q_tvol := as_uint (trade ''tvol''),
                 q_open := as_float (trade ''open''), q_high := as_float (trade ''high''),
                 q_low := as_float (trade ''lowp''), q_date := as_uint (trade ''date''),
                 q_updated_at := now\<rparr>;
               folder' = folder\<lparr>f_oint := oint\<rparr>;
               fep = quote_log fep (f_hostname folder) class_tag code
           in Some (folder', fep)) fep)
        fep)"

definition old_depth_trade_map :: handler where
  "old_depth_trade_map now fep port msgb class_tag =
     (let head = member MD_HEAD 0 msgb; trade = member MD_DEPTH MD_HEAD_SZ msgb in
      checked
        [empty_alert port msgb (head ''code'') ''code'' 0,
         empty_alert port msgb (head ''exch'') ''exch'' 0,
         exch_alert port msgb (head ''exch'') 0]
        (\<lambda>fep. let code = as_str (head ''code'') in on_folder port code (\<lambda>folder fep.
           let level = (\<lambda>ii. member book (MD_HEAD_SZ + offset_of MD_DEPTH ''book'' + ii * sizeof book) msgb);
               depth = f_depth folder;
               depth = depth\<lparr>d_dpdt := as_uint (trade ''dpdt''), d_dptm := as_uint (trade ''dptm''),
                 d_ask := fill_side level ''askp'' ''askq'' ''askn'' (d_ask depth),
                 d_bid := fill_side level ''bidp'' ''bidq'' ''bidn'' (d_bid depth)\<rparr>;
               (depth, fep) = cross_check fep port depth (r_cross_check (c_raw_data (fep_config fep)));
               folder = folder\<lparr>f_depth := depth\<lparr>d_updated_at := now\<rparr>\<rparr>
           in Some (folder, fep_push fep folder 2)) fep)
        fep)"

definition old_fnd_trade_map :: handler where
  "old_fnd_trade_map now fep port msgb class_tag = Some (0, fep)"

definition old_lme_quote_trade_map :: handler where
  "old_lme_quote_trade_map now fep port msgb class_tag =
     (let head = member MD_HEAD 0 msgb; trade = member LME_TRADE MD_HEAD_SZ msgb in
      checked
        [empty_alert port msgb (head ''code'') ''code'' 0,
         empty_alert port msgb (head ''exch'') ''exch'' 0,
         exch_alert port msgb (head ''exch'') 0]
        (\<lambda>fep. let code = as_str (head ''code'') in on_folder port code (\<lambda>folder fep.
           let open = as_float (trade ''open'');
               high = as_float (trade ''high'');
               low = as_float (trade ''lowp'');
               quote = f_quote folder;
               quote = quote\<lparr>
                 q_trdt := as_uint (trade ''trdt''), q_trtm := as_uint (trade ''trtm''),
                 q_last := as_float (trade ''last''), q_tqty := as_uint (trade ''tqty''),
                 q_tvol := as_uint (trade ''tvol'')\<rparr>;
               quote = stamp_low now low (stamp_high now high (stamp_open now open quote));
               quote = quote\<lparr>
                 q_diff := as_float (trade ''diff''), q_pbid := as_float (trade ''pbid''),
                 q_pask := as_float (trade ''pask''), q_date := as_uint (trade ''date''),
                 q_updated_at := now\<rparr>;
               folder' = folder\<lparr>f_quote := quote\<rparr>;
               fep = quote_log fep (f_hostname folder) class_tag code
           in Some (folder', fep_push fep folder' 0)) fep)
        fep)"

definition old_lme_settle_trade_map :: handler where
  "old_lme_settle_trade_map now fep port msgb class_tag =
     (let head = member MD_HEAD 0 msgb; trade = member LME_TRADE MD_HEAD_SZ msgb in
      checked
        [empty_alert port msgb (head ''code'') ''code'' 0,
         empty_alert port msgb (head ''exch'') ''exch'' 0,
         exch_alert port msgb (head ''exch'') 0]
        (\<lambda>fep. let code = as_str (head ''code'') in on_folder port code (\<lambda>folder fep.
           let settle = f_settle folder ! 0;
               settle = settle\<lparr>
                 q_trdt := as_uint (trade ''trdt''), q_trtm := as_uint (trade ''trtm''),
                 q_last := as_float (trade ''last''), q_tvol := as_uint (trade ''tvol''),
                 q_open := as_float (trade ''open''), q_high := as_float (trade ''high''),
                 q_low := as_float (trade ''lowp''), q_date := as_uint (trade ''date''),
                 q_updated_at := now\<rparr>;
               folder' = folder\<lparr>f_settle := (f_settle folder)[0 := settle]\<rparr>;
               fep = quote_log fep (f_hostname folder) class_tag code
           in Some (folder', fep)) fep)
        fep)"

definition old_lme_oint_trade_map :: handler where
  "old_lme_oint_trade_map now fep port msgb class_tag =
     (let head = member MD_HEAD 0 msgb; trade = member LME_TRADE MD_HEAD_SZ msgb in
      checked
        [empty_alert port msgb (head ''code'') ''code'' 0,
         empty_alert port msgb (head ''exch'') ''exch'' 0,
         exch_alert port msgb (head ''exch'') 0]
        (\<lambda>fep. let code = as_str (head ''code'') in on_folder port code (\<lambda>folder fep.
           let oint = f_oint folder;
               oint = oint\<lparr>
                 q_trdt := as_uint (trade ''trdt''), q_trtm := as_uint (trade ''trtm''),
                 q_tvol := as_uint (trade ''tvol''), q_open := as_float (trade ''open''),
                 q_high := as_float (trade ''high''), q_low := as_float (trade ''lowp''),
                 q_date := as_uint (trade ''date''), q_updated_at := now\<rparr>;
               folder' = folder\<lparr>f_oint := oint\<rparr>;
               fep = quote_log fep (f_hostname folder) class_tag code
           in Some (folder', fep)) fep)
        fep)"

definition old_mavg_trade_map :: handler where
  "old_mavg_trade_map now fep port msgb class_tag =
     (let head = member MD_HEAD 0 msgb; trade = member LME_TRADE MD_HEAD_SZ msgb in
      checked
        [empty_alert port msgb (head ''code'') ''code'' 0,
         empty_alert port msgb (head ''exch'') ''exch'' 0,
         exch_alert port msgb (head ''exch'') 0]
        (\<lambda>fep. let code = as_str (head ''code'') in on_folder port code (\<lambda>folder fep.
           let mavg = f_mavg folder;
               mavg = mavg\<lparr>
                 q_trdt := as_uint (trade ''trdt''), q_trtm := as_uint (trade ''trtm''),
                 q_pbid := as_float (trade ''pbid''), q_pask := as_float (trade ''pask''),
                 q_date := as_uint (trade ''date''), q_updated_at := now\<rparr>;
               folder' = folder\<lparr>f_mavg := mavg\<rparr>;
               fep = quote_log fep (f_hostname folder) class_tag code
           in Some (folder', fep)) fep)
        fep)"

definition old_offi_trade_map :: handler where
  "old_offi_trade_map now fep port msgb class_tag =
     (let head = member MD_HEAD 0 msgb; trade = member LME_TRADE MD_HEAD_SZ msgb in
      checked
        [empty_alert port msgb (head ''code'') ''code'' 0,
         empty_alert port msgb (head ''exch'') ''exch'' 0,
         exch_alert port msgb (head ''exch'') 0]
        (\<lambda>fep. let code = as_str (head ''code'') in on_folder port code (\<lambda>folder fep.
           let offi = f_offi folder;
               offi = offi\<lparr>
                 q_trdt := as_uint (trade ''trdt''), q_trtm := as_uint (trade ''trtm''),
                 q_uoffi_b := as_float (trade ''last''),
                 q_uoffi_s := as_float (trade ''open''),
                 q_offi_b := as_float (trade ''high''),
                 q_offi_s := as_float (trade ''lowp''), q_updated_at := now\<rparr>;
               folder' = folder\<lparr>f_offi := offi\<rparr>;
               fep = quote_log fep (f_hostname folder) class_tag code
           in Some (folder', fep)) fep)
        fep)"

definition old_ware_trade_map :: handler where
  "old_ware_trade_map now fep port msgb class_tag =
     (let head = member MD_HEAD 0 msgb; trade = member WARE_TRADE MD_HEAD_SZ msgb in
      checked
        [empty_alert port msgb (head ''code'') ''code'' 0,
         empty_alert port msgb (head ''exch'') ''exch'' 0,
         exch_alert port msgb (head ''exch'') 0]
        (\<lambda>fep. let code = as_str (head ''code'') in on_folder port code (\<lambda>folder fep.
           let ware = f_ware folder;
               ware = ware\<lparr>
                 q_trdt := as_uint (trade ''trdt''), q_trtm := as_uint (trade ''trtm''),
                 q_wincday := as_int (trade ''wincday''),
                 q_woutcday := as_int (trade ''woutcday''),
                 q_wopen := as_int (trade ''wopen''),
                 q_wclose := as_int (trade ''wclose''), q_wchg := as_int (trade ''wchg''),
                 q_wwclos := as_int (trade ''wwclos''),
                 q_wwcanl := as_int (trade ''wwcanl''), q_date := as_uint (trade ''date''),
                 q_updated_at := now\<rparr>;
               folder' = folder\<lparr>f_ware := ware\<rparr>;
               fep = quote_log fep (f_hostname folder) class_tag code
           in Some (folder', fep)) fep)
        fep)"

definition old_volm_trade_map :: handler where
  "old_volm_trade_map now fep port msgb class_tag =
     (let head = member MD_HEAD 0 msgb; trade = member WARE_TRADE MD_HEAD_SZ msgb in
      checked
        [empty_alert port msgb (head ''code'') ''code'' 0,
         empty_alert port msgb (head ''exch'') ''exch'' 0,
         exch_alert port msgb (head ''exch'') 0]
        (\<lambda>fep. let code = as_str (head ''code'') in on_folder port code (\<lambda>folder fep.
           let volm = f_volm folder;
               volm = volm\<lparr>
                 q_trdt := as_uint (trade ''trdt''), q_trtm := as_uint (trade ''trtm''),
                 q_culmvol := as_int (trade ''wincday''),
                 q_prevvol := as_int (trade ''woutcday''),
                 q_date := as_uint (trade ''date''), q_updated_at := now\<rparr>;
               folder' = folder\<lparr>f_volm := volm\<rparr>;
               fep = quote_log fep (f_hostname folder) class_tag (cstr_at msgb (offset_of MD_HEAD ''code''))
           in Some (folder', fep)) fep)
        fep)"

subsection \<open>Dispatch\<close>

definition old_master_map :: handler where
  "old_master_map now fep port msgb class_tag =
     (if has class_tag LME then void (old_lme_master_map now fep port msgb class_tag)
      else if has class_tag STOCK then void (old_stock_master_map now fep port msgb class_tag)
      else if has class_tag FUTURE then void (old_future_master_map now fep port msgb class_tag)
      else if has class_tag OPTION then void (old_option_master_map now fep port msgb class_tag)
      else if has class_tag SPREAD then void (old_spread_master_map now fep port msgb class_tag)
      else Some (0, fep))"

definition old_trade_map :: handler where
  "old_trade_map now fep port msgb class_tag =
     (if has class_tag STATUS then void (old_status_trade_map now fep port msgb class_tag)
      else if has class_tag QUOTE then
        (if has class_tag LME then void (old_lme_quote_trade_map now fep port msgb class_tag)
         else void (old_quote_trade_map now fep port msgb class_tag))
      else if has class_tag CANCEL then void (old_cancel_trade_map now fep port msgb class_tag)
      else if has class_tag SETTLE then
        (if has class_tag LME then void (old_lme_settle_trade_map now fep port msgb class_tag)
         else void (old_settle_trade_map now fep port msgb class_tag))
      else if has class_tag CLOSE then void (old_close_trade_map now fep port msgb class_tag)
      else if has class_tag OINT then
        (if has class_tag LME then void (old_lme_oint_trade_map now fep port msgb class_tag)
         else void (old_oint_trade_map now fep port msgb class_tag))
      else if has class_tag DEPTH then void (old_depth_trade_map now fep port msgb class_tag)
      else if has class_tag FND then void (old_fnd_trade_map now fep port msgb class_tag)
      else if has class_tag MAVG then void (old_mavg_trade_map now fep port msgb class_tag)
      else if has class_tag OFFI then void (old_offi_trade_map now fep port msgb class_tag)
      else if has class_tag WARE then void (old_ware_trade_map now fep port msgb class_tag)
      else if has class_tag VOLM then void (old_volm_trade_map now fep port msgb class_tag)
      else Some (0, fep))"

definition old_map :: handler where
  "old_map now fep port msgb class_tag =
     (if has class_tag MASTER then void (old_master_map now fep port msgb class_tag)
      else if has class_tag TRADE then
        (if a_mstr_flag (fep_arch fep) = 0 then void (old_trade_map now fep port msgb class_tag)
         else Some (0, fep))
      else Some (0, fep))"

subsection \<open>Every handler keeps the contract\<close>

lemmas old_trade_defs =
  old_status_trade_map_def old_quote_trade_map_def old_cancel_trade_map_def
  old_settle_trade_map_def old_close_trade_map_def old_oint_trade_map_def
  old_depth_trade_map_def old_fnd_trade_map_def old_lme_quote_trade_map_def
  old_lme_settle_trade_map_def old_lme_oint_trade_map_def old_mavg_trade_map_def
  old_offi_trade_map_def old_ware_trade_map_def old_volm_trade_map_def

lemmas old_master_defs =
  old_stock_master_map_def old_future_master_map_def old_option_master_map_def
  old_spread_master_map_def old_lme_master_map_def

lemma old_trades_ok:
  shows "trade_ok MD_HEAD old_status_trade_map" and "trade_ok MD_HEAD old_quote_trade_map"
    and "trade_ok MD_HEAD old_cancel_trade_map" and "trade_ok MD_HEAD old_settle_trade_map"
    and "trade_ok MD_HEAD old_close_trade_map" and "trade_ok MD_HEAD old_oint_trade_map"
    and "trade_ok MD_HEAD old_depth_trade_map" and "trade_ok MD_HEAD old_lme_quote_trade_map"
    and "trade_ok MD_HEAD old_lme_settle_trade_map" and "trade_ok MD_HEAD old_lme_oint_trade_map"
    and "trade_ok MD_HEAD old_mavg_trade_map" and "trade_ok MD_HEAD old_offi_trade_map"
    and "trade_ok MD_HEAD old_ware_trade_map" and "trade_ok MD_HEAD old_volm_trade_map"
  unfolding trade_ok_def old_trade_defs Let_def
  by ((intro allI impI, erule checked_on_folder [rotated -1],
      simp_all add: body_ok_def folder_key_def arrays_ok_def split_beta split: option.splits)[1])+

lemma old_fnd_ok: "trade_ok MD_HEAD old_fnd_trade_map"
  by (simp add: trade_ok_def old_fnd_trade_map_def quiet_trade_step)

lemma old_masters_ok:
  shows "master_ok old_stock_master_map" and "master_ok old_future_master_map"
    and "master_ok old_option_master_map" and "master_ok old_spread_master_map"
    and "master_ok old_lme_master_map"
  unfolding master_ok_def old_master_defs Let_def
  by ((intro allI impI, erule checked_enter_master [rotated -1], simp_all)[1])+

lemma old_master_map_ok: "master_ok old_master_map"
  unfolding old_master_map_def by (intro master_ok_intros old_masters_ok)

lemma old_trade_map_ok: "trade_ok MD_HEAD old_trade_map"
  unfolding old_trade_map_def by (intro trade_ok_intros old_trades_ok old_fnd_ok)

lemma old_map_ok: "master_ok old_map"
  unfolding old_map_def
  by (intro master_ok_void master_ok_if master_ok_skip old_master_map_ok
      master_ok_trade [OF old_trade_map_ok])

interpretation old_trades: trade_handler old_trade_map
  by (rule trade_ok_handler) (rule old_trade_map_ok)

interpretation old_feed: handler old_map
  by (rule master_ok_handler) (rule old_map_ok)

subsection \<open>Where the mapper of the OLD feed is defined\<close>

lemma old_trades_total:
  shows "handler_total (\<lambda>_ _. True) old_status_trade_map" and "handler_total (\<lambda>_ _. True) old_quote_trade_map"
    and "handler_total (\<lambda>_ _. True) old_cancel_trade_map" and "handler_total (\<lambda>_ _. True) old_close_trade_map"
    and "handler_total (\<lambda>_ _. True) old_oint_trade_map" and "handler_total (\<lambda>_ _. True) old_depth_trade_map"
    and "handler_total (\<lambda>_ _. True) old_fnd_trade_map" and "handler_total (\<lambda>_ _. True) old_lme_quote_trade_map"
    and "handler_total (\<lambda>_ _. True) old_lme_settle_trade_map" and "handler_total (\<lambda>_ _. True) old_lme_oint_trade_map"
    and "handler_total (\<lambda>_ _. True) old_mavg_trade_map" and "handler_total (\<lambda>_ _. True) old_offi_trade_map"
    and "handler_total (\<lambda>_ _. True) old_ware_trade_map" and "handler_total (\<lambda>_ _. True) old_volm_trade_map"
  unfolding handler_total_def old_trade_defs old_fnd_trade_map_def Let_def
  by ((intro allI impI checked_total on_folder_total; simp add: checks_total layout_defs split: prod.split)[1])+

lemma old_settle_total:
  "handler_total (\<lambda>m t. settle_index (cstr_at m (MD_HEAD_SZ + offset_of MD_TRADE ''stat'')) \<noteq> None)
     old_settle_trade_map"
  unfolding handler_total_def old_trade_defs Let_def
  by (intro allI impI checked_total on_folder_total) (auto simp: checks_total layout_defs)

lemma old_masters_total:
  shows "handler_total (\<lambda>_ _. True) old_stock_master_map" and "handler_total (\<lambda>_ _. True) old_future_master_map"
    and "handler_total (\<lambda>_ _. True) old_option_master_map" and "handler_total (\<lambda>_ _. True) old_spread_master_map"
    and "handler_total (\<lambda>_ _. True) old_lme_master_map"
  unfolding handler_total_def old_master_defs Let_def
  by ((intro allI impI checked_total enter_master_total; simp add: checks_total layout_defs)[1])+


text \<open>
  A settlement message names its row (the handlers that read no status byte, and the LME one,
  need no name).
\<close>

definition settle_named :: "bytes \<Rightarrow> u32 \<Rightarrow> bool" where
  "settle_named msgb tag \<longleftrightarrow> (has tag SETTLE \<longrightarrow> has tag LME \<or>
     settle_index (cstr_at msgb (MD_HEAD_SZ + offset_of MD_TRADE ''stat'')) \<noteq> None)"

lemma old_trade_map_total: "handler_total settle_named old_trade_map"
  unfolding old_trade_map_def
  by (intro handler_total_if handler_total_void old_trades_total [THEN handler_total_weaken]
      old_settle_total [THEN handler_total_weaken])
    (auto simp: settle_named_def handler_total_def)

lemma old_master_map_total: "handler_total (\<lambda>_ _. True) old_master_map"
  unfolding old_master_map_def
  by (intro handler_total_if handler_total_void old_masters_total [THEN handler_total_weaken])
    (auto simp: handler_total_def)

lemma old_map_total: "handler_total settle_named old_map"
  unfolding handler_total_def
proof (intro allI impI)
  fix now fep port msgb tag
  assume "settle_named msgb tag" and "alert_room fep port msgb"
  with old_trade_map_total old_master_map_total
  have "old_trade_map now fep port msgb tag \<noteq> None" "old_master_map now fep port msgb tag \<noteq> None"
    by (simp_all add: handler_total_def)
  then show "old_map now fep port msgb tag \<noteq> None" by (auto simp: old_map_def void_def)
qed

subsection \<open>Packets and tables for the witnesses\<close>

definition demo_head :: "string \<Rightarrow> string \<Rightarrow> string" where
  "demo_head trxc nm =
     (if nm = ''trxc'' then trxc else if nm = ''exch'' then ''001'' else if nm = ''code'' then ''6AH4''
      else [])"

definition demo_trade :: "string \<Rightarrow> string" where
  "demo_trade nm =
     (if nm = ''last'' then ''0.65'' else if nm = ''open'' then ''0.64'' else if nm = ''tqty'' then ''12''
      else if nm = ''date'' then ''20240301'' else [])"

definition demo_packet :: "string \<Rightarrow> bytes \<Rightarrow> bytes" where
  "demo_packet trxc body = pack MD_HEAD (demo_head trxc) @ body"

abbreviation demo_quote :: "string \<Rightarrow> bytes" where
  "demo_quote trxc \<equiv> demo_packet trxc (pack MD_TRADE demo_trade)"

abbreviation demo_table :: FEP where
  "demo_table \<equiv> entered 0 4 [''6AH4'', ''6BH4'']"

lemma demo_table_ok: "table_ok demo_table"
  by (rule table_ok_entered) simp

lemma entered_exnm: "fep_exnm (entered now room symbs) = ''FCME''"
proof -
  have "fep_exnm (snd (newfolder now fep s h)) = fep_exnm fep" for fep s h
    using newfolder_same_but [of fep now s h] by (simp add: same_but_def)
  then have "fep_exnm (foldl (\<lambda>fep s. snd (newfolder now fep s ''H1'')) fep symbs) = fep_exnm fep" for fep
    by (induction symbs arbitrary: fep) simp_all
  then show ?thesis by (simp add: entered_def fep0_def)
qed

lemma exch_error_cme:
  "take 3 (drop 1 (fep_exnm fep)) = ''CME'' \<Longrightarrow> exch_error fep (pad 3 ''001'') = 0"
proof -
  have "exch_names (atoi (cstr (drop 1 (str2buf (pad 3 ''001''))))) = Some [''CME'']" by code_simp
  then show "take 3 (drop 1 (fep_exnm fep)) = ''CME'' \<Longrightarrow> exch_error fep (pad 3 ''001'') = 0"
    by (simp add: exch_error_def)
qed

lemma demo_packet_head:
  "member MD_HEAD 0 (demo_packet trxc body) ''code'' = pad 16 ''6AH4''"
  "member MD_HEAD 0 (demo_packet trxc body) ''exch'' = pad 3 ''001''"
  using member_pack0 [of "''code''" MD_HEAD "demo_head trxc" body] member_pack0 [of "''exch''" MD_HEAD "demo_head trxc" body]
  by (simp_all add: demo_packet_def MD_HEAD_def demo_head_def)

lemma demo_packet_code: "as_str (member MD_HEAD 0 (demo_packet trxc body) ''code'') = ''6AH4''"
  by (simp add: demo_packet_head)

lemma demo_accepts: "accepts demo_table MD_HEAD (demo_packet trxc body)"
  by (simp add: accepts_def demo_packet_head exch_error_cme entered_exnm)

lemma demo_known:
  "folder_map demo_table (FolderKey (p_host port0) ''6AH4'') = Some (fresh_folder 0 ''6AH4'' ''H1'')"
  using entered_map [of "[''6AH4'', ''6BH4'']" 4] by (simp add: port0_def)

lemma demo_quote_runs:
  "\<exists>fep'. old_trade_map 10 demo_table port0 (demo_quote ''A21'') (TRADE OR QUOTE) = Some (0, fep')"
proof -
  have "\<exists>fep'. old_quote_trade_map 10 demo_table port0 (demo_quote ''A21'') tag = Some (0, fep')" for tag
    unfolding old_quote_trade_map_def Let_def
    by (rule checked_runs [OF demo_table_ok demo_accepts]) (simp add: demo_packet_code, rule demo_known,
      simp_all add: body_ok_def folder_key_def arrays_ok_def)
  moreover have "has (TRADE OR QUOTE) QUOTE" "\<not> has (TRADE OR QUOTE) STATUS" "\<not> has (TRADE OR QUOTE) LME"
    by code_simp+
  ultimately show ?thesis by (fastforce simp: old_trade_map_def void_def)
qed

lemma demo_quote_length: "length (demo_quote trxc) = 162"
proof -
  have "sizeof MD_HEAD = 54" "sizeof MD_TRADE = 108" by (simp_all add: sizeof_def MD_HEAD_def MD_TRADE_def)
  then show ?thesis by (simp add: demo_packet_def)
qed

subsection \<open>Properties\<close>

text \<open>
  C5. A quote. When the packet passes the checks and its symbol is in the table, the quote handler
  returns 0 and the table after it differs in the quote of that one folder only: price, quantities
  and dates are those of the packet, and the time of the opening, high and low price moves exactly
  when that price changes. It puts out one line for the quote log and then one snapshot for the push
  broker, which shows the new quote.
\<close>

theorem old_quote_accepted:
  assumes ok: "table_ok fep" and acc: "accepts fep MD_HEAD msgb"
    and f: "folder_map fep (FolderKey (p_host port) (as_str (member MD_HEAD 0 msgb ''code''))) = Some f"
  shows "let code = as_str (member MD_HEAD 0 msgb ''code'');
             f' = f\<lparr>f_quote := quoted now (member MD_TRADE MD_HEAD_SZ msgb) (f_quote f)\<rparr>
    in \<exists>fep'. old_quote_trade_map now fep port msgb tag = Some (0, fep') \<and> table_ok fep' \<and>
      folder_map fep' = (folder_map fep)(FolderKey (p_host port) code \<mapsto> f') \<and>
      fep_out fep' = fep_out fep @ [EvQuoteLog (f_hostname f) tag code, EvPush f' 0]"
  unfolding old_quote_trade_map_def Let_def stamps_quoted
  by (rule checked_known [OF ok acc f _ refl], simp add: body_ok_def folder_key_def arrays_ok_def)
    (simp add: fep_push_def quote_log_def)

theorem old_quote_accepted_witness:
  "\<exists>fep'. old_quote_trade_map 10 demo_table port0 (demo_quote ''A21'') TRADE = Some (0, fep') \<and>
     q_updated_at (f_quote (the (folder_map fep' (FolderKey ''H1'' ''6AH4'')))) = 10"
proof -
  have "p_host port0 = ''H1''" by (simp add: port0_def)
  with old_quote_accepted [OF demo_table_ok demo_accepts, of port0 "''A21''" "pack MD_TRADE demo_trade" _ 10 TRADE,
        unfolded demo_packet_code, OF demo_known] show ?thesis
    by (auto simp: Let_def quoted_def)
qed

text \<open>
  A cancelled trade. An accepted cancel message writes the packet into the quote and into the
  cancel record of its folder, each with its own open, high and low times, and pushes the folder as
  a cancellation.
\<close>

theorem old_cancel_accepted:
  assumes ok: "table_ok fep" and acc: "accepts fep MD_HEAD msgb"
    and f: "folder_map fep (FolderKey (p_host port) (as_str (member MD_HEAD 0 msgb ''code''))) = Some f"
  shows "let code = as_str (member MD_HEAD 0 msgb ''code''); trade = member MD_TRADE MD_HEAD_SZ msgb;
             f' = f\<lparr>f_quote := quoted now trade (f_quote f), f_cancel := quoted now trade (f_cancel f)\<rparr>
    in \<exists>fep'. old_cancel_trade_map now fep port msgb tag = Some (0, fep') \<and> table_ok fep' \<and>
      folder_map fep' = (folder_map fep)(FolderKey (p_host port) code \<mapsto> f') \<and>
      fep_out fep' = fep_out fep @ [EvQuoteLog (f_hostname f) tag code, EvPush f' 1]"
  unfolding old_cancel_trade_map_def Let_def stamps_quoted
  by (rule checked_known [OF ok acc f _ refl], simp add: body_ok_def folder_key_def arrays_ok_def)
    (simp add: fep_push_def quote_log_def)

theorem old_cancel_accepted_witness:
  "\<exists>fep'. old_cancel_trade_map 10 demo_table port0 (demo_quote ''A24'') TRADE = Some (0, fep') \<and>
     q_updated_at (f_cancel (the (folder_map fep' (FolderKey ''H1'' ''6AH4'')))) = 10"
proof -
  have "p_host port0 = ''H1''" by (simp add: port0_def)
  with old_cancel_accepted [OF demo_table_ok demo_accepts, of port0 "''A24''" "pack MD_TRADE demo_trade" _ 10 TRADE,
        unfolded demo_packet_code, OF demo_known] show ?thesis
    by (auto simp: Let_def quoted_def)
qed

text \<open>
  C6. Trade data never reaches another folder. Whatever trade message arrives on a well-formed
  table, of whatever class and whether its checks let it through or not: as long as the names of the
  port and the message leave room in the alert buffers (900 bytes together) and a settlement of the
  non-LME processes names its row, the call is defined and returns 0, the table is well-formed
  with the same folders, every folder but the one of the port's host and the packet's code is as it
  was, and a packet for a code the table does not have changes no folder.
\<close>

theorem old_trade_one_folder:
  assumes ok: "table_ok fep" and room: "alert_room fep port msgb" and named: "settle_named msgb tag"
  shows "\<exists>fep'. old_trade_map now fep port msgb tag = Some (0, fep') \<and>
    (let key = FolderKey (p_host port) (as_str (member MD_HEAD 0 msgb ''code''))
     in table_ok fep' \<and> vrec fep' = vrec fep \<and> dom (folder_map fep') = dom (folder_map fep) \<and>
      (\<forall>k. k \<noteq> key \<longrightarrow> folder_map fep' k = folder_map fep k) \<and>
      (key \<notin> dom (folder_map fep) \<longrightarrow> folder_map fep' = folder_map fep))"
proof -
  let ?key = "FolderKey (p_host port) (as_str (member MD_HEAD 0 msgb ''code''))"
  from old_trade_map_total room named obtain r fep' where
    run: "old_trade_map now fep port msgb tag = Some (r, fep')" by (fastforce simp: handler_total_def)
  from trade_okD [OF old_trade_map_ok ok run] have st: "trade_step ?key fep fep'" .
  have "r = 0" using run by (auto simp: old_trade_map_def void_Some_iff split: if_splits)
  moreover have "folder_map fep' = folder_map fep" if "?key \<notin> dom (folder_map fep)"
  proof
    fix k
    from st that show "folder_map fep' k = folder_map fep k"
      by (cases "k = ?key") (auto simp: trade_step_def)
  qed
  ultimately show ?thesis using st run by (simp add: trade_step_def)
qed

theorem old_trade_one_folder_witness:
  "\<exists>fep'. old_trade_map 10 demo_table port0 (demo_quote ''A21'') (TRADE OR QUOTE) = Some (0, fep') \<and>
     folder_map fep' (FolderKey ''H1'' ''6BH4'') = folder_map demo_table (FolderKey ''H1'' ''6BH4'')"
proof -
  have "alert_room demo_table port0 (demo_quote ''A21'')"
    using demo_quote_length [of "''A21''"] by (simp add: alert_room_def entered_exnm port0_def)
  moreover have "\<not> has (TRADE OR QUOTE) SETTLE" by code_simp
  then have "settle_named (demo_quote ''A21'') (TRADE OR QUOTE)" by (simp add: settle_named_def)
  ultimately show ?thesis
    using old_trade_one_folder [OF demo_table_ok, of port0 "demo_quote ''A21''" "TRADE OR QUOTE" 10]
    by (auto simp: Let_def demo_packet_code)
qed

text \<open>
  C7. The settlement of a full packet. The settlement handler compares the two-byte status field as
  a C string; in a packet received whole and without NUL bytes, which is what the receive loop hands
  over, that string is at least ten bytes long, so it is none of the four codes and the handler goes
  on with an uninitialised pointer.
\<close>

theorem old_settle_undefined:
  assumes ok: "table_ok fep" and acc: "accepts fep MD_HEAD msgb"
    and f: "folder_map fep (FolderKey (p_host port) (as_str (member MD_HEAD 0 msgb ''code''))) \<noteq> None"
    and whole: "MD_HEAD_SZ + sizeof MD_TRADE \<le> length msgb" "NUL \<notin> set msgb"
  shows "old_settle_trade_map now fep port msgb tag = None"
proof -
  let ?off = "MD_HEAD_SZ + offset_of MD_TRADE ''stat''"
  have "NUL \<notin> set (drop ?off msgb)" using whole(2) in_set_dropD by fast
  then have "cstr_at msgb ?off = drop ?off msgb" by (simp add: cstr_at_def cstr_id)
  then have "10 \<le> length (cstr_at msgb ?off)"
    using whole(1) by (simp add: layout_defs)
  then have "settle_index (cstr_at msgb ?off) = None"
    by (auto simp: settle_index_def)
  moreover obtain i where "getfolder fep (as_str (member MD_HEAD 0 msgb ''code'')) (p_host port) = Some i"
    using f folder_map_get [OF ok] by auto
  ultimately show ?thesis using acc
    by (simp add: old_settle_trade_map_def Let_def accepts_def alerts_pass on_folder_def)
qed

theorem old_settle_undefined_witness:
  "old_settle_trade_map 10 demo_table port0 (demo_quote ''A40'') TRADE = None"
proof (rule old_settle_undefined [OF demo_table_ok demo_accepts])
  show "folder_map demo_table (FolderKey (p_host port0) (as_str (member MD_HEAD 0 (demo_quote ''A40'') ''code''))) \<noteq> None"
    using demo_known by (simp add: demo_packet_code)
  show "MD_HEAD_SZ + sizeof MD_TRADE \<le> length (demo_quote ''A40'')"
    by (simp add: demo_packet_def MD_HEAD_SZ_def)
  show "NUL \<notin> set (demo_quote ''A40'')"
    by (simp add: demo_packet_def pack_def pad_def MD_HEAD_def MD_TRADE_def demo_head_def demo_trade_def)
qed

text \<open>The master handlers with the packet each of them reads.\<close>

definition old_masters :: "(handler \<times> layout) list" where
  "old_masters =
    [(old_stock_master_map, MD_ESTR), (old_future_master_map, MD_MSTT),
     (old_option_master_map, MD_OSTR), (old_spread_master_map, MD_MSTR_SPREAD),
     (old_lme_master_map, MD_MSTT)]"

text \<open>
  A master message. Each of the five master handlers, given a packet whose code, exchange and
  (but for stocks) ticker are there and whose exchange is the process's own, with the symbol known or
  a record free, returns 0 with a well-formed table in which exactly the folder of that host and code
  has a new master, a cleared record being entered first for a new symbol. The master is dated now
  and carries the description, exchange, currency, product and base date of the packet; the trade
  data of a known symbol stays. From then on the folder counts as old only after seven days.
\<close>

theorem old_master_enters:
  assumes ok: "table_ok fep" and h: "(h, L) \<in> set old_masters"
    and fields: "as_str (member L 0 msgb ''code'') \<noteq> []" "as_str (member L 0 msgb ''exch'') \<noteq> []"
      "exch_error fep (member L 0 msgb ''exch'') = 0"
      "L = MD_ESTR \<or> as_str (member L 0 msgb ''ticd'') \<noteq> []"
    and room: "folder_map fep (FolderKey (p_host port) (as_str (member L 0 msgb ''code''))) \<noteq> None \<or>
      vrec fep + 1 < mrec fep"
  shows "let code = as_str (member L 0 msgb ''code''); f = found_or_fresh now fep (p_host port) code
    in \<exists>fep' m. h now fep port msgb tag = Some (0, fep') \<and> table_ok fep' \<and>
      (m_symb_desc m = as_str (member L 0 msgb ''enam'') \<and>
       m_exch_code m = as_str (member L 0 msgb ''exch'') \<and>
       m_curr m = as_str (member L 0 msgb ''curr'') \<and> m_prod m = as_str (member L 0 msgb ''prod'') \<and>
       m_bsdt m = as_uint (member L 0 msgb ''bsdt'') \<and> m_updated_at m = now \<and>
       (\<forall>later. is_old later (f\<lparr>f_mstr := m\<rparr>) \<longleftrightarrow> later - now > 60 * 60 * 24 * 7)) \<and>
      folder_map fep' = (folder_map fep)(FolderKey (p_host port) code \<mapsto> f\<lparr>f_mstr := m\<rparr>)"
proof -
  have distinct: "MD_MSTT \<noteq> MD_ESTR" "MD_OSTR \<noteq> MD_ESTR" "MD_MSTR_SPREAD \<noteq> MD_ESTR"
    by (simp_all add: layout_defs)
  from h consider "h = old_stock_master_map" "L = MD_ESTR" | "h = old_future_master_map" "L = MD_MSTT"
    | "h = old_option_master_map" "L = MD_OSTR" | "h = old_spread_master_map" "L = MD_MSTR_SPREAD"
    | "h = old_lme_master_map" "L = MD_MSTT"
    by (auto simp: old_masters_def)
  then show ?thesis
    using fields room distinct
    by cases
      (simp_all only: old_master_defs Let_def, (rule checked_entered [OF ok];
        simp add: alerts_pass is_old_def)+)
qed

definition demo_master_field :: "string \<Rightarrow> string" where
  "demo_master_field nm =
     (if nm = ''code'' then ''6EM4'' else if nm = ''ticd'' then ''6E'' else if nm = ''exch'' then ''001''
      else if nm = ''enam'' then ''EURO FX'' else [])"

lemma demo_master_head:
  "member MD_MSTT 0 (pack MD_MSTT demo_master_field) ''code'' = pad 16 ''6EM4''"
  "member MD_MSTT 0 (pack MD_MSTT demo_master_field) ''ticd'' = pad 8 ''6E''"
  "member MD_MSTT 0 (pack MD_MSTT demo_master_field) ''exch'' = pad 3 ''001''"
  "member MD_MSTT 0 (pack MD_MSTT demo_master_field) ''enam'' = pad 40 ''EURO FX''"
  using member_pack0 [of "''code''" MD_MSTT demo_master_field "[]"]
    member_pack0 [of "''ticd''" MD_MSTT demo_master_field "[]"]
    member_pack0 [of "''exch''" MD_MSTT demo_master_field "[]"]
    member_pack0 [of "''enam''" MD_MSTT demo_master_field "[]"]
  by (simp_all add: MD_MSTT_def demo_master_field_def)

theorem old_master_enters_witness:
  "\<exists>fep'. old_future_master_map 10 demo_table port0 (pack MD_MSTT demo_master_field) MASTER = Some (0, fep') \<and>
     m_symb_desc (f_mstr (the (folder_map fep' (FolderKey ''H1'' ''6EM4'')))) = ''EURO FX''"
proof -
  have "(old_future_master_map, MD_MSTT) \<in> set old_masters" by (simp add: old_masters_def)
  note enters = old_master_enters [OF demo_table_ok this, of "pack MD_MSTT demo_master_field" port0 10 MASTER]
  have "vrec demo_table + 1 < mrec demo_table"
    using entered_counts [of "[''6AH4'', ''6BH4'']" 4 0] by simp
  moreover have host: "p_host port0 = ''H1''" by (simp add: port0_def)
  ultimately show ?thesis
    using enters by (auto simp: Let_def demo_master_head exch_error_cme entered_exnm)
qed

text \<open>
  An order book. An accepted depth message fills the first five levels of both sides of its
  folder's book from the five levels of the packet, leaves the other levels alone, dates the book
  and pushes the folder; the total of a level is the packet's quantity field and the quantity is its
  order count field. The book checks may put out alerts before the push, and change nothing but the
  counter of crossed books.
\<close>

theorem old_depth_levels:
  assumes ok: "table_ok fep" and acc: "accepts fep MD_HEAD msgb"
    and f: "folder_map fep (FolderKey (p_host port) (as_str (member MD_HEAD 0 msgb ''code''))) = Some f"
  shows "let code = as_str (member MD_HEAD 0 msgb ''code'');
             level = (\<lambda>ii. member book (MD_HEAD_SZ + offset_of MD_DEPTH ''book'' + ii * sizeof book) msgb)
    in \<exists>fep' d alerts. old_depth_trade_map now fep port msgb tag = Some (0, fep') \<and> table_ok fep' \<and>
      folder_map fep' = (folder_map fep)(FolderKey (p_host port) code \<mapsto> f\<lparr>f_depth := d\<rparr>) \<and>
      fep_out fep' = fep_out fep @ alerts @ [EvPush (f\<lparr>f_depth := d\<rparr>) 2] \<and>
      d_updated_at d = now \<and> length (d_ask d) = DEPTH_LEVEL \<and> length (d_bid d) = DEPTH_LEVEL \<and>
      (\<forall>ii<DEPTH_LEVEL. if ii < MD_MAX_DEPTH then
         d_ask d ! ii = \<lparr>b_price = as_float (level ii ''askp''), b_total = as_uint (level ii ''askq''),
                         b_qtqy = as_uint (level ii ''askn'')\<rparr> \<and>
         d_bid d ! ii = \<lparr>b_price = as_float (level ii ''bidp''), b_total = as_uint (level ii ''bidq''),
                         b_qtqy = as_uint (level ii ''bidn'')\<rparr>
       else d_ask d ! ii = d_ask (f_depth f) ! ii \<and> d_bid d ! ii = d_bid (f_depth f) ! ii)"
proof -
  let ?code = "as_str (member MD_HEAD 0 msgb ''code'')"
  let ?level = "\<lambda>ii. member book (MD_HEAD_SZ + offset_of MD_DEPTH ''book'' + ii * sizeof book) msgb"
  define d1 where "d1 = (f_depth f)\<lparr>
      d_dpdt := as_uint (member MD_DEPTH MD_HEAD_SZ msgb ''dpdt''),
      d_dptm := as_uint (member MD_DEPTH MD_HEAD_SZ msgb ''dptm''),
      d_ask := fill_side ?level ''askp'' ''askq'' ''askn'' (d_ask (f_depth f)),
      d_bid := fill_side ?level ''bidp'' ''bidq'' ''bidn'' (d_bid (f_depth f))\<rparr>"
  define res where "res = cross_check fep port d1 (r_cross_check (c_raw_data (fep_config fep)))"
  define d where "d = (fst res)\<lparr>d_updated_at := now\<rparr>"
  obtain i where i: "i < vrec fep" "fep_fold fep ! i = f"
    using f folder_map_get [OF ok] getfolder_Some_iff [OF ok] by fastforce
  have arr: "arrays_ok f" using table_record_arrays [OF ok i(1)] i(2) by simp
  obtain fep' where run: "old_depth_trade_map now fep port msgb tag = Some (0, fep')" "table_ok fep'"
    "folder_map fep' = (folder_map fep)(FolderKey (p_host port) ?code \<mapsto> f\<lparr>f_depth := d\<rparr>)"
    "fep_out fep' = fep_out (fep_push (snd res) (f\<lparr>f_depth := d\<rparr>) 2)"
  proof -
    have "\<exists>fep'. old_depth_trade_map now fep port msgb tag = Some (0, fep') \<and> table_ok fep' \<and>
      folder_map fep' = (folder_map fep)(FolderKey (p_host port) ?code \<mapsto> f\<lparr>f_depth := d\<rparr>) \<and>
      fep_out fep' = fep_out (fep_push (snd res) (f\<lparr>f_depth := d\<rparr>) 2)"
    unfolding old_depth_trade_map_def Let_def split_beta d_def res_def d1_def
    by (rule checked_known [OF ok acc f _ refl refl])
      (simp add: body_ok_def folder_key_def arrays_ok_def)
    then show thesis using that by blast
  qed
  obtain alerts where "fep_out (fep_push (snd res) (f\<lparr>f_depth := d\<rparr>) 2) =
      fep_out fep @ alerts @ [EvPush (f\<lparr>f_depth := d\<rparr>) 2]"
    using quiet_cross_check [of fep port d1 "r_cross_check (c_raw_data (fep_config fep))"]
    by (auto simp: res_def quiet_def fep_push_def)
  moreover have "d_updated_at d = now"
      "d_ask d = fill_side ?level ''askp'' ''askq'' ''askn'' (d_ask (f_depth f))"
      "d_bid d = fill_side ?level ''bidp'' ''bidq'' ''bidn'' (d_bid (f_depth f))"
    by (simp_all add: d_def res_def d1_def)
  ultimately show ?thesis
    using run arr unfolding Let_def arrays_ok_def
    by (intro exI [of _ fep'] exI [of _ d] exI [of _ alerts]) simp
qed

theorem old_depth_levels_witness:
  "\<exists>fep'. old_depth_trade_map 10 demo_table port0 (demo_packet ''A31'' (pack MD_DEPTH (\<lambda>_. []))) TRADE =
       Some (0, fep') \<and> d_updated_at (f_depth (the (folder_map fep' (FolderKey ''H1'' ''6AH4'')))) = 10"
proof -
  have host: "p_host port0 = ''H1''" by (simp add: port0_def)
  from old_depth_levels [OF demo_table_ok demo_accepts, of port0 "''A31''" "pack MD_DEPTH (\<lambda>_. [])" _ 10 TRADE,
      unfolded demo_packet_code, OF demo_known] host
  obtain fep' d where "old_depth_trade_map 10 demo_table port0
      (demo_packet ''A31'' (pack MD_DEPTH (\<lambda>_. []))) TRADE = Some (0, fep')"
    "folder_map fep' = (folder_map demo_table)(FolderKey ''H1'' ''6AH4'' \<mapsto>
       (fresh_folder 0 ''6AH4'' ''H1'')\<lparr>f_depth := d\<rparr>)" "d_updated_at d = 10"
    unfolding Let_def by metis
  then show ?thesis by auto
qed

end
