(* ===== verification/ExtMap.thy ===== *)
theory ExtMap
  imports Handlers
begin

text \<open>
  The handlers of the EXT packet format, \<^verbatim>\<open>src/mon/extmap.c\<close>: three for masters, four for trade
  data, and the dispatch on the class of the message. They are written like those of the OLD
  format and keep the same contract.
\<close>

subsection \<open>Masters\<close>

definition ext_future_master_map :: handler where
  "ext_future_master_map now fep port msgb class_tag =
     (let master = member EXT_FMST 0 msgb in
      checked
        [empty_alert port msgb (master ''code'') ''code'' 0,
         empty_alert port msgb (master ''ticd'') ''ticd'' 0,
         empty_alert port msgb (master ''exch'') ''exch'' 0,
         exch_alert port msgb (master ''exch'') 0]
        (enter_master now port (as_str (master ''code'')) ''ext_future_master_map'' (\<lambda>mstr.
           (parse_pind (mstr\<lparr>
            m_root := as_str (master ''ticd''), m_symb_desc := as_str (master ''enam''),
            m_exch_code := as_str (master ''exch''), m_curr := as_str (master ''curr''),
            m_prod := as_str (master ''prod'')\<rparr>)
             (master ''pind''))\<lparr>
            m_ftdt := as_uint (master ''ftdt''), m_ltdt := as_uint (master ''ltdt''),
            m_fddt := as_uint (master ''fddt''), m_lddt := as_uint (master ''lddt''),
            m_bsdt := as_uint (master ''bsdt''), m_stdt := as_uint (master ''stdt''),
            m_setp := as_float (master ''setp''), m_pinc := as_float (master ''pinc''),
            m_pmul := as_float (master ''pmul'')\<rparr>))
        fep)"

definition ext_option_master_map :: handler where
  "ext_option_master_map now fep port msgb class_tag =
     (let master = member EXT_OMST 0 msgb in
      checked
        [empty_alert port msgb (master ''code'') ''code'' 0,
         empty_alert port msgb (master ''ticd'') ''ticd'' 0,
         empty_alert port msgb (master ''exch'') ''exch'' 0,
         exch_alert port msgb (master ''exch'') 0]
        (enter_master now port (as_str (master ''code'')) ''ext_option_master_map'' (\<lambda>mstr.
           (parse_pind (mstr\<lparr>
            m_root := as_str (master ''ticd''), m_symb_desc := as_str (master ''enam''),
            m_otyp := as_str (master ''type''), m_exch_code := as_str (master ''exch''),
            m_curr := as_str (master ''curr''), m_prod := as_str (master ''prod'')\<rparr>)
             (master ''pind''))\<lparr>
            m_ftdt := as_uint (master ''ftdt''), m_ltdt := as_uint (master ''ltdt''),
            m_fddt := as_uint (master ''fddt''), m_lddt := as_uint (master ''lddt''),
            m_bsdt := as_uint (master ''bsdt''), m_stdt := as_uint (master ''stdt''),
            m_setp := as_float (master ''setp''), m_strp := as_float (master ''strp''),
            m_stcu := as_str (master ''strc''), m_pinc := as_float (master ''pinc''),
            m_pmul := as_float (master ''disf''), m_cvol := as_uint (master ''cvol''),
            m_oint := as_uint (master ''oint''), m_ucod := as_str (master ''ucod'')\<rparr>))
        fep)"

definition ext_spread_master_map :: handler where
  "ext_spread_master_map now fep port msgb class_tag =
     (let master = member EXT_SMST 0 msgb in
      checked
        [empty_alert port msgb (master ''code'') ''code'' 0,
         empty_alert port msgb (master ''ticd'') ''ticd'' 0,
         empty_alert port msgb (master ''exch'') ''exch'' 0,
         exch_alert port msgb (master ''exch'') 0]
        (enter_master now port (as_str (master ''code'')) ''ext_spread_master_map'' (\<lambda>mstr.
           (parse_pind (mstr\<lparr>
            m_root := as_str (master ''ticd''), m_symb_desc := as_str (master ''enam''),
            m_exch_code := as_str (master ''exch''), m_curr := as_str (master ''curr''),
            m_prod := as_str (master ''prod'')\<rparr>)
             (master ''pind''))\<lparr>
            m_ftdt := as_uint (master ''ftdt''), m_ltdt := as_uint (master ''ltdt''),
            m_bsdt := as_uint (master ''bsdt''), m_flsm := as_str (master ''flsm''),
            m_flmy := as_uint (master ''flmy''), m_slsm := as_str (master ''slsm''),
            m_slmy := as_uint (master ''slmy''), m_pinc := as_float (master ''pinc''),
            m_pmul := as_float (master ''pmul''), m_legs := as_str (master ''legs'')\<rparr>))
        fep)"

subsection \<open>Trade data\<close>

definition ext_quote_trade_map :: handler where
  "ext_quote_trade_map now fep port msgb class_tag =
     (let head = member EXT_HEAD 0 msgb; trade = member EXT_TRADE EXT_HEAD_SZ msgb in
      checked
        [empty_alert port msgb (head ''code'') ''code'' 0,
         empty_alert port msgb (head ''exch'') ''exch'' 0,
         exch_alert port msgb (head ''exch'') 0]
        (\<lambda>fep. let code = as_str (head ''code'') in on_folder port code (\<lambda>folder fep.
           let open = as_float (trade ''open'');
               high = as_float (trade ''high'');
               low = as_float (trade ''lowp'');
               quote = f_quote folder;
               quote = quote\<lparr>
                 q_trdt := as_uint (trade ''trdt''), q_trtm := as_uint (trade ''trtm''),
                 q_last := as_float (trade ''last''), q_tqty := as_uint (trade ''tqty''),
                 q_tvol := as_uint (trade ''tvol'')\<rparr>;
               quote = stamp_low now low (stamp_high now high (stamp_open now open quote));
               quote = quote\<lparr>
                 q_date := as_uint (trade ''date''), q_updated_at := now\<rparr>;
               folder' = folder\<lparr>f_quote := quote\<rparr>;
               fep = quote_log fep (f_hostname folder) class_tag code
           in Some (folder', fep_push fep folder' 0)) fep)
        fep)"

definition ext_settle_trade_map :: handler where
  "ext_settle_trade_map now fep port msgb class_tag =
     (let head = member EXT_HEAD 0 msgb; trade = member EXT_TRADE EXT_HEAD_SZ msgb in
      checked
        [empty_alert port msgb (head ''code'') ''code'' 0,
         empty_alert port msgb (head ''exch'') ''exch'' 0,
         exch_alert port msgb (head ''exch'') 0]
        (\<lambda>fep. let code = as_str (head ''code'') in on_folder port code (\<lambda>folder fep.
           case settle_index (cstr_at msgb (EXT_HEAD_SZ + offset_of EXT_TRADE ''stat'')) of None \<Rightarrow> None | Some ii \<Rightarrow>
           let settle = f_settle folder ! ii;
               settle = settle\<lparr>
                 q_trdt := as_uint (trade ''trdt''), q_trtm := as_uint (trade ''trtm''),
                 q_last := as_float (trade ''last''), q_tvol := as_uint (trade ''tvol''),
                 q_open := as_float (trade ''open''), q_high := as_float (trade ''high''),
                 q_low := as_float (trade ''lowp''), q_date := as_uint (trade ''date''),
                 q_updated_at := now\<rparr>;
               folder' = folder\<lparr>f_settle := (f_settle folder)[ii := settle]\<rparr>;
               fep = quote_log fep (f_hostname folder) class_tag code
           in Some (folder', fep)) fep)
        fep)"

definition ext_oint_trade_map :: handler where
  "ext_oint_trade_map now fep port msgb class_tag =
     (let head = member EXT_HEAD 0 msgb; trade = member EXT_TRADE EXT_HEAD_SZ msgb in
      checked
        [empty_alert port msgb (head ''code'') ''code'' 0,
         empty_alert port msgb (head ''exch'') ''exch'' 0,
         exch_alert port msgb (head ''exch'') 0]
        (\<lambda>fep. let code = as_str (head ''code'') in on_folder port code (\<lambda>folder fep.
           let oint = f_oint folder;
               oint = oint\<lparr>
                 q_trdt := as_uint (trade ''trdt''), q_trtm := as_uint (trade ''trtm''),
                 q_last := as_float (trade ''last''), q_tvol := as_uint (trade ''tvol''),
                 q_open := as_float (trade ''open''), q_high := as_float (trade ''high''),
                 q_low := as_float (trade ''lowp''), q_date := as_uint (trade ''date''),
                 q_updated_at := now\<rparr>;
               folder' = folder\<lparr>f_oint := oint\<rparr>;
               fep = quote_log fep (f_hostname folder) class_tag code
           in Some (folder', fep)) fep)
        fep)"

definition ext_depth_trade_map :: handler where
  "ext_depth_trade_map now fep port msgb class_tag =
     (let head = member EXT_HEAD 0 msgb; trade = member EXT_DEPTH EXT_HEAD_SZ msgb in
      checked
        [empty_alert port msgb (head ''code'') ''code'' 0,
         empty_alert port msgb (head ''exch'') ''exch'' 0,
         exch_alert port msgb (head ''exch'') 0]
        (\<lambda>fep. let code = as_str (head ''code'') in on_folder port code (\<lambda>folder fep.
           let level = (\<lambda>ii. member ext_book (EXT_HEAD_SZ + offset_of EXT_DEPTH ''book'' + ii * sizeof ext_book) msgb);
               depth = f_depth folder;
               depth = depth\<lparr>d_dpdt := as_uint (trade ''dpdt''), d_dptm := as_uint (trade ''dptm''),
                 d_ask := fill_side level ''askp'' ''askn'' ''askq'' (d_ask depth),
                 d_bid := fill_side level ''bidp'' ''bidn'' ''bidq'' (d_bid depth)\<rparr>;
               (depth, fep) = cross_check fep port depth (r_cross_check (c_raw_data (fep_config fep)));
               folder = folder\<lparr>f_depth := depth\<lparr>d_updated_at := now\<rparr>\<rparr>
           in Some (folder, fep_push fep folder 2)) fep)
        fep)"

subsection \<open>Dispatch\<close>

definition ext_master_map :: handler where
  "ext_master_map now fep port msgb class_tag =
     (if has class_tag FUTURE then void (ext_future_master_map now fep port msgb class_tag)
      else if has class_tag OPTION then void (ext_option_master_map now fep port msgb class_tag)
      else if has class_tag SPREAD then void (ext_spread_master_map now fep port msgb class_tag)
      else Some (0, fep))"

definition ext_trade_map :: handler where
  "ext_trade_map now fep port msgb class_tag =
     (if has class_tag QUOTE then void (ext_quote_trade_map now fep port msgb class_tag)
      else if has class_tag SETTLE then void (ext_settle_trade_map now fep port msgb class_tag)
      else if has class_tag OINT then void (ext_oint_trade_map now fep port msgb class_tag)
      else if has class_tag DEPTH then void (ext_depth_trade_map now fep port msgb class_tag)
      else Some (0, fep))"

definition ext_map :: handler where
  "ext_map now fep port msgb class_tag =
     (if has class_tag MASTER then void (ext_master_map now fep port msgb class_tag)
      else if has class_tag TRADE then
        (if a_mstr_flag (fep_arch fep) = 0 then void (ext_trade_map now fep port msgb class_tag)
         else Some (0, fep))
      else Some (0, fep))"

subsection \<open>Every handler keeps the contract\<close>

lemmas ext_trade_defs =
  ext_quote_trade_map_def ext_settle_trade_map_def ext_oint_trade_map_def ext_depth_trade_map_def

lemmas ext_master_defs =
  ext_future_master_map_def ext_option_master_map_def ext_spread_master_map_def

lemma ext_trades_ok:
  shows "trade_ok EXT_HEAD ext_quote_trade_map" and "trade_ok EXT_HEAD ext_settle_trade_map"
    and "trade_ok EXT_HEAD ext_oint_trade_map" and "trade_ok EXT_HEAD ext_depth_trade_map"
  unfolding trade_ok_def ext_trade_defs Let_def
  by ((intro allI impI, erule checked_on_folder [rotated -1],
      simp_all add: body_ok_def folder_key_def arrays_ok_def split_beta split: option.splits)[1])+

lemma ext_masters_ok:
  shows "master_ok ext_future_master_map" and "master_ok ext_option_master_map"
    and "master_ok ext_spread_master_map"
  unfolding master_ok_def ext_master_defs Let_def
  by ((intro allI impI, erule checked_enter_master [rotated -1], simp_all)[1])+

lemma ext_master_map_ok: "master_ok ext_master_map"
  unfolding ext_master_map_def by (intro master_ok_intros ext_masters_ok)

lemma ext_trade_map_ok: "trade_ok EXT_HEAD ext_trade_map"
  unfolding ext_trade_map_def by (intro trade_ok_intros ext_trades_ok)

lemma ext_map_ok: "master_ok ext_map"
  unfolding ext_map_def
  by (intro master_ok_void master_ok_if master_ok_skip ext_master_map_ok
      master_ok_trade [OF ext_trade_map_ok])

interpretation ext_trades: trade_handler ext_trade_map
  by (rule trade_ok_handler) (rule ext_trade_map_ok)

interpretation ext_feed: handler ext_map
  by (rule master_ok_handler) (rule ext_map_ok)

end
