(* ===== verification/MonFep.thy ===== *)
theory MonFep
  imports OldMap ExtMap RecvCheck MonLog
begin

unbundle bit_operations_syntax

text \<open>
  The message process of one exchange, \<^verbatim>\<open>src/mon/monfep.c\<close>, and the entry of the mapper,
  \<^verbatim>\<open>mon_map\<close> of \<^verbatim>\<open>src/mon/monmap.c\<close>. One thread per port receives datagrams and calls
  \<^verbatim>\<open>main_process\<close>: classify, keep the master cycle, check the reception, log, map.

  A port between two messages is its entry in the configuration of the process. The threads share
  the archive; the model lets one message be processed at a time, in any order of the ports
  (\<open>serve\<close>). The receive buffer of 16384 bytes is cleared before each datagram, so a message is the
  list of its bytes. A port with the number 64 would write behind \<^verbatim>\<open>mstr_update\<close>: \<open>None\<close>.
\<close>

subsection \<open>Operations\<close>

definition mon_map :: handler where
  "mon_map now fep port msgb class_tag =
     (if has class_tag OLD_FORMAT then void (old_map now fep port msgb class_tag)
      else if has class_tag EXT_FORMAT then void (ext_map now fep port msgb class_tag)
      else Some (0, fep))"

definition set_master_cycle :: "nat \<Rightarrow> int \<Rightarrow> int \<Rightarrow> FEP \<Rightarrow> FEP" where
  "set_master_cycle seqn update flag fep = fep\<lparr>fep_arch := (fep_arch fep)
     \<lparr>a_mstr_update := (a_mstr_update (fep_arch fep))[seqn := update], a_mstr_flag := flag\<rparr>\<rparr>"

text \<open>
  The block of \<^verbatim>\<open>main_process\<close> for master ports: the first master message switches the port's cycle
  on, the first silence after it switches it off, and the last port to switch off cleans the table.
\<close>

definition master_cycle :: "time_t \<Rightarrow> FEP \<Rightarrow> PORT \<Rightarrow> u32 \<Rightarrow> FEP option" where
  "master_cycle now fep port class_tag =
     (if strcmp (p_type port) ''M'' \<noteq> 0 then Some fep
      else if p_seqn port \<ge> MAX_PORT then None
      else
        let update = a_mstr_update (fep_arch fep) ! p_seqn port; flag = a_mstr_flag (fep_arch fep)
        in if update = 0 \<and> has class_tag MASTER then Some (set_master_cycle (p_seqn port) 1 (flag + 1) fep)
           else if update = 1 \<and> has class_tag NONE then
             let fep1 = set_master_cycle (p_seqn port) 0 flag fep
             in map_option (\<lambda>fep2. set_master_cycle (p_seqn port) 0 (flag - 1) fep2)
                  (if flag - 1 = 0 then remove_old_folder now fep1 else Some fep1)
           else Some fep)"

definition main_process :: "ENV \<Rightarrow> FEP \<Rightarrow> PORT \<Rightarrow> bytes \<Rightarrow> (int \<times> PORT \<times> FEP) option" where
  "main_process env fep port msgb =
     (let (r, class_tag) = mon_classify fep port msgb 0
      in if r = -1 then Some (0, port, fep)
         else case master_cycle (e_now env) fep port class_tag of
           None \<Rightarrow> None
         | Some fep1 \<Rightarrow>
        (case mon_recv_check env fep1 port class_tag of
           None \<Rightarrow> None
         | Some (r, port2, fep2) \<Rightarrow>
             if r = -1 then Some (-1, port2, fep2)
             else if has class_tag NONE then Some (0, port2, fep2)
             else case mon_log env fep2 port2 msgb class_tag of
               None \<Rightarrow> None
             | Some (r, fep3) \<Rightarrow>
                 if r = -1 then Some (-1, port2, fep3)
                 else case mon_map (e_now env) fep3 port2 msgb class_tag of
                   None \<Rightarrow> None
                 | Some (r, fep4) \<Rightarrow>
                     if r = -1 then Some (-1, port2, fep4) else Some (0, port2, fep4)))"

definition MSGBUFF :: nat where
  "MSGBUFF = 1024 * 16"

text \<open>What \<^verbatim>\<open>recv_to_fep\<close> does before its loop, and one round of the loop for the port \<open>ii\<close>.\<close>

definition recv_start :: "FEP \<Rightarrow> PORT \<Rightarrow> FEP option" where
  "recv_start fep port =
     (if p_seqn port \<ge> MAX_PORT then None else Some (set_master_cycle (p_seqn port) 0 0 fep))"

definition port_of :: "FEP \<Rightarrow> nat \<Rightarrow> PORT" where
  "port_of fep ii = c_ports (fep_config fep) ! ii"

definition put_port :: "nat \<Rightarrow> PORT \<Rightarrow> FEP \<Rightarrow> FEP" where
  "put_port ii port fep = fep\<lparr>fep_config := (fep_config fep)
     \<lparr>c_ports := (c_ports (fep_config fep))[ii := port]\<rparr>\<rparr>"

definition recv_message :: "ENV \<Rightarrow> nat \<Rightarrow> bytes \<Rightarrow> FEP \<Rightarrow> (int \<times> FEP) option" where
  "recv_message env ii datagram fep =
     map_option (\<lambda>(r, port, fep'). (r, put_port ii port fep'))
       (main_process env fep (port_of fep ii) (take MSGBUFF datagram))"

text \<open>
  One message after another. A datagram for a port whose thread has ended is read by nobody; a
  message that makes \<^verbatim>\<open>main_process\<close> answer \<open>-1\<close> ends the thread of its port.
\<close>

fun serve :: "(ENV \<times> nat \<times> bytes) list \<Rightarrow> nat list \<Rightarrow> FEP \<Rightarrow> (nat list \<times> FEP) option" where
  "serve [] threads fep = Some (threads, fep)"
| "serve ((env, ii, datagram) # ms) threads fep =
     (if ii \<notin> set threads then serve ms threads fep
      else case recv_message env ii datagram fep of
        None \<Rightarrow> None
      | Some (r, fep') \<Rightarrow> serve ms (if r = -1 then removeAll ii threads else threads) fep')"

subsection \<open>The mapper keeps the contract of its handlers\<close>

lemma mon_map_ok: "master_ok mon_map"
  unfolding mon_map_def by (intro master_ok_intros old_map_ok ext_map_ok)

interpretation mapper: handler mon_map
  by (rule master_ok_handler) (rule mon_map_ok)

subsection \<open>The master cycle\<close>

text \<open>The flag counts the ports whose cycle is on.\<close>

definition cycle_ok :: "FEP \<Rightarrow> bool" where
  "cycle_ok fep \<longleftrightarrow> length (a_mstr_update (fep_arch fep)) = MAX_PORT \<and>
     set (a_mstr_update (fep_arch fep)) \<subseteq> {0, 1} \<and>
     a_mstr_flag (fep_arch fep) = sum_list (a_mstr_update (fep_arch fep))"

lemma sum_list_update_int:
  "i < length xs \<Longrightarrow> sum_list (xs[i := (x :: int)]) = sum_list xs - xs ! i + x"
proof (induction xs arbitrary: i)
  case (Cons a xs)
  then show ?case by (cases i) simp_all
qed simp

lemma set_master_cycle_frame [simp, frame]:
  "fep_fold (set_master_cycle n u f fep) = fep_fold fep" "vrec (set_master_cycle n u f fep) = vrec fep"
  "mrec (set_master_cycle n u f fep) = mrec fep"
  "fep_attached (set_master_cycle n u f fep) = fep_attached fep"
  "fep_config (set_master_cycle n u f fep) = fep_config fep"
  "a_mstr_update (fep_arch (set_master_cycle n u f fep)) = (a_mstr_update (fep_arch fep))[n := u]"
  "a_mstr_flag (fep_arch (set_master_cycle n u f fep)) = f"
  "table_ok (set_master_cycle n u f fep) = table_ok fep"
  "live (set_master_cycle n u f fep) = live fep"
  "folder_map (set_master_cycle n u f fep) = folder_map fep"
  by (simp_all add: set_master_cycle_def table_ok_def live_def folder_map_def)

lemma delfolder_same_but: "delfolder fep i = Some fep' \<Longrightarrow> same_but fep fep'"
  by (auto simp: delfolder_def Let_def same_but_def split: if_splits)

lemma remove_old_from_same_but: "remove_old_from now ii fep = Some fep' \<Longrightarrow> same_but fep fep'"
proof (induction now ii fep rule: remove_old_from.induct)
  case (1 now ii fep)
  show ?case
  proof (cases "ii < vrec fep")
    case False
    with "1.prems" show ?thesis by (simp add: remove_old_from.simps [of now ii fep])
  next
    case lt: True
    show ?thesis
    proof (cases "is_old now (fep_fold fep ! ii)")
      case False
      with "1.prems" lt have "remove_old_from now (Suc ii) fep = Some fep'"
        by (subst (asm) remove_old_from.simps) simp
      from "1.IH"(2) [OF lt False this] show ?thesis .
    next
      case True
      with "1.prems" lt obtain fep1 where del: "delfolder fep ii = Some fep1"
        and rest: "remove_old_from now (Suc ii) fep1 = Some fep'"
        by (subst (asm) remove_old_from.simps) (auto split: option.splits)
      from "1.IH"(1) [OF lt True del rest] delfolder_same_but [OF del] show ?thesis
        by (blast intro: same_but_trans)
    qed
  qed
qed

lemma same_but_cycle:
  "same_but fep fep' \<Longrightarrow> a_mstr_update (fep_arch fep') = a_mstr_update (fep_arch fep) \<and>
    a_mstr_flag (fep_arch fep') = a_mstr_flag (fep_arch fep) \<and> mrec fep' = mrec fep \<and>
    fep_config fep' = fep_config fep"
  by (auto simp: same_but_def)

lemma master_cycle_keeps:
  assumes ok: "table_ok fep" and run: "master_cycle now fep port tag = Some fep'"
  shows "table_ok fep' \<and> mrec fep' = mrec fep \<and> fep_config fep' = fep_config fep \<and>
    set (live fep') \<subseteq> set (live fep)"
proof (cases "p_type port = ''M'' \<and> a_mstr_update (fep_arch fep) ! p_seqn port = 1 \<and> has tag NONE \<and>
    a_mstr_flag (fep_arch fep) - 1 = 0")
  case True
  let ?fep1 = "set_master_cycle (p_seqn port) 0 (a_mstr_flag (fep_arch fep)) fep"
  from True run obtain fep2 where rem: "remove_old_folder now ?fep1 = Some fep2"
    and fep': "fep' = set_master_cycle (p_seqn port) 0 (a_mstr_flag (fep_arch fep) - 1) fep2"
    by (auto simp: master_cycle_def Let_def split: if_splits)
  have "table_ok ?fep1" using ok by simp
  from remove_old_folder_sweep [OF this rem] remove_old_from_same_but [of now 0 ?fep1 fep2] rem
    set_sweep_le [of "is_old now" "live fep"]
  show ?thesis by (simp add: fep' remove_old_folder_def same_but_cycle [of ?fep1 fep2])
next
  case False
  with run ok show ?thesis by (auto simp: master_cycle_def Let_def split: if_splits)
qed

lemma master_cycle_ok [inv_pres]:
  assumes cyc: "cycle_ok fep" and run: "master_cycle now fep port tag = Some fep'"
  shows "cycle_ok fep'"
proof (cases "p_type port = ''M''")
  case False
  with run cyc show ?thesis by (simp add: master_cycle_def)
next
  case True
  let ?n = "p_seqn port" and ?u = "a_mstr_update (fep_arch fep)" and ?f = "a_mstr_flag (fep_arch fep)"
  have upd: "cycle_ok (set_master_cycle ?n x (?f - ?u ! ?n + x) g)"
    if "x \<in> {0, 1}" "?n < MAX_PORT" "a_mstr_update (fep_arch g) = ?u \<or> a_mstr_update (fep_arch g) = ?u[?n := x]" for x g
    using cyc that set_update_subset_insert [of ?u ?n x]
    by (auto simp: cycle_ok_def sum_list_update_int)
  from run True have n: "?n < MAX_PORT" by (auto simp: master_cycle_def split: if_splits)
  show ?thesis
  proof (cases "?u ! ?n = 0 \<and> has tag MASTER")
    case on: True
    with run True n have "fep' = set_master_cycle ?n 1 (?f + 1) fep"
      by (simp add: master_cycle_def Let_def)
    with upd [of 1 fep] n on show ?thesis by simp
  next
    case not_on: False
    show ?thesis
    proof (cases "?u ! ?n = 1 \<and> has tag NONE")
      case off: True
      let ?fep1 = "set_master_cycle ?n 0 ?f fep"
      from run True n not_on off have "map_option (set_master_cycle ?n 0 (?f - 1))
          (if ?f - 1 = 0 then remove_old_folder now ?fep1 else Some ?fep1) = Some fep'"
        by (simp add: master_cycle_def Let_def)
      then obtain fep2 where
        two: "(if ?f - 1 = 0 then remove_old_folder now ?fep1 else Some ?fep1) = Some fep2"
        and fep': "fep' = set_master_cycle ?n 0 (?f - 1) fep2" by blast
      have "same_but ?fep1 fep2"
        using two remove_old_from_same_but [of now 0 ?fep1 fep2]
        by (cases "?f - 1 = 0") (simp_all add: remove_old_folder_def)
      then have "a_mstr_update (fep_arch fep2) = ?u[?n := 0]"
        using same_but_cycle [of ?fep1 fep2] by simp
      with upd [of 0 fep2] n off fep' show ?thesis by simp
    next
      case False
      with not_on run True n have "fep' = fep" by (auto simp: master_cycle_def Let_def)
      with cyc show ?thesis by simp
    qed
  qed
qed

subsection \<open>One message\<close>

lemma cycle_ok_frame:
  "a_mstr_update (fep_arch fep') = a_mstr_update (fep_arch fep) \<Longrightarrow>
   a_mstr_flag (fep_arch fep') = a_mstr_flag (fep_arch fep) \<Longrightarrow> cycle_ok fep' = cycle_ok fep"
  by (simp add: cycle_ok_def)

lemma mon_map_step:
  "table_ok fep \<Longrightarrow> mon_map now fep port msgb tag = Some (r, fep') \<Longrightarrow> table_step (p_host port) fep fep'"
  using mon_map_ok by (simp add: master_ok_def)

lemma quiet_cycle: "quiet fep fep' \<Longrightarrow> cycle_ok fep' = cycle_ok fep"
  by (rule cycle_ok_frame) (simp_all add: quietD)

text \<open>The stages of \<open>main_process\<close>, for a message that gets past the classification.\<close>

lemma main_process_stages:
  assumes "main_process env fep port msgb = Some (r, port', fep')"
  obtains (refused) "fst (mon_classify fep port msgb 0) = -1" "port' = port" "fep' = fep"
  | (stages) tag fep1 r2 fep2 where "mon_classify fep port msgb 0 = (0, tag)"
      "master_cycle (e_now env) fep port tag = Some fep1"
      "mon_recv_check env fep1 port tag = Some (r2, port', fep2)"
      "fep' = fep2 \<or> (\<not> has tag NONE \<and> (\<exists>r3 fep3. mon_log env fep2 port' msgb tag = Some (r3, fep3) \<and>
         (fep' = fep3 \<or> (\<exists>r4. mon_map (e_now env) fep3 port' msgb tag = Some (r4, fep')))))"
proof -
  obtain c tag where cl: "mon_classify fep port msgb 0 = (c, tag)" by fastforce
  have "c = 0 \<or> c = -1"
    using cl by (auto simp: mon_classify_eq old_master_class_def old_trade_class_eq Let_def
        split: if_splits option.splits)
  then show thesis
  proof
    assume "c = -1"
    with assms cl show thesis by (intro refused) (simp_all add: main_process_def)
  next
    assume c: "c = 0"
    with assms cl obtain fep1 where cyc: "master_cycle (e_now env) fep port tag = Some fep1"
      by (auto simp: main_process_def split: option.splits)
    with assms cl c obtain r2 port2 fep2 where chk: "mon_recv_check env fep1 port tag = Some (r2, port2, fep2)"
      by (auto simp: main_process_def split: option.splits)
    from assms cl c cyc chk have "port' = port2" and "fep' = fep2 \<or> (\<not> has tag NONE \<and>
        (\<exists>r3 fep3. mon_log env fep2 port2 msgb tag = Some (r3, fep3) \<and>
          (fep' = fep3 \<or> (\<exists>r4. mon_map (e_now env) fep3 port2 msgb tag = Some (r4, fep')))))"
      by (auto simp: main_process_def split: option.splits if_splits)
    with cl c cyc chk show thesis by (intro stages) simp_all
  qed
qed

lemma main_process_keeps:
  assumes ok: "table_ok fep" and run: "main_process env fep port msgb = Some (r, port', fep')"
  shows "table_ok fep' \<and> (cycle_ok fep \<longrightarrow> cycle_ok fep') \<and> mrec fep' = mrec fep \<and>
    fep_config fep' = fep_config fep \<and> port_config port' = port_config port \<and>
    (port_ok port \<longrightarrow> port_ok port')"
  using run
proof (cases rule: main_process_stages)
  case refused
  with ok show ?thesis by simp
next
  case (stages tag fep1 r2 fep2)
  note cyc = master_cycle_keeps [OF ok stages(2)]
  from mon_recv_check_static [OF stages(3)] have st: "fep_static fep2 = fep_static fep1"
    and port: "port_config port' = port_config port" by auto
  note two = static_table [OF st]
  have keep: "table_ok g \<and> (cycle_ok fep \<longrightarrow> cycle_ok g) \<and> mrec g = mrec fep \<and> fep_config g = fep_config fep"
    if "quiet fep2 g" for g
  proof -
    have "cycle_ok fep2 = cycle_ok fep1" by (rule cycle_ok_frame) (simp_all only: two)
    moreover have "cycle_ok fep \<longrightarrow> cycle_ok fep1" using master_cycle_ok [OF _ stages(2)] by blast
    ultimately show ?thesis
      using that cyc two quiet_table [OF that] quiet_cycle [OF that] quietD [OF that] by metis
  qed
  have step: "table_ok h \<and> (cycle_ok g \<longrightarrow> cycle_ok h) \<and> mrec h = mrec g \<and> fep_config h = fep_config g"
    if "table_ok g" "mon_map (e_now env) g port' msgb tag = Some (r4, h)" for g h r4
    using mon_map_step [OF that] same_but_cycle [of g h] cycle_ok_frame [of h g]
    by (simp add: table_step_def)
  from stages(4) have "table_ok fep' \<and> (cycle_ok fep \<longrightarrow> cycle_ok fep') \<and> mrec fep' = mrec fep \<and>
      fep_config fep' = fep_config fep"
  proof
    assume "fep' = fep2"
    with keep [of fep2] show ?thesis by simp
  next
    assume "\<not> has tag NONE \<and> (\<exists>r3 fep3. mon_log env fep2 port' msgb tag = Some (r3, fep3) \<and>
         (fep' = fep3 \<or> (\<exists>r4. mon_map (e_now env) fep3 port' msgb tag = Some (r4, fep'))))"
    then obtain r3 fep3 where log: "mon_log env fep2 port' msgb tag = Some (r3, fep3)"
      and fin: "fep' = fep3 \<or> (\<exists>r4. mon_map (e_now env) fep3 port' msgb tag = Some (r4, fep'))" by blast
    note three = keep [OF mon_log_quiet [OF log]]
    from fin show ?thesis
    proof
      assume "fep' = fep3"
      with three show ?thesis by simp
    next
      assume "\<exists>r4. mon_map (e_now env) fep3 port' msgb tag = Some (r4, fep')"
      with three step [of fep3 _ fep'] show ?thesis by auto
    qed
  qed
  with port mon_recv_check_ok [OF _ stages(3)] show ?thesis by blast
qed

lemma put_port_frame [simp]:
  "fep_arch (put_port i p fep) = fep_arch fep" "fep_fold (put_port i p fep) = fep_fold fep"
  "fep_attached (put_port i p fep) = fep_attached fep"
  "c_ports (fep_config (put_port i p fep)) = (c_ports (fep_config fep))[i := p]"
  by (simp_all add: put_port_def)

lemma put_port_table [simp]:
  "table_ok (put_port i p fep) = table_ok fep" "cycle_ok (put_port i p fep) = cycle_ok fep"
  "folder_map (put_port i p fep) = folder_map fep"
  by (simp_all add: table_ok_def live_def cycle_ok_def folder_map_def)

text \<open>What holds between two messages.\<close>

definition process_ok :: "FEP \<Rightarrow> bool" where
  "process_ok fep \<longleftrightarrow> table_ok fep \<and> cycle_ok fep \<and> (\<forall>p\<in>set (c_ports (fep_config fep)). port_ok p)"

subsection \<open>Admitted messages\<close>

text \<open>
  The messages the process handles without undefined behaviour: refused ones, the silence, and data
  of the OLD feed with room in the alert buffers that is not a closing price and whose settlement row
  has a name; the port has a place in \<^verbatim>\<open>mstr_update\<close> and the holiday file is not empty.
\<close>

definition data_fits :: "FEP \<Rightarrow> PORT \<Rightarrow> bytes \<Rightarrow> bool" where
  "data_fits fep port msgb \<longleftrightarrow> p_format port = ''OLD'' \<and> alert_room fep port msgb \<and>
     (p_type port = ''T'' \<longrightarrow>
        cstr (slice msgb 0 OLD_TRXC_SIZE) \<noteq> ''T41'' \<and>
        (cstr (slice msgb 0 OLD_TRXC_SIZE) = ''T40'' \<longrightarrow> is_lme fep \<or>
           settle_index (cstr_at msgb (MD_HEAD_SZ + offset_of MD_TRADE ''stat'')) \<noteq> None))"

definition admitted :: "FEP \<Rightarrow> ENV \<Rightarrow> PORT \<Rightarrow> bytes \<Rightarrow> bool" where
  "admitted fep env port msgb \<longleftrightarrow> p_seqn port < MAX_PORT \<and>
     (\<forall>wday. e_holiday env (drop 1 (fep_exnm fep)) wday \<noteq> EmptyFile) \<and>
     (fst (mon_classify fep port msgb 0) = -1 \<or> cstr msgb = NOT_RECEIVED \<or> data_fits fep port msgb)"

lemma classified_data:
  assumes cl: "mon_classify fep port msgb 0 = (0, tag)" and fits: "data_fits fep port msgb"
  shows "settle_named msgb tag" and "data_type tag \<noteq> None"
proof -
  from fits have old: "p_format port = ''OLD''" by (simp add: data_fits_def)
  show "data_type tag \<noteq> None"
    using unlogged_classes [OF cl] fits by (auto simp: data_fits_def)
  show "settle_named msgb tag"
  proof (cases "p_type port = ''T''")
    case True
    from cl classify_trade_port [OF old True] obtain flag where
      flag: "trxc_class (is_lme fep) (cstr (slice msgb 0 OLD_TRXC_SIZE)) = Some flag"
      and tag: "tag = base_tag fep msgb OR OLD_FORMAT OR TRADE OR flag"
      by (auto split: option.splits)
    have kind: "flag \<in> set trade_kinds" by (rule trxc_class_kind [OF flag])
    note has = trade_tag_has(1,5) [OF kind, of _ fep msgb, folded tag]
    have "SETTLE \<in> set trade_kinds" by (simp add: trade_kinds_def)
    moreover have "flag = SETTLE \<Longrightarrow> cstr (slice msgb 0 OLD_TRXC_SIZE) = ''T40''"
      using flag by (auto simp: trxc_class_def class_flags split: if_splits)
    ultimately show ?thesis using has kind fits True by (auto simp: settle_named_def data_fits_def)
  next
    case False
    with cl old have "old_master_class fep (base_tag fep msgb OR OLD_FORMAT OR MASTER) = (0, tag)"
      by (simp add: mon_classify_eq split: if_splits)
    moreover have "\<not> has (base_tag fep msgb) SETTLE" "\<not> has OLD_FORMAT SETTLE" "\<not> has MASTER SETTLE"
      "\<not> has FUTURE SETTLE" "\<not> has OPTION SETTLE" "\<not> has SPREAD SETTLE" "\<not> has STOCK SETTLE"
      "\<not> has WAREHOUSE SETTLE"
      by (auto simp: base_tag_def) (simp_all add: has_flag)
    ultimately have "\<not> has tag SETTLE"
      by (auto simp: old_master_class_def Let_def split: if_splits)
    then show ?thesis by (simp add: settle_named_def)
  qed
qed

lemma master_cycle_defined:
  assumes "table_ok fep" "vrec fep \<le> 128" "p_seqn port < MAX_PORT"
  shows "master_cycle now fep port tag \<noteq> None"
proof -
  have "remove_old_folder now (set_master_cycle n u f fep) \<noteq> None" for n u f
    using assms by (intro remove_old_folder_defined) simp_all
  then show ?thesis using assms(3) by (simp add: master_cycle_def Let_def)
qed

lemma set_master_cycle_exnm [simp]: "fep_exnm (set_master_cycle n u f fep) = fep_exnm fep"
  by (simp add: set_master_cycle_def)

lemma remove_old_folder_exnm: "remove_old_folder now fep = Some fep' \<Longrightarrow> fep_exnm fep' = fep_exnm fep"
  using remove_old_from_same_but [of now 0 fep fep'] by (simp add: remove_old_folder_def same_but_def)

lemma master_cycle_exnm:
  "master_cycle now fep port tag = Some fep' \<Longrightarrow> fep_exnm fep' = fep_exnm fep"
  by (auto simp: master_cycle_def Let_def split: if_splits dest: remove_old_folder_exnm)

lemma main_process_exnm:
  assumes ok: "table_ok fep" and run: "main_process env fep port msgb = Some (r, port', fep')"
  shows "fep_exnm fep' = fep_exnm fep"
  using run
proof (cases rule: main_process_stages)
  case refused
  then show ?thesis by simp
next
  case (stages tag fep1 r2 fep2)
  from mon_recv_check_static [OF stages(3)] have st: "fep_static fep2 = fep_static fep1" by simp
  have two: "fep_exnm fep2 = fep_exnm fep" "table_ok fep2"
    using static_exnm [OF st] master_cycle_exnm [OF stages(2)] static_table(1) [OF st]
      master_cycle_keeps [OF ok stages(2)] by simp_all
  have log: "fep_exnm g = fep_exnm fep \<and> table_ok g"
    if "mon_log env fep2 port' msgb tag = Some (x, g)" for x g
    using quietD(4) [OF mon_log_quiet [OF that]] quiet_table(1) [OF mon_log_quiet [OF that]] two by simp
  have map: "fep_exnm h = fep_exnm g"
    if "table_ok g" "mon_map (e_now env) g port' msgb tag = Some (x, h)" for x g h
    using mon_map_step [OF that] by (simp add: table_step_def same_but_def)
  from stages(4) show ?thesis by (metis two(1) log map)
qed

lemma alert_room_config:
  "port_config port' = port_config port \<Longrightarrow> fep_exnm fep' = fep_exnm fep \<Longrightarrow>
   alert_room fep' port' msgb = alert_room fep port msgb"
  by (cases port; cases port') (simp add: alert_room_def port_config_def)

lemma admitted_config:
  "port_config port' = port_config port \<Longrightarrow> fep_exnm fep' = fep_exnm fep \<Longrightarrow>
   c_settings (fep_config fep') = c_settings (fep_config fep) \<Longrightarrow>
   admitted fep' env port' msgb = admitted fep env port msgb"
  using alert_room_config [of port' port fep' fep msgb]
  by (cases port; cases port')
    (simp add: admitted_def data_fits_def mon_classify_def old_master_class_def old_trade_class_def is_lme_def
      port_config_def Let_def)

lemma main_process_defined:
  assumes ok: "table_ok fep" "vrec fep \<le> 128" and adm: "admitted fep env port msgb"
  shows "main_process env fep port msgb \<noteq> None"
proof -
  obtain c tag where cl: "mon_classify fep port msgb 0 = (c, tag)" by fastforce
  from master_cycle_defined [OF ok] adm obtain fep1 where
    cyc: "master_cycle (e_now env) fep port tag = Some fep1" by (force simp: admitted_def)
  have exnm: "fep_exnm fep1 = fep_exnm fep" by (rule master_cycle_exnm [OF cyc])
  have "e_holiday env (drop 1 (fep_exnm fep1)) wday \<noteq> EmptyFile" for wday
    using adm exnm by (simp add: admitted_def)
  from recv_check_defined [OF this] obtain r2 port2 fep2 where
    chk: "mon_recv_check env fep1 port tag = Some (r2, port2, fep2)" by fastforce
  show ?thesis
  proof (cases "c = -1 \<or> r2 = -1 \<or> has tag NONE")
    case True
    with cl cyc chk show ?thesis by (auto simp: main_process_def)
  next
    case False
    then have c: "c = 0"
      using cl by (auto simp: mon_classify_eq old_master_class_def old_trade_class_eq Let_def
        split: if_splits option.splits)
    have "cstr msgb \<noteq> NOT_RECEIVED"
    proof
      assume "cstr msgb = NOT_RECEIVED"
      with cl c have "has tag NONE"
        by (auto simp: mon_classify_eq old_master_class_def old_trade_class_eq Let_def
          split: if_splits option.splits)
      with False show False by simp
    qed
    with adm cl c have fits: "data_fits fep port msgb" by (simp add: admitted_def)
    note data = classified_data [OF cl [unfolded c] fits]
    have "e_tm env \<noteq> None" using check_without_time [OF _ chk] False by blast
    from mon_log_defined [OF data(2) this] obtain r3 fep3 where
      log: "mon_log env fep2 port2 msgb tag = Some (r3, fep3)" by fastforce
    from mon_recv_check_static [OF chk] have st: "fep_static fep2 = fep_static fep1"
      and port: "port_config port2 = port_config port" by auto
    have "fep_exnm fep3 = fep_exnm fep"
      using quietD(4) [OF mon_log_quiet [OF log]] static_exnm [OF st] exnm by simp
    from alert_room_config [OF port this] fits have "alert_room fep3 port2 msgb"
      by (simp add: data_fits_def)
    with old_map_total data(1) have "old_map (e_now env) fep3 port2 msgb tag \<noteq> None"
      by (simp add: handler_total_def)
    moreover have "has OLD_FORMAT OLD_FORMAT" by (simp add: has_flag)
    then have "has tag OLD_FORMAT"
      using fits cl c
      by (auto simp: mon_classify_eq old_master_class_def old_trade_class_eq Let_def data_fits_def
        split: if_splits option.splits)
    ultimately have "mon_map (e_now env) fep3 port2 msgb tag \<noteq> None"
      by (auto simp: mon_map_def void_def)
    with cl c cyc chk False log show ?thesis by (auto simp: main_process_def)
  qed
qed

definition admitted_at :: "FEP \<Rightarrow> ENV \<times> nat \<times> bytes \<Rightarrow> bool" where
  "admitted_at fep m = (case m of (env, ii, datagram) \<Rightarrow>
     ii < length (c_ports (fep_config fep)) \<longrightarrow> admitted fep env (port_of fep ii) (take MSGBUFF datagram))"

lemma recv_message_safe:
  assumes ok: "process_ok fep" "mrec fep \<le> 128" and ii: "ii < length (c_ports (fep_config fep))"
    and adm: "admitted fep env (port_of fep ii) (take MSGBUFF datagram)"
  shows "\<exists>r fep'. recv_message env ii datagram fep = Some (r, fep') \<and> process_ok fep' \<and>
    mrec fep' = mrec fep \<and> map port_config (c_ports (fep_config fep')) = map port_config (c_ports (fep_config fep)) \<and>
    (\<forall>m. admitted_at fep' m = admitted_at fep m)"
proof -
  have t: "table_ok fep" and v: "vrec fep \<le> 128"
    using ok by (auto simp: process_ok_def dest: table_okD(3))
  from main_process_defined [OF t v adm] obtain r port' fep1 where
    run: "main_process env fep (port_of fep ii) (take MSGBUFF datagram) = Some (r, port', fep1)" by fastforce
  have pok: "port_ok (port_of fep ii)" using ok(1) ii by (simp add: process_ok_def port_of_def)
  note keeps = main_process_keeps [OF t run] and exnm = main_process_exnm [OF t run]
  let ?fep' = "put_port ii port' fep1"
  have rm: "recv_message env ii datagram fep = Some (r, ?fep')" by (simp add: recv_message_def run)
  have "set ((c_ports (fep_config fep))[ii := port']) \<subseteq> insert port' (set (c_ports (fep_config fep)))"
    by (rule set_update_subset_insert)
  with keeps ok(1) pok have pr: "process_ok ?fep'" by (auto simp: process_ok_def)
  have "port_config port' = map port_config (c_ports (fep_config fep)) ! ii"
    using keeps ii by (simp add: port_of_def)
  then have cfg: "map port_config (c_ports (fep_config ?fep')) = map port_config (c_ports (fep_config fep))"
    using keeps ii by (simp add: map_update list_update_same_conv)
  have len: "length (c_ports (fep_config ?fep')) = length (c_ports (fep_config fep))"
    using keeps by simp
  have "fep_exnm ?fep' = fep_exnm fep" "c_settings (fep_config ?fep') = c_settings (fep_config fep)"
    using keeps exnm by (simp_all add: put_port_def)
  moreover have "port_config (port_of ?fep' j) = port_config (port_of fep j)"
    if "j < length (c_ports (fep_config fep))" for j
    using arg_cong [OF cfg, of "\<lambda>xs. xs ! j"] that len by (simp add: port_of_def)
  ultimately have "admitted_at ?fep' m = admitted_at fep m" for m
    using admitted_config [of "port_of ?fep' j" "port_of fep j" ?fep' fep for j] len
    by (cases m) (auto simp: admitted_at_def)
  with rm pr keeps cfg show ?thesis by auto
qed

lemma serve_safe:
  assumes "process_ok fep" "mrec fep \<le> 128"
    and "\<forall>ii\<in>set threads. ii < length (c_ports (fep_config fep))"
    and "\<forall>m\<in>set ms. admitted_at fep m"
  shows "\<exists>threads' fep'. serve ms threads fep = Some (threads', fep') \<and> set threads' \<subseteq> set threads \<and>
    process_ok fep' \<and> mrec fep' = mrec fep \<and>
    map port_config (c_ports (fep_config fep')) = map port_config (c_ports (fep_config fep))"
  using assms
proof (induction ms arbitrary: threads fep)
  case (Cons m ms)
  obtain env ii datagram where m: "m = (env, ii, datagram)" by (cases m)
  show ?case
  proof (cases "ii \<in> set threads")
    case False
    with Cons m show ?thesis by simp
  next
    case True
    with Cons.prems m have "ii < length (c_ports (fep_config fep))"
      "admitted fep env (port_of fep ii) (take MSGBUFF datagram)" by (auto simp: admitted_at_def)
    from recv_message_safe [OF Cons.prems(1,2) this] obtain r fep1 where
      run: "recv_message env ii datagram fep = Some (r, fep1)" and ok1: "process_ok fep1"
      and mrec: "mrec fep1 = mrec fep"
      and cfg: "map port_config (c_ports (fep_config fep1)) = map port_config (c_ports (fep_config fep))"
      and adm: "\<And>m. admitted_at fep1 m = admitted_at fep m" by blast
    let ?threads = "if r = -1 then removeAll ii threads else threads"
    have "length (c_ports (fep_config fep1)) = length (c_ports (fep_config fep))"
      using arg_cong [OF cfg, of length] by simp
    with Cons.prems(3) have th: "\<forall>ii\<in>set ?threads. ii < length (c_ports (fep_config fep1))" by auto
    have sub: "set ?threads \<subseteq> set threads" by auto
    from Cons.IH [OF ok1 _ th] Cons.prems(2,4) mrec adm obtain threads' fep' where
      "serve ms ?threads fep1 = Some (threads', fep')" "set threads' \<subseteq> set ?threads"
      "process_ok fep'" "mrec fep' = mrec fep1"
      "map port_config (c_ports (fep_config fep')) = map port_config (c_ports (fep_config fep1))"
      by fastforce
    with sub mrec cfg run True m show ?thesis by auto
  qed
qed simp

subsection \<open>Properties\<close>


lemma silence_text: "cstr NOT_RECEIVED = NOT_RECEIVED"
  by (simp add: NOT_RECEIVED_def)

definition demo_process :: FEP where
  "demo_process = (fep0 4)\<lparr>fep_config := config0\<lparr>c_ports := [watched]\<rparr>\<rparr>"

lemma demo_process_ok: "process_ok demo_process"
proof -
  have "table_ok demo_process = table_ok (fep0 4)"
    by (rule table_ok_frame) (simp_all add: demo_process_def)
  moreover have "sum_list (replicate n 0) = (0::int)" for n by (induction n) simp_all
  then have "cycle_ok demo_process"
    by (simp add: cycle_ok_def demo_process_def fep0_def arch0_def set_replicate_conv_if)
  moreover have "port_ok watched"
    by (simp add: port_ok_def watched_def port0_def recv_flags MAX_ALERT_def)
  ultimately show ?thesis
    by (simp add: process_ok_def table_ok_cleared) (simp add: demo_process_def)
qed

definition quoting :: FEP where
  "quoting = (entered 0 4 [''6AH4'', ''6BH4''])\<lparr>fep_config := config0\<lparr>c_ports := [watched]\<rparr>\<rparr>"

lemma arch_quoting: "a_mstr_update (fep_arch (entered 0 n ss)) = a_mstr_update (fep_arch (fep0 n)) \<and>
   a_mstr_flag (fep_arch (entered 0 n ss)) = a_mstr_flag (fep_arch (fep0 n)) \<and>
   fep_config (entered 0 n ss) = config0 \<and> mrec (entered 0 n ss) = n"
proof -
  have "same_but fep (foldl (\<lambda>fep s. snd (newfolder 0 fep s ''H1'')) fep ss)" for fep
  proof (induction ss arbitrary: fep)
    case (Cons s ss)
    from same_but_trans [OF newfolder_same_but Cons.IH] show ?case by simp
  qed simp
  from same_but_cycle [OF this [of "fep0 n"]] show ?thesis
    by (simp add: entered_def fep0_def arch0_def)
qed

lemma quoting_ok: "process_ok quoting" "mrec quoting = 4"
proof -
  have "table_ok quoting = table_ok demo_table"
    by (rule table_ok_frame) (simp_all add: quoting_def)
  moreover have "sum_list (replicate n 0) = (0::int)" for n by (induction n) simp_all
  then have "cycle_ok quoting"
    using arch_quoting [of 4 "[''6AH4'', ''6BH4'']"]
    by (simp add: cycle_ok_def quoting_def fep0_def arch0_def set_replicate_conv_if)
  moreover have "port_ok watched"
    by (simp add: port_ok_def watched_def port0_def recv_flags MAX_ALERT_def)
  ultimately show "process_ok quoting"
    using demo_table_ok by (simp add: process_ok_def) (simp add: quoting_def)
  show "mrec quoting = 4" using arch_quoting [of 4 "[''6AH4'', ''6BH4'']"] by (simp add: quoting_def)
qed

lemma demo_trxc: "cstr (slice (demo_quote ''T21'') 0 OLD_TRXC_SIZE) = ''T21''"
proof -
  have "member MD_HEAD 0 (demo_quote ''T21'') ''trxc'' = pad 3 ''T21''"
    using member_pack0 [of "''trxc''" MD_HEAD "demo_head ''T21''" "pack MD_TRADE demo_trade"]
    by (simp add: demo_packet_def MD_HEAD_def demo_head_def)
  moreover have "offset_of MD_HEAD ''trxc'' = 0" "msize MD_HEAD ''trxc'' = 3" by (simp_all add: MD_HEAD_def)
  ultimately show ?thesis by (simp add: member_def OLD_TRXC_SIZE_def pad_def)
qed

lemma quote_admitted: "admitted_at quoting (demo_env, 0, demo_quote ''T21'')"
proof -
  have "data_fits quoting watched (demo_quote ''T21'')"
    using demo_trxc demo_quote_length [of "''T21''"] entered_exnm [of 0 4 "[''6AH4'', ''6BH4'']"]
    by (simp add: data_fits_def alert_room_def quoting_def watched_def port0_def)
  then show ?thesis
    using demo_quote_length [of "''T21''"]
    by (simp add: admitted_at_def admitted_def port_of_def MSGBUFF_def)
      (simp add: quoting_def watched_def port0_def MAX_PORT_def demo_env_def)
qed

lemma silence_admitted: "admitted_at quoting (demo_env, 0, NOT_RECEIVED)"
  by (simp add: admitted_at_def admitted_def port_of_def quoting_def watched_def port0_def MAX_PORT_def demo_env_def
    silence_text NOT_RECEIVED_def MSGBUFF_def)


text \<open>
  C10. Messages without a directory. Every data message of an EXT port, and every closing price
  (\<open>T41\<close>) of an OLD trade port, that arrives while the local time can be read is undefined: the kind
  of data has no directory name and the path is printed from an array that was never written. Were it
  to go on, the mapper would do nothing with an EXT message, whose class has neither \<open>MASTER\<close> nor
  \<open>TRADE\<close>.
\<close>

theorem unlogged_undefined:
  assumes port: "p_format port = ''EXT'' \<or>
      p_format port = ''OLD'' \<and> p_type port = ''T'' \<and> cstr (slice msgb 0 OLD_TRXC_SIZE) = ''T41''"
    and data: "cstr msgb \<noteq> NOT_RECEIVED" and tm: "e_tm env \<noteq> None"
  shows "main_process env fep port msgb = None \<and>
    (p_format port = ''EXT'' \<longrightarrow>
      (\<forall>now fep'. mon_map now fep' port msgb (snd (mon_classify fep port msgb 0)) = Some (0, fep')))"
proof (intro conjI impI allI)
  obtain tag where cl: "mon_classify fep port msgb 0 = (0, tag)" and none: "\<not> has tag NONE"
    and mstr: "\<not> has tag DEPTH"
  proof (cases "p_format port = ''EXT''")
    case True
    have "\<not> has (base_tag fep msgb) DEPTH" "\<not> has EXT_FORMAT DEPTH" "\<not> has EXT_FORMAT NONE"
      by (auto simp: base_tag_def) (simp_all add: has_flag)
    then show thesis using that True data by (simp add: mon_classify_eq)
  next
    case False
    with port have t: "p_format port = ''OLD''" "p_type port = ''T''"
      and trxc: "cstr (slice msgb 0 OLD_TRXC_SIZE) = ''T41''" by auto
    have kind: "CLOSE \<in> set trade_kinds" "DEPTH \<in> set trade_kinds" by (simp_all add: trade_kinds_def)
    have "DEPTH \<noteq> CLOSE" by (simp add: class_flags)
    then show thesis
      using that trade_tag_has(1,6) [OF kind, of fep msgb] data
      by (simp add: classify_trade_port [OF t] trxc trxc_class_def)
  qed
  have ty: "data_type tag = None" using unlogged_classes [OF cl] port by auto
  show "main_process env fep port msgb = None"
  proof (rule ccontr)
    assume "main_process env fep port msgb \<noteq> None"
    then obtain fep1 r port2 fep2 where
      chk: "mon_recv_check env fep1 port tag = Some (r, port2, fep2)"
      and fin: "r = -1 \<or> mon_log env fep2 port2 msgb tag \<noteq> None"
      using cl none by (auto simp: main_process_def split: option.splits if_splits)
    have "r \<noteq> -1" using check_answer [OF chk tm] by simp
    moreover have "mon_log env fep2 port2 msgb tag = None"
      using ty mstr by (simp add: mon_log_def mon_log_path_def)
    ultimately show False using fin by simp
  qed
  assume ext: "p_format port = ''EXT''"
  fix now fep'
  have tag: "tag = base_tag fep msgb OR EXT_FORMAT" using cl ext by (simp add: mon_classify_eq)
  have "\<not> has tag MASTER" "\<not> has tag TRADE" "\<not> has tag OLD_FORMAT"
    by (simp_all add: tag) (simp_all add: has_flag)
  then show "mon_map now fep' port msgb (snd (mon_classify fep port msgb 0)) = Some (0, fep')"
    by (simp add: cl mon_map_def ext_map_def void_def)
qed

definition ext_port :: PORT where
  "ext_port = watched\<lparr>p_format := ''EXT''\<rparr>"

theorem unlogged_undefined_witness:
  "main_process demo_env demo_process ext_port ''T21'' = None \<and>
   main_process demo_env demo_process watched demo_close = None"
proof -
  have "''T21'' \<noteq> NOT_RECEIVED" "demo_close \<noteq> NOT_RECEIVED" "cstr demo_close = demo_close"
    by (simp_all add: NOT_RECEIVED_def demo_close_def cstr_id)
  moreover have "cstr (slice demo_close 0 OLD_TRXC_SIZE) = ''T41''"
    by (simp add: demo_close_def slice_eq OLD_TRXC_SIZE_def)
  moreover have "e_tm demo_env \<noteq> None" by (simp add: demo_env_def)
  ultimately show ?thesis
    using unlogged_undefined [of ext_port "''T21''" demo_env demo_process]
      unlogged_undefined [of watched demo_close demo_env demo_process]
    by (simp add: ext_port_def watched_def port0_def)
qed

lemma silence_runs:
  assumes "mon_classify fep port msgb 0 = (0, tag)" and "has tag NONE"
    and "master_cycle 100 fep port tag = Some fep1"
  shows "\<exists>r port' fep'. main_process demo_env fep port msgb = Some (r, port', fep')"
proof -
  have "mon_recv_check demo_env fep1 port tag \<noteq> None"
    using assms(2) by (simp add: mon_recv_check_def demo_env_def fep_holiday_def not_received_def Let_def)
  then obtain r port' fep' where "mon_recv_check demo_env fep1 port tag = Some (r, port', fep')"
    by (cases "mon_recv_check demo_env fep1 port tag") auto
  with assms have "main_process demo_env fep port msgb = Some (if r = -1 then -1 else 0, port', fep')"
    by (simp add: main_process_def) (simp add: demo_env_def)
  then show ?thesis by blast
qed

text \<open>Behind the cycle block nothing writes the flag.\<close>

lemma main_process_cycle:
  assumes ok: "table_ok fep" and cl: "mon_classify fep port msgb 0 = (0, tag)"
    and run: "main_process env fep port msgb = Some (r, port', fep')"
  shows "\<exists>fep1. master_cycle (e_now env) fep port tag = Some fep1 \<and>
    a_mstr_flag (fep_arch fep') = a_mstr_flag (fep_arch fep1) \<and>
    a_mstr_update (fep_arch fep') = a_mstr_update (fep_arch fep1)"
  using run
proof (cases rule: main_process_stages)
  case refused
  with cl show ?thesis by simp
next
  case (stages tag' fep1 r2 fep2)
  with cl have tag: "tag' = tag" by simp
  have "table_ok fep1" using master_cycle_keeps [OF ok stages(2)] by simp
  moreover from mon_recv_check_static [OF stages(3)] have st: "fep_static fep2 = fep_static fep1" by simp
  note two = static_table [OF st]
  ultimately have "table_ok fep2" using two(1) by simp
  then have log: "fep_arch g = fep_arch fep2 \<and> table_ok g"
    if "mon_log env fep2 port' msgb tag' = Some (x, g)" for x g
    using quietD(2) [OF mon_log_quiet [OF that]] quiet_table(1) [OF mon_log_quiet [OF that]] by simp
  have map: "a_mstr_flag (fep_arch h) = a_mstr_flag (fep_arch g) \<and>
      a_mstr_update (fep_arch h) = a_mstr_update (fep_arch g)"
    if "table_ok g" "mon_map (e_now env) g port' msgb tag' = Some (x, h)" for x g h
    using mon_map_step [OF that] same_but_cycle [of g h] by (simp add: table_step_def)
  from stages(4) have "a_mstr_flag (fep_arch fep') = a_mstr_flag (fep_arch fep2) \<and>
      a_mstr_update (fep_arch fep') = a_mstr_update (fep_arch fep2)"
    by (metis log map)
  with stages(2) two tag show ?thesis by auto
qed

text \<open>The handler of each transaction code, by whether the process is an LME one.\<close>

definition trade_handlers :: "bool \<Rightarrow> (string \<times> handler) list" where
  "trade_handlers lme =
    [(''T60'', if lme then old_offi_trade_map else old_status_trade_map),
     (''T21'', if lme then old_lme_quote_trade_map else old_quote_trade_map),
     (''T24'', old_cancel_trade_map),
     (''T40'', if lme then old_lme_settle_trade_map else old_settle_trade_map),
     (''T41'', old_close_trade_map),
     (''T50'', if lme then old_lme_oint_trade_map else old_oint_trade_map),
     (''T31'', old_depth_trade_map), (''T80'', old_fnd_trade_map), (''T52'', old_mavg_trade_map),
     (''T62'', old_ware_trade_map), (''T63'', old_volm_trade_map)]"

text \<open>
  C11. From the wire to the handler. On a trade port of the OLD feed, while no master cycle is on, a
  message that starts with one of the eleven transaction codes is classed without error and the
  mapper then does exactly what the handler of that code does on it, the LME handler on the LME
  processes where there is one.
\<close>

theorem trade_dispatch:
  assumes "p_format port = ''OLD''" "p_type port = ''T''" and flag: "a_mstr_flag (fep_arch fep) = 0"
    and h: "(cstr (slice msgb 0 OLD_TRXC_SIZE), h) \<in> set (trade_handlers (is_lme fep))"
  shows "\<exists>tag. mon_classify fep port msgb 0 = (0, tag) \<and>
    mon_map now fep port msgb tag = void (h now fep port msgb tag)"
proof -
  obtain kind where kind: "trxc_class (is_lme fep) (cstr (slice msgb 0 OLD_TRXC_SIZE)) = Some kind"
    using h by (auto simp: trade_handlers_def trxc_class_def)
  define tag where "tag = base_tag fep msgb OR OLD_FORMAT OR TRADE OR kind"
  have in_kinds: "kind \<in> set trade_kinds" by (rule trxc_class_kind [OF kind])
  note has = trade_tag_has [OF in_kinds, of _ fep msgb, folded tag_def]
  have ne: "distinct trade_kinds" by (simp add: trade_kinds_def class_flags)
  have void_void: "void (void x) = void x" for x by (cases x) (auto simp: void_def)
  have map: "mon_map now fep port msgb tag = void (old_trade_map now fep port msgb tag)"
    using has(2-4) [of STATUS] flag
    by (simp add: mon_map_def old_map_def void_void trade_kinds_def)
  have eqs: "has tag STATUS \<longleftrightarrow> kind = STATUS" "has tag QUOTE \<longleftrightarrow> kind = QUOTE"
    "has tag CANCEL \<longleftrightarrow> kind = CANCEL" "has tag SETTLE \<longleftrightarrow> kind = SETTLE"
    "has tag CLOSE \<longleftrightarrow> kind = CLOSE" "has tag OINT \<longleftrightarrow> kind = OINT"
    "has tag DEPTH \<longleftrightarrow> kind = DEPTH" "has tag FND \<longleftrightarrow> kind = FND" "has tag MAVG \<longleftrightarrow> kind = MAVG"
    "has tag OFFI \<longleftrightarrow> kind = OFFI" "has tag WARE \<longleftrightarrow> kind = WARE" "has tag VOLM \<longleftrightarrow> kind = VOLM"
    by (auto simp: has(1) trade_kinds_def)
  have lme: "has tag LME = is_lme fep" using has(5) [of STATUS] by (simp add: trade_kinds_def)
  have all: "\<forall>(trxc, g)\<in>set (trade_handlers (is_lme fep)). \<forall>k.
      trxc_class (is_lme fep) trxc = Some k \<longrightarrow> k = kind \<longrightarrow>
      old_trade_map now fep port msgb tag = void (g now fep port msgb tag)"
    unfolding old_trade_map_def eqs lme
    by (cases "is_lme fep") (simp_all add: trade_handlers_def trxc_class_def class_flags)
  have "old_trade_map now fep port msgb tag = void (h now fep port msgb tag)"
    using all h kind by blast
  with map void_void have "mon_map now fep port msgb tag = void (h now fep port msgb tag)" by simp
  moreover have "mon_classify fep port msgb 0 = (0, tag)"
    by (simp add: classify_trade_port [OF assms(1,2)] kind tag_def)
  ultimately show ?thesis by blast
qed

theorem trade_dispatch_witness:
  "\<exists>tag. mon_classify (fep0 4) port0 demo_close 0 = (0, tag) \<and>
     mon_map 5 (fep0 4) port0 demo_close tag = void (old_close_trade_map 5 (fep0 4) port0 demo_close tag)"
proof -
  have "cstr (slice demo_close 0 OLD_TRXC_SIZE) = ''T41''"
    by (simp add: demo_close_def slice_eq OLD_TRXC_SIZE_def)
  then show ?thesis
    by (intro trade_dispatch) (simp_all add: cleared_defs trade_handlers_def)
qed

definition master_port :: PORT where
  "master_port = port0\<lparr>p_type := ''M''\<rparr>"

lemma master_port_silence:
  assumes "fep_config fep = config0"
  shows "mon_classify fep master_port (NOT_RECEIVED @ replicate n NUL) 0 =
      (0, base_tag fep (NOT_RECEIVED @ replicate n NUL) OR OLD_FORMAT OR MASTER OR FUTURE)"
    and "has (base_tag fep (NOT_RECEIVED @ replicate n NUL) OR OLD_FORMAT OR MASTER OR FUTURE) NONE"
    and "first_char (st_name (c_settings (fep_config fep))) \<in> {CHR ''F'', CHR ''O'', CHR ''S'', CHR ''E'', CHR ''N''}"
  using assms
  by (simp_all add: mon_classify_eq old_master_class_def master_port_def port0_def config0_def first_char_def
      silence_text or.assoc Let_def)

text \<open>
  Silence counts as a master. On a master port of the OLD feed whose cycle is off, the silence
  message is classed as master data like any other message of that port. It switches the cycle on
  and raises the master flag, so that trade data stays blocked although no master has come.
\<close>

theorem silence_switches_cycle_on:
  assumes ok: "table_ok fep" and cyc: "cycle_ok fep"
    and port: "p_format port = ''OLD''" "p_type port = ''M''"
    and off: "a_mstr_update (fep_arch fep) ! p_seqn port = 0"
    and name: "first_char (st_name (c_settings (fep_config fep))) \<in> {CHR ''F'', CHR ''O'', CHR ''S'', CHR ''E'', CHR ''N''}"
    and run: "main_process env fep port (NOT_RECEIVED @ replicate n NUL) = Some (r, port', fep')"
  shows "a_mstr_flag (fep_arch fep') = a_mstr_flag (fep_arch fep) + 1 \<and>
    a_mstr_update (fep_arch fep') ! p_seqn port = 1"
proof -
  let ?msgb = "NOT_RECEIVED @ replicate n NUL"
  obtain tag where cl: "mon_classify fep port ?msgb 0 = (0, tag)" and m: "has tag MASTER"
  proof -
    have "has MASTER MASTER" by (simp add: has_flag)
    then show thesis
      using that name by (auto simp: mon_classify_eq port old_master_class_def Let_def)
  qed
  from main_process_cycle [OF ok cl run] obtain fep1 where
    fep1: "master_cycle (e_now env) fep port tag = Some fep1"
    and same: "a_mstr_flag (fep_arch fep') = a_mstr_flag (fep_arch fep1)"
      "a_mstr_update (fep_arch fep') = a_mstr_update (fep_arch fep1)" by blast
  have "p_seqn port < MAX_PORT" "fep1 = set_master_cycle (p_seqn port) 1 (a_mstr_flag (fep_arch fep) + 1) fep"
    using fep1 off m port by (auto simp: master_cycle_def Let_def split: if_splits)
  with same cyc show ?thesis by (simp add: cycle_ok_def)
qed

theorem silence_switches_cycle_on_witness:
  "\<exists>r port' fep'. main_process demo_env (fep0 4) master_port (NOT_RECEIVED @ replicate 2 NUL) =
       Some (r, port', fep') \<and> a_mstr_flag (fep_arch fep') = 1"
proof -
  have conf: "fep_config (fep0 4) = config0" by (simp add: fep0_def)
  note sil = master_port_silence(1,2) [OF conf, of 2] master_port_silence(3) [OF conf]
  have port: "p_format master_port = ''OLD''" "p_type master_port = ''M''" "p_seqn master_port = 1"
    by (simp_all add: master_port_def port0_def)
  have off: "a_mstr_update (fep_arch (fep0 4)) ! p_seqn master_port = 0" "a_mstr_flag (fep_arch (fep0 4)) = 0"
    by (simp_all add: port MAX_PORT_def cleared_defs)
  have "has MASTER MASTER" by (simp add: has_flag)
  with off port have "master_cycle 100 (fep0 4) master_port
      (base_tag (fep0 4) (NOT_RECEIVED @ replicate 2 NUL) OR OLD_FORMAT OR MASTER OR FUTURE) =
      Some (set_master_cycle 1 1 1 (fep0 4))"
    by (simp add: master_cycle_def MAX_PORT_def Let_def)
  from silence_runs [OF sil(1,2) this] obtain r port' fep' where
    run: "main_process demo_env (fep0 4) master_port (NOT_RECEIVED @ replicate 2 NUL) = Some (r, port', fep')"
    by blast
  have "cycle_ok (fep0 4)" using demo_process_ok
    by (simp add: process_ok_def cycle_ok_def) (simp add: demo_process_def)
  from silence_switches_cycle_on [OF table_ok_cleared this port(1,2) off(1) sil(3) run] run off
  show ?thesis by auto
qed

text \<open>
  A thread that starts late. Every thread sets the shared master flag to 0 when it starts. If the
  cycle of a master port is on at that moment, the end of that cycle takes the flag to -1, and a flag
  other than 0 blocks the trade data of the process: no later trade message of the OLD feed changes any
  folder until the flag is 0 again.
\<close>

theorem late_start_blocks_trades:
  assumes ok: "table_ok fep" and port: "p_format port = ''OLD''" "p_type port = ''M''"
    and on: "a_mstr_update (fep_arch fep) ! p_seqn port = 1" and other: "p_seqn late \<noteq> p_seqn port"
    and start: "recv_start fep late = Some fep1"
    and name: "first_char (st_name (c_settings (fep_config fep))) \<in> {CHR ''F'', CHR ''O'', CHR ''S'', CHR ''E'', CHR ''N''}"
    and run: "main_process env fep1 port (NOT_RECEIVED @ replicate n NUL) = Some (r, port', fep2)"
  shows "a_mstr_flag (fep_arch fep2) = -1 \<and>
    (\<forall>now trade msgb tag r fep3. \<not> has tag MASTER \<longrightarrow> has tag OLD_FORMAT \<longrightarrow>
       mon_map now fep2 trade msgb tag = Some (r, fep3) \<longrightarrow> fep3 = fep2)"
proof -
  let ?msgb = "NOT_RECEIVED @ replicate n NUL"
  have fep1: "fep1 = set_master_cycle (p_seqn late) 0 0 fep"
    using start by (auto simp: recv_start_def split: if_splits)
  then have ok1: "table_ok fep1" using ok by simp
  obtain tag where cl: "mon_classify fep1 port ?msgb 0 = (0, tag)" and none: "has tag NONE"
  proof -
    have "cstr ?msgb = NOT_RECEIVED" by (simp add: silence_text)
    then show thesis
      using that name by (auto simp: mon_classify_eq port old_master_class_def Let_def fep1)
  qed
  from main_process_cycle [OF ok1 cl run] obtain fep1' where
    cyc: "master_cycle (e_now env) fep1 port tag = Some fep1'"
    and same: "a_mstr_flag (fep_arch fep2) = a_mstr_flag (fep_arch fep1')" by blast
  have "a_mstr_update (fep_arch fep1) ! p_seqn port = 1"
    using on other by (simp add: fep1 nth_list_update_neq)
  then have "fep1' = set_master_cycle (p_seqn port) 0 (-1) (set_master_cycle (p_seqn port) 0 0 fep1)"
    using cyc none port by (auto simp: master_cycle_def Let_def fep1 split: if_splits)
  with same have flag: "a_mstr_flag (fep_arch fep2) = -1" by simp
  then show ?thesis by (auto simp: mon_map_def old_map_def void_def)
qed

theorem late_start_blocks_trades_witness:
  "\<exists>fep1 r port' fep2. recv_start (set_master_cycle 1 1 1 (fep0 4)) (port0\<lparr>p_seqn := 2\<rparr>) = Some fep1 \<and>
     main_process demo_env fep1 master_port (NOT_RECEIVED @ replicate 2 NUL) = Some (r, port', fep2) \<and>
     a_mstr_flag (fep_arch fep2) = -1"
proof -
  let ?fep = "set_master_cycle 1 1 1 (fep0 4)" and ?late = "port0\<lparr>p_seqn := 2\<rparr>"
  let ?fep1 = "set_master_cycle 2 0 0 ?fep"
  have start: "recv_start ?fep ?late = Some ?fep1" by (simp add: recv_start_def MAX_PORT_def)
  have conf: "fep_config ?fep1 = config0" "fep_config ?fep = config0" by (simp_all add: fep0_def)
  note sil = master_port_silence(1,2) [OF conf(1), of 2] master_port_silence(3) [OF conf(1)]
  have port: "p_format master_port = ''OLD''" "p_type master_port = ''M''" "p_seqn master_port = 1"
    by (simp_all add: master_port_def port0_def)
  have on: "a_mstr_update (fep_arch ?fep) ! p_seqn master_port = 1" "p_seqn ?late \<noteq> p_seqn master_port"
    by (simp_all add: port MAX_PORT_def cleared_defs)
  have "master_cycle 100 ?fep1 master_port
      (base_tag ?fep1 (NOT_RECEIVED @ replicate 2 NUL) OR OLD_FORMAT OR MASTER OR FUTURE) =
      Some (set_master_cycle 1 0 (-1) (set_master_cycle 1 0 0 ?fep1))"
    using sil(2) by (simp add: master_cycle_def port MAX_PORT_def Let_def cleared_defs)
  from silence_runs [OF sil(1,2) this] obtain r port' fep2 where
    run: "main_process demo_env ?fep1 master_port (NOT_RECEIVED @ replicate 2 NUL) = Some (r, port', fep2)"
    by blast
  have ok: "table_ok ?fep" using table_ok_cleared [of 4] by simp
  from late_start_blocks_trades [OF ok port(1,2) on start _ run] start run
    master_port_silence(3) [OF conf(2)] show ?thesis by blast
qed

end
