(* ===== verification/MonRecv.thy ===== *)
theory MonRecv
  imports MonFep ConfigParse
begin

text \<open>
  The receiver (\<^verbatim>\<open>src/mon/monrecv.c\<close>): one thread per port joins the port's multicast group and hands
  every datagram on to the message process through a datagram socket. The socket calls are answered
  by \<open>NET\<close>; what is sent is the list of target paths and messages.
\<close>

text \<open>\<^verbatim>\<open>ntohl(inet_addr(ipad))\<close>, the descriptors of \<^verbatim>\<open>socket\<close> (negative: failed), and the results of \<^verbatim>\<open>bind\<close> and the two \<^verbatim>\<open>setsockopt\<close>.\<close>

record NET =
  n_addr   :: u32
  n_socket :: int
  n_bind   :: bool
  n_join   :: bool
  n_timeo  :: bool
  n_domain :: int

definition MULTICAST_F :: u32 where "MULTICAST_F = 0xE0000000" \<comment> \<open>224.0.0.0\<close>
definition MULTICAST_T :: u32 where "MULTICAST_T = 0xEFFFFFFF" \<comment> \<open>239.255.255.255\<close>

definition at_port :: "string \<Rightarrow> PORT \<Rightarrow> string" where
  "at_port text port = text @ p_ipad port @ '':'' @ show_int (p_port port)"

text \<open>
  The result and the socket the port gets. An address outside the multicast range leaves
  \<^verbatim>\<open>multicast\<close> uninitialised before it is read: \<open>None\<close>.
\<close>

definition port_configuration :: "NET \<Rightarrow> FEP \<Rightarrow> PORT \<Rightarrow> (int \<times> int option \<times> FEP) option" where
  "port_configuration net fep port =
     (if \<not> (n_addr net \<ge> MULTICAST_F \<and> n_addr net \<le> MULTICAST_T) then None
      else if n_socket net < 0 then
        Some (-1, None, fep_log fep FL_ERROR ''port_confiuration'' (Text (at_port ''Cannot open socket for '' port)))
      else if \<not> n_bind net then
        Some (-1, None, fep_log fep FL_ERROR ''port_confiuration'' (Text (at_port ''Cannot bind for '' port)))
      else if \<not> n_join net then
        Some (-1, None, fep_log fep FL_ERROR ''port_confiuration'' (Text (at_port ''setsockopt error(1) '' port)))
      else if \<not> n_timeo net then
        Some (-1, None, fep_log fep FL_ERROR ''port_confiuration'' (Text (at_port ''setsockopt error(2) '' port)))
      else
        Some (0, Some (n_socket net), fep_log fep FL_MUST ''port_confiuration''
          (Text (''Start to receive from '' @ [CHR 0x27] @ p_host port @ '':'' @ p_name port @ [CHR 0x27] @
                 at_port ''('' port @ '')''))))"

definition domain_socket_configuration :: "NET \<Rightarrow> FEP \<Rightarrow> PORT \<Rightarrow> int \<times> FEP" where
  "domain_socket_configuration net fep port =
     (if n_domain net < 0 then
        (-1, fep_log fep FL_ERROR ''domain_socket_configuration''
           (Text (''Failed to set domain socket for '' @ [CHR 0x27] @ p_name port @ [CHR 0x27])))
      else (n_domain net, fep_log fep FL_MUST ''domain_socket_configuration''
           (Text (''socket() for '' @ [CHR 0x27] @ p_name port @ [CHR 0x27] @ '' complete ..!''))))"

text \<open>
  One round of the loop of \<^verbatim>\<open>recv_to_send\<close>: the datagram (\<open>None\<close> when the call times out or fails) and
  whether the first \<^verbatim>\<open>sendto\<close> succeeds. A datagram that fills the buffer leaves no terminator, and
  \<^verbatim>\<open>strlen\<close> reads on behind it.
\<close>

definition recv_buffer :: "bytes option \<Rightarrow> bytes \<times> int" where
  "recv_buffer datagram =
     (case datagram of
        None \<Rightarrow> (replicate MSGBUFF NUL, -1)
      | Some d \<Rightarrow>
          let msgl = min MSGBUFF (length d)
          in (take msgl d @ replicate (MSGBUFF - msgl) NUL, int msgl))"

definition relay_round :: "PORT \<Rightarrow> bytes option \<Rightarrow> bool \<Rightarrow> (string \<times> bytes) list option" where
  "relay_round port datagram sent =
     (let (msgb, msgl) = recv_buffer datagram; msgb = null_to_space msgb msgl
      in if msgl > 0 then
           if NUL \<notin> set msgb then None
           else Some ((p_ipc_name port, cstr msgb) #
             (if sent then [(p_ipc_name port @ ''_test'', cstr msgb)] else []))
         else Some [(p_ipc_name port, NOT_RECEIVED)])"

text \<open>The start of a thread and a run of rounds: what has been sent when the thread is still in its loop.\<close>

definition recv_to_send :: "NET \<Rightarrow> FEP \<Rightarrow> PORT \<Rightarrow> (int option \<times> FEP) option" where
  "recv_to_send net fep port =
     (case port_configuration net fep port of
        None \<Rightarrow> None
      | Some (r, sock, fep1) \<Rightarrow>
          if r = -1 then
            Some (None, fep_log fep1 FL_ERROR ''recv_to_send'' (Text ''Failed to set port configuration''))
          else
            (case domain_socket_configuration net fep1 port of (d, fep2) \<Rightarrow>
               if d = -1 then
                 Some (None, fep_log fep2 FL_ERROR ''recv_to_send''
                   (Text ''Failed to set domain socket configuration''))
               else Some (sock, fep2)))"

fun relay :: "PORT \<Rightarrow> (bytes option \<times> bool) list \<Rightarrow> (string \<times> bytes) list option" where
  "relay port [] = Some []"
| "relay port ((datagram, sent) # rounds) =
     (case relay_round port datagram sent of None \<Rightarrow> None
      | Some out \<Rightarrow> map_option ((@) out) (relay port rounds))"

subsection \<open>What is relayed\<close>

definition blanked :: "bytes \<Rightarrow> bytes" where
  "blanked d = map (\<lambda>c. if c = NUL then CHR '' '' else c) d"

lemma blanked_no_NUL: "NUL \<notin> set (blanked d)"
  by (auto simp: blanked_def)

lemma blanked_id: "NUL \<notin> set d \<Longrightarrow> blanked d = d"
  unfolding blanked_def by (intro map_idI) auto

lemma length_blanked [simp]: "length (blanked d) = length d"
  by (simp add: blanked_def)

lemma relay_round_datagram:
  assumes "d \<noteq> []" "length d < MSGBUFF"
  shows "relay_round port (Some d) sent = Some ((p_ipc_name port, blanked d) #
    (if sent then [(p_ipc_name port @ ''_test'', blanked d)] else []))"
proof -
  have b: "recv_buffer (Some d) = (d @ replicate (MSGBUFF - length d) NUL, int (length d))"
    using assms(2) by (simp add: recv_buffer_def Let_def min_absorb2)
  have n: "null_to_space (d @ replicate (MSGBUFF - length d) NUL) (int (length d)) =
      blanked d @ replicate (MSGBUFF - length d) NUL"
    by (simp add: null_to_space_def blanked_def)
  have "NUL \<in> set (replicate (MSGBUFF - length d) NUL)" using assms(2) by simp
  then show ?thesis
    using assms(1) by (simp add: relay_round_def b n cstr_id [OF blanked_no_NUL] Let_def)
qed

lemma relay_round_silence: "relay_round port None sent = Some [(p_ipc_name port, NOT_RECEIVED)]"
  "relay_round port (Some []) sent = Some [(p_ipc_name port, NOT_RECEIVED)]"
  by (simp_all add: relay_round_def recv_buffer_def null_to_space_def)

lemma relay_round_full: "MSGBUFF \<le> length d \<Longrightarrow> relay_round port (Some d) sent = None"
proof -
  assume "MSGBUFF \<le> length d"
  then have "recv_buffer (Some d) = (take MSGBUFF d, int MSGBUFF)"
    by (simp add: recv_buffer_def Let_def min_absorb1)
  moreover have "null_to_space (take MSGBUFF d) (int MSGBUFF) = blanked (take MSGBUFF d)"
    by (simp add: null_to_space_def blanked_def)
  ultimately show ?thesis
    using blanked_no_NUL by (simp add: relay_round_def Let_def MSGBUFF_def)
qed

text \<open>
  C23. Every datagram shorter than the buffer reaches the message process whole and in order, with its
  zero bytes made blanks, and every silence as the text for it: the messages for the port's pipe are
  one for each round.
\<close>

theorem relay_forwards:
  assumes "\<forall>(datagram, sent)\<in>set rounds. case datagram of None \<Rightarrow> True | Some d \<Rightarrow> length d < MSGBUFF"
  shows "\<exists>out. relay port rounds = Some out \<and>
    map snd (filter (\<lambda>(path, _). path = p_ipc_name port) out) =
    map (\<lambda>(datagram, _). case datagram of Some (c # d) \<Rightarrow> blanked (c # d) | _ \<Rightarrow> NOT_RECEIVED) rounds"
  using assms
proof (induction rounds)
  case (Cons round rounds)
  obtain g s where r: "round = (g, s)" by fastforce
  obtain out where out: "relay port rounds = Some out"
    "map snd (filter (\<lambda>(path, _). path = p_ipc_name port) out) =
     map (\<lambda>(datagram, _). case datagram of Some (c # d) \<Rightarrow> blanked (c # d) | _ \<Rightarrow> NOT_RECEIVED) rounds"
    using Cons by auto
  consider "g = None \<or> g = Some []" | c d where "g = Some (c # d)" by (cases g; cases "the g") auto
  then show ?case
  proof cases
    case 1
    then show ?thesis using out by (auto simp: r relay_round_silence)
  next
    case 2
    then have "length (c # d) < MSGBUFF" using Cons.prems by (auto simp: r)
    then show ?thesis using out 2 by (auto simp: r relay_round_datagram)
  qed
qed simp

theorem relay_forwards_witness:
  "\<exists>out. relay port0 [(Some [CHR ''T'', NUL, CHR ''1''], True), (None, True)] = Some out \<and>
     map snd (filter (\<lambda>(path, _). path = p_ipc_name port0) out) = [''T 1'', NOT_RECEIVED]"
  using relay_forwards [of "[(Some [CHR ''T'', NUL, CHR ''1''], True), (None, True)]" port0]
  by (auto simp: MSGBUFF_def blanked_def)

end
