(* ===== verification/RtdClient.thy ===== *)
theory RtdClient
  imports RealTime
begin

text \<open>
  The client's side of a connection to the push broker, \<^verbatim>\<open>src/lib/main/rtd.c\<close>: attaching the shared
  memory (\<^verbatim>\<open>rt_attach\<close>), opening the connection (\<^verbatim>\<open>rtd_open\<close> with \<^verbatim>\<open>rt_connect\<close>), sending a batch of
  commands (\<^verbatim>\<open>rtd_send\<close>) and closing (\<^verbatim>\<open>rtd_close\<close>).

  The process has what it holds of the system as a record: its sockets, its attachments, its blocks
  of memory, its receiver threads and what it has put into message queues, so that what is not given
  back can be seen. The answers of the system calls are arguments. \<open>None\<close> is an access to memory that
  is not mapped.
\<close>

subsection \<open>The process and the system\<close>

definition RTD_PORT :: int where "RTD_PORT = 7971"

definition FLAG_OPEN :: u32 where "FLAG_OPEN = 1"
definition FLAG_RECV :: u32 where "FLAG_RECV = 2"
definition FLAG_PKTB :: u32 where "FLAG_PKTB = 4"

lemmas FLAG_defs = FLAG_OPEN_def FLAG_RECV_def FLAG_PKTB_def

text \<open>
  The segments that exist, by identifier, the one that has the key now, and whether it can be attached.
\<close>

record segments =
  seg_memory :: "nat \<Rightarrow> RQ"
  seg_key    :: "nat option"
  seg_shmat  :: bool

text \<open>
  \<open>x_board\<close> is the static \<^verbatim>\<open>__rt_board\<close>. A receiver thread that has been cancelled runs no longer,
  but as it is neither joined nor detached, its identifier and stack stay with the process:
  \<open>x_unjoined\<close> counts the threads of which the process has these.
\<close>

record client_process =
  x_board   :: "nat option"
  x_mapped  :: "nat list"
  x_fds     :: "int list"
  x_blocks  :: nat
  x_running  :: nat
  x_unjoined :: nat
  x_sent    :: "(int \<times> int \<times> rt_cmd list) list" \<comment> \<open>queue, message type and text, latest first\<close>

record RTIS =
  r_flag  :: u32
  r_sock  :: int
  r_rqid  :: int
  r_alive :: int
  r_board :: "nat option"
  r_pkth  :: rt_pkth

text \<open>\<^verbatim>\<open>d_flag\<close> says that the descriptor is valid.\<close>

record RTD =
  d_flag :: int
  d_self :: RTIS

abbreviation seg_alive :: "segments \<Rightarrow> nat \<Rightarrow> int" where
  "seg_alive m g \<equiv> b_alive (rt_board (seg_memory m g))"

definition open_fd :: "int \<Rightarrow> client_process \<Rightarrow> client_process" where
  "open_fd s p = p\<lparr>x_fds := s # x_fds p\<rparr>"

definition close_fd :: "int \<Rightarrow> client_process \<Rightarrow> client_process" where
  "close_fd s p = p\<lparr>x_fds := remove1 s (x_fds p)\<rparr>"

subsection \<open>Attaching\<close>

text \<open>A dead board is detached, and a new one looked for. The result is always 0.\<close>

definition rt_attach :: "segments \<Rightarrow> client_process \<Rightarrow> client_process" where
  "rt_attach m p =
     (let p1 = (case x_board p of
                  None \<Rightarrow> p
                | Some g \<Rightarrow> if seg_alive m g = 0
                          then p\<lparr>x_board := None, x_mapped := remove1 g (x_mapped p)\<rparr> else p)
      in if x_board p1 \<noteq> None then p1
         else case seg_key m of
           None \<Rightarrow> p1
         | Some g \<Rightarrow> if seg_shmat m then p1\<lparr>x_board := Some g, x_mapped := g # x_mapped p1\<rparr> else p1)"

subsection \<open>Connecting\<close>

text \<open>
  What the calls for the connection answer: the socket, whether a port can be connected to, the result
  of \<^verbatim>\<open>poll\<close>, and the integer read, if one is read whole.
\<close>

record connection =
  co_socket  :: int
  co_connect :: "16 word \<Rightarrow> bool"
  co_poll    :: int
  co_peer    :: "int option"

definition rt_connect ::
  "connection \<Rightarrow> int \<Rightarrow> RTIS \<Rightarrow> client_process \<Rightarrow> int \<times> RTIS \<times> client_process" where
  "rt_connect co port self p =
     (let sock = co_socket co in
      if sock < 0 then (-1, self, p)
      else
        let p1 = open_fd sock p
        in if \<not> co_connect co (word_of_int port) then (-1, self, close_fd sock p1)
           else if co_poll co \<le> 0 then (-1, self, close_fd sock p1)
           else case co_peer co of
             None \<Rightarrow> (-1, self, close_fd sock p1)
           | Some peer \<Rightarrow> (0, self\<lparr>r_sock := sock, r_rqid := peer\<rparr>, p1))"

subsection \<open>Sending\<close>

text \<open>
  A batch goes to queue 1 of the board with the client's number as its type; \<^verbatim>\<open>msgsnd\<close> refuses a type
  that is not positive, and \<open>room\<close> says whether the queue has room for the message.
\<close>

definition rtd_send ::
  "segments \<Rightarrow> bool \<Rightarrow> rt_cmd list \<Rightarrow> RTIS \<Rightarrow> client_process \<Rightarrow> (int \<times> RTIS \<times> client_process) option" where
  "rtd_send m room cmds self p =
     (if r_alive self = 0 then Some (-1, self, p)
      else case r_board self of
        None \<Rightarrow> None
      | Some g \<Rightarrow>
          if g \<notin> set (x_mapped p) then None
          else
            let self1 = self\<lparr>r_alive := seg_alive m g\<rparr>
            in if r_alive self1 = 0 then Some (-1, self1, p)
               else if cmds = [] then Some (0, self1, p)
               else if \<not> room \<or> r_rqid self1 < 1 then Some (-1, self1, p)
               else Some (0, self1, p\<lparr>x_sent :=
                      (b_mqid (rt_board (seg_memory m g)) ! 1, r_rqid self1, cmds) # x_sent p\<rparr>))"

subsection \<open>Closing\<close>

definition rtd_close :: "RTD option \<Rightarrow> client_process \<Rightarrow> client_process" where
  "rtd_close rtd p =
     (case rtd of
        None \<Rightarrow> p
      | Some d \<Rightarrow>
          if d_flag d = 0 then p\<lparr>x_blocks := x_blocks p - 1\<rparr>
          else
            let self = d_self d;
                p1 = (if r_flag self AND FLAG_OPEN \<noteq> 0 \<and> r_sock self \<ge> 0
                      then close_fd (r_sock self) p else p);
                p2 = (if r_flag self AND FLAG_RECV \<noteq> 0 then p1\<lparr>x_running := x_running p1 - 1\<rparr> else p1);
                p3 = (if r_flag self AND FLAG_PKTB \<noteq> 0 then p2\<lparr>x_blocks := x_blocks p2 - 1\<rparr> else p2)
            in p3\<lparr>x_blocks := x_blocks p3 - 1\<rparr>)"

subsection \<open>Opening\<close>

definition overwrite :: "bytes \<Rightarrow> bytes \<Rightarrow> bytes" where
  "overwrite b buf = b @ drop (length b) buf"

text \<open>The command by which a client introduces itself.\<close>

definition set_pid_cmd :: "u32 \<Rightarrow> u32 \<Rightarrow> rt_cmd" where
  "set_pid_cmd pid addr = \<lparr> cmd_func = RT_SET_PID, cmd_mask = 0,
     cmd_symb = overwrite (le_bytes 4 (unat addr))
       (overwrite (le_bytes 4 (unat pid)) (replicate L_SYMB NUL)) \<rparr>"

text \<open>
  What opening depends on besides the connection: memory for the descriptor and for the packets, room
  in the queue, and whether the thread can be created.
\<close>

record resources =
  rs_memory  :: bool
  rs_packets :: bool
  rs_room    :: bool
  rs_thread  :: bool

definition rtis0 :: RTIS where
  "rtis0 = \<lparr> r_flag = 0, r_sock = -1, r_rqid = 0, r_alive = 0, r_board = None, r_pkth = pkth0 \<rparr>"

definition rtd_open ::
  "segments \<Rightarrow> connection \<Rightarrow> resources \<Rightarrow> u32 \<Rightarrow> u32 \<Rightarrow> int \<Rightarrow> client_process \<Rightarrow>
   (RTD option \<times> client_process) option" where
  "rtd_open m co rs pid addr rq_port p =
     (if \<not> rs_memory rs then Some (None, p)
      else
        let p0 = p\<lparr>x_blocks := x_blocks p + 1\<rparr>;
            rtd = (\<lambda>self. \<lparr> d_flag = 1, d_self = self \<rparr>);
            port = (if rq_port \<le> 0 then RTD_PORT else rq_port);
            (retc, self1, p1) = rt_connect co port rtis0 p0
        in if retc \<noteq> 0 then Some (None, rtd_close (Some (rtd self1)) p1)
           else
             let p2 = rt_attach m p1
             in if x_board p2 = None then Some (None, rtd_close (Some (rtd self1)) p2)
                else
                  let self2 = self1\<lparr>r_board := x_board p2, r_flag := FLAG_OPEN, r_alive := 1\<rparr>
                  in case rtd_send m (rs_room rs) [set_pid_cmd pid addr] self2 p2 of
                       None \<Rightarrow> None
                     | Some (_, self3, p3) \<Rightarrow>
                         let (reti, pkth) = rt_packet_init (rs_packets rs) (r_pkth self3)
                         in if reti \<noteq> 0 then Some (None, rtd_close (Some (rtd self3)) p3)
                            else
                              let self4 = self3\<lparr>r_pkth := pkth, r_flag := r_flag self3 OR FLAG_PKTB\<rparr>;
                                  p4 = p3\<lparr>x_blocks := x_blocks p3 + 1\<rparr>
                              in if \<not> rs_thread rs then Some (None, rtd_close (Some (rtd self4)) p4)
                                 else Some (Some (rtd (self4\<lparr>r_flag := r_flag self4 OR FLAG_RECV\<rparr>)),
                                        p4\<lparr>x_running := x_running p4 + 1, x_unjoined := x_unjoined p4 + 1\<rparr>))"

subsection \<open>What is held\<close>

text \<open>What a connection holds for as long as it is open.\<close>

definition connects :: "connection \<Rightarrow> int \<Rightarrow> bool" where
  "connects co rq_port \<longleftrightarrow> co_socket co \<ge> 0 \<and>
     co_connect co (word_of_int (if rq_port \<le> 0 then RTD_PORT else rq_port)) \<and> co_poll co > 0 \<and>
     co_peer co \<noteq> None"

lemma close_open_fd [simp]: "close_fd s (open_fd s p) = p"
  by (simp add: close_fd_def open_fd_def)

lemma rt_connect_cases:
  "rt_connect co (if rq_port \<le> 0 then RTD_PORT else rq_port) self p =
     (if connects co rq_port
      then (0, self\<lparr>r_sock := co_socket co, r_rqid := the (co_peer co)\<rparr>, open_fd (co_socket co) p)
      else (-1, self, p))"
  by (auto simp: rt_connect_def connects_def Let_def split: option.splits)

lemma fd_sel [simp]:
  "x_board (open_fd s p) = x_board p" "x_mapped (open_fd s p) = x_mapped p"
  "x_fds (open_fd s p) = s # x_fds p" "x_blocks (open_fd s p) = x_blocks p"
  "x_running (open_fd s p) = x_running p" "x_unjoined (open_fd s p) = x_unjoined p" "x_sent (open_fd s p) = x_sent p"
  "x_board (close_fd s p) = x_board p" "x_mapped (close_fd s p) = x_mapped p"
  "x_fds (close_fd s p) = remove1 s (x_fds p)" "x_blocks (close_fd s p) = x_blocks p"
  "x_running (close_fd s p) = x_running p" "x_unjoined (close_fd s p) = x_unjoined p" "x_sent (close_fd s p) = x_sent p"
  by (simp_all add: open_fd_def close_fd_def)

lemma rt_attach_sel [simp]:
  "x_fds (rt_attach m p) = x_fds p" "x_blocks (rt_attach m p) = x_blocks p"
  "x_running (rt_attach m p) = x_running p" "x_unjoined (rt_attach m p) = x_unjoined p" "x_sent (rt_attach m p) = x_sent p"
  by (auto simp: rt_attach_def Let_def split: option.split)

text \<open>The board is among the segments that are attached, each of which is attached once.\<close>

definition attached :: "client_process \<Rightarrow> bool" where
  "attached p \<longleftrightarrow> distinct (x_mapped p) \<and> (\<forall>g. x_board p = Some g \<longrightarrow> x_mapped p = [g]) \<and>
     (x_board p = None \<longrightarrow> x_mapped p = [])"

lemma rt_attach_attached [inv_pres]: "attached p \<Longrightarrow> attached (rt_attach m p)"
  by (auto simp: attached_def rt_attach_def Let_def split: option.split)

lemma attached_fd [simp]: "attached (open_fd s p) = attached p" "attached (close_fd s p) = attached p"
  "attached (p\<lparr>x_blocks := n\<rparr>) = attached p"
  by (simp_all add: attached_def)

lemma rtd_send_keeps:
  "rtd_send m room cmds self p = Some (rc, self', p') \<Longrightarrow>
     r_flag self' = r_flag self \<and> r_sock self' = r_sock self \<and> r_rqid self' = r_rqid self \<and>
     r_board self' = r_board self \<and> r_pkth self' = r_pkth self \<and>
     x_fds p' = x_fds p \<and> x_blocks p' = x_blocks p \<and> x_running p' = x_running p \<and> x_unjoined p' = x_unjoined p \<and>
     x_board p' = x_board p \<and> x_mapped p' = x_mapped p"
  by (auto simp: rtd_send_def Let_def split: if_splits option.splits)

lemma rtd_send_defined:
  "r_board self = Some g \<Longrightarrow> g \<in> set (x_mapped p) \<Longrightarrow> rtd_send m room cmds self p \<noteq> None"
  by (simp add: rtd_send_def Let_def)

text \<open>A descriptor and what the process holds for it on top of what it held before.\<close>

definition holds :: "RTD \<Rightarrow> client_process \<Rightarrow> client_process \<Rightarrow> bool" where
  "holds d before p \<longleftrightarrow> d_flag d = 1 \<and> r_flag (d_self d) = 7 \<and> r_sock (d_self d) \<ge> 0 \<and>
     x_fds p = r_sock (d_self d) # x_fds before \<and> x_blocks p = x_blocks before + 2 \<and>
     x_running p = x_running before + 1 \<and> x_unjoined p = x_unjoined before + 1"

lemma holds_send:
  "holds d before p \<Longrightarrow> rtd_send m room cmds (d_self d) p = Some (rc, self', p') \<Longrightarrow>
    holds (d\<lparr>d_self := self'\<rparr>) before p'"
  by (auto simp: holds_def dest: rtd_send_keeps)

lemma holds_close:
  "holds d before p \<Longrightarrow> x_fds (rtd_close (Some d) p) = x_fds before \<and>
    x_blocks (rtd_close (Some d) p) = x_blocks before \<and> x_running (rtd_close (Some d) p) = x_running before \<and>
    x_unjoined (rtd_close (Some d) p) = x_unjoined before + 1"
  by (simp add: holds_def rtd_close_def Let_def FLAG_defs)

text \<open>
  Opening: with a connection, a board and memory it succeeds and holds a socket, a thread and two
  blocks; otherwise everything is as before but for the socket that is left open when there is
  no board.
\<close>

lemma rtd_open_result:
  assumes att: "attached p"
  shows "\<exists>rtd p'. rtd_open m co rs pid addr rq_port p = Some (rtd, p') \<and> attached p' \<and>
    (case rtd of
       Some d \<Rightarrow> holds d p p' \<and> r_board (d_self d) = x_board p' \<and> x_board p' \<noteq> None \<and>
         r_sock (d_self d) = co_socket co \<and> Some (r_rqid (d_self d)) = co_peer co
     | None \<Rightarrow> x_blocks p' = x_blocks p \<and> x_running p' = x_running p \<and> x_unjoined p' = x_unjoined p \<and>
         x_fds p' = (if rs_memory rs \<and> connects co rq_port \<and> x_board p' = None
                     then co_socket co # x_fds p else x_fds p))"
proof (cases "rs_memory rs \<and> connects co rq_port")
  case False
  with att show ?thesis
    by (auto simp: rtd_open_def rt_connect_cases rtd_close_def rtis0_def Let_def FLAG_defs)
next
  case True
  let ?p1 = "open_fd (co_socket co) (p\<lparr>x_blocks := x_blocks p + 1\<rparr>)"
  let ?p2 = "rt_attach m ?p1"
  have att2: "attached ?p2" using att by (simp add: rt_attach_attached)
  show ?thesis
  proof (cases "x_board ?p2")
    case None
    with True att2 show ?thesis
      by (simp add: rtd_open_def rt_connect_cases rtd_close_def rtis0_def Let_def FLAG_defs attached_def)
  next
    case (Some g)
    let ?self = "rtis0\<lparr>r_sock := co_socket co, r_rqid := the (co_peer co), r_board := Some g,
      r_flag := FLAG_OPEN, r_alive := 1\<rparr>"
    have "g \<in> set (x_mapped ?p2)" using att2 Some by (simp add: attached_def)
    then obtain rc self3 p3 where snd: "rtd_send m (rs_room rs) [set_pid_cmd pid addr] ?self ?p2 = Some (rc, self3, p3)"
      using rtd_send_defined [of ?self g ?p2] by fastforce
    note k = rtd_send_keeps [OF snd]
    have "attached p3" using att2 k by (simp add: attached_def)
    moreover have "co_socket co \<ge> 0" "co_peer co \<noteq> None" using True by (simp_all add: connects_def)
    ultimately show ?thesis using True Some snd k
      by (auto simp: rtd_open_def rt_connect_cases rtd_close_def rt_packet_init_def rtis0_def Let_def
        FLAG_defs attached_def holds_def split: if_splits)
  qed
qed

text \<open>
  What a process does while it has a connection: it sends a batch, or it attaches (as the thread of
  \<^verbatim>\<open>rtd_init\<close> does every three seconds, and as another \<^verbatim>\<open>rtd_open\<close> does). The segments may change
  from one step to the next.
\<close>

datatype client_step = Send segments bool "rt_cmd list" | Attach segments

fun client_steps :: "client_step list \<Rightarrow> RTD \<Rightarrow> client_process \<Rightarrow> (RTD \<times> client_process) option" where
  "client_steps [] d p = Some (d, p)"
| "client_steps (Send m room cmds # ss) d p =
     (case rtd_send m room cmds (d_self d) p of
        None \<Rightarrow> None
      | Some (_, self', p') \<Rightarrow> client_steps ss (d\<lparr>d_self := self'\<rparr>) p')"
| "client_steps (Attach m # ss) d p = client_steps ss d (rt_attach m p)"

lemma attach_alive: "x_board p = Some g \<Longrightarrow> seg_alive m g \<noteq> 0 \<Longrightarrow> rt_attach m p = p"
  by (simp add: rt_attach_def)

lemma client_steps_hold:
  "holds d before p \<Longrightarrow> r_board (d_self d) = Some g \<Longrightarrow> x_board p = Some g \<Longrightarrow> g \<in> set (x_mapped p) \<Longrightarrow>
    \<forall>m. Attach m \<in> set ss \<longrightarrow> seg_alive m g \<noteq> 0 \<Longrightarrow>
    \<exists>d' p'. client_steps ss d p = Some (d', p') \<and> holds d' before p'"
proof (induction ss arbitrary: d p)
  case (Cons s ss)
  show ?case
  proof (cases s)
    case (Send m room cmds)
    obtain rc self' p' where s: "rtd_send m room cmds (d_self d) p = Some (rc, self', p')"
      using rtd_send_defined [OF Cons.prems(2,4)] by fastforce
    have "\<exists>d' p''. client_steps ss (d\<lparr>d_self := self'\<rparr>) p' = Some (d', p'') \<and> holds d' before p''"
      using Cons.prems rtd_send_keeps [OF s] by (intro Cons.IH holds_send [OF _ s]) simp_all
    with Send s show ?thesis by simp
  next
    case (Attach m)
    then have "rt_attach m p = p" using attach_alive [OF Cons.prems(3)] Cons.prems(5) by simp
    with Attach Cons show ?thesis by simp
  qed
qed simp

text \<open>
  C38. What a connection takes. After \<^verbatim>\<open>rtd_open\<close> has succeeded, through any batches and any attaching
  while the broker of the connection lives, no batch reads memory that is not mapped, and
  \<^verbatim>\<open>rtd_close\<close> then leaves the process with the sockets and the blocks of memory it had before and the
  receiver thread cancelled. The thread's identifier and stack are not given back: \<^verbatim>\<open>rtd_close\<close> does not
  join the thread it cancels, so that each connection leaves one behind.
\<close>

theorem connection_is_given_back:
  assumes "attached p" and opened: "rtd_open m co rs pid addr rq_port p = Some (Some d, p1)"
    and alive: "\<And>m g. Attach m \<in> set ss \<Longrightarrow> x_board p1 = Some g \<Longrightarrow> seg_alive m g \<noteq> 0"
  shows "\<exists>d' p2. client_steps ss d p1 = Some (d', p2) \<and>
    x_fds (rtd_close (Some d') p2) = x_fds p \<and> x_blocks (rtd_close (Some d') p2) = x_blocks p \<and>
    x_running (rtd_close (Some d') p2) = x_running p \<and>
    x_unjoined (rtd_close (Some d') p2) = x_unjoined p + 1"
proof -
  obtain g where g: "holds d p p1" "r_board (d_self d) = Some g" "x_board p1 = Some g" "attached p1"
    using rtd_open_result [OF assms(1), of m co rs pid addr rq_port] opened by auto
  have "\<exists>d' p2. client_steps ss d p1 = Some (d', p2) \<and> holds d' p p2"
    by (rule client_steps_hold [OF g(1-3)]) (use g alive in \<open>auto simp: attached_def\<close>)
  then obtain d' p2 where "client_steps ss d p1 = Some (d', p2)" "holds d' p p2" by blast
  with holds_close [of d' p p2] show ?thesis by blast
qed

text \<open>The process has tried \<open>n\<close> times, each time with the socket the system gives it.\<close>

fun open_again ::
  "segments \<Rightarrow> (nat \<Rightarrow> connection) \<Rightarrow> resources \<Rightarrow> u32 \<Rightarrow> u32 \<Rightarrow> int \<Rightarrow> nat \<Rightarrow> client_process \<Rightarrow> client_process option" where
  "open_again m co rs pid addr port 0 p = Some p"
| "open_again m co rs pid addr port (Suc n) p =
     (case open_again m co rs pid addr port n p of
        None \<Rightarrow> None
      | Some p' \<Rightarrow> map_option snd (rtd_open m (co n) rs pid addr port p'))"

lemma no_board_attached:
  "x_board p = None \<Longrightarrow> seg_key m = None \<Longrightarrow> x_board (rt_attach m p) = None"
  by (simp add: rt_attach_def)

text \<open>
  C39. Without a board an attempt to connect loses a socket. While a server answers at the port and no
  segment has the key, each call of \<^verbatim>\<open>rtd_open\<close> fails, since \<^verbatim>\<open>rt_attach\<close> finds no board, and leaves
  its socket open: \<^verbatim>\<open>rtd_close\<close> closes it only once the flag \<^verbatim>\<open>_OPEN_\<close> is set. After \<open>n\<close> attempts
  the process has \<open>n\<close> sockets more.
\<close>

theorem failed_open_leaks_socket:
  assumes "attached p" "x_board p = None" "seg_key m = None" "rs_memory rs" "\<And>i. i < n \<Longrightarrow> connects (co i) port"
  shows "\<exists>p'. open_again m co rs pid addr port n p = Some p' \<and> attached p' \<and> x_board p' = None \<and>
    x_fds p' = rev (map (co_socket \<circ> co) [0..<n]) @ x_fds p"
  using assms(5)
proof (induction n)
  case (Suc n)
  then obtain p1 where p1: "open_again m co rs pid addr port n p = Some p1" "attached p1" "x_board p1 = None"
    "x_fds p1 = rev (map (co_socket \<circ> co) [0..<n]) @ x_fds p" by auto
  let ?q = "open_fd (co_socket (co n)) (p1\<lparr>x_blocks := x_blocks p1 + 1\<rparr>)"
  have none: "x_board (rt_attach m ?q) = None" by (rule no_board_attached) (simp_all add: p1 assms(3))
  have "rtd_open m (co n) rs pid addr port p1 =
      Some (None, (rt_attach m ?q)\<lparr>x_blocks := x_blocks p1\<rparr>)"
    using Suc.prems [of n] assms(4) none
    by (simp add: rtd_open_def rt_connect_cases rtd_close_def rtis0_def Let_def FLAG_defs)
  moreover have "attached (rt_attach m ?q)" by (rule rt_attach_attached) (simp add: p1)
  ultimately show ?case using p1 none by (simp add: attached_def)
qed (simp add: assms)

subsection \<open>What the broker hears\<close>

lemma settle_same:
  "mask_b = cl_mask (rq_client rq ! c) \<Longrightarrow> c < length (rq_client rq) \<Longrightarrow> fold (settle_step c mask_b) ns rq = rq"
proof (induction ns)
  case (Cons ii ns)
  have "(rq_client rq)[c := rq_client rq ! c] = rq_client rq" by simp
  with Cons.prems have "settle_step c mask_b ii rq = rq"
    by (auto simp: settle_step_def upd_client_def)
  with Cons show ?case by simp
qed simp

lemma le_nat_zeros [simp]: "le_nat (replicate n NUL) = 0"
  by (induction n) (simp_all add: le_nat_def)

lemma set_pid_heard:
  "linked_to rq c \<Longrightarrow> cl_flag (rq_client rq ! c) = RQ_LOCAL \<Longrightarrow>
   recv_from_client (int c) [set_pid_cmd pid addr] rq =
     Some (upd_client c (\<lambda>cl. cl\<lparr>cl_pid := addr, cl_addr := 0\<rparr>) rq)"
proof -
  assume c: "linked_to rq c" "cl_flag (rq_client rq ! c) = RQ_LOCAL"
  let ?cmd = "set_pid_cmd pid addr"
  let ?rq' = "upd_client c (\<lambda>cl. cl\<lparr>cl_pid := addr, cl_addr := 0\<rparr>) rq"
  have "unat addr < 256 ^ 4" using unsigned_less [of addr] by simp
  then have pid: "le_nat (take 4 (cmd_symb ?cmd)) = unat addr"
    by (simp add: set_pid_cmd_def overwrite_def le_nat_bytes)
  have addr0: "le_nat (take 4 (drop 10 (cmd_symb ?cmd))) = 0"
    by (simp add: set_pid_cmd_def overwrite_def L_SYMB_def)
  have step: "run_cmd c ?cmd (cl_mask (rq_client rq ! c), rq) = Some (cl_mask (rq_client rq ! c), ?rq')"
    unfolding run_cmd_def Let_def split pid addr0 by (simp add: set_pid_cmd_def RT_defs)
  have "cl_mask (rq_client rq ! c) = cl_mask (rq_client ?rq' ! c)" "c < length (rq_client ?rq')"
    using c by (simp_all add: upd_client_def linked_to_def)
  then have "fold (settle_step c (cl_mask (rq_client rq ! c))) [0..<no_of_symbols rq] ?rq' = ?rq'"
    by (rule settle_same)
  then show ?thesis using c step
    by (simp add: recv_from_client_def check_command_for_client_def linked_to_def)
qed

lemma rtd_open_sends:
  assumes "rtd_open m co rs pid addr port p = Some (Some d, p1)"
  shows "x_sent p1 = x_sent p \<or> (\<exists>q. x_sent p1 = (q, r_rqid (d_self d), [set_pid_cmd pid addr]) # x_sent p)"
  using assms
  by (auto simp: rtd_open_def rt_connect_cases rtd_send_def Let_def split: if_splits option.splits prod.splits)

text \<open>
  The broker takes the network address for the process number: whatever a client that opens a
  connection sends to introduce itself, the broker notes the address as its process number, and 0 as
  its address.
\<close>

theorem broker_mistakes_address_for_pid:
  assumes "rtd_open m co rs pid addr port p = Some (Some d, p1)"
    and sent: "x_sent p1 = (q, int c, cmds) # x_sent p"
    and "linked_to rq c" "cl_flag (rq_client rq ! c) = RQ_LOCAL"
  shows "recv_from_client (int c) cmds rq = Some (upd_client c (\<lambda>cl. cl\<lparr>cl_pid := addr, cl_addr := 0\<rparr>) rq)"
proof -
  have "cmds = [set_pid_cmd pid addr]" using rtd_open_sends [OF assms(1)] sent by auto
  with set_pid_heard assms(3,4) show ?thesis by simp
qed

text \<open>
  After a broker has ended and another has started, attaching again takes the segment away from a
  connection that still uses it: its next batch reads memory that is not mapped.
\<close>

theorem reattach_breaks_connection:
  assumes "attached p" "x_board p = Some g" "r_board self = Some g" "r_alive self \<noteq> 0"
    and "seg_alive m g = 0" "seg_key m \<noteq> Some g"
  shows "rtd_send m' room cmds self (rt_attach m p) = None"
  using assms by (auto simp: attached_def rtd_send_def rt_attach_def Let_def split: option.split)

subsection \<open>A connection\<close>

definition segments1 :: segments where
  "segments1 = \<lparr> seg_memory = (\<lambda>_. broker1), seg_key = Some 0, seg_shmat = True \<rparr>"

definition connection1 :: connection where
  "connection1 = \<lparr> co_socket = 5, co_connect = (\<lambda>port. port = 7971), co_poll = 1, co_peer = Some 3 \<rparr>"

definition resources1 :: resources where
  "resources1 = \<lparr> rs_memory = True, rs_packets = True, rs_room = True, rs_thread = True \<rparr>"

definition process1 :: client_process where
  "process1 = \<lparr> x_board = None, x_mapped = [], x_fds = [0, 1, 2], x_blocks = 0, x_running = 1, x_unjoined = 1, x_sent = [] \<rparr>"

lemma attached1: "attached process1"
  by (simp add: attached_def process1_def)

lemma broker1_sel:
  "b_alive (rt_board broker1) = 1" "b_mqid (rt_board broker1) = [0, 0, 0]"
  by (simp_all add: broker1_def accept_client_def init_shm_def Let_def upd_client_def)

lemma open1: "\<exists>d p1. rtd_open segments1 connection1 resources1 77 16777343 0 process1 = Some (Some d, p1) \<and>
    r_rqid (d_self d) = 3 \<and> x_sent p1 = [(0, 3, [set_pid_cmd 77 16777343])]"
  by (simp add: rtd_open_def rt_connect_def RTD_PORT_def rt_attach_def rtd_send_def segments1_def resources1_def
      process1_def connection1_def rt_packet_init_def Let_def broker1_sel)

theorem connection_is_given_back_witness:
  "\<exists>d p1 d' p2. rtd_open segments1 connection1 resources1 77 16777343 0 process1 = Some (Some d, p1) \<and>
    client_steps [Send segments1 True [cmd_of RT_INS_SYMB ''F@A@H'' 1], Attach segments1] d p1 = Some (d', p2) \<and>
    x_fds (rtd_close (Some d') p2) = [0, 1, 2] \<and> x_unjoined (rtd_close (Some d') p2) = 2"
proof -
  obtain d p1 where o1: "rtd_open segments1 connection1 resources1 77 16777343 0 process1 = Some (Some d, p1)"
    using open1 by blast
  have "x_fds process1 = [0, 1, 2]" "x_unjoined process1 = 1" by (simp_all add: process1_def)
  with connection_is_given_back [OF attached1 o1,
      of "[Send segments1 True [cmd_of RT_INS_SYMB ''F@A@H'' 1], Attach segments1]"] o1
  show ?thesis by (auto simp: segments1_def broker1_sel)
qed

theorem failed_open_leaks_socket_witness:
  "\<exists>p'. open_again (segments1\<lparr>seg_key := None\<rparr>) (\<lambda>i. connection1\<lparr>co_socket := 5 + int i\<rparr>) resources1 77 0 0 3 process1 = Some p' \<and>
     x_fds p' = [7, 6, 5, 0, 1, 2]"
proof -
  have "\<exists>p'. open_again (segments1\<lparr>seg_key := None\<rparr>) (\<lambda>i. connection1\<lparr>co_socket := 5 + int i\<rparr>) resources1 77 0 0 3 process1 = Some p' \<and>
      attached p' \<and> x_board p' = None \<and>
      x_fds p' = rev (map (co_socket \<circ> (\<lambda>i. connection1\<lparr>co_socket := 5 + int i\<rparr>)) [0..<3]) @ x_fds process1"
    by (rule failed_open_leaks_socket [OF attached1])
      (simp_all add: process1_def resources1_def connects_def connection1_def RTD_PORT_def)
  then show ?thesis by (auto simp: process1_def numeral_3_eq_3 upt_rec)
qed

theorem broker_mistakes_address_for_pid_witness:
  "recv_from_client 3 [set_pid_cmd 77 16777343] broker1 =
     Some (upd_client 3 (\<lambda>cl. cl\<lparr>cl_pid := 16777343, cl_addr := 0\<rparr>) broker1)"
proof -
  obtain d p1 where o1: "rtd_open segments1 connection1 resources1 77 16777343 0 process1 = Some (Some d, p1)"
    "x_sent p1 = [(0, 3, [set_pid_cmd 77 16777343])]" using open1 by blast
  have "linked_to broker1 3" "cl_flag (rq_client broker1 ! 3) = RQ_LOCAL"
    by (simp_all add: broker1_def accept_client_def init_shm_def Let_def upd_client_def linked_to_def)
  with broker_mistakes_address_for_pid [OF o1(1), of 0 3] o1(2) show ?thesis by (simp add: process1_def)
qed

theorem reattach_breaks_connection_witness:
  "rtd_send segments1 True [] (rtis0\<lparr>r_board := Some 0, r_alive := 1\<rparr>)
     (rt_attach \<lparr> seg_memory = (\<lambda>_. broker1\<lparr>rt_board := (rt_board broker1)\<lparr>b_alive := 0\<rparr>\<rparr>), seg_key = Some 1, seg_shmat = True \<rparr>
       (process1\<lparr>x_board := Some 0, x_mapped := [0]\<rparr>)) = None"
  by (rule reattach_breaks_connection [where g = 0]) (simp_all add: attached_def)

end
