(* ===== verification/PushConfig.thy ===== *)
theory PushConfig
  imports XmlConfig
begin

text \<open>
  The broker's settings (\<^verbatim>\<open>src/push/config.c\<close>): the tags of the configuration file, read by
  \<open>getxmlcfg\<close>, set the variables of \<open>SETUP\<close>. A section that is not closed is searched for its end
  behind the tags that were read, in memory nobody has set: \<open>None\<close>, as are a word too long for its
  buffer and an overflow of \<^verbatim>\<open>int\<close>.
\<close>

definition K :: int where "K = 1024"
definition MAX_CPUS :: nat where "MAX_CPUS = 512"
definition MAX_THREADS :: int where "MAX_THREADS = 80"
definition USHRT_MAX :: int where "USHRT_MAX = 65535"
definition LL_ERROR :: int where "LL_ERROR = 1"
definition LL_WARNING :: int where "LL_WARNING = 2"
definition LL_PROGRESS :: int where "LL_PROGRESS = 3"
definition LL_DEBUG :: int where "LL_DEBUG = 4"


record SETUP =
  no_of_clients  :: int
  msg_que_size   :: "int list"
  no_of_threads  :: "int list"
  symbols_no     :: int \<comment> \<open>\<^verbatim>\<open>no_of_symbols\<close>\<close>
  buffers_no     :: int \<comment> \<open>\<^verbatim>\<open>no_of_buffers\<close>\<close>
  heartbeat_time :: int
  dynamic        :: int \<comment> \<open>\<^verbatim>\<open>dynamic_mode\<close>\<close>
  do_restart     :: int
  tm_restart     :: int
  logging_level  :: int
  rq_log_file    :: string
  symbol_file    :: string
  preload_file   :: string
  cpu_affinity   :: "int list" \<comment> \<open>the first \<^verbatim>\<open>n_cpus\<close>\<close>

definition setup0 :: SETUP where
  "setup0 = \<lparr>no_of_clients = 1024, msg_que_size = [128 * K, 256 * K, 64 * K], no_of_threads = [1, 1, 32, 2],
     symbols_no = 4096, buffers_no = 512, heartbeat_time = 30, dynamic = 1, do_restart = 0, tm_restart = 0,
     logging_level = 0, rq_log_file = [], symbol_file = [], preload_file = [], cpu_affinity = []\<rparr>"

subsection \<open>Words\<close>

text \<open>\<^verbatim>\<open>sscanf\<close> of \<open>n\<close> words into buffers of sixteen characters; the buffers it does not reach are empty.\<close>

definition scan_words :: "nat \<Rightarrow> string \<Rightarrow> string list option" where
  "scan_words n s =
     (let ws = take n (split_words s)
      in if \<exists>w\<in>set ws. length w \<ge> 16 then None else Some (ws @ replicate (n - length ws) []))"

definition unchar :: "char \<Rightarrow> string \<Rightarrow> string" where
  "unchar ch s = map (\<lambda>c. if c = ch then CHR '' '' else c) s"

definition checked_int :: "int \<Rightarrow> int option" where
  "checked_int n = (if - (2 ^ 31) \<le> n \<and> n < 2 ^ 31 then Some n else None)"

subsection \<open>The tuning section\<close>

definition set_threads :: "string \<Rightarrow> SETUP \<Rightarrow> SETUP option" where
  "set_threads vals c = map_option (\<lambda>ws. c\<lparr>no_of_threads := map atoi ws\<rparr>) (scan_words 4 (unchar (CHR '','') vals))"

definition set_queues :: "string \<Rightarrow> SETUP \<Rightarrow> SETUP option" where
  "set_queues vals c = do {
     ws \<leftarrow> scan_words 3 (unchar (CHR '','') vals);
     sizes \<leftarrow> those (map (\<lambda>w. checked_int (atoi w * K)) ws);
     Some (c\<lparr>msg_que_size := sizes\<rparr>) }"

text \<open>The first colon is replaced, for which \<open>takeWhile\<close> and \<open>dropWhile\<close> stand.\<close>

definition first_unchar :: "char \<Rightarrow> string \<Rightarrow> string" where
  "first_unchar ch s = takeWhile (\<lambda>c. c \<noteq> ch) s @
     (case dropWhile (\<lambda>c. c \<noteq> ch) s of [] \<Rightarrow> [] | _ # t \<Rightarrow> CHR '' '' # t)"

definition set_restart :: "string \<Rightarrow> SETUP \<Rightarrow> SETUP option" where
  "set_restart vals c =
     (if CHR '':'' \<notin> set vals then Some c
      else do {
        ws \<leftarrow> scan_words 2 (first_unchar (CHR '':'') vals);
        hundreds \<leftarrow> checked_int (atoi (ws ! 0) * 100);
        tm \<leftarrow> checked_int (hundreds + atoi (ws ! 1));
        Some (c\<lparr>tm_restart := tm, do_restart := (if tm \<noteq> 0 then 1 else do_restart c)\<rparr>) })"

text \<open>The CPUs one word names: a number, or the range of two numbers.\<close>

definition word_cpus :: "string \<Rightarrow> int list option" where
  "word_cpus w =
     (if CHR ''-'' \<in> set w then
        map_option (\<lambda>sub. [atoi (sub ! 0)..atoi (sub ! 1)]) (scan_words 2 (first_unchar (CHR ''-'') w))
      else Some [atoi w])"

fun add_cpus :: "string list \<Rightarrow> int list \<Rightarrow> int list option" where
  "add_cpus [] cpus = Some cpus"
| "add_cpus (w # ws) cpus =
     (if length cpus \<ge> MAX_CPUS \<or> w = [] then Some cpus
      else (case word_cpus w of
              None \<Rightarrow> None
            | Some new \<Rightarrow> add_cpus ws (cpus @ take (MAX_CPUS - length cpus) new)))"

definition set_cpus :: "string \<Rightarrow> SETUP \<Rightarrow> SETUP option" where
  "set_cpus vals c =
     (let argstr = filter (\<lambda>ch. ch \<noteq> CHR '' '') vals
      in if length argstr \<ge> 80 then None
         else if argstr = [] then Some (c\<lparr>cpu_affinity := []\<rparr>)
         else do {
           ws \<leftarrow> scan_words 16 (unchar (CHR '','') argstr);
           cpus \<leftarrow> add_cpus ws [];
           Some (c\<lparr>cpu_affinity := cpus\<rparr>) })"

definition tuning_parm :: "string \<times> string \<Rightarrow> SETUP \<Rightarrow> SETUP option" where
  "tuning_parm d c =
     (let v_parm = atoi (snd d); name = fst d
      in if strcasecmp_eq name ''no_of_clients'' then Some (c\<lparr>no_of_clients := v_parm\<rparr>)
         else if strcasecmp_eq name ''no_of_symbols'' then Some (c\<lparr>symbols_no := v_parm\<rparr>)
         else if strcasecmp_eq name ''no_of_buffers'' then Some (c\<lparr>buffers_no := v_parm\<rparr>)
         else if strcasecmp_eq name ''heartbeat'' then Some (c\<lparr>heartbeat_time := v_parm\<rparr>)
         else if strcasecmp_eq name ''no_of_threads'' then set_threads (snd d) c
         else if strcasecmp_eq name ''size_of_queue'' then set_queues (snd d) c
         else if strcasecmp_eq name ''restart'' then set_restart (snd d) c
         else if strcasecmp_eq name ''cpu_affinity'' then set_cpus (snd d) c
         else Some c)"

subsection \<open>The other sections\<close>

text \<open>File names of 128 characters and more overrun their buffers.\<close>

definition symbol_parm :: "string \<times> string \<Rightarrow> SETUP \<Rightarrow> SETUP option" where
  "symbol_parm d c =
     (if strcasecmp_eq (fst d) ''dynamic'' then Some (c\<lparr>dynamic := atoi (snd d)\<rparr>)
      else if strcasecmp_eq (fst d) ''file'' then
        (if length (snd d) \<ge> 128 then None else Some (c\<lparr>symbol_file := snd d\<rparr>))
      else if strcasecmp_eq (fst d) ''preload'' then
        (if length (snd d) \<ge> 128 then None else Some (c\<lparr>preload_file := snd d\<rparr>))
      else Some c)"

definition log_parm :: "string \<times> string \<Rightarrow> SETUP \<Rightarrow> SETUP option" where
  "log_parm d c =
     (if strcasecmp_eq (fst d) ''level'' then
        Some (if strcasecmp_eq (snd d) ''error'' then c\<lparr>logging_level := LL_ERROR\<rparr>
              else if strcasecmp_eq (snd d) ''warning'' then c\<lparr>logging_level := LL_WARNING\<rparr>
              else if strcasecmp_eq (snd d) ''progress'' then c\<lparr>logging_level := LL_PROGRESS\<rparr>
              else if strcasecmp_eq (snd d) ''debug'' then c\<lparr>logging_level := LL_DEBUG\<rparr>
              else c)
      else if strcasecmp_eq (fst d) ''file'' then
        (if length (snd d) \<ge> 128 then None else Some (c\<lparr>rq_log_file := snd d\<rparr>))
      else Some c)"

subsection \<open>Sections and the file\<close>

fun parms :: "(string \<times> string \<Rightarrow> SETUP \<Rightarrow> SETUP option) \<Rightarrow> (string \<times> string) list \<Rightarrow> SETUP \<Rightarrow> SETUP option" where
  "parms p [] c = Some c"
| "parms p (d # ds) c = (case p d c of None \<Rightarrow> None | Some c' \<Rightarrow> parms p ds c')"

text \<open>
  The loop the three sections share: over the tags behind the section's, to its end, \<open>k\<close> being what
  the end counts. The result is the number of tags used up.
\<close>

fun section_tags :: "(string \<times> string \<Rightarrow> SETUP \<Rightarrow> SETUP option) \<Rightarrow> string \<Rightarrow> nat \<Rightarrow> nat \<Rightarrow> xmltag list \<Rightarrow>
    SETUP \<Rightarrow> (nat \<times> SETUP) option" where
  "section_tags p endtag k n [] c = None"
| "section_tags p endtag k n (t # ts) c =
     (if x_tags t = [] then Some (n, c)
      else if strcasecmp_eq (x_tags t) endtag then Some (n + k, c)
      else if \<not> strcasecmp_eq (x_tags t) ''define'' \<and> \<not> strcasecmp_eq (x_tags t) ''def'' then
        section_tags p endtag k (Suc n) ts c
      else (case parms p (take (x_many t) (x_defs t)) c of
              None \<Rightarrow> None
            | Some c' \<Rightarrow> section_tags p endtag k (Suc n) ts c'))"

definition cfg_tuning :: "xmltag list \<Rightarrow> SETUP \<Rightarrow> (nat \<times> SETUP) option" where
  "cfg_tuning ts c =
     map_option (\<lambda>(n, c). (n, if symbols_no c > USHRT_MAX then c\<lparr>symbols_no := USHRT_MAX\<rparr> else c))
       (section_tags tuning_parm ''/tuning'' 1 1 ts c)"

definition cfg_symbol :: "xmltag list \<Rightarrow> SETUP \<Rightarrow> (nat \<times> SETUP) option" where
  "cfg_symbol ts c = section_tags symbol_parm ''/symbol'' 0 1 ts c"

definition cfg_log :: "xmltag list \<Rightarrow> SETUP \<Rightarrow> (nat \<times> SETUP) option" where
  "cfg_log ts c = section_tags log_parm ''/log'' 1 1 ts c"

definition cfg_proc :: "string \<Rightarrow> (xmltag list \<Rightarrow> SETUP \<Rightarrow> (nat \<times> SETUP) option) option" where
  "cfg_proc tag =
     (if strcasecmp_eq tag ''tuning'' then Some cfg_tuning
      else if strcasecmp_eq tag ''log'' then Some cfg_log
      else if strcasecmp_eq tag ''symbol'' then Some cfg_symbol
      else None)"

function config_tags :: "xmltag list \<Rightarrow> SETUP \<Rightarrow> SETUP option" where
  "config_tags [] c = Some c"
| "config_tags (t # ts) c =
     (case cfg_proc (x_tags t) of
        None \<Rightarrow> config_tags ts c
      | Some proc \<Rightarrow>
          (case proc ts c of None \<Rightarrow> None | Some (n, c') \<Rightarrow> config_tags (drop (max 1 n) (t # ts)) c'))"
  by pat_completeness auto
termination
  by (relation "measure (length \<circ> fst)") (auto simp: max_def)

definition clamp_threads :: "SETUP \<Rightarrow> SETUP" where
  "clamp_threads c = c\<lparr>no_of_threads :=
     map (\<lambda>n. if n \<le> 0 then 1 else if n > MAX_THREADS then MAX_THREADS else n) (take 3 (no_of_threads c)) @
     drop 3 (no_of_threads c)\<rparr>"

text \<open>\<^verbatim>\<open>config\<close> with room for 128 tags.\<close>

definition config :: "string list option \<Rightarrow> SETUP \<Rightarrow> (int \<times> SETUP) option" where
  "config cFile c =
     (case getxmlcfg 128 cFile of
        None \<Rightarrow> None
      | Some tags \<Rightarrow>
          if tags = [] then Some (-1, c)
          else map_option (\<lambda>c. (0, clamp_threads c)) (config_tags tags c))"

subsection \<open>What holds of the settings afterwards\<close>

definition setup_ok :: "SETUP \<Rightarrow> bool" where
  "setup_ok c \<longleftrightarrow> length (no_of_threads c) = 4 \<and> length (msg_que_size c) = 3 \<and> symbols_no c \<le> USHRT_MAX \<and>
     length (cpu_affinity c) \<le> MAX_CPUS \<and> length (rq_log_file c) < 128 \<and> length (symbol_file c) < 128 \<and>
     length (preload_file c) < 128"

text \<open>Inside the tuning section the count of symbols is not yet bounded.\<close>

definition setup_ok' :: "SETUP \<Rightarrow> bool" where
  "setup_ok' c \<longleftrightarrow> setup_ok (c\<lparr>symbols_no := 0\<rparr>)"

lemma setup_ok_iff: "setup_ok c \<longleftrightarrow> setup_ok' c \<and> symbols_no c \<le> USHRT_MAX"
  by (auto simp: setup_ok_def setup_ok'_def USHRT_MAX_def)

lemma setup_ok'_symbols [simp]: "setup_ok' (c\<lparr>symbols_no := n\<rparr>) = setup_ok' c"
  by (simp add: setup_ok'_def)

lemma scan_words_length: "scan_words n s = Some ws \<Longrightarrow> length ws = n"
  by (auto simp: scan_words_def Let_def split: if_splits)

lemma those_length: "those xs = Some ys \<Longrightarrow> length ys = length xs"
  by (induction xs arbitrary: ys) (auto split: option.splits)

lemma add_cpus_length: "add_cpus ws cpus = Some cpus' \<Longrightarrow> length cpus \<le> MAX_CPUS \<Longrightarrow> length cpus' \<le> MAX_CPUS"
  by (induction ws cpus rule: add_cpus.induct) (auto split: if_splits option.splits)

lemma tuning_parm_ok: "tuning_parm d c = Some c' \<Longrightarrow> setup_ok' c \<Longrightarrow> setup_ok' c'"
  by (auto simp: tuning_parm_def setup_ok'_def setup_ok_def set_threads_def set_queues_def set_restart_def set_cpus_def
      Let_def split: if_splits bind_splits dest!: scan_words_length those_length add_cpus_length)

lemma symbol_parm_ok: "symbol_parm d c = Some c' \<Longrightarrow> setup_ok c \<Longrightarrow> setup_ok c'"
  by (auto simp: symbol_parm_def setup_ok_def split: if_splits)

lemma log_parm_ok: "log_parm d c = Some c' \<Longrightarrow> setup_ok c \<Longrightarrow> setup_ok c'"
  by (auto simp: log_parm_def setup_ok_def split: if_splits)

definition keeps :: "('d \<Rightarrow> SETUP \<Rightarrow> SETUP option) \<Rightarrow> (SETUP \<Rightarrow> bool) \<Rightarrow> bool" where
  "keeps p P \<longleftrightarrow> (\<forall>d c c'. p d c = Some c' \<longrightarrow> P c \<longrightarrow> P c')"

lemma parms_keep: "keeps p P \<Longrightarrow> parms p ds c = Some c' \<Longrightarrow> P c \<Longrightarrow> P c'"
proof (induction ds arbitrary: c)
  case (Cons d ds)
  obtain c1 where c1: "p d c = Some c1" "parms p ds c1 = Some c'"
    using Cons.prems(2) by (auto split: option.splits)
  have "P c1" using Cons.prems(1,3) c1(1) unfolding keeps_def by blast
  with Cons.IH [OF Cons.prems(1) c1(2)] show ?case by blast
qed simp

lemma section_keeps: "keeps p P \<Longrightarrow> section_tags p e k n ts c = Some (m, c') \<Longrightarrow> P c \<Longrightarrow> P c'"
proof (induction ts arbitrary: n c)
  case (Cons t ts)
  have "P c2" if "parms p (take (x_many t) (x_defs t)) c = Some c2" for c2
    by (rule parms_keep [OF Cons.prems(1) that Cons.prems(3)])
  with Cons show ?case by (auto split: if_splits option.splits)
qed simp

lemma parms_ok: "keeps tuning_parm setup_ok'" "keeps symbol_parm setup_ok" "keeps log_parm setup_ok"
  using tuning_parm_ok symbol_parm_ok log_parm_ok unfolding keeps_def by blast+

lemma cfg_proc_ok:
  assumes "cfg_proc tag = Some proc" "proc ts c = Some (n, c')" "setup_ok c"
  shows "setup_ok c'"
proof -
  have t: "setup_ok c'" if cfg: "cfg_tuning ts c = Some (n, c')"
  proof -
    obtain c1 where c1: "section_tags tuning_parm ''/tuning'' 1 1 ts c = Some (n, c1)"
      "c' = (if symbols_no c1 > USHRT_MAX then c1\<lparr>symbols_no := USHRT_MAX\<rparr> else c1)"
      using cfg by (auto simp: cfg_tuning_def)
    have "setup_ok' c1"
      using section_keeps [OF parms_ok(1) c1(1)] assms(3) by (simp add: setup_ok_iff)
    then show ?thesis by (simp add: c1(2) setup_ok_iff)
  qed
  consider "proc = cfg_tuning" | "proc = cfg_symbol" | "proc = cfg_log"
    using assms(1) by (auto simp: cfg_proc_def split: if_splits)
  then show ?thesis
    using assms(2,3) t section_keeps [OF parms_ok(2)] section_keeps [OF parms_ok(3)]
    by cases (auto simp: cfg_symbol_def cfg_log_def)
qed

lemma config_tags_ok: "config_tags ts c = Some c' \<Longrightarrow> setup_ok c \<Longrightarrow> setup_ok c'"
proof (induction ts c rule: config_tags.induct)
  case (2 t ts c)
  then show ?case by (auto split: option.splits prod.splits dest: cfg_proc_ok)
qed simp

text \<open>
  Whatever the file says, the settings it leaves are within their arrays, the threads that the
  broker's loops step by are at least one and at most \<open>MAX_THREADS\<close>, and there are at most 65535 symbols.
\<close>

theorem config_bounds:
  assumes "config cFile setup0 = Some (0, c)"
  shows "setup_ok c \<and> (\<forall>i<3. 1 \<le> no_of_threads c ! i \<and> no_of_threads c ! i \<le> MAX_THREADS)"
proof -
  obtain tags c1 where c1: "config_tags tags setup0 = Some c1" "c = clamp_threads c1"
    using assms by (auto simp: config_def split: option.splits if_splits)
  have "setup_ok setup0" by (simp add: setup_ok_def setup0_def USHRT_MAX_def)
  then have "setup_ok c1" using config_tags_ok [OF c1(1)] by simp
  then show ?thesis
    by (auto simp: c1(2) clamp_threads_def setup_ok_def MAX_THREADS_def nth_append)
qed

theorem config_bounds_witness:
  "\<exists>c. config (Some [''<config><tuning><def no_of_threads='' @ in_quotes ''0,1,500,2'' @ ''></tuning></config>'']) setup0 = Some (0, c) \<and>
     no_of_threads c ! 2 \<le> MAX_THREADS"
proof -
  define f where "f = Some [''<config><tuning><def no_of_threads='' @ in_quotes ''0,1,500,2'' @ ''></tuning></config>'']"
  have "map_option fst (config f setup0) = Some 0" unfolding f_def by code_simp
  then obtain c where "config f setup0 = Some (0, c)" by auto
  with config_bounds [OF this] show ?thesis unfolding f_def by auto
qed

end
