(* ===== verification/BrokerMain.thy ===== *)
theory BrokerMain
  imports RtdClient PushConfig
begin

text \<open>
  The push broker's process: its log (\<^verbatim>\<open>dolog\<close> and \<^verbatim>\<open>clean_log_file\<close>), its start (\<^verbatim>\<open>main\<close> of
  \<^verbatim>\<open>src/push/feppush.c\<close>, \<^verbatim>\<open>init_msg\<close> of \<^verbatim>\<open>src/push/init.c\<close>), the loop that accepts and closes
  connections (\<^verbatim>\<open>listen_client\<close> of \<^verbatim>\<open>src/push/client.c\<close>), the requests of administration
  (\<^verbatim>\<open>src/push/admin.c\<close>) and the pool of packets (\<^verbatim>\<open>src/push/packet.c\<close>).

  What the system calls answer is an argument; the commands of the clients and the pushes come between
  the turns of the loop, from other threads. \<open>None\<close> is undefined behaviour.
\<close>

subsection \<open>The log\<close>

record CLOCK =
  ck_year :: int \<comment> \<open>since 1900\<close>
  ck_mon  :: int
  ck_mday :: int
  ck_hour :: int
  ck_min  :: int
  ck_sec  :: int
  ck_yday :: int

definition LOG_PATH :: nat where "LOG_PATH = 128"
definition LOG_MSG :: nat where "LOG_MSG = 256"
definition LOG_CALLER :: nat where "LOG_CALLER = 80"

text \<open>The log of a day, \<open>None\<close> when its name overruns the buffer.\<close>

definition day_log :: "string \<Rightarrow> CLOCK \<Rightarrow> string option" where
  "day_log file tm =
     (let path = file @ pad0 4 (ck_year tm + 1900) @ pad0 2 (ck_mon tm + 1) @ pad0 2 (ck_mday tm)
      in if length path < LOG_PATH then Some path else None)"

text \<open>
  \<^verbatim>\<open>clean_log_file\<close>: the static \<^verbatim>\<open>xday\<close> and the files it removes, those of the thirty days that
  end ten days ago, once a day. \<open>localtime\<close> is the time zone's.
\<close>

definition DAY :: int where "DAY = 24 * 60 * 60"

definition clean_log_file :: "(int \<Rightarrow> CLOCK) \<Rightarrow> int \<Rightarrow> string \<Rightarrow> int \<Rightarrow> (int \<times> string list) option" where
  "clean_log_file localtime clock file xday =
     (if file = [] then Some (xday, [])
      else if ck_yday (localtime clock) = xday then Some (xday, [])
      else map_option (\<lambda>paths. (ck_yday (localtime clock), paths))
             (those (map (\<lambda>ii. day_log file (localtime (clock - 10 * DAY - int ii * DAY))) [0..<30])))"

datatype log_line = LogFile string string | LogTty string

text \<open>
  \<^verbatim>\<open>dolog\<close> with the text that the arguments print: the file can be opened or not, and standard output
  is a terminal or not.
\<close>

definition has_paren :: "string \<Rightarrow> bool" where
  "has_paren s \<longleftrightarrow> CHR ''('' \<in> set s"

definition dolog ::
  "CLOCK \<Rightarrow> SETUP \<Rightarrow> (string \<Rightarrow> bool) \<Rightarrow> bool \<Rightarrow> string \<Rightarrow> int \<Rightarrow> string \<Rightarrow> log_line list option" where
  "dolog tm c openable tty whoami level text =
     (if logging_level c = 0 \<or> level > logging_level c then Some []
      else do {
        path \<leftarrow> (if rq_log_file c = [] then Some None else map_option Some (day_log (rq_log_file c) tm));
        let file = (case path of None \<Rightarrow> None | Some p \<Rightarrow> if openable p then Some p else None);
        if file = None \<and> \<not> tty then Some []
        else do {
          let caller = (if has_paren whoami then whoami else whoami @ ''()'');
          let stamp = pad0 2 (ck_mon tm + 1) @ ''/'' @ pad0 2 (ck_mday tm) @ '' '' @ pad0 2 (ck_hour tm) @
                '':'' @ pad0 2 (ck_min tm) @ '':'' @ pad0 2 (ck_sec tm) @ '' '';
          let logmsg = stamp @ (if logging_level c > 1 then caller @ '' '' else []) @ text;
          if length caller \<ge> LOG_CALLER \<or> length logmsg \<ge> LOG_MSG then None
          else Some ((case file of None \<Rightarrow> [] | Some p \<Rightarrow> [LogFile p (logmsg @ [CHR 0x0A])]) @
                     (if tty then [LogTty (logmsg @ [CHR 0x0A])] else []))
        } })"

subsection \<open>Packets\<close>

text \<open>
  A packet is known by its place in the memory allocated so far; the pool is the chain of free packets
  from \<^verbatim>\<open>free_packet.pkt_next\<close>.
\<close>

definition RQ_PKT_SIZE :: nat where "RQ_PKT_SIZE = 4080"

record rq_packet =
  pkt_chk  :: int
  pkt_len  :: int
  pkt_rcv  :: int
  pkt_buf  :: bytes
  pkt_next :: "nat option"

record packet_pool =
  pp_memory :: "rq_packet list"
  pp_free   :: "nat option"

definition packet0 :: rq_packet where
  "packet0 = \<lparr> pkt_chk = 0, pkt_len = 0, pkt_rcv = 0, pkt_buf = replicate RQ_PKT_SIZE NUL, pkt_next = None \<rparr>"

definition packet_init :: "packet_pool \<Rightarrow> int \<times> packet_pool" where
  "packet_init pp = (0, pp)"

definition packet_reset :: "nat option \<Rightarrow> packet_pool \<Rightarrow> packet_pool" where
  "packet_reset packet pp =
     (case packet of
        None \<Rightarrow> pp
      | Some b \<Rightarrow> pp\<lparr>pp_memory := (pp_memory pp)[b := (pp_memory pp ! b)\<lparr>pkt_chk := 0, pkt_rcv := 0, pkt_len := 0\<rparr>]\<rparr>)"

text \<open>\<open>memory\<close> is what \<^verbatim>\<open>malloc\<close> answers: the fresh packet holds whatever was there.\<close>

definition packet_alloc :: "rq_packet option \<Rightarrow> packet_pool \<Rightarrow> nat option \<times> packet_pool" where
  "packet_alloc memory pp =
     (let (n_packet, pp1) =
        (case pp_free pp of
           Some b \<Rightarrow> (Some b, pp\<lparr>pp_free := pkt_next (pp_memory pp ! b),
             pp_memory := (pp_memory pp)[b := (pp_memory pp ! b)\<lparr>pkt_next := None\<rparr>]\<rparr>)
         | None \<Rightarrow> (case memory of
             None \<Rightarrow> (None, pp)
           | Some junk \<Rightarrow> (Some (length (pp_memory pp)), pp\<lparr>pp_memory := pp_memory pp @ [junk]\<rparr>)));
        pp2 = (case n_packet of None \<Rightarrow> pp1 | Some b \<Rightarrow> pp1\<lparr>pp_memory := (pp_memory pp1)[b := packet0]\<rparr>)
      in (n_packet, packet_reset n_packet pp2))"

definition packet_free :: "nat option \<Rightarrow> packet_pool \<Rightarrow> packet_pool" where
  "packet_free packet pp =
     (case packet of
        None \<Rightarrow> pp
      | Some b \<Rightarrow> pp\<lparr>pp_memory := (pp_memory pp)[b := (pp_memory pp ! b)\<lparr>pkt_next := pp_free pp\<rparr>],
                     pp_free := Some b\<rparr>)"

subsection \<open>Message queues\<close>

text \<open>A queue, \<open>mq_stat\<close> telling whether \<^verbatim>\<open>IPC_STAT\<close> can be had for it.\<close>

record msgq =
  mq_id    :: int
  mq_texts :: "bytes list"
  mq_stat  :: bool
  mq_bytes :: int

text \<open>The loop of \<^verbatim>\<open>msgrcv\<close>, which takes one message after another until there is none.\<close>

fun drain :: "msgq \<Rightarrow> bytes list \<Rightarrow> msgq" where
  "drain q [] = q\<lparr>mq_texts := []\<rparr>"
| "drain q (m # ms) = drain (q\<lparr>mq_texts := ms\<rparr>) ms"

definition init_queue :: "int \<Rightarrow> msgq \<Rightarrow> msgq" where
  "init_queue qbytes q0 =
     (let q = drain q0 (mq_texts q0)
      in if mq_stat q \<and> qbytes \<noteq> 0 \<and> mq_bytes q \<noteq> qbytes then q\<lparr>mq_bytes := qbytes\<rparr> else q)"

text \<open>The queues that \<^verbatim>\<open>msgget\<close> answers with, in order, up to the first it refuses.\<close>

fun init_queues :: "(int \<times> msgq option) list \<Rightarrow> bool \<times> msgq list" where
  "init_queues [] = (True, [])"
| "init_queues ((qbytes, q) # qs) =
     (case q of
        None \<Rightarrow> (False, [])
      | Some q \<Rightarrow> let (ok, ready) = init_queues qs in (ok, init_queue qbytes q # ready))"

definition init_msg :: "int list \<Rightarrow> msgq option list \<Rightarrow> RQ \<Rightarrow> int \<times> msgq list \<times> RQ" where
  "init_msg qbytess qs rq =
     (let (ok, ready) = init_queues (zip qbytess qs)
      in if \<not> ok then (-1, ready, rq)
         else (0, ready, rq\<lparr>rt_board := (rt_board rq)\<lparr>b_mqid := map mq_id ready\<rparr>\<rparr>))"

subsection \<open>The start\<close>

text \<open>The limit of open files that is set, and whether it is less than what the clients may need.\<close>

definition raise_rlimit :: "int \<Rightarrow> int \<Rightarrow> int \<Rightarrow> int \<times> bool" where
  "raise_rlimit clients rlim_cur rlim_max =
     (if rlim_cur < clients then
        if clients + 80 > rlim_max then (rlim_max, True) else (clients + 80, False)
      else (rlim_cur, False))"

definition thread_stack :: "nat \<Rightarrow> nat" where
  "thread_stack stacksize = (if stacksize < 512 * 1024 then 512 * 1024 else stacksize)"

datatype thread = Checker nat | Receiver nat | Sender nat

definition broker_threads :: "SETUP \<Rightarrow> thread list" where
  "broker_threads c =
     map Checker [0..<nat (no_of_threads c ! 0)] @ map Receiver [0..<nat (no_of_threads c ! 1)] @
     map Sender [0..<nat (no_of_threads c ! 2)]"

text \<open>The threads are created in order; the first that cannot be created ends the process.\<close>

fun create_threads :: "(thread \<Rightarrow> bool) \<Rightarrow> thread list \<Rightarrow> bool" where
  "create_threads created [] = True"
| "create_threads created (t # ts) = (if created t then create_threads created ts else False)"

text \<open>\<^verbatim>\<open>reset_alive\<close>, which \<^verbatim>\<open>exit\<close> calls: the clients see that the broker has gone.\<close>

definition reset_alive :: "RQ \<Rightarrow> RQ" where
  "reset_alive rq = rq\<lparr>rt_board := (rt_board rq)\<lparr>b_alive := 0\<rparr>\<rparr>"

text \<open>
  What the start finds: the configuration file, whether the segment can be had, the masks' memory, the
  queues, the two symbol files, and the threads that can be created.
\<close>

record machine =
  mc_config  :: "string list option"
  mc_shm     :: bool
  mc_masks   :: "nat \<Rightarrow> mask_t list"
  mc_queues  :: "msgq option list"
  mc_symbols :: "string list option"
  mc_preload :: "string list option"
  mc_thread  :: "thread \<Rightarrow> bool"

datatype started = NotStarted | Exited RQ | Listening SETUP RQ

text \<open>
  \<^verbatim>\<open>main\<close>: with an argument it reads \<^verbatim>\<open>optarg\<close>, which nothing has set. That the configuration cannot
  be read is ignored. A negative number of clients or symbols asks for a size of memory that is not
  to be had. The limit of files and the stack of the threads, which \<open>raise_rlimit\<close> and
  \<open>thread_stack\<close> compute, have no part in the state. That the thread for administration cannot be
  created is ignored.
\<close>

definition named_file :: "string \<Rightarrow> string list option \<Rightarrow> string list option" where
  "named_file path content = (if path = [] then None else content)"

definition feppush_main :: "int \<Rightarrow> machine \<Rightarrow> started option" where
  "feppush_main argc m =
     (if argc > 1 then None
      else case config (mc_config m) setup0 of
        None \<Rightarrow> None
      | Some (_, c) \<Rightarrow>
          if \<not> mc_shm m \<or> no_of_clients c < 0 \<or> symbols_no c < 0 \<or> buffers_no c < 0 then Some NotStarted
          else
            let rq = init_shm (nat (no_of_clients c)) (nat (symbols_no c)) (nat (buffers_no c))
                       (dynamic c \<noteq> 0) (mc_masks m);
                (failed, _, rq1) = init_msg (msg_que_size c) (mc_queues m) rq
            in if failed \<noteq> 0 then Some NotStarted
               else case symbol_file_to_board (named_file (symbol_file c) (mc_symbols m)) rq1 of
                 None \<Rightarrow> None
               | Some rq2 \<Rightarrow>
                   (case symbol_pre_load (named_file (preload_file c) (mc_preload m)) rq2 of
                      None \<Rightarrow> None
                    | Some rq3 \<Rightarrow>
                        if create_threads (mc_thread m) (broker_threads c) then Some (Listening c rq3)
                        else Some (Exited (reset_alive rq3))))"

subsection \<open>Administration\<close>

text \<open>The request of a connection, \<open>type\<close> telling which of the other two is meant.\<close>

record peer4chck =
  pc_type :: int
  pc_rqid :: int
  pc_addr :: u32

text \<open>The first room but room 0 for which a test holds, as the loop over the clients finds it.\<close>

definition first_client :: "RQ \<Rightarrow> (rq_client \<Rightarrow> bool) \<Rightarrow> nat option" where
  "first_client rq test =
     find (\<lambda>ii. test (rq_client rq ! ii)) [1..<length (rq_client rq)]"

definition client_masks :: "RQ \<Rightarrow> nat \<Rightarrow> mask_t list option" where
  "client_masks rq ii =
     (if linked_to rq ii then Some (take (no_of_symbols rq) (cl_mask (rq_client rq ! ii))) else None)"

text \<open>The masks that are written back, \<open>None\<close> when the connection is closed without an answer.\<close>

definition admin_answer :: "RQ \<Rightarrow> peer4chck \<Rightarrow> mask_t list option" where
  "admin_answer rq pc =
     (if pc_type pc = 0 then
        if pc_rqid pc \<le> 0 \<or> pc_rqid pc \<ge> int (no_of_linked rq) \<or> pc_rqid pc \<ge> int (length (rq_client rq))
        then None else client_masks rq (nat (pc_rqid pc))
      else if pc_type pc = 1 then
        if pc_rqid pc \<le> 0 then None
        else Option.bind (first_client rq (\<lambda>cl. sint (cl_pid cl) = pc_rqid pc)) (client_masks rq)
      else if pc_type pc = 2 then
        if pc_addr pc = 0 then None
        else Option.bind (first_client rq (\<lambda>cl. cl_addr cl = pc_addr pc)) (client_masks rq)
      else None)"

text \<open>One turn of the inner loop: the results of \<^verbatim>\<open>accept\<close>, \<^verbatim>\<open>poll\<close> and \<^verbatim>\<open>read\<close>.\<close>

definition admin_command :: "int \<Rightarrow> int \<Rightarrow> peer4chck option \<Rightarrow> RQ \<Rightarrow> mask_t list option" where
  "admin_command csock check request rq =
     (if csock < 0 \<or> check \<le> 0 then None
      else case request of None \<Rightarrow> None | Some pc \<Rightarrow> admin_answer rq pc)"

subsection \<open>The loop\<close>

text \<open>\<open>bind_client\<close>: the socket, and whether the port is free. The result is the listening socket.\<close>

definition bind_client :: "int \<Rightarrow> bool \<Rightarrow> int" where
  "bind_client sock bound = (if sock < 0 then -1 else if \<not> bound then -1 else sock)"

text \<open>
  What a turn meets: the day, the time as \<^verbatim>\<open>hhmm\<close>, whether the symbol file can be written, the result
  of \<^verbatim>\<open>poll\<close>, the sockets on which something has happened, the listening one among them or not, and
  the answers for a new connection.
\<close>

record turn_env =
  tn_yday     :: int
  tn_hhmm     :: int
  tn_writable :: bool
  tn_check    :: int
  tn_ready    :: "nat \<Rightarrow> bool"
  tn_incoming :: bool
  tn_accept   :: int
  tn_local    :: bool
  tn_written  :: bool

text \<open>The sockets that are polled besides the listening one.\<close>

definition polled :: "RQ \<Rightarrow> nat list" where
  "polled rq = filter (\<lambda>ii. cl_sock (rq_client rq ! ii) = int ii \<and> cl_flag (rq_client rq ! ii) = RQ_LOCAL)
     [0..<no_of_linked rq]"

definition close_ready :: "(nat \<Rightarrow> bool) \<Rightarrow> nat list \<Rightarrow> RQ \<Rightarrow> RQ" where
  "close_ready ready socks rq = fold (\<lambda>sock rq. if ready sock then close_client sock rq else rq) socks rq"

text \<open>
  A turn: the day of the last one and the broker before and after; the Boolean is \<open>False\<close> when the loop
  ends. \<^verbatim>\<open>no_of_linked\<close> is the number of rooms at most, or the loop reads behind them. A turn in
  which nothing happens also calls \<open>clean_log_file\<close>, which only removes files.
\<close>

definition listen_turn :: "SETUP \<Rightarrow> turn_env \<Rightarrow> int \<times> RQ \<Rightarrow> (bool \<times> int \<times> RQ) option" where
  "listen_turn c tn st =
     (let (today, rq) = st
      in if tn_yday tn \<noteq> today \<and> do_restart c \<noteq> 0 \<and> tn_hhmm tn \<ge> tm_restart c then Some (False, tn_yday tn, rq)
         else
           let rq1 = snd (board_symbol_to_file (tn_writable tn) rq); socks = polled rq1
           in if no_of_linked rq1 > length (rq_client rq1) \<or> length socks \<ge> length (rq_client rq1) then None
              else if tn_check tn \<le> 0 then Some (True, tn_yday tn, rq1)
              else
                let rq2 = close_ready (tn_ready tn) socks rq1
                in Some (True, tn_yday tn,
                     if tn_incoming tn then accept_client (tn_accept tn) (tn_local tn) (tn_written tn) rq2
                     else rq2))"

text \<open>The turns until the loop ends or the list does, without what other threads do between them.\<close>

fun listen_turns :: "SETUP \<Rightarrow> turn_env list \<Rightarrow> int \<times> RQ \<Rightarrow> (bool \<times> int \<times> RQ) option" where
  "listen_turns c [] st = Some (True, st)"
| "listen_turns c (tn # tns) st =
     (case listen_turn c tn st of
        None \<Rightarrow> None
      | Some (goes, st') \<Rightarrow> if goes then listen_turns c tns st' else Some (False, st'))"

definition listen_client :: "SETUP \<Rightarrow> int \<Rightarrow> bool \<Rightarrow> int \<Rightarrow> turn_env list \<Rightarrow> RQ \<Rightarrow> (bool \<times> int \<times> RQ) option" where
  "listen_client c sock bound yday tns rq =
     (if bind_client sock bound < 0 then Some (False, yday, rq) else listen_turns c tns (yday, rq))"

subsection \<open>The packets in use and the free ones\<close>

fun packet_chain :: "rq_packet list \<Rightarrow> nat option \<Rightarrow> nat list \<Rightarrow> bool" where
  "packet_chain h p [] \<longleftrightarrow> p = None"
| "packet_chain h p (b # bs) \<longleftrightarrow> p = Some b \<and> b < length h \<and> b \<notin> set bs \<and> packet_chain h (pkt_next (h ! b)) bs"

lemma packet_chain_frame: "b \<notin> set bs \<Longrightarrow> packet_chain (h[b := x]) p bs = packet_chain h p bs"
  by (induction bs arbitrary: p) auto

lemma packet_chain_grow: "packet_chain h p bs \<Longrightarrow> packet_chain (h @ xs) p bs"
  by (induction bs arbitrary: p) (auto simp: nth_append)

lemma packet_chain_bound: "packet_chain h p bs \<Longrightarrow> b \<in> set bs \<Longrightarrow> b < length h"
  by (induction bs arbitrary: p) auto

text \<open>The free packets, in the order they will be used again; what is handed out is none of them.\<close>

definition pool_free :: "packet_pool \<Rightarrow> nat list \<Rightarrow> bool" where
  "pool_free pp bs \<longleftrightarrow> packet_chain (pp_memory pp) (pp_free pp) bs"

lemma packet0_reset [simp]: "packet0\<lparr>pkt_chk := 0, pkt_rcv := 0, pkt_len := 0\<rparr> = packet0"
  by (simp add: packet0_def)

lemma packet_alloc_reuses:
  assumes "pool_free pp (b # bs)"
  shows "\<exists>pp'. packet_alloc memory pp = (Some b, pp') \<and> pool_free pp' bs \<and> pp_memory pp' ! b = packet0 \<and>
    length (pp_memory pp') = length (pp_memory pp)"
proof -
  have "pp_free pp = Some b" "b < length (pp_memory pp)" "b \<notin> set bs"
    "packet_chain (pp_memory pp) (pkt_next (pp_memory pp ! b)) bs"
    using assms by (simp_all add: pool_free_def)
  then show ?thesis by (simp add: packet_alloc_def packet_reset_def pool_free_def packet_chain_frame)
qed

lemma packet_alloc_fresh:
  assumes "pool_free pp []" "memory = Some junk"
  shows "\<exists>pp'. packet_alloc memory pp = (Some (length (pp_memory pp)), pp') \<and> pool_free pp' [] \<and>
    pp_memory pp' = pp_memory pp @ [packet0]"
  using assms by (simp add: pool_free_def packet_alloc_def packet_reset_def)

lemma packet_free_pool:
  assumes "pool_free pp bs" "b < length (pp_memory pp)" "b \<notin> set bs"
  shows "pool_free (packet_free (Some b) pp) (b # bs)"
  using assms by (simp add: pool_free_def packet_free_def packet_chain_frame)

subsection \<open>The queues after the start\<close>

lemma drain_all: "drain q ms = q\<lparr>mq_texts := []\<rparr>"
  by (induction ms arbitrary: q) simp_all

lemma init_queue_sel [simp]:
  "mq_texts (init_queue n q) = []" "mq_stat (init_queue n q) = mq_stat q" "mq_id (init_queue n q) = mq_id q"
  "mq_stat q \<Longrightarrow> n \<noteq> 0 \<Longrightarrow> mq_bytes (init_queue n q) = n"
  by (simp_all add: init_queue_def drain_all Let_def)

lemma init_queues_all:
  "init_queues sqs = (True, ready) \<Longrightarrow> ready = map (\<lambda>(n, q). init_queue n (the q)) sqs"
proof (induction sqs arbitrary: ready)
  case (Cons sq sqs)
  then show ?case by (cases sq) (auto split: option.splits prod.splits)
qed simp

theorem init_msg_empties_queues:
  assumes "init_msg sizes qs rq = (0, ready, rq')" "length sizes = length qs"
  shows "length ready = length qs \<and> b_mqid (rt_board rq') = map mq_id ready \<and>
    (\<forall>q\<in>set ready. mq_texts q = []) \<and>
    (\<forall>i<length ready. mq_stat (ready ! i) \<longrightarrow> sizes ! i \<noteq> 0 \<longrightarrow> mq_bytes (ready ! i) = sizes ! i)"
proof -
  have "init_queues (zip sizes qs) = (True, ready)" "b_mqid (rt_board rq') = map mq_id ready"
    using assms(1) by (auto simp: init_msg_def split: prod.splits if_splits)
  moreover from this(1) have "ready = map (\<lambda>(n, q). init_queue n (the q)) (zip sizes qs)"
    by (rule init_queues_all)
  ultimately show ?thesis using assms(2) by (auto simp: split_beta)
qed

lemma init_msg_ok:
  assumes "init_msg sizes qs rq = (0, ready, rq')"
  shows "board_ok rq' = board_ok rq" "counts_ok rq' = counts_ok rq" "rq_client rq' = rq_client rq"
    "no_of_linked rq' = no_of_linked rq" "no_of_symbols rq' = no_of_symbols rq"
  using assms
  by (auto simp: init_msg_def board_ok_def counts_ok_def live_symbs_def listeners_def linked_to_def
    split: prod.splits if_splits)

subsection \<open>The symbols loaded at the start\<close>

lemma file_names_length: "file_names n ls = Some ns \<Longrightarrow> length ns \<le> max 1 n"
proof (induction n ls arbitrary: ns rule: file_names.induct)
  case (2 n line ls)
  from 2 show ?case by (fastforce simp: Let_def split: if_splits)
qed simp

lemma number_symbs_nth: "i < length ys \<Longrightarrow> number_symbs ys ! i = (ys ! i)\<lparr>y_seqn := to_short (int i)\<rparr>"
  by (simp add: number_symbs_def nth_enumerate_eq)

lemma length_number_symbs [simp]: "length (number_symbs ys) = length ys"
  by (simp add: number_symbs_def)

lemma number_symbs_names [simp]: "map y_symb (number_symbs ys) = map y_symb ys"
  by (rule nth_equalityI) (simp_all add: number_symbs_nth)

lemma number_symbs_seqns: "length ys \<le> 32768 \<Longrightarrow> map y_seqn (number_symbs ys) = map int [0..<length ys]"
  by (rule nth_equalityI) (simp_all add: number_symbs_nth to_short_id)

definition unheard :: "RQ \<Rightarrow> bool" where
  "unheard rq \<longleftrightarrow> (\<forall>i<length (rq_client rq). cl_sock (rq_client rq ! i) = -1)"

lemma unheard_listeners: "unheard rq \<Longrightarrow> listeners rq r = {}"
  by (auto simp: unheard_def listeners_def linked_to_def)

lemma load_names_ok:
  assumes ok: "board_ok rq" "counts_ok rq" "unheard rq"
    and names: "distinct ns" "length ns \<le> no_of_symbols rq"
  obtains rq' where "load_names ns rq = Some rq'" "board_ok rq'" "counts_ok rq'" "unheard rq'"
    "rq_client rq' = rq_client rq" "no_of_linked rq' = no_of_linked rq" "no_of_symbols rq' = no_of_symbols rq"
    "names rq' = sort ns"
proof -
  let ?n = "length ns" and ?tab = "symb (rt_symbol rq)"
  define filled where "filled = map (\<lambda>(w, y). y\<lparr>y_symb := w, y_mark := 1\<rparr>) (zip ns ?tab)"
  define ys where "ys = number_symbs (qsort cmp_symb filled)"
  define hs where "hs = map (\<lambda>(y, h). h\<lparr>h_symb := y_symb y, h_mark := 1\<rparr>) (zip ys (hooks rq)) @ drop ?n (hooks rq)"
  define rq' where "rq' = rq\<lparr>rt_symbol := (rt_symbol rq)\<lparr>valr := ?n, symb := ys @ drop ?n ?tab\<rparr>,
    rt_board := (rt_board rq)\<lparr>b_hook := hs\<rparr>\<rparr>"
  note b = board_okD [OF ok(1)]
  have len: "?n \<le> length ?tab" "?n \<le> length (hooks rq)" "?n \<le> 32768" using names(2) b by linarith+
  have fl: "map y_symb filled = ns" "length filled = ?n"
    unfolding filled_def using len by (auto intro: nth_equalityI)
  have yl: "length ys = ?n" using fl(2) by (simp add: ys_def)
  have live: "live_symbs rq' = ys" using yl by (simp add: live_symbs_def rq'_def)
  have srt: "sorted (map y_symb ys)" "distinct (map y_symb ys)" "mset (map y_symb ys) = mset ns"
    using fl symbols.sorted_qsort [of filled] symbols.distinct_qsort [of filled] names(1)
    by (simp_all add: ys_def flip: fl(1)) 
  have seqn: "map y_seqn ys = map int [0..<?n]"
    using number_symbs_seqns [of "qsort cmp_symb filled"] len(3) fl(2) by (simp add: ys_def)
  have yi: "y_seqn (ys ! i) = int i" if "i < ?n" for i
    using arg_cong [OF seqn, of "\<lambda>l. l ! i"] that yl by simp
  have hl: "length hs = length (hooks rq)" using len yl by (simp add: hs_def)
  have hook: "hs ! i = (if i < ?n then (hooks rq ! i)\<lparr>h_symb := y_symb (ys ! i), h_mark := 1\<rparr> else hooks rq ! i)"
    if "i < length (hooks rq)" for i
    using that len yl by (simp add: hs_def nth_append)
  have "h_symb (hs ! nat (y_seqn y)) = y_symb y" if "y \<in> set ys" for y
    using that hook yi yl len(2) by (auto simp: in_set_conv_nth)
  then have "board_ok rq'"
    using b names(2) srt seqn hl len yl
    by (simp add: board_ok_def live) (simp add: rq'_def)
  moreover have un: "unheard rq'" using ok(3) by (simp add: unheard_def rq'_def)
  moreover have "unat (h_many (hooks rq' ! r)) = 0" if "r < no_of_symbols rq" for r
    using counts_okD(2) [OF ok(2) that] unheard_listeners [OF ok(3)] hook [of r] that b(5)
    by (simp add: rq'_def)
  then have "counts_ok rq'"
    using counts_okD(1) [OF ok(2)] unheard_listeners [OF un] by (simp add: counts_ok_def) (simp add: rq'_def)
  moreover have "load_names ns rq = Some rq'"
    using len by (simp add: load_names_def rq'_def hs_def ys_def filled_def Let_def)
  moreover have "names rq' = sort ns"
    using srt properties_for_sort [of "map y_symb ys" ns] by (simp add: live)
  ultimately show thesis by (intro that [of rq']) (simp_all add: rq'_def)
qed

subsection \<open>The rooms in use\<close>

text \<open>\<^verbatim>\<open>no_of_linked\<close> changes with connections only and never exceeds the number of rooms.\<close>

lemma subscribe_linked:
  "subscribe client room mk mb rq = Some (mb', rq') \<Longrightarrow> no_of_linked rq' = no_of_linked rq"
  by (auto simp: subscribe_def upd_client_def upd_hook_def Let_def split: option.splits if_splits)

lemma cleaning_linked: "no_of_linked (snd (cleaning_board rq)) = no_of_linked rq"
proof -
  have "no_of_linked (snd (fold clean_step ns st)) = no_of_linked (snd st)" for ns st
    by (induction ns arbitrary: st)
      (auto simp: clean_step_def upd_symb_def upd_hook_def Let_def split: prod.splits)
  then show ?thesis by (simp add: cleaning_board_def)
qed

lemma enter_linked: "enter_symb s indx room rq = Some rq' \<Longrightarrow> no_of_linked rq' = no_of_linked rq"
  by (auto simp: enter_symb_def upd_symb_def upd_hook_def Let_def split: option.splits if_splits)

lemma insert_linked:
  assumes "insert_symbol_to_board s client mk mb rq = Some (room, mb', rq')"
  shows "no_of_linked rq' = no_of_linked rq"
proof (cases "find_symb rq s")
  case (Some i)
  with assms show ?thesis
    by (auto simp: insert_symbol_to_board_def upd_symb_def upd_hook_def Let_def
      split: if_splits dest!: subscribe_linked)
next
  case None
  with assms cleaning_linked [of rq] show ?thesis
    by (auto simp: insert_symbol_to_board_def Let_def
      split: if_splits option.splits prod.splits dest!: subscribe_linked enter_linked)
qed

lemma run_cmd_linked: "run_cmd c cmd st = Some st' \<Longrightarrow> no_of_linked (snd st') = no_of_linked (snd st)"
  by (auto simp: run_cmd_def upd_client_def Let_def insert_linked
    split: prod.splits if_splits option.splits)

lemma run_cmds_linked: "run_cmds c cmds st = Some st' \<Longrightarrow> no_of_linked (snd st') = no_of_linked (snd st)"
proof (induction cmds arbitrary: st)
  case (Cons cmd cmds)
  from Cons.prems obtain st1 where "run_cmd c cmd st = Some st1" "run_cmds c cmds st1 = Some st'"
    by (auto split: option.splits)
  with Cons.IH [of st1] run_cmd_linked [of c cmd st st1] show ?case by simp
qed simp

lemma settle_linked: "no_of_linked (fold (settle_step c mb) ns rq) = no_of_linked rq"
  by (induction ns arbitrary: rq) (simp_all add: settle_step_def upd_client_def upd_hook_def Let_def)

lemma recv_linked: "recv_from_client sock cmds rq = Some rq' \<Longrightarrow> no_of_linked rq' = no_of_linked rq"
  by (auto simp: recv_from_client_def check_command_for_client_def settle_linked
    split: if_splits option.splits prod.splits dest!: run_cmds_linked)

lemma last_linked_bound: "last_linked rq \<le> length (rq_client rq)"
proof -
  have "fold (\<lambda>ii valr. if P ii then Suc ii else valr) [0..<n] 0 \<le> n" for P and n :: nat
    by (induction n) (auto intro: le_SucI)
  then show ?thesis unfolding last_linked_def by simp
qed

lemma length_leave: "length (rq_client (fold (leave_step c) ns rq)) = length (rq_client rq)"
  by (induction ns arbitrary: rq) (simp_all add: leave_step_def upd_client_def upd_hook_def Let_def)

lemma close_rooms:
  "length (rq_client (close_client c rq)) = length (rq_client rq)"
  "no_of_linked rq \<le> length (rq_client rq) \<Longrightarrow>
    no_of_linked (close_client c rq) \<le> length (rq_client rq)"
  using last_linked_bound [of "fold (leave_step c) [0..<no_of_symbols rq]
    (upd_client c (\<lambda>cl. cl\<lparr>cl_sock := -1, cl_pid := 0, cl_addr := 0\<rparr>) rq)"]
  by (auto simp: close_client_def Let_def length_leave upd_client_def)

lemma leave_sock: "cl_sock (rq_client (fold (leave_step c) ns rq) ! d) = cl_sock (rq_client rq ! d)"
proof (induction ns arbitrary: rq)
  case (Cons n ns)
  have "cl_sock (rq_client (leave_step c n rq) ! d) = cl_sock (rq_client rq ! d)"
    by (cases "c < length (rq_client rq)"; cases "d = c")
      (simp_all add: leave_step_def upd_client_def upd_hook_def Let_def list_update_beyond)
  with Cons show ?case by simp
qed simp

lemma close_keeps_free: "\<not> linked_to rq d \<Longrightarrow> \<not> linked_to (close_client c rq) d"
proof -
  assume d: "\<not> linked_to rq d"
  have "linked_to (close_client c rq) d \<longleftrightarrow> linked_to rq d \<and> d \<noteq> c" if "linked_to rq c"
    using that by (cases "d = c")
      (auto simp: close_client_def linked_to_def Let_def length_leave leave_sock upd_client_def)
  with d show ?thesis by (auto simp: close_client_def)
qed

lemma accept_rooms:
  "length (rq_client (accept_client s l w rq)) = length (rq_client rq)"
  "no_of_linked rq \<le> length (rq_client rq) \<Longrightarrow> no_of_linked (accept_client s l w rq) \<le> length (rq_client rq)"
  "d \<noteq> nat s \<Longrightarrow> \<not> linked_to rq d \<Longrightarrow> \<not> linked_to (accept_client s l w rq) d"
  by (auto simp: accept_client_def upd_client_def linked_to_def Let_def)

lemma broker_symbols:
  "no_of_symbols (accept_client s l w rq) = no_of_symbols rq"
  by (simp add: accept_client_def upd_client_def Let_def)

subsection \<open>The broker's life\<close>

text \<open>
  What holds between the steps: the board and the counts are right, the rooms that are looked at exist,
  and nobody has the listening socket's room.
\<close>

definition life_ok :: "nat \<Rightarrow> RQ \<Rightarrow> bool" where
  "life_ok lsock rq \<longleftrightarrow> board_ok rq \<and> counts_ok rq \<and> no_of_linked rq \<le> length (rq_client rq) \<and>
     lsock < length (rq_client rq) \<and> \<not> linked_to rq lsock"

text \<open>
  The kernel's side of a turn: the sockets of clients that are open. A turn closes those on which
  something has happened, and a new connection stays open when the broker keeps it. The kernel gives out
  a socket that is not open, and the listening one is.
\<close>

definition closed_by :: "turn_env \<Rightarrow> RQ \<Rightarrow> nat set" where
  "closed_by tn rq = (if tn_check tn \<le> 0 then {} else {sock \<in> set (polled rq). tn_ready tn sock})"

definition kept_by :: "turn_env \<Rightarrow> RQ \<Rightarrow> nat set" where
  "kept_by tn rq =
     (if tn_check tn > 0 \<and> tn_incoming tn \<and> tn_accept tn \<ge> 0 \<and> nat (tn_accept tn) < length (rq_client rq) \<and>
         tn_local tn \<and> tn_written tn
      then {nat (tn_accept tn)} else {})"

definition fresh_socket :: "nat \<Rightarrow> turn_env \<Rightarrow> RQ \<Rightarrow> nat set \<Rightarrow> bool" where
  "fresh_socket lsock tn rq opened \<longleftrightarrow> tn_accept tn < 0 \<or>
     nat (tn_accept tn) \<noteq> lsock \<and> nat (tn_accept tn) \<notin> opened - closed_by tn rq"

text \<open>
  The steps of the process: a turn of the loop, a batch of commands from a client whose connection is
  open, or a connection that a sender thread finds broken and closes. A state has the day of the last
  turn, the open sockets and the broker.
\<close>

type_synonym life_state = "int \<times> nat set \<times> RQ"

inductive life :: "SETUP \<Rightarrow> nat \<Rightarrow> life_state \<Rightarrow> life_state \<Rightarrow> bool" for c lsock where
  Turn: "fresh_socket lsock tn rq opened \<Longrightarrow> listen_turn c tn (day, rq) = Some (True, day', rq') \<Longrightarrow>
    life c lsock (day, opened, rq) (day', opened - closed_by tn rq \<union> kept_by tn rq, rq')"
| Batch: "sock \<in> opened \<Longrightarrow> \<forall>cmd\<in>set cmds. cmd_ok cmd \<Longrightarrow> recv_from_client (int sock) cmds rq = Some rq' \<Longrightarrow>
    life c lsock (day, opened, rq) (day, opened, rq')"
| Broken: "life c lsock (day, opened, rq) (day, opened - {sock}, close_client sock rq)"

text \<open>Only open connections listen: the room of a connection that was refused has empty masks.\<close>

definition heard_open :: "nat set \<Rightarrow> RQ \<Rightarrow> bool" where
  "heard_open opened rq \<longleftrightarrow> (\<forall>r<no_of_symbols rq. listeners rq r \<subseteq> opened)"

definition state_ok :: "nat \<Rightarrow> life_state \<Rightarrow> bool" where
  "state_ok lsock st \<longleftrightarrow> (case st of (day, opened, rq) \<Rightarrow> life_ok lsock rq \<and> heard_open opened rq)"

lemma written_board:
  "\<exists>n. snd (board_symbol_to_file w rq) = rq\<lparr>modified := n\<rparr>"
proof (cases "snd (board_symbol_to_file w rq) = rq")
  case True
  then have "snd (board_symbol_to_file w rq) = rq\<lparr>modified := modified rq\<rparr>" by simp
  then show ?thesis by blast
qed (auto simp: board_symbol_to_file_def split: if_splits)

lemma modified_frame [simp]:
  "board_ok (rq\<lparr>modified := n\<rparr>) = board_ok rq" "counts_ok (rq\<lparr>modified := n\<rparr>) = counts_ok rq"
  "linked_to (rq\<lparr>modified := n\<rparr>) d = linked_to rq d" "polled (rq\<lparr>modified := n\<rparr>) = polled rq"
  "listeners (rq\<lparr>modified := n\<rparr>) r = listeners rq r"
  by (simp_all add: board_ok_def counts_ok_def live_symbs_def listeners_def linked_to_def polled_def)

lemma close_modified: "close_client d (rq\<lparr>modified := n\<rparr>) = (close_client d rq)\<lparr>modified := n\<rparr>"
proof -
  have "leave_step d i (rq\<lparr>modified := n\<rparr>) = (leave_step d i rq)\<lparr>modified := n\<rparr>" for i rq
    by (simp add: leave_step_def upd_client_def upd_hook_def Let_def)
  then have "fold (leave_step d) ns (rq\<lparr>modified := n\<rparr>) = (fold (leave_step d) ns rq)\<lparr>modified := n\<rparr>" for ns rq
    by (induction ns arbitrary: rq) simp_all
  moreover have "upd_client d f (rq\<lparr>modified := n\<rparr>) = (upd_client d f rq)\<lparr>modified := n\<rparr>" for f
    by (simp add: upd_client_def)
  ultimately show ?thesis by (simp add: close_client_def last_linked_def Let_def)
qed

lemma close_ready_modified:
  "close_ready ready socks (rq\<lparr>modified := n\<rparr>) = (close_ready ready socks rq)\<lparr>modified := n\<rparr>"
  unfolding close_ready_def by (induction socks arbitrary: rq) (simp_all add: close_modified)

lemma close_life: "life_ok lsock rq \<Longrightarrow> life_ok lsock (close_client d rq)"
  by (simp add: life_ok_def close_client_ok close_rooms close_keeps_free)

lemma close_ready_life: "life_ok lsock rq \<Longrightarrow> life_ok lsock (close_ready ready socks rq)"
  unfolding close_ready_def by (induction socks arbitrary: rq) (simp_all add: close_life)

lemma polled_bound: "life_ok lsock rq \<Longrightarrow> length (polled rq) < length (rq_client rq)"
proof -
  assume ok: "life_ok lsock rq"
  then have "set (polled rq) \<subseteq> {0..<length (rq_client rq)} - {lsock}"
    by (auto simp: polled_def life_ok_def linked_to_def)
  then have "card (set (polled rq)) \<le> card ({0..<length (rq_client rq)} - {lsock})" by (intro card_mono) auto
  moreover have "distinct (polled rq)" by (simp add: polled_def)
  moreover have "lsock < length (rq_client rq)" using ok by (simp add: life_ok_def)
  ultimately show ?thesis by (simp add: distinct_card)
qed

lemma turn_defined: "life_ok lsock rq \<Longrightarrow> listen_turn c tn (day, rq) \<noteq> None"
  using written_board [of "tn_writable tn" rq] polled_bound [of lsock rq]
  by (auto simp: listen_turn_def life_ok_def Let_def)

lemma leave_others: "d \<noteq> c \<Longrightarrow> rq_client (fold (leave_step c) ns rq) ! d = rq_client rq ! d"
proof (induction ns arbitrary: rq)
  case (Cons n ns)
  have "rq_client (leave_step c n rq) ! d = rq_client rq ! d"
    using Cons.prems by (simp add: leave_step_def upd_client_def upd_hook_def Let_def)
  with Cons show ?case by simp
qed simp

lemma close_symbols [simp]: "no_of_symbols (close_client d rq) = no_of_symbols rq"
proof -
  have "no_of_symbols (fold (leave_step d) ns rq) = no_of_symbols rq" for ns rq
    by (induction ns arbitrary: rq) (simp_all add: leave_step_def upd_client_def upd_hook_def Let_def)
  then show ?thesis by (simp add: close_client_def upd_client_def Let_def)
qed

text \<open>A client that is closed listens no more, the others as before.\<close>

lemma close_listeners: "listeners (close_client c rq) r \<subseteq> listeners rq r - {c}"
proof (cases "linked_to rq c")
  case False
  then show ?thesis by (auto simp: close_client_def listeners_def)
next
  case True
  let ?rq1 = "upd_client c (\<lambda>cl. cl\<lparr>cl_sock := -1, cl_pid := 0, cl_addr := 0\<rparr>) rq"
  have cl: "rq_client (close_client c rq) = rq_client (fold (leave_step c) [0..<no_of_symbols rq] ?rq1)"
    using True by (simp add: close_client_def Let_def)
  have "cl_sock (rq_client (close_client c rq) ! c) = -1"
    using True by (simp add: cl leave_sock upd_client_def linked_to_def)
  moreover have "rq_client (close_client c rq) ! d = rq_client rq ! d" if "d \<noteq> c" for d
    using that by (simp add: cl leave_others upd_client_def)
  ultimately have "x \<noteq> c \<and> x \<in> listeners rq r" if "x \<in> listeners (close_client c rq) r" for x
    using that by (cases "x = c") (simp_all add: listeners_def linked_to_def close_rooms(1))
  then show ?thesis by blast
qed

lemma close_ready_symbols: "no_of_symbols (close_ready ready socks rq) = no_of_symbols rq"
  unfolding close_ready_def by (induction socks arbitrary: rq) simp_all

lemma close_ready_rooms: "length (rq_client (close_ready ready socks rq)) = length (rq_client rq)"
  unfolding close_ready_def by (induction socks arbitrary: rq) (simp_all add: close_rooms(1))

lemma close_ready_listeners:
  "listeners (close_ready ready socks rq) r \<subseteq> listeners rq r - {sock \<in> set socks. ready sock}"
proof (induction socks arbitrary: rq)
  case (Cons s socks)
  have "close_ready ready (s # socks) rq = close_ready ready socks (if ready s then close_client s rq else rq)"
    by (simp add: close_ready_def)
  then show ?case
    using Cons [of "if ready s then close_client s rq else rq"] close_listeners [of s rq r]
    by (cases "ready s"; simp; blast)
qed (simp add: close_ready_def)

lemma turn_ok:
  assumes ok: "state_ok lsock (day, opened, rq)" and fresh: "fresh_socket lsock tn rq opened"
    and turn: "listen_turn c tn (day, rq) = Some (True, day', rq')"
  shows "state_ok lsock (day', opened - closed_by tn rq \<union> kept_by tn rq, rq')"
proof -
  obtain n where n: "snd (board_symbol_to_file (tn_writable tn) rq) = rq\<lparr>modified := n\<rparr>"
    using written_board by blast
  let ?rq1 = "rq\<lparr>modified := n\<rparr>"
  let ?rq2 = "close_ready (tn_ready tn) (polled rq) ?rq1"
  let ?rq3 = "accept_client (tn_accept tn) (tn_local tn) (tn_written tn) ?rq2"
  let ?closed = "{sock \<in> set (polled rq). tn_ready tn sock}"
  have ok1: "life_ok lsock rq" "life_ok lsock ?rq1" using ok by (simp_all add: state_ok_def life_ok_def)
  have hears: "listeners rq r \<subseteq> opened" if "r < no_of_symbols rq" for r
    using ok that by (simp add: state_ok_def heard_open_def)
  note ok2 = close_ready_life [OF ok1(2), of "tn_ready tn" "polled rq"]
  have l2: "listeners ?rq2 r \<subseteq> opened - ?closed" if "r < no_of_symbols rq" for r
    using close_ready_listeners [of "tn_ready tn" "polled rq" ?rq1 r] hears [OF that] by auto
  consider "tn_check tn \<le> 0" "rq' = ?rq1" | "tn_check tn > 0" "\<not> tn_incoming tn" "rq' = ?rq2"
    | "tn_check tn > 0" "tn_incoming tn" "rq' = ?rq3"
    using turn n by (fastforce simp: listen_turn_def Let_def split: if_splits)
  then show ?thesis
  proof cases
    case 1
    with ok1 hears show ?thesis by (auto simp: state_ok_def heard_open_def closed_by_def)
  next
    case 2
    with ok2 l2 show ?thesis by (auto simp: state_ok_def heard_open_def closed_by_def close_ready_symbols)
  next
    case 3
    then have closed: "closed_by tn rq = ?closed" by (simp add: closed_by_def)
    show ?thesis
    proof (cases "tn_accept tn < 0")
      case True
      then have "?rq3 = ?rq2" by (simp add: accept_client_def)
      with 3 closed ok2 l2 show ?thesis by (auto simp: state_ok_def heard_open_def close_ready_symbols)
    next
      case False
      then have free: "nat (tn_accept tn) \<noteq> lsock" "nat (tn_accept tn) \<notin> opened - ?closed"
        using fresh closed by (auto simp: fresh_socket_def)
      have not: "nat (tn_accept tn) \<notin> listeners ?rq2 r" if "r < no_of_symbols ?rq2" for r
        using free(2) l2 [of r] that by (auto simp: close_ready_symbols)
      have b: "board_ok ?rq2" "counts_ok ?rq2" using ok2 by (simp_all add: life_ok_def)
      have "life_ok lsock ?rq3"
        using ok2 accept_client_ok [OF b not] free(1) accept_rooms [where rq = ?rq2]
        by (simp add: life_ok_def)
      moreover have "listeners ?rq3 r \<subseteq> opened - closed_by tn rq" if "r < no_of_symbols rq" for r
        using accept_listeners [OF b(1) not] l2 [OF that] that closed by (simp add: close_ready_symbols)
      then have "heard_open (opened - closed_by tn rq \<union> kept_by tn rq) ?rq3"
        by (simp add: heard_open_def broker_symbols close_ready_symbols) blast
      ultimately show ?thesis using 3 by (simp add: state_ok_def)
    qed
  qed
qed

lemma batch_ok_state:
  assumes ok: "state_ok lsock (day, opened, rq)" and sock: "sock \<in> opened"
    and cmds: "\<forall>cmd\<in>set cmds. cmd_ok cmd" and run: "recv_from_client (int sock) cmds rq = Some rq'"
  shows "state_ok lsock (day, opened, rq')"
proof -
  have b: "board_ok rq" "counts_ok rq" using ok by (simp_all add: state_ok_def life_ok_def)
  obtain rq1 where "recv_from_client (int sock) cmds rq = Some rq1" "board_ok rq1" "counts_ok rq1"
    "only_client sock rq rq1" using recv_from_client_cases [OF b cmds] by (metis nat_int)
  with run have r: "board_ok rq'" "counts_ok rq'" "only_client sock rq rq'" by auto
  have "linked_to rq' lsock = linked_to rq lsock" "length (rq_client rq') = length (rq_client rq)"
    using r(3) by (cases "lsock = sock"; simp add: only_client_def linked_to_def)+
  then have "life_ok lsock rq'" using r ok recv_linked [OF run] by (simp add: state_ok_def life_ok_def)
  moreover have "listeners rq' n \<subseteq> insert sock (listeners rq n)" for n
    using r(3) by (auto simp: listeners_def linked_to_def only_client_def)
  moreover have "no_of_symbols rq' = no_of_symbols rq" using r(3) by (simp add: only_client_def)
  ultimately show ?thesis using ok sock by (fastforce simp: state_ok_def heard_open_def)
qed

lemma life_step_ok [inv_pres]: "life c lsock st st' \<Longrightarrow> state_ok lsock st \<Longrightarrow> state_ok lsock st'"
proof (induction rule: life.induct)
  case (Turn tn rq opened day day' rq')
  then show ?case using turn_ok by simp
next
  case (Batch sock opened cmds rq rq' day)
  then show ?case using batch_ok_state by simp
next
  case (Broken day opened rq sock)
  then show ?case using close_listeners [of sock rq] close_life [of lsock rq sock]
    by (fastforce simp: state_ok_def heard_open_def)
qed

lemma life_steps_ok: "(life c lsock)\<^sup>*\<^sup>* st st' \<Longrightarrow> state_ok lsock st \<Longrightarrow> state_ok lsock st'"
  by (induction rule: rtranclp_induct) (auto dest: life_step_ok)

text \<open>A symbol file names no symbol twice.\<close>

definition names_once :: "nat \<Rightarrow> string list option \<Rightarrow> bool" where
  "names_once n file \<longleftrightarrow> (\<forall>ls ns. file = Some ls \<longrightarrow> file_names n ls = Some ns \<longrightarrow> distinct ns)"

lemma loaded_ok:
  assumes ok: "board_ok rq" "counts_ok rq" "unheard rq" and n: "1 \<le> no_of_symbols rq"
    and once: "names_once (no_of_symbols rq) content"
    and load: "(case content of None \<Rightarrow> Some rq
      | Some ls \<Rightarrow> (case file_names (no_of_symbols rq) ls of None \<Rightarrow> None | Some ns \<Rightarrow> load_names ns rq)) = Some rq'"
  shows "board_ok rq' \<and> counts_ok rq' \<and> unheard rq' \<and> rq_client rq' = rq_client rq \<and>
    no_of_linked rq' = no_of_linked rq \<and> no_of_symbols rq' = no_of_symbols rq"
proof (cases content)
  case (Some ls)
  with load obtain ns where ns: "file_names (no_of_symbols rq) ls = Some ns" "load_names ns rq = Some rq'"
    by (auto split: option.splits)
  have "distinct ns" "length ns \<le> no_of_symbols rq"
    using once Some ns(1) file_names_length [OF ns(1)] n by (auto simp: names_once_def)
  from load_names_ok [OF ok this] ns(2) show ?thesis by (metis option.inject)
qed (use ok load in auto)

lemma started_ok:
  assumes start: "feppush_main argc m = Some (Listening c rq)"
    and syms: "1 \<le> symbols_no c" "symbols_no c \<le> 32768" and clients: "no_of_clients c + 80 < 65536"
    and masks: "\<And>ii. length (mc_masks m ii) = nat (symbols_no c)"
    and once: "names_once (nat (symbols_no c)) (mc_symbols m)" "names_once (nat (symbols_no c)) (mc_preload m)"
    and lsock: "int lsock < no_of_clients c + 80"
  shows "state_ok lsock (day, {}, rq)"
proof -
  let ?rq0 = "init_shm (nat (no_of_clients c)) (nat (symbols_no c)) (nat (buffers_no c)) (dynamic c \<noteq> 0) (mc_masks m)"
  have named: "names_once n (named_file path content)" if "names_once n content" for n path content
    using that by (simp add: named_file_def names_once_def)
  have neg: "0 \<le> no_of_clients c" using start
    by (auto simp: feppush_main_def split: if_splits option.splits prod.splits)
  obtain ready rq1 rq2 where r1: "init_msg (msg_que_size c) (mc_queues m) ?rq0 = (0, ready, rq1)"
    and r2: "symbol_file_to_board (named_file (symbol_file c) (mc_symbols m)) rq1 = Some rq2"
    and r3: "symbol_pre_load (named_file (preload_file c) (mc_preload m)) rq2 = Some rq"
    using start by (auto simp: feppush_main_def Let_def split: if_splits option.splits prod.splits)
  have ok0: "board_ok ?rq0" "counts_ok ?rq0" using syms clients masks by (auto intro!: init_shm_ok)
  have rooms0: "unheard ?rq0" "length (rq_client ?rq0) = nat (no_of_clients c) + 80" "no_of_linked ?rq0 = 0"
    "no_of_symbols ?rq0 = nat (symbols_no c)" by (simp_all add: unheard_def init_shm_def)
  note q = init_msg_ok [OF r1]
  have ok1: "board_ok rq1" "counts_ok rq1" "unheard rq1" using ok0 rooms0(1) q by (simp_all add: unheard_def)
  have n1: "no_of_symbols rq1 = nat (symbols_no c)" using rooms0(4) q(5) by simp
  have "1 \<le> no_of_symbols rq1" "names_once (no_of_symbols rq1) (named_file (symbol_file c) (mc_symbols m))"
    using syms(1) n1 named [OF once(1)] by simp_all
  from loaded_ok [OF ok1 this, of rq2] r2 ok1 have ok2: "board_ok rq2" "counts_ok rq2" "unheard rq2"
    "rq_client rq2 = rq_client rq1" "no_of_linked rq2 = no_of_linked rq1" "no_of_symbols rq2 = no_of_symbols rq1"
    by (auto simp: symbol_file_to_board_def split: if_splits)
  have "1 \<le> no_of_symbols rq2" "names_once (no_of_symbols rq2) (named_file (preload_file c) (mc_preload m))"
    using syms(1) n1 ok2(6) named [OF once(2)] by simp_all
  from loaded_ok [OF ok2(1-3) this, of rq] r3 have ok3: "board_ok rq" "counts_ok rq" "unheard rq"
    "rq_client rq = rq_client rq2" "no_of_linked rq = no_of_linked rq2"
    by (auto simp: symbol_pre_load_def)
  have "length (rq_client rq) = nat (no_of_clients c) + 80" "no_of_linked rq = 0"
    using ok3(4,5) ok2(4,5) q(3,4) rooms0 by simp_all
  then have "life_ok lsock rq" using ok3(1-3) lsock neg by (auto simp: life_ok_def unheard_def linked_to_def)
  with unheard_listeners [OF ok3(3)] show ?thesis by (simp add: state_ok_def heard_open_def)
qed

text \<open>
  C37. The counts are right for as long as the broker runs. When \<^verbatim>\<open>main\<close> has started it (with 1 to 32768
  symbols and fewer than 65456 clients configured, and symbol files that name no symbol twice), then in
  every state that turns of \<^verbatim>\<open>listen_client\<close>, batches of commands and connections found broken lead to,
  the count in each hook is the number of connected clients whose mask for the symbol is not empty, only
  sockets that are open are counted, and neither the next turn nor the next such batch runs into undefined
  behaviour. The batches are those of clients whose connection is open, with names of fewer than 20 bytes and no
  \<^verbatim>\<open>RT_SET_MASK\<close> with an empty mask; a turn accepts a socket that is not open yet.
\<close>

theorem broker_life:
  assumes "feppush_main argc m = Some (Listening c rq0)"
    and "1 \<le> symbols_no c" "symbols_no c \<le> 32768" "no_of_clients c + 80 < 65536"
    and "\<And>ii. length (mc_masks m ii) = nat (symbols_no c)"
    and "names_once (nat (symbols_no c)) (mc_symbols m)" "names_once (nat (symbols_no c)) (mc_preload m)"
    and "int lsock < no_of_clients c + 80" and life: "(life c lsock)\<^sup>*\<^sup>* (day0, {}, rq0) (day, opened, rq)"
  shows "(\<forall>r<no_of_symbols rq. unat (h_many (hooks rq ! r)) = card (listeners rq r) \<and> listeners rq r \<subseteq> opened) \<and>
    (\<forall>tn. listen_turn c tn (day, rq) \<noteq> None) \<and>
    (\<forall>sock cmds. (\<forall>cmd\<in>set cmds. cmd_ok cmd) \<longrightarrow> recv_from_client sock cmds rq \<noteq> None)"
proof -
  have "state_ok lsock (day0, {}, rq0)" by (rule started_ok [OF assms(1-8)])
  with life_steps_ok [OF life] have "state_ok lsock (day, opened, rq)" by blast
  then have ok: "life_ok lsock rq" "heard_open opened rq" by (simp_all add: state_ok_def)
  then have b: "board_ok rq" "counts_ok rq" by (simp_all add: life_ok_def)
  have "recv_from_client sock cmds rq \<noteq> None" if "\<forall>cmd\<in>set cmds. cmd_ok cmd" for sock cmds
    using recv_from_client_cases [OF b that] by (metis option.distinct(1))
  with counts_okD(2) [OF b(2)] turn_defined [OF ok(1)] ok(2) show ?thesis by (auto simp: heard_open_def)
qed

text \<open>
  The time for restarting is compared in the first turn of a day only. If that turn is always earlier
  than the time, the loop never ends.
\<close>

theorem restart_missed:
  assumes "\<And>i. i < length tns \<Longrightarrow>
      tn_yday (tns ! i) = (if i = 0 then today else tn_yday (tns ! (i - 1))) \<or> tn_hhmm (tns ! i) < tm_restart c"
    and "listen_turns c tns (today, rq) = Some (goes, st)"
  shows "goes"
  using assms
proof (induction tns arbitrary: today rq)
  case (Cons tn tns)
  have first: "tn_yday tn = today \<or> tn_hhmm tn < tm_restart c" using Cons.prems(1) [of 0] by simp
  obtain g d rq' where t: "listen_turn c tn (today, rq) = Some (g, d, rq')"
    using Cons.prems(2) by (auto split: option.splits)
  with first have g: "g" "d = tn_yday tn" by (auto simp: listen_turn_def Let_def split: if_splits)
  have "tn_yday (tns ! i) = (if i = 0 then d else tn_yday (tns ! (i - 1))) \<or> tn_hhmm (tns ! i) < tm_restart c"
    if "i < length tns" for i
    using Cons.prems(1) [of "Suc i"] that g(2) by (cases i) auto
  from Cons.IH [OF this] Cons.prems(2) t g(1) show ?case by simp
qed simp

subsection \<open>Administration and the mistaken address\<close>

lemma first_client_Some:
  "first_client rq test = Some ii \<Longrightarrow> 0 < ii \<and> ii < length (rq_client rq) \<and> test (rq_client rq ! ii)"
  by (auto simp: first_client_def find_Some_iff)

lemma admin_answer_masks:
  "admin_answer rq pc = Some ms \<Longrightarrow> \<exists>ii. linked_to rq ii \<and> ms = take (no_of_symbols rq) (cl_mask (rq_client rq ! ii))"
  by (auto simp: admin_answer_def client_masks_def split: if_splits bind_splits)

text \<open>
  With clients that introduced themselves as \<^verbatim>\<open>rtd_open\<close> does, a request by network address is never
  answered, whatever it asks for.
\<close>

theorem admin_by_address_fails:
  assumes "\<And>ii. ii < length (rq_client rq) \<Longrightarrow> cl_sock (rq_client rq ! ii) = -1 \<or>
      cl_addr (rq_client rq ! ii) = 0" and "pc_type pc = 2"
  shows "admin_answer rq pc = None"
proof (rule ccontr)
  assume "admin_answer rq pc \<noteq> None"
  then obtain ii where ii: "first_client rq (\<lambda>cl. cl_addr cl = pc_addr pc) = Some ii" "pc_addr pc \<noteq> 0"
    "client_masks rq ii \<noteq> None"
    using assms(2) by (auto simp: admin_answer_def split: if_splits bind_splits)
  then have "ii < length (rq_client rq)" "cl_addr (rq_client rq ! ii) = pc_addr pc" "linked_to rq ii"
    by (auto dest: first_client_Some simp: client_masks_def split: if_splits)
  with assms(1) [of ii] ii(2) show False by (simp add: linked_to_def)
qed

subsection \<open>A broker\<close>

definition machine1 :: machine where
  "machine1 = \<lparr> mc_config = None, mc_shm = True, mc_masks = (\<lambda>_. replicate 4096 0),
     mc_queues = map (\<lambda>i. Some \<lparr> mq_id = i, mq_texts = [[]], mq_stat = True, mq_bytes = 16384 \<rparr>) [0, 1, 2],
     mc_symbols = None, mc_preload = None, mc_thread = (\<lambda>_. True) \<rparr>"

lemma config_none: "config None setup0 = Some (-1, setup0)"
  by (simp add: config_def getxmlcfg_def)

lemma create_all: "create_threads (\<lambda>_. True) ts"
  by (induction ts) simp_all

lemma setup0_sel:
  "no_of_clients setup0 = 1024" "symbols_no setup0 = 4096" "buffers_no setup0 = 512" "dynamic setup0 = 1"
  "symbol_file setup0 = []" "preload_file setup0 = []" "length (msg_que_size setup0) = 3"
  by (simp_all add: setup0_def)

lemma machine1_starts: "\<exists>rq. feppush_main 1 machine1 = Some (Listening setup0 rq)"
proof -
  obtain a b c where q: "msg_que_size setup0 = [a, b, c]"
    using setup0_sel(7) by (auto simp: numeral_3_eq_3 length_Suc_conv)
  have m: "mc_config machine1 = None" "mc_shm machine1" "mc_thread machine1 = (\<lambda>_. True)"
    "\<exists>x y z. mc_queues machine1 = [Some x, Some y, Some z]" by (simp_all add: machine1_def)
  have "fst (init_msg (msg_que_size setup0) (mc_queues machine1) rq) = 0" for rq
    using m(4) by (auto simp: init_msg_def q)
  then show ?thesis
    by (simp add: feppush_main_def m(1-3) config_none setup0_sel named_file_def symbol_file_to_board_def
        symbol_pre_load_def create_all Let_def split_beta)
qed

definition quiet :: "int \<Rightarrow> int \<Rightarrow> turn_env" where
  "quiet yday hhmm = \<lparr> tn_yday = yday, tn_hhmm = hhmm, tn_writable = False, tn_check = 0, tn_ready = (\<lambda>_. False),
     tn_incoming = False, tn_accept = -1, tn_local = True, tn_written = True \<rparr>"

lemma quiet_yday: "tn_yday (quiet d h) = d"
  by (simp add: quiet_def)

text \<open>A turn in which a local client connects with socket 9, and its first batch.\<close>

definition arrival :: turn_env where
  "arrival = (quiet 5 0)\<lparr>tn_check := 1, tn_incoming := True, tn_accept := 9\<rparr>"

lemma arrival_life:
  assumes "state_ok 7 (4, {}, rq)" "9 < length (rq_client rq)"
  obtains rq1 rq2 where "(life setup0 7)\<^sup>*\<^sup>* (4, {}, rq) (5, {9}, rq2)" "linked_to rq1 9"
    "recv_from_client 9 [cmd_of RT_INS_SYMB ''F@A@H'' 1] rq1 = Some rq2"
proof -
  have "life_ok 7 rq" using assms(1) by (simp add: state_ok_def)
  note defined = turn_defined [OF this, of setup0 arrival 4]
  then obtain goes d rq1 where t: "listen_turn setup0 arrival (4, rq) = Some (goes, d, rq1)" by auto
  obtain n where n: "snd (board_symbol_to_file False rq) = rq\<lparr>modified := n\<rparr>" using written_board by blast
  have "do_restart setup0 = 0" by (simp add: setup0_def)
  then have g: "goes" "d = 5" and rq1: "rq1 = accept_client 9 True True (close_ready (\<lambda>_. False) (polled rq) (rq\<lparr>modified := n\<rparr>))"
    using t n by (auto simp: listen_turn_def arrival_def quiet_def Let_def split: if_splits)
  have "close_ready (\<lambda>_. False) socks rq = rq" for socks rq
    unfolding close_ready_def by (induction socks) simp_all
  then have link: "linked_to rq1 9"
    using assms(2) by (simp add: rq1 accept_client_def linked_to_def upd_client_def Let_def)
  have "life setup0 7 (4, {}, rq) (5, {} - closed_by arrival rq \<union> kept_by arrival rq, rq1)"
    using t g by (intro life.Turn) (simp_all add: fresh_socket_def arrival_def)
  moreover have "kept_by arrival rq = {9}" using assms(2) by (simp add: kept_by_def arrival_def quiet_def)
  ultimately have one: "life setup0 7 (4, {}, rq) (5, {9}, rq1)" by simp
  have c: "\<forall>cmd\<in>set [cmd_of RT_INS_SYMB ''F@A@H'' 1]. cmd_ok cmd"
    by (simp add: cmd_ok_def cmd_of_def L_SYMB_def RT_defs)
  have "state_ok 7 (5, {9}, rq1)" using life_step_ok [OF one assms(1)] .
  then have "board_ok rq1" "counts_ok rq1" by (simp_all add: state_ok_def life_ok_def)
  from recv_from_client_cases [OF this c, of 9]
  obtain rq2 where r: "recv_from_client 9 [cmd_of RT_INS_SYMB ''F@A@H'' 1] rq1 = Some rq2" by blast
  have "recv_from_client (int 9) [cmd_of RT_INS_SYMB ''F@A@H'' 1] rq1 = Some rq2" using r by simp
  with c have two: "life setup0 7 (5, {9}, rq1) (5, {9}, rq2)" by (intro life.Batch [of 9]) simp_all
  have "(life setup0 7)\<^sup>*\<^sup>* (4, {}, rq) (5, {9}, rq2)"
    by (rule converse_rtranclp_into_rtranclp [of "life setup0 7", OF one r_into_rtranclp [of "life setup0 7", OF two]])
  with link r that show thesis by blast
qed

theorem broker_life_witness:
  "\<exists>rq rq1 rq2. feppush_main 1 machine1 = Some (Listening setup0 rq) \<and> linked_to rq1 9 \<and>
     recv_from_client 9 [cmd_of RT_INS_SYMB ''F@A@H'' 1] rq1 = Some rq2 \<and>
     (\<forall>r<no_of_symbols rq2. unat (h_many (hooks rq2 ! r)) = card (listeners rq2 r) \<and> listeners rq2 r \<subseteq> {9})"
proof -
  obtain rq where start: "feppush_main 1 machine1 = Some (Listening setup0 rq)" using machine1_starts by blast
  note syms = setup0_sel
  have files: "names_once 4096 (mc_symbols machine1)" "names_once 4096 (mc_preload machine1)"
    "\<And>ii. length (mc_masks machine1 ii) = 4096" by (simp_all add: machine1_def names_once_def)
  have ok: "state_ok 7 (4, {}, rq)"
    by (rule started_ok [OF start]) (simp_all add: syms files)
  have "state_ok 9 (4, {}, rq)"
    by (rule started_ok [OF start]) (simp_all add: syms files)
  then have "9 < length (rq_client rq)" by (simp add: state_ok_def life_ok_def)
  from arrival_life [OF ok this] obtain rq1 rq2 where l: "(life setup0 7)\<^sup>*\<^sup>* (4, {}, rq) (5, {9}, rq2)"
    "linked_to rq1 9" "recv_from_client 9 [cmd_of RT_INS_SYMB ''F@A@H'' 1] rq1 = Some rq2" by blast
  have "(\<forall>r<no_of_symbols rq2. unat (h_many (hooks rq2 ! r)) = card (listeners rq2 r) \<and> listeners rq2 r \<subseteq> {9}) \<and>
    (\<forall>tn. listen_turn setup0 tn (5, rq2) \<noteq> None) \<and>
    (\<forall>sock cmds. (\<forall>cmd\<in>set cmds. cmd_ok cmd) \<longrightarrow> recv_from_client sock cmds rq2 \<noteq> None)"
    by (rule broker_life [OF start _ _ _ _ _ _ _ l(1)]) (simp_all add: syms files)
  with start l(2,3) show ?thesis by blast
qed

theorem restart_missed_witness:
  "fst (the (listen_turns (setup0\<lparr>do_restart := 1, tm_restart := 600\<rparr>) [quiet 5 0, quiet 5 700] (4, broker1)))"
proof -
  have sel: "no_of_linked broker1 = 4" "length (rq_client broker1) = 90" "dynamic_mode broker1"
    "\<not> linked_to broker1 7"
    by (simp_all add: broker1_def accept_client_def init_shm_def linked_to_def Let_def upd_client_def)
  with broker1_ok have "life_ok 7 broker1" by (simp add: life_ok_def)
  from polled_bound [OF this] sel have turn: "tn_yday (quiet 5 h) = d \<or> h < 600 \<Longrightarrow>
      listen_turn (setup0\<lparr>do_restart := 1, tm_restart := 600\<rparr>) (quiet 5 h) (d, broker1) = Some (True, 5, broker1)" for d h
    by (auto simp: listen_turn_def quiet_def board_symbol_to_file_def Let_def not_le)
  have "listen_turns (setup0\<lparr>do_restart := 1, tm_restart := 600\<rparr>) [quiet 5 0, quiet 5 700] (4, broker1) \<noteq> None"
    by (simp add: turn quiet_yday)
  then obtain goes st where "listen_turns (setup0\<lparr>do_restart := 1, tm_restart := 600\<rparr>) [quiet 5 0, quiet 5 700] (4, broker1) = Some (goes, st)"
    by auto
  moreover from this have "goes"
    by (rule restart_missed [rotated]) (auto simp: quiet_def less_Suc_eq)
  ultimately show ?thesis by simp
qed

theorem admin_by_address_fails_witness:
  "admin_answer broker1 \<lparr> pc_type = 2, pc_rqid = 0, pc_addr = 16777343 \<rparr> = None"
  by (rule admin_by_address_fails)
    (auto simp: broker1_def accept_client_def init_shm_def Let_def upd_client_def nth_list_update)

end
