(* ===== verification/BrokerView.thy ===== *)
theory BrokerView
  imports BrokerMain
begin

text \<open>
  The tool that looks at the broker, \<^verbatim>\<open>src/push/fepreal.c\<close>: the state of the queues
  (\<^verbatim>\<open>view4qstat\<close>), the symbols and who listens to them (\<^verbatim>\<open>view4symb\<close>), and a trace of
  the messages as they enter the ring (\<^verbatim>\<open>trace4rts\<close>). It reads the broker's segment only, so its
  state is an \<open>RQ\<close>. The result is the text it prints; \<open>None\<close> is undefined behaviour.
\<close>

subsection \<open>Printing\<close>

definition right :: "nat \<Rightarrow> string \<Rightarrow> string" where
  "right n s = replicate (n - length s) (CHR '' '') @ s"

definition left :: "nat \<Rightarrow> string \<Rightarrow> string" where
  "left n s = s @ replicate (n - length s) (CHR '' '')"

definition right_cut :: "nat \<Rightarrow> string \<Rightarrow> string" where
  "right_cut n s = right n (take n s)"

definition left_cut :: "nat \<Rightarrow> string \<Rightarrow> string" where
  "left_cut n s = left n (take n s)"

definition newline :: string where "newline = [CHR 0x0A]"
definition tab :: string where "tab = [CHR 0x09]"

definition hex_char :: "nat \<Rightarrow> char" where
  "hex_char n = (if n < 10 then char_of (48 + n) else char_of (55 + n))"

text \<open>\<open>%0nX\<close> for a number of at most \<open>n\<close> digits.\<close>

definition hex :: "nat \<Rightarrow> nat \<Rightarrow> string" where
  "hex n v = map (\<lambda>i. hex_char (v div 16 ^ (n - 1 - i) mod 16)) [0..<n]"

subsection \<open>Options\<close>

datatype view = QVIEW | SVIEW | TRACE

record view_opts =
  vo_func     :: view
  vo_allsymb  :: "32 word"
  vo_longmode :: bool

text \<open>One option of \<^verbatim>\<open>getopt\<close>; \<open>None\<close> for the one that prints the usage and ends. \<open>isls\<close> says that the
  program was called as \<^verbatim>\<open>fepsymb\<close>.\<close>

definition view_opt :: "bool \<Rightarrow> char \<Rightarrow> view_opts \<Rightarrow> view_opts option" where
  "view_opt isls opt vo =
     (if opt = CHR ''s'' then Some (vo\<lparr>vo_func := SVIEW\<rparr>)
      else if opt = CHR ''a'' then Some (if isls then vo\<lparr>vo_allsymb := vo_allsymb vo OR 1\<rparr> else vo)
      else if opt = CHR ''A'' then Some (if isls then vo\<lparr>vo_allsymb := vo_allsymb vo OR 2\<rparr> else vo)
      else if opt = CHR ''t'' then Some (if isls then vo\<lparr>vo_func := TRACE\<rparr> else vo)
      else if opt = CHR ''l'' then Some (vo\<lparr>vo_longmode := True\<rparr>)
      else if opt = CHR ''?'' then None
      else Some vo)"

fun view_options :: "bool \<Rightarrow> string \<Rightarrow> view_opts \<Rightarrow> view_opts option" where
  "view_options isls [] vo = Some vo"
| "view_options isls (opt # opts) vo =
     (case view_opt isls opt vo of None \<Rightarrow> None | Some vo' \<Rightarrow> view_options isls opts vo')"

definition view_start :: "string \<Rightarrow> view_opts" where
  "view_start whoami =
     \<lparr> vo_func = (if whoami = ''fepsymb'' then SVIEW else QVIEW), vo_allsymb = 0, vo_longmode = False \<rparr>"

subsection \<open>The queues\<close>

text \<open>What \<^verbatim>\<open>IPC_STAT\<close> tells of a queue.\<close>

record msqid_ds =
  qs_qbytes :: nat
  qs_qnum   :: nat
  qs_cbytes :: nat

definition queue_line :: "nat \<Rightarrow> int \<Rightarrow> msqid_ds option \<Rightarrow> string" where
  "queue_line ii mqid qstat =
     right 8 ([''data'', ''symb'', ''ctrl''] ! ii) @ '' '' @ right 10 (show_int mqid) @ '' '' @
     (case qstat of
        None \<Rightarrow> ''ERR''
      | Some q \<Rightarrow> right 7 (decimal (qs_qbytes q div 1024)) @ ''K '' @ right 8 (decimal (qs_qnum q)) @ '' '' @
          right 8 (decimal (qs_cbytes q)) @ ''   --'') @ newline"

text \<open>Symbols with a mark and without one among the \<^verbatim>\<open>valr\<close> in use.\<close>

definition count_marks :: "RQ \<Rightarrow> int \<times> int" where
  "count_marks rq = fold (\<lambda>y (attached, reusable). if y_mark y \<noteq> 0 then (attached + 1, reusable) else (attached, reusable + 1))
     (live_symbs rq) (0, 0)"

definition usage_line :: "RQ \<Rightarrow> string" where
  "usage_line rq =
     (let room = int (b_no_of_symbols (rt_board rq)); freed = int (maxr (rt_symbol rq)) - int (valr (rt_symbol rq));
          (attached, reusable) = count_marks rq
      in show_int room @ '' allocated, '' @ show_int attached @ '' activated, '' @ show_int (freed + reusable) @
         '' usable('' @ show_int freed @ '' free, '' @ show_int reusable @ '' reusable)'' @ newline)"

definition view4qstat :: "bool \<Rightarrow> msqid_ds option list \<Rightarrow> RQ \<Rightarrow> string" where
  "view4qstat longmode qstats rq =
     (if longmode then usage_line rq @ newline else []) @
     right 8 ''SIDE'' @ '' '' @ right 10 ''QID'' @ '' '' @ right 8 ''QSIZE'' @ '' '' @ right 8 ''QNUM'' @ '' '' @
     right 8 ''CBYTES'' @ ''   MARKETs'' @ newline @
     concat (map (\<lambda>ii. queue_line ii (b_mqid (rt_board rq) ! ii) (qstats ! ii)) [0..<3]) @
     (if longmode then newline else [])"

subsection \<open>The symbols\<close>

definition MAXCOL :: nat where "MAXCOL = 80"

definition hook_of :: "RQ \<Rightarrow> symb \<Rightarrow> rt_hooked option" where
  "hook_of rq y = (if 0 \<le> y_seqn y \<and> nat (y_seqn y) < length (hooks rq) then Some (hooks rq ! nat (y_seqn y)) else None)"

definition status_of :: "symb \<Rightarrow> string" where
  "status_of y = (if y_mark y \<noteq> 0 then ''Active'' else ''Deleted'')"

text \<open>The report on one symbol: the result and the text.\<close>

definition view_one :: "string \<Rightarrow> RQ \<Rightarrow> (int \<times> string) option" where
  "view_one symbol rq =
     (if length symbol \<ge> L_SYMB then None
      else case find_symb rq symbol of
        None \<Rightarrow> Some (-1, [])
      | Some i \<Rightarrow>
          let y = symb (rt_symbol rq) ! i
          in map_option (\<lambda>h. (0, ''Symbol = '' @ y_symb y @ newline @ ''Seq #  = '' @ show_int (y_seqn y) @ newline @
               ''Attach = '' @ show_int (uint (h_many h)) @ newline @ ''Status = '' @ status_of y @ newline))
             (hook_of rq y))"

text \<open>Whether the list shows a symbol with that many listeners.\<close>

definition symb_shown :: "32 word \<Rightarrow> symb \<Rightarrow> 16 word \<Rightarrow> bool" where
  "symb_shown allsymb y many \<longleftrightarrow> \<not> (allsymb = 0 \<and> many = 0) \<and> \<not> (allsymb AND 2 = 0 \<and> y_mark y = 0)"

definition long_entry :: "nat \<Rightarrow> symb \<Rightarrow> 16 word \<Rightarrow> string" where
  "long_entry nn y many =
     right 4 (decimal (nn + 1)) @ '' '' @ right 16 (y_symb y) @ '' '' @ right 10 (right 4 (decimal (unat many))) @ '' '' @
     right 8 (status_of y) @ (if nn mod 2 = 0 then tab else newline)"

definition short_entry :: "nat \<Rightarrow> symb \<Rightarrow> 16 word \<Rightarrow> string" where
  "short_entry lmax y many = left_cut lmax
     (if y_mark y \<noteq> 0 then y_symb y @ ''-'' @ decimal (unat many) else y_symb y @ ''-'')"

text \<open>The loop over the symbols: text, the number on the line (or of the symbol) and the total.\<close>

fun view_each :: "view_opts \<Rightarrow> nat \<Rightarrow> RQ \<Rightarrow> symb list \<Rightarrow> nat \<Rightarrow> nat \<Rightarrow> (string \<times> nat \<times> nat) option" where
  "view_each vo lmax rq [] nn many = Some ([], nn, many)"
| "view_each vo lmax rq (y # ys) nn many =
     (case hook_of rq y of
        None \<Rightarrow> None
      | Some h \<Rightarrow>
          if \<not> symb_shown (vo_allsymb vo) y (h_many h) then view_each vo lmax rq ys nn many
          else if length (y_symb y) \<ge> 33 then None
          else if vo_longmode vo then
            map_option (\<lambda>(t, r). (long_entry nn y (h_many h) @ t, r)) (view_each vo lmax rq ys (nn + 1) (many + 1))
          else
            let full = nn + 1 \<ge> MAXCOL div (lmax + 1)
            in map_option (\<lambda>(t, r). (short_entry lmax y (h_many h) @ (if full then newline else []) @ t, r))
                 (view_each vo lmax rq ys (if full then 0 else nn + 1) (many + 1)))"

definition column_width :: "RQ \<Rightarrow> nat" where
  "column_width rq =
     (let l = fold (\<lambda>y lmax. if length (y_symb y) > lmax then length (y_symb y) else lmax) (live_symbs rq) 0
      in (if l = 0 then 20 else l) + 7)"

definition HEAD_1 :: string where
  "HEAD_1 = ''SEQN '' @ right 16 ''SYMBOL'' @ '' '' @ right 10 ''ATTACHED'' @ '' '' @ right 8 ''STATUS''"

definition view4symb :: "view_opts \<Rightarrow> string \<Rightarrow> RQ \<Rightarrow> (int \<times> string) option" where
  "view4symb vo symbol rq =
     (if valr (rt_symbol rq) = 0 then Some (0, [])
      else if symbol \<noteq> [] then view_one symbol rq
      else
        map_option (\<lambda>(t, nn, many). (0,
            (if vo_longmode vo then HEAD_1 @ tab @ HEAD_1 @ newline else []) @ t @
            (if vo_longmode vo then if nn mod 2 \<noteq> 0 then newline else [] else if nn \<noteq> 0 then newline else []) @
            ''Total '' @ decimal many @ '' symbols'' @ newline))
          (view_each vo (column_width rq) rq (live_symbs rq) 0 0))"

subsection \<open>The trace\<close>

definition trace_char :: "char \<Rightarrow> char" where
  "trace_char c = (if of_char c < (128 :: nat) \<and> of_char c \<ge> (32 :: nat) then c else CHR ''.'')"

definition trace_line :: "pushmsg \<Rightarrow> string option" where
  "trace_line m =
     (if unat (g_msgl m) > length (g_msgb m) then None
      else Some (''#'' @ show_int (sint (g_seqn m)) @ '' '' @ left_cut 16 (g_symb m) @ '' ['' @ hex 2 (unat (g_type m)) @
        '','' @ hex 8 (unat (g_mask m)) @ '','' @ hex 2 (unat (g_flag m)) @ ''] '' @
        map trace_char (take (unat (g_msgl m)) (g_msgb m)) @ newline))"

text \<open>
  A turn of the loop at the place \<open>w\<close> of the ring: the message it reads, if there is a new one, and the
  next place. \<^verbatim>\<open>maxr\<close> of the ring is the number of buffers.
\<close>

definition trace_read :: "RQ \<Rightarrow> nat \<Rightarrow> pushmsg option \<times> nat" where
  "trace_read rq w =
     (if int w = widx (rt_fifo rq) then (None, w)
      else (Some (push (rt_fifo rq) ! w), if w + 1 \<ge> no_of_buffers rq then 0 else w + 1))"

definition trace_wanted :: "string \<Rightarrow> pushmsg \<Rightarrow> bool" where
  "trace_wanted symbol m \<longleftrightarrow> symbol = [] \<or> g_symb m = symbol"

definition trace4rts :: "string \<Rightarrow> RQ \<Rightarrow> nat \<Rightarrow> string option \<times> nat" where
  "trace4rts symbol rq w =
     (case trace_read rq w of
        (None, w') \<Rightarrow> (Some [], w')
      | (Some m, w') \<Rightarrow> (if trace_wanted symbol m then trace_line m else Some [], w'))"

subsection \<open>Attaching and the program\<close>

text \<open>The segment under the key, if it is there and can be attached.\<close>

definition shm4myrq :: "segments \<Rightarrow> RQ option" where
  "shm4myrq m = (case seg_key m of None \<Rightarrow> None | Some g \<Rightarrow> if seg_shmat m then Some (seg_memory m g) else None)"

datatype view_result = NotInitialised | Usage | Printed int string | Tracing string nat

text \<open>\<^verbatim>\<open>main\<close> with the program's base name, its option letters and the argument behind them.\<close>

definition fepreal_main ::
  "string \<Rightarrow> string \<Rightarrow> string option \<Rightarrow> segments \<Rightarrow> msqid_ds option list \<Rightarrow> view_result option" where
  "fepreal_main whoami opts arg m qstats =
     (case shm4myrq m of
        None \<Rightarrow> Some NotInitialised
      | Some rq \<Rightarrow>
          (case view_options (whoami = ''fepsymb'') opts (view_start whoami) of
             None \<Rightarrow> Some Usage
           | Some vo \<Rightarrow>
               let symbol = (case arg of None \<Rightarrow> [] | Some s \<Rightarrow> s)
               in if length symbol \<ge> 32 then None
                  else case vo_func vo of
                    QVIEW \<Rightarrow> Some (Printed 0 (view4qstat (vo_longmode vo) qstats rq))
                  | SVIEW \<Rightarrow> map_option (\<lambda>(r, t). Printed r t) (view4symb vo symbol rq)
                  | TRACE \<Rightarrow> Some (Tracing symbol (nat (widx (rt_fifo rq))))))"

subsection \<open>What the trace shows\<close>

text \<open>
  The steps of the broker's receiver thread, which takes a place of the ring and then copies the
  message, and the turns of the trace, in any order. The result has the messages read. The second
  argument is the message that has its place but is not yet there; \<open>None\<close> is a step out of turn.
\<close>

datatype ring_step = Claim int pushmsg | Copy | Look

fun trace_run ::
  "ring_step list \<Rightarrow> (rt_alarm \<times> pushmsg) option \<Rightarrow> RQ \<Rightarrow> nat \<Rightarrow> (pushmsg list \<times> RQ \<times> nat) option" where
  "trace_run [] pend rq w = Some ([], rq, w)"
| "trace_run (Claim pos m # ss) None rq w =
     (case push_claim pos m rq of None \<Rightarrow> None | Some (al, m', rq') \<Rightarrow> trace_run ss (Some (al, m')) rq' w)"
| "trace_run (Claim pos m # ss) (Some x) rq w = None"
| "trace_run (Copy # ss) None rq w = None"
| "trace_run (Copy # ss) (Some (al, m)) rq w = trace_run ss None (push_copy al m rq) w"
| "trace_run (Look # ss) pend rq w =
     (let (seen, w') = trace_read rq w
      in map_option (\<lambda>(out, r). ((case seen of None \<Rightarrow> [] | Some m \<Rightarrow> [m]) @ out, r)) (trace_run ss pend rq w'))"

text \<open>The messages as the broker numbers them.\<close>

fun numbered :: "u32 \<Rightarrow> ring_step list \<Rightarrow> pushmsg list" where
  "numbered n [] = []"
| "numbered n (Claim pos m # ss) = m\<lparr>g_seqn := n\<rparr> # numbered (n + 1) ss"
| "numbered n (_ # ss) = numbered n ss"

text \<open>
  How many messages the trace is behind at the end. \<open>None\<close> when the steps of the thread do not
  alternate, when the trace is ever behind by the whole ring, or when it has read all the others and
  looks while the next message has its place but is not yet there.
\<close>

fun backlog :: "nat \<Rightarrow> ring_step list \<Rightarrow> bool \<Rightarrow> nat \<Rightarrow> nat option" where
  "backlog n [] pend u = Some u"
| "backlog n (Claim pos m # ss) pend u = (if \<not> pend \<and> u + 1 < n then backlog n ss True (u + 1) else None)"
| "backlog n (Copy # ss) pend u = (if pend then backlog n ss False u else None)"
| "backlog n (Look # ss) pend u = (if pend \<and> u = 1 then None else backlog n ss pend (u - 1))"

text \<open>
  The unread messages are in the ring, from the trace's place up to where the next is written, but for
  the last one while it is pending.
\<close>

definition unread :: "RQ \<Rightarrow> nat \<Rightarrow> pushmsg list \<Rightarrow> (rt_alarm \<times> pushmsg) option \<Rightarrow> bool" where
  "unread rq w us pend \<longleftrightarrow> ring_ok rq \<and> w < no_of_buffers rq \<and> length us < no_of_buffers rq \<and>
     nat (widx (rt_fifo rq)) = (w + length us) mod no_of_buffers rq \<and>
     (case pend of
        None \<Rightarrow> \<forall>i<length us. push (rt_fifo rq) ! ((w + i) mod no_of_buffers rq) = us ! i
      | Some (al, m) \<Rightarrow> us \<noteq> [] \<and> last us = m \<and>
          unat (al_indx al) = (w + (length us - 1)) mod no_of_buffers rq \<and>
          (\<forall>i<length us - 1. push (rt_fifo rq) ! ((w + i) mod no_of_buffers rq) = us ! i))"

lemma mod_distinct: "i < (k :: nat) \<Longrightarrow> k < n \<Longrightarrow> (w + i) mod n \<noteq> (w + k) mod n"
proof
  assume "i < k" "k < n" "(w + i) mod n = (w + k) mod n"
  then have "n dvd (w + k) - (w + i)" by (metis add_le_cancel_left less_imp_le mod_eq_dvd_iff_nat)
  with \<open>i < k\<close> \<open>k < n\<close> show False by (auto dest: dvd_imp_le)
qed

text \<open>The next place, as the trace computes it.\<close>

lemma trace_read_next:
  "w < no_of_buffers rq \<Longrightarrow> int w \<noteq> widx (rt_fifo rq) \<Longrightarrow>
    trace_read rq w = (Some (push (rt_fifo rq) ! w), Suc w mod no_of_buffers rq)"
  by (cases "Suc w = no_of_buffers rq") (auto simp: trace_read_def)

text \<open>A place of the ring is taken.\<close>

lemma push_claim_ok:
  assumes "ring_ok rq"
  obtains al rq' where "push_claim pos m rq = Some (al, m\<lparr>g_seqn := pushseqn rq\<rparr>, rq')" "ring_ok rq'"
    "unat (al_indx al) = nat (widx (rt_fifo rq))" "push (rt_fifo rq') = push (rt_fifo rq)"
    "nat (widx (rt_fifo rq')) = Suc (nat (widx (rt_fifo rq))) mod no_of_buffers rq"
    "pushseqn rq' = pushseqn rq + 1" "no_of_buffers rq' = no_of_buffers rq"
proof -
  define w where "w = nat (widx (rt_fifo rq))"
  have w: "widx (rt_fifo rq) = int w" "w < no_of_buffers rq" "no_of_buffers rq \<le> 65536"
    "no_of_buffers rq \<le> length (push (rt_fifo rq))"
    using assms by (auto simp: ring_ok_def w_def)
  have "unat (of_nat w :: 16 word) = w" using w by (simp add: unat_of_nat)
  moreover have "nat ((int w + 1) mod int (no_of_buffers rq)) = Suc w mod no_of_buffers rq"
    by (simp add: nat_mod_distrib nat_add_distrib)
  ultimately show thesis
    by (intro that [of "\<lparr> al_sidx = word_of_int pos, al_indx = of_nat w, al_seqn = pushseqn rq \<rparr>"
          "rq\<lparr>pushseqn := pushseqn rq + 1, rt_fifo := (rt_fifo rq)\<lparr>widx := (int w + 1) mod int (no_of_buffers rq)\<rparr>\<rparr>"])
      (use w in \<open>simp_all add: push_claim_def ring_ok_def Let_def\<close>)
qed

lemma unread_claim:
  assumes u: "unread rq w us None" and room: "Suc (length us) < no_of_buffers rq"
  obtains al rq' where "push_claim pos m rq = Some (al, m\<lparr>g_seqn := pushseqn rq\<rparr>, rq')"
    "unread rq' w (us @ [m\<lparr>g_seqn := pushseqn rq\<rparr>]) (Some (al, m\<lparr>g_seqn := pushseqn rq\<rparr>))"
    "pushseqn rq' = pushseqn rq + 1" "no_of_buffers rq' = no_of_buffers rq"
proof -
  have "ring_ok rq" using u by (simp add: unread_def)
  then obtain al rq' where c: "push_claim pos m rq = Some (al, m\<lparr>g_seqn := pushseqn rq\<rparr>, rq')" "ring_ok rq'"
    "unat (al_indx al) = nat (widx (rt_fifo rq))" "push (rt_fifo rq') = push (rt_fifo rq)"
    "nat (widx (rt_fifo rq')) = Suc (nat (widx (rt_fifo rq))) mod no_of_buffers rq"
    "pushseqn rq' = pushseqn rq + 1" "no_of_buffers rq' = no_of_buffers rq"
    by (rule push_claim_ok)
  then have "unread rq' w (us @ [m\<lparr>g_seqn := pushseqn rq\<rparr>]) (Some (al, m\<lparr>g_seqn := pushseqn rq\<rparr>))"
    using u room by (simp add: unread_def nth_append mod_Suc_eq)
  with c that show thesis by blast
qed

lemma unread_copy:
  assumes "unread rq w us (Some (al, m))"
  shows "unread (push_copy al m rq) w us None"
proof -
  let ?n = "no_of_buffers rq" and ?k = "length us - 1"
  have u: "ring_ok rq" "w < ?n" "length us < ?n" "us \<noteq> []" "last us = m" "unat (al_indx al) = (w + ?k) mod ?n"
    "nat (widx (rt_fifo rq)) = (w + length us) mod ?n"
    "\<And>i. i < ?k \<Longrightarrow> push (rt_fifo rq) ! ((w + i) mod ?n) = us ! i"
    using assms by (auto simp: unread_def)
  have place: "(w + ?k) mod ?n < length (push (rt_fifo rq))"
    using u(1,2) by (metis ring_ok_def mod_less_divisor order_less_le_trans)
  have "(push (rt_fifo rq))[(w + ?k) mod ?n := m] ! ((w + i) mod ?n) = us ! i" if "i < length us" for i
  proof (cases "i = ?k")
    case True
    then show ?thesis using place u(4,5) by (simp add: last_conv_nth)
  next
    case False
    with that have i: "i < ?k" by simp
    moreover have "?k < ?n" using u(3) by simp
    ultimately have "(w + i) mod ?n \<noteq> (w + ?k) mod ?n" by (rule mod_distinct)
    with u(8) [OF i] show ?thesis by simp
  qed
  with u show ?thesis by (simp add: unread_def push_copy_def ring_ok_def)
qed

lemma look_nothing: "unread rq w [] pend \<Longrightarrow> trace_read rq w = (None, w)"
  by (cases pend) (auto simp: unread_def trace_read_def ring_ok_def)

lemma look_next:
  assumes u: "unread rq w (u # us) pend" and there: "pend = None \<or> us \<noteq> []"
  shows "\<exists>w'. trace_read rq w = (Some u, w') \<and> unread rq w' us pend"
proof -
  let ?n = "no_of_buffers rq"
  let ?w' = "Suc w mod ?n"
  have w: "w < ?n" "nat (widx (rt_fifo rq)) = (w + Suc (length us)) mod ?n" "Suc (length us) < ?n"
    "ring_ok rq" "nat (widx (rt_fifo rq)) = (?w' + length us) mod ?n"
    using u by (auto simp: unread_def mod_add_left_eq)
  have "nat (widx (rt_fifo rq)) \<noteq> w" using mod_distinct [of 0 "Suc (length us)" ?n w] w by simp
  then have "int w \<noteq> widx (rt_fifo rq)" by auto
  note read = trace_read_next [OF w(1) this]
  have "push (rt_fifo rq) ! w = u \<and> unread rq ?w' us pend"
  proof (cases pend)
    case None
    then have us: "push (rt_fifo rq) ! ((w + i) mod ?n) = (u # us) ! i" if "i < Suc (length us)" for i
      using u that by (simp add: unread_def)
    have "push (rt_fifo rq) ! ((?w' + i) mod ?n) = us ! i" if "i < length us" for i
      using us [of "Suc i"] that by (simp add: mod_add_left_eq)
    with us [of 0] w None show ?thesis by (simp add: unread_def)
  next
    case (Some x)
    obtain al m where x: "x = (al, m)" by (cases x)
    from Some there have ne: "us \<noteq> []" by simp
    then have k: "Suc (length us - 1) = length us" by simp
    have us: "push (rt_fifo rq) ! ((w + i) mod ?n) = (u # us) ! i" if "i < length us" for i
      using u that Some x by (simp add: unread_def)
    have "push (rt_fifo rq) ! ((?w' + i) mod ?n) = us ! i" if "i < length us - 1" for i
      using us [of "Suc i"] that by (simp add: mod_add_left_eq)
    moreover have "unat (al_indx al) = (?w' + (length us - 1)) mod ?n"
    proof -
      have "w + length us = Suc w + (length us - 1)" using k by simp
      moreover have "unat (al_indx al) = (w + length us) mod ?n" using u Some x by (simp add: unread_def)
      ultimately show ?thesis by (simp only: mod_add_left_eq)
    qed
    ultimately show ?thesis using us [of 0] w u Some x ne by (simp add: unread_def)
  qed
  with read show ?thesis by simp
qed

lemma trace_run_reads:
  "unread rq w us pend \<Longrightarrow> backlog (no_of_buffers rq) ss (pend \<noteq> None) (length us) = Some n \<Longrightarrow>
    \<exists>out rq' w' rest. trace_run ss pend rq w = Some (out, rq', w') \<and> us @ numbered (pushseqn rq) ss = out @ rest \<and>
      length rest = n"
proof (induction ss arbitrary: rq w us pend)
  case (Cons s ss)
  show ?case
  proof (cases s)
    case (Claim pos m)
    with Cons.prems(2) have pend: "pend = None" and room: "Suc (length us) < no_of_buffers rq"
      and rest: "backlog (no_of_buffers rq) ss True (Suc (length us)) = Some n"
      by (cases pend; simp split: if_splits)+
    from Cons.prems(1) have "unread rq w us None" by (simp add: pend)
    then obtain al rq1 where p: "push_claim pos m rq = Some (al, m\<lparr>g_seqn := pushseqn rq\<rparr>, rq1)"
      "unread rq1 w (us @ [m\<lparr>g_seqn := pushseqn rq\<rparr>]) (Some (al, m\<lparr>g_seqn := pushseqn rq\<rparr>))"
      "pushseqn rq1 = pushseqn rq + 1" "no_of_buffers rq1 = no_of_buffers rq"
      using unread_claim [OF _ room] by metis
    from Cons.IH [OF p(2)] rest p(4) have "\<exists>out rq' w' r.
        trace_run ss (Some (al, m\<lparr>g_seqn := pushseqn rq\<rparr>)) rq1 w = Some (out, rq', w') \<and>
        (us @ [m\<lparr>g_seqn := pushseqn rq\<rparr>]) @ numbered (pushseqn rq1) ss = out @ r \<and> length r = n" by simp
    with p pend Claim show ?thesis by simp
  next
    case Copy
    with Cons.prems(2) obtain al m where pend: "pend = Some (al, m)"
      and rest: "backlog (no_of_buffers rq) ss False (length us) = Some n" by (auto split: if_splits)
    with Cons.prems(1) have "unread (push_copy al m rq) w us None" by (simp add: unread_copy)
    from Cons.IH [OF this] rest have "\<exists>out rq' w' r. trace_run ss None (push_copy al m rq) w = Some (out, rq', w') \<and>
        us @ numbered (pushseqn rq) ss = out @ r \<and> length r = n" by (simp add: push_copy_def)
    with pend Copy show ?thesis by simp
  next
    case Look
    show ?thesis
    proof (cases us)
      case Nil
      with Look Cons.prems Cons.IH [OF Cons.prems(1)] look_nothing [of rq w pend] show ?thesis by auto
    next
      case (Cons u us')
      then obtain w1 where w1: "trace_read rq w = (Some u, w1)" "unread rq w1 us' pend"
        using look_next [of rq w u us' pend] Cons.prems Look by (cases pend; cases us') (auto split: if_splits)
      from Cons.IH [OF w1(2)] Cons.prems(2) Look Cons have "\<exists>out rq' w' r.
        trace_run ss pend rq w1 = Some (out, rq', w') \<and> us' @ numbered (pushseqn rq) ss = out @ r \<and> length r = n"
        by (auto split: if_splits)
      then obtain out rq' w' r where "trace_run ss pend rq w1 = Some (out, rq', w')"
        "us' @ numbered (pushseqn rq) ss = out @ r" "length r = n" by blast
      with w1 Look Cons show ?thesis
        by (intro exI [of _ "u # out"] exI [of _ rq'] exI [of _ w'] exI [of _ r]) simp
    qed
  qed
qed simp

text \<open>
  C40. The trace shows what is pushed, if it does not overtake the broker. Started on a ring,
  \<^verbatim>\<open>trace4rts\<close> reads every message of the receiver thread once, in the order they were pushed and
  with the numbers they were given, however its turns fall between the steps of \<^verbatim>\<open>push2sender\<close>,
  provided that it is never behind by as many messages as the ring has places, and that no turn falls
  between the two steps of a push (the place taken, the message copied) when it has read all messages
  before that one. What is missing of the messages at the end are those it has yet to read.
\<close>

theorem trace_shows_pushes:
  assumes "ring_ok rq" and "backlog (no_of_buffers rq) ss False 0 = Some n"
  shows "\<exists>out rq' w' rest. trace_run ss None rq (nat (widx (rt_fifo rq))) = Some (out, rq', w') \<and>
    numbered (pushseqn rq) ss = out @ rest \<and> length rest = n"
proof -
  have "unread rq (nat (widx (rt_fifo rq))) [] None" using assms(1) by (auto simp: unread_def ring_ok_def)
  from trace_run_reads [OF this, of ss n] assms(2) show ?thesis by simp
qed

text \<open>
  A trace that overtakes the broker shows an old message for the new one. When it has read everything
  and its turn falls after the place for a message has been taken and before the message is copied,
  it shows what the place held before, a message of the ring's last round, and goes on to the next place: the
  message that is then copied there is never shown.
\<close>

theorem trace_overtakes:
  assumes "ring_ok rq" and "1 < no_of_buffers rq"
  shows "\<exists>rq' w'. trace_run [Claim pos m, Look, Copy, Look] None rq (nat (widx (rt_fifo rq))) =
      Some ([push (rt_fifo rq) ! nat (widx (rt_fifo rq))], rq', w') \<and> int w' = widx (rt_fifo rq') \<and>
    push (rt_fifo rq') ! nat (widx (rt_fifo rq)) = m\<lparr>g_seqn := pushseqn rq\<rparr>"
proof -
  obtain w where wi: "widx (rt_fifo rq) = int w" using assms(1) by (metis ring_ok_def nonneg_int_cases)
  have w: "w < no_of_buffers rq" "w < length (push (rt_fifo rq))" using assms(1) wi by (auto simp: ring_ok_def)
  obtain al rq1 where c: "push_claim pos m rq = Some (al, m\<lparr>g_seqn := pushseqn rq\<rparr>, rq1)" "ring_ok rq1"
    "unat (al_indx al) = w" "push (rt_fifo rq1) = push (rt_fifo rq)"
    "nat (widx (rt_fifo rq1)) = Suc w mod no_of_buffers rq" "no_of_buffers rq1 = no_of_buffers rq"
    using push_claim_ok [OF assms(1)] wi by (metis nat_int)
  have wi1: "widx (rt_fifo rq1) = int (Suc w mod no_of_buffers rq)"
    using c(2,5) by (metis int_nat_eq ring_ok_def)
  have "Suc w mod no_of_buffers rq \<noteq> w" using w(1) assms(2) by (cases "Suc w = no_of_buffers rq") auto
  then have "trace_read rq1 w = (Some (push (rt_fifo rq) ! w), Suc w mod no_of_buffers rq)"
    using trace_read_next [of w rq1] w(1) by (simp add: c(4,6) wi1 del: of_nat_Suc)
  moreover have "trace_read (push_copy al (m\<lparr>g_seqn := pushseqn rq\<rparr>) rq1) (Suc w mod no_of_buffers rq) =
      (None, Suc w mod no_of_buffers rq)" by (simp add: trace_read_def push_copy_def wi1)
  ultimately show ?thesis using c(1,3,4) w(2) wi wi1 by (simp add: push_copy_def)
qed

text \<open>A ring full of messages that the trace has not read is lost on it: it sees nothing new.\<close>

theorem full_turn_is_missed:
  assumes "ring_ok rq" and "push_all ms rq = Some rq'" and "length ms = no_of_buffers rq"
  shows "trace_read rq' (nat (widx (rt_fifo rq))) = (None, nat (widx (rt_fifo rq)))"
proof -
  have "ring_ok rq \<Longrightarrow> push_all ms rq = Some rq' \<Longrightarrow> ring_ok rq' \<and>
      nat (widx (rt_fifo rq')) = (nat (widx (rt_fifo rq)) + length ms) mod no_of_buffers rq" for ms rq rq'
  proof (induction ms arbitrary: rq)
    case Nil
    then show ?case by (auto simp: ring_ok_def)
  next
    case (Cons x ms)
    obtain pos m where x: "x = (pos, m)" by (cases x)
    obtain rq1 where p: "push2sender pos m rq = Some
        (\<lparr> al_sidx = word_of_int pos, al_indx = of_nat (nat (widx (rt_fifo rq))), al_seqn = pushseqn rq \<rparr>, rq1)"
      "ring_ok rq1" "nat (widx (rt_fifo rq)) < no_of_buffers rq"
      "nat (widx (rt_fifo rq1)) = (if nat (widx (rt_fifo rq)) + 1 = no_of_buffers rq then 0 else nat (widx (rt_fifo rq)) + 1)"
      "no_of_buffers rq1 = no_of_buffers rq"
      by (rule push2sender_ok [OF Cons.prems(1)])
    have "nat (widx (rt_fifo rq1)) = Suc (nat (widx (rt_fifo rq))) mod no_of_buffers rq" using p(3,4) by auto
    then have "(nat (widx (rt_fifo rq1)) + length ms) mod no_of_buffers rq =
        (nat (widx (rt_fifo rq)) + length (x # ms)) mod no_of_buffers rq"
      by (metis add_Suc add_Suc_right length_Cons mod_add_left_eq)
    moreover have "push_all ms rq1 = Some rq'" using Cons.prems(2) p(1) x by simp
    ultimately show ?case using Cons.IH [OF p(2)] p(5) by metis
  qed
  from this [OF assms(1,2)] assms(3) have "nat (widx (rt_fifo rq')) = nat (widx (rt_fifo rq)) mod no_of_buffers rq"
    "0 \<le> widx (rt_fifo rq')" by (simp_all add: ring_ok_def)
  moreover have "nat (widx (rt_fifo rq)) < no_of_buffers rq" using assms(1) by (auto simp: ring_ok_def)
  ultimately show ?thesis by (auto simp: trace_read_def)
qed

theorem trace_shows_pushes_witness:
  "\<exists>out rq' w' rest. trace_run [Claim 0 msg0, Copy, Look, Claim 0 (msg0\<lparr>g_mask := 3\<rparr>), Copy, Look] None broker3 1 =
       Some (out, rq', w') \<and>
     numbered (pushseqn broker3) [Claim 0 msg0, Copy, Look, Claim 0 (msg0\<lparr>g_mask := 3\<rparr>), Copy, Look] = out @ rest \<and>
     length rest = 0"
proof -
  have w: "nat (widx (rt_fifo broker3)) = 1" by (simp add: broker3_def)
  have "backlog (no_of_buffers broker3) [Claim 0 msg0, Copy, Look, Claim 0 (msg0\<lparr>g_mask := 3\<rparr>), Copy, Look] False 0 = Some 0"
    by (simp add: broker3_def)
  from trace_shows_pushes [OF broker3_ring this] show ?thesis unfolding w .
qed

theorem trace_overtakes_witness:
  "\<exists>rq' w'. trace_run [Claim 0 (msg0\<lparr>g_mask := 3\<rparr>), Look, Copy, Look] None broker3 1 = Some ([msg0], rq', w')"
proof -
  have "nat (widx (rt_fifo broker3)) = 1" "push (rt_fifo broker3) ! 1 = msg0" "1 < no_of_buffers broker3"
    by (simp_all add: broker3_def numeral_3_eq_3)
  with trace_overtakes [OF broker3_ring, of 0 "msg0\<lparr>g_mask := 3\<rparr>"] show ?thesis by auto
qed

theorem full_turn_is_missed_witness:
  "\<exists>rq'. push_all [(0, msg0), (0, msg0)] broker3 = Some rq' \<and> trace_read rq' 1 = (None, 1)"
proof -
  have w: "nat (widx (rt_fifo broker3)) = 1" and n: "no_of_buffers broker3 = 2" by (simp_all add: broker3_def)
  obtain al rq1 where p1: "push2sender 0 msg0 broker3 = Some (al, rq1)" "ring_ok rq1"
    using push2sender_ok [OF broker3_ring, of 0 msg0] by metis
  obtain al' rq2 where p2: "push2sender 0 msg0 rq1 = Some (al', rq2)"
    using push2sender_ok [OF p1(2), of 0 msg0] by metis
  have r: "push_all [(0, msg0), (0, msg0)] broker3 = Some rq2" using p1 p2 by simp
  from full_turn_is_missed [OF broker3_ring r] n r show ?thesis by (simp add: w)
qed

subsection \<open>What the list shows\<close>

lemma hook_of_ok: "board_ok rq \<Longrightarrow> y \<in> set (live_symbs rq) \<Longrightarrow> hook_of rq y = Some (hooks rq ! nat (y_seqn y))"
  by (simp add: hook_of_def board_seqn)

text \<open>The report on a symbol of the board says how many clients listen to it.\<close>

theorem symbol_report:
  assumes ok: "board_ok rq" "counts_ok rq" and s: "length s < L_SYMB" "s \<noteq> []" "rooms rq s = Some r"
  shows "\<exists>mark. view4symb vo s rq = Some (0, ''Symbol = '' @ s @ newline @ ''Seq #  = '' @ show_int (int r) @ newline @
    ''Attach = '' @ show_int (int (card (listeners rq r))) @ newline @ ''Status = '' @ mark @ newline)"
proof -
  obtain i where i: "find_symb rq s = Some i" using find_symb_rooms(1) [OF ok(1), of s] s(3) by auto
  let ?y = "symb (rt_symbol rq) ! i"
  have y: "rooms rq s = Some (nat (y_seqn ?y))" "?y \<in> set (live_symbs rq)" "y_symb ?y = s"
    using find_symb_rooms(2) [OF ok(1) i] by auto
  have r: "nat (y_seqn ?y) = r" "y_seqn ?y = int r" using y(1) s(3) board_seqn(1) [OF ok(1) y(2)] by auto
  have "r < no_of_symbols rq" "valr (rt_symbol rq) \<noteq> 0" using rooms_bound [OF ok(1) s(3)] by auto
  moreover from this(1) have "uint (h_many (hooks rq ! r)) = int (card (listeners rq r))"
    using counts_okD(2) [OF ok(2)] by (metis uint_nat)
  ultimately show ?thesis using s i y r hook_of_ok [OF ok(1) y(2)]
    by (simp add: view4symb_def view_one_def Let_def)
qed

text \<open>The symbols the list shows: those with listeners unless all are asked for, and the deleted ones on demand.\<close>

definition listed :: "32 word \<Rightarrow> RQ \<Rightarrow> symb list" where
  "listed allsymb rq = filter (\<lambda>y. symb_shown allsymb y (h_many (hooks rq ! nat (y_seqn y)))) (live_symbs rq)"

lemma view_each_total:
  assumes "board_ok rq" "set ys \<subseteq> set (live_symbs rq)" "\<forall>y\<in>set ys. length (y_symb y) < 33"
  shows "\<exists>t nn'. view_each vo lmax rq ys nn n = Some (t, nn', n + length (filter (\<lambda>y.
    symb_shown (vo_allsymb vo) y (h_many (hooks rq ! nat (y_seqn y)))) ys))"
  using assms(2,3)
proof (induction ys arbitrary: nn n)
  case (Cons y ys)
  have h: "hook_of rq y = Some (hooks rq ! nat (y_seqn y))" using hook_of_ok [OF assms(1)] Cons.prems by simp
  have IH: "\<exists>t nn'. view_each vo lmax rq ys nn n = Some (t, nn', n + length (filter (\<lambda>y.
    symb_shown (vo_allsymb vo) y (h_many (hooks rq ! nat (y_seqn y)))) ys))" for nn n
    by (rule Cons.IH) (use Cons.prems in auto)
  show ?case
  proof (cases "symb_shown (vo_allsymb vo) y (h_many (hooks rq ! nat (y_seqn y)))")
    case False
    with h IH [of nn n] show ?thesis by simp
  next
    case True
    obtain t nn' where "view_each vo lmax rq ys (if vo_longmode vo then nn + 1 else
        if nn + 1 \<ge> MAXCOL div (lmax + 1) then 0 else nn + 1) (n + 1) = Some (t, nn', n + 1 + length (filter (\<lambda>y.
      symb_shown (vo_allsymb vo) y (h_many (hooks rq ! nat (y_seqn y)))) ys))" using IH by blast
    with True h Cons.prems show ?thesis by (cases "vo_longmode vo") (auto simp: Let_def)
  qed
qed simp

theorem list_counts_symbols:
  assumes "board_ok rq" "\<forall>y\<in>set (live_symbs rq). length (y_symb y) < L_SYMB" "valr (rt_symbol rq) \<noteq> 0"
  shows "\<exists>t. view4symb vo [] rq = Some (0, t @ ''Total '' @ decimal (length (listed (vo_allsymb vo) rq)) @
    '' symbols'' @ newline)"
proof -
  obtain t nn where "view_each vo (column_width rq) rq (live_symbs rq) 0 0 =
      Some (t, nn, length (listed (vo_allsymb vo) rq))"
    using view_each_total [OF assms(1) order_refl, of vo "column_width rq" 0 0] assms(2)
    by (fastforce simp: listed_def L_SYMB_def)
  with assms(3) show ?thesis by (simp add: view4symb_def)
qed

end
