(* ===== verification/JsonTable.thy ===== *)
theory JsonTable
  imports Prelude "HOL-Library.AList"
begin

unbundle bit_operations_syntax

text \<open>
  The members of a JSON object, \<^verbatim>\<open>src/lib/main/parson.c\<close>: a hash table with linear probing. The
  members themselves stand one behind the other in the arrays \<^verbatim>\<open>names\<close> and \<^verbatim>\<open>values\<close> with
  their hashes and the cells they have; a cell holds the index of its member. A removal puts the
  last member into the gap and moves members behind the freed cell back, so that no search ends
  too early.

  Of the arrays of \<^verbatim>\<open>item_capacity\<close> places the first \<^verbatim>\<open>count\<close> are kept, as the others are never
  read; a write behind the capacity or to the cell \<^verbatim>\<open>OBJECT_INVALID_IX\<close> is undefined (\<open>None\<close>).
  Whether there is memory for a table of a number of cells is the argument \<open>alloc\<close>; that the small
  blocks of the other functions are obtained is taken for granted. The pointers from a value to its
  object are left out, but for the test of \<^verbatim>\<open>json_object_set_value\<close> that it has none.
\<close>

subsection \<open>Data\<close>

record 'v json_object =
  o_cells :: "nat option list"
  o_hashes :: "u64 list"
  o_names :: "string list"
  o_values :: "'v list"
  o_cell_ixs :: "nat list"
  o_item_capacity :: nat
  o_cell_capacity :: nat

definition STARTING_CAPACITY :: nat where
  "STARTING_CAPACITY = 16"

definition o_count :: "'v json_object \<Rightarrow> nat" where
  "o_count ob = length (o_names ob)"

text \<open>\<^verbatim>\<open>w & (cell_capacity - 1)\<close> on the 64 bits of a \<^verbatim>\<open>size_t\<close>.\<close>

definition cell_of :: "nat \<Rightarrow> u64 \<Rightarrow> nat" where
  "cell_of cap w = unat (w AND (of_nat cap - 1))"

fun hash_from :: "u64 \<Rightarrow> string \<Rightarrow> u64" where
  "hash_from h [] = h"
| "hash_from h (c # s) = (if c = NUL then h else hash_from ((push_bit 5 h + h) + of_char c) s)"

definition hash_string :: "string \<Rightarrow> u64" where
  "hash_string s = hash_from 5381 s"

text \<open>The number of places for members is seven tenths of the number of cells, as \<^verbatim>\<open>unsigned int\<close>.\<close>

definition json_object_init :: "nat \<Rightarrow> 'v json_object" where
  "json_object_init capacity =
     \<lparr>o_cells = replicate capacity None, o_hashes = [], o_names = [], o_values = [], o_cell_ixs = [],
      o_item_capacity = (capacity * 7 div 10) mod 2 ^ 32, o_cell_capacity = capacity\<rparr>"

definition json_object_deinit :: "'v json_object \<Rightarrow> 'v json_object" where
  "json_object_deinit ob = json_object_init 0"

subsection \<open>Searching\<close>

text \<open>
  The loop of \<^verbatim>\<open>json_object_get_cell_ix\<close> with the number of turns left. \<open>None\<close> is
  \<^verbatim>\<open>OBJECT_INVALID_IX\<close>. A key is a string without NUL, of \<^verbatim>\<open>key_len\<close> characters.
\<close>

primrec probe :: "nat \<Rightarrow> 'v json_object \<Rightarrow> string \<Rightarrow> u64 \<Rightarrow> nat \<Rightarrow> nat option \<times> bool" where
  "probe 0 ob key hash i = (None, False)"
| "probe (Suc n) ob key hash i =
     (let cap = o_cell_capacity ob;
          ix = cell_of cap (of_nat (cell_of cap hash + i))
      in case o_cells ob ! ix of
           None \<Rightarrow> (Some ix, False)
         | Some cell \<Rightarrow>
             if hash \<noteq> o_hashes ob ! cell then probe n ob key hash (Suc i)
             else if key = o_names ob ! cell then (Some ix, True)
             else probe n ob key hash (Suc i))"

definition json_object_get_cell_ix :: "'v json_object \<Rightarrow> string \<Rightarrow> u64 \<Rightarrow> nat option \<times> bool" where
  "json_object_get_cell_ix ob key hash = probe (o_cell_capacity ob) ob key hash 0"

definition json_object_getn_value :: "'v json_object \<Rightarrow> string \<Rightarrow> 'v option" where
  "json_object_getn_value ob name =
     (case json_object_get_cell_ix ob name (hash_string name) of
        (Some cell_ix, True) \<Rightarrow> map_option (\<lambda>item_ix. o_values ob ! item_ix) (o_cells ob ! cell_ix)
      | _ \<Rightarrow> None)"

subsection \<open>Adding\<close>

text \<open>The end of \<^verbatim>\<open>json_object_add\<close>: the member is written behind the others and into its cell.\<close>

definition put_item :: "'v json_object \<Rightarrow> nat option \<Rightarrow> string \<Rightarrow> 'v \<Rightarrow> u64 \<Rightarrow> 'v json_object option" where
  "put_item ob cell_ix name v hash =
     (case cell_ix of
        None \<Rightarrow> None
      | Some c \<Rightarrow>
          if o_item_capacity ob \<le> o_count ob then None
          else Some (ob\<lparr>
            o_names := o_names ob @ [name],
            o_cells := (o_cells ob)[c := Some (o_count ob)],
            o_values := o_values ob @ [v],
            o_cell_ixs := o_cell_ixs ob @ [c],
            o_hashes := o_hashes ob @ [hash]\<rparr>))"

text \<open>
  \<^verbatim>\<open>json_object_add\<close> and \<^verbatim>\<open>json_object_grow_and_rehash\<close> call each other: growing adds every member
  to a new table, which then has room for them. The first argument bounds how often a call is
  within another one; in a well-formed table two are enough (\<open>add_entries\<close> below). The answer is the
  status and the object; a failure leaves the object as it is.
\<close>

function (sequential) add_depth :: "nat \<Rightarrow> (nat \<Rightarrow> bool) \<Rightarrow> 'v json_object \<Rightarrow> string \<Rightarrow> 'v \<Rightarrow> (bool \<times> 'v json_object) option"
  and grow_depth :: "nat \<Rightarrow> (nat \<Rightarrow> bool) \<Rightarrow> 'v json_object \<Rightarrow> (bool \<times> 'v json_object) option"
  and rehash :: "nat \<Rightarrow> (nat \<Rightarrow> bool) \<Rightarrow> (string \<times> 'v) list \<Rightarrow> 'v json_object \<Rightarrow> (bool \<times> 'v json_object) option" where
  "add_depth 0 alloc ob name v = None"
| "add_depth (Suc d) alloc ob name v =
     (let hash = hash_string name in
      case json_object_get_cell_ix ob name hash of
        (cell_ix, found) \<Rightarrow>
          if found then Some (False, ob)
          else if o_item_capacity ob \<le> o_count ob then
            (case grow_depth d alloc ob of
               None \<Rightarrow> None
             | Some (ok, ob1) \<Rightarrow>
                 if \<not> ok then Some (False, ob)
                 else map_option (Pair True) (put_item ob1 (fst (json_object_get_cell_ix ob1 name hash)) name v hash))
          else map_option (Pair True) (put_item ob cell_ix name v hash))"
| "grow_depth d alloc ob =
     (let new_capacity = max (o_cell_capacity ob * 2) STARTING_CAPACITY in
      if \<not> alloc new_capacity then Some (False, ob)
      else (case rehash d alloc (zip (o_names ob) (o_values ob)) (json_object_init new_capacity) of
              None \<Rightarrow> None
            | Some (ok, new_object) \<Rightarrow> Some (if ok then (True, new_object) else (False, ob))))"
| "rehash d alloc [] new_object = Some (True, new_object)"
| "rehash d alloc ((key, v) # ms) new_object =
     (case add_depth d alloc new_object key v of
        None \<Rightarrow> None
      | Some (ok, ob) \<Rightarrow> if ok then rehash d alloc ms ob else Some (False, ob))"
  by pat_completeness auto
termination
  by (relation "measures [\<lambda>x. case x of Inl (d, _) \<Rightarrow> d | Inr (Inl (d, _)) \<Rightarrow> d | Inr (Inr (d, _)) \<Rightarrow> d,
       \<lambda>x. case x of Inl _ \<Rightarrow> 0 | Inr (Inl _) \<Rightarrow> 2 | Inr (Inr _) \<Rightarrow> 1,
       \<lambda>x. case x of Inr (Inr (_, _, ms, _)) \<Rightarrow> length ms | _ \<Rightarrow> 0]") auto

definition json_object_add :: "(nat \<Rightarrow> bool) \<Rightarrow> 'v json_object \<Rightarrow> string \<Rightarrow> 'v \<Rightarrow> (bool \<times> 'v json_object) option" where
  "json_object_add = add_depth 2"

definition json_object_grow_and_rehash :: "(nat \<Rightarrow> bool) \<Rightarrow> 'v json_object \<Rightarrow> (bool \<times> 'v json_object) option" where
  "json_object_grow_and_rehash = grow_depth 1"

text \<open>\<open>has_parent\<close>: the value already belongs to an object or an array.\<close>

definition json_object_set_value ::
  "(nat \<Rightarrow> bool) \<Rightarrow> 'v json_object \<Rightarrow> string \<Rightarrow> bool \<Rightarrow> 'v \<Rightarrow> (bool \<times> 'v json_object) option" where
  "json_object_set_value alloc ob name has_parent v =
     (if has_parent then Some (False, ob)
      else let hash = hash_string name in
      case json_object_get_cell_ix ob name hash of
        (cell_ix, found) \<Rightarrow>
          if found then
            (case cell_ix of
               None \<Rightarrow> None
             | Some c \<Rightarrow> map_option (\<lambda>item_ix. (True, ob\<lparr>o_values := (o_values ob)[item_ix := v]\<rparr>)) (o_cells ob ! c))
          else if o_item_capacity ob \<le> o_count ob then
            (case json_object_grow_and_rehash alloc ob of
               None \<Rightarrow> None
             | Some (ok, ob1) \<Rightarrow>
                 if \<not> ok then Some (False, ob)
                 else map_option (Pair True) (put_item ob1 (fst (json_object_get_cell_ix ob1 name hash)) name v hash))
          else map_option (Pair True) (put_item ob cell_ix name v hash))"

subsection \<open>Removing\<close>

text \<open>
  The loop of \<^verbatim>\<open>json_object_remove_internal\<close> with the number of turns left: \<open>i\<close> is the free
  cell, \<open>j\<close> the last one looked at. It ends with the cell to be marked free.
\<close>

primrec shift_back :: "nat \<Rightarrow> 'v json_object \<Rightarrow> nat \<Rightarrow> nat \<Rightarrow> 'v json_object \<times> nat" where
  "shift_back 0 ob i j = (ob, i)"
| "shift_back (Suc n) ob i j =
     (let cap = o_cell_capacity ob;
          j = cell_of cap (of_nat (j + 1))
      in case o_cells ob ! j of
           None \<Rightarrow> (ob, i)
         | Some item \<Rightarrow>
             let k = cell_of cap (o_hashes ob ! item) in
             if j > i \<and> (k \<le> i \<or> k > j) \<or> j < i \<and> (k \<le> i \<and> k > j) then
               shift_back n (ob\<lparr>o_cell_ixs := (o_cell_ixs ob)[item := i], o_cells := (o_cells ob)[i := Some item]\<rparr>) j j
             else shift_back n ob i j)"

text \<open>The last member is moved to the place of the removed one.\<close>

definition move_last :: "'v json_object \<Rightarrow> nat \<Rightarrow> 'v json_object" where
  "move_last ob item_ix =
     (let last_item_ix = o_count ob - 1;
          ob = (if item_ix < last_item_ix then ob\<lparr>
                  o_names := (o_names ob)[item_ix := o_names ob ! last_item_ix],
                  o_values := (o_values ob)[item_ix := o_values ob ! last_item_ix],
                  o_cell_ixs := (o_cell_ixs ob)[item_ix := o_cell_ixs ob ! last_item_ix],
                  o_hashes := (o_hashes ob)[item_ix := o_hashes ob ! last_item_ix],
                  o_cells := (o_cells ob)[o_cell_ixs ob ! last_item_ix := Some item_ix]\<rparr>
                else ob)
      in ob\<lparr>o_names := butlast (o_names ob), o_values := butlast (o_values ob),
            o_cell_ixs := butlast (o_cell_ixs ob), o_hashes := butlast (o_hashes ob)\<rparr>)"

definition json_object_remove_internal :: "'v json_object \<Rightarrow> string \<Rightarrow> bool \<times> 'v json_object" where
  "json_object_remove_internal ob name =
     (case json_object_get_cell_ix ob name (hash_string name) of
        (Some cell, True) \<Rightarrow>
          (case o_cells ob ! cell of
             None \<Rightarrow> (False, ob)
           | Some item_ix \<Rightarrow>
               let (ob1, i) = shift_back (o_cell_capacity ob - 1) (move_last ob item_ix) cell cell
               in (True, ob1\<lparr>o_cells := (o_cells ob1)[i := None]\<rparr>))
      | _ \<Rightarrow> (False, ob))"

definition json_object_clear :: "'v json_object \<Rightarrow> bool \<times> 'v json_object" where
  "json_object_clear ob =
     (True, ob\<lparr>o_names := [], o_values := [], o_cell_ixs := [], o_hashes := [],
               o_cells := replicate (o_cell_capacity ob) None\<rparr>)"

subsection \<open>Cells as positions on a ring\<close>

lemma cell_of_power:
  assumes "k < 64"
  shows "cell_of (2 ^ k) w = unat w mod 2 ^ k"
proof -
  have "(of_nat (2 ^ k) - 1 :: u64) = mask k" by (simp add: mask_eq_decr_exp)
  then have "cell_of (2 ^ k) w = unat (take_bit k w)" by (simp only: cell_of_def flip: take_bit_eq_mask)
  also have "\<dots> = take_bit k (unat w)" by (rule unsigned_take_bit_eq)
  finally show ?thesis by (simp only: take_bit_eq_mod)
qed

lemma cell_of_nat:
  assumes "k < 64"
  shows "cell_of (2 ^ k) (of_nat n) = n mod 2 ^ k"
proof -
  have "(2 :: nat) ^ k dvd 2 ^ 64" using assms by (intro le_imp_power_dvd) simp
  then show ?thesis using assms by (simp add: cell_of_power unat_of_nat take_bit_eq_mod mod_mod_cancel)
qed

text \<open>How far one has to go from \<open>a\<close> to \<open>b\<close>, upwards and around.\<close>

definition ring_dist :: "nat \<Rightarrow> nat \<Rightarrow> nat \<Rightarrow> nat" where
  "ring_dist cap a b = (if a \<le> b then b - a else b + cap - a)"

lemma ring_dist_less: "a < cap \<Longrightarrow> b < cap \<Longrightarrow> ring_dist cap a b < cap"
  by (auto simp: ring_dist_def)

lemma ring_dist_go: "a < cap \<Longrightarrow> d < cap \<Longrightarrow> ring_dist cap a ((a + d) mod cap) = d"
  by (auto simp: ring_dist_def mod_if)

lemma ring_go_dist: "a < cap \<Longrightarrow> b < cap \<Longrightarrow> (a + ring_dist cap a b) mod cap = b"
  by (auto simp: ring_dist_def mod_if)

lemma ring_dist_eq_0: "a < cap \<Longrightarrow> b < cap \<Longrightarrow> ring_dist cap a b = 0 \<longleftrightarrow> a = b"
  by (auto simp: ring_dist_def)

lemma ring_dist_inj: "a < cap \<Longrightarrow> b < cap \<Longrightarrow> c < cap \<Longrightarrow> ring_dist cap a b = ring_dist cap a c \<longleftrightarrow> b = c"
  by (auto simp: ring_dist_def)

text \<open>The test of the loop: the way from \<open>k\<close> comes past \<open>i\<close> before it reaches \<open>j\<close>.\<close>

lemma behind_hole:
  assumes "i < cap" "j < cap" "k < cap" "i \<noteq> j"
  shows "(j > i \<and> (k \<le> i \<or> k > j) \<or> j < i \<and> (k \<le> i \<and> k > j)) \<longleftrightarrow> ring_dist cap k i < ring_dist cap k j"
  using assms by (auto simp: ring_dist_def)

subsection \<open>The invariant\<close>

definition home :: "'v json_object \<Rightarrow> nat \<Rightarrow> nat" where
  "home ob t = cell_of (o_cell_capacity ob) (o_hashes ob ! t)"

definition shape_ok :: "'v json_object \<Rightarrow> bool" where
  "shape_ok ob \<longleftrightarrow>
     (o_cell_capacity ob = 0 \<or> (\<exists>k. 4 \<le> k \<and> k < 32 \<and> o_cell_capacity ob = 2 ^ k)) \<and>
     o_item_capacity ob = o_cell_capacity ob * 7 div 10 \<and> o_count ob \<le> o_item_capacity ob \<and>
     length (o_cells ob) = o_cell_capacity ob \<and> length (o_values ob) = o_count ob \<and>
     length (o_cell_ixs ob) = o_count ob \<and> length (o_hashes ob) = o_count ob"

definition names_ok :: "'v json_object \<Rightarrow> bool" where
  "names_ok ob \<longleftrightarrow> distinct (o_names ob) \<and> o_hashes ob = map hash_string (o_names ob)"

text \<open>
  Members and cells belong together, except for a cell \<open>hole\<close> that holds a stale index; and from the
  home of a member to its cell there is no empty cell.
\<close>

definition linked :: "nat set \<Rightarrow> 'v json_object \<Rightarrow> bool" where
  "linked hole ob \<longleftrightarrow>
     (\<forall>t<o_count ob. o_cell_ixs ob ! t < o_cell_capacity ob \<and> o_cell_ixs ob ! t \<notin> hole \<and>
        o_cells ob ! (o_cell_ixs ob ! t) = Some t) \<and>
     (\<forall>p<o_cell_capacity ob. \<forall>t. p \<notin> hole \<longrightarrow> o_cells ob ! p = Some t \<longrightarrow> t < o_count ob \<and> o_cell_ixs ob ! t = p)"

definition reachable :: "'v json_object \<Rightarrow> bool" where
  "reachable ob \<longleftrightarrow>
     (\<forall>t<o_count ob. \<forall>q<o_cell_capacity ob.
        ring_dist (o_cell_capacity ob) (home ob t) q < ring_dist (o_cell_capacity ob) (home ob t) (o_cell_ixs ob ! t) \<longrightarrow>
        o_cells ob ! q \<noteq> None)"

definition object_ok :: "'v json_object \<Rightarrow> bool" where
  "object_ok ob \<longleftrightarrow> shape_ok ob \<and> names_ok ob \<and> linked {} ob \<and> reachable ob"

text \<open>The members in order: what the object stands for.\<close>

definition entries :: "'v json_object \<Rightarrow> (string \<times> 'v) list" where
  "entries ob = zip (o_names ob) (o_values ob)"

lemma object_okD:
  assumes "object_ok ob"
  shows "shape_ok ob" "names_ok ob" "linked {} ob" "reachable ob"
  using assms by (auto simp: object_ok_def)

lemma shape_cells:
  assumes "shape_ok ob" "0 < o_cell_capacity ob"
  shows "cell_of (o_cell_capacity ob) (of_nat n) = n mod o_cell_capacity ob"
    "cell_of (o_cell_capacity ob) w < o_cell_capacity ob"
    "o_item_capacity ob < o_cell_capacity ob"
proof -
  from assms obtain k where k: "4 \<le> k" "k < 32" "o_cell_capacity ob = 2 ^ k" by (auto simp: shape_ok_def)
  show "cell_of (o_cell_capacity ob) (of_nat n) = n mod o_cell_capacity ob"
    using k by (simp only: k(3)) (rule cell_of_nat, simp)
  have "cell_of (o_cell_capacity ob) w = unat w mod 2 ^ k" using k by (simp only: k(3)) (rule cell_of_power, simp)
  then show "cell_of (o_cell_capacity ob) w < o_cell_capacity ob" using k(3) by simp
  show "o_item_capacity ob < o_cell_capacity ob" using assms by (auto simp: shape_ok_def)
qed

lemma home_less: "shape_ok ob \<Longrightarrow> 0 < o_cell_capacity ob \<Longrightarrow> home ob t < o_cell_capacity ob"
  by (simp add: home_def shape_cells)

lemma count_cells:
  assumes "linked {} ob" "length (o_cells ob) = o_cell_capacity ob"
  shows "card {p. p < o_cell_capacity ob \<and> o_cells ob ! p \<noteq> None} = o_count ob"
proof -
  let ?P = "{p. p < o_cell_capacity ob \<and> o_cells ob ! p \<noteq> None}"
  have "bij_betw (\<lambda>t. o_cell_ixs ob ! t) {..<o_count ob} ?P"
  proof (rule bij_betwI')
    fix t u assume "t \<in> {..<o_count ob}" "u \<in> {..<o_count ob}"
    then show "(o_cell_ixs ob ! t = o_cell_ixs ob ! u) = (t = u)"
      using assms(1) by (metis (no_types, lifting) lessThan_iff linked_def option.inject)
  next
    fix p assume "p \<in> ?P"
    then show "\<exists>t\<in>{..<o_count ob}. p = o_cell_ixs ob ! t" using assms(1) by (auto simp: linked_def)
  qed (use assms(1) in \<open>auto simp: linked_def\<close>)
  from bij_betw_same_card [OF this] show ?thesis by simp
qed

lemma empty_cell:
  assumes "object_ok ob" "0 < o_cell_capacity ob"
  shows "\<exists>p<o_cell_capacity ob. o_cells ob ! p = None"
proof (rule ccontr)
  assume "\<not> ?thesis"
  then have "{p. p < o_cell_capacity ob \<and> o_cells ob ! p \<noteq> None} = {..<o_cell_capacity ob}" by auto
  moreover have "card {p. p < o_cell_capacity ob \<and> o_cells ob ! p \<noteq> None} = o_count ob"
    using assms(1) by (intro count_cells) (auto simp: object_ok_def shape_ok_def)
  ultimately have "o_count ob = o_cell_capacity ob" by simp
  then show False using assms shape_cells(3) [of ob] by (simp add: object_ok_def shape_ok_def)
qed

lemma object_ok_init:
  assumes "c = 0 \<or> (\<exists>k. 4 \<le> k \<and> k < 32 \<and> c = 2 ^ k)"
  shows "object_ok (json_object_init c)" "entries (json_object_init c) = []"
proof -
  have "c * 7 div 10 < 2 ^ 32"
  proof (cases "c = 0")
    case False
    then obtain k where "k < 32" "c = 2 ^ k" using assms by auto
    then have "c < 2 ^ 32" using power_strict_increasing [of k 32 "2 :: nat"] by simp
    then show ?thesis by simp
  qed simp
  then show "object_ok (json_object_init c)" using assms
    by (auto simp: object_ok_def shape_ok_def names_ok_def linked_def reachable_def json_object_init_def o_count_def)
  show "entries (json_object_init c) = []" by (simp add: entries_def json_object_init_def)
qed

subsection \<open>Searching\<close>

lemma probe_found:
  assumes "shape_ok ob" "names_ok ob" "linked {} ob" "reachable ob" "t < o_count ob"
    and "i \<le> ring_dist (o_cell_capacity ob) (home ob t) (o_cell_ixs ob ! t)"
    and "ring_dist (o_cell_capacity ob) (home ob t) (o_cell_ixs ob ! t) < i + n"
  shows "probe n ob (o_names ob ! t) (o_hashes ob ! t) i = (Some (o_cell_ixs ob ! t), True)"
  using assms(6,7)
proof (induction n arbitrary: i)
  case (Suc n)
  let ?c = "o_cell_capacity ob" let ?h = "home ob t" let ?p = "o_cell_ixs ob ! t"
  have p: "?p < ?c" "o_cells ob ! ?p = Some t" using assms(3,5) by (auto simp: linked_def)
  then have h: "?h < ?c" using assms(1) by (intro home_less) auto
  define ix where "ix = (?h + i) mod ?c"
  have i: "i < ?c" using Suc.prems(1) ring_dist_less [OF h p(1)] by simp
  have ix: "ix < ?c" "ring_dist ?c ?h ix = i" using h i by (auto simp: ix_def ring_dist_go)
  have cell: "cell_of ?c (of_nat (cell_of ?c (o_hashes ob ! t) + i)) = ix"
    using p(1) by (simp only: ix_def home_def) (rule shape_cells(1) [OF assms(1)], simp)
  have hash: "o_hashes ob ! u = hash_string (o_names ob ! u)" if "u < o_count ob" for u
    using assms(2) that by (simp add: names_ok_def o_count_def)
  show ?case
  proof (cases "i = ring_dist ?c ?h ?p")
    case True
    then have "ix = ?p" using ring_dist_inj [OF h ix(1) p(1)] ix(2) by simp
    then show ?thesis using p cell by (simp add: Let_def)
  next
    case False
    then have less: "i < ring_dist ?c ?h ?p" using Suc.prems(1) by simp
    then obtain u where u: "o_cells ob ! ix = Some u"
      using assms(4,5) ix by (metis (no_types, lifting) not_None_eq reachable_def)
    then have "u < o_count ob" "o_cell_ixs ob ! u = ix" using assms(3) ix(1) by (auto simp: linked_def)
    moreover have "u \<noteq> t" using calculation less ix(2) by auto
    ultimately have "o_names ob ! u \<noteq> o_names ob ! t"
      using assms(2,5) by (auto simp: names_ok_def o_count_def nth_eq_iff_index_eq)
    then show ?thesis using Suc.IH [of "Suc i"] Suc.prems less u cell by (auto simp: Let_def)
  qed
qed simp

text \<open>A name that is not there: the search ends at an empty cell, with full cells before it.\<close>

lemma probe_free:
  assumes "shape_ok ob" "names_ok ob" "linked {} ob" "key \<notin> set (o_names ob)"
    and c: "c = o_cell_capacity ob" "h = cell_of c hash" "0 < c"
    and "i + n \<le> c" "\<exists>d. i \<le> d \<and> d < i + n \<and> o_cells ob ! ((h + d) mod c) = None"
  shows "\<exists>d. i \<le> d \<and> d < i + n \<and> probe n ob key hash i = (Some ((h + d) mod c), False) \<and>
     o_cells ob ! ((h + d) mod c) = None \<and> (\<forall>e. i \<le> e \<and> e < d \<longrightarrow> o_cells ob ! ((h + e) mod c) \<noteq> None)"
  using assms(8,9)
proof (induction n arbitrary: i)
  case (Suc n)
  have ix: "cell_of c (of_nat (cell_of c hash + i)) = (h + i) mod c" "(h + i) mod c < c"
    using c by (simp_all only: c(1)) (rule shape_cells(1) [OF assms(1)], simp, simp)
  show ?case
  proof (cases "o_cells ob ! ((h + i) mod c)")
    case None
    then show ?thesis using ix c by (intro exI [of _ i]) (auto simp: Let_def)
  next
    case (Some u)
    then have "u < o_count ob" using assms(3) ix(2) c(1) by (auto simp: linked_def)
    then have "key \<noteq> o_names ob ! u" using assms(4) by (auto simp: o_count_def)
    then have step: "probe (Suc n) ob key hash i = probe n ob key hash (Suc i)"
      using Some ix(1) c by (simp add: Let_def)
    have rest: "\<exists>d. Suc i \<le> d \<and> d < Suc i + n \<and> o_cells ob ! ((h + d) mod c) = None"
    proof -
      obtain d where d: "i \<le> d" "d < i + Suc n" "o_cells ob ! ((h + d) mod c) = None" using Suc.prems(2) by auto
      moreover have "d \<noteq> i" using d(3) Some by auto
      ultimately show ?thesis by (intro exI [of _ d]) auto
    qed
    obtain d where d: "Suc i \<le> d" "d < Suc i + n" "probe n ob key hash (Suc i) = (Some ((h + d) mod c), False)"
      "o_cells ob ! ((h + d) mod c) = None" "\<forall>e. Suc i \<le> e \<and> e < d \<longrightarrow> o_cells ob ! ((h + e) mod c) \<noteq> None"
      using Suc.IH [of "Suc i"] Suc.prems(1) rest by auto
    have "o_cells ob ! ((h + e) mod c) \<noteq> None" if "i \<le> e" "e < d" for e
      using d(5) Some that by (cases "e = i") auto
    then show ?thesis using d step by (intro exI [of _ d]) auto
  qed
qed auto

lemma get_cell_found:
  assumes "object_ok ob" "t < o_count ob"
  shows "json_object_get_cell_ix ob (o_names ob ! t) (hash_string (o_names ob ! t)) = (Some (o_cell_ixs ob ! t), True)"
    and "o_cells ob ! (o_cell_ixs ob ! t) = Some t" "o_cell_ixs ob ! t < o_cell_capacity ob"
proof -
  show c: "o_cells ob ! (o_cell_ixs ob ! t) = Some t" "o_cell_ixs ob ! t < o_cell_capacity ob"
    using assms by (auto simp: object_ok_def linked_def)
  have "ring_dist (o_cell_capacity ob) (home ob t) (o_cell_ixs ob ! t) < o_cell_capacity ob"
    using c assms by (intro ring_dist_less home_less) (auto simp: object_ok_def)
  then show "json_object_get_cell_ix ob (o_names ob ! t) (hash_string (o_names ob ! t)) = (Some (o_cell_ixs ob ! t), True)"
    using probe_found [of ob t 0 "o_cell_capacity ob"] assms
    by (simp add: json_object_get_cell_ix_def object_ok_def names_ok_def o_count_def)
qed

lemma get_cell_free:
  assumes "object_ok ob" "key \<notin> set (o_names ob)" "0 < o_cell_capacity ob"
  shows "\<exists>p. json_object_get_cell_ix ob key hash = (Some p, False) \<and> p < o_cell_capacity ob \<and> o_cells ob ! p = None \<and>
     (\<forall>q<o_cell_capacity ob. ring_dist (o_cell_capacity ob) (cell_of (o_cell_capacity ob) hash) q <
        ring_dist (o_cell_capacity ob) (cell_of (o_cell_capacity ob) hash) p \<longrightarrow> o_cells ob ! q \<noteq> None)"
proof -
  let ?c = "o_cell_capacity ob" let ?h = "cell_of ?c hash"
  note ok = object_okD [OF assms(1)]
  have h: "?h < ?c" using shape_cells(2) ok(1) assms(3) by blast
  obtain p where p: "p < ?c" "o_cells ob ! p = None" using empty_cell assms by blast
  have "\<exists>d. 0 \<le> d \<and> d < 0 + ?c \<and> o_cells ob ! ((?h + d) mod ?c) = None"
    using ring_dist_less [OF h p(1)] ring_go_dist [OF h p(1)] p(2) by (intro exI [of _ "ring_dist ?c ?h p"]) auto
  with probe_free [OF ok(1-3) assms(2), of ?c ?h hash 0 ?c] assms(3) obtain d where
    d: "d < ?c" "probe ?c ob key hash 0 = (Some ((?h + d) mod ?c), False)" "o_cells ob ! ((?h + d) mod ?c) = None"
      "\<forall>e<d. o_cells ob ! ((?h + e) mod ?c) \<noteq> None" by auto
  have "o_cells ob ! q \<noteq> None" if "q < ?c" "ring_dist ?c ?h q < ring_dist ?c ?h ((?h + d) mod ?c)" for q
    using d(4) that ring_dist_go [OF h d(1)] ring_go_dist [OF h that(1)] by metis
  then show ?thesis using d assms(3) by (auto simp: json_object_get_cell_ix_def intro!: exI [of _ "(?h + d) mod ?c"])
qed

lemma get_cell_no_cells:
  "o_cell_capacity ob = 0 \<Longrightarrow> json_object_get_cell_ix ob key hash = (None, False)"
  by (simp add: json_object_get_cell_ix_def)

lemma found_iff:
  assumes "object_ok ob"
  shows "snd (json_object_get_cell_ix ob key (hash_string key)) \<longleftrightarrow> key \<in> set (o_names ob)"
proof (cases "key \<in> set (o_names ob)")
  case True
  then obtain t where "t < o_count ob" "o_names ob ! t = key" by (auto simp: in_set_conv_nth o_count_def)
  then show ?thesis using get_cell_found(1) [OF assms] True by force
next
  case False
  then show ?thesis
    using get_cell_free [OF assms False, of "hash_string key"] get_cell_no_cells [of ob key "hash_string key"]
    by (cases "o_cell_capacity ob = 0") auto
qed

lemma map_of_entries_nth:
  assumes "object_ok ob" "t < o_count ob"
  shows "map_of (entries ob) (o_names ob ! t) = Some (o_values ob ! t)"
  using assms by (auto simp: entries_def o_count_def object_ok_def names_ok_def shape_ok_def intro!: map_of_is_SomeI
      simp: in_set_zip)

lemma map_of_entries_None:
  assumes "object_ok ob"
  shows "map_of (entries ob) name = None \<longleftrightarrow> name \<notin> set (o_names ob)"
  using assms by (simp add: entries_def object_ok_def shape_ok_def o_count_def)

lemma getn_value_lookup:
  assumes "object_ok ob"
  shows "json_object_getn_value ob name = map_of (entries ob) name"
proof (cases "name \<in> set (o_names ob)")
  case True
  then obtain t where t: "t < o_count ob" "o_names ob ! t = name" by (auto simp: in_set_conv_nth o_count_def)
  then show ?thesis using get_cell_found [OF assms t(1)] map_of_entries_nth [OF assms t(1)]
    by (simp add: json_object_getn_value_def)
next
  case False
  then have "\<not> snd (json_object_get_cell_ix ob name (hash_string name))" using found_iff [OF assms] by simp
  then show ?thesis using False map_of_entries_None [OF assms, of name]
    by (auto simp: json_object_getn_value_def split: prod.split option.split)
qed

subsection \<open>Adding\<close>

lemma put_item_ok:
  assumes ok: "object_ok ob" and new: "name \<notin> set (o_names ob)" and room: "o_count ob < o_item_capacity ob"
  shows "\<exists>ob'. put_item ob (fst (json_object_get_cell_ix ob name (hash_string name))) name v (hash_string name) = Some ob' \<and>
     object_ok ob' \<and> entries ob' = entries ob @ [(name, v)] \<and>
     o_cell_capacity ob' = o_cell_capacity ob \<and> o_item_capacity ob' = o_item_capacity ob"
proof -
  let ?c = "o_cell_capacity ob" let ?n = "o_count ob" let ?hash = "hash_string name"
  note k = object_okD [OF ok]
  have c: "0 < ?c" using k(1) room by (auto simp: shape_ok_def)
  obtain p where p: "json_object_get_cell_ix ob name ?hash = (Some p, False)" "p < ?c" "o_cells ob ! p = None"
    and path: "\<And>q. q < ?c \<Longrightarrow> ring_dist ?c (cell_of ?c ?hash) q < ring_dist ?c (cell_of ?c ?hash) p \<Longrightarrow> o_cells ob ! q \<noteq> None"
    using get_cell_free [OF ok new c] by metis
  have len: "length (o_cells ob) = ?c" "length (o_values ob) = ?n" "length (o_cell_ixs ob) = ?n" "length (o_hashes ob) = ?n"
    using k(1) by (auto simp: shape_ok_def)
  define ob' where "ob' = ob\<lparr>o_names := o_names ob @ [name], o_cells := (o_cells ob)[p := Some ?n],
    o_values := o_values ob @ [v], o_cell_ixs := o_cell_ixs ob @ [p], o_hashes := o_hashes ob @ [?hash]\<rparr>"
  have put: "put_item ob (Some p) name v ?hash = Some ob'" using room by (simp add: put_item_def ob'_def)
  have cnt: "o_count ob' = Suc ?n" by (simp add: ob'_def o_count_def)
  have cap: "o_cell_capacity ob' = ?c" by (simp add: ob'_def)
  have "linked {} ob'" unfolding linked_def
  proof (intro conjI allI impI)
    fix t assume "t < o_count ob'"
    then consider "t < ?n" | "t = ?n" using cnt by linarith
    then show "o_cell_ixs ob' ! t < o_cell_capacity ob'" "o_cells ob' ! (o_cell_ixs ob' ! t) = Some t"
      using k(3) p len by (cases; auto simp: ob'_def linked_def nth_append nth_list_update)+
  next
    fix q t assume q: "q < o_cell_capacity ob'" "o_cells ob' ! q = Some t"
    then have "q = p \<and> t = ?n \<or> q \<noteq> p \<and> o_cells ob ! q = Some t"
      using p len by (auto simp: ob'_def nth_list_update split: if_splits)
    then show "t < o_count ob'" "o_cell_ixs ob' ! t = q"
      using k(3) q(1) len unfolding cnt cap by (auto simp: ob'_def linked_def nth_append)
  qed auto
  moreover have "reachable ob'" unfolding reachable_def cap
  proof (intro allI impI)
    fix t q assume tq: "t < o_count ob'" "q < ?c" "ring_dist ?c (home ob' t) q < ring_dist ?c (home ob' t) (o_cell_ixs ob' ! t)"
    then consider "t < ?n" | "t = ?n" using cnt by linarith
    then have "o_cells ob ! q \<noteq> None"
      using tq path [of q] k(4) len by cases (auto simp: ob'_def home_def reachable_def nth_append)
    then show "o_cells ob' ! q \<noteq> None" using p(2) len by (auto simp: ob'_def nth_list_update)
  qed
  moreover have "shape_ok ob'" using k(1) room by (auto simp: shape_ok_def ob'_def o_count_def)
  moreover have "names_ok ob'" using k(2) new by (auto simp: names_ok_def ob'_def)
  moreover have "entries ob' = entries ob @ [(name, v)]" using len by (simp add: entries_def ob'_def o_count_def)
  ultimately show ?thesis using p(1) put by (auto simp: object_ok_def ob'_def)
qed

lemma add_with_room:
  assumes "object_ok ob" "name \<notin> set (o_names ob)" "o_count ob < o_item_capacity ob"
  shows "\<exists>ob'. add_depth (Suc d) alloc ob name v = Some (True, ob') \<and> object_ok ob' \<and> entries ob' = entries ob @ [(name, v)] \<and>
     o_cell_capacity ob' = o_cell_capacity ob \<and> o_item_capacity ob' = o_item_capacity ob"
proof -
  obtain p where "json_object_get_cell_ix ob name (hash_string name) = (p, False)"
    using found_iff [OF assms(1), of name] assms(2) by (metis prod.collapse)
  then show ?thesis using put_item_ok [OF assms, of v] assms(3) by (auto simp: Let_def)
qed

lemma o_names_entries: "object_ok ob \<Longrightarrow> map fst (entries ob) = o_names ob"
  by (simp add: entries_def object_ok_def shape_ok_def o_count_def)

lemma o_count_entries: "object_ok ob \<Longrightarrow> o_count ob = length (entries ob)"
  by (simp add: entries_def object_ok_def shape_ok_def o_count_def)

lemma rehash_ok:
  assumes "object_ok ob" "distinct (map fst ms)" "fst ` set ms \<inter> set (o_names ob) = {}"
    "o_count ob + length ms \<le> o_item_capacity ob"
  shows "\<exists>ob'. rehash (Suc d) alloc ms ob = Some (True, ob') \<and> object_ok ob' \<and> entries ob' = entries ob @ ms \<and>
     o_cell_capacity ob' = o_cell_capacity ob \<and> o_item_capacity ob' = o_item_capacity ob"
  using assms
proof (induction ms arbitrary: ob)
  case (Cons m ms)
  obtain key v where m: "m = (key, v)" by (cases m)
  obtain ob1 where add: "add_depth (Suc d) alloc ob key v = Some (True, ob1)" "object_ok ob1"
    "entries ob1 = entries ob @ [(key, v)]" "o_cell_capacity ob1 = o_cell_capacity ob" "o_item_capacity ob1 = o_item_capacity ob"
    using add_with_room [of ob key d alloc v] Cons.prems m by auto
  have "o_names ob1 = o_names ob @ [key]" "o_count ob1 = Suc (o_count ob)"
    using o_names_entries [OF add(2)] o_names_entries [OF Cons.prems(1)] o_count_entries [OF add(2)]
      o_count_entries [OF Cons.prems(1)] add(3) by auto
  then have "fst ` set ms \<inter> set (o_names ob1) = {}" "o_count ob1 + length ms \<le> o_item_capacity ob1"
    using Cons.prems add(5) m by auto
  with Cons.IH [OF add(2)] Cons.prems(2) m obtain ob' where "rehash (Suc d) alloc ms ob1 = Some (True, ob')"
    "object_ok ob'" "entries ob' = entries ob1 @ ms" "o_cell_capacity ob' = o_cell_capacity ob1"
    "o_item_capacity ob' = o_item_capacity ob1" by auto
  then show ?case using m add by (auto simp del: add_depth.simps)
qed simp

text \<open>Growing leaves the members as they are and makes room, or refuses.\<close>

lemma grow_ok:
  assumes ok: "object_ok ob" and mem: "\<forall>c. alloc c \<longrightarrow> c < 2 ^ 32"
  shows "(if alloc (max (o_cell_capacity ob * 2) STARTING_CAPACITY)
     then \<exists>ob'. grow_depth (Suc d) alloc ob = Some (True, ob') \<and> object_ok ob' \<and> entries ob' = entries ob \<and>
       o_count ob' < o_item_capacity ob'
     else grow_depth (Suc d) alloc ob = Some (False, ob))"
proof (cases "alloc (max (o_cell_capacity ob * 2) STARTING_CAPACITY)")
  case True
  let ?c = "max (o_cell_capacity ob * 2) STARTING_CAPACITY"
  note k = object_okD [OF ok]
  have c: "\<exists>k. 4 \<le> k \<and> k < 32 \<and> ?c = 2 ^ k"
  proof (cases "o_cell_capacity ob = 0")
    case True
    then show ?thesis by (intro exI [of _ 4]) (simp add: STARTING_CAPACITY_def)
  next
    case False
    then obtain j where j: "4 \<le> j" "o_cell_capacity ob = 2 ^ j" using k(1) by (auto simp: shape_ok_def)
    then have "(16 :: nat) \<le> o_cell_capacity ob * 2" using power_increasing [of 4 j "2 :: nat"] by simp
    then have "?c = 2 ^ Suc j" using j by (simp add: STARTING_CAPACITY_def)
    moreover from this have "Suc j < 32" using mem True by (metis power_less_imp_less_exp one_less_numeral_iff semiring_norm(76))
    ultimately show ?thesis using j by (intro exI [of _ "Suc j"]) simp
  qed
  let ?new = "json_object_init ?c :: 'a json_object"
  have new: "object_ok ?new" "entries ?new = []" using object_ok_init [of ?c] c by auto
  have item: "o_item_capacity ?new = ?c * 7 div 10" using object_okD(1) [OF new(1)] by (simp add: shape_ok_def json_object_init_def)
  have room: "o_count ob < ?c * 7 div 10"
    using k(1) by (auto simp: shape_ok_def STARTING_CAPACITY_def max_def)
  have "distinct (map fst (entries ob))" using o_names_entries [OF ok] k(2) by (simp add: names_ok_def)
  then obtain ob' where "rehash (Suc d) alloc (entries ob) ?new = Some (True, ob')" "object_ok ob'" "entries ob' = entries ob"
    "o_item_capacity ob' = ?c * 7 div 10"
    using rehash_ok [OF new(1), of "entries ob" d alloc] new item room o_count_entries [OF ok]
    by (auto simp: json_object_init_def o_count_def)
  moreover from this have "o_count ob' < o_item_capacity ob'"
    using room o_count_entries [OF ok] o_count_entries [of ob'] by simp
  ultimately show ?thesis using True by (simp add: Let_def entries_def)
qed simp

lemma add_entries:
  assumes ok: "object_ok ob" and mem: "\<forall>c. alloc c \<longrightarrow> c < 2 ^ 32"
  shows "\<exists>r ob'. json_object_add alloc ob name v = Some (r, ob') \<and> object_ok ob' \<and>
     (if r then name \<notin> fst ` set (entries ob) \<and> entries ob' = entries ob @ [(name, v)]
      else ob' = ob \<and> (name \<in> fst ` set (entries ob) \<or>
        o_item_capacity ob \<le> o_count ob \<and> \<not> alloc (max (o_cell_capacity ob * 2) STARTING_CAPACITY)))"
proof -
  have names: "fst ` set (entries ob) = set (o_names ob)" using o_names_entries [OF ok] by (metis set_map)
  have two: "json_object_add = add_depth (Suc (Suc 0))" by (simp add: json_object_add_def numeral_2_eq_2)
  obtain p f where pf: "json_object_get_cell_ix ob name (hash_string name) = (p, f)" by fastforce
  then have f: "f \<longleftrightarrow> name \<in> set (o_names ob)" using found_iff [OF ok, of name] by simp
  show ?thesis
  proof (cases "name \<in> set (o_names ob)")
    case True
    then show ?thesis using ok pf f names by (simp add: two Let_def exI [of _ False])
  next
    case new: False
    show ?thesis
    proof (cases "o_count ob < o_item_capacity ob")
      case True
      then show ?thesis using add_with_room [OF ok new True, of "Suc 0" alloc v] names new
        by (auto simp: two simp del: add_depth.simps intro!: exI [of _ True])
    next
      case full: False
      show ?thesis
      proof (cases "alloc (max (o_cell_capacity ob * 2) STARTING_CAPACITY)")
        case False
        then show ?thesis using grow_ok [OF ok mem, of 0] full new pf f ok
          by (auto simp: two Let_def simp del: grow_depth.simps)
      next
        case True
        then obtain ob1 where g: "grow_depth (Suc 0) alloc ob = Some (True, ob1)" "object_ok ob1"
          "entries ob1 = entries ob" "o_count ob1 < o_item_capacity ob1"
          using grow_ok [OF ok mem, of 0] by auto
        then have "name \<notin> set (o_names ob1)" using new o_names_entries [OF ok] o_names_entries [of ob1] by simp
        from put_item_ok [OF g(2) this g(4), of v] show ?thesis using g full new pf f names
          by (auto simp: two Let_def simp del: grow_depth.simps intro!: exI [of _ True])
      qed
    qed
  qed
qed

subsection \<open>Setting\<close>

lemma update_at:
  assumes "distinct ks" "t < length ks" "length vs = length ks"
  shows "zip ks (vs[t := v]) = AList.update (ks ! t) v (zip ks vs)"
  using assms
proof (induction ks arbitrary: t vs)
  case (Cons k ks)
  then obtain w ws where vs: "vs = w # ws" by (cases vs) auto
  show ?case
  proof (cases t)
    case (Suc s)
    then have "k \<noteq> ks ! s" using Cons.prems by auto
    then show ?thesis using Cons Suc vs by simp
  qed (simp add: vs)
qed simp

lemma update_behind: "k \<notin> fst ` set es \<Longrightarrow> AList.update k v es = es @ [(k, v)]"
  by (induction es) auto

lemma length_update_le: "length (AList.update k v es) \<le> Suc (length es)"
  by (induction es) auto

lemma set_value_entries:
  assumes ok: "object_ok ob" and mem: "\<forall>c. alloc c \<longrightarrow> c < 2 ^ 32"
  shows "\<exists>r ob'. json_object_set_value alloc ob name has_parent v = Some (r, ob') \<and> object_ok ob' \<and>
     (if r then \<not> has_parent \<and> entries ob' = AList.update name v (entries ob)
      else ob' = ob \<and> (has_parent \<or> name \<notin> fst ` set (entries ob) \<and>
        o_item_capacity ob \<le> o_count ob \<and> \<not> alloc (max (o_cell_capacity ob * 2) STARTING_CAPACITY)))"
proof (cases "has_parent \<or> name \<notin> set (o_names ob)")
  case True
  obtain p f where pf: "json_object_get_cell_ix ob name (hash_string name) = (p, f)" by fastforce
  then have f: "f \<longleftrightarrow> name \<in> set (o_names ob)" using found_iff [OF ok, of name] by simp
  have names: "fst ` set (entries ob) = set (o_names ob)" using o_names_entries [OF ok] by (metis set_map)
  show ?thesis
  proof (cases has_parent)
    case False
    then have new: "name \<notin> set (o_names ob)" using True by simp
    then have "json_object_set_value alloc ob name has_parent v = json_object_add alloc ob name v"
      using pf f False by (simp add: json_object_set_value_def json_object_add_def numeral_2_eq_2 Let_def
          json_object_grow_and_rehash_def del: grow_depth.simps)
    with add_entries [OF ok mem, of name v] new names False show ?thesis
      by (fastforce simp: update_behind)
  qed (use ok in \<open>simp add: json_object_set_value_def exI [of _ False]\<close>)
next
  case False
  then obtain t where t: "t < o_count ob" "o_names ob ! t = name" by (auto simp: in_set_conv_nth o_count_def)
  let ?ob = "ob\<lparr>o_values := (o_values ob)[t := v]\<rparr>"
  have "json_object_set_value alloc ob name has_parent v = Some (True, ?ob)"
    using get_cell_found [OF ok t(1)] t False by (simp add: json_object_set_value_def)
  moreover have "object_ok ?ob" using ok
    by (auto simp: object_ok_def shape_ok_def names_ok_def linked_def reachable_def o_count_def home_def)
  moreover have "entries ?ob = AList.update name v (entries ob)"
    using update_at [of "o_names ob" t "o_values ob" v] ok t
    by (simp add: entries_def object_ok_def names_ok_def shape_ok_def o_count_def)
  ultimately show ?thesis using False by (auto intro!: exI [of _ True])
qed

subsection \<open>Removing\<close>

text \<open>A list without the element at \<open>t\<close>, whose place the last one takes.\<close>

definition swap_out :: "nat \<Rightarrow> 'a list \<Rightarrow> 'a list" where
  "swap_out t xs = butlast (if t < length xs - 1 then xs[t := xs ! (length xs - 1)] else xs)"

lemma length_swap_out [simp]: "length (swap_out t xs) = length xs - 1"
  by (simp add: swap_out_def)

lemma nth_swap_out:
  "u < length xs - 1 \<Longrightarrow> t < length xs \<Longrightarrow> swap_out t xs ! u = xs ! (if u = t then length xs - 1 else u)"
  by (auto simp: swap_out_def nth_butlast nth_list_update)

lemma zip_swap_out:
  "length xs = length ys \<Longrightarrow> t < length xs \<Longrightarrow> zip (swap_out t xs) (swap_out t ys) = swap_out t (zip xs ys)"
  by (rule nth_equalityI) (auto simp: nth_swap_out)

lemma map_swap_out: "t < length xs \<Longrightarrow> map f (swap_out t xs) = swap_out t (map f xs)"
  by (rule nth_equalityI) (auto simp: nth_swap_out)

lemma mset_swap_out:
  assumes "t < length xs"
  shows "mset xs = add_mset (xs ! t) (mset (swap_out t xs))"
proof (cases "t < length xs - 1")
  case True
  obtain ys x where xs: "xs = ys @ [x]" using assms by (cases xs rule: rev_cases) auto
  then have "swap_out t xs = ys[t := x]" using True by (simp add: swap_out_def nth_append list_update_append1)
  then show ?thesis using True xs by (simp add: nth_append mset_update)
next
  case False
  then have "t = length xs - 1" using assms by simp
  then show ?thesis using assms by (cases xs rule: rev_cases) (auto simp: swap_out_def)
qed

lemma map_of_swap_out:
  assumes "distinct (map fst es)" "t < length es"
  shows "map_of (swap_out t es) = (map_of es)(fst (es ! t) := None)"
proof -
  let ?s = "swap_out t es"
  have m: "mset (map fst es) = add_mset (fst (es ! t)) (mset (map fst ?s))"
    using mset_swap_out [OF assms(2)] by simp
  then have "distinct (fst (es ! t) # map fst ?s)" using assms(1) by (metis mset.simps(2) mset_eq_imp_distinct_iff)
  then have d: "distinct (map fst ?s)" and nt: "fst (es ! t) \<notin> fst ` set ?s" by auto
  have set: "set es = insert (es ! t) (set ?s)"
    using mset_swap_out [OF assms(2)] by (metis set_mset_add_mset_insert set_mset_mset)
  show ?thesis
  proof (rule map_eqI)
    fix k v
    have "map_of ?s k = Some v \<longleftrightarrow> (k, v) \<in> set ?s" using d by simp
    also have "\<dots> \<longleftrightarrow> (k, v) \<in> set es \<and> k \<noteq> fst (es ! t)"
    proof -
      have "(k, v) \<in> set es \<longleftrightarrow> (k, v) = es ! t \<or> (k, v) \<in> set ?s" unfolding set by simp
      moreover have "k \<noteq> fst (es ! t)" if "(k, v) \<in> set ?s" using nt that by (metis fst_conv imageI)
      ultimately show ?thesis by (metis fst_conv)
    qed
    also have "\<dots> \<longleftrightarrow> ((map_of es)(fst (es ! t) := None)) k = Some v" using assms(1) by auto
    finally show "map_of ?s k = Some v \<longleftrightarrow> ((map_of es)(fst (es ! t) := None)) k = Some v" .
  qed
qed

text \<open>After the last member has been moved, everything is in order but the cell of the removed one.\<close>

lemma move_last_fields:
  assumes "object_ok ob" "t < o_count ob"
  shows "o_names (move_last ob t) = swap_out t (o_names ob)" "o_values (move_last ob t) = swap_out t (o_values ob)"
    "o_cell_ixs (move_last ob t) = swap_out t (o_cell_ixs ob)" "o_hashes (move_last ob t) = swap_out t (o_hashes ob)"
    "o_cell_capacity (move_last ob t) = o_cell_capacity ob" "o_item_capacity (move_last ob t) = o_item_capacity ob"
    "o_cells (move_last ob t) = (if t < o_count ob - 1 then (o_cells ob)[o_cell_ixs ob ! (o_count ob - 1) := Some t] else o_cells ob)"
  using assms by (auto simp: move_last_def swap_out_def Let_def object_ok_def shape_ok_def o_count_def)

lemma move_last_ok:
  assumes ok: "object_ok ob" and t: "t < o_count ob"
  defines "ob1 \<equiv> move_last ob t" and "p \<equiv> o_cell_ixs ob ! t"
  shows "shape_ok ob1" "names_ok ob1" "linked {p} ob1" "reachable ob1"
    "o_cells ob1 ! p \<noteq> None" "p < o_cell_capacity ob1" "entries ob1 = swap_out t (entries ob)"
    "\<forall>q<o_cell_capacity ob. o_cells ob ! q = None \<longrightarrow> o_cells ob1 ! q = None"
    "o_count ob1 = o_count ob - 1" "o_cell_capacity ob1 = o_cell_capacity ob"
proof -
  note k = object_okD [OF ok] note f = move_last_fields [OF ok t, folded ob1_def]
  let ?c = "o_cell_capacity ob" let ?n = "o_count ob"
  have len: "length (o_cells ob) = ?c" "length (o_values ob) = ?n" "length (o_cell_ixs ob) = ?n" "length (o_hashes ob) = ?n"
    "length (o_names ob) = ?n" using k(1) by (auto simp: shape_ok_def o_count_def)
  show cnt: "o_count ob1 = ?n - 1" and cap: "o_cell_capacity ob1 = ?c" using f by (simp_all add: o_count_def)
  have ix: "o_cell_ixs ob ! u < ?c" "o_cells ob ! (o_cell_ixs ob ! u) = Some u" if "u < ?n" for u
    using k(3) that by (auto simp: linked_def)
  have inj: "o_cell_ixs ob ! u = o_cell_ixs ob ! w \<longleftrightarrow> u = w" if "u < ?n" "w < ?n" for u w
    using ix that by (metis option.inject)
  define old where "old u = (if u = t then ?n - 1 else u)" for u
  have old: "old u < ?n" "old u \<noteq> t" "o_cell_ixs ob1 ! u = o_cell_ixs ob ! old u" "home ob1 u = home ob (old u)"
    if "u < ?n - 1" for u
    using that t len by (auto simp: old_def f nth_swap_out home_def)
  have cells: "o_cells ob1 ! q = (if t < ?n - 1 \<and> q = o_cell_ixs ob ! (?n - 1) then Some t else o_cells ob ! q)" if "q < ?c" for q
    using that len f(7) by (auto simp: nth_list_update)
  show "shape_ok ob1" using k(1) f cnt by (auto simp: shape_ok_def)
  show "names_ok ob1" unfolding names_ok_def
  proof
    have "mset (o_names ob) = add_mset (o_names ob ! t) (mset (o_names ob1))"
      using mset_swap_out [of t "o_names ob"] t len f(1) by simp
    then have "distinct (o_names ob ! t # o_names ob1)" using k(2) by (metis names_ok_def mset.simps(2) mset_eq_imp_distinct_iff)
    then show "distinct (o_names ob1)" by simp
    show "o_hashes ob1 = map hash_string (o_names ob1)"
      using f k(2) t len by (simp add: names_ok_def map_swap_out)
  qed
  show "o_cells ob1 ! p \<noteq> None" "p < o_cell_capacity ob1"
    using cells [of p] ix [OF t] cap by (auto simp: p_def)
  show "entries ob1 = swap_out t (entries ob)" using f t len by (simp add: entries_def zip_swap_out)
  show some: "\<forall>q<?c. o_cells ob ! q = None \<longrightarrow> o_cells ob1 ! q = None"
  proof (intro allI impI)
    fix q assume q: "q < ?c" "o_cells ob ! q = None"
    then have "q \<noteq> o_cell_ixs ob ! (?n - 1)" using ix [of "?n - 1"] t by auto
    then show "o_cells ob1 ! q = None" using cells q by simp
  qed
  have full: "o_cells ob1 ! q \<noteq> None" if "q < ?c" "o_cells ob ! q \<noteq> None" for q using cells that by auto
  show "reachable ob1" unfolding reachable_def cap cnt
    using k(4) old full by (metis reachable_def)
  show "linked {p} ob1" unfolding linked_def cap cnt
  proof (intro conjI allI impI)
    fix u assume u: "u < ?n - 1"
    show "o_cell_ixs ob1 ! u < ?c" using old u ix by metis
    show "o_cell_ixs ob1 ! u \<notin> {p}" using old u inj t by (simp add: p_def)
    show "o_cells ob1 ! (o_cell_ixs ob1 ! u) = Some u"
      using old [OF u] ix [of "old u"] cells [of "o_cell_ixs ob ! old u"] inj [of u "?n - 1"] u
      by (auto simp: old_def split: if_splits)
  next
    fix q u assume q: "q < ?c" "q \<notin> {p}" "o_cells ob1 ! q = Some u"
    show "u < ?n - 1"
    proof (cases "t < ?n - 1 \<and> q = o_cell_ixs ob ! (?n - 1)")
      case False
      then have "o_cells ob ! q = Some u" using cells q by auto
      then have u: "u < ?n" "o_cell_ixs ob ! u = q" using k(3) q(1) by (auto simp: linked_def)
      moreover have "u \<noteq> t" using u q(2) by (auto simp: p_def)
      ultimately have "u \<noteq> ?n - 1" using False t by auto
      then show ?thesis using u by simp
    qed (use cells q in auto)
    show "o_cell_ixs ob1 ! u = q"
    proof (cases "t < ?n - 1 \<and> q = o_cell_ixs ob ! (?n - 1)")
      case True
      then show ?thesis using cells q old [of u] by (auto simp: old_def)
    next
      case False
      then have "o_cells ob ! q = Some u" using cells q by auto
      then have "o_cell_ixs ob ! u = q" using k(3) q(1) by (auto simp: linked_def)
      then show ?thesis using old(3) \<open>u < ?n - 1\<close> q(2) by (auto simp: old_def p_def)
    qed
  qed
qed

text \<open>
  The loop: what is looked at behind the hole does not need it, and an empty cell is still ahead.
\<close>

definition hole_inv :: "nat \<Rightarrow> 'v json_object \<Rightarrow> nat \<Rightarrow> nat \<Rightarrow> bool" where
  "hole_inv n ob i j \<longleftrightarrow>
     shape_ok ob \<and> names_ok ob \<and> linked {i} ob \<and> reachable ob \<and> o_cells ob ! i \<noteq> None \<and>
     i < o_cell_capacity ob \<and> j < o_cell_capacity ob \<and>
     (\<forall>t<o_count ob. ring_dist (o_cell_capacity ob) i (o_cell_ixs ob ! t) \<le> ring_dist (o_cell_capacity ob) i j \<longrightarrow>
        \<not> ring_dist (o_cell_capacity ob) (home ob t) i < ring_dist (o_cell_capacity ob) (home ob t) (o_cell_ixs ob ! t)) \<and>
     (\<exists>q<o_cell_capacity ob. o_cells ob ! q = None \<and> ring_dist (o_cell_capacity ob) i j < ring_dist (o_cell_capacity ob) i q \<and>
        ring_dist (o_cell_capacity ob) j q \<le> n)"

lemma ring_dist_next:
  assumes "i < cap" "j < cap" "q < cap" "ring_dist cap i j < ring_dist cap i q"
  defines "j' \<equiv> (j + 1) mod cap"
  shows "j' < cap" "ring_dist cap i j' = ring_dist cap i j + 1" "j' \<noteq> i" "ring_dist cap j' q + 1 = ring_dist cap j q"
  using assms by (auto simp: ring_dist_def j'_def mod_if split: if_splits)

lemma ring_dist_add:
  assumes "h < cap" "i < cap" "p < cap"
  shows "ring_dist cap h i + ring_dist cap i p < cap \<Longrightarrow> ring_dist cap h p = ring_dist cap h i + ring_dist cap i p"
    and "ring_dist cap h i \<le> ring_dist cap h p \<Longrightarrow> ring_dist cap h p = ring_dist cap h i + ring_dist cap i p"
  using assms by (auto simp: ring_dist_def split: if_splits)

lemma ring_passes:
  assumes "h < cap" "i < cap" "j < cap" "p < cap" "ring_dist cap h i < ring_dist cap h p"
    and "ring_dist cap i j \<le> ring_dist cap i p"
  shows "j = p \<or> ring_dist cap h j < ring_dist cap h p"
proof -
  have "ring_dist cap h p = ring_dist cap h i + ring_dist cap i p"
    using assms by (intro ring_dist_add(2)) auto
  moreover from this have "ring_dist cap h j = ring_dist cap h i + ring_dist cap i j"
    using assms ring_dist_less [of h cap p] by (intro ring_dist_add(1)) auto
  ultimately show ?thesis using assms ring_dist_inj [of i cap j p] by auto
qed

text \<open>When the next cell is empty, no search comes past the hole.\<close>

lemma hole_done:
  assumes inv: "hole_inv n ob i j" and empty: "o_cells ob ! ((j + 1) mod o_cell_capacity ob) = None"
  shows "object_ok (ob\<lparr>o_cells := (o_cells ob)[i := None]\<rparr>)"
proof -
  let ?c = "o_cell_capacity ob" let ?ob = "ob\<lparr>o_cells := (o_cells ob)[i := None]\<rparr>" let ?j = "(j + 1) mod ?c"
  from inv have k: "shape_ok ob" "names_ok ob" "linked {i} ob" "reachable ob" "i < ?c" "j < ?c"
    and seen: "\<And>t. t < o_count ob \<Longrightarrow> ring_dist ?c i (o_cell_ixs ob ! t) \<le> ring_dist ?c i j \<Longrightarrow>
      \<not> ring_dist ?c (home ob t) i < ring_dist ?c (home ob t) (o_cell_ixs ob ! t)"
    by (auto simp: hole_inv_def)
  obtain q where q: "q < ?c" "ring_dist ?c i j < ring_dist ?c i q" using inv by (auto simp: hole_inv_def)
  note nxt = ring_dist_next [OF k(5,6) q]
  have len: "length (o_cells ob) = ?c" using k(1) by (simp add: shape_ok_def)
  have clear: "\<not> ring_dist ?c (home ob t) i < ring_dist ?c (home ob t) (o_cell_ixs ob ! t)" if t: "t < o_count ob" for t
  proof
    let ?p = "o_cell_ixs ob ! t"
    assume past: "ring_dist ?c (home ob t) i < ring_dist ?c (home ob t) ?p"
    have p: "?p < ?c" "o_cells ob ! ?p = Some t" using k(3) t by (auto simp: linked_def)
    have h: "home ob t < ?c" using k(1,5) by (intro home_less) auto
    have "ring_dist ?c i ?j \<le> ring_dist ?c i ?p" using seen [OF t] past nxt(2) by force
    from ring_passes [OF h k(5) nxt(1) p(1) past this] have "o_cells ob ! ?j \<noteq> None"
      using p k(4) t nxt(1) by (auto simp: reachable_def)
    with empty show False by simp
  qed
  have cells: "o_cells ?ob ! p = (if p = i then None else o_cells ob ! p)" if "p < ?c" for p using that len by simp
  have same: "o_count ?ob = o_count ob" "o_cell_ixs ?ob = o_cell_ixs ob" "o_cell_capacity ?ob = ?c" "home ?ob = home ob"
    by (simp_all add: o_count_def home_def fun_eq_iff)
  have "linked {} ?ob" using k(3) cells unfolding linked_def same by (simp cong: if_cong)
  moreover have "reachable ?ob" unfolding reachable_def same
  proof (intro allI impI)
    fix t q assume "t < o_count ob" "q < ?c" "ring_dist ?c (home ob t) q < ring_dist ?c (home ob t) (o_cell_ixs ob ! t)"
    then show "o_cells ?ob ! q \<noteq> None" using clear [of t] k(4) cells [of q] by (auto simp: reachable_def)
  qed
  ultimately show ?thesis using k(1,2) by (auto simp: object_ok_def shape_ok_def names_ok_def o_count_def)
qed

text \<open>The member of the next cell takes the hole when its search comes past it, and stays otherwise.\<close>

lemma hole_moves:
  assumes inv: "hole_inv (Suc n) ob i j" and c: "c = o_cell_capacity ob" "j' = (j + 1) mod c"
    and item: "o_cells ob ! j' = Some item" and past: "ring_dist c (home ob item) i < ring_dist c (home ob item) j'"
  shows "hole_inv n (ob\<lparr>o_cell_ixs := (o_cell_ixs ob)[item := i], o_cells := (o_cells ob)[i := Some item]\<rparr>) j' j'"
proof -
  let ?ob = "ob\<lparr>o_cell_ixs := (o_cell_ixs ob)[item := i], o_cells := (o_cells ob)[i := Some item]\<rparr>"
  from inv have k: "shape_ok ob" "names_ok ob" "linked {i} ob" "reachable ob" "o_cells ob ! i \<noteq> None" "i < c" "j < c"
    by (auto simp: hole_inv_def c)
  obtain q where q: "q < c" "ring_dist c i j < ring_dist c i q" and qe: "o_cells ob ! q = None" "ring_dist c j q \<le> Suc n"
    using inv by (auto simp: hole_inv_def c)
  note nxt = ring_dist_next [OF k(6,7) q, folded c(2)]
  have len: "length (o_cells ob) = c" "length (o_cell_ixs ob) = o_count ob" using k(1) by (simp_all add: shape_ok_def c)
  have it: "item < o_count ob" "o_cell_ixs ob ! item = j'" using k(3) item nxt by (auto simp: linked_def c)
  have cnt: "o_count ?ob = o_count ob" by (simp add: o_count_def)
  have cells: "o_cells ?ob ! p = (if p = i then Some item else o_cells ob ! p)" if "p < c" for p using that len by simp
  have ixs: "o_cell_ixs ?ob ! t = (if t = item then i else o_cell_ixs ob ! t)" if "t < o_count ob" for t using that len by simp
  have lk: "o_cell_ixs ob ! t < c" "o_cell_ixs ob ! t \<noteq> i" "o_cells ob ! (o_cell_ixs ob ! t) = Some t" if "t < o_count ob" for t
    using k(3) that by (auto simp: linked_def c)
  have other: "o_cell_ixs ob ! t \<noteq> j'" if "t < o_count ob" "t \<noteq> item" for t
    using lk(3) [OF that(1)] item that(2) by auto
  have "linked {j'} ?ob" unfolding linked_def cnt
  proof (intro conjI allI impI)
    fix t assume t: "t < o_count ob"
    show "o_cell_ixs ?ob ! t < o_cell_capacity ?ob" using t lk ixs k(6) by (simp add: c)
    show "o_cell_ixs ?ob ! t \<notin> {j'}" using t ixs other nxt(3) by auto
    show "o_cells ?ob ! (o_cell_ixs ?ob ! t) = Some t" using t lk ixs cells k(6) by simp
  next
    fix p t assume "p < o_cell_capacity ?ob" "p \<notin> {j'}" "o_cells ?ob ! p = Some t"
    then have p: "p < c" "p \<noteq> j'" "p = i \<and> t = item \<or> p \<noteq> i \<and> o_cells ob ! p = Some t"
      using cells by (auto simp: c split: if_splits)
    then have "t < o_count ob \<and> (p \<noteq> i \<longrightarrow> o_cell_ixs ob ! t = p)" using k(3) it by (auto simp: linked_def c)
    then show "t < o_count ob" "o_cell_ixs ?ob ! t = p" using p it ixs by auto
  qed
  moreover have "reachable ?ob" unfolding reachable_def cnt
  proof (intro allI impI)
    fix t p assume t: "t < o_count ob" "p < o_cell_capacity ?ob"
      "ring_dist (o_cell_capacity ?ob) (home ?ob t) p < ring_dist (o_cell_capacity ?ob) (home ?ob t) (o_cell_ixs ?ob ! t)"
    then have "ring_dist c (home ob t) p < ring_dist c (home ob t) (o_cell_ixs ob ! t)"
      using ixs [OF t(1)] past it by (auto simp: c home_def split: if_splits)
    then have "o_cells ob ! p \<noteq> None" using k(4) t by (auto simp: reachable_def c)
    then show "o_cells ?ob ! p \<noteq> None" using cells t(2) by (simp add: c)
  qed
  moreover have "\<exists>q<c. o_cells ?ob ! q = None \<and> ring_dist c j' j' < ring_dist c j' q \<and> ring_dist c j' q \<le> n"
  proof (intro exI conjI)
    have "q \<noteq> i" using qe(1) k(5) by auto
    then show "o_cells ?ob ! q = None" using cells [OF q(1)] qe(1) by simp
    have "q \<noteq> j'" using qe(1) item by auto
    then show "ring_dist c j' j' < ring_dist c j' q"
      using ring_dist_eq_0 [OF nxt(1) q(1)] ring_dist_eq_0 [OF nxt(1) nxt(1)] by simp
    show "ring_dist c j' q \<le> n" using nxt(4) qe(2) by simp
  qed (rule q(1))
  moreover have "\<not> ring_dist c j' (o_cell_ixs ?ob ! t) \<le> ring_dist c j' j'" if t: "t < o_count ob" for t
  proof -
    have p: "o_cell_ixs ?ob ! t < c" "o_cell_ixs ?ob ! t \<noteq> j'" using t lk ixs k(6) other nxt(3) by auto
    then show ?thesis using ring_dist_eq_0 [OF nxt(1) p(1)] ring_dist_eq_0 [OF nxt(1) nxt(1)] by auto
  qed
  moreover have "o_cells ?ob ! j' \<noteq> None" using cells [OF nxt(1)] item nxt(3) by simp
  moreover have "shape_ok ?ob" "names_ok ?ob" using k(1,2) by (simp_all add: shape_ok_def names_ok_def o_count_def)
  ultimately show ?thesis using nxt(1) unfolding hole_inv_def cnt c(1) by simp
qed

lemma hole_stays:
  assumes inv: "hole_inv (Suc n) ob i j" and c: "c = o_cell_capacity ob" "j' = (j + 1) mod c"
    and item: "o_cells ob ! j' = Some item" and past: "\<not> ring_dist c (home ob item) i < ring_dist c (home ob item) j'"
  shows "hole_inv n ob i j'"
proof -
  from inv have k: "shape_ok ob" "names_ok ob" "linked {i} ob" "reachable ob" "o_cells ob ! i \<noteq> None" "i < c" "j < c"
    and seen: "\<And>t. t < o_count ob \<Longrightarrow> ring_dist c i (o_cell_ixs ob ! t) \<le> ring_dist c i j \<Longrightarrow>
      \<not> ring_dist c (home ob t) i < ring_dist c (home ob t) (o_cell_ixs ob ! t)"
    by (auto simp: hole_inv_def c)
  obtain q where q: "q < c" "ring_dist c i j < ring_dist c i q" and qe: "o_cells ob ! q = None" "ring_dist c j q \<le> Suc n"
    using inv by (auto simp: hole_inv_def c)
  note nxt = ring_dist_next [OF k(6,7) q, folded c(2)]
  have "\<not> ring_dist c (home ob t) i < ring_dist c (home ob t) (o_cell_ixs ob ! t)"
    if t: "t < o_count ob" "ring_dist c i (o_cell_ixs ob ! t) \<le> ring_dist c i j'" for t
  proof (cases "o_cell_ixs ob ! t = j'")
    case True
    then have "t = item" using k(3) t(1) item by (auto simp: linked_def)
    then show ?thesis using past True by simp
  next
    case False
    have "o_cell_ixs ob ! t < c" using k(3) t(1) by (auto simp: linked_def c)
    then have "ring_dist c i (o_cell_ixs ob ! t) \<noteq> ring_dist c i j'" using ring_dist_inj k(6) nxt(1) False by blast
    then show ?thesis using seen t nxt(2) by simp
  qed
  moreover have "q \<noteq> j'" using qe(1) item by auto
  then have "ring_dist c i j' < ring_dist c i q"
    using q(2) nxt(2) ring_dist_inj [OF k(6) q(1) nxt(1)] by simp
  ultimately show ?thesis using k q qe nxt by (auto simp: hole_inv_def c(1) intro!: exI [of _ q])
qed

lemma shift_back_ok:
  assumes "hole_inv n ob i j"
  shows "case shift_back n ob i j of (ob1, i1) \<Rightarrow>
    object_ok (ob1\<lparr>o_cells := (o_cells ob1)[i1 := None]\<rparr>) \<and> entries ob1 = entries ob"
  using assms
proof (induction n arbitrary: ob i j)
  case 0
  then have False by (auto simp: hole_inv_def ring_dist_eq_0)
  then show ?case ..
next
  case (Suc n)
  let ?c = "o_cell_capacity ob" let ?j = "(j + 1) mod ?c"
  from Suc.prems have shape: "shape_ok ob" "0 < ?c" "i < ?c" "j < ?c" by (auto simp: hole_inv_def)
  have cell: "cell_of ?c (of_nat (j + 1)) = ?j" using shape by (intro shape_cells(1))
  show ?case
  proof (cases "o_cells ob ! ?j")
    case None
    then show ?thesis using hole_done [OF Suc.prems] cell by (simp add: Let_def)
  next
    case (Some item)
    let ?moved = "ob\<lparr>o_cell_ixs := (o_cell_ixs ob)[item := i], o_cells := (o_cells ob)[i := Some item]\<rparr>"
    have kx: "cell_of ?c (o_hashes ob ! item) < ?c" using shape by (simp add: shape_cells)
    obtain q where "q < ?c" "ring_dist ?c i j < ring_dist ?c i q" using Suc.prems by (auto simp: hole_inv_def)
    note nxt = ring_dist_next [OF shape(3,4) this]
    have test: "(?j > i \<and> (cell_of ?c (o_hashes ob ! item) \<le> i \<or> cell_of ?c (o_hashes ob ! item) > ?j) \<or>
        ?j < i \<and> (cell_of ?c (o_hashes ob ! item) \<le> i \<and> cell_of ?c (o_hashes ob ! item) > ?j)) \<longleftrightarrow>
       ring_dist ?c (home ob item) i < ring_dist ?c (home ob item) ?j"
      unfolding home_def using nxt by (intro behind_hole shape(3) kx) auto
    have step: "shift_back (Suc n) ob i j =
        (if ring_dist ?c (home ob item) i < ring_dist ?c (home ob item) ?j then shift_back n ?moved ?j ?j else shift_back n ob i ?j)"
      by (simp only: shift_back.simps Let_def cell Some option.case test)
    show ?thesis
    proof (cases "ring_dist ?c (home ob item) i < ring_dist ?c (home ob item) ?j")
      case True
      have "entries ?moved = entries ob" by (simp add: entries_def)
      with Suc.IH [OF hole_moves [OF Suc.prems refl refl Some True]] show ?thesis
        unfolding step using True by simp
    next
      case False
      with Suc.IH [OF hole_stays [OF Suc.prems refl refl Some False]] show ?thesis
        unfolding step by simp
    qed
  qed
qed

lemma remove_entries:
  assumes ok: "object_ok ob" and t: "t < o_count ob" "o_names ob ! t = name"
  shows "\<exists>ob'. json_object_remove_internal ob name = (True, ob') \<and> object_ok ob' \<and> entries ob' = swap_out t (entries ob)"
proof -
  let ?c = "o_cell_capacity ob" let ?p = "o_cell_ixs ob ! t" let ?ob1 = "move_last ob t"
  note g = get_cell_found [OF ok t(1)] note m = move_last_ok [OF ok t(1)]
  obtain q where q: "q < ?c" "o_cells ob ! q = None" using empty_cell [OF ok] g(3) by auto
  then have q1: "o_cells ?ob1 ! q = None" using m(8) by auto
  then have "q \<noteq> ?p" using m(5) by auto
  then have "ring_dist ?c ?p ?p < ring_dist ?c ?p q" "ring_dist ?c ?p q \<le> ?c - 1"
    using ring_dist_eq_0 [OF g(3) q(1)] ring_dist_eq_0 [OF g(3) g(3)] ring_dist_less [OF g(3) q(1)] by auto
  moreover have "\<not> ring_dist ?c ?p (o_cell_ixs ?ob1 ! u) \<le> ring_dist ?c ?p ?p" if "u < o_count ?ob1" for u
  proof -
    have u: "o_cell_ixs ?ob1 ! u < ?c" "o_cell_ixs ?ob1 ! u \<noteq> ?p" using m(3,10) that by (auto simp: linked_def)
    then show ?thesis using ring_dist_eq_0 [OF g(3) u(1)] ring_dist_eq_0 [OF g(3) g(3)] by auto
  qed
  ultimately have "hole_inv (?c - 1) ?ob1 ?p ?p"
    unfolding hole_inv_def m(10) using m(1-5) g(3) q(1) q1 by blast
  from shift_back_ok [OF this] obtain ob1 i where "shift_back (?c - 1) ?ob1 ?p ?p = (ob1, i)"
    "object_ok (ob1\<lparr>o_cells := (o_cells ob1)[i := None]\<rparr>)" "entries ob1 = entries ?ob1" by auto
  then show ?thesis using g t m(7) by (auto simp: json_object_remove_internal_def entries_def)
qed

lemma remove_absent:
  assumes "object_ok ob" "name \<notin> set (o_names ob)"
  shows "json_object_remove_internal ob name = (False, ob)"
  using found_iff [OF assms(1), of name] assms(2)
  by (auto simp: json_object_remove_internal_def split: prod.split option.split)

lemma clear_entries:
  assumes "object_ok ob"
  shows "\<exists>ob'. json_object_clear ob = (True, ob') \<and> object_ok ob' \<and> entries ob' = []"
  using assms by (auto simp: json_object_clear_def object_ok_def shape_ok_def names_ok_def linked_def reachable_def
      o_count_def entries_def)

subsection \<open>What its users rely on\<close>

text \<open>Memory for every table whose cells can be counted by the \<^verbatim>\<open>unsigned int\<close> of the loops.\<close>

definition memory :: "nat \<Rightarrow> bool" where
  "memory c \<longleftrightarrow> c < 2 ^ 32"

text \<open>The members of the largest table.\<close>

definition MAX_MEMBERS :: nat where
  "MAX_MEMBERS = 2 ^ 31 * 7 div 10"

lemma members_bounded:
  assumes "object_ok ob"
  shows "length (entries ob) \<le> MAX_MEMBERS"
proof (cases "o_cell_capacity ob = 0")
  case True
  then show ?thesis using assms by (simp add: object_ok_def shape_ok_def flip: o_count_entries)
next
  case False
  then obtain k where k: "k \<le> 31" "o_cell_capacity ob = 2 ^ k" using assms by (auto simp: object_ok_def shape_ok_def)
  then have "o_cell_capacity ob \<le> 2 ^ 31" using power_increasing [of k 31 "2 :: nat"] by simp
  then have "o_cell_capacity ob * 7 div 10 \<le> MAX_MEMBERS" unfolding MAX_MEMBERS_def by (intro div_le_mono mult_le_mono1)
  then show ?thesis using assms o_count_entries [OF assms] by (simp add: object_ok_def shape_ok_def)
qed

lemma memory_enough:
  assumes "object_ok ob" "o_count ob < MAX_MEMBERS" "o_item_capacity ob \<le> o_count ob"
  shows "memory (max (o_cell_capacity ob * 2) STARTING_CAPACITY)"
proof (cases "o_cell_capacity ob = 0")
  case False
  then obtain k where k: "k < 32" "o_cell_capacity ob = 2 ^ k" using assms(1) by (auto simp: object_ok_def shape_ok_def)
  have "k \<noteq> 31"
  proof
    assume "k = 31"
    then have "o_item_capacity ob = 2 ^ 31 * 7 div 10" using assms(1) k by (simp add: object_ok_def shape_ok_def)
    with assms show False by (simp add: MAX_MEMBERS_def)
  qed
  then have "Suc k \<le> 31" using k by simp
  then have "(2 :: nat) ^ Suc k \<le> 2 ^ 31" by (rule power_increasing) simp
  then show ?thesis using k by (simp add: memory_def STARTING_CAPACITY_def)
qed (simp add: memory_def STARTING_CAPACITY_def)

text \<open>
  An object as its users see it: a list of members with different names, a lookup in it, and an
  addition that takes every new name.
\<close>

locale members =
  fixes ok :: "'t \<Rightarrow> bool" and items :: "'t \<Rightarrow> (string \<times> 'v) list"
    and get :: "'t \<Rightarrow> string \<Rightarrow> 'v option" and add :: "'t \<Rightarrow> string \<Rightarrow> 'v \<Rightarrow> (bool \<times> 't) option"
    and room :: nat
  assumes items_distinct: "ok t \<Longrightarrow> distinct (map fst (items t))"
    and get_items: "ok t \<Longrightarrow> get t name = map_of (items t) name"
    and add_new: "ok t \<Longrightarrow> name \<notin> fst ` set (items t) \<Longrightarrow> length (items t) < room \<Longrightarrow>
      \<exists>t'. add t name v = Some (True, t') \<and> ok t' \<and> items t' = items t @ [(name, v)]"
    and add_again: "ok t \<Longrightarrow> name \<in> fst ` set (items t) \<Longrightarrow> add t name v = Some (False, t)"
begin

fun add_all :: "(string \<times> 'v) list \<Rightarrow> 't \<Rightarrow> (bool \<times> 't) option" where
  "add_all [] t = Some (True, t)"
| "add_all ((name, v) # ms) t =
     (case add t name v of None \<Rightarrow> None | Some (r, t1) \<Rightarrow> if r then add_all ms t1 else Some (False, t1))"

lemma add_all_items:
  assumes "ok t" "length (items t) + length ms \<le> room" "distinct (map fst (items t @ ms))"
  shows "\<exists>t'. add_all ms t = Some (True, t') \<and> ok t' \<and> items t' = items t @ ms"
  using assms
proof (induction ms arbitrary: t)
  case (Cons m ms)
  obtain name v where m: "m = (name, v)" by (cases m)
  with Cons.prems obtain t1 where "add t name v = Some (True, t1)" "ok t1" "items t1 = items t @ [(name, v)]"
    using add_new [of t name v] by auto
  with Cons.IH [of t1] Cons.prems m show ?case by auto
qed simp

lemma get_after_add:
  assumes "ok t" "length (items t) < room" "get t name = None"
  shows "\<exists>t'. add t name v = Some (True, t') \<and> ok t' \<and> get t' = (get t)(name \<mapsto> v)"
proof -
  have "name \<notin> fst ` set (items t)" using assms get_items by (simp add: map_of_eq_None_iff)
  with add_new [OF assms(1) this assms(2)] obtain t' where t': "add t name v = Some (True, t')" "ok t'"
    "items t' = items t @ [(name, v)]" by blast
  moreover have "get t' = (get t)(name \<mapsto> v)"
    using get_items [OF t'(2)] get_items [OF assms(1)] t'(3) assms(3)
    by (auto simp: fun_eq_iff map_add_def split: option.split)
  ultimately show ?thesis by blast
qed

end

interpretation ob: members object_ok entries json_object_getn_value "json_object_add memory" MAX_MEMBERS
proof
  fix t :: "'b json_object" and name and v :: 'b
  assume ok: "object_ok t"
  have mem: "\<forall>c. memory c \<longrightarrow> c < 2 ^ 32" by (simp add: memory_def)
  show "distinct (map fst (entries t))" using o_names_entries [OF ok] ok by (simp add: object_ok_def names_ok_def)
  show "json_object_getn_value t name = map_of (entries t) name" by (rule getn_value_lookup [OF ok])
  show "name \<notin> fst ` set (entries t) \<Longrightarrow> length (entries t) < MAX_MEMBERS \<Longrightarrow>
      \<exists>t'. json_object_add memory t name v = Some (True, t') \<and> object_ok t' \<and> entries t' = entries t @ [(name, v)]"
    using add_entries [OF ok mem, of name v] memory_enough [OF ok] o_count_entries [OF ok] by (auto split: if_splits)
  show "name \<in> fst ` set (entries t) \<Longrightarrow> json_object_add memory t name v = Some (False, t)"
    using add_entries [OF ok mem, of name v] by (auto split: if_splits)
qed

subsection \<open>Runs of operations\<close>

datatype 'v object_op = Add string 'v | Set string 'v | Remove string | Clear

fun run_op :: "'v object_op \<Rightarrow> 'v json_object \<Rightarrow> (bool \<times> 'v json_object) option" where
  "run_op (Add name v) ob = json_object_add memory ob name v"
| "run_op (Set name v) ob = json_object_set_value memory ob name False v"
| "run_op (Remove name) ob = Some (json_object_remove_internal ob name)"
| "run_op Clear ob = Some (json_object_clear ob)"

fun run_ops :: "'v object_op list \<Rightarrow> 'v json_object \<Rightarrow> (bool list \<times> 'v json_object) option" where
  "run_ops [] ob = Some ([], ob)"
| "run_ops (x # xs) ob =
     (case run_op x ob of
        None \<Rightarrow> None
      | Some (r, ob1) \<Rightarrow> map_option (\<lambda>(rs, ob2). (r # rs, ob2)) (run_ops xs ob1))"

text \<open>The same operations on a map from names to values.\<close>

fun map_op :: "'v object_op \<Rightarrow> (string \<rightharpoonup> 'v) \<Rightarrow> bool \<times> (string \<rightharpoonup> 'v)" where
  "map_op (Add name v) m = (if m name = None then (True, m(name \<mapsto> v)) else (False, m))"
| "map_op (Set name v) m = (True, m(name \<mapsto> v))"
| "map_op (Remove name) m = (m name \<noteq> None, m(name := None))"
| "map_op Clear m = (True, Map.empty)"

fun map_ops :: "'v object_op list \<Rightarrow> (string \<rightharpoonup> 'v) \<Rightarrow> bool list \<times> (string \<rightharpoonup> 'v)" where
  "map_ops [] m = ([], m)"
| "map_ops (x # xs) m = (let (r, m1) = map_op x m; (rs, m2) = map_ops xs m1 in (r # rs, m2))"

lemma run_op_refines:
  assumes ok: "object_ok ob" and room: "o_count ob < MAX_MEMBERS"
  shows "\<exists>ob'. run_op x ob = Some (fst (map_op x (json_object_getn_value ob)), ob') \<and> object_ok ob' \<and>
     json_object_getn_value ob' = snd (map_op x (json_object_getn_value ob)) \<and> o_count ob' \<le> Suc (o_count ob)"
proof -
  have mem: "\<forall>c. memory c \<longrightarrow> c < 2 ^ 32" by (simp add: memory_def)
  have get: "json_object_getn_value ob' = map_of (entries ob')" if "object_ok ob'" for ob' :: "'a json_object"
    using getn_value_lookup [OF that] by (simp add: fun_eq_iff)
  note dist = ob.items_distinct [OF ok]
  have full: "\<not> (o_item_capacity ob \<le> o_count ob \<and> \<not> memory (max (o_cell_capacity ob * 2) STARTING_CAPACITY))"
    using memory_enough [OF ok room] by blast
  show ?thesis
  proof (cases x)
    case (Add name v)
    show ?thesis
    proof (cases "json_object_getn_value ob name")
      case None
      obtain ob' where "json_object_add memory ob name v = Some (True, ob')" "object_ok ob'" "entries ob' = entries ob @ [(name, v)]"
        using ob.add_new [OF ok, of name v] None room o_count_entries [OF ok]
        by (auto simp: get [OF ok] map_of_eq_None_iff)
      moreover from this have "json_object_getn_value ob' = (json_object_getn_value ob)(name \<mapsto> v)"
        using None by (auto simp: get ok fun_eq_iff map_add_def split: option.split)
      ultimately show ?thesis using Add None o_count_entries [OF ok] o_count_entries [of ob'] by simp
    next
      case (Some w)
      then have "name \<in> fst ` set (entries ob)" by (metis get [OF ok] map_of_eq_None_iff option.distinct(1))
      then show ?thesis using Add Some ok ob.add_again [OF ok] by simp
    qed
  next
    case (Set name v)
    obtain ob' where ob': "json_object_set_value memory ob name False v = Some (True, ob')" "object_ok ob'"
      "entries ob' = AList.update name v (entries ob)"
      using set_value_entries [OF ok mem, of name False v] full by (auto split: if_splits)
    have "length (AList.update name v (entries ob)) \<le> Suc (length (entries ob))" by (rule length_update_le)
    then show ?thesis using Set ob' o_count_entries [OF ok] o_count_entries [OF ob'(2)]
      by (simp add: get ok ob'(2) AList.update_conv')
  next
    case (Remove name)
    show ?thesis
    proof (cases "name \<in> set (o_names ob)")
      case True
      then obtain t where t: "t < o_count ob" "o_names ob ! t = name" by (auto simp: in_set_conv_nth o_count_def)
      from remove_entries [OF ok t] obtain ob' where ob': "json_object_remove_internal ob name = (True, ob')" "object_ok ob'"
        "entries ob' = swap_out t (entries ob)" by blast
      have tl: "t < length (entries ob)" using t o_count_entries [OF ok] by simp
      have "fst (entries ob ! t) = name" using o_names_entries [OF ok] t tl by (metis nth_map)
      then have "map_of (swap_out t (entries ob)) = (map_of (entries ob))(name := None)"
        using map_of_swap_out [OF dist tl] by simp
      moreover have "map_of (entries ob) name \<noteq> None" using map_of_entries_None [OF ok] True by simp
      ultimately show ?thesis using Remove ob' o_count_entries [OF ok] o_count_entries [OF ob'(2)] by (simp add: get ok)
    next
      case False
      then show ?thesis using Remove remove_absent [OF ok False] map_of_entries_None [OF ok, of name] ok
        by (simp add: get [OF ok] fun_upd_idem)
    qed
  next
    case Clear
    obtain ob' where "json_object_clear ob = (True, ob')" "object_ok ob'" "entries ob' = []"
      using clear_entries [OF ok] by blast
    then show ?thesis using Clear o_count_entries [of ob'] by (simp add: get)
  qed
qed

lemma run_ops_refine:
  assumes "object_ok ob" "o_count ob + length xs < MAX_MEMBERS"
  shows "\<exists>ob'. run_ops xs ob = Some (fst (map_ops xs (json_object_getn_value ob)), ob') \<and> object_ok ob' \<and>
     json_object_getn_value ob' = snd (map_ops xs (json_object_getn_value ob))"
  using assms
proof (induction xs arbitrary: ob)
  case (Cons x xs)
  then obtain ob1 where ob1: "run_op x ob = Some (fst (map_op x (json_object_getn_value ob)), ob1)" "object_ok ob1"
    "json_object_getn_value ob1 = snd (map_op x (json_object_getn_value ob))" "o_count ob1 \<le> Suc (o_count ob)"
    using run_op_refines [of ob x] by auto
  with Cons.IH [OF ob1(2)] Cons.prems(2) show ?case by (auto simp: Let_def split: prod.splits)
qed simp

text \<open>
  C31. The hash table is a map. Whatever is added, set, removed and cleared from an empty object, in any order
  and up to a thousand million times, every call answers as for a map from names to values and every
  lookup afterwards finds what the map holds; growing, rehashing and moving members back never lose one.
\<close>

theorem object_is_map:
  assumes "length xs < MAX_MEMBERS"
  shows "\<exists>ob. run_ops xs (json_object_init 0) = Some (fst (map_ops xs Map.empty), ob) \<and> object_ok ob \<and>
     json_object_getn_value ob = snd (map_ops xs Map.empty)"
proof -
  have init: "object_ok (json_object_init 0 :: 'a json_object)" "entries (json_object_init 0 :: 'a json_object) = []"
    by (rule object_ok_init, simp)+
  then have "json_object_getn_value (json_object_init 0 :: 'a json_object) = Map.empty"
    using getn_value_lookup [OF init(1)] by (simp add: fun_eq_iff)
  then show ?thesis using run_ops_refine [OF init(1), of xs] assms o_count_entries [OF init(1)] init(2) by simp
qed

theorem object_is_map_witness:
  "\<exists>ob. run_ops [Add ''ip'' 1, Add ''port'' 2, Add ''ip'' 3, Set ''port'' (4 :: nat), Remove ''ip'', Remove ''ip''] (json_object_init 0) =
     Some ([True, True, False, True, True, False], ob) \<and>
     json_object_getn_value ob ''port'' = Some 4 \<and> json_object_getn_value ob ''ip'' = None"
  using object_is_map [of "[Add ''ip'' 1, Add ''port'' 2, Add ''ip'' 3, Set ''port'' (4 :: nat), Remove ''ip'', Remove ''ip'']"]
  by (auto simp: MAX_MEMBERS_def)

end
