(* ===== verification/JsonText.thy ===== *)
theory JsonText
  imports TextFields
begin

unbundle bit_operations_syntax

text \<open>
  The strings of a JSON text, \<^verbatim>\<open>src/lib/main/parson.c\<close>: their escapes, their UTF-8 encoding, how they are
  read between quotes and how they are written. A pointer into a text is the rest of the text
  from there; at its end one reads NUL. Code points are computed in \<^verbatim>\<open>unsigned int\<close> and stay
  below \<open>2 ^ 21\<close>, so they are natural numbers here.
\<close>

subsection \<open>Bytes\<close>

abbreviation QUOTE :: char where
  "QUOTE \<equiv> CHR 0x22"

abbreviation BACKSLASH :: char where
  "BACKSLASH \<equiv> CHR 0x5C"

definition byte_of :: "nat \<Rightarrow> char" where
  "byte_of n = char_of n"

text \<open>\<^verbatim>\<open>IS_CONT\<close>\<close>

definition is_cont :: "char \<Rightarrow> bool" where
  "is_cont c \<longleftrightarrow> (of_char c :: nat) AND 0xC0 = 0x80"

definition num_bytes_in_utf8_sequence :: "char \<Rightarrow> nat" where
  "num_bytes_in_utf8_sequence ch =
     (let c = of_char ch :: nat in
      if c = 0xC0 \<or> c = 0xC1 \<or> c > 0xF4 \<or> is_cont ch then 0
      else if c AND 0x80 = 0 then 1
      else if c AND 0xE0 = 0xC0 then 2
      else if c AND 0xF0 = 0xE0 then 3
      else if c AND 0xF8 = 0xF0 then 4
      else 0)"

definition at_char :: "string \<Rightarrow> nat \<Rightarrow> char" where
  "at_char s i = (if i < length s then s ! i else NUL)"

text \<open>\<open>None\<close> is \<^verbatim>\<open>JSONFailure\<close>, otherwise the length of the sequence is given.\<close>

definition verify_utf8_sequence :: "string \<Rightarrow> nat option" where
  "verify_utf8_sequence s =
     (let b = (\<lambda>i. of_char (at_char s i) :: nat);
          n = num_bytes_in_utf8_sequence (at_char s 0);
          code =
            (if n = 1 then Some (b 0)
             else if n = 2 \<and> is_cont (at_char s 1) then
               (let cp = b 0 AND 0x1F in Some (push_bit 6 cp OR (b 1 AND 0x3F)))
             else if n = 3 \<and> is_cont (at_char s 1) \<and> is_cont (at_char s 2) then
               (let cp = b 0 AND 0xF;
                    cp = push_bit 6 cp OR (b 1 AND 0x3F)
                in Some (push_bit 6 cp OR (b 2 AND 0x3F)))
             else if n = 4 \<and> is_cont (at_char s 1) \<and> is_cont (at_char s 2) \<and> is_cont (at_char s 3) then
               (let cp = b 0 AND 0x7;
                    cp = push_bit 6 cp OR (b 1 AND 0x3F);
                    cp = push_bit 6 cp OR (b 2 AND 0x3F)
                in Some (push_bit 6 cp OR (b 3 AND 0x3F)))
             else None)
      in case code of
           None \<Rightarrow> None
         | Some cp \<Rightarrow>
             if cp < 0x80 \<and> n > 1 \<or> cp < 0x800 \<and> n > 2 \<or> cp < 0x10000 \<and> n > 3 then None
             else if cp > 0x10FFFF then None
             else if cp \<ge> 0xD800 \<and> cp \<le> 0xDFFF then None
             else Some n)"

lemma verify_utf8_length: "verify_utf8_sequence s = Some n \<Longrightarrow> 0 < n"
  by (auto simp: verify_utf8_sequence_def Let_def split: option.splits if_splits)

text \<open>The loop of \<^verbatim>\<open>is_valid_utf8\<close>, on the string from its pointer on and the number of bytes to its end.\<close>

function is_valid_utf8 :: "string \<Rightarrow> nat \<Rightarrow> bool" where
  "is_valid_utf8 s n =
     (if n = 0 then True
      else case verify_utf8_sequence s of
             None \<Rightarrow> False
           | Some k \<Rightarrow> is_valid_utf8 (drop k s) (n - k))"
  by pat_completeness auto
termination
  by (relation "measure snd") (auto dest: verify_utf8_length)

declare is_valid_utf8.simps [simp del]

subsection \<open>Escapes\<close>

definition hex_char_to_int :: "char \<Rightarrow> int" where
  "hex_char_to_int c =
     (let n = of_char c :: int in
      if 48 \<le> n \<and> n \<le> 57 then n - 48
      else if 97 \<le> n \<and> n \<le> 102 then n - 97 + 10
      else if 65 \<le> n \<and> n \<le> 70 then n - 65 + 10
      else -1)"

definition parse_utf16_hex :: "string \<Rightarrow> nat option" where
  "parse_utf16_hex s =
     (if at_char s 0 = NUL \<or> at_char s 1 = NUL \<or> at_char s 2 = NUL \<or> at_char s 3 = NUL then None
      else let x1 = hex_char_to_int (at_char s 0); x2 = hex_char_to_int (at_char s 1);
               x3 = hex_char_to_int (at_char s 2); x4 = hex_char_to_int (at_char s 3)
           in if x1 = -1 \<or> x2 = -1 \<or> x3 = -1 \<or> x4 = -1 then None
              else Some (push_bit 12 (nat x1) OR push_bit 8 (nat x2) OR push_bit 4 (nat x3) OR nat x4))"

definition surrogate_pair :: "nat \<Rightarrow> nat \<Rightarrow> nat" where
  "surrogate_pair lead trail = (push_bit 10 ((lead - 0xD800) AND 0x3FF) OR ((trail - 0xDC00) AND 0x3FF)) + 0x010000"

definition four_bytes :: "nat \<Rightarrow> string" where
  "four_bytes cp =
     [byte_of ((drop_bit 18 cp AND 0x07) OR 0xF0), byte_of ((drop_bit 12 cp AND 0x3F) OR 0x80),
      byte_of ((drop_bit 6 cp AND 0x3F) OR 0x80), byte_of ((cp AND 0x3F) OR 0x80)]"

text \<open>
  \<^verbatim>\<open>parse_utf16\<close> from the letter \<^verbatim>\<open>u\<close> on: the bytes it writes and the text behind the escape. The code
  leaves both pointers on the last character, as its caller moves them on.
\<close>

definition parse_utf16 :: "string \<Rightarrow> (string \<times> string) option" where
  "parse_utf16 s =
     (let p = drop 1 s in
      case parse_utf16_hex p of
        None \<Rightarrow> None
      | Some cp \<Rightarrow>
          if cp < 0x80 then Some ([byte_of cp], drop 4 p)
          else if cp < 0x800 then
            Some ([byte_of ((drop_bit 6 cp AND 0x1F) OR 0xC0), byte_of ((cp AND 0x3F) OR 0x80)], drop 4 p)
          else if cp < 0xD800 \<or> cp > 0xDFFF then
            Some ([byte_of ((drop_bit 12 cp AND 0x0F) OR 0xE0), byte_of ((drop_bit 6 cp AND 0x3F) OR 0x80),
                   byte_of ((cp AND 0x3F) OR 0x80)], drop 4 p)
          else if cp \<ge> 0xD800 \<and> cp \<le> 0xDBFF then
            (let lead = cp; p = drop 4 p in
             if at_char p 0 \<noteq> BACKSLASH \<or> at_char p 1 \<noteq> CHR ''u'' then None
             else let p = drop 2 p in
             case parse_utf16_hex p of
               None \<Rightarrow> None
             | Some trail \<Rightarrow>
                 if trail < 0xDC00 \<or> trail > 0xDFFF then None
                 else Some (four_bytes (surrogate_pair lead trail), drop 4 p))
          else None)"

text \<open>The escapes of one letter.\<close>

definition escaped :: "char \<Rightarrow> char option" where
  "escaped c =
     (if c = QUOTE then Some QUOTE
      else if c = BACKSLASH then Some BACKSLASH
      else if c = CHR ''/'' then Some (CHR ''/'')
      else if c = CHR ''b'' then Some (CHR 0x08)
      else if c = CHR ''f'' then Some (CHR 0x0C)
      else if c = CHR ''n'' then Some (CHR 0x0A)
      else if c = CHR ''r'' then Some (CHR 0x0D)
      else if c = CHR ''t'' then Some (CHR 0x09)
      else None)"

lemma parse_utf16_hex_length: "parse_utf16_hex s = Some cp \<Longrightarrow> 4 \<le> length s"
  by (rule ccontr) (simp add: parse_utf16_hex_def at_char_def)

lemma parse_utf16_rest:
  assumes "parse_utf16 s = Some (bs, rest)"
  shows "5 \<le> length s" "rest = drop 5 s \<or> rest = drop 11 s"
proof -
  obtain cp where cp: "parse_utf16_hex (drop 1 s) = Some cp"
    using assms by (cases "parse_utf16_hex (drop 1 s)") (simp_all add: parse_utf16_def)
  show "5 \<le> length s" using parse_utf16_hex_length [OF cp] by simp
  show "rest = drop 5 s \<or> rest = drop 11 s"
    using assms unfolding parse_utf16_def cp Let_def by (simp split: if_splits option.splits)
qed

lemma parse_utf16_shorter: "parse_utf16 s = Some (bs, rest) \<Longrightarrow> length rest < length s"
  using parse_utf16_rest [of s bs rest] by auto

text \<open>
  The loop of \<^verbatim>\<open>process_string\<close>: the rest of the input, how much of \<^verbatim>\<open>input_len\<close> is left, and what is
  written from here on.
\<close>

function process_from :: "string \<Rightarrow> nat \<Rightarrow> string option" where
  "process_from s left =
     (if at_char s 0 = NUL \<or> left = 0 then Some []
      else if at_char s 0 = BACKSLASH then
        (if at_char s 1 = CHR ''u'' then
           (case parse_utf16 (drop 1 s) of
              None \<Rightarrow> None
            | Some (bs, rest) \<Rightarrow> map_option ((@) bs) (process_from rest (left - (length s - length rest))))
         else
           (case escaped (at_char s 1) of
              None \<Rightarrow> None
            | Some c \<Rightarrow> map_option ((#) c) (process_from (drop 2 s) (left - 2))))
      else if (of_char (at_char s 0) :: nat) < 0x20 then None
      else map_option ((#) (at_char s 0)) (process_from (drop 1 s) (left - 1)))"
  by pat_completeness auto
termination
  by (relation "measure (length \<circ> fst)")
    (auto simp: at_char_def dest!: parse_utf16_shorter split: if_splits)

declare process_from.simps [simp del]

definition process_string :: "string \<Rightarrow> nat \<Rightarrow> string option" where
  "process_string input input_len = process_from input input_len"

fun skip_to_quote :: "string \<Rightarrow> string option" where
  "skip_to_quote [] = None"
| "skip_to_quote (c # s) =
     (if c = QUOTE then Some s
      else if c = NUL then None
      else if c = BACKSLASH then (case s of [] \<Rightarrow> None | d # t \<Rightarrow> if d = NUL then None else skip_to_quote t)
      else skip_to_quote s)"

definition skip_quotes :: "string \<Rightarrow> string option" where
  "skip_quotes s = (if at_char s 0 \<noteq> QUOTE then None else skip_to_quote (drop 1 s))"

text \<open>The string, processed, and the text behind its closing quote.\<close>

definition get_quoted_string :: "string \<Rightarrow> (string \<times> string) option" where
  "get_quoted_string s =
     (case skip_quotes s of
        None \<Rightarrow> None
      | Some rest \<Rightarrow> map_option (\<lambda>out. (out, rest)) (process_string (drop 1 s) (length s - length rest - 2)))"

subsection \<open>Writing\<close>

definition hex_digit :: "nat \<Rightarrow> char" where
  "hex_digit n = char_of (if n < 10 then 48 + n else 87 + n)"

definition serialize_char :: "bool \<Rightarrow> char \<Rightarrow> string" where
  "serialize_char escape_slashes c =
     (if c = QUOTE then [BACKSLASH, QUOTE]
      else if c = BACKSLASH then [BACKSLASH, BACKSLASH]
      else if c = CHR 0x08 then [BACKSLASH, CHR ''b'']
      else if c = CHR 0x0C then [BACKSLASH, CHR ''f'']
      else if c = CHR 0x0A then [BACKSLASH, CHR ''n'']
      else if c = CHR 0x0D then [BACKSLASH, CHR ''r'']
      else if c = CHR 0x09 then [BACKSLASH, CHR ''t'']
      else if (of_char c :: nat) < 0x20 then
        [BACKSLASH, CHR ''u'', CHR ''0'', CHR ''0'', hex_digit (of_char c div 16), hex_digit (of_char c mod 16)]
      else if c = CHR ''/'' then (if escape_slashes then [BACKSLASH, CHR ''/''] else [CHR ''/''])
      else [c])"

definition json_serialize_string :: "bool \<Rightarrow> string \<Rightarrow> string" where
  "json_serialize_string escape_slashes s = QUOTE # concat (map (serialize_char escape_slashes) s) @ [QUOTE]"

subsection \<open>A string that is written is read back\<close>

lemma below_code: "list_all P [0..<n] \<Longrightarrow> k < n \<Longrightarrow> P k"
  by (simp add: list_all_iff)

lemma hex_digit_plain:
  assumes "n < 16"
  shows "hex_digit n \<noteq> QUOTE" "hex_digit n \<noteq> BACKSLASH" "hex_digit n \<noteq> NUL" "hex_char_to_int (hex_digit n) = int n"
proof -
  have "list_all (\<lambda>n. hex_digit n \<noteq> QUOTE \<and> hex_digit n \<noteq> BACKSLASH \<and> hex_digit n \<noteq> NUL \<and>
      hex_char_to_int (hex_digit n) = int n) [0..<16]" by code_simp
  from below_code [OF this assms]
  show "hex_digit n \<noteq> QUOTE" "hex_digit n \<noteq> BACKSLASH" "hex_digit n \<noteq> NUL" "hex_char_to_int (hex_digit n) = int n"
    by auto
qed

lemma control_code:
  assumes "(n :: nat) < 32"
  shows "push_bit 4 (n div 16) OR n mod 16 = n"
proof -
  have "list_all (\<lambda>n :: nat. push_bit 4 (n div 16) OR n mod 16 = n) [0..<32]" by code_simp
  from below_code [OF this assms] show ?thesis .
qed

lemma hex_of_quote: "hex_char_to_int QUOTE = -1"
  by (simp add: hex_char_to_int_def)

lemma zero_digit: "hex_char_to_int (CHR ''0'') = 0"
  by (simp add: hex_char_to_int_def)

lemma parse_control:
  assumes "(of_char c :: nat) < 32"
  shows "parse_utf16 (CHR ''u'' # CHR ''0'' # CHR ''0'' # hex_digit (of_char c div 16) # hex_digit (of_char c mod 16) # t) = Some ([c], t)"
proof -
  have d: "(of_char c :: nat) div 16 < 16" "(of_char c :: nat) mod 16 < 16" using assms by simp_all
  note h = hex_digit_plain(3,4) [OF d(1)] hex_digit_plain(3,4) [OF d(2)]
  have "parse_utf16_hex (CHR ''0'' # CHR ''0'' # hex_digit (of_char c div 16) # hex_digit (of_char c mod 16) # t) = Some (of_char c)"
    using h control_code [OF assms] by (simp add: parse_utf16_hex_def at_char_def zero_digit)
  then show ?thesis using assms by (simp add: parse_utf16_def byte_of_def)
qed

lemma at_char_Cons [simp]: "at_char (c # s) 0 = c" "at_char (c # s) (Suc n) = at_char s n" "at_char [] n = NUL"
  by (simp_all add: at_char_def)

lemma char_code_inj: "(of_char c :: nat) = of_char d \<longleftrightarrow> c = d"
  by simp

text \<open>What is written for a character: itself, a letter behind a backslash, or its code.\<close>

lemma serialize_char_cases:
  obtains (plain) "serialize_char e c = [c]" "c \<noteq> QUOTE" "c \<noteq> BACKSLASH" "c \<noteq> NUL" "\<not> (of_char c :: nat) < 0x20"
  | (letter) d where "serialize_char e c = [BACKSLASH, d]" "escaped d = Some c" "d \<noteq> CHR ''u''" "d \<noteq> NUL"
  | (code) "serialize_char e c = [BACKSLASH, CHR ''u'', CHR ''0'', CHR ''0'', hex_digit (of_char c div 16), hex_digit (of_char c mod 16)]"
      "(of_char c :: nat) < 0x20"
proof -
  consider "c \<in> {QUOTE, BACKSLASH, CHR 0x08, CHR 0x0C, CHR 0x0A, CHR 0x0D, CHR 0x09, CHR ''/''}"
    | "c \<notin> {QUOTE, BACKSLASH, CHR 0x08, CHR 0x0C, CHR 0x0A, CHR 0x0D, CHR 0x09, CHR ''/''}" by blast
  then show thesis
  proof cases
    case 1
    then show ?thesis using letter plain by (cases e) (auto simp: serialize_char_def escaped_def split: if_splits)
  next
    case 2
    show thesis
    proof (cases "(of_char c :: nat) < 0x20")
      case True
      then show ?thesis using code 2 by (simp add: serialize_char_def)
    next
      case False
      moreover have "c \<noteq> NUL" using False by auto
      ultimately show ?thesis using plain 2 by (simp add: serialize_char_def)
    qed
  qed
qed

lemma escaped_not_NUL: "escaped NUL = None"
  by (simp add: escaped_def)

lemma skip_serialized_char: "skip_to_quote (serialize_char e c @ t) = skip_to_quote t"
proof (cases rule: serialize_char_cases [of e c])
  case (letter d)
  then show ?thesis by simp
next
  case code
  then have "(of_char c :: nat) div 16 < 16" "(of_char c :: nat) mod 16 < 16" by simp_all
  then show ?thesis using code(1) hex_digit_plain by simp
qed simp

lemma skip_serialized: "skip_to_quote (concat (map (serialize_char e) s) @ QUOTE # t) = Some t"
  by (induction s) (simp_all add: skip_serialized_char)

lemma append_one: "(@) [c] = (#) c"
  by auto

lemma process_serialized_char:
  "process_from (serialize_char e c @ t) (length (serialize_char e c) + n) = map_option ((#) c) (process_from t n)"
proof (cases rule: serialize_char_cases [of e c])
  case plain
  then show ?thesis by (subst process_from.simps) simp
next
  case (letter d)
  then show ?thesis by (subst process_from.simps) simp
next
  case code
  then show ?thesis by (subst process_from.simps) (simp add: parse_control append_one)
qed

lemma process_serialized:
  "process_from (concat (map (serialize_char e) s) @ t) (length (concat (map (serialize_char e) s))) = Some s"
proof (induction s)
  case Nil
  show ?case by (subst process_from.simps) simp
next
  case (Cons c s)
  then show ?case using process_serialized_char [of e c "concat (map (serialize_char e) s) @ t" "length (concat (map (serialize_char e) s))"]
    by simp
qed

lemma quoted_string_written: "get_quoted_string (json_serialize_string e s @ t) = Some (s, t)"
  using skip_serialized [of e s t] process_serialized [of e s "QUOTE # t"]
  by (simp add: get_quoted_string_def skip_quotes_def process_string_def json_serialize_string_def)

subsection \<open>Reading between quotes\<close>

lemma skip_to_quote_split:
  "skip_to_quote s = Some rest \<Longrightarrow> \<exists>xs. s = xs @ QUOTE # rest \<and> NUL \<notin> set xs"
proof (induction s rule: skip_to_quote.induct)
  case (2 c s)
  show ?case
  proof (cases "c = QUOTE")
    case True
    then show ?thesis using 2 by (intro exI [of _ "[]"]) simp
  next
    case False
    show ?thesis
    proof (cases "c = BACKSLASH")
      case True
      then obtain d t where s: "s = d # t" "d \<noteq> NUL" "skip_to_quote t = Some rest"
        using 2(3) by (auto split: list.splits if_splits)
      with 2(1) False True obtain xs where "t = xs @ QUOTE # rest" "NUL \<notin> set xs" by auto
      then show ?thesis using s True by (intro exI [of _ "BACKSLASH # d # xs"]) simp
    next
      case plain: False
      have c: "c \<noteq> NUL" "skip_to_quote s = Some rest" using 2(3) False plain by (auto split: if_splits)
      with 2(2) False plain obtain xs where "s = xs @ QUOTE # rest" "NUL \<notin> set xs" by auto
      then show ?thesis using c by (intro exI [of _ "c # xs"]) simp
    qed
  qed
qed simp

lemma hex_within:
  assumes "parse_utf16_hex (xs @ QUOTE # rest) = Some cp"
  shows "4 \<le> length xs"
proof (rule ccontr)
  assume "\<not> 4 \<le> length xs"
  then have l: "length xs < 4" by simp
  have "at_char (xs @ QUOTE # rest) (length xs) = QUOTE" by (simp add: at_char_def)
  moreover have "length xs = 0 \<or> length xs = 1 \<or> length xs = 2 \<or> length xs = 3" using l by linarith
  ultimately show False using assms hex_of_quote by (auto simp: parse_utf16_hex_def Let_def split: if_splits)
qed

lemma parse_utf16_within:
  assumes "parse_utf16 (CHR ''u'' # xs @ QUOTE # t) = Some (bs, r)"
  shows "\<exists>ys. r = ys @ QUOTE # t \<and> length bs + length ys \<le> length xs \<and> length ys < length xs"
proof -
  obtain cp where cp: "parse_utf16_hex (xs @ QUOTE # t) = Some cp"
    using assms by (cases "parse_utf16_hex (xs @ QUOTE # t)") (simp_all add: parse_utf16_def)
  then have len: "4 \<le> length xs" by (rule hex_within)
  let ?p = "drop 4 xs @ QUOTE # t"
  have p: "drop 4 (xs @ QUOTE # t) = ?p" using len by simp
  have "length bs \<le> 3 \<and> r = ?p \<or> length bs = 4 \<and> at_char ?p 0 = BACKSLASH \<and> at_char ?p 1 = CHR ''u'' \<and>
      parse_utf16_hex (drop 2 ?p) \<noteq> None \<and> r = drop 6 ?p"
    using assms cp p unfolding parse_utf16_def Let_def
    by (auto simp: four_bytes_def split: if_splits option.splits simp del: drop_append)
  then show ?thesis
  proof
    assume "length bs \<le> 3 \<and> r = ?p"
    then show ?thesis using len by (intro exI [of _ "drop 4 xs"]) auto
  next
    assume four: "length bs = 4 \<and> at_char ?p 0 = BACKSLASH \<and> at_char ?p 1 = CHR ''u'' \<and>
      parse_utf16_hex (drop 2 ?p) \<noteq> None \<and> r = drop 6 ?p"
    then obtain c ys where "drop 4 xs = BACKSLASH # c # ys"
      by (cases "drop 4 xs" rule: remdups_adj.cases) auto
    with four hex_within [of ys t] have "r = drop 4 ys @ QUOTE # t" "4 \<le> length ys" "length xs = length ys + 6"
      by (auto dest: arg_cong [of _ _ length])
    then show ?thesis using four by (intro exI [of _ "drop 4 ys"]) auto
  qed
qed

lemma process_step:
  "c \<noteq> BACKSLASH \<Longrightarrow> c \<noteq> NUL \<Longrightarrow> process_from (c # s) (Suc n) =
     (if (of_char c :: nat) < 0x20 then None else map_option ((#) c) (process_from s n))"
  "d \<noteq> CHR ''u'' \<Longrightarrow> process_from (BACKSLASH # d # s) (Suc n) =
     (case escaped d of None \<Rightarrow> None | Some c \<Rightarrow> map_option ((#) c) (process_from s (n - 1)))"
  "process_from (BACKSLASH # CHR ''u'' # s) (Suc n) =
     (case parse_utf16 (CHR ''u'' # s) of None \<Rightarrow> None
      | Some (bs, rest) \<Rightarrow> map_option ((@) bs) (process_from rest (Suc n - (Suc (Suc (length s)) - length rest))))"
  "process_from (NUL # s) n = Some []" "process_from s 0 = Some []"
  by (simp_all add: process_from.simps [of "c # s"] process_from.simps [of "BACKSLASH # d # s"]
      process_from.simps [of "BACKSLASH # CHR ''u'' # s"] process_from.simps [of "NUL # s"] process_from.simps [of s 0] split: option.split prod.split)

lemma process_fits: "process_from (xs @ QUOTE # t) (length xs) = Some out \<Longrightarrow> length out \<le> length xs"
proof (induction "length xs" arbitrary: xs out rule: less_induct)
  case less
  consider "xs = []" | "xs = [BACKSLASH]" | d ys where "xs = BACKSLASH # d # ys" "d \<noteq> CHR ''u''"
    | ys where "xs = BACKSLASH # CHR ''u'' # ys" | ys where "xs = NUL # ys"
    | c ys where "xs = c # ys" "c \<noteq> BACKSLASH" "c \<noteq> NUL"
    by (cases xs rule: remdups_adj.cases) auto
  then show ?case
  proof cases
    case 2
    then show ?thesis using less.prems by (auto simp: process_step escaped_def)
  next
    case (3 d ys)
    then show ?thesis using less.prems less.hyps [of ys] by (auto simp: process_step split: option.splits)
  next
    case (4 ys)
    with less.prems obtain b r o1 where p: "parse_utf16 (CHR ''u'' # ys @ QUOTE # t) = Some (b, r)"
      "process_from r (length xs - (length xs + Suc (length t) - length r)) = Some o1" "out = b @ o1"
      by (auto simp: process_step split: option.splits)
    obtain ws where ws: "r = ws @ QUOTE # t" "length b + length ws \<le> length ys" "length ws < length ys"
      using parse_utf16_within [OF p(1)] by blast
    have "length xs - (length xs + Suc (length t) - length r) = length ws" using ws 4 by simp
    then have "length o1 \<le> length ws" using less.hyps [of ws o1] ws p 4 by simp
    then show ?thesis using p ws 4 by simp
  next
    case (6 c ys)
    then show ?thesis using less.prems less.hyps [of ys] by (auto simp: process_step split: if_splits)
  qed (use less.prems in \<open>simp_all add: process_step\<close>)
qed

lemma quoted_string_fits_len:
  assumes "get_quoted_string s = Some (out, rest)"
  shows "length out + length rest + 2 \<le> length s" "\<exists>xs. s = QUOTE # xs @ QUOTE # rest \<and> length out \<le> length xs"
proof -
  have "skip_quotes s = Some rest" "process_string (drop 1 s) (length s - length rest - 2) = Some out"
    using assms by (auto simp: get_quoted_string_def split: option.splits)
  moreover from this obtain xs where "drop 1 s = xs @ QUOTE # rest" "at_char s 0 = QUOTE"
    using skip_to_quote_split [of "drop 1 s" rest] by (auto simp: skip_quotes_def split: if_splits)
  moreover from this have "s = QUOTE # xs @ QUOTE # rest" by (cases s) auto
  ultimately show "length out + length rest + 2 \<le> length s" "\<exists>xs. s = QUOTE # xs @ QUOTE # rest \<and> length out \<le> length xs"
    using process_fits [of xs rest out] by (auto simp: process_string_def)
qed

text \<open>
  The loop of \<^verbatim>\<open>process_string\<close> with what it has done when it stops, also by \<^verbatim>\<open>goto error\<close>: the bytes
  written, the input from its pointer on, and how much of \<^verbatim>\<open>input_len\<close> is left. A turn is what one round
  writes and where it leaves the pointer; a round that fails writes nothing.
\<close>

definition process_turn :: "string \<Rightarrow> (string \<times> string) option" where
  "process_turn s =
     (if at_char s 0 = BACKSLASH then
        (if at_char s 1 = CHR ''u'' then parse_utf16 (drop 1 s)
         else map_option (\<lambda>c. ([c], drop 2 s)) (escaped (at_char s 1)))
      else if (of_char (at_char s 0) :: nat) < 0x20 then None
      else Some ([at_char s 0], drop 1 s))"

lemma process_turn_shorter: "process_turn s = Some (bs, r) \<Longrightarrow> at_char s 0 \<noteq> NUL \<Longrightarrow> length r < length s"
  by (cases s) (auto simp: process_turn_def at_char_def split: if_splits dest!: parse_utf16_shorter)

function process_run :: "string \<Rightarrow> nat \<Rightarrow> string \<times> string \<times> nat" where
  "process_run s left =
     (if at_char s 0 = NUL \<or> left = 0 then ([], s, left)
      else case process_turn s of
        None \<Rightarrow> ([], s, left)
      | Some (bs, r) \<Rightarrow>
          (case process_run r (left - (length s - length r)) of (out, r', left') \<Rightarrow> (bs @ out, r', left')))"
  by pat_completeness auto
termination
  by (relation "measure (length \<circ> fst)") (auto dest: process_turn_shorter)

declare process_run.simps [simp del]

lemma process_run_turn:
  "at_char s 0 \<noteq> NUL \<Longrightarrow> n \<noteq> 0 \<Longrightarrow> process_turn s = Some (bs, r) \<Longrightarrow>
   process_run r (n - (length s - length r)) = (out, r', n') \<Longrightarrow> process_run s n = (bs @ out, r', n')"
  by (simp add: process_run.simps [of s n])

lemma process_from_turn:
  "process_from s n =
     (if at_char s 0 = NUL \<or> n = 0 then Some []
      else case process_turn s of
        None \<Rightarrow> None
      | Some (bs, r) \<Rightarrow> map_option ((@) bs) (process_from r (n - (length s - length r))))"
proof (cases s)
  case (Cons c t)
  show ?thesis
  proof (cases t)
    case Nil
    then show ?thesis
      by (simp add: Cons process_from.simps [of "[c]"] process_turn_def at_char_def escaped_def append_one)
  next
    case (Cons d u)
    then show ?thesis
      by (simp add: \<open>s = c # t\<close> process_from.simps [of "c # d # u"] process_turn_def at_char_def append_one
          split: option.split prod.split)
  qed
qed (simp add: process_from.simps [of "[]"] at_char_def)

lemma process_run_result:
  "process_run s n = (out, r, n') \<Longrightarrow> process_from s n = (if at_char r 0 = NUL \<or> n' = 0 then Some out else None)"
proof (induction s n arbitrary: out r n' rule: process_run.induct)
  case (1 s n)
  show ?case
  proof (cases "at_char s 0 = NUL \<or> n = 0 \<or> process_turn s = None")
    case True
    with 1 show ?thesis by (auto simp: process_run.simps [of s n] process_from_turn [of s n])
  next
    case False
    then obtain bs r1 where t: "process_turn s = Some (bs, r1)" by auto
    obtain o1 r2 n2 where run: "process_run r1 (n - (length s - length r1)) = (o1, r2, n2)" by (metis surj_pair)
    with 1 False t have "out = bs @ o1" "r = r2" "n' = n2" by (simp_all add: process_run.simps [of s n])
    with "1.IH" [OF _ t _ run] False t show ?thesis by (simp add: process_from_turn [of s n])
  qed
qed

text \<open>Where the scan for the closing quote and the loop agree.\<close>

lemma hex_skips:
  assumes "parse_utf16_hex s = Some cp"
  shows "skip_to_quote s = skip_to_quote (drop 4 s)"
proof -
  obtain a b c d u where s: "s = a # b # c # d # u"
    using parse_utf16_hex_length [OF assms] by (auto simp: numeral_eq_Suc Suc_le_length_iff)
  have no: "hex_char_to_int QUOTE = -1" "hex_char_to_int BACKSLASH = -1" "hex_char_to_int NUL = -1"
    by (simp_all add: hex_char_to_int_def)
  have "hex_char_to_int x \<noteq> -1" if "x \<in> {a, b, c, d}" for x
    using assms that unfolding s by (auto simp: parse_utf16_hex_def at_char_def Let_def split: if_splits)
  then have "x \<noteq> QUOTE \<and> x \<noteq> BACKSLASH \<and> x \<noteq> NUL" if "x \<in> {a, b, c, d}" for x
    using that no by metis
  then show ?thesis by (simp add: s)
qed

lemma utf16_skips:
  assumes "parse_utf16 (CHR ''u'' # p) = Some (bs, r)"
  shows "skip_to_quote r = skip_to_quote p"
proof -
  obtain cp where cp: "parse_utf16_hex p = Some cp"
    using assms by (cases "parse_utf16_hex p") (simp_all add: parse_utf16_def)
  let ?q = "drop 4 p"
  have "r = ?q \<or> at_char ?q 0 = BACKSLASH \<and> at_char ?q 1 = CHR ''u'' \<and>
      (\<exists>trail. parse_utf16_hex (drop 2 ?q) = Some trail) \<and> r = drop 4 (drop 2 ?q)"
    using assms cp unfolding parse_utf16_def Let_def by (auto split: if_splits option.splits simp del: drop_drop)
  then show ?thesis
  proof
    assume "r = ?q"
    with hex_skips [OF cp] show ?thesis by simp
  next
    assume two: "at_char ?q 0 = BACKSLASH \<and> at_char ?q 1 = CHR ''u'' \<and>
      (\<exists>trail. parse_utf16_hex (drop 2 ?q) = Some trail) \<and> r = drop 4 (drop 2 ?q)"
    then obtain u where q: "?q = BACKSLASH # CHR ''u'' # u"
      by (cases ?q rule: remdups_adj.cases) (auto simp: at_char_def)
    from two obtain trail where "parse_utf16_hex (drop 2 ?q) = Some trail" by blast
    then have "parse_utf16_hex u = Some trail" unfolding q by simp
    from hex_skips [OF this] hex_skips [OF cp] have "skip_to_quote p = skip_to_quote (drop 4 u)" by (simp add: q)
    moreover have "r = drop 4 u" using two unfolding q by simp
    ultimately show ?thesis by simp
  qed
qed

lemma skip_shorter: "skip_to_quote s = Some rest \<Longrightarrow> length rest < length s"
  using skip_to_quote_split [of s rest] by auto

lemma turn_within:
  assumes turn: "process_turn (xs @ QUOTE # t) = Some (bs, r)" and "xs \<noteq> []"
    and skip: "skip_to_quote (xs @ QUOTE # t) = Some t"
  shows "\<exists>ys. r = ys @ QUOTE # t \<and> length bs + length ys \<le> length xs \<and> skip_to_quote r = Some t"
proof -
  obtain c ys where xs: "xs = c # ys" using assms(2) by (cases xs) auto
  have "c \<noteq> QUOTE" using skip by (auto simp: xs dest: arg_cong [of _ _ length])
  show ?thesis
  proof (cases "c = BACKSLASH")
    case False
    with turn have "bs = [c]" "r = ys @ QUOTE # t"
      by (auto simp: xs process_turn_def at_char_def split: if_splits)
    moreover have "skip_to_quote (ys @ QUOTE # t) = Some t"
      using skip False \<open>c \<noteq> QUOTE\<close> by (simp add: xs split: if_splits)
    ultimately show ?thesis by (auto simp: xs)
  next
    case True
    have "ys \<noteq> []"
      using skip skip_shorter [of t t] True by (auto simp: xs split: if_splits)
    then obtain d zs where ys: "ys = d # zs" by (cases ys) auto
    have skip_zs: "skip_to_quote (zs @ QUOTE # t) = Some t"
      using skip True by (simp add: xs ys split: if_splits)
    show ?thesis
    proof (cases "d = CHR ''u''")
      case True
      with turn \<open>c = BACKSLASH\<close> have p: "parse_utf16 (CHR ''u'' # zs @ QUOTE # t) = Some (bs, r)"
        by (simp add: xs ys process_turn_def at_char_def)
      from parse_utf16_within [OF p] utf16_skips [OF p] skip_zs show ?thesis by (force simp: xs ys)
    next
      case False
      with turn \<open>c = BACKSLASH\<close> have "length bs = 1" "r = zs @ QUOTE # t"
        by (auto simp: xs ys process_turn_def at_char_def)
      with skip_zs show ?thesis by (auto simp: xs ys)
    qed
  qed
qed

lemma run_within:
  "skip_to_quote (xs @ QUOTE # t) = Some t \<Longrightarrow>
   \<exists>out ys. process_run (xs @ QUOTE # t) (length xs) = (out, ys @ QUOTE # t, length ys) \<and>
     length out + length ys \<le> length xs \<and> at_char (ys @ QUOTE # t) 0 \<noteq> NUL"
proof (induction "length xs" arbitrary: xs rule: less_induct)
  case less
  let ?s = "xs @ QUOTE # t"
  have ne: "at_char ?s 0 \<noteq> NUL"
    using less.prems by (cases xs) (auto simp: at_char_def)
  show ?case
  proof (cases "xs = [] \<or> process_turn ?s = None")
    case True
    then have "process_run ?s (length xs) = ([], ?s, length xs)" by (auto simp: process_run.simps [of ?s])
    with ne show ?thesis by auto
  next
    case False
    then obtain bs r where turn: "process_turn ?s = Some (bs, r)" by auto
    from turn_within [OF turn _ less.prems] False obtain ys where
      r: "r = ys @ QUOTE # t" "length bs + length ys \<le> length xs" "skip_to_quote r = Some t" by blast
    have "length ys < length xs" using process_turn_shorter [OF turn ne] r(1) by simp
    from less.hyps [OF this] r obtain out zs where
      run: "process_run r (length ys) = (out, zs @ QUOTE # t, length zs)" "length out + length zs \<le> length ys"
        "at_char (zs @ QUOTE # t) 0 \<noteq> NUL" by blast
    have "length xs - (length ?s - length r) = length ys" using \<open>length ys < length xs\<close> r(1) by simp
    with run(1) have "process_run ?s (length xs) = (bs @ out, zs @ QUOTE # t, length zs)"
      using False by (intro process_run_turn [OF ne _ turn]) simp_all
    with run(2,3) r(2) show ?thesis by (intro exI [of _ "bs @ out"] exI [of _ zs]) simp
  qed
qed

lemma skip_quotes_split:
  assumes "skip_quotes s = Some rest"
  obtains xs where "s = QUOTE # xs @ QUOTE # rest" "skip_to_quote (xs @ QUOTE # rest) = Some rest"
proof -
  have q: "at_char s 0 = QUOTE" "skip_to_quote (drop 1 s) = Some rest"
    using assms by (auto simp: skip_quotes_def split: if_splits)
  from skip_to_quote_split [OF q(2)] obtain xs where xs: "drop 1 s = xs @ QUOTE # rest" by blast
  then have "s = QUOTE # xs @ QUOTE # rest" using q(1) by (cases s) auto
  with that q(2) xs show thesis by simp
qed

text \<open>
  C32. What is written between the quotes never leaves the buffer. Take any text in which the closing
  quote has been found, whether the string is accepted or rejected. \<^verbatim>\<open>process_string\<close> is given a buffer
  of one byte more than the text between the quotes; when it stops, by the end of the text or by
  \<^verbatim>\<open>goto error\<close>, its pointer stands at or before the closing quote, so no escape it has taken reaches
  across it, and the bytes written are no more than the characters read. The string is accepted, with
  exactly these bytes, when the pointer stands at the closing quote, and rejected otherwise.
\<close>

theorem quoted_string_fits:
  assumes "skip_quotes s = Some rest"
  shows "\<exists>xs out ys. s = QUOTE # xs @ QUOTE # rest \<and>
    process_run (drop 1 s) (length xs) = (out, ys @ QUOTE # rest, length ys) \<and>
    length out + length ys \<le> length xs \<and>
    get_quoted_string s = (if ys = [] then Some (out, rest) else None)"
proof -
  obtain xs where s: "s = QUOTE # xs @ QUOTE # rest" and skip: "skip_to_quote (xs @ QUOTE # rest) = Some rest"
    using skip_quotes_split [OF assms] by blast
  from run_within [OF skip] obtain out ys where
    run: "process_run (xs @ QUOTE # rest) (length xs) = (out, ys @ QUOTE # rest, length ys)"
      "length out + length ys \<le> length xs" "at_char (ys @ QUOTE # rest) 0 \<noteq> NUL" by blast
  have "get_quoted_string s = (if ys = [] then Some (out, rest) else None)"
    using assms process_run_result [OF run(1)] run(3) by (simp add: get_quoted_string_def process_string_def s)
  with run(1,2) s show ?thesis by auto
qed

theorem quoted_string_fits_witness:
  "\<exists>xs out ys. QUOTE # ''ab'' @ [BACKSLASH] @ ''u12'' @ QUOTE # ''34'' = QUOTE # xs @ QUOTE # ''34'' \<and>
     process_run (''ab'' @ [BACKSLASH] @ ''u12'' @ QUOTE # ''34'') (length xs) = (out, ys @ QUOTE # ''34'', length ys) \<and>
     length out + length ys \<le> length xs \<and> get_quoted_string (QUOTE # ''ab'' @ [BACKSLASH] @ ''u12'' @ QUOTE # ''34'') = None"
proof -
  let ?s = "QUOTE # ''ab'' @ [BACKSLASH] @ ''u12'' @ QUOTE # ''34''"
  have "skip_quotes ?s = Some ''34''" "get_quoted_string ?s = None" by code_simp+
  with quoted_string_fits [of ?s "''34''"] show ?thesis by auto
qed

subsection \<open>Escapes give UTF-8\<close>

lemma or_push_bit:
  assumes "(b :: nat) < 2 ^ n"
  shows "push_bit n a OR b = a * 2 ^ n + b"
proof -
  have "b = take_bit n b" using assms by (metis take_bit_nat_eq_self_iff)
  then have "push_bit n a OR b = push_bit n a + b"
    by (intro disjunctive_add [symmetric]) (metis bit_push_bit_iff bit_take_bit_iff not_le)
  then show ?thesis by (simp add: push_bit_eq_mult)
qed

lemma low_bits: "(x :: nat) AND 0x3F = x mod 64" "x AND 0x1F = x mod 32" "x AND 0x0F = x mod 16" "x AND 0x07 = x mod 8"
  "x AND 0x3FF = x mod 1024"
  using take_bit_eq_mask [of 6 x] take_bit_eq_mask [of 5 x] take_bit_eq_mask [of 4 x] take_bit_eq_mask [of 3 x]
    take_bit_eq_mask [of 10 x] by (simp_all add: take_bit_eq_mod mask_eq_exp_minus_1)

lemma high_bits:
  "y < 64 \<Longrightarrow> y OR 0x80 = 128 + (y :: nat)" "y < 32 \<Longrightarrow> y OR 0xC0 = 192 + y" "y < 16 \<Longrightarrow> y OR 0xE0 = 224 + y" "y < 8 \<Longrightarrow> y OR 0xF0 = 240 + y"
  using or_push_bit [of y 7 1] or_push_bit [of y 6 3] or_push_bit [of y 5 7] or_push_bit [of y 4 15]
  by (simp_all add: push_bit_eq_mult or.commute)

lemma and_high: "(x :: nat) AND push_bit n (mask m) = x div 2 ^ n mod 2 ^ m * 2 ^ n"
proof -
  have "x AND push_bit n (mask m) = push_bit n (take_bit m (drop_bit n x))"
    by (rule bit_eqI) (auto simp: bit_simps)
  then show ?thesis by (simp add: push_bit_eq_mult take_bit_eq_mod drop_bit_eq_div)
qed

lemma top_bits: "(x :: nat) AND 0xC0 = x div 64 mod 4 * 64" "x AND 0x80 = x div 128 mod 2 * 128"
  "x AND 0xE0 = x div 32 mod 8 * 32" "x AND 0xF0 = x div 16 mod 16 * 16" "x AND 0xF8 = x div 8 mod 32 * 8"
  using and_high [of x 6 2] and_high [of x 7 1] and_high [of x 5 3] and_high [of x 4 4] and_high [of x 3 5]
  by (simp_all add: mask_eq_exp_minus_1 push_bit_eq_mult)

lemma div_iff: "0 < m \<Longrightarrow> n div m = q \<longleftrightarrow> m * q \<le> n \<and> n < m * Suc (q :: nat)"
  by (metis div_nat_eqI dividend_less_times_div mult_Suc_right add.commute times_div_less_eq_dividend)

lemma cont_byte:
  assumes "n < 256"
  shows "is_cont (char_of (n :: nat)) \<longleftrightarrow> 128 \<le> n \<and> n < 192"
proof -
  have "is_cont (char_of n) \<longleftrightarrow> n div 64 mod 4 * 64 = 128" using assms by (simp add: is_cont_def top_bits)
  also have "n div 64 mod 4 = n div 64" using assms by simp
  also have "n div 64 * 64 = 128 \<longleftrightarrow> n div 64 = 2" by simp
  also have "\<dots> \<longleftrightarrow> 128 \<le> n \<and> n < 192" by (simp add: div_iff)
  finally show ?thesis .
qed

lemma first_byte:
  assumes "n < 256"
  shows "num_bytes_in_utf8_sequence (char_of (n :: nat)) =
      (if n < 128 then 1 else if n < 0xC2 then 0 else if n < 0xE0 then 2 else if n < 0xF0 then 3 else if n \<le> 0xF4 then 4 else 0)"
proof -
  have n: "of_char (char_of n :: char) = n" using assms by simp
  have m: "n div 128 mod 2 = n div 128" "n div 32 mod 8 = n div 32" "n div 16 mod 16 = n div 16" "n div 8 mod 32 = n div 8"
    using assms by simp_all
  have d: "n div 32 * 32 = 192 \<longleftrightarrow> n div 32 = 6" "n div 16 * 16 = 224 \<longleftrightarrow> n div 16 = 14" "n div 8 * 8 = 240 \<longleftrightarrow> n div 8 = 30"
    by auto
  have b: "n div 128 mod 2 * 128 = 0 \<longleftrightarrow> n < 128" "n div 32 mod 8 * 32 = 192 \<longleftrightarrow> 192 \<le> n \<and> n < 224"
    "n div 16 mod 16 * 16 = 224 \<longleftrightarrow> 224 \<le> n \<and> n < 240" "n div 8 mod 32 * 8 = 240 \<longleftrightarrow> 240 \<le> n \<and> n < 248"
    unfolding m d by (simp_all add: div_iff)
  show ?thesis unfolding num_bytes_in_utf8_sequence_def Let_def n top_bits cont_byte [OF assms] b by auto
qed

lemma byte_code [simp]: "n < 256 \<Longrightarrow> of_char (byte_of n) = n"
  by (simp add: byte_of_def)

lemma parse_utf16_hex_less: "parse_utf16_hex s = Some cp \<Longrightarrow> cp < 0x10000"
proof -
  assume h: "parse_utf16_hex s = Some cp"
  have d: "nat (hex_char_to_int c) < 16" for c by (auto simp: hex_char_to_int_def Let_def)
  have 1: "push_bit 4 (nat (hex_char_to_int a)) OR nat (hex_char_to_int b) < 256" for a b
    using d [of a] d [of b] by (subst or_push_bit) auto
  have "cp = push_bit 12 (nat (hex_char_to_int (at_char s 0))) OR push_bit 8 (nat (hex_char_to_int (at_char s 1))) OR
      push_bit 4 (nat (hex_char_to_int (at_char s 2))) OR nat (hex_char_to_int (at_char s 3))"
    using h by (auto simp: parse_utf16_hex_def Let_def split: if_splits)
  moreover have "push_bit 12 a OR push_bit 8 b OR c < 0x10000" if "a < 16" "b < 16" "c < 256" for a b c :: nat
    using that or_push_bit [of c 8 b] or_push_bit [of "b * 256 + c" 12 a] by (simp add: or.assoc)
  ultimately show ?thesis using d [of "at_char s 0"] d [of "at_char s 1"] 1 [of "at_char s 2" "at_char s 3"]
    by (simp add: or.assoc)
qed

text \<open>Sequences of two, three and four bytes that are accepted.\<close>

lemma payload:
  "(b :: nat) < 64 \<Longrightarrow> (128 + b) AND 0x3F = b" "b < 32 \<Longrightarrow> (192 + b) AND 0x1F = b"
  "b < 16 \<Longrightarrow> (224 + b) AND 0x0F = b" "b < 8 \<Longrightarrow> (240 + b) AND 0x07 = b"
  using mod_mult_self3 [of 2 64 b] mod_mult_self3 [of 6 32 b] mod_mult_self3 [of 14 16 b] mod_mult_self3 [of 30 8 b]
  by (simp_all add: low_bits)

lemma utf8_two:
  assumes "2 \<le> a" "a < 32" "b < 64"
  shows "verify_utf8_sequence [byte_of (192 + a), byte_of (128 + b)] = Some 2"
proof -
  have "num_bytes_in_utf8_sequence (byte_of (192 + a)) = 2" "is_cont (byte_of (128 + b))"
    using assms by (simp_all add: byte_of_def first_byte cont_byte)
  moreover have "push_bit 6 a OR b = a * 64 + b" using assms or_push_bit [of b 6 a] by simp
  moreover have "\<not> a * 64 + b < 128" "\<not> 0xD800 \<le> a * 64 + b" "\<not> 0x10FFFF < a * 64 + b" using assms by linarith+
  ultimately show ?thesis using assms payload(2) [of a] payload(1) [of b]
    by (simp add: verify_utf8_sequence_def Let_def del: push_bit_and push_bit_or)
qed

lemma utf8_three:
  assumes "a < 16" "b < 64" "c < 64" "v = (a * 64 + b) * 64 + c" "0x800 \<le> v" "v < 0xD800 \<or> 0xDFFF < v"
  shows "verify_utf8_sequence [byte_of (224 + a), byte_of (128 + b), byte_of (128 + c)] = Some 3"
proof -
  have "num_bytes_in_utf8_sequence (byte_of (224 + a)) = 3" "is_cont (byte_of (128 + b))" "is_cont (byte_of (128 + c))"
    using assms by (simp_all add: byte_of_def first_byte cont_byte)
  moreover have "push_bit 6 a OR b = a * 64 + b" "push_bit 6 (a * 64 + b) OR c = v"
    using assms or_push_bit [of b 6 a] or_push_bit [of c 6 "a * 64 + b"] by simp_all
  moreover have "\<not> v < 128" "\<not> v < 0x800" "\<not> 0x10FFFF < v" "\<not> (0xD800 \<le> v \<and> v \<le> 0xDFFF)" using assms by auto
  ultimately show ?thesis using assms(1-3) payload(3) [of a] payload(1) [of b] payload(1) [of c]
    by (simp add: verify_utf8_sequence_def Let_def numeral_2_eq_2 del: push_bit_and push_bit_or)
qed

lemma utf8_four:
  assumes "a < 5" "b < 64" "c < 64" "d < 64" "v = ((a * 64 + b) * 64 + c) * 64 + d" "0x10000 \<le> v" "v \<le> 0x10FFFF"
  shows "verify_utf8_sequence [byte_of (240 + a), byte_of (128 + b), byte_of (128 + c), byte_of (128 + d)] = Some 4"
proof -
  have "num_bytes_in_utf8_sequence (byte_of (240 + a)) = 4" "is_cont (byte_of (128 + b))" "is_cont (byte_of (128 + c))"
    "is_cont (byte_of (128 + d))"
    using assms by (simp_all add: byte_of_def first_byte cont_byte)
  moreover have "push_bit 6 a OR b = a * 64 + b" "push_bit 6 (a * 64 + b) OR c = (a * 64 + b) * 64 + c"
    "push_bit 6 ((a * 64 + b) * 64 + c) OR d = v"
    using assms or_push_bit [of b 6 a] or_push_bit [of c 6 "a * 64 + b"] or_push_bit [of d 6 "(a * 64 + b) * 64 + c"] by simp_all
  moreover have "\<not> v < 128" "\<not> v < 0x800" "\<not> v < 0x10000" "\<not> 0x10FFFF < v" "\<not> (0xD800 \<le> v \<and> v \<le> 0xDFFF)"
    using assms by linarith+
  ultimately show ?thesis using assms(1-4) payload(4) [of a] payload(1) [of b] payload(1) [of c] payload(1) [of d]
    by (simp add: verify_utf8_sequence_def Let_def numeral_2_eq_2 numeral_3_eq_3 del: push_bit_and push_bit_or)
qed

text \<open>The bytes of an escape, by the digits of its code point to the base 64.\<close>

lemma escape_bytes:
  "drop_bit 6 (n :: nat) = n div 64" "drop_bit 12 n = n div 64 div 64" "drop_bit 18 n = n div 64 div 64 div 64"
  "(n AND 0x3F) OR 0x80 = 128 + n mod 64" "(n AND 0x1F) OR 0xC0 = 192 + n mod 32" "(n AND 0x0F) OR 0xE0 = 224 + n mod 16"
  "(n AND 0x07) OR 0xF0 = 240 + n mod 8"
  by (simp_all add: low_bits high_bits drop_bit_eq_div div_mult2_eq [symmetric])

lemma escape_utf8:
  assumes "parse_utf16 s = Some (bs, rest)"
  shows "verify_utf8_sequence bs = Some (length bs)"
proof -
  obtain cp where cp: "parse_utf16_hex (drop 1 s) = Some cp"
    using assms by (cases "parse_utf16_hex (drop 1 s)") (simp_all add: parse_utf16_def)
  have less: "cp < 0x10000" by (rule parse_utf16_hex_less [OF cp])
  let ?h = "cp div 64" let ?l = "cp mod 64"
  have cph: "cp = ?h * 64 + ?l" "?l < 64" by simp_all
  consider "cp < 0x80" | "0x80 \<le> cp" "cp < 0x800" | "0x800 \<le> cp" "cp < 0xD800 \<or> 0xDFFF < cp"
    | "0xD800 \<le> cp" "cp \<le> 0xDFFF" by linarith
  then show ?thesis
  proof cases
    case 1
    then have "bs = [byte_of cp]" using assms cp by (simp add: parse_utf16_def)
    moreover have "num_bytes_in_utf8_sequence (byte_of cp) = 1" using 1 by (simp add: byte_of_def first_byte)
    ultimately show ?thesis using 1 by (simp add: verify_utf8_sequence_def Let_def)
  next
    case 2
    then have "bs = [byte_of ((drop_bit 6 cp AND 0x1F) OR 0xC0), byte_of ((cp AND 0x3F) OR 0x80)]"
      using assms cp unfolding parse_utf16_def Let_def by auto
    then have "bs = [byte_of (192 + ?h mod 32), byte_of (128 + ?l)]" by (simp only: escape_bytes)
    moreover have "2 \<le> ?h" "?h < 32" using 2 cph by linarith+
    ultimately show ?thesis using utf8_two [of ?h ?l] by simp
  next
    case 3
    then have "bs = [byte_of ((drop_bit 12 cp AND 0x0F) OR 0xE0), byte_of ((drop_bit 6 cp AND 0x3F) OR 0x80), byte_of ((cp AND 0x3F) OR 0x80)]"
      using assms cp unfolding parse_utf16_def Let_def by auto
    then have "bs = [byte_of (224 + ?h div 64 mod 16), byte_of (128 + ?h mod 64), byte_of (128 + ?l)]"
      by (simp only: escape_bytes)
    moreover have "?h = ?h div 64 * 64 + ?h mod 64" "?h mod 64 < 64" by simp_all
    moreover from this have "?h div 64 < 16" using less cph by linarith
    ultimately show ?thesis using utf8_three [of "?h div 64" "?h mod 64" ?l cp] 3 by simp
  next
    case 4
    obtain trail where t: "0xDC00 \<le> trail" "trail \<le> 0xDFFF" "cp \<le> 0xDBFF" and
      bs: "bs = four_bytes (surrogate_pair cp trail)"
      using assms cp 4 unfolding parse_utf16_def Let_def by (force simp: not_less split: if_splits option.splits)
    define n where "n = (cp - 0xD800) * 1024 + (trail - 0xDC00) + 0x010000"
    have small: "cp - 0xD800 < 1024" "trail - 0xDC00 < 1024" using 4 t by linarith+
    then have "surrogate_pair cp trail = n"
      using or_push_bit [of "trail - 0xDC00" 10 "cp - 0xD800"] by (simp add: surrogate_pair_def low_bits n_def)
    then have bs: "bs = [byte_of (240 + n div 64 div 64 div 64 mod 8), byte_of (128 + n div 64 div 64 mod 64),
         byte_of (128 + n div 64 mod 64), byte_of (128 + n mod 64)]"
      using bs by (simp only: four_bytes_def escape_bytes)
    have n: "0x10000 \<le> n" "n \<le> 0x10FFFF" using small by (simp_all add: n_def)
    let ?a = "n div 64 div 64 div 64" let ?b = "n div 64 div 64 mod 64" let ?c = "n div 64 mod 64" let ?d = "n mod 64"
    have v: "n = ((?a * 64 + ?b) * 64 + ?c) * 64 + ?d" by simp
    have lt: "?b < 64" "?c < 64" "?d < 64" by simp_all
    have "?a < 5" using v n by linarith
    then show ?thesis using utf8_four [OF _ lt v n] bs by simp
  qed
qed

text \<open>
  C33. An escape that is accepted stands for one code point in well-formed UTF-8: not overlong, not
  above the last code point and no half of a surrogate pair.
\<close>

theorem escapes_are_utf8:
  assumes "parse_utf16 s = Some (bs, rest)"
  shows "verify_utf8_sequence bs = Some (length bs) \<and> is_valid_utf8 bs (length bs)"
  using escape_utf8 [OF assms] by (simp add: is_valid_utf8.simps)

lemma escape_witness: "parse_utf16 (CHR ''u'' # ''00e9'') = Some ([byte_of 195, byte_of 169], [])"
proof -
  have "parse_utf16_hex ''00e9'' = Some 233"
    by (simp add: parse_utf16_hex_def hex_char_to_int_def at_char_def or_push_bit)
  moreover have "Suc (Suc (Suc 0)) OR 192 = 195" using high_bits(2) [of "Suc (Suc (Suc 0))"] by simp
  ultimately show ?thesis by (simp add: parse_utf16_def escape_bytes)
qed

theorem escapes_are_utf8_witness: "is_valid_utf8 [byte_of 195, byte_of 169] 2"
  using escapes_are_utf8 [OF escape_witness] by (simp add: numeral_2_eq_2)

end
