(* ===== verification/JsonParse.thy ===== *)
theory JsonParse
  imports Json JsonTable JsonText
begin

text \<open>
  Reading and writing a JSON text, \<^verbatim>\<open>src/lib/main/parson.c\<close>. A pointer into the text is the rest of the
  text; an answer is a value with the rest behind it, or a failure. The members of an object under
  construction are kept in its hash table; a finished object is its members in the order of the table.
  A \<^verbatim>\<open>double\<close> is the rational it stands for.

  The lengths of texts are natural numbers. The serialiser counts them in an \<^verbatim>\<open>int\<close>, which overflows
  for a text of 2 GiB or more; such texts are outside the model.
\<close>

subsection \<open>Numbers\<close>

text \<open>
  \<^verbatim>\<open>strtod\<close> of the C library: the value and the text behind the number, which is the whole text when
  there is none. Infinity, NaN and hexadecimal numbers are given as \<open>None\<close>: the parser refuses all of
  them, the last ones for their letter \<^verbatim>\<open>x\<close>.
\<close>

definition hexadecimal :: "string \<Rightarrow> bool" where
  "hexadecimal t \<longleftrightarrow> at_char t 0 = CHR ''0'' \<and> at_char t 1 \<in> {CHR ''x'', CHR ''X''} \<and>
     (hex_char_to_int (at_char t 2) \<noteq> -1 \<or> at_char t 2 = CHR ''.'' \<and> hex_char_to_int (at_char t 3) \<noteq> -1)"

definition number_word :: "string \<Rightarrow> bool" where
  "number_word t \<longleftrightarrow>
     at_char t 0 \<in> {CHR ''i'', CHR ''I''} \<and> at_char t 1 \<in> {CHR ''n'', CHR ''N''} \<and> at_char t 2 \<in> {CHR ''f'', CHR ''F''} \<or>
     at_char t 0 \<in> {CHR ''n'', CHR ''N''} \<and> at_char t 1 \<in> {CHR ''a'', CHR ''A''} \<and> at_char t 2 \<in> {CHR ''n'', CHR ''N''}"

definition strtod_fraction :: "string \<Rightarrow> string \<Rightarrow> string \<times> string" where
  "strtod_fraction ip r =
     (if at_char r 0 = CHR ''.'' \<and> (ip \<noteq> [] \<or> isdigit (at_char r 1))
      then (takeWhile isdigit (drop 1 r), dropWhile isdigit (drop 1 r)) else ([], r))"

definition strtod_exponent :: "string \<Rightarrow> int \<times> string" where
  "strtod_exponent r =
     (if at_char r 0 \<in> {CHR ''e'', CHR ''E''} then
        (let (neg, u) = sign_of (drop 1 r)
         in if isdigit (at_char u 0) then
              ((if neg then - int (digits_val 0 u) else int (digits_val 0 u)), dropWhile isdigit u)
            else (0, r))
      else (0, r))"

definition strtod :: "string \<Rightarrow> double option \<times> string" where
  "strtod s =
     (let (neg, t) = sign_of (dropWhile isspace s);
          ip = takeWhile isdigit t;
          (fp, r) = strtod_fraction ip (dropWhile isdigit t)
      in if number_word t \<or> hexadecimal t then (None, t)
         else if ip = [] \<and> fp = [] then (Some 0, s)
         else let (e, rest) = strtod_exponent r;
                  x = scale10 e (rat_of_nat (digits_val 0 ip) + frac_val fp)
              in (Some (if neg then - x else x), rest))"

text \<open>What is rounded to infinity, so that \<^verbatim>\<open>strtod\<close> returns \<^verbatim>\<open>HUGE_VAL\<close>.\<close>

definition too_large :: "double \<Rightarrow> bool" where
  "too_large q \<longleftrightarrow> 2 ^ 1024 - 2 ^ 970 \<le> \<bar>q\<bar>"

definition is_decimal :: "string \<Rightarrow> nat \<Rightarrow> bool" where
  "is_decimal s len \<longleftrightarrow>
     \<not> (len > 1 \<and> at_char s 0 = CHR ''0'' \<and> at_char s 1 \<noteq> CHR ''.'') \<and>
     \<not> (len > 2 \<and> at_char s 0 = CHR ''-'' \<and> at_char s 1 = CHR ''0'' \<and> at_char s 2 \<noteq> CHR ''.'') \<and>
     (\<forall>c\<in>set (take len s). c \<notin> {CHR ''x'', CHR ''X'', NUL})"

subsection \<open>Reading\<close>

text \<open>\<open>Stuck\<close> is neither: a bound on turns or calls has been reached, or the hash table is not what it should be.\<close>

datatype 'a answer = Stuck | Failure | Parsed 'a string

definition MAX_NESTING :: nat where
  "MAX_NESTING = 2048"

definition skip_whitespaces :: "string \<Rightarrow> string" where
  "skip_whitespaces s = dropWhile isspace s"

definition parse_string_value :: "string \<Rightarrow> JSON_Value answer" where
  "parse_string_value s = (case get_quoted_string s of None \<Rightarrow> Failure | Some (new_string, rest) \<Rightarrow> Parsed (JSONString new_string) rest)"

definition parse_boolean_value :: "string \<Rightarrow> JSON_Value answer" where
  "parse_boolean_value s =
     (if take 4 s = ''true'' then Parsed (JSONBoolean True) (drop 4 s)
      else if take 5 s = ''false'' then Parsed (JSONBoolean False) (drop 5 s)
      else Failure)"

definition parse_null_value :: "string \<Rightarrow> JSON_Value answer" where
  "parse_null_value s = (if take 4 s = ''null'' then Parsed JSONNull (drop 4 s) else Failure)"

definition parse_number_value :: "string \<Rightarrow> JSON_Value answer" where
  "parse_number_value s =
     (case strtod s of
        (None, _) \<Rightarrow> Failure
      | (Some number, rest) \<Rightarrow>
          if too_large number then Failure
          else if \<not> is_decimal s (length s - length rest) then Failure
          else Parsed (JSONNumber number) rest)"

text \<open>
  The loops of \<^verbatim>\<open>parse_object_value\<close> and \<^verbatim>\<open>parse_array_value\<close>, with the parser of a value as an argument
  and the number of turns they may take. Every turn but the last takes a comma from the text, so that
  a turn for every character and one more are enough.
\<close>

type_synonym value_parser = "nat \<Rightarrow> string \<Rightarrow> JSON_Value answer"

primrec parse_members ::
  "nat \<Rightarrow> value_parser \<Rightarrow> nat \<Rightarrow> JSON_Value json_object \<Rightarrow> string \<Rightarrow> JSON_Value json_object answer" where
  "parse_members 0 parse nesting output_object s = Stuck"
| "parse_members (Suc n) parse nesting output_object s =
     (if at_char s 0 = NUL then Parsed output_object s
      else (case get_quoted_string s of
              None \<Rightarrow> Failure
            | Some (new_key, s) \<Rightarrow>
                if length new_key \<noteq> length (cstr new_key) then Failure
                else let s = skip_whitespaces s in
                if at_char s 0 \<noteq> CHR '':'' then Failure
                else (case parse nesting (drop 1 s) of
                        Parsed new_value s \<Rightarrow>
                          (case json_object_add memory output_object new_key new_value of
                             None \<Rightarrow> Stuck
                           | Some (status, output_object) \<Rightarrow>
                               if \<not> status then Failure
                               else let s = skip_whitespaces s in
                               if at_char s 0 \<noteq> CHR '','' then Parsed output_object s
                               else let s = skip_whitespaces (drop 1 s) in
                               if at_char s 0 = CHR ''}'' then Parsed output_object s
                               else parse_members n parse nesting output_object s)
                      | Failure \<Rightarrow> Failure
                      | Stuck \<Rightarrow> Stuck)))"

primrec parse_items ::
  "nat \<Rightarrow> value_parser \<Rightarrow> nat \<Rightarrow> JSON_Value list \<Rightarrow> string \<Rightarrow> JSON_Value list answer" where
  "parse_items 0 parse nesting items s = Stuck"
| "parse_items (Suc n) parse nesting items s =
     (if at_char s 0 = NUL then Parsed items s
      else (case parse nesting s of
              Parsed new_value s \<Rightarrow>
                let items = items @ [new_value]; s = skip_whitespaces s in
                if at_char s 0 \<noteq> CHR '','' then Parsed items s
                else let s = skip_whitespaces (drop 1 s) in
                if at_char s 0 = CHR '']'' then Parsed items s
                else parse_items n parse nesting items s
            | Failure \<Rightarrow> Failure
            | Stuck \<Rightarrow> Stuck))"

definition parse_object_value :: "value_parser \<Rightarrow> nat \<Rightarrow> string \<Rightarrow> JSON_Value answer" where
  "parse_object_value parse nesting s =
     (if at_char s 0 \<noteq> CHR ''{'' then Failure
      else let s = skip_whitespaces (drop 1 s) in
        if at_char s 0 = CHR ''}'' then Parsed (JSONObject []) (drop 1 s)
        else (case parse_members (length s + 1) parse nesting (json_object_init 0) s of
                Parsed output_object s \<Rightarrow>
                  let s = skip_whitespaces s in
                  if at_char s 0 \<noteq> CHR ''}'' then Failure
                  else Parsed (JSONObject (entries output_object)) (drop 1 s)
              | Failure \<Rightarrow> Failure
              | Stuck \<Rightarrow> Stuck))"

text \<open>At the end the array is trimmed to its length, which fails for the length 0.\<close>

definition parse_array_value :: "value_parser \<Rightarrow> nat \<Rightarrow> string \<Rightarrow> JSON_Value answer" where
  "parse_array_value parse nesting s =
     (if at_char s 0 \<noteq> CHR ''['' then Failure
      else let s = skip_whitespaces (drop 1 s) in
        if at_char s 0 = CHR '']'' then Parsed (JSONArray []) (drop 1 s)
        else (case parse_items (length s + 1) parse nesting [] s of
                Parsed items s \<Rightarrow>
                  let s = skip_whitespaces s in
                  if at_char s 0 \<noteq> CHR '']'' \<or> length items = 0 then Failure
                  else Parsed (JSONArray items) (drop 1 s)
              | Failure \<Rightarrow> Failure
              | Stuck \<Rightarrow> Stuck))"

text \<open>
  The first argument bounds how deep the calls are within each other. As the nesting is limited, two more
  than \<^verbatim>\<open>MAX_NESTING\<close> are enough (\<open>parse_not_stuck\<close> below).
\<close>

primrec parse_value :: "nat \<Rightarrow> nat \<Rightarrow> string \<Rightarrow> JSON_Value answer" where
  "parse_value 0 nesting s = Stuck"
| "parse_value (Suc d) nesting s =
     (if nesting > MAX_NESTING then Failure
      else let s = skip_whitespaces s; c = at_char s 0 in
        if c = CHR ''{'' then parse_object_value (parse_value d) (nesting + 1) s
        else if c = CHR ''['' then parse_array_value (parse_value d) (nesting + 1) s
        else if c = QUOTE then parse_string_value s
        else if c = CHR ''f'' \<or> c = CHR ''t'' then parse_boolean_value s
        else if c = CHR ''-'' \<or> isdigit c then parse_number_value s
        else if c = CHR ''n'' then parse_null_value s
        else Failure)"

definition PARSE_DEPTH :: nat where
  "PARSE_DEPTH = MAX_NESTING + 2"

text \<open>The byte order mark is skipped; what stands behind the value is not looked at.\<close>

definition json_parse_string :: "string \<Rightarrow> JSON_Value option" where
  "json_parse_string s =
     (let s = (if take 3 s = [CHR 0xEF, CHR 0xBB, CHR 0xBF] then drop 3 s else s)
      in case parse_value PARSE_DEPTH 0 s of Parsed v rest \<Rightarrow> Some v | _ \<Rightarrow> None)"

text \<open>\<open>contents\<close>: what \<^verbatim>\<open>read_file\<close> gives, up to the first NUL; \<open>None\<close> when it cannot be read or is empty.\<close>

definition json_parse_file :: "string option \<Rightarrow> JSON_Value option" where
  "json_parse_file contents = (case contents of None \<Rightarrow> None | Some s \<Rightarrow> json_parse_string s)"

subsection \<open>Writing\<close>

definition indent :: "nat \<Rightarrow> string" where
  "indent level = concat (replicate level ''    '')"

definition pretty_only :: "bool \<Rightarrow> string \<Rightarrow> string" where
  "pretty_only is_pretty s = (if is_pretty then s else [])"

text \<open>
  \<open>fmt\<close> prints a number: the function or the format that was set, or \<^verbatim>\<open>"%1.17g"\<close>; \<open>None\<close> is a negative
  result of it.
\<close>

fun json_serialize_to_buffer_r :: "bool \<Rightarrow> (double \<Rightarrow> string option) \<Rightarrow> bool \<Rightarrow> nat \<Rightarrow> JSON_Value \<Rightarrow> string option"
  and serialize_items :: "bool \<Rightarrow> (double \<Rightarrow> string option) \<Rightarrow> bool \<Rightarrow> nat \<Rightarrow> JSON_Value list \<Rightarrow> string option"
  and serialize_members :: "bool \<Rightarrow> (double \<Rightarrow> string option) \<Rightarrow> bool \<Rightarrow> nat \<Rightarrow> (string \<times> JSON_Value) list \<Rightarrow> string option" where
  "json_serialize_to_buffer_r esc fmt pr level (JSONArray xs) =
     map_option (\<lambda>body. ''['' @ (if xs \<noteq> [] then pretty_only pr [CHR 0x0A] else []) @ body @
       (if xs \<noteq> [] then pretty_only pr (indent level) else []) @ '']'') (serialize_items esc fmt pr (level + 1) xs)"
| "json_serialize_to_buffer_r esc fmt pr level (JSONObject ms) =
     map_option (\<lambda>body. ''{'' @ (if ms \<noteq> [] then pretty_only pr [CHR 0x0A] else []) @ body @
       (if ms \<noteq> [] then pretty_only pr (indent level) else []) @ ''}'') (serialize_members esc fmt pr (level + 1) ms)"
| "json_serialize_to_buffer_r esc fmt pr level (JSONString s) = Some (json_serialize_string esc s)"
| "json_serialize_to_buffer_r esc fmt pr level (JSONBoolean b) = Some (if b then ''true'' else ''false'')"
| "json_serialize_to_buffer_r esc fmt pr level (JSONNumber num) = fmt num"
| "json_serialize_to_buffer_r esc fmt pr level JSONNull = Some ''null''"
| "serialize_items esc fmt pr level [] = Some []"
| "serialize_items esc fmt pr level (x # xs) =
     (case json_serialize_to_buffer_r esc fmt pr level x of
        None \<Rightarrow> None
      | Some t \<Rightarrow>
          map_option (\<lambda>body. pretty_only pr (indent level) @ t @ (if xs \<noteq> [] then '','' else []) @
            pretty_only pr [CHR 0x0A] @ body) (serialize_items esc fmt pr level xs))"
| "serialize_members esc fmt pr level [] = Some []"
| "serialize_members esc fmt pr level (m # ms) =
     (case json_serialize_to_buffer_r esc fmt pr level (snd m) of
        None \<Rightarrow> None
      | Some t \<Rightarrow>
          map_option (\<lambda>body. pretty_only pr (indent level) @ json_serialize_string esc (cstr (fst m)) @ '':'' @
            pretty_only pr '' '' @ t @ (if ms \<noteq> [] then '','' else []) @
            pretty_only pr [CHR 0x0A] @ body) (serialize_members esc fmt pr level ms))"

text \<open>The number of bytes a buffer needs, with the closing NUL; 0 for a failure.\<close>

definition json_serialization_size :: "bool \<Rightarrow> (double \<Rightarrow> string option) \<Rightarrow> JSON_Value \<Rightarrow> nat" where
  "json_serialization_size esc fmt v =
     (case json_serialize_to_buffer_r esc fmt False 0 v of None \<Rightarrow> 0 | Some t \<Rightarrow> length t + 1)"

definition json_serialization_size_pretty :: "bool \<Rightarrow> (double \<Rightarrow> string option) \<Rightarrow> JSON_Value \<Rightarrow> nat" where
  "json_serialization_size_pretty esc fmt v =
     (case json_serialize_to_buffer_r esc fmt True 0 v of None \<Rightarrow> 0 | Some t \<Rightarrow> length t + 1)"

definition json_serialize_to_buffer :: "bool \<Rightarrow> (double \<Rightarrow> string option) \<Rightarrow> JSON_Value \<Rightarrow> nat \<Rightarrow> string option" where
  "json_serialize_to_buffer esc fmt v buf_size =
     (let needed = json_serialization_size esc fmt v
      in if needed = 0 \<or> buf_size < needed then None else json_serialize_to_buffer_r esc fmt False 0 v)"

definition json_serialize_to_buffer_pretty :: "bool \<Rightarrow> (double \<Rightarrow> string option) \<Rightarrow> JSON_Value \<Rightarrow> nat \<Rightarrow> string option" where
  "json_serialize_to_buffer_pretty esc fmt v buf_size =
     (let needed = json_serialization_size_pretty esc fmt v
      in if needed = 0 \<or> buf_size < needed then None else json_serialize_to_buffer_r esc fmt True 0 v)"

definition json_serialize_to_string :: "bool \<Rightarrow> (double \<Rightarrow> string option) \<Rightarrow> JSON_Value \<Rightarrow> string option" where
  "json_serialize_to_string esc fmt v =
     (let n = json_serialization_size esc fmt v in if n = 0 then None else json_serialize_to_buffer esc fmt v n)"

definition json_serialize_to_string_pretty :: "bool \<Rightarrow> (double \<Rightarrow> string option) \<Rightarrow> JSON_Value \<Rightarrow> string option" where
  "json_serialize_to_string_pretty esc fmt v =
     (let n = json_serialization_size_pretty esc fmt v in if n = 0 then None else json_serialize_to_buffer_pretty esc fmt v n)"

subsection \<open>Reading ends\<close>

lemma skip_length: "length (skip_whitespaces s) \<le> length s"
  by (simp add: skip_whitespaces_def length_dropWhile_le)

lemma sign_of_length: "length (snd (sign_of s)) \<le> length s"
  by (cases s) auto

lemma at_char_take: "at_char s 0 = c \<Longrightarrow> c \<noteq> NUL \<Longrightarrow> 0 < length s"
  by (auto simp: at_char_def split: if_splits)

lemma strtod_exponent_length: "length (snd (strtod_exponent r)) \<le> length r"
proof -
  have "length (dropWhile isdigit (snd (sign_of (drop 1 r)))) \<le> length r"
    using length_dropWhile_le [of isdigit "snd (sign_of (drop 1 r))"] sign_of_length [of "drop 1 r"] by simp
  then show ?thesis by (auto simp: strtod_exponent_def Let_def split: prod.split)
qed

lemma strtod_length: "length (snd (strtod s)) \<le> length s"
proof -
  obtain neg t where t: "sign_of (dropWhile isspace s) = (neg, t)" by fastforce
  have lt: "length t \<le> length s"
    using sign_of_length [of "dropWhile isspace s"] length_dropWhile_le [of isspace s] t by simp
  obtain fp r where fr: "strtod_fraction (takeWhile isdigit t) (dropWhile isdigit t) = (fp, r)" by fastforce
  then have "length r \<le> length (dropWhile isdigit t)"
    using length_dropWhile_le [of isdigit "drop 1 (dropWhile isdigit t)"] by (auto simp: strtod_fraction_def split: if_splits)
  then have "length (snd (strtod_exponent r)) \<le> length s"
    using strtod_exponent_length [of r] length_dropWhile_le [of isdigit t] lt by simp
  then show ?thesis using t fr lt by (auto simp: strtod_def Let_def split: prod.split)
qed

definition no_longer :: "(string \<Rightarrow> 'a answer) \<Rightarrow> bool" where
  "no_longer parse \<longleftrightarrow> (\<forall>s v rest. parse s = Parsed v rest \<longrightarrow> length rest \<le> length s)"

lemma no_longerD: "no_longer parse \<Longrightarrow> parse s = Parsed v rest \<Longrightarrow> length rest \<le> length s"
  by (simp add: no_longer_def)

lemma quoted_shorter: "get_quoted_string s = Some (out, rest) \<Longrightarrow> length rest < length s"
  using quoted_string_fits_len(1) [of s out rest] by simp

lemma string_no_longer: "no_longer parse_string_value"
  by (auto simp: no_longer_def parse_string_value_def dest: quoted_shorter split: option.splits)

lemma boolean_no_longer: "no_longer parse_boolean_value"
  by (auto simp: no_longer_def parse_boolean_value_def split: if_splits)

lemma null_no_longer: "no_longer parse_null_value"
  by (auto simp: no_longer_def parse_null_value_def split: if_splits)

lemma number_no_longer: "no_longer parse_number_value"
  unfolding no_longer_def
proof (intro allI impI)
  fix s v rest assume "parse_number_value s = Parsed v rest"
  then have "snd (strtod s) = rest" by (auto simp: parse_number_value_def split: prod.splits option.splits if_splits)
  then show "length rest \<le> length s" using strtod_length [of s] by simp
qed

lemma items_no_longer:
  assumes pv: "no_longer (parse nesting)"
  shows "parse_items n parse nesting items s = Parsed vs rest \<Longrightarrow> length rest \<le> length s"
proof (induction n arbitrary: items s)
  case (Suc n)
  show ?case
  proof (cases "at_char s 0 = NUL")
    case False
    with Suc.prems obtain v s1 where v: "parse nesting s = Parsed v s1" by (auto split: answer.splits)
    let ?s2 = "skip_whitespaces s1" let ?s3 = "skip_whitespaces (drop 1 ?s2)"
    have "length ?s2 \<le> length s" "length ?s3 \<le> length s"
      using no_longerD [OF pv v] skip_length [of s1] skip_length [of "drop 1 ?s2"] by simp_all
    moreover have "rest = ?s2 \<or> rest = ?s3 \<or> parse_items n parse nesting (items @ [v]) ?s3 = Parsed vs rest"
      using Suc.prems False v by (auto simp: Let_def split: if_splits)
    ultimately show ?thesis using Suc.IH [of "items @ [v]" ?s3] by auto
  qed (use Suc.prems in simp)
qed simp

lemma members_no_longer:
  assumes pv: "no_longer (parse nesting)"
  shows "parse_members n parse nesting ob s = Parsed ob' rest \<Longrightarrow> length rest \<le> length s"
proof (induction n arbitrary: ob s)
  case (Suc n)
  show ?case
  proof (cases "at_char s 0 = NUL")
    case False
    with Suc.prems obtain key s0 v s1 where k: "get_quoted_string s = Some (key, s0)"
      "parse nesting (drop 1 (skip_whitespaces s0)) = Parsed v s1"
      by (auto simp: Let_def split: answer.splits option.splits if_splits)
    let ?s2 = "skip_whitespaces s1" let ?s3 = "skip_whitespaces (drop 1 ?s2)"
    have "length ?s2 \<le> length s" "length ?s3 \<le> length s"
      using quoted_shorter [OF k(1)] no_longerD [OF pv k(2)] skip_length [of s0] skip_length [of s1] skip_length [of "drop 1 ?s2"]
      by simp_all
    moreover have "rest = ?s2 \<or> rest = ?s3 \<or> (\<exists>ob1. parse_members n parse nesting ob1 ?s3 = Parsed ob' rest)"
      using Suc.prems False k by (auto simp: Let_def split: if_splits option.splits)
    moreover have "length rest \<le> length ?s3" if "parse_members n parse nesting ob1 ?s3 = Parsed ob' rest" for ob1
      by (rule Suc.IH [OF that])
    ultimately show ?thesis by (metis order_trans)
  qed (use Suc.prems in simp)
qed simp

lemma drop_skip_length: "length (drop n (skip_whitespaces s)) \<le> length s"
  using skip_length [of s] by simp

text \<open>What an array and an object that are read consist of.\<close>

lemma array_value_cases:
  assumes "parse_array_value parse nesting s = Parsed v rest"
  defines "s1 \<equiv> skip_whitespaces (drop 1 s)"
  shows "v = JSONArray [] \<and> rest = drop 1 s1 \<or>
    (\<exists>items s2. parse_items (length s1 + 1) parse nesting [] s1 = Parsed items s2 \<and> v = JSONArray items \<and>
       rest = drop 1 (skip_whitespaces s2))"
  using assms by (auto simp: parse_array_value_def Let_def simp del: parse_items.simps split: if_splits answer.splits)

lemma object_value_cases:
  assumes "parse_object_value parse nesting s = Parsed v rest"
  defines "s1 \<equiv> skip_whitespaces (drop 1 s)"
  shows "v = JSONObject [] \<and> rest = drop 1 s1 \<or>
    (\<exists>ob s2. parse_members (length s1 + 1) parse nesting (json_object_init 0) s1 = Parsed ob s2 \<and> v = JSONObject (entries ob) \<and>
       rest = drop 1 (skip_whitespaces s2))"
  using assms by (auto simp: parse_object_value_def Let_def simp del: parse_members.simps split: if_splits answer.splits)

lemma array_no_longer:
  assumes pv: "no_longer (parse nesting)"
  shows "no_longer (parse_array_value parse nesting)"
  unfolding no_longer_def
proof (intro allI impI)
  fix s v rest assume p: "parse_array_value parse nesting s = Parsed v rest"
  let ?t = "skip_whitespaces (drop 1 s)"
  have t: "length ?t \<le> length s" using skip_length [of "drop 1 s"] by simp
  from array_value_cases [OF p] show "length rest \<le> length s"
  proof
    assume "\<exists>r s2. parse_items (length ?t + 1) parse nesting [] ?t = Parsed r s2 \<and> v = JSONArray r \<and>
      rest = drop 1 (skip_whitespaces s2)"
    then obtain r s2 where "parse_items (length ?t + 1) parse nesting [] ?t = Parsed r s2" "rest = drop 1 (skip_whitespaces s2)" by blast
    then show ?thesis using items_no_longer [of parse, OF pv] drop_skip_length [of 1 s2] t by fastforce
  qed (use t in simp)
qed

lemma object_no_longer:
  assumes pv: "no_longer (parse nesting)"
  shows "no_longer (parse_object_value parse nesting)"
  unfolding no_longer_def
proof (intro allI impI)
  fix s v rest assume p: "parse_object_value parse nesting s = Parsed v rest"
  let ?t = "skip_whitespaces (drop 1 s)"
  have t: "length ?t \<le> length s" using skip_length [of "drop 1 s"] by simp
  from object_value_cases [OF p] show "length rest \<le> length s"
  proof
    assume "\<exists>r s2. parse_members (length ?t + 1) parse nesting (json_object_init 0) ?t = Parsed r s2 \<and> v = JSONObject (entries r) \<and>
      rest = drop 1 (skip_whitespaces s2)"
    then obtain r s2 where "parse_members (length ?t + 1) parse nesting (json_object_init 0) ?t = Parsed r s2" "rest = drop 1 (skip_whitespaces s2)" by blast
    then show ?thesis using members_no_longer [of parse, OF pv] drop_skip_length [of 1 s2] t by fastforce
  qed (use t in simp)
qed

lemma value_no_longer: "no_longer (parse_value d nesting)"
proof (induction d arbitrary: nesting)
  case (Suc d)
  have obj: "no_longer (parse_object_value (parse_value d) (nesting + 1))" by (rule object_no_longer) (rule Suc.IH)
  have arr: "no_longer (parse_array_value (parse_value d) (nesting + 1))" by (rule array_no_longer) (rule Suc.IH)
  show ?case unfolding no_longer_def
  proof (intro allI impI)
    fix s v rest assume p: "parse_value (Suc d) nesting s = Parsed v rest"
    let ?s = "skip_whitespaces s"
    from p have "parse_object_value (parse_value d) (nesting + 1) ?s = Parsed v rest \<or>
        parse_array_value (parse_value d) (nesting + 1) ?s = Parsed v rest \<or> parse_string_value ?s = Parsed v rest \<or>
        parse_boolean_value ?s = Parsed v rest \<or> parse_number_value ?s = Parsed v rest \<or> parse_null_value ?s = Parsed v rest"
      by (auto simp: Let_def split: if_splits)
    then have "length rest \<le> length ?s"
      using no_longerD [OF obj] no_longerD [OF arr] no_longerD [OF string_no_longer] no_longerD [OF boolean_no_longer]
        no_longerD [OF number_no_longer] no_longerD [OF null_no_longer] by blast
    then show "length rest \<le> length s" using skip_length [of s] by simp
  qed
qed (simp add: no_longer_def)

text \<open>The loops come to an end when they may take a turn for every character and one more.\<close>

lemma at_char_Suc: "at_char s 0 = c \<Longrightarrow> c \<noteq> NUL \<Longrightarrow> length (drop 1 s) < length s"
  by (cases s) auto

lemma items_not_stuck:
  assumes pv: "no_longer (parse nesting)" "\<And>s. parse nesting s \<noteq> Stuck"
  shows "length s < n \<Longrightarrow> parse_items n parse nesting items s \<noteq> Stuck"
proof (induction n arbitrary: items s)
  case (Suc n)
  show ?case
  proof (cases "parse nesting s")
    case (Parsed v s1)
    let ?s2 = "skip_whitespaces s1" let ?s3 = "skip_whitespaces (drop 1 ?s2)"
    have "length ?s3 < n" if "at_char ?s2 0 = CHR '',''"
      using at_char_Suc [OF that] skip_length [of "drop 1 ?s2"] skip_length [of s1] no_longerD [OF pv(1) Parsed] Suc.prems by simp
    then show ?thesis using Suc.IH [of ?s3 "items @ [v]"] Parsed by (auto simp: Let_def)
  qed (use pv(2) in auto)
qed simp

lemma add_not_undefined:
  assumes "object_ok ob"
  obtains r ob' where "json_object_add memory ob name v = Some (r, ob')" "object_ok ob'"
    "r \<Longrightarrow> entries ob' = entries ob @ [(name, v)] \<and> name \<notin> fst ` set (entries ob)"
  using add_entries [OF assms, of memory name v] by (auto simp: memory_def)

lemma members_not_stuck:
  assumes pv: "no_longer (parse nesting)" "\<And>s. parse nesting s \<noteq> Stuck"
  shows "length s < n \<Longrightarrow> object_ok ob \<Longrightarrow> parse_members n parse nesting ob s \<noteq> Stuck"
proof (induction n arbitrary: ob s)
  case (Suc n)
  show ?case
  proof (cases "get_quoted_string s")
    case (Some ks)
    obtain key s0 where ks: "ks = (key, s0)" by (cases ks)
    let ?s0 = "drop 1 (skip_whitespaces s0)"
    show ?thesis
    proof (cases "parse nesting ?s0")
      case (Parsed v s1)
      let ?s2 = "skip_whitespaces s1" let ?s3 = "skip_whitespaces (drop 1 ?s2)"
      obtain r ob1 where add: "json_object_add memory ob key v = Some (r, ob1)" "object_ok ob1"
        using add_not_undefined [OF Suc.prems(2)] by metis
      have "length ?s3 < n" if "at_char ?s2 0 = CHR '',''"
        using at_char_Suc [OF that] skip_length [of "drop 1 ?s2"] skip_length [of s1] no_longerD [OF pv(1) Parsed]
          quoted_shorter [of s key s0] drop_skip_length [of 1 s0] Some ks Suc.prems(1) by simp
      then show ?thesis using Suc.IH [of ?s3 ob1] Parsed Some ks add by (auto simp: Let_def)
    qed (use pv(2) Some ks in \<open>auto simp: Let_def\<close>)
  qed auto
qed simp

lemma object_ok_0: "object_ok (json_object_init 0 :: 'v json_object)" "entries (json_object_init 0 :: 'v json_object) = []"
  by (rule object_ok_init; simp)+

lemma array_not_stuck:
  assumes "no_longer (parse nesting)" "\<And>s. parse nesting s \<noteq> Stuck"
  shows "parse_array_value parse nesting s \<noteq> Stuck"
  using items_not_stuck [of parse nesting "skip_whitespaces (drop 1 s)" "length (skip_whitespaces (drop 1 s)) + 1" "[]"] assms
  by (auto simp: parse_array_value_def Let_def simp del: parse_items.simps split: answer.splits)

lemma object_not_stuck:
  assumes "no_longer (parse nesting)" "\<And>s. parse nesting s \<noteq> Stuck"
  shows "parse_object_value parse nesting s \<noteq> Stuck"
  using members_not_stuck [of parse nesting "skip_whitespaces (drop 1 s)" "length (skip_whitespaces (drop 1 s)) + 1" "json_object_init 0"]
    assms object_ok_0
  by (auto simp: parse_object_value_def Let_def simp del: parse_members.simps split: answer.splits)

lemma parse_not_stuck: "0 < d \<Longrightarrow> MAX_NESTING + 2 \<le> d + nesting \<Longrightarrow> parse_value d nesting s \<noteq> Stuck"
proof (induction d arbitrary: nesting s)
  case (Suc d)
  show ?case
  proof (cases "nesting > MAX_NESTING")
    case False
    then have "parse_value d (nesting + 1) s \<noteq> Stuck" for s using Suc by simp
    then have "parse_object_value (parse_value d) (nesting + 1) s \<noteq> Stuck" "parse_array_value (parse_value d) (nesting + 1) s \<noteq> Stuck" for s
      using object_not_stuck array_not_stuck value_no_longer by blast+
    then show ?thesis
      by (auto simp: Let_def parse_string_value_def parse_boolean_value_def parse_null_value_def parse_number_value_def
          split: option.splits prod.splits)
  qed simp
qed simp

text \<open>
  C34. The parser ends on every text. The calls go no deeper than the limit of the nesting, and no loop
  takes more turns than there are characters: the parser answers with a value or a failure, whatever the text is.
\<close>

theorem parse_terminates: "parse_value PARSE_DEPTH 0 s = Failure \<or> (\<exists>v rest. parse_value PARSE_DEPTH 0 s = Parsed v rest \<and> length rest \<le> length s)"
proof (cases "parse_value PARSE_DEPTH 0 s")
  case (Parsed v rest)
  then show ?thesis using no_longerD [OF value_no_longer Parsed] by simp
qed (use parse_not_stuck [of PARSE_DEPTH 0 s] in \<open>simp_all add: PARSE_DEPTH_def\<close>)

subsection \<open>What is read is well-formed\<close>

text \<open>Names are C strings and all different; values go no deeper than \<open>n\<close> levels.\<close>

fun value_ok :: "nat \<Rightarrow> JSON_Value \<Rightarrow> bool" where
  "value_ok n (JSONArray xs) \<longleftrightarrow> xs = [] \<or> 0 < n \<and> (\<forall>x\<in>set xs. value_ok (n - 1) x)"
| "value_ok n (JSONObject ms) \<longleftrightarrow>
     distinct (map fst ms) \<and> length ms \<le> MAX_MEMBERS \<and>
     (ms = [] \<or> 0 < n \<and> (\<forall>m\<in>set ms. NUL \<notin> set (fst m) \<and> value_ok (n - 1) (snd m)))"
| "value_ok n v \<longleftrightarrow> True"

lemma items_wellformed:
  assumes pv: "\<forall>s v rest. parse nesting s = Parsed v rest \<longrightarrow> P v"
  shows "parse_items n parse nesting items s = Parsed vs rest \<Longrightarrow> \<forall>v\<in>set items. P v \<Longrightarrow> \<forall>v\<in>set vs. P v"
proof (induction n arbitrary: items s)
  case (Suc n)
  show ?case
  proof (cases "at_char s 0 = NUL")
    case False
    with Suc.prems(1) obtain v s1 where v: "parse nesting s = Parsed v s1" by (auto split: answer.splits)
    let ?s2 = "skip_whitespaces s1" let ?s3 = "skip_whitespaces (drop 1 ?s2)"
    have "vs = items @ [v] \<or> parse_items n parse nesting (items @ [v]) ?s3 = Parsed vs rest"
      using Suc.prems(1) False v by (auto simp: Let_def split: if_splits)
    moreover have "P v" using pv v by blast
    ultimately show ?thesis using Suc.IH [of "items @ [v]" ?s3] Suc.prems(2) by auto
  qed (use Suc.prems in simp)
qed simp

lemma cstr_full: "length s = length (cstr s) \<Longrightarrow> NUL \<notin> set s"
  by (induction s) (auto split: if_splits)

lemma members_wellformed:
  assumes pv: "\<forall>s v rest. parse nesting s = Parsed v rest \<longrightarrow> P v"
  shows "parse_members n parse nesting ob s = Parsed ob' rest \<Longrightarrow> object_ok ob \<Longrightarrow>
    \<forall>m\<in>set (entries ob). NUL \<notin> set (fst m) \<and> P (snd m) \<Longrightarrow>
    object_ok ob' \<and> (\<forall>m\<in>set (entries ob'). NUL \<notin> set (fst m) \<and> P (snd m))"
proof (induction n arbitrary: ob s)
  case (Suc n)
  show ?case
  proof (cases "at_char s 0 = NUL")
    case False
    with Suc.prems(1) obtain key s0 v s1 where k: "get_quoted_string s = Some (key, s0)" "length key = length (cstr key)"
      "parse nesting (drop 1 (skip_whitespaces s0)) = Parsed v s1"
      by (auto simp: Let_def split: answer.splits option.splits if_splits)
    obtain r ob1 where add: "json_object_add memory ob key v = Some (r, ob1)" "object_ok ob1"
      "r \<Longrightarrow> entries ob1 = entries ob @ [(key, v)] \<and> key \<notin> fst ` set (entries ob)"
      using add_not_undefined [OF Suc.prems(2)] by metis
    let ?s2 = "skip_whitespaces s1" let ?s3 = "skip_whitespaces (drop 1 ?s2)"
    have "r \<and> (ob' = ob1 \<or> parse_members n parse nesting ob1 ?s3 = Parsed ob' rest)"
      using Suc.prems(1) False k add(1) by (auto simp: Let_def split: if_splits)
    moreover have "P v" using pv k(3) by blast
    then have "\<forall>m\<in>set (entries ob1). NUL \<notin> set (fst m) \<and> P (snd m)" if r
      using add(3) [OF that] Suc.prems(3) cstr_full [OF k(2)] by auto
    ultimately show ?thesis using Suc.IH [of ob1 ?s3] add(2) by auto
  qed (use Suc.prems in simp)
qed simp

lemma array_wellformed:
  assumes "parse_array_value parse nesting s = Parsed v rest" "\<forall>s v rest. parse nesting s = Parsed v rest \<longrightarrow> P v"
  shows "\<exists>xs. v = JSONArray xs \<and> (\<forall>x\<in>set xs. P x)"
proof -
  have "v = JSONArray [] \<or> (\<exists>n s1 xs rest. parse_items n parse nesting [] s1 = Parsed xs rest \<and> v = JSONArray xs)"
    using array_value_cases [OF assms(1)] by blast
  then show ?thesis using items_wellformed [where parse = parse and nesting = nesting and P = P, OF assms(2)] by fastforce
qed

lemma object_wellformed:
  assumes "parse_object_value parse nesting s = Parsed v rest" "\<forall>s v rest. parse nesting s = Parsed v rest \<longrightarrow> P v"
  shows "\<exists>ms. v = JSONObject ms \<and> distinct (map fst ms) \<and> length ms \<le> MAX_MEMBERS \<and> (\<forall>m\<in>set ms. NUL \<notin> set (fst m) \<and> P (snd m))"
proof -
  have "v = JSONObject [] \<or> (\<exists>n s1 ob rest. parse_members n parse nesting (json_object_init 0) s1 = Parsed ob rest \<and> v = JSONObject (entries ob))"
    using object_value_cases [OF assms(1)] by blast
  then show ?thesis
  proof
    assume "\<exists>n s1 ob rest. parse_members n parse nesting (json_object_init 0) s1 = Parsed ob rest \<and> v = JSONObject (entries ob)"
    then obtain n s1 ob rest' where m: "parse_members n parse nesting (json_object_init 0) s1 = Parsed ob rest'" "v = JSONObject (entries ob)"
      by blast
    have "object_ok ob \<and> (\<forall>m\<in>set (entries ob). NUL \<notin> set (fst m) \<and> P (snd m))"
      by (rule members_wellformed [OF assms(2) m(1) object_ok_0(1)]) (simp add: object_ok_0)
    then show ?thesis using m(2) ob.items_distinct members_bounded by blast
  qed simp
qed

lemma parse_wellformed: "parse_value d nesting s = Parsed v rest \<Longrightarrow> value_ok (MAX_NESTING - nesting) v"
proof (induction d arbitrary: nesting s v rest)
  case (Suc d)
  have sub: "\<forall>s v rest. parse_value d (nesting + 1) s = Parsed v rest \<longrightarrow> nesting < MAX_NESTING \<and> value_ok (MAX_NESTING - (nesting + 1)) v"
  proof (intro allI impI)
    fix s v rest assume p: "parse_value d (nesting + 1) s = Parsed v rest"
    then have "nesting < MAX_NESTING" by (cases d) (auto split: if_splits)
    with Suc.IH [OF p] show "nesting < MAX_NESTING \<and> value_ok (MAX_NESTING - (nesting + 1)) v" by simp
  qed
  let ?s = "skip_whitespaces s"
  from Suc.prems consider "parse_object_value (parse_value d) (nesting + 1) ?s = Parsed v rest"
    | "parse_array_value (parse_value d) (nesting + 1) ?s = Parsed v rest"
    | "parse_string_value ?s = Parsed v rest \<or> parse_boolean_value ?s = Parsed v rest \<or> parse_number_value ?s = Parsed v rest \<or>
       parse_null_value ?s = Parsed v rest"
    by (auto simp: Let_def split: if_splits)
  then show ?case
  proof cases
    case 1
    from object_wellformed [OF this sub] obtain ms where ms: "v = JSONObject ms" "distinct (map fst ms)" "length ms \<le> MAX_MEMBERS"
      "\<forall>m\<in>set ms. NUL \<notin> set (fst m) \<and> nesting < MAX_NESTING \<and> value_ok (MAX_NESTING - (nesting + 1)) (snd m)" by blast
    then show ?thesis by (cases ms) auto
  next
    case 2
    from array_wellformed [OF this sub] obtain xs where xs: "v = JSONArray xs"
      "\<forall>x\<in>set xs. nesting < MAX_NESTING \<and> value_ok (MAX_NESTING - (nesting + 1)) x" by blast
    then show ?thesis by (cases xs) auto
  next
    case 3
    then show ?thesis
      by (auto simp: parse_string_value_def parse_boolean_value_def parse_number_value_def parse_null_value_def
          split: option.splits prod.splits if_splits)
  qed
qed simp

text \<open>
  C35. Whatever the text is, a value that is read from it is well-formed: the names of an object are C strings
  without repetition, so that every lookup finds its member, and no value lies deeper than the limit of the nesting.
\<close>

theorem parsed_is_wellformed:
  assumes "json_parse_string s = Some v"
  shows "value_ok MAX_NESTING v"
proof -
  have "\<exists>s rest. parse_value PARSE_DEPTH 0 s = Parsed v rest"
    using assms by (auto simp: json_parse_string_def Let_def split: answer.splits)
  then show ?thesis using parse_wellformed [of PARSE_DEPTH 0] by auto
qed

theorem parsed_is_wellformed_witness: "\<exists>v. json_parse_string ''[null, true]'' = Some v \<and> value_ok MAX_NESTING v"
proof -
  have depth: "PARSE_DEPTH = Suc (Suc MAX_NESTING)" "\<not> MAX_NESTING < Suc 0" "0 < MAX_NESTING" by (simp_all add: PARSE_DEPTH_def MAX_NESTING_def)
  have "json_parse_string ''[null, true]'' = Some (JSONArray [JSONNull, JSONBoolean True])"
    by (simp add: json_parse_string_def depth parse_array_value_def
        parse_null_value_def parse_boolean_value_def skip_whitespaces_def isspace_def isdigit_def)
  then show ?thesis using parsed_is_wellformed by blast
qed

subsection \<open>What is written is read back\<close>

definition delimiter :: "string \<Rightarrow> bool" where
  "delimiter s \<longleftrightarrow> s = [] \<or> hd s \<in> {CHR '','', CHR '']'', CHR ''}'', CHR 0x0A}"

text \<open>A number that is printed so that the parser reads it again.\<close>

definition prints :: "(double \<Rightarrow> string option) \<Rightarrow> double \<Rightarrow> bool" where
  "prints fmt q \<longleftrightarrow> (\<exists>t. fmt q = Some t \<and> t \<noteq> [] \<and> (hd t = CHR ''-'' \<or> isdigit (hd t)) \<and>
     (\<forall>rest. delimiter rest \<longrightarrow> parse_number_value (t @ rest) = Parsed (JSONNumber q) rest))"

fun numbers :: "JSON_Value \<Rightarrow> double set" where
  "numbers (JSONNumber q) = {q}"
| "numbers (JSONArray xs) = (\<Union>x\<in>set xs. numbers x)"
| "numbers (JSONObject ms) = (\<Union>m\<in>set ms. numbers (snd m))"
| "numbers v = {}"

lemma skip_blank [simp]: "isspace c \<Longrightarrow> skip_whitespaces (c # s) = skip_whitespaces s"
  by (simp add: skip_whitespaces_def)

lemma skip_done [simp]: "\<not> isspace c \<Longrightarrow> skip_whitespaces (c # s) = c # s"
  by (simp add: skip_whitespaces_def)

lemma skip_blanks [simp]: "skip_whitespaces (pretty_only pr (indent n) @ s) = skip_whitespaces s"
proof -
  have "list_all isspace (indent n)" by (induction n) (simp_all add: indent_def isspace_def)
  then have "dropWhile isspace (indent n @ s) = dropWhile isspace s" by (simp add: list_all_iff)
  then show ?thesis by (simp add: pretty_only_def skip_whitespaces_def)
qed

lemma skip_newline [simp]: "skip_whitespaces (pretty_only pr [CHR 0x0A] @ s) = skip_whitespaces s"
  "skip_whitespaces (pretty_only pr '' '' @ s) = skip_whitespaces s"
  by (simp_all add: pretty_only_def isspace_def)

definition first_ok :: "string \<Rightarrow> bool" where
  "first_ok t \<longleftrightarrow> t \<noteq> [] \<and> \<not> isspace (hd t) \<and> hd t \<notin> {NUL, CHR '']'', CHR ''}'', CHR '',''}"

lemma skip_first: "first_ok t \<Longrightarrow> skip_whitespaces (t @ s) = t @ s"
  by (cases t) (auto simp: first_ok_def)

lemma digit_first: "isdigit c \<Longrightarrow> \<not> isspace c \<and> c \<notin> {NUL, CHR '']'', CHR ''}'', CHR '','', CHR ''{'', CHR ''['', QUOTE, CHR ''f'', CHR ''t''}"
  by (auto simp: isdigit_def isspace_def Let_def)

lemma serialize_first:
  assumes "json_serialize_to_buffer_r esc fmt pr level v = Some t" "\<forall>q\<in>numbers v. prints fmt q"
  shows "first_ok t"
  using assms digit_first
  by (cases v) (auto simp: first_ok_def isspace_def json_serialize_string_def prints_def split: if_splits)

lemma items_written:
  fixes tail :: string and l :: nat
  assumes "\<forall>x\<in>set xs. \<forall>t. json_serialize_to_buffer_r esc fmt pr level x = Some t \<longrightarrow>
      first_ok t \<and> (\<forall>rest. delimiter rest \<longrightarrow> parse nesting (t @ rest) = Parsed x rest)"
    and "serialize_items esc fmt pr level xs = Some body" "xs \<noteq> []"
  defines "s \<equiv> skip_whitespaces (body @ pretty_only pr (indent l) @ CHR '']'' # tail)"
  shows "length xs \<le> length s \<and> first_ok s \<and> (\<forall>n acc. length xs \<le> n \<longrightarrow>
     (\<exists>s2. parse_items n parse nesting acc s = Parsed (acc @ xs) s2 \<and> skip_whitespaces s2 = CHR '']'' # tail))"
  using assms(1-3) unfolding s_def
proof (induction xs arbitrary: body)
  case (Cons x xs)
  let ?E = "pretty_only pr (indent l) @ CHR '']'' # tail" let ?nl = "pretty_only pr [CHR 0x0A]"
  obtain t b where tb: "json_serialize_to_buffer_r esc fmt pr level x = Some t" "serialize_items esc fmt pr level xs = Some b"
    "body = pretty_only pr (indent level) @ t @ (if xs \<noteq> [] then '','' else []) @ ?nl @ b"
    using Cons.prems(2) by (auto split: option.splits)
  have t: "first_ok t" and p: "\<And>rest. delimiter rest \<Longrightarrow> parse nesting (t @ rest) = Parsed x rest"
    using Cons.prems(1) tb(1) by auto
  let ?R = "(if xs \<noteq> [] then '','' else []) @ ?nl @ b @ ?E"
  have s: "skip_whitespaces (body @ ?E) = t @ ?R" unfolding tb(3) using skip_first [OF t] by simp
  have "b = []" if "xs = []" using tb(2) that by simp
  then have del: "delimiter ?R" by (auto simp: delimiter_def pretty_only_def)
  have c: "at_char (t @ ?R) 0 \<noteq> NUL" "1 \<le> length t" using t by (cases t; simp add: first_ok_def)+
  have ns: "\<not> isspace (CHR '','')" "\<not> isspace (CHR '']'')" by (simp_all add: isspace_def)
  show ?case
  proof (cases "xs = []")
    case True
    then have b: "b = []" using tb(2) by simp
    have R: "?R = ?nl @ ?E" "skip_whitespaces ?R = CHR '']'' # tail" using True b ns by simp_all
    have "\<exists>s2. parse_items n parse nesting acc (t @ ?R) = Parsed (acc @ [x]) s2 \<and> skip_whitespaces s2 = CHR '']'' # tail" if "1 \<le> n" for n acc
      using that c p [OF del] R ns by (cases n) (auto simp: Let_def)
    then show ?thesis unfolding s using True c(2) t by (simp add: first_ok_def)
  next
    case False
    let ?s = "skip_whitespaces (b @ ?E)"
    have IH: "length xs \<le> length ?s" "first_ok ?s" "\<And>n acc. length xs \<le> n \<Longrightarrow>
        \<exists>s2. parse_items n parse nesting acc ?s = Parsed (acc @ xs) s2 \<and> skip_whitespaces s2 = CHR '']'' # tail"
      using Cons.IH [OF _ tb(2) False] Cons.prems(1) by auto
    have R: "skip_whitespaces ?R = ?R" "at_char ?R 0 = CHR '',''" "skip_whitespaces (drop 1 ?R) = ?s"
      using False ns by simp_all
    have s1: "at_char ?s 0 \<noteq> CHR '']''" using IH(2) by (cases ?s) (auto simp: first_ok_def)
    have "\<exists>s2. parse_items n parse nesting acc (t @ ?R) = Parsed (acc @ x # xs) s2 \<and> skip_whitespaces s2 = CHR '']'' # tail"
      if "length (x # xs) \<le> n" for n acc
    proof -
      from that obtain m where n: "n = Suc m" "length xs \<le> m" by (cases n) auto
      have "parse_items n parse nesting acc (t @ ?R) = parse_items m parse nesting (acc @ [x]) ?s"
        unfolding n(1) parse_items.simps p [OF del] answer.case Let_def R using c(1) s1 by simp
      then show ?thesis using IH(3) [OF n(2), of "acc @ [x]"] by simp
    qed
    moreover have "length ?s \<le> length (?nl @ b @ ?E)"
      using skip_length [of "b @ ?E"] by simp
    ultimately show ?thesis unfolding s using c(2) t IH(1) by (simp add: first_ok_def)
  qed
qed simp

lemma members_written:
  fixes tail :: string and l :: nat
  assumes "\<forall>m\<in>set ms. \<forall>t. json_serialize_to_buffer_r esc fmt pr level (snd m) = Some t \<longrightarrow>
      first_ok t \<and> (\<forall>rest. delimiter rest \<longrightarrow> parse nesting (pretty_only pr '' '' @ t @ rest) = Parsed (snd m) rest)"
    and "serialize_members esc fmt pr level ms = Some body" "ms \<noteq> []"
    and "object_ok ob" "distinct (map fst (entries ob @ ms))" "length (entries ob @ ms) \<le> MAX_MEMBERS"
    and "\<forall>m\<in>set ms. NUL \<notin> set (fst m)"
  defines "s \<equiv> skip_whitespaces (body @ pretty_only pr (indent l) @ CHR ''}'' # tail)"
  shows "length ms \<le> length s \<and> at_char s 0 = QUOTE \<and> (\<forall>n. length ms \<le> n \<longrightarrow>
     (\<exists>ob' s2. parse_members n parse nesting ob s = Parsed ob' s2 \<and> object_ok ob' \<and> entries ob' = entries ob @ ms \<and>
        skip_whitespaces s2 = CHR ''}'' # tail))"
  using assms(1-7) unfolding s_def
proof (induction ms arbitrary: body ob)
  case (Cons m ms)
  obtain key v where m: "m = (key, v)" by (cases m)
  let ?E = "pretty_only pr (indent l) @ CHR ''}'' # tail" let ?nl = "pretty_only pr [CHR 0x0A]"
  let ?key = "json_serialize_string esc key"
  have key: "NUL \<notin> set key" "cstr key = key" using Cons.prems(7) m cstr_id by auto
  obtain t b where tb: "json_serialize_to_buffer_r esc fmt pr level v = Some t" "serialize_members esc fmt pr level ms = Some b"
    "body = pretty_only pr (indent level) @ ?key @ '':'' @ pretty_only pr '' '' @ t @ (if ms \<noteq> [] then '','' else []) @ ?nl @ b"
    using Cons.prems(2) m key by (auto split: option.splits)
  let ?R = "(if ms \<noteq> [] then '','' else []) @ ?nl @ b @ ?E"
  let ?T = "pretty_only pr '' '' @ t @ ?R"
  have p: "\<And>rest. delimiter rest \<Longrightarrow> parse nesting (pretty_only pr '' '' @ t @ rest) = Parsed v rest"
    using Cons.prems(1) tb(1) m by auto
  obtain ks where ks: "?key = QUOTE # ks" by (simp add: json_serialize_string_def)
  have ns: "\<not> isspace QUOTE" "\<not> isspace (CHR '','')" "\<not> isspace (CHR ''}'')" "\<not> isspace (CHR '':'')" by (simp_all add: isspace_def)
  have s: "skip_whitespaces (body @ ?E) = ?key @ '':'' @ ?T" unfolding tb(3) using ks ns by simp
  have q: "get_quoted_string (?key @ '':'' @ ?T) = Some (key, '':'' @ ?T)" by (rule quoted_string_written)
  have c: "at_char (?key @ '':'' @ ?T) 0 = QUOTE" using ks by simp
  have "b = []" if "ms = []" using tb(2) that by simp
  then have del: "delimiter ?R" by (auto simp: delimiter_def pretty_only_def)
  have new: "key \<notin> fst ` set (entries ob)" "length (entries ob) < MAX_MEMBERS" using Cons.prems(5,6) m by auto
  obtain ob1 where ob1: "json_object_add memory ob key v = Some (True, ob1)" "object_ok ob1" "entries ob1 = entries ob @ [(key, v)]"
    using ob.add_new [OF Cons.prems(4) new] by blast
  have colon: "skip_whitespaces ('':'' @ ?T) = '':'' @ ?T" "drop 1 ('':'' @ ?T) = ?T" "at_char ('':'' @ ?T) 0 = CHR '':''"
    using ns by simp_all
  have step: "parse_members (Suc n) parse nesting ob (?key @ '':'' @ ?T) =
      (let s = skip_whitespaces ?R in
       if at_char s 0 \<noteq> CHR '','' then Parsed ob1 s
       else let s = skip_whitespaces (drop 1 s) in
       if at_char s 0 = CHR ''}'' then Parsed ob1 s
       else parse_members n parse nesting ob1 s)" for n
    unfolding parse_members.simps q option.case prod.case Let_def colon p [OF del] answer.case ob1(1) using c key(2) by simp
  show ?case
  proof (cases "ms = []")
    case True
    then have b: "b = []" using tb(2) by simp
    have R: "?R = ?nl @ ?E" "skip_whitespaces ?R = CHR ''}'' # tail" using True b ns by simp_all
    have "\<exists>ob' s2. parse_members n parse nesting ob (?key @ '':'' @ ?T) = Parsed ob' s2 \<and> object_ok ob' \<and>
        entries ob' = entries ob @ [m] \<and> skip_whitespaces s2 = CHR ''}'' # tail" if "1 \<le> n" for n
    proof -
      from that obtain k where n: "n = Suc k" by (cases n) auto
      show ?thesis unfolding n step Let_def R(2) using ob1 m ns by simp
    qed
    then show ?thesis unfolding s using True c ks by simp
  next
    case False
    let ?s = "skip_whitespaces (b @ ?E)"
    have IH: "length ms \<le> length ?s" "at_char ?s 0 = QUOTE" "\<And>n. length ms \<le> n \<Longrightarrow>
        \<exists>ob' s2. parse_members n parse nesting ob1 ?s = Parsed ob' s2 \<and> object_ok ob' \<and> entries ob' = entries ob1 @ ms \<and>
          skip_whitespaces s2 = CHR ''}'' # tail"
      using Cons.IH [OF _ tb(2) False ob1(2)] Cons.prems(1,5,6,7) ob1(3) m by auto
    have R: "skip_whitespaces ?R = ?R" "at_char ?R 0 = CHR '',''" "skip_whitespaces (drop 1 ?R) = ?s"
      using False ns by simp_all
    have "\<exists>ob' s2. parse_members n parse nesting ob (?key @ '':'' @ ?T) = Parsed ob' s2 \<and> object_ok ob' \<and>
        entries ob' = entries ob @ m # ms \<and> skip_whitespaces s2 = CHR ''}'' # tail" if "length (m # ms) \<le> n" for n
    proof -
      from that obtain k where n: "n = Suc k" "length ms \<le> k" by (cases n) auto
      have "parse_members n parse nesting ob (?key @ '':'' @ ?T) = parse_members k parse nesting ob1 ?s"
        unfolding n(1) step Let_def R using IH(2) by simp
      then show ?thesis using IH(3) [OF n(2)] ob1(3) m by simp
    qed
    moreover have "length ?s \<le> length (?nl @ b @ ?E)" using skip_length [of "b @ ?E"] by simp
    ultimately show ?thesis unfolding s using c ks IH(1) by simp
  qed
qed simp

lemma space_irrelevant: "parse_value d nesting (pretty_only pr '' '' @ s) = parse_value d nesting s"
  by (cases d) simp_all

lemma value_written:
  "json_serialize_to_buffer_r esc fmt pr level v = Some t \<Longrightarrow> \<forall>q\<in>numbers v. prints fmt q \<Longrightarrow> value_ok (MAX_NESTING - nesting) v \<Longrightarrow>
   nesting \<le> MAX_NESTING \<Longrightarrow> MAX_NESTING + 2 \<le> d + nesting \<Longrightarrow> delimiter rest \<Longrightarrow>
   parse_value d nesting (t @ rest) = Parsed v rest"
proof (induction v arbitrary: level t nesting d rest)
  case (JSONArray xs)
  obtain e where d: "d = Suc e" using JSONArray.prems(4,5) by (cases d) auto
  show ?case
  proof (cases "xs = []")
    case True
    then show ?thesis using JSONArray.prems(1,4) d by (auto simp: parse_array_value_def isspace_def)
  next
    case False
    obtain body where b: "serialize_items esc fmt pr (level + 1) xs = Some body"
      "t = ''['' @ pretty_only pr [CHR 0x0A] @ body @ pretty_only pr (indent level) @ '']''"
      using JSONArray.prems(1) False by (auto split: option.splits)
    have n: "nesting + 1 \<le> MAX_NESTING" using JSONArray.prems(3,4) False by auto
    have el: "\<forall>x\<in>set xs. \<forall>t. json_serialize_to_buffer_r esc fmt pr (level + 1) x = Some t \<longrightarrow>
        first_ok t \<and> (\<forall>rest. delimiter rest \<longrightarrow> parse_value e (nesting + 1) (t @ rest) = Parsed x rest)"
      using JSONArray.IH [of _ "level + 1" _ "nesting + 1" e] JSONArray.prems(2,3,5) False n d serialize_first by auto
    let ?s = "skip_whitespaces (body @ pretty_only pr (indent level) @ CHR '']'' # rest)"
    note it = items_written [where parse = "parse_value e" and nesting = "nesting + 1", OF el b(1) False, of level rest]
    from it obtain s2 where s2: "parse_items (length ?s + 1) (parse_value e) (nesting + 1) [] ?s = Parsed ([] @ xs) s2"
      "skip_whitespaces s2 = CHR '']'' # rest" by (meson le_SucI Suc_eq_plus1 le_trans order_refl le_add1)
    have first: "at_char ?s 0 \<noteq> CHR '']''" using it by (cases ?s) (auto simp: first_ok_def)
    have "parse_array_value (parse_value e) (nesting + 1) (t @ rest) = Parsed (JSONArray xs) rest"
      using b(2) first s2 False by (simp add: parse_array_value_def Let_def del: parse_items.simps)
    moreover have "skip_whitespaces (t @ rest) = t @ rest" "at_char (t @ rest) 0 = CHR ''[''" using b(2) by (simp_all add: isspace_def)
    ultimately show ?thesis using d JSONArray.prems(4) by (simp add: Let_def)
  qed
next
  case (JSONObject ms)
  obtain e where d: "d = Suc e" using JSONObject.prems(4,5) by (cases d) auto
  show ?case
  proof (cases "ms = []")
    case True
    then show ?thesis using JSONObject.prems(1,4) d by (auto simp: parse_object_value_def isspace_def)
  next
    case False
    obtain body where b: "serialize_members esc fmt pr (level + 1) ms = Some body"
      "t = ''{'' @ pretty_only pr [CHR 0x0A] @ body @ pretty_only pr (indent level) @ ''}''"
      using JSONObject.prems(1) False by (auto split: option.splits)
    have n: "nesting + 1 \<le> MAX_NESTING" using JSONObject.prems(3,4) False by auto
    have el: "\<forall>m\<in>set ms. \<forall>t. json_serialize_to_buffer_r esc fmt pr (level + 1) (snd m) = Some t \<longrightarrow>
        first_ok t \<and> (\<forall>rest. delimiter rest \<longrightarrow> parse_value e (nesting + 1) (pretty_only pr '' '' @ t @ rest) = Parsed (snd m) rest)"
      using JSONObject.IH [of _ _ "level + 1" _ "nesting + 1" e] JSONObject.prems(2,3,5) False n d serialize_first
      by (fastforce simp: space_irrelevant snds.simps)
    let ?s = "skip_whitespaces (body @ pretty_only pr (indent level) @ CHR ''}'' # rest)"
    have ok: "object_ok (json_object_init 0 :: JSON_Value json_object)" "entries (json_object_init 0 :: JSON_Value json_object) = []"
      by (rule object_ok_0)+
    have ms: "distinct (map fst (entries (json_object_init 0) @ ms))" "length (entries (json_object_init 0) @ ms) \<le> MAX_MEMBERS"
      "\<forall>m\<in>set ms. NUL \<notin> set (fst m)"
      using JSONObject.prems(3) False by (auto simp: object_ok_0)
    note it = members_written [where parse = "parse_value e" and nesting = "nesting + 1", OF el b(1) False ok(1) ms, of level rest]
    from it obtain ob s2 where s2: "parse_members (length ?s + 1) (parse_value e) (nesting + 1) (json_object_init 0) ?s = Parsed ob s2"
      "entries ob = [] @ ms" "skip_whitespaces s2 = CHR ''}'' # rest"
      unfolding ok(2) by (meson le_SucI Suc_eq_plus1 le_trans order_refl le_add1)
    have first: "at_char ?s 0 \<noteq> CHR ''}''" using it by simp
    have "parse_object_value (parse_value e) (nesting + 1) (t @ rest) = Parsed (JSONObject ms) rest"
      using b(2) first s2 by (simp add: parse_object_value_def Let_def del: parse_members.simps)
    moreover have "skip_whitespaces (t @ rest) = t @ rest" "at_char (t @ rest) 0 = CHR ''{''" using b(2) by (simp_all add: isspace_def)
    ultimately show ?thesis using d JSONObject.prems(4) by (simp add: Let_def)
  qed
next
  case (JSONNumber q)
  obtain e where d: "d = Suc e" using JSONNumber.prems(4,5) by (cases d) auto
  have p: "t \<noteq> []" "hd t = CHR ''-'' \<or> isdigit (hd t)" "parse_number_value (t @ rest) = Parsed (JSONNumber q) rest"
    using JSONNumber.prems(1,2,6) by (auto simp: prints_def)
  have skip: "skip_whitespaces (t @ rest) = t @ rest" using skip_first serialize_first [OF JSONNumber.prems(1,2)] by blast
  have "at_char (t @ rest) 0 = hd t" using p(1) by (cases t) simp_all
  moreover have "hd t \<notin> {CHR ''{'', CHR ''['', QUOTE, CHR ''f'', CHR ''t''}" using p(2) digit_first [of "hd t"] by auto
  ultimately show ?case using p(2) JSONNumber.prems(4) unfolding d parse_value.simps Let_def skip p(3) by simp
next
  case (JSONString s)
  obtain e where d: "d = Suc e" using JSONString.prems(4,5) by (cases d) auto
  obtain ks where ks: "json_serialize_string esc s = QUOTE # ks" by (simp add: json_serialize_string_def)
  have "parse_string_value (t @ rest) = Parsed (JSONString s) rest"
    using quoted_string_written [of esc s rest] JSONString.prems(1) by (auto simp: parse_string_value_def)
  moreover have t: "t = QUOTE # ks" using JSONString.prems(1) ks by simp
  then have skip: "skip_whitespaces (t @ rest) = t @ rest" "at_char (t @ rest) 0 = QUOTE" by (simp_all add: isspace_def)
  ultimately show ?case using JSONString.prems(4) unfolding d parse_value.simps Let_def skip by simp
next
  case (JSONBoolean b)
  obtain e where d: "d = Suc e" using JSONBoolean.prems(4,5) by (cases d) auto
  then show ?case using JSONBoolean.prems(1,4) by (cases b) (auto simp: isspace_def parse_boolean_value_def Let_def)
next
  case JSONNull
  obtain e where d: "d = Suc e" using JSONNull.prems(4,5) by (cases d) auto
  then show ?case using JSONNull.prems(1,4) by (auto simp: isspace_def parse_null_value_def Let_def isdigit_def)
qed

lemma written_text_read:
  assumes "json_serialize_to_string esc fmt v = Some t \<or> json_serialize_to_string_pretty esc fmt v = Some t"
    and "value_ok MAX_NESTING v" "\<forall>q\<in>numbers v. prints fmt q"
  shows "json_parse_string t = Some v"
proof -
  obtain pr where t: "json_serialize_to_buffer_r esc fmt pr 0 v = Some t"
    using assms(1)
    by (auto simp: json_serialize_to_string_def json_serialize_to_string_pretty_def json_serialize_to_buffer_def
        json_serialize_to_buffer_pretty_def Let_def split: if_splits)
  have "parse_value PARSE_DEPTH 0 (t @ []) = Parsed v []"
    by (rule value_written [OF t assms(3)]) (use assms(2) in \<open>simp_all add: PARSE_DEPTH_def delimiter_def\<close>)
  moreover have "hd t \<noteq> CHR 0xEF"
  proof (cases v)
    case (JSONNumber q)
    then show ?thesis using t assms(3) by (auto simp: prints_def isdigit_def Let_def)
  qed (use t in \<open>auto simp: json_serialize_string_def split: if_splits\<close>)
  moreover have "take 3 t \<noteq> [CHR 0xEF, CHR 0xBB, CHR 0xBF]" using \<open>hd t \<noteq> CHR 0xEF\<close> by (cases t) auto
  ultimately show ?thesis by (simp add: json_parse_string_def)
qed

lemma text_exists: "\<forall>q\<in>numbers v. fmt q \<noteq> None \<Longrightarrow> \<exists>t. json_serialize_to_buffer_r esc fmt pr level v = Some t"
proof (induction v arbitrary: level)
  case (JSONArray xs)
  then have "\<forall>x\<in>set xs. \<exists>t. json_serialize_to_buffer_r esc fmt pr (level + 1) x = Some t" by auto
  then have "\<exists>b. serialize_items esc fmt pr (level + 1) xs = Some b" by (induction xs) auto
  then show ?case by auto
next
  case (JSONObject ms)
  then have "\<forall>m\<in>set ms. \<exists>t. json_serialize_to_buffer_r esc fmt pr (level + 1) (snd m) = Some t"
    by (auto simp: snds.simps)
  then have "\<exists>b. serialize_members esc fmt pr (level + 1) ms = Some b" by (induction ms) auto
  then show ?case by auto
qed auto

text \<open>Whole numbers as \<^verbatim>\<open>"%1.17g"\<close> prints them.\<close>

lemma digit_is: "isdigit (digit n)" "digit_val (digit n) = n mod 10" "digit n = CHR ''0'' \<longleftrightarrow> n mod 10 = 0"
proof -
  have o: "(of_char (digit n) :: nat) = 48 + n mod 10" by (simp add: digit_def)
  then show "isdigit (digit n)" "digit_val (digit n) = n mod 10" by (simp_all add: isdigit_def digit_val_def Let_def)
  have "digit n = CHR ''0'' \<longleftrightarrow> (of_char (digit n) :: nat) = of_char (CHR ''0'')" by (simp only: char_code_inj)
  also have "\<dots> \<longleftrightarrow> n mod 10 = 0" unfolding o by simp
  finally show "digit n = CHR ''0'' \<longleftrightarrow> n mod 10 = 0" .
qed

lemma decimal_digits: "list_all isdigit (decimal n)"
proof (induction n rule: decimal.induct)
  case (1 n)
  then show ?case by (subst decimal.simps) (auto simp: digit_is)
qed

lemma decimal_not_Nil: "decimal n \<noteq> []"
  by (subst decimal.simps) simp

lemma decimal_first: "0 < n \<Longrightarrow> hd (decimal n) \<noteq> CHR ''0''"
proof (induction n rule: decimal.induct)
  case (1 n)
  show ?case
  proof (cases "n < 10")
    case True
    then show ?thesis using 1(2) by (subst decimal.simps) (simp add: digit_is)
  next
    case False
    then have "0 < n div 10" by (simp add: div_greater_zero_iff)
    then show ?thesis using 1(1) False decimal_not_Nil [of "n div 10"] by (subst decimal.simps) (simp add: hd_append)
  qed
qed

lemma digits_val_append: "list_all isdigit ds \<Longrightarrow> digits_val a (ds @ r) = digits_val (digits_val a ds) r"
  by (induction ds arbitrary: a) auto

lemma digits_val_decimal: "digits_val 0 (decimal n) = n"
proof (induction n rule: decimal.induct)
  case (1 n)
  show ?case
  proof (cases "n < 10")
    case True
    then show ?thesis by (subst decimal.simps) (simp add: digit_is)
  next
    case False
    then show ?thesis using 1 decimal_digits [of "n div 10"]
      by (subst decimal.simps) (simp add: digits_val_append digit_is)
  qed
qed

lemma delimiter_first: "delimiter rest \<Longrightarrow> \<not> isdigit (at_char rest 0) \<and> at_char rest 0 \<notin> {CHR ''.'', CHR ''e'', CHR ''E'', CHR ''x'', CHR ''X''}"
  by (cases rest) (auto simp: delimiter_def isdigit_def Let_def)

lemma take_digits:
  assumes "delimiter rest"
  shows "takeWhile isdigit (decimal n @ rest) = decimal n" "dropWhile isdigit (decimal n @ rest) = rest"
proof -
  have "\<forall>c\<in>set (decimal n). isdigit c" using decimal_digits by (simp add: list_all_iff)
  moreover have "takeWhile isdigit rest = []" "dropWhile isdigit rest = rest"
    using delimiter_first [OF assms] by (cases rest; simp)+
  ultimately show "takeWhile isdigit (decimal n @ rest) = decimal n" "dropWhile isdigit (decimal n @ rest) = rest"
    by simp_all
qed

lemma digit_not_letter: "isdigit c \<Longrightarrow> c \<notin> {CHR ''i'', CHR ''I'', CHR ''n'', CHR ''N'', CHR ''x'', CHR ''X'', CHR ''-'', CHR ''+'', CHR ''.'', NUL}"
  by (auto simp: isdigit_def Let_def)

lemma decimal_chars:
  assumes "delimiter rest"
  shows "isdigit (at_char (decimal n @ rest) 0)" "at_char (decimal n @ rest) 1 \<notin> {CHR ''x'', CHR ''X''}"
    "\<not> number_word (decimal n @ rest)" "\<not> hexadecimal (decimal n @ rest)"
proof -
  obtain c ds where d: "decimal n = c # ds" using decimal_not_Nil by (cases "decimal n") auto
  then have dd: "isdigit c" "list_all isdigit ds" using decimal_digits [of n] by simp_all
  show h: "isdigit (at_char (decimal n @ rest) 0)" using d dd by simp
  show x: "at_char (decimal n @ rest) 1 \<notin> {CHR ''x'', CHR ''X''}"
    using d dd(2) delimiter_first [OF assms] digit_not_letter by (cases ds) auto
  show "\<not> number_word (decimal n @ rest)" using digit_not_letter [OF h] by (auto simp: number_word_def)
  show "\<not> hexadecimal (decimal n @ rest)" using x by (auto simp: hexadecimal_def)
qed

lemma strtod_decimal:
  assumes "delimiter rest"
  shows "strtod (decimal n @ rest) = (Some (of_nat n), rest)" "strtod (CHR ''-'' # decimal n @ rest) = (Some (- of_nat n), rest)"
proof -
  obtain c ds where d: "decimal n = c # ds" using decimal_not_Nil by (cases "decimal n") auto
  then have c: "isdigit c" using decimal_digits [of n] by simp
  then have "sign_of (dropWhile isspace (decimal n @ rest)) = (False, decimal n @ rest)"
    using d digit_first [OF c] digit_not_letter [OF c] by auto
  moreover have "sign_of (dropWhile isspace (CHR ''-'' # decimal n @ rest)) = (True, decimal n @ rest)"
    by (simp add: isspace_def)
  moreover have "strtod_fraction (decimal n) rest = ([], rest)" "strtod_exponent rest = (0, rest)"
    using delimiter_first [OF assms] by (simp_all add: strtod_fraction_def strtod_exponent_def)
  ultimately show "strtod (decimal n @ rest) = (Some (of_nat n), rest)" "strtod (CHR ''-'' # decimal n @ rest) = (Some (- of_nat n), rest)"
    using take_digits [OF assms, of n] decimal_chars [OF assms, of n] decimal_not_Nil [of n]
    by (simp_all add: strtod_def Let_def digits_val_decimal frac_val_def scale10_def)
qed

lemma decimal_is_decimal:
  assumes "delimiter rest"
  shows "is_decimal (decimal n @ rest) (length (decimal n))" "is_decimal (CHR ''-'' # decimal n @ rest) (Suc (length (decimal n)))"
proof -
  have all: "\<forall>c\<in>set (decimal n). c \<notin> {CHR ''x'', CHR ''X'', NUL}"
    using decimal_digits [of n] digit_not_letter by (auto simp: list_all_iff)
  have zero: "at_char (decimal n @ rest) 0 \<noteq> CHR ''0'' \<or> length (decimal n) = 1"
  proof (cases "n = 0")
    case False
    then show ?thesis using decimal_first [of n] decimal_not_Nil [of n] by (cases "decimal n") auto
  qed (simp add: decimal_digit)
  have "at_char (decimal n @ rest) 0 \<noteq> CHR ''-''" using decimal_chars(1) [OF assms, of n] digit_not_letter by blast
  then show "is_decimal (decimal n @ rest) (length (decimal n))" unfolding is_decimal_def using all zero by simp
  show "is_decimal (CHR ''-'' # decimal n @ rest) (Suc (length (decimal n)))" unfolding is_decimal_def using all zero by simp
qed

lemma prints_integer:
  assumes "fmt (of_int i) = Some (show_int i)" "\<bar>i\<bar> < 10 ^ 17"
  shows "prints fmt (of_int i)"
proof -
  have small: "\<not> too_large (of_int i)"
  proof -
    have "\<bar>of_int i :: rat\<bar> < 10 ^ 17" using assms(2) by (metis of_int_abs of_int_less_iff of_int_numeral of_int_power)
    moreover have "(10 :: rat) ^ 17 \<le> 2 ^ 1024 - 2 ^ 970" by simp
    ultimately show ?thesis by (simp add: too_large_def)
  qed
  have parse: "parse_number_value (show_int i @ rest) = Parsed (JSONNumber (of_int i)) rest" if "delimiter rest" for rest
    using strtod_decimal [OF that, of "nat (- i)"] strtod_decimal [OF that, of "nat i"] small
      decimal_is_decimal [OF that, of "nat (- i)"] decimal_is_decimal [OF that, of "nat i"]
    by (auto simp: parse_number_value_def show_int_def)
  have "show_int i \<noteq> [] \<and> (hd (show_int i) = CHR ''-'' \<or> isdigit (hd (show_int i)))"
    using decimal_not_Nil [of "nat i"] decimal_digits [of "nat i"] by (cases "decimal (nat i)") (auto simp: show_int_def)
  then show ?thesis using assms(1) parse by (auto simp: prints_def)
qed

text \<open>
  C36. What is written is read back. The text of a well-formed value with whole numbers, in one line or indented,
  with slashes escaped or not, is read as that value. The function that prints numbers is only asked to
  print whole numbers below \<open>10 ^ 17\<close> by their digits, as \<^verbatim>\<open>"%1.17g"\<close> does.
\<close>

theorem json_roundtrip:
  assumes "value_ok MAX_NESTING v"
    and "\<forall>q\<in>numbers v. \<exists>i. q = of_int i \<and> \<bar>i\<bar> < 10 ^ 17"
    and "\<forall>i. \<bar>i\<bar> < 10 ^ 17 \<longrightarrow> fmt (of_int i) = Some (show_int i)"
  shows "(\<exists>t. json_serialize_to_string esc fmt v = Some t \<and> json_parse_string t = Some v) \<and>
    (\<exists>t. json_serialize_to_string_pretty esc fmt v = Some t \<and> json_parse_string t = Some v)"
proof -
  have p: "\<forall>q\<in>numbers v. prints fmt q"
  proof
    fix q assume "q \<in> numbers v"
    then obtain i where "q = of_int i" "\<bar>i\<bar> < 10 ^ 17" using assms(2) by blast
    then show "prints fmt q" using assms(3) prints_integer [of fmt i] by simp
  qed
  then have "\<forall>q\<in>numbers v. fmt q \<noteq> None" by (auto simp: prints_def)
  then have "\<exists>t. json_serialize_to_string esc fmt v = Some t" "\<exists>t. json_serialize_to_string_pretty esc fmt v = Some t"
    using text_exists [of v fmt esc False 0] text_exists [of v fmt esc True 0]
    by (auto simp: json_serialize_to_string_def json_serialize_to_string_pretty_def json_serialize_to_buffer_def
        json_serialize_to_buffer_pretty_def json_serialization_size_def json_serialization_size_pretty_def Let_def)
  with written_text_read [OF _ assms(1) p]
  show ?thesis by blast
qed

definition exchange_file :: JSON_Value where
  "exchange_file = JSONObject [(''name'', JSONString ''CME/1''), (''running'', JSONNumber 1),
     (''port'', JSONArray [JSONObject [(''room'', JSONNumber 4096), (''last'', JSONNull)], JSONBoolean True])]"

theorem json_roundtrip_witness:
  "\<exists>t. json_serialize_to_string_pretty True (\<lambda>q. Some (show_int \<lfloor>q\<rfloor>)) exchange_file = Some t \<and>
     json_parse_string t = Some exchange_file"
proof (rule json_roundtrip [THEN conjunct2])
  show "value_ok MAX_NESTING exchange_file" by (simp add: exchange_file_def MAX_NESTING_def MAX_MEMBERS_def)
  show "\<forall>q\<in>numbers exchange_file. \<exists>i. q = of_int i \<and> \<bar>i\<bar> < 10 ^ 17"
    by (auto simp: exchange_file_def intro: exI [of _ 1] exI [of _ 4096])
qed simp

end
