(* ===== verification/JsonApi.thy ===== *)
theory JsonApi
  imports JsonParse
begin

text \<open>
  The rest of the interface of \<^verbatim>\<open>src/lib/main/parson.c\<close>: comments, names with dots, copies, comparison and
  validation of values, and arrays that grow. Values are trees here and the members of an object stand in
  the order of its table, whose operations on a list of members are those of \<open>JsonTable\<close>:
  setting is \<open>AList.update\<close>, removing \<open>swap_out\<close>. Memory is taken to be there.
\<close>

subsection \<open>Comments\<close>

fun strstr :: "string \<Rightarrow> string \<Rightarrow> nat option" where
  "strstr s token =
     (if take (length token) s = token then Some 0
      else case s of [] \<Rightarrow> None | c # t \<Rightarrow> map_option Suc (strstr t token))"

declare strstr.simps [simp del]

definition blanks :: "nat \<Rightarrow> string" where
  "blanks n = replicate n (CHR '' '')"

text \<open>The loop of \<^verbatim>\<open>remove_comments\<close> from its pointer on. Both tokens have at least one character.\<close>

function remove_from :: "string \<Rightarrow> string \<Rightarrow> bool \<Rightarrow> bool \<Rightarrow> string \<Rightarrow> string" where
  "remove_from start_token end_token in_string esc s =
     (case s of
        [] \<Rightarrow> []
      | c # t \<Rightarrow>
          if c = BACKSLASH \<and> \<not> esc then c # remove_from start_token end_token in_string True t
          else if c = QUOTE \<and> \<not> esc then c # remove_from start_token end_token (\<not> in_string) False t
          else if \<not> in_string \<and> start_token \<noteq> [] \<and> take (length start_token) s = start_token then
            (let u = drop (length start_token) s in
             case strstr u end_token of
               None \<Rightarrow> blanks (length start_token) @ u
             | Some i \<Rightarrow>
                 blanks (length start_token) @ blanks (i + length end_token) @
                 remove_from start_token end_token in_string False (drop (i + length end_token) u))
          else c # remove_from start_token end_token in_string False t)"
  by pat_completeness auto
termination
  by (relation "measure (\<lambda>(_, _, _, _, s). length s)") (auto simp: neq_Nil_conv)

declare remove_from.simps [simp del]

definition remove_comments :: "string \<Rightarrow> string \<Rightarrow> string \<Rightarrow> string" where
  "remove_comments s start_token end_token =
     (if length start_token = 0 \<or> length end_token = 0 then s else remove_from start_token end_token False False s)"

definition json_parse_string_with_comments :: "string \<Rightarrow> JSON_Value option" where
  "json_parse_string_with_comments s =
     (let s = remove_comments s ''/*'' ''*/'';
          s = remove_comments s ''//'' [CHR 0x0A]
      in case parse_value PARSE_DEPTH 0 s of Parsed v rest \<Rightarrow> Some v | _ \<Rightarrow> None)"

definition json_parse_file_with_comments :: "string option \<Rightarrow> JSON_Value option" where
  "json_parse_file_with_comments contents =
     (case contents of None \<Rightarrow> None | Some s \<Rightarrow> json_parse_string_with_comments s)"

subsection \<open>More access functions\<close>

definition json_value_get_string_len :: "JSON_Value option \<Rightarrow> nat" where
  "json_value_get_string_len v = (case v of Some (JSONString s) \<Rightarrow> length s | _ \<Rightarrow> 0)"

definition json_value_get_boolean :: "JSON_Value option \<Rightarrow> int" where
  "json_value_get_boolean v = (case v of Some (JSONBoolean b) \<Rightarrow> (if b then 1 else 0) | _ \<Rightarrow> -1)"

text \<open>\<^verbatim>\<open>JSON_Value_Type\<close>; \<^verbatim>\<open>JSONError\<close> is the type of the null pointer.\<close>

datatype JSON_Value_Type = JSONError | TNull | TString | TNumber | TObject | TArray | TBoolean

definition json_value_get_type :: "JSON_Value option \<Rightarrow> JSON_Value_Type" where
  "json_value_get_type v =
     (case v of
        None \<Rightarrow> JSONError
      | Some JSONNull \<Rightarrow> TNull
      | Some (JSONString _) \<Rightarrow> TString
      | Some (JSONNumber _) \<Rightarrow> TNumber
      | Some (JSONObject _) \<Rightarrow> TObject
      | Some (JSONArray _) \<Rightarrow> TArray
      | Some (JSONBoolean _) \<Rightarrow> TBoolean)"

definition json_object_get_boolean :: "JSON_Object option \<Rightarrow> string \<Rightarrow> int" where
  "json_object_get_boolean ob name = json_value_get_boolean (json_object_get_value ob name)"

definition json_object_get_string_len :: "JSON_Object option \<Rightarrow> string \<Rightarrow> nat" where
  "json_object_get_string_len ob name = json_value_get_string_len (json_object_get_value ob name)"

definition json_object_get_count :: "JSON_Object option \<Rightarrow> nat" where
  "json_object_get_count ob = (case ob of None \<Rightarrow> 0 | Some ms \<Rightarrow> length ms)"

definition json_object_get_name :: "JSON_Object option \<Rightarrow> nat \<Rightarrow> string option" where
  "json_object_get_name ob index =
     (case ob of None \<Rightarrow> None | Some ms \<Rightarrow> if index \<ge> json_object_get_count ob then None else Some (fst (ms ! index)))"

definition json_object_get_value_at :: "JSON_Object option \<Rightarrow> nat \<Rightarrow> JSON_Value option" where
  "json_object_get_value_at ob index =
     (case ob of None \<Rightarrow> None | Some ms \<Rightarrow> if index \<ge> json_object_get_count ob then None else Some (snd (ms ! index)))"

definition json_object_has_value :: "JSON_Object option \<Rightarrow> string \<Rightarrow> bool" where
  "json_object_has_value ob name \<longleftrightarrow> json_object_get_value ob name \<noteq> None"

definition json_object_has_value_of_type :: "JSON_Object option \<Rightarrow> string \<Rightarrow> JSON_Value_Type \<Rightarrow> bool" where
  "json_object_has_value_of_type ob name type \<longleftrightarrow>
     (let val = json_object_get_value ob name in val \<noteq> None \<and> json_value_get_type val = type)"

definition json_array_get_string :: "JSON_Array option \<Rightarrow> nat \<Rightarrow> string option" where
  "json_array_get_string arr index = json_value_get_string (json_array_get_value arr index)"

definition json_array_get_string_len :: "JSON_Array option \<Rightarrow> nat \<Rightarrow> nat" where
  "json_array_get_string_len arr index = json_value_get_string_len (json_array_get_value arr index)"

definition json_array_get_number :: "JSON_Array option \<Rightarrow> nat \<Rightarrow> rat" where
  "json_array_get_number arr index = json_value_get_number (json_array_get_value arr index)"

definition json_array_get_array :: "JSON_Array option \<Rightarrow> nat \<Rightarrow> JSON_Array option" where
  "json_array_get_array arr index = json_value_get_array (json_array_get_value arr index)"

definition json_array_get_boolean :: "JSON_Array option \<Rightarrow> nat \<Rightarrow> int" where
  "json_array_get_boolean arr index = json_value_get_boolean (json_array_get_value arr index)"

definition json_value_init_string_with_len :: "string \<Rightarrow> JSON_Value option" where
  "json_value_init_string_with_len s = (if \<not> is_valid_utf8 s (length s) then None else Some (JSONString s))"

definition json_value_init_string :: "string \<Rightarrow> JSON_Value option" where
  "json_value_init_string s = json_value_init_string_with_len (cstr s)"

subsection \<open>Names with dots\<close>

text \<open>The name up to the first dot and, if there is one, what follows it.\<close>

definition dot_split :: "string \<Rightarrow> string \<times> string option" where
  "dot_split name =
     (let pre = takeWhile (\<lambda>c. c \<noteq> CHR ''.'') name; post = dropWhile (\<lambda>c. c \<noteq> CHR ''.'') name
      in (pre, if post = [] then None else Some (drop 1 post)))"

lemma dot_split_shorter: "dot_split name = (pre, Some post) \<Longrightarrow> length post < length name"
  using length_dropWhile_le [of "\<lambda>c. c \<noteq> CHR ''.''" name]
  by (cases "dropWhile (\<lambda>c. c \<noteq> CHR ''.'') name") (auto simp: dot_split_def Let_def split: if_splits)

function json_object_dotget_value :: "JSON_Object option \<Rightarrow> string \<Rightarrow> JSON_Value option" where
  "json_object_dotget_value ob name =
     (case dot_split name of
        (pre, None) \<Rightarrow> json_object_get_value ob name
      | (pre, Some post) \<Rightarrow> json_object_dotget_value (json_value_get_object (json_object_get_value ob pre)) post)"
  by pat_completeness auto
termination
  by (relation "measure (length \<circ> snd)") (auto dest!: dot_split_shorter [OF sym])

declare json_object_dotget_value.simps [simp del]

text \<open>\<open>None\<close> is \<^verbatim>\<open>JSONFailure\<close>: something on the way is not an object. The value belongs to nothing yet.\<close>

function json_object_dotset_value :: "JSON_Object \<Rightarrow> string \<Rightarrow> JSON_Value \<Rightarrow> JSON_Object option" where
  "json_object_dotset_value ob name v =
     (case dot_split name of
        (pre, None) \<Rightarrow> Some (AList.update name v ob)
      | (pre, Some post) \<Rightarrow>
          (case json_object_get_value (Some ob) pre of
             Some temp_value \<Rightarrow>
               (case temp_value of
                  JSONObject temp_object \<Rightarrow>
                    map_option (\<lambda>t. AList.update pre (JSONObject t) ob) (json_object_dotset_value temp_object post v)
                | _ \<Rightarrow> None)
           | None \<Rightarrow> map_option (\<lambda>t. ob @ [(pre, JSONObject t)]) (json_object_dotset_value [] post v)))"
  by pat_completeness auto
termination
  by (relation "measure (\<lambda>(_, name, _). length name)") (auto dest!: dot_split_shorter [OF sym])

declare json_object_dotset_value.simps [simp del]

text \<open>\<^verbatim>\<open>json_object_dotremove_internal\<close>; the removal itself moves the last member into the gap.\<close>

definition remove_member :: "JSON_Object \<Rightarrow> string \<Rightarrow> JSON_Object option" where
  "remove_member ob name =
     (case List.find (\<lambda>i. fst (ob ! i) = name) [0..<length ob] of
        None \<Rightarrow> None
      | Some i \<Rightarrow> Some (swap_out i ob))"

function json_object_dotremove :: "JSON_Object \<Rightarrow> string \<Rightarrow> JSON_Object option" where
  "json_object_dotremove ob name =
     (case dot_split name of
        (pre, None) \<Rightarrow> remove_member ob name
      | (pre, Some post) \<Rightarrow>
          (case json_object_get_value (Some ob) pre of
             Some (JSONObject temp_object) \<Rightarrow>
               map_option (\<lambda>t. AList.update pre (JSONObject t) ob) (json_object_dotremove temp_object post)
           | _ \<Rightarrow> None))"
  by pat_completeness auto
termination
  by (relation "measure (length \<circ> snd)") (auto dest!: dot_split_shorter [OF sym])

declare json_object_dotremove.simps [simp del]

subsection \<open>Copies, comparison and validation\<close>

lemma size_member: "map_of ms k = Some v \<Longrightarrow> size v < Suc (size_list (size_prod (\<lambda>x. 0) size) ms)"
  by (induction ms) (auto split: if_splits)

text \<open>
  \<^verbatim>\<open>json_value_deep_copy\<close>: every member is looked up by its name and added to the copy, which refuses
  a name it has.
\<close>

function json_value_deep_copy :: "JSON_Value \<Rightarrow> JSON_Value option"
  and copy_items :: "JSON_Value list \<Rightarrow> JSON_Value list option"
  and copy_members :: "(string \<times> JSON_Value) list \<Rightarrow> string list \<Rightarrow> (string \<times> JSON_Value) list \<Rightarrow> (string \<times> JSON_Value) list option" where
  "json_value_deep_copy (JSONArray xs) = map_option JSONArray (copy_items xs)"
| "json_value_deep_copy (JSONObject ms) = map_option JSONObject (copy_members ms (map fst ms) [])"
| "json_value_deep_copy (JSONBoolean b) = Some (JSONBoolean b)"
| "json_value_deep_copy (JSONNumber q) = Some (JSONNumber q)"
| "json_value_deep_copy (JSONString s) = Some (JSONString s)"
| "json_value_deep_copy JSONNull = Some JSONNull"
| "copy_items [] = Some []"
| "copy_items (x # xs) =
     (case json_value_deep_copy x of None \<Rightarrow> None | Some y \<Rightarrow> map_option ((#) y) (copy_items xs))"
| "copy_members ms [] acc = Some acc"
| "copy_members ms (key # keys) acc =
     (case map_of ms key of
        None \<Rightarrow> None
      | Some v \<Rightarrow>
          (case json_value_deep_copy v of
             None \<Rightarrow> None
           | Some w \<Rightarrow> if key \<in> fst ` set acc then None else copy_members ms keys (acc @ [(key, w)])))"
  by pat_completeness auto
termination
  by (relation "measures [\<lambda>x. case x of Inl v \<Rightarrow> size v | Inr (Inl xs) \<Rightarrow> size_list size xs | Inr (Inr (ms, _)) \<Rightarrow> size_list (size_prod (\<lambda>x. 0) size) ms,
      \<lambda>x. case x of Inr (Inr (_, keys, _)) \<Rightarrow> length keys | _ \<Rightarrow> 0]") (auto dest: size_member)

lemma size_pair: "(x, y) \<in> set (zip xs ys) \<Longrightarrow> size x < Suc (size_list size xs)"
  by (metis in_set_zipE le_imp_less_Suc size_list_estimation' order_refl)

text \<open>The names of the first object are looked up in both; two null pointers are equal.\<close>

function json_value_equals :: "JSON_Value \<Rightarrow> JSON_Value \<Rightarrow> bool" where
  "json_value_equals a b =
     (case (a, b) of
        (JSONArray xs, JSONArray ys) \<Rightarrow>
          length xs = length ys \<and> list_all (\<lambda>(x, y). json_value_equals x y) (zip xs ys)
      | (JSONObject ms, JSONObject ns) \<Rightarrow>
          length ms = length ns \<and>
          list_all (\<lambda>key. case (map_of ms key, map_of ns key) of
              (Some v, Some w) \<Rightarrow> json_value_equals v w
            | (None, None) \<Rightarrow> True
            | _ \<Rightarrow> False) (map fst ms)
      | (JSONString s, JSONString t) \<Rightarrow> length s = length t \<and> s = t
      | (JSONBoolean p, JSONBoolean q) \<Rightarrow> p = q
      | (JSONNumber x, JSONNumber y) \<Rightarrow> \<bar>x - y\<bar> < 1 / 1000000
      | (JSONNull, JSONNull) \<Rightarrow> True
      | _ \<Rightarrow> False)"
  by pat_completeness auto
termination
  by (relation "measure (size \<circ> fst)") (auto dest: size_member [OF sym] size_pair)

declare json_value_equals.simps [simp del]

text \<open>
  A null in the schema stands for every value, the first element of an array for every element, and an
  object for the members it names.
\<close>

function json_validate :: "JSON_Value \<Rightarrow> JSON_Value \<Rightarrow> bool" where
  "json_validate schema v =
     (if json_value_get_type (Some schema) \<noteq> json_value_get_type (Some v) \<and> json_value_get_type (Some schema) \<noteq> TNull then False
      else case (schema, v) of
        (JSONArray xs, JSONArray ys) \<Rightarrow>
          (case xs of [] \<Rightarrow> True | x # _ \<Rightarrow> list_all (\<lambda>y. json_validate x y) ys)
      | (JSONObject ms, JSONObject ns) \<Rightarrow>
          if length ms = 0 then True
          else if length ns < length ms then False
          else list_all (\<lambda>key. case (map_of ms key, map_of ns key) of
              (Some x, Some y) \<Rightarrow> json_validate x y
            | _ \<Rightarrow> False) (map fst ms)
      | _ \<Rightarrow> True)"
  by pat_completeness auto
termination
  by (relation "measure (size \<circ> fst)") (auto dest: size_member [OF sym])

declare json_validate.simps [simp del]

subsection \<open>Arrays\<close>

text \<open>The items and the room for them; a write behind the room is undefined (\<open>None\<close>).\<close>

record json_array =
  a_items :: "JSON_Value list"
  a_capacity :: nat

definition json_array_make :: json_array where
  "json_array_make = \<lparr>a_items = [], a_capacity = 0\<rparr>"

definition json_array_resize :: "json_array \<Rightarrow> nat \<Rightarrow> json_array option" where
  "json_array_resize arr new_capacity =
     (if new_capacity = 0 then None else Some (arr\<lparr>a_capacity := new_capacity\<rparr>))"

definition json_array_add :: "json_array \<Rightarrow> JSON_Value \<Rightarrow> json_array option" where
  "json_array_add arr v =
     (let new_capacity = max (a_capacity arr * 2) STARTING_CAPACITY;
          grown = (if length (a_items arr) \<ge> a_capacity arr then json_array_resize arr new_capacity else Some arr)
      in case grown of
           None \<Rightarrow> None
         | Some arr \<Rightarrow> if a_capacity arr \<le> length (a_items arr) then None else Some (arr\<lparr>a_items := a_items arr @ [v]\<rparr>))"

definition json_array_append_value :: "json_array \<Rightarrow> bool \<Rightarrow> JSON_Value \<Rightarrow> json_array option" where
  "json_array_append_value arr has_parent v = (if has_parent then None else json_array_add arr v)"

definition json_array_remove :: "json_array \<Rightarrow> nat \<Rightarrow> json_array option" where
  "json_array_remove arr ix =
     (if ix \<ge> length (a_items arr) then None
      else Some (arr\<lparr>a_items := take ix (a_items arr) @ drop (Suc ix) (a_items arr)\<rparr>))"

definition json_array_replace_value :: "json_array \<Rightarrow> nat \<Rightarrow> bool \<Rightarrow> JSON_Value \<Rightarrow> json_array option" where
  "json_array_replace_value arr ix has_parent v =
     (if has_parent \<or> ix \<ge> length (a_items arr) then None else Some (arr\<lparr>a_items := (a_items arr)[ix := v]\<rparr>))"

definition json_array_clear :: "json_array \<Rightarrow> json_array option" where
  "json_array_clear arr = Some (arr\<lparr>a_items := []\<rparr>)"

definition array_ok :: "json_array \<Rightarrow> bool" where
  "array_ok arr \<longleftrightarrow> length (a_items arr) \<le> a_capacity arr"

lemma array_add_ok:
  assumes "array_ok arr"
  shows "\<exists>arr'. json_array_add arr v = Some arr' \<and> array_ok arr' \<and> a_items arr' = a_items arr @ [v]"
  using assms by (auto simp: json_array_add_def json_array_resize_def array_ok_def STARTING_CAPACITY_def Let_def)

lemma array_change_ok:
  "array_ok arr \<Longrightarrow> json_array_remove arr ix = Some arr' \<Longrightarrow> array_ok arr'"
  "array_ok arr \<Longrightarrow> json_array_replace_value arr ix p v = Some arr' \<Longrightarrow> array_ok arr'"
  "array_ok arr \<Longrightarrow> json_array_clear arr = Some arr' \<Longrightarrow> array_ok arr'"
  by (auto simp: json_array_remove_def json_array_replace_value_def json_array_clear_def array_ok_def split: if_splits)

text \<open>The loop of the parser that adds the items one by one ends with the list of them.\<close>

lemma array_adds: "array_ok arr \<Longrightarrow>
  \<exists>arr'. foldl (\<lambda>a v. Option.bind a (\<lambda>a. json_array_add a v)) (Some arr) vs = Some arr' \<and> array_ok arr' \<and> a_items arr' = a_items arr @ vs"
proof (induction vs arbitrary: arr)
  case (Cons v vs)
  obtain arr1 where "json_array_add arr v = Some arr1" "array_ok arr1" "a_items arr1 = a_items arr @ [v]"
    using array_add_ok [OF Cons.prems] by blast
  then show ?case using Cons.IH [of arr1] by auto
qed simp

subsection \<open>What the interface promises\<close>

lemma copy_members_all:
  assumes "\<forall>m\<in>set ms. map_of full (fst m) = Some (snd m) \<and> json_value_deep_copy (snd m) = Some (snd m)"
    and "distinct (map fst (acc @ ms))"
  shows "copy_members full (map fst ms) acc = Some (acc @ ms)"
  using assms
proof (induction ms arbitrary: acc)
  case (Cons m ms)
  then show ?case using Cons.IH [of "acc @ [m]"] by (cases m) auto
qed simp

lemma copy_is_value: "value_ok n v \<Longrightarrow> json_value_deep_copy v = Some v"
proof (induction v arbitrary: n)
  case (JSONArray xs)
  then have "\<forall>x\<in>set xs. json_value_deep_copy x = Some x" by (cases "xs = []") auto
  then have "copy_items xs = Some xs" by (induction xs) auto
  then show ?case by simp
next
  case (JSONObject ms)
  have d: "distinct (map fst ms)" using JSONObject.prems by simp
  have "\<forall>m\<in>set ms. json_value_deep_copy (snd m) = Some (snd m)"
  proof
    fix m assume m: "m \<in> set ms"
    then have "ms \<noteq> []" by auto
    then have "value_ok (n - 1) (snd m)" using JSONObject.prems m by auto
    then show "json_value_deep_copy (snd m) = Some (snd m)" using JSONObject.IH [OF m] by (cases m) (auto simp: snds.simps)
  qed
  then have "copy_members ms (map fst ms) [] = Some ([] @ ms)" using d by (intro copy_members_all) auto
  then show ?case by simp
qed auto

lemma equals_itself: "json_value_equals v v"
proof (induction v)
  case (JSONArray xs)
  have "list_all (\<lambda>(x, y). json_value_equals x y) (zip xs xs)"
    using JSONArray by (auto simp: list_all_iff zip_same_conv_map)
  then show ?case by (simp add: json_value_equals.simps [of "JSONArray xs"])
next
  case (JSONObject ms)
  have "json_value_equals v v" if "map_of ms k = Some v" for k v
    using JSONObject [of "(k, v)" v] map_of_SomeD [OF that] by (simp add: snds.simps)
  then show ?case by (subst json_value_equals.simps) (auto simp: list_all_iff split: option.split)
qed (simp_all add: json_value_equals.simps)

lemma dot_set_get: "json_object_dotset_value ob name v = Some ob' \<Longrightarrow> json_object_dotget_value (Some ob') name = Some v"
proof (induction ob name v arbitrary: ob' rule: json_object_dotset_value.induct)
  case (1 ob name v)
  obtain pre post where d: "dot_split name = (pre, post)" by fastforce
  show ?case
  proof (cases post)
    case None
    then show ?thesis using 1(3) d
      by (auto simp: json_object_dotset_value.simps [of ob name] json_object_dotget_value.simps [of _ name]
          json_object_get_value_def AList.update_conv')
  next
    case (Some rest)
    show ?thesis
    proof (cases "json_object_get_value (Some ob) pre")
      case None
      then obtain t where t: "json_object_dotset_value [] rest v = Some t" "ob' = ob @ [(pre, JSONObject t)]"
        using 1(3) d Some by (auto simp: json_object_dotset_value.simps [of ob name])
      moreover have "json_object_get_value (Some ob') pre = Some (JSONObject t)"
        using None t(2) by (simp add: json_object_get_value_def map_add_def)
      ultimately show ?thesis using 1(1) [OF d [symmetric] Some None t(1)] d Some
        by (simp add: json_object_dotget_value.simps [of _ name] json_value_get_object_def)
    next
      case temp: (Some temp)
      then obtain sub t where t: "temp = JSONObject sub" "json_object_dotset_value sub rest v = Some t"
        "ob' = AList.update pre (JSONObject t) ob"
        using 1(3) d Some by (auto simp: json_object_dotset_value.simps [of ob name] split: JSON_Value.splits)
      have "json_object_get_value (Some ob') pre = Some (JSONObject t)"
        using t(3) by (simp add: json_object_get_value_def AList.update_conv')
      then show ?thesis using 1(2) [OF d [symmetric] Some temp t(1,2)] d Some
        by (simp add: json_object_dotget_value.simps [of _ name] json_value_get_object_def)
    qed
  qed
qed

text \<open>
  What is set under a name with dots is found under it. The objects on the way are made where they
  are missing, and what is no object is left alone.
\<close>

theorem dotted_names:
  assumes "json_object_dotset_value ob name v = Some ob'"
  shows "json_object_dotget_value (Some ob') name = Some v"
  by (rule dot_set_get [OF assms])

theorem dotted_names_witness:
  "\<exists>ob'. json_object_dotset_value [] ''nic.eth0'' (JSONNumber 1) = Some ob' \<and>
     json_object_dotget_value (Some ob') ''nic.eth0'' = Some (JSONNumber 1)"
proof -
  have "json_object_dotset_value [] ''nic.eth0'' (JSONNumber 1) = Some [(''nic'', JSONObject [(''eth0'', JSONNumber 1)])]"
    by (simp add: json_object_dotset_value.simps [of _ "''nic.eth0''"] json_object_dotset_value.simps [of _ "''eth0''"]
        dot_split_def json_object_get_value_def)
  from dotted_names [OF this] this show ?thesis by blast
qed

text \<open>
  A value that is read can be copied, the copy is the value, and a value equals itself.
\<close>

theorem copy_equals:
  assumes "json_parse_string s = Some v"
  shows "json_value_deep_copy v = Some v \<and> json_value_equals v v"
proof -
  obtain t rest where "parse_value PARSE_DEPTH 0 t = Parsed v rest"
    using assms by (auto simp: json_parse_string_def Let_def split: answer.splits)
  from parse_wellformed [OF this] show ?thesis by (simp add: copy_is_value equals_itself)
qed

text \<open>Equality of numbers allows a difference, and so is not transitive.\<close>

lemma equals_not_transitive:
  "json_value_equals (JSONNumber 0) (JSONNumber (9 / 10000000)) \<and>
   json_value_equals (JSONNumber (9 / 10000000)) (JSONNumber (18 / 10000000)) \<and>
   \<not> json_value_equals (JSONNumber 0) (JSONNumber (18 / 10000000))"
  by (simp add: json_value_equals.simps)

end
